(* ===== verification/EB_Prelude.thy ===== *)
theory EB_Prelude
  imports Main "HOL-Library.Word" "HOL-Library.Monad_Syntax"
begin

text \<open>
  Shared layer of the development of the Etherbone library
  (\<^verbatim>\<open>ip_cores/etherbone-core/api\<close>). It holds

  \<^item> the C integer types as type synonyms over \<^verbatim>\<open>HOL-Library.Word\<close>
    (64-bit build: \<^verbatim>\<open>uintptr_t\<close> is 64 bits wide, array memory model: a pointer type
    \<^verbatim>\<open>EB_POINTER(t)\<close> is a 16-bit handle);
  \<^item> intrusive singly linked lists: the predicate \<open>chain\<close>, the traversal \<open>walk\<close>, and
    \<open>rev_links\<close>, the in-place list reversal that occurs five times in the C code,
    with the contract \<open>link_field\<close> of the field the list runs through;
  \<^item> integers in raw memory (\<open>get_raw\<close>, \<open>put_raw\<close>);
  \<^item> the collections \<open>eb_unfold\<close> (definitions to unfold when a closed term is evaluated) and
    \<open>eb_frame\<close> (what an operation leaves unchanged);
  \<^item> generic lemmas on lists, options and words.
\<close>

unbundle bit_operations_syntax

named_theorems eb_unfold \<open>definitions unfolded when a concrete run is evaluated\<close>
named_theorems eb_frame \<open>what an operation leaves unchanged\<close>

section \<open>C integer types\<close>

type_synonym uint8 = "8 word"
type_synonym uint16 = "16 word"
type_synonym uint32 = "32 word"
type_synonym uint64 = "64 word"
type_synonym bytes = "uint8 list"

type_synonym eb_ptr = "16 word"
type_synonym eb_address_t = "64 word"
type_synonym eb_data_t = "64 word"
type_synonym eb_width_t = "8 word"
type_synonym eb_format_t = "8 word"
type_synonym eb_operation_flags_t = "8 word"
type_synonym eb_user_data_t = "64 word"
type_synonym eb_status_t = int

section \<open>Options\<close>

declare bind_eq_Some_conv [simp]
declare bind_eq_None_conv [simp]

lemma bind_SomeE: "Option.bind m f = Some y \<Longrightarrow> (\<And>x. m = Some x \<Longrightarrow> f x = Some y \<Longrightarrow> P) \<Longrightarrow> P"
  by (cases m) auto

section \<open>Lists\<close>

lemma nth_in_set_take: "i < k \<Longrightarrow> k \<le> length xs \<Longrightarrow> xs ! i \<in> set (take k xs)"
  by (metis length_take min.absorb2 nth_mem nth_take)

section \<open>Words\<close>

lemma unat_of_nat_small: "k < 2 ^ LENGTH('a) \<Longrightarrow> unat (word_of_nat k :: 'a :: len word) = k"
  by (simp add: unsigned_of_nat take_bit_nat_eq_self)

lemma word_of_nat_eq_small:
  "j < 2 ^ LENGTH('a) \<Longrightarrow> k < 2 ^ LENGTH('a) \<Longrightarrow>
   (word_of_nat j :: 'a :: len word) = word_of_nat k \<longleftrightarrow> j = k"
  by (metis unat_of_nat_small)

lemma unat_less_exp: "unat (w :: 'a :: len word) < 2 ^ LENGTH('a)"
  by (rule unsigned_less)

section \<open>Integers in raw memory\<close>

text \<open>Where the code lays integers over raw memory they are stored least significant byte first.\<close>

fun le_bytes :: "nat \<Rightarrow> uint64 \<Rightarrow> bytes" where
  "le_bytes 0 x = []"
| "le_bytes (Suc n) x = ucast x # le_bytes n (drop_bit 8 x)"

fun of_le :: "bytes \<Rightarrow> uint64" where
  "of_le [] = 0"
| "of_le (b # bs) = ucast b OR push_bit 8 (of_le bs)"

definition put_raw :: "nat \<Rightarrow> nat \<Rightarrow> uint64 \<Rightarrow> bytes \<Rightarrow> bytes" where
  "put_raw off n x raw = take off raw @ le_bytes n x @ drop (off + n) raw"

definition get_raw :: "nat \<Rightarrow> nat \<Rightarrow> bytes \<Rightarrow> uint64" where
  "get_raw off n raw = of_le (take n (drop off raw))"

lemma length_le_bytes [simp]: "length (le_bytes n x) = n"
  by (induction n arbitrary: x) auto

section \<open>Intrusive linked lists\<close>

fun chain :: "('p \<Rightarrow> 'p) \<Rightarrow> 'p \<Rightarrow> 'p \<Rightarrow> 'p list \<Rightarrow> bool" where
  "chain nxt nil p [] \<longleftrightarrow> p = nil"
| "chain nxt nil p (x # xs) \<longleftrightarrow> p = x \<and> x \<noteq> nil \<and> chain nxt nil (nxt x) xs"

text \<open>The traversal \<^verbatim>\<open>for (p = first; p != EB_NULL; p = p->next)\<close>. On a cyclic list it does not
  return, which is the value \<open>None\<close>.\<close>

partial_function (option) walk :: "('p \<Rightarrow> 'p) \<Rightarrow> 'p \<Rightarrow> 'p \<Rightarrow> 'p list option" where
  "walk nxt nil p =
     (if p = nil then Some []
      else do { ps \<leftarrow> walk nxt nil (nxt p); Some (p # ps) })"

lemma chain_nil [simp]: "chain nxt nil nil xs \<longleftrightarrow> xs = []"
  by (cases xs) auto

lemma chain_neq: "p \<noteq> nil \<Longrightarrow> chain nxt nil p xs \<longleftrightarrow> (\<exists>ys. xs = p # ys \<and> chain nxt nil (nxt p) ys)"
  by (cases xs) auto

lemma chain_unique: "chain nxt nil p xs \<Longrightarrow> chain nxt nil p ys \<Longrightarrow> xs = ys"
proof (induction xs arbitrary: p ys)
  case Nil
  then show ?case by simp
next
  case (Cons x xs)
  then show ?case by (cases ys) auto
qed

lemma chain_not_nil: "chain nxt nil p xs \<Longrightarrow> nil \<notin> set xs"
  by (induction xs arbitrary: p) auto

lemma chain_suffix: "chain nxt nil p (xs @ y # ys) \<Longrightarrow> chain nxt nil y (y # ys)"
  by (induction xs arbitrary: p) auto

lemma chain_tail: "chain nxt nil p (xs @ y # ys) \<Longrightarrow> chain nxt nil (nxt y) ys"
  by (induction xs arbitrary: p) auto

lemma chain_distinct: "chain nxt nil p xs \<Longrightarrow> distinct xs"
proof (induction xs arbitrary: p)
  case Nil
  then show ?case by simp
next
  case (Cons x xs)
  then have tail: "chain nxt nil (nxt x) xs" by simp
  have "x \<notin> set xs"
  proof
    assume "x \<in> set xs"
    then obtain as bs where split: "xs = as @ x # bs"
      by (meson split_list)
    with tail have "chain nxt nil (nxt x) bs" by (metis chain_tail)
    with tail have "xs = bs" by (rule chain_unique)
    with split show False by simp
  qed
  with Cons.IH [OF tail] show ?case by simp
qed

lemma chain_cong: "(\<And>x. x \<in> set xs \<Longrightarrow> f x = g x) \<Longrightarrow> chain f nil p xs \<longleftrightarrow> chain g nil p xs"
  by (induction xs arbitrary: p) auto

lemma chain_upd [simp]: "a \<notin> set xs \<Longrightarrow> chain (nxt(a := v)) nil p xs \<longleftrightarrow> chain nxt nil p xs"
  by (rule chain_cong) auto

lemma chain_upd_if [simp]:
  "a \<notin> set xs \<Longrightarrow> chain (\<lambda>b. if b = a then v else nxt b) nil p xs \<longleftrightarrow> chain nxt nil p xs"
  by (rule chain_cong) auto

text \<open>Cutting a list after a prefix and linking another one there.\<close>

lemma chain_relink:
  "chain nxt nil p (us @ vs) \<Longrightarrow> us \<noteq> [] \<Longrightarrow> chain nxt nil q ws \<Longrightarrow> set us \<inter> set ws = {} \<Longrightarrow>
   chain (nxt(last us := q)) nil p (us @ ws)"
proof (induction us arbitrary: p)
  case Nil
  then show ?case by simp
next
  case (Cons u us)
  have d: "distinct (u # us)" using chain_distinct [OF Cons.prems(1)] by simp
  show ?case
  proof (cases "us = []")
    case True
    with Cons.prems show ?thesis by simp
  next
    case False
    have "chain (nxt(last us := q)) nil (nxt u) (us @ ws)"
      using Cons.prems False by (intro Cons.IH) auto
    moreover have "last us \<noteq> u" using d False by (metis distinct.simps(2) last_in_set)
    ultimately show ?thesis using Cons.prems(1) False by (simp add: fun_upd_def)
  qed
qed

lemmas chain_append_link = chain_relink [where vs = "[]", unfolded append_Nil2]

text \<open>Unlinking an element.\<close>

lemma chain_remove:
  "chain nxt nil p (us @ x # vs) \<Longrightarrow> us \<noteq> [] \<Longrightarrow> chain (nxt(last us := nxt x)) nil p (us @ vs)"
  using chain_distinct [of nxt nil p "us @ x # vs"] chain_tail [of nxt nil p us x vs]
  by (intro chain_relink [of nxt nil p us "x # vs"]) auto

text \<open>Inserting an element.\<close>

lemma chain_insert:
  assumes "chain nxt nil p (us @ vs)" and "x \<noteq> nil" and "x \<notin> set (us @ vs)"
    and q: "q = (case vs of [] \<Rightarrow> nil | v # _ \<Rightarrow> v)"
  shows "chain (if us = [] then nxt(x := q) else nxt(last us := x, x := q)) nil (if us = [] then x else p) (us @ x # vs)"
proof -
  have v: "chain nxt nil q vs"
    using assms(1) chain_suffix [of nxt nil p us] by (cases vs) (auto simp: q)
  show ?thesis
  proof (cases "us = []")
    case True
    with v assms(2,3) show ?thesis by simp
  next
    case False
    let ?n = "nxt(x := q)"
    have c: "chain ?n nil p (us @ vs)" "chain ?n nil x (x # vs)"
      using assms v by simp_all
    have "last us \<noteq> x" using False assms(3) by (metis last_in_set UnI1 set_append)
    moreover have "chain (?n(last us := x)) nil p (us @ x # vs)"
      using chain_distinct [OF assms(1)] False assms(3) by (intro chain_relink [OF c(1) _ c(2)]) auto
    ultimately show ?thesis using False by (simp add: fun_upd_twist)
  qed
qed

lemma walk_chain: "chain nxt nil p xs \<Longrightarrow> walk nxt nil p = Some xs"
  by (induction xs arbitrary: p) (auto simp: walk.simps)

lemma chain_walk: "walk nxt nil p = Some xs \<Longrightarrow> chain nxt nil p xs"
proof (induction xs arbitrary: p)
  case Nil
  then show ?case by (subst (asm) walk.simps) (auto split: if_splits)
next
  case (Cons x xs)
  then show ?case by (subst (asm) walk.simps) (auto split: if_splits)
qed

lemma walk_eq_Some_iff: "walk nxt nil p = Some xs \<longleftrightarrow> chain nxt nil p xs"
  by (blast intro: walk_chain chain_walk)

section \<open>In-place reversal\<close>

text \<open>
  The loop
  \<^verbatim>\<open>
  prev = EB_NULL;
  for (i = first; i != EB_NULL; i = next) {
    next = i->next; i->next = prev; prev = i;
  }
  \<close>
  over a heap \<open>h\<close> of records with the link field read by \<open>nx\<close> and written by \<open>st\<close>.
  It returns the new heap and the last \<^verbatim>\<open>prev\<close>.
\<close>

partial_function (option) rev_links ::
  "('r \<Rightarrow> 'p) \<Rightarrow> ('p \<Rightarrow> 'r \<Rightarrow> 'r) \<Rightarrow> 'p \<Rightarrow> ('p \<Rightarrow> 'r) \<Rightarrow> 'p \<Rightarrow> 'p \<Rightarrow> (('p \<Rightarrow> 'r) \<times> 'p) option" where
  "rev_links nx st nil h prev i =
     (if i = nil then Some (h, prev)
      else rev_links nx st nil (h(i := st prev (h i))) i (nx (h i)))"

text \<open>The contract of a link field: reading gives what was last written, and a second write
  hides the first.\<close>

locale link_field =
  fixes nx :: "'r \<Rightarrow> 'p" and st :: "'p \<Rightarrow> 'r \<Rightarrow> 'r"
  assumes nx_st: "nx (st v r) = v"
    and st_st: "st v (st u r) = st v r"
    and st_nx: "st (nx r) r = r"
begin

lemma rev_links_gen:
  assumes "chain (\<lambda>a. nx (h a)) nil i xs" and "chain (\<lambda>a. nx (h a)) nil prev ys"
    and "set xs \<inter> set ys = {}"
  shows "\<exists>h' q. rev_links nx st nil h prev i = Some (h', q)
    \<and> chain (\<lambda>a. nx (h' a)) nil q (rev xs @ ys)
    \<and> (\<forall>a. a \<notin> set xs \<longrightarrow> h' a = h a)
    \<and> (\<forall>a. \<exists>v. h' a = st v (h a))"
  using assms
proof (induction xs arbitrary: h prev i ys)
  case Nil
  then have "i = nil" by simp
  with Nil.prems(2) show ?case
    by (auto simp: rev_links.simps intro!: exI [of _ "nx (h _)"] st_nx [symmetric])
next
  case (Cons x xs)
  let ?h = "h(x := st prev (h x))"
  have i: "i = x" "x \<noteq> nil" and tl: "chain (\<lambda>a. nx (h a)) nil (nx (h x)) xs"
    using Cons.prems(1) by auto
  have x: "x \<notin> set xs" "x \<notin> set ys"
    using chain_distinct [OF Cons.prems(1)] Cons.prems(3) by auto
  have upd: "(\<lambda>a. nx (?h a)) = (\<lambda>a. nx (h a))(x := prev)" by (auto simp: nx_st)
  have c1: "chain (\<lambda>a. nx (?h a)) nil (nx (h x)) xs"
    unfolding upd using tl x by simp
  have c2: "chain (\<lambda>a. nx (?h a)) nil x (x # ys)"
    unfolding upd using Cons.prems(2) x i by simp
  have "set xs \<inter> set (x # ys) = {}" using Cons.prems(3) x by auto
  from Cons.IH [where h = ?h, OF c1 c2 this] obtain h' q where
    *: "rev_links nx st nil ?h x (nx (h x)) = Some (h', q)"
      "chain (\<lambda>a. nx (h' a)) nil q (rev xs @ x # ys)"
      "\<forall>a. a \<notin> set xs \<longrightarrow> h' a = ?h a" "\<forall>a. \<exists>v. h' a = st v (?h a)"
    by blast
  have "\<exists>v. h' a = st v (h a)" for a
    using *(4) by (metis fun_upd_apply st_st)
  with * i show ?case by (auto simp: rev_links.simps)
qed

lemma rev_links_rev:
  assumes "chain (\<lambda>a. nx (h a)) nil i xs"
  obtains h' q where "rev_links nx st nil h nil i = Some (h', q)"
    and "chain (\<lambda>a. nx (h' a)) nil q (rev xs)"
    and "\<And>a. a \<notin> set xs \<Longrightarrow> h' a = h a"
    and "\<And>a. \<exists>v. h' a = st v (h a)"
  using rev_links_gen [OF assms, of nil "[]"] by auto

end

end
