(* ===== verification/EB_Widths.thy ===== *)
theory EB_Widths
  imports EB_Prelude
begin

text \<open>
  The constants of \<^verbatim>\<open>api/etherbone.h\<close> (status codes, width and format masks), the width
  arithmetic of \<^verbatim>\<open>api/glue/widths.c\<close> and the string conversions of
  \<^verbatim>\<open>api/glue/format.c\<close>.

  A width is a byte: the low nibble is the set of data widths, the high nibble the set of
  address widths, each bit \<open>k\<close> standing for \<open>8 * 2^k\<close> bits. The lemmas show that
  \<open>eb_width_refine\<close> selects the greatest element of each nibble, and that parsing inverts
  printing.
\<close>

unbundle bit_operations_syntax

section \<open>Constants of etherbone.h\<close>

abbreviation (input) EB_OK :: eb_status_t where "EB_OK \<equiv> 0"
abbreviation (input) EB_FAIL :: eb_status_t where "EB_FAIL \<equiv> - 1"
abbreviation (input) EB_ADDRESS :: eb_status_t where "EB_ADDRESS \<equiv> - 2"
abbreviation (input) EB_WIDTH :: eb_status_t where "EB_WIDTH \<equiv> - 3"
abbreviation (input) EB_OVERFLOW :: eb_status_t where "EB_OVERFLOW \<equiv> - 4"
abbreviation (input) EB_ENDIAN :: eb_status_t where "EB_ENDIAN \<equiv> - 5"
abbreviation (input) EB_BUSY :: eb_status_t where "EB_BUSY \<equiv> - 6"
abbreviation (input) EB_TIMEOUT :: eb_status_t where "EB_TIMEOUT \<equiv> - 7"
abbreviation (input) EB_OOM :: eb_status_t where "EB_OOM \<equiv> - 8"
abbreviation (input) EB_ABI :: eb_status_t where "EB_ABI \<equiv> - 9"
abbreviation (input) EB_SEGFAULT :: eb_status_t where "EB_SEGFAULT \<equiv> - 10"

abbreviation (input) EB_DATA8 :: uint8 where "EB_DATA8 \<equiv> 0x01"
abbreviation (input) EB_DATA16 :: uint8 where "EB_DATA16 \<equiv> 0x02"
abbreviation (input) EB_DATA32 :: uint8 where "EB_DATA32 \<equiv> 0x04"
abbreviation (input) EB_DATA64 :: uint8 where "EB_DATA64 \<equiv> 0x08"
abbreviation (input) EB_DATAX :: uint8 where "EB_DATAX \<equiv> 0x0f"
abbreviation (input) EB_ADDR8 :: uint8 where "EB_ADDR8 \<equiv> 0x10"
abbreviation (input) EB_ADDR16 :: uint8 where "EB_ADDR16 \<equiv> 0x20"
abbreviation (input) EB_ADDR32 :: uint8 where "EB_ADDR32 \<equiv> 0x40"
abbreviation (input) EB_ADDR64 :: uint8 where "EB_ADDR64 \<equiv> 0x80"
abbreviation (input) EB_ADDRX :: uint8 where "EB_ADDRX \<equiv> 0xf0"
abbreviation (input) EB_ENDIAN_MASK :: uint8 where "EB_ENDIAN_MASK \<equiv> 0x30"
abbreviation (input) EB_BIG_ENDIAN :: uint8 where "EB_BIG_ENDIAN \<equiv> 0x10"
abbreviation (input) EB_LITTLE_ENDIAN :: uint8 where "EB_LITTLE_ENDIAN \<equiv> 0x20"

section \<open>widths.c\<close>

definition eb_width_possible :: "eb_width_t \<Rightarrow> bool" where
  "eb_width_possible width =
     (let data = width AND 0xf; addr = drop_bit 4 width
      in data \<noteq> 0 \<and> addr \<noteq> 0)"

definition eb_width_refined :: "eb_width_t \<Rightarrow> bool" where
  "eb_width_refined width =
     (let data = width AND 0xf; addr = drop_bit 4 width
      in data \<noteq> 0 \<and> addr \<noteq> 0 \<and> data AND (data - 1) = 0 \<and> addr AND (addr - 1) = 0)"

definition eb_width_refine :: "eb_width_t \<Rightarrow> eb_width_t" where
  "eb_width_refine width =
     (let data = width AND 0xf;
          addr = drop_bit 4 width;
          addr = addr OR drop_bit 1 addr;
          addr = addr OR drop_bit 2 addr;
          addr = addr + 1;
          addr = drop_bit 1 addr;
          data = data OR drop_bit 1 data;
          data = data OR drop_bit 2 data;
          data = data + 1;
          data = drop_bit 1 data
      in push_bit 4 addr OR data)"

section \<open>format.c\<close>

definition eb_status :: "eb_status_t \<Rightarrow> string" where
  "eb_status code =
     (if code = EB_SEGFAULT then ''one or more operations failed''
      else if code = EB_OK then ''success''
      else if code = EB_FAIL then ''system failure''
      else if code = EB_ADDRESS then ''invalid address''
      else if code = EB_WIDTH then ''impossible bus width''
      else if code = EB_OVERFLOW then ''cycle length overflow''
      else if code = EB_ENDIAN then ''remote endian required''
      else if code = EB_BUSY then ''resource busy''
      else if code = EB_TIMEOUT then ''timeout''
      else if code = EB_OOM then ''out of memory''
      else if code = EB_ABI then ''library incompatible with application''
      else ''unknown Etherbone error code'')"

definition endian_str :: "string list" where
  "endian_str = [''auto-endian'', ''big-endian'', ''little-endian'', ''invalid-endian'']"

definition width_str :: "string list" where
  "width_str =
     [''<null>'', ''8'', ''16'', ''8/16'', ''32'', ''8/32'', ''16/32'', ''8/16/32'',
      ''64'', ''8/64'', ''16/64'', ''8/16/64'', ''32/64'', ''8/32/64'', ''16/32/64'',
      ''8/16/32/64'']"

definition eb_width_data :: "eb_width_t \<Rightarrow> string" where
  "eb_width_data width = width_str ! unat (width AND EB_DATAX)"

definition eb_width_address :: "eb_width_t \<Rightarrow> string" where
  "eb_width_address width = width_str ! unat (drop_bit 4 (width AND EB_ADDRX))"

definition eb_format_data :: "eb_format_t \<Rightarrow> string" where
  "eb_format_data format = width_str ! unat (format AND EB_DATAX)"

definition eb_format_endian :: "eb_format_t \<Rightarrow> string" where
  "eb_format_endian format = endian_str ! unat (drop_bit 4 (format AND EB_ENDIAN_MASK))"

text \<open>
  \<^verbatim>\<open>strtol(str, &next, 0)\<close> of the C library on a string without its final NUL: leading white
  space, an optional sign, the base from the prefix, the longest run of digits, the result
  clamped to \<^verbatim>\<open>long\<close>. Without a digit it returns 0 and leaves \<^verbatim>\<open>next\<close> at \<^verbatim>\<open>str\<close>.
\<close>

definition c_isspace :: "char \<Rightarrow> bool" where
  "c_isspace c = (of_char c \<in> {32, 9, 10, 11, 12, 13 :: nat})"

definition c_digit :: "char \<Rightarrow> nat" where
  "c_digit c =
     (let n = of_char c in
      if 48 \<le> n \<and> n \<le> 57 then n - 48
      else if 97 \<le> n \<and> n \<le> 122 then n - 97 + 10
      else if 65 \<le> n \<and> n \<le> 90 then n - 65 + 10
      else 36)"

fun c_number :: "nat \<Rightarrow> nat \<Rightarrow> string \<Rightarrow> nat \<times> string" where
  "c_number base acc [] = (acc, [])"
| "c_number base acc (c # cs) =
     (if c_digit c < base then c_number base (acc * base + c_digit c) cs else (acc, c # cs))"

definition c_prefix :: "string \<Rightarrow> bool \<times> nat \<times> string" where
  "c_prefix str =
     (let s = dropWhile c_isspace str;
          neg = (s \<noteq> [] \<and> hd s = CHR ''-'');
          s = (if s \<noteq> [] \<and> hd s \<in> {CHR ''-'', CHR ''+''} then tl s else s);
          hex = (2 < length s \<and> hd s = CHR ''0'' \<and> s ! 1 \<in> {CHR ''x'', CHR ''X''}
                 \<and> c_digit (s ! 2) < 16)
      in (neg, if hex then 16 else if s \<noteq> [] \<and> hd s = CHR ''0'' then 8 else 10,
          if hex then drop 2 s else s))"

definition c_strtol0 :: "string \<Rightarrow> int \<times> string" where
  "c_strtol0 str =
     (let (neg, base, s) = c_prefix str
      in if s = [] \<or> \<not> c_digit (hd s) < base then (0, str)
         else let (n, rest) = c_number base 0 s;
                  v = (if neg then - int n else int n)
              in (max (- (2 ^ 63)) (min (2 ^ 63 - 1) v), rest))"

lemma length_c_number: "length (snd (c_number base acc str)) \<le> length str"
  by (induction str arbitrary: acc) (auto intro: le_SucI)

lemma length_c_prefix: "length (snd (snd (c_prefix str))) \<le> length str"
proof -
  have "length (dropWhile c_isspace str) \<le> length str" by (rule length_dropWhile_le)
  then show ?thesis by (simp add: c_prefix_def Let_def) linarith
qed

lemma length_c_strtol0: "length (snd (c_strtol0 str)) \<le> length str"
  using length_c_prefix [of str] le_trans [OF length_c_number]
  by (auto simp: c_strtol0_def Let_def split_def)

text \<open>The loop of \<^verbatim>\<open>eb_parse_width\<close>: the \<^verbatim>\<open>long\<close> is narrowed to \<^verbatim>\<open>int\<close>, each accepted width
  contributes \<^verbatim>\<open>width/8\<close>, and a separator moves \<^verbatim>\<open>str\<close> past it. The result \<open>- 1\<close> is
  failure.\<close>

function eb_parse_width_loop :: "int \<Rightarrow> string \<Rightarrow> int" where
  "eb_parse_width_loop widths str =
     (let (l, rest) = c_strtol0 str;
          width = sint (word_of_int l :: 32 word)
      in if width \<noteq> 8 \<and> width \<noteq> 16 \<and> width \<noteq> 32 \<and> width \<noteq> 64 then - 1
         else let widths = widths OR (width div 8)
              in case rest of
                   [] \<Rightarrow> widths
                 | c # str' \<Rightarrow>
                     if c \<noteq> CHR ''/'' \<and> c \<noteq> CHR '','' then - 1
                     else eb_parse_width_loop widths str')"
  by pat_completeness auto
termination
proof (relation "measure (\<lambda>(widths, str). length str)")
  show "wf (measure (\<lambda>(widths, str). length str))" by simp
next
  fix widths str x l rest width widths' c str'
  assume "x = c_strtol0 str" "(l, rest) = x" "rest = c # str'"
  with length_c_strtol0 [of str]
  show "((widths', str'), (widths, str)) \<in> measure (\<lambda>(widths, str). length str)"
    by (metis (no_types, lifting) Suc_le_eq case_prod_conv in_measure length_Cons snd_conv)
qed

declare eb_parse_width_loop.simps [simp del]

definition eb_parse_width :: "string \<Rightarrow> int" where
  "eb_parse_width str = eb_parse_width_loop 0 str"

text \<open>The two parsers return the status and the new \<^verbatim>\<open>*width\<close>.\<close>

definition eb_width_parse_data :: "string \<Rightarrow> eb_width_t \<Rightarrow> eb_status_t \<times> eb_width_t" where
  "eb_width_parse_data str width =
     (let result = eb_parse_width str
      in if result < 0 then (EB_WIDTH, width)
         else (EB_OK, word_of_int result OR (width AND EB_ADDRX)))"

definition eb_width_parse_address :: "string \<Rightarrow> eb_width_t \<Rightarrow> eb_status_t \<times> eb_width_t" where
  "eb_width_parse_address str width =
     (let result = eb_parse_width str
      in if result < 0 then (EB_WIDTH, width)
         else (EB_OK, word_of_int (push_bit 4 result) OR (width AND EB_DATAX)))"

section \<open>Nibbles\<close>

lemma nibble_cases:
  fixes x :: uint8
  assumes "x < 16"
  shows "x \<in> {0, 1, 2, 3, 4, 5, 6, 7, 8, 9, 10, 11, 12, 13, 14, 15}"
proof -
  from assms have "x = word_of_nat (unat x)" and "unat x < 16"
    by (simp_all add: word_less_nat_alt)
  then obtain n where x: "x = word_of_nat n" and "n < 16" by blast
  then have "n \<in> {0, 1, 2, 3, 4, 5, 6, 7, 8, 9, 10, 11, 12, 13, 14, 15}"
    unfolding insert_iff empty_iff by presburger
  with x show ?thesis by auto
qed

lemma low_nibble_less: "(w :: uint8) AND 15 < 16"
proof -
  have "w AND 15 \<le> 15" by (rule word_and_le1)
  then show ?thesis by (simp add: order_le_less_trans)
qed

lemma high_nibble_less: "drop_bit 4 (w :: uint8) < 16"
proof -
  have "unat w < 256" using unsigned_less [of w, where 'a = nat] by simp
  then have "unat w div 16 < 16" by simp
  then show ?thesis
    by (simp add: word_less_nat_alt drop_bit_eq_div unat_div)
qed

lemma nibble_and_self: "(x :: uint8) < 16 \<Longrightarrow> x AND 15 = x"
  using nibble_cases [of x] by auto

lemma low_nibble_take_bit: "w AND 15 = take_bit 4 w" for w :: uint8
proof -
  have "(15 :: uint8) = mask 4" by (simp add: mask_eq_exp_minus_1)
  then show ?thesis by (simp add: take_bit_eq_mask)
qed

lemma width_parts: "w = push_bit 4 (drop_bit 4 w) OR (w AND 15)" for w :: uint8
  unfolding low_nibble_take_bit by (rule bit_word_eqI) (auto simp: bit_simps)

lemma join_and_take_bit:
  "(push_bit 4 a OR take_bit 4 c) AND (push_bit 4 b OR take_bit 4 d)
     = push_bit 4 (a AND b) OR (take_bit 4 c AND take_bit 4 d)" for a b c d :: uint8
  by (rule bit_word_eqI) (auto simp: bit_simps)

lemma high_nibble_word: "word_of_int (push_bit 4 (int (unat (drop_bit 4 w)))) = w AND 0xf0"
  for w :: uint8
proof -
  have m: "(0xf0 :: uint8) = push_bit 4 (mask 4)" by (simp add: mask_eq_exp_minus_1)
  have "word_of_int (push_bit 4 (int (unat (drop_bit 4 w)))) = push_bit 4 (drop_bit 4 w)"
    by (simp add: push_bit_eq_mult)
  then show ?thesis unfolding m
    by (simp only:) (rule bit_word_eqI, auto simp: bit_simps)
qed

lemma nibble_drop: "(x :: uint8) < 16 \<Longrightarrow> drop_bit 4 x = 0"
  using nibble_cases [of x] by auto

lemma nibble_drop_push: "(x :: uint8) < 16 \<Longrightarrow> drop_bit 4 (push_bit 4 x) = x"
  using nibble_cases [of x] by auto

lemma join_nibbles:
  fixes a d :: uint8
  assumes "a < 16" and "d < 16"
  shows "(push_bit 4 a OR d) AND 15 = d" and "drop_bit 4 (push_bit 4 a OR d) = a"
proof -
  have "take_bit 4 (push_bit 4 a OR d) = take_bit 4 d"
    by (simp add: take_bit_push_bit)
  then show "(push_bit 4 a OR d) AND 15 = d"
    using nibble_and_self [OF assms(2)] by (simp add: low_nibble_take_bit)
  show "drop_bit 4 (push_bit 4 a OR d) = a"
    using assms by (simp add: nibble_drop nibble_drop_push)
qed

lemma join_and_nibbles:
  fixes a b c d :: uint8
  assumes "c < 16" and "d < 16"
  shows "(push_bit 4 a OR c) AND (push_bit 4 b OR d) = push_bit 4 (a AND b) OR (c AND d)"
proof -
  have "take_bit 4 c = c" "take_bit 4 d = d"
    using assms by (simp_all add: nibble_and_self flip: low_nibble_take_bit)
  then show ?thesis
    by (metis (no_types, opaque_lifting) join_and_take_bit)
qed

section \<open>Refinement picks the greatest width of each nibble\<close>

text \<open>What \<^verbatim>\<open>eb_width_refine\<close> does to one nibble: smear the highest bit down, add one, halve.\<close>

definition refine_nibble :: "uint8 \<Rightarrow> uint8" where
  "refine_nibble x =
     (let x = x OR drop_bit 1 x; x = x OR drop_bit 2 x in drop_bit 1 (x + 1))"

lemma eb_width_refine_nibbles:
  "eb_width_refine w = push_bit 4 (refine_nibble (drop_bit 4 w)) OR refine_nibble (w AND 15)"
  by (simp add: eb_width_refine_def refine_nibble_def Let_def)

lemma set_bits_byte: "{k. bit (x :: uint8) k} = set (filter (bit x) [0, 1, 2, 3, 4, 5, 6, 7])"
proof -
  have "k \<in> set [0, 1, 2, 3, 4, 5, 6, 7]" if "bit x k" for k
    using bit_imp_le_length [OF that] unfolding set_simps insert_iff by auto
  then show ?thesis by auto
qed

lemma refine_nibble_0 [simp]: "refine_nibble 0 = 0"
  by (simp add: refine_nibble_def)

lemma refine_nibble_less: "x < 16 \<Longrightarrow> refine_nibble x < 16"
  using nibble_cases [of x] by (auto simp: refine_nibble_def)

lemma refine_nibble_Max:
  assumes "x < 16" and "x \<noteq> 0"
  shows "refine_nibble x = 2 ^ Max {k. bit x k}"
  using nibble_cases [OF assms(1)] assms(2)
  by (auto simp: refine_nibble_def set_bits_byte)

text \<open>Width negotiation ends in the largest width both sides have: on a possible width (each
  nibble non-empty) \<^verbatim>\<open>eb_width_refine\<close> gives a refined width (exactly one data and one address
  width), whose data and address bits are the greatest bits of the two nibbles, and all of its
  bits were offered.
\<close>
theorem eb_width_refine_greatest:
  assumes "eb_width_possible w"
  shows "eb_width_refined (eb_width_refine w)
    \<and> eb_width_refine w AND 15 = 2 ^ Max {k. bit (w AND 15) k}
    \<and> drop_bit 4 (eb_width_refine w) = 2 ^ Max {k. bit (drop_bit 4 w) k}
    \<and> eb_width_refine w AND w = eb_width_refine w"
proof -
  let ?d = "w AND 15" and ?a = "drop_bit 4 w"
  have d: "?d < 16" "?d \<noteq> 0" and a: "?a < 16" "?a \<noteq> 0"
    using assms low_nibble_less high_nibble_less by (auto simp: eb_width_possible_def Let_def)
  have parts: "eb_width_refine w AND 15 = refine_nibble ?d"
    "drop_bit 4 (eb_width_refine w) = refine_nibble ?a"
    unfolding eb_width_refine_nibbles
    by (rule join_nibbles; rule refine_nibble_less; rule d a)+
  have one: "refine_nibble x \<noteq> 0 \<and> refine_nibble x AND (refine_nibble x - 1) = 0
      \<and> refine_nibble x AND x = refine_nibble x" if "x < 16" "x \<noteq> 0" for x
    using nibble_cases [OF that(1)] that(2) by (auto simp: refine_nibble_def)
  have "eb_width_refined (eb_width_refine w)"
    using one [OF d] one [OF a] by (simp add: eb_width_refined_def Let_def parts)
  moreover have "eb_width_refine w AND w = eb_width_refine w"
  proof -
    have "eb_width_refine w AND w
        = (push_bit 4 (refine_nibble ?a) OR refine_nibble ?d) AND (push_bit 4 ?a OR ?d)"
      using width_parts [of w] by (simp add: eb_width_refine_nibbles)
    also have "\<dots> = push_bit 4 (refine_nibble ?a AND ?a) OR (refine_nibble ?d AND ?d)"
      using refine_nibble_less [OF d(1)] refine_nibble_less [OF a(1)]
      by (metis (no_types, lifting) d(1) join_and_nibbles)
    finally show ?thesis
      using one [OF d] one [OF a] by (simp add: eb_width_refine_nibbles)
  qed
  ultimately show ?thesis
    using refine_nibble_Max [OF d] refine_nibble_Max [OF a] parts by simp
qed

theorem eb_width_refine_greatest_witness:
  "eb_width_possible 0x6D \<and> eb_width_refined (eb_width_refine 0x6D)
    \<and> eb_width_refine 0x6D = EB_ADDR32 OR EB_DATA64"
proof -
  have "eb_width_possible 0x6D" by (simp add: eb_width_possible_def)
  with eb_width_refine_greatest [OF this] show ?thesis
    by (simp add: eb_width_refine_def)
qed

section \<open>Parsing inverts printing\<close>

lemma eb_parse_width_str: "list_all (\<lambda>n. eb_parse_width (width_str ! n) = int n) [1..<16]"
  by code_simp

lemma eb_parse_width_null: "eb_parse_width (width_str ! 0) = - 1"
  by code_simp

lemma eb_parse_width_nth: "0 < n \<Longrightarrow> n < 16 \<Longrightarrow> eb_parse_width (width_str ! n) = int n"
  using eb_parse_width_str by (simp add: list_all_iff)

text \<open>Printing a data width and parsing the text back gives the width: for every non-empty set
  of data widths \<^verbatim>\<open>eb_width_parse_data (eb_width_data w)\<close> succeeds and puts exactly the data
  nibble of \<open>w\<close> into the low nibble, keeping the address nibble of the old value; the empty
  set prints as \<^verbatim>\<open><null>\<close>, which the parser refuses with \<^verbatim>\<open>EB_WIDTH\<close>. The same for addresses.
\<close>
theorem eb_width_print_parse:
  "eb_width_parse_data (eb_width_data w) v =
     (if w AND 15 = 0 then (EB_WIDTH, v) else (EB_OK, (w AND 0x0f) OR (v AND 0xf0)))
   \<and> eb_width_parse_address (eb_width_address w) v =
     (if drop_bit 4 w = 0 then (EB_WIDTH, v) else (EB_OK, (w AND 0xf0) OR (v AND 0x0f)))"
proof (rule conjI)
  have *: "eb_parse_width (width_str ! unat x) = (if x = 0 then - 1 else int (unat x))"
    if "x < 16" for x :: uint8
    using that eb_parse_width_nth [of "unat x"] eb_parse_width_null
    by (auto simp: word_less_nat_alt unat_gt_0)
  show "eb_width_parse_data (eb_width_data w) v =
     (if w AND 15 = 0 then (EB_WIDTH, v) else (EB_OK, (w AND 0x0f) OR (v AND 0xf0)))"
    by (simp add: eb_width_parse_data_def eb_width_data_def Let_def * low_nibble_less)
  have hi: "drop_bit 4 (w AND 0xf0) = drop_bit 4 w"
    using high_nibble_less [of w] by (simp add: nibble_and_self)
  have "word_of_int (push_bit 4 (int (unat (drop_bit 4 w)))) = w AND (0xf0 :: uint8)"
    by (rule high_nibble_word)
  then show "eb_width_parse_address (eb_width_address w) v =
     (if drop_bit 4 w = 0 then (EB_WIDTH, v) else (EB_OK, (w AND 0xf0) OR (v AND 0x0f)))"
    unfolding eb_width_parse_address_def eb_width_address_def Let_def hi * [OF high_nibble_less]
    by simp
qed

end
