(* ===== verification/EB_State.thy ===== *)
theory EB_State
  imports EB_Widths
begin

text \<open>
  The data of the library: the structs of \<^verbatim>\<open>glue/*.h\<close> and \<^verbatim>\<open>transport/transport.h\<close>, the global
  state, and the environment (everything the library calls that is not part of it).

  The build modelled is the default one: array memory model, so every \<^verbatim>\<open>EB_POINTER(t)\<close> is a
  16-bit handle and \<^verbatim>\<open>EB_NULL\<close> is \<^verbatim>\<open>0xFFFF\<close>; 64-bit \<^verbatim>\<open>eb_address_t\<close> and \<^verbatim>\<open>eb_data_t\<close>.
  The memory array of \<^verbatim>\<open>union eb_memory_item\<close> is a family of typed heaps over the same handles,
  one per union member, so that \<^verbatim>\<open>EB_OPERATION(x)\<close> is \<open>heap_operation s x\<close> and
  so on; \<^verbatim>\<open>EB_FREE_ITEM(x)->next\<close> is \<open>heap_free_next s x\<close>. The unions inside a struct
  hold two handles, or a value and a pointer of the same width; each is one field, so that code
  which compares one member with the other (\<^verbatim>\<open>un_ops.dead == cyclep\<close>,
  \<^verbatim>\<open>un_link.passive == devicep\<close>) is modelled as it is written.
\<close>

unbundle bit_operations_syntax

abbreviation (input) EB_NULL :: eb_ptr where "EB_NULL \<equiv> 0xFFFF"

section \<open>Structs\<close>

subsection \<open>operation.h\<close>

abbreviation (input) EB_OP_WRITE :: eb_operation_flags_t where "EB_OP_WRITE \<equiv> 0x00"
abbreviation (input) EB_OP_READ_PTR :: eb_operation_flags_t where "EB_OP_READ_PTR \<equiv> 0x01"
abbreviation (input) EB_OP_READ_VAL :: eb_operation_flags_t where "EB_OP_READ_VAL \<equiv> 0x02"
abbreviation (input) EB_OP_MASK :: eb_operation_flags_t where "EB_OP_MASK \<equiv> 0x03"
abbreviation (input) EB_OP_CFG_SPACE :: eb_operation_flags_t where "EB_OP_CFG_SPACE \<equiv> 0x04"
abbreviation (input) EB_OP_ERROR :: eb_operation_flags_t where "EB_OP_ERROR \<equiv> 0x08"
abbreviation (input) EB_OP_CHECKED :: eb_operation_flags_t where "EB_OP_CHECKED \<equiv> 0x10"

record eb_operation =
  op_address :: eb_address_t
  op_value :: eb_data_t   \<comment> \<open>\<^verbatim>\<open>un_value\<close>: write_value, read_value or read_destination\<close>
  op_flags :: eb_operation_flags_t
  op_format :: eb_format_t
  op_next :: eb_ptr

subsection \<open>cycle.h\<close>

text \<open>A completion callback is one of the library's own functions or a function of the
  application, named by a number.\<close>

datatype eb_callback_t =
    Eb_block_f
  | Eb_sdb_got_record
  | Eb_sdb_got_header
  | Eb_sdb_got_header_ptr
  | Eb_user_callback nat

record eb_cycle =
  cyc_callback :: eb_callback_t
  cyc_user_data :: eb_user_data_t
  cyc_ops :: eb_ptr    \<comment> \<open>\<^verbatim>\<open>un_ops\<close>: first, or dead (points to the cycle itself on OOM)\<close>
  cyc_link :: eb_ptr   \<comment> \<open>\<^verbatim>\<open>un_link\<close>: next, or device\<close>

subsection \<open>device.h\<close>

record eb_device =
  dev_socket :: eb_ptr
  dev_next :: eb_ptr
  dev_ready :: eb_ptr   \<comment> \<open>\<^verbatim>\<open>un_link\<close>: ready, or passive (points to the device itself)\<close>
  dev_unready :: uint8
  dev_widths :: uint8
  dev_link :: eb_ptr
  dev_transport :: eb_ptr

subsection \<open>socket.h and handler.h\<close>

record eb_response =
  res_address :: uint16
  res_deadline :: uint16
  res_next :: eb_ptr
  res_cycle :: eb_ptr
  res_write_cursor :: eb_ptr
  res_status_cursor :: eb_ptr

record eb_socket_aux =
  aux_sdb_offset :: eb_address_t
  aux_time_cache :: uint32
  aux_rba :: uint16
  aux_first_transport :: eb_ptr

record eb_socket =
  sock_first_device :: eb_ptr
  sock_first_handler :: eb_ptr
  sock_first_response :: eb_ptr
  sock_last_response :: eb_ptr
  sock_aux :: eb_ptr
  sock_widths :: uint8

text \<open>The function pointers of a handler are code addresses of the application; 0 is NULL.\<close>

record eb_handler_callback =
  hcb_data :: eb_user_data_t
  hcb_read :: uint64
  hcb_write :: uint64

record eb_handler_address =
  had_device :: uint64   \<comment> \<open>\<^verbatim>\<open>const struct sdb_device*\<close>, an address of the application\<close>
  had_callback :: eb_ptr
  had_next :: eb_ptr

subsection \<open>transport.h\<close>

record eb_link =
  link_raw :: bytes

record eb_transport =
  tra_raw :: bytes
  tra_link_type :: uint8
  tra_next :: eb_ptr

subsection \<open>sdb.h and the SDB structs of etherbone.h\<close>

text \<open>The callback of a scan is one of the two search functions of \<^verbatim>\<open>sdb.c\<close> or a function of the
  application.\<close>

datatype sdb_callback_t =
    Eb_cb_find_by_address
  | Eb_cb_find_by_identity
  | Sdb_user_callback nat

record eb_sdb_scan =
  scan_user_data :: eb_user_data_t
  scan_cb :: sdb_callback_t
  scan_bus_base :: eb_address_t

record eb_sdb_record =
  rec_scan :: eb_ptr
  rec_ops :: eb_ptr
  rec_status :: int
  rec_pending :: uint16
  rec_records :: uint16

record sdb_product =
  vendor_id :: uint64
  device_id :: uint32
  version :: uint32
  date :: uint32
  prod_name :: bytes   \<comment> \<open>19 bytes\<close>
  record_type :: uint8

record sdb_component =
  addr_first :: uint64
  addr_last :: uint64
  product :: sdb_product

record sdb_device =
  abi_class :: uint16
  abi_ver_major :: uint8
  abi_ver_minor :: uint8
  bus_specific :: uint32
  dev_component :: sdb_component

record sdb_bridge =
  sdb_child :: uint64
  bridge_component :: sdb_component

record sdb_interconnect =
  sdb_magic :: uint32
  sdb_records :: uint16
  sdb_version :: uint8
  sdb_bus_type :: uint8
  icn_component :: sdb_component

text \<open>\<^verbatim>\<open>union sdb_record\<close>, by its record type; the records the library does not look into keep their
  64 bytes.\<close>

datatype sdb_record =
    Sdb_device sdb_device
  | Sdb_bridge sdb_bridge
  | Sdb_integration bytes sdb_product
  | Sdb_other bytes

type_synonym sdb_table = "sdb_interconnect \<times> sdb_record list"

record eb_find_by_address =
  fba_address :: eb_address_t
  fba_output :: uint64
  fba_status :: eb_status_t

record eb_find_by_identity =
  fbi_vendor_id :: uint64
  fbi_output :: uint64
  fbi_device_id :: uint32
  fbi_size :: int
  fbi_fill :: int
  fbi_pending :: int
  fbi_status :: eb_status_t

section \<open>Global state\<close>

text \<open>
  Besides the memory array the state holds the application's memory the library reads or
  writes (\<open>user_data_mem\<close>: cells of type \<^verbatim>\<open>eb_data_t\<close>, \<open>user_status_mem\<close>:
  cells of type \<^verbatim>\<open>eb_status_t\<close>, \<open>user_sdb_mem\<close>: the \<^verbatim>\<open>sdb_device\<close> structs of attached
  handlers, \<open>user_record_mem\<close>: the records that a search delivers), the search records on the stack
  of \<^verbatim>\<open>eb_sdb_find_by_address\<close> and \<^verbatim>\<open>eb_sdb_find_by_identity\<close>, the state \<open>os\<close> of the operating system, and the list \<open>calls\<close> of the
  completion callbacks made so far, oldest first.
\<close>

datatype eb_call = Eb_call eb_callback_t eb_user_data_t eb_ptr eb_ptr eb_status_t

record 'w eb_state =
  eb_memory_free :: eb_ptr
  eb_memory_used :: uint16
  eb_memory_array_size :: uint32
  heap_free_next :: "eb_ptr \<Rightarrow> eb_ptr"
  heap_operation :: "eb_ptr \<Rightarrow> eb_operation"
  heap_cycle :: "eb_ptr \<Rightarrow> eb_cycle"
  heap_device :: "eb_ptr \<Rightarrow> eb_device"
  heap_socket :: "eb_ptr \<Rightarrow> eb_socket"
  heap_socket_aux :: "eb_ptr \<Rightarrow> eb_socket_aux"
  heap_handler_callback :: "eb_ptr \<Rightarrow> eb_handler_callback"
  heap_handler_address :: "eb_ptr \<Rightarrow> eb_handler_address"
  heap_response :: "eb_ptr \<Rightarrow> eb_response"
  heap_transport :: "eb_ptr \<Rightarrow> eb_transport"
  heap_link :: "eb_ptr \<Rightarrow> eb_link"
  heap_sdb_scan :: "eb_ptr \<Rightarrow> eb_sdb_scan"
  heap_sdb_record :: "eb_ptr \<Rightarrow> eb_sdb_record"
  user_data_mem :: "uint64 \<Rightarrow> eb_data_t"
  user_status_mem :: "uint64 \<Rightarrow> eb_status_t"
  user_sdb_mem :: "uint64 \<Rightarrow> sdb_device"
  user_record_mem :: "uint64 \<Rightarrow> sdb_record"
  find_address_mem :: "uint64 \<Rightarrow> eb_find_by_address"
  find_identity_mem :: "uint64 \<Rightarrow> eb_find_by_identity"
  calls :: "eb_call list"
  os :: 'w

section \<open>Environment\<close>

text \<open>
  What the library relies on and does not contain: \<^verbatim>\<open>realloc\<close>, the application's completion
  callbacks and bus handlers (which may themselves call the library, hence transform the whole
  state), and the transport drivers as the table \<^verbatim>\<open>eb_transports\<close> presents them to the socket
  layer. The \<^verbatim>\<open>ready\<close> argument of a driver is the descriptor test of the event loop; \<^verbatim>\<open>fdes\<close> gives the
  descriptors, with their modes, that the driver passes to its callback; \<^verbatim>\<open>connect\<close> may fail to return
  (\<open>None\<close>), since one driver empties its device first.
  \<open>env_stack i\<close> is the content of the uninitialised byte \<open>i\<close> of a buffer on the stack; \<open>env_version\<close> and
  \<open>env_date\<close> are \<^verbatim>\<open>EB_VERSION_SHORT\<close> and \<^verbatim>\<open>EB_DATE_SHORT\<close>, which the build generates.
\<close>

type_synonym eb_ready = "int \<Rightarrow> uint8 \<Rightarrow> bool"

record 'w eb_transport_ops =
  tops_mtu :: int
  tops_open :: "eb_transport \<Rightarrow> string option \<Rightarrow> 'w \<Rightarrow> eb_status_t \<times> eb_transport \<times> 'w"
  tops_close :: "eb_transport \<Rightarrow> 'w \<Rightarrow> 'w"
  tops_connect :: "eb_transport \<Rightarrow> eb_link \<Rightarrow> string \<Rightarrow> bool \<Rightarrow> 'w \<Rightarrow> (eb_status_t \<times> eb_link \<times> 'w) option"
  tops_disconnect :: "eb_transport \<Rightarrow> eb_link \<Rightarrow> 'w \<Rightarrow> 'w"
  tops_fdes :: "eb_transport \<Rightarrow> eb_link option \<Rightarrow> (int \<times> uint8) list"
  tops_accept :: "eb_transport \<Rightarrow> eb_link \<Rightarrow> eb_ready \<Rightarrow> 'w \<Rightarrow> int \<times> eb_link \<times> 'w"
  tops_poll :: "eb_transport \<Rightarrow> eb_link option \<Rightarrow> eb_ready \<Rightarrow> nat \<Rightarrow> 'w \<Rightarrow> int \<times> bytes \<times> eb_link option \<times> 'w"
  tops_recv :: "eb_transport \<Rightarrow> eb_link option \<Rightarrow> nat \<Rightarrow> 'w \<Rightarrow> int \<times> bytes \<times> eb_link option \<times> 'w"
  tops_send :: "eb_transport \<Rightarrow> eb_link option \<Rightarrow> bytes \<Rightarrow> 'w \<Rightarrow> eb_link option \<times> 'w"
  tops_send_buffer :: "eb_transport \<Rightarrow> eb_link option \<Rightarrow> bool \<Rightarrow> 'w \<Rightarrow> eb_link option \<times> 'w"

record 'w eb_env =
  env_realloc :: "uint32 \<Rightarrow> 'w \<Rightarrow> bool \<times> 'w"
  env_callback :: "nat \<Rightarrow> eb_user_data_t \<Rightarrow> eb_ptr \<Rightarrow> eb_ptr \<Rightarrow> eb_status_t \<Rightarrow> 'w eb_state \<Rightarrow> 'w eb_state"
  env_read :: "uint64 \<Rightarrow> eb_user_data_t \<Rightarrow> eb_address_t \<Rightarrow> eb_width_t \<Rightarrow> 'w eb_state \<Rightarrow> eb_status_t \<times> eb_data_t \<times> 'w eb_state"
  env_write :: "uint64 \<Rightarrow> eb_user_data_t \<Rightarrow> eb_address_t \<Rightarrow> eb_width_t \<Rightarrow> eb_data_t \<Rightarrow> 'w eb_state \<Rightarrow> eb_status_t \<times> 'w eb_state"
  env_sdb_callback :: "nat \<Rightarrow> eb_user_data_t \<Rightarrow> eb_ptr \<Rightarrow> sdb_table option \<Rightarrow> eb_status_t \<Rightarrow> 'w eb_state \<Rightarrow> 'w eb_state"
  env_stack :: "nat \<Rightarrow> uint8"
  env_version :: uint32
  env_date :: uint32
  env_transports :: "uint8 \<Rightarrow> 'w eb_transport_ops"
  env_transport_size :: nat

definition stack_bytes :: "'w eb_env \<Rightarrow> nat \<Rightarrow> bytes" where
  "stack_bytes E n = map (env_stack E) [0 ..< n]"

lemma length_stack_bytes [simp]: "length (stack_bytes E n) = n"
  by (simp add: stack_bytes_def)

section \<open>Updating one object\<close>

definition upd_operation :: "eb_ptr \<Rightarrow> (eb_operation \<Rightarrow> eb_operation) \<Rightarrow> 'w eb_state \<Rightarrow> 'w eb_state" where
  "upd_operation p f s = s\<lparr>heap_operation := (heap_operation s)(p := f (heap_operation s p))\<rparr>"

definition upd_cycle :: "eb_ptr \<Rightarrow> (eb_cycle \<Rightarrow> eb_cycle) \<Rightarrow> 'w eb_state \<Rightarrow> 'w eb_state" where
  "upd_cycle p f s = s\<lparr>heap_cycle := (heap_cycle s)(p := f (heap_cycle s p))\<rparr>"

definition upd_device :: "eb_ptr \<Rightarrow> (eb_device \<Rightarrow> eb_device) \<Rightarrow> 'w eb_state \<Rightarrow> 'w eb_state" where
  "upd_device p f s = s\<lparr>heap_device := (heap_device s)(p := f (heap_device s p))\<rparr>"

definition upd_socket :: "eb_ptr \<Rightarrow> (eb_socket \<Rightarrow> eb_socket) \<Rightarrow> 'w eb_state \<Rightarrow> 'w eb_state" where
  "upd_socket p f s = s\<lparr>heap_socket := (heap_socket s)(p := f (heap_socket s p))\<rparr>"

definition upd_socket_aux :: "eb_ptr \<Rightarrow> (eb_socket_aux \<Rightarrow> eb_socket_aux) \<Rightarrow> 'w eb_state \<Rightarrow> 'w eb_state" where
  "upd_socket_aux p f s = s\<lparr>heap_socket_aux := (heap_socket_aux s)(p := f (heap_socket_aux s p))\<rparr>"

definition upd_handler_address ::
  "eb_ptr \<Rightarrow> (eb_handler_address \<Rightarrow> eb_handler_address) \<Rightarrow> 'w eb_state \<Rightarrow> 'w eb_state" where
  "upd_handler_address p f s =
     s\<lparr>heap_handler_address := (heap_handler_address s)(p := f (heap_handler_address s p))\<rparr>"

definition upd_handler_callback ::
  "eb_ptr \<Rightarrow> (eb_handler_callback \<Rightarrow> eb_handler_callback) \<Rightarrow> 'w eb_state \<Rightarrow> 'w eb_state" where
  "upd_handler_callback p f s =
     s\<lparr>heap_handler_callback := (heap_handler_callback s)(p := f (heap_handler_callback s p))\<rparr>"

definition upd_response :: "eb_ptr \<Rightarrow> (eb_response \<Rightarrow> eb_response) \<Rightarrow> 'w eb_state \<Rightarrow> 'w eb_state" where
  "upd_response p f s = s\<lparr>heap_response := (heap_response s)(p := f (heap_response s p))\<rparr>"

definition upd_transport :: "eb_ptr \<Rightarrow> (eb_transport \<Rightarrow> eb_transport) \<Rightarrow> 'w eb_state \<Rightarrow> 'w eb_state" where
  "upd_transport p f s = s\<lparr>heap_transport := (heap_transport s)(p := f (heap_transport s p))\<rparr>"

definition upd_link :: "eb_ptr \<Rightarrow> (eb_link \<Rightarrow> eb_link) \<Rightarrow> 'w eb_state \<Rightarrow> 'w eb_state" where
  "upd_link p f s = s\<lparr>heap_link := (heap_link s)(p := f (heap_link s p))\<rparr>"

definition upd_sdb_scan :: "eb_ptr \<Rightarrow> (eb_sdb_scan \<Rightarrow> eb_sdb_scan) \<Rightarrow> 'w eb_state \<Rightarrow> 'w eb_state" where
  "upd_sdb_scan p f s = s\<lparr>heap_sdb_scan := (heap_sdb_scan s)(p := f (heap_sdb_scan s p))\<rparr>"

definition upd_sdb_record :: "eb_ptr \<Rightarrow> (eb_sdb_record \<Rightarrow> eb_sdb_record) \<Rightarrow> 'w eb_state \<Rightarrow> 'w eb_state" where
  "upd_sdb_record p f s = s\<lparr>heap_sdb_record := (heap_sdb_record s)(p := f (heap_sdb_record s p))\<rparr>"

lemmas upd_defs =
  upd_operation_def upd_cycle_def upd_device_def upd_socket_def upd_socket_aux_def
  upd_handler_address_def upd_handler_callback_def upd_response_def upd_transport_def
  upd_link_def upd_sdb_scan_def upd_sdb_record_def

declare upd_defs [eb_unfold]

text \<open>Reading a field after an update: the updated object for its own heap, nothing for the others.\<close>

lemma upd_own [simp]:
  "heap_operation (upd_operation p f1 s) = (heap_operation s)(p := f1 (heap_operation s p))"
  "heap_cycle (upd_cycle p f2 s) = (heap_cycle s)(p := f2 (heap_cycle s p))"
  "heap_device (upd_device p f3 s) = (heap_device s)(p := f3 (heap_device s p))"
  "heap_socket (upd_socket p f4 s) = (heap_socket s)(p := f4 (heap_socket s p))"
  "heap_socket_aux (upd_socket_aux p f5 s) = (heap_socket_aux s)(p := f5 (heap_socket_aux s p))"
  "heap_handler_address (upd_handler_address p f6 s) = (heap_handler_address s)(p := f6 (heap_handler_address s p))"
  "heap_handler_callback (upd_handler_callback p f7 s) = (heap_handler_callback s)(p := f7 (heap_handler_callback s p))"
  "heap_response (upd_response p f8 s) = (heap_response s)(p := f8 (heap_response s p))"
  "heap_transport (upd_transport p f9 s) = (heap_transport s)(p := f9 (heap_transport s p))"
  "heap_link (upd_link p f10 s) = (heap_link s)(p := f10 (heap_link s p))"
  "heap_sdb_scan (upd_sdb_scan p f11 s) = (heap_sdb_scan s)(p := f11 (heap_sdb_scan s p))"
  "heap_sdb_record (upd_sdb_record p f12 s) = (heap_sdb_record s)(p := f12 (heap_sdb_record s p))"
  by (simp_all add: upd_defs)

lemma upd_operation_frame [simp]:
  "heap_cycle (upd_operation p f s) = heap_cycle s"
  "heap_device (upd_operation p f s) = heap_device s"
  "heap_socket (upd_operation p f s) = heap_socket s"
  "heap_socket_aux (upd_operation p f s) = heap_socket_aux s"
  "heap_handler_callback (upd_operation p f s) = heap_handler_callback s"
  "heap_handler_address (upd_operation p f s) = heap_handler_address s"
  "heap_response (upd_operation p f s) = heap_response s"
  "heap_transport (upd_operation p f s) = heap_transport s"
  "heap_link (upd_operation p f s) = heap_link s"
  "heap_sdb_scan (upd_operation p f s) = heap_sdb_scan s"
  "heap_sdb_record (upd_operation p f s) = heap_sdb_record s"
  "user_data_mem (upd_operation p f s) = user_data_mem s"
  "user_status_mem (upd_operation p f s) = user_status_mem s"
  "user_sdb_mem (upd_operation p f s) = user_sdb_mem s"
  "find_address_mem (upd_operation p f s) = find_address_mem s"
  "find_identity_mem (upd_operation p f s) = find_identity_mem s"
  "user_record_mem (upd_operation p f s) = user_record_mem s"
  "calls (upd_operation p f s) = calls s"
  "os (upd_operation p f s) = os s"
  "eb_memory_free (upd_operation p f s) = eb_memory_free s"
  "eb_memory_used (upd_operation p f s) = eb_memory_used s"
  "eb_memory_array_size (upd_operation p f s) = eb_memory_array_size s"
  "heap_free_next (upd_operation p f s) = heap_free_next s"
  by (simp_all add: upd_operation_def)

lemma upd_cycle_frame [simp]:
  "heap_operation (upd_cycle p f s) = heap_operation s"
  "heap_device (upd_cycle p f s) = heap_device s"
  "heap_socket (upd_cycle p f s) = heap_socket s"
  "heap_socket_aux (upd_cycle p f s) = heap_socket_aux s"
  "heap_handler_callback (upd_cycle p f s) = heap_handler_callback s"
  "heap_handler_address (upd_cycle p f s) = heap_handler_address s"
  "heap_response (upd_cycle p f s) = heap_response s"
  "heap_transport (upd_cycle p f s) = heap_transport s"
  "heap_link (upd_cycle p f s) = heap_link s"
  "heap_sdb_scan (upd_cycle p f s) = heap_sdb_scan s"
  "heap_sdb_record (upd_cycle p f s) = heap_sdb_record s"
  "user_data_mem (upd_cycle p f s) = user_data_mem s"
  "user_status_mem (upd_cycle p f s) = user_status_mem s"
  "user_sdb_mem (upd_cycle p f s) = user_sdb_mem s"
  "find_address_mem (upd_cycle p f s) = find_address_mem s"
  "find_identity_mem (upd_cycle p f s) = find_identity_mem s"
  "user_record_mem (upd_cycle p f s) = user_record_mem s"
  "calls (upd_cycle p f s) = calls s"
  "os (upd_cycle p f s) = os s"
  "eb_memory_free (upd_cycle p f s) = eb_memory_free s"
  "eb_memory_used (upd_cycle p f s) = eb_memory_used s"
  "eb_memory_array_size (upd_cycle p f s) = eb_memory_array_size s"
  "heap_free_next (upd_cycle p f s) = heap_free_next s"
  by (simp_all add: upd_cycle_def)

lemma upd_device_frame [simp]:
  "heap_operation (upd_device p f s) = heap_operation s"
  "heap_cycle (upd_device p f s) = heap_cycle s"
  "heap_socket (upd_device p f s) = heap_socket s"
  "heap_socket_aux (upd_device p f s) = heap_socket_aux s"
  "heap_handler_callback (upd_device p f s) = heap_handler_callback s"
  "heap_handler_address (upd_device p f s) = heap_handler_address s"
  "heap_response (upd_device p f s) = heap_response s"
  "heap_transport (upd_device p f s) = heap_transport s"
  "heap_link (upd_device p f s) = heap_link s"
  "heap_sdb_scan (upd_device p f s) = heap_sdb_scan s"
  "heap_sdb_record (upd_device p f s) = heap_sdb_record s"
  "user_data_mem (upd_device p f s) = user_data_mem s"
  "user_status_mem (upd_device p f s) = user_status_mem s"
  "user_sdb_mem (upd_device p f s) = user_sdb_mem s"
  "find_address_mem (upd_device p f s) = find_address_mem s"
  "find_identity_mem (upd_device p f s) = find_identity_mem s"
  "user_record_mem (upd_device p f s) = user_record_mem s"
  "calls (upd_device p f s) = calls s"
  "os (upd_device p f s) = os s"
  "eb_memory_free (upd_device p f s) = eb_memory_free s"
  "eb_memory_used (upd_device p f s) = eb_memory_used s"
  "eb_memory_array_size (upd_device p f s) = eb_memory_array_size s"
  "heap_free_next (upd_device p f s) = heap_free_next s"
  by (simp_all add: upd_device_def)

lemma upd_socket_frame [simp]:
  "heap_operation (upd_socket p f s) = heap_operation s"
  "heap_cycle (upd_socket p f s) = heap_cycle s"
  "heap_device (upd_socket p f s) = heap_device s"
  "heap_socket_aux (upd_socket p f s) = heap_socket_aux s"
  "heap_handler_callback (upd_socket p f s) = heap_handler_callback s"
  "heap_handler_address (upd_socket p f s) = heap_handler_address s"
  "heap_response (upd_socket p f s) = heap_response s"
  "heap_transport (upd_socket p f s) = heap_transport s"
  "heap_link (upd_socket p f s) = heap_link s"
  "heap_sdb_scan (upd_socket p f s) = heap_sdb_scan s"
  "heap_sdb_record (upd_socket p f s) = heap_sdb_record s"
  "user_data_mem (upd_socket p f s) = user_data_mem s"
  "user_status_mem (upd_socket p f s) = user_status_mem s"
  "user_sdb_mem (upd_socket p f s) = user_sdb_mem s"
  "find_address_mem (upd_socket p f s) = find_address_mem s"
  "find_identity_mem (upd_socket p f s) = find_identity_mem s"
  "user_record_mem (upd_socket p f s) = user_record_mem s"
  "calls (upd_socket p f s) = calls s"
  "os (upd_socket p f s) = os s"
  "eb_memory_free (upd_socket p f s) = eb_memory_free s"
  "eb_memory_used (upd_socket p f s) = eb_memory_used s"
  "eb_memory_array_size (upd_socket p f s) = eb_memory_array_size s"
  "heap_free_next (upd_socket p f s) = heap_free_next s"
  by (simp_all add: upd_socket_def)

lemma upd_socket_aux_frame [simp]:
  "heap_operation (upd_socket_aux p f s) = heap_operation s"
  "heap_cycle (upd_socket_aux p f s) = heap_cycle s"
  "heap_device (upd_socket_aux p f s) = heap_device s"
  "heap_socket (upd_socket_aux p f s) = heap_socket s"
  "heap_handler_callback (upd_socket_aux p f s) = heap_handler_callback s"
  "heap_handler_address (upd_socket_aux p f s) = heap_handler_address s"
  "heap_response (upd_socket_aux p f s) = heap_response s"
  "heap_transport (upd_socket_aux p f s) = heap_transport s"
  "heap_link (upd_socket_aux p f s) = heap_link s"
  "heap_sdb_scan (upd_socket_aux p f s) = heap_sdb_scan s"
  "heap_sdb_record (upd_socket_aux p f s) = heap_sdb_record s"
  "user_data_mem (upd_socket_aux p f s) = user_data_mem s"
  "user_status_mem (upd_socket_aux p f s) = user_status_mem s"
  "user_sdb_mem (upd_socket_aux p f s) = user_sdb_mem s"
  "find_address_mem (upd_socket_aux p f s) = find_address_mem s"
  "find_identity_mem (upd_socket_aux p f s) = find_identity_mem s"
  "user_record_mem (upd_socket_aux p f s) = user_record_mem s"
  "calls (upd_socket_aux p f s) = calls s"
  "os (upd_socket_aux p f s) = os s"
  "eb_memory_free (upd_socket_aux p f s) = eb_memory_free s"
  "eb_memory_used (upd_socket_aux p f s) = eb_memory_used s"
  "eb_memory_array_size (upd_socket_aux p f s) = eb_memory_array_size s"
  "heap_free_next (upd_socket_aux p f s) = heap_free_next s"
  by (simp_all add: upd_socket_aux_def)

lemma upd_handler_address_frame [simp]:
  "heap_operation (upd_handler_address p f s) = heap_operation s"
  "heap_cycle (upd_handler_address p f s) = heap_cycle s"
  "heap_device (upd_handler_address p f s) = heap_device s"
  "heap_socket (upd_handler_address p f s) = heap_socket s"
  "heap_socket_aux (upd_handler_address p f s) = heap_socket_aux s"
  "heap_handler_callback (upd_handler_address p f s) = heap_handler_callback s"
  "heap_response (upd_handler_address p f s) = heap_response s"
  "heap_transport (upd_handler_address p f s) = heap_transport s"
  "heap_link (upd_handler_address p f s) = heap_link s"
  "heap_sdb_scan (upd_handler_address p f s) = heap_sdb_scan s"
  "heap_sdb_record (upd_handler_address p f s) = heap_sdb_record s"
  "user_data_mem (upd_handler_address p f s) = user_data_mem s"
  "user_status_mem (upd_handler_address p f s) = user_status_mem s"
  "user_sdb_mem (upd_handler_address p f s) = user_sdb_mem s"
  "find_address_mem (upd_handler_address p f s) = find_address_mem s"
  "find_identity_mem (upd_handler_address p f s) = find_identity_mem s"
  "user_record_mem (upd_handler_address p f s) = user_record_mem s"
  "calls (upd_handler_address p f s) = calls s"
  "os (upd_handler_address p f s) = os s"
  "eb_memory_free (upd_handler_address p f s) = eb_memory_free s"
  "eb_memory_used (upd_handler_address p f s) = eb_memory_used s"
  "eb_memory_array_size (upd_handler_address p f s) = eb_memory_array_size s"
  "heap_free_next (upd_handler_address p f s) = heap_free_next s"
  by (simp_all add: upd_handler_address_def)

lemma upd_handler_callback_frame [simp]:
  "heap_operation (upd_handler_callback p f s) = heap_operation s"
  "heap_cycle (upd_handler_callback p f s) = heap_cycle s"
  "heap_device (upd_handler_callback p f s) = heap_device s"
  "heap_socket (upd_handler_callback p f s) = heap_socket s"
  "heap_socket_aux (upd_handler_callback p f s) = heap_socket_aux s"
  "heap_handler_address (upd_handler_callback p f s) = heap_handler_address s"
  "heap_response (upd_handler_callback p f s) = heap_response s"
  "heap_transport (upd_handler_callback p f s) = heap_transport s"
  "heap_link (upd_handler_callback p f s) = heap_link s"
  "heap_sdb_scan (upd_handler_callback p f s) = heap_sdb_scan s"
  "heap_sdb_record (upd_handler_callback p f s) = heap_sdb_record s"
  "user_data_mem (upd_handler_callback p f s) = user_data_mem s"
  "user_status_mem (upd_handler_callback p f s) = user_status_mem s"
  "user_sdb_mem (upd_handler_callback p f s) = user_sdb_mem s"
  "find_address_mem (upd_handler_callback p f s) = find_address_mem s"
  "find_identity_mem (upd_handler_callback p f s) = find_identity_mem s"
  "user_record_mem (upd_handler_callback p f s) = user_record_mem s"
  "calls (upd_handler_callback p f s) = calls s"
  "os (upd_handler_callback p f s) = os s"
  "eb_memory_free (upd_handler_callback p f s) = eb_memory_free s"
  "eb_memory_used (upd_handler_callback p f s) = eb_memory_used s"
  "eb_memory_array_size (upd_handler_callback p f s) = eb_memory_array_size s"
  "heap_free_next (upd_handler_callback p f s) = heap_free_next s"
  by (simp_all add: upd_handler_callback_def)

lemma upd_response_frame [simp]:
  "heap_operation (upd_response p f s) = heap_operation s"
  "heap_cycle (upd_response p f s) = heap_cycle s"
  "heap_device (upd_response p f s) = heap_device s"
  "heap_socket (upd_response p f s) = heap_socket s"
  "heap_socket_aux (upd_response p f s) = heap_socket_aux s"
  "heap_handler_callback (upd_response p f s) = heap_handler_callback s"
  "heap_handler_address (upd_response p f s) = heap_handler_address s"
  "heap_transport (upd_response p f s) = heap_transport s"
  "heap_link (upd_response p f s) = heap_link s"
  "heap_sdb_scan (upd_response p f s) = heap_sdb_scan s"
  "heap_sdb_record (upd_response p f s) = heap_sdb_record s"
  "user_data_mem (upd_response p f s) = user_data_mem s"
  "user_status_mem (upd_response p f s) = user_status_mem s"
  "user_sdb_mem (upd_response p f s) = user_sdb_mem s"
  "find_address_mem (upd_response p f s) = find_address_mem s"
  "find_identity_mem (upd_response p f s) = find_identity_mem s"
  "user_record_mem (upd_response p f s) = user_record_mem s"
  "calls (upd_response p f s) = calls s"
  "os (upd_response p f s) = os s"
  "eb_memory_free (upd_response p f s) = eb_memory_free s"
  "eb_memory_used (upd_response p f s) = eb_memory_used s"
  "eb_memory_array_size (upd_response p f s) = eb_memory_array_size s"
  "heap_free_next (upd_response p f s) = heap_free_next s"
  by (simp_all add: upd_response_def)

lemma upd_transport_frame [simp]:
  "heap_operation (upd_transport p f s) = heap_operation s"
  "heap_cycle (upd_transport p f s) = heap_cycle s"
  "heap_device (upd_transport p f s) = heap_device s"
  "heap_socket (upd_transport p f s) = heap_socket s"
  "heap_socket_aux (upd_transport p f s) = heap_socket_aux s"
  "heap_handler_callback (upd_transport p f s) = heap_handler_callback s"
  "heap_handler_address (upd_transport p f s) = heap_handler_address s"
  "heap_response (upd_transport p f s) = heap_response s"
  "heap_link (upd_transport p f s) = heap_link s"
  "heap_sdb_scan (upd_transport p f s) = heap_sdb_scan s"
  "heap_sdb_record (upd_transport p f s) = heap_sdb_record s"
  "user_data_mem (upd_transport p f s) = user_data_mem s"
  "user_status_mem (upd_transport p f s) = user_status_mem s"
  "user_sdb_mem (upd_transport p f s) = user_sdb_mem s"
  "find_address_mem (upd_transport p f s) = find_address_mem s"
  "find_identity_mem (upd_transport p f s) = find_identity_mem s"
  "user_record_mem (upd_transport p f s) = user_record_mem s"
  "calls (upd_transport p f s) = calls s"
  "os (upd_transport p f s) = os s"
  "eb_memory_free (upd_transport p f s) = eb_memory_free s"
  "eb_memory_used (upd_transport p f s) = eb_memory_used s"
  "eb_memory_array_size (upd_transport p f s) = eb_memory_array_size s"
  "heap_free_next (upd_transport p f s) = heap_free_next s"
  by (simp_all add: upd_transport_def)

lemma upd_link_frame [simp]:
  "heap_operation (upd_link p f s) = heap_operation s"
  "heap_cycle (upd_link p f s) = heap_cycle s"
  "heap_device (upd_link p f s) = heap_device s"
  "heap_socket (upd_link p f s) = heap_socket s"
  "heap_socket_aux (upd_link p f s) = heap_socket_aux s"
  "heap_handler_callback (upd_link p f s) = heap_handler_callback s"
  "heap_handler_address (upd_link p f s) = heap_handler_address s"
  "heap_response (upd_link p f s) = heap_response s"
  "heap_transport (upd_link p f s) = heap_transport s"
  "heap_sdb_scan (upd_link p f s) = heap_sdb_scan s"
  "heap_sdb_record (upd_link p f s) = heap_sdb_record s"
  "user_data_mem (upd_link p f s) = user_data_mem s"
  "user_status_mem (upd_link p f s) = user_status_mem s"
  "user_sdb_mem (upd_link p f s) = user_sdb_mem s"
  "find_address_mem (upd_link p f s) = find_address_mem s"
  "find_identity_mem (upd_link p f s) = find_identity_mem s"
  "user_record_mem (upd_link p f s) = user_record_mem s"
  "calls (upd_link p f s) = calls s"
  "os (upd_link p f s) = os s"
  "eb_memory_free (upd_link p f s) = eb_memory_free s"
  "eb_memory_used (upd_link p f s) = eb_memory_used s"
  "eb_memory_array_size (upd_link p f s) = eb_memory_array_size s"
  "heap_free_next (upd_link p f s) = heap_free_next s"
  by (simp_all add: upd_link_def)

lemma upd_sdb_scan_frame [simp]:
  "heap_operation (upd_sdb_scan p f s) = heap_operation s"
  "heap_cycle (upd_sdb_scan p f s) = heap_cycle s"
  "heap_device (upd_sdb_scan p f s) = heap_device s"
  "heap_socket (upd_sdb_scan p f s) = heap_socket s"
  "heap_socket_aux (upd_sdb_scan p f s) = heap_socket_aux s"
  "heap_handler_callback (upd_sdb_scan p f s) = heap_handler_callback s"
  "heap_handler_address (upd_sdb_scan p f s) = heap_handler_address s"
  "heap_response (upd_sdb_scan p f s) = heap_response s"
  "heap_transport (upd_sdb_scan p f s) = heap_transport s"
  "heap_link (upd_sdb_scan p f s) = heap_link s"
  "heap_sdb_record (upd_sdb_scan p f s) = heap_sdb_record s"
  "user_data_mem (upd_sdb_scan p f s) = user_data_mem s"
  "user_status_mem (upd_sdb_scan p f s) = user_status_mem s"
  "user_sdb_mem (upd_sdb_scan p f s) = user_sdb_mem s"
  "find_address_mem (upd_sdb_scan p f s) = find_address_mem s"
  "find_identity_mem (upd_sdb_scan p f s) = find_identity_mem s"
  "user_record_mem (upd_sdb_scan p f s) = user_record_mem s"
  "calls (upd_sdb_scan p f s) = calls s"
  "os (upd_sdb_scan p f s) = os s"
  "eb_memory_free (upd_sdb_scan p f s) = eb_memory_free s"
  "eb_memory_used (upd_sdb_scan p f s) = eb_memory_used s"
  "eb_memory_array_size (upd_sdb_scan p f s) = eb_memory_array_size s"
  "heap_free_next (upd_sdb_scan p f s) = heap_free_next s"
  by (simp_all add: upd_sdb_scan_def)

lemma upd_sdb_record_frame [simp]:
  "heap_operation (upd_sdb_record p f s) = heap_operation s"
  "heap_cycle (upd_sdb_record p f s) = heap_cycle s"
  "heap_device (upd_sdb_record p f s) = heap_device s"
  "heap_socket (upd_sdb_record p f s) = heap_socket s"
  "heap_socket_aux (upd_sdb_record p f s) = heap_socket_aux s"
  "heap_handler_callback (upd_sdb_record p f s) = heap_handler_callback s"
  "heap_handler_address (upd_sdb_record p f s) = heap_handler_address s"
  "heap_response (upd_sdb_record p f s) = heap_response s"
  "heap_transport (upd_sdb_record p f s) = heap_transport s"
  "heap_link (upd_sdb_record p f s) = heap_link s"
  "heap_sdb_scan (upd_sdb_record p f s) = heap_sdb_scan s"
  "user_data_mem (upd_sdb_record p f s) = user_data_mem s"
  "user_status_mem (upd_sdb_record p f s) = user_status_mem s"
  "user_sdb_mem (upd_sdb_record p f s) = user_sdb_mem s"
  "find_address_mem (upd_sdb_record p f s) = find_address_mem s"
  "find_identity_mem (upd_sdb_record p f s) = find_identity_mem s"
  "user_record_mem (upd_sdb_record p f s) = user_record_mem s"
  "calls (upd_sdb_record p f s) = calls s"
  "os (upd_sdb_record p f s) = os s"
  "eb_memory_free (upd_sdb_record p f s) = eb_memory_free s"
  "eb_memory_used (upd_sdb_record p f s) = eb_memory_used s"
  "eb_memory_array_size (upd_sdb_record p f s) = eb_memory_array_size s"
  "heap_free_next (upd_sdb_record p f s) = heap_free_next s"
  by (simp_all add: upd_sdb_record_def)

section \<open>The initial state\<close>

text \<open>
  The state at program start: no item is free, the array size is that of \<^verbatim>\<open>dynamic.c\<close>, the
  objects are zero. \<open>unit_env\<close> is the environment of the concrete runs: \<^verbatim>\<open>realloc\<close> succeeds, the
  application does nothing in its callbacks, its handlers answer \<^verbatim>\<open>EB_OK\<close> and read zero, and the
  single kind of transport has the packet size 1472 and drops what is sent.
\<close>

definition eb_state0 :: "'w \<Rightarrow> 'w eb_state" where
  "eb_state0 w = \<lparr>
     eb_memory_free = EB_NULL, eb_memory_used = 0, eb_memory_array_size = 128,
     heap_free_next = (\<lambda>_. 0),
     heap_operation = (\<lambda>_. \<lparr>op_address = 0, op_value = 0, op_flags = 0, op_format = 0, op_next = 0\<rparr>),
     heap_cycle = (\<lambda>_. \<lparr>cyc_callback = Eb_user_callback 0, cyc_user_data = 0, cyc_ops = 0, cyc_link = 0\<rparr>),
     heap_device = (\<lambda>_. \<lparr>dev_socket = 0, dev_next = 0, dev_ready = 0, dev_unready = 0, dev_widths = 0,
       dev_link = 0, dev_transport = 0\<rparr>),
     heap_socket = (\<lambda>_. \<lparr>sock_first_device = 0, sock_first_handler = 0, sock_first_response = 0,
       sock_last_response = 0, sock_aux = 0, sock_widths = 0\<rparr>),
     heap_socket_aux = (\<lambda>_. \<lparr>aux_sdb_offset = 0, aux_time_cache = 0, aux_rba = 0, aux_first_transport = 0\<rparr>),
     heap_handler_callback = (\<lambda>_. \<lparr>hcb_data = 0, hcb_read = 0, hcb_write = 0\<rparr>),
     heap_handler_address = (\<lambda>_. \<lparr>had_device = 0, had_callback = 0, had_next = 0\<rparr>),
     heap_response = (\<lambda>_. \<lparr>res_address = 0, res_deadline = 0, res_next = 0, res_cycle = 0,
       res_write_cursor = 0, res_status_cursor = 0\<rparr>),
     heap_transport = (\<lambda>_. \<lparr>tra_raw = [], tra_link_type = 0, tra_next = 0\<rparr>),
     heap_link = (\<lambda>_. \<lparr>link_raw = []\<rparr>),
     heap_sdb_scan = (\<lambda>_. \<lparr>scan_user_data = 0, scan_cb = Sdb_user_callback 0, scan_bus_base = 0\<rparr>),
     heap_sdb_record = (\<lambda>_. \<lparr>rec_scan = 0, rec_ops = 0, rec_status = 0, rec_pending = 0, rec_records = 0\<rparr>),
     user_data_mem = (\<lambda>_. 0), user_status_mem = (\<lambda>_. 0),
     user_sdb_mem = (\<lambda>_. \<lparr>abi_class = 0, abi_ver_major = 0, abi_ver_minor = 0, bus_specific = 0,
       dev_component = \<lparr>addr_first = 0, addr_last = 0, product = \<lparr>vendor_id = 0, device_id = 0,
         version = 0, date = 0, prod_name = replicate 19 0, record_type = 1\<rparr>\<rparr>\<rparr>),
     user_record_mem = (\<lambda>_. Sdb_other []),
     find_address_mem = (\<lambda>_. \<lparr>fba_address = 0, fba_output = 0, fba_status = 0\<rparr>),
     find_identity_mem = (\<lambda>_. \<lparr>fbi_vendor_id = 0, fbi_output = 0, fbi_device_id = 0, fbi_size = 0,
       fbi_fill = 0, fbi_pending = 0, fbi_status = 0\<rparr>),
     calls = [], os = w\<rparr>"

definition unit_env :: "unit eb_env" where
  "unit_env = \<lparr>
     env_realloc = (\<lambda>_ w. (True, w)),
     env_callback = (\<lambda>_ _ _ _ _ s. s),
     env_read = (\<lambda>_ _ _ _ s. (0, 0, s)),
     env_write = (\<lambda>_ _ _ _ _ s. (0, s)),
     env_sdb_callback = (\<lambda>_ _ _ _ _ s. s),
     env_stack = (\<lambda>_. 0), env_version = 0, env_date = 0,
     env_transports = (\<lambda>_. \<lparr>
       tops_mtu = 1472,
       tops_open = (\<lambda>t _ w. (0, t, w)),
       tops_close = (\<lambda>_ w. w),
       tops_connect = (\<lambda>_ l _ _ w. Some (0, l, w)),
       tops_disconnect = (\<lambda>_ _ w. w),
       tops_fdes = (\<lambda>_ _. []),
       tops_accept = (\<lambda>_ l _ w. (0, l, w)),
       tops_poll = (\<lambda>_ l _ _ w. (0, [], l, w)),
       tops_recv = (\<lambda>_ l _ w. (0, [], l, w)),
       tops_send = (\<lambda>_ l _ w. (l, w)),
       tops_send_buffer = (\<lambda>_ l _ w. (l, w))\<rparr>), env_transport_size = 1\<rparr>"

declare eb_state0_def [eb_unfold] unit_env_def [eb_unfold]

section \<open>The link fields\<close>

interpretation op_list: link_field op_next "\<lambda>v. op_next_update (\<lambda>_. v)"
  by unfold_locales auto

interpretation cycle_list: link_field cyc_link "\<lambda>v. cyc_link_update (\<lambda>_. v)"
  by unfold_locales auto

interpretation response_list: link_field res_next "\<lambda>v. res_next_update (\<lambda>_. v)"
  by unfold_locales auto

end
