(* ===== verification/EB_Memory.thy ===== *)
theory EB_Memory
  imports EB_State
begin

text \<open>
  \<^verbatim>\<open>api/memory\<close>: the allocator of the memory array (\<^verbatim>\<open>array.c\<close>) over its two back ends, the
  doubling array of \<^verbatim>\<open>dynamic.c\<close> and the fixed array of \<^verbatim>\<open>static.c\<close>.

  The free items form a linked list through the array. \<open>alloc_inv s fl\<close> says that
  \<open>fl\<close> is that list and that every free handle lies inside the linked part of the array;
  the contract \<open>handle_allocator\<close> states what the rest of the library relies on: a
  handle that is given out is not \<^verbatim>\<open>EB_NULL\<close> and was not in use, and freeing makes it available
  again. Both back ends are shown to meet it.
\<close>

unbundle bit_operations_syntax

section \<open>dynamic.c\<close>

text \<open>The loop \<^verbatim>\<open>for (i = first; i != last; ++i) eb_memory_array[i].free_item.next = i+1\<close>, for
  \<open>n\<close> items from index \<open>i\<close>; the link is narrowed to 16 bits.\<close>

fun link_free_items :: "nat \<Rightarrow> nat \<Rightarrow> (eb_ptr \<Rightarrow> eb_ptr) \<Rightarrow> (eb_ptr \<Rightarrow> eb_ptr)" where
  "link_free_items 0 i m = m"
| "link_free_items (Suc n) i m =
     link_free_items n (Suc i) (m(word_of_nat i := word_of_nat (Suc i)))"

definition eb_expand_array :: "'w eb_env \<Rightarrow> 'w eb_state \<Rightarrow> int \<times> 'w eb_state" where
  "eb_expand_array E s =
     (let size = eb_memory_array_size s in
      if size = 65536 then (- 1, s)
      else let next_size = size + size;
               (ok, w) = env_realloc E next_size (os s);
               s = s\<lparr>os := w\<rparr>
           in if \<not> ok then (- 1, s)
              else let m = link_free_items (unat next_size - unat size) (unat size) (heap_free_next s);
                       m = m(ucast (next_size - 1) := EB_NULL)
                   in (0, s\<lparr>heap_free_next := m, eb_memory_free := ucast size,
                           eb_memory_array_size := next_size\<rparr>))"

section \<open>static.c\<close>

text \<open>\<^verbatim>\<open>static.c\<close> has a flag \<^verbatim>\<open>setup\<close> and a constant size \<^verbatim>\<open>EB_USE_STATIC\<close>. The flag is kept in
  \<open>eb_memory_array_size\<close>, which that build does not otherwise have: 0 before the first
  call and the size after it.\<close>

definition eb_expand_array_static :: "uint16 \<Rightarrow> 'w eb_state \<Rightarrow> int \<times> 'w eb_state" where
  "eb_expand_array_static EB_USE_STATIC s =
     (if eb_memory_array_size s = 0
      then let m = link_free_items (unat EB_USE_STATIC) 0 (heap_free_next s);
               m = m(EB_USE_STATIC - 1 := EB_NULL)
           in (0, s\<lparr>heap_free_next := m, eb_memory_free := 0,
                   eb_memory_array_size := ucast EB_USE_STATIC\<rparr>)
      else (- 1, s))"

section \<open>array.c\<close>

definition eb_new_memory_item ::
  "('w eb_state \<Rightarrow> int \<times> 'w eb_state) \<Rightarrow> 'w eb_state \<Rightarrow> eb_ptr \<times> 'w eb_state" where
  "eb_new_memory_item expand s =
     (let (failed, s) =
        (if eb_memory_free s = EB_NULL
         then let (r, s) = expand s in (r < 0, s)
         else (False, s))
      in if failed then (EB_NULL, s)
         else let alloc = eb_memory_free s
              in (alloc, s\<lparr>eb_memory_free := heap_free_next s alloc,
                          eb_memory_used := eb_memory_used s + 1\<rparr>))"

definition eb_free_memory_item :: "eb_ptr \<Rightarrow> 'w eb_state \<Rightarrow> 'w eb_state" where
  "eb_free_memory_item item s =
     s\<lparr>heap_free_next := (heap_free_next s)(item := eb_memory_free s),
       eb_memory_free := item, eb_memory_used := eb_memory_used s - 1\<rparr>"

definition eb_new_operation :: "'w eb_env \<Rightarrow> 'w eb_state \<Rightarrow> eb_ptr \<times> 'w eb_state" where
  "eb_new_operation E = eb_new_memory_item (eb_expand_array E)"
definition eb_new_cycle :: "'w eb_env \<Rightarrow> 'w eb_state \<Rightarrow> eb_ptr \<times> 'w eb_state" where
  "eb_new_cycle E = eb_new_memory_item (eb_expand_array E)"
definition eb_new_device :: "'w eb_env \<Rightarrow> 'w eb_state \<Rightarrow> eb_ptr \<times> 'w eb_state" where
  "eb_new_device E = eb_new_memory_item (eb_expand_array E)"
definition eb_new_handler_callback :: "'w eb_env \<Rightarrow> 'w eb_state \<Rightarrow> eb_ptr \<times> 'w eb_state" where
  "eb_new_handler_callback E = eb_new_memory_item (eb_expand_array E)"
definition eb_new_handler_address :: "'w eb_env \<Rightarrow> 'w eb_state \<Rightarrow> eb_ptr \<times> 'w eb_state" where
  "eb_new_handler_address E = eb_new_memory_item (eb_expand_array E)"
definition eb_new_response :: "'w eb_env \<Rightarrow> 'w eb_state \<Rightarrow> eb_ptr \<times> 'w eb_state" where
  "eb_new_response E = eb_new_memory_item (eb_expand_array E)"
definition eb_new_socket :: "'w eb_env \<Rightarrow> 'w eb_state \<Rightarrow> eb_ptr \<times> 'w eb_state" where
  "eb_new_socket E = eb_new_memory_item (eb_expand_array E)"
definition eb_new_socket_aux :: "'w eb_env \<Rightarrow> 'w eb_state \<Rightarrow> eb_ptr \<times> 'w eb_state" where
  "eb_new_socket_aux E = eb_new_memory_item (eb_expand_array E)"
definition eb_new_transport :: "'w eb_env \<Rightarrow> 'w eb_state \<Rightarrow> eb_ptr \<times> 'w eb_state" where
  "eb_new_transport E = eb_new_memory_item (eb_expand_array E)"
definition eb_new_link :: "'w eb_env \<Rightarrow> 'w eb_state \<Rightarrow> eb_ptr \<times> 'w eb_state" where
  "eb_new_link E = eb_new_memory_item (eb_expand_array E)"
definition eb_new_sdb_scan :: "'w eb_env \<Rightarrow> 'w eb_state \<Rightarrow> eb_ptr \<times> 'w eb_state" where
  "eb_new_sdb_scan E = eb_new_memory_item (eb_expand_array E)"
definition eb_new_sdb_record :: "'w eb_env \<Rightarrow> 'w eb_state \<Rightarrow> eb_ptr \<times> 'w eb_state" where
  "eb_new_sdb_record E = eb_new_memory_item (eb_expand_array E)"

definition eb_free_operation :: "eb_ptr \<Rightarrow> 'w eb_state \<Rightarrow> 'w eb_state" where
  "eb_free_operation = eb_free_memory_item"
definition eb_free_cycle :: "eb_ptr \<Rightarrow> 'w eb_state \<Rightarrow> 'w eb_state" where
  "eb_free_cycle = eb_free_memory_item"
definition eb_free_device :: "eb_ptr \<Rightarrow> 'w eb_state \<Rightarrow> 'w eb_state" where
  "eb_free_device = eb_free_memory_item"
definition eb_free_handler_callback :: "eb_ptr \<Rightarrow> 'w eb_state \<Rightarrow> 'w eb_state" where
  "eb_free_handler_callback = eb_free_memory_item"
definition eb_free_handler_address :: "eb_ptr \<Rightarrow> 'w eb_state \<Rightarrow> 'w eb_state" where
  "eb_free_handler_address = eb_free_memory_item"
definition eb_free_response :: "eb_ptr \<Rightarrow> 'w eb_state \<Rightarrow> 'w eb_state" where
  "eb_free_response = eb_free_memory_item"
definition eb_free_socket :: "eb_ptr \<Rightarrow> 'w eb_state \<Rightarrow> 'w eb_state" where
  "eb_free_socket = eb_free_memory_item"
definition eb_free_socket_aux :: "eb_ptr \<Rightarrow> 'w eb_state \<Rightarrow> 'w eb_state" where
  "eb_free_socket_aux = eb_free_memory_item"
definition eb_free_transport :: "eb_ptr \<Rightarrow> 'w eb_state \<Rightarrow> 'w eb_state" where
  "eb_free_transport = eb_free_memory_item"
definition eb_free_link :: "eb_ptr \<Rightarrow> 'w eb_state \<Rightarrow> 'w eb_state" where
  "eb_free_link = eb_free_memory_item"
definition eb_free_sdb_scan :: "eb_ptr \<Rightarrow> 'w eb_state \<Rightarrow> 'w eb_state" where
  "eb_free_sdb_scan = eb_free_memory_item"
definition eb_free_sdb_record :: "eb_ptr \<Rightarrow> 'w eb_state \<Rightarrow> 'w eb_state" where
  "eb_free_sdb_record = eb_free_memory_item"

lemmas eb_new_defs =
  eb_new_operation_def eb_new_cycle_def eb_new_device_def eb_new_handler_callback_def
  eb_new_handler_address_def eb_new_response_def eb_new_socket_def eb_new_socket_aux_def
  eb_new_transport_def eb_new_link_def eb_new_sdb_scan_def eb_new_sdb_record_def

lemmas eb_free_defs =
  eb_free_operation_def eb_free_cycle_def eb_free_device_def eb_free_handler_callback_def
  eb_free_handler_address_def eb_free_response_def eb_free_socket_def eb_free_socket_aux_def
  eb_free_transport_def eb_free_link_def eb_free_sdb_scan_def eb_free_sdb_record_def

declare eb_new_defs [eb_unfold] eb_free_defs [eb_unfold] eb_new_memory_item_def [eb_unfold]
  eb_free_memory_item_def [eb_unfold] eb_expand_array_def [eb_unfold]

section \<open>Linking a block of items\<close>

lemma link_free_items_other:
  assumes "unat p < i \<or> i + n \<le> unat p" and "i + n \<le> 2 ^ 16"
  shows "link_free_items n i m p = m p"
  using assms
proof (induction n arbitrary: i m)
  case 0
  then show ?case by simp
next
  case (Suc n)
  have "link_free_items n (Suc i) (m(word_of_nat i := word_of_nat (Suc i))) p
      = (m(word_of_nat i := word_of_nat (Suc i))) p"
    using Suc.prems by (intro Suc.IH) auto
  moreover have "unat (word_of_nat i :: eb_ptr) = i"
    using Suc.prems(2) by (simp add: unat_of_nat_small)
  ultimately show ?case using Suc.prems by auto
qed

lemma link_free_items_in:
  assumes "i \<le> k" and "k < i + n" and "i + n \<le> 2 ^ 16"
  shows "link_free_items n i m (word_of_nat k) = word_of_nat (Suc k)"
  using assms
proof (induction n arbitrary: i m)
  case 0
  then show ?case by simp
next
  case (Suc n)
  show ?case
  proof (cases "k = i")
    case True
    have "unat (word_of_nat k :: eb_ptr) = k"
      using Suc.prems by (simp add: unat_of_nat_small)
    then show ?thesis
      using True Suc.prems
        link_free_items_other [of "word_of_nat k" "Suc i" n "m(word_of_nat i := word_of_nat (Suc i))"]
      by simp
  next
    case False
    then show ?thesis using Suc.prems Suc.IH by simp
  qed
qed

text \<open>The handles \<open>i, \<dots>, i + n - 1\<close> in order.\<close>

definition handles :: "nat \<Rightarrow> nat \<Rightarrow> eb_ptr list" where
  "handles i n = map word_of_nat [i ..< i + n]"

lemma handles_0 [simp]: "handles i 0 = []"
  by (simp add: handles_def)

lemma handles_Suc [simp]: "handles i (Suc n) = word_of_nat i # handles (Suc i) n"
  by (simp add: handles_def upt_rec)

lemma handles_eq_Nil [simp]: "handles i n = [] \<longleftrightarrow> n = 0"
  by (cases n) simp_all

lemma set_handles: "i + n \<le> 2 ^ 16 \<Longrightarrow> set (handles i n) = {p. i \<le> unat p \<and> unat p < i + n}"
proof (intro set_eqI iffI)
  fix p :: eb_ptr
  assume "i + n \<le> 2 ^ 16" and "p \<in> {p. i \<le> unat p \<and> unat p < i + n}"
  then show "p \<in> set (handles i n)"
    unfolding handles_def by (auto intro!: image_eqI [of _ _ "unat p"])
next
  fix p :: eb_ptr
  assume "i + n \<le> 2 ^ 16" and "p \<in> set (handles i n)"
  then show "p \<in> {p. i \<le> unat p \<and> unat p < i + n}"
    unfolding handles_def by (auto simp: unat_of_nat_small)
qed

lemma handle_neq_null: "k < 65535 \<Longrightarrow> (word_of_nat k :: eb_ptr) \<noteq> EB_NULL"
proof
  assume k: "k < 65535" and eq: "(word_of_nat k :: eb_ptr) = EB_NULL"
  from k have "unat (word_of_nat k :: eb_ptr) = k" by (simp add: unat_of_nat_small)
  with k show False unfolding eq by simp
qed

lemma chain_block:
  assumes "\<And>k. i \<le> k \<Longrightarrow> k < i + n \<Longrightarrow>
      nxt (word_of_nat k) = (if Suc k = i + n then EB_NULL else word_of_nat (Suc k))"
    and "i + n < 2 ^ 16"
  shows "chain nxt EB_NULL (if n = 0 then EB_NULL else word_of_nat i) (handles i n)"
  using assms
proof (induction n arbitrary: i)
  case 0
  then show ?case by simp
next
  case (Suc n)
  have "chain nxt EB_NULL (if n = 0 then EB_NULL else word_of_nat (Suc i)) (handles (Suc i) n)"
    using Suc.prems by (intro Suc.IH) auto
  moreover have "nxt (word_of_nat i) = (if n = 0 then EB_NULL else word_of_nat (Suc i))"
    using Suc.prems(1) [of i] by auto
  ultimately show ?case
    using handle_neq_null [of i] Suc.prems(2) by simp
qed

section \<open>The contract of the allocator\<close>

text \<open>What the rest of the library relies on.\<close>

locale handle_allocator =
  fixes new :: "'s \<Rightarrow> eb_ptr \<times> 's" and free :: "eb_ptr \<Rightarrow> 's \<Rightarrow> 's"
    and inv :: "'s \<Rightarrow> bool" and used :: "'s \<Rightarrow> eb_ptr set"
  assumes new_inv: "inv s \<Longrightarrow> inv (snd (new s))"
    and new_used: "inv s \<Longrightarrow> used (snd (new s)) =
      (if fst (new s) = EB_NULL then used s else insert (fst (new s)) (used s))"
    and new_fresh: "inv s \<Longrightarrow> fst (new s) \<notin> used s"
    and free_inv: "inv s \<Longrightarrow> p \<in> used s \<Longrightarrow> inv (free p s)"
    and free_used: "inv s \<Longrightarrow> p \<in> used s \<Longrightarrow> used (free p s) = used s - {p}"
    and null_not_used: "EB_NULL \<notin> used s"

text \<open>Allocating \<open>n\<close> objects in a row, and freeing a list of objects.\<close>

fun new_many :: "('s \<Rightarrow> eb_ptr \<times> 's) \<Rightarrow> nat \<Rightarrow> 's \<Rightarrow> eb_ptr list \<times> 's" where
  "new_many new 0 s = ([], s)"
| "new_many new (Suc n) s =
     (let (p, s) = new s; (ps, s) = new_many new n s in (p # ps, s))"

fun free_many :: "(eb_ptr \<Rightarrow> 's \<Rightarrow> 's) \<Rightarrow> eb_ptr list \<Rightarrow> 's \<Rightarrow> 's" where
  "free_many free [] s = s"
| "free_many free (p # ps) s = free_many free ps (free p s)"

context handle_allocator begin

lemma new_many_fresh:
  assumes "inv s" and "new_many new n s = (ps, s')" and "EB_NULL \<notin> set ps"
  shows "inv s' \<and> distinct ps \<and> set ps \<inter> used s = {} \<and> used s' = set ps \<union> used s"
  using assms
proof (induction n arbitrary: s ps)
  case 0
  then show ?case by simp
next
  case (Suc n)
  obtain p s1 where n1: "new s = (p, s1)" by (cases "new s")
  obtain qs where qs: "new_many new n s1 = (qs, s')" "ps = p # qs"
    using Suc.prems(2) n1 by (auto split: prod.splits)
  have s1: "inv s1" "used s1 = insert p (used s)" "p \<notin> used s"
    using new_inv [OF Suc.prems(1)] new_used [OF Suc.prems(1)] new_fresh [OF Suc.prems(1)]
      Suc.prems(3) n1 qs(2) by auto
  from Suc.IH [OF s1(1) qs(1)] Suc.prems(3) qs(2)
  have "inv s' \<and> distinct qs \<and> set qs \<inter> used s1 = {} \<and> used s' = set qs \<union> used s1" by simp
  with s1 qs(2) show ?case by auto
qed

lemma free_many_used:
  assumes "inv s" and "distinct ps" and "set ps \<subseteq> used s"
  shows "inv (free_many free ps s) \<and> used (free_many free ps s) = used s - set ps"
  using assms
proof (induction ps arbitrary: s)
  case Nil
  then show ?case by simp
next
  case (Cons p ps)
  then have "inv (free p s)" "used (free p s) = used s - {p}"
    by (simp_all add: free_inv free_used)
  with Cons show ?case by auto
qed

lemma new_many_free_many:
  assumes "inv s" and "new_many new n s = (ps, s')" and "EB_NULL \<notin> set ps"
  shows "used (free_many free ps s') = used s"
proof -
  from new_many_fresh [OF assms] have *: "inv s'" "distinct ps" "set ps \<inter> used s = {}"
    "used s' = set ps \<union> used s" by auto
  with free_many_used [of s' ps] show ?thesis by auto
qed

end

section \<open>Array back ends\<close>

definition alloc_inv :: "nat \<Rightarrow> (uint32 \<Rightarrow> bool) \<Rightarrow> 'w eb_state \<Rightarrow> bool" where
  "alloc_inv lo ok s \<longleftrightarrow> ok (eb_memory_array_size s) \<and>
     (\<exists>fl. chain (heap_free_next s) EB_NULL (eb_memory_free s) fl
       \<and> (\<forall>p \<in> set fl. lo \<le> unat p \<and> unat p < unat (eb_memory_array_size s)))"

text \<open>The handles given out: those of the linked part of the array that are not on the free
  list.\<close>

definition in_use :: "nat \<Rightarrow> 'w eb_state \<Rightarrow> eb_ptr set" where
  "in_use lo s =
     {p. lo \<le> unat p \<and> unat p < unat (eb_memory_array_size s) \<and> p \<noteq> EB_NULL
        \<and> (\<forall>fl. walk (heap_free_next s) EB_NULL (eb_memory_free s) = Some fl \<longrightarrow> p \<notin> set fl)}"

lemma in_use_chain:
  "chain (heap_free_next s) EB_NULL (eb_memory_free s) fl \<Longrightarrow>
   in_use lo s = {p. lo \<le> unat p \<and> unat p < unat (eb_memory_array_size s) \<and> p \<noteq> EB_NULL \<and> p \<notin> set fl}"
  by (simp add: in_use_def walk_chain)

text \<open>What \<^verbatim>\<open>eb_expand_array\<close> promises to \<^verbatim>\<open>eb_new_memory_item\<close> when the free list is empty.\<close>

locale array_backend =
  fixes expand :: "'w eb_state \<Rightarrow> int \<times> 'w eb_state" and lo :: nat and ok :: "uint32 \<Rightarrow> bool"
  assumes expand_fail: "ok (eb_memory_array_size s) \<Longrightarrow> eb_memory_free s = EB_NULL \<Longrightarrow>
      fst (expand s) < 0 \<Longrightarrow>
      heap_free_next (snd (expand s)) = heap_free_next s
      \<and> eb_memory_free (snd (expand s)) = EB_NULL
      \<and> eb_memory_array_size (snd (expand s)) = eb_memory_array_size s"
    and expand_ok: "ok (eb_memory_array_size s) \<Longrightarrow> eb_memory_free s = EB_NULL \<Longrightarrow>
      0 \<le> fst (expand s) \<Longrightarrow>
      ok (eb_memory_array_size (snd (expand s)))
      \<and> unat (eb_memory_array_size s) \<le> unat (eb_memory_array_size (snd (expand s)))
      \<and> (\<exists>fl. fl \<noteq> []
        \<and> chain (heap_free_next (snd (expand s))) EB_NULL (eb_memory_free (snd (expand s))) fl
        \<and> set fl = {p. unat (eb_memory_array_size s) \<le> unat p
            \<and> unat p < unat (eb_memory_array_size (snd (expand s))) \<and> p \<noteq> EB_NULL})"
    and ok_lo: "ok sz \<Longrightarrow> lo \<le> unat sz"
begin

text \<open>After the optional expansion the free list is as before, or it is the new block and nothing
  was free before.\<close>

lemma new_item_cases:
  assumes "alloc_inv lo ok s"
  obtains (null) "fst (eb_new_memory_item expand s) = EB_NULL"
      "alloc_inv lo ok (snd (eb_new_memory_item expand s))"
      "in_use lo (snd (eb_new_memory_item expand s)) = in_use lo s"
    | (item) p fl s1 where "alloc_inv lo ok s1" "in_use lo s1 = in_use lo s"
      "chain (heap_free_next s1) EB_NULL p (p # fl)" "eb_memory_free s1 = p"
      "eb_new_memory_item expand s =
        (p, s1\<lparr>eb_memory_free := heap_free_next s1 p, eb_memory_used := eb_memory_used s1 + 1\<rparr>)"
proof -
  obtain fl where ok: "ok (eb_memory_array_size s)"
    and fl: "chain (heap_free_next s) EB_NULL (eb_memory_free s) fl"
    and range: "\<forall>p \<in> set fl. lo \<le> unat p \<and> unat p < unat (eb_memory_array_size s)"
    using assms by (auto simp: alloc_inv_def)
  show thesis
  proof (cases "eb_memory_free s = EB_NULL")
    case False
    then obtain fl' where "fl = eb_memory_free s # fl'"
      using fl by (auto simp: chain_neq)
    with False fl assms show thesis
      by (intro item [of s "eb_memory_free s" fl']) (auto simp: eb_new_memory_item_def Let_def)
  next
    case True
    obtain r s1 where e: "expand s = (r, s1)" by (cases "expand s")
    show thesis
    proof (cases "r < 0")
      case neg: True
      have "chain (heap_free_next s1) EB_NULL (eb_memory_free s1) []"
        "eb_memory_array_size s1 = eb_memory_array_size s"
        using expand_fail [OF ok True] e neg by auto
      then show thesis using True ok e neg fl
        by (intro null) (auto simp: eb_new_memory_item_def alloc_inv_def in_use_chain intro: exI [of _ "[]"])
    next
      case False
      then obtain fl1 where ok1: "ok (eb_memory_array_size s1)"
        and le: "unat (eb_memory_array_size s) \<le> unat (eb_memory_array_size s1)"
        and fl1: "fl1 \<noteq> []" "chain (heap_free_next s1) EB_NULL (eb_memory_free s1) fl1"
          "set fl1 = {p. unat (eb_memory_array_size s) \<le> unat p
            \<and> unat p < unat (eb_memory_array_size s1) \<and> p \<noteq> EB_NULL}"
        using expand_ok [OF ok True] e by auto
      have inv1: "alloc_inv lo ok s1"
        using ok1 fl1 ok_lo [OF ok] by (auto simp: alloc_inv_def)
      have "fl = []" using fl True by simp
      then have "in_use lo s1 = in_use lo s"
        unfolding in_use_chain [OF fl1(2)] in_use_chain [OF fl] fl1(3)
        using le ok_lo [OF ok] by auto
      moreover obtain fl2 where "fl1 = eb_memory_free s1 # fl2" "eb_memory_free s1 \<noteq> EB_NULL"
        using fl1(1,2) by (cases fl1) auto
      ultimately show thesis
        using inv1 fl1(2) False True e
        by (intro item [of s1 "eb_memory_free s1" fl2]) (auto simp: eb_new_memory_item_def Let_def)
    qed
  qed
qed

end

lemma alloc_inv_pop:
  assumes inv: "alloc_inv lo ok s" and c: "chain (heap_free_next s) EB_NULL p (p # fl)"
    and p: "eb_memory_free s = p"
    and s'_def: "s' = s\<lparr>eb_memory_free := heap_free_next s p, eb_memory_used := u\<rparr>"
  shows "alloc_inv lo ok s'" and "in_use lo s' = insert p (in_use lo s)"
    and "p \<notin> in_use lo s" and "p \<noteq> EB_NULL"
proof -
  obtain fl' where ok: "ok (eb_memory_array_size s)"
    and fl': "chain (heap_free_next s) EB_NULL (eb_memory_free s) fl'"
    and range: "\<forall>p \<in> set fl'. lo \<le> unat p \<and> unat p < unat (eb_memory_array_size s)"
    using inv by (auto simp: alloc_inv_def)
  have eq: "fl' = p # fl" using fl' c p chain_unique by metis
  have c': "chain (heap_free_next s') EB_NULL (eb_memory_free s') fl"
    using c by (simp add: s'_def)
  have "p \<notin> set fl" using chain_distinct [OF c] by simp
  then show "in_use lo s' = insert p (in_use lo s)" "p \<notin> in_use lo s"
    unfolding in_use_chain [OF c'] in_use_chain [OF fl']
    using range eq c by (auto simp: s'_def)
  show "alloc_inv lo ok s'"
    using ok range eq c' by (auto simp: alloc_inv_def s'_def)
  show "p \<noteq> EB_NULL" using c by simp
qed

lemma alloc_inv_push:
  assumes inv: "alloc_inv lo ok s" and p: "p \<in> in_use lo s"
  shows "alloc_inv lo ok (eb_free_memory_item p s)"
    and "in_use lo (eb_free_memory_item p s) = in_use lo s - {p}"
proof -
  obtain fl where ok: "ok (eb_memory_array_size s)"
    and fl: "chain (heap_free_next s) EB_NULL (eb_memory_free s) fl"
    and range: "\<forall>p \<in> set fl. lo \<le> unat p \<and> unat p < unat (eb_memory_array_size s)"
    using inv by (auto simp: alloc_inv_def)
  let ?s = "eb_free_memory_item p s"
  have u: "p \<noteq> EB_NULL" "p \<notin> set fl" "lo \<le> unat p" "unat p < unat (eb_memory_array_size s)"
    using p by (auto simp: in_use_chain [OF fl])
  have c: "chain (heap_free_next ?s) EB_NULL (eb_memory_free ?s) (p # fl)"
    using fl u by (simp add: eb_free_memory_item_def)
  show "alloc_inv lo ok ?s"
    unfolding alloc_inv_def using ok range c u
    by (intro conjI exI [of _ "p # fl"]) (auto simp: eb_free_memory_item_def)
  show "in_use lo ?s = in_use lo s - {p}"
    unfolding in_use_chain [OF c] in_use_chain [OF fl]
    by (auto simp: eb_free_memory_item_def)
qed

text \<open>Every back end makes an allocator.\<close>

sublocale array_backend \<subseteq> alloc: handle_allocator "eb_new_memory_item expand"
  eb_free_memory_item "alloc_inv lo ok" "in_use lo"
proof unfold_locales
  fix s :: "'w eb_state"
  assume inv: "alloc_inv lo ok s"
  let ?new = "eb_new_memory_item expand s"
  have "alloc_inv lo ok (snd ?new)
    \<and> in_use lo (snd ?new) = (if fst ?new = EB_NULL then in_use lo s else insert (fst ?new) (in_use lo s))
    \<and> fst ?new \<notin> in_use lo s"
  proof (cases rule: new_item_cases [OF inv])
    case 1
    then show ?thesis by (simp add: in_use_def)
  next
    case (2 p fl s1)
    from alloc_inv_pop [OF 2(1,3,4) refl] show ?thesis by (simp add: 2(2,5))
  qed
  then show "alloc_inv lo ok (snd ?new)"
    "in_use lo (snd ?new) = (if fst ?new = EB_NULL then in_use lo s else insert (fst ?new) (in_use lo s))"
    "fst ?new \<notin> in_use lo s"
    by blast+
next
  show "EB_NULL \<notin> in_use lo s" for s :: "'w eb_state" by (simp add: in_use_def)
next
  show "alloc_inv lo ok s \<Longrightarrow> p \<in> in_use lo s \<Longrightarrow> alloc_inv lo ok (eb_free_memory_item p s)"
    for s :: "'w eb_state" and p
    by (rule alloc_inv_push)
  show "alloc_inv lo ok s \<Longrightarrow> p \<in> in_use lo s \<Longrightarrow>
      in_use lo (eb_free_memory_item p s) = in_use lo s - {p}" for s :: "'w eb_state" and p
    by (rule alloc_inv_push)
qed

section \<open>dynamic.c and static.c meet the contract\<close>

text \<open>The array sizes \<^verbatim>\<open>dynamic.c\<close> goes through. The first 128 items are never linked.\<close>

definition dynamic_size :: "uint32 \<Rightarrow> bool" where
  "dynamic_size sz \<longleftrightarrow>
     unat sz \<in> {128, 256, 512, 1024, 2048, 4096, 8192, 16384, 32768, 65536}"

lemma dynamic_size_le: "dynamic_size sz \<Longrightarrow> 128 \<le> unat sz \<and> unat sz \<le> 65536"
  unfolding dynamic_size_def insert_iff empty_iff by presburger

lemma dynamic_size_double:
  assumes "dynamic_size sz" and "sz \<noteq> 65536"
  shows "unat (sz + sz) = 2 * unat sz" and "dynamic_size (sz + sz)" and "unat sz \<le> 32768"
proof -
  have ne: "unat sz \<noteq> 65536"
    using assms(2) by (simp add: word_unat_eq_iff)
  show le: "unat sz \<le> 32768"
    using assms(1) ne unfolding dynamic_size_def insert_iff empty_iff by presburger
  have "unat (sz + sz) = (unat sz + unat sz) mod 2 ^ LENGTH(32)"
    by (rule unat_word_ariths)
  with le show eq: "unat (sz + sz) = 2 * unat sz" by simp
  show "dynamic_size (sz + sz)"
    using assms(1) ne unfolding dynamic_size_def eq insert_iff empty_iff by presburger
qed

text \<open>The list that an expansion leaves: the new block, and for the last block without the handle
  \<^verbatim>\<open>0xFFFF\<close>, since the item before it already links to \<^verbatim>\<open>EB_NULL\<close>.\<close>

lemma expanded_chain:
  fixes m :: "eb_ptr \<Rightarrow> eb_ptr"
  assumes n: "0 < n" "i + n \<le> 65536"
    and m': "m' = (link_free_items n i m)(word_of_nat (i + n - 1) := EB_NULL)"
    and l: "l = (if i + n = 65536 then n - 1 else n)" and "0 < l"
  shows "chain m' EB_NULL (word_of_nat i) (handles i l)"
    and "set (handles i l) = {p. i \<le> unat p \<and> unat p < i + n \<and> p \<noteq> EB_NULL}"
proof -
  have "chain m' EB_NULL (if l = 0 then EB_NULL else word_of_nat i) (handles i l)"
  proof (rule chain_block)
    show "i + l < 2 ^ 16" using n l by (auto split: if_splits)
    fix k
    assume k: "i \<le> k" "k < i + l"
    then have k': "k < i + n" "k < 65535" using n l by (auto split: if_splits)
    have "word_of_nat k = (word_of_nat (i + n - 1) :: eb_ptr) \<longleftrightarrow> k = i + n - 1"
      using k' n by (intro word_of_nat_eq_small) auto
    then show "m' (word_of_nat k) = (if Suc k = i + l then EB_NULL else word_of_nat (Suc k))"
      using link_free_items_in [of i k n m] k k' n l
      by (auto simp: m' split: if_splits)
  qed
  with \<open>0 < l\<close> show "chain m' EB_NULL (word_of_nat i) (handles i l)" by simp
  have "i + l \<le> 2 ^ 16" using n l by (auto split: if_splits)
  then have "set (handles i l) = {p. i \<le> unat p \<and> unat p < i + l}" by (rule set_handles)
  moreover have "p \<noteq> EB_NULL \<longleftrightarrow> unat p \<noteq> 65535" for p :: eb_ptr
    by (simp add: word_unat_eq_iff)
  ultimately show "set (handles i l) = {p. i \<le> unat p \<and> unat p < i + n \<and> p \<noteq> EB_NULL}"
    using n l by (auto split: if_splits)
qed

lemma expand_array_block:
  assumes ok: "dynamic_size (eb_memory_array_size s)" and "0 \<le> fst (eb_expand_array E s)"
  obtains m' l w where "0 < l"
    "chain m' EB_NULL (ucast (eb_memory_array_size s)) (handles (unat (eb_memory_array_size s)) l)"
    "set (handles (unat (eb_memory_array_size s)) l)
       = {p. unat (eb_memory_array_size s) \<le> unat p \<and> unat p < 2 * unat (eb_memory_array_size s) \<and> p \<noteq> EB_NULL}"
    "snd (eb_expand_array E s) = s\<lparr>os := w, heap_free_next := m',
       eb_memory_free := ucast (eb_memory_array_size s),
       eb_memory_array_size := eb_memory_array_size s + eb_memory_array_size s\<rparr>"
    "eb_memory_array_size s \<noteq> 65536"
proof -
  define sz where "sz = eb_memory_array_size s"
  define l where "l = (if unat sz + unat sz = 65536 then unat sz - 1 else unat sz)"
  define m' where "m' = (link_free_items (unat sz) (unat sz) (heap_free_next s))
      (word_of_nat (unat sz + unat sz - 1) := EB_NULL)"
  obtain w where ne: "sz \<noteq> 65536" and w: "env_realloc E (sz + sz) (os s) = (True, w)"
    using assms(2) by (auto simp: eb_expand_array_def Let_def sz_def split: if_splits prod.splits)
  note dbl = dynamic_size_double [OF ok [folded sz_def] ne]
  have sz: "0 < unat sz" "unat sz + unat sz \<le> 65536" "0 < l"
    using dynamic_size_le [OF ok] dbl(3) by (auto simp: l_def sz_def)
  have "ucast (sz + sz - 1) = (word_of_nat (unat sz + unat sz - 1) :: eb_ptr)"
  proof -
    have "unat (sz + sz - 1) = unat sz + unat sz - 1"
      using dbl(1) sz by (simp add: unat_sub_if' word_le_nat_alt)
    then show ?thesis by (metis of_nat_unat)
  qed
  then have *: "snd (eb_expand_array E s) = s\<lparr>os := w, heap_free_next := m',
       eb_memory_free := ucast sz, eb_memory_array_size := sz + sz\<rparr>"
    using w ne dbl(1) by (simp add: eb_expand_array_def Let_def sz_def [symmetric] m'_def)
  have u: "word_of_nat (unat sz) = (ucast sz :: eb_ptr)" by simp
  note c = expanded_chain [OF sz(1,2) m'_def l_def sz(3), unfolded u mult_2 [symmetric]]
  from that [OF sz(3) c [unfolded sz_def] * [unfolded sz_def] ne [unfolded sz_def]]
  show thesis .
qed

interpretation dyn: array_backend "eb_expand_array E" 128 dynamic_size for E
proof unfold_locales
  fix s :: "'a eb_state"
  assume ok: "dynamic_size (eb_memory_array_size s)" and free: "eb_memory_free s = EB_NULL"
  show "fst (eb_expand_array E s) < 0 \<Longrightarrow>
      heap_free_next (snd (eb_expand_array E s)) = heap_free_next s
      \<and> eb_memory_free (snd (eb_expand_array E s)) = EB_NULL
      \<and> eb_memory_array_size (snd (eb_expand_array E s)) = eb_memory_array_size s"
    using free by (auto simp: eb_expand_array_def Let_def split: if_splits prod.splits)
  assume "0 \<le> fst (eb_expand_array E s)"
  with ok obtain m' l w where l: "0 < l"
    "chain m' EB_NULL (ucast (eb_memory_array_size s)) (handles (unat (eb_memory_array_size s)) l)"
    "set (handles (unat (eb_memory_array_size s)) l)
       = {p. unat (eb_memory_array_size s) \<le> unat p \<and> unat p < 2 * unat (eb_memory_array_size s) \<and> p \<noteq> EB_NULL}"
    "snd (eb_expand_array E s) = s\<lparr>os := w, heap_free_next := m',
       eb_memory_free := ucast (eb_memory_array_size s),
       eb_memory_array_size := eb_memory_array_size s + eb_memory_array_size s\<rparr>"
    and ne: "eb_memory_array_size s \<noteq> 65536"
    by (rule expand_array_block)
  note dbl = dynamic_size_double [OF ok ne, folded mult_2]
  have "\<exists>fl. fl \<noteq> []
        \<and> chain (heap_free_next (snd (eb_expand_array E s))) EB_NULL
            (eb_memory_free (snd (eb_expand_array E s))) fl
        \<and> set fl = {p. unat (eb_memory_array_size s) \<le> unat p
            \<and> unat p < unat (eb_memory_array_size (snd (eb_expand_array E s))) \<and> p \<noteq> EB_NULL}"
  proof (intro exI conjI)
    show "handles (unat (eb_memory_array_size s)) l \<noteq> []" using l(1) by simp
    show "chain (heap_free_next (snd (eb_expand_array E s))) EB_NULL
        (eb_memory_free (snd (eb_expand_array E s))) (handles (unat (eb_memory_array_size s)) l)"
      using l(2) by (simp add: l(4))
    show "set (handles (unat (eb_memory_array_size s)) l) = {p. unat (eb_memory_array_size s) \<le> unat p
        \<and> unat p < unat (eb_memory_array_size (snd (eb_expand_array E s))) \<and> p \<noteq> EB_NULL}"
      by (simp add: l(3,4) dbl(1))
  qed
  with dbl(2) show "dynamic_size (eb_memory_array_size (snd (eb_expand_array E s)))
      \<and> unat (eb_memory_array_size s) \<le> unat (eb_memory_array_size (snd (eb_expand_array E s)))
      \<and> (\<exists>fl. fl \<noteq> []
        \<and> chain (heap_free_next (snd (eb_expand_array E s))) EB_NULL
            (eb_memory_free (snd (eb_expand_array E s))) fl
        \<and> set fl = {p. unat (eb_memory_array_size s) \<le> unat p
            \<and> unat p < unat (eb_memory_array_size (snd (eb_expand_array E s))) \<and> p \<noteq> EB_NULL})"
    by (simp add: l(4) dbl(1))
next
  show "dynamic_size sz \<Longrightarrow> 128 \<le> unat sz" for sz
    by (simp add: dynamic_size_le)
qed

text \<open>The static array: before the first allocation nothing is linked.\<close>

definition static_size :: "uint16 \<Rightarrow> uint32 \<Rightarrow> bool" where
  "static_size N sz \<longleftrightarrow> sz = 0 \<or> sz = ucast N"

lemma static_backend:
  assumes N: "0 < EB_USE_STATIC"
  shows "array_backend (eb_expand_array_static EB_USE_STATIC) 0 (static_size EB_USE_STATIC)"
proof unfold_locales
  fix s :: "'a eb_state"
  let ?e = "eb_expand_array_static EB_USE_STATIC s"
  assume ok: "static_size EB_USE_STATIC (eb_memory_array_size s)" and free: "eb_memory_free s = EB_NULL"
  show "fst ?e < 0 \<Longrightarrow>
      heap_free_next (snd ?e) = heap_free_next s \<and> eb_memory_free (snd ?e) = EB_NULL
      \<and> eb_memory_array_size (snd ?e) = eb_memory_array_size s"
    using free by (auto simp: eb_expand_array_static_def Let_def split: if_splits)
  assume "0 \<le> fst ?e"
  then have sz: "eb_memory_array_size s = 0"
    by (auto simp: eb_expand_array_static_def split: if_splits)
  define n where "n = unat EB_USE_STATIC"
  define m' where "m' = (link_free_items n 0 (heap_free_next s))(word_of_nat (0 + n - 1) := EB_NULL)"
  have n: "0 < n" "n < 65536" "EB_USE_STATIC = word_of_nat n" "unat (ucast EB_USE_STATIC :: uint32) = n"
    using N unat_less_exp [of EB_USE_STATIC]
    by (auto simp: n_def unat_gt_0 word_neq_0_conv unsigned_ucast_eq take_bit_nat_eq_self)
  have e: "?e = (0, s\<lparr>heap_free_next := m', eb_memory_free := 0, eb_memory_array_size := ucast EB_USE_STATIC\<rparr>)"
    using sz n(1) by (simp add: eb_expand_array_static_def Let_def m'_def n_def of_nat_diff)
  note c = expanded_chain [OF n(1) _ m'_def refl]
  have "\<exists>fl. fl \<noteq> [] \<and> chain (heap_free_next (snd ?e)) EB_NULL (eb_memory_free (snd ?e)) fl
        \<and> set fl = {p. unat (eb_memory_array_size s) \<le> unat p
            \<and> unat p < unat (eb_memory_array_size (snd ?e)) \<and> p \<noteq> EB_NULL}"
    using c n e sz by (intro exI [of _ "handles 0 n"]) auto
  then show "static_size EB_USE_STATIC (eb_memory_array_size (snd ?e))
      \<and> unat (eb_memory_array_size s) \<le> unat (eb_memory_array_size (snd ?e))
      \<and> (\<exists>fl. fl \<noteq> [] \<and> chain (heap_free_next (snd ?e)) EB_NULL (eb_memory_free (snd ?e)) fl
        \<and> set fl = {p. unat (eb_memory_array_size s) \<le> unat p
            \<and> unat p < unat (eb_memory_array_size (snd ?e)) \<and> p \<noteq> EB_NULL})"
    by (simp add: e sz static_size_def)
qed simp

text \<open>The size the Makefile proposes for the static build.\<close>

interpretation stat: array_backend "eb_expand_array_static 200" 0 "static_size 200"
  by (rule static_backend) simp

section \<open>Frame\<close>

text \<open>Allocation and release change the free list and its size, and the state of the operating
  system; no object, no user memory, no callback.\<close>

lemma eb_expand_array_frame [simp]:
  "heap_operation (snd (eb_expand_array E s)) = heap_operation s"
  "heap_cycle (snd (eb_expand_array E s)) = heap_cycle s"
  "heap_device (snd (eb_expand_array E s)) = heap_device s"
  "heap_socket (snd (eb_expand_array E s)) = heap_socket s"
  "heap_socket_aux (snd (eb_expand_array E s)) = heap_socket_aux s"
  "heap_handler_callback (snd (eb_expand_array E s)) = heap_handler_callback s"
  "heap_handler_address (snd (eb_expand_array E s)) = heap_handler_address s"
  "heap_response (snd (eb_expand_array E s)) = heap_response s"
  "heap_transport (snd (eb_expand_array E s)) = heap_transport s"
  "heap_link (snd (eb_expand_array E s)) = heap_link s"
  "heap_sdb_scan (snd (eb_expand_array E s)) = heap_sdb_scan s"
  "heap_sdb_record (snd (eb_expand_array E s)) = heap_sdb_record s"
  "user_data_mem (snd (eb_expand_array E s)) = user_data_mem s"
  "user_status_mem (snd (eb_expand_array E s)) = user_status_mem s"
  "user_sdb_mem (snd (eb_expand_array E s)) = user_sdb_mem s"
  "find_address_mem (snd (eb_expand_array E s)) = find_address_mem s"
  "find_identity_mem (snd (eb_expand_array E s)) = find_identity_mem s"
  "user_record_mem (snd (eb_expand_array E s)) = user_record_mem s"
  "calls (snd (eb_expand_array E s)) = calls s"
  by (simp_all add: eb_expand_array_def Let_def case_prod_beta)

lemma eb_new_memory_item_frame [simp]:
  "heap_operation (snd (eb_new_memory_item (eb_expand_array E) s)) = heap_operation s"
  "heap_cycle (snd (eb_new_memory_item (eb_expand_array E) s)) = heap_cycle s"
  "heap_device (snd (eb_new_memory_item (eb_expand_array E) s)) = heap_device s"
  "heap_socket (snd (eb_new_memory_item (eb_expand_array E) s)) = heap_socket s"
  "heap_socket_aux (snd (eb_new_memory_item (eb_expand_array E) s)) = heap_socket_aux s"
  "heap_handler_callback (snd (eb_new_memory_item (eb_expand_array E) s)) = heap_handler_callback s"
  "heap_handler_address (snd (eb_new_memory_item (eb_expand_array E) s)) = heap_handler_address s"
  "heap_response (snd (eb_new_memory_item (eb_expand_array E) s)) = heap_response s"
  "heap_transport (snd (eb_new_memory_item (eb_expand_array E) s)) = heap_transport s"
  "heap_link (snd (eb_new_memory_item (eb_expand_array E) s)) = heap_link s"
  "heap_sdb_scan (snd (eb_new_memory_item (eb_expand_array E) s)) = heap_sdb_scan s"
  "heap_sdb_record (snd (eb_new_memory_item (eb_expand_array E) s)) = heap_sdb_record s"
  "user_data_mem (snd (eb_new_memory_item (eb_expand_array E) s)) = user_data_mem s"
  "user_status_mem (snd (eb_new_memory_item (eb_expand_array E) s)) = user_status_mem s"
  "user_sdb_mem (snd (eb_new_memory_item (eb_expand_array E) s)) = user_sdb_mem s"
  "find_address_mem (snd (eb_new_memory_item (eb_expand_array E) s)) = find_address_mem s"
  "find_identity_mem (snd (eb_new_memory_item (eb_expand_array E) s)) = find_identity_mem s"
  "user_record_mem (snd (eb_new_memory_item (eb_expand_array E) s)) = user_record_mem s"
  "calls (snd (eb_new_memory_item (eb_expand_array E) s)) = calls s"
  by (simp_all add: eb_new_memory_item_def Let_def case_prod_beta)

lemma eb_free_memory_item_frame [simp]:
  "heap_operation (eb_free_memory_item p s) = heap_operation s"
  "heap_cycle (eb_free_memory_item p s) = heap_cycle s"
  "heap_device (eb_free_memory_item p s) = heap_device s"
  "heap_socket (eb_free_memory_item p s) = heap_socket s"
  "heap_socket_aux (eb_free_memory_item p s) = heap_socket_aux s"
  "heap_handler_callback (eb_free_memory_item p s) = heap_handler_callback s"
  "heap_handler_address (eb_free_memory_item p s) = heap_handler_address s"
  "heap_response (eb_free_memory_item p s) = heap_response s"
  "heap_transport (eb_free_memory_item p s) = heap_transport s"
  "heap_link (eb_free_memory_item p s) = heap_link s"
  "heap_sdb_scan (eb_free_memory_item p s) = heap_sdb_scan s"
  "heap_sdb_record (eb_free_memory_item p s) = heap_sdb_record s"
  "user_data_mem (eb_free_memory_item p s) = user_data_mem s"
  "user_status_mem (eb_free_memory_item p s) = user_status_mem s"
  "user_sdb_mem (eb_free_memory_item p s) = user_sdb_mem s"
  "find_address_mem (eb_free_memory_item p s) = find_address_mem s"
  "find_identity_mem (eb_free_memory_item p s) = find_identity_mem s"
  "user_record_mem (eb_free_memory_item p s) = user_record_mem s"
  "calls (eb_free_memory_item p s) = calls s"
  "os (eb_free_memory_item p s) = os s"
  "eb_memory_array_size (eb_free_memory_item p s) = eb_memory_array_size s"
  by (simp_all add: eb_free_memory_item_def)

text \<open>The allocator does not look at the objects.\<close>

lemma alloc_inv_upd [simp]:
  "alloc_inv lo ok (upd_operation p f1 s) \<longleftrightarrow> alloc_inv lo ok s"
  "alloc_inv lo ok (upd_cycle p f2 s) \<longleftrightarrow> alloc_inv lo ok s"
  "alloc_inv lo ok (upd_device p f3 s) \<longleftrightarrow> alloc_inv lo ok s"
  "alloc_inv lo ok (upd_socket p f4 s) \<longleftrightarrow> alloc_inv lo ok s"
  "alloc_inv lo ok (upd_socket_aux p f5 s) \<longleftrightarrow> alloc_inv lo ok s"
  "alloc_inv lo ok (upd_handler_address p f6 s) \<longleftrightarrow> alloc_inv lo ok s"
  "alloc_inv lo ok (upd_handler_callback p f7 s) \<longleftrightarrow> alloc_inv lo ok s"
  "alloc_inv lo ok (upd_response p f8 s) \<longleftrightarrow> alloc_inv lo ok s"
  "alloc_inv lo ok (upd_transport p f9 s) \<longleftrightarrow> alloc_inv lo ok s"
  "alloc_inv lo ok (upd_link p f10 s) \<longleftrightarrow> alloc_inv lo ok s"
  "alloc_inv lo ok (upd_sdb_scan p f11 s) \<longleftrightarrow> alloc_inv lo ok s"
  "alloc_inv lo ok (upd_sdb_record p f12 s) \<longleftrightarrow> alloc_inv lo ok s"
  "alloc_inv lo ok (s\<lparr>heap_operation := v_heap_operation\<rparr>) \<longleftrightarrow> alloc_inv lo ok s"
  "alloc_inv lo ok (s\<lparr>heap_cycle := v_heap_cycle\<rparr>) \<longleftrightarrow> alloc_inv lo ok s"
  "alloc_inv lo ok (s\<lparr>heap_device := v_heap_device\<rparr>) \<longleftrightarrow> alloc_inv lo ok s"
  "alloc_inv lo ok (s\<lparr>heap_socket := v_heap_socket\<rparr>) \<longleftrightarrow> alloc_inv lo ok s"
  "alloc_inv lo ok (s\<lparr>heap_socket_aux := v_heap_socket_aux\<rparr>) \<longleftrightarrow> alloc_inv lo ok s"
  "alloc_inv lo ok (s\<lparr>heap_handler_callback := v_heap_handler_callback\<rparr>) \<longleftrightarrow> alloc_inv lo ok s"
  "alloc_inv lo ok (s\<lparr>heap_handler_address := v_heap_handler_address\<rparr>) \<longleftrightarrow> alloc_inv lo ok s"
  "alloc_inv lo ok (s\<lparr>heap_response := v_heap_response\<rparr>) \<longleftrightarrow> alloc_inv lo ok s"
  "alloc_inv lo ok (s\<lparr>heap_transport := v_heap_transport\<rparr>) \<longleftrightarrow> alloc_inv lo ok s"
  "alloc_inv lo ok (s\<lparr>heap_link := v_heap_link\<rparr>) \<longleftrightarrow> alloc_inv lo ok s"
  "alloc_inv lo ok (s\<lparr>heap_sdb_scan := v_heap_sdb_scan\<rparr>) \<longleftrightarrow> alloc_inv lo ok s"
  "alloc_inv lo ok (s\<lparr>heap_sdb_record := v_heap_sdb_record\<rparr>) \<longleftrightarrow> alloc_inv lo ok s"
  "alloc_inv lo ok (s\<lparr>user_data_mem := v_user_data_mem\<rparr>) \<longleftrightarrow> alloc_inv lo ok s"
  "alloc_inv lo ok (s\<lparr>user_status_mem := v_user_status_mem\<rparr>) \<longleftrightarrow> alloc_inv lo ok s"
  "alloc_inv lo ok (s\<lparr>user_sdb_mem := v_user_sdb_mem\<rparr>) \<longleftrightarrow> alloc_inv lo ok s"
  "alloc_inv lo ok (s\<lparr>find_address_mem := v_find_address_mem\<rparr>) \<longleftrightarrow> alloc_inv lo ok s"
  "alloc_inv lo ok (s\<lparr>find_identity_mem := v_find_identity_mem\<rparr>) \<longleftrightarrow> alloc_inv lo ok s"
  "alloc_inv lo ok (s\<lparr>user_record_mem := v_user_record_mem\<rparr>) \<longleftrightarrow> alloc_inv lo ok s"
  "alloc_inv lo ok (s\<lparr>calls := v_calls\<rparr>) \<longleftrightarrow> alloc_inv lo ok s"
  "alloc_inv lo ok (s\<lparr>os := v_os\<rparr>) \<longleftrightarrow> alloc_inv lo ok s"
  by (simp_all add: alloc_inv_def upd_defs)

lemma in_use_upd [simp]:
  "in_use lo (upd_operation p f1 s) = in_use lo s"
  "in_use lo (upd_cycle p f2 s) = in_use lo s"
  "in_use lo (upd_device p f3 s) = in_use lo s"
  "in_use lo (upd_socket p f4 s) = in_use lo s"
  "in_use lo (upd_socket_aux p f5 s) = in_use lo s"
  "in_use lo (upd_handler_address p f6 s) = in_use lo s"
  "in_use lo (upd_handler_callback p f7 s) = in_use lo s"
  "in_use lo (upd_response p f8 s) = in_use lo s"
  "in_use lo (upd_transport p f9 s) = in_use lo s"
  "in_use lo (upd_link p f10 s) = in_use lo s"
  "in_use lo (upd_sdb_scan p f11 s) = in_use lo s"
  "in_use lo (upd_sdb_record p f12 s) = in_use lo s"
  "in_use lo (s\<lparr>heap_operation := v_heap_operation\<rparr>) = in_use lo s"
  "in_use lo (s\<lparr>heap_cycle := v_heap_cycle\<rparr>) = in_use lo s"
  "in_use lo (s\<lparr>heap_device := v_heap_device\<rparr>) = in_use lo s"
  "in_use lo (s\<lparr>heap_socket := v_heap_socket\<rparr>) = in_use lo s"
  "in_use lo (s\<lparr>heap_socket_aux := v_heap_socket_aux\<rparr>) = in_use lo s"
  "in_use lo (s\<lparr>heap_handler_callback := v_heap_handler_callback\<rparr>) = in_use lo s"
  "in_use lo (s\<lparr>heap_handler_address := v_heap_handler_address\<rparr>) = in_use lo s"
  "in_use lo (s\<lparr>heap_response := v_heap_response\<rparr>) = in_use lo s"
  "in_use lo (s\<lparr>heap_transport := v_heap_transport\<rparr>) = in_use lo s"
  "in_use lo (s\<lparr>heap_link := v_heap_link\<rparr>) = in_use lo s"
  "in_use lo (s\<lparr>heap_sdb_scan := v_heap_sdb_scan\<rparr>) = in_use lo s"
  "in_use lo (s\<lparr>heap_sdb_record := v_heap_sdb_record\<rparr>) = in_use lo s"
  "in_use lo (s\<lparr>user_data_mem := v_user_data_mem\<rparr>) = in_use lo s"
  "in_use lo (s\<lparr>user_status_mem := v_user_status_mem\<rparr>) = in_use lo s"
  "in_use lo (s\<lparr>user_sdb_mem := v_user_sdb_mem\<rparr>) = in_use lo s"
  "in_use lo (s\<lparr>find_address_mem := v_find_address_mem\<rparr>) = in_use lo s"
  "in_use lo (s\<lparr>find_identity_mem := v_find_identity_mem\<rparr>) = in_use lo s"
  "in_use lo (s\<lparr>user_record_mem := v_user_record_mem\<rparr>) = in_use lo s"
  "in_use lo (s\<lparr>calls := v_calls\<rparr>) = in_use lo s"
  "in_use lo (s\<lparr>os := v_os\<rparr>) = in_use lo s"
  by (simp_all add: in_use_def upd_defs)

lemma free_many_frame [simp]:
  "heap_operation (free_many eb_free_memory_item ps s) = heap_operation s"
  "heap_cycle (free_many eb_free_memory_item ps s) = heap_cycle s"
  "heap_device (free_many eb_free_memory_item ps s) = heap_device s"
  "heap_socket (free_many eb_free_memory_item ps s) = heap_socket s"
  "heap_socket_aux (free_many eb_free_memory_item ps s) = heap_socket_aux s"
  "heap_handler_callback (free_many eb_free_memory_item ps s) = heap_handler_callback s"
  "heap_handler_address (free_many eb_free_memory_item ps s) = heap_handler_address s"
  "heap_response (free_many eb_free_memory_item ps s) = heap_response s"
  "heap_transport (free_many eb_free_memory_item ps s) = heap_transport s"
  "heap_link (free_many eb_free_memory_item ps s) = heap_link s"
  "heap_sdb_scan (free_many eb_free_memory_item ps s) = heap_sdb_scan s"
  "heap_sdb_record (free_many eb_free_memory_item ps s) = heap_sdb_record s"
  "user_data_mem (free_many eb_free_memory_item ps s) = user_data_mem s"
  "user_status_mem (free_many eb_free_memory_item ps s) = user_status_mem s"
  "user_sdb_mem (free_many eb_free_memory_item ps s) = user_sdb_mem s"
  "find_address_mem (free_many eb_free_memory_item ps s) = find_address_mem s"
  "find_identity_mem (free_many eb_free_memory_item ps s) = find_identity_mem s"
  "user_record_mem (free_many eb_free_memory_item ps s) = user_record_mem s"
  "calls (free_many eb_free_memory_item ps s) = calls s"
  by (induction ps arbitrary: s) simp_all

section \<open>Capacity\<close>

lemma card_handles: "i + n \<le> 2 ^ 16 \<Longrightarrow> card (set (handles i n)) = n"
proof -
  assume n: "i + n \<le> 2 ^ 16"
  have "inj_on (word_of_nat :: nat \<Rightarrow> eb_ptr) {i ..< i + n}"
    using n by (auto intro!: inj_onI simp: word_of_nat_eq_small)
  then show ?thesis by (simp add: handles_def card_image)
qed

text \<open>The items that can be given out: those from 128 to 65534.\<close>

lemma in_use_bound: "in_use 128 s \<subseteq> set (handles 128 65407)"
proof
  fix p
  assume "p \<in> in_use 128 s"
  then have "128 \<le> unat p" "unat p \<noteq> 65535" by (auto simp: in_use_def word_unat_eq_iff)
  moreover have "unat p < 65536" using unat_less_exp [of p] by simp
  ultimately show "p \<in> set (handles 128 65407)" by (simp add: set_handles)
qed

lemma alloc_inv_state0: "alloc_inv 128 dynamic_size (eb_state0 w)"
  by (auto simp: alloc_inv_def eb_state0_def dynamic_size_def intro: exI [of _ "[]"])

lemma in_use_state0: "in_use 128 (eb_state0 w) = {}"
  by (auto simp: in_use_def eb_state0_def)

lemma realloc_ok_null_full:
  assumes inv: "alloc_inv 128 dynamic_size s" and r: "\<And>n w. fst (env_realloc E n w)"
    and null: "fst (eb_new_memory_item (eb_expand_array E) s) = EB_NULL"
  shows "in_use 128 s = set (handles 128 65407)"
proof -
  obtain fl where ok: "dynamic_size (eb_memory_array_size s)"
    and fl: "chain (heap_free_next s) EB_NULL (eb_memory_free s) fl"
    using inv by (auto simp: alloc_inv_def)
  have free: "eb_memory_free s = EB_NULL"
    using null by (auto simp: eb_new_memory_item_def Let_def split: if_splits prod.splits)
  have sz: "eb_memory_array_size s = 65536"
  proof (rule ccontr)
    assume ne: "eb_memory_array_size s \<noteq> 65536"
    then have "fst (eb_expand_array E s) = 0"
      using r by (simp add: eb_expand_array_def Let_def case_prod_beta)
    then have z: "0 \<le> fst (eb_expand_array E s)" by simp
    have "eb_memory_free (snd (eb_expand_array E s)) = EB_NULL"
      using null free z by (simp add: eb_new_memory_item_def Let_def case_prod_beta split: if_splits)
    with dyn.expand_ok [OF ok free z] show False by simp
  qed
  have "fl = []" using fl free by simp
  then have "in_use 128 s = {p. 128 \<le> unat p \<and> p \<noteq> EB_NULL}"
    using fl unat_less_exp [where 'a = 16] by (auto simp: in_use_chain sz)
  moreover have "set (handles 128 65407) \<subseteq> {p. 128 \<le> unat p \<and> p \<noteq> EB_NULL}"
    by (auto simp: set_handles)
  ultimately show ?thesis using in_use_bound by blast
qed

lemma new_many_succeeds:
  assumes r: "\<And>n w. fst (env_realloc E n w)"
  shows "alloc_inv 128 dynamic_size s \<Longrightarrow> card (in_use 128 s) + n \<le> 65407 \<Longrightarrow>
    EB_NULL \<notin> set (fst (new_many (eb_new_memory_item (eb_expand_array E)) n s))"
proof (induction n arbitrary: s)
  case 0
  then show ?case by simp
next
  case (Suc n)
  obtain p s1 where p: "eb_new_memory_item (eb_expand_array E) s = (p, s1)"
    by (cases "eb_new_memory_item (eb_expand_array E) s")
  have ne: "p \<noteq> EB_NULL"
    using realloc_ok_null_full [OF Suc.prems(1) r] Suc.prems(2) p card_handles [of 128 65407] by auto
  have "alloc_inv 128 dynamic_size s1" "in_use 128 s1 = insert p (in_use 128 s)" "p \<notin> in_use 128 s"
    using dyn.alloc.new_inv [OF Suc.prems(1), of E] dyn.alloc.new_used [OF Suc.prems(1), of E]
      dyn.alloc.new_fresh [OF Suc.prems(1), of E] p ne by auto
  with Suc.IH [of s1] Suc.prems(2) ne show ?case
    by (auto simp: p split: prod.splits)
qed

lemma length_new_many: "length (fst (new_many new n s)) = n"
  by (induction n arbitrary: s) (auto split: prod.splits, metis fst_conv)

text \<open>A state with all 65407 items free, in ascending order: the free list of concrete runs.\<close>

definition free_state :: "'w \<Rightarrow> 'w eb_state" where
  "free_state w = (eb_state0 w)\<lparr>eb_memory_free := 128, eb_memory_array_size := 65536, heap_free_next := (\<lambda>p. p + 1)\<rparr>"

lemma free_state_chain: "chain (\<lambda>p :: eb_ptr. p + 1) EB_NULL 128 (handles 128 65407)"
  using chain_block [of 128 65407 "\<lambda>p. p + 1"] by simp

lemma alloc_inv_free_state: "alloc_inv 128 dynamic_size (free_state w)"
proof -
  have "\<forall>p \<in> set (handles 128 65407). 128 \<le> unat p \<and> unat p < 65536"
    using set_handles [of 128 65407] by auto
  with free_state_chain show ?thesis
    unfolding alloc_inv_def by (intro conjI exI [of _ "handles 128 65407"]) (simp_all add: free_state_def dynamic_size_def)
qed

lemma in_use_free_state: "in_use 128 (free_state w) = {}"
proof -
  have "chain (heap_free_next (free_state w)) EB_NULL (eb_memory_free (free_state w)) (handles 128 65407)"
    using free_state_chain by (simp add: free_state_def)
  from in_use_chain [OF this, of 128] in_use_bound [of "free_state w"] show ?thesis by blast
qed

section \<open>Properties\<close>

text \<open>C10: The allocator of \<^verbatim>\<open>array.c\<close> over \<^verbatim>\<open>dynamic.c\<close> keeps its free list well-formed, never gives
  out a handle that is in use, and gives out only handles from 128 to 65534 (so never
  \<^verbatim>\<open>EB_NULL\<close>, which reports that memory is exhausted and then leaves the objects in use as they
  are).\<close>

theorem eb_new_memory_item_fresh:
  assumes "alloc_inv 128 dynamic_size s"
    and "eb_new_memory_item (eb_expand_array E) s = (p, s')"
  shows "alloc_inv 128 dynamic_size s'
    \<and> (if p = EB_NULL then in_use 128 s' = in_use 128 s
       else p \<notin> in_use 128 s \<and> 128 \<le> unat p \<and> unat p < 65535 \<and> in_use 128 s' = insert p (in_use 128 s))"
proof -
  have *: "alloc_inv 128 dynamic_size s'" "p \<notin> in_use 128 s"
    "in_use 128 s' = (if p = EB_NULL then in_use 128 s else insert p (in_use 128 s))"
    using dyn.alloc.new_inv [OF assms(1), of E] dyn.alloc.new_used [OF assms(1), of E]
      dyn.alloc.new_fresh [OF assms(1), of E] assms(2) by auto
  moreover have "p \<in> in_use 128 s' \<Longrightarrow> 128 \<le> unat p \<and> unat p < 65535"
    using in_use_bound [of s'] by (auto simp: set_handles)
  ultimately show ?thesis by auto
qed

text \<open>Witness: the first allocation of a program gives the handle 128.\<close>

lemma new_item_state0:
  "fst (eb_new_memory_item (eb_expand_array unit_env) (eb_state0 ())) = 128"
  by (simp add: eb_new_memory_item_def eb_expand_array_def eb_state0_def unit_env_def)

theorem eb_new_memory_item_fresh_witness:
  "alloc_inv 128 dynamic_size (snd (eb_new_memory_item (eb_expand_array unit_env) (eb_state0 ())))
   \<and> in_use 128 (snd (eb_new_memory_item (eb_expand_array unit_env) (eb_state0 ()))) = {128}"
  using eb_new_memory_item_fresh [OF alloc_inv_state0 surjective_pairing, of unit_env "()"]
  by (simp add: new_item_state0 in_use_state0)

text \<open>The capacity of the library. As long as \<^verbatim>\<open>realloc\<close> succeeds, a program can have exactly
  65407 objects at a time: allocating \<open>n\<close> objects in a row yields an \<^verbatim>\<open>EB_NULL\<close> if and only if
  \<open>n\<close> exceeds that number, and the handles given out before are pairwise distinct.\<close>

theorem eb_memory_capacity:
  assumes r: "\<And>n w. fst (env_realloc E n w)"
  shows "(EB_NULL \<in> set (fst (new_many (eb_new_memory_item (eb_expand_array E)) n (eb_state0 w)))
      \<longleftrightarrow> 65407 < n)
    \<and> (n \<le> 65407 \<longrightarrow> distinct (fst (new_many (eb_new_memory_item (eb_expand_array E)) n (eb_state0 w))))"
proof -
  obtain ps s' where ps: "new_many (eb_new_memory_item (eb_expand_array E)) n (eb_state0 w) = (ps, s')"
    by (cases "new_many (eb_new_memory_item (eb_expand_array E)) n (eb_state0 w)")
  have ok: "n \<le> 65407 \<Longrightarrow> EB_NULL \<notin> set ps"
    using new_many_succeeds [OF r alloc_inv_state0, of w n] ps by (simp add: in_use_state0)
  have many: "alloc_inv 128 dynamic_size s' \<and> distinct ps \<and> in_use 128 s' = set ps" if "EB_NULL \<notin> set ps"
    using dyn.alloc.new_many_fresh [OF alloc_inv_state0 ps that] by (auto simp: in_use_state0)
  have "length ps = n" using length_new_many [of _ n "eb_state0 w"] ps by (metis fst_conv)
  moreover have "card (in_use 128 s') \<le> 65407"
    using card_mono [OF finite_set in_use_bound [of s']] by (simp add: card_handles)
  ultimately have "n \<le> 65407" if "EB_NULL \<notin> set ps"
    using many [OF that] distinct_card [of ps] by metis
  with ok have "EB_NULL \<notin> set ps \<longleftrightarrow> n \<le> 65407" by blast
  with many show ?thesis unfolding ps fst_conv not_le [symmetric] by blast
qed

theorem eb_memory_capacity_witness:
  "EB_NULL \<in> set (fst (new_many (eb_new_memory_item (eb_expand_array unit_env)) 65408 (eb_state0 ())))"
  using eb_memory_capacity [of unit_env 65408 "()"] by (simp add: unit_env_def)

text \<open>Allocating any number of objects and freeing them again restores the set of handles in
  use: nothing leaks and nothing is freed twice.\<close>

theorem eb_new_free_many:
  assumes "alloc_inv 128 dynamic_size s"
    and "new_many (eb_new_memory_item (eb_expand_array E)) n s = (ps, s')"
    and "EB_NULL \<notin> set ps"
  shows "alloc_inv 128 dynamic_size (free_many eb_free_memory_item ps s')
    \<and> in_use 128 (free_many eb_free_memory_item ps s') = in_use 128 s"
  using dyn.alloc.new_many_free_many [OF assms] dyn.alloc.new_many_fresh [OF assms]
    dyn.alloc.free_many_used [of s' ps]
  by auto

theorem eb_new_free_many_witness:
  "in_use 128 (free_many eb_free_memory_item [128]
     (snd (new_many (eb_new_memory_item (eb_expand_array unit_env)) 1 (eb_state0 ())))) = {}"
proof -
  have "fst (new_many (eb_new_memory_item (eb_expand_array unit_env)) 1 (eb_state0 ())) = [128]"
    using new_item_state0 by (simp add: case_prod_beta)
  with eb_new_free_many [OF alloc_inv_state0 surjective_pairing, of unit_env 1 "()"]
  show ?thesis by (simp add: in_use_state0)
qed

end
