(* ===== verification/EB_Cycle.thy ===== *)
theory EB_Cycle
  imports EB_Memory
begin

text \<open>
  \<^verbatim>\<open>glue/operation.c\<close> and \<^verbatim>\<open>glue/cycle.c\<close>: operations are collected in a cycle, newest first; closing
  the cycle reverses the list in place and queues the cycle to its device.

  The abstract view of an open cycle is \<open>cycle_rep\<close>: either the list of requests issued so far
  or dead, after memory ran out. The operations are shown to implement pushing a request; closing
  leaves exactly the requests in the order they were issued.
\<close>

unbundle bit_operations_syntax

section \<open>operation.c\<close>

definition eb_operation_next :: "eb_ptr \<Rightarrow> 'w eb_state \<Rightarrow> eb_ptr" where
  "eb_operation_next opp s = op_next (heap_operation s opp)"

definition eb_operation_is_read :: "eb_ptr \<Rightarrow> 'w eb_state \<Rightarrow> bool" where
  "eb_operation_is_read opp s \<longleftrightarrow> op_flags (heap_operation s opp) AND EB_OP_MASK \<noteq> EB_OP_WRITE"

definition eb_operation_is_config :: "eb_ptr \<Rightarrow> 'w eb_state \<Rightarrow> bool" where
  "eb_operation_is_config opp s \<longleftrightarrow> op_flags (heap_operation s opp) AND EB_OP_CFG_SPACE \<noteq> 0"

definition eb_operation_had_error :: "eb_ptr \<Rightarrow> 'w eb_state \<Rightarrow> bool" where
  "eb_operation_had_error opp s \<longleftrightarrow> op_flags (heap_operation s opp) AND EB_OP_ERROR \<noteq> 0"

definition eb_operation_address :: "eb_ptr \<Rightarrow> 'w eb_state \<Rightarrow> eb_address_t" where
  "eb_operation_address opp s = op_address (heap_operation s opp)"

definition eb_operation_data :: "eb_ptr \<Rightarrow> 'w eb_state \<Rightarrow> eb_data_t" where
  "eb_operation_data opp s =
     (let op = heap_operation s opp; kind = op_flags op AND EB_OP_MASK
      in if kind = EB_OP_WRITE then op_value op
         else if kind = EB_OP_READ_PTR then user_data_mem s (op_value op)
         else if kind = EB_OP_READ_VAL then op_value op
         else 0)"

definition eb_operation_format :: "eb_ptr \<Rightarrow> 'w eb_state \<Rightarrow> eb_format_t" where
  "eb_operation_format opp s = op_format (heap_operation s opp)"

partial_function (option) eb_find_bus :: "eb_ptr \<Rightarrow> 'w eb_state \<Rightarrow> eb_ptr option" where
  "eb_find_bus opp s =
     (if opp = EB_NULL then Some opp
      else let op = heap_operation s opp
           in if op_flags op AND EB_OP_CFG_SPACE = 0 then Some opp
              else eb_find_bus (op_next op) s)"

partial_function (option) eb_find_read :: "eb_ptr \<Rightarrow> 'w eb_state \<Rightarrow> eb_ptr option" where
  "eb_find_read opp s =
     (if opp = EB_NULL then Some opp
      else let op = heap_operation s opp
           in if op_flags op AND EB_OP_MASK \<noteq> EB_OP_WRITE then Some opp
              else eb_find_read (op_next op) s)"

section \<open>cycle.c\<close>

definition eb_block_f :: "eb_user_data_t \<Rightarrow> eb_status_t \<Rightarrow> 'w eb_state \<Rightarrow> 'w eb_state" where
  "eb_block_f user status s = s\<lparr>user_status_mem := (user_status_mem s)(user := status)\<rparr>"

definition eb_cycle_device :: "eb_ptr \<Rightarrow> 'w eb_state \<Rightarrow> eb_ptr" where
  "eb_cycle_device cyclep s = cyc_link (heap_cycle s cyclep)"

text \<open>The result is the status, the cycle stored in \<^verbatim>\<open>*result\<close> and the new state; a missing callback
  is \<open>None\<close>.\<close>

definition eb_cycle_open ::
  "'w eb_env \<Rightarrow> eb_ptr \<Rightarrow> eb_user_data_t \<Rightarrow> eb_callback_t option \<Rightarrow> 'w eb_state
    \<Rightarrow> eb_status_t \<times> eb_ptr \<times> 'w eb_state" where
  "eb_cycle_open E devicep user cb s =
     (let (cyclep, s) = eb_new_cycle E s in
      if cyclep = EB_NULL then (EB_OOM, EB_NULL, s)
      else if dev_ready (heap_device s devicep) = devicep
           then (EB_FAIL, EB_NULL, eb_free_cycle cyclep s)
      else let s = upd_cycle cyclep (\<lambda>c. c\<lparr>cyc_user_data := user, cyc_ops := EB_NULL,
                     cyc_link := devicep\<rparr>) s;
               s = upd_cycle cyclep (\<lambda>c. c\<lparr>cyc_callback :=
                     (case cb of Some f \<Rightarrow> f | None \<Rightarrow> Eb_block_f)\<rparr>) s;
               s = upd_device devicep (\<lambda>d. d\<lparr>dev_unready := dev_unready d + 1\<rparr>) s
           in (EB_OK, cyclep, s))"

partial_function (option) free_operations :: "eb_ptr \<Rightarrow> 'w eb_state \<Rightarrow> 'w eb_state option" where
  "free_operations i s =
     (if i = EB_NULL then Some s
      else let i_next = op_next (heap_operation s i)
           in free_operations i_next (eb_free_operation i s))"

definition eb_cycle_destroy :: "eb_ptr \<Rightarrow> 'w eb_state \<Rightarrow> 'w eb_state option" where
  "eb_cycle_destroy cyclep s =
     do { s \<leftarrow> (if cyc_ops (heap_cycle s cyclep) \<noteq> cyclep
               then free_operations (cyc_ops (heap_cycle s cyclep)) s else Some s);
          Some (upd_cycle cyclep (\<lambda>c. c\<lparr>cyc_ops := EB_NULL\<rparr>) s) }"

definition eb_cycle_abort :: "eb_ptr \<Rightarrow> 'w eb_state \<Rightarrow> 'w eb_state option" where
  "eb_cycle_abort cyclep s =
     do { let s = upd_device (cyc_link (heap_cycle s cyclep)) (\<lambda>d. d\<lparr>dev_unready := dev_unready d - 1\<rparr>) s;
          s \<leftarrow> eb_cycle_destroy cyclep s;
          Some (eb_free_cycle cyclep s) }"

text \<open>The reversal loop and the queueing of \<^verbatim>\<open>eb_raw_cycle_close\<close>.\<close>

definition eb_raw_cycle_close :: "eb_ptr \<Rightarrow> 'w eb_state \<Rightarrow> 'w eb_state option" where
  "eb_raw_cycle_close cyclep s =
     do { let devicep = cyc_link (heap_cycle s cyclep);
          s \<leftarrow> (if cyc_ops (heap_cycle s cyclep) \<noteq> cyclep
               then do { (h, prev) \<leftarrow> rev_links op_next (\<lambda>v. op_next_update (\<lambda>_. v)) EB_NULL
                           (heap_operation s) EB_NULL (cyc_ops (heap_cycle s cyclep));
                         Some (upd_cycle cyclep (\<lambda>c. c\<lparr>cyc_ops := prev\<rparr>) (s\<lparr>heap_operation := h\<rparr>)) }
               else Some s);
          let s = upd_cycle cyclep (\<lambda>c. c\<lparr>cyc_link := dev_ready (heap_device s devicep)\<rparr>) s;
          let s = upd_device devicep (\<lambda>d. d\<lparr>dev_ready := cyclep\<rparr>) s;
          Some (upd_device devicep (\<lambda>d. d\<lparr>dev_unready := dev_unready d - 1\<rparr>) s) }"

text \<open>
  \<^verbatim>\<open>eb_cycle_block\<close> spins on \<^verbatim>\<open>eb_socket_run(socketp, -1)\<close> until its local variable \<^verbatim>\<open>status\<close> has been
  set. \<open>run\<close> is that call and \<open>stat\<close> the address of the local variable.
\<close>

partial_function (option) block_loop ::
  "('w eb_state \<Rightarrow> 'w eb_state option) \<Rightarrow> uint64 \<Rightarrow> 'w eb_state \<Rightarrow> 'w eb_state option" where
  "block_loop run stat s =
     (if user_status_mem s stat > 0 then do { s \<leftarrow> run s; block_loop run stat s } else Some s)"

definition eb_cycle_block ::
  "(eb_ptr \<Rightarrow> 'w eb_state \<Rightarrow> 'w eb_state option) \<Rightarrow> uint64 \<Rightarrow> eb_ptr \<Rightarrow> eb_ptr \<Rightarrow> 'w eb_state
    \<Rightarrow> (eb_status_t \<times> 'w eb_state) option" where
  "eb_cycle_block run stat devicep cyclep s =
     (if cyc_callback (heap_cycle s cyclep) = Eb_block_f
      then do { let s = s\<lparr>user_status_mem := (user_status_mem s)(stat := 1)\<rparr>;
                let s = upd_cycle cyclep (\<lambda>c. c\<lparr>cyc_user_data := stat\<rparr>) s;
                let socketp = dev_socket (heap_device s devicep);
                s \<leftarrow> block_loop (run socketp) stat s;
                Some (user_status_mem s stat, s) }
      else Some (EB_OK, s))"

definition eb_cycle_close_silently ::
  "(eb_ptr \<Rightarrow> 'w eb_state \<Rightarrow> 'w eb_state option) \<Rightarrow> uint64 \<Rightarrow> eb_ptr \<Rightarrow> 'w eb_state
    \<Rightarrow> (eb_status_t \<times> 'w eb_state) option" where
  "eb_cycle_close_silently run stat cyclep s =
     do { let devicep = eb_cycle_device cyclep s;
          s \<leftarrow> eb_raw_cycle_close cyclep s;
          eb_cycle_block run stat devicep cyclep s }"

text \<open>The part of \<^verbatim>\<open>eb_cycle_close\<close> before it blocks: the first operation is marked, which makes the
  flush ask for the error status of the cycle.\<close>

definition eb_cycle_close_queue :: "eb_ptr \<Rightarrow> 'w eb_state \<Rightarrow> 'w eb_state option" where
  "eb_cycle_close_queue cyclep s =
     do { s \<leftarrow> eb_raw_cycle_close cyclep s;
          let opp = cyc_ops (heap_cycle s cyclep);
          Some (if opp \<noteq> EB_NULL \<and> opp \<noteq> cyclep
                then upd_operation opp (\<lambda>op. op\<lparr>op_flags := op_flags op OR EB_OP_CHECKED\<rparr>) s
                else s) }"

definition eb_cycle_close ::
  "(eb_ptr \<Rightarrow> 'w eb_state \<Rightarrow> 'w eb_state option) \<Rightarrow> uint64 \<Rightarrow> eb_ptr \<Rightarrow> 'w eb_state
    \<Rightarrow> (eb_status_t \<times> 'w eb_state) option" where
  "eb_cycle_close run stat cyclep s =
     do { let devicep = eb_cycle_device cyclep s;
          s \<leftarrow> eb_cycle_close_queue cyclep s;
          eb_cycle_block run stat devicep cyclep s }"

text \<open>\<^verbatim>\<open>eb_cycle_doop\<close> returns a new operation at the head of the cycle, or \<open>None\<close> for the static
  dummy \<^verbatim>\<open>crap\<close>, which absorbs the fields of the operation and is never read.\<close>

definition eb_cycle_doop :: "'w eb_env \<Rightarrow> eb_ptr \<Rightarrow> 'w eb_state \<Rightarrow> (eb_ptr option \<times> 'w eb_state) option" where
  "eb_cycle_doop E cyclep s =
     (let (opp, s) = eb_new_operation E s in
      if opp = EB_NULL
      then do { s \<leftarrow> eb_cycle_destroy cyclep s;
                Some (None, upd_cycle cyclep (\<lambda>c. c\<lparr>cyc_ops := cyclep\<rparr>) s) }
      else if cyc_ops (heap_cycle s cyclep) = cyclep
      then Some (None, eb_free_operation opp s)
      else let s = upd_operation opp (\<lambda>op. op\<lparr>op_next := cyc_ops (heap_cycle s cyclep)\<rparr>) s;
               s = upd_cycle cyclep (\<lambda>c. c\<lparr>cyc_ops := opp\<rparr>) s
           in Some (Some opp, s))"

text \<open>Storing the fields of an operation through the pointer that \<^verbatim>\<open>eb_cycle_doop\<close> returned.\<close>

definition set_operation ::
  "eb_ptr option \<Rightarrow> eb_address_t \<Rightarrow> eb_data_t \<Rightarrow> eb_format_t \<Rightarrow> eb_operation_flags_t \<Rightarrow> 'w eb_state \<Rightarrow> 'w eb_state" where
  "set_operation opp address val fmt flags s =
     (case opp of None \<Rightarrow> s
      | Some p \<Rightarrow> upd_operation p (\<lambda>op. op\<lparr>op_address := address, op_value := val,
                    op_format := fmt, op_flags := flags\<rparr>) s)"

definition eb_cycle_read ::
  "'w eb_env \<Rightarrow> eb_ptr \<Rightarrow> eb_address_t \<Rightarrow> eb_format_t \<Rightarrow> uint64 \<Rightarrow> 'w eb_state \<Rightarrow> 'w eb_state option" where
  "eb_cycle_read E cyclep address fmt data s =
     do { (op, s) \<leftarrow> eb_cycle_doop E cyclep s;
          Some (set_operation op address data fmt
            (if data \<noteq> 0 then EB_OP_READ_PTR else EB_OP_READ_VAL) s) }"

definition eb_cycle_read_config ::
  "'w eb_env \<Rightarrow> eb_ptr \<Rightarrow> eb_address_t \<Rightarrow> eb_format_t \<Rightarrow> uint64 \<Rightarrow> 'w eb_state \<Rightarrow> 'w eb_state option" where
  "eb_cycle_read_config E cyclep address fmt data s =
     do { (op, s) \<leftarrow> eb_cycle_doop E cyclep s;
          Some (set_operation op address data fmt
            (if data \<noteq> 0 then EB_OP_READ_PTR OR EB_OP_CFG_SPACE else EB_OP_READ_VAL OR EB_OP_CFG_SPACE) s) }"

definition eb_cycle_write ::
  "'w eb_env \<Rightarrow> eb_ptr \<Rightarrow> eb_address_t \<Rightarrow> eb_format_t \<Rightarrow> eb_data_t \<Rightarrow> 'w eb_state \<Rightarrow> 'w eb_state option" where
  "eb_cycle_write E cyclep address fmt data s =
     do { (op, s) \<leftarrow> eb_cycle_doop E cyclep s;
          Some (set_operation op address data fmt EB_OP_WRITE s) }"

definition eb_cycle_write_config ::
  "'w eb_env \<Rightarrow> eb_ptr \<Rightarrow> eb_address_t \<Rightarrow> eb_format_t \<Rightarrow> eb_data_t \<Rightarrow> 'w eb_state \<Rightarrow> 'w eb_state option" where
  "eb_cycle_write_config E cyclep address fmt data s =
     do { (op, s) \<leftarrow> eb_cycle_doop E cyclep s;
          Some (set_operation op address data fmt (EB_OP_WRITE OR EB_OP_CFG_SPACE) s) }"

section \<open>The abstract cycle\<close>

text \<open>A request is one call of the four functions above; \<open>req_fields\<close> is what it stores in the
  operation.\<close>

datatype eb_request =
    Req_read eb_address_t eb_format_t uint64
  | Req_read_config eb_address_t eb_format_t uint64
  | Req_write eb_address_t eb_format_t eb_data_t
  | Req_write_config eb_address_t eb_format_t eb_data_t

type_synonym op_fields = "eb_address_t \<times> eb_data_t \<times> eb_format_t \<times> eb_operation_flags_t"

fun req_fields :: "eb_request \<Rightarrow> op_fields" where
  "req_fields (Req_read a f d) = (a, d, f, if d \<noteq> 0 then 0x01 else 0x02)"
| "req_fields (Req_read_config a f d) = (a, d, f, if d \<noteq> 0 then 0x05 else 0x06)"
| "req_fields (Req_write a f d) = (a, d, f, 0x00)"
| "req_fields (Req_write_config a f d) = (a, d, f, 0x04)"

fun issue :: "'w eb_env \<Rightarrow> eb_ptr \<Rightarrow> eb_request \<Rightarrow> 'w eb_state \<Rightarrow> 'w eb_state option" where
  "issue E c (Req_read a f d) s = eb_cycle_read E c a f d s"
| "issue E c (Req_read_config a f d) s = eb_cycle_read_config E c a f d s"
| "issue E c (Req_write a f d) s = eb_cycle_write E c a f d s"
| "issue E c (Req_write_config a f d) s = eb_cycle_write_config E c a f d s"

fun issue_all :: "'w eb_env \<Rightarrow> eb_ptr \<Rightarrow> eb_request list \<Rightarrow> 'w eb_state \<Rightarrow> 'w eb_state option" where
  "issue_all E c [] s = Some s"
| "issue_all E c (r # rs) s = do { s \<leftarrow> issue E c r s; issue_all E c rs s }"

definition op_fields :: "eb_operation \<Rightarrow> op_fields" where
  "op_fields op = (op_address op, op_value op, op_format op, op_flags op)"

definition op_chain :: "'w eb_state \<Rightarrow> eb_ptr \<Rightarrow> eb_ptr list \<Rightarrow> bool" where
  "op_chain s p ps \<longleftrightarrow> chain (\<lambda>q. op_next (heap_operation s q)) EB_NULL p ps"

lemma op_chain_cong:
  "(\<And>q. q \<in> set ps \<Longrightarrow> op_next (heap_operation s' q) = op_next (heap_operation s q)) \<Longrightarrow>
   op_chain s' i ps \<longleftrightarrow> op_chain s i ps"
  unfolding op_chain_def by (rule chain_cong)

lemma op_chain_Cons [simp]:
  "op_chain s i (p # ps) \<longleftrightarrow> i = p \<and> p \<noteq> EB_NULL \<and> op_chain s (op_next (heap_operation s p)) ps"
  by (simp add: op_chain_def)

definition cycle_live :: "'w eb_state \<Rightarrow> eb_ptr \<Rightarrow> eb_ptr list \<Rightarrow> op_fields list \<Rightarrow> bool" where
  "cycle_live s c ps xs \<longleftrightarrow> alloc_inv 128 dynamic_size s
     \<and> insert c (set ps) \<subseteq> in_use 128 s \<and> c \<notin> set ps
     \<and> op_chain s (cyc_ops (heap_cycle s c)) ps
     \<and> map (\<lambda>p. op_fields (heap_operation s p)) ps = xs"

definition cycle_dead :: "'w eb_state \<Rightarrow> eb_ptr \<Rightarrow> bool" where
  "cycle_dead s c \<longleftrightarrow> alloc_inv 128 dynamic_size s \<and> c \<in> in_use 128 s \<and> cyc_ops (heap_cycle s c) = c"

lemma live_ops_neq: "cycle_live s c ps xs \<Longrightarrow> cyc_ops (heap_cycle s c) \<noteq> c"
  using dyn.alloc.null_not_used by (cases ps) (auto simp: cycle_live_def op_chain_def)

lemma live_not_null: "cycle_live s c ps xs \<Longrightarrow> c \<noteq> EB_NULL"
  using dyn.alloc.null_not_used by (auto simp: cycle_live_def)

lemma issue_eq:
  "issue E c r s = (case req_fields r of (a, v, f, fl) \<Rightarrow>
     do { (op, s) \<leftarrow> eb_cycle_doop E c s; Some (set_operation op a v f fl s) })"
  by (cases r) (simp_all add: eb_cycle_read_def eb_cycle_read_config_def eb_cycle_write_def
      eb_cycle_write_config_def)

lemma free_operations_chain:
  "op_chain s i ps \<Longrightarrow> free_operations i s = Some (free_many eb_free_memory_item ps s)"
proof (induction ps arbitrary: i s)
  case Nil
  then show ?case by (simp add: op_chain_def free_operations.simps)
next
  case (Cons p ps)
  then have "op_chain (eb_free_memory_item p s) (op_next (heap_operation s p)) ps" "i = p" "p \<noteq> EB_NULL"
    by (auto simp: op_chain_def)
  with Cons.IH show ?case
    by (subst free_operations.simps) (simp add: eb_free_operation_def)
qed

lemma eb_cycle_destroy_live:
  assumes "cycle_live s c ps xs"
  shows "eb_cycle_destroy c s =
    Some (upd_cycle c (\<lambda>c. c\<lparr>cyc_ops := EB_NULL\<rparr>) (free_many eb_free_memory_item ps s))"
  using assms live_ops_neq [OF assms]
  by (auto simp: eb_cycle_destroy_def free_operations_chain cycle_live_def)

lemma free_many_live:
  assumes "cycle_live s c ps xs"
  shows "alloc_inv 128 dynamic_size (free_many eb_free_memory_item ps s)"
    and "in_use 128 (free_many eb_free_memory_item ps s) = in_use 128 s - set ps"
proof -
  have "distinct ps" using assms by (auto simp: cycle_live_def op_chain_def dest: chain_distinct)
  with assms dyn.alloc.free_many_used [of s ps]
  show "alloc_inv 128 dynamic_size (free_many eb_free_memory_item ps s)"
    and "in_use 128 (free_many eb_free_memory_item ps s) = in_use 128 s - set ps"
    by (auto simp: cycle_live_def)
qed

text \<open>What a request leaves unchanged: all objects but the cycle it belongs to and the operation it
  fills.\<close>

definition same_rest :: "eb_ptr \<Rightarrow> eb_ptr set \<Rightarrow> 'w eb_state \<Rightarrow> 'w eb_state \<Rightarrow> bool" where
  "same_rest c P s s' \<longleftrightarrow> (\<forall>d. d \<noteq> c \<longrightarrow> heap_cycle s' d = heap_cycle s d)
     \<and> cyc_link (heap_cycle s' c) = cyc_link (heap_cycle s c)
     \<and> cyc_callback (heap_cycle s' c) = cyc_callback (heap_cycle s c)
     \<and> cyc_user_data (heap_cycle s' c) = cyc_user_data (heap_cycle s c)
     \<and> heap_device s' = heap_device s
     \<and> (\<forall>p. p \<notin> P \<longrightarrow> heap_operation s' p = heap_operation s p)"

lemma same_rest_trans:
  "same_rest c P s s' \<Longrightarrow> same_rest c Q s' s'' \<Longrightarrow> P \<subseteq> R \<Longrightarrow> Q \<subseteq> R \<Longrightarrow> same_rest c R s s''"
  by (auto simp: same_rest_def) (metis subset_iff)+

lemma issue_live:
  assumes live: "cycle_live s c ps xs"
  obtains (ok) s' p where "issue E c r s = Some s'" "cycle_live s' c (p # ps) (req_fields r # xs)"
      "in_use 128 s' = insert p (in_use 128 s)" "p \<notin> in_use 128 s" "same_rest c {p} s s'"
    | (dead) s' where "issue E c r s = Some s'" "cycle_dead s' c"
      "in_use 128 s' = in_use 128 s - set ps" "same_rest c {} s s'"
      "fst (eb_new_memory_item (eb_expand_array E) s) = EB_NULL"
proof -
  obtain a v f fl where r: "req_fields r = (a, v, f, fl)" by (cases "req_fields r")
  obtain p s1 where n: "eb_new_memory_item (eb_expand_array E) s = (p, s1)"
    by (cases "eb_new_memory_item (eb_expand_array E) s")
  have inv: "alloc_inv 128 dynamic_size s" using live by (simp add: cycle_live_def)
  note fr = eb_new_memory_item_frame [of E s, unfolded n snd_conv]
  have s1: "alloc_inv 128 dynamic_size s1" "p \<notin> in_use 128 s"
    "in_use 128 s1 = (if p = EB_NULL then in_use 128 s else insert p (in_use 128 s))"
    using dyn.alloc.new_inv [OF inv, of E] dyn.alloc.new_fresh [OF inv, of E]
      dyn.alloc.new_used [OF inv, of E] by (auto simp: n)
  show thesis
  proof (cases "p = EB_NULL")
    case True
    have l1: "cycle_live s1 c ps xs"
      using live s1 True by (simp add: cycle_live_def op_chain_def fr)
    let ?s = "upd_cycle c (\<lambda>r. r\<lparr>cyc_ops := c\<rparr>) (upd_cycle c (\<lambda>r. r\<lparr>cyc_ops := EB_NULL\<rparr>)
        (free_many eb_free_memory_item ps s1))"
    have "issue E c r s = Some ?s"
      using True by (simp add: issue_eq r eb_cycle_doop_def eb_new_operation_def n
          eb_cycle_destroy_live [OF l1] set_operation_def)
    moreover have "cycle_dead ?s c"
      using free_many_live [OF l1] l1 by (simp add: cycle_dead_def cycle_live_def)
    ultimately show thesis
      using free_many_live [OF l1] s1 True n
      by (intro dead [of ?s]) (auto simp: same_rest_def fr)
  next
    case False
    define s2 where "s2 = set_operation (Some p) a v f fl (upd_cycle c (\<lambda>r. r\<lparr>cyc_ops := p\<rparr>)
        (upd_operation p (\<lambda>op. op\<lparr>op_next := cyc_ops (heap_cycle s1 c)\<rparr>) s1))"
    have iss: "issue E c r s = Some s2"
      using False live_ops_neq [OF live]
      by (simp add: issue_eq r eb_cycle_doop_def eb_new_operation_def n fr Let_def s2_def)
    have p: "p \<notin> set ps" "p \<noteq> c"
      using s1(2) live by (auto simp: cycle_live_def)
    have ops: "heap_operation s2 = (heap_operation s)(p := \<lparr>op_address = a, op_value = v,
        op_flags = fl, op_format = f, op_next = cyc_ops (heap_cycle s c)\<rparr>)"
      and cyc: "heap_cycle s2 = (heap_cycle s)(c := (heap_cycle s c)\<lparr>cyc_ops := p\<rparr>)"
      and mem: "in_use 128 s2 = insert p (in_use 128 s)" "alloc_inv 128 dynamic_size s2"
      and rest: "same_rest c {p} s s2"
      using s1 False by (auto simp: set_operation_def fr s2_def same_rest_def)
    have "op_chain s2 (cyc_ops (heap_cycle s c)) ps"
      using live p by (subst op_chain_cong [of ps _ s]) (auto simp: ops cycle_live_def)
    moreover have "map (\<lambda>q. op_fields (heap_operation s2 q)) ps = xs"
      using live p by (auto simp: ops cycle_live_def)
    ultimately have "cycle_live s2 c (p # ps) (req_fields r # xs)"
      using live mem False p by (auto simp: cycle_live_def op_fields_def r cyc ops)
    from ok [OF iss this mem(1) s1(2) rest] show thesis .
  qed
qed

lemma issue_dead:
  assumes dead: "cycle_dead s c"
  obtains s' where "issue E c r s = Some s'" "cycle_dead s' c"
    "in_use 128 s' = in_use 128 s" "same_rest c {} s s'"
proof -
  obtain a v f fl where r: "req_fields r = (a, v, f, fl)" by (cases "req_fields r")
  obtain p s1 where n: "eb_new_memory_item (eb_expand_array E) s = (p, s1)"
    by (cases "eb_new_memory_item (eb_expand_array E) s")
  have inv: "alloc_inv 128 dynamic_size s" using dead by (simp add: cycle_dead_def)
  note fr = eb_new_memory_item_frame [of E s, unfolded n snd_conv]
  have s1: "alloc_inv 128 dynamic_size s1" "p \<notin> in_use 128 s"
    "in_use 128 s1 = (if p = EB_NULL then in_use 128 s else insert p (in_use 128 s))"
    using dyn.alloc.new_inv [OF inv, of E] dyn.alloc.new_fresh [OF inv, of E]
      dyn.alloc.new_used [OF inv, of E] by (auto simp: n)
  show thesis
  proof (cases "p = EB_NULL")
    case True
    let ?s = "upd_cycle c (\<lambda>r. r\<lparr>cyc_ops := c\<rparr>) (upd_cycle c (\<lambda>r. r\<lparr>cyc_ops := EB_NULL\<rparr>) s1)"
    have "issue E c r s = Some ?s"
      using True dead by (simp add: issue_eq r eb_cycle_doop_def eb_new_operation_def n
          eb_cycle_destroy_def set_operation_def fr cycle_dead_def)
    then show thesis
      by (rule that) (use s1 True dead in \<open>auto simp: cycle_dead_def same_rest_def fr\<close>)
  next
    case False
    have "issue E c r s = Some (eb_free_memory_item p s1)"
      using False dead by (simp add: issue_eq r eb_cycle_doop_def eb_new_operation_def
          eb_free_operation_def n set_operation_def fr cycle_dead_def)
    then show thesis
      by (rule that) (use s1 False dead alloc_inv_push [OF s1(1), of p] in
          \<open>auto simp: cycle_dead_def same_rest_def fr\<close>)
  qed
qed

lemma issue_all_dead:
  "cycle_dead s c \<Longrightarrow> \<exists>s'. issue_all E c rs s = Some s' \<and> cycle_dead s' c
     \<and> in_use 128 s' = in_use 128 s \<and> same_rest c {} s s'"
proof (induction rs arbitrary: s)
  case Nil
  then show ?case by (simp add: same_rest_def)
next
  case (Cons r rs)
  obtain s1 where s1: "issue E c r s = Some s1" "cycle_dead s1 c" "in_use 128 s1 = in_use 128 s"
    "same_rest c {} s s1"
    using issue_dead [OF Cons.prems] by blast
  from Cons.IH [OF s1(2)] s1 show ?case by (auto intro: same_rest_trans)
qed

text \<open>Issuing a list of requests: all of them are in the cycle, newest first, or the cycle is dead
  and its operations are freed; the latter only if memory ran out.\<close>

lemma issue_all_live:
  "cycle_live s c ps xs \<Longrightarrow> \<exists>s'. issue_all E c rs s = Some s' \<and> same_rest c (- in_use 128 s) s s'
     \<and> ((\<exists>qs. cycle_live s' c (qs @ ps) (rev (map req_fields rs) @ xs)
            \<and> in_use 128 s' = set qs \<union> in_use 128 s \<and> set qs \<inter> in_use 128 s = {})
        \<or> cycle_dead s' c \<and> in_use 128 s' = in_use 128 s - set ps
          \<and> \<not> ((\<forall>n w. fst (env_realloc E n w)) \<and> card (in_use 128 s) + length rs \<le> 65407))"
proof (induction rs arbitrary: s ps xs)
  case Nil
  then have "cycle_live s c ([] @ ps) (rev (map req_fields []) @ xs)
      \<and> in_use 128 s = set [] \<union> in_use 128 s \<and> set [] \<inter> in_use 128 s = {}" by simp
  moreover have "same_rest c (- in_use 128 s) s s" by (simp add: same_rest_def)
  ultimately show ?case unfolding issue_all.simps by blast
next
  case (Cons r rs)
  have inv: "alloc_inv 128 dynamic_size s" using Cons.prems by (simp add: cycle_live_def)
  have fin: "finite (in_use 128 s)" by simp
  show ?case
  proof (cases rule: issue_live [OF Cons.prems, of E r])
    case (1 s1 p)
    obtain s' where s': "issue_all E c rs s1 = Some s'" "same_rest c (- in_use 128 s1) s1 s'"
      "(\<exists>qs. cycle_live s' c (qs @ p # ps) (rev (map req_fields rs) @ req_fields r # xs)
            \<and> in_use 128 s' = set qs \<union> in_use 128 s1 \<and> set qs \<inter> in_use 128 s1 = {})
        \<or> cycle_dead s' c \<and> in_use 128 s' = in_use 128 s1 - set (p # ps)
          \<and> \<not> ((\<forall>n w. fst (env_realloc E n w)) \<and> card (in_use 128 s1) + length rs \<le> 65407)"
      using Cons.IH [OF 1(2)] by blast
    have rest: "same_rest c (- in_use 128 s) s s'"
      using 1(5) s'(2) by (rule same_rest_trans) (use 1(3,4) in auto)
    from s'(3) show ?thesis
    proof
      assume "\<exists>qs. cycle_live s' c (qs @ p # ps) (rev (map req_fields rs) @ req_fields r # xs)
            \<and> in_use 128 s' = set qs \<union> in_use 128 s1 \<and> set qs \<inter> in_use 128 s1 = {}"
      then obtain qs where "cycle_live s' c (qs @ p # ps) (rev (map req_fields rs) @ req_fields r # xs)"
        "in_use 128 s' = set qs \<union> in_use 128 s1" "set qs \<inter> in_use 128 s1 = {}" by blast
      then have "cycle_live s' c ((qs @ [p]) @ ps) (rev (map req_fields (r # rs)) @ xs)
          \<and> in_use 128 s' = set (qs @ [p]) \<union> in_use 128 s \<and> set (qs @ [p]) \<inter> in_use 128 s = {}"
        using 1(3,4) by auto
      moreover have "issue_all E c (r # rs) s = Some s'" using 1(1) s'(1) by simp
      ultimately show ?thesis using rest by blast
    next
      assume dead: "cycle_dead s' c \<and> in_use 128 s' = in_use 128 s1 - set (p # ps)
          \<and> \<not> ((\<forall>n w. fst (env_realloc E n w)) \<and> card (in_use 128 s1) + length rs \<le> 65407)"
      have "in_use 128 s' = in_use 128 s - set ps" using dead 1(3,4) by auto
      moreover have "card (in_use 128 s1) = Suc (card (in_use 128 s))"
        using 1(3,4) fin by simp
      ultimately show ?thesis using dead rest 1(1) s'(1) by auto
    qed
  next
    case (2 s1)
    obtain s' where s': "issue_all E c rs s1 = Some s'" "cycle_dead s' c"
      "in_use 128 s' = in_use 128 s1" "same_rest c {} s1 s'"
      using issue_all_dead [OF 2(2)] by blast
    have "same_rest c (- in_use 128 s) s s'"
      using 2(4) s'(4) by (rule same_rest_trans) auto
    moreover have "\<not> ((\<forall>n w. fst (env_realloc E n w)) \<and> card (in_use 128 s) + length (r # rs) \<le> 65407)"
    proof
      assume asm: "(\<forall>n w. fst (env_realloc E n w)) \<and> card (in_use 128 s) + length (r # rs) \<le> 65407"
      then have "in_use 128 s = set (handles 128 65407)"
        using realloc_ok_null_full [OF inv _ 2(5)] by blast
      with asm card_handles [of 128 65407] show False by simp
    qed
    ultimately show ?thesis using s' 2(1,3) by auto
  qed
qed

section \<open>Opening and closing\<close>

lemma eb_cycle_open_ok:
  assumes inv: "alloc_inv 128 dynamic_size s" and op: "eb_cycle_open E d user cb s = (EB_OK, c, s1)"
  shows "cycle_live s1 c [] []" and "c \<notin> in_use 128 s" and "in_use 128 s1 = insert c (in_use 128 s)"
    and "heap_device s1 = (heap_device s)(d := (heap_device s d)\<lparr>dev_unready := dev_unready (heap_device s d) + 1\<rparr>)"
    and "heap_cycle s1 = (heap_cycle s)(c := \<lparr>cyc_callback = (case cb of Some f \<Rightarrow> f | None \<Rightarrow> Eb_block_f),
           cyc_user_data = user, cyc_ops = EB_NULL, cyc_link = d\<rparr>)"
    and "heap_operation s1 = heap_operation s" and "dev_ready (heap_device s d) \<noteq> d"
proof -
  obtain p s0 where n: "eb_new_memory_item (eb_expand_array E) s = (p, s0)"
    by (cases "eb_new_memory_item (eb_expand_array E) s")
  note fr = eb_new_memory_item_frame [of E s, unfolded n snd_conv]
  have ok: "p \<noteq> EB_NULL" "p = c" "dev_ready (heap_device s d) \<noteq> d"
    and s1: "s1 = upd_device d (\<lambda>d. d\<lparr>dev_unready := dev_unready d + 1\<rparr>)
      (upd_cycle c (\<lambda>c. c\<lparr>cyc_callback := (case cb of Some f \<Rightarrow> f | None \<Rightarrow> Eb_block_f)\<rparr>)
      (upd_cycle c (\<lambda>c. c\<lparr>cyc_user_data := user, cyc_ops := EB_NULL, cyc_link := d\<rparr>) s0))"
    using op by (auto simp: eb_cycle_open_def eb_new_cycle_def n fr Let_def split: if_splits)
  have s0: "alloc_inv 128 dynamic_size s0" "c \<notin> in_use 128 s" "in_use 128 s0 = insert c (in_use 128 s)"
    using dyn.alloc.new_inv [OF inv, of E] dyn.alloc.new_fresh [OF inv, of E]
      dyn.alloc.new_used [OF inv, of E] ok by (auto simp: n)
  with ok show "c \<notin> in_use 128 s" "in_use 128 s1 = insert c (in_use 128 s)"
    "dev_ready (heap_device s d) \<noteq> d"
    by (simp_all add: s1)
  show "cycle_live s1 c [] []" using s0 by (simp add: cycle_live_def s1 op_chain_def)
  show "heap_device s1 = (heap_device s)(d := (heap_device s d)\<lparr>dev_unready := dev_unready (heap_device s d) + 1\<rparr>)"
    "heap_operation s1 = heap_operation s"
    "heap_cycle s1 = (heap_cycle s)(c := \<lparr>cyc_callback = (case cb of Some f \<Rightarrow> f | None \<Rightarrow> Eb_block_f),
           cyc_user_data = user, cyc_ops = EB_NULL, cyc_link = d\<rparr>)"
    by (simp_all add: s1 fr fun_eq_iff)
qed

lemma eb_raw_cycle_close_live:
  assumes live: "cycle_live s c ps xs" and d: "d = cyc_link (heap_cycle s c)"
  obtains s' where "eb_raw_cycle_close c s = Some s'" "cycle_live s' c (rev ps) (rev xs)"
    "heap_device s' = (heap_device s)(d := (heap_device s d)\<lparr>dev_ready := c,
        dev_unready := dev_unready (heap_device s d) - 1\<rparr>)"
    "cyc_link (heap_cycle s' c) = dev_ready (heap_device s d)" "in_use 128 s' = in_use 128 s"
proof -
  have "chain (\<lambda>q. op_next (heap_operation s q)) EB_NULL (cyc_ops (heap_cycle s c)) ps"
    using live by (simp add: cycle_live_def op_chain_def)
  then obtain h q where hq: "rev_links op_next (\<lambda>v. op_next_update (\<lambda>_. v)) EB_NULL (heap_operation s)
        EB_NULL (cyc_ops (heap_cycle s c)) = Some (h, q)"
    "chain (\<lambda>a. op_next (h a)) EB_NULL q (rev ps)"
    "\<And>a. a \<notin> set ps \<Longrightarrow> h a = heap_operation s a"
    "\<And>a. \<exists>v. h a = op_next_update (\<lambda>_. v) (heap_operation s a)"
    by (rule op_list.rev_links_rev) blast
  define s' where "s' = upd_device d (\<lambda>d. d\<lparr>dev_unready := dev_unready d - 1\<rparr>)
      (upd_device d (\<lambda>d. d\<lparr>dev_ready := c\<rparr>)
      (upd_cycle c (\<lambda>r. r\<lparr>cyc_link := dev_ready (heap_device s d)\<rparr>)
      (upd_cycle c (\<lambda>r. r\<lparr>cyc_ops := q\<rparr>) (s\<lparr>heap_operation := h\<rparr>))))"
  have run: "eb_raw_cycle_close c s = Some s'"
    using live_ops_neq [OF live] hq(1) by (simp add: eb_raw_cycle_close_def Let_def s'_def d)
  have "op_fields (h a) = op_fields (heap_operation s a)" for a
    using hq(4) [of a] by (auto simp: op_fields_def)
  then have "cycle_live s' c (rev ps) (rev xs)"
    using live hq(2) by (auto simp: cycle_live_def s'_def op_chain_def rev_map)
  with run show thesis by (rule that) (simp_all add: s'_def)
qed

fun mark_checked :: "op_fields list \<Rightarrow> op_fields list" where
  "mark_checked [] = []"
| "mark_checked ((a, v, f, fl) # xs) = (a, v, f, fl OR EB_OP_CHECKED) # xs"

lemma eb_cycle_close_queue_live:
  assumes live: "cycle_live s c ps xs" and d: "d = cyc_link (heap_cycle s c)"
  obtains s' where "eb_cycle_close_queue c s = Some s'" "cycle_live s' c (rev ps) (mark_checked (rev xs))"
    "heap_device s' = (heap_device s)(d := (heap_device s d)\<lparr>dev_ready := c,
        dev_unready := dev_unready (heap_device s d) - 1\<rparr>)"
    "cyc_link (heap_cycle s' c) = dev_ready (heap_device s d)" "in_use 128 s' = in_use 128 s"
proof -
  from assms obtain s1 where s1: "eb_raw_cycle_close c s = Some s1" "cycle_live s1 c (rev ps) (rev xs)"
    "heap_device s1 = (heap_device s)(d := (heap_device s d)\<lparr>dev_ready := c,
        dev_unready := dev_unready (heap_device s d) - 1\<rparr>)"
    "cyc_link (heap_cycle s1 c) = dev_ready (heap_device s d)" "in_use 128 s1 = in_use 128 s"
    by (rule eb_raw_cycle_close_live)
  show thesis
  proof (cases "rev ps")
    case Nil
    with s1(2) have "cyc_ops (heap_cycle s1 c) = EB_NULL" "xs = []"
      by (auto simp: cycle_live_def op_chain_def)
    with s1 Nil show thesis by (intro that [of s1]) (simp_all add: eb_cycle_close_queue_def)
  next
    case (Cons q qs)
    define s' where "s' = upd_operation q (\<lambda>op. op\<lparr>op_flags := op_flags op OR EB_OP_CHECKED\<rparr>) s1"
    have q: "cyc_ops (heap_cycle s1 c) = q" "q \<noteq> EB_NULL" "q \<noteq> c" "q \<notin> set qs"
      using s1(2) Cons chain_distinct [of "\<lambda>q. op_next (heap_operation s1 q)" EB_NULL _ "q # qs"]
      by (auto simp: cycle_live_def op_chain_def)
    then have run: "eb_cycle_close_queue c s = Some s'"
      using s1(1) by (simp add: eb_cycle_close_queue_def s'_def)
    have "op_chain s' q (q # qs)"
      using s1(2) Cons q by (subst op_chain_cong [of _ _ s1]) (auto simp: cycle_live_def s'_def)
    moreover have "map (\<lambda>p. op_fields (heap_operation s' p)) qs = map (\<lambda>p. op_fields (heap_operation s1 p)) qs"
      using q by (auto simp: s'_def)
    moreover have "rev xs = op_fields (heap_operation s1 q) # map (\<lambda>p. op_fields (heap_operation s1 p)) qs"
      using s1(2) Cons by (auto simp: cycle_live_def)
    ultimately have "cycle_live s' c (rev ps) (mark_checked (rev xs))"
      using s1(2) Cons q by (auto simp: cycle_live_def s'_def op_fields_def)
    with run show thesis by (rule that) (simp_all add: s'_def s1)
  qed
qed

lemma eb_cycle_close_queue_dead:
  assumes dead: "cycle_dead s c" and d: "d = cyc_link (heap_cycle s c)"
  obtains s' where "eb_cycle_close_queue c s = Some s'" "cycle_dead s' c"
    "heap_device s' = (heap_device s)(d := (heap_device s d)\<lparr>dev_ready := c,
        dev_unready := dev_unready (heap_device s d) - 1\<rparr>)"
    "cyc_link (heap_cycle s' c) = dev_ready (heap_device s d)" "in_use 128 s' = in_use 128 s"
proof -
  define s' where "s' = upd_device d (\<lambda>d. d\<lparr>dev_unready := dev_unready d - 1\<rparr>)
      (upd_device d (\<lambda>d. d\<lparr>dev_ready := c\<rparr>)
      (upd_cycle c (\<lambda>r. r\<lparr>cyc_link := dev_ready (heap_device s d)\<rparr>) s))"
  have "eb_cycle_close_queue c s = Some s'"
    using dead d by (simp add: eb_cycle_close_queue_def eb_raw_cycle_close_def cycle_dead_def Let_def s'_def)
  then show thesis by (rule that) (use dead in \<open>simp_all add: s'_def cycle_dead_def\<close>)
qed

section \<open>Properties\<close>

text \<open>C14: A cycle delivers its operations in the order they were issued. Opening a cycle, issuing any
  list of reads and writes and closing it always returns; the cycle is then the head of the device's
  queue with the former head behind it and the counter of open cycles is as before. The operations of
  the cycle are exactly the requests, in order, the first marked as checked, in newly allocated
  objects; or the cycle is dead and none of its operations is kept, which happens only if memory runs
  out.\<close>

theorem eb_cycle_fifo:
  assumes inv: "alloc_inv 128 dynamic_size s" and op: "eb_cycle_open E d user cb s = (EB_OK, c, s1)"
  shows "\<exists>s2 s3. issue_all E c rs s1 = Some s2 \<and> eb_cycle_close_queue c s2 = Some s3
    \<and> heap_device s3 = (heap_device s)(d := (heap_device s d)\<lparr>dev_ready := c\<rparr>)
    \<and> cyc_link (heap_cycle s3 c) = dev_ready (heap_device s d)
    \<and> ((\<exists>ps. cycle_live s3 c ps (mark_checked (map req_fields rs))
          \<and> in_use 128 s3 = insert c (set ps) \<union> in_use 128 s \<and> insert c (set ps) \<inter> in_use 128 s = {})
       \<or> cycle_dead s3 c \<and> in_use 128 s3 = insert c (in_use 128 s)
         \<and> \<not> ((\<forall>n w. fst (env_realloc E n w)) \<and> card (in_use 128 s) + length rs < 65407))"
proof -
  note o = eb_cycle_open_ok [OF inv op]
  have card1: "card (in_use 128 s1) = Suc (card (in_use 128 s))" using o(2,3) by simp
  obtain s2 where s2: "issue_all E c rs s1 = Some s2" "same_rest c (- in_use 128 s1) s1 s2"
    "(\<exists>qs. cycle_live s2 c (qs @ []) (rev (map req_fields rs) @ [])
            \<and> in_use 128 s2 = set qs \<union> in_use 128 s1 \<and> set qs \<inter> in_use 128 s1 = {})
     \<or> cycle_dead s2 c \<and> in_use 128 s2 = in_use 128 s1 - set []
          \<and> \<not> ((\<forall>n w. fst (env_realloc E n w)) \<and> card (in_use 128 s1) + length rs \<le> 65407)"
    using issue_all_live [OF o(1)] by blast
  have d: "d = cyc_link (heap_cycle s2 c)" and dev: "heap_device s2 = heap_device s1"
    using s2(2) o(5) by (auto simp: same_rest_def)
  have devs: "(heap_device s2)(d := (heap_device s2 d)\<lparr>dev_ready := c,
        dev_unready := dev_unready (heap_device s2 d) - 1\<rparr>) = (heap_device s)(d := (heap_device s d)\<lparr>dev_ready := c\<rparr>)"
    "dev_ready (heap_device s2 d) = dev_ready (heap_device s d)"
    by (auto simp: dev o(4))
  from s2(3) show ?thesis
  proof
    assume "\<exists>qs. cycle_live s2 c (qs @ []) (rev (map req_fields rs) @ [])
            \<and> in_use 128 s2 = set qs \<union> in_use 128 s1 \<and> set qs \<inter> in_use 128 s1 = {}"
    then obtain qs where qs: "cycle_live s2 c qs (rev (map req_fields rs))"
      "in_use 128 s2 = set qs \<union> in_use 128 s1" "set qs \<inter> in_use 128 s1 = {}" by auto
    from qs(1) d obtain s3 where "eb_cycle_close_queue c s2 = Some s3"
      "cycle_live s3 c (rev qs) (mark_checked (rev (rev (map req_fields rs))))"
      "heap_device s3 = (heap_device s2)(d := (heap_device s2 d)\<lparr>dev_ready := c,
        dev_unready := dev_unready (heap_device s2 d) - 1\<rparr>)"
      "cyc_link (heap_cycle s3 c) = dev_ready (heap_device s2 d)" "in_use 128 s3 = in_use 128 s2"
      by (rule eb_cycle_close_queue_live)
    then show ?thesis using s2(1) o(2,3) qs(2,3)
      by (intro exI [of _ s2] exI [of _ s3] conjI disjI1 exI [of _ "rev qs"]) (auto simp: devs)
  next
    assume dd: "cycle_dead s2 c \<and> in_use 128 s2 = in_use 128 s1 - set []
          \<and> \<not> ((\<forall>n w. fst (env_realloc E n w)) \<and> card (in_use 128 s1) + length rs \<le> 65407)"
    from conjunct1 [OF dd] d obtain s3 where "eb_cycle_close_queue c s2 = Some s3" "cycle_dead s3 c"
      "heap_device s3 = (heap_device s2)(d := (heap_device s2 d)\<lparr>dev_ready := c,
        dev_unready := dev_unready (heap_device s2 d) - 1\<rparr>)"
      "cyc_link (heap_cycle s3 c) = dev_ready (heap_device s2 d)" "in_use 128 s3 = in_use 128 s2"
      by (rule eb_cycle_close_queue_dead)
    then show ?thesis using s2(1) o(3) dd card1
      by (intro exI [of _ s2] exI [of _ s3] conjI disjI2) (auto simp: devs)
  qed
qed

text \<open>A cycle opened on device 5 of the initial state.\<close>

lemma open_state0:
  "eb_cycle_open unit_env 5 u cb (eb_state0 ())
     = (EB_OK, 128, snd (snd (eb_cycle_open unit_env 5 u cb (eb_state0 ()))))"
  using new_item_state0 eb_new_memory_item_frame(3) [of unit_env "eb_state0 ()"]
  by (simp add: eb_cycle_open_def eb_new_cycle_def Let_def case_prod_beta)
     (simp add: eb_state0_def)

theorem eb_cycle_fifo_witness:
  "\<exists>s2 s3. issue_all unit_env 128 [Req_write 16 4 7, Req_read 32 4 0]
       (snd (snd (eb_cycle_open unit_env 5 0 None (eb_state0 ())))) = Some s2
     \<and> eb_cycle_close_queue 128 s2 = Some s3
     \<and> (\<exists>ps. cycle_live s3 128 ps [(16, 7, 4, 0x10), (32, 0, 4, 0x02)])"
proof -
  have "\<forall>n w. fst (env_realloc unit_env n w)" by (simp add: unit_env_def)
  with eb_cycle_fifo [OF alloc_inv_state0 open_state0, of "[Req_write 16 4 7, Req_read 32 4 0]" 0 None]
  show ?thesis by (auto simp: in_use_state0 simp del: issue_all.simps)
qed

text \<open>Aborting a cycle gives everything back. After opening a cycle and issuing any list of
  requests, \<^verbatim>\<open>eb_cycle_abort\<close> returns, exactly the objects in use before are in use again, and
  the devices are unchanged.\<close>

theorem eb_cycle_abort_restores:
  assumes inv: "alloc_inv 128 dynamic_size s" and op: "eb_cycle_open E d user cb s = (EB_OK, c, s1)"
  shows "\<exists>s2 s3. issue_all E c rs s1 = Some s2 \<and> eb_cycle_abort c s2 = Some s3
    \<and> alloc_inv 128 dynamic_size s3 \<and> in_use 128 s3 = in_use 128 s \<and> heap_device s3 = heap_device s"
proof -
  note o = eb_cycle_open_ok [OF inv op]
  obtain s2 where s2: "issue_all E c rs s1 = Some s2" "same_rest c (- in_use 128 s1) s1 s2"
    "(\<exists>qs. cycle_live s2 c (qs @ []) (rev (map req_fields rs) @ [])
            \<and> in_use 128 s2 = set qs \<union> in_use 128 s1 \<and> set qs \<inter> in_use 128 s1 = {})
     \<or> cycle_dead s2 c \<and> in_use 128 s2 = in_use 128 s1 - set []"
    using issue_all_live [OF o(1)] by blast
  let ?s = "upd_device (cyc_link (heap_cycle s2 c)) (\<lambda>d. d\<lparr>dev_unready := dev_unready d - 1\<rparr>) s2"
  have dev: "heap_device ?s = heap_device s"
    using s2(2) o(4,5) by (auto simp: same_rest_def)
  have "\<exists>s3. eb_cycle_destroy c ?s = Some s3 \<and> alloc_inv 128 dynamic_size s3
      \<and> in_use 128 s3 = insert c (in_use 128 s) \<and> heap_device s3 = heap_device s"
  proof (rule disjE [OF s2(3)])
    assume "\<exists>qs. cycle_live s2 c (qs @ []) (rev (map req_fields rs) @ [])
            \<and> in_use 128 s2 = set qs \<union> in_use 128 s1 \<and> set qs \<inter> in_use 128 s1 = {}"
    then obtain qs where qs: "cycle_live ?s c qs (rev (map req_fields rs))"
      "in_use 128 s2 = set qs \<union> in_use 128 s1" "set qs \<inter> in_use 128 s1 = {}"
      by (auto simp: cycle_live_def op_chain_def)
    from free_many_live [OF qs(1)] qs(2,3) o(3) dev show ?thesis
      by (auto simp: eb_cycle_destroy_live [OF qs(1)])
  next
    assume "cycle_dead s2 c \<and> in_use 128 s2 = in_use 128 s1 - set []"
    with o(3) dev show ?thesis by (auto simp: eb_cycle_destroy_def cycle_dead_def)
  qed
  then obtain s3 where s3: "eb_cycle_destroy c ?s = Some s3" "alloc_inv 128 dynamic_size s3"
    "in_use 128 s3 = insert c (in_use 128 s)" "heap_device s3 = heap_device s" by blast
  have "eb_cycle_abort c s2 = Some (eb_free_memory_item c s3)"
    using s3(1) by (simp add: eb_cycle_abort_def eb_free_cycle_def)
  with s2(1) s3 o(2) alloc_inv_push [OF s3(2), of c] show ?thesis by auto
qed

theorem eb_cycle_abort_restores_witness:
  "\<exists>s2 s3. issue_all unit_env 128 [Req_write 16 4 7]
       (snd (snd (eb_cycle_open unit_env 5 0 None (eb_state0 ())))) = Some s2
     \<and> eb_cycle_abort 128 s2 = Some s3 \<and> in_use 128 s3 = {}"
  using eb_cycle_abort_restores [OF alloc_inv_state0 open_state0, of "[Req_write 16 4 7]" 0 None]
  by (auto simp: in_use_state0 simp del: issue_all.simps)

text \<open>Opening cycles without closing them; the statuses and the final state.\<close>

fun open_many :: "'w eb_env \<Rightarrow> eb_ptr \<Rightarrow> nat \<Rightarrow> 'w eb_state \<Rightarrow> eb_status_t list \<times> 'w eb_state" where
  "open_many E d 0 s = ([], s)"
| "open_many E d (Suc n) s =
     (let (st, c, s) = eb_cycle_open E d 0 None s; (sts, s) = open_many E d n s in (st # sts, s))"

lemma eb_cycle_open_succeeds:
  assumes inv: "alloc_inv 128 dynamic_size s" and r: "\<And>n w. fst (env_realloc E n w)"
    and room: "card (in_use 128 s) < 65407" and active: "dev_ready (heap_device s d) \<noteq> d"
  obtains c s1 where "eb_cycle_open E d user cb s = (EB_OK, c, s1)"
proof -
  obtain p s0 where n: "eb_new_memory_item (eb_expand_array E) s = (p, s0)"
    by (cases "eb_new_memory_item (eb_expand_array E) s")
  have "p \<noteq> EB_NULL"
    using realloc_ok_null_full [OF inv r] room n card_handles [of 128 65407] by auto
  with active n eb_new_memory_item_frame(3) [of E s] show thesis
    by (intro that) (simp add: eb_cycle_open_def eb_new_cycle_def Let_def)
qed

lemma open_many_unready:
  assumes r: "\<And>n w. fst (env_realloc E n w)"
  shows "alloc_inv 128 dynamic_size s \<Longrightarrow> card (in_use 128 s) + n \<le> 65407 \<Longrightarrow>
    dev_ready (heap_device s d) \<noteq> d \<Longrightarrow>
    \<exists>s'. open_many E d n s = (replicate n EB_OK, s')
      \<and> dev_unready (heap_device s' d) = dev_unready (heap_device s d) + word_of_nat n"
proof (induction n arbitrary: s)
  case 0
  then show ?case by simp
next
  case (Suc n)
  have "card (in_use 128 s) < 65407" using Suc.prems(2) by simp
  with Suc.prems(1) r obtain c s1 where op: "eb_cycle_open E d 0 None s = (EB_OK, c, s1)"
    using Suc.prems(3) by (rule eb_cycle_open_succeeds)
  note o = eb_cycle_open_ok [OF Suc.prems(1) op]
  have "card (in_use 128 s1) + n \<le> 65407" using o(2,3) Suc.prems(2) by simp
  from Suc.IH [OF _ this] o(1,4,7) obtain s' where
    "open_many E d n s1 = (replicate n EB_OK, s')"
    "dev_unready (heap_device s' d) = dev_unready (heap_device s1 d) + word_of_nat n"
    by (auto simp: cycle_live_def)
  with op o(4) show ?case by (simp add: algebra_simps)
qed

text \<open>The counter of open cycles is one byte wide. On a device without open cycles, 256 cycles
  can be opened one after the other, all with status \<^verbatim>\<open>EB_OK\<close>, and the counter is 0 again: the
  device looks as if it had no open cycle.\<close>

theorem eb_cycle_open_unready_wraps:
  assumes "\<And>n w. fst (env_realloc E n w)" and "alloc_inv 128 dynamic_size s"
    and "card (in_use 128 s) \<le> 65151" and "dev_ready (heap_device s d) \<noteq> d"
    and "dev_unready (heap_device s d) = 0"
  shows "\<exists>s'. open_many E d 256 s = (replicate 256 EB_OK, s') \<and> dev_unready (heap_device s' d) = 0"
  using open_many_unready [OF assms(1,2), of 256 d] assms(3-5) by auto

theorem eb_cycle_open_unready_wraps_witness:
  "\<exists>s'. open_many unit_env 5 256 (eb_state0 ()) = (replicate 256 EB_OK, s')
     \<and> dev_unready (heap_device s' 5) = 0"
  by (rule eb_cycle_open_unready_wraps) (simp_all add: alloc_inv_state0 in_use_state0 unit_env_def,
    simp_all add: eb_state0_def)

end
