(* ===== verification/EB_Bytes.thy ===== *)
theory EB_Bytes
  imports EB_State
begin

text \<open>
  Big-endian encoding: \<^verbatim>\<open>format/bigendian.h\<close> and the two accessors \<^verbatim>\<open>EB_mWRITE\<close> / \<^verbatim>\<open>EB_sWRITE\<close> and
  \<^verbatim>\<open>EB_LOAD\<close> that \<^verbatim>\<open>format/master.c\<close> and \<^verbatim>\<open>format/slave.c\<close> use for every word of a packet. What is
  written through \<^verbatim>\<open>*(uintN_t*)wptr = htobeN(val)\<close> is the list of the \<open>N/8\<close> low bytes of \<open>val\<close>,
  most significant first.
\<close>

unbundle bit_operations_syntax

section \<open>Encoding\<close>

fun be_bytes :: "nat \<Rightarrow> uint64 \<Rightarrow> bytes" where
  "be_bytes 0 v = []"
| "be_bytes (Suc n) v = ucast (drop_bit (8 * n) v) # be_bytes n v"

fun of_be :: "uint64 \<Rightarrow> bytes \<Rightarrow> uint64" where
  "of_be acc [] = acc"
| "of_be acc (b # bs) = of_be (push_bit 8 acc OR ucast b) bs"

lemma length_be_bytes [simp]: "length (be_bytes n v) = n"
  by (induction n) simp_all

lemma be_bytes_eq_Nil [simp]: "be_bytes n v = [] \<longleftrightarrow> n = 0"
  by (cases n) simp_all

lemma bit_push_or_byte:
  "bit (push_bit 8 acc OR ucast (b :: uint8) :: uint64) k \<longleftrightarrow>
     (if k < 8 then bit b k else k < 64 \<and> bit acc (k - 8))"
  using bit_imp_le_length [of b k]
  by (auto simp: bit_or_iff bit_push_bit_iff bit_ucast_iff)

lemma of_be_be_bytes_gen:
  "n \<le> 8 \<Longrightarrow> of_be acc (be_bytes n v) = push_bit (8 * n) acc OR take_bit (8 * n) v"
proof (induction n arbitrary: acc)
  case 0
  then show ?case by simp
next
  case (Suc n)
  have "of_be acc (be_bytes (Suc n) v)
      = push_bit (8 * n) (push_bit 8 acc OR ucast (ucast (drop_bit (8 * n) v) :: uint8)) OR take_bit (8 * n) v"
    using Suc by simp
  also have "\<dots> = push_bit (8 * Suc n) acc OR take_bit (8 * Suc n) v"
  proof (rule bit_eqI)
    fix k
    assume k: "possible_bit TYPE(64 word) k"
    show "bit (push_bit (8 * n) (push_bit 8 acc OR ucast (ucast (drop_bit (8 * n) v) :: uint8)) OR take_bit (8 * n) v) k
      \<longleftrightarrow> bit (push_bit (8 * Suc n) acc OR take_bit (8 * Suc n) v) k"
      using k
      by (auto simp: bit_or_iff bit_push_bit_iff bit_take_bit_iff bit_push_or_byte bit_ucast_iff bit_drop_bit_eq
          possible_bit_word not_less algebra_simps dest: bit_imp_le_length)
  qed
  finally show ?case .
qed

lemma of_be_be_bytes: "n \<le> 8 \<Longrightarrow> of_be 0 (be_bytes n v) = take_bit (8 * n) v"
  by (simp add: of_be_be_bytes_gen)

lemma of_be_8 [simp]: "of_be 0 (be_bytes 8 v) = v"
  using of_be_be_bytes [of 8 v] by (simp add: take_bit_word_eq_self)

lemma of_be_ucast:
  "8 * n = LENGTH('a) \<Longrightarrow> n \<le> 8 \<Longrightarrow> ucast (of_be 0 (be_bytes n (ucast (w :: 'a :: len word)))) = w"
  by (simp add: of_be_be_bytes) (auto intro!: bit_word_eqI simp: bit_ucast_iff bit_take_bit_iff)

section \<open>The accessors of the packet formats\<close>

definition EB_mWRITE :: "eb_data_t \<Rightarrow> nat \<Rightarrow> bytes" where
  "EB_mWRITE val alignment =
     (if alignment = 2 then be_bytes 2 val
      else if alignment = 4 then be_bytes 4 val
      else if alignment = 8 then be_bytes 8 val
      else [])"

definition EB_sWRITE :: "eb_data_t \<Rightarrow> nat \<Rightarrow> bytes" where
  "EB_sWRITE val alignment =
     (if alignment = 2 then be_bytes 2 val
      else if alignment = 4 then be_bytes 4 val
      else if alignment = 8 then be_bytes 8 val
      else [])"

definition EB_LOAD :: "bytes \<Rightarrow> nat \<Rightarrow> eb_data_t" where
  "EB_LOAD rptr alignment =
     (if alignment = 2 then of_be 0 (take 2 rptr)
      else if alignment = 4 then of_be 0 (take 4 rptr)
      else if alignment = 8 then of_be 0 (take 8 rptr)
      else 0)"

declare EB_mWRITE_def [eb_unfold] EB_sWRITE_def [eb_unfold] EB_LOAD_def [eb_unfold]

abbreviation is_alignment :: "nat \<Rightarrow> bool" where
  "is_alignment a \<equiv> a = 2 \<or> a = 4 \<or> a = 8"

lemma length_EB_mWRITE: "is_alignment a \<Longrightarrow> length (EB_mWRITE v a) = a"
  by (auto simp: EB_mWRITE_def)

lemma length_EB_sWRITE: "is_alignment a \<Longrightarrow> length (EB_sWRITE v a) = a"
  by (auto simp: EB_sWRITE_def)

text \<open>Both sides of the protocol encode a word alike, and decoding gives back the bits that fit.\<close>

lemma EB_sWRITE_eq_mWRITE: "EB_sWRITE v a = EB_mWRITE v a"
  by (simp add: EB_sWRITE_def EB_mWRITE_def)

lemma EB_LOAD_mWRITE:
  "is_alignment a \<Longrightarrow> EB_LOAD (EB_mWRITE v a @ rest) a = take_bit (8 * a) v"
  by (auto simp: EB_LOAD_def EB_mWRITE_def of_be_be_bytes take_bit_word_eq_self)

section \<open>Alignment\<close>

text \<open>Both formats align words to the bigger of the data and the address width and records to at least
  four bytes.\<close>

definition eb_alignment :: "eb_width_t \<Rightarrow> nat" where
  "eb_alignment biggest = 2 + (if biggest \<ge> EB_DATA32 then 2 else 0) + (if biggest \<ge> EB_DATA64 then 4 else 0)"

definition eb_record_alignment :: "eb_width_t \<Rightarrow> nat" where
  "eb_record_alignment biggest = 4 + (if biggest \<ge> EB_DATA64 then 4 else 0)"

declare eb_alignment_def [eb_unfold] eb_record_alignment_def [eb_unfold]

lemma is_alignment_eb_alignment:
  "eb_alignment b = 2 \<or> eb_alignment b = 4 \<or> eb_alignment b = 8"
proof -
  have "(8 :: uint8) \<le> b \<Longrightarrow> 4 \<le> b" by (rule order_trans) simp_all
  then show ?thesis by (auto simp: eb_alignment_def)
qed

lemma eb_alignment_le: "eb_alignment b \<le> 8"
  using is_alignment_eb_alignment [of b] by auto

lemma eb_record_alignment_le: "eb_record_alignment b \<le> 8"
  by (simp add: eb_record_alignment_def)

end
