(* ===== verification/EB_Sdb.thy ===== *)
theory EB_Sdb
  imports EB_Cycle EB_Bytes
begin

text \<open>
  \<^verbatim>\<open>glue/sdb.c\<close>: the self-describing bus. The slave side (\<^verbatim>\<open>eb_sdb\<close>) presents the attached handlers as
  a table of 64-byte records, the master side scans such a table: read the pointer to it, its header,
  all its records, decode them and hand them to a callback; \<^verbatim>\<open>eb_sdb_find_by_address\<close> and
  \<^verbatim>\<open>eb_sdb_find_by_identity\<close> are built on such callbacks.

  The C code overlays structs on byte buffers and swaps their fields in place; here a record is
  the list of its 64 bytes before decoding and a value of \<open>sdb_record\<close> after it. A read or write
  outside a buffer is the value \<open>None\<close>, as is a scan of a cyclic list.
\<close>

unbundle bit_operations_syntax

abbreviation (input) SDB_MAGIC :: uint64 where "SDB_MAGIC \<equiv> 0x5344422D"

section \<open>Slave side\<close>

definition eb_sdb_extract :: "bytes \<Rightarrow> eb_width_t \<Rightarrow> eb_address_t \<Rightarrow> eb_data_t option" where
  "eb_sdb_extract bytes width addr =
     (let n = unat (width AND EB_DATAX)
      in if unat addr + n \<le> length bytes
         then Some (of_be 0 (take n (drop (unat addr) bytes)))
         else None)"

text \<open>The structs as they lie in memory, all fields big-endian.\<close>

definition product_bytes :: "sdb_product \<Rightarrow> uint8 \<Rightarrow> bytes" where
  "product_bytes p rtype =
     be_bytes 8 (vendor_id p) @ be_bytes 4 (ucast (device_id p)) @ be_bytes 4 (ucast (version p))
     @ be_bytes 4 (ucast (date p)) @ prod_name p @ [rtype]"

definition component_bytes :: "sdb_component \<Rightarrow> uint8 \<Rightarrow> bytes" where
  "component_bytes c rtype =
     be_bytes 8 (addr_first c) @ be_bytes 8 (addr_last c) @ product_bytes (product c) rtype"

text \<open>\<^verbatim>\<open>"Software-EB-Bus    "\<close>\<close>

definition software_eb_bus :: bytes where
  "software_eb_bus = map (\<lambda>c. word_of_nat (of_char c)) ''Software-EB-Bus    ''"

definition interconnect_bytes :: "'w eb_env \<Rightarrow> int \<Rightarrow> bytes" where
  "interconnect_bytes E devices =
     be_bytes 4 SDB_MAGIC @ be_bytes 2 (word_of_int (devices + 1)) @ [1] @ [0]
     @ component_bytes \<lparr>addr_first = 0, addr_last = - 1, product = \<lparr>vendor_id = 0x651,
         device_id = 0x02398114, version = env_version E, date = env_date E,
         prod_name = software_eb_bus, record_type = 0\<rparr>\<rparr> 0x00"

definition eb_sdb_interconnect :: "'w eb_env \<Rightarrow> eb_width_t \<Rightarrow> eb_address_t \<Rightarrow> int \<Rightarrow> eb_data_t option" where
  "eb_sdb_interconnect E width addr devices = eb_sdb_extract (interconnect_bytes E devices) width addr"

definition device_bytes :: "sdb_device \<Rightarrow> bytes" where
  "device_bytes dev =
     be_bytes 2 (ucast (abi_class dev)) @ [abi_ver_major dev] @ [abi_ver_minor dev]
     @ be_bytes 4 (ucast (bus_specific dev)) @ component_bytes (dev_component dev) 0x01"

definition eb_sdb_device :: "sdb_device \<Rightarrow> eb_width_t \<Rightarrow> eb_address_t \<Rightarrow> eb_data_t option" where
  "eb_sdb_device dev width addr = eb_sdb_extract (device_bytes dev) width addr"

text \<open>The loop \<^verbatim>\<open>if (--dev == 0) break\<close> over the handlers.\<close>

fun eb_sdb_find :: "int \<Rightarrow> eb_ptr list \<Rightarrow> eb_ptr option" where
  "eb_sdb_find dev [] = None"
| "eb_sdb_find dev (p # ps) = (if dev - 1 = 0 then Some p else eb_sdb_find (dev - 1) ps)"

definition handler_list :: "eb_ptr \<Rightarrow> 'w eb_state \<Rightarrow> eb_ptr list option" where
  "handler_list socketp s =
     walk (\<lambda>p. had_next (heap_handler_address s p)) EB_NULL (sock_first_handler (heap_socket s socketp))"

definition eb_sdb :: "'w eb_env \<Rightarrow> eb_ptr \<Rightarrow> eb_width_t \<Rightarrow> eb_address_t \<Rightarrow> 'w eb_state \<Rightarrow> eb_data_t option" where
  "eb_sdb E socketp width addr s =
     do { hs \<leftarrow> handler_list socketp s;
          if addr < 0x40 then eb_sdb_interconnect E width addr (int (length hs))
          else case eb_sdb_find (sint (ucast (drop_bit 6 addr) :: 32 word)) hs of
                 None \<Rightarrow> Some 0
               | Some p \<Rightarrow> eb_sdb_device (user_sdb_mem s (had_device (heap_handler_address s p)))
                             width (addr AND 0x3f) }"

section \<open>Collecting the words of a table\<close>

text \<open>The first loop of \<^verbatim>\<open>eb_sdb_fill_block\<close>: the least address, or \<open>None\<close> when an operation failed.\<close>

fun fill_base :: "eb_address_t \<Rightarrow> eb_ptr list \<Rightarrow> 'w eb_state \<Rightarrow> eb_address_t option" where
  "fill_base base [] s = Some base"
| "fill_base base (op # ops) s =
     (if eb_operation_had_error op s then None
      else let address = eb_operation_address op s
           in fill_base (if address < base then address else base) ops s)"

text \<open>\<^verbatim>\<open>for (i = stride-1; i >= 0; --i) { ptr[address + i] = data & 0xFF; data >>= 8; }\<close>\<close>

fun fill_word :: "nat \<Rightarrow> nat \<Rightarrow> eb_data_t \<Rightarrow> bytes \<Rightarrow> bytes" where
  "fill_word 0 address data ptr = ptr"
| "fill_word (Suc i) address data ptr =
     fill_word i address (drop_bit 8 data) (ptr[address + i := ucast data])"

text \<open>The second loop. The outer option is a write outside the buffer, the inner result the return
  code with the buffer.\<close>

fun fill_words ::
  "nat \<Rightarrow> uint16 \<Rightarrow> eb_address_t \<Rightarrow> eb_ptr list \<Rightarrow> 'w eb_state \<Rightarrow> bytes \<Rightarrow> (int \<times> bytes) option" where
  "fill_words stride max_len base [] s ptr = Some (0, ptr)"
| "fill_words stride max_len base (op # ops) s ptr =
     (let address = eb_operation_address op s - base
      in if address + word_of_nat stride > ucast max_len then Some (1, ptr)
         else if unat address + stride > length ptr then None
         else fill_words stride max_len base ops s
                (fill_word stride (unat address) (eb_operation_data op s) ptr))"

definition eb_sdb_fill_block :: "bytes \<Rightarrow> uint16 \<Rightarrow> eb_ptr \<Rightarrow> 'w eb_state \<Rightarrow> (int \<times> bytes) option" where
  "eb_sdb_fill_block ptr max_len ops s =
     do { ps \<leftarrow> walk (\<lambda>p. op_next (heap_operation s p)) EB_NULL ops;
          case fill_base (- 1) ps s of
            None \<Rightarrow> Some (- 1, ptr)
          | Some base \<Rightarrow> fill_words (unat (eb_operation_format ops s AND EB_DATAX)) max_len base ps s ptr }"

section \<open>Decoding\<close>

definition field :: "bytes \<Rightarrow> nat \<Rightarrow> nat \<Rightarrow> uint64" where
  "field bs off n = of_be 0 (take n (drop off bs))"

definition eb_sdb_product_decode :: "bytes \<Rightarrow> sdb_product" where
  "eb_sdb_product_decode bs = \<lparr>vendor_id = field bs 0 8, device_id = ucast (field bs 8 4),
     version = ucast (field bs 12 4), date = ucast (field bs 16 4),
     prod_name = take 19 (drop 20 bs), record_type = ucast (field bs 39 1)\<rparr>"

definition eb_sdb_component_decode :: "bytes \<Rightarrow> eb_address_t \<Rightarrow> sdb_component" where
  "eb_sdb_component_decode bs bus_base = \<lparr>addr_first = field bs 0 8 + bus_base,
     addr_last = field bs 8 8 + bus_base, product = eb_sdb_product_decode (drop 16 bs)\<rparr>"

definition interconnect_decode :: "bytes \<Rightarrow> eb_address_t \<Rightarrow> sdb_interconnect" where
  "interconnect_decode bs bus_base = \<lparr>sdb_magic = ucast (field bs 0 4), sdb_records = ucast (field bs 4 2),
     sdb_version = ucast (field bs 6 1), sdb_bus_type = ucast (field bs 7 1),
     icn_component = eb_sdb_component_decode (drop 8 bs) bus_base\<rparr>"

text \<open>The \<^verbatim>\<open>switch\<close> over the record type.\<close>

definition record_decode :: "bytes \<Rightarrow> eb_address_t \<Rightarrow> sdb_record" where
  "record_decode r bus_base =
     (let rtype = field r 63 1
      in if rtype = 0x01 then
           Sdb_device \<lparr>abi_class = ucast (field r 0 2), abi_ver_major = ucast (field r 2 1),
             abi_ver_minor = ucast (field r 3 1), bus_specific = ucast (field r 4 4),
             dev_component = eb_sdb_component_decode (drop 8 r) bus_base\<rparr>
         else if rtype = 0x02 then
           Sdb_bridge \<lparr>sdb_child = field r 0 8 + bus_base,
             bridge_component = eb_sdb_component_decode (drop 8 r) bus_base\<rparr>
         else if rtype = 0x80 then
           Sdb_integration (take 24 r) (eb_sdb_product_decode (drop 24 r))
         else Sdb_other (take 64 r))"

text \<open>The \<open>i\<close>-th record of the table behind the interconnect header.\<close>

definition table_decode :: "bytes \<Rightarrow> eb_address_t \<Rightarrow> sdb_table" where
  "table_decode buf bus_base =
     (let icn = interconnect_decode buf bus_base
      in (icn, map (\<lambda>i. record_decode (take 64 (drop (64 * Suc i) buf)) bus_base)
                 [0 ..< unat (sdb_records icn) - 1]))"

section \<open>Scanning\<close>

text \<open>
  The reads of a block, \<^verbatim>\<open>for (end = ...; address < end; address += stride) eb_cycle_read(...)\<close>; \<open>rd\<close> is
  the read. The address after the loop is returned, since \<^verbatim>\<open>eb_sdb_got_header\<close> goes on from there.
\<close>

partial_function (option) read_words ::
  "(eb_address_t \<Rightarrow> 'w eb_state \<Rightarrow> 'w eb_state option) \<Rightarrow> eb_address_t \<Rightarrow> eb_address_t \<Rightarrow> eb_address_t
    \<Rightarrow> 'w eb_state \<Rightarrow> (eb_address_t \<times> 'w eb_state) option" where
  "read_words rd address end_addr stride s =
     (if address < end_addr
      then do { s \<leftarrow> rd address s; read_words rd (address + stride) end_addr stride s }
      else Some (address, s))"

text \<open>\<^verbatim>\<open>eb_cycle_close\<close> on a cycle with a callback of this file: it does not block, so the event loop it
  would run is not reached.\<close>

definition close_async :: "eb_ptr \<Rightarrow> 'w eb_state \<Rightarrow> 'w eb_state option" where
  "close_async cyclep s = map_option snd (eb_cycle_close (\<lambda>_ _. None) 0 cyclep s)"

definition eb_sdb_scan_bus ::
  "'w eb_env \<Rightarrow> eb_ptr \<Rightarrow> sdb_bridge \<Rightarrow> eb_user_data_t \<Rightarrow> sdb_callback_t \<Rightarrow> 'w eb_state
    \<Rightarrow> (eb_status_t \<times> 'w eb_state) option" where
  "eb_sdb_scan_bus E device bridge data cb s =
     (if record_type (product (bridge_component bridge)) \<noteq> 0x02 then Some (EB_ADDRESS, s)
      else let (scanp, s) = eb_new_sdb_scan E s in
      if scanp = EB_NULL then Some (EB_OOM, s)
      else let s = upd_sdb_scan scanp (\<lambda>_. \<lparr>scan_user_data = data, scan_cb = cb,
                     scan_bus_base = addr_first (bridge_component bridge)\<rparr>) s;
               stride = ucast (dev_widths (heap_device s device) AND EB_DATAX);
               (status, cyclep, s) = eb_cycle_open E device (ucast scanp) (Some Eb_sdb_got_header) s
      in if status \<noteq> EB_OK then Some (status, eb_free_sdb_scan scanp s)
         else do { (_, s) \<leftarrow> read_words (\<lambda>a. eb_cycle_read E cyclep a EB_DATAX 0)
                     (sdb_child bridge) (sdb_child bridge + 32) stride s;
                   s \<leftarrow> close_async cyclep s;
                   Some (EB_OK, s) })"

definition eb_sdb_scan_root ::
  "'w eb_env \<Rightarrow> eb_ptr \<Rightarrow> eb_user_data_t \<Rightarrow> sdb_callback_t \<Rightarrow> 'w eb_state
    \<Rightarrow> (eb_status_t \<times> 'w eb_state) option" where
  "eb_sdb_scan_root E device data cb s =
     (let (scanp, s) = eb_new_sdb_scan E s in
      if scanp = EB_NULL then Some (EB_OOM, s)
      else let s = upd_sdb_scan scanp (\<lambda>_. \<lparr>scan_user_data = data, scan_cb = cb, scan_bus_base = 0\<rparr>) s;
               stride = ucast (dev_widths (heap_device s device) AND EB_DATAX);
               (status, cyclep, s) = eb_cycle_open E device (ucast scanp) (Some Eb_sdb_got_header_ptr) s
      in if status \<noteq> EB_OK then Some (status, eb_free_sdb_scan scanp s)
         else do { (_, s) \<leftarrow> read_words (\<lambda>a. eb_cycle_read_config E cyclep a EB_DATAX 0) 8 16 stride s;
                   s \<leftarrow> close_async cyclep s;
                   Some (EB_OK, s) })"

section \<open>Searching\<close>

text \<open>The component every record but the empty ones has at offset 8, and the type byte.\<close>

fun record_component :: "sdb_record \<Rightarrow> sdb_component option" where
  "record_component (Sdb_device d) = Some (dev_component d)"
| "record_component (Sdb_bridge b) = Some (bridge_component b)"
| "record_component _ = None"

fun find_by_address_loop ::
  "'w eb_env \<Rightarrow> eb_user_data_t \<Rightarrow> eb_ptr \<Rightarrow> sdb_record list \<Rightarrow> 'w eb_state \<Rightarrow> 'w eb_state option" where
  "find_by_address_loop E data dev [] s =
     Some (s\<lparr>find_address_mem := (find_address_mem s)(data := (find_address_mem s data)\<lparr>fba_status := EB_ADDRESS\<rparr>)\<rparr>)"
| "find_by_address_loop E data dev (des # rest) s =
     (let address = fba_address (find_address_mem s data);
          hit = (\<lambda>c. addr_first c \<le> address \<and> address \<le> addr_last c)
      in case des of
           Sdb_bridge b \<Rightarrow>
             if hit (bridge_component b)
             then do { (status, s) \<leftarrow> eb_sdb_scan_bus E dev b data Eb_cb_find_by_address s;
                       Some (if status \<noteq> EB_OK
                             then s\<lparr>find_address_mem := (find_address_mem s)(data :=
                                    (find_address_mem s data)\<lparr>fba_status := status\<rparr>)\<rparr>
                             else s) }
             else find_by_address_loop E data dev rest s
         | Sdb_device d \<Rightarrow>
             if hit (dev_component d)
             then Some (s\<lparr>user_record_mem := (user_record_mem s)(fba_output (find_address_mem s data) := des),
                          find_address_mem := (find_address_mem s)(data :=
                            (find_address_mem s data)\<lparr>fba_status := EB_OK\<rparr>)\<rparr>)
             else find_by_address_loop E data dev rest s
         | _ \<Rightarrow> find_by_address_loop E data dev rest s)"

definition eb_cb_find_by_address ::
  "'w eb_env \<Rightarrow> eb_user_data_t \<Rightarrow> eb_ptr \<Rightarrow> sdb_table option \<Rightarrow> eb_status_t \<Rightarrow> 'w eb_state \<Rightarrow> 'w eb_state option" where
  "eb_cb_find_by_address E data dev sdb status s =
     (if status \<noteq> EB_OK
      then Some (s\<lparr>find_address_mem := (find_address_mem s)(data := (find_address_mem s data)\<lparr>fba_status := status\<rparr>)\<rparr>)
      else case sdb of None \<Rightarrow> None
           | Some (icn, records) \<Rightarrow> find_by_address_loop E data dev records s)"

text \<open>\<^verbatim>\<open>record->output+record->fill\<close> is \<open>fill\<close> structs of 64 bytes further.\<close>

fun find_by_identity_loop ::
  "'w eb_env \<Rightarrow> eb_user_data_t \<Rightarrow> eb_ptr \<Rightarrow> sdb_record list \<Rightarrow> 'w eb_state \<Rightarrow> 'w eb_state option" where
  "find_by_identity_loop E data dev [] s = Some s"
| "find_by_identity_loop E data dev (des # rest) s =
     do { s \<leftarrow> (case des of
            Sdb_bridge b \<Rightarrow>
              do { (status, s) \<leftarrow> eb_sdb_scan_bus E dev b data Eb_cb_find_by_identity s;
                   let r = find_identity_mem s data;
                   Some (s\<lparr>find_identity_mem := (find_identity_mem s)(data :=
                     if status = EB_OK then r\<lparr>fbi_pending := fbi_pending r + 1\<rparr>
                     else r\<lparr>fbi_status := status\<rparr>)\<rparr>) }
          | _ \<Rightarrow> Some s);
          let r = find_identity_mem s data;
          let s = (case record_component des of
              None \<Rightarrow> s
            | Some c \<Rightarrow>
                if vendor_id (product c) = fbi_vendor_id r \<and> device_id (product c) = fbi_device_id r
                then (if fbi_fill r < fbi_size r
                      then s\<lparr>user_record_mem := (user_record_mem s)
                              (fbi_output r + 64 * word_of_int (fbi_fill r) := des)\<rparr>
                      else s)
                     \<lparr>find_identity_mem := (find_identity_mem s)(data := r\<lparr>fbi_fill := fbi_fill r + 1\<rparr>)\<rparr>
                else s);
          find_by_identity_loop E data dev rest s }"

definition eb_cb_find_by_identity ::
  "'w eb_env \<Rightarrow> eb_user_data_t \<Rightarrow> eb_ptr \<Rightarrow> sdb_table option \<Rightarrow> eb_status_t \<Rightarrow> 'w eb_state \<Rightarrow> 'w eb_state option" where
  "eb_cb_find_by_identity E data dev sdb status s =
     (let r = find_identity_mem s data;
          s = s\<lparr>find_identity_mem := (find_identity_mem s)(data := r\<lparr>fbi_pending := fbi_pending r - 1\<rparr>)\<rparr>
      in if status \<noteq> EB_OK
         then Some (s\<lparr>find_identity_mem := (find_identity_mem s)(data :=
                (find_identity_mem s data)\<lparr>fbi_status := status\<rparr>)\<rparr>)
         else case sdb of None \<Rightarrow> None
              | Some (icn, records) \<Rightarrow> find_by_identity_loop E data dev records s)"

text \<open>The call \<^verbatim>\<open>(*cb)(data, device, sdb, status)\<close> of a scan.\<close>

fun sdb_callback ::
  "'w eb_env \<Rightarrow> sdb_callback_t \<Rightarrow> eb_user_data_t \<Rightarrow> eb_ptr \<Rightarrow> sdb_table option \<Rightarrow> eb_status_t \<Rightarrow> 'w eb_state
    \<Rightarrow> 'w eb_state option" where
  "sdb_callback E Eb_cb_find_by_address data dev sdb status s = eb_cb_find_by_address E data dev sdb status s"
| "sdb_callback E Eb_cb_find_by_identity data dev sdb status s = eb_cb_find_by_identity E data dev sdb status s"
| "sdb_callback E (Sdb_user_callback n) data dev sdb status s = Some (env_sdb_callback E n data dev sdb status s)"

section \<open>The completion callbacks of a scan\<close>

definition eb_sdb_decode ::
  "'w eb_env \<Rightarrow> eb_sdb_scan \<Rightarrow> eb_ptr \<Rightarrow> uint16 \<Rightarrow> eb_ptr \<Rightarrow> 'w eb_state \<Rightarrow> 'w eb_state option" where
  "eb_sdb_decode E scan device sz ops s =
     do { (r, buf) \<leftarrow> eb_sdb_fill_block (stack_bytes E (unat sz)) sz ops s;
          let cb = sdb_callback E (scan_cb scan) (scan_user_data scan) device;
          if r \<noteq> 0 then cb None EB_FAIL s
          else if 64 * unat (sdb_records (interconnect_decode buf (scan_bus_base scan))) > unat sz
          then cb None EB_FAIL s
          else cb (Some (table_decode buf (scan_bus_base scan))) EB_OK s }"

text \<open>The size of the stack buffer of \<^verbatim>\<open>eb_sdb_decode4\<close>, ..., \<^verbatim>\<open>eb_sdb_decode256\<close>: the header and as many
  records, or \<open>None\<close> when there are too many.\<close>

definition eb_sdb_decode_size :: "uint16 \<Rightarrow> uint16 option" where
  "eb_sdb_decode_size devices =
     (if devices < 4 then Some (64 * 5)
      else if devices < 8 then Some (64 * 9)
      else if devices < 16 then Some (64 * 17)
      else if devices < 32 then Some (64 * 33)
      else if devices < 64 then Some (64 * 65)
      else if devices < 128 then Some (64 * 129)
      else if devices < 256 then Some (64 * 257)
      else None)"

partial_function (option) last_operation :: "eb_ptr \<Rightarrow> 'w eb_state \<Rightarrow> eb_ptr option" where
  "last_operation p s =
     (if op_next (heap_operation s p) = EB_NULL then Some p
      else last_operation (op_next (heap_operation s p)) s)"

text \<open>The first half of \<^verbatim>\<open>eb_sdb_got_record\<close>: record the failure, or take over the operations of the
  cycle. The cycle's list is cut off after its first operation, which is cloned, because the caller
  frees what is left on it.\<close>

definition got_record_ops ::
  "'w eb_env \<Rightarrow> eb_ptr \<Rightarrow> eb_ptr \<Rightarrow> eb_status_t \<Rightarrow> 'w eb_state \<Rightarrow> 'w eb_state option" where
  "got_record_ops E recordp ops status s =
     (if status \<noteq> EB_OK then Some (upd_sdb_record recordp (\<lambda>r. r\<lparr>rec_status := status\<rparr>) s)
      else if ops = EB_NULL then Some (upd_sdb_record recordp (\<lambda>r. r\<lparr>rec_status := EB_FAIL\<rparr>) s)
      else let (op2p, s) = eb_new_operation E s in
      if op2p = EB_NULL then Some (upd_sdb_record recordp (\<lambda>r. r\<lparr>rec_status := EB_OOM\<rparr>) s)
      else do { let s = upd_operation op2p (\<lambda>_. heap_operation s ops) s;
                let s = upd_operation ops (\<lambda>op. op\<lparr>op_next := EB_NULL\<rparr>) s;
                opip \<leftarrow> last_operation op2p s;
                let s = upd_operation opip (\<lambda>op. op\<lparr>op_next := rec_ops (heap_sdb_record s recordp)\<rparr>) s;
                Some (upd_sdb_record recordp (\<lambda>r. r\<lparr>rec_ops := op2p\<rparr>) s) })"

definition eb_sdb_got_record ::
  "'w eb_env \<Rightarrow> eb_user_data_t \<Rightarrow> eb_ptr \<Rightarrow> eb_ptr \<Rightarrow> eb_status_t \<Rightarrow> 'w eb_state \<Rightarrow> 'w eb_state option" where
  "eb_sdb_got_record E mydata device ops status s =
     do { let recordp = ucast mydata;
          s \<leftarrow> got_record_ops E recordp ops status s;
          let s = upd_sdb_record recordp (\<lambda>r. r\<lparr>rec_pending := rec_pending r - 1\<rparr>) s;
          let r = heap_sdb_record s recordp;
          if rec_pending r \<noteq> 0 then Some s
          else do { let scan = heap_sdb_scan s (rec_scan r);
                    let cb = sdb_callback E (scan_cb scan) (scan_user_data scan) device;
                    s \<leftarrow> (if rec_status r \<noteq> EB_OK then cb None (rec_status r) s
                         else case eb_sdb_decode_size (rec_records r - 1) of
                                Some sz \<Rightarrow> eb_sdb_decode E scan device sz (rec_ops r) s
                              | None \<Rightarrow> cb None EB_OOM s);
                    s \<leftarrow> free_operations (rec_ops (heap_sdb_record s recordp)) s;
                    Some (eb_free_sdb_scan (rec_scan r) (eb_free_sdb_record recordp s)) } }"

text \<open>The loop that reads the whole table, one cycle per record.\<close>

fun read_records ::
  "'w eb_env \<Rightarrow> eb_ptr \<Rightarrow> eb_ptr \<Rightarrow> eb_address_t \<Rightarrow> nat \<Rightarrow> eb_address_t \<Rightarrow> 'w eb_state \<Rightarrow> 'w eb_state option" where
  "read_records E recordp device stride 0 address s = Some s"
| "read_records E recordp device stride (Suc n) address s =
     (let (status, cyclep, s) = eb_cycle_open E device (ucast recordp) (Some Eb_sdb_got_record) s
      in if status \<noteq> EB_OK
         then do { s \<leftarrow> eb_sdb_got_record E (ucast recordp) device EB_NULL status s;
                   read_records E recordp device stride n address s }
         else do { (address, s) \<leftarrow> read_words (\<lambda>a. eb_cycle_read E cyclep a EB_DATAX 0)
                     address (address + 64) stride s;
                   s \<leftarrow> close_async cyclep s;
                   read_records E recordp device stride n address s })"

definition eb_sdb_got_header ::
  "'w eb_env \<Rightarrow> eb_user_data_t \<Rightarrow> eb_ptr \<Rightarrow> eb_ptr \<Rightarrow> eb_status_t \<Rightarrow> 'w eb_state \<Rightarrow> 'w eb_state option" where
  "eb_sdb_got_header E mydata device ops status s =
     (let scanp = ucast mydata;
          scan = heap_sdb_scan s scanp;
          cb = sdb_callback E (scan_cb scan) (scan_user_data scan) device;
          stride = ucast (dev_widths (heap_device s device) AND EB_DATAX)
      in if status \<noteq> EB_OK then cb None status (eb_free_sdb_scan scanp s)
         else do { (r, header) \<leftarrow> eb_sdb_fill_block (stack_bytes E 64) 64 ops s;
           if r \<noteq> 0 then cb None EB_FAIL (eb_free_sdb_scan scanp s)
           else if field header 0 4 \<noteq> SDB_MAGIC then cb None EB_FAIL (eb_free_sdb_scan scanp s)
           else let (recordp, s) = eb_new_sdb_record E s in
           if recordp = EB_NULL then cb None EB_OOM (eb_free_sdb_scan scanp s)
           else let records = ucast (field header 4 2);
                    s = upd_sdb_record recordp (\<lambda>_. \<lparr>rec_scan = scanp, rec_ops = EB_NULL,
                          rec_status = EB_OK, rec_pending = records, rec_records = records\<rparr>) s
                in read_records E recordp device stride (unat records) (eb_operation_address ops s) s })"

text \<open>The address is assembled from partial reads; \<open>None\<close> when one of them failed.\<close>

fun header_pointer :: "nat \<Rightarrow> eb_address_t \<Rightarrow> eb_ptr list \<Rightarrow> 'w eb_state \<Rightarrow> eb_address_t option" where
  "header_pointer stride address [] s = Some address"
| "header_pointer stride address (op # ops) s =
     (if eb_operation_had_error op s then None
      else header_pointer stride (push_bit (stride * 8) address + eb_operation_data op s) ops s)"

definition eb_sdb_got_header_ptr ::
  "'w eb_env \<Rightarrow> eb_user_data_t \<Rightarrow> eb_ptr \<Rightarrow> eb_ptr \<Rightarrow> eb_status_t \<Rightarrow> 'w eb_state \<Rightarrow> 'w eb_state option" where
  "eb_sdb_got_header_ptr E mydata device ops status s =
     (let scanp = ucast mydata;
          scan = heap_sdb_scan s scanp;
          cb = sdb_callback E (scan_cb scan) (scan_user_data scan) device;
          stride = dev_widths (heap_device s device) AND EB_DATAX
      in if status \<noteq> EB_OK then cb None status (eb_free_sdb_scan scanp s)
         else do { ps \<leftarrow> walk (\<lambda>p. op_next (heap_operation s p)) EB_NULL ops;
           case header_pointer (unat stride) 0 ps s of
             None \<Rightarrow> cb None EB_FAIL (eb_free_sdb_scan scanp s)
           | Some header_address \<Rightarrow>
               let (status, cyclep, s) = eb_cycle_open E device (ucast scanp) (Some Eb_sdb_got_header) s
               in if status \<noteq> EB_OK then cb None status (eb_free_sdb_scan scanp s)
                  else do { (_, s) \<leftarrow> read_words (\<lambda>a. eb_cycle_read E cyclep a EB_DATAX 0)
                              header_address (header_address + 32) (ucast stride) s;
                            close_async cyclep s } })"

section \<open>Calling the callback of a cycle\<close>

text \<open>\<^verbatim>\<open>(*cycle->callback)(cycle->user_data, device, operation, status)\<close>. Every call is noted in
  \<open>calls\<close>.\<close>

definition run_callback ::
  "'w eb_env \<Rightarrow> eb_callback_t \<Rightarrow> eb_user_data_t \<Rightarrow> eb_ptr \<Rightarrow> eb_ptr \<Rightarrow> eb_status_t \<Rightarrow> 'w eb_state
    \<Rightarrow> 'w eb_state option" where
  "run_callback E cb user device operation status s =
     (let s = s\<lparr>calls := calls s @ [Eb_call cb user device operation status]\<rparr>
      in case cb of
           Eb_block_f \<Rightarrow> Some (eb_block_f user status s)
         | Eb_sdb_got_record \<Rightarrow> eb_sdb_got_record E user device operation status s
         | Eb_sdb_got_header \<Rightarrow> eb_sdb_got_header E user device operation status s
         | Eb_sdb_got_header_ptr \<Rightarrow> eb_sdb_got_header_ptr E user device operation status s
         | Eb_user_callback n \<Rightarrow> Some (env_callback E n user device operation status s))"

section \<open>Blocking searches\<close>

text \<open>\<open>run\<close> is one call of \<^verbatim>\<open>eb_socket_run\<close> on the socket of the device, \<open>recp\<close> the address of the
  search record on the stack.\<close>

partial_function (option) find_address_loop ::
  "('w eb_state \<Rightarrow> 'w eb_state option) \<Rightarrow> uint64 \<Rightarrow> 'w eb_state \<Rightarrow> 'w eb_state option" where
  "find_address_loop run recp s =
     (if fba_status (find_address_mem s recp) > 0
      then do { s \<leftarrow> run s; find_address_loop run recp s } else Some s)"

definition eb_sdb_find_by_address ::
  "'w eb_env \<Rightarrow> (eb_ptr \<Rightarrow> 'w eb_state \<Rightarrow> 'w eb_state option) \<Rightarrow> uint64 \<Rightarrow> eb_ptr \<Rightarrow> eb_address_t \<Rightarrow> uint64
    \<Rightarrow> 'w eb_state \<Rightarrow> (eb_status_t \<times> 'w eb_state) option" where
  "eb_sdb_find_by_address E run recp device address out s =
     do { let s = s\<lparr>find_address_mem := (find_address_mem s)(recp :=
                (find_address_mem s recp)\<lparr>fba_address := address, fba_output := out\<rparr>)\<rparr>;
          (status, s) \<leftarrow> eb_sdb_scan_root E device recp Eb_cb_find_by_address s;
          let s = s\<lparr>find_address_mem := (find_address_mem s)(recp :=
                (find_address_mem s recp)\<lparr>fba_status := status\<rparr>)\<rparr>;
          s \<leftarrow> (if status = EB_OK
               then find_address_loop (\<lambda>s. run (dev_socket (heap_device s device)) s) recp
                 (s\<lparr>find_address_mem := (find_address_mem s)(recp :=
                   (find_address_mem s recp)\<lparr>fba_status := 1\<rparr>)\<rparr>)
               else Some s);
          Some (fba_status (find_address_mem s recp), s) }"

partial_function (option) find_identity_loop ::
  "('w eb_state \<Rightarrow> 'w eb_state option) \<Rightarrow> uint64 \<Rightarrow> 'w eb_state \<Rightarrow> 'w eb_state option" where
  "find_identity_loop run recp s =
     (if fbi_pending (find_identity_mem s recp) > 0
      then do { s \<leftarrow> run s; find_identity_loop run recp s } else Some s)"

definition find_by_identity_from ::
  "('w eb_state \<Rightarrow> (eb_status_t \<times> 'w eb_state) option) \<Rightarrow> (eb_ptr \<Rightarrow> 'w eb_state \<Rightarrow> 'w eb_state option)
    \<Rightarrow> uint64 \<Rightarrow> eb_ptr \<Rightarrow> uint64 \<Rightarrow> uint32 \<Rightarrow> uint64 \<Rightarrow> int \<Rightarrow> 'w eb_state
    \<Rightarrow> (eb_status_t \<times> int \<times> 'w eb_state) option" where
  "find_by_identity_from scan run recp device vendor did out sz s =
     do { let s = s\<lparr>find_identity_mem := (find_identity_mem s)(recp :=
                (find_identity_mem s recp)\<lparr>fbi_vendor_id := vendor, fbi_device_id := did, fbi_size := sz,
                  fbi_fill := 0, fbi_pending := 1, fbi_output := out\<rparr>)\<rparr>;
          (status, s) \<leftarrow> scan s;
          let s = s\<lparr>find_identity_mem := (find_identity_mem s)(recp :=
                (find_identity_mem s recp)\<lparr>fbi_status := status\<rparr>)\<rparr>;
          s \<leftarrow> (if status = EB_OK
               then find_identity_loop (\<lambda>s. run (dev_socket (heap_device s device)) s) recp s
               else Some s);
          Some (fbi_status (find_identity_mem s recp), fbi_fill (find_identity_mem s recp), s) }"

definition eb_sdb_find_by_identity ::
  "'w eb_env \<Rightarrow> (eb_ptr \<Rightarrow> 'w eb_state \<Rightarrow> 'w eb_state option) \<Rightarrow> uint64 \<Rightarrow> eb_ptr \<Rightarrow> uint64 \<Rightarrow> uint32 \<Rightarrow> uint64
    \<Rightarrow> int \<Rightarrow> 'w eb_state \<Rightarrow> (eb_status_t \<times> int \<times> 'w eb_state) option" where
  "eb_sdb_find_by_identity E run recp device vendor did out sz s =
     find_by_identity_from (eb_sdb_scan_root E device recp Eb_cb_find_by_identity)
       run recp device vendor did out sz s"

definition eb_sdb_find_by_identity_at ::
  "'w eb_env \<Rightarrow> (eb_ptr \<Rightarrow> 'w eb_state \<Rightarrow> 'w eb_state option) \<Rightarrow> uint64 \<Rightarrow> eb_ptr \<Rightarrow> sdb_bridge \<Rightarrow> uint64 \<Rightarrow> uint32
    \<Rightarrow> uint64 \<Rightarrow> int \<Rightarrow> 'w eb_state \<Rightarrow> (eb_status_t \<times> int \<times> 'w eb_state) option" where
  "eb_sdb_find_by_identity_at E run recp device bridge vendor did out sz s =
     find_by_identity_from (eb_sdb_scan_bus E device bridge recp Eb_cb_find_by_identity)
       run recp device vendor did out sz s"

end
