(* ===== verification/EB_Master.thy ===== *)
theory EB_Master
  imports EB_Sdb
begin

text \<open>
  \<^verbatim>\<open>format/master.c\<close>: \<^verbatim>\<open>eb_device_flush\<close> turns the queued cycles of a device into Etherbone records.

  The function is modelled in the pieces its comments mark: the check of an operation, the choice of
  how many writes and reads go into the next record (\<open>plan_record\<close>), the bytes of the record
  (\<open>record_bytes\<close>), making room in the packet buffer (\<open>flush_space\<close>), the loop over the records
  of a cycle, the loop over the cycles. The buffer \<^verbatim>\<open>buffer[0 .. wptr)\<close> is the list \<open>fl_buf\<close>, so
  \<^verbatim>\<open>wptr\<close> is its length; \<^verbatim>\<open>cptr\<close> is an index into it. While a record is planned, the C code follows
  \<^verbatim>\<open>scanp\<close> along the operations of the cycle; here the scan consumes the list of those operations.
  \<^verbatim>\<open>unsigned int maxops = -1\<close> is \<open>2\<^sup>3\<^sup>2 - 1\<close>; a cycle has fewer than \<open>2\<^sup>1\<^sup>6\<close> operations.
\<close>

unbundle bit_operations_syntax

abbreviation (input) EB_HEADER_PF :: uint8 where "EB_HEADER_PF \<equiv> 0x01"
abbreviation (input) EB_HEADER_PR :: uint8 where "EB_HEADER_PR \<equiv> 0x02"
abbreviation (input) EB_HEADER_NR :: uint8 where "EB_HEADER_NR \<equiv> 0x04"
abbreviation (input) EB_RECORD_BCA :: uint8 where "EB_RECORD_BCA \<equiv> 0x80"
abbreviation (input) EB_RECORD_RCA :: uint8 where "EB_RECORD_RCA \<equiv> 0x40"
abbreviation (input) EB_RECORD_RFF :: uint8 where "EB_RECORD_RFF \<equiv> 0x20"
abbreviation (input) EB_RECORD_CYC :: uint8 where "EB_RECORD_CYC \<equiv> 0x08"
abbreviation (input) EB_RECORD_WCA :: uint8 where "EB_RECORD_WCA \<equiv> 0x04"
abbreviation (input) EB_RECORD_WFF :: uint8 where "EB_RECORD_WFF \<equiv> 0x02"

text \<open>\<^verbatim>\<open>sizeof(eb_max_align_t)*(255+255+1+1)+8\<close>\<close>

abbreviation (input) BUFFER_SIZE :: nat where "BUFFER_SIZE \<equiv> 8 * (255 + 255 + 1 + 1) + 8"

section \<open>Checking an operation\<close>

definition flush_check_op :: "eb_width_t \<Rightarrow> eb_address_t \<Rightarrow> eb_operation \<Rightarrow> eb_status_t \<times> eb_operation" where
  "flush_check_op data address_mask op =
     (let sz = eb_width_refine (op_format op AND (data - 1 + data));
          endian = (if sz = data then 0 else op_format op AND EB_ENDIAN_MASK)
      in if sz = 0 then (EB_WIDTH, op)
         else if endian = EB_BIG_ENDIAN OR EB_LITTLE_ENDIAN \<or> (sz \<noteq> data \<and> endian = 0) then (EB_ENDIAN, op)
         else let op = op\<lparr>op_format := endian OR sz\<rparr>
         in if op_flags op AND EB_OP_CFG_SPACE = 0
               \<and> op_address op AND (address_mask - (ucast sz - 1)) \<noteq> op_address op then (EB_ADDRESS, op)
         else if op_flags op AND EB_OP_CFG_SPACE \<noteq> 0
               \<and> op_address op AND (0xFFFF - (ucast sz - 1)) \<noteq> op_address op then (EB_ADDRESS, op)
         else if op_flags op AND EB_OP_MASK = EB_OP_WRITE
               \<and> op_value op AND drop_bit ((8 - unat sz) * 8) (- 1) \<noteq> op_value op then (EB_WIDTH, op)
         else (EB_OK, op))"

text \<open>The loop over the operations of a cycle. It stops at the first bad one and returns it, or
  \<^verbatim>\<open>EB_NULL\<close>; the formats of the operations it accepted are updated.\<close>

partial_function (option) flush_check ::
  "eb_width_t \<Rightarrow> eb_address_t \<Rightarrow> eb_ptr \<Rightarrow> 'w eb_state \<Rightarrow> (eb_ptr \<times> eb_status_t \<times> 'w eb_state) option" where
  "flush_check data address_mask operationp s =
     (if operationp = EB_NULL then Some (EB_NULL, EB_OK, s)
      else let (reason, op) = flush_check_op data address_mask (heap_operation s operationp);
               s = upd_operation operationp (\<lambda>_. op) s
           in if reason \<noteq> EB_OK then Some (operationp, reason, s)
              else flush_check data address_mask (op_next op) s)"

section \<open>Planning a record\<close>

abbreviation is_write_op :: "eb_operation \<Rightarrow> bool" where
  "is_write_op op \<equiv> op_flags op AND EB_OP_MASK = EB_OP_WRITE"

abbreviation cfg_of :: "eb_operation \<Rightarrow> eb_operation_flags_t" where
  "cfg_of op \<equiv> op_flags op AND EB_OP_CFG_SPACE"

text \<open>The three counting loops; they return the count, \<^verbatim>\<open>ops\<close> and the operations from \<^verbatim>\<open>scanp\<close> on.\<close>

fun scan_fifo ::
  "eb_address_t \<Rightarrow> eb_operation_flags_t \<Rightarrow> eb_format_t \<Rightarrow> nat \<Rightarrow> nat \<Rightarrow> nat \<Rightarrow> eb_operation list
    \<Rightarrow> nat \<times> nat \<times> eb_operation list" where
  "scan_fifo bwa wcfg fmt maxops wcount ops [] = (wcount, ops, [])"
| "scan_fifo bwa wcfg fmt maxops wcount ops (scan # xs) =
     (if op_address scan \<noteq> bwa \<or> \<not> is_write_op scan \<or> cfg_of scan \<noteq> wcfg \<or> op_format scan \<noteq> fmt
         \<or> 255 \<le> wcount \<or> maxops \<le> ops
      then (wcount, ops, scan # xs)
      else scan_fifo bwa wcfg fmt maxops (Suc wcount) (if wcfg = 0 then Suc ops else ops) xs)"

fun scan_seq ::
  "eb_address_t \<Rightarrow> eb_address_t \<Rightarrow> eb_operation_flags_t \<Rightarrow> eb_format_t \<Rightarrow> nat \<Rightarrow> nat \<Rightarrow> nat \<Rightarrow> eb_operation list
    \<Rightarrow> nat \<times> nat \<times> eb_operation list" where
  "scan_seq stride bwa wcfg fmt maxops wcount ops [] = (wcount, ops, [])"
| "scan_seq stride bwa wcfg fmt maxops wcount ops (scan # xs) =
     (if op_address scan \<noteq> bwa + stride \<or> \<not> is_write_op scan \<or> cfg_of scan \<noteq> wcfg \<or> op_format scan \<noteq> fmt
         \<or> 255 \<le> wcount \<or> maxops \<le> ops
      then (wcount, ops, scan # xs)
      else scan_seq stride (bwa + stride) wcfg fmt maxops (Suc wcount) (if wcfg = 0 then Suc ops else ops) xs)"

fun scan_reads ::
  "eb_width_t \<Rightarrow> eb_operation_flags_t \<Rightarrow> eb_format_t \<Rightarrow> uint8 \<Rightarrow> nat \<Rightarrow> nat \<Rightarrow> nat \<Rightarrow> eb_operation list
    \<Rightarrow> nat \<times> nat \<times> eb_operation list" where
  "scan_reads data rcfg fmt low_addr maxops rcount ops [] = (rcount, ops, [])"
| "scan_reads data rcfg fmt low_addr maxops rcount ops (scan # xs) =
     (if is_write_op scan \<or> cfg_of scan \<noteq> rcfg \<or> op_format scan \<noteq> fmt
         \<or> ucast (op_address scan) AND (data - 1) \<noteq> low_addr \<or> 255 \<le> rcount \<or> maxops \<le> ops
      then (rcount, ops, scan # xs)
      else scan_reads data rcfg fmt low_addr maxops (Suc rcount) (if rcfg = 0 then Suc ops else ops) xs)"

record write_plan =
  wp_count :: nat
  wp_fifo :: bool
  wp_cfg :: eb_operation_flags_t
  wp_format :: eb_format_t
  wp_low_addr :: uint8
  wp_ops :: nat
  wp_rest :: "eb_operation list"

definition no_writes :: "nat \<Rightarrow> eb_operation list \<Rightarrow> write_plan" where
  "no_writes ops xs = \<lparr>wp_count = 0, wp_fifo = False, wp_cfg = 0, wp_format = EB_DATAX,
     wp_low_addr = 0, wp_ops = ops, wp_rest = xs\<rparr>"

text \<open>How many writes can be chained after the first one, \<open>xs\<close> being the operations behind it: the
  number of writes of the record, whether it is a FIFO, \<^verbatim>\<open>ops\<close> and the rest.\<close>

definition chain_writes ::
  "eb_width_t \<Rightarrow> nat \<Rightarrow> eb_operation_flags_t \<Rightarrow> eb_address_t \<Rightarrow> eb_format_t \<Rightarrow> nat \<Rightarrow> eb_operation list
    \<Rightarrow> nat \<times> bool \<times> nat \<times> eb_operation list" where
  "chain_writes data maxops wcfg bwa fmt ops xs =
     (case xs of [] \<Rightarrow> (1, False, ops, xs)
      | scan # ys \<Rightarrow>
          if maxops \<le> ops \<or> \<not> is_write_op scan \<or> cfg_of scan \<noteq> wcfg \<or> op_format scan \<noteq> fmt
          then (1, False, ops, xs)
          else let ops' = (if wcfg = 0 then Suc ops else ops)
          in if op_address scan = bwa
             then let (n, ops, rest) = scan_fifo bwa wcfg fmt maxops 2 ops' ys in (n, True, ops, rest)
             else if op_address scan = bwa + ucast data
             then let (n, ops, rest) = scan_seq (ucast data) (bwa + ucast data) wcfg fmt maxops 2 ops' ys
                  in (n, False, ops, rest)
             else (1, False, ops, xs))"

definition plan_writes :: "eb_width_t \<Rightarrow> nat \<Rightarrow> nat \<Rightarrow> eb_operation list \<Rightarrow> write_plan" where
  "plan_writes data maxops ops xs =
     (case xs of [] \<Rightarrow> no_writes ops xs
      | scan # ys \<Rightarrow>
          if maxops \<le> ops \<or> \<not> is_write_op scan then no_writes ops xs
          else let wcfg = cfg_of scan;
                   (n, fifo, ops, rest) = chain_writes data maxops wcfg (op_address scan) (op_format scan)
                      (if wcfg = 0 then Suc ops else ops) ys
               in \<lparr>wp_count = n, wp_fifo = fifo, wp_cfg = wcfg, wp_format = op_format scan,
                   wp_low_addr = ucast (op_address scan) AND (data - 1), wp_ops = ops, wp_rest = rest\<rparr>)"

record rec_plan =
  rp_wcount :: nat
  rp_fifo :: bool
  rp_wcfg :: bool
  rp_rcount :: nat
  rp_rxcount :: nat   \<comment> \<open>\<^verbatim>\<open>rcount\<close>, or 1 for the read of the error flags\<close>
  rp_rcfg :: bool
  rp_format :: eb_format_t
  rp_low_addr :: uint8
  rp_ops :: nat
  rp_rest :: "eb_operation list"

text \<open>The reads that follow the writes \<open>w\<close>: their number, configuration flag, format, low address
  bits, \<^verbatim>\<open>ops\<close> and the rest.\<close>

definition plan_reads ::
  "eb_width_t \<Rightarrow> nat \<Rightarrow> write_plan
    \<Rightarrow> nat \<times> eb_operation_flags_t \<times> eb_format_t \<times> uint8 \<times> nat \<times> eb_operation list" where
  "plan_reads data maxops w =
     (let no_reads = (0, 0, wp_format w, wp_low_addr w, wp_ops w, wp_rest w)
      in case wp_rest w of [] \<Rightarrow> no_reads
      | scan # ys \<Rightarrow>
          let low = ucast (op_address scan) AND (data - 1); rcfg = cfg_of scan; fmt = op_format scan
          in if maxops \<le> wp_ops w \<or> is_write_op scan
                \<or> (wp_format w \<noteq> EB_DATAX \<and> (fmt \<noteq> wp_format w \<or> low \<noteq> wp_low_addr w))
             then no_reads
             else let (n, ops, rest) = scan_reads data rcfg fmt low maxops 1
                        (if rcfg = 0 then Suc (wp_ops w) else wp_ops w) ys
                  in (n, rcfg, fmt, low, ops, rest))"

definition plan_record :: "eb_width_t \<Rightarrow> bool \<Rightarrow> nat \<Rightarrow> nat \<Rightarrow> eb_operation list \<Rightarrow> rec_plan" where
  "plan_record data needs_check maxops ops xs =
     (let w = plan_writes data maxops ops xs;
          (rcount, rcfg, fmt, low_addr, ops, rest) = plan_reads data maxops w;
          readback = (rcount = 0 \<and> (fmt = EB_DATAX \<or> fmt = data)
                      \<and> (maxops \<le> ops \<or> (rest = [] \<and> needs_check \<and> 0 < ops)))
      in \<lparr>rp_wcount = wp_count w, rp_fifo = wp_fifo w, rp_wcfg = (wp_cfg w \<noteq> 0),
          rp_rcount = rcount, rp_rxcount = (if readback then 1 else rcount),
          rp_rcfg = (readback \<or> rcfg \<noteq> 0), rp_format = (if readback then data else fmt),
          rp_low_addr = low_addr, rp_ops = ops, rp_rest = rest\<rparr>)"

section \<open>The bytes of a record\<close>

text \<open>What a flush computes from the device and its transport before it starts.\<close>

record flush_ctx =
  fc_data :: eb_width_t
  fc_addr :: eb_width_t
  fc_alignment :: nat
  fc_record_alignment :: nat
  fc_header_alignment :: nat
  fc_mtu :: nat
  fc_eob :: nat

definition op_shift_of :: "eb_width_t \<Rightarrow> eb_format_t \<Rightarrow> uint8 \<Rightarrow> uint8" where
  "op_shift_of data fmt low_addr =
     (if fmt AND EB_ENDIAN_MASK = EB_BIG_ENDIAN then data - (low_addr + (fmt AND EB_DATAX)) else low_addr)"

definition record_select :: "eb_format_t \<Rightarrow> uint8 \<Rightarrow> uint8" where
  "record_select fmt op_shift = push_bit (unat op_shift) (drop_bit (8 - unat (fmt AND EB_DATAX)) 0xFF)"

definition record_header :: "flush_ctx \<Rightarrow> rec_plan \<Rightarrow> bool \<Rightarrow> uint8 \<Rightarrow> bytes" where
  "record_header c p cycle_end op_shift =
     [EB_RECORD_BCA OR EB_RECORD_RFF OR (if rp_rcfg p then EB_RECORD_RCA else 0)
        OR (if rp_wcfg p then EB_RECORD_WCA else 0) OR (if rp_fifo p then EB_RECORD_WFF else 0)
        OR (if cycle_end then EB_RECORD_CYC else 0),
      record_select (rp_format p) op_shift, word_of_nat (rp_wcount p), word_of_nat (rp_rxcount p)]
     @ replicate (fc_record_alignment c - 4) 0"

text \<open>\<open>xs\<close> are the operations from \<^verbatim>\<open>operationp\<close> on.\<close>

definition record_bytes :: "flush_ctx \<Rightarrow> uint16 \<Rightarrow> rec_plan \<Rightarrow> bool \<Rightarrow> eb_operation list \<Rightarrow> bytes" where
  "record_bytes c rba p cycle_end xs =
     (let op_shift = op_shift_of (fc_data c) (rp_format p) (rp_low_addr p);
          word = (\<lambda>v. EB_mWRITE v (fc_alignment c));
          writes = take (rp_wcount p) xs;
          reads = take (rp_rcount p) (drop (rp_wcount p) xs)
      in record_header c p cycle_end op_shift
         @ (if rp_wcount p > 0
            then word (op_address (hd xs))
                 @ concat (map (\<lambda>op. word (push_bit (8 * unat op_shift) (op_value op))) writes)
            else [])
         @ (if rp_rxcount p \<noteq> rp_rcount p
            then word (ucast rba OR 1) @ word (8 - ucast (fc_data c))
            else [])
         @ (if rp_rcount p > 0
            then word (ucast rba) @ concat (map (\<lambda>op. word (op_address op)) reads)
            else []))"

definition record_length :: "flush_ctx \<Rightarrow> rec_plan \<Rightarrow> nat" where
  "record_length c p =
     fc_record_alignment c
     + ((if rp_wcount p > 0 then 1 else 0) + rp_wcount p + (if rp_rxcount p > 0 then 1 else 0) + rp_rxcount p)
       * fc_alignment c"

section \<open>The packet buffer\<close>

record 'w flush_st =
  fl_buf :: bytes
  fl_cptr :: nat
  fl_has_reads :: bool
  fl_completed :: int
  fl_state :: "'w eb_state"

definition eb_send :: "'w eb_env \<Rightarrow> eb_ptr \<Rightarrow> bytes \<Rightarrow> 'w eb_state \<Rightarrow> 'w eb_state" where
  "eb_send E devicep buf s =
     (let d = heap_device s devicep;
          transport = heap_transport s (dev_transport d);
          (l, w) = tops_send (env_transports E (tra_link_type transport)) transport
                     (Some (heap_link s (dev_link d))) buf (os s);
          s = s\<lparr>os := w\<rparr>
      in case l of Some l \<Rightarrow> upd_link (dev_link d) (\<lambda>_. l) s | None \<Rightarrow> s)"

definition eb_send_buffer :: "'w eb_env \<Rightarrow> eb_ptr \<Rightarrow> bool \<Rightarrow> 'w eb_state \<Rightarrow> 'w eb_state" where
  "eb_send_buffer E devicep on s =
     (let d = heap_device s devicep;
          transport = heap_transport s (dev_transport d);
          (l, w) = tops_send_buffer (env_transports E (tra_link_type transport)) transport
                     (Some (heap_link s (dev_link d))) on (os s);
          s = s\<lparr>os := w\<rparr>
      in case l of Some l \<Rightarrow> upd_link (dev_link d) (\<lambda>_. l) s | None \<Rightarrow> s)"

text \<open>\<^verbatim>\<open>if (has_reads == 0) buffer[2] |= EB_HEADER_NR\<close>\<close>

definition flag_no_reads :: "bool \<Rightarrow> bytes \<Rightarrow> bytes" where
  "flag_no_reads has_reads buf = (if has_reads then buf else buf[2 := buf ! 2 OR EB_HEADER_NR])"

text \<open>Room for a record of \<open>len\<close> bytes. The boolean is false when the cycle overflows the packet.\<close>

definition flush_space :: "'w eb_env \<Rightarrow> flush_ctx \<Rightarrow> eb_ptr \<Rightarrow> nat \<Rightarrow> 'w flush_st \<Rightarrow> bool \<times> 'w flush_st" where
  "flush_space E c devicep len st =
     (if length (fl_buf st) + len \<le> fc_eob c then (True, st)
      else if fc_mtu c = 0
      then (True, st\<lparr>fl_buf := [], fl_state := eb_send E devicep (fl_buf st) (fl_state st)\<rparr>)
      else let st = (if fl_cptr st \<noteq> fc_header_alignment c
                     then let buf = flag_no_reads (fl_has_reads st) (fl_buf st)
                          in st\<lparr>fl_has_reads := False,
                                fl_state := eb_send E devicep (take (fl_cptr st) buf) (fl_state st),
                                fl_buf := take (fc_header_alignment c) buf @ drop (fl_cptr st) buf,
                                fl_cptr := fc_header_alignment c\<rparr>
                     else st)
           in if length (fl_buf st) + len \<le> fc_eob c then (True, st)
              else (False, st\<lparr>fl_buf := take (fc_header_alignment c) (fl_buf st)\<rparr>))"

section \<open>The records of a cycle\<close>

definition ops_at :: "'w eb_state \<Rightarrow> eb_ptr list \<Rightarrow> eb_operation list" where
  "ops_at s ps = map (heap_operation s) ps"

text \<open>One round of the loop \<^verbatim>\<open>while (!cycle_end)\<close>; \<open>ps\<close> are the operations from \<^verbatim>\<open>operationp\<close> on. \<open>None\<close>
  is the overflow. The result holds \<^verbatim>\<open>cycle_end\<close>, \<^verbatim>\<open>ops\<close>, \<^verbatim>\<open>readback\<close> and the remaining operations.\<close>

definition flush_record ::
  "'w eb_env \<Rightarrow> flush_ctx \<Rightarrow> eb_ptr \<Rightarrow> uint16 \<Rightarrow> bool \<Rightarrow> nat \<Rightarrow> nat \<Rightarrow> bool \<Rightarrow> eb_ptr list \<Rightarrow> 'w flush_st
    \<Rightarrow> (bool \<times> nat \<times> bool \<times> eb_ptr list) option \<times> 'w flush_st" where
  "flush_record E c devicep rba needs_check maxops ops readback ps st =
     (let xs = ops_at (fl_state st) ps;
          p = plan_record (fc_data c) needs_check maxops ops xs;
          (ok, st) = flush_space E c devicep (record_length c p) st
      in if \<not> ok then (None, st)
         else let cycle_end = (rp_rest p = [] \<and> (\<not> needs_check \<or> rp_ops p = 0 \<or> rp_rxcount p \<noteq> rp_rcount p));
                  st = st\<lparr>fl_has_reads := fl_has_reads st \<or> rp_rxcount p > 0,
                          fl_buf := fl_buf st @ record_bytes c rba p cycle_end xs\<rparr>
              in (Some (cycle_end,
                        (if rp_rxcount p \<noteq> rp_rcount p then 0 else rp_ops p),
                        readback \<or> rp_rxcount p \<noteq> rp_rcount p \<or> rp_rcount p > 0,
                        drop (rp_wcount p + rp_rcount p) ps), st))"

text \<open>The loop. The result is \<^verbatim>\<open>readback\<close>, or the operation at which the cycle overflowed.\<close>

partial_function (option) flush_records ::
  "'w eb_env \<Rightarrow> flush_ctx \<Rightarrow> eb_ptr \<Rightarrow> uint16 \<Rightarrow> bool \<Rightarrow> nat \<Rightarrow> nat \<Rightarrow> bool \<Rightarrow> eb_ptr list \<Rightarrow> 'w flush_st
    \<Rightarrow> ((eb_ptr + bool) \<times> 'w flush_st) option" where
  "flush_records E c devicep rba needs_check maxops ops readback ps st =
     (case flush_record E c devicep rba needs_check maxops ops readback ps st of
        (None, st) \<Rightarrow> Some (Inl (case ps of [] \<Rightarrow> EB_NULL | p # _ \<Rightarrow> p), st)
      | (Some (cycle_end, ops, readback, ps), st) \<Rightarrow>
          if cycle_end then Some (Inr readback, st)
          else flush_records E c devicep rba needs_check maxops ops readback ps st)"

section \<open>The cycles\<close>

definition cycle_callback :: "'w eb_env \<Rightarrow> eb_ptr \<Rightarrow> eb_ptr \<Rightarrow> eb_status_t \<Rightarrow> 'w eb_state \<Rightarrow> 'w eb_state option" where
  "cycle_callback E cyclep operationp status s =
     (let c = heap_cycle s cyclep
      in run_callback E (cyc_callback c) (cyc_user_data c) (cyc_link c) operationp status s)"

text \<open>Report, then free the cycle with its operations.\<close>

definition finish_cycle :: "'w eb_env \<Rightarrow> eb_ptr \<Rightarrow> eb_ptr \<Rightarrow> eb_status_t \<Rightarrow> 'w eb_state \<Rightarrow> 'w eb_state option" where
  "finish_cycle E cyclep operationp status s =
     do { s \<leftarrow> cycle_callback E cyclep operationp status s;
          s \<leftarrow> eb_cycle_destroy cyclep s;
          Some (eb_free_cycle cyclep s) }"

text \<open>The response record that waits for the answers, appended to the queue of the socket.\<close>

definition queue_response ::
  "eb_ptr \<Rightarrow> eb_ptr \<Rightarrow> eb_ptr \<Rightarrow> bool \<Rightarrow> 'w eb_state \<Rightarrow> 'w eb_state option" where
  "queue_response socketp responsep cyclep needs_check s =
     do { let auxp = sock_aux (heap_socket s socketp);
          let aux = heap_socket_aux s auxp;
          let first_op = cyc_ops (heap_cycle s cyclep);
          write_cursor \<leftarrow> eb_find_read first_op s;
          status_cursor \<leftarrow> (if needs_check then eb_find_bus first_op s else Some EB_NULL);
          let s = upd_response responsep (\<lambda>r. r\<lparr>res_deadline := ucast (aux_time_cache aux + 5),
                    res_cycle := cyclep, res_write_cursor := write_cursor,
                    res_status_cursor := status_cursor, res_address := aux_rba aux,
                    res_next := sock_last_response (heap_socket s socketp)\<rparr>) s;
          let s = upd_socket_aux auxp (\<lambda>a. a\<lparr>aux_rba := 0x8000 OR (aux_rba a + 2)\<rparr>) s;
          Some (upd_socket socketp (\<lambda>k. k\<lparr>sock_last_response := responsep\<rparr>) s) }"

text \<open>What follows the records: the cycle overflowed at \<open>Inl operationp\<close>, or it is written completely
  and \<open>Inr readback\<close> tells whether an answer will come.\<close>

definition flush_finish ::
  "'w eb_env \<Rightarrow> eb_ptr \<Rightarrow> eb_ptr \<Rightarrow> eb_ptr \<Rightarrow> bool \<Rightarrow> eb_ptr + bool \<Rightarrow> 'w flush_st \<Rightarrow> 'w flush_st option" where
  "flush_finish E socketp cyclep responsep needs_check r st =
     (case r of
        Inl operationp \<Rightarrow>
          do { s \<leftarrow> finish_cycle E cyclep operationp EB_OVERFLOW (fl_state st);
               Some (st\<lparr>fl_completed := fl_completed st + 1, fl_state := eb_free_response responsep s\<rparr>) }
      | Inr readback \<Rightarrow>
          if \<not> readback
          then do { s \<leftarrow> finish_cycle E cyclep (cyc_ops (heap_cycle (fl_state st) cyclep)) EB_OK (fl_state st);
                    Some (st\<lparr>fl_completed := fl_completed st + 1, fl_state := eb_free_response responsep s,
                             fl_cptr := length (fl_buf st)\<rparr>) }
          else do { s \<leftarrow> queue_response socketp responsep cyclep needs_check (fl_state st);
                    Some (st\<lparr>fl_state := s, fl_cptr := length (fl_buf st)\<rparr>) })"

text \<open>A cycle that passed the checks, with its response record allocated.\<close>

definition flush_good_cycle ::
  "'w eb_env \<Rightarrow> flush_ctx \<Rightarrow> eb_ptr \<Rightarrow> eb_ptr \<Rightarrow> eb_ptr \<Rightarrow> 'w flush_st \<Rightarrow> 'w flush_st option" where
  "flush_good_cycle E c devicep cyclep responsep st =
     do { let s = fl_state st;
          let socketp = dev_socket (heap_device s devicep);
          let rba = aux_rba (heap_socket_aux s (sock_aux (heap_socket s socketp)));
          let first_op = cyc_ops (heap_cycle s cyclep);
          let needs_check = (op_flags (heap_operation s first_op) AND EB_OP_CHECKED \<noteq> 0);
          let maxops = (if needs_check then unat (fc_data c) * 8 else 2 ^ 32 - 1);
          ps \<leftarrow> walk (\<lambda>p. op_next (heap_operation s p)) EB_NULL first_op;
          (r, st) \<leftarrow> flush_records E c devicep rba needs_check maxops 0 False ps st;
          flush_finish E socketp cyclep responsep needs_check r st }"

definition flush_cycle ::
  "'w eb_env \<Rightarrow> flush_ctx \<Rightarrow> eb_ptr \<Rightarrow> eb_ptr \<Rightarrow> 'w flush_st \<Rightarrow> 'w flush_st option" where
  "flush_cycle E c devicep cyclep st =
     do { let s = upd_cycle cyclep (\<lambda>k. k\<lparr>cyc_link := devicep\<rparr>) (fl_state st);
          let finished = (\<lambda>s. Some (st\<lparr>fl_completed := fl_completed st + 1, fl_state := s\<rparr>));
          let first_op = cyc_ops (heap_cycle s cyclep);
          let address_mask = drop_bit ((8 - unat (fc_addr c)) * 8) (- 1);
          if first_op = cyclep
          then do { s \<leftarrow> cycle_callback E cyclep EB_NULL EB_OOM s; finished (eb_free_cycle cyclep s) }
          else if first_op = EB_NULL
          then do { s \<leftarrow> cycle_callback E cyclep EB_NULL EB_OK s; finished (eb_free_cycle cyclep s) }
          else do { (operationp, reason, s) \<leftarrow> flush_check (fc_data c) address_mask first_op s;
                    if operationp \<noteq> EB_NULL
                    then do { s \<leftarrow> finish_cycle E cyclep operationp reason s; finished s }
                    else let (responsep, s) = eb_new_response E s in
                    if responsep = EB_NULL
                    then do { s \<leftarrow> finish_cycle E cyclep EB_NULL EB_OOM s; finished s }
                    else flush_good_cycle E c devicep cyclep responsep (st\<lparr>fl_state := s\<rparr>) } }"

partial_function (option) flush_cycles ::
  "'w eb_env \<Rightarrow> flush_ctx \<Rightarrow> eb_ptr \<Rightarrow> eb_ptr \<Rightarrow> 'w flush_st \<Rightarrow> 'w flush_st option" where
  "flush_cycles E c devicep cyclep st =
     (if cyclep = EB_NULL then Some st
      else let nextp = cyc_link (heap_cycle (fl_state st) cyclep)
           in do { st \<leftarrow> flush_cycle E c devicep cyclep st; flush_cycles E c devicep nextp st })"

section \<open>eb\_device\_flush\<close>

definition flush_context :: "eb_width_t \<Rightarrow> int \<Rightarrow> flush_ctx" where
  "flush_context width mtu =
     (let data = width AND EB_DATAX; addr = drop_bit 4 width; biggest = addr OR data
      in \<lparr>fc_data = data, fc_addr = addr, fc_alignment = eb_alignment biggest,
          fc_record_alignment = eb_record_alignment biggest, fc_header_alignment = eb_record_alignment biggest,
          fc_mtu = nat mtu, fc_eob = (if mtu \<noteq> 0 then nat mtu else BUFFER_SIZE)\<rparr>)"

definition packet_header :: "flush_ctx \<Rightarrow> eb_width_t \<Rightarrow> bytes" where
  "packet_header c width = [0x4E, 0x6F, 0x10, width] @ replicate (fc_header_alignment c - 4) 0"

definition flush_start :: "flush_ctx \<Rightarrow> eb_width_t \<Rightarrow> 'w eb_state \<Rightarrow> 'w flush_st" where
  "flush_start c width s =
     \<lparr>fl_buf = (if fc_mtu c \<noteq> 0 then packet_header c width else []),
      fl_cptr = (if fc_mtu c \<noteq> 0 then fc_header_alignment c else 0),
      fl_has_reads = False, fl_completed = 0, fl_state = s\<rparr>"

definition flush_end :: "'w eb_env \<Rightarrow> flush_ctx \<Rightarrow> eb_ptr \<Rightarrow> 'w flush_st \<Rightarrow> 'w eb_state" where
  "flush_end E c devicep st =
     (let s = fl_state st;
          s = (if fc_mtu c = 0
               then if fl_buf st \<noteq> [] then eb_send E devicep (fl_buf st) s else s
               else if length (fl_buf st) \<noteq> fc_header_alignment c
                    then eb_send E devicep (flag_no_reads (fl_has_reads st) (fl_buf st)) s else s);
          s = eb_send_buffer E devicep False s
      in upd_device devicep (\<lambda>d. d\<lparr>dev_ready := EB_NULL\<rparr>) s)"

text \<open>The result is the status, what is added to \<^verbatim>\<open>*completed\<close>, and the state.\<close>

definition eb_device_flush :: "'w eb_env \<Rightarrow> eb_ptr \<Rightarrow> 'w eb_state \<Rightarrow> (eb_status_t \<times> int \<times> 'w eb_state) option" where
  "eb_device_flush E devicep s =
     (let d = heap_device s devicep in
      if dev_link d = EB_NULL then Some (EB_FAIL, 0, s)
      else do { let mtu = tops_mtu (env_transports E (tra_link_type (heap_transport s (dev_transport d))));
                let c = flush_context (dev_widths d) mtu;
                let s = eb_send_buffer E devicep True s;
                (h, prevp) \<leftarrow> rev_links cyc_link (\<lambda>v. cyc_link_update (\<lambda>_. v)) EB_NULL
                               (heap_cycle s) EB_NULL (dev_ready (heap_device s devicep));
                let s = s\<lparr>heap_cycle := h\<rparr>;
                st \<leftarrow> flush_cycles E c devicep prevp (flush_start c (dev_widths d) s);
                Some (EB_OK, fl_completed st, flush_end E c devicep st) })"

section \<open>Lemmas on plans\<close>

text \<open>Each scan takes a prefix of operations that agree with the first one and leaves the rest.\<close>

lemma scan_fifo_take:
  assumes "scan_fifo bwa wcfg fmt maxops n ops xs = (n', ops', rest)" and "n \<le> 255"
  obtains k where "n' = n + k" "k \<le> length xs" "rest = drop k xs" "n' \<le> 255"
    "\<forall>x \<in> set (take k xs). op_address x = bwa \<and> is_write_op x \<and> cfg_of x = wcfg \<and> op_format x = fmt"
  using assms
proof (induction xs arbitrary: n ops thesis)
  case Nil
  then show ?case by simp
next
  case (Cons x xs)
  show ?case
  proof (cases "op_address x \<noteq> bwa \<or> \<not> is_write_op x \<or> cfg_of x \<noteq> wcfg \<or> op_format x \<noteq> fmt
      \<or> 255 \<le> n \<or> maxops \<le> ops")
    case True
    with Cons.prems show ?thesis by (intro Cons.prems(1) [of 0]) auto
  next
    case False
    then have *: "scan_fifo bwa wcfg fmt maxops (Suc n) (if wcfg = 0 then Suc ops else ops) xs = (n', ops', rest)"
      "Suc n \<le> 255"
      using Cons.prems(2) by simp_all
    show ?thesis
    proof (rule Cons.IH [OF _ *])
      fix k
      assume "n' = Suc n + k" "k \<le> length xs" "rest = drop k xs" "n' \<le> 255"
        "\<forall>x \<in> set (take k xs). op_address x = bwa \<and> is_write_op x \<and> cfg_of x = wcfg \<and> op_format x = fmt"
      with False show thesis by (intro Cons.prems(1) [of "Suc k"]) auto
    qed
  qed
qed

lemma scan_seq_take:
  assumes "scan_seq stride bwa wcfg fmt maxops n ops xs = (n', ops', rest)" and "n \<le> 255"
  obtains k where "n' = n + k" "k \<le> length xs" "rest = drop k xs" "n' \<le> 255"
    "\<forall>x \<in> set (take k xs). is_write_op x \<and> cfg_of x = wcfg \<and> op_format x = fmt"
    "\<forall>i < k. op_address (xs ! i) = bwa + of_nat (Suc i) * stride"
  using assms
proof (induction xs arbitrary: bwa n ops thesis)
  case Nil
  then show ?case by simp
next
  case (Cons x xs)
  show ?case
  proof (cases "op_address x \<noteq> bwa + stride \<or> \<not> is_write_op x \<or> cfg_of x \<noteq> wcfg \<or> op_format x \<noteq> fmt
      \<or> 255 \<le> n \<or> maxops \<le> ops")
    case True
    with Cons.prems show ?thesis by (intro Cons.prems(1) [of 0]) auto
  next
    case False
    then have *: "scan_seq stride (bwa + stride) wcfg fmt maxops (Suc n) (if wcfg = 0 then Suc ops else ops) xs
        = (n', ops', rest)" "Suc n \<le> 255"
      using Cons.prems(2) by simp_all
    show ?thesis
    proof (rule Cons.IH [OF _ *])
      fix k
      assume k: "n' = Suc n + k" "k \<le> length xs" "rest = drop k xs" "n' \<le> 255"
        "\<forall>x\<in>set (take k xs). is_write_op x \<and> cfg_of x = wcfg \<and> op_format x = fmt"
        "\<forall>i<k. op_address (xs ! i) = bwa + stride + of_nat (Suc i) * stride"
      show thesis
      proof (rule Cons.prems(1) [of "Suc k"])
        show "\<forall>i<Suc k. op_address ((x # xs) ! i) = bwa + of_nat (Suc i) * stride"
        proof (intro allI impI)
          fix i
          assume "i < Suc k"
          then show "op_address ((x # xs) ! i) = bwa + of_nat (Suc i) * stride"
            using k(6) False by (cases i) (auto simp: algebra_simps)
        qed
      qed (use k False in auto)
    qed
  qed
qed

lemma scan_reads_take:
  assumes "scan_reads data rcfg fmt low maxops n ops xs = (n', ops', rest)" and "n \<le> 255"
  obtains k where "n' = n + k" "k \<le> length xs" "rest = drop k xs" "n' \<le> 255"
    "\<forall>x \<in> set (take k xs). \<not> is_write_op x \<and> cfg_of x = rcfg \<and> op_format x = fmt
       \<and> ucast (op_address x) AND (data - 1) = low"
  using assms
proof (induction xs arbitrary: n ops thesis)
  case Nil
  then show ?case by simp
next
  case (Cons x xs)
  show ?case
  proof (cases "is_write_op x \<or> cfg_of x \<noteq> rcfg \<or> op_format x \<noteq> fmt
      \<or> ucast (op_address x) AND (data - 1) \<noteq> low \<or> 255 \<le> n \<or> maxops \<le> ops")
    case True
    with Cons.prems show ?thesis by (intro Cons.prems(1) [of 0]) auto
  next
    case False
    then have *: "scan_reads data rcfg fmt low maxops (Suc n) (if rcfg = 0 then Suc ops else ops) xs = (n', ops', rest)"
      "Suc n \<le> 255"
      using Cons.prems(2) by simp_all
    show ?thesis
    proof (rule Cons.IH [OF _ *])
      fix k
      assume "n' = Suc n + k" "k \<le> length xs" "rest = drop k xs" "n' \<le> 255"
        "\<forall>x \<in> set (take k xs). \<not> is_write_op x \<and> cfg_of x = rcfg \<and> op_format x = fmt
       \<and> ucast (op_address x) AND (data - 1) = low"
      with False show thesis by (intro Cons.prems(1) [of "Suc k"]) auto
    qed
  qed
qed

lemma chain_writes_take:
  assumes "chain_writes data maxops wcfg bwa fmt ops xs = (n, fifo, ops', rest)"
  obtains k where "n = Suc k" "k \<le> length xs" "rest = drop k xs" "n \<le> 255"
    "\<forall>x \<in> set (take k xs). is_write_op x \<and> cfg_of x = wcfg \<and> op_format x = fmt"
    "\<forall>i < k. op_address (xs ! i) = (if fifo then bwa else bwa + of_nat (Suc i) * ucast data)"
proof (cases "\<exists>scan ys. xs = scan # ys \<and> \<not> (maxops \<le> ops \<or> \<not> is_write_op scan \<or> cfg_of scan \<noteq> wcfg
    \<or> op_format scan \<noteq> fmt) \<and> (op_address scan = bwa \<or> op_address scan = bwa + ucast data)")
  case False
  then have "chain_writes data maxops wcfg bwa fmt ops xs = (1, False, ops, xs)"
  proof (cases xs)
    case Nil
    then show ?thesis by (simp add: chain_writes_def)
  next
    case (Cons a ys)
    with False have "maxops \<le> ops \<or> \<not> is_write_op a \<or> cfg_of a \<noteq> wcfg \<or> op_format a \<noteq> fmt
        \<or> (op_address a \<noteq> bwa \<and> op_address a \<noteq> bwa + ucast data)" by blast
    then show ?thesis by (elim disjE) (simp_all add: chain_writes_def Cons)
  qed
  with assms have "n = 1" "rest = xs" by simp_all
  then show thesis by (intro that [of 0]) auto
next
  case True
  then obtain scan ys where xs: "xs = scan # ys" and ok: "\<not> maxops \<le> ops" "is_write_op scan"
    "cfg_of scan = wcfg" "op_format scan = fmt"
    and addr: "op_address scan = bwa \<or> op_address scan = bwa + ucast data" by auto
  let ?ops = "if wcfg = 0 then Suc ops else ops"
  show thesis
  proof (cases "op_address scan = bwa")
    case True
    then have "scan_fifo bwa wcfg fmt maxops 2 ?ops ys = (n, ops', rest)" "fifo"
      using assms ok xs by (auto simp: chain_writes_def Let_def split: prod.splits)
    then obtain k where k: "n = 2 + k" "k \<le> length ys" "rest = drop k ys" "n \<le> 255"
      "\<forall>x \<in> set (take k ys). op_address x = bwa \<and> is_write_op x \<and> cfg_of x = wcfg \<and> op_format x = fmt"
      by (elim scan_fifo_take) auto
    have "op_address ((scan # ys) ! i) = bwa" if "i < Suc k" for i
      using that k(5) True nth_in_set_take [OF _ k(2)] by (cases i) simp_all
    with k ok xs \<open>fifo\<close> show thesis by (intro that [of "Suc k"]) auto
  next
    case False
    with addr have a: "op_address scan = bwa + ucast data" by simp
    with False have "scan_seq (ucast data) (bwa + ucast data) wcfg fmt maxops 2 ?ops ys = (n, ops', rest)" "\<not> fifo"
      using assms ok xs by (auto simp: chain_writes_def Let_def split: prod.splits)
    then obtain k where k: "n = 2 + k" "k \<le> length ys" "rest = drop k ys" "n \<le> 255"
      "\<forall>x \<in> set (take k ys). is_write_op x \<and> cfg_of x = wcfg \<and> op_format x = fmt"
      "\<forall>i < k. op_address (ys ! i) = bwa + ucast data + of_nat (Suc i) * ucast data"
      by (elim scan_seq_take) auto
    have "op_address ((scan # ys) ! i) = bwa + of_nat (Suc i) * ucast data" if "i < Suc k" for i
      using that k(6) a by (cases i) (auto simp: algebra_simps)
    with k ok xs \<open>\<not> fifo\<close> show thesis by (intro that [of "Suc k"]) auto
  qed
qed

text \<open>The writes of a plan: a prefix of writes with the same format and address space, at one address
  or at addresses that advance by the data width.\<close>

lemma plan_writes_take:
  assumes "w = plan_writes data maxops ops xs"
  shows "wp_count w \<le> length xs" and "wp_rest w = drop (wp_count w) xs" and "wp_count w \<le> 255"
    and "\<forall>x \<in> set (take (wp_count w) xs). is_write_op x \<and> cfg_of x = wp_cfg w \<and> op_format x = wp_format w"
    and "\<forall>i < wp_count w. op_address (xs ! i) =
      (if wp_fifo w then op_address (hd xs) else op_address (hd xs) + of_nat i * ucast data)"
    and "0 < wp_count w \<Longrightarrow> wp_low_addr w = ucast (op_address (hd xs)) AND (data - 1)"
    and "wp_count w = 0 \<Longrightarrow> w = no_writes ops xs \<and> (maxops \<le> ops \<or> xs = [] \<or> \<not> is_write_op (hd xs))"
proof -
  have "wp_count w \<le> length xs \<and> wp_rest w = drop (wp_count w) xs \<and> wp_count w \<le> 255
    \<and> (\<forall>x \<in> set (take (wp_count w) xs). is_write_op x \<and> cfg_of x = wp_cfg w \<and> op_format x = wp_format w)
    \<and> (\<forall>i < wp_count w. op_address (xs ! i) =
      (if wp_fifo w then op_address (hd xs) else op_address (hd xs) + of_nat i * ucast data))
    \<and> (0 < wp_count w \<longrightarrow> wp_low_addr w = ucast (op_address (hd xs)) AND (data - 1))
    \<and> (wp_count w = 0 \<longrightarrow> w = no_writes ops xs \<and> (maxops \<le> ops \<or> xs = [] \<or> \<not> is_write_op (hd xs)))"
  proof (cases "xs = [] \<or> maxops \<le> ops \<or> \<not> is_write_op (hd xs)")
    case True
    then have "w = no_writes ops xs" using assms by (cases xs) (auto simp: plan_writes_def)
    with True show ?thesis by (auto simp: no_writes_def)
  next
    case False
    then obtain x ys where xs: "xs = x # ys" and x: "\<not> maxops \<le> ops" "is_write_op x" by (cases xs) auto
    obtain n fifo ops' rest where c: "chain_writes data maxops (cfg_of x) (op_address x) (op_format x)
        (if cfg_of x = 0 then Suc ops else ops) ys = (n, fifo, ops', rest)"
      by (metis prod_cases4)
    have w: "w = \<lparr>wp_count = n, wp_fifo = fifo, wp_cfg = cfg_of x, wp_format = op_format x,
                   wp_low_addr = ucast (op_address x) AND (data - 1), wp_ops = ops', wp_rest = rest\<rparr>"
      using x by (simp add: assms plan_writes_def xs c Let_def)
    from c obtain k where k: "n = Suc k" "k \<le> length ys" "rest = drop k ys" "n \<le> 255"
      "\<forall>y \<in> set (take k ys). is_write_op y \<and> cfg_of y = cfg_of x \<and> op_format y = op_format x"
      "\<forall>i < k. op_address (ys ! i) = (if fifo then op_address x else op_address x + of_nat (Suc i) * ucast data)"
      by (rule chain_writes_take)
    have "op_address ((x # ys) ! i) = (if fifo then op_address x else op_address x + of_nat i * ucast data)"
      if "i < Suc k" for i
      using that k(6) by (cases i) auto
    with k x show ?thesis by (auto simp: w xs)
  qed
  then show "wp_count w \<le> length xs" "wp_rest w = drop (wp_count w) xs" "wp_count w \<le> 255"
    "\<forall>x \<in> set (take (wp_count w) xs). is_write_op x \<and> cfg_of x = wp_cfg w \<and> op_format x = wp_format w"
    "\<forall>i < wp_count w. op_address (xs ! i) =
      (if wp_fifo w then op_address (hd xs) else op_address (hd xs) + of_nat i * ucast data)"
    "0 < wp_count w \<Longrightarrow> wp_low_addr w = ucast (op_address (hd xs)) AND (data - 1)"
    "wp_count w = 0 \<Longrightarrow> w = no_writes ops xs \<and> (maxops \<le> ops \<or> xs = [] \<or> \<not> is_write_op (hd xs))"
    by blast+
qed

lemma plan_reads_take:
  assumes "plan_reads data maxops w = (n, rcfg, fmt, low, ops', rest)"
  shows "n \<le> length (wp_rest w) \<and> rest = drop n (wp_rest w) \<and> n \<le> 255
    \<and> (\<forall>x \<in> set (take n (wp_rest w)). \<not> is_write_op x \<and> cfg_of x = rcfg \<and> op_format x = fmt
        \<and> ucast (op_address x) AND (data - 1) = low)
    \<and> (n = 0 \<longrightarrow> fmt = wp_format w \<and> low = wp_low_addr w \<and> ops' = wp_ops w \<and> rcfg = 0)
    \<and> (0 < n \<and> wp_format w \<noteq> EB_DATAX \<longrightarrow> fmt = wp_format w \<and> low = wp_low_addr w)
    \<and> (n = 0 \<and> wp_rest w \<noteq> [] \<and> \<not> maxops \<le> wp_ops w \<and> wp_format w = EB_DATAX \<longrightarrow> is_write_op (hd (wp_rest w)))"
proof (cases "wp_rest w")
  case Nil
  with assms show ?thesis by (auto simp: plan_reads_def)
next
  case (Cons scan ys)
  let ?low = "ucast (op_address scan) AND (data - 1)"
  show ?thesis
  proof (cases "maxops \<le> wp_ops w \<or> is_write_op scan
      \<or> (wp_format w \<noteq> EB_DATAX \<and> (op_format scan \<noteq> wp_format w \<or> ?low \<noteq> wp_low_addr w))")
    case True
    then have "plan_reads data maxops w = (0, 0, wp_format w, wp_low_addr w, wp_ops w, wp_rest w)"
      by (simp add: plan_reads_def Cons Let_def)
    with assms have "n = 0" "rcfg = 0" "fmt = wp_format w" "low = wp_low_addr w" "ops' = wp_ops w"
      "rest = wp_rest w" by simp_all
    with True Cons show ?thesis by auto
  next
    case False
    obtain m o' r where sc: "scan_reads data (cfg_of scan) (op_format scan) ?low maxops 1
        (if cfg_of scan = 0 then Suc (wp_ops w) else wp_ops w) ys = (m, o', r)"
      by (metis prod_cases3)
    have eq: "n = m" "rcfg = cfg_of scan" "fmt = op_format scan" "low = ?low" "rest = r"
      using assms False unfolding plan_reads_def Cons Let_def list.case if_not_P [OF False] sc prod.case
      by simp_all
    from sc obtain k where k: "m = 1 + k" "k \<le> length ys" "r = drop k ys" "m \<le> 255"
      "\<forall>x \<in> set (take k ys). \<not> is_write_op x \<and> cfg_of x = cfg_of scan \<and> op_format x = op_format scan
         \<and> ucast (op_address x) AND (data - 1) = ?low"
      by (rule scan_reads_take) auto
    show ?thesis unfolding eq Cons using k False by auto
  qed
qed

lemma plan_record_parts:
  assumes "p = plan_record data needs_check maxops ops xs" and "w = plan_writes data maxops ops xs"
  obtains n rcfg fmt low o' rest rb where "plan_reads data maxops w = (n, rcfg, fmt, low, o', rest)"
    "rb \<longleftrightarrow> n = 0 \<and> (fmt = EB_DATAX \<or> fmt = data) \<and> (maxops \<le> o' \<or> (rest = [] \<and> needs_check \<and> 0 < o'))"
    "rp_wcount p = wp_count w" "rp_fifo p = wp_fifo w" "rp_wcfg p = (wp_cfg w \<noteq> 0)"
    "rp_rcount p = n" "rp_rxcount p = (if rb then 1 else n)" "rp_rcfg p = (rb \<or> rcfg \<noteq> 0)"
    "rp_format p = (if rb then data else fmt)" "rp_low_addr p = low" "rp_ops p = o'" "rp_rest p = rest"
proof -
  obtain n rcfg fmt low o' rest where r: "plan_reads data maxops w = (n, rcfg, fmt, low, o', rest)"
    by (metis prod_cases6)
  then show thesis
    using assms by (intro that [OF r refl]) (simp_all add: plan_record_def Let_def)
qed

text \<open>What a plan takes from the operations \<open>xs\<close> it was made for. A record without writes and reads
  is planned only when there is nothing left or the error flags must be fetched first.\<close>

lemma plan_record_counts:
  assumes p: "p = plan_record data needs_check maxops ops xs"
  shows "rp_wcount p + rp_rcount p \<le> length xs"
    and "rp_rest p = drop (rp_wcount p + rp_rcount p) xs"
    and "rp_wcount p \<le> 255" and "rp_rcount p \<le> 255" and "rp_rxcount p \<le> 255"
    and "rp_rxcount p \<noteq> rp_rcount p \<Longrightarrow> rp_rcount p = 0 \<and> rp_rxcount p = 1 \<and> rp_rcfg p \<and> rp_format p = data"
    and "rp_wcount p + rp_rcount p = 0 \<Longrightarrow> xs = [] \<or> maxops \<le> ops"
    and "rp_wcount p + rp_rcount p = 0 \<Longrightarrow> maxops \<le> ops \<Longrightarrow> rp_rxcount p \<noteq> rp_rcount p"
    and "rp_wcount p + rp_rcount p = 0 \<Longrightarrow> rp_ops p = ops \<and> rp_low_addr p = 0"
    and "xs = [] \<Longrightarrow> needs_check \<Longrightarrow> 0 < ops \<Longrightarrow> rp_rxcount p \<noteq> rp_rcount p"
proof -
  define w where "w = plan_writes data maxops ops xs"
  obtain n rcfg fmt low o' rest rb where r: "plan_reads data maxops w = (n, rcfg, fmt, low, o', rest)"
    and rb: "rb \<longleftrightarrow> n = 0 \<and> (fmt = EB_DATAX \<or> fmt = data) \<and> (maxops \<le> o' \<or> (rest = [] \<and> needs_check \<and> 0 < o'))"
    and f: "rp_wcount p = wp_count w" "rp_fifo p = wp_fifo w" "rp_wcfg p = (wp_cfg w \<noteq> 0)"
    "rp_rcount p = n" "rp_rxcount p = (if rb then 1 else n)" "rp_rcfg p = (rb \<or> rcfg \<noteq> 0)"
    "rp_format p = (if rb then data else fmt)" "rp_low_addr p = low" "rp_ops p = o'" "rp_rest p = rest"
    using p w_def by (rule plan_record_parts)
  note W = plan_writes_take [OF w_def] and R = plan_reads_take [OF r]
  show "rp_wcount p + rp_rcount p \<le> length xs" "rp_rest p = drop (rp_wcount p + rp_rcount p) xs"
    "rp_wcount p \<le> 255" "rp_rcount p \<le> 255" "rp_rxcount p \<le> 255"
    using W(1-3) R by (auto simp: f add.commute)
  show "rp_rxcount p \<noteq> rp_rcount p \<Longrightarrow> rp_rcount p = 0 \<and> rp_rxcount p = 1 \<and> rp_rcfg p \<and> rp_format p = data"
    using iffD1 [OF rb] by (cases rb) (simp_all add: f)
  have idle: "o' = ops \<and> fmt = EB_DATAX \<and> low = 0 \<and> n = 0 \<and> (xs = [] \<or> maxops \<le> ops)"
    if z: "rp_wcount p + rp_rcount p = 0"
  proof -
    have n0: "w = no_writes ops xs" "n = 0" "maxops \<le> ops \<or> xs = [] \<or> \<not> is_write_op (hd xs)"
      using W(7) z by (auto simp: f)
    have "wp_rest w = xs" "wp_ops w = ops" "wp_format w = EB_DATAX" "wp_low_addr w = 0"
      by (simp_all add: n0(1) no_writes_def)
    with R n0(2,3) show ?thesis by auto
  qed
  then show "rp_wcount p + rp_rcount p = 0 \<Longrightarrow> xs = [] \<or> maxops \<le> ops"
    "rp_wcount p + rp_rcount p = 0 \<Longrightarrow> maxops \<le> ops \<Longrightarrow> rp_rxcount p \<noteq> rp_rcount p"
    "rp_wcount p + rp_rcount p = 0 \<Longrightarrow> rp_ops p = ops \<and> rp_low_addr p = 0"
    by (auto simp: f rb)
  assume e: "xs = []" "needs_check" "0 < ops"
  then have z: "rp_wcount p + rp_rcount p = 0" "rest = []" using W(1,2) R by (auto simp: f)
  have "o' = ops" "fmt = EB_DATAX" "n = 0" using idle [OF z(1)] by blast+
  with z(2) e show "rp_rxcount p \<noteq> rp_rcount p" by (simp add: f rb)
qed

text \<open>The operations of a record share the format and the low address bits. After the checks no
  operation has the format \<^verbatim>\<open>EB_DATAX\<close>, which the code uses for the absence of a format.\<close>

lemma plan_record_take:
  assumes p: "p = plan_record data needs_check maxops ops xs"
    and fmts: "\<forall>x \<in> set xs. op_format x \<noteq> EB_DATAX"
  shows "\<forall>x \<in> set (take (rp_wcount p) xs). is_write_op x \<and> (cfg_of x \<noteq> 0) = rp_wcfg p \<and> op_format x = rp_format p"
    and "\<forall>i < rp_wcount p. op_address (xs ! i) =
      (if rp_fifo p then op_address (hd xs) else op_address (hd xs) + of_nat i * ucast data)"
    and "0 < rp_wcount p \<Longrightarrow> rp_low_addr p = ucast (op_address (hd xs)) AND (data - 1)"
    and "\<forall>x \<in> set (take (rp_rcount p) (drop (rp_wcount p) xs)). \<not> is_write_op x
       \<and> (cfg_of x \<noteq> 0) = rp_rcfg p \<and> op_format x = rp_format p \<and> ucast (op_address x) AND (data - 1) = rp_low_addr p"
proof -
  define w where "w = plan_writes data maxops ops xs"
  obtain n rcfg fmt low o' rest rb where r: "plan_reads data maxops w = (n, rcfg, fmt, low, o', rest)"
    and rb: "rb \<longleftrightarrow> n = 0 \<and> (fmt = EB_DATAX \<or> fmt = data) \<and> (maxops \<le> o' \<or> (rest = [] \<and> needs_check \<and> 0 < o'))"
    and f: "rp_wcount p = wp_count w" "rp_fifo p = wp_fifo w" "rp_wcfg p = (wp_cfg w \<noteq> 0)"
    "rp_rcount p = n" "rp_rxcount p = (if rb then 1 else n)" "rp_rcfg p = (rb \<or> rcfg \<noteq> 0)"
    "rp_format p = (if rb then data else fmt)" "rp_low_addr p = low" "rp_ops p = o'" "rp_rest p = rest"
    using p w_def by (rule plan_record_parts)
  note W = plan_writes_take [OF w_def] and R = plan_reads_take [OF r]
  have wf: "wp_format w \<noteq> EB_DATAX" if "0 < wp_count w"
  proof -
    have "hd xs \<in> set (take (wp_count w) xs)"
      using that nth_in_set_take [OF _ W(1), of 0] W(1) by (cases xs) auto
    with W(4) fmts show ?thesis by (metis in_set_takeD)
  qed
  have wfmt: "0 < wp_count w \<Longrightarrow> fmt = wp_format w \<and> low = wp_low_addr w" using wf R by blast
  show "\<forall>x \<in> set (take (rp_wcount p) xs). is_write_op x \<and> (cfg_of x \<noteq> 0) = rp_wcfg p \<and> op_format x = rp_format p"
  proof
    fix x
    assume x: "x \<in> set (take (rp_wcount p) xs)"
    then have pos: "0 < wp_count w" by (cases "wp_count w") (auto simp: f)
    then have "rb \<Longrightarrow> data = fmt" using wf wfmt by (auto simp: rb)
    with x pos W(4) wfmt show "is_write_op x \<and> (cfg_of x \<noteq> 0) = rp_wcfg p \<and> op_format x = rp_format p"
      by (auto simp: f)
  qed
  show "\<forall>i < rp_wcount p. op_address (xs ! i) =
      (if rp_fifo p then op_address (hd xs) else op_address (hd xs) + of_nat i * ucast data)"
    using W(5) by (simp add: f)
  show "0 < rp_wcount p \<Longrightarrow> rp_low_addr p = ucast (op_address (hd xs)) AND (data - 1)"
    using W(6) wfmt by (simp add: f)
  show "\<forall>x \<in> set (take (rp_rcount p) (drop (rp_wcount p) xs)). \<not> is_write_op x
       \<and> (cfg_of x \<noteq> 0) = rp_rcfg p \<and> op_format x = rp_format p \<and> ucast (op_address x) AND (data - 1) = rp_low_addr p"
    using R W(2) rb by (cases "n = 0") (auto simp: f)
qed

section \<open>Sizes\<close>

definition ctx_ok :: "flush_ctx \<Rightarrow> bool" where
  "ctx_ok c \<longleftrightarrow> is_alignment (fc_alignment c) \<and> fc_record_alignment c \<in> {4, 8}
     \<and> fc_header_alignment c = fc_record_alignment c \<and> fc_eob c \<le> BUFFER_SIZE
     \<and> (if fc_mtu c = 0 then fc_eob c = BUFFER_SIZE else fc_eob c = fc_mtu c \<and> fc_header_alignment c \<le> fc_mtu c)"

lemma length_concat_words:
  "is_alignment a \<Longrightarrow> length (concat (map (\<lambda>x. EB_mWRITE (f x) a) xs)) = length xs * a"
  by (induction xs) (simp_all only: list.map concat.simps length_append length_EB_mWRITE list.size, simp_all)

lemma length_record_header: "ctx_ok c \<Longrightarrow> length (record_header c p ce sh) = fc_record_alignment c"
  by (auto simp: ctx_ok_def record_header_def)

lemma length_record_bytes:
  assumes ok: "ctx_ok c" and p: "p = plan_record data needs_check maxops ops xs"
  shows "length (record_bytes c rba p cycle_end xs) = record_length c p"
proof -
  have a: "is_alignment (fc_alignment c)" using ok by (simp add: ctx_ok_def)
  note P = plan_record_counts [OF p]
  have n: "length (take (rp_wcount p) xs) = rp_wcount p"
    "length (take (rp_rcount p) (drop (rp_wcount p) xs)) = rp_rcount p" using P(1) by auto
  have words: "length (concat (map (\<lambda>op. EB_mWRITE (f op) (fc_alignment c)) (take (rp_wcount p) xs)))
      = rp_wcount p * fc_alignment c"
    "length (concat (map (\<lambda>op. EB_mWRITE (f op) (fc_alignment c)) (take (rp_rcount p) (drop (rp_wcount p) xs))))
      = rp_rcount p * fc_alignment c" for f
    by (simp_all only: length_concat_words [OF a] n)
  show ?thesis
    unfolding record_bytes_def record_length_def Let_def
    using P(6) words(2) [of op_address]
    by (cases "rp_rxcount p = rp_rcount p"; cases "rp_wcount p = 0")
      (simp_all add: length_record_header [OF ok] length_EB_mWRITE [OF a] words algebra_simps)
qed

text \<open>No record is longer than the packet buffer.\<close>

lemma record_length_le:
  assumes "ctx_ok c" and p: "p = plan_record data needs_check maxops ops xs"
  shows "record_length c p \<le> BUFFER_SIZE"
proof -
  note P = plan_record_counts [OF p]
  let ?t = "(if rp_wcount p > 0 then 1 else 0) + rp_wcount p + (if rp_rxcount p > 0 then 1 else 0) + rp_rxcount p"
  have "?t \<le> 512" using P(3,5) by auto
  moreover have "fc_alignment c \<le> 8" "fc_record_alignment c \<le> 8" using assms(1) by (auto simp: ctx_ok_def)
  ultimately have "?t * fc_alignment c \<le> 512 * 8" by (intro mult_le_mono)
  with \<open>fc_record_alignment c \<le> 8\<close> show ?thesis by (simp add: record_length_def)
qed

section \<open>The loop over the records ends\<close>

definition flush_measure :: "nat \<Rightarrow> nat \<Rightarrow> eb_ptr list \<Rightarrow> nat" where
  "flush_measure maxops ops ps = 2 * length ps + (if maxops \<le> ops then 1 else 0)"

lemma flush_record_progress:
  assumes "0 < maxops"
    and "flush_record E c d rba needs_check maxops ops readback ps st = (Some (False, ops', readback', ps'), st')"
  shows "flush_measure maxops ops' ps' < flush_measure maxops ops ps"
proof -
  define xs where "xs = ops_at (fl_state st) ps"
  define p where "p = plan_record (fc_data c) needs_check maxops ops xs"
  have len: "length xs = length ps" by (simp add: xs_def ops_at_def)
  note P = plan_record_counts [OF p_def]
  have r: "ps' = drop (rp_wcount p + rp_rcount p) ps"
    "ops' = (if rp_rxcount p \<noteq> rp_rcount p then 0 else rp_ops p)"
    "\<not> (rp_rest p = [] \<and> (\<not> needs_check \<or> rp_ops p = 0 \<or> rp_rxcount p \<noteq> rp_rcount p))"
    using assms(2) unfolding flush_record_def Let_def xs_def [symmetric] p_def [symmetric]
    by (auto split: prod.splits if_splits)
  show ?thesis
  proof (cases "rp_wcount p + rp_rcount p = 0")
    case False
    then have "length ps' < length ps" unfolding r(1) length_drop using P(1) len by linarith
    then show ?thesis by (simp add: flush_measure_def)
  next
    case True
    then have "rp_rest p = xs" using P(2) by simp
    have "maxops \<le> ops"
    proof (rule ccontr)
      assume "\<not> maxops \<le> ops"
      with P(7) [OF True] have "xs = []" by simp
      with r(3) \<open>rp_rest p = xs\<close> P(9) [OF True] P(10) show False by auto
    qed
    with P(8) [OF True] r(1,2) True assms(1) show ?thesis by (simp add: flush_measure_def)
  qed
qed

text \<open>The loop always ends, with a state that satisfies what every round preserves.\<close>

lemma flush_records_rule:
  assumes "0 < maxops" and "Q st"
    and "\<And>ops readback ps st r st'. Q st \<Longrightarrow>
      flush_record E c d rba needs_check maxops ops readback ps st = (r, st') \<Longrightarrow> Q st'"
  shows "\<exists>r st'. flush_records E c d rba needs_check maxops ops readback ps st = Some (r, st') \<and> Q st'"
  using assms(2)
proof (induction "flush_measure maxops ops ps" arbitrary: ops readback ps st rule: less_induct)
  case less
  obtain r st1 where fr: "flush_record E c d rba needs_check maxops ops readback ps st = (r, st1)"
    by (cases "flush_record E c d rba needs_check maxops ops readback ps st")
  have Q: "Q st1" using assms(3) [OF less.prems fr] .
  show ?case
  proof (cases r)
    case None
    with Q show ?thesis by (subst flush_records.simps) (simp add: fr)
  next
    case (Some q)
    obtain ce ops' rb' ps' where q: "q = (ce, ops', rb', ps')" by (cases q)
    show ?thesis
    proof (cases ce)
      case True
      with Q Some q show ?thesis by (subst flush_records.simps) (simp add: fr)
    next
      case False
      then have "flush_measure maxops ops' ps' < flush_measure maxops ops ps"
        using fr Some q by (intro flush_record_progress [OF assms(1)]) simp
      from less.hyps [OF this Q] False Some q show ?thesis
        by (subst flush_records.simps) (simp add: fr)
    qed
  qed
qed

section \<open>The packet buffer is never overrun\<close>

definition buf_ok :: "flush_ctx \<Rightarrow> 'w flush_st \<Rightarrow> bool" where
  "buf_ok c st \<longleftrightarrow> length (fl_buf st) \<le> fc_eob c
     \<and> (fc_mtu c \<noteq> 0 \<longrightarrow> fc_header_alignment c \<le> fl_cptr st \<and> fl_cptr st \<le> length (fl_buf st))"

lemma length_flag_no_reads [simp]: "length (flag_no_reads h buf) = length buf"
  by (simp add: flag_no_reads_def)

lemma flush_space_ok:
  assumes "ctx_ok c" and "buf_ok c st" and "len \<le> BUFFER_SIZE" and "flush_space E c d len st = (ok, st')"
  shows "buf_ok c st'" and "ok \<Longrightarrow> length (fl_buf st') + len \<le> fc_eob c"
  using assms
  by (auto simp: flush_space_def buf_ok_def ctx_ok_def Let_def split: if_splits)

lemma flush_record_buf_ok:
  assumes "ctx_ok c" and "buf_ok c st"
    and fr: "flush_record E c d rba needs_check maxops ops readback ps st = (r, st')"
  shows "buf_ok c st'"
proof -
  define xs where "xs = ops_at (fl_state st) ps"
  define p where "p = plan_record (fc_data c) needs_check maxops ops xs"
  obtain ok st1 where s1: "flush_space E c d (record_length c p) st = (ok, st1)"
    by (cases "flush_space E c d (record_length c p) st")
  note S = flush_space_ok [OF assms(1,2) record_length_le [OF assms(1) p_def] s1]
  show ?thesis
    using fr S unfolding flush_record_def Let_def xs_def [symmetric] p_def [symmetric] s1
    by (auto simp: buf_ok_def length_record_bytes [OF assms(1) p_def] split: if_splits)
qed

lemma flush_finish_buf_ok:
  "buf_ok c st \<Longrightarrow> flush_finish E k cyclep responsep nc r st = Some st' \<Longrightarrow> buf_ok c st'"
  by (auto simp: flush_finish_def buf_ok_def split: sum.splits if_splits)

lemma flush_good_cycleE:
  assumes "flush_good_cycle E c d cyclep responsep st = Some st'"
  obtains rba nc ps r st1 socketp where
    "flush_records E c d rba nc (if nc then unat (fc_data c) * 8 else 2 ^ 32 - 1) 0 False ps st = Some (r, st1)"
    "flush_finish E socketp cyclep responsep nc r st1 = Some st'"
proof -
  from assms obtain ps q where
    q: "flush_records E c d (aux_rba (heap_socket_aux (fl_state st) (sock_aux (heap_socket (fl_state st)
          (dev_socket (heap_device (fl_state st) d))))))
        (op_flags (heap_operation (fl_state st) (cyc_ops (heap_cycle (fl_state st) cyclep))) AND EB_OP_CHECKED \<noteq> 0)
        (if op_flags (heap_operation (fl_state st) (cyc_ops (heap_cycle (fl_state st) cyclep))) AND EB_OP_CHECKED \<noteq> 0
         then unat (fc_data c) * 8 else 2 ^ 32 - 1) 0 False ps st = Some q"
    and "(case q of (r, st1) \<Rightarrow> flush_finish E (dev_socket (heap_device (fl_state st) d)) cyclep responsep
        (op_flags (heap_operation (fl_state st) (cyc_ops (heap_cycle (fl_state st) cyclep))) AND EB_OP_CHECKED \<noteq> 0)
        r st1) = Some st'"
    unfolding flush_good_cycle_def Let_def by (elim bind_SomeE)
  then show thesis by (cases q) (simp only: prod.case that)
qed

lemma flush_good_cycle_buf_ok:
  assumes "ctx_ok c" and "buf_ok c st" and "fc_data c \<noteq> 0"
    and run: "flush_good_cycle E c d cyclep responsep st = Some st'"
  shows "buf_ok c st'"
proof -
  have pos: "0 < (if needs_check then unat (fc_data c) * 8 else 2 ^ 32 - 1)" for needs_check
    using assms(3) by (auto simp: unat_gt_0)
  have inv: "buf_ok c st1" if "flush_records E c d rba nc (if nc then unat (fc_data c) * 8 else 2 ^ 32 - 1) 0 False ps st = Some (r, st1)"
    for rba nc ps r st1
    using flush_records_rule [where Q = "buf_ok c" and E = E and c = c and d = d and rba = rba and
        needs_check = nc and ops = 0 and readback = False and ps = ps, OF pos [of nc] assms(2)
        flush_record_buf_ok [OF assms(1)]] that by auto
  from run show ?thesis
    by (rule flush_good_cycleE) (rule flush_finish_buf_ok [OF inv])
qed

lemma flush_cycle_buf_ok:
  assumes "ctx_ok c" and "buf_ok c st" and "fc_data c \<noteq> 0"
    and run: "flush_cycle E c d cyclep st = Some st'"
  shows "buf_ok c st'"
proof -
  have upd: "buf_ok c (st\<lparr>fl_completed := n, fl_state := s\<rparr>)" "buf_ok c (st\<lparr>fl_state := s\<rparr>)" for n s
    using assms(2) by (simp_all add: buf_ok_def)
  show ?thesis
    using run upd flush_good_cycle_buf_ok [OF assms(1) upd(2) assms(3)]
    by (auto simp: flush_cycle_def Let_def split: if_splits prod.splits)
qed

lemma flush_cycles_buf_ok:
  "flush_cycles E c d cyclep st = Some st' \<Longrightarrow> ctx_ok c \<Longrightarrow> fc_data c \<noteq> 0 \<Longrightarrow> buf_ok c st \<Longrightarrow> buf_ok c st'"
proof (induction rule: flush_cycles.raw_induct [rotated, consumes 1, case_names step])
  case (step fc E c d cyclep st st')
  show ?case
  proof (cases "cyclep = EB_NULL")
    case True
    with step show ?thesis by simp
  next
    case False
    have "Option.bind (flush_cycle E c d cyclep st) (fc E c d (cyc_link (heap_cycle (fl_state st) cyclep)))
        = Some st'"
      using step(2) unfolding if_not_P [OF False] Let_def .
    then obtain st1 where st1: "flush_cycle E c d cyclep st = Some st1"
      "fc E c d (cyc_link (heap_cycle (fl_state st) cyclep)) st1 = Some st'"
      by (rule bind_SomeE)
    from step.IH [OF st1(2) step.prems(1,2)
        flush_cycle_buf_ok [OF step.prems(1) step.prems(3) step.prems(2) st1(1)]]
    show ?thesis .
  qed
qed

lemma ctx_ok_flush_context:
  assumes "mtu = 0 \<or> 8 \<le> mtu \<and> mtu \<le> int BUFFER_SIZE"
  shows "ctx_ok (flush_context width mtu)"
  using assms is_alignment_eb_alignment [of "drop_bit 4 width OR (width AND EB_DATAX)"]
  by (auto simp: ctx_ok_def flush_context_def Let_def eb_record_alignment_def)

lemma buf_ok_flush_start: "ctx_ok c \<Longrightarrow> buf_ok c (flush_start c width s)"
  by (auto simp: buf_ok_def flush_start_def ctx_ok_def packet_header_def)

lemma refined_data_neq_0: "eb_width_refined width \<Longrightarrow> width AND EB_DATAX \<noteq> 0"
  by (simp add: eb_width_refined_def Let_def)

section \<open>Properties\<close>

text \<open>C11: A flush never writes outside its stack buffer. Whatever cycles are queued on the device and
  whatever the callbacks do, every record leaves the packet under construction, which a record only extends after
  room was made for all of it, inside the transport's packet size (or the 4104 bytes of the buffer on a stream), and
  the start of the current cycle inside it; so does the whole flush. This needs a packet size that fits the buffer
  and a device with a negotiated width.\<close>

theorem eb_device_flush_buffer_bound:
  assumes "eb_width_refined width" and "mtu = 0 \<or> 8 \<le> mtu \<and> mtu \<le> int BUFFER_SIZE"
    and "c = flush_context width mtu"
    and "flush_cycles E c d cyclep (flush_start c width s) = Some st"
  shows "length (fl_buf st) \<le> BUFFER_SIZE \<and> (mtu \<noteq> 0 \<longrightarrow> length (fl_buf st) \<le> nat mtu
    \<and> fc_header_alignment c \<le> fl_cptr st \<and> fl_cptr st \<le> length (fl_buf st))
    \<and> buf_ok c (flush_start c width s)
    \<and> (\<forall>rba check maxops ops readback ps st1 r st2. buf_ok c st1 \<longrightarrow>
         flush_record E c d rba check maxops ops readback ps st1 = (r, st2) \<longrightarrow>
         buf_ok c st2 \<and> length (fl_buf st2) \<le> BUFFER_SIZE)"
proof -
  have c: "ctx_ok c" "fc_data c \<noteq> 0"
    using ctx_ok_flush_context [OF assms(2)] refined_data_neq_0 [OF assms(1)] assms(3)
    by (simp_all add: flush_context_def Let_def)
  have len: "length (fl_buf st') \<le> BUFFER_SIZE" if "buf_ok c st'" for st' :: "'a flush_st"
    using c(1) that by (simp add: ctx_ok_def buf_ok_def)
  note start = buf_ok_flush_start [OF c(1), of width s]
  note final = flush_cycles_buf_ok [OF assms(4) c start]
  have "mtu \<noteq> 0 \<longrightarrow> length (fl_buf st) \<le> nat mtu \<and> fc_header_alignment c \<le> fl_cptr st \<and> fl_cptr st \<le> length (fl_buf st)"
    using final assms(2) by (auto simp: buf_ok_def assms(3) flush_context_def Let_def)
  with final start len flush_record_buf_ok [OF c(1)] show ?thesis by blast
qed

text \<open>A device with one queued cycle that writes 7 to the address \<open>0x100\<close> and then reads it.\<close>

definition queued_op :: "eb_operation_flags_t \<Rightarrow> eb_format_t \<Rightarrow> eb_ptr \<Rightarrow> eb_operation" where
  "queued_op f fmt p = \<lparr>op_address = 0x100, op_value = 7, op_flags = f, op_format = fmt, op_next = p\<rparr>"

definition queued_state :: "unit eb_state" where
  "queued_state = (eb_state0 ())\<lparr>eb_memory_free := 300, heap_free_next := (\<lambda>p. p + 1),
     heap_cycle := (\<lambda>_. \<lparr>cyc_callback = Eb_user_callback 0, cyc_user_data = 0, cyc_ops = 200, cyc_link = EB_NULL\<rparr>),
     heap_operation := (\<lambda>p. if p = 200 then queued_op EB_OP_WRITE (EB_BIG_ENDIAN OR 4) 201
       else queued_op EB_OP_READ_VAL (EB_BIG_ENDIAN OR 4) EB_NULL)\<rparr>"

abbreviation queued_ctx :: flush_ctx where
  "queued_ctx \<equiv> flush_context 0x44 1472"

lemma queued_constants: "fc_mtu queued_ctx = 1472" "fc_header_alignment queued_ctx = 4" "fc_record_alignment queued_ctx = 4"
  "fc_alignment queued_ctx = 4" "fc_eob queued_ctx = 1472" "fc_data queued_ctx = 4" "fc_addr queued_ctx = 4"
  by code_simp+

lemma queued_check_op:
  "flush_check_op 4 0xFFFFFFFF (queued_op EB_OP_WRITE (EB_BIG_ENDIAN OR 4) p) = (EB_OK, queued_op EB_OP_WRITE 4 p)"
  "flush_check_op 4 0xFFFFFFFF (queued_op EB_OP_READ_VAL (EB_BIG_ENDIAN OR 4) p) = (EB_OK, queued_op EB_OP_READ_VAL 4 p)"
  unfolding queued_op_def by (simp_all, code_simp+)

lemma queued_check:
  assumes "heap_operation s 200 = queued_op EB_OP_WRITE (EB_BIG_ENDIAN OR 4) 201"
    and "heap_operation s 201 = queued_op EB_OP_READ_VAL (EB_BIG_ENDIAN OR 4) EB_NULL"
  shows "flush_check 4 0xFFFFFFFF 200 s = Some (EB_NULL, EB_OK,
    upd_operation 201 (\<lambda>_. queued_op EB_OP_READ_VAL 4 EB_NULL) (upd_operation 200 (\<lambda>_. queued_op EB_OP_WRITE 4 201) s))"
  using assms queued_check_op by (simp add: flush_check.simps) (simp add: queued_op_def flush_check.simps)

lemma queued_record:
  assumes "heap_operation (fl_state st) 200 = queued_op EB_OP_WRITE 4 201"
    and "heap_operation (fl_state st) 201 = queued_op EB_OP_READ_VAL 4 EB_NULL" and "length (fl_buf st) = 4"
  obtains bs where "length bs = 20" "flush_records E queued_ctx d rba False 4294967295 0 False [200, 201] st =
    Some (Inr True, st\<lparr>fl_has_reads := True, fl_buf := fl_buf st @ bs\<rparr>)"
proof -
  let ?xs = "ops_at (fl_state st) [200, 201]"
  let ?p = "plan_record 4 False 4294967295 0 ?xs"
  have p: "rp_wcount ?p = 1" "rp_rcount ?p = 1" "rp_rxcount ?p = 1" "rp_rest ?p = []"
    using assms(1,2) by (simp_all add: ops_at_def) (simp_all add: plan_record_def plan_writes_def plan_reads_def chain_writes_def
        Let_def queued_op_def)
  then have len: "record_length queued_ctx ?p = 20" by (simp add: record_length_def queued_constants)
  have "ctx_ok queued_ctx" by (rule ctx_ok_flush_context) simp
  from length_record_bytes [OF this refl] len have "length (record_bytes queued_ctx rba ?p True ?xs) = 20" by simp
  then show thesis
    by (rule that) (use assms(3) p len in \<open>subst flush_records.simps, simp add: flush_record_def Let_def queued_constants flush_space_def\<close>)
qed

lemma queued_response:
  assumes "heap_operation s 200 = queued_op EB_OP_WRITE 4 201" and "heap_operation s 201 = queued_op EB_OP_READ_VAL 4 EB_NULL"
    and "cyc_ops (heap_cycle s k) = 200"
  shows "\<exists>s'. queue_response socketp r k False s = Some s'"
proof -
  have "eb_find_read 200 s = Some 201"
    by (subst eb_find_read.simps, simp add: assms, subst eb_find_read.simps) (simp add: assms queued_op_def)
  with assms(3) show ?thesis by (simp add: queue_response_def Let_def)
qed

lemma queued_cycle:
  "\<exists>st. flush_cycle unit_env queued_ctx 5 100 (flush_start queued_ctx 0x44 queued_state) = Some st \<and> length (fl_buf st) = 24"
proof -
  define s1 where "s1 = upd_cycle 100 (\<lambda>k. k\<lparr>cyc_link := 5\<rparr>) queued_state"
  have op1: "heap_operation s1 200 = queued_op EB_OP_WRITE (EB_BIG_ENDIAN OR 4) 201"
    "heap_operation s1 201 = queued_op EB_OP_READ_VAL (EB_BIG_ENDIAN OR 4) EB_NULL" 
    "eb_memory_free s1 = 300" "cyc_ops (heap_cycle s1 100) = 200"
    by (simp_all add: s1_def queued_state_def)
  define s2 where "s2 = upd_operation 201 (\<lambda>_. queued_op EB_OP_READ_VAL 4 EB_NULL) (upd_operation 200 (\<lambda>_. queued_op EB_OP_WRITE 4 201) s1)"
  note check = queued_check [OF op1(1,2), folded s2_def]
  have "eb_memory_free s2 = 300" using op1(3) by (simp add: s2_def)
  then obtain s3 where s3: "eb_new_response unit_env s2 = (300, s3)" "heap_operation s3 = heap_operation s2" "heap_cycle s3 = heap_cycle s2"
    by (simp add: eb_new_response_def eb_new_memory_item_def)
  have op3: "heap_operation s3 200 = queued_op EB_OP_WRITE 4 201" "heap_operation s3 201 = queued_op EB_OP_READ_VAL 4 EB_NULL"
    "cyc_ops (heap_cycle s3 100) = 200"
    using op1(4) by (simp_all add: s3(2,3)) (simp_all add: s2_def)
  have walk: "walk (\<lambda>p. op_next (heap_operation s3 p)) EB_NULL 200 = Some [200, 201]"
    by (simp add: walk.simps op3 queued_op_def)
  define st3 where "st3 = (flush_start queued_ctx 0x44 queued_state)\<lparr>fl_state := s3\<rparr>"
  have st3: "fl_state st3 = s3" "length (fl_buf st3) = 4"
    by (simp_all add: st3_def flush_start_def queued_constants packet_header_def)
  obtain s4 where s4: "queue_response (dev_socket (heap_device s3 5)) 300 100 False s3 = Some s4"
    using queued_response [OF op3] by blast
  have mask: "drop_bit 32 (- 1 :: eb_address_t) = 0xFFFFFFFF" by code_simp
  have flags: "op_flags (queued_op EB_OP_WRITE 4 p) AND EB_OP_CHECKED = 0" for p by (simp add: queued_op_def)
  let ?rba = "aux_rba (heap_socket_aux s3 (sock_aux (heap_socket s3 (dev_socket (heap_device s3 5)))))"
  obtain bs where "length bs = 20" "flush_records unit_env queued_ctx 5 ?rba False 4294967295 0 False [200, 201] st3 =
      Some (Inr True, st3\<lparr>fl_has_reads := True, fl_buf := fl_buf st3 @ bs\<rparr>)"
    by (rule queued_record [of st3 unit_env 5 ?rba]) (use op3 st3 in simp_all)
  then have "\<exists>st. flush_good_cycle unit_env queued_ctx 5 100 300 st3 = Some st \<and> length (fl_buf st) = 24"
    using st3 op3 walk s4 flags by (simp add: flush_good_cycle_def Let_def flush_finish_def)
  moreover have "flush_cycle unit_env queued_ctx 5 100 (flush_start queued_ctx 0x44 queued_state) =
      flush_good_cycle unit_env queued_ctx 5 100 300 st3"
    using check op1(4) s3(1) mask by (simp add: flush_cycle_def Let_def flush_start_def queued_constants s1_def st3_def)
  ultimately show ?thesis by simp
qed

theorem eb_device_flush_buffer_bound_witness:
  "\<exists>st. flush_cycles unit_env queued_ctx 5 100 (flush_start queued_ctx 0x44 queued_state) = Some st
     \<and> length (fl_buf st) = 24 \<and> fl_cptr st \<le> length (fl_buf st)"
proof -
  have "cyc_link (heap_cycle queued_state 100) = EB_NULL" by (simp add: queued_state_def)
  then have "flush_cycles unit_env queued_ctx 5 100 (flush_start queued_ctx 0x44 queued_state) =
      flush_cycle unit_env queued_ctx 5 100 (flush_start queued_ctx 0x44 queued_state) \<bind> flush_cycles unit_env queued_ctx 5 EB_NULL"
    by (subst flush_cycles.simps) (simp add: flush_start_def)
  then obtain st where run: "flush_cycles unit_env queued_ctx 5 100 (flush_start queued_ctx 0x44 queued_state) = Some st"
    "length (fl_buf st) = 24"
    using queued_cycle by (auto simp: flush_cycles.simps [of _ _ _ EB_NULL])
  have "eb_width_refined 0x44" by (simp add: eb_width_refined_def Let_def)
  from eb_device_flush_buffer_bound [OF this _ refl run(1)] run show ?thesis by auto
qed

text \<open>C31: The loop that splits a cycle into records always ends: for a negotiated data width, with or
  without error checking, it returns after finitely many records, either with the cycle written or
  at the operation where it overflowed the packet.\<close>

theorem flush_records_terminates:
  assumes "fc_data c \<noteq> 0"
  shows "\<exists>r st'. flush_records E c d rba needs_check
    (if needs_check then unat (fc_data c) * 8 else 2 ^ 32 - 1) 0 False ps st = Some (r, st')"
proof -
  have "0 < (if needs_check then unat (fc_data c) * 8 else 2 ^ 32 - 1)"
    using assms by (auto simp: unat_gt_0)
  from flush_records_rule [OF this, of "\<lambda>_. True"] show ?thesis by blast
qed

theorem flush_records_terminates_witness:
  "\<exists>r st'. flush_records unit_env (flush_context 0x44 1472) 5 0x8000 True 32 0 False [1, 2, 3]
     (flush_start (flush_context 0x44 1472) 0x44 (eb_state0 ())) = Some (r, st')"
  using flush_records_terminates [where c = "flush_context 0x44 1472" and needs_check = True and
      E = unit_env and d = 5 and rba = "0x8000" and ps = "[1, 2, 3]"]
  by (simp add: flush_context_def Let_def)

text \<open>C38: The no-reads flag of a packet is not reliable. Suppose the packet holds completed cycles
  without a read, and the next record, which contains a read, does not fit: the completed cycles are
  sent with the flag \<^verbatim>\<open>EB_HEADER_NR\<close>, and the record is put into the next packet, whose header
  still carries the flag although \<^verbatim>\<open>has_reads\<close> is set.\<close>

theorem flush_no_reads_flag_sticks:
  assumes "ctx_ok c" and "buf_ok c st" and "fc_mtu c \<noteq> 0"
    and "\<not> fl_has_reads st" and "fl_cptr st \<noteq> fc_header_alignment c"
    and "p = plan_record (fc_data c) needs_check maxops ops (ops_at (fl_state st) ps)"
    and "0 < rp_rxcount p" and "fc_eob c < length (fl_buf st) + record_length c p"
    and "flush_record E c d rba needs_check maxops ops readback ps st = (Some r, st')"
  shows "fl_has_reads st' \<and> bit (fl_buf st' ! 2) 2
    \<and> flag_no_reads (fl_has_reads st') (fl_buf st') ! 2 AND EB_HEADER_NR \<noteq> 0"
proof -
  let ?buf = "(fl_buf st)[2 := fl_buf st ! 2 OR EB_HEADER_NR]"
  have h: "4 \<le> fc_header_alignment c" "fc_header_alignment c \<le> fl_cptr st" "fl_cptr st \<le> length (fl_buf st)"
    using assms(1-3) by (auto simp: ctx_ok_def buf_ok_def)
  have buf: "\<exists>rest. fl_buf st' = take (fc_header_alignment c) ?buf @ rest" "fl_has_reads st'"
    using assms(3-5,7-9)
    by (auto simp: flush_record_def Let_def assms(6) [symmetric] flush_space_def flag_no_reads_def split: if_splits)
  then obtain rest where rest: "fl_buf st' = take (fc_header_alignment c) ?buf @ rest" by blast
  have "fl_buf st' ! 2 = fl_buf st ! 2 OR EB_HEADER_NR"
    unfolding rest using h by (simp add: nth_append)
  then have b: "bit (fl_buf st' ! 2) 2" by (simp add: bit_or_iff)
  moreover have "bit (fl_buf st' ! 2 AND EB_HEADER_NR) 2" using b by (simp add: bit_and_iff)
  then have "fl_buf st' ! 2 AND EB_HEADER_NR \<noteq> 0" by (metis bit_0_eq bot_apply bot_bool_def)
  ultimately show ?thesis using buf(2) by (simp add: flag_no_reads_def)
qed

text \<open>A packet of 16 bytes holding twelve bytes of completed cycles, and a cycle of one 32-bit read.\<close>

definition sticky_st :: "unit flush_st" where
  "sticky_st = \<lparr>fl_buf = replicate 12 0, fl_cptr = 12, fl_has_reads = False, fl_completed = 1,
     fl_state = (eb_state0 ())\<lparr>heap_operation :=
       (\<lambda>_. \<lparr>op_address = 0x100, op_value = 0, op_flags = EB_OP_READ_VAL, op_format = EB_BIG_ENDIAN OR EB_DATA32, op_next = EB_NULL\<rparr>)\<rparr>\<rparr>"

theorem flush_no_reads_flag_sticks_witness:
  "\<exists>r st'. flush_record unit_env (flush_context 0x44 16) 5 0x8000 False 255 0 False [200] sticky_st = (Some r, st')
     \<and> fl_has_reads st' \<and> bit (fl_buf st' ! 2) 2"
proof -
  let ?c = "flush_context 0x44 16"
  let ?p = "plan_record 4 False 255 0 (ops_at (fl_state sticky_st) [200])"
  have c: "ctx_ok ?c" by (rule ctx_ok_flush_context) simp
  have ctx: "fc_mtu ?c = 16" "fc_header_alignment ?c = 4" "fc_record_alignment ?c = 4" "fc_alignment ?c = 4"
    "fc_eob ?c = 16" "fc_data ?c = 4"
    by code_simp+
  have b: "buf_ok ?c sticky_st" by (simp add: buf_ok_def ctx sticky_st_def)
  have p: "rp_rxcount ?p = 1" "rp_wcount ?p = 0" "rp_rcount ?p = 1" by code_simp+
  have len: "record_length ?c ?p = 12" by (simp add: record_length_def p ctx)
  have st: "\<not> fl_has_reads sticky_st" "fl_cptr sticky_st = 12" "length (fl_buf sticky_st) = 12"
    by (simp_all add: sticky_st_def)
  obtain r st' where run: "flush_record unit_env ?c 5 0x8000 False 255 0 False [200] sticky_st = (Some r, st')"
    by (rule that) (simp add: flush_record_def Let_def len flush_space_def ctx st flag_no_reads_def)
  from flush_no_reads_flag_sticks [OF c b _ _ _ refl _ _ run] run show ?thesis
    by (cases r) (simp add: ctx p len st)
qed

end
