(* ===== verification/EB_Readwrite.thy ===== *)
theory EB_Readwrite
  imports EB_Master
begin

text \<open>
  \<^verbatim>\<open>glue/readwrite.c\<close>, with \<^verbatim>\<open>eb_response_flip\<close> of \<^verbatim>\<open>glue/socket.c\<close>: what the slave side does with the
  operations of a record. Writes to the configuration space are the answers to earlier requests: they
  are matched against the queue of response records of the socket. Reads and writes on the bus go to
  the attached handlers, and their success is shifted into the error register.

  The response queue is kept as two lists, the second reversed; \<open>response_queue\<close> is its contract.
\<close>

unbundle bit_operations_syntax

abbreviation (input) SDB_REQUIRED_SIZE :: uint64 where "SDB_REQUIRED_SIZE \<equiv> 65536"

section \<open>Walking the response queue\<close>

definition eb_response_flip :: "eb_ptr \<Rightarrow> 'w eb_state \<Rightarrow> (eb_ptr \<times> 'w eb_state) option" where
  "eb_response_flip firstp s =
     do { (h, prev) \<leftarrow> rev_links res_next (\<lambda>v. res_next_update (\<lambda>_. v)) EB_NULL (heap_response s) EB_NULL firstp;
          Some (prev, s\<lparr>heap_response := h\<rparr>) }"

text \<open>\<^verbatim>\<open>eb_response_t *responsepp\<close> points to \<^verbatim>\<open>socket->first_response\<close> (\<open>None\<close>) or to the \<^verbatim>\<open>next\<close> field of a
  response.\<close>

definition get_pp :: "eb_ptr \<Rightarrow> eb_ptr option \<Rightarrow> 'w eb_state \<Rightarrow> eb_ptr" where
  "get_pp socketp pp s =
     (case pp of None \<Rightarrow> sock_first_response (heap_socket s socketp) | Some r \<Rightarrow> res_next (heap_response s r))"

definition set_pp :: "eb_ptr \<Rightarrow> eb_ptr option \<Rightarrow> eb_ptr \<Rightarrow> 'w eb_state \<Rightarrow> 'w eb_state" where
  "set_pp socketp pp v s =
     (case pp of None \<Rightarrow> upd_socket socketp (\<lambda>k. k\<lparr>sock_first_response := v\<rparr>) s
      | Some r \<Rightarrow> upd_response r (\<lambda>q. q\<lparr>res_next := v\<rparr>) s)"

text \<open>The search loop. At the end of the first list the second one is flipped and appended. The result
  is the position and the response, or \<open>None\<close> when no response has the address \<open>key\<close>.\<close>

partial_function (option) find_response ::
  "eb_ptr \<Rightarrow> uint16 \<Rightarrow> eb_ptr option \<Rightarrow> 'w eb_state
    \<Rightarrow> ((eb_ptr option \<times> eb_ptr) option \<times> 'w eb_state) option" where
  "find_response socketp key pp s =
     do { (responsep, s) \<leftarrow>
            (if get_pp socketp pp s \<noteq> EB_NULL then Some (get_pp socketp pp s, s)
             else do { (r, s) \<leftarrow> eb_response_flip (sock_last_response (heap_socket s socketp)) s;
                       let s = set_pp socketp pp r s;
                       Some (r, upd_socket socketp (\<lambda>k. k\<lparr>sock_last_response := EB_NULL\<rparr>) s) });
          if responsep = EB_NULL then Some (None, s)
          else if res_address (heap_response s responsep) = key then Some (Some (pp, responsep), s)
          else find_response socketp key (Some responsep) s }"

section \<open>Answers\<close>

text \<open>A value for the next read of the cycle. The boolean is \<^verbatim>\<open>fail\<close>.\<close>

definition response_value :: "eb_ptr \<Rightarrow> eb_data_t \<Rightarrow> 'w eb_state \<Rightarrow> (bool \<times> 'w eb_state) option" where
  "response_value responsep v s =
     (let cursor = res_write_cursor (heap_response s responsep) in
      if cursor = EB_NULL then Some (True, s)
      else do { let op = heap_operation s cursor;
                let s = (if op_flags op AND EB_OP_MASK = EB_OP_READ_PTR
                         then s\<lparr>user_data_mem := (user_data_mem s)(op_value op := v)\<rparr>
                         else upd_operation cursor (\<lambda>op. op\<lparr>op_value := v\<rparr>) s);
                next_read \<leftarrow> eb_find_read (op_next op) s;
                Some (False, upd_response responsep (\<lambda>r. r\<lparr>res_write_cursor := next_read\<rparr>) s) })"

text \<open>The number of bus operations the error flags are for, at most \<open>maxops\<close>.\<close>

fun count_status :: "nat \<Rightarrow> nat \<Rightarrow> eb_ptr list \<Rightarrow> 'w eb_state \<Rightarrow> nat" where
  "count_status maxops ops [] s = ops"
| "count_status maxops ops (p # ps) s =
     (if op_flags (heap_operation s p) AND EB_OP_CFG_SPACE \<noteq> 0 then count_status maxops ops ps s
      else if Suc ops = maxops then Suc ops
      else count_status maxops (Suc ops) ps s)"

text \<open>Bit \<open>i\<close> of the value is the flag of the operation with \<open>i\<close> bus operations behind it.\<close>

fun mark_status :: "nat \<Rightarrow> eb_data_t \<Rightarrow> eb_ptr list \<Rightarrow> 'w eb_state \<Rightarrow> eb_ptr list \<times> 'w eb_state" where
  "mark_status 0 v ps s = (ps, s)"
| "mark_status (Suc i) v [] s = ([], s)"
| "mark_status (Suc i) v (p # ps) s =
     (if op_flags (heap_operation s p) AND EB_OP_CFG_SPACE \<noteq> 0 then mark_status (Suc i) v ps s
      else mark_status i v ps (upd_operation p (\<lambda>op. op\<lparr>op_flags := op_flags op OR
             (if bit v i then EB_OP_ERROR else 0)\<rparr>) s))"

definition response_status :: "eb_ptr \<Rightarrow> eb_width_t \<Rightarrow> eb_data_t \<Rightarrow> 'w eb_state \<Rightarrow> (bool \<times> 'w eb_state) option" where
  "response_status responsep widths v s =
     do { let maxops = unat (widths AND EB_DATAX) * 8;
          ps \<leftarrow> walk (\<lambda>p. op_next (heap_operation s p)) EB_NULL (res_status_cursor (heap_response s responsep));
          let ops = count_status maxops 0 ps s;
          let (rest, s) = mark_status ops v ps s;
          cursor \<leftarrow> eb_find_bus (case rest of [] \<Rightarrow> EB_NULL | p # _ \<Rightarrow> p) s;
          Some (ops = 0, upd_response responsep (\<lambda>r. r\<lparr>res_status_cursor := cursor\<rparr>) s) }"

definition eb_socket_write_config ::
  "'w eb_env \<Rightarrow> eb_ptr \<Rightarrow> eb_width_t \<Rightarrow> eb_address_t \<Rightarrow> eb_data_t \<Rightarrow> 'w eb_state \<Rightarrow> (int \<times> 'w eb_state) option" where
  "eb_socket_write_config E socketp widths addr v s =
     do { (found, s) \<leftarrow> find_response socketp (ucast (addr AND 0xFFFE)) None s;
          case found of
            None \<Rightarrow> Some (0, s)
          | Some (pp, responsep) \<Rightarrow>
              do { (fail, s) \<leftarrow> (if addr AND 1 = 0 then response_value responsep v s
                                else response_status responsep widths v s);
                   let response = heap_response s responsep;
                   if fail \<or> (res_write_cursor response = EB_NULL \<and> res_status_cursor response = EB_NULL)
                   then do { let cyclep = res_cycle response;
                             let s = set_pp socketp pp (res_next response) s;
                             ps \<leftarrow> walk (\<lambda>p. op_next (heap_operation s p)) EB_NULL (cyc_ops (heap_cycle s cyclep));
                             let status = (if list_ex (\<lambda>p. op_flags (heap_operation s p) AND EB_OP_ERROR \<noteq> 0) ps
                                           then EB_SEGFAULT else EB_OK);
                             s \<leftarrow> finish_cycle E cyclep (cyc_ops (heap_cycle s cyclep))
                                   (if fail then EB_FAIL else status) s;
                             Some (1, eb_free_response responsep s) }
                   else Some (0, s) } }"

section \<open>Bus operations\<close>

text \<open>The handler whose range contains an address.\<close>

definition handler_range :: "'w eb_state \<Rightarrow> eb_ptr \<Rightarrow> eb_address_t \<times> eb_address_t" where
  "handler_range s p =
     (let c = dev_component (user_sdb_mem s (had_device (heap_handler_address s p)))
      in (addr_first c, addr_last c))"

fun find_handler :: "eb_address_t \<Rightarrow> eb_ptr list \<Rightarrow> 'w eb_state \<Rightarrow> eb_ptr option" where
  "find_handler addr [] s = None"
| "find_handler addr (p # ps) s =
     (let (dev_first, dev_last) = handler_range s p
      in if dev_first \<le> addr \<and> addr \<le> dev_last then Some p else find_handler addr ps s)"

definition little_endian_device :: "'w eb_state \<Rightarrow> eb_ptr \<Rightarrow> bool" where
  "little_endian_device s p \<longleftrightarrow> bus_specific (user_sdb_mem s (had_device (heap_handler_address s p))) AND 0x80 \<noteq> 0"

definition shift_error :: "uint64 \<Rightarrow> bool \<Rightarrow> uint64" where
  "shift_error error fail = push_bit 1 error OR (if fail then 1 else 0)"

definition eb_socket_write ::
  "'w eb_env \<Rightarrow> eb_ptr \<Rightarrow> eb_width_t \<Rightarrow> eb_address_t \<Rightarrow> eb_address_t \<Rightarrow> eb_data_t \<Rightarrow> uint64 \<Rightarrow> 'w eb_state
    \<Rightarrow> (uint64 \<times> 'w eb_state) option" where
  "eb_socket_write E socketp widths addr_b addr_l v error s =
     do { hs \<leftarrow> handler_list socketp s;
          case find_handler addr_b hs s of
            None \<Rightarrow> Some (shift_error error True, s)
          | Some p \<Rightarrow>
              let callback = heap_handler_callback s (had_callback (heap_handler_address s p))
              in if hcb_write callback = 0 then Some (shift_error error True, s)
                 else let (status, s) = env_write E (hcb_write callback) (hcb_data callback)
                            (if little_endian_device s p then addr_l else addr_b) widths v s
                      in Some (shift_error error (status \<noteq> EB_OK), s) }"

definition config_space :: "uint64 \<Rightarrow> eb_address_t \<Rightarrow> bytes" where
  "config_space error sdb = be_bytes 8 error @ be_bytes 8 sdb"

text \<open>\<open>None\<close> is a read beyond the 16 bytes of the buffer.\<close>

definition eb_socket_read_config ::
  "eb_ptr \<Rightarrow> eb_width_t \<Rightarrow> eb_address_t \<Rightarrow> uint64 \<Rightarrow> 'w eb_state \<Rightarrow> eb_data_t option" where
  "eb_socket_read_config socketp widths addr error s =
     (let sdb = aux_sdb_offset (heap_socket_aux s (sock_aux (heap_socket s socketp)));
          len = unat (widths AND EB_DATAX)
      in if addr \<ge> 16 then Some 0
         else if unat addr + len \<le> 16 then Some (of_be 0 (take len (drop (unat addr) (config_space error sdb))))
         else None)"

definition eb_socket_read ::
  "'w eb_env \<Rightarrow> eb_ptr \<Rightarrow> eb_width_t \<Rightarrow> eb_address_t \<Rightarrow> eb_address_t \<Rightarrow> uint64 \<Rightarrow> 'w eb_state
    \<Rightarrow> (eb_data_t \<times> uint64 \<times> 'w eb_state) option" where
  "eb_socket_read E socketp widths addr_b addr_l error s =
     (let sdb = aux_sdb_offset (heap_socket_aux s (sock_aux (heap_socket s socketp))) in
      if addr_b \<ge> sdb \<and> addr_b < sdb + SDB_REQUIRED_SIZE
      then do { v \<leftarrow> eb_sdb E socketp widths (addr_b - sdb) s; Some (v, push_bit 1 error, s) }
      else do { hs \<leftarrow> handler_list socketp s;
          case find_handler addr_b hs s of
            None \<Rightarrow> Some (0, shift_error error True, s)
          | Some p \<Rightarrow>
              let callback = heap_handler_callback s (had_callback (heap_handler_address s p))
              in if hcb_read callback = 0 then Some (0, shift_error error True, s)
                 else let (status, v, s) = env_read E (hcb_read callback) (hcb_data callback)
                            (if little_endian_device s p then addr_l else addr_b) widths s
                      in Some (v, shift_error error (status \<noteq> EB_OK), s) })"

section \<open>The response queue\<close>

definition resp_chain :: "'w eb_state \<Rightarrow> eb_ptr \<Rightarrow> eb_ptr list \<Rightarrow> bool" where
  "resp_chain s p xs \<longleftrightarrow> chain (\<lambda>r. res_next (heap_response s r)) EB_NULL p xs"

definition response_lists :: "'w eb_state \<Rightarrow> eb_ptr \<Rightarrow> eb_ptr list \<Rightarrow> eb_ptr list \<Rightarrow> bool" where
  "response_lists s k xs ys \<longleftrightarrow> resp_chain s (sock_first_response (heap_socket s k)) xs
     \<and> resp_chain s (sock_last_response (heap_socket s k)) ys \<and> set xs \<inter> set ys = {}"

text \<open>The queue of responses of socket \<open>k\<close>, oldest first.\<close>

definition response_queue :: "'w eb_state \<Rightarrow> eb_ptr \<Rightarrow> eb_ptr list \<Rightarrow> bool" where
  "response_queue s k q \<longleftrightarrow> (\<exists>xs ys. response_lists s k xs ys \<and> q = xs @ rev ys)"

lemma resp_chain_cong:
  "(\<And>r. r \<in> set xs \<Longrightarrow> res_next (heap_response s' r) = res_next (heap_response s r)) \<Longrightarrow>
   resp_chain s' p xs \<longleftrightarrow> resp_chain s p xs"
  unfolding resp_chain_def by (rule chain_cong)

lemma resp_chain_upd [simp]:
  "resp_chain (upd_socket k f s) p xs \<longleftrightarrow> resp_chain s p xs"
  by (simp add: resp_chain_def)

definition same_responses :: "'w eb_state \<Rightarrow> 'w eb_state \<Rightarrow> bool" where
  "same_responses s s' \<longleftrightarrow> (\<forall>a. \<exists>v. heap_response s' a = (heap_response s a)\<lparr>res_next := v\<rparr>)"

text \<open>\<^verbatim>\<open>*responsepp = flip(last); last = EB_NULL\<close> at the end of the first list moves the second list over.\<close>

lemma flip_append:
  assumes ls: "response_lists s k us ys" and pp: "pp = (if us = [] then None else Some (last us))"
  obtains r h s' where "eb_response_flip (sock_last_response (heap_socket s k)) s = Some (r, s\<lparr>heap_response := h\<rparr>)"
    "s' = upd_socket k (\<lambda>q. q\<lparr>sock_last_response := EB_NULL\<rparr>) (set_pp k pp r (s\<lparr>heap_response := h\<rparr>))"
    "response_lists s' k (us @ rev ys) []" "r = (case rev ys of [] \<Rightarrow> EB_NULL | x # _ \<Rightarrow> x)"
    "same_responses s s'"
proof -
  have c: "chain (\<lambda>r. res_next (heap_response s r)) EB_NULL (sock_first_response (heap_socket s k)) us"
    "chain (\<lambda>r. res_next (heap_response s r)) EB_NULL (sock_last_response (heap_socket s k)) ys"
    "set us \<inter> set ys = {}"
    using ls by (simp_all add: response_lists_def resp_chain_def)
  from c(2) obtain h r where hr: "rev_links res_next (\<lambda>v. res_next_update (\<lambda>_. v)) EB_NULL (heap_response s)
        EB_NULL (sock_last_response (heap_socket s k)) = Some (h, r)"
    "chain (\<lambda>a. res_next (h a)) EB_NULL r (rev ys)" "\<And>a. a \<notin> set ys \<Longrightarrow> h a = heap_response s a"
    "\<And>a. \<exists>v. h a = res_next_update (\<lambda>_. v) (heap_response s a)"
    by (rule response_list.rev_links_rev) blast
  define s' where "s' = upd_socket k (\<lambda>q. q\<lparr>sock_last_response := EB_NULL\<rparr>) (set_pp k pp r (s\<lparr>heap_response := h\<rparr>))"
  have us: "chain (\<lambda>a. res_next (h a)) EB_NULL (sock_first_response (heap_socket s k)) us"
    using c hr(3) by (subst chain_cong [where g = "\<lambda>r. res_next (heap_response s r)"]) (auto simp: disjoint_iff)
  have "response_lists s' k (us @ rev ys) []"
  proof (cases "us = []")
    case True
    with hr(2) pp show ?thesis by (simp add: response_lists_def resp_chain_def s'_def set_pp_def)
  next
    case False
    have next_upd: "(\<lambda>a. res_next (heap_response s' a)) = (\<lambda>a. res_next (h a))(last us := r)"
      using False pp by (auto simp: s'_def set_pp_def)
    have "chain ((\<lambda>a. res_next (h a))(last us := r)) EB_NULL (sock_first_response (heap_socket s k)) (us @ rev ys)"
      using us False hr(2) c(3) by (intro chain_append_link) auto
    then show ?thesis
      using False pp next_upd by (simp add: response_lists_def resp_chain_def) (simp add: s'_def set_pp_def)
  qed
  moreover have "r = (case rev ys of [] \<Rightarrow> EB_NULL | x # _ \<Rightarrow> x)"
    using hr(2) by (cases "rev ys") auto
  moreover have "\<exists>v. heap_response s' a = (heap_response s a)\<lparr>res_next := v\<rparr>" for a
    using hr(4) [of a] by (cases pp) (auto simp: s'_def set_pp_def)
  then have "same_responses s s'" by (simp add: same_responses_def)
  ultimately show thesis
    using hr(1) by (intro that [of r h s']) (auto simp: eb_response_flip_def s'_def)
qed

text \<open>What the search returns for the queue \<open>q\<close>: nothing, or the oldest response with the address
  together with its position.\<close>

definition found_in :: "'w eb_state \<Rightarrow> 'w eb_state \<Rightarrow> eb_ptr \<Rightarrow> uint16 \<Rightarrow> eb_ptr list \<Rightarrow> (eb_ptr option \<times> eb_ptr) option \<Rightarrow> bool" where
  "found_in s s' k key q res \<longleftrightarrow>
     (case res of None \<Rightarrow> \<forall>a \<in> set q. res_address (heap_response s a) \<noteq> key
      | Some (pp, p) \<Rightarrow> \<exists>as xs zs. q = as @ p # xs @ rev zs \<and> res_address (heap_response s p) = key
          \<and> (\<forall>a \<in> set as. res_address (heap_response s a) \<noteq> key)
          \<and> pp = (if as = [] then None else Some (last as)) \<and> response_lists s' k (as @ p # xs) zs)"

lemma same_responses_refl [simp]: "same_responses s s"
proof -
  have "\<exists>v. heap_response s a = (heap_response s a)\<lparr>res_next := v\<rparr>" for a
    by (rule exI [of _ "res_next (heap_response s a)"]) simp
  then show ?thesis by (simp add: same_responses_def)
qed

lemma same_responses_trans: "same_responses s s' \<Longrightarrow> same_responses s' s'' \<Longrightarrow> same_responses s s''"
  unfolding same_responses_def by (metis eb_response.update_convs(3) eb_response.surjective eb_response.cases
      response_list.st_st)

lemma same_responses_address: "same_responses s s' \<Longrightarrow> res_address (heap_response s' a) = res_address (heap_response s a)"
  unfolding same_responses_def by (metis eb_response.select_convs(1) eb_response.surjective eb_response.update_convs(3))

lemma found_in_cong: "same_responses s s1 \<Longrightarrow> found_in s1 s' k key q res \<longleftrightarrow> found_in s s' k key q res"
  by (simp add: found_in_def same_responses_address cong: option.case_cong)

text \<open>A round of the search at an element of the first list.\<close>

lemma find_response_at:
  assumes ls: "response_lists s k (us @ v # vs) ys" and pp: "pp = (if us = [] then None else Some (last us))"
  shows "get_pp k pp s = v" and "v \<noteq> EB_NULL"
    and "find_response k key pp s = (if res_address (heap_response s v) = key then Some (Some (pp, v), s)
      else find_response k key (Some v) s)"
proof -
  have c: "chain (\<lambda>r. res_next (heap_response s r)) EB_NULL (sock_first_response (heap_socket s k)) (us @ v # vs)"
    using ls by (simp add: response_lists_def resp_chain_def)
  show v: "v \<noteq> EB_NULL" using chain_not_nil [OF c] by auto
  show "get_pp k pp s = v"
  proof (cases us rule: rev_exhaust)
    case Nil
    then show ?thesis using c pp by (simp add: get_pp_def)
  next
    case (snoc us' u)
    then have "chain (\<lambda>r. res_next (heap_response s r)) EB_NULL (res_next (heap_response s u)) (v # vs)"
      using c chain_tail [of "\<lambda>r. res_next (heap_response s r)" EB_NULL _ us' u "v # vs"] by simp
    then show ?thesis using snoc pp by (simp add: get_pp_def)
  qed
  with v show "find_response k key pp s = (if res_address (heap_response s v) = key then Some (Some (pp, v), s)
      else find_response k key (Some v) s)"
    by (subst find_response.simps) simp
qed

lemma find_response_end:
  assumes ls: "response_lists s k us ys" and pp: "pp = (if us = [] then None else Some (last us))"
  shows "get_pp k pp s = EB_NULL"
proof -
  have c: "chain (\<lambda>r. res_next (heap_response s r)) EB_NULL (sock_first_response (heap_socket s k)) us"
    using ls by (simp add: response_lists_def resp_chain_def)
  show ?thesis
  proof (cases us rule: rev_exhaust)
    case Nil
    then show ?thesis using c pp by (simp add: get_pp_def)
  next
    case (snoc us' u)
    then show ?thesis using pp c chain_tail [of "\<lambda>r. res_next (heap_response s r)" EB_NULL _ us' u "[]"]
      by (simp add: get_pp_def)
  qed
qed

text \<open>The search within the first list.\<close>

lemma find_response_first:
  assumes "response_lists s k (us @ vs) ys" and "pp = (if us = [] then None else Some (last us))"
    and "\<forall>a \<in> set us. res_address (heap_response s a) \<noteq> key"
  shows "(\<exists>as p xs. us @ vs = as @ p # xs \<and> find_response k key pp s = Some (Some (if as = [] then None else Some (last as), p), s)
        \<and> res_address (heap_response s p) = key \<and> (\<forall>a \<in> set as. res_address (heap_response s a) \<noteq> key))
    \<or> (\<forall>a \<in> set (us @ vs). res_address (heap_response s a) \<noteq> key)
      \<and> find_response k key pp s = find_response k key (if us @ vs = [] then None else Some (last (us @ vs))) s"
  using assms
proof (induction vs arbitrary: us pp)
  case Nil
  then show ?case by simp
next
  case (Cons v vs)
  note at = find_response_at(3) [OF Cons.prems(1,2), of key]
  show ?case
  proof (cases "res_address (heap_response s v) = key")
    case True
    with at Cons.prems(2) have "find_response k key pp s
        = Some (Some (if us = [] then None else Some (last us), v), s)" by simp
    with True Cons.prems(3) show ?thesis by blast
  next
    case False
    have "response_lists s k ((us @ [v]) @ vs) ys" using Cons.prems(1) by simp
    from Cons.IH [OF this, of "Some v"] False Cons.prems(3) at show ?thesis
      unfolding append_assoc append_Cons append_Nil by simp
  qed
qed

lemma find_response_queue:
  assumes "response_queue s k q"
  shows "\<exists>res s'. find_response k key None s = Some (res, s') \<and> response_queue s' k q
    \<and> same_responses s s' \<and> found_in s s' k key q res"
proof -
  obtain xs ys where ls: "response_lists s k xs ys" and q: "q = xs @ rev ys"
    using assms by (auto simp: response_queue_def)
  have q': "response_queue s k q" by (rule assms)
  consider (here) as p zs where "xs = as @ p # zs"
        "find_response k key None s = Some (Some (if as = [] then None else Some (last as), p), s)"
        "res_address (heap_response s p) = key" "\<forall>a \<in> set as. res_address (heap_response s a) \<noteq> key"
    | (later) "\<forall>a \<in> set xs. res_address (heap_response s a) \<noteq> key"
        "find_response k key None s = find_response k key (if xs = [] then None else Some (last xs)) s"
    using find_response_first [of s k "[]" xs ys None key] ls
    by (simp only: append_Nil if_True list.set simp_thms ball_empty) blast
  then show ?thesis
  proof cases
    case here
    have "found_in s s k key q (Some (if as = [] then None else Some (last as), p))"
      unfolding found_in_def option.case prod.case using here ls q
      by (intro exI [of _ as] exI [of _ zs] exI [of _ ys]) simp
    with here(2) q' show ?thesis by auto
  next
    case later
    define pp where "pp = (if xs = [] then None else Some (last xs))"
    obtain r h s1 where f: "eb_response_flip (sock_last_response (heap_socket s k)) s = Some (r, s\<lparr>heap_response := h\<rparr>)"
      and s1: "s1 = upd_socket k (\<lambda>q. q\<lparr>sock_last_response := EB_NULL\<rparr>) (set_pp k pp r (s\<lparr>heap_response := h\<rparr>))"
      and ls1: "response_lists s1 k (xs @ rev ys) []" and r: "r = (case rev ys of [] \<Rightarrow> EB_NULL | x # _ \<Rightarrow> x)"
      and same: "same_responses s s1"
      by (rule flip_append [OF ls pp_def])
    have step: "find_response k key pp s = (if r = EB_NULL then Some (None, s1)
        else if res_address (heap_response s1 r) = key then Some (Some (pp, r), s1)
        else find_response k key (Some r) s1)"
      by (subst find_response.simps) (simp add: find_response_end [OF ls pp_def] f s1 Let_def)
    have qs1: "response_queue s1 k q" using ls1 q by (auto simp: response_queue_def)
    show ?thesis
    proof (cases "rev ys")
      case Nil
      then have "find_response k key None s = Some (None, s1)"
        using later(2) step r by (simp add: pp_def)
      with qs1 same later(1) Nil q show ?thesis by (auto simp: found_in_def)
    next
      case (Cons y zs)
      have ls2: "response_lists s1 k (xs @ y # zs) []" using ls1 Cons by simp
      have "r = y" "y \<noteq> EB_NULL" using r Cons find_response_at(2) [OF ls2 refl] by simp_all
      then have eq: "find_response k key None s = find_response k key pp s1"
        using later(2) step find_response_at(3) [OF ls2, of pp key] by (simp add: pp_def)
      have xs1: "\<forall>a \<in> set xs. res_address (heap_response s1 a) \<noteq> key"
        using later(1) same_responses_address [OF same] by simp
      have ne: "xs @ y # zs \<noteq> []" by simp
      consider (here) as p us where "xs @ y # zs = as @ p # us"
            "find_response k key pp s1 = Some (Some (if as = [] then None else Some (last as), p), s1)"
            "res_address (heap_response s1 p) = key" "\<forall>a \<in> set as. res_address (heap_response s1 a) \<noteq> key"
        | (none) "\<forall>a \<in> set (xs @ y # zs). res_address (heap_response s1 a) \<noteq> key"
            "find_response k key pp s1 = find_response k key (Some (last (xs @ y # zs))) s1"
        using find_response_first [OF ls2 pp_def xs1] unfolding if_not_P [OF ne] by blast
      then show ?thesis
      proof cases
        case here
        have "found_in s1 s1 k key q (Some (if as = [] then None else Some (last as), p))"
          unfolding found_in_def option.case prod.case using here ls2 q Cons
          by (intro exI [of _ as] exI [of _ us] exI [of _ "[]"]) simp
        with here(2) eq qs1 same show ?thesis using found_in_cong [OF same] by auto
      next
        case none
        define qq where "qq = (if xs @ y # zs = [] then None else Some (last (xs @ y # zs)))"
        have qq: "qq = Some (last (xs @ y # zs))" by (simp add: qq_def)
        obtain r' h' s2 where f': "eb_response_flip (sock_last_response (heap_socket s1 k)) s1 = Some (r', s1\<lparr>heap_response := h'\<rparr>)"
          and s2: "s2 = upd_socket k (\<lambda>q. q\<lparr>sock_last_response := EB_NULL\<rparr>)
              (set_pp k qq r' (s1\<lparr>heap_response := h'\<rparr>))"
          and ls3: "response_lists s2 k ((xs @ y # zs) @ rev []) []"
          and r': "r' = (case rev [] of [] \<Rightarrow> EB_NULL | x # _ \<Rightarrow> x)" and same': "same_responses s1 s2"
          by (rule flip_append [OF ls2 qq_def])
        have "find_response k key qq s1 = Some (None, s2)"
          using find_response_end [OF ls2 qq_def] f' r' s2
          by (subst find_response.simps) (simp add: Let_def)
        with none eq have "find_response k key None s = Some (None, s2)" by (simp only: qq)
        moreover have "response_queue s2 k q" using ls3 q Cons by (auto simp: response_queue_def)
        moreover have "found_in s s2 k key q None"
          using none(1) q Cons same_responses_address [OF same] by (auto simp: found_in_def)
        ultimately show ?thesis using same_responses_trans [OF same same'] by blast
      qed
    qed
  qed
qed

end
