(* ===== verification/EB_Handler.thy ===== *)
theory EB_Handler
  imports EB_Readwrite
begin

text \<open>
  \<^verbatim>\<open>glue/handler.c\<close>: attaching and detaching the virtual devices of a socket. The handlers form a list
  in ascending address order without overlap (\<open>handler_table\<close>), which is what makes the linear search
  of \<^verbatim>\<open>eb_socket_read\<close> and \<^verbatim>\<open>eb_socket_write\<close> well-defined, and \<^verbatim>\<open>eb_socket_attach\<close> also chooses the
  window of 64 KiB in which the socket publishes its SDB table.
\<close>

unbundle bit_operations_syntax

section \<open>The operations\<close>

text \<open>\<^verbatim>\<open>struct eb_handler\<close>. The device is an address in the memory of the application.\<close>

record eb_handler =
  hnd_device :: uint64
  hnd_data :: eb_user_data_t
  hnd_read :: uint64
  hnd_write :: uint64

text \<open>\<^verbatim>\<open>eb_handler_address_t *prev_ptr\<close> points to \<^verbatim>\<open>socket->first_handler\<close> (\<open>None\<close>) or to the \<^verbatim>\<open>next\<close> field of
  a handler.\<close>

definition set_handler_ptr :: "eb_ptr \<Rightarrow> eb_ptr option \<Rightarrow> eb_ptr \<Rightarrow> 'w eb_state \<Rightarrow> 'w eb_state" where
  "set_handler_ptr socketp prev_ptr v s =
     (case prev_ptr of None \<Rightarrow> upd_socket socketp (\<lambda>k. k\<lparr>sock_first_handler := v\<rparr>) s
      | Some p \<Rightarrow> upd_handler_address p (\<lambda>a. a\<lparr>had_next := v\<rparr>) s)"

text \<open>The scan for overlaps and for the place of insertion. \<open>Inl\<close> is the early return.\<close>

fun attach_scan ::
  "eb_address_t \<Rightarrow> eb_address_t \<Rightarrow> eb_ptr option \<Rightarrow> eb_ptr list \<Rightarrow> 'w eb_state
    \<Rightarrow> eb_status_t + (eb_ptr option \<times> eb_ptr)" where
  "attach_scan new_first new_last prev_ptr [] s = Inr (prev_ptr, EB_NULL)"
| "attach_scan new_first new_last prev_ptr (i # is) s =
     (let (dev_first, dev_last) = handler_range s i
      in if new_first \<le> dev_last \<and> dev_first \<le> new_last then Inl EB_ADDRESS
         else if new_first < dev_last then Inr (prev_ptr, i)
         else attach_scan new_first new_last (Some i) is s)"

text \<open>The search for a gap of \<^verbatim>\<open>SDB_REQUIRED_SIZE\<close> bytes between the handlers. The result is
  \<^verbatim>\<open>scan_last\<close>, and whether the loop ended at a gap.\<close>

fun sdb_place :: "eb_address_t \<Rightarrow> eb_ptr list \<Rightarrow> 'w eb_state \<Rightarrow> eb_address_t \<times> bool" where
  "sdb_place scan_last [] s = (scan_last, False)"
| "sdb_place scan_last (i # is) s =
     (let (dev_first, dev_last) = handler_range s i
      in if dev_first - scan_last \<ge> SDB_REQUIRED_SIZE then (scan_last, True)
         else sdb_place ((dev_last + 1 + 7) AND NOT 7) is s)"

text \<open>What follows the insertion at \<open>prev_ptr\<close>. When there is no room \<^verbatim>\<open>address\<close> is the handler the loop
  visited last.\<close>

definition attach_publish ::
  "eb_ptr \<Rightarrow> eb_ptr option \<Rightarrow> eb_ptr \<Rightarrow> eb_ptr \<Rightarrow> 'w eb_state \<Rightarrow> (eb_status_t \<times> 'w eb_state) option" where
  "attach_publish socketp prev_ptr addressp callbackp s =
     do { hs \<leftarrow> handler_list socketp s;
          let auxp = sock_aux (heap_socket s socketp);
          let (scan_last, found) = sdb_place 0 hs s;
          if \<not> found \<and> hs \<noteq> [] \<and> scan_last > - 1 - SDB_REQUIRED_SIZE
          then let s = set_handler_ptr socketp prev_ptr (had_next (heap_handler_address s (last hs))) s
               in Some (EB_ADDRESS, eb_free_handler_address addressp (eb_free_handler_callback callbackp s))
          else Some (EB_OK, upd_socket_aux auxp (\<lambda>a. a\<lparr>aux_sdb_offset := scan_last\<rparr>) s) }"

definition attach_insert ::
  "eb_ptr \<Rightarrow> eb_ptr option \<Rightarrow> eb_ptr \<Rightarrow> eb_handler \<Rightarrow> eb_ptr \<Rightarrow> eb_ptr \<Rightarrow> 'w eb_state \<Rightarrow> 'w eb_state" where
  "attach_insert socketp prev_ptr i handler addressp callbackp s =
     (let s = upd_handler_address addressp (\<lambda>a. a\<lparr>had_device := hnd_device handler, had_callback := callbackp\<rparr>) s;
          s = upd_handler_callback callbackp (\<lambda>c. c\<lparr>hcb_data := hnd_data handler, hcb_read := hnd_read handler,
                hcb_write := hnd_write handler\<rparr>) s;
          s = set_handler_ptr socketp prev_ptr addressp s
      in upd_handler_address addressp (\<lambda>a. a\<lparr>had_next := i\<rparr>) s)"

definition eb_socket_attach ::
  "'w eb_env \<Rightarrow> eb_ptr \<Rightarrow> eb_handler \<Rightarrow> 'w eb_state \<Rightarrow> (eb_status_t \<times> 'w eb_state) option" where
  "eb_socket_attach E socketp handler s =
     (let (addressp, s) = eb_new_handler_address E s in
      if addressp = EB_NULL then Some (EB_OOM, s) else
      let (callbackp, s) = eb_new_handler_callback E s in
      if callbackp = EB_NULL then Some (EB_OOM, eb_free_handler_address addressp s) else
      let component = dev_component (user_sdb_mem s (hnd_device handler));
          new_first = addr_first component; new_last = addr_last component;
          abort = (\<lambda>status s. Some (status, eb_free_handler_address addressp (eb_free_handler_callback callbackp s)))
      in if new_first > new_last then abort EB_ADDRESS s
         else if new_first \<noteq> addr_first component \<or> new_last \<noteq> addr_last component then abort EB_ADDRESS s
         else do { hs \<leftarrow> handler_list socketp s;
                   if length hs \<ge> 65536 div 64 then abort EB_OOM s
                   else case attach_scan new_first new_last None hs s of
                     Inl status \<Rightarrow> abort status s
                   | Inr (prev_ptr, i) \<Rightarrow>
                       attach_publish socketp prev_ptr addressp callbackp
                         (attach_insert socketp prev_ptr i handler addressp callbackp s) })"

text \<open>The loop of \<^verbatim>\<open>eb_socket_detach\<close>: the position of the handler of a device.\<close>

fun detach_scan :: "uint64 \<Rightarrow> eb_ptr option \<Rightarrow> eb_ptr list \<Rightarrow> 'w eb_state \<Rightarrow> (eb_ptr option \<times> eb_ptr) option" where
  "detach_scan device ptr [] s = None"
| "detach_scan device ptr (i # is) s =
     (if had_device (heap_handler_address s i) = device then Some (ptr, i)
      else detach_scan device (Some i) is s)"

definition eb_socket_detach :: "eb_ptr \<Rightarrow> uint64 \<Rightarrow> 'w eb_state \<Rightarrow> (eb_status_t \<times> 'w eb_state) option" where
  "eb_socket_detach socketp device s =
     do { hs \<leftarrow> handler_list socketp s;
          case detach_scan device None hs s of
            None \<Rightarrow> Some (EB_ADDRESS, s)
          | Some (ptr, i) \<Rightarrow>
              let address = heap_handler_address s i;
                  s = set_handler_ptr socketp ptr (had_next address) s
              in Some (EB_OK, eb_free_handler_address i (eb_free_handler_callback (had_callback address) s)) }"

section \<open>The handler table\<close>

type_synonym range = "eb_address_t \<times> eb_address_t"

text \<open>\<open>socket.h\<close>: in ascending order, non-overlapping.\<close>

definition ranges_ok :: "range list \<Rightarrow> bool" where
  "ranges_ok rs \<longleftrightarrow> (\<forall>r \<in> set rs. fst r \<le> snd r) \<and> sorted_wrt (\<lambda>q r. snd q < fst r) rs"

definition in_range :: "eb_address_t \<Rightarrow> range \<Rightarrow> bool" where
  "in_range x r \<longleftrightarrow> fst r \<le> x \<and> x \<le> snd r"

definition hnd_chain :: "'w eb_state \<Rightarrow> eb_ptr \<Rightarrow> eb_ptr list \<Rightarrow> bool" where
  "hnd_chain s p hs \<longleftrightarrow> chain (\<lambda>h. had_next (heap_handler_address s h)) EB_NULL p hs"

lemma handler_list_chain: "handler_list k s = Some hs \<longleftrightarrow> hnd_chain s (sock_first_handler (heap_socket s k)) hs"
  by (simp add: handler_list_def hnd_chain_def walk_eq_Some_iff)

text \<open>The table of socket \<open>k\<close>: its handlers \<open>hs\<close> with their callback records are allocated, distinct
  and in order.\<close>

definition handler_table :: "'w eb_state \<Rightarrow> eb_ptr \<Rightarrow> eb_ptr list \<Rightarrow> bool" where
  "handler_table s k hs \<longleftrightarrow> alloc_inv 128 dynamic_size s
     \<and> hnd_chain s (sock_first_handler (heap_socket s k)) hs
     \<and> ranges_ok (map (handler_range s) hs)
     \<and> (let ps = hs @ map (\<lambda>h. had_callback (heap_handler_address s h)) hs
        in distinct ps \<and> set ps \<subseteq> in_use 128 s)"

section \<open>Ranges\<close>

lemma ranges_ok_Nil [simp]: "ranges_ok []"
  by (simp add: ranges_ok_def)

lemma ranges_ok_Cons: "ranges_ok (r # rs) \<longleftrightarrow> fst r \<le> snd r \<and> (\<forall>q \<in> set rs. snd r < fst q) \<and> ranges_ok rs"
  by (auto simp: ranges_ok_def)

lemma ranges_ok_append:
  "ranges_ok (rs @ qs) \<longleftrightarrow> ranges_ok rs \<and> ranges_ok qs \<and> (\<forall>r \<in> set rs. \<forall>q \<in> set qs. snd r < fst q)"
  by (auto simp: ranges_ok_def sorted_wrt_append)

lemma ranges_ok_le: "ranges_ok rs \<Longrightarrow> r \<in> set rs \<Longrightarrow> fst r \<le> snd r"
  by (auto simp: ranges_ok_def)

lemma attach_scan_spec:
  assumes "ranges_ok (map (handler_range s) hs)" and "f \<le> l"
  shows "(case attach_scan f l prev hs s of
      Inl status \<Rightarrow> status = EB_ADDRESS \<and> (\<exists>h \<in> set hs. f \<le> snd (handler_range s h) \<and> fst (handler_range s h) \<le> l)
    | Inr (pp, i) \<Rightarrow> \<exists>as bs. hs = as @ bs \<and> pp = (if as = [] then prev else Some (last as))
        \<and> i = (case bs of [] \<Rightarrow> EB_NULL | b # _ \<Rightarrow> b)
        \<and> ranges_ok (map (handler_range s) as @ (f, l) # map (handler_range s) bs))"
  using assms
proof (induction hs arbitrary: prev)
  case Nil
  then show ?case by (simp add: ranges_ok_Cons)
next
  case (Cons h hs)
  obtain a b where ab: "handler_range s h = (a, b)" by (cases "handler_range s h")
  have ok: "a \<le> b" "\<forall>q \<in> set hs. b < fst (handler_range s q)" "ranges_ok (map (handler_range s) hs)"
    using Cons.prems(1) ab by (auto simp: ranges_ok_Cons)
  consider "f \<le> b \<and> a \<le> l" | "\<not> (f \<le> b \<and> a \<le> l)" "f < b" | "\<not> (f \<le> b \<and> a \<le> l)" "\<not> f < b" by blast
  then show ?case
  proof cases
    case 1
    then show ?thesis by (simp add: ab)
  next
    case 2
    then have "l < a" by auto
    moreover have "\<forall>q \<in> set hs. l < fst (handler_range s q)" using calculation ok by fastforce
    ultimately show ?thesis using 2 ok Cons.prems(2)
      by (auto simp: ab ranges_ok_Cons intro!: exI [of _ "[]"])
  next
    case 3
    then have "b < f" using ok(1) Cons.prems(2) by (cases "f = b") auto
    from Cons.IH [OF ok(3) Cons.prems(2), of "Some h"] 3 show ?thesis
    proof (cases "attach_scan f l (Some h) hs s")
      case (Inl st)
      with Cons.IH [OF ok(3) Cons.prems(2), of "Some h"] 3 show ?thesis by (simp add: ab)
    next
      case (Inr r)
      obtain pp i where r: "r = (pp, i)" by (cases r)
      with Inr Cons.IH [OF ok(3) Cons.prems(2), of "Some h"] obtain as bs where
        *: "hs = as @ bs" "pp = (if as = [] then Some h else Some (last as))"
          "i = (case bs of [] \<Rightarrow> EB_NULL | b # _ \<Rightarrow> b)"
          "ranges_ok (map (handler_range s) as @ (f, l) # map (handler_range s) bs)" by auto
      have "ranges_ok (map (handler_range s) (h # as) @ (f, l) # map (handler_range s) bs)"
        using *(1,4) ok \<open>b < f\<close> by (auto simp: ranges_ok_Cons ab)
      then have "\<exists>as' bs'. h # hs = as' @ bs' \<and> pp = (if as' = [] then prev else Some (last as'))
          \<and> i = (case bs' of [] \<Rightarrow> EB_NULL | b # _ \<Rightarrow> b)
          \<and> ranges_ok (map (handler_range s) as' @ (f, l) # map (handler_range s) bs')"
        using *(1-3) by (intro exI [of _ "h # as"] exI [of _ bs]) simp
      moreover have "attach_scan f l prev (h # hs) s = Inr (pp, i)" using 3 Inr r by (simp add: ab)
      ultimately show ?thesis by (simp only: sum.case prod.case)
    qed
  qed
qed

lemma attach_scan_overlap:
  assumes "ranges_ok (map (handler_range s) hs)" and "f \<le> l" and "attach_scan f l prev hs s = Inr r"
    and "h \<in> set hs"
  shows "\<not> (f \<le> snd (handler_range s h) \<and> fst (handler_range s h) \<le> l)"
proof -
  obtain pp i where "r = (pp, i)" by (cases r)
  with attach_scan_spec [OF assms(1,2), of prev] assms(3) obtain as bs where
    "hs = as @ bs" "ranges_ok (map (handler_range s) as @ (f, l) # map (handler_range s) bs)" by auto
  with assms(4) show ?thesis by (auto simp: ranges_ok_append ranges_ok_Cons)
qed

text \<open>In an ordered table at most one handler contains an address.\<close>

lemma ranges_ok_unique:
  assumes "ranges_ok (map r hs)" and "h \<in> set hs" "h' \<in> set hs" and "in_range x (r h)" "in_range x (r h')"
  shows "h = h'"
  using assms
proof (induction hs)
  case Nil
  then show ?case by simp
next
  case (Cons g hs)
  then have "\<forall>q \<in> set hs. snd (r g) < fst (r q)" by (auto simp: ranges_ok_Cons)
  with Cons show ?case by (auto simp: ranges_ok_Cons in_range_def)
qed

lemma find_handler_some: "find_handler x hs s = Some h \<Longrightarrow> h \<in> set hs \<and> in_range x (handler_range s h)"
  by (induction hs) (auto simp: in_range_def Let_def split: if_splits prod.splits)

lemma find_handler_none: "find_handler x hs s = None \<longleftrightarrow> (\<forall>h \<in> set hs. \<not> in_range x (handler_range s h))"
  by (induction hs) (auto simp: in_range_def Let_def split: if_splits prod.splits)

section \<open>Inserting and removing a handler\<close>

lemma insert_next:
  "(\<lambda>h. had_next (heap_handler_address (attach_insert k None i handler a c s) h))
     = (\<lambda>h. had_next (heap_handler_address s h))(a := i)"
  "p \<noteq> a \<Longrightarrow> (\<lambda>h. had_next (heap_handler_address (attach_insert k (Some p) i handler a c s) h))
     = (\<lambda>h. had_next (heap_handler_address s h))(p := a, a := i)"
  by (auto simp: attach_insert_def set_handler_ptr_def Let_def fun_eq_iff)

lemma insert_frame [simp]:
  "sock_first_handler (heap_socket (attach_insert k pp i handler a c s) k)
     = (case pp of None \<Rightarrow> a | Some _ \<Rightarrow> sock_first_handler (heap_socket s k))"
  "user_sdb_mem (attach_insert k pp i handler a c s) = user_sdb_mem s"
  "had_device (heap_handler_address (attach_insert k pp i handler a c s) h)
     = (if h = a then hnd_device handler else had_device (heap_handler_address s h))"
  "had_callback (heap_handler_address (attach_insert k pp i handler a c s) h)
     = (if h = a then c else had_callback (heap_handler_address s h))"
  "alloc_inv lo ok (attach_insert k pp i handler a c s) \<longleftrightarrow> alloc_inv lo ok s"
  "in_use lo (attach_insert k pp i handler a c s) = in_use lo s"
  by (cases pp; auto simp: attach_insert_def set_handler_ptr_def Let_def)+

lemma handler_range_insert:
  "handler_range (attach_insert k pp i handler a c s) h =
     (if h = a then let d = dev_component (user_sdb_mem s (hnd_device handler)) in (addr_first d, addr_last d)
      else handler_range s h)"
  by (simp add: handler_range_def Let_def)

lemma attach_insert_table:
  assumes tab: "handler_table s k (us @ vs)" and pp: "pp = (if us = [] then None else Some (last us))"
    and i: "i = (case vs of [] \<Rightarrow> EB_NULL | v # _ \<Rightarrow> v)"
    and d: "d = dev_component (user_sdb_mem s (hnd_device handler))"
    and ok: "ranges_ok (map (handler_range s) us @ (addr_first d, addr_last d) # map (handler_range s) vs)"
    and fresh: "{a, c} \<subseteq> in_use 128 s" "a \<noteq> c"
      "{a, c} \<inter> set ((us @ vs) @ map (\<lambda>h. had_callback (heap_handler_address s h)) (us @ vs)) = {}"
  shows "handler_table (attach_insert k pp i handler a c s) k (us @ a # vs)"
proof -
  let ?s = "attach_insert k pp i handler a c s"
  have a: "a \<notin> set (us @ vs)" "a \<noteq> EB_NULL" "us \<noteq> [] \<Longrightarrow> last us \<noteq> a"
    using fresh dyn.alloc.null_not_used [of s] by auto
  have eq: "map (handler_range ?s) (us @ a # vs)
      = map (handler_range s) us @ (addr_first d, addr_last d) # map (handler_range s) vs"
    "map (\<lambda>h. had_callback (heap_handler_address ?s h)) (us @ a # vs)
      = map (\<lambda>h. had_callback (heap_handler_address s h)) us @ c # map (\<lambda>h. had_callback (heap_handler_address s h)) vs"
    using a(1) by (auto simp: handler_range_insert d Let_def)
  have "hnd_chain s (sock_first_handler (heap_socket s k)) (us @ vs)"
    using tab by (simp add: handler_table_def)
  from chain_insert [OF this [unfolded hnd_chain_def] a(2,1) i] a(3)
  have "hnd_chain ?s (sock_first_handler (heap_socket ?s k)) (us @ a # vs)"
    by (cases "us = []") (simp_all only: hnd_chain_def insert_next insert_frame pp if_True if_False option.case append_Nil simp_thms)
  then show ?thesis
    using tab ok fresh unfolding handler_table_def Let_def eq by (auto simp: image_Un)
qed

text \<open>Memory operations do not touch the table.\<close>

lemma handler_table_frame:
  assumes "handler_table s k hs" and "heap_handler_address s' = heap_handler_address s" and "heap_socket s' = heap_socket s"
    and "user_sdb_mem s' = user_sdb_mem s" and "alloc_inv 128 dynamic_size s'"
    and "set (hs @ map (\<lambda>h. had_callback (heap_handler_address s h)) hs) \<subseteq> in_use 128 s'"
  shows "handler_table s' k hs"
proof -
  have "handler_range s' = handler_range s" by (simp add: fun_eq_iff handler_range_def assms(2,4))
  with assms show ?thesis by (simp add: handler_table_def hnd_chain_def Let_def)
qed

lemma new_handler_pair:
  assumes tab: "handler_table s k hs"
    and n1: "eb_new_handler_address E s = (a, s1)" "a \<noteq> EB_NULL"
    and n2: "eb_new_handler_callback E s1 = (c, s2)" "c \<noteq> EB_NULL"
  shows "handler_table s2 k hs" and "in_use 128 s2 = {a, c} \<union> in_use 128 s" and "a \<noteq> c"
    and "{a, c} \<inter> in_use 128 s = {}" and "heap_handler_address s2 = heap_handler_address s"
    and "user_sdb_mem s2 = user_sdb_mem s" and "heap_socket s2 = heap_socket s"
    and "heap_socket_aux s2 = heap_socket_aux s"
proof -
  have inv: "alloc_inv 128 dynamic_size s" using tab by (simp add: handler_table_def)
  note n = n1(1) [unfolded eb_new_defs] n2(1) [unfolded eb_new_defs]
  note a = dyn.alloc.new_inv [OF inv, of E] dyn.alloc.new_fresh [OF inv, of E] dyn.alloc.new_used [OF inv, of E]
  have i1: "alloc_inv 128 dynamic_size s1" using a(1) n(1) by simp
  note b = dyn.alloc.new_inv [OF i1, of E] dyn.alloc.new_fresh [OF i1, of E] dyn.alloc.new_used [OF i1, of E]
  have u1: "a \<notin> in_use 128 s" "in_use 128 s1 = insert a (in_use 128 s)" using a n(1) n1(2) by auto
  have u2: "c \<notin> in_use 128 s1" "in_use 128 s2 = insert c (in_use 128 s1)" "alloc_inv 128 dynamic_size s2"
    using b n(2) n2(2) by auto
  note fr = eb_new_memory_item_frame [of E s, unfolded n(1) snd_conv] eb_new_memory_item_frame [of E s1, unfolded n(2) snd_conv]
  show "heap_handler_address s2 = heap_handler_address s" "user_sdb_mem s2 = user_sdb_mem s"
    "heap_socket s2 = heap_socket s" "heap_socket_aux s2 = heap_socket_aux s" by (simp_all add: fr)
  then show "handler_table s2 k hs"
    using tab u1 u2 by (intro handler_table_frame [OF tab]) (auto simp: handler_table_def Let_def)
  show "in_use 128 s2 = {a, c} \<union> in_use 128 s" "a \<noteq> c" "{a, c} \<inter> in_use 128 s = {}" using u1 u2 by auto
qed

text \<open>Giving both objects back.\<close>

lemma free_handler_pair:
  assumes tab: "handler_table s k hs" and u: "{a, c} \<subseteq> in_use 128 s" "a \<noteq> c"
    and fresh: "{a, c} \<inter> set (hs @ map (\<lambda>h. had_callback (heap_handler_address s h)) hs) = {}"
    and s': "s' = eb_free_handler_address a (eb_free_handler_callback c s)"
  shows "handler_table s' k hs" and "in_use 128 s' = in_use 128 s - {a, c}"
    and "heap_handler_address s' = heap_handler_address s"
proof -
  have inv: "alloc_inv 128 dynamic_size s" using tab by (simp add: handler_table_def)
  note p1 = alloc_inv_push [OF inv, of c]
  have c: "c \<in> in_use 128 s" "a \<in> in_use 128 (eb_free_memory_item c s)" using u p1(2) by auto
  note p2 = alloc_inv_push [OF p1(1) [OF c(1)] c(2)]
  show iu: "in_use 128 s' = in_use 128 s - {a, c}" using p1 p2 c by (auto simp: s' eb_free_defs)
  show "heap_handler_address s' = heap_handler_address s" by (simp add: s' eb_free_defs)
  then show "handler_table s' k hs"
    using tab p2 fresh iu by (intro handler_table_frame [OF tab]) (auto simp: s' eb_free_defs handler_table_def Let_def)
qed

section \<open>The window of the SDB table\<close>

text \<open>The placement depends only on the ranges.\<close>

fun place :: "eb_address_t \<Rightarrow> range list \<Rightarrow> eb_address_t \<times> bool" where
  "place scan_last [] = (scan_last, False)"
| "place scan_last (r # rs) =
     (if fst r - scan_last \<ge> SDB_REQUIRED_SIZE then (scan_last, True)
      else place ((snd r + 1 + 7) AND NOT 7) rs)"

definition has_room :: "range list \<Rightarrow> bool" where
  "has_room rs \<longleftrightarrow> snd (place 0 rs) \<or> rs = [] \<or> fst (place 0 rs) \<le> - 1 - SDB_REQUIRED_SIZE"

lemma sdb_place_eq: "sdb_place x hs s = place x (map (handler_range s) hs)"
  by (induction hs arbitrary: x) (simp_all add: Let_def case_prod_beta)

text \<open>Publishing when there is room only sets the offset; otherwise the table is cut at the place of
  insertion.\<close>

lemma attach_publish_room:
  assumes "handler_table s k hs" and "has_room (map (handler_range s) hs)"
  shows "attach_publish k pp a c s = Some (EB_OK, upd_socket_aux (sock_aux (heap_socket s k))
    (\<lambda>x. x\<lparr>aux_sdb_offset := fst (place 0 (map (handler_range s) hs))\<rparr>) s)"
proof -
  have "handler_list k s = Some hs" using assms(1) by (simp add: handler_list_chain handler_table_def)
  with assms(2) show ?thesis
    by (auto simp: attach_publish_def sdb_place_eq has_room_def Let_def case_prod_beta linorder_not_less)
qed

lemma chain_last: "chain nxt nil p xs \<Longrightarrow> xs \<noteq> [] \<Longrightarrow> nxt (last xs) = nil"
  by (induction xs arbitrary: p) auto

lemma set_handler_frame [simp]:
  "user_sdb_mem (set_handler_ptr k pp v s) = user_sdb_mem s"
  "had_device (heap_handler_address (set_handler_ptr k pp v s) h) = had_device (heap_handler_address s h)"
  "had_callback (heap_handler_address (set_handler_ptr k pp v s) h) = had_callback (heap_handler_address s h)"
  "alloc_inv lo ok (set_handler_ptr k pp v s) \<longleftrightarrow> alloc_inv lo ok s"
  "in_use lo (set_handler_ptr k pp v s) = in_use lo s"
  by (cases pp; simp add: set_handler_ptr_def)+

lemma handler_range_set_ptr [simp]: "handler_range (set_handler_ptr k pp v s) = handler_range s"
  by (rule ext) (simp add: handler_range_def)

text \<open>Cutting the list after a prefix and continuing with a suffix.\<close>

lemma set_handler_ptr_table:
  assumes tab: "handler_table s k (us @ ws @ vs)" and pp: "pp = (if us = [] then None else Some (last us))"
    and q: "q = (case vs of [] \<Rightarrow> EB_NULL | v # _ \<Rightarrow> v)"
  shows "handler_table (set_handler_ptr k pp q s) k (us @ vs)"
proof -
  let ?s = "set_handler_ptr k pp q s"
  have c: "chain (\<lambda>h. had_next (heap_handler_address s h)) EB_NULL (sock_first_handler (heap_socket s k)) (us @ ws @ vs)"
    using tab by (simp add: handler_table_def hnd_chain_def)
  have v: "chain (\<lambda>h. had_next (heap_handler_address s h)) EB_NULL q vs"
    using c chain_suffix [of _ EB_NULL _ "us @ ws"] by (cases vs) (auto simp: q)
  have "hnd_chain ?s (sock_first_handler (heap_socket ?s k)) (us @ vs)"
  proof (cases "us = []")
    case True
    with v pp show ?thesis by (simp add: hnd_chain_def set_handler_ptr_def)
  next
    case False
    have n: "(\<lambda>h. had_next (heap_handler_address ?s h)) = (\<lambda>h. had_next (heap_handler_address s h))(last us := q)"
      using False pp by (auto simp: set_handler_ptr_def)
    have "chain (\<lambda>h. had_next (heap_handler_address ?s h)) EB_NULL (sock_first_handler (heap_socket s k)) (us @ vs)"
      unfolding n using chain_distinct [OF c] False by (intro chain_relink [OF c _ v]) auto
    then show ?thesis using False pp by (simp add: hnd_chain_def) (simp add: set_handler_ptr_def)
  qed
  moreover have "ranges_ok (map (handler_range s) (us @ vs))"
    using tab by (auto simp: handler_table_def ranges_ok_append)
  moreover have "distinct ((us @ vs) @ map (\<lambda>h. had_callback (heap_handler_address s h)) (us @ vs))"
    using tab unfolding handler_table_def Let_def by (simp add: Int_Un_distrib Int_Un_distrib2)
  ultimately show ?thesis using tab unfolding handler_table_def Let_def by (simp add: image_Un)
qed

section \<open>What attaching does\<close>

text \<open>The outcome of \<^verbatim>\<open>eb_socket_attach\<close> for the range \<open>r\<close>: the table with the new handler, or an error
  with the table as before, or, when no window for the SDB table is left, the table cut before the new
  handler.\<close>

definition attached ::
  "'w eb_state \<Rightarrow> eb_ptr \<Rightarrow> eb_ptr list \<Rightarrow> uint64 \<Rightarrow> range \<Rightarrow> eb_status_t \<Rightarrow> 'w eb_state \<Rightarrow> bool" where
  "attached s k hs device r status s' \<longleftrightarrow>
     (if status = EB_OK
      then \<exists>us a vs. hs = us @ vs \<and> handler_table s' k (us @ a # vs)
        \<and> in_use 128 s' = {a, had_callback (heap_handler_address s' a)} \<union> in_use 128 s
        \<and> {a, had_callback (heap_handler_address s' a)} \<inter> in_use 128 s = {}
        \<and> had_device (heap_handler_address s' a) = device
        \<and> (\<forall>h \<in> set hs. had_device (heap_handler_address s' h) = had_device (heap_handler_address s h))
        \<and> map (handler_range s') (us @ a # vs) = map (handler_range s) us @ r # map (handler_range s) vs
        \<and> has_room (map (handler_range s') (us @ a # vs))
        \<and> aux_sdb_offset (heap_socket_aux s' (sock_aux (heap_socket s' k)))
            = fst (place 0 (map (handler_range s') (us @ a # vs)))
      else in_use 128 s' = in_use 128 s \<and> map (handler_range s') hs = map (handler_range s) hs \<and>
        (handler_table s' k hs
         \<or> (\<exists>us vs. hs = us @ vs \<and> handler_table s' k us \<and> status = EB_ADDRESS
             \<and> \<not> has_room (map (handler_range s) us @ r # map (handler_range s) vs))))"

lemma handler_range_frame:
  "heap_handler_address s' = heap_handler_address s \<Longrightarrow> user_sdb_mem s' = user_sdb_mem s \<Longrightarrow>
   handler_range s' = handler_range s"
  by (simp add: fun_eq_iff handler_range_def)

lemma attach_abort:
  assumes tab: "handler_table s k hs" and "{a, c} \<inter> in_use 128 s = {}" and "a \<noteq> c"
    and s2: "handler_table s2 k hs" "in_use 128 s2 = {a, c} \<union> in_use 128 s"
      "heap_handler_address s2 = heap_handler_address s" "user_sdb_mem s2 = user_sdb_mem s"
    and "status \<noteq> EB_OK"
  shows "attached s k hs (hnd_device handler) r status (eb_free_handler_address a (eb_free_handler_callback c s2))"
proof -
  let ?s = "eb_free_handler_address a (eb_free_handler_callback c s2)"
  have "{a, c} \<inter> set (hs @ map (\<lambda>h. had_callback (heap_handler_address s2 h)) hs) = {}"
    using tab assms(2) s2(3) by (auto simp: handler_table_def Let_def)
  from free_handler_pair [OF s2(1) _ assms(3) this refl] s2(2) assms(2,8)
  have "handler_table ?s k hs" "in_use 128 ?s = in_use 128 s" "heap_handler_address ?s = heap_handler_address s2"
    by auto
  moreover have "handler_range ?s = handler_range s"
    using s2(3,4) by (intro handler_range_frame) (simp_all add: eb_free_defs)
  ultimately show ?thesis using \<open>status \<noteq> EB_OK\<close> by (simp add: attached_def)
qed

lemma attach_no_room:
  assumes tab: "handler_table s3 k (us @ a # vs)" and pp: "pp = (if us = [] then None else Some (last us))"
    and room: "\<not> has_room (map (handler_range s3) (us @ a # vs))"
    and c: "c = had_callback (heap_handler_address s3 a)"
  shows "\<exists>s'. attach_publish k pp a c s3 = Some (EB_ADDRESS, s') \<and> handler_table s' k us
    \<and> in_use 128 s' = in_use 128 s3 - {a, c} \<and> user_sdb_mem s' = user_sdb_mem s3
    \<and> (\<forall>h. had_device (heap_handler_address s' h) = had_device (heap_handler_address s3 h))"
proof -
  have ch: "hnd_chain s3 (sock_first_handler (heap_socket s3 k)) (us @ a # vs)"
    using tab by (simp add: handler_table_def)
  then have hl: "handler_list k s3 = Some (us @ a # vs)" by (simp add: handler_list_chain)
  have nil: "had_next (heap_handler_address s3 (last (us @ a # vs))) = EB_NULL"
    using chain_last [OF ch [unfolded hnd_chain_def]] by simp
  let ?s = "set_handler_ptr k pp EB_NULL s3"
  let ?s' = "eb_free_handler_address a (eb_free_handler_callback c ?s)"
  have "attach_publish k pp a c s3 = Some (EB_ADDRESS, ?s')"
    using room hl nil unfolding attach_publish_def has_room_def
    by (simp add: sdb_place_eq Let_def case_prod_beta linorder_not_le)
  moreover have t: "handler_table ?s k us"
    using set_handler_ptr_table [of s3 k us "a # vs" "[]", OF _ pp refl] tab by simp
  have "distinct ((us @ a # vs) @ map (\<lambda>h. had_callback (heap_handler_address s3 h)) (us @ a # vs))"
    "set ((us @ a # vs) @ map (\<lambda>h. had_callback (heap_handler_address s3 h)) (us @ a # vs)) \<subseteq> in_use 128 s3"
    using tab by (simp_all add: handler_table_def Let_def)
  then have "{a, c} \<subseteq> in_use 128 ?s" "a \<noteq> c"
    "{a, c} \<inter> set (us @ map (\<lambda>h. had_callback (heap_handler_address ?s h)) us) = {}"
    using c by auto
  note f = free_handler_pair [OF t this refl]
  ultimately show ?thesis by (intro exI [of _ ?s'] conjI f(1)) (auto simp: f(2,3) eb_free_defs)
qed

lemma attach_inserted:
  assumes tab: "handler_table s k hs" and ac: "{a, c} \<inter> in_use 128 s = {}" "a \<noteq> c"
    and s2: "handler_table s2 k hs" "in_use 128 s2 = {a, c} \<union> in_use 128 s"
      "heap_handler_address s2 = heap_handler_address s" "user_sdb_mem s2 = user_sdb_mem s"
    and d: "d = dev_component (user_sdb_mem s (hnd_device handler))" and r: "r = (addr_first d, addr_last d)"
    and le: "addr_first d \<le> addr_last d"
    and scan: "attach_scan (addr_first d) (addr_last d) None hs s2 = Inr (pp, i)"
  shows "\<exists>status s'. attach_publish k pp a c (attach_insert k pp i handler a c s2) = Some (status, s')
    \<and> attached s k hs (hnd_device handler) r status s'"
proof -
  let ?s3 = "attach_insert k pp i handler a c s2"
  have rng: "handler_range s2 = handler_range s" using s2(3,4) by (rule handler_range_frame)
  have "ranges_ok (map (handler_range s2) hs)" using s2(1) by (simp add: handler_table_def)
  from attach_scan_spec [OF this le, of None] scan obtain us vs where hs: "hs = us @ vs"
    and pp: "pp = (if us = [] then None else Some (last us))"
    and i: "i = (case vs of [] \<Rightarrow> EB_NULL | v # _ \<Rightarrow> v)"
    and ok: "ranges_ok (map (handler_range s2) us @ (addr_first d, addr_last d) # map (handler_range s2) vs)"
    by auto
  have fresh: "{a, c} \<subseteq> in_use 128 s2"
    "{a, c} \<inter> set ((us @ vs) @ map (\<lambda>h. had_callback (heap_handler_address s2 h)) (us @ vs)) = {}"
    using s2(2) ac tab hs by (auto simp: handler_table_def Let_def s2(3))
  have d2: "d = dev_component (user_sdb_mem s2 (hnd_device handler))" by (simp add: d s2(4))
  note tab3 = attach_insert_table [OF s2(1) [unfolded hs] pp i d2 ok fresh(1) ac(2) fresh(2)]
  have anot: "a \<notin> set us" "a \<notin> set vs" using fresh(2) by auto
  have rng3: "map (handler_range ?s3) (us @ a # vs) = map (handler_range s) us @ r # map (handler_range s) vs"
    using anot by (auto simp: handler_range_insert rng r d s2(4) Let_def)
  show ?thesis
  proof (cases "has_room (map (handler_range ?s3) (us @ a # vs))")
    case True
    let ?s' = "upd_socket_aux (sock_aux (heap_socket ?s3 k))
       (\<lambda>x. x\<lparr>aux_sdb_offset := fst (place 0 (map (handler_range ?s3) (us @ a # vs)))\<rparr>) ?s3"
    have rng': "handler_range ?s' = handler_range ?s3" by (rule handler_range_frame) simp_all
    have "handler_table ?s' k (us @ a # vs)"
      using tab3 by (intro handler_table_frame [OF tab3]) (simp_all add: handler_table_def Let_def)
    then have "attached s k hs (hnd_device handler) r EB_OK ?s'"
      unfolding attached_def if_P [OF refl] rng'
      by (intro exI [of _ us] exI [of _ a] exI [of _ vs] conjI)
        (use hs ac(1) s2(2,3) anot rng3 True in \<open>auto simp del: map_append\<close>)
    then show ?thesis using attach_publish_room [OF tab3 True] by auto
  next
    case no: False
    have "c = had_callback (heap_handler_address ?s3 a)" by simp
    from attach_no_room [OF tab3 pp no this] obtain s' where
      s': "attach_publish k pp a c ?s3 = Some (EB_ADDRESS, s')" "handler_table s' k us"
        "in_use 128 s' = in_use 128 ?s3 - {a, c}" "user_sdb_mem s' = user_sdb_mem ?s3"
        "\<forall>h. had_device (heap_handler_address s' h) = had_device (heap_handler_address ?s3 h)" by blast
    have "map (handler_range s') hs = map (handler_range s) hs"
      using s'(4,5) anot hs by (auto simp: handler_range_def s2(3,4))
    moreover have "in_use 128 s' = in_use 128 s" using s'(3) s2(2) ac(1) by auto
    ultimately have "attached s k hs (hnd_device handler) r EB_ADDRESS s'"
      using s'(2) no hs unfolding attached_def rng3 by auto
    then show ?thesis using s'(1) by blast
  qed
qed

lemma attached_unchanged:
  assumes "handler_table s k hs" and "heap_handler_address s' = heap_handler_address s" "heap_socket s' = heap_socket s"
    "user_sdb_mem s' = user_sdb_mem s" and "alloc_inv 128 dynamic_size s'" "in_use 128 s' = in_use 128 s"
    and "status \<noteq> EB_OK"
  shows "attached s k hs (hnd_device handler) r status s'"
proof -
  have "handler_table s' k hs"
    using assms by (intro handler_table_frame [OF assms(1)]) (auto simp: handler_table_def Let_def)
  then show ?thesis using assms handler_range_frame [OF assms(2,4)] by (simp add: attached_def)
qed

lemma eb_socket_attach_attached:
  assumes tab: "handler_table s k hs"
    and d: "d = dev_component (user_sdb_mem s (hnd_device handler))" and r: "r = (addr_first d, addr_last d)"
  shows "\<exists>status s'. eb_socket_attach E k handler s = Some (status, s') \<and> attached s k hs (hnd_device handler) r status s'"
proof -
  have inv: "alloc_inv 128 dynamic_size s" using tab by (simp add: handler_table_def)
  obtain a s1 where n1: "eb_new_handler_address E s = (a, s1)" by (cases "eb_new_handler_address E s")
  obtain c s2 where n2: "eb_new_handler_callback E s1 = (c, s2)" by (cases "eb_new_handler_callback E s1")
  note n = n1 [unfolded eb_new_defs] n2 [unfolded eb_new_defs]
  note fr = eb_new_memory_item_frame [of E s, unfolded n(1) snd_conv] eb_new_memory_item_frame [of E s1, unfolded n(2) snd_conv]
  have u1: "alloc_inv 128 dynamic_size s1" "a \<notin> in_use 128 s"
    "in_use 128 s1 = (if a = EB_NULL then in_use 128 s else insert a (in_use 128 s))"
    using dyn.alloc.new_inv [OF inv, of E] dyn.alloc.new_fresh [OF inv, of E] dyn.alloc.new_used [OF inv, of E] n(1)
    by auto
  have u2: "alloc_inv 128 dynamic_size s2" "c = EB_NULL \<Longrightarrow> in_use 128 s2 = in_use 128 s1"
    using dyn.alloc.new_inv [OF u1(1), of E] dyn.alloc.new_used [OF u1(1), of E] n(2) by auto
  consider "a = EB_NULL" | "a \<noteq> EB_NULL" "c = EB_NULL" | "a \<noteq> EB_NULL" "c \<noteq> EB_NULL" by blast
  then show ?thesis
  proof cases
    case 1
    then have "attached s k hs (hnd_device handler) r EB_OOM s1" using u1 by (intro attached_unchanged [OF tab]) (simp_all add: fr)
    then show ?thesis using 1 by (simp add: eb_socket_attach_def n1)
  next
    case 2
    have "attached s k hs (hnd_device handler) r EB_OOM (eb_free_memory_item a s2)"
      using 2 u1 u2 alloc_inv_push [OF u2(1), of a] by (intro attached_unchanged [OF tab]) (auto simp: fr)
    then show ?thesis using 2 by (simp add: eb_socket_attach_def n1 n2 eb_free_defs Let_def)
  next
    case 3
    note P = new_handler_pair [OF tab n1 3(1) n2 3(2)]
    note abort = attach_abort [OF tab P(4,3,1,2,5,6)]
    have "handler_list k s2 = Some hs" using P(1) by (simp add: handler_list_chain handler_table_def)
    then have run: "eb_socket_attach E k handler s =
        (let abort = \<lambda>st. Some (st, eb_free_handler_address a (eb_free_handler_callback c s2))
         in if addr_first d > addr_last d then abort EB_ADDRESS
         else if length hs \<ge> 1024 then abort EB_OOM
         else case attach_scan (addr_first d) (addr_last d) None hs s2 of Inl st \<Rightarrow> abort st
           | Inr (pp, i) \<Rightarrow> attach_publish k pp a c (attach_insert k pp i handler a c s2))"
      using 3 by (simp add: eb_socket_attach_def n1 n2 Let_def P(6) d)
    have "ranges_ok (map (handler_range s2) hs)" using P(1) by (simp add: handler_table_def)
    note scan = attach_scan_spec [OF this, of "addr_first d" "addr_last d" None]
    show ?thesis
    proof (cases "addr_first d > addr_last d \<or> length hs \<ge> 1024 \<or>
        (\<exists>st. attach_scan (addr_first d) (addr_last d) None hs s2 = Inl st)")
      case True
      then have "\<exists>st. eb_socket_attach E k handler s
          = Some (st, eb_free_handler_address a (eb_free_handler_callback c s2)) \<and> st \<noteq> EB_OK"
        using scan unfolding run Let_def
        by (cases "addr_last d < addr_first d"; cases "1024 \<le> length hs") (auto simp: linorder_not_less)
      with abort show ?thesis by blast
    next
      case False
      then obtain pp i where x: "attach_scan (addr_first d) (addr_last d) None hs s2 = Inr (pp, i)"
        by (cases "attach_scan (addr_first d) (addr_last d) None hs s2") auto
      with False attach_inserted [OF tab P(4,3,1,2,5,6) d r _ x] show ?thesis unfolding run Let_def by auto
    qed
  qed
qed

section \<open>What detaching does\<close>

lemma detach_scan_at:
  assumes "\<forall>h \<in> set us. had_device (heap_handler_address s h) \<noteq> device"
    and "had_device (heap_handler_address s a) = device"
  shows "detach_scan device ptr (us @ a # vs) s = Some (if us = [] then ptr else Some (last us), a)"
  using assms by (induction us arbitrary: ptr) auto

lemma detach_scan_none:
  "detach_scan device ptr hs s = None \<longleftrightarrow> (\<forall>h \<in> set hs. had_device (heap_handler_address s h) \<noteq> device)"
  by (induction hs arbitrary: ptr) auto

lemma eb_socket_detach_at:
  assumes tab: "handler_table s k (us @ a # vs)"
    and dev: "had_device (heap_handler_address s a) = device"
    and other: "\<forall>h \<in> set us. had_device (heap_handler_address s h) \<noteq> device"
  shows "\<exists>s'. eb_socket_detach k device s = Some (EB_OK, s') \<and> handler_table s' k (us @ vs)
    \<and> handler_range s' = handler_range s
    \<and> in_use 128 s' = in_use 128 s - {a, had_callback (heap_handler_address s a)}"
proof -
  let ?pp = "if us = [] then None else Some (last us)"
  let ?c = "had_callback (heap_handler_address s a)"
  have ch: "hnd_chain s (sock_first_handler (heap_socket s k)) (us @ a # vs)"
    using tab by (simp add: handler_table_def)
  have nxt: "had_next (heap_handler_address s a) = (case vs of [] \<Rightarrow> EB_NULL | v # _ \<Rightarrow> v)"
    using chain_tail [OF ch [unfolded hnd_chain_def]] by (cases vs) auto
  let ?s = "set_handler_ptr k ?pp (had_next (heap_handler_address s a)) s"
  let ?s' = "eb_free_handler_address a (eb_free_handler_callback ?c ?s)"
  have run: "eb_socket_detach k device s = Some (EB_OK, ?s')"
    using ch by (simp add: eb_socket_detach_def handler_list_chain [symmetric] detach_scan_at [OF other dev] Let_def)
  have t: "handler_table ?s k (us @ vs)"
    using set_handler_ptr_table [of s k us "[a]" vs, OF _ refl nxt] tab by simp
  have "distinct ((us @ a # vs) @ map (\<lambda>h. had_callback (heap_handler_address s h)) (us @ a # vs))"
    "set ((us @ a # vs) @ map (\<lambda>h. had_callback (heap_handler_address s h)) (us @ a # vs)) \<subseteq> in_use 128 s"
    using tab by (simp_all add: handler_table_def Let_def)
  then have "{a, ?c} \<subseteq> in_use 128 ?s" "a \<noteq> ?c"
    "{a, ?c} \<inter> set ((us @ vs) @ map (\<lambda>h. had_callback (heap_handler_address ?s h)) (us @ vs)) = {}"
    by auto
  note f = free_handler_pair [OF t this refl]
  have "handler_range ?s' = handler_range ?s"
    by (rule handler_range_frame) (simp_all add: eb_free_defs)
  with run f show ?thesis by simp
qed

section \<open>The window is disjoint from the handlers\<close>

lemma align8: "x AND 7 = 0 \<Longrightarrow> (x + 7) AND NOT 7 = (x :: uint64)"
proof -
  assume x: "x AND 7 = 0"
  then have "x + 7 = x OR 7" by (simp add: disjunctive_add_eq_or)
  then have "(x + 7) AND NOT 7 = x AND NOT 7" by (simp add: bit.conj_disj_distrib2)
  also have "\<dots> = x"
  proof (rule bit_eqI)
    fix n assume n: "possible_bit TYPE(64 word) n"
    have "bit (x AND 7) n = False" using x by simp
    then show "bit (x AND NOT 7) n = bit x n" using n by (auto simp: bit_simps)
  qed
  finally show ?thesis .
qed

definition aligned8 :: "range \<Rightarrow> bool" where
  "aligned8 r \<longleftrightarrow> fst r AND 7 = 0 \<and> (snd r + 1) AND 7 = 0 \<and> snd r \<noteq> - 1"

definition in_window :: "eb_address_t \<Rightarrow> eb_address_t \<Rightarrow> bool" where
  "in_window w x \<longleftrightarrow> w \<le> x \<and> x < w + SDB_REQUIRED_SIZE"

lemma place_window:
  assumes "ranges_ok rs" and "\<forall>r \<in> set rs. aligned8 r" and "\<forall>r \<in> set rs. sl \<le> fst r"
    and "place sl rs = (w, found)" and "found \<or> w \<le> - 1 - SDB_REQUIRED_SIZE"
  shows "sl \<le> w \<and> unat w + 65536 \<le> 2 ^ 64 \<and> (\<forall>r \<in> set rs. snd r < w \<or> unat w + 65536 \<le> unat (fst r))"
  using assms
proof (induction rs arbitrary: sl)
  case Nil
  then show ?case by (auto simp: word_le_nat_alt)
next
  case (Cons r rs)
  have r: "aligned8 r" "fst r \<le> snd r" "\<forall>q \<in> set rs. snd r < fst q" "ranges_ok rs" "sl \<le> fst r"
    using Cons.prems by (auto simp: ranges_ok_Cons)
  show ?case
  proof (cases "fst r - sl \<ge> SDB_REQUIRED_SIZE")
    case True
    with Cons.prems(4) have w: "w = sl" by simp
    have "unat (fst r - sl) = unat (fst r) - unat sl" using r(5) by (rule unat_sub)
    with True have 1: "unat sl + 65536 \<le> unat (fst r)" using r(5) by (simp add: word_le_nat_alt)
    moreover have "unat (fst r) < 2 ^ 64" using unat_less_exp [of "fst r"] by simp
    moreover have "unat (fst r) \<le> unat (fst q)" if "q \<in> set rs" for q
      using r(2,3) that by (force simp: word_le_nat_alt word_less_nat_alt)
    ultimately show ?thesis unfolding w by (auto intro: le_trans)
  next
    case False
    have s1: "(snd r + 1 + 7) AND NOT 7 = snd r + 1" using r(1) by (intro align8) (simp add: aligned8_def)
    have s2: "unat (snd r + 1) = unat (snd r) + 1"
    proof -
      have "1 + snd r \<noteq> 0" using r(1) by (metis add_eq_0_iff aligned8_def)
      from unatSuc [OF this] show ?thesis by (simp add: add.commute)
    qed
    have "sl \<le> snd r + 1" "snd r < snd r + 1" "\<forall>q \<in> set rs. snd r + 1 \<le> fst q"
      using r(2,3,5) s2 by (auto simp: word_le_nat_alt word_less_nat_alt Suc_le_eq)
    moreover have "snd r + 1 \<le> w \<and> unat w + 65536 \<le> 2 ^ 64 \<and> (\<forall>r \<in> set rs. snd r < w \<or> unat w + 65536 \<le> unat (fst r))"
    proof (intro Cons.IH)
      show "place (snd r + 1) rs = (w, found)"
        using Cons.prems(4) False by (simp only: place.simps if_False s1)
    qed (use Cons.prems calculation(3) r(4) in auto)
    ultimately show ?thesis by auto
  qed
qed

section \<open>Concrete tables\<close>

text \<open>Socket 5 without handlers; the ranges of the devices of the application are given by \<open>rng\<close>.\<close>

definition empty_table :: "(uint64 \<Rightarrow> range) \<Rightarrow> unit eb_state" where
  "empty_table rng = (free_state ())\<lparr>
     heap_socket := (\<lambda>_. \<lparr>sock_first_device = EB_NULL, sock_first_handler = EB_NULL, sock_first_response = EB_NULL,
       sock_last_response = EB_NULL, sock_aux = 6, sock_widths = 0xFF\<rparr>),
     user_sdb_mem := (\<lambda>p. (user_sdb_mem (eb_state0 ()) p)\<lparr>dev_component :=
       (dev_component (user_sdb_mem (eb_state0 ()) p))\<lparr>addr_first := fst (rng p), addr_last := snd (rng p)\<rparr>\<rparr>)\<rparr>"

abbreviation handler_of :: "uint64 \<Rightarrow> eb_handler" where
  "handler_of d \<equiv> \<lparr>hnd_device = d, hnd_data = 0, hnd_read = 1, hnd_write = 1\<rparr>"

lemma handler_table_empty: "handler_table (empty_table rng) 5 []"
proof -
  have "alloc_inv 128 dynamic_size (empty_table rng) \<longleftrightarrow> alloc_inv 128 dynamic_size (free_state ())"
    by (simp add: alloc_inv_def empty_table_def)
  then show ?thesis
    using alloc_inv_free_state by (simp add: handler_table_def hnd_chain_def) (simp add: empty_table_def)
qed

lemmas attach_run = eb_socket_attach_def eb_new_defs eb_free_defs eb_new_memory_item_def eb_free_memory_item_def
  attach_publish_def attach_insert_def set_handler_ptr_def handler_range_def handler_list_def walk.simps
  empty_table_def free_state_def eb_state0_def upd_handler_address_def upd_handler_callback_def upd_socket_def
  upd_socket_aux_def

section \<open>Properties\<close>

text \<open>C28: The handler table stays in ascending order and without overlap. On a well-formed table
  \<^verbatim>\<open>eb_socket_attach\<close> returns; if it succeeds the table is the old one with the new handler
  inserted at its place, its two objects are the only ones allocated, and the SDB window is recomputed;
  if it fails nothing stays allocated, the ranges are unchanged, and the table is the old one or, when no
  window is left for the SDB table, a prefix of it.\<close>

theorem eb_socket_attach_table:
  assumes "handler_table s k hs" and "d = dev_component (user_sdb_mem s (hnd_device handler))"
  shows "\<exists>status s'. eb_socket_attach E k handler s = Some (status, s')
    \<and> attached s k hs (hnd_device handler) (addr_first d, addr_last d) status s'"
  by (rule eb_socket_attach_attached [OF assms refl])

text \<open>The window in which a socket publishes its SDB table does not hide a device. After a successful
  \<^verbatim>\<open>eb_socket_attach\<close>, if the ranges of all handlers are aligned to eight bytes and end below the top of
  the address space, the 64 KiB from \<^verbatim>\<open>sdb_offset\<close> on do not wrap and contain no address of a handler.\<close>

theorem eb_socket_attach_window:
  assumes "handler_table s k hs" and "eb_socket_attach E k handler s = Some (EB_OK, s')"
    and "handler_list k s' = Some hs'" and "\<forall>h \<in> set hs'. aligned8 (handler_range s' h)"
    and "w = aux_sdb_offset (heap_socket_aux s' (sock_aux (heap_socket s' k)))"
  shows "unat w + 65536 \<le> 2 ^ 64 \<and> (\<forall>h \<in> set hs'. \<forall>x. in_window w x \<longrightarrow> \<not> in_range x (handler_range s' h))"
proof -
  from eb_socket_attach_attached [OF assms(1) refl refl, of E handler] assms(2)
  obtain ks where t: "handler_table s' k ks" "has_room (map (handler_range s') ks)"
    "w = fst (place 0 (map (handler_range s') ks))"
    by (auto simp: attached_def assms(5))
  have hs': "hs' = ks" using t(1) assms(3) by (metis handler_list_chain handler_table_def option.inject)
  have ne: "ks \<noteq> [] \<or> w = 0" using t(3) by (cases ks) auto
  have "ranges_ok (map (handler_range s') ks)" using t(1) by (simp add: handler_table_def)
  from place_window [OF this, of 0] assms(4) t(2,3) ne
  have w: "unat w + 65536 \<le> 2 ^ 64" "\<forall>h \<in> set ks. snd (handler_range s' h) < w \<or> unat w + 65536 \<le> unat (fst (handler_range s' h))"
    by (auto simp: has_room_def hs' prod_eq_iff)
  have "x < w + 65536 \<Longrightarrow> unat x < unat w + 65536" for x
    using w(1) by (auto simp: word_less_nat_alt unat_word_ariths intro: less_le_trans)
  with w show ?thesis
    by (auto simp: in_window_def in_range_def hs' word_le_nat_alt word_less_nat_alt) (meson leD le_trans)+
qed

theorem eb_socket_attach_table_witness:
  "\<exists>status s'. eb_socket_attach unit_env 5 (handler_of 1) (empty_table (\<lambda>_. (0x10000, 0x1FFFF))) = Some (status, s')
     \<and> attached (empty_table (\<lambda>_. (0x10000, 0x1FFFF))) 5 [] 1 (0x10000, 0x1FFFF) status s'"
  using eb_socket_attach_table [OF handler_table_empty refl, of unit_env "handler_of 1" "\<lambda>_. (0x10000, 0x1FFFF)"]
  by (simp add: empty_table_def)

theorem eb_socket_attach_window_witness:
  "\<exists>s'. eb_socket_attach unit_env 5 (handler_of 1) (empty_table (\<lambda>_. (0x10000, 0x1FFFF))) = Some (EB_OK, s')
     \<and> handler_list 5 s' = Some [128]
     \<and> (\<forall>x. in_window 0 x \<longrightarrow> \<not> in_range x (handler_range s' 128))"
proof -
  let ?s = "empty_table (\<lambda>_. (0x10000, 0x1FFFF))"
  obtain s' where run: "eb_socket_attach unit_env 5 (handler_of 1) ?s = Some (EB_OK, s')"
    and hl: "handler_list 5 s' = Some [128]" and r: "handler_range s' 128 = (0x10000, 0x1FFFF)"
    and w: "aux_sdb_offset (heap_socket_aux s' (sock_aux (heap_socket s' 5))) = 0"
    by (simp add: attach_run)
  from eb_socket_attach_window [OF handler_table_empty run hl _ refl] run hl r w show ?thesis
    by (auto simp: aligned8_def)
qed

text \<open>C29: The search for a handler is exact on a well-formed table: it finds a handler if and only if that
  handler is attached and its range contains the address, and there is at most one such handler.\<close>

theorem find_handler_exact:
  assumes "handler_table s k hs"
  shows "(find_handler x hs s = Some h \<longleftrightarrow> h \<in> set hs \<and> in_range x (handler_range s h))
    \<and> (h \<in> set hs \<and> in_range x (handler_range s h) \<and> h' \<in> set hs \<and> in_range x (handler_range s h') \<longrightarrow> h = h')"
proof -
  have ok: "ranges_ok (map (handler_range s) hs)" using assms by (simp add: handler_table_def)
  note u = ranges_ok_unique [OF ok]
  have "find_handler x hs s = Some h" if "h \<in> set hs" "in_range x (handler_range s h)"
    using that u find_handler_some [of x hs s] find_handler_none [of x hs s]
    by (cases "find_handler x hs s") blast+
  with u find_handler_some [of x hs s h] show ?thesis by blast
qed

theorem find_handler_exact_witness:
  "\<exists>s'. eb_socket_attach unit_env 5 (handler_of 1) (empty_table (\<lambda>_. (0x10000, 0x1FFFF))) = Some (EB_OK, s')
     \<and> find_handler 0x10008 [128] s' = Some 128"
proof -
  let ?s = "empty_table (\<lambda>_. (0x10000, 0x1FFFF))"
  obtain s' where run: "eb_socket_attach unit_env 5 (handler_of 1) ?s = Some (EB_OK, s')"
    and hl: "handler_list 5 s' = Some [128]" and r: "handler_range s' 128 = (0x10000, 0x1FFFF)"
    by (simp add: attach_run)
  from eb_socket_attach_attached [OF handler_table_empty [of "\<lambda>_. (0x10000, 0x1FFFF)"] refl refl,
      of unit_env "handler_of 1"] run
  obtain ks where ks: "handler_table s' 5 ks" by (auto simp: attached_def)
  moreover have "ks = [128]" using ks hl by (simp add: handler_table_def handler_list_chain [symmetric])
  ultimately have "handler_table s' 5 [128]" by simp
  from find_handler_exact [OF this, of "0x10008" 128] run r show ?thesis by (simp add: in_range_def)
qed

text \<open>Detaching undoes attaching: if the device is not attached already and \<^verbatim>\<open>eb_socket_attach\<close> succeeds,
  then \<^verbatim>\<open>eb_socket_detach\<close> of that device succeeds and leaves the same table and the same objects
  allocated as before.\<close>

theorem eb_socket_attach_detach:
  assumes "handler_table s k hs" and "\<forall>h \<in> set hs. had_device (heap_handler_address s h) \<noteq> hnd_device handler"
    and "eb_socket_attach E k handler s = Some (EB_OK, s1)"
  shows "\<exists>s2. eb_socket_detach k (hnd_device handler) s1 = Some (EB_OK, s2) \<and> handler_table s2 k hs
    \<and> in_use 128 s2 = in_use 128 s"
proof -
  from eb_socket_attach_attached [OF assms(1) refl refl, of E handler] assms(3)
  obtain us a vs where hs: "hs = us @ vs" and tab: "handler_table s1 k (us @ a # vs)"
    and iu: "in_use 128 s1 = {a, had_callback (heap_handler_address s1 a)} \<union> in_use 128 s"
      "{a, had_callback (heap_handler_address s1 a)} \<inter> in_use 128 s = {}"
    and dev: "had_device (heap_handler_address s1 a) = hnd_device handler"
      "\<forall>h \<in> set hs. had_device (heap_handler_address s1 h) = had_device (heap_handler_address s h)"
    by (auto simp: attached_def)
  from eb_socket_detach_at [OF tab dev(1)] assms(2) dev(2) hs iu show ?thesis by auto
qed

theorem eb_socket_attach_detach_witness:
  "\<exists>s1 s2. eb_socket_attach unit_env 5 (handler_of 1) (empty_table (\<lambda>_. (0x10000, 0x1FFFF))) = Some (EB_OK, s1)
     \<and> eb_socket_detach 5 1 s1 = Some (EB_OK, s2) \<and> handler_list 5 s2 = Some []"
proof -
  let ?s = "empty_table (\<lambda>_. (0x10000, 0x1FFFF))"
  obtain s1 where run: "eb_socket_attach unit_env 5 (handler_of 1) ?s = Some (EB_OK, s1)"
    by (simp add: attach_run)
  from eb_socket_attach_detach [OF handler_table_empty _ run] run show ?thesis
    by (auto simp: handler_table_def handler_list_chain)
qed

text \<open>Running out of room for the SDB table loses attached devices. With one device attached at
  \<^verbatim>\<open>[0x10000, 2^64 - 9]\<close>, attaching a second one at \<^verbatim>\<open>[0, 7]\<close> leaves no window; the abort path stores
  the \<^verbatim>\<open>next\<close> field of the last handler at the place of insertion, so the call fails and the first
  device is no longer attached either.\<close>

theorem eb_socket_attach_drops_handlers:
  "\<exists>s1 s2. let rng = (\<lambda>p. if p = 1 then (0x10000, 0xFFFFFFFFFFFFFFF7) else (0, 7)) in
     eb_socket_attach unit_env 5 (handler_of 1) (empty_table rng) = Some (EB_OK, s1)
     \<and> handler_list 5 s1 = Some [128]
     \<and> eb_socket_attach unit_env 5 (handler_of 2) s1 = Some (EB_ADDRESS, s2)
     \<and> handler_list 5 s2 = Some []"
  by (simp add: attach_run Let_def)

text \<open>For ranges that are not aligned to eight bytes the window can hide a device: with handlers at
  \<^verbatim>\<open>[0, 3]\<close>, \<^verbatim>\<open>[4, 7]\<close> and \<^verbatim>\<open>[8, 15]\<close> attached in this order all three calls succeed, and the SDB table is
  placed at address 8, on top of the third device.\<close>

theorem eb_socket_attach_window_overlaps:
  "\<exists>s1 s2 s3. let rng = (\<lambda>p. if p = 1 then (0, 3) else if p = 2 then (4, 7) else (8, 15)) in
     eb_socket_attach unit_env 5 (handler_of 1) (empty_table rng) = Some (EB_OK, s1)
     \<and> eb_socket_attach unit_env 5 (handler_of 2) s1 = Some (EB_OK, s2)
     \<and> eb_socket_attach unit_env 5 (handler_of 3) s2 = Some (EB_OK, s3)
     \<and> handler_range s3 132 = (8, 15) \<and> aux_sdb_offset (heap_socket_aux s3 6) = 8"
  by (simp add: attach_run Let_def)

end
