(* ===== verification/EB_Device.thy ===== *)
theory EB_Device
  imports EB_Handler
begin

text \<open>
  \<^verbatim>\<open>glue/device.c\<close>, with the two functions of \<^verbatim>\<open>glue/socket.c\<close> it needs to close a device: opening a
  connection and negotiating its widths, passive connections, and closing. Closing a device answers every
  cycle that waits on it, those in flight and those not sent yet, with \<^verbatim>\<open>EB_TIMEOUT\<close>.

  \<open>run\<close> stands for \<^verbatim>\<open>eb_socket_run\<close>, which is defined on top of these functions.
\<close>

unbundle bit_operations_syntax

section \<open>Cycles in flight\<close>

text \<open>The responses from \<open>responsep\<close> on are pushed onto the lists \<open>good\<close> and \<open>bad\<close>.\<close>

partial_function (option) eb_socket_filter_inflight ::
  "eb_ptr \<Rightarrow> eb_ptr \<Rightarrow> eb_ptr \<Rightarrow> eb_ptr \<Rightarrow> 'w eb_state \<Rightarrow> (eb_ptr \<times> eb_ptr \<times> 'w eb_state) option" where
  "eb_socket_filter_inflight good bad devicep responsep s =
     (if responsep = EB_NULL then Some (good, bad, s)
      else let response = heap_response s responsep; next_responsep = res_next response
           in if cyc_link (heap_cycle s (res_cycle response)) = devicep
              then eb_socket_filter_inflight good responsep devicep next_responsep
                     (upd_response responsep (\<lambda>r. r\<lparr>res_next := bad\<rparr>) s)
              else eb_socket_filter_inflight responsep bad devicep next_responsep
                     (upd_response responsep (\<lambda>r. r\<lparr>res_next := good\<rparr>) s))"

partial_function (option) kill_responses :: "'w eb_env \<Rightarrow> eb_ptr \<Rightarrow> 'w eb_state \<Rightarrow> 'w eb_state option" where
  "kill_responses E responsep s =
     (if responsep = EB_NULL then Some s
      else do { let response = heap_response s responsep;
                let next_responsep = res_next response;
                let cyclep = res_cycle response;
                let s = upd_response responsep (\<lambda>r. r\<lparr>res_cycle := EB_NULL\<rparr>) s;
                s \<leftarrow> finish_cycle E cyclep (cyc_ops (heap_cycle s cyclep)) EB_TIMEOUT s;
                kill_responses E next_responsep (eb_free_response responsep s) })"

text \<open>Splitting the queue of a socket: \<open>bad\<close> are the responses that wait for the device.\<close>

definition split_inflight :: "eb_ptr \<Rightarrow> eb_ptr \<Rightarrow> 'w eb_state \<Rightarrow> (eb_ptr \<times> 'w eb_state) option" where
  "split_inflight socketp devicep s =
     do { (good, bad, s) \<leftarrow> eb_socket_filter_inflight EB_NULL EB_NULL devicep
                              (sock_last_response (heap_socket s socketp)) s;
          (firstp, s) \<leftarrow> eb_response_flip (sock_first_response (heap_socket s socketp)) s;
          (good, bad, s) \<leftarrow> eb_socket_filter_inflight good bad devicep firstp s;
          Some (bad, upd_socket socketp (\<lambda>k. k\<lparr>sock_first_response := good, sock_last_response := EB_NULL\<rparr>) s) }"

definition eb_socket_kill_inflight :: "'w eb_env \<Rightarrow> eb_ptr \<Rightarrow> eb_ptr \<Rightarrow> 'w eb_state \<Rightarrow> 'w eb_state option" where
  "eb_socket_kill_inflight E socketp devicep s =
     do { (bad, s) \<leftarrow> split_inflight socketp devicep s; kill_responses E bad s }"

section \<open>Closing a device\<close>

partial_function (option) kill_cycles :: "'w eb_env \<Rightarrow> eb_ptr \<Rightarrow> eb_ptr \<Rightarrow> 'w eb_state \<Rightarrow> 'w eb_state option" where
  "kill_cycles E devicep cyclep s =
     (if cyclep = EB_NULL then Some s
      else do { let nextp = cyc_link (heap_cycle s cyclep);
                let s = upd_cycle cyclep (\<lambda>c. c\<lparr>cyc_link := devicep\<rparr>) s;
                s \<leftarrow> finish_cycle E cyclep (cyc_ops (heap_cycle s cyclep)) EB_TIMEOUT s;
                kill_cycles E devicep nextp s })"

text \<open>The first half of \<^verbatim>\<open>eb_device_close\<close>: all cycles of the device are answered.\<close>

definition close_cycles :: "'w eb_env \<Rightarrow> eb_ptr \<Rightarrow> 'w eb_state \<Rightarrow> 'w eb_state option" where
  "close_cycles E devicep s =
     do { let device = heap_device s devicep;
          let passive = (dev_ready device = devicep);
          let firstp = (if passive then EB_NULL else dev_ready device);
          s \<leftarrow> (if passive then Some s
               else eb_socket_kill_inflight E (dev_socket device) devicep
                      (upd_device devicep (\<lambda>d. d\<lparr>dev_ready := devicep\<rparr>) s));
          (h, prevp) \<leftarrow> rev_links cyc_link (\<lambda>v. cyc_link_update (\<lambda>_. v)) EB_NULL (heap_cycle s) EB_NULL firstp;
          kill_cycles E devicep prevp (s\<lparr>heap_cycle := h\<rparr>) }"

text \<open>\<^verbatim>\<open>eb_device_t* ptr\<close> points to \<^verbatim>\<open>socket->first_device\<close> (\<open>None\<close>) or to the \<^verbatim>\<open>next\<close> field of a device.\<close>

fun device_ptr :: "eb_ptr \<Rightarrow> eb_ptr option \<Rightarrow> eb_ptr list \<Rightarrow> eb_ptr option option" where
  "device_ptr devicep ptr [] = None"
| "device_ptr devicep ptr (i # is) = (if i = devicep then Some ptr else device_ptr devicep (Some i) is)"

definition set_device_ptr :: "eb_ptr \<Rightarrow> eb_ptr option \<Rightarrow> eb_ptr \<Rightarrow> 'w eb_state \<Rightarrow> 'w eb_state" where
  "set_device_ptr socketp ptr v s =
     (case ptr of None \<Rightarrow> upd_socket socketp (\<lambda>k. k\<lparr>sock_first_device := v\<rparr>) s
      | Some d \<Rightarrow> upd_device d (\<lambda>x. x\<lparr>dev_next := v\<rparr>) s)"

definition device_list :: "eb_ptr \<Rightarrow> 'w eb_state \<Rightarrow> eb_ptr list option" where
  "device_list socketp s = walk (\<lambda>d. dev_next (heap_device s d)) EB_NULL (sock_first_device (heap_socket s socketp))"

definition eb_disconnect :: "'w eb_env \<Rightarrow> eb_ptr \<Rightarrow> eb_ptr \<Rightarrow> 'w eb_state \<Rightarrow> 'w eb_state" where
  "eb_disconnect E transportp linkp s =
     (let transport = heap_transport s transportp
      in s\<lparr>os := tops_disconnect (env_transports E (tra_link_type transport)) transport (heap_link s linkp) (os s)\<rparr>)"

definition eb_device_close :: "'w eb_env \<Rightarrow> eb_ptr \<Rightarrow> 'w eb_state \<Rightarrow> (eb_status_t \<times> 'w eb_state) option" where
  "eb_device_close E devicep s =
     (let socketp = dev_socket (heap_device s devicep) in
      if dev_unready (heap_device s devicep) \<noteq> 0 then Some (EB_BUSY, s)
      else do { s \<leftarrow> close_cycles E devicep s;
                let device = heap_device s devicep;
                ds \<leftarrow> device_list socketp s;
                case device_ptr devicep None ds of
                  None \<Rightarrow> Some (EB_FAIL, s)
                | Some ptr \<Rightarrow>
                    let s = set_device_ptr socketp ptr (dev_next device) s;
                        s = (if dev_link device \<noteq> EB_NULL
                             then eb_free_link (dev_link device) (eb_disconnect E (dev_transport device) (dev_link device) s)
                             else s)
                    in Some (EB_OK, eb_free_device devicep s) })"

section \<open>Opening a device\<close>

text \<open>The loop over the transports of the socket. The result is the transport that did not answer
  \<^verbatim>\<open>EB_ADDRESS\<close> with its status, or \<open>None\<close>.\<close>

fun connect_transports ::
  "'w eb_env \<Rightarrow> eb_ptr \<Rightarrow> string \<Rightarrow> bool \<Rightarrow> eb_ptr list \<Rightarrow> 'w eb_state
    \<Rightarrow> ((eb_ptr \<times> eb_status_t) option \<times> 'w eb_state) option" where
  "connect_transports E linkp address passive [] s = Some (None, s)"
| "connect_transports E linkp address passive (transportp # ts) s =
     do { let transport = heap_transport s transportp;
          (status, l, w) \<leftarrow> tops_connect (env_transports E (tra_link_type transport)) transport (heap_link s linkp)
                             address passive (os s);
          let s = upd_link linkp (\<lambda>_. l) (s\<lparr>os := w\<rparr>);
          if status \<noteq> EB_ADDRESS then Some (Some (transportp, status), s)
          else connect_transports E linkp address passive ts s }"

definition transport_list :: "eb_ptr \<Rightarrow> 'w eb_state \<Rightarrow> eb_ptr list option" where
  "transport_list socketp s =
     walk (\<lambda>t. tra_next (heap_transport s t)) EB_NULL
       (aux_first_transport (heap_socket_aux s (sock_aux (heap_socket s socketp))))"

text \<open>Both memory blocks of a device; on failure none stays allocated.\<close>

definition new_device_link :: "'w eb_env \<Rightarrow> 'w eb_state \<Rightarrow> (eb_ptr \<times> eb_ptr) option \<times> 'w eb_state" where
  "new_device_link E s =
     (let (devicep, s) = eb_new_device E s in
      if devicep = EB_NULL then (None, s)
      else let (linkp, s) = eb_new_link E s in
      if linkp = EB_NULL then (None, eb_free_device devicep s)
      else (Some (devicep, linkp), s))"

text \<open>Connect a device that is already filled in, and put it on the list of the socket.\<close>

definition connect_device ::
  "'w eb_env \<Rightarrow> eb_ptr \<Rightarrow> eb_ptr \<Rightarrow> eb_ptr \<Rightarrow> string \<Rightarrow> bool \<Rightarrow> 'w eb_state \<Rightarrow> (eb_status_t \<times> 'w eb_state) option" where
  "connect_device E socketp devicep linkp address passive s =
     do { ts \<leftarrow> transport_list socketp s;
          let free = (\<lambda>status s. Some (status, eb_free_device devicep (eb_free_link linkp s)));
          (found, s) \<leftarrow> connect_transports E linkp address passive ts s;
          case found of
            None \<Rightarrow> free EB_ADDRESS s
          | Some (transportp, status) \<Rightarrow>
              if status \<noteq> EB_OK then free status s
              else let s = upd_device devicep (\<lambda>d. d\<lparr>dev_transport := transportp,
                             dev_next := sock_first_device (heap_socket s socketp)\<rparr>) s
                   in Some (EB_OK, upd_socket socketp (\<lambda>k. k\<lparr>sock_first_device := devicep\<rparr>) s) }"

text \<open>Waiting for the probe response, at most three seconds per attempt.\<close>

partial_function (option) probe_wait ::
  "(eb_ptr \<Rightarrow> int \<Rightarrow> 'w eb_state \<Rightarrow> (int \<times> 'w eb_state) option) \<Rightarrow> eb_ptr \<Rightarrow> eb_ptr \<Rightarrow> int \<Rightarrow> 'w eb_state \<Rightarrow> 'w eb_state option" where
  "probe_wait run socketp devicep timeout s =
     (if timeout > 0 \<and> dev_link (heap_device s devicep) \<noteq> EB_NULL \<and> dev_widths (heap_device s devicep) = 0
      then do { (got, s) \<leftarrow> run socketp timeout s; probe_wait run socketp devicep (timeout - got) s }
      else Some s)"

definition probe_packet :: "eb_width_t \<Rightarrow> eb_ptr \<Rightarrow> bytes" where
  "probe_packet widths devicep = [0x4E, 0x6F, 0x11, widths] @ be_bytes 4 (ucast devicep)"

partial_function (option) probe_loop ::
  "'w eb_env \<Rightarrow> (eb_ptr \<Rightarrow> int \<Rightarrow> 'w eb_state \<Rightarrow> (int \<times> 'w eb_state) option) \<Rightarrow> eb_ptr \<Rightarrow> eb_ptr \<Rightarrow> eb_width_t \<Rightarrow> int
    \<Rightarrow> 'w eb_state \<Rightarrow> 'w eb_state option" where
  "probe_loop E run socketp devicep proposed_widths attempts s =
     do { s \<leftarrow> probe_wait run socketp devicep 3000000 (eb_send E devicep (probe_packet proposed_widths devicep) s);
          let device = heap_device s devicep;
          if dev_widths device = 0 \<and> dev_link device \<noteq> EB_NULL \<and> attempts - 1 \<noteq> 0
          then probe_loop E run socketp devicep proposed_widths (attempts - 1) s
          else Some s }"

text \<open>What follows the connection: the widths are taken as proposed or negotiated.\<close>

definition negotiate ::
  "'w eb_env \<Rightarrow> (eb_ptr \<Rightarrow> int \<Rightarrow> 'w eb_state \<Rightarrow> (int \<times> 'w eb_state) option) \<Rightarrow> eb_ptr \<Rightarrow> eb_ptr \<Rightarrow> eb_width_t \<Rightarrow> int
    \<Rightarrow> 'w eb_state \<Rightarrow> (eb_status_t \<times> eb_ptr \<times> 'w eb_state) option" where
  "negotiate E run socketp devicep proposed_widths attempts s =
     (let fail = (\<lambda>status s. do { (_, s) \<leftarrow> eb_device_close E devicep s; Some (status, EB_NULL, s) }) in
      if attempts = 0
      then if \<not> eb_width_refined proposed_widths then fail EB_WIDTH s
           else Some (EB_OK, devicep, upd_device devicep (\<lambda>d. d\<lparr>dev_widths := proposed_widths\<rparr>) s)
      else do { s \<leftarrow> probe_loop E run socketp devicep proposed_widths attempts
                       (upd_device devicep (\<lambda>d. d\<lparr>dev_widths := 0\<rparr>) s);
                let device = heap_device s devicep;
                if dev_link device = EB_NULL then fail EB_FAIL s
                else if dev_widths device = 0 then fail EB_TIMEOUT s
                else let widths = dev_widths device AND proposed_widths;
                         s = upd_device devicep (\<lambda>d. d\<lparr>dev_widths := widths\<rparr>) s
                     in if \<not> eb_width_possible widths then fail EB_WIDTH s
                        else Some (EB_OK, devicep, upd_device devicep (\<lambda>d. d\<lparr>dev_widths := eb_width_refine widths\<rparr>) s) })"

definition eb_device_open ::
  "'w eb_env \<Rightarrow> (eb_ptr \<Rightarrow> int \<Rightarrow> 'w eb_state \<Rightarrow> (int \<times> 'w eb_state) option) \<Rightarrow> eb_ptr \<Rightarrow> string \<Rightarrow> eb_width_t \<Rightarrow> int
    \<Rightarrow> 'w eb_state \<Rightarrow> (eb_status_t \<times> eb_ptr \<times> 'w eb_state) option" where
  "eb_device_open E run socketp address proposed_widths attempts s =
     (case new_device_link E s of
        (None, s) \<Rightarrow> Some (EB_OOM, EB_NULL, s)
      | (Some (devicep, linkp), s) \<Rightarrow>
          let widths = proposed_widths AND sock_widths (heap_socket s socketp) in
          if \<not> eb_width_possible widths then Some (EB_WIDTH, EB_NULL, eb_free_device devicep (eb_free_link linkp s))
          else do { let s = upd_device devicep (\<lambda>d. d\<lparr>dev_socket := socketp, dev_ready := EB_NULL, dev_unready := 0,
                              dev_link := linkp\<rparr>) s;
                    (status, s) \<leftarrow> connect_device E socketp devicep linkp address False s;
                    if status \<noteq> EB_OK then Some (status, EB_NULL, s)
                    else let transport = heap_transport s (dev_transport (heap_device s devicep));
                             streaming = (tops_mtu (env_transports E (tra_link_type transport)) = 0)
                         in negotiate E run socketp devicep widths (if streaming then 1 else attempts) s })"

definition eb_socket_passive ::
  "'w eb_env \<Rightarrow> eb_ptr \<Rightarrow> string \<Rightarrow> 'w eb_state \<Rightarrow> (eb_status_t \<times> 'w eb_state) option" where
  "eb_socket_passive E socketp address s =
     (case new_device_link E s of
        (None, s) \<Rightarrow> Some (EB_OOM, s)
      | (Some (devicep, linkp), s) \<Rightarrow>
          connect_device E socketp devicep linkp address True
            (upd_device devicep (\<lambda>d. d\<lparr>dev_socket := socketp, dev_ready := devicep, dev_unready := 0,
               dev_widths := 0, dev_link := linkp\<rparr>) s))"

text \<open>A connection accepted on \<open>linkp\<close> becomes a passive device; the result is the link for the next one.\<close>

definition eb_device_new_slave :: "'w eb_env \<Rightarrow> eb_ptr \<Rightarrow> eb_ptr \<Rightarrow> eb_ptr \<Rightarrow> 'w eb_state \<Rightarrow> eb_ptr \<times> 'w eb_state" where
  "eb_device_new_slave E socketp transportp linkp s =
     (case new_device_link E s of
        (None, s) \<Rightarrow> (linkp, eb_disconnect E transportp linkp s)
      | (Some (devicep, new_linkp), s) \<Rightarrow>
          let s = upd_device devicep (\<lambda>d. d\<lparr>dev_socket := socketp, dev_ready := devicep, dev_unready := 0,
                    dev_widths := 0, dev_link := linkp, dev_transport := transportp,
                    dev_next := sock_first_device (heap_socket s socketp)\<rparr>) s
          in (new_linkp, upd_socket socketp (\<lambda>k. k\<lparr>sock_first_device := devicep\<rparr>) s))"

section \<open>Small operations\<close>

definition eb_device_width :: "eb_ptr \<Rightarrow> 'w eb_state \<Rightarrow> eb_width_t" where
  "eb_device_width devicep s = dev_widths (heap_device s devicep)"

definition eb_device_socket :: "eb_ptr \<Rightarrow> 'w eb_state \<Rightarrow> eb_ptr" where
  "eb_device_socket devicep s = dev_socket (heap_device s devicep)"

definition eb_device_read ::
  "'w eb_env \<Rightarrow> (eb_ptr \<Rightarrow> 'w eb_state \<Rightarrow> 'w eb_state option) \<Rightarrow> uint64 \<Rightarrow> eb_ptr \<Rightarrow> eb_address_t \<Rightarrow> eb_format_t
    \<Rightarrow> uint64 \<Rightarrow> eb_user_data_t \<Rightarrow> eb_callback_t option \<Rightarrow> 'w eb_state \<Rightarrow> (eb_status_t \<times> 'w eb_state) option" where
  "eb_device_read E run stat devicep address fmt data user cb s =
     (case eb_cycle_open E devicep user cb s of
        (out, cyclep, s) \<Rightarrow>
          if out \<noteq> EB_OK then Some (out, s)
          else do { s \<leftarrow> eb_cycle_read E cyclep address fmt data s; eb_cycle_close run stat cyclep s })"

definition eb_device_write ::
  "'w eb_env \<Rightarrow> (eb_ptr \<Rightarrow> 'w eb_state \<Rightarrow> 'w eb_state option) \<Rightarrow> uint64 \<Rightarrow> eb_ptr \<Rightarrow> eb_address_t \<Rightarrow> eb_format_t
    \<Rightarrow> eb_data_t \<Rightarrow> eb_user_data_t \<Rightarrow> eb_callback_t option \<Rightarrow> 'w eb_state \<Rightarrow> (eb_status_t \<times> 'w eb_state) option" where
  "eb_device_write E run stat devicep address fmt data user cb s =
     (case eb_cycle_open E devicep user cb s of
        (out, cyclep, s) \<Rightarrow>
          if out \<noteq> EB_OK then Some (out, s)
          else do { s \<leftarrow> eb_cycle_write E cyclep address fmt data s; eb_cycle_close run stat cyclep s })"

end
