(* ===== verification/EB_Slave.thy ===== *)
theory EB_Slave
  imports EB_Device
begin

text \<open>
  \<^verbatim>\<open>format/slave.c\<close>: receiving a packet, or a piece of a stream, executing its records and building the
  reply in place, in the buffer that holds the request. \<open>sl_rptr\<close>, \<open>sl_wptr\<close> and \<open>sl_eos\<close> are the
  offsets of the three pointers into the buffer. \<^verbatim>\<open>goto kill\<close> is \<open>Inl\<close>; \<open>None\<close> is a loop that does not end
  (a stream may deliver for ever).
\<close>

unbundle bit_operations_syntax

section \<open>Select lines\<close>

definition eb_log2_table :: "uint8 list" where
  "eb_log2_table = [0, 1, 2, 4, 7, 3, 6, 5]"

definition eb_log2 :: "uint8 \<Rightarrow> uint8" where
  "eb_log2 x = eb_log2_table ! unat (drop_bit 5 (x * 0x17))"

record selection =
  sel_ok :: bool
  sel_shift :: uint8
  sel_width :: uint8
  sel_low_b :: uint8
  sel_low_l :: uint8

text \<open>The width and the position of an operation from the select lines of a record, for a port of
  \<open>data\<close> bytes.\<close>

definition decode_select :: "eb_width_t \<Rightarrow> uint8 \<Rightarrow> selection" where
  "decode_select data select =
     (let op_shift = eb_log2 (select AND - select);
          bits = drop_bit (unat op_shift) select;
          bits1 = drop_bit 1 bits + 1;
          op_widths = eb_log2 bits1;
          op_width = op_widths + 1
      in \<lparr>sel_ok = (select \<noteq> 0 \<and> bits AND (bits + 1) = 0 \<and> op_width AND op_widths = 0
            \<and> op_shift AND op_widths = 0 \<and> op_width \<le> data \<and> op_shift < data),
          sel_shift = op_shift, sel_width = op_width,
          sel_low_b = data - (op_shift + op_width), sel_low_l = op_shift\<rparr>)"

definition data_mask_of :: "uint8 \<Rightarrow> eb_data_t" where
  "data_mask_of op_width = drop_bit ((8 - unat op_width) * 8) (- 1)"

section \<open>The state of a session\<close>

text \<open>What stays fixed while a packet is processed.\<close>

record slave_ctx =
  sc_socketp :: eb_ptr
  sc_transportp :: eb_ptr
  sc_linkp :: eb_ptr
  sc_mtu :: int
  sc_data :: eb_width_t
  sc_addr :: eb_width_t
  sc_alignment :: nat
  sc_record_alignment :: nat
  sc_filter :: eb_address_t

record 'w slave_st =
  sl_buf :: bytes
  sl_rptr :: nat
  sl_wptr :: nat
  sl_eos :: nat
  sl_error :: uint64
  sl_cycle_end :: uint8
  sl_cycle_open :: bool
  sl_reply :: bool
  sl_completed :: int
  sl_state :: "'w eb_state"

definition blit :: "nat \<Rightarrow> bytes \<Rightarrow> bytes \<Rightarrow> bytes" where
  "blit pos bs buf = take pos buf @ bs @ drop (pos + length bs) buf"

definition load_at :: "slave_ctx \<Rightarrow> 'w slave_st \<Rightarrow> eb_data_t" where
  "load_at c st = EB_LOAD (take (sc_alignment c) (drop (sl_rptr st) (sl_buf st))) (sc_alignment c)"

definition advance :: "slave_ctx \<Rightarrow> 'w slave_st \<Rightarrow> 'w slave_st" where
  "advance c st = st\<lparr>sl_rptr := sl_rptr st + sc_alignment c\<rparr>"

definition emit :: "bytes \<Rightarrow> 'w slave_st \<Rightarrow> 'w slave_st" where
  "emit bs st = st\<lparr>sl_buf := blit (sl_wptr st) bs (sl_buf st), sl_wptr := sl_wptr st + length bs\<rparr>"

definition slave_link :: "eb_ptr \<Rightarrow> 'w eb_state \<Rightarrow> eb_link option" where
  "slave_link linkp s = (if linkp = EB_NULL then None else Some (heap_link s linkp))"

definition set_slave_link :: "eb_ptr \<Rightarrow> eb_link option \<Rightarrow> 'w eb_state \<Rightarrow> 'w eb_state" where
  "set_slave_link linkp l s = (case l of Some l \<Rightarrow> if linkp = EB_NULL then s else upd_link linkp (\<lambda>_. l) s | None \<Rightarrow> s)"

definition slave_send :: "'w eb_env \<Rightarrow> eb_ptr \<Rightarrow> eb_ptr \<Rightarrow> bytes \<Rightarrow> 'w eb_state \<Rightarrow> 'w eb_state" where
  "slave_send E transportp linkp buf s =
     (let transport = heap_transport s transportp;
          (l, w) = tops_send (env_transports E (tra_link_type transport)) transport (slave_link linkp s) buf (os s)
      in set_slave_link linkp l (s\<lparr>os := w\<rparr>))"

text \<open>The bytes from \<open>sl_rptr\<close> on are moved to the front and the stream is read behind them.\<close>

definition slave_recv :: "'w eb_env \<Rightarrow> slave_ctx \<Rightarrow> 'w slave_st \<Rightarrow> 'w slave_st + 'w slave_st" where
  "slave_recv E c st =
     (let s = sl_state st; keep = sl_eos st - sl_rptr st;
          buf = blit 0 (take keep (drop (sl_rptr st) (sl_buf st))) (sl_buf st);
          transport = heap_transport s (sc_transportp c);
          (len, bs, l, w) = tops_recv (env_transports E (tra_link_type transport)) transport
                              (slave_link (sc_linkp c) s) (BUFFER_SIZE - keep) (os s);
          st = st\<lparr>sl_buf := blit keep bs buf, sl_state := set_slave_link (sc_linkp c) l (s\<lparr>os := w\<rparr>)\<rparr>
      in if len \<le> 0 then Inl st
         else Inr (st\<lparr>sl_wptr := 0, sl_rptr := 0, sl_eos := nat len + keep\<rparr>))"

text \<open>\<^verbatim>\<open>if (reply) eb_transports[transport->link_type].send(transport, link, ...)\<close>. The C code refreshes the pointers
  \<^verbatim>\<open>transport\<close> and \<^verbatim>\<open>link\<close> when it fetches the rest of a record and before it closes the link, but not here, although a
  callback may have allocated objects since and \<^verbatim>\<open>realloc\<close> may have moved the memory array. The model looks the handles
  up again, which is what the pointers show as long as the array has not moved.\<close>

definition slave_reply :: "'w eb_env \<Rightarrow> slave_ctx \<Rightarrow> 'w slave_st \<Rightarrow> 'w slave_st" where
  "slave_reply E c st =
     (if sl_reply st
      then st\<lparr>sl_state := slave_send E (sc_transportp c) (sc_linkp c) (take (sl_wptr st) (sl_buf st)) (sl_state st)\<rparr>
      else st)"

text \<open>More of a record than its header is missing: only a stream can deliver it.\<close>

partial_function (option) slave_refill ::
  "'w eb_env \<Rightarrow> slave_ctx \<Rightarrow> nat \<Rightarrow> 'w slave_st \<Rightarrow> ('w slave_st + 'w slave_st) option" where
  "slave_refill E c words st =
     (if words * sc_alignment c \<le> sl_eos st - sl_rptr st then Some (Inr st)
      else if sc_mtu c \<noteq> 0 then Some (Inl st)
      else case slave_recv E c (slave_reply E c (st\<lparr>sl_rptr := sl_rptr st - sc_record_alignment c\<rparr>)) of
             Inl st \<Rightarrow> Some (Inl st)
           | Inr st \<Rightarrow> slave_refill E c words (st\<lparr>sl_rptr := sc_record_alignment c\<rparr>))"

section \<open>A record\<close>

definition slave_write ::
  "'w eb_env \<Rightarrow> slave_ctx \<Rightarrow> selection \<Rightarrow> bool \<Rightarrow> eb_address_t \<Rightarrow> eb_address_t \<Rightarrow> eb_address_t \<Rightarrow> 'w slave_st \<Rightarrow> 'w slave_st option" where
  "slave_write E c sel wconfig bwa bwa_b bwa_l st =
     (let wv = drop_bit (unat (sel_shift sel) * 8) (load_at c st) AND data_mask_of (sel_width sel);
          op_width = sel_width sel OR push_bit 4 (sc_addr c);
          st = advance c st
      in if wconfig
         then if sel_ok sel
              then do { (n, s) \<leftarrow> eb_socket_write_config E (sc_socketp c) op_width bwa wv (sl_state st);
                        Some (st\<lparr>sl_completed := sl_completed st + n, sl_state := s\<rparr>) }
              else Some st
         else if sel_ok sel
              then do { (error, s) \<leftarrow> eb_socket_write E (sc_socketp c) op_width bwa_b bwa_l wv (sl_error st) (sl_state st);
                        Some (st\<lparr>sl_error := error, sl_state := s\<rparr>) }
              else Some (st\<lparr>sl_error := shift_error (sl_error st) True\<rparr>))"

fun slave_write_loop ::
  "'w eb_env \<Rightarrow> slave_ctx \<Rightarrow> selection \<Rightarrow> bool \<Rightarrow> bool \<Rightarrow> eb_address_t \<Rightarrow> eb_address_t \<Rightarrow> eb_address_t \<Rightarrow> nat \<Rightarrow> 'w slave_st
    \<Rightarrow> 'w slave_st option" where
  "slave_write_loop E c sel wconfig wfifo bwa bwa_b bwa_l 0 st = Some st"
| "slave_write_loop E c sel wconfig wfifo bwa bwa_b bwa_l (Suc n) st =
     do { st \<leftarrow> slave_write E c sel wconfig bwa bwa_b bwa_l st;
          let stride = (if wfifo then 0 else ucast (sc_data c));
          slave_write_loop E c sel wconfig wfifo (bwa + stride) (bwa_b + stride) (bwa_l + stride) n st }"

definition slave_writes ::
  "'w eb_env \<Rightarrow> slave_ctx \<Rightarrow> selection \<Rightarrow> uint8 \<Rightarrow> nat \<Rightarrow> 'w slave_st \<Rightarrow> 'w slave_st option" where
  "slave_writes E c sel flags wcount st =
     (if wcount = 0 then Some st
      else let wconfig = (flags AND EB_RECORD_WCA \<noteq> 0); wfifo = (flags AND EB_RECORD_WFF \<noteq> 0);
               bwa = (if wconfig then load_at c st else load_at c st AND sc_filter c);
               bwa_b = (if wconfig then 0 else bwa OR ucast (sel_low_b sel));
               bwa_l = (if wconfig then 0 else bwa OR ucast (sel_low_l sel))
           in slave_write_loop E c sel wconfig wfifo bwa bwa_b bwa_l wcount (advance c st))"

text \<open>The value a read returns, before it is shifted into place. \<open>None\<close> is a read outside the
  configuration space, or a handler list that does not end.\<close>

definition slave_read_value ::
  "'w eb_env \<Rightarrow> slave_ctx \<Rightarrow> selection \<Rightarrow> bool \<Rightarrow> eb_address_t \<Rightarrow> 'w slave_st \<Rightarrow> (eb_data_t \<times> 'w slave_st) option" where
  "slave_read_value E c sel rconfig ra st =
     (let ra = ra AND sc_filter c;
          ra_b = ra OR ucast (sel_low_b sel); ra_l = ra OR ucast (sel_low_l sel);
          op_width = sel_width sel OR push_bit 4 (sc_addr c)
      in if rconfig
         then if sel_ok sel
              then do { wv \<leftarrow> eb_socket_read_config (sc_socketp c) op_width ra_b (sl_error st) (sl_state st);
                        Some (wv, st) }
              else Some (0, st)
         else if sel_ok sel
              then do { (wv, error, s) \<leftarrow> eb_socket_read E (sc_socketp c) op_width ra_b ra_l (sl_error st) (sl_state st);
                        Some (wv, st\<lparr>sl_error := error, sl_state := s\<rparr>) }
              else Some (0, st\<lparr>sl_error := shift_error (sl_error st) True\<rparr>))"

definition slave_read :: "'w eb_env \<Rightarrow> slave_ctx \<Rightarrow> selection \<Rightarrow> bool \<Rightarrow> 'w slave_st \<Rightarrow> 'w slave_st option" where
  "slave_read E c sel rconfig st =
     do { (wv, st) \<leftarrow> slave_read_value E c sel rconfig (load_at c st) (advance c st);
          let wv = push_bit (unat (sel_shift sel) * 8) (wv AND data_mask_of (sel_width sel));
          Some (emit (EB_sWRITE wv (sc_alignment c)) st) }"

fun slave_read_loop ::
  "'w eb_env \<Rightarrow> slave_ctx \<Rightarrow> selection \<Rightarrow> bool \<Rightarrow> nat \<Rightarrow> 'w slave_st \<Rightarrow> 'w slave_st option" where
  "slave_read_loop E c sel rconfig 0 st = Some st"
| "slave_read_loop E c sel rconfig (Suc n) st =
     do { st \<leftarrow> slave_read E c sel rconfig st; slave_read_loop E c sel rconfig n st }"

definition reply_header :: "slave_ctx \<Rightarrow> uint8 \<Rightarrow> uint8 \<Rightarrow> uint8 \<Rightarrow> uint8 \<Rightarrow> bytes" where
  "reply_header c cycle_end flags select rcount =
     [cycle_end OR (if flags AND EB_RECORD_BCA \<noteq> 0 then EB_RECORD_WCA else 0)
        OR (if flags AND EB_RECORD_RFF \<noteq> 0 then EB_RECORD_WFF else 0), select, rcount, 0]
     @ replicate (sc_record_alignment c - 4) 0"

definition slave_reads ::
  "'w eb_env \<Rightarrow> slave_ctx \<Rightarrow> selection \<Rightarrow> uint8 \<Rightarrow> uint8 \<Rightarrow> uint8 \<Rightarrow> 'w slave_st \<Rightarrow> 'w slave_st option" where
  "slave_reads E c sel flags select rcount st =
     (if rcount = 0 then Some st
      else let st = emit (reply_header c (sl_cycle_end st) flags select rcount) (st\<lparr>sl_reply := True\<rparr>);
               st = st\<lparr>sl_cycle_open := (sl_cycle_end st = 0)\<rparr>;
               bra = load_at c st;
               st = emit (EB_sWRITE bra (sc_alignment c)) (advance c st)
           in slave_read_loop E c sel (flags AND EB_RECORD_RCA \<noteq> 0) (unat rcount) st)"

text \<open>A cycle that was opened in the reply is ended there when the request ends it.\<close>

definition slave_terminate :: "slave_ctx \<Rightarrow> 'w slave_st \<Rightarrow> 'w slave_st" where
  "slave_terminate c st =
     (if sl_cycle_open st \<and> sl_cycle_end st \<noteq> 0
      then emit (sl_cycle_end st # replicate (sc_record_alignment c - 1) 0) st else st)"

definition record_words :: "uint8 \<Rightarrow> uint8 \<Rightarrow> nat" where
  "record_words wcount rcount =
     unat wcount + unat rcount + (if wcount > 0 then 1 else 0) + (if rcount > 0 then 1 else 0)"

definition slave_record :: "'w eb_env \<Rightarrow> slave_ctx \<Rightarrow> 'w slave_st \<Rightarrow> ('w slave_st + 'w slave_st) option" where
  "slave_record E c st =
     (let hdr = (\<lambda>i. sl_buf st ! (sl_rptr st + i));
          flags = hdr 0; select = hdr 1; wcount = hdr 2; rcount = hdr 3;
          sel = decode_select (sc_data c) select;
          st = st\<lparr>sl_rptr := sl_rptr st + sc_record_alignment c, sl_cycle_end := flags AND EB_RECORD_CYC\<rparr>
      in do { r \<leftarrow> slave_refill E c (record_words wcount rcount) st;
              case r of
                Inl st \<Rightarrow> Some (Inl st)
              | Inr st \<Rightarrow> do { st \<leftarrow> slave_writes E c sel flags (unat wcount) st;
                              st \<leftarrow> slave_reads E c sel flags select rcount st;
                              Some (Inr (slave_terminate c st)) } })"

section \<open>All records\<close>

partial_function (option) slave_records ::
  "'w eb_env \<Rightarrow> slave_ctx \<Rightarrow> 'w slave_st \<Rightarrow> ('w slave_st + 'w slave_st) option" where
  "slave_records E c st =
     (if sl_rptr st + sc_record_alignment c \<le> sl_eos st
      then do { r \<leftarrow> slave_record E c st;
                case r of Inl st \<Rightarrow> Some (Inl st) | Inr st \<Rightarrow> slave_records E c st }
      else let st = slave_reply E c st in
           if sl_cycle_end st = 0
           then if sc_mtu c \<noteq> 0 then Some (Inl st)
                else case slave_recv E c st of Inl st \<Rightarrow> Some (Inl st) | Inr st \<Rightarrow> slave_records E c st
           else if sl_rptr st \<noteq> sl_eos st then Some (Inl st) else Some (Inr st))"

definition slave_context :: "eb_ptr \<Rightarrow> eb_ptr \<Rightarrow> eb_ptr \<Rightarrow> int \<Rightarrow> eb_width_t \<Rightarrow> slave_ctx" where
  "slave_context socketp transportp linkp mtu widths =
     (let data = widths AND EB_DATAX; addr = drop_bit 4 widths; biggest = addr OR data
      in \<lparr>sc_socketp = socketp, sc_transportp = transportp, sc_linkp = linkp, sc_mtu = mtu,
          sc_data = data, sc_addr = addr, sc_alignment = eb_alignment biggest,
          sc_record_alignment = eb_record_alignment biggest,
          sc_filter = drop_bit ((8 - unat addr) * 8) (- 1) - (ucast data - 1)\<rparr>)"

section \<open>The packet header\<close>

text \<open>What the header says: the connection is killed, the call returns, or records of the given widths
  follow in the buffer.\<close>

datatype 'w header_result =
    Header_kill "'w eb_state"
  | Header_return int "'w eb_state"
  | Header_records eb_width_t bytes

definition slave_probe ::
  "'w eb_env \<Rightarrow> eb_ptr \<Rightarrow> eb_ptr \<Rightarrow> eb_ptr \<Rightarrow> eb_ptr \<Rightarrow> bool \<Rightarrow> bool \<Rightarrow> nat \<Rightarrow> bytes \<Rightarrow> 'w eb_state \<Rightarrow> 'w header_result" where
  "slave_probe E socketp transportp linkp devicep active passive len buf s =
     (if len \<noteq> 8 \<or> active then Header_kill s
      else let socket_widths = sock_widths (heap_socket s socketp);
               widths = eb_width_refine (buf ! 3 AND socket_widths);
               buf = buf[2 := 0x10 OR EB_HEADER_PR OR EB_HEADER_NR, 3 := socket_widths];
               s = (if passive then upd_device devicep (\<lambda>d. d\<lparr>dev_widths := widths\<rparr>) s else s);
               s = slave_send E transportp linkp (take 8 buf) s
           in if eb_width_possible widths then Header_return 1 s else Header_kill s)"

definition slave_probe_response ::
  "eb_ptr \<Rightarrow> bool \<Rightarrow> nat \<Rightarrow> bytes \<Rightarrow> 'w eb_state \<Rightarrow> 'w header_result option" where
  "slave_probe_response socketp passive len buf s =
     (if len \<noteq> 8 \<or> passive then Some (Header_kill s)
      else do { ds \<leftarrow> device_list socketp s;
                let tag = of_be 0 (take 4 (drop 4 buf));
                case find (\<lambda>devp. ucast devp = tag) ds of
                  None \<Rightarrow> Some (Header_kill s)
                | Some devp \<Rightarrow> Some (Header_return 0 (upd_device devp (\<lambda>d. d\<lparr>dev_widths := buf ! 3\<rparr>) s)) })"

definition slave_header ::
  "'w eb_env \<Rightarrow> eb_ptr \<Rightarrow> eb_ptr \<Rightarrow> eb_ptr \<Rightarrow> eb_ptr \<Rightarrow> bool \<Rightarrow> bool \<Rightarrow> nat \<Rightarrow> bytes \<Rightarrow> 'w eb_state \<Rightarrow> 'w header_result option" where
  "slave_header E socketp transportp linkp devicep active passive len buf s =
     (if buf ! 0 \<noteq> 0x4E \<or> buf ! 1 \<noteq> 0x6F \<or> len < 4 then Some (Header_kill s)
      else if buf ! 2 AND EB_HEADER_PF \<noteq> 0
      then Some (slave_probe E socketp transportp linkp devicep active passive len buf s)
      else if buf ! 2 AND EB_HEADER_PR \<noteq> 0 then slave_probe_response socketp passive len buf s
      else let widths = eb_width_refine (buf ! 3 AND sock_widths (heap_socket s socketp))
           in if buf ! 2 AND 0xF0 \<noteq> 0x10 \<or> \<not> eb_width_possible widths then Some (Header_kill s)
              else Some (Header_records widths (buf[2 := buf ! 2 OR EB_HEADER_NR])))"

section \<open>eb\_device\_slave\<close>

definition slave_kill :: "'w eb_env \<Rightarrow> eb_ptr \<Rightarrow> eb_ptr \<Rightarrow> eb_ptr \<Rightarrow> bool \<Rightarrow> 'w eb_state \<Rightarrow> 'w eb_state option" where
  "slave_kill E transportp linkp devicep passive s =
     (if devicep = EB_NULL then Some s
      else if passive then do { (_, s) \<leftarrow> eb_device_close E devicep s; Some s }
      else let s = eb_disconnect E transportp linkp s;
               s = eb_free_link (dev_link (heap_device s devicep)) s
           in Some (upd_device devicep (\<lambda>d. d\<lparr>dev_link := EB_NULL\<rparr>) s))"

definition slave_start :: "slave_ctx \<Rightarrow> bool \<Rightarrow> nat \<Rightarrow> bytes \<Rightarrow> 'w eb_state \<Rightarrow> 'w slave_st" where
  "slave_start c header len buf s =
     (let start = (if header then sc_record_alignment c else 0)
      in \<lparr>sl_buf = buf, sl_rptr = start, sl_wptr = start, sl_eos = len, sl_error = 0, sl_cycle_end = 1,
          sl_cycle_open = False, sl_reply = False, sl_completed = 0, sl_state = s\<rparr>)"

text \<open>The result is the return value, what is added to \<^verbatim>\<open>*completed\<close>, and the state.\<close>

definition eb_device_slave ::
  "'w eb_env \<Rightarrow> eb_ptr \<Rightarrow> eb_ptr \<Rightarrow> eb_ptr \<Rightarrow> eb_ready \<Rightarrow> 'w eb_state \<Rightarrow> (int \<times> int \<times> 'w eb_state) option" where
  "eb_device_slave E socketp transportp devicep ready s =
     do { let transport = heap_transport s transportp;
          let tops = env_transports E (tra_link_type transport);
          let is_device = (devicep \<noteq> EB_NULL);
          let device = heap_device s devicep;
          let linkp = (if is_device then dev_link device else EB_NULL);
          let stream_widths = (if is_device \<and> tops_mtu tops = 0 then dev_widths device else 0);
          let header = (stream_widths = 0);
          let passive = (is_device \<and> dev_ready device = devicep);
          let active = (is_device \<and> \<not> passive);
          let (len, bs, l, w) = tops_poll tops transport (slave_link linkp s) ready BUFFER_SIZE (os s);
          let buf = blit 0 bs (stack_bytes E BUFFER_SIZE);
          let s = set_slave_link linkp l (s\<lparr>os := w\<rparr>);
          let kill = (\<lambda>completed s. do { s \<leftarrow> slave_kill E transportp linkp devicep passive s; Some (0, completed, s) });
          if len = 0 then Some (0, 0, s)
          else if len < 2 then kill 0 s
          else do { h \<leftarrow> (if header then slave_header E socketp transportp linkp devicep active passive (nat len) buf s
                         else Some (Header_records stream_widths buf));
                    case h of
                      Header_kill s \<Rightarrow> kill 0 s
                    | Header_return n s \<Rightarrow> Some (n, 0, s)
                    | Header_records widths buf \<Rightarrow>
                        let c = slave_context socketp transportp linkp (tops_mtu tops) widths
                        in do { r \<leftarrow> slave_records E c (slave_start c header (nat len) buf s);
                                case r of
                                  Inl st \<Rightarrow> kill (sl_completed st) (sl_state st)
                                | Inr st \<Rightarrow> Some (1, sl_completed st, sl_state st) } } }"

end
