(* ===== verification/EB_Socket.thy ===== *)
theory EB_Socket
  imports EB_Slave
begin

text \<open>
  \<^verbatim>\<open>glue/socket.c\<close> and \<^verbatim>\<open>transport/run.c\<close>: the life of a socket and the event loop. A call of
  \<^verbatim>\<open>eb_socket_check\<close> answers the cycles whose deadline has passed, accepts connections, executes what the
  transports have received, and flushes every device. \<^verbatim>\<open>eb_socket_run\<close> waits with \<^verbatim>\<open>select\<close> between two such
  calls.
\<close>

unbundle bit_operations_syntax

section \<open>Timeouts\<close>

text \<open>The deadline of the oldest response; the deadline is stored in 16 bits and completed from
  \<^verbatim>\<open>time_cache\<close>.\<close>

definition deadline_of :: "uint16 \<Rightarrow> uint32 \<Rightarrow> uint32" where
  "deadline_of deadline time_cache =
     (let udelta = deadline - (ucast time_cache :: uint16) in time_cache + scast udelta)"

definition eb_socket_timeout :: "eb_ptr \<Rightarrow> 'w eb_state \<Rightarrow> (uint32 \<times> 'w eb_state) option" where
  "eb_socket_timeout socketp s =
     do { s \<leftarrow> (if sock_first_response (heap_socket s socketp) = EB_NULL
               then do { (r, s) \<leftarrow> eb_response_flip (sock_last_response (heap_socket s socketp)) s;
                         Some (upd_socket socketp (\<lambda>k. k\<lparr>sock_first_response := r, sock_last_response := EB_NULL\<rparr>) s) }
               else Some s);
          let responsep = sock_first_response (heap_socket s socketp);
          let time_cache = aux_time_cache (heap_socket_aux s (sock_aux (heap_socket s socketp)));
          Some (if responsep \<noteq> EB_NULL then deadline_of (res_deadline (heap_response s responsep)) time_cache else 0, s) }"

text \<open>Step 1 of \<^verbatim>\<open>eb_socket_check\<close>. The result is the number of cycles answered.\<close>

partial_function (option) expire_responses ::
  "'w eb_env \<Rightarrow> eb_ptr \<Rightarrow> uint32 \<Rightarrow> int \<Rightarrow> 'w eb_state \<Rightarrow> (int \<times> 'w eb_state) option" where
  "expire_responses E socketp now completed s =
     (if sock_first_response (heap_socket s socketp) = EB_NULL then Some (completed, s)
      else do { (t, s) \<leftarrow> eb_socket_timeout socketp s;
                if t > now then Some (completed, s)
                else do { let responsep = sock_first_response (heap_socket s socketp);
                          let response = heap_response s responsep;
                          let cyclep = res_cycle response;
                          let s = upd_socket socketp (\<lambda>k. k\<lparr>sock_first_response := res_next response\<rparr>) s;
                          s \<leftarrow> finish_cycle E cyclep (cyc_ops (heap_cycle s cyclep)) EB_TIMEOUT s;
                          expire_responses E socketp now (completed + 1) (eb_free_response responsep s) } })"

section \<open>Polling\<close>

text \<open>Accept connections as long as there is a link to put the next one in.\<close>

partial_function (option) accept_loop ::
  "'w eb_env \<Rightarrow> eb_ptr \<Rightarrow> eb_ptr \<Rightarrow> eb_ready \<Rightarrow> eb_ptr \<Rightarrow> 'w eb_state \<Rightarrow> (eb_ptr \<times> 'w eb_state) option" where
  "accept_loop E socketp transportp ready new_linkp s =
     (if new_linkp = EB_NULL then Some (new_linkp, s)
      else let transport = heap_transport s transportp;
               (r, l, w) = tops_accept (env_transports E (tra_link_type transport)) transport (heap_link s new_linkp) ready (os s);
               s = upd_link new_linkp (\<lambda>_. l) (s\<lparr>os := w\<rparr>)
           in if r \<le> 0 then Some (new_linkp, s)
              else let (new_linkp, s) = eb_device_new_slave E socketp transportp new_linkp s
                   in accept_loop E socketp transportp ready new_linkp s)"

text \<open>Execute messages until the transport has no more. For a device the loop also ends when its link is
  gone.\<close>

partial_function (option) slave_loop ::
  "'w eb_env \<Rightarrow> eb_ptr \<Rightarrow> eb_ptr \<Rightarrow> eb_ready \<Rightarrow> int \<Rightarrow> 'w eb_state \<Rightarrow> (int \<times> 'w eb_state) option" where
  "slave_loop E socketp transportp ready completed s =
     do { (r, n, s) \<leftarrow> eb_device_slave E socketp transportp EB_NULL ready s;
          if r > 0 then slave_loop E socketp transportp ready (completed + n) s else Some (completed + n, s) }"

partial_function (option) device_loop ::
  "'w eb_env \<Rightarrow> eb_ptr \<Rightarrow> eb_ptr \<Rightarrow> eb_ready \<Rightarrow> int \<Rightarrow> 'w eb_state \<Rightarrow> (int \<times> 'w eb_state) option" where
  "device_loop E socketp devicep ready completed s =
     (if dev_link (heap_device s devicep) = EB_NULL then Some (completed, s)
      else do { (r, n, s) \<leftarrow> eb_device_slave E socketp (dev_transport (heap_device s devicep)) devicep ready s;
                if r > 0 then device_loop E socketp devicep ready (completed + n) s else Some (completed + n, s) })"

partial_function (option) poll_transports ::
  "'w eb_env \<Rightarrow> eb_ptr \<Rightarrow> eb_ready \<Rightarrow> eb_ptr \<Rightarrow> eb_ptr \<Rightarrow> int \<Rightarrow> 'w eb_state \<Rightarrow> (eb_ptr \<times> int \<times> 'w eb_state) option" where
  "poll_transports E socketp ready transportp new_linkp completed s =
     (if transportp = EB_NULL then Some (new_linkp, completed, s)
      else do { let next_transportp = tra_next (heap_transport s transportp);
                (new_linkp, s) \<leftarrow> accept_loop E socketp transportp ready new_linkp s;
                (completed, s) \<leftarrow> slave_loop E socketp transportp ready completed s;
                poll_transports E socketp ready next_transportp new_linkp completed s })"

partial_function (option) poll_devices ::
  "'w eb_env \<Rightarrow> eb_ptr \<Rightarrow> eb_ready \<Rightarrow> eb_ptr \<Rightarrow> int \<Rightarrow> 'w eb_state \<Rightarrow> (int \<times> 'w eb_state) option" where
  "poll_devices E socketp ready devicep completed s =
     (if devicep = EB_NULL then Some (completed, s)
      else do { let next_devicep = dev_next (heap_device s devicep);
                (completed, s) \<leftarrow> device_loop E socketp devicep ready completed s;
                (completed, s) \<leftarrow>
                  (if dev_ready (heap_device s devicep) \<noteq> devicep
                   then do { (_, n, s) \<leftarrow> eb_device_flush E devicep s; Some (completed + n, s) }
                   else Some (completed, s));
                poll_devices E socketp ready next_devicep completed s })"

definition eb_socket_check ::
  "'w eb_env \<Rightarrow> eb_ptr \<Rightarrow> uint32 \<Rightarrow> eb_ready \<Rightarrow> 'w eb_state \<Rightarrow> (int \<times> 'w eb_state) option" where
  "eb_socket_check E socketp now ready s =
     do { let auxp = sock_aux (heap_socket s socketp);
          (completed, s) \<leftarrow> expire_responses E socketp now 0 s;
          let (new_linkp, s) = eb_new_link E s;
          let s = upd_socket_aux auxp (\<lambda>a. a\<lparr>aux_time_cache := now\<rparr>) s;
          (new_linkp, completed, s) \<leftarrow>
            poll_transports E socketp ready (aux_first_transport (heap_socket_aux s auxp)) new_linkp completed s;
          (completed, s) \<leftarrow> poll_devices E socketp ready (sock_first_device (heap_socket s socketp)) completed s;
          Some (completed, if new_linkp \<noteq> EB_NULL then eb_free_link new_linkp s else s) }"

section \<open>Descriptors\<close>

text \<open>\<open>cb\<close> is the callback of the application on its own data \<open>user\<close>.\<close>

definition report_fdes :: "(int \<Rightarrow> uint8 \<Rightarrow> 'a \<Rightarrow> 'a) \<Rightarrow> (int \<times> uint8) list \<Rightarrow> 'a \<Rightarrow> 'a" where
  "report_fdes cb fds user = fold (\<lambda>(fd, mode). cb fd mode) fds user"

definition eb_socket_descriptors ::
  "'w eb_env \<Rightarrow> eb_ptr \<Rightarrow> (int \<Rightarrow> uint8 \<Rightarrow> 'a \<Rightarrow> 'a) \<Rightarrow> 'a \<Rightarrow> 'w eb_state \<Rightarrow> 'a option" where
  "eb_socket_descriptors E socketp cb user s =
     do { ts \<leftarrow> transport_list socketp s;
          ds \<leftarrow> device_list socketp s;
          let fdes = (\<lambda>transportp l. let t = heap_transport s transportp in tops_fdes (env_transports E (tra_link_type t)) t l);
          let user = fold (\<lambda>transportp. report_fdes cb (fdes transportp None)) ts user;
          Some (fold (\<lambda>devicep. let d = heap_device s devicep in
                        if dev_link d = EB_NULL then id
                        else report_fdes cb (fdes (dev_transport d) (Some (heap_link s (dev_link d))))) ds user) }"

section \<open>Opening and closing\<close>

partial_function (option) close_devices :: "'w eb_env \<Rightarrow> eb_ptr \<Rightarrow> 'w eb_state \<Rightarrow> (eb_status_t \<times> 'w eb_state) option" where
  "close_devices E socketp s =
     (let devicep = sock_first_device (heap_socket s socketp) in
      if devicep = EB_NULL then Some (EB_OK, s)
      else if dev_ready (heap_device s devicep) \<noteq> devicep then Some (EB_BUSY, s)
      else do { (status, s) \<leftarrow> eb_device_close E devicep s;
                if status \<noteq> EB_OK then Some (status, s) else close_devices E socketp s })"

definition free_handlers :: "eb_ptr list \<Rightarrow> 'w eb_state \<Rightarrow> 'w eb_state" where
  "free_handlers hs s =
     fold (\<lambda>i s. eb_free_handler_address i (eb_free_handler_callback (had_callback (heap_handler_address s i)) s)) hs s"

definition close_transports :: "'w eb_env \<Rightarrow> eb_ptr list \<Rightarrow> 'w eb_state \<Rightarrow> 'w eb_state" where
  "close_transports E ts s =
     fold (\<lambda>transportp s.
       let transport = heap_transport s transportp
       in eb_free_transport transportp (s\<lparr>os := tops_close (env_transports E (tra_link_type transport)) transport (os s)\<rparr>)) ts s"

definition eb_socket_close :: "'w eb_env \<Rightarrow> eb_ptr \<Rightarrow> 'w eb_state \<Rightarrow> (eb_status_t \<times> 'w eb_state) option" where
  "eb_socket_close E socketp s =
     do { (status, s) \<leftarrow> close_devices E socketp s;
          if status \<noteq> EB_OK then Some (status, s)
          else do { hs \<leftarrow> handler_list socketp s;
                    let s = free_handlers hs s;
                    let auxp = sock_aux (heap_socket s socketp);
                    ts \<leftarrow> transport_list socketp s;
                    let s = close_transports E ts s;
                    Some (EB_OK, eb_free_socket_aux auxp (eb_free_socket socketp s)) } }"

text \<open>The loop over the kinds of transports, from \<open>link_type\<close> on with \<open>n\<close> left. The result is the status,
  the first transport and whether the loop ran to its end.\<close>

fun open_transports ::
  "'w eb_env \<Rightarrow> string option \<Rightarrow> nat \<Rightarrow> nat \<Rightarrow> eb_ptr \<Rightarrow> eb_status_t \<Rightarrow> 'w eb_state \<Rightarrow> eb_status_t \<times> eb_ptr \<times> bool \<times> 'w eb_state" where
  "open_transports E port 0 link_type first status s = (status, first, True, s)"
| "open_transports E port (Suc n) link_type first status s =
     (let (transportp, s) = eb_new_transport E s in
      if transportp = EB_NULL then (EB_OOM, first, False, s)
      else let (status, t, w) = tops_open (env_transports E (word_of_nat link_type)) (heap_transport s transportp) port (os s);
               s = upd_transport transportp (\<lambda>_. t) (s\<lparr>os := w\<rparr>)
           in if status = EB_ADDRESS then open_transports E port n (Suc link_type) first status (eb_free_transport transportp s)
              else if status \<noteq> EB_OK then (status, first, False, eb_free_transport transportp s)
              else open_transports E port n (Suc link_type) transportp status
                     (upd_transport transportp (\<lambda>t. t\<lparr>tra_next := first, tra_link_type := word_of_nat link_type\<rparr>) s))"

abbreviation (input) EB_ABI_CODE :: uint16 where "EB_ABI_CODE \<equiv> 0x0488"

text \<open>The result is the status, what is stored in \<^verbatim>\<open>*result\<close> (\<open>None\<close> when it is left as it was), and the
  state. In the 64-bit build no width is removed by the size of the bus types.\<close>

definition eb_socket_open ::
  "'w eb_env \<Rightarrow> (eb_ptr \<Rightarrow> int \<Rightarrow> 'w eb_state \<Rightarrow> (int \<times> 'w eb_state) option) \<Rightarrow> uint16 \<Rightarrow> string option \<Rightarrow> eb_width_t
    \<Rightarrow> 'w eb_state \<Rightarrow> (eb_status_t \<times> eb_ptr option \<times> 'w eb_state) option" where
  "eb_socket_open E run abi_code port supported_widths s =
     (if abi_code \<noteq> EB_ABI_CODE then Some (EB_ABI, None, s)
      else if \<not> eb_width_possible supported_widths then Some (EB_WIDTH, Some EB_NULL, s)
      else let (socketp, s) = eb_new_socket E s in
      if socketp = EB_NULL then Some (EB_OOM, Some EB_NULL, s)
      else let (auxp, s) = eb_new_socket_aux E s in
      if auxp = EB_NULL then Some (EB_OOM, Some EB_NULL, eb_free_socket socketp s)
      else let (status, first_transport, complete, s) = open_transports E port (env_transport_size E) 0 EB_NULL EB_OK s;
               s = upd_socket socketp (\<lambda>_. \<lparr>sock_first_device = EB_NULL, sock_first_handler = EB_NULL,
                     sock_first_response = EB_NULL, sock_last_response = EB_NULL, sock_aux = auxp,
                     sock_widths = supported_widths\<rparr>) s;
               s = upd_socket_aux auxp (\<lambda>_. \<lparr>aux_sdb_offset = 0, aux_time_cache = 0, aux_rba = 0x8000,
                     aux_first_transport = first_transport\<rparr>) s
           in if \<not> complete then do { (_, s) \<leftarrow> eb_socket_close E socketp s; Some (status, None, s) }
              else do { (_, s) \<leftarrow> run socketp 0 s; Some (status, Some socketp, s) })"

section \<open>run.c\<close>

text \<open>The system calls of the event loop: \<^verbatim>\<open>gettimeofday\<close> gives seconds and microseconds; \<^verbatim>\<open>select\<close> is
  given the largest descriptor plus one, the two sets and the timeout, and gives the two sets of ready
  descriptors.\<close>

record 'w eb_sys =
  sys_gettimeofday :: "'w \<Rightarrow> int \<times> int \<times> 'w"
  sys_select :: "int \<Rightarrow> int set \<Rightarrow> int set \<Rightarrow> int \<times> int \<Rightarrow> 'w \<Rightarrow> int set \<times> int set \<times> 'w"

record eb_block_sets =
  bs_nfd :: int
  bs_rfds :: "int set"
  bs_wfds :: "int set"

abbreviation (input) EB_DESCRIPTOR_IN :: uint8 where "EB_DESCRIPTOR_IN \<equiv> 0x01"
abbreviation (input) EB_DESCRIPTOR_OUT :: uint8 where "EB_DESCRIPTOR_OUT \<equiv> 0x02"

definition eb_update_sets :: "int \<Rightarrow> uint8 \<Rightarrow> eb_block_sets \<Rightarrow> eb_block_sets" where
  "eb_update_sets fd mode sets =
     sets\<lparr>bs_nfd := max fd (bs_nfd sets),
          bs_rfds := (if mode AND EB_DESCRIPTOR_IN \<noteq> 0 then insert fd (bs_rfds sets) else bs_rfds sets),
          bs_wfds := (if mode AND EB_DESCRIPTOR_OUT \<noteq> 0 then insert fd (bs_wfds sets) else bs_wfds sets)\<rparr>"

definition eb_check_sets :: "eb_block_sets \<Rightarrow> eb_ready" where
  "eb_check_sets sets fd mode \<longleftrightarrow>
     (mode AND EB_DESCRIPTOR_IN \<noteq> 0 \<and> fd \<in> bs_rfds sets) \<or> (mode AND EB_DESCRIPTOR_OUT \<noteq> 0 \<and> fd \<in> bs_wfds sets)"

definition run_timeout :: "int \<Rightarrow> int \<Rightarrow> int \<Rightarrow> int" where
  "run_timeout timeout_us eb_deadline start_sec =
     (let t = (if timeout_us = - 1 then 600 * 1000000 else timeout_us);
          t = (if eb_deadline \<noteq> 0 then min t ((eb_deadline - start_sec) * 1000000) else t)
      in max t 0)"

definition eb_socket_run ::
  "'w eb_env \<Rightarrow> 'w eb_sys \<Rightarrow> eb_ptr \<Rightarrow> int \<Rightarrow> 'w eb_state \<Rightarrow> (int \<times> 'w eb_state) option" where
  "eb_socket_run E S socketp timeout_us s =
     do { let sets = \<lparr>bs_nfd = 0, bs_rfds = {}, bs_wfds = {}\<rparr>;
          let (start_sec, start_usec, w) = sys_gettimeofday S (os s);
          (done, s) \<leftarrow> eb_socket_check E socketp (word_of_int start_sec) (eb_check_sets sets) (s\<lparr>os := w\<rparr>);
          if done > 0 then Some (0, s)
          else do { (eb_deadline, s) \<leftarrow> eb_socket_timeout socketp s;
                    let t = run_timeout timeout_us (uint eb_deadline) start_sec;
                    sets \<leftarrow> eb_socket_descriptors E socketp eb_update_sets sets s;
                    let (rfds, wfds, w) = sys_select S (bs_nfd sets + 1) (bs_rfds sets) (bs_wfds sets)
                                            (t div 1000000, t mod 1000000) (os s);
                    let (stop_sec, stop_usec, w) = sys_gettimeofday S w;
                    (_, s) \<leftarrow> eb_socket_check E socketp (word_of_int stop_sec)
                               (eb_check_sets (sets\<lparr>bs_rfds := rfds, bs_wfds := wfds\<rparr>)) (s\<lparr>os := w\<rparr>);
                    Some ((stop_sec - start_sec) * 1000000 + (stop_usec - start_usec), s) } }"

end
