(* ===== verification/EB_Slave_Safe.thy ===== *)
theory EB_Slave_Safe
  imports EB_Slave
begin

text \<open>
  The reply of the slave is built in place, in the buffer that still holds the rest of the request
  (the comment of \<^verbatim>\<open>slave.c\<close>: sizeof(request) >= sizeof(reply)). Here it is shown that
  the write pointer never overtakes the read pointer, that no byte of the request is overwritten before it
  is read, and that both stay inside the buffer, for packets and for streams.

  What is needed of a transport is the contract \<open>transport_driver\<close>.
\<close>

unbundle bit_operations_syntax

section \<open>Writing into a buffer\<close>

lemma length_blit [simp]: "pos + length bs \<le> length buf \<Longrightarrow> length (blit pos bs buf) = length buf"
  by (simp add: blit_def)

lemma drop_blit: "pos + length bs \<le> q \<Longrightarrow> pos \<le> length buf \<Longrightarrow> drop q (blit pos bs buf) = drop q buf"
  by (auto simp: blit_def min_def drop_Cons')

section \<open>Invariant\<close>

definition slave_ok :: "'w slave_st \<Rightarrow> bool" where
  "slave_ok st \<longleftrightarrow> length (sl_buf st) = BUFFER_SIZE \<and> sl_wptr st \<le> sl_rptr st \<and> sl_rptr st \<le> sl_eos st
     \<and> sl_eos st \<le> BUFFER_SIZE"

definition slave_ctx_ok :: "slave_ctx \<Rightarrow> bool" where
  "slave_ctx_ok c \<longleftrightarrow> is_alignment (sc_alignment c) \<and> sc_alignment c \<le> sc_record_alignment c
     \<and> sc_record_alignment c \<in> {4, 8}"

text \<open>From \<open>st\<close> to \<open>st'\<close> \<open>r\<close> bytes are read and \<open>w\<close> bytes written, and the unread bytes are kept.\<close>

definition consumed :: "nat \<Rightarrow> nat \<Rightarrow> 'w slave_st \<Rightarrow> 'w slave_st \<Rightarrow> bool" where
  "consumed r w st st' \<longleftrightarrow> sl_rptr st' = sl_rptr st + r \<and> sl_wptr st' = sl_wptr st + w \<and> sl_eos st' = sl_eos st
     \<and> length (sl_buf st') = length (sl_buf st) \<and> drop (sl_rptr st') (sl_buf st') = drop (sl_rptr st') (sl_buf st)
     \<and> sl_cycle_end st' = sl_cycle_end st"

lemma drop_more: "drop a xs = drop a ys \<Longrightarrow> a \<le> b \<Longrightarrow> drop b xs = drop b ys"
  by (metis drop_drop le_add_diff_inverse2)

lemma consumed_trans:
  assumes "consumed r w st st'" and "consumed r' w' st' st''"
  shows "consumed (r + r') (w + w') st st''"
  using assms drop_more [of "sl_rptr st'" "sl_buf st'" "sl_buf st" "sl_rptr st''"]
  by (auto simp: consumed_def)

lemma consumed_refl: "consumed 0 0 st st"
  by (simp add: consumed_def)

lemma consumed_advance: "consumed (sc_alignment c) 0 st (advance c st)"
  by (simp add: consumed_def advance_def)

lemma consumed_emit:
  assumes "sl_wptr st + length bs \<le> sl_rptr st" and "sl_rptr st \<le> length (sl_buf st)"
  shows "consumed 0 (length bs) st (emit bs st)"
  using assms by (simp add: consumed_def emit_def drop_blit)

section \<open>Writes and reads\<close>

lemma slave_write_consumed:
  assumes "slave_write E c sel wconfig bwa bwa_b bwa_l st = Some st'"
  shows "consumed (sc_alignment c) 0 st st' \<and> sl_cycle_open st' = sl_cycle_open st"
  using assms by (auto simp: slave_write_def Let_def consumed_def advance_def split: if_splits)

lemma slave_write_loop_consumed:
  "slave_write_loop E c sel wconfig wfifo bwa bwa_b bwa_l n st = Some st' \<Longrightarrow>
   consumed (n * sc_alignment c) 0 st st' \<and> sl_cycle_open st' = sl_cycle_open st"
proof (induction n arbitrary: bwa bwa_b bwa_l st)
  case 0
  then show ?case by (simp add: consumed_refl)
next
  case (Suc n)
  then obtain st1 x y z where "slave_write E c sel wconfig bwa bwa_b bwa_l st = Some st1"
    "slave_write_loop E c sel wconfig wfifo x y z n st1 = Some st'" by (auto simp: Let_def)
  with Suc.IH slave_write_consumed have "consumed (sc_alignment c) 0 st st1" "sl_cycle_open st1 = sl_cycle_open st"
    "consumed (n * sc_alignment c) 0 st1 st'" "sl_cycle_open st' = sl_cycle_open st1" by blast+
  with consumed_trans show ?case by fastforce
qed

lemma slave_writes_consumed:
  assumes "slave_writes E c sel flags n st = Some st'"
  shows "consumed ((if n = 0 then 0 else Suc n) * sc_alignment c) 0 st st' \<and> sl_cycle_open st' = sl_cycle_open st"
proof (cases "n = 0")
  case True
  with assms show ?thesis by (simp add: slave_writes_def consumed_refl)
next
  case False
  with assms slave_write_loop_consumed [of E c sel _ _ _ _ _ n "advance c st" st']
  have "consumed (n * sc_alignment c) 0 (advance c st) st' \<and> sl_cycle_open st' = sl_cycle_open (advance c st)"
    by (auto simp: slave_writes_def Let_def split: if_splits)
  with consumed_trans [OF consumed_advance [of c st]] False show ?thesis by (auto simp: advance_def)
qed

lemma slave_read_consumed:
  assumes "slave_read E c sel rconfig st = Some st'" and "is_alignment (sc_alignment c)"
    and "sl_wptr st \<le> sl_rptr st" and "sl_rptr st + sc_alignment c \<le> length (sl_buf st)"
  shows "consumed (sc_alignment c) (sc_alignment c) st st' \<and> sl_cycle_open st' = sl_cycle_open st"
proof -
  obtain wv st1 v where st1: "slave_read_value E c sel rconfig (load_at c st) (advance c st) = Some (wv, st1)"
    and st': "st' = emit (EB_sWRITE v (sc_alignment c)) st1"
    using assms(1) by (auto simp: slave_read_def Let_def)
  have "consumed 0 0 (advance c st) st1 \<and> sl_cycle_open st1 = sl_cycle_open (advance c st)"
    using st1 by (auto simp: slave_read_value_def Let_def consumed_def split: if_splits)
  then have c1: "consumed (sc_alignment c) 0 st st1" "sl_cycle_open st1 = sl_cycle_open st"
    using consumed_trans [OF consumed_advance [of c st], of 0 0 st1] by (auto simp: advance_def)
  have "sl_wptr st1 + sc_alignment c \<le> sl_rptr st1" "sl_rptr st1 \<le> length (sl_buf st1)"
    using c1(1) assms(3,4) by (auto simp: consumed_def)
  then have "consumed 0 (sc_alignment c) st1 st'"
    using consumed_emit [of st1 "EB_sWRITE v (sc_alignment c)"] assms(2) by (simp add: st' length_EB_sWRITE)
  from consumed_trans [OF c1(1) this] c1(2) show ?thesis by (simp add: st' emit_def)
qed

lemma slave_read_loop_consumed:
  "slave_read_loop E c sel rconfig n st = Some st' \<Longrightarrow> is_alignment (sc_alignment c) \<Longrightarrow>
   sl_wptr st \<le> sl_rptr st \<Longrightarrow> sl_rptr st + n * sc_alignment c \<le> length (sl_buf st) \<Longrightarrow>
   consumed (n * sc_alignment c) (n * sc_alignment c) st st' \<and> sl_cycle_open st' = sl_cycle_open st"
proof (induction n arbitrary: st)
  case 0
  then show ?case by (simp add: consumed_refl)
next
  case (Suc n)
  then obtain st1 where st1: "slave_read E c sel rconfig st = Some st1" "slave_read_loop E c sel rconfig n st1 = Some st'"
    by auto
  have c1: "consumed (sc_alignment c) (sc_alignment c) st st1" "sl_cycle_open st1 = sl_cycle_open st"
    using slave_read_consumed [OF st1(1)] Suc.prems by auto
  with Suc.IH [OF st1(2)] Suc.prems have "consumed (n * sc_alignment c) (n * sc_alignment c) st1 st'"
    "sl_cycle_open st' = sl_cycle_open st1" by (auto simp: consumed_def algebra_simps)
  with consumed_trans [OF c1(1)] c1(2) show ?case by simp
qed

lemma length_reply_header: "slave_ctx_ok c \<Longrightarrow> length (reply_header c ce fl se rc) = sc_record_alignment c"
  by (auto simp: reply_header_def slave_ctx_ok_def)

lemma slave_reads_consumed:
  assumes "slave_reads E c sel flags select rcount st = Some st'" and "slave_ctx_ok c"
    and "sl_wptr st + sc_record_alignment c \<le> sl_rptr st" and "rcount \<noteq> 0"
    and "sl_rptr st + Suc (unat rcount) * sc_alignment c \<le> length (sl_buf st)"
  shows "consumed (Suc (unat rcount) * sc_alignment c) (sc_record_alignment c + Suc (unat rcount) * sc_alignment c) st st'
    \<and> sl_cycle_open st' = (sl_cycle_end st = 0)"
proof -
  have al: "is_alignment (sc_alignment c)" using assms(2) by (simp add: slave_ctx_ok_def)
  define st1 where "st1 = emit (reply_header c (sl_cycle_end st) flags select rcount) (st\<lparr>sl_reply := True\<rparr>)"
  define st2 where "st2 = st1\<lparr>sl_cycle_open := (sl_cycle_end st1 = 0)\<rparr>"
  define st3 where "st3 = emit (EB_sWRITE (load_at c st2) (sc_alignment c)) (advance c st2)"
  have run: "slave_read_loop E c sel (flags AND EB_RECORD_RCA \<noteq> 0) (unat rcount) st3 = Some st'"
    using assms(1,4) unfolding slave_reads_def st1_def st2_def st3_def Let_def by simp
  have "consumed 0 (sc_record_alignment c) (st\<lparr>sl_reply := True\<rparr>) st1"
    using consumed_emit [of "st\<lparr>sl_reply := True\<rparr>" "reply_header c (sl_cycle_end st) flags select rcount"] assms
    by (simp add: st1_def length_reply_header)
  then have c2: "consumed 0 (sc_record_alignment c) st st2" by (auto simp: consumed_def st2_def)
  have c3: "consumed (sc_alignment c) (sc_record_alignment c) st (advance c st2)"
    using consumed_trans [OF c2 consumed_advance [of c]] by simp
  have "sl_wptr (advance c st2) + sc_alignment c \<le> sl_rptr (advance c st2)"
    "sl_rptr (advance c st2) \<le> length (sl_buf (advance c st2))"
    using c3 assms(3,5) by (auto simp: consumed_def)
  then have "consumed 0 (sc_alignment c) (advance c st2) st3"
    using consumed_emit [of "advance c st2" "EB_sWRITE (load_at c st2) (sc_alignment c)"] al
    by (simp add: st3_def length_EB_sWRITE)
  from consumed_trans [OF c3 this]
  have c4: "consumed (sc_alignment c) (sc_record_alignment c + sc_alignment c) st st3" by simp
  have "consumed (unat rcount * sc_alignment c) (unat rcount * sc_alignment c) st3 st'
      \<and> sl_cycle_open st' = sl_cycle_open st3"
    using c4 assms(3,5) al by (intro slave_read_loop_consumed [OF run]) (auto simp: consumed_def)
  moreover have "sl_cycle_open st3 = (sl_cycle_end st = 0)"
    by (simp add: st3_def st2_def st1_def emit_def advance_def)
  ultimately show ?thesis
    using consumed_trans [OF c4, of "unat rcount * sc_alignment c" "unat rcount * sc_alignment c" st'] by (simp add: add.assoc)
qed

section \<open>A record\<close>

lemma slave_terminate_consumed:
  assumes "slave_ctx_ok c" and "sl_wptr st + sc_record_alignment c \<le> sl_rptr st" and "sl_rptr st \<le> length (sl_buf st)"
  obtains w where "consumed 0 w st (slave_terminate c st)" and "w \<le> sc_record_alignment c"
proof (cases "sl_cycle_open st \<and> sl_cycle_end st \<noteq> 0")
  case True
  have "length (sl_cycle_end st # replicate (sc_record_alignment c - 1) 0) = sc_record_alignment c"
    using assms(1) by (auto simp: slave_ctx_ok_def)
  with True assms consumed_emit [of st "sl_cycle_end st # replicate (sc_record_alignment c - 1) 0"] show thesis
    by (intro that [of "sc_record_alignment c"]) (simp_all add: slave_terminate_def)
next
  case False
  then have "slave_terminate c st = st" by (auto simp: slave_terminate_def)
  then show thesis by (intro that [of 0]) (simp_all add: consumed_refl)
qed

lemma consumed_ok:
  assumes "consumed r w st st'" and "length (sl_buf st) = BUFFER_SIZE" "sl_eos st \<le> BUFFER_SIZE"
    and "sl_wptr st + w \<le> sl_rptr st + r" and "sl_rptr st + r \<le> sl_eos st"
  shows "slave_ok st' \<and> sl_eos st' = sl_eos st \<and> sl_rptr st' = sl_rptr st + r
    \<and> drop (sl_rptr st') (sl_buf st') = drop (sl_rptr st') (sl_buf st)"
  using assms by (auto simp: consumed_def slave_ok_def)

text \<open>The body of a record, from the end of its header on, when all its words are in the buffer.\<close>

lemma slave_body_consumed:
  assumes c: "slave_ctx_ok c" and len: "length (sl_buf st) = BUFFER_SIZE" "sl_eos st \<le> BUFFER_SIZE"
    and w: "sl_wptr st + sc_record_alignment c \<le> sl_rptr st"
    and room: "record_words wcount rcount * sc_alignment c \<le> sl_eos st - sl_rptr st" "sl_rptr st \<le> sl_eos st"
    and run1: "slave_writes E c sel flags (unat wcount) st = Some st1"
    and run2: "slave_reads E c sel flags select rcount st1 = Some st2"
    and st': "st' = slave_terminate c st2"
  shows "slave_ok st' \<and> sl_eos st' = sl_eos st \<and> sl_rptr st' = sl_rptr st + record_words wcount rcount * sc_alignment c
    \<and> drop (sl_rptr st') (sl_buf st') = drop (sl_rptr st') (sl_buf st)"
proof -
  let ?al = "sc_alignment c"
  let ?w = "(if unat wcount = 0 then 0 else Suc (unat wcount)) * ?al"
  have c1: "consumed ?w 0 st st1" using slave_writes_consumed [OF run1] by simp
  have words: "record_words wcount rcount * ?al = ?w + (if rcount = 0 then 0 else Suc (unat rcount) * ?al)"
    by (simp add: record_words_def word_gt_0 unat_eq_zero algebra_simps)
  show ?thesis
  proof (cases "rcount = 0")
    case True
    then have "st2 = st1" using run2 by (simp add: slave_reads_def)
    moreover have "sl_wptr st1 + sc_record_alignment c \<le> sl_rptr st1" "sl_rptr st1 \<le> length (sl_buf st1)"
      using c1 w room len words True by (auto simp: consumed_def)
    then obtain k where k: "consumed 0 k st1 (slave_terminate c st1)" "k \<le> sc_record_alignment c"
      by (rule slave_terminate_consumed [OF c])
    ultimately have "consumed (record_words wcount rcount * ?al) k st st'"
      using consumed_trans [OF c1 k(1)] True unfolding words by (simp add: st')
    then show ?thesis using k(2) w room by (intro consumed_ok [OF _ len]) auto
  next
    case False
    let ?r = "Suc (unat rcount) * ?al"
    have c2: "consumed ?r (sc_record_alignment c + ?r) st1 st2" "sl_cycle_open st2 = (sl_cycle_end st1 = 0)"
    proof -
      have "sl_wptr st1 + sc_record_alignment c \<le> sl_rptr st1" "sl_rptr st1 + ?r \<le> length (sl_buf st1)"
        using c1 w room len words False by (auto simp: consumed_def simp del: mult_Suc)
      from slave_reads_consumed [OF run2 c this(1) False this(2)]
      show "consumed ?r (sc_record_alignment c + ?r) st1 st2" "sl_cycle_open st2 = (sl_cycle_end st1 = 0)" by auto
    qed
    have "sl_cycle_end st2 = sl_cycle_end st1" using c2(1) by (simp add: consumed_def)
    then have "st' = st2" using c2(2) by (simp add: st' slave_terminate_def)
    note c2 = consumed_trans [OF c1 c2(1)] this
    have "consumed (record_words wcount rcount * ?al) (sc_record_alignment c + ?r) st st'"
      using c2 False unfolding words by simp
    moreover have "sl_wptr st + (sc_record_alignment c + ?r) \<le> sl_rptr st + record_words wcount rcount * ?al"
      using w words False by simp
    ultimately show ?thesis using room by (intro consumed_ok [OF _ len]) auto
  qed
qed

text \<open>After the header of a record: the place of the header is free for the reply.\<close>

definition slave_body_ok :: "slave_ctx \<Rightarrow> 'w slave_st \<Rightarrow> bool" where
  "slave_body_ok c st \<longleftrightarrow> slave_ok st \<and> sl_wptr st + sc_record_alignment c \<le> sl_rptr st"

section \<open>The contract of a transport\<close>

locale transport_driver =
  fixes E :: "'w eb_env"
  assumes poll_len: "tops_poll (env_transports E ty) t l ready n w = (len, bs, l', w') \<Longrightarrow>
      length bs \<le> n \<and> (len \<le> 0 \<or> len = int (length bs))"
    and recv_len: "tops_recv (env_transports E ty) t l n w = (len, bs, l', w') \<Longrightarrow>
      length bs \<le> n \<and> (len \<le> 0 \<or> len = int (length bs))"
begin

lemma slave_recv_ok:
  assumes "slave_ok st" and "slave_recv E c st = Inr st'"
  shows "slave_ok st' \<and> sl_rptr st' = 0 \<and> sl_wptr st' = 0 \<and> sl_eos st - sl_rptr st \<le> sl_eos st'"
proof -
  let ?keep = "sl_eos st - sl_rptr st"
  let ?t = "heap_transport (sl_state st) (sc_transportp c)"
  obtain len bs l w where r: "tops_recv (env_transports E (tra_link_type ?t)) ?t (slave_link (sc_linkp c) (sl_state st))
      (BUFFER_SIZE - ?keep) (os (sl_state st)) = (len, bs, l, w)" by (metis prod_cases4)
  have bs: "length bs \<le> BUFFER_SIZE - ?keep" "len \<le> 0 \<or> len = int (length bs)" using recv_len [OF r] by auto
  have "length (take ?keep (drop (sl_rptr st) (sl_buf st))) = ?keep" using assms(1) by (auto simp: slave_ok_def)
  then have "length (blit ?keep bs (blit 0 (take ?keep (drop (sl_rptr st) (sl_buf st))) (sl_buf st))) = BUFFER_SIZE"
    using assms(1) bs(1) by (simp add: slave_ok_def)
  moreover have "0 < len" "st' = st\<lparr>sl_buf := blit ?keep bs (blit 0 (take ?keep (drop (sl_rptr st) (sl_buf st))) (sl_buf st)),
      sl_state := set_slave_link (sc_linkp c) l ((sl_state st)\<lparr>os := w\<rparr>), sl_wptr := 0, sl_rptr := 0, sl_eos := nat len + ?keep\<rparr>"
    using assms(2) unfolding slave_recv_def Let_def r prod.case by (auto split: if_splits)
  moreover have "nat len + ?keep \<le> BUFFER_SIZE" using bs \<open>0 < len\<close> assms(1) by (auto simp: slave_ok_def)
  ultimately show ?thesis by (simp add: slave_ok_def)
qed

lemma slave_reply_ok [simp]: "slave_ok (slave_reply E c st) \<longleftrightarrow> slave_ok st"
  by (simp add: slave_reply_def slave_ok_def)

lemma slave_refill_ok:
  "slave_refill E' c words st = Some r \<Longrightarrow> E' = E \<Longrightarrow> slave_body_ok c st \<Longrightarrow> r = Inr st' \<Longrightarrow>
     slave_body_ok c st' \<and> words * sc_alignment c \<le> sl_eos st' - sl_rptr st' \<and> (sc_mtu c \<noteq> 0 \<longrightarrow> st' = st)"
proof (induction rule: slave_refill.raw_induct [rotated, consumes 1, case_names step])
  case (step f E' c words st r)
  let ?rewound = "slave_reply E c (st\<lparr>sl_rptr := sl_rptr st - sc_record_alignment c\<rparr>)"
  consider "words * sc_alignment c \<le> sl_eos st - sl_rptr st"
    | "\<not> words * sc_alignment c \<le> sl_eos st - sl_rptr st" "sc_mtu c \<noteq> 0"
    | "\<not> words * sc_alignment c \<le> sl_eos st - sl_rptr st" "sc_mtu c = 0" by blast
  then show ?case
  proof cases
    case 1
    with step show ?thesis by simp
  next
    case 2
    with step show ?thesis by simp
  next
    case 3
    have okb: "slave_ok ?rewound"
      using step.prems(2) unfolding slave_reply_ok by (auto simp: slave_body_ok_def slave_ok_def)
    obtain st1 where st1: "slave_recv E c ?rewound = Inr st1" "f E c words (st1\<lparr>sl_rptr := sc_record_alignment c\<rparr>) = Some r"
      using step(2) step.prems 3 by (cases "slave_recv E c ?rewound") auto
    have k: "sl_eos ?rewound - sl_rptr ?rewound = sl_eos st - (sl_rptr st - sc_record_alignment c)"
      by (simp add: slave_reply_def)
    have "slave_body_ok c (st1\<lparr>sl_rptr := sc_record_alignment c\<rparr>)"
      using slave_recv_ok [OF okb st1(1)] step.prems(2) unfolding k
      by (auto simp: slave_body_ok_def slave_ok_def)
    from step.IH [OF st1(2) refl this step.prems(3)] 3 show ?thesis by simp
  qed
qed

text \<open>A record keeps the invariant; in a packet it also keeps all that follows it.\<close>

lemma slave_record_ok:
  assumes c: "slave_ctx_ok c" and ok: "slave_ok st" "sl_rptr st + sc_record_alignment c \<le> sl_eos st"
    and run: "slave_record E c st = Some (Inr st')"
  shows "slave_ok st' \<and> (sc_mtu c \<noteq> 0 \<longrightarrow> sl_rptr st + sc_record_alignment c \<le> sl_rptr st' \<and> sl_eos st' = sl_eos st
    \<and> drop (sl_rptr st') (sl_buf st') = drop (sl_rptr st') (sl_buf st))"
proof -
  define flags select wcount rcount where "flags = sl_buf st ! sl_rptr st" "select = sl_buf st ! (sl_rptr st + 1)"
    "wcount = sl_buf st ! (sl_rptr st + 2)" "rcount = sl_buf st ! (sl_rptr st + 3)"
  note defs = this
  let ?sel = "decode_select (sc_data c) select"
  let ?st = "st\<lparr>sl_rptr := sl_rptr st + sc_record_alignment c, sl_cycle_end := flags AND EB_RECORD_CYC\<rparr>"
  from run obtain q where q: "slave_refill E c (record_words wcount rcount) ?st = Some q"
    "(case q of Inl st \<Rightarrow> Some (Inl st) | Inr st \<Rightarrow> do { st \<leftarrow> slave_writes E c ?sel flags (unat wcount) st;
        st \<leftarrow> slave_reads E c ?sel flags select rcount st; Some (Inr (slave_terminate c st)) }) = Some (Inr st')"
    unfolding slave_record_def Let_def defs add_0_right by (elim bind_SomeE)
  then obtain r st2 st3 where r: "slave_refill E c (record_words wcount rcount) ?st = Some (Inr r)"
    "slave_writes E c ?sel flags (unat wcount) r = Some st2" "slave_reads E c ?sel flags select rcount st2 = Some st3"
    "st' = slave_terminate c st3"
    by (cases q) auto
  have "slave_body_ok c ?st" using ok by (auto simp: slave_body_ok_def slave_ok_def)
  from slave_refill_ok [OF r(1) refl this refl]
  have b: "slave_body_ok c r" "record_words wcount rcount * sc_alignment c \<le> sl_eos r - sl_rptr r"
    "sc_mtu c \<noteq> 0 \<longrightarrow> r = ?st" by auto
  have "slave_ok st' \<and> sl_eos st' = sl_eos r \<and> sl_rptr st' = sl_rptr r + record_words wcount rcount * sc_alignment c
      \<and> drop (sl_rptr st') (sl_buf st') = drop (sl_rptr st') (sl_buf r)"
    using b by (intro slave_body_consumed [OF c _ _ _ b(2) _ r(2-4)]) (auto simp: slave_body_ok_def slave_ok_def)
  with b(3) show ?thesis by auto
qed

lemma slave_records_ok:
  "slave_records E' c st = Some r \<Longrightarrow> E' = E \<Longrightarrow> slave_ctx_ok c \<Longrightarrow> slave_ok st \<Longrightarrow> r = Inr st' \<Longrightarrow> slave_ok st'"
proof (induction rule: slave_records.raw_induct [rotated, consumes 1, case_names step])
  case (step f E' c st r)
  show ?case
  proof (cases "sl_rptr st + sc_record_alignment c \<le> sl_eos st")
    case True
    then obtain q where "slave_record E c st = Some q" "(case q of Inl st \<Rightarrow> Some (Inl st) | Inr st \<Rightarrow> f E c st) = Some r"
      using step(2) step.prems(1) by (auto elim: bind_SomeE)
    then obtain st1 where "slave_record E c st = Some (Inr st1)" "f E c st1 = Some r"
      using step.prems(4) by (cases q) auto
    with step.IH [OF _ refl step.prems(2)] step.prems slave_record_ok [OF step.prems(2,3) True] show ?thesis by blast
  next
    case False
    show ?thesis
    proof (cases "sl_cycle_end (slave_reply E c st) = 0")
      case True
      with False step(2) step.prems obtain st1 where "slave_recv E c (slave_reply E c st) = Inr st1" "f E c st1 = Some r"
        by (auto simp: Let_def split: sum.splits if_splits)
      with step.IH [OF _ refl step.prems(2)] step.prems slave_recv_ok [of "slave_reply E c st" c st1] show ?thesis by simp
    next
      case no: False
      with False step(2) step.prems show ?thesis by (auto simp: Let_def split: if_splits)
    qed
  qed
qed

end

end
