(* ===== verification/EB_Transport.thy ===== *)
theory EB_Transport
  imports EB_Socket EB_Slave_Safe
begin

text \<open>
  The transports of the POSIX build: \<^verbatim>\<open>transport/posix-ip.c\<close>, \<^verbatim>\<open>posix-udp.c\<close>, \<^verbatim>\<open>posix-tcp.c\<close>,
  \<^verbatim>\<open>dev.c\<close>, \<^verbatim>\<open>tunnel.c\<close> and the table of \<^verbatim>\<open>transports.c\<close>, over the system calls as parameters
  (\<open>posix_sys\<close>). What the C code keeps in the process besides the raw bytes of its links, the addresses
  obtained with \<^verbatim>\<open>malloc\<close> and the static variable \<^verbatim>\<open>eb_posix_udp_sa\<close>, is in \<open>posix_world\<close>.

  The contract \<open>transport_driver\<close> is what the packet formats rely on: a driver never delivers more bytes than
  it was asked for, and says how many it delivered.
\<close>

unbundle bit_operations_syntax

section \<open>Strings\<close>

definition c_toupper :: "char \<Rightarrow> nat" where
  "c_toupper c = (let n = of_char c in if 97 \<le> n \<and> n \<le> 122 then n - 32 else n)"

text \<open>\<^verbatim>\<open>strncasecmp.c\<close>: the difference at the first place where the strings differ, the end of a string
  being the character 0.\<close>

fun eb_strncasecmp :: "string \<Rightarrow> string \<Rightarrow> nat \<Rightarrow> int" where
  "eb_strncasecmp s1 s2 0 = 0"
| "eb_strncasecmp [] [] (Suc n) = 0"
| "eb_strncasecmp [] (b # bs) (Suc n) = - int (c_toupper b)"
| "eb_strncasecmp (a # as) [] (Suc n) = int (c_toupper a)"
| "eb_strncasecmp (a # as) (b # bs) (Suc n) =
     (if c_toupper a \<noteq> c_toupper b then int (c_toupper a) - int (c_toupper b) else eb_strncasecmp as bs n)"

definition split_slash :: "string \<Rightarrow> string \<times> string option" where
  "split_slash s =
     (let (pre, post) = (takeWhile (\<lambda>c. c \<noteq> CHR ''/'') s, dropWhile (\<lambda>c. c \<noteq> CHR ''/'') s)
      in (pre, if post = [] then None else Some (tl post)))"

section \<open>The operating system\<close>

record sockaddr =
  sa_family :: int
  sa_bytes :: bytes

text \<open>The results of the calls that receive: \<open>Inl\<close> is -1, with the answer of
  \<^verbatim>\<open>errno == EAGAIN || errno == EWOULDBLOCK\<close>.\<close>

record 'v posix_world =
  pw_sa :: "uint64 \<Rightarrow> sockaddr"    \<comment> \<open>the blocks of \<^verbatim>\<open>malloc(sizeof(struct sockaddr_storage))\<close>\<close>
  pw_udp_sa :: sockaddr            \<comment> \<open>\<^verbatim>\<open>eb_posix_udp_sa\<close> and its length\<close>
  pw_os :: 'v

record 'v posix_sys =
  px_malloc :: "'v \<Rightarrow> uint64 \<times> 'v"
  px_free :: "uint64 \<Rightarrow> 'v \<Rightarrow> 'v"
  px_getaddrinfo :: "string option \<Rightarrow> string \<Rightarrow> int \<Rightarrow> int \<Rightarrow> int \<Rightarrow> bool \<Rightarrow> 'v \<Rightarrow> sockaddr list option \<times> 'v"
  px_socket :: "int \<Rightarrow> int \<Rightarrow> int \<Rightarrow> 'v \<Rightarrow> int \<times> 'v"
  px_setsockopt :: "int \<Rightarrow> int \<Rightarrow> int \<Rightarrow> int \<Rightarrow> 'v \<Rightarrow> 'v"
  px_ioctl_fionbio :: "int \<Rightarrow> bool \<Rightarrow> 'v \<Rightarrow> 'v"
  px_bind :: "int \<Rightarrow> sockaddr \<Rightarrow> 'v \<Rightarrow> int \<times> 'v"
  px_listen :: "int \<Rightarrow> int \<Rightarrow> 'v \<Rightarrow> int \<times> 'v"
  px_accept :: "int \<Rightarrow> 'v \<Rightarrow> (bool + int) \<times> 'v"
  px_connect :: "int \<Rightarrow> sockaddr \<Rightarrow> 'v \<Rightarrow> int \<times> 'v"
  px_close :: "int \<Rightarrow> 'v \<Rightarrow> 'v"
  px_recv :: "int \<Rightarrow> nat \<Rightarrow> bool \<Rightarrow> 'v \<Rightarrow> (bool + bytes) \<times> 'v"
  px_recvfrom :: "int \<Rightarrow> nat \<Rightarrow> 'v \<Rightarrow> (bool + bytes \<times> sockaddr) \<times> 'v"
  px_send :: "int \<Rightarrow> bytes \<Rightarrow> 'v \<Rightarrow> 'v"
  px_sendto :: "int \<Rightarrow> bytes \<Rightarrow> sockaddr \<Rightarrow> 'v \<Rightarrow> 'v"
  px_open :: "string \<Rightarrow> 'v \<Rightarrow> int \<times> 'v"
  px_getfl :: "int \<Rightarrow> 'v \<Rightarrow> int \<times> 'v"
  px_setfl :: "int \<Rightarrow> int \<Rightarrow> 'v \<Rightarrow> 'v"
  px_raw_mode :: "int \<Rightarrow> 'v \<Rightarrow> 'v"    \<comment> \<open>\<^verbatim>\<open>tcgetattr\<close> and, if it succeeds, raw mode at 115200 baud\<close>
  px_usleep :: "int \<Rightarrow> 'v \<Rightarrow> 'v"
  px_read :: "int \<Rightarrow> nat \<Rightarrow> 'v \<Rightarrow> (bool + bytes) \<times> 'v"
  px_write :: "int \<Rightarrow> bytes \<Rightarrow> 'v \<Rightarrow> 'v"

abbreviation (input) PF_INET :: int where "PF_INET \<equiv> 2"
abbreviation (input) PF_INET6 :: int where "PF_INET6 \<equiv> 10"
abbreviation (input) SOCK_STREAM :: int where "SOCK_STREAM \<equiv> 1"
abbreviation (input) SOCK_DGRAM :: int where "SOCK_DGRAM \<equiv> 2"
abbreviation (input) IPPROTO_TCP :: int where "IPPROTO_TCP \<equiv> 6"
abbreviation (input) IPPROTO_UDP :: int where "IPPROTO_UDP \<equiv> 17"
abbreviation (input) IPPROTO_IPV6 :: int where "IPPROTO_IPV6 \<equiv> 41"
abbreviation (input) IPV6_V6ONLY :: int where "IPV6_V6ONLY \<equiv> 26"
abbreviation (input) SOL_SOCKET :: int where "SOL_SOCKET \<equiv> 1"
abbreviation (input) SO_BROADCAST :: int where "SO_BROADCAST \<equiv> 6"
abbreviation (input) TCP_NODELAY :: int where "TCP_NODELAY \<equiv> 1"
abbreviation (input) O_NONBLOCK :: int where "O_NONBLOCK \<equiv> 2048"

text \<open>\<^verbatim>\<open>recv\<close>, \<^verbatim>\<open>read\<close> and \<^verbatim>\<open>recvfrom\<close> fill at most the \<open>n\<close> bytes of the buffer. The result is their return
  value, the bytes, and whether \<^verbatim>\<open>errno\<close> says that the call would block.\<close>

definition received :: "nat \<Rightarrow> bool + bytes \<Rightarrow> int \<times> bytes \<times> bool" where
  "received n r = (case r of Inl wouldblock \<Rightarrow> (- 1, [], wouldblock) | Inr bs \<Rightarrow> (int (length (take n bs)), take n bs, False))"

definition c_recv :: "'v posix_sys \<Rightarrow> int \<Rightarrow> nat \<Rightarrow> bool \<Rightarrow> 'v \<Rightarrow> int \<times> bytes \<times> bool \<times> 'v" where
  "c_recv S fd n dontwait v =
     (let (r, v) = px_recv S fd n dontwait v; (len, bs, wb) = received n r in (len, bs, wb, v))"

definition c_read :: "'v posix_sys \<Rightarrow> int \<Rightarrow> nat \<Rightarrow> 'v \<Rightarrow> int \<times> bytes \<times> bool \<times> 'v" where
  "c_read S fd n v = (let (r, v) = px_read S fd n v; (len, bs, wb) = received n r in (len, bs, wb, v))"

definition on_os :: "('v \<Rightarrow> 'v) \<Rightarrow> 'v posix_world \<Rightarrow> 'v posix_world" where
  "on_os f w = w\<lparr>pw_os := f (pw_os w)\<rparr>"

section \<open>Raw bytes\<close>

text \<open>The drivers keep C structs in the raw bytes of links and transports.\<close>

definition put_int :: "nat \<Rightarrow> int \<Rightarrow> bytes \<Rightarrow> bytes" where
  "put_int off i raw = put_raw off 4 (ucast (word_of_int i :: uint32)) raw"

definition get_int :: "nat \<Rightarrow> bytes \<Rightarrow> int" where
  "get_int off raw = sint (ucast (get_raw off 4 raw) :: uint32)"

section \<open>posix-ip.c\<close>

definition eb_posix_ip_close :: "'v posix_sys \<Rightarrow> int \<Rightarrow> 'v \<Rightarrow> 'v" where
  "eb_posix_ip_close S sock v = (if sock = - 1 then v else px_close S sock v)"

definition ip_protocol :: "int \<Rightarrow> int option" where
  "ip_protocol type = (if type = SOCK_DGRAM then Some IPPROTO_UDP else if type = SOCK_STREAM then Some IPPROTO_TCP else None)"

text \<open>The loop over the matches of \<^verbatim>\<open>getaddrinfo\<close>: the first one that can be bound.\<close>

fun ip_open_loop :: "'v posix_sys \<Rightarrow> int \<Rightarrow> int \<Rightarrow> sockaddr list \<Rightarrow> 'v \<Rightarrow> int \<times> 'v" where
  "ip_open_loop S type protocol [] v = (- 1, v)"
| "ip_open_loop S type protocol (i # is) v =
     (let (sock, v) = px_socket S (sa_family i) type protocol v in
      if sock = - 1 then ip_open_loop S type protocol is v
      else let v = (if sa_family i = PF_INET6 then px_setsockopt S sock IPPROTO_IPV6 IPV6_V6ONLY 1 v else v);
               (r, v) = px_bind S sock i v
           in if r = 0 then (sock, v) else ip_open_loop S type protocol is (eb_posix_ip_close S sock v))"

definition eb_posix_ip_open :: "'v posix_sys \<Rightarrow> int \<Rightarrow> int \<Rightarrow> string option \<Rightarrow> 'v \<Rightarrow> int \<times> 'v" where
  "eb_posix_ip_open S family type port v =
     (case ip_protocol type of
        None \<Rightarrow> (- 1, v)
      | Some protocol \<Rightarrow>
          let (match, v) = px_getaddrinfo S None (case port of Some p \<Rightarrow> p | None \<Rightarrow> ''0'') family type protocol True v in
          (case match of
             None \<Rightarrow> (- 1, v)
           | Some is \<Rightarrow>
               let (sock, v) = ip_open_loop S type protocol is v
               in if sock \<noteq> - 1 \<and> protocol = IPPROTO_UDP
                  then (sock, px_setsockopt S sock SOL_SOCKET SO_BROADCAST 1 v)
                  else (sock, v)))"

definition EB_DEFAULT_PORT_STR :: string where "EB_DEFAULT_PORT_STR = ''60368''"

text \<open>Host and service of an address after its prefix; \<open>None\<close> is the return value -1.\<close>

definition ip_host_port :: "string \<Rightarrow> string \<Rightarrow> (string \<times> string) option" where
  "ip_host_port prefix address =
     (if eb_strncasecmp address prefix (length prefix) \<noteq> 0 then None
      else let address = drop (length prefix) address in
      if length address \<ge> 250 - 1 then None
      else case split_slash address of
             (host, None) \<Rightarrow> Some (host, EB_DEFAULT_PORT_STR)
           | (host, Some port) \<Rightarrow> Some (host, if port = [] then EB_DEFAULT_PORT_STR else port))"

definition eb_posix_ip_resolve ::
  "'v posix_sys \<Rightarrow> string \<Rightarrow> string \<Rightarrow> int \<Rightarrow> int \<Rightarrow> 'v \<Rightarrow> sockaddr option \<times> 'v" where
  "eb_posix_ip_resolve S prefix address family type v =
     (case ip_host_port prefix address of
        None \<Rightarrow> (None, v)
      | Some (host, port) \<Rightarrow>
          (case ip_protocol type of
             None \<Rightarrow> (None, v)
           | Some protocol \<Rightarrow>
               let (match, v) = px_getaddrinfo S (Some host) port family type protocol False v
               in (case match of Some (i # _) \<Rightarrow> (Some i, v) | _ \<Rightarrow> (None, v))))"

definition eb_posix_ip_force_non_blocking :: "'v posix_sys \<Rightarrow> int \<Rightarrow> bool \<Rightarrow> 'v \<Rightarrow> 'v" where
  "eb_posix_ip_force_non_blocking S sock on v = (if sock = - 1 then v else px_ioctl_fionbio S sock on v)"

text \<open>With \<^verbatim>\<open>MSG_DONTWAIT\<close> this does nothing.\<close>

definition eb_posix_ip_non_blocking :: "int \<Rightarrow> bool \<Rightarrow> 'v \<Rightarrow> 'v" where
  "eb_posix_ip_non_blocking sock on v = v"

definition eb_posix_ip_set_buffer :: "'v posix_sys \<Rightarrow> int \<Rightarrow> bool \<Rightarrow> 'v \<Rightarrow> 'v" where
  "eb_posix_ip_set_buffer S sock on v = px_setsockopt S sock IPPROTO_TCP TCP_NODELAY (if on then 0 else 1) v"

section \<open>posix-udp.c\<close>

text \<open>The structs in the raw bytes: the two sockets of a transport, the address of a link.\<close>

abbreviation socket4 :: "eb_transport \<Rightarrow> int" where "socket4 t \<equiv> get_int 0 (tra_raw t)"
abbreviation socket6 :: "eb_transport \<Rightarrow> int" where "socket6 t \<equiv> get_int 4 (tra_raw t)"
abbreviation link_sa :: "eb_link \<Rightarrow> uint64" where "link_sa l \<equiv> get_raw 0 8 (link_raw l)"
abbreviation link_socket :: "eb_link \<Rightarrow> int" where "link_socket l \<equiv> get_int 0 (link_raw l)"

definition set_sockets :: "int \<Rightarrow> int \<Rightarrow> eb_transport \<Rightarrow> eb_transport" where
  "set_sockets sock4 sock6 t = t\<lparr>tra_raw := put_int 4 sock6 (put_int 0 sock4 (tra_raw t))\<rparr>"

definition eb_posix_udp_open ::
  "'v posix_sys \<Rightarrow> eb_transport \<Rightarrow> string option \<Rightarrow> 'v posix_world \<Rightarrow> eb_status_t \<times> eb_transport \<times> 'v posix_world" where
  "eb_posix_udp_open S t port w =
     (let (sock4, v) = eb_posix_ip_open S PF_INET SOCK_DGRAM port (pw_os w);
          (sock6, v) = eb_posix_ip_open S PF_INET6 SOCK_DGRAM port v;
          w = w\<lparr>pw_os := v\<rparr>
      in if sock4 = - 1 \<and> sock6 = - 1 then (EB_BUSY, t, w)
         else (EB_OK, set_sockets sock4 sock6 t, w))"

definition eb_posix_udp_close :: "'v posix_sys \<Rightarrow> eb_transport \<Rightarrow> 'v posix_world \<Rightarrow> 'v posix_world" where
  "eb_posix_udp_close S t w = on_os (\<lambda>v. eb_posix_ip_close S (socket6 t) (eb_posix_ip_close S (socket4 t) v)) w"

text \<open>The first of several resolutions that succeeds.\<close>

fun resolve_first :: "'v posix_sys \<Rightarrow> string \<Rightarrow> int \<Rightarrow> (string \<times> int) list \<Rightarrow> 'v \<Rightarrow> sockaddr option \<times> 'v" where
  "resolve_first S address type [] v = (None, v)"
| "resolve_first S address type ((prefix, family) # ps) v =
     (case eb_posix_ip_resolve S prefix address family type v of
        (Some sa, v) \<Rightarrow> (Some sa, v)
      | (None, v) \<Rightarrow> resolve_first S address type ps v)"

definition eb_posix_udp_connect ::
  "'v posix_sys \<Rightarrow> eb_transport \<Rightarrow> eb_link \<Rightarrow> string \<Rightarrow> bool \<Rightarrow> 'v posix_world \<Rightarrow> eb_status_t \<times> eb_link \<times> 'v posix_world" where
  "eb_posix_udp_connect S t l address passive w =
     (let (sa, v) = resolve_first S address SOCK_DGRAM
            [(''udp4/'', PF_INET), (''udp6/'', PF_INET6), (''udp/'', PF_INET6), (''udp/'', PF_INET)] (pw_os w);
          w = w\<lparr>pw_os := v\<rparr>
      in case sa of
           None \<Rightarrow> (EB_ADDRESS, l, w)
         | Some sa \<Rightarrow>
             if sa_family sa = PF_INET \<and> socket4 t = - 1 \<or> sa_family sa = PF_INET6 \<and> socket6 t = - 1 then (EB_FAIL, l, w)
             else let (p, v) = px_malloc S (pw_os w);
                      raw = put_int 8 (int (length (sa_bytes sa))) (put_raw 0 8 p (link_raw l))
                  in (EB_OK, l\<lparr>link_raw := raw\<rparr>, w\<lparr>pw_os := v, pw_sa := (pw_sa w)(p := sa)\<rparr>))"

definition eb_posix_udp_disconnect :: "'v posix_sys \<Rightarrow> eb_transport \<Rightarrow> eb_link \<Rightarrow> 'v posix_world \<Rightarrow> 'v posix_world" where
  "eb_posix_udp_disconnect S t l w = on_os (px_free S (link_sa l)) w"

definition listen_fdes :: "eb_transport \<Rightarrow> (int \<times> uint8) list" where
  "listen_fdes t = map (\<lambda>fd. (fd, EB_DESCRIPTOR_IN)) (filter (\<lambda>fd. fd \<noteq> - 1) [socket4 t, socket6 t])"

definition eb_posix_udp_fdes :: "eb_transport \<Rightarrow> eb_link option \<Rightarrow> (int \<times> uint8) list" where
  "eb_posix_udp_fdes t l = (case l of None \<Rightarrow> listen_fdes t | Some _ \<Rightarrow> [])"

definition eb_posix_udp_accept ::
  "eb_transport \<Rightarrow> eb_link \<Rightarrow> eb_ready \<Rightarrow> 'v posix_world \<Rightarrow> int \<times> eb_link \<times> 'v posix_world" where
  "eb_posix_udp_accept t l ready w = (0, l, w)"

text \<open>\<^verbatim>\<open>recvfrom\<close> on one of the sockets. \<open>None\<close> means that the next socket is tried.\<close>

definition udp_recvfrom ::
  "'v posix_sys \<Rightarrow> int \<Rightarrow> eb_ready \<Rightarrow> nat \<Rightarrow> 'v posix_world \<Rightarrow> (int \<times> bytes) option \<times> 'v posix_world" where
  "udp_recvfrom S sock ready n w =
     (if sock = - 1 \<or> \<not> ready sock EB_DESCRIPTOR_IN then (None, w)
      else case px_recvfrom S sock n (pw_os w) of
             (Inl wouldblock, v) \<Rightarrow> (if wouldblock then None else Some (- 1, []), w\<lparr>pw_os := v\<rparr>)
           | (Inr (bs, sa), v) \<Rightarrow> (Some (int (length (take n bs)), take n bs), w\<lparr>pw_os := v, pw_udp_sa := sa\<rparr>))"

definition eb_posix_udp_poll ::
  "'v posix_sys \<Rightarrow> eb_transport \<Rightarrow> eb_link option \<Rightarrow> eb_ready \<Rightarrow> nat \<Rightarrow> 'v posix_world
    \<Rightarrow> int \<times> bytes \<times> eb_link option \<times> 'v posix_world" where
  "eb_posix_udp_poll S t l ready n w =
     (case l of
        Some _ \<Rightarrow> (0, [], l, w)
      | None \<Rightarrow>
          (case udp_recvfrom S (socket4 t) ready n w of
             (Some (r, bs), w) \<Rightarrow> (r, bs, l, w)
           | (None, w) \<Rightarrow>
               (case udp_recvfrom S (socket6 t) ready n w of
                  (Some (r, bs), w) \<Rightarrow> (r, bs, l, w)
                | (None, w) \<Rightarrow> (0, [], l, w))))"

definition eb_posix_udp_recv ::
  "eb_transport \<Rightarrow> eb_link option \<Rightarrow> nat \<Rightarrow> 'v posix_world \<Rightarrow> int \<times> bytes \<times> eb_link option \<times> 'v posix_world" where
  "eb_posix_udp_recv t l n w = (- 1, [], l, w)"

text \<open>A reply without a link goes to the sender of the datagram received last.\<close>

definition eb_posix_udp_send ::
  "'v posix_sys \<Rightarrow> eb_transport \<Rightarrow> eb_link option \<Rightarrow> bytes \<Rightarrow> 'v posix_world \<Rightarrow> eb_link option \<times> 'v posix_world" where
  "eb_posix_udp_send S t l buf w =
     (let sa = (case l of None \<Rightarrow> pw_udp_sa w | Some l \<Rightarrow> pw_sa w (link_sa l));
          sock = (if sa_family sa = PF_INET6 then socket6 t else socket4 t)
      in (l, on_os (\<lambda>v. px_sendto S sock buf sa (eb_posix_ip_non_blocking sock False v)) w))"

definition eb_posix_udp_send_buffer ::
  "eb_transport \<Rightarrow> eb_link option \<Rightarrow> bool \<Rightarrow> 'v posix_world \<Rightarrow> eb_link option \<times> 'v posix_world" where
  "eb_posix_udp_send_buffer t l on w = (l, w)"

section \<open>posix-tcp.c\<close>

definition tcp_listen :: "'v posix_sys \<Rightarrow> int \<Rightarrow> 'v \<Rightarrow> bool \<times> 'v" where
  "tcp_listen S sock v = (if sock = - 1 then (True, v) else let (r, v) = px_listen S sock 5 v in (r = 0, v))"

text \<open>The second \<^verbatim>\<open>listen\<close> is not reached when the first one fails.\<close>

definition eb_posix_tcp_open ::
  "'v posix_sys \<Rightarrow> eb_transport \<Rightarrow> string option \<Rightarrow> 'v posix_world \<Rightarrow> eb_status_t \<times> eb_transport \<times> 'v posix_world" where
  "eb_posix_tcp_open S t port w =
     (case port of
        None \<Rightarrow> (EB_OK, set_sockets (- 1) (- 1) t, w)
      | Some _ \<Rightarrow>
          let (sock4, v) = eb_posix_ip_open S PF_INET SOCK_STREAM port (pw_os w);
              (sock6, v) = eb_posix_ip_open S PF_INET6 SOCK_STREAM port v
          in if sock4 = - 1 \<and> sock6 = - 1 then (EB_BUSY, t, w\<lparr>pw_os := v\<rparr>)
             else let (ok4, v) = tcp_listen S sock4 v;
                      (ok6, v) = (if ok4 then tcp_listen S sock6 v else (False, v))
                  in if \<not> ok4 \<or> \<not> ok6
                     then (EB_ADDRESS, t, w\<lparr>pw_os := eb_posix_ip_close S sock6 (eb_posix_ip_close S sock4 v)\<rparr>)
                     else (EB_OK, set_sockets sock4 sock6 t,
                           w\<lparr>pw_os := eb_posix_ip_force_non_blocking S sock6 True
                                        (eb_posix_ip_force_non_blocking S sock4 True v)\<rparr>))"

definition eb_posix_tcp_close :: "'v posix_sys \<Rightarrow> eb_transport \<Rightarrow> 'v posix_world \<Rightarrow> 'v posix_world" where
  "eb_posix_tcp_close S t w = on_os (\<lambda>v. eb_posix_ip_close S (socket6 t) (eb_posix_ip_close S (socket4 t) v)) w"

definition eb_posix_tcp_connect ::
  "'v posix_sys \<Rightarrow> eb_link \<Rightarrow> string \<Rightarrow> bool \<Rightarrow> 'v posix_world \<Rightarrow> eb_status_t \<times> eb_link \<times> 'v posix_world" where
  "eb_posix_tcp_connect S l address passive w =
     (let (sa, v) = resolve_first S address SOCK_STREAM
            [(''tcp6/'', PF_INET6), (''tcp4/'', PF_INET), (''tcp/'', PF_INET6), (''tcp/'', PF_INET)] (pw_os w)
      in case sa of
           None \<Rightarrow> (EB_ADDRESS, l, w\<lparr>pw_os := v\<rparr>)
         | Some sa \<Rightarrow>
             let (sock, v) = px_socket S (sa_family sa) SOCK_STREAM IPPROTO_TCP v in
             if sock = - 1 then (EB_FAIL, l, w\<lparr>pw_os := v\<rparr>)
             else let (r, v) = px_connect S sock sa v in
             if r \<noteq> 0 then (EB_FAIL, l, w\<lparr>pw_os := eb_posix_ip_close S sock v\<rparr>)
             else (EB_OK, l\<lparr>link_raw := put_int 0 sock (link_raw l)\<rparr>, w\<lparr>pw_os := eb_posix_ip_set_buffer S sock False v\<rparr>))"

definition eb_posix_tcp_disconnect :: "'v posix_sys \<Rightarrow> eb_link \<Rightarrow> 'v posix_world \<Rightarrow> 'v posix_world" where
  "eb_posix_tcp_disconnect S l w = on_os (eb_posix_ip_close S (link_socket l)) w"

definition eb_posix_tcp_fdes :: "eb_transport \<Rightarrow> eb_link option \<Rightarrow> (int \<times> uint8) list" where
  "eb_posix_tcp_fdes t l = (case l of Some l \<Rightarrow> [(link_socket l, EB_DESCRIPTOR_IN)] | None \<Rightarrow> listen_fdes t)"

text \<open>\<^verbatim>\<open>accept\<close> on one of the ports. \<open>None\<close> is the early return -1; the integer is \<^verbatim>\<open>sock\<close>.\<close>

definition tcp_accept_port :: "'v posix_sys \<Rightarrow> int \<Rightarrow> eb_ready \<Rightarrow> 'v \<Rightarrow> int option \<times> 'v" where
  "tcp_accept_port S port ready v =
     (if port = - 1 \<or> \<not> ready port EB_DESCRIPTOR_IN then (Some (- 1), v)
      else case px_accept S port v of
             (Inl wouldblock, v) \<Rightarrow> (if wouldblock then Some (- 1) else None, v)
           | (Inr sock, v) \<Rightarrow> (Some sock, v))"

definition eb_posix_tcp_accept ::
  "'v posix_sys \<Rightarrow> eb_transport \<Rightarrow> eb_link \<Rightarrow> eb_ready \<Rightarrow> 'v posix_world \<Rightarrow> int \<times> eb_link \<times> 'v posix_world" where
  "eb_posix_tcp_accept S t l ready w =
     (case tcp_accept_port S (socket4 t) ready (pw_os w) of
        (None, v) \<Rightarrow> (- 1, l, w\<lparr>pw_os := v\<rparr>)
      | (Some sock, v) \<Rightarrow>
          (case (if sock = - 1 then tcp_accept_port S (socket6 t) ready v else (Some sock, v)) of
             (None, v) \<Rightarrow> (- 1, l, w\<lparr>pw_os := v\<rparr>)
           | (Some sock, v) \<Rightarrow>
               if sock = - 1 then (0, l, w\<lparr>pw_os := v\<rparr>)
               else (1, l\<lparr>link_raw := put_int 0 sock (link_raw l)\<rparr>, w\<lparr>pw_os := eb_posix_ip_set_buffer S sock False v\<rparr>)))"

definition eb_posix_tcp_poll ::
  "'v posix_sys \<Rightarrow> eb_link option \<Rightarrow> eb_ready \<Rightarrow> nat \<Rightarrow> 'v posix_world
    \<Rightarrow> int \<times> bytes \<times> eb_link option \<times> 'v posix_world" where
  "eb_posix_tcp_poll S l ready n w =
     (case l of
        None \<Rightarrow> (0, [], l, w)
      | Some link \<Rightarrow>
          if \<not> ready (link_socket link) EB_DESCRIPTOR_IN then (0, [], l, w)
          else let (r, bs, wouldblock, v) = c_recv S (link_socket link) n True
                     (eb_posix_ip_non_blocking (link_socket link) True (pw_os w));
                   w = w\<lparr>pw_os := v\<rparr>
               in if r = - 1 \<and> wouldblock then (0, [], l, w)
                  else if r = 0 then (- 1, [], l, w) else (r, bs, l, w))"

definition eb_posix_tcp_recv ::
  "'v posix_sys \<Rightarrow> eb_link option \<Rightarrow> nat \<Rightarrow> 'v posix_world \<Rightarrow> int \<times> bytes \<times> eb_link option \<times> 'v posix_world" where
  "eb_posix_tcp_recv S l n w =
     (case l of
        None \<Rightarrow> (0, [], l, w)
      | Some link \<Rightarrow>
          let (r, bs, wouldblock, v) = c_recv S (link_socket link) n False
                (eb_posix_ip_non_blocking (link_socket link) False (pw_os w));
              w = w\<lparr>pw_os := v\<rparr>
          in if r = 0 then (- 1, [], l, w) else (r, bs, l, w))"

text \<open>A missing link, which the callers exclude, sends nothing.\<close>

definition eb_posix_tcp_send ::
  "'v posix_sys \<Rightarrow> eb_link option \<Rightarrow> bytes \<Rightarrow> 'v posix_world \<Rightarrow> eb_link option \<times> 'v posix_world" where
  "eb_posix_tcp_send S l buf w =
     (case l of None \<Rightarrow> (l, w)
      | Some link \<Rightarrow> (l, on_os (\<lambda>v. px_send S (link_socket link) buf (eb_posix_ip_non_blocking (link_socket link) False v)) w))"

definition eb_posix_tcp_send_buffer ::
  "'v posix_sys \<Rightarrow> eb_link option \<Rightarrow> bool \<Rightarrow> 'v posix_world \<Rightarrow> eb_link option \<times> 'v posix_world" where
  "eb_posix_tcp_send_buffer S l on w =
     (case l of None \<Rightarrow> (l, w) | Some link \<Rightarrow> (l, on_os (eb_posix_ip_set_buffer S (link_socket link) on) w))"

section \<open>dev.c\<close>

abbreviation link_fdes :: "eb_link \<Rightarrow> int" where "link_fdes l \<equiv> get_int 0 (link_raw l)"
abbreviation link_flags :: "eb_link \<Rightarrow> int" where "link_flags l \<equiv> get_int 4 (link_raw l)"

definition eb_dev_set_blocking :: "'v posix_sys \<Rightarrow> bool \<Rightarrow> eb_link \<Rightarrow> 'v \<Rightarrow> eb_link \<times> 'v" where
  "eb_dev_set_blocking S block l v =
     (let flags = (link_flags l AND NOT O_NONBLOCK) OR (if block then 0 else O_NONBLOCK)
      in if flags \<noteq> link_flags l
         then (l\<lparr>link_raw := put_int 4 flags (link_raw l)\<rparr>, px_setfl S (link_fdes l) flags v)
         else (l, v))"

definition eb_dev_open ::
  "eb_transport \<Rightarrow> string option \<Rightarrow> 'v posix_world \<Rightarrow> eb_status_t \<times> eb_transport \<times> 'v posix_world" where
  "eb_dev_open t port w = (EB_OK, t, w)"

definition eb_dev_close :: "eb_transport \<Rightarrow> 'v posix_world \<Rightarrow> 'v posix_world" where
  "eb_dev_close t w = w"

text \<open>\<^verbatim>\<open>while (read(fdes, junk, sizeof(junk)) > 0) { }\<close>\<close>

partial_function (option) dev_drain :: "'v posix_sys \<Rightarrow> int \<Rightarrow> 'v \<Rightarrow> 'v option" where
  "dev_drain S fdes v = (let (r, bs, wb, v) = c_read S fdes 256 v in if r > 0 then dev_drain S fdes v else Some v)"

definition eb_dev_connect ::
  "'v posix_sys \<Rightarrow> eb_link \<Rightarrow> string \<Rightarrow> bool \<Rightarrow> 'v posix_world \<Rightarrow> (eb_status_t \<times> eb_link \<times> 'v posix_world) option" where
  "eb_dev_connect S l address passive w =
     (if eb_strncasecmp address ''dev/'' 4 \<noteq> 0 then Some (EB_ADDRESS, l, w)
      else let devname = drop 4 address in
      if length devname > 200 then Some (EB_ADDRESS, l, w)
      else let (fdes, v) = px_open S (''/dev/'' @ take (256 - 8) devname) (pw_os w) in
      if fdes = - 1 then Some (EB_FAIL, l, w\<lparr>pw_os := v\<rparr>)
      else let (flags, v) = px_getfl S fdes v;
               l = l\<lparr>link_raw := put_int 4 flags (put_int 0 fdes (link_raw l))\<rparr>;
               (l, v) = eb_dev_set_blocking S False l (px_raw_mode S fdes v)
           in do { v \<leftarrow> (if passive then Some v else dev_drain S fdes (px_usleep S 10000 v));
                   Some (EB_OK, l, w\<lparr>pw_os := v\<rparr>) })"

definition eb_dev_disconnect :: "'v posix_sys \<Rightarrow> eb_link \<Rightarrow> 'v posix_world \<Rightarrow> 'v posix_world" where
  "eb_dev_disconnect S l w = on_os (px_close S (link_fdes l)) w"

definition eb_dev_fdes :: "eb_link option \<Rightarrow> (int \<times> uint8) list" where
  "eb_dev_fdes l = (case l of Some l \<Rightarrow> [(link_fdes l, EB_DESCRIPTOR_IN)] | None \<Rightarrow> [])"

definition eb_dev_accept :: "eb_link \<Rightarrow> 'v posix_world \<Rightarrow> int \<times> eb_link \<times> 'v posix_world" where
  "eb_dev_accept l w = (0, l, w)"

definition eb_dev_poll ::
  "'v posix_sys \<Rightarrow> eb_link option \<Rightarrow> eb_ready \<Rightarrow> nat \<Rightarrow> 'v posix_world
    \<Rightarrow> int \<times> bytes \<times> eb_link option \<times> 'v posix_world" where
  "eb_dev_poll S l ready n w =
     (case l of
        None \<Rightarrow> (0, [], l, w)
      | Some link \<Rightarrow>
          if \<not> ready (link_fdes link) EB_DESCRIPTOR_IN then (0, [], l, w)
          else let (link, v) = eb_dev_set_blocking S False link (pw_os w);
                   (r, bs, wouldblock, v) = c_read S (link_fdes link) n v;
                   w = w\<lparr>pw_os := v\<rparr>
               in if r = - 1 \<and> wouldblock then (0, [], Some link, w)
                  else if r = 0 then (- 1, [], Some link, w) else (r, bs, Some link, w))"

definition eb_dev_recv ::
  "'v posix_sys \<Rightarrow> eb_link option \<Rightarrow> nat \<Rightarrow> 'v posix_world \<Rightarrow> int \<times> bytes \<times> eb_link option \<times> 'v posix_world" where
  "eb_dev_recv S l n w =
     (case l of
        None \<Rightarrow> (0, [], l, w)
      | Some link \<Rightarrow>
          let (link, v) = eb_dev_set_blocking S True link (pw_os w);
              (r, bs, wouldblock, v) = c_read S (link_fdes link) n v;
              w = w\<lparr>pw_os := v\<rparr>
          in if r = 0 then (- 1, [], Some link, w) else (r, bs, Some link, w))"

definition eb_dev_send ::
  "'v posix_sys \<Rightarrow> eb_link option \<Rightarrow> bytes \<Rightarrow> 'v posix_world \<Rightarrow> eb_link option \<times> 'v posix_world" where
  "eb_dev_send S l buf w =
     (case l of None \<Rightarrow> (l, w)
      | Some link \<Rightarrow>
          let (link, v) = eb_dev_set_blocking S True link (pw_os w)
          in (Some link, w\<lparr>pw_os := px_write S (link_fdes link) buf v\<rparr>))"

definition eb_dev_send_buffer :: "eb_link option \<Rightarrow> bool \<Rightarrow> 'v posix_world \<Rightarrow> eb_link option \<times> 'v posix_world" where
  "eb_dev_send_buffer l on w = (l, w)"

section \<open>tunnel.c\<close>

definition eb_tunnel_open ::
  "eb_transport \<Rightarrow> string option \<Rightarrow> 'v posix_world \<Rightarrow> eb_status_t \<times> eb_transport \<times> 'v posix_world" where
  "eb_tunnel_open t port w = (EB_OK, t, w)"

definition eb_tunnel_close :: "eb_transport \<Rightarrow> 'v posix_world \<Rightarrow> 'v posix_world" where
  "eb_tunnel_close t w = w"

text \<open>The TCP name and the service of a tunnel address \<^verbatim>\<open>tunnel[46]/host/port/service\<close>. The version digit and
  the slash are copied to the TCP name.\<close>

definition tunnel_names :: "string \<Rightarrow> (string \<times> string) option" where
  "tunnel_names address =
     (let pre = (if eb_strncasecmp address ''tunnel/'' 7 = 0 then Some 7
                 else if eb_strncasecmp address ''tunnel6/'' 8 = 0 then Some 8
                 else if eb_strncasecmp address ''tunnel4/'' 8 = 0 then Some 8 else None)
      in case pre of
           None \<Rightarrow> None
         | Some n \<Rightarrow>
             let host = drop n address in
             (case split_slash host of
                (h, None) \<Rightarrow> None
              | (h, Some rest) \<Rightarrow>
                  (case split_slash rest of
                     (p, None) \<Rightarrow> None
                   | (p, Some service) \<Rightarrow>
                       let endpoint = h @ CHR ''/'' # p in
                       if length endpoint + 7 \<ge> 250 then None
                       else Some (''tcp'' @ take (n - 6) (drop 6 address) @ endpoint, service))))"

definition eb_tunnel_connect ::
  "'v posix_sys \<Rightarrow> eb_link \<Rightarrow> string \<Rightarrow> bool \<Rightarrow> 'v posix_world \<Rightarrow> eb_status_t \<times> eb_link \<times> 'v posix_world" where
  "eb_tunnel_connect S l address passive w =
     (case tunnel_names address of
        None \<Rightarrow> (EB_ADDRESS, l, w)
      | Some (tcpname, service) \<Rightarrow>
          let (err, l, w) = eb_posix_tcp_connect S l tcpname passive w in
          if err \<noteq> EB_OK then (err, l, w)
          else (EB_OK, l, snd (eb_posix_tcp_send S (Some l) (map of_char service @ [0]) w)))"

definition eb_tunnel_disconnect :: "'v posix_sys \<Rightarrow> eb_link \<Rightarrow> 'v posix_world \<Rightarrow> 'v posix_world" where
  "eb_tunnel_disconnect S l w = eb_posix_tcp_disconnect S l w"

definition eb_tunnel_fdes :: "eb_transport \<Rightarrow> eb_link option \<Rightarrow> (int \<times> uint8) list" where
  "eb_tunnel_fdes t l = (if l = None then [] else eb_posix_tcp_fdes t l)"

definition eb_tunnel_accept :: "eb_link \<Rightarrow> 'v posix_world \<Rightarrow> int \<times> eb_link \<times> 'v posix_world" where
  "eb_tunnel_accept l w = (0, l, w)"

definition eb_tunnel_poll ::
  "'v posix_sys \<Rightarrow> eb_link option \<Rightarrow> eb_ready \<Rightarrow> nat \<Rightarrow> 'v posix_world
    \<Rightarrow> int \<times> bytes \<times> eb_link option \<times> 'v posix_world" where
  "eb_tunnel_poll S l ready maxlen w =
     (if l = None then (0, [], l, w)
      else let (len, len_buf, l, w) = eb_posix_tcp_poll S l ready 2 w in
      if len \<le> 0 then (len, [], l, w)
      else let (ok, len_buf, l, w) =
                 (if len = 1
                  then let (r, bs, l, w) = eb_posix_tcp_recv S l 1 w in (r = 1, len_buf @ bs, l, w)
                  else (True, len_buf, l, w));
               n = unat (of_be 0 len_buf)
           in if \<not> ok \<or> n > maxlen then (- 1, [], l, w)
              else let (r, bs, l, w) = eb_posix_tcp_recv S l n w
                   in if r \<noteq> int n then (- 1, bs, l, w) else (int n, bs, l, w))"

definition eb_tunnel_recv :: "eb_link option \<Rightarrow> 'v posix_world \<Rightarrow> int \<times> bytes \<times> eb_link option \<times> 'v posix_world" where
  "eb_tunnel_recv l w = (- 1, [], l, w)"

definition eb_tunnel_send ::
  "'v posix_sys \<Rightarrow> eb_link option \<Rightarrow> bytes \<Rightarrow> 'v posix_world \<Rightarrow> eb_link option \<times> 'v posix_world" where
  "eb_tunnel_send S l buf w =
     (let (l, w) = eb_posix_tcp_send_buffer S l True w;
          (l, w) = eb_posix_tcp_send S l (be_bytes 2 (word_of_nat (length buf))) w;
          (l, w) = eb_posix_tcp_send S l buf w
      in eb_posix_tcp_send_buffer S l False w)"

definition eb_tunnel_send_buffer :: "eb_link option \<Rightarrow> bool \<Rightarrow> 'v posix_world \<Rightarrow> eb_link option \<times> 'v posix_world" where
  "eb_tunnel_send_buffer l on w = (l, w)"

section \<open>transports.c\<close>

abbreviation (input) EB_POSIX_UDP_MTU :: int where "EB_POSIX_UDP_MTU \<equiv> 1472"

definition dev_ops :: "'v posix_sys \<Rightarrow> 'v posix_world eb_transport_ops" where
  "dev_ops S = \<lparr>tops_mtu = 0, tops_open = eb_dev_open, tops_close = eb_dev_close, tops_connect = \<lambda>_. eb_dev_connect S,
     tops_disconnect = \<lambda>_. eb_dev_disconnect S, tops_fdes = \<lambda>_. eb_dev_fdes, tops_accept = \<lambda>_ l _. eb_dev_accept l,
     tops_poll = \<lambda>_. eb_dev_poll S, tops_recv = \<lambda>_. eb_dev_recv S, tops_send = \<lambda>_. eb_dev_send S,
     tops_send_buffer = \<lambda>_. eb_dev_send_buffer\<rparr>"

definition udp_ops :: "'v posix_sys \<Rightarrow> 'v posix_world eb_transport_ops" where
  "udp_ops S = \<lparr>tops_mtu = EB_POSIX_UDP_MTU, tops_open = eb_posix_udp_open S, tops_close = eb_posix_udp_close S,
     tops_connect = \<lambda>t l a p w. Some (eb_posix_udp_connect S t l a p w), tops_disconnect = eb_posix_udp_disconnect S,
     tops_fdes = eb_posix_udp_fdes, tops_accept = eb_posix_udp_accept, tops_poll = eb_posix_udp_poll S,
     tops_recv = eb_posix_udp_recv, tops_send = eb_posix_udp_send S, tops_send_buffer = eb_posix_udp_send_buffer\<rparr>"

definition tcp_ops :: "'v posix_sys \<Rightarrow> 'v posix_world eb_transport_ops" where
  "tcp_ops S = \<lparr>tops_mtu = 0, tops_open = eb_posix_tcp_open S, tops_close = eb_posix_tcp_close S,
     tops_connect = \<lambda>_ l a p w. Some (eb_posix_tcp_connect S l a p w), tops_disconnect = \<lambda>_. eb_posix_tcp_disconnect S,
     tops_fdes = eb_posix_tcp_fdes, tops_accept = eb_posix_tcp_accept S, tops_poll = \<lambda>_. eb_posix_tcp_poll S,
     tops_recv = \<lambda>_. eb_posix_tcp_recv S, tops_send = \<lambda>_. eb_posix_tcp_send S,
     tops_send_buffer = \<lambda>_. eb_posix_tcp_send_buffer S\<rparr>"

definition tunnel_ops :: "'v posix_sys \<Rightarrow> 'v posix_world eb_transport_ops" where
  "tunnel_ops S = \<lparr>tops_mtu = EB_POSIX_UDP_MTU, tops_open = eb_tunnel_open, tops_close = eb_tunnel_close,
     tops_connect = \<lambda>_ l a p w. Some (eb_tunnel_connect S l a p w), tops_disconnect = \<lambda>_. eb_tunnel_disconnect S,
     tops_fdes = eb_tunnel_fdes, tops_accept = \<lambda>_ l _. eb_tunnel_accept l, tops_poll = \<lambda>_. eb_tunnel_poll S,
     tops_recv = \<lambda>_ l _. eb_tunnel_recv l, tops_send = \<lambda>_. eb_tunnel_send S, tops_send_buffer = \<lambda>_. eb_tunnel_send_buffer\<rparr>"

text \<open>The table; an index beyond it, which the library never uses, is given the last entry.\<close>

definition eb_transports :: "'v posix_sys \<Rightarrow> uint8 \<Rightarrow> 'v posix_world eb_transport_ops" where
  "eb_transports S link_type =
     (if link_type = 0 then dev_ops S else if link_type = 1 then udp_ops S
      else if link_type = 2 then tcp_ops S else tunnel_ops S)"

definition eb_transport_size :: nat where "eb_transport_size = 4"

text \<open>The environment of the library on this table.\<close>

definition posix_env :: "'v posix_sys \<Rightarrow> 'v posix_world eb_env \<Rightarrow> 'v posix_world eb_env" where
  "posix_env S E = E\<lparr>env_transports := eb_transports S, env_transport_size := eb_transport_size\<rparr>"

section \<open>The drivers meet their contract\<close>

lemma received_len: "received n r = (len, bs, wb) \<Longrightarrow> length bs \<le> n \<and> (len \<le> 0 \<or> len = int (length bs))"
  by (auto simp: received_def split: sum.splits)

lemma c_recv_len: "c_recv S fd n dw v = (len, bs, wb, v') \<Longrightarrow> length bs \<le> n \<and> (len \<le> 0 \<or> len = int (length bs))"
  using received_len [of n] by (auto simp: c_recv_def Let_def split: prod.splits)

lemma c_read_len: "c_read S fd n v = (len, bs, wb, v') \<Longrightarrow> length bs \<le> n \<and> (len \<le> 0 \<or> len = int (length bs))"
  using received_len [of n] by (auto simp: c_read_def Let_def split: prod.splits)

lemma eb_posix_tcp_poll_len:
  "eb_posix_tcp_poll S l ready n w = (len, bs, l', w') \<Longrightarrow> length bs \<le> n \<and> (len \<le> 0 \<or> len = int (length bs))"
  by (auto simp: eb_posix_tcp_poll_def Let_def dest: c_recv_len split: option.splits if_splits prod.splits)

lemma eb_posix_tcp_recv_len:
  "eb_posix_tcp_recv S l n w = (len, bs, l', w') \<Longrightarrow> length bs \<le> n \<and> (len \<le> 0 \<or> len = int (length bs))"
  by (auto simp: eb_posix_tcp_recv_def Let_def dest: c_recv_len split: option.splits if_splits prod.splits)

lemma eb_dev_len:
  "eb_dev_poll S l ready n w = (len, bs, l', w') \<Longrightarrow> length bs \<le> n \<and> (len \<le> 0 \<or> len = int (length bs))"
  "eb_dev_recv S l n w = (len, bs, l', w') \<Longrightarrow> length bs \<le> n \<and> (len \<le> 0 \<or> len = int (length bs))"
  by (auto simp: eb_dev_poll_def eb_dev_recv_def Let_def dest: c_read_len split: option.splits if_splits prod.splits)

lemma udp_recvfrom_len:
  "udp_recvfrom S sock ready n w = (Some (len, bs), w') \<Longrightarrow> length bs \<le> n \<and> (len \<le> 0 \<or> len = int (length bs))"
  by (auto simp: udp_recvfrom_def split: if_splits sum.splits prod.splits)

lemma eb_posix_udp_poll_len:
  "eb_posix_udp_poll S t l ready n w = (len, bs, l', w') \<Longrightarrow> length bs \<le> n \<and> (len \<le> 0 \<or> len = int (length bs))"
  by (auto simp: eb_posix_udp_poll_def dest!: udp_recvfrom_len split: option.splits prod.splits)

lemma eb_tunnel_poll_len:
  assumes "eb_tunnel_poll S l ready n w = (len, bs, l', w')"
  shows "length bs \<le> n \<and> (len \<le> 0 \<or> len = int (length bs))"
  using assms
  by (auto simp: eb_tunnel_poll_def Let_def dest!: eb_posix_tcp_recv_len split: if_splits prod.splits)

interpretation posix: transport_driver "posix_env S E" for S :: "'v posix_sys" and E
proof unfold_locales
  fix ty t l ready n w len bs l' and w' :: "'v posix_world"
  show "tops_poll (env_transports (posix_env S E) ty) t l ready n w = (len, bs, l', w') \<Longrightarrow>
      length bs \<le> n \<and> (len \<le> 0 \<or> len = int (length bs))"
    by (auto simp: posix_env_def eb_transports_def dev_ops_def udp_ops_def tcp_ops_def tunnel_ops_def
        dest: eb_dev_len eb_posix_udp_poll_len eb_posix_tcp_poll_len eb_tunnel_poll_len split: if_splits)
  show "tops_recv (env_transports (posix_env S E) ty) t l n w = (len, bs, l', w') \<Longrightarrow>
      length bs \<le> n \<and> (len \<le> 0 \<or> len = int (length bs))"
    by (auto simp: posix_env_def eb_transports_def dev_ops_def udp_ops_def tcp_ops_def tunnel_ops_def
        eb_posix_udp_recv_def eb_tunnel_recv_def dest: eb_dev_len eb_posix_tcp_recv_len split: if_splits)
qed

end
