(* ===== verification/EB_Roundtrip.thy ===== *)
theory EB_Roundtrip
  imports EB_Slave_Safe
begin

text \<open>
  The two packet formats agree: what \<^verbatim>\<open>format/master.c\<close> writes into a record \<^verbatim>\<open>format/slave.c\<close> reads back.
  The select lines of a record determine the width and the position of its operations, the words carry their
  values, and the address with the low bits derived from the select lines is the address of the operation for
  a device of its endianness.
\<close>

unbundle bit_operations_syntax

section \<open>Checked operations\<close>

abbreviation is_width :: "eb_width_t \<Rightarrow> bool" where
  "is_width d \<equiv> d = 1 \<or> d = 2 \<or> d = 4 \<or> d = 8"

text \<open>A format that passed the check: the width of the port, or a smaller one and an endianness.\<close>

definition checked_format :: "eb_width_t \<Rightarrow> eb_format_t \<Rightarrow> bool" where
  "checked_format data fmt \<longleftrightarrow>
     (let sz = fmt AND EB_DATAX
      in is_width sz \<and> sz \<le> data
         \<and> (if sz = data then fmt = sz else fmt = EB_BIG_ENDIAN OR sz \<or> fmt = EB_LITTLE_ENDIAN OR sz))"

lemma refine_width_nibble:
  assumes "x < 16" and "is_width data"
  shows "eb_width_refine (x AND (data - 1 + data)) = 0 \<or>
    is_width (eb_width_refine (x AND (data - 1 + data))) \<and> eb_width_refine (x AND (data - 1 + data)) \<le> data"
  using assms(2)
proof (elim disjE)
qed (use nibble_cases [OF assms(1)] in \<open>auto simp: eb_width_refine_nibbles refine_nibble_def\<close>)

lemma refine_width:
  assumes "is_width data"
  shows "eb_width_refine (f AND (data - 1 + data)) = 0 \<or>
    is_width (eb_width_refine (f AND (data - 1 + data))) \<and> eb_width_refine (f AND (data - 1 + data)) \<le> data"
proof -
  have "(f AND 15) AND (data - 1 + data) = f AND (data - 1 + data)"
    using assms by (auto simp: and.assoc)
  then show ?thesis
    using refine_width_nibble [OF low_nibble_less [of f] assms] by metis
qed

lemma endian_cases: "(f :: uint8) AND 0x30 = 0 \<or> f AND 0x30 = 0x10 \<or> f AND 0x30 = 0x20 \<or> f AND 0x30 = 0x30"
proof -
  have "f AND 0x30 = push_bit 4 (drop_bit 4 f AND 3)"
  proof (rule bit_word_eqI)
    fix n
    assume "n < LENGTH(8)"
    then consider "n = 0" | "n = 1" | "n = 2" | "n = 3" | "n = 4" | "n = 5" | "n = 6" | "n = 7"
      by fastforce
    then show "bit (f AND 0x30) n = bit (push_bit 4 (drop_bit 4 f AND 3)) n"
      by cases (simp_all add: bit_simps)
  qed
  then show ?thesis
    using nibble_cases [OF high_nibble_less, of f] by auto
qed

lemma checked_formatI:
  assumes "is_width sz" and "sz \<le> data"
    and "sz = data \<and> endian = 0 \<or> sz \<noteq> data \<and> endian = EB_BIG_ENDIAN \<or> sz \<noteq> data \<and> endian = EB_LITTLE_ENDIAN"
  shows "checked_format data (endian OR sz)"
  using assms(1,3)
proof (elim disjE)
qed (use assms(2) in \<open>simp_all add: checked_format_def\<close>)

lemma flush_check_op_format:
  assumes "is_width data" and "flush_check_op data amask op = (EB_OK, op')"
  shows "checked_format data (op_format op')"
proof -
  let ?sz = "eb_width_refine (op_format op AND (data - 1 + data))"
  let ?e = "if ?sz = data then 0 else op_format op AND EB_ENDIAN_MASK"
  have "?sz \<noteq> 0" "\<not> (?e = EB_BIG_ENDIAN OR EB_LITTLE_ENDIAN \<or> ?sz \<noteq> data \<and> ?e = 0)"
    and op': "op_format op' = ?e OR ?sz"
    using assms(2) by (auto simp: flush_check_op_def Let_def simp del: or_numerals split: if_splits)
  with refine_width [OF assms(1), of "op_format op"] endian_cases [of "op_format op"]
  show ?thesis
    unfolding op' by (intro checked_formatI) auto
qed

section \<open>Select lines\<close>

text \<open>The position of an operation as seen from the other endianness.\<close>

definition other_low :: "eb_width_t \<Rightarrow> eb_format_t \<Rightarrow> uint8 \<Rightarrow> uint8" where
  "other_low data fmt low = data - (low + (fmt AND EB_DATAX))"

definition select_agrees :: "eb_width_t \<Rightarrow> eb_format_t \<Rightarrow> uint8 \<Rightarrow> bool" where
  "select_agrees data fmt low \<longleftrightarrow>
     (let shift = op_shift_of data fmt low; sel = decode_select data (record_select fmt shift)
      in sel_ok sel \<and> sel_width sel = fmt AND EB_DATAX \<and> sel_shift sel = shift
         \<and> unat shift + unat (fmt AND EB_DATAX) \<le> unat data \<and> other_low data fmt low < data
         \<and> sel_low_b sel = (if fmt AND EB_ENDIAN_MASK = EB_LITTLE_ENDIAN then other_low data fmt low else low)
         \<and> sel_low_l sel = (if fmt AND EB_ENDIAN_MASK = EB_BIG_ENDIAN then other_low data fmt low else low))"

definition select_cases :: "(eb_width_t \<times> eb_format_t \<times> uint8) list" where
  "select_cases =
     concat (map (\<lambda>d. concat (map (\<lambda>f. map (\<lambda>l. (d, f, l))
         (filter (\<lambda>l. l < d \<and> l AND ((f AND EB_DATAX) - 1) = 0) [0, 1, 2, 3, 4, 5, 6, 7]))
       (filter (checked_format d) [1, 2, 4, 8, 0x11, 0x12, 0x14, 0x18, 0x21, 0x22, 0x24, 0x28]))) [1, 2, 4, 8])"

lemma select_cases_agree: "list_all (\<lambda>(d, f, l). select_agrees d f l) select_cases"
  by code_simp

lemma small_cases: "(l :: uint8) < 8 \<Longrightarrow> l \<in> {0, 1, 2, 3, 4, 5, 6, 7}"
  using nibble_cases [of l] order.strict_trans [of l 8 16] by auto

lemma checked_format_cases:
  assumes "checked_format data f"
  shows "f \<in> {1, 2, 4, 8, 0x11, 0x12, 0x14, 0x18, 0x21, 0x22, 0x24, 0x28}"
proof -
  let ?sz = "f AND 15"
  have "is_width ?sz" "f = ?sz \<or> f = 0x10 OR ?sz \<or> f = 0x20 OR ?sz"
    using assms by (auto simp: checked_format_def Let_def split: if_splits)
  then show ?thesis by (elim disjE) simp_all
qed

lemma in_filtered_product:
  assumes "d \<in> set ds" and "f \<in> set fs" and "P d f" and "l \<in> set ls" and "l < d \<and> Q f l"
  shows "(d, f, l) \<in> set (concat (map (\<lambda>d. concat (map (\<lambda>f. map (\<lambda>l. (d, f, l))
     (filter (\<lambda>l. l < d \<and> Q f l) ls)) (filter (P d) fs))) ds))"
  using assms by auto

lemma decode_record_select:
  assumes "is_width data" and "checked_format data fmt" and "low < data" and "low AND ((fmt AND EB_DATAX) - 1) = 0"
  shows "select_agrees data fmt low"
proof -
  have "low < 8" using assms(1,3) by (auto intro: order.strict_trans)
  then have "low \<in> {0, 1, 2, 3, 4, 5, 6, 7}" by (rule small_cases)
  moreover have "fmt \<in> {1, 2, 4, 8, 0x11, 0x12, 0x14, 0x18, 0x21, 0x22, 0x24, 0x28}"
    by (rule checked_format_cases [OF assms(2)])
  ultimately have "(data, fmt, low) \<in> set select_cases"
    using assms unfolding select_cases_def
    by (intro in_filtered_product) (simp_all only: list.set insert_iff empty_iff simp_thms)
  with select_cases_agree show ?thesis by (auto simp: list_all_iff)
qed

section \<open>Addresses and values\<close>

definition address_mask_of :: "eb_width_t \<Rightarrow> eb_address_t" where
  "address_mask_of a = drop_bit ((8 - unat a) * 8) (- 1)"

lemma address_mask_of_widths [simp]:
  "address_mask_of 1 = 0xFF" "address_mask_of 2 = 0xFFFF" "address_mask_of 4 = 0xFFFFFFFF"
  "address_mask_of 8 = 0xFFFFFFFFFFFFFFFF"
  by (simp_all add: address_mask_of_def mask_eq_exp_minus_1)

lemma mask_minus:
  assumes "is_width a" and "is_width sz"
  shows "address_mask_of a - (ucast sz - 1) = address_mask_of a AND NOT (ucast sz - 1)"
  using assms by (elim disjE) simp_all

lemma and_and_eq:
  fixes x :: "'a :: len word"
  assumes "x AND (m AND NOT n) = x"
  shows "x AND m = x" "x AND n = 0"
proof -
  have bits: "bit m k \<and> \<not> bit n k" if "bit x k" for k
    using arg_cong [OF assms, of "\<lambda>y. bit y k"] that by (auto simp: bit_simps)
  show "x AND m = x" "x AND n = 0"
    by (rule bit_word_eqI, use bits in \<open>auto simp: bit_simps\<close>)+
qed

lemma ucast_low:
  assumes "is_width data"
  shows "ucast (ucast (x :: uint64) AND (data - 1) :: uint8) = x AND (ucast data - 1 :: uint64)"
proof -
  have m: "(ucast data - 1 :: uint64) = ucast (data - 1)" using assms by (elim disjE) simp_all
  show ?thesis unfolding m
    by (rule bit_word_eqI) (auto simp: bit_simps dest: bit_imp_le_length)
qed

lemma low_less: "is_width data \<Longrightarrow> (x :: uint8) AND (data - 1) < data"
  using word_and_le1 [of x "data - 1"] by (auto intro: order.strict_trans1)

lemma low_aligned:
  assumes "is_width data" and "is_width sz" and "sz \<le> data" and "x AND (ucast sz - 1 :: uint64) = 0"
  shows "(ucast x AND (data - 1)) AND (sz - 1) = 0"
proof -
  have m: "(ucast sz - 1 :: uint64) = ucast (sz - 1)" using assms(2) by (elim disjE) simp_all
  have "ucast x AND (sz - 1) = ucast (x AND ucast (sz - 1) :: uint64)"
    by (rule bit_word_eqI) (auto simp: bit_simps)
  then have z: "ucast x AND (sz - 1) = 0" using assms(4) by (simp add: m)
  have "(ucast x AND (data - 1)) AND (sz - 1) = (ucast x AND (sz - 1)) AND (data - 1)"
    by (simp add: ac_simps)
  then show ?thesis by (simp add: z)
qed

lemma split_low: "(x AND NOT m) OR (x AND m) = (x :: 'a :: len word)"
  by (rule bit_word_eqI) (auto simp: bit_simps)

text \<open>The value of an operation survives the trip through its word.\<close>

lemma shifted_value:
  fixes v :: uint64
  assumes "v AND drop_bit ((8 - w) * 8) (- 1) = v" and "s + w \<le> al" and "al \<le> 8"
  shows "drop_bit (s * 8) (take_bit (8 * al) (push_bit (8 * s) v)) AND drop_bit ((8 - w) * 8) (- 1) = v"
proof -
  have bits: "k < 8 * w" if "bit v k" for k
    using arg_cong [OF assms(1), of "\<lambda>y. bit y k"] that assms(2,3) by (auto simp: bit_simps dest: bit_imp_le_length)
  have "s * 8 + k < 8 * al" "s * 8 + k < 64" "k < 64 - (8 - w) * 8" if "bit v k" for k
    using bits [OF that] assms(2,3) by auto
  then show ?thesis
    by (intro bit_word_eqI) (auto simp: bit_simps dest: bit_imp_le_length)
qed

text \<open>Advancing an address by multiples of the port width keeps its low bits.\<close>

lemma width_mask:
  assumes "is_width data"
  obtains n where "n \<le> 3" "ucast data = (2 ^ n :: uint64)" "ucast data - 1 = (mask n :: uint64)"
proof -
  from assms consider "data = 1" | "data = 2" | "data = 4" | "data = 8" by blast
  then show thesis
  proof cases
    case 1 show thesis by (rule that [of 0]) (simp_all add: 1)
  next
    case 2 show thesis by (rule that [of 1]) (simp_all add: 2)
  next
    case 3 show thesis by (rule that [of 2]) (simp_all add: 3 mask_eq_exp_minus_1)
  next
    case 4 show thesis by (rule that [of 3]) (simp_all add: 4 mask_eq_exp_minus_1)
  qed
qed

lemma word_take_bit_add:
  "take_bit n (x + y) = take_bit n (take_bit n x + take_bit n (y :: 'a :: len word))"
  by transfer (metis take_bit_add take_bit_take_bit)

lemma low_stride:
  fixes x :: uint64
  assumes "is_width data"
  shows "(x + of_nat i * ucast data) AND (ucast data - 1) = x AND (ucast data - 1)"
proof -
  from assms obtain n where n: "ucast data = (2 ^ n :: uint64)" "ucast data - 1 = (mask n :: uint64)"
    by (rule width_mask)
  have "take_bit n (of_nat i * 2 ^ n :: uint64) = 0"
    by (simp flip: push_bit_eq_mult add: take_bit_push_bit)
  then have "take_bit n (x + of_nat i * 2 ^ n) = take_bit n x"
    using word_take_bit_add [of n x "of_nat i * 2 ^ n"] by simp
  then show ?thesis unfolding n(2) by (simp only: n(1) flip: take_bit_eq_mask)
qed

lemma high_or_low:
  fixes x :: uint64
  assumes "is_width data" and "y AND (ucast data - 1) = y"
  shows "(x AND NOT (ucast data - 1)) OR y = x - (x AND (ucast data - 1)) + y"
proof -
  let ?m = "ucast data - 1 :: uint64"
  have "(x AND NOT ?m) AND (x AND ?m) = 0"
    by (auto intro: bit_word_eqI simp: bit_simps)
  then have "x = (x AND NOT ?m) + (x AND ?m)"
    using split_low [of x ?m] by (simp add: disjunctive_add_eq_or)
  then have "x AND NOT ?m = x - (x AND ?m)" by (simp add: algebra_simps)
  moreover have "(x AND NOT ?m) AND y = 0"
    by (subst assms(2) [symmetric]) (auto intro: bit_word_eqI simp: bit_simps)
  ultimately show ?thesis by (metis disjunctive_add_eq_or)
qed

section \<open>The writes of a record\<close>

text \<open>The address of an operation for a device of the given endianness: its own address, or the mirrored one
  when the operation is narrower than the port and was made for the other endianness.\<close>

definition bus_address :: "eb_width_t \<Rightarrow> bool \<Rightarrow> eb_operation \<Rightarrow> eb_address_t" where
  "bus_address data little op =
     (let low = ucast (op_address op) AND (data - 1)
      in if op_format op AND EB_ENDIAN_MASK = (if little then EB_BIG_ENDIAN else EB_LITTLE_ENDIAN)
         then (op_address op AND NOT (ucast data - 1)) OR ucast (other_low data (op_format op) low)
         else op_address op)"

lemma ucast_8_64_inj: "(ucast (x :: uint8) :: uint64) = ucast y \<Longrightarrow> x = y"
  by (rule bit_word_eqI) (drule arg_cong [where f = "\<lambda>w. bit w _"], auto simp: bit_ucast_iff)

lemma ucast_fits:
  assumes "is_width data" and "(x :: uint8) < data"
  shows "(ucast x :: uint64) AND (ucast data - 1) = ucast x"
proof -
  have "x < 8" using assms by (auto intro: order.strict_trans)
  with assms small_cases [of x] show ?thesis by (elim disjE) auto
qed

lemma bus_address_stride:
  assumes "is_width data" and "op_format op' = op_format op" and "op_address op' = op_address op + of_nat i * ucast data"
    and "other_low data (op_format op) (ucast (op_address op) AND (data - 1)) < data"
  shows "bus_address data little op' = bus_address data little op + of_nat i * ucast data"
proof -
  let ?A = "op_address op" and ?A' = "op_address op'"
  have "ucast (ucast ?A' AND (data - 1) :: uint8) = (ucast (ucast ?A AND (data - 1) :: uint8) :: uint64)"
    unfolding ucast_low [OF assms(1)] assms(3) by (rule low_stride [OF assms(1)])
  then have low: "ucast ?A' AND (data - 1) = ucast ?A AND (data - 1)"
    by (rule ucast_8_64_inj)
  have "(x AND NOT (ucast data - 1)) OR ucast (other_low data (op_format op) (ucast ?A AND (data - 1)))
      = x - (x AND (ucast data - 1)) + ucast (other_low data (op_format op) (ucast ?A AND (data - 1)))" for x :: uint64
    by (intro high_or_low assms(1) ucast_fits assms(4))
  then show ?thesis
    using low_stride [OF assms(1), of ?A i]
    by (simp add: bus_address_def Let_def low [unfolded assms(3)] assms(2,3))
qed

text \<open>The writes of a list of operations on the local bus, in order; the error flags are shifted in as
  \<^verbatim>\<open>eb_socket_write\<close> does.\<close>

fun bus_writes ::
  "'w eb_env \<Rightarrow> eb_ptr \<Rightarrow> eb_width_t \<Rightarrow> eb_width_t \<Rightarrow> eb_operation list \<Rightarrow> uint64 \<Rightarrow> 'w eb_state
    \<Rightarrow> (uint64 \<times> 'w eb_state) option" where
  "bus_writes E k data a [] error s = Some (error, s)"
| "bus_writes E k data a (op # ops) error s =
     do { (error, s) \<leftarrow> eb_socket_write E k ((op_format op AND EB_DATAX) OR push_bit 4 a)
            (bus_address data False op) (bus_address data True op) (op_value op) error s;
          bus_writes E k data a ops error s }"

definition value_fits :: "eb_operation \<Rightarrow> bool" where
  "value_fits op \<longleftrightarrow> op_value op AND data_mask_of (op_format op AND EB_DATAX) = op_value op"

lemma load_word:
  assumes "is_alignment (sc_alignment c)" and "drop (sl_rptr st) (sl_buf st) = EB_mWRITE v (sc_alignment c) @ rest"
  shows "load_at c st = take_bit (8 * sc_alignment c) v"
    and "drop (sl_rptr (advance c st)) (sl_buf (advance c st)) = rest"
proof -
  have "take (sc_alignment c) (EB_mWRITE v (sc_alignment c) @ rest) = EB_mWRITE v (sc_alignment c) @ []"
    by (simp add: length_EB_mWRITE [OF assms(1)])
  then show "load_at c st = take_bit (8 * sc_alignment c) v"
    unfolding load_at_def assms(2) by (metis EB_LOAD_mWRITE [OF assms(1)])
  have "drop (sl_rptr st + sc_alignment c) (sl_buf st) = drop (sc_alignment c) (drop (sl_rptr st) (sl_buf st))"
    by (simp add: add.commute)
  then show "drop (sl_rptr (advance c st)) (sl_buf (advance c st)) = rest"
    by (simp add: advance_def assms(2) length_EB_mWRITE [OF assms(1)])
qed

lemma slave_write_word:
  assumes al: "is_alignment (sc_alignment c)" and sel: "sel_ok sel" "sel_width sel = op_format op AND EB_DATAX"
    and fit: "unat (sel_shift sel) + unat (sel_width sel) \<le> sc_alignment c" "value_fits op"
    and buf: "drop (sl_rptr st) (sl_buf st)
      = EB_mWRITE (push_bit (8 * unat (sel_shift sel)) (op_value op)) (sc_alignment c) @ rest"
  shows "slave_write E c sel False bwa bwa_b bwa_l st =
    do { (error, s) \<leftarrow> eb_socket_write E (sc_socketp c) ((op_format op AND EB_DATAX) OR push_bit 4 (sc_addr c))
           bwa_b bwa_l (op_value op) (sl_error st) (sl_state st);
         Some ((advance c st)\<lparr>sl_error := error, sl_state := s\<rparr>) }"
proof -
  have "drop_bit (unat (sel_shift sel) * 8) (load_at c st) AND data_mask_of (sel_width sel) = op_value op"
    unfolding load_word(1) [OF al buf] data_mask_of_def
    using fit al by (intro shifted_value) (auto simp: value_fits_def data_mask_of_def sel(2))
  then show ?thesis
    by (simp add: slave_write_def Let_def sel advance_def)
qed

lemma slave_write_loop_words:
  assumes "is_alignment (sc_alignment c)" and "sel_ok sel"
    and "unat (sel_shift sel) + unat (sel_width sel) \<le> sc_alignment c"
    and "\<forall>op \<in> set ws. sel_width sel = op_format op AND EB_DATAX \<and> value_fits op"
    and "\<forall>i < length ws. bus_address (sc_data c) False (ws ! i) = bwa_b + of_nat i * (if fifo then 0 else ucast (sc_data c))"
    and "\<forall>i < length ws. bus_address (sc_data c) True (ws ! i) = bwa_l + of_nat i * (if fifo then 0 else ucast (sc_data c))"
    and "drop (sl_rptr st) (sl_buf st)
      = concat (map (\<lambda>op. EB_mWRITE (push_bit (8 * unat (sel_shift sel)) (op_value op)) (sc_alignment c)) ws) @ rest"
  shows "slave_write_loop E c sel False fifo bwa bwa_b bwa_l (length ws) st =
    do { (error, s) \<leftarrow> bus_writes E (sc_socketp c) (sc_data c) (sc_addr c) ws (sl_error st) (sl_state st);
         Some (st\<lparr>sl_rptr := sl_rptr st + length ws * sc_alignment c, sl_error := error, sl_state := s\<rparr>) }"
  using assms(4-)
proof (induction ws arbitrary: bwa bwa_b bwa_l st)
  case Nil
  then show ?case by simp
next
  case (Cons op ws)
  let ?stride = "if fifo then 0 else ucast (sc_data c) :: uint64"
  let ?tail = "concat (map (\<lambda>op. EB_mWRITE (push_bit (8 * unat (sel_shift sel)) (op_value op)) (sc_alignment c)) ws) @ rest"
  have buf: "drop (sl_rptr st) (sl_buf st)
      = EB_mWRITE (push_bit (8 * unat (sel_shift sel)) (op_value op)) (sc_alignment c) @ ?tail"
    using Cons.prems(4) by simp
  have head: "bus_address (sc_data c) False op = bwa_b" "bus_address (sc_data c) True op = bwa_l"
    using Cons.prems(2,3) by (auto dest: spec [of _ 0])
  have tail: "\<forall>i < length ws. bus_address (sc_data c) l (ws ! i) = b + ?stride + of_nat i * ?stride"
    if "\<forall>i < length (op # ws). bus_address (sc_data c) l ((op # ws) ! i) = b + of_nat i * ?stride" for l b
    using that by (auto simp: algebra_simps dest: spec [of _ "Suc _"])
  have step: "slave_write E c sel False bwa bwa_b bwa_l st =
    do { (error, s) \<leftarrow> eb_socket_write E (sc_socketp c) ((op_format op AND EB_DATAX) OR push_bit 4 (sc_addr c))
           bwa_b bwa_l (op_value op) (sl_error st) (sl_state st);
         Some ((advance c st)\<lparr>sl_error := error, sl_state := s\<rparr>) }"
    using Cons.prems(1) assms(1-3) buf by (intro slave_write_word) auto
  have rest: "drop (sl_rptr (st'\<lparr>sl_error := e, sl_state := s\<rparr>)) (sl_buf (st'\<lparr>sl_error := e, sl_state := s\<rparr>)) = ?tail"
    if "st' = advance c st" for st' e s
    using load_word(2) [OF assms(1) buf] that by simp
  have "\<forall>op \<in> set ws. sel_width sel = op_format op AND EB_DATAX \<and> value_fits op" using Cons.prems(1) by auto
  note IH = Cons.IH [OF this tail [OF Cons.prems(2)] tail [OF Cons.prems(3)] rest [OF refl]]
  show ?case
  proof (cases "eb_socket_write E (sc_socketp c) ((op_format op AND EB_DATAX) OR push_bit 4 (sc_addr c))
      bwa_b bwa_l (op_value op) (sl_error st) (sl_state st)")
    case None
    then show ?thesis by (simp add: step head)
  next
    case (Some r)
    obtain e s where r: "r = (e, s)" by fastforce
    show ?thesis
      by (simp add: step head Some r Let_def IH split del: if_split)
        (simp add: advance_def algebra_simps)
  qed
qed

text \<open>An operation that passed \<open>flush_check_op\<close>.\<close>

definition good_op :: "eb_width_t \<Rightarrow> eb_width_t \<Rightarrow> eb_operation \<Rightarrow> bool" where
  "good_op data a op \<longleftrightarrow>
     checked_format data (op_format op) \<and> op_address op AND (ucast (op_format op AND EB_DATAX) - 1) = 0
     \<and> (cfg_of op = 0 \<longrightarrow> op_address op AND address_mask_of a = op_address op)
     \<and> (is_write_op op \<longrightarrow> value_fits op)"

lemma flush_check_op_good:
  assumes "is_width data" and "is_width a" and "flush_check_op data (address_mask_of a) op = (EB_OK, op')"
  shows "good_op data a op'"
proof -
  have fmt: "checked_format data (op_format op')"
    by (rule flush_check_op_format [OF assms(1,3)])
  let ?sz = "eb_width_refine (op_format op AND (data - 1 + data))"
  let ?e = "if ?sz = data then 0 else op_format op AND EB_ENDIAN_MASK"
  have ok: "flush_check_op data (address_mask_of a) op = (EB_OK, op') \<Longrightarrow>
      ?sz \<noteq> 0 \<and> op' = op\<lparr>op_format := ?e OR ?sz\<rparr>
      \<and> (cfg_of op = 0 \<longrightarrow> op_address op AND (address_mask_of a - (ucast ?sz - 1)) = op_address op)
      \<and> (cfg_of op \<noteq> 0 \<longrightarrow> op_address op AND (0xFFFF - (ucast ?sz - 1)) = op_address op)
      \<and> (is_write_op op \<longrightarrow> op_value op AND drop_bit ((8 - unat ?sz) * 8) (- 1) = op_value op)"
    unfolding flush_check_op_def Let_def
    by (simp only: if_split_eq1 prod.inject eb_operation.simps) (auto simp del: or_numerals)
  then have sz: "?sz \<noteq> 0" and op': "op' = op\<lparr>op_format := ?e OR ?sz\<rparr>"
    and a: "cfg_of op = 0 \<Longrightarrow> op_address op AND (address_mask_of a - (ucast ?sz - 1)) = op_address op"
    and c: "cfg_of op \<noteq> 0 \<Longrightarrow> op_address op AND (0xFFFF - (ucast ?sz - 1)) = op_address op"
    and v: "is_write_op op \<Longrightarrow> op_value op AND drop_bit ((8 - unat ?sz) * 8) (- 1) = op_value op"
    using assms(3) by blast+
  have w: "is_width ?sz" using refine_width [OF assms(1)] sz by blast
  have "?e = 0 \<or> ?e = 0x10 \<or> ?e = 0x20 \<or> ?e = 0x30" using endian_cases by auto
  then have szf: "op_format op' AND EB_DATAX = ?sz" using w unfolding op' by (elim disjE) simp_all
  have "op_address op AND (ucast ?sz - 1) = 0"
  proof (cases "cfg_of op = 0")
    case True
    from a [OF True] show ?thesis unfolding mask_minus [OF assms(2) w] by (rule and_and_eq(2))
  next
    case False
    have "op_address op AND (address_mask_of 2 - (ucast ?sz - 1)) = op_address op" using c [OF False] by simp
    then show ?thesis by (subst (asm) mask_minus) (use w and_and_eq(2) in blast)+
  qed
  moreover have "op_address op AND address_mask_of a = op_address op" if "cfg_of op = 0"
    using a [OF that] unfolding mask_minus [OF assms(2) w] by (rule and_and_eq(1))
  ultimately show ?thesis
    using fmt v unfolding good_op_def value_fits_def data_mask_of_def szf by (simp add: op')
qed

lemma good_op_select:
  assumes "is_width data" and "good_op data a op" and "low = ucast (op_address op) AND (data - 1)"
  shows "select_agrees data (op_format op) low"
  using assms low_less [OF assms(1)] low_aligned [OF assms(1), of "op_format op AND EB_DATAX" "op_address op"]
  by (intro decode_record_select) (auto simp: good_op_def checked_format_def Let_def)

lemma good_op_bus_address:
  assumes "is_width data" and "is_width a" and "good_op data a op" and "cfg_of op = 0"
    and "low = ucast (op_address op) AND (data - 1)"
    and "sel = decode_select data (record_select (op_format op) (op_shift_of data (op_format op) low))"
  shows "(op_address op AND (address_mask_of a - (ucast data - 1))) OR ucast (sel_low_b sel) = bus_address data False op"
    and "(op_address op AND (address_mask_of a - (ucast data - 1))) OR ucast (sel_low_l sel) = bus_address data True op"
proof -
  have sel: "sel_low_b sel = (if op_format op AND EB_ENDIAN_MASK = EB_LITTLE_ENDIAN then other_low data (op_format op) low else low)"
    "sel_low_l sel = (if op_format op AND EB_ENDIAN_MASK = EB_BIG_ENDIAN then other_low data (op_format op) low else low)"
    using good_op_select [OF assms(1,3,5)] by (simp_all add: select_agrees_def Let_def assms(6))
  have "op_address op AND address_mask_of a = op_address op"
    using assms(3,4) by (simp add: good_op_def)
  then have base: "op_address op AND (address_mask_of a - (ucast data - 1)) = op_address op AND NOT (ucast data - 1)"
    unfolding mask_minus [OF assms(2,1)] by (metis and.assoc)
  have own: "(op_address op AND NOT (ucast data - 1)) OR ucast low = op_address op"
    unfolding assms(5) ucast_low [OF assms(1)] by (rule split_low)
  show "(op_address op AND (address_mask_of a - (ucast data - 1))) OR ucast (sel_low_b sel) = bus_address data False op"
    "(op_address op AND (address_mask_of a - (ucast data - 1))) OR ucast (sel_low_l sel) = bus_address data True op"
    unfolding base sel bus_address_def Let_def using own by (auto simp: assms(5))
qed

lemma width_le_alignment:
  assumes "is_width data" and "is_width a"
  shows "unat data \<le> eb_alignment (a OR data)" "unat a \<le> eb_alignment (a OR data)"
  using assms by (elim disjE; simp add: eb_alignment_def)+

lemma load_address:
  assumes "x AND address_mask_of a = x" and "unat a \<le> al" and "al \<le> 8"
  shows "take_bit (8 * al) x = x"
proof -
  have "k < 8 * unat a" if "bit x k" for k
    using arg_cong [OF assms(1), of "\<lambda>y. bit y k"] that assms(2,3)
    by (auto simp: bit_simps address_mask_of_def dest: bit_imp_le_length)
  with assms(2) show ?thesis
    by (intro bit_word_eqI) (fastforce simp: bit_simps)
qed

text \<open>What the words of a record say, for a slave of the same widths: the writes of the plan are performed on
  the bus in order.\<close>

lemma slave_writes_record:
  assumes w: "is_width (fc_data f)" "is_width (fc_addr f)"
    and c: "sc_data c = fc_data f" "sc_addr c = fc_addr f" "sc_alignment c = fc_alignment f"
      "sc_filter c = address_mask_of (fc_addr f) - (ucast (fc_data f) - 1)"
      "fc_alignment f = eb_alignment (fc_addr f OR fc_data f)"
    and p: "p = plan_record (fc_data f) needs_check maxops ops xs"
    and good: "\<forall>x \<in> set xs. good_op (fc_data f) (fc_addr f) x"
    and flags: "flags AND EB_RECORD_WCA = 0" "(flags AND EB_RECORD_WFF \<noteq> 0) = rp_fifo p" "\<not> rp_wcfg p"
    and sh: "sh = op_shift_of (fc_data f) (rp_format p) (rp_low_addr p)"
    and sel: "sel = decode_select (fc_data f) (record_select (rp_format p) sh)"
    and pos: "0 < rp_wcount p"
    and buf: "drop (sl_rptr st) (sl_buf st) = EB_mWRITE (op_address (hd xs)) (fc_alignment f)
       @ concat (map (\<lambda>op. EB_mWRITE (push_bit (8 * unat sh) (op_value op)) (fc_alignment f)) (take (rp_wcount p) xs)) @ rest"
  shows "slave_writes E c sel flags (rp_wcount p) st =
    do { (error, s) \<leftarrow> bus_writes E (sc_socketp c) (fc_data f) (fc_addr f) (take (rp_wcount p) xs) (sl_error st) (sl_state st);
         Some (st\<lparr>sl_rptr := sl_rptr st + Suc (rp_wcount p) * fc_alignment f, sl_error := error, sl_state := s\<rparr>) }"
proof -
  let ?data = "fc_data f" and ?a = "fc_addr f" and ?al = "fc_alignment f"
  let ?ws = "take (rp_wcount p) xs" and ?op = "hd xs"
  have al: "is_alignment ?al" using is_alignment_eb_alignment c(5) by simp
  have "\<forall>x \<in> set xs. op_format x \<noteq> EB_DATAX"
    using good checked_format_cases unfolding good_op_def by fastforce
  note P = plan_record_take [OF p this] and N = plan_record_counts [OF p]
  have len: "length ?ws = rp_wcount p" using N(1) by simp
  have hd: "?op \<in> set ?ws" "?op \<in> set xs" using pos N(1) by (cases xs; cases "rp_wcount p"; auto)+
  have op: "good_op ?data ?a ?op" "cfg_of ?op = 0" "op_format ?op = rp_format p"
    using good P(1) hd flags(3) by auto
  have low: "rp_low_addr p = ucast (op_address ?op) AND (?data - 1)" using P(3) pos by simp
  have agrees: "select_agrees ?data (rp_format p) (rp_low_addr p)"
    using good_op_select [OF w(1) op(1) low] op(3) by simp
  then have S: "sel_ok sel" "sel_width sel = rp_format p AND EB_DATAX" "sel_shift sel = sh"
    "unat sh + unat (sel_width sel) \<le> unat ?data" "other_low ?data (rp_format p) (rp_low_addr p) < ?data"
    by (simp_all add: select_agrees_def Let_def sel sh)
  have addr: "(op_address ?op AND sc_filter c) OR ucast (sel_low_b sel) = bus_address ?data False ?op"
    "(op_address ?op AND sc_filter c) OR ucast (sel_low_l sel) = bus_address ?data True ?op"
    using good_op_bus_address [OF w op(1,2) low, of sel] sel sh op(3) c(4) by simp_all
  have strides: "bus_address ?data l (?ws ! i) = bus_address ?data l ?op + of_nat i * (if rp_fifo p then 0 else ucast ?data)"
    if "i < length ?ws" for i l
  proof -
    have i: "i < rp_wcount p" "?ws ! i = xs ! i" using that by simp_all
    have f: "op_format (?ws ! i) = op_format ?op" using P(1) op(3) nth_mem [OF that] by auto
    show ?thesis
    proof (cases "rp_fifo p")
      case True
      with f P(2) i show ?thesis by (simp add: bus_address_def)
    next
      case False
      then have "op_address (?ws ! i) = op_address ?op + of_nat i * ucast ?data" using P(2) i by simp
      with bus_address_stride [OF w(1) f this] S(5) low op(3) False show ?thesis by simp
    qed
  qed
  have "take_bit (8 * ?al) (op_address ?op) = op_address ?op"
    using op(1,2) width_le_alignment(2) [OF w] c(5) eb_alignment_le by (intro load_address) (auto simp: good_op_def)
  then have load: "load_at c st = op_address ?op"
    using load_word(1) [of c st "op_address ?op"] buf al c(3) by simp
  have tail: "drop (sl_rptr (advance c st)) (sl_buf (advance c st)) =
      concat (map (\<lambda>op. EB_mWRITE (push_bit (8 * unat (sel_shift sel)) (op_value op)) (sc_alignment c)) ?ws) @ rest"
    using load_word(2) [of c st "op_address ?op"] buf al c(3) S(3) by simp
  have "slave_write_loop E c sel False (rp_fifo p) (op_address ?op AND sc_filter c) (bus_address ?data False ?op)
      (bus_address ?data True ?op) (length ?ws) (advance c st)
    = do { (error, s) \<leftarrow> bus_writes E (sc_socketp c) (sc_data c) (sc_addr c) ?ws (sl_error (advance c st)) (sl_state (advance c st));
         Some ((advance c st)\<lparr>sl_rptr := sl_rptr (advance c st) + length ?ws * sc_alignment c, sl_error := error, sl_state := s\<rparr>) }"
  proof (rule slave_write_loop_words [OF _ _ _ _ _ _ tail])
    show "unat (sel_shift sel) + unat (sel_width sel) \<le> sc_alignment c"
      using S(3,4) width_le_alignment(1) [OF w] c(3,5) by simp
    show "\<forall>op\<in>set ?ws. sel_width sel = op_format op AND EB_DATAX \<and> value_fits op"
      using P(1) S(2) good in_set_takeD [of _ "rp_wcount p" xs] by (auto simp: good_op_def)
  qed (use al c strides S(1) in auto)
  then show ?thesis
    using flags addr load pos len c(1-3) unfolding slave_writes_def Let_def by (simp add: advance_def add.assoc)
qed

section \<open>The reads of a record\<close>

text \<open>The reads of a list of operations on the local bus, in order, each masked to its width.\<close>

fun bus_reads ::
  "'w eb_env \<Rightarrow> eb_ptr \<Rightarrow> eb_width_t \<Rightarrow> eb_width_t \<Rightarrow> eb_operation list \<Rightarrow> uint64 \<Rightarrow> 'w eb_state
    \<Rightarrow> (eb_data_t list \<times> uint64 \<times> 'w eb_state) option" where
  "bus_reads E k data a [] error s = Some ([], error, s)"
| "bus_reads E k data a (op # ops) error s =
     do { (v, error, s) \<leftarrow> eb_socket_read E k ((op_format op AND EB_DATAX) OR push_bit 4 a)
            (bus_address data False op) (bus_address data True op) error s;
          (vs, error, s) \<leftarrow> bus_reads E k data a ops error s;
          Some ((v AND data_mask_of (op_format op AND EB_DATAX)) # vs, error, s) }"

lemma length_bus_reads: "bus_reads E k data a ops e s = Some (vs, e', s') \<Longrightarrow> length vs = length ops"
  by (induction ops arbitrary: e s vs) (auto split: Option.bind_splits)

definition reply_words :: "nat \<Rightarrow> nat \<Rightarrow> eb_data_t list \<Rightarrow> bytes" where
  "reply_words al sh vs = concat (map (\<lambda>v. EB_mWRITE (push_bit (8 * sh) v) al) vs)"

lemma reply_words_simps [simp]:
  "reply_words al sh [] = []" "reply_words al sh (v # vs) = EB_mWRITE (push_bit (8 * sh) v) al @ reply_words al sh vs"
  by (simp_all add: reply_words_def)

lemma length_reply_words: "is_alignment al \<Longrightarrow> length (reply_words al sh vs) = length vs * al"
  using length_concat_words [of al "\<lambda>v. push_bit (8 * sh) v" vs] by (simp add: reply_words_def)

lemma blit_blit:
  "pos + length xs + length ys \<le> length buf \<Longrightarrow> blit (pos + length xs) ys (blit pos xs buf) = blit pos (xs @ ys) buf"
  by (simp add: blit_def algebra_simps)

lemma emit_emit:
  "sl_wptr st + length xs + length ys \<le> length (sl_buf st) \<Longrightarrow> emit ys (emit xs st) = emit (xs @ ys) st"
  by (simp add: emit_def blit_blit algebra_simps)

lemma emit_Nil [simp]: "sl_wptr st \<le> length (sl_buf st) \<Longrightarrow> emit [] st = st"
  by (simp add: emit_def blit_def)

lemma slave_read_word:
  assumes al: "is_alignment (sc_alignment c)" and sel: "sel_ok sel" "sel_width sel = op_format op AND EB_DATAX"
    and addr: "op_address op AND sc_filter c OR ucast (sel_low_b sel) = bus_address data False op"
      "op_address op AND sc_filter c OR ucast (sel_low_l sel) = bus_address data True op"
    and buf: "drop (sl_rptr st) (sl_buf st) = EB_mWRITE (op_address op) (sc_alignment c) @ rest"
    and fits: "take_bit (8 * sc_alignment c) (op_address op) = op_address op"
  shows "slave_read E c sel False st =
    do { (v, error, s) \<leftarrow> eb_socket_read E (sc_socketp c) ((op_format op AND EB_DATAX) OR push_bit 4 (sc_addr c))
           (bus_address data False op) (bus_address data True op) (sl_error st) (sl_state st);
         Some (emit (EB_mWRITE (push_bit (8 * unat (sel_shift sel)) (v AND data_mask_of (op_format op AND EB_DATAX)))
                      (sc_alignment c))
                ((advance c st)\<lparr>sl_error := error, sl_state := s\<rparr>)) }"
  using load_word(1) [OF al buf] fits
  by (auto simp: slave_read_def slave_read_value_def Let_def sel addr advance_def EB_sWRITE_eq_mWRITE mult.commute
      split: Option.bind_splits)

lemma slave_read_loop_words:
  assumes "is_alignment (sc_alignment c)" and "sel_ok sel"
    and "\<forall>op \<in> set rs. sel_width sel = op_format op AND EB_DATAX
      \<and> op_address op AND sc_filter c OR ucast (sel_low_b sel) = bus_address (sc_data c) False op
      \<and> op_address op AND sc_filter c OR ucast (sel_low_l sel) = bus_address (sc_data c) True op
      \<and> take_bit (8 * sc_alignment c) (op_address op) = op_address op"
    and "drop (sl_rptr st) (sl_buf st) = concat (map (\<lambda>op. EB_mWRITE (op_address op) (sc_alignment c)) rs) @ rest"
    and "sl_wptr st \<le> sl_rptr st" and "sl_rptr st \<le> length (sl_buf st)"
  shows "slave_read_loop E c sel False (length rs) st =
    do { (vs, error, s) \<leftarrow> bus_reads E (sc_socketp c) (sc_data c) (sc_addr c) rs (sl_error st) (sl_state st);
         Some (emit (reply_words (sc_alignment c) (unat (sel_shift sel)) vs)
           (st\<lparr>sl_rptr := sl_rptr st + length rs * sc_alignment c, sl_error := error, sl_state := s\<rparr>)) }"
  using assms(3-)
proof (induction rs arbitrary: st)
  case Nil
  then show ?case by simp
next
  case (Cons op rs)
  let ?al = "sc_alignment c"
  let ?word = "\<lambda>v. EB_mWRITE (push_bit (8 * unat (sel_shift sel)) (v AND data_mask_of (op_format op AND EB_DATAX))) ?al"
  let ?tail = "concat (map (\<lambda>op. EB_mWRITE (op_address op) ?al) rs) @ rest"
  let ?next = "\<lambda>v e s. emit (?word v) ((advance c st)\<lparr>sl_error := e, sl_state := s\<rparr>)"
  have buf: "drop (sl_rptr st) (sl_buf st) = EB_mWRITE (op_address op) ?al @ ?tail" using Cons.prems(2) by simp
  have len: "length (EB_mWRITE v ?al) = ?al" for v using length_EB_mWRITE [OF assms(1)] by blast
  have room: "sl_rptr st + ?al + length rs * ?al \<le> length (sl_buf st)"
  proof -
    have "length (drop (sl_rptr st) (sl_buf st)) = ?al + length rs * ?al + length rest"
      unfolding buf using length_concat_words [OF assms(1), of op_address rs] by (simp add: len)
    with Cons.prems(4) show ?thesis by simp
  qed
  have step: "slave_read E c sel False st =
    do { (v, error, s) \<leftarrow> eb_socket_read E (sc_socketp c) ((op_format op AND EB_DATAX) OR push_bit 4 (sc_addr c))
           (bus_address (sc_data c) False op) (bus_address (sc_data c) True op) (sl_error st) (sl_state st);
         Some (?next v error s) }"
    using Cons.prems(1) assms(1,2) buf by (intro slave_read_word) auto
  have tail: "drop (sl_rptr (?next v e s)) (sl_buf (?next v e s)) = ?tail" for v e s
    using load_word(2) [OF assms(1) buf] Cons.prems(3) room by (simp add: emit_def advance_def drop_blit len)
  note IH = Cons.IH [OF _ tail]
  show ?case
  proof (cases "eb_socket_read E (sc_socketp c) ((op_format op AND EB_DATAX) OR push_bit 4 (sc_addr c))
      (bus_address (sc_data c) False op) (bus_address (sc_data c) True op) (sl_error st) (sl_state st)")
    case None
    then show ?thesis by (simp add: step)
  next
    case (Some r)
    obtain v e s where r: "r = (v, e, s)" by (metis prod_cases3)
    have ih: "slave_read_loop E c sel False (length rs) (?next v e s) =
      do { (vs, error, s') \<leftarrow> bus_reads E (sc_socketp c) (sc_data c) (sc_addr c) rs e s;
         Some (emit (reply_words ?al (unat (sel_shift sel)) vs)
           ((?next v e s)\<lparr>sl_rptr := sl_rptr st + ?al + length rs * ?al, sl_error := error, sl_state := s'\<rparr>)) }"
      using Cons.prems room by (subst IH) (auto simp: emit_def advance_def len)
    have glue: "emit (reply_words ?al (unat (sel_shift sel)) vs)
        ((?next v e s)\<lparr>sl_rptr := q, sl_error := e', sl_state := s'\<rparr>)
      = emit (?word v @ reply_words ?al (unat (sel_shift sel)) vs) (st\<lparr>sl_rptr := q, sl_error := e', sl_state := s'\<rparr>)"
      if "length vs = length rs" for vs q e' s'
    proof -
      have "(?next v e s)\<lparr>sl_rptr := q, sl_error := e', sl_state := s'\<rparr>
          = emit (?word v) (st\<lparr>sl_rptr := q, sl_error := e', sl_state := s'\<rparr>)"
        by (simp add: emit_def advance_def)
      then show ?thesis
        using that room Cons.prems(3) by (simp add: emit_emit len length_reply_words [OF assms(1)])
    qed
    show ?thesis
      using ih length_bus_reads [of E "sc_socketp c" "sc_data c" "sc_addr c" rs e s]
      by (auto simp: step Some r glue add.assoc simp del: push_bit_and split: Option.bind_splits)
  qed
qed

lemma take_bit_rba: "2 \<le> al \<Longrightarrow> take_bit (8 * al) (ucast (r :: uint16) :: uint64) = ucast r"
  by (rule bit_word_eqI) (auto simp: bit_simps dest: bit_imp_le_length)

lemma slave_reads_record:
  assumes w: "is_width (fc_data f)" "is_width (fc_addr f)"
    and c: "sc_data c = fc_data f" "sc_addr c = fc_addr f" "sc_alignment c = fc_alignment f"
      "sc_filter c = address_mask_of (fc_addr f) - (ucast (fc_data f) - 1)"
      "fc_alignment f = eb_alignment (fc_addr f OR fc_data f)" "sc_record_alignment c \<in> {4, 8}"
    and p: "p = plan_record (fc_data f) needs_check maxops ops xs"
    and good: "\<forall>x \<in> set xs. good_op (fc_data f) (fc_addr f) x"
    and flags: "flags AND EB_RECORD_RCA = 0" "\<not> rp_rcfg p"
    and sh: "sh = op_shift_of (fc_data f) (rp_format p) (rp_low_addr p)"
    and sel: "sel = decode_select (fc_data f) (record_select (rp_format p) sh)"
    and pos: "0 < rp_rcount p"
    and ptrs: "sl_wptr st + sc_record_alignment c \<le> sl_rptr st" "sl_rptr st \<le> length (sl_buf st)"
    and buf: "drop (sl_rptr st) (sl_buf st) = EB_mWRITE (ucast (rba :: uint16)) (fc_alignment f)
       @ concat (map (\<lambda>op. EB_mWRITE (op_address op) (fc_alignment f)) (take (rp_rcount p) (drop (rp_wcount p) xs))) @ rest"
  shows "slave_reads E c sel flags select (word_of_nat (rp_rcount p)) st =
    do { (vs, error, s) \<leftarrow> bus_reads E (sc_socketp c) (fc_data f) (fc_addr f) (take (rp_rcount p) (drop (rp_wcount p) xs))
           (sl_error st) (sl_state st);
         Some (emit (reply_header c (sl_cycle_end st) flags select (word_of_nat (rp_rcount p))
                 @ EB_mWRITE (ucast rba) (fc_alignment f) @ reply_words (fc_alignment f) (unat sh) vs)
           (st\<lparr>sl_rptr := sl_rptr st + Suc (rp_rcount p) * fc_alignment f, sl_error := error, sl_state := s,
               sl_reply := True, sl_cycle_open := (sl_cycle_end st = 0)\<rparr>)) }"
proof -
  let ?data = "fc_data f" and ?a = "fc_addr f" and ?al = "fc_alignment f"
  let ?rs = "take (rp_rcount p) (drop (rp_wcount p) xs)"
  let ?hdr = "reply_header c (sl_cycle_end st) flags select (word_of_nat (rp_rcount p))"
  have al: "is_alignment ?al" using is_alignment_eb_alignment c(5) by simp
  have "\<forall>x \<in> set xs. op_format x \<noteq> EB_DATAX"
    using good checked_format_cases unfolding good_op_def by fastforce
  note P = plan_record_take(4) [OF p this] and N = plan_record_counts [OF p]
  have len: "length ?rs = rp_rcount p" using N(1) by simp
  have rc: "unat (word_of_nat (rp_rcount p) :: uint8) = rp_rcount p" "word_of_nat (rp_rcount p) \<noteq> (0 :: uint8)"
    using N(4) pos unat_of_nat_small [of "rp_rcount p", where 'a = 8] by (auto simp: unat_eq_zero)
  have op: "good_op ?data ?a x" "cfg_of x = 0" "op_format x = rp_format p" "rp_low_addr p = ucast (op_address x) AND (?data - 1)"
    if "x \<in> set ?rs" for x
    using that P good flags(2) in_set_takeD in_set_dropD by metis+
  have hl: "length ?hdr = sc_record_alignment c" using c(6) by (auto simp: reply_header_def)
  have wl: "length (EB_mWRITE v ?al) = ?al" for v using length_EB_mWRITE [OF al] by blast
  obtain x where x: "x \<in> set ?rs" using pos len by (metis length_pos_if_in_set list.set_intros(1) neq_Nil_conv length_greater_0_conv)
  then have agrees: "select_agrees ?data (rp_format p) (rp_low_addr p)"
    using good_op_select [OF w(1) op(1,4)] op(3) by metis
  have S: "sel_ok sel" "sel_width sel = rp_format p AND EB_DATAX" "sel_shift sel = sh"
    using agrees by (simp_all add: select_agrees_def Let_def sel sh)
  have room: "sl_rptr st + ?al + length ?rs * ?al \<le> length (sl_buf st)"
  proof -
    have "length (drop (sl_rptr st) (sl_buf st)) = ?al + length ?rs * ?al + length rest"
      unfolding buf using length_concat_words [OF al, of op_address ?rs] by (simp add: wl)
    with ptrs(2) show ?thesis by simp
  qed
  let ?st1 = "(emit ?hdr (st\<lparr>sl_reply := True\<rparr>))\<lparr>sl_cycle_open := (sl_cycle_end st = 0)\<rparr>"
  have buf1: "drop (sl_rptr ?st1) (sl_buf ?st1) = EB_mWRITE (ucast rba) (sc_alignment c)
      @ (concat (map (\<lambda>op. EB_mWRITE (op_address op) ?al) ?rs) @ rest)"
    using buf ptrs by (simp add: emit_def drop_blit hl c(3))
  have load: "load_at c ?st1 = ucast rba"
    using load_word(1) [OF _ buf1] al c(3) take_bit_rba [of ?al rba] by auto
  let ?st2 = "emit (EB_mWRITE (ucast rba) ?al) (advance c ?st1)"
  have tail: "drop (sl_rptr ?st2) (sl_buf ?st2)
      = concat (map (\<lambda>op. EB_mWRITE (op_address op) (sc_alignment c)) ?rs) @ rest"
    using load_word(2) [OF _ buf1] al c(3) ptrs room hl by (simp add: emit_def advance_def drop_blit wl)
  have ops: "sel_width sel = op_format x AND EB_DATAX
      \<and> op_address x AND sc_filter c OR ucast (sel_low_b sel) = bus_address (sc_data c) False x
      \<and> op_address x AND sc_filter c OR ucast (sel_low_l sel) = bus_address (sc_data c) True x
      \<and> take_bit (8 * sc_alignment c) (op_address x) = op_address x" if "x \<in> set ?rs" for x
  proof -
    have "sel = decode_select ?data (record_select (op_format x) (op_shift_of ?data (op_format x) (rp_low_addr p)))"
      using sel sh op(3) [OF that] by simp
    from good_op_bus_address [OF w op(1,2) [OF that] op(4) [OF that] this]
    have "op_address x AND sc_filter c OR ucast (sel_low_b sel) = bus_address (sc_data c) False x"
      "op_address x AND sc_filter c OR ucast (sel_low_l sel) = bus_address (sc_data c) True x"
      by (simp_all add: c(1,4))
    moreover have "take_bit (8 * ?al) (op_address x) = op_address x"
      using op(1,2) [OF that] width_le_alignment(2) [OF w] c(5) eb_alignment_le
      by (intro load_address) (auto simp: good_op_def)
    ultimately show ?thesis using S(2) op(3) [OF that] c(3) by simp
  qed
  have loop: "slave_read_loop E c sel False (length ?rs) ?st2 =
    do { (vs, error, s) \<leftarrow> bus_reads E (sc_socketp c) (sc_data c) (sc_addr c) ?rs (sl_error ?st2) (sl_state ?st2);
         Some (emit (reply_words (sc_alignment c) (unat (sel_shift sel)) vs)
           (?st2\<lparr>sl_rptr := sl_rptr ?st2 + length ?rs * sc_alignment c, sl_error := error, sl_state := s\<rparr>)) }"
  proof (rule slave_read_loop_words [OF _ S(1) _ tail])
    show "sl_wptr ?st2 \<le> sl_rptr ?st2" "sl_rptr ?st2 \<le> length (sl_buf ?st2)"
      using ptrs room hl c(3) by (auto simp: emit_def advance_def wl)
    show "is_alignment (sc_alignment c)" using al c(3) by simp
  qed (use ops in blast)
  have glue: "emit (reply_words ?al (unat sh) vs) (?st2\<lparr>sl_rptr := q, sl_error := e, sl_state := s\<rparr>)
      = emit (?hdr @ EB_mWRITE (ucast rba) ?al @ reply_words ?al (unat sh) vs)
          (st\<lparr>sl_rptr := q, sl_error := e, sl_state := s, sl_reply := True, sl_cycle_open := (sl_cycle_end st = 0)\<rparr>)"
    if "length vs = length ?rs" for vs q e s
  proof -
    have "?st2\<lparr>sl_rptr := q, sl_error := e, sl_state := s\<rparr> = emit (EB_mWRITE (ucast rba) ?al) (emit ?hdr
        (st\<lparr>sl_rptr := q, sl_error := e, sl_state := s, sl_reply := True, sl_cycle_open := (sl_cycle_end st = 0)\<rparr>))"
      by (simp add: emit_def advance_def)
    then show ?thesis
      using that room ptrs by (simp add: emit_emit wl hl length_reply_words [OF al] del: length_take length_drop)
  qed
  have lhs: "slave_reads E c sel flags select (word_of_nat (rp_rcount p)) st = slave_read_loop E c sel False (length ?rs) ?st2"
    using load rc flags(1) len unfolding slave_reads_def Let_def
    by (simp add: EB_sWRITE_eq_mWRITE c(3) emit_def)
  have fields: "sl_rptr ?st2 = sl_rptr st + ?al" "sl_error ?st2 = sl_error st" "sl_state ?st2 = sl_state st"
    by (simp_all add: emit_def advance_def c(3))
  show ?thesis
  proof (cases "bus_reads E (sc_socketp c) ?data ?a ?rs (sl_error st) (sl_state st)")
    case None
    then show ?thesis by (simp only: lhs loop fields c(1-3) S(3) bind.simps)
  next
    case (Some r)
    then obtain vs e s where r: "bus_reads E (sc_socketp c) ?data ?a ?rs (sl_error st) (sl_state st) = Some (vs, e, s)"
      by (metis prod_cases3)
    from glue [OF length_bus_reads [OF r]] show ?thesis
      by (simp only: lhs loop fields c(1-3) S(3) bind.simps prod.case r) (simp add: len add.assoc del: length_take length_drop)
  qed
qed

section \<open>A whole record\<close>

text \<open>The two sides of a connection with the same widths.\<close>

definition same_widths :: "flush_ctx \<Rightarrow> slave_ctx \<Rightarrow> bool" where
  "same_widths f c \<longleftrightarrow> is_width (fc_data f) \<and> is_width (fc_addr f)
     \<and> sc_data c = fc_data f \<and> sc_addr c = fc_addr f \<and> sc_alignment c = fc_alignment f
     \<and> sc_record_alignment c = fc_record_alignment f
     \<and> sc_filter c = address_mask_of (fc_addr f) - (ucast (fc_data f) - 1)
     \<and> fc_alignment f = eb_alignment (fc_addr f OR fc_data f)
     \<and> fc_record_alignment f = eb_record_alignment (fc_addr f OR fc_data f)"

lemma same_widths_contexts:
  assumes "is_width (width AND EB_DATAX)" and "is_width (drop_bit 4 width)"
  shows "same_widths (flush_context width mtu) (slave_context k t l mtu' width)"
  using assms unfolding same_widths_def flush_context_def slave_context_def Let_def
  by (simp add: address_mask_of_def)

text \<open>The record with which the slave answers the reads of a record.\<close>

definition reply_record :: "flush_ctx \<Rightarrow> rec_plan \<Rightarrow> bool \<Rightarrow> uint16 \<Rightarrow> eb_data_t list \<Rightarrow> bytes" where
  "reply_record f p cycle_end rba vs =
     (let sh = op_shift_of (fc_data f) (rp_format p) (rp_low_addr p)
      in [(if cycle_end then EB_RECORD_CYC else 0) OR EB_RECORD_WCA OR EB_RECORD_WFF,
          record_select (rp_format p) sh, word_of_nat (rp_rcount p), 0]
         @ replicate (fc_record_alignment f - 4) 0
         @ EB_mWRITE (ucast rba) (fc_alignment f) @ reply_words (fc_alignment f) (unat sh) vs)"

text \<open>The flags of a record header.\<close>

definition record_flags :: "rec_plan \<Rightarrow> bool \<Rightarrow> uint8" where
  "record_flags p cycle_end = EB_RECORD_BCA OR EB_RECORD_RFF OR (if rp_rcfg p then EB_RECORD_RCA else 0)
        OR (if rp_wcfg p then EB_RECORD_WCA else 0) OR (if rp_fifo p then EB_RECORD_WFF else 0)
        OR (if cycle_end then EB_RECORD_CYC else 0)"

lemma record_flags_bits:
  "(record_flags p ce AND EB_RECORD_RCA \<noteq> 0) = rp_rcfg p" "(record_flags p ce AND EB_RECORD_WCA \<noteq> 0) = rp_wcfg p"
  "(record_flags p ce AND EB_RECORD_WFF \<noteq> 0) = rp_fifo p"
  "record_flags p ce AND EB_RECORD_CYC = (if ce then EB_RECORD_CYC else 0)"
  "record_flags p ce AND EB_RECORD_BCA \<noteq> 0" "record_flags p ce AND EB_RECORD_RFF \<noteq> 0"
  by (simp_all add: record_flags_def)

definition record_body :: "flush_ctx \<Rightarrow> uint16 \<Rightarrow> rec_plan \<Rightarrow> eb_operation list \<Rightarrow> bytes" where
  "record_body f rba p xs =
     (let sh = op_shift_of (fc_data f) (rp_format p) (rp_low_addr p)
      in (if rp_wcount p > 0
          then EB_mWRITE (op_address (hd xs)) (fc_alignment f)
               @ concat (map (\<lambda>op. EB_mWRITE (push_bit (8 * unat sh) (op_value op)) (fc_alignment f)) (take (rp_wcount p) xs))
          else [])
         @ (if rp_rxcount p \<noteq> rp_rcount p
            then EB_mWRITE (ucast rba OR 1) (fc_alignment f) @ EB_mWRITE (8 - ucast (fc_data f)) (fc_alignment f)
            else [])
         @ (if rp_rcount p > 0
            then EB_mWRITE (ucast rba) (fc_alignment f)
               @ concat (map (\<lambda>op. EB_mWRITE (op_address op) (fc_alignment f)) (take (rp_rcount p) (drop (rp_wcount p) xs)))
            else []))"

lemma record_bytes_eq:
  "record_bytes f rba p ce xs =
     record_flags p ce # record_select (rp_format p) (op_shift_of (fc_data f) (rp_format p) (rp_low_addr p))
     # word_of_nat (rp_wcount p) # word_of_nat (rp_rxcount p) # replicate (fc_record_alignment f - 4) 0
     @ record_body f rba p xs"
  unfolding record_bytes_def record_header_def record_flags_def record_body_def Let_def by (simp only: append_Cons append_Nil append_assoc)

lemma record_fields:
  assumes "drop r buf = record_bytes f rba p ce xs @ rest" and "fc_record_alignment f \<in> {4, 8}"
  shows "buf ! r = record_flags p ce"
    and "buf ! (r + 1) = record_select (rp_format p) (op_shift_of (fc_data f) (rp_format p) (rp_low_addr p))"
    and "buf ! (r + 2) = word_of_nat (rp_wcount p)" and "buf ! (r + 3) = word_of_nat (rp_rxcount p)"
    and "drop (r + fc_record_alignment f) buf = record_body f rba p xs @ rest"
proof -
  have "r \<le> length buf" using assms(1) by (cases "r \<le> length buf") (simp_all add: record_bytes_eq)
  then have "buf ! (r + i) = drop r buf ! i" for i by simp
  from this [of 0] this [of 1] this [of 2] this [of 3]
  show "buf ! r = record_flags p ce"
    "buf ! (r + 1) = record_select (rp_format p) (op_shift_of (fc_data f) (rp_format p) (rp_low_addr p))"
    "buf ! (r + 2) = word_of_nat (rp_wcount p)" "buf ! (r + 3) = word_of_nat (rp_rxcount p)"
    unfolding assms(1) record_bytes_eq by simp_all
  have "drop (r + fc_record_alignment f) buf = drop (fc_record_alignment f) (record_bytes f rba p ce xs @ rest)"
    unfolding assms(1) [symmetric] by (simp add: add.commute)
  also have "\<dots> = record_body f rba p xs @ rest"
    using assms(2) unfolding record_bytes_eq by (elim insertE) (simp_all add: numeral_eq_Suc)
  finally show "drop (r + fc_record_alignment f) buf = record_body f rba p xs @ rest" .
qed

definition after_writes :: "flush_ctx \<Rightarrow> rec_plan \<Rightarrow> bool \<Rightarrow> 'w slave_st \<Rightarrow> uint64 \<Rightarrow> 'w eb_state \<Rightarrow> 'w slave_st" where
  "after_writes f p ce st e s =
     st\<lparr>sl_rptr := sl_rptr st + fc_record_alignment f + (if rp_wcount p = 0 then 0 else Suc (rp_wcount p)) * fc_alignment f,
        sl_cycle_end := (if ce then EB_RECORD_CYC else 0), sl_error := e, sl_state := s\<rparr>"

definition after_reads ::
  "flush_ctx \<Rightarrow> rec_plan \<Rightarrow> bool \<Rightarrow> uint16 \<Rightarrow> eb_data_t list \<Rightarrow> uint64 \<Rightarrow> 'w eb_state \<Rightarrow> 'w slave_st \<Rightarrow> 'w slave_st" where
  "after_reads f p ce rba vs e s st =
     (if rp_rcount p = 0 then st
      else emit (reply_record f p ce rba vs)
        (st\<lparr>sl_rptr := sl_rptr st + Suc (rp_rcount p) * fc_alignment f, sl_error := e, sl_state := s,
            sl_reply := True, sl_cycle_open := \<not> ce\<rparr>))"

lemma length_record_body:
  assumes "is_alignment (fc_alignment f)" and p: "p = plan_record data needs_check maxops ops xs"
  shows "length (record_body f rba p xs)
    = ((if rp_wcount p > 0 then Suc (rp_wcount p) else 0) + (if rp_rxcount p > 0 then Suc (rp_rxcount p) else 0)) * fc_alignment f"
proof -
  note N = plan_record_counts [OF p]
  have n: "length (take (rp_wcount p) xs) = rp_wcount p"
    "length (take (rp_rcount p) (drop (rp_wcount p) xs)) = rp_rcount p" using N(1) by auto
  have l: "length (concat (map (\<lambda>op. EB_mWRITE (g op) (fc_alignment f)) (take (rp_wcount p) xs))) = rp_wcount p * fc_alignment f"
    "length (concat (map (\<lambda>op. EB_mWRITE (g op) (fc_alignment f)) (take (rp_rcount p) (drop (rp_wcount p) xs))))
      = rp_rcount p * fc_alignment f" for g
    by (simp_all only: length_concat_words [OF assms(1)] n)
  show ?thesis
    unfolding record_body_def Let_def using N(6) l(2) [of op_address]
    by (cases "rp_rxcount p = rp_rcount p"; cases "rp_wcount p = 0")
      (simp_all add: length_EB_mWRITE [OF assms(1)] l algebra_simps)
qed

lemma slave_record_writes:
  assumes w: "same_widths f c" and p: "p = plan_record (fc_data f) needs_check maxops ops xs"
    and good: "\<forall>x \<in> set xs. good_op (fc_data f) (fc_addr f) x" and cfg: "\<not> rp_wcfg p" "rp_rxcount p = rp_rcount p"
    and sel: "sel = decode_select (fc_data f) (record_select (rp_format p) (op_shift_of (fc_data f) (rp_format p) (rp_low_addr p)))"
    and buf: "drop (sl_rptr st) (sl_buf st) = record_body f rba p xs @ rest"
  shows "slave_writes E c sel (record_flags p ce) (rp_wcount p) st =
      do { (e, s) \<leftarrow> bus_writes E (sc_socketp c) (fc_data f) (fc_addr f) (take (rp_wcount p) xs) (sl_error st) (sl_state st);
           Some (st\<lparr>sl_rptr := sl_rptr st + (if rp_wcount p = 0 then 0 else Suc (rp_wcount p)) * fc_alignment f,
                    sl_error := e, sl_state := s\<rparr>) }"
proof (cases "rp_wcount p = 0")
  case True
  then show ?thesis by (simp add: slave_writes_def)
next
  case False
  let ?sh = "op_shift_of (fc_data f) (rp_format p) (rp_low_addr p)"
  have "\<exists>more. drop (sl_rptr st) (sl_buf st) = EB_mWRITE (op_address (hd xs)) (fc_alignment f)
       @ concat (map (\<lambda>op. EB_mWRITE (push_bit (8 * unat ?sh) (op_value op)) (fc_alignment f)) (take (rp_wcount p) xs)) @ more"
    unfolding buf record_body_def Let_def using False by simp
  then obtain more where more: "drop (sl_rptr st) (sl_buf st) = EB_mWRITE (op_address (hd xs)) (fc_alignment f)
       @ concat (map (\<lambda>op. EB_mWRITE (push_bit (8 * unat ?sh) (op_value op)) (fc_alignment f)) (take (rp_wcount p) xs)) @ more" ..
  show ?thesis
    using slave_writes_record [OF _ _ _ _ _ _ _ p good _ _ cfg(1) refl sel _ more, of c "record_flags p ce" E] w False
      record_flags_bits(2,3) [of p ce] cfg(1)
    by (simp add: same_widths_def)
qed

lemma slave_record_reads:
  assumes w: "same_widths f c" and p: "p = plan_record (fc_data f) needs_check maxops ops xs"
    and good: "\<forall>x \<in> set xs. good_op (fc_data f) (fc_addr f) x" and cfg: "\<not> rp_rcfg p" "rp_rxcount p = rp_rcount p"
    and sel: "sel = decode_select (fc_data f) (record_select (rp_format p) (op_shift_of (fc_data f) (rp_format p) (rp_low_addr p)))"
    and ce: "sl_cycle_end st = (if ce then EB_RECORD_CYC else 0)"
    and ptrs: "sl_wptr st + fc_record_alignment f \<le> sl_rptr st" "sl_rptr st \<le> length (sl_buf st)"
    and buf: "drop (sl_rptr st) (sl_buf st)
      = drop ((if rp_wcount p = 0 then 0 else Suc (rp_wcount p)) * fc_alignment f) (record_body f rba p xs) @ rest"
  shows "slave_reads E c sel (record_flags p ce)
      (record_select (rp_format p) (op_shift_of (fc_data f) (rp_format p) (rp_low_addr p))) (word_of_nat (rp_rcount p)) st =
    do { (vs, e, s) \<leftarrow> bus_reads E (sc_socketp c) (fc_data f) (fc_addr f) (take (rp_rcount p) (drop (rp_wcount p) xs))
           (sl_error st) (sl_state st);
         Some (after_reads f p ce rba vs e s st) }"
proof (cases "rp_rcount p = 0")
  case True
  then show ?thesis by (simp add: slave_reads_def after_reads_def)
next
  case False
  let ?sh = "op_shift_of (fc_data f) (rp_format p) (rp_low_addr p)"
  let ?ws = "take (rp_wcount p) xs"
  have al: "is_alignment (fc_alignment f)" using w is_alignment_eb_alignment by (simp add: same_widths_def)
  have n: "length ?ws = rp_wcount p" using plan_record_counts(1) [OF p] by simp
  have l: "length (concat (map (\<lambda>op. EB_mWRITE (g op) (fc_alignment f)) ?ws)) = rp_wcount p * fc_alignment f" for g
    by (simp only: length_concat_words [OF al] n)
  have body: "drop (sl_rptr st) (sl_buf st) = EB_mWRITE (ucast rba) (fc_alignment f)
       @ concat (map (\<lambda>op. EB_mWRITE (op_address op) (fc_alignment f)) (take (rp_rcount p) (drop (rp_wcount p) xs))) @ rest"
    unfolding buf record_body_def Let_def using False cfg(2)
    by (cases "rp_wcount p = 0") (simp_all add: length_EB_mWRITE [OF al] l algebra_simps)
  have hdr: "reply_header c (sl_cycle_end st) (record_flags p ce) (record_select (rp_format p) ?sh) (word_of_nat (rp_rcount p))
      @ EB_mWRITE (ucast rba) (fc_alignment f) @ reply_words (fc_alignment f) (unat ?sh) vs = reply_record f p ce rba vs" for vs
    using w record_flags_bits(5,6) [of p ce] by (simp add: reply_header_def reply_record_def same_widths_def ce Let_def)
  have cyc: "(sl_cycle_end st = 0) = (\<not> ce)" by (simp add: ce)
  have "fc_record_alignment f \<in> {4, 8}" using w by (auto simp: same_widths_def eb_record_alignment_def)
  then have "slave_reads E c sel (record_flags p ce) (record_select (rp_format p) ?sh) (word_of_nat (rp_rcount p)) st =
    do { (vs, error, s) \<leftarrow> bus_reads E (sc_socketp c) (fc_data f) (fc_addr f) (take (rp_rcount p) (drop (rp_wcount p) xs))
           (sl_error st) (sl_state st);
         Some (emit (reply_header c (sl_cycle_end st) (record_flags p ce) (record_select (rp_format p) ?sh) (word_of_nat (rp_rcount p))
                 @ EB_mWRITE (ucast rba) (fc_alignment f) @ reply_words (fc_alignment f) (unat ?sh) vs)
           (st\<lparr>sl_rptr := sl_rptr st + Suc (rp_rcount p) * fc_alignment f, sl_error := error, sl_state := s,
               sl_reply := True, sl_cycle_open := (sl_cycle_end st = 0)\<rparr>)) }"
    using w False record_flags_bits(1) [of p ce] cfg(1) ptrs
    by (intro slave_reads_record [OF _ _ _ _ _ _ _ _ p good _ cfg(1) refl sel _ _ _ body]) (simp_all add: same_widths_def)
  then show ?thesis unfolding hdr cyc using False by (simp add: after_reads_def)
qed

lemma refill_enough: "words * sc_alignment c \<le> sl_eos st - sl_rptr st \<Longrightarrow> slave_refill E c words st = Some (Inr st)"
  by (subst slave_refill.simps) simp

lemma record_word_count:
  assumes "is_alignment (fc_alignment f)" and p: "p = plan_record data needs_check maxops ops xs" and "rp_rxcount p = rp_rcount p"
  shows "unat (word_of_nat (rp_wcount p) :: uint8) = rp_wcount p" "unat (word_of_nat (rp_rcount p) :: uint8) = rp_rcount p"
    "record_words (word_of_nat (rp_wcount p)) (word_of_nat (rp_rxcount p)) * fc_alignment f = length (record_body f rba p xs)"
proof -
  note N = plan_record_counts [OF p]
  show cnt: "unat (word_of_nat (rp_wcount p) :: uint8) = rp_wcount p" "unat (word_of_nat (rp_rcount p) :: uint8) = rp_rcount p"
    using N(3,4) unat_of_nat_small [of "rp_wcount p", where 'a = 8] unat_of_nat_small [of "rp_rcount p", where 'a = 8] by auto
  show "record_words (word_of_nat (rp_wcount p)) (word_of_nat (rp_rxcount p)) * fc_alignment f = length (record_body f rba p xs)"
    unfolding length_record_body [OF assms(1) p]
    using cnt by (auto simp: record_words_def assms(3) word_greater_zero_iff unat_eq_0 simp flip: unat_gt_0)
qed

text \<open>The slave splits a complete record into the header and its two halves.\<close>

lemma slave_record_steps:
  assumes w: "same_widths f c" and p: "p = plan_record (fc_data f) needs_check maxops ops xs" and rx: "rp_rxcount p = rp_rcount p"
    and buf: "drop (sl_rptr st) (sl_buf st) = record_bytes f rba p ce xs @ rest"
    and eos: "sl_rptr st + length (record_bytes f rba p ce xs) \<le> sl_eos st"
    and select: "select = record_select (rp_format p) (op_shift_of (fc_data f) (rp_format p) (rp_low_addr p))"
    and st0: "st0 = st\<lparr>sl_rptr := sl_rptr st + fc_record_alignment f, sl_cycle_end := (if ce then EB_RECORD_CYC else 0)\<rparr>"
  shows "slave_record E c st =
      do { st1 \<leftarrow> slave_writes E c (decode_select (fc_data f) select) (record_flags p ce) (rp_wcount p) st0;
           st2 \<leftarrow> slave_reads E c (decode_select (fc_data f) select) (record_flags p ce) select (word_of_nat (rp_rcount p)) st1;
           Some (Inr (slave_terminate c st2)) }"
    and "drop (sl_rptr st0) (sl_buf st0) = record_body f rba p xs @ rest"
    and "length (record_bytes f rba p ce xs) = fc_record_alignment f + length (record_body f rba p xs)"
proof -
  have al: "is_alignment (fc_alignment f)" and ra: "fc_record_alignment f \<in> {4, 8}"
    using w is_alignment_eb_alignment by (auto simp: same_widths_def eb_record_alignment_def)
  note F = record_fields [OF buf ra] and W = record_word_count(1,2) [OF al p rx] record_word_count(3) [OF al p rx, of rba]
  show "drop (sl_rptr st0) (sl_buf st0) = record_body f rba p xs @ rest" by (simp add: st0 F(5))
  show len: "length (record_bytes f rba p ce xs) = fc_record_alignment f + length (record_body f rba p xs)"
    using ra by (auto simp: record_bytes_eq)
  have "slave_refill E c (record_words (word_of_nat (rp_wcount p)) (word_of_nat (rp_rxcount p))) st0 = Some (Inr st0)"
    using W(3) w eos by (intro refill_enough) (simp add: st0 len same_widths_def)
  then show "slave_record E c st =
      do { st1 \<leftarrow> slave_writes E c (decode_select (fc_data f) select) (record_flags p ce) (rp_wcount p) st0;
           st2 \<leftarrow> slave_reads E c (decode_select (fc_data f) select) (record_flags p ce) select (word_of_nat (rp_rcount p)) st1;
           Some (Inr (slave_terminate c st2)) }"
    using F(1-4) W(1,2) w record_flags_bits(4) [of p ce] rx
    by (simp add: slave_record_def Let_def same_widths_def st0 select)
qed

lemma slave_record_reads_after:
  assumes w: "same_widths f c" and p: "p = plan_record (fc_data f) needs_check maxops ops xs"
    and good: "\<forall>x \<in> set xs. good_op (fc_data f) (fc_addr f) x" and cfg: "\<not> rp_rcfg p" "rp_rxcount p = rp_rcount p"
    and ptrs: "sl_wptr st \<le> sl_rptr st" "sl_rptr st + fc_record_alignment f + length (record_body f rba p xs) \<le> length (sl_buf st)"
    and buf: "drop (sl_rptr st + fc_record_alignment f) (sl_buf st) = record_body f rba p xs @ rest"
    and select: "select = record_select (rp_format p) (op_shift_of (fc_data f) (rp_format p) (rp_low_addr p))"
  shows "slave_reads E c (decode_select (fc_data f) select) (record_flags p ce) select (word_of_nat (rp_rcount p))
      (after_writes f p ce st e s) =
    do { (vs, e', s') \<leftarrow> bus_reads E (sc_socketp c) (fc_data f) (fc_addr f) (take (rp_rcount p) (drop (rp_wcount p) xs)) e s;
         Some (after_reads f p ce rba vs e' s' (after_writes f p ce st e s)) }"
proof -
  let ?st1 = "after_writes f p ce st e s"
  let ?n = "(if rp_wcount p = 0 then 0 else Suc (rp_wcount p)) * fc_alignment f"
  have al: "is_alignment (fc_alignment f)" using w is_alignment_eb_alignment by (simp add: same_widths_def)
  have n: "?n \<le> length (record_body f rba p xs)" unfolding length_record_body [OF al p] by simp
  have r: "sl_rptr ?st1 = sl_rptr st + fc_record_alignment f + ?n" "sl_buf ?st1 = sl_buf st"
    by (simp_all add: after_writes_def)
  have "drop (sl_rptr ?st1) (sl_buf ?st1) = drop ?n (record_body f rba p xs @ rest)"
    unfolding r using buf by (metis add.commute drop_drop)
  then have b: "drop (sl_rptr ?st1) (sl_buf ?st1) = drop ?n (record_body f rba p xs) @ rest" using n by simp
  have q: "sl_wptr ?st1 + fc_record_alignment f \<le> sl_rptr ?st1" "sl_rptr ?st1 \<le> length (sl_buf ?st1)"
    unfolding r using ptrs n by (auto simp: after_writes_def)
  show ?thesis
    unfolding select using slave_record_reads [OF w p good cfg refl _ q b] by (simp add: after_writes_def)
qed

lemma slave_record_meaning:
  assumes w: "same_widths f c" and p: "p = plan_record (fc_data f) needs_check maxops ops xs"
    and good: "\<forall>x \<in> set xs. good_op (fc_data f) (fc_addr f) x" and cfg: "\<not> rp_wcfg p" "\<not> rp_rcfg p"
    and buf: "drop (sl_rptr st) (sl_buf st) = record_bytes f rba p ce xs @ rest"
    and ptrs: "sl_wptr st \<le> sl_rptr st" "sl_rptr st + length (record_bytes f rba p ce xs) \<le> sl_eos st"
      "sl_eos st \<le> length (sl_buf st)"
  shows "slave_record E c st =
    do { (e, s) \<leftarrow> bus_writes E (sc_socketp c) (fc_data f) (fc_addr f) (take (rp_wcount p) xs) (sl_error st) (sl_state st);
         (vs, e', s') \<leftarrow> bus_reads E (sc_socketp c) (fc_data f) (fc_addr f) (take (rp_rcount p) (drop (rp_wcount p) xs)) e s;
         Some (Inr (slave_terminate c (after_reads f p ce rba vs e' s' (after_writes f p ce st e s)))) }"
proof -
  have rx: "rp_rxcount p = rp_rcount p" using plan_record_counts(6) [OF p] cfg(2) by blast
  define st0 where "st0 = st\<lparr>sl_rptr := sl_rptr st + fc_record_alignment f, sl_cycle_end := (if ce then EB_RECORD_CYC else 0)\<rparr>"
  note steps = slave_record_steps [OF w p rx buf ptrs(2) refl st0_def]
  have st1: "st0\<lparr>sl_rptr := sl_rptr st0 + (if rp_wcount p = 0 then 0 else Suc (rp_wcount p)) * fc_alignment f,
      sl_error := e, sl_state := s\<rparr> = after_writes f p ce st e s" "sl_error st0 = sl_error st" "sl_state st0 = sl_state st" for e s
    by (simp_all add: st0_def after_writes_def)
  have "drop (sl_rptr st + fc_record_alignment f) (sl_buf st) = record_body f rba p xs @ rest"
    using steps(2) by (simp add: st0_def)
  from slave_record_reads_after [OF w p good cfg(2) rx ptrs(1) _ this refl, of E ce] steps(3) ptrs(2,3)
  show ?thesis
    unfolding steps(1) slave_record_writes [OF w p good cfg(1) rx refl steps(2)] st1
    by (auto split: Option.bind_splits)
qed

lemma one_bit_nibble: "x < 16 \<Longrightarrow> x \<noteq> 0 \<Longrightarrow> x AND (x - 1) = 0 \<Longrightarrow> is_width x"
  using nibble_cases [of x] by auto

lemma refined_widths:
  assumes "eb_width_refined w"
  shows "is_width (w AND EB_DATAX)" "is_width (drop_bit 4 w)"
  using assms by (intro one_bit_nibble low_nibble_less high_nibble_less; simp add: eb_width_refined_def Let_def)+


definition example_ops :: "eb_operation list" where
  "example_ops = [\<lparr>op_address = 16, op_value = 7, op_flags = EB_OP_WRITE, op_format = 4, op_next = EB_NULL\<rparr>,
     \<lparr>op_address = 0x20000, op_value = 0, op_flags = EB_OP_READ_VAL, op_format = 4, op_next = EB_NULL\<rparr>]"

definition example_plan :: rec_plan where "example_plan = plan_record 4 False 255 0 example_ops"

definition example_record :: bytes where
  "example_record = record_bytes (flush_context 0x44 1472) 0x8000 example_plan True example_ops"

lemma example_checked: "list_all (\<lambda>x. flush_check_op 4 (address_mask_of 4) x = (EB_OK, x)) example_ops"
  by code_simp

lemma example_plan_cfg: "\<not> rp_wcfg example_plan \<and> \<not> rp_rcfg example_plan"
  by (simp add: example_plan_def example_ops_def plan_record_def plan_writes_def chain_writes_def plan_reads_def Let_def)

lemma example_refined: "eb_width_refined 0x44"
  by (simp add: eb_width_refined_def Let_def)

lemma example_counts:
  "rp_wcount example_plan = 1" "take (rp_rcount example_plan) (drop 1 example_ops) = drop 1 example_ops"
  "0 < rp_rcount example_plan"
  by (simp_all add: example_plan_def example_ops_def plan_record_def plan_writes_def chain_writes_def plan_reads_def Let_def)

lemma example_context: "fc_data (flush_context 0x44 1472) = 4" "fc_addr (flush_context 0x44 1472) = 4"
  by (simp_all add: flush_context_def Let_def)

text \<open>A bus with one device at \<^verbatim>\<open>[0, 0x2FFFF]\<close> that accepts every write and reads 42.\<close>

definition example_env :: "unit eb_env" where
  "example_env = unit_env\<lparr>env_read := (\<lambda>_ _ _ _ s. (EB_OK, 42, s))\<rparr>"

definition example_bus :: "unit eb_state" where
  "example_bus = (eb_state0 ())\<lparr>
     heap_socket := (\<lambda>_. \<lparr>sock_first_device = EB_NULL, sock_first_handler = 7, sock_first_response = EB_NULL,
       sock_last_response = EB_NULL, sock_aux = 6, sock_widths = 0xFF\<rparr>),
     heap_handler_address := (\<lambda>_. \<lparr>had_device = 1, had_callback = 8, had_next = EB_NULL\<rparr>),
     heap_handler_callback := (\<lambda>_. \<lparr>hcb_data = 0, hcb_read = 1, hcb_write = 1\<rparr>),
     user_sdb_mem := (\<lambda>p. (user_sdb_mem (eb_state0 ()) p)\<lparr>dev_component :=
       (dev_component (user_sdb_mem (eb_state0 ()) p))\<lparr>addr_first := 0, addr_last := 0x2FFFF\<rparr>\<rparr>)\<rparr>"

lemma example_handlers:
  "handler_list 5 example_bus = Some [7]" "handler_range example_bus 7 = (0, 0x2FFFF)"
  "heap_handler_callback example_bus p = \<lparr>hcb_data = 0, hcb_read = 1, hcb_write = 1\<rparr>"
  "aux_sdb_offset (heap_socket_aux example_bus p) = 0"
  by (simp_all add: handler_list_def walk.simps handler_range_def) (simp_all add: example_bus_def eb_state0_def)

lemma example_run:
  "bus_writes example_env 5 4 4 (take 1 example_ops) 0 example_bus = Some (0, example_bus)"
  "bus_reads example_env 5 4 4 (drop 1 example_ops) 0 example_bus = Some ([42], 0, example_bus)"
  by (simp_all add: example_ops_def eb_socket_write_def eb_socket_read_def bus_address_def example_handlers
      example_env_def unit_env_def shift_error_def data_mask_of_def mask_eq_exp_minus_1)


section \<open>The reply\<close>

text \<open>Values delivered to the configuration space at the return address, one after the other; the number
  counts the cycles this completes.\<close>

fun config_writes ::
  "'w eb_env \<Rightarrow> eb_ptr \<Rightarrow> eb_width_t \<Rightarrow> eb_address_t \<Rightarrow> eb_data_t list \<Rightarrow> 'w eb_state \<Rightarrow> (int \<times> 'w eb_state) option" where
  "config_writes E k width rba [] s = Some (0, s)"
| "config_writes E k width rba (v # vs) s =
     do { (n, s) \<leftarrow> eb_socket_write_config E k width rba v s;
          (m, s) \<leftarrow> config_writes E k width rba vs s;
          Some (n + m, s) }"

lemma bus_reads_fit:
  "bus_reads E k data a ops e s = Some (vs, e', s') \<Longrightarrow> \<forall>op \<in> set ops. op_format op = fmt \<Longrightarrow>
   \<forall>v \<in> set vs. v AND data_mask_of (fmt AND EB_DATAX) = v"
  by (induction ops arbitrary: e s vs) (auto simp: and.assoc split: Option.bind_splits)

lemma slave_write_config_word:
  assumes al: "is_alignment (sc_alignment c)" and sel: "sel_ok sel"
    and fit: "unat (sel_shift sel) + unat (sel_width sel) \<le> sc_alignment c" "v AND data_mask_of (sel_width sel) = v"
    and buf: "drop (sl_rptr st) (sl_buf st) = EB_mWRITE (push_bit (8 * unat (sel_shift sel)) v) (sc_alignment c) @ rest"
  shows "slave_write E c sel True bwa bwa_b bwa_l st =
    do { (n, s) \<leftarrow> eb_socket_write_config E (sc_socketp c) (sel_width sel OR push_bit 4 (sc_addr c)) bwa v (sl_state st);
         Some ((advance c st)\<lparr>sl_completed := sl_completed st + n, sl_state := s\<rparr>) }"
proof -
  have "drop_bit (unat (sel_shift sel) * 8) (load_at c st) AND data_mask_of (sel_width sel) = v"
    unfolding load_word(1) [OF al buf] data_mask_of_def
    using fit al by (intro shifted_value) (auto simp: data_mask_of_def)
  then show ?thesis by (simp add: slave_write_def Let_def sel advance_def)
qed

lemma slave_write_loop_config:
  assumes "is_alignment (sc_alignment c)" and "sel_ok sel"
    and "unat (sel_shift sel) + unat (sel_width sel) \<le> sc_alignment c"
    and "\<forall>v \<in> set vs. v AND data_mask_of (sel_width sel) = v"
    and "drop (sl_rptr st) (sl_buf st) = reply_words (sc_alignment c) (unat (sel_shift sel)) vs @ rest"
  shows "slave_write_loop E c sel True True bwa bwa_b bwa_l (length vs) st =
    do { (n, s) \<leftarrow> config_writes E (sc_socketp c) (sel_width sel OR push_bit 4 (sc_addr c)) bwa vs (sl_state st);
         Some (st\<lparr>sl_rptr := sl_rptr st + length vs * sc_alignment c, sl_completed := sl_completed st + n, sl_state := s\<rparr>) }"
  using assms(4-)
proof (induction vs arbitrary: st)
  case Nil
  then show ?case by simp
next
  case (Cons v vs)
  have buf: "drop (sl_rptr st) (sl_buf st) = EB_mWRITE (push_bit (8 * unat (sel_shift sel)) v) (sc_alignment c)
      @ reply_words (sc_alignment c) (unat (sel_shift sel)) vs @ rest"
    using Cons.prems(2) by simp
  have step: "slave_write E c sel True bwa bwa_b bwa_l st =
    do { (n, s) \<leftarrow> eb_socket_write_config E (sc_socketp c) (sel_width sel OR push_bit 4 (sc_addr c)) bwa v (sl_state st);
         Some ((advance c st)\<lparr>sl_completed := sl_completed st + n, sl_state := s\<rparr>) }"
    using Cons.prems(1) assms(1-3) buf by (intro slave_write_config_word) auto
  have tail: "drop (sl_rptr (st'\<lparr>sl_completed := n, sl_state := s\<rparr>)) (sl_buf (st'\<lparr>sl_completed := n, sl_state := s\<rparr>))
      = reply_words (sc_alignment c) (unat (sel_shift sel)) vs @ rest" if "st' = advance c st" for st' n s
    using load_word(2) [OF assms(1) buf] that by simp
  have "\<forall>v \<in> set vs. v AND data_mask_of (sel_width sel) = v" using Cons.prems(1) by simp
  note IH = Cons.IH [OF this tail [OF refl]]
  show ?case
  proof (cases "eb_socket_write_config E (sc_socketp c) (sel_width sel OR push_bit 4 (sc_addr c)) bwa v (sl_state st)")
    case None
    then show ?thesis by (simp add: step)
  next
    case (Some r)
    obtain n s where r: "r = (n, s)" by fastforce
    show ?thesis
      by (simp add: step Some r Let_def IH) (auto simp: advance_def algebra_simps split: Option.bind_splits)
  qed
qed

lemma plan_reads_select:
  assumes w: "same_widths f c" and p: "p = plan_record (fc_data f) needs_check maxops ops xs"
    and good: "\<forall>x \<in> set xs. good_op (fc_data f) (fc_addr f) x" and pos: "0 < rp_rcount p"
  shows "select_agrees (fc_data f) (rp_format p) (rp_low_addr p)"
    and "\<forall>x \<in> set (take (rp_rcount p) (drop (rp_wcount p) xs)). op_format x = rp_format p"
proof -
  have "\<forall>x \<in> set xs. op_format x \<noteq> EB_DATAX"
    using good checked_format_cases unfolding good_op_def by fastforce
  note P = plan_record_take(4) [OF p this]
  then show "\<forall>x \<in> set (take (rp_rcount p) (drop (rp_wcount p) xs)). op_format x = rp_format p" by blast
  let ?x = "xs ! rp_wcount p"
  have "?x \<in> set (take (rp_rcount p) (drop (rp_wcount p) xs))"
    using pos plan_record_counts(1) [OF p] by (auto simp: in_set_conv_nth intro!: exI [of _ 0])
  moreover from this have "good_op (fc_data f) (fc_addr f) ?x" using good by (metis in_set_takeD in_set_dropD)
  ultimately show "select_agrees (fc_data f) (rp_format p) (rp_low_addr p)"
    using good_op_select [of "fc_data f" "fc_addr f" ?x] P w unfolding same_widths_def by metis
qed

lemma reply_record_fields:
  assumes "drop r buf = reply_record f p ce rba vs @ rest" and "fc_record_alignment f \<in> {4, 8}"
  shows "buf ! r = (if ce then EB_RECORD_CYC else 0) OR EB_RECORD_WCA OR EB_RECORD_WFF"
    and "buf ! (r + 1) = record_select (rp_format p) (op_shift_of (fc_data f) (rp_format p) (rp_low_addr p))"
    and "buf ! (r + 2) = word_of_nat (rp_rcount p)" and "buf ! (r + 3) = 0"
    and "drop (r + fc_record_alignment f) buf = EB_mWRITE (ucast rba) (fc_alignment f)
      @ reply_words (fc_alignment f) (unat (op_shift_of (fc_data f) (rp_format p) (rp_low_addr p))) vs @ rest"
proof -
  have "r \<le> length buf" using assms(1) by (cases "r \<le> length buf") (simp_all add: reply_record_def Let_def)
  then have "buf ! (r + i) = drop r buf ! i" for i by simp
  from this [of 0] this [of 1] this [of 2] this [of 3]
  show "buf ! r = (if ce then EB_RECORD_CYC else 0) OR EB_RECORD_WCA OR EB_RECORD_WFF"
    "buf ! (r + 1) = record_select (rp_format p) (op_shift_of (fc_data f) (rp_format p) (rp_low_addr p))"
    "buf ! (r + 2) = word_of_nat (rp_rcount p)" "buf ! (r + 3) = 0"
    unfolding assms(1) reply_record_def Let_def by (simp_all del: or_numerals)
  have "drop (r + fc_record_alignment f) buf = drop (fc_record_alignment f) (reply_record f p ce rba vs @ rest)"
    unfolding assms(1) [symmetric] by (simp add: add.commute)
  also have "\<dots> = EB_mWRITE (ucast rba) (fc_alignment f)
      @ reply_words (fc_alignment f) (unat (op_shift_of (fc_data f) (rp_format p) (rp_low_addr p))) vs @ rest"
    using assms(2) unfolding reply_record_def Let_def by (elim insertE) (simp_all add: numeral_eq_Suc)
  finally show "drop (r + fc_record_alignment f) buf = EB_mWRITE (ucast rba) (fc_alignment f)
      @ reply_words (fc_alignment f) (unat (op_shift_of (fc_data f) (rp_format p) (rp_low_addr p))) vs @ rest" .
qed

lemma reply_flags:
  fixes ce :: bool
  defines "flags \<equiv> (if ce then EB_RECORD_CYC else 0) OR EB_RECORD_WCA OR EB_RECORD_WFF"
  shows "flags AND EB_RECORD_WCA \<noteq> 0" "flags AND EB_RECORD_WFF \<noteq> 0" "flags AND EB_RECORD_CYC = (if ce then EB_RECORD_CYC else 0)"
  by (simp_all add: flags_def)

lemma slave_writes_reply:
  assumes al: "is_alignment (sc_alignment c)" and sel: "sel_ok sel"
    and fit: "unat (sel_shift sel) + unat (sel_width sel) \<le> sc_alignment c"
      "\<forall>v \<in> set vs. v AND data_mask_of (sel_width sel) = v"
    and flags: "flags AND EB_RECORD_WCA \<noteq> 0" "flags AND EB_RECORD_WFF \<noteq> 0" and pos: "vs \<noteq> []"
    and buf: "drop (sl_rptr st) (sl_buf st) = EB_mWRITE (ucast (rba :: uint16)) (sc_alignment c)
      @ reply_words (sc_alignment c) (unat (sel_shift sel)) vs @ rest"
  shows "slave_writes E c sel flags (length vs) st =
    do { (n, s) \<leftarrow> config_writes E (sc_socketp c) (sel_width sel OR push_bit 4 (sc_addr c)) (ucast rba) vs (sl_state st);
         Some (st\<lparr>sl_rptr := sl_rptr st + Suc (length vs) * sc_alignment c, sl_completed := sl_completed st + n, sl_state := s\<rparr>) }"
proof -
  have load: "load_at c st = ucast rba" using load_word(1) [OF al buf] take_bit_rba [of "sc_alignment c" rba] al by auto
  have "slave_writes E c sel flags (length vs) st
      = slave_write_loop E c sel True True (ucast rba) 0 0 (length vs) (advance c st)"
    using load flags pos by (simp add: slave_writes_def)
  also have "\<dots> = do { (n, s) \<leftarrow> config_writes E (sc_socketp c) (sel_width sel OR push_bit 4 (sc_addr c)) (ucast rba) vs (sl_state (advance c st));
         Some ((advance c st)\<lparr>sl_rptr := sl_rptr (advance c st) + length vs * sc_alignment c,
           sl_completed := sl_completed (advance c st) + n, sl_state := s\<rparr>) }"
    by (rule slave_write_loop_config [OF al sel fit load_word(2) [OF al buf]])
  finally show ?thesis by (simp add: advance_def add.assoc)
qed

text \<open>C2: The values travel back. Let the unread bytes of the buffer begin with the record with which a slave
  answered the reads of a record planned by \<^verbatim>\<open>eb_device_flush\<close>. Then the master, processing it, hands exactly
  the values that were read, in order, to \<^verbatim>\<open>eb_socket_write_config\<close> at the return address of the request, and
  counts the cycles this completes.\<close>

theorem master_accepts_reply:
  assumes "eb_width_refined width" and f: "f = flush_context width mtu" and c: "c = slave_context k t l mtu' width"
    and p: "p = plan_record (fc_data f) needs_check maxops ops xs"
    and checked: "\<forall>x \<in> set xs. \<exists>op. flush_check_op (fc_data f) (address_mask_of (fc_addr f)) op = (EB_OK, x)"
    and pos: "0 < rp_rcount p"
    and vals: "bus_reads E' k' (fc_data f) (fc_addr f) (take (rp_rcount p) (drop (rp_wcount p) xs)) e s0 = Some (vs, e', s')"
    and buf: "drop (sl_rptr st) (sl_buf st) = reply_record f p ce rba vs @ rest"
    and eos: "sl_rptr st + length (reply_record f p ce rba vs) \<le> sl_eos st"
  shows "slave_record E c st =
    do { (n, s) \<leftarrow> config_writes E k ((rp_format p AND EB_DATAX) OR push_bit 4 (fc_addr f)) (ucast rba) vs (sl_state st);
         Some (Inr (slave_terminate c (st\<lparr>sl_rptr := sl_rptr st + length (reply_record f p ce rba vs),
           sl_cycle_end := (if ce then EB_RECORD_CYC else 0), sl_completed := sl_completed st + n, sl_state := s\<rparr>))) }"
proof -
  have w: "same_widths f c" unfolding f c by (rule same_widths_contexts [OF refined_widths [OF assms(1)]])
  then have al: "is_alignment (fc_alignment f)" and ra: "fc_record_alignment f \<in> {4, 8}"
    using is_alignment_eb_alignment by (auto simp: same_widths_def eb_record_alignment_def)
  have good: "\<forall>x \<in> set xs. good_op (fc_data f) (fc_addr f) x"
    using checked flush_check_op_good w unfolding same_widths_def by blast
  note S = plan_reads_select [OF w p good pos] and F = reply_record_fields [OF buf ra] and N = plan_record_counts [OF p]
  let ?sh = "op_shift_of (fc_data f) (rp_format p) (rp_low_addr p)"
  define sel where "sel = decode_select (fc_data f) (record_select (rp_format p) ?sh)"
  have sel: "sel_ok sel" "sel_width sel = rp_format p AND EB_DATAX" "sel_shift sel = ?sh"
    "unat ?sh + unat (rp_format p AND EB_DATAX) \<le> fc_alignment f"
    using S(1) width_le_alignment(1) [of "fc_data f" "fc_addr f"] w
    by (auto simp: select_agrees_def Let_def sel_def same_widths_def)
  have n: "length vs = rp_rcount p" using length_bus_reads [OF vals] N(1) by simp
  have rc: "unat (word_of_nat (rp_rcount p) :: uint8) = rp_rcount p"
    using N(4) unat_of_nat_small [of "rp_rcount p", where 'a = 8] by simp
  have len: "length (reply_record f p ce rba vs) = fc_record_alignment f + Suc (rp_rcount p) * fc_alignment f"
    using ra by (auto simp: reply_record_def Let_def length_EB_mWRITE [OF al] length_reply_words [OF al] n)
  define st0 where "st0 = st\<lparr>sl_rptr := sl_rptr st + fc_record_alignment f, sl_cycle_end := (if ce then EB_RECORD_CYC else 0)\<rparr>"
  let ?fl = "(if ce then EB_RECORD_CYC else 0) OR EB_RECORD_WCA OR EB_RECORD_WFF"
  have "record_words (word_of_nat (rp_rcount p)) 0 = Suc (rp_rcount p)"
    using rc pos by (simp add: record_words_def word_greater_zero_iff unat_eq_0 flip: unat_gt_0)
  then have refill: "slave_refill E c (record_words (word_of_nat (rp_rcount p)) 0) st0 = Some (Inr st0)"
    using eos w by (intro refill_enough) (simp add: st0_def len same_widths_def)
  have "slave_record E c st = do { st1 \<leftarrow> slave_writes E c sel ?fl (rp_rcount p) st0; Some (Inr (slave_terminate c st1)) }"
    using refill F(1-4) rc w reply_flags(3) [of ce] unfolding slave_record_def Let_def
    by (simp add: same_widths_def st0_def sel_def slave_reads_def del: or_numerals)
  moreover have "slave_writes E c sel ?fl (length vs) st0 =
    do { (n, s) \<leftarrow> config_writes E (sc_socketp c) (sel_width sel OR push_bit 4 (sc_addr c)) (ucast rba) vs (sl_state st0);
         Some (st0\<lparr>sl_rptr := sl_rptr st0 + Suc (length vs) * sc_alignment c, sl_completed := sl_completed st0 + n, sl_state := s\<rparr>) }"
    using w al sel bus_reads_fit [OF vals S(2)] reply_flags(1,2) [of ce] n pos F(5)
    by (intro slave_writes_reply) (auto simp: same_widths_def st0_def simp del: or_numerals)
  moreover have "sc_socketp c = k" "sc_addr c = fc_addr f" "sc_alignment c = fc_alignment f" "sl_state st0 = sl_state st"
    using w by (simp_all add: c slave_context_def same_widths_def Let_def st0_def)
  moreover have "st0\<lparr>sl_rptr := sl_rptr st0 + Suc (rp_rcount p) * fc_alignment f, sl_completed := sl_completed st0 + i, sl_state := s\<rparr>
      = st\<lparr>sl_rptr := sl_rptr st + length (reply_record f p ce rba vs), sl_cycle_end := (if ce then EB_RECORD_CYC else 0),
           sl_completed := sl_completed st + i, sl_state := s\<rparr>" for i s
    by (cases st) (simp add: st0_def len)
  ultimately show ?thesis by (auto simp: n sel(2) split: Option.bind_splits)
qed

theorem master_accepts_reply_witness:
  "\<exists>st s. sl_buf st = reply_record (flush_context 0x44 1472) example_plan True 0x8000 [42] \<and>
     slave_record unit_env (slave_context 5 6 0 1472 0x44) st = Some (Inr s)"
proof -
  let ?reply = "reply_record (flush_context 0x44 1472) example_plan True 0x8000 [42]"
  let ?st = "slave_start (slave_context 5 6 0 1472 0x44) False (length ?reply) ?reply example_bus"
  have "slave_record unit_env (slave_context 5 6 0 1472 0x44) ?st =
    do { (n, s) \<leftarrow> config_writes unit_env 5 ((rp_format example_plan AND EB_DATAX) OR push_bit 4 (fc_addr (flush_context 0x44 1472)))
           (ucast (0x8000 :: uint16)) [42] (sl_state ?st);
         Some (Inr (slave_terminate (slave_context 5 6 0 1472 0x44) (?st\<lparr>sl_rptr := sl_rptr ?st + length ?reply,
           sl_cycle_end := (if True then EB_RECORD_CYC else 0), sl_completed := sl_completed ?st + n, sl_state := s\<rparr>))) }"
  proof (rule master_accepts_reply [OF example_refined refl refl])
    show "example_plan = plan_record (fc_data (flush_context 0x44 1472)) False 255 0 example_ops"
      by (simp add: example_plan_def example_context)
    show "bus_reads example_env 5 (fc_data (flush_context 0x44 1472)) (fc_addr (flush_context 0x44 1472))
        (take (rp_rcount example_plan) (drop (rp_wcount example_plan) example_ops)) 0 example_bus = Some ([42], 0, example_bus)"
      by (simp only: example_counts example_context example_run)
    show "drop (sl_rptr ?st) (sl_buf ?st) = ?reply @ []" "sl_rptr ?st + length ?reply \<le> sl_eos ?st"
      by (simp_all add: slave_start_def)
  qed (use example_checked example_counts in \<open>auto simp: example_context list_all_iff\<close>)
  moreover have "sl_state ?st = example_bus" "sl_buf ?st = ?reply" by (simp_all add: slave_start_def)
  moreover have "\<exists>s. eb_socket_write_config unit_env 5 w a v example_bus = Some (0, s)" for w a v
    unfolding eb_socket_write_config_def
    by (subst find_response.simps) (simp add: get_pp_def set_pp_def eb_response_flip_def rev_links.simps example_bus_def)
  then have "\<exists>s. config_writes unit_env 5 w a [v] example_bus = Some (0, s)" for w a v
    by (metis (no_types, lifting) add_0 bind.bind_lunit case_prod_conv config_writes.simps)
  ultimately have "\<exists>s. slave_record unit_env (slave_context 5 6 0 1472 0x44) ?st = Some (Inr s)"
    by (metis (no_types, lifting) bind.bind_lunit case_prod_conv)
  with \<open>sl_buf ?st = ?reply\<close> show ?thesis by blast
qed

end
