(* ===== verification/EB_Select.thy ===== *)
theory EB_Select
  imports EB_Roundtrip
begin

text \<open>
  The select byte of a received record is input from the network. Here \<open>decode_select\<close>, the bit tricks of
  \<^verbatim>\<open>format/slave.c\<close> with its table of logarithms, is compared with what the select lines mean: a run of 1, 2, 4 or
  8 lines at a multiple of its length, inside the port. It follows that a read of the configuration space stays
  inside its sixteen bytes, whatever was received.
\<close>

unbundle bit_operations_syntax

section \<open>The meaning of select lines\<close>

text \<open>All runs: the select byte, its width and its position.\<close>

definition select_table :: "(uint8 \<times> uint8 \<times> uint8) list" where
  "select_table = [(0x01, 1, 0), (0x02, 1, 1), (0x04, 1, 2), (0x08, 1, 3), (0x10, 1, 4), (0x20, 1, 5), (0x40, 1, 6), (0x80, 1, 7),
     (0x03, 2, 0), (0x0C, 2, 2), (0x30, 2, 4), (0xC0, 2, 6), (0x0F, 4, 0), (0xF0, 4, 4), (0xFF, 8, 0)]"

definition sel_result :: "selection \<Rightarrow> (uint8 \<times> uint8) option" where
  "sel_result d = (if sel_ok d then Some (sel_width d, sel_shift d) else None)"

definition select_run :: "eb_width_t \<Rightarrow> uint8 \<Rightarrow> nat \<Rightarrow> nat \<Rightarrow> bool" where
  "select_run data select w s \<longleftrightarrow>
     w \<in> {1, 2, 4, 8} \<and> w dvd s \<and> s + w \<le> unat data \<and> select = push_bit s (mask w)"

lemma decode_table:
  "list_all (\<lambda>i. sel_result (decode_select 8 (word_of_int i)) = map_of select_table (word_of_int i)) [0 .. 255]"
  by code_simp

lemma byte_cases:
  assumes "list_all (\<lambda>i. P (word_of_int i)) [0 .. 255]"
  shows "P (x :: uint8)"
proof -
  have "uint x < 2 ^ LENGTH(8)" by (rule unsigned_less)
  then have "uint x \<in> set [0 .. 255]" by simp
  with assms have "P (word_of_int (uint x))" unfolding list_all_iff by blast
  then show ?thesis by simp
qed

lemma decode_select_8: "sel_result (decode_select 8 x) = map_of select_table x"
  using decode_table by (rule byte_cases)

text \<open>The port only limits the run.\<close>

lemma decode_select_port:
  assumes "data \<le> 8"
  shows "sel_ok (decode_select data x) \<longleftrightarrow>
      sel_ok (decode_select 8 x) \<and> sel_width (decode_select 8 x) \<le> data \<and> sel_shift (decode_select 8 x) < data"
    and "sel_width (decode_select data x) = sel_width (decode_select 8 x)"
    and "sel_shift (decode_select data x) = sel_shift (decode_select 8 x)"
  using assms order.trans [of _ data 8] order.strict_trans2 [of _ data 8]
  by (auto simp: decode_select_def Let_def)

lemma decode_select_run:
  assumes "is_width data" and "sel_ok (decode_select data x)"
  shows "select_run data x (unat (sel_width (decode_select data x))) (unat (sel_shift (decode_select data x)))"
proof -
  let ?d = "decode_select data x"
  have "data \<le> 8" using assms(1) by auto
  note port = decode_select_port [OF this]
  have "map_of select_table x = Some (sel_width ?d, sel_shift ?d)"
    using decode_select_8 [of x] assms(2) unfolding port sel_result_def by simp
  then have "(x, sel_width ?d, sel_shift ?d) \<in> set select_table" by (rule map_of_SomeD)
  moreover have "sel_width ?d \<le> data" "sel_shift ?d < data" using assms(2) unfolding port by simp_all
  ultimately show ?thesis
    using assms(1) by (elim disjE) (auto simp: select_table_def select_run_def mask_eq_exp_minus_1 word_le_nat_alt)
qed

lemma run_decode_select:
  assumes "is_width data" and "select_run data x w s"
  shows "sel_ok (decode_select data x) \<and> sel_width (decode_select data x) = of_nat w \<and> sel_shift (decode_select data x) = of_nat s"
proof -
  have le: "data \<le> 8" using assms(1) by auto
  note port = decode_select_port [OF this]
  have "unat data \<le> 8" using le by (simp add: word_le_nat_alt)
  with assms have b: "s + w \<le> 8" "w = 1 \<or> w = 2 \<or> w = 4 \<or> w = 8" "w dvd s" "x = push_bit s (mask w)" "s + w \<le> unat data"
    by (auto simp: select_run_def)
  then have "s \<in> {0, 1, 2, 3, 4, 5, 6, 7}" by auto
  with b(1-3) have "(w, s) \<in> {(1, 0), (1, 1), (1, 2), (1, 3), (1, 4), (1, 5), (1, 6), (1, 7), (2, 0), (2, 2), (2, 4), (2, 6), (4, 0), (4, 4), (8, 0)}"
    by (elim disjE insertE emptyE) simp_all
  then have "map_of select_table x = Some (of_nat w, of_nat s)"
    unfolding b(4) by (auto simp: select_table_def mask_eq_exp_minus_1)
  then have "sel_ok (decode_select 8 x)" "sel_width (decode_select 8 x) = of_nat w" "sel_shift (decode_select 8 x) = of_nat s"
    using decode_select_8 [of x] by (auto simp: sel_result_def split: if_splits)
  moreover have "(of_nat w :: uint8) \<le> data" "(of_nat s :: uint8) < data"
    using b unat_of_nat_small [of w, where 'a = 8] unat_of_nat_small [of s, where 'a = 8]
    by (auto simp: word_le_nat_alt word_less_nat_alt)
  ultimately show ?thesis unfolding port by simp
qed

section \<open>The configuration space\<close>

lemma low_b_run:
  assumes "is_width data" and "select_run data x w s"
  shows "unat (sel_low_b (decode_select data x)) + s + w = unat data"
proof -
  have "data \<le> 8" using assms(1) by auto
  then have d: "unat data \<le> 8" by (simp add: word_le_nat_alt)
  have b: "s + w \<le> unat data" using assms(2) by (simp add: select_run_def)
  have "sel_low_b (decode_select data x) = data - (sel_shift (decode_select data x) + sel_width (decode_select data x))"
    by (simp add: decode_select_def Let_def)
  also have "\<dots> = of_nat (unat data - (s + w))"
    using run_decode_select [OF assms] b by (simp add: of_nat_diff)
  finally show ?thesis using b d unat_of_nat_small [of "unat data - (s + w)", where 'a = 8] by simp
qed

text \<open>An address below 16 whose low bits were replaced lies inside an aligned block of the port's size.\<close>

lemma sixteen_cases:
  assumes "(z :: uint64) < 16"
  shows "z \<in> {0, 1, 2, 3, 4, 5, 6, 7, 8, 9, 10, 11, 12, 13, 14, 15}"
proof -
  have "unat z < 16" using assms by (simp add: word_less_nat_alt)
  then have "unat z \<in> {0, 1, 2, 3, 4, 5, 6, 7, 8, 9, 10, 11, 12, 13, 14, 15}"
    unfolding insert_iff empty_iff by presburger
  then have "word_of_nat (unat z) \<in> {0, 1, 2, 3, 4, 5, 6, 7, 8, 9, 10, 11, 12, 13, 14, 15 :: uint64}"
    by (elim insertE emptyE) simp_all
  then show ?thesis by simp
qed

lemma aligned_block:
  fixes x :: uint64
  assumes "is_width data" and "x AND (ucast data - 1) = 0" and "y AND (ucast data - 1) = y" and "x OR y < 16"
  shows "unat (x OR y) + unat data \<le> 16 + unat y"
proof -
  let ?m = "ucast data - 1 :: uint64"
  define z where "z = x OR y"
  have y: "y = z AND ?m"
    using assms(2,3) by (simp add: z_def bit.conj_disj_distrib2)
  have "z \<in> {0, 1, 2, 3, 4, 5, 6, 7, 8, 9, 10, 11, 12, 13, 14, 15}" using assms(4) sixteen_cases z_def by blast
  then have "unat z + unat data \<le> 16 + unat (z AND ?m)"
    using assms(1) by (elim disjE insertE emptyE) simp_all
  with y z_def show ?thesis by simp
qed

lemma slave_config_read_returns:
  assumes "eb_width_refined width" and "c = slave_context k t l mtu width"
  shows "\<exists>v. slave_read_value E c (decode_select (sc_data c) select) True ra st = Some (v, st)"
proof -
  let ?data = "width AND EB_DATAX" and ?a = "drop_bit 4 width"
  let ?sel = "decode_select ?data select"
  let ?base = "ra AND sc_filter c" and ?low = "ucast (sel_low_b ?sel) :: uint64"
  note w = refined_widths [OF assms(1)]
  have c: "sc_data c = ?data" "sc_addr c = ?a" "sc_filter c = address_mask_of ?a AND NOT (ucast ?data - 1)"
    using mask_minus [OF w(2,1)] by (simp_all add: assms(2) slave_context_def Let_def address_mask_of_def)
  have "unat (?base OR ?low) + unat (sel_width ?sel) \<le> 16" if ok: "sel_ok ?sel" and lt: "\<not> ?base OR ?low \<ge> 16"
  proof -
    have run: "select_run ?data select (unat (sel_width ?sel)) (unat (sel_shift ?sel))"
      by (rule decode_select_run [OF w(1) ok])
    note low = low_b_run [OF w(1) run]
    have "0 < unat (sel_width ?sel)" using run by (auto simp: select_run_def)
    with low have "sel_low_b ?sel < ?data" by (simp add: word_less_nat_alt)
    moreover have "?base AND (ucast ?data - 1) = 0"
      unfolding c(3) by (auto intro: bit_word_eqI simp: bit_simps)
    ultimately have "unat (?base OR ?low) + unat ?data \<le> 16 + unat ?low"
      using lt by (intro aligned_block [OF w(1)] ucast_fits [OF w(1)]) auto
    moreover have "unat (sel_low_b ?sel) < 2 ^ LENGTH(8)" by (rule unsigned_less)
    then have "unat ?low = unat (sel_low_b ?sel)" by (simp add: unsigned_ucast_eq take_bit_nat_eq_self_iff)
    ultimately show ?thesis using low by simp
  qed
  moreover have "(sel_width ?sel OR push_bit 4 ?a) AND EB_DATAX = sel_width ?sel" if "sel_ok ?sel"
  proof -
    have "sel_width ?sel < 16"
      using decode_select_run [OF w(1) that] by (auto simp: select_run_def word_less_nat_alt)
    with join_nibbles [OF high_nibble_less this, of width] show ?thesis by (simp add: or.commute)
  qed
  ultimately show ?thesis
    unfolding slave_read_value_def eb_socket_read_config_def Let_def c(1,2) by auto
qed

text \<open>C12: Whatever a peer sends, a read of the configuration space stays inside its sixteen bytes. For negotiated
  widths, every select byte, every address and every error register the read returns a value, which means
  that the bytes it picks exist.\<close>

theorem slave_config_read_safe:
  assumes "eb_width_refined width" and "c = slave_context k t l mtu width"
  shows "\<exists>v. slave_read_value E c (decode_select (sc_data c) select) True ra st = Some (v, st)"
  by (rule slave_config_read_returns [OF assms])

theorem slave_config_read_safe_witness:
  "\<exists>v. slave_read_value unit_env (slave_context 5 6 0 1472 0x44) (decode_select (sc_data (slave_context 5 6 0 1472 0x44)) 0xF0)
     True 0xFFFFFFFF (slave_start (slave_context 5 6 0 1472 0x44) False 0 [] (eb_state0 ()))
   = Some (v, slave_start (slave_context 5 6 0 1472 0x44) False 0 [] (eb_state0 ()))"
  by (rule slave_config_read_safe [OF example_refined refl])

text \<open>C30: The select byte of a record is decoded exactly. For every port width, \<^verbatim>\<open>format/slave.c\<close> accepts a byte if and
  only if its lines are a run of one, two, four or eight lines at a multiple of the run's length that fits the
  port; width and shift are then the length and the position of the run.\<close>

theorem decode_select_exact:
  assumes "eb_width_refined width" and "data = width AND EB_DATAX"
  shows "(sel_ok (decode_select data select) \<longleftrightarrow> (\<exists>w s. select_run data select w s))
    \<and> (select_run data select w s \<longrightarrow>
        sel_width (decode_select data select) = of_nat w \<and> sel_shift (decode_select data select) = of_nat s)"
  using decode_select_run run_decode_select refined_widths(1) [OF assms(1)] assms(2) by blast

theorem decode_select_exact_witness:
  "sel_ok (decode_select (0x44 AND EB_DATAX) 0x0C) \<and> sel_width (decode_select (0x44 AND EB_DATAX) 0x0C) = of_nat 2"
proof -
  have "select_run (0x44 AND EB_DATAX) 0x0C 2 2" by (simp add: select_run_def mask_eq_exp_minus_1)
  with decode_select_exact [OF example_refined refl] show ?thesis by blast
qed

end
