(* ===== verification/EB_Queue.thy ===== *)
theory EB_Queue
  imports EB_Socket
begin

text \<open>
  The responses a socket waits for are kept in two lists: \<^verbatim>\<open>first_response\<close>, oldest first, and
  \<^verbatim>\<open>last_response\<close>, newest first, which is reversed and appended when the first one runs out. Here the four
  operations on them (\<^verbatim>\<open>queue_response\<close> of a flush, the search and the unlinking of an answer, the look at the
  next deadline, the removal of the responses of a device) are shown to be operations on one FIFO queue.

  The contract of the queue for the answers is the locale \<open>keyed_fifo\<close>; the socket's queue interprets it.
\<close>

unbundle bit_operations_syntax

section \<open>The contract\<close>

lemma find_Some_split:
  assumes "find P xs = Some x"
  obtains us vs where "xs = us @ x # vs" "P x" "\<forall>u \<in> set us. \<not> P u"
proof -
  obtain i where i: "i < length xs" "P (xs ! i)" "x = xs ! i" "\<forall>j < i. \<not> P (xs ! j)"
    using assms by (auto simp: find_Some_iff)
  show thesis
  proof (rule that)
    show "xs = take i xs @ x # drop (Suc i) xs" using i by (simp add: id_take_nth_drop)
    show "\<forall>u \<in> set (take i xs). \<not> P u" using i by (auto simp: in_set_conv_nth)
  qed (use i in simp)
qed

lemma find_split: "\<forall>u \<in> set us. \<not> P u \<Longrightarrow> P x \<Longrightarrow> find P (us @ x # vs) = Some x"
  by (induction us) auto

locale keyed_fifo =
  fixes Q :: "'s \<Rightarrow> 'a list \<Rightarrow> bool"
    and key :: "'s \<Rightarrow> 'a \<Rightarrow> 'k"
    and search :: "'k \<Rightarrow> 's \<Rightarrow> (('p \<times> 'a) option \<times> 's) option"
    and unlink :: "'p \<Rightarrow> 'a \<Rightarrow> 's \<Rightarrow> 's"
  assumes queue_distinct: "Q s q \<Longrightarrow> distinct q"
    and search_first: "Q s q \<Longrightarrow> \<exists>res s'. search k s = Some (res, s') \<and> Q s' q \<and> (\<forall>a. key s' a = key s a)
      \<and> map_option snd res = find (\<lambda>a. key s a = k) q"
    and unlink_found: "Q s q \<Longrightarrow> search k s = Some (Some (p, a), s') \<Longrightarrow>
      Q (unlink p a s') (remove1 a q) \<and> (\<forall>b. key (unlink p a s') b = key s b)"
begin

lemma search_cases:
  assumes "Q s q" and "search k s = Some (res, s')"
  shows "Q s' q" "key s' a = key s a" "map_option snd res = find (\<lambda>a. key s a = k) q"
  using search_first [OF assms(1), of k] assms(2) by auto

text \<open>The answers to one key arrive in the order of the queue.\<close>

lemma search_takes_oldest:
  assumes "Q s q" and "search k s = Some (Some (p, a), s')"
  shows "filter (\<lambda>b. key s b = k) q = a # filter (\<lambda>b. key s b = k) (remove1 a q)"
proof -
  have "find (\<lambda>b. key s b = k) q = Some a" using search_cases(3) [OF assms] by simp
  then obtain us vs where "q = us @ a # vs" "key s a = k" "\<forall>u \<in> set us. key s u \<noteq> k"
    by (rule find_Some_split)
  with queue_distinct [OF assms(1)] show ?thesis
    by (simp add: remove1_append filter_empty_conv)
qed

end

section \<open>The queue of a socket\<close>

definition unlink_response :: "eb_ptr \<Rightarrow> eb_ptr option \<Rightarrow> eb_ptr \<Rightarrow> 'w eb_state \<Rightarrow> 'w eb_state" where
  "unlink_response k pp p s = set_pp k pp (res_next (heap_response s p)) s"

lemma response_queue_distinct: "response_queue s k q \<Longrightarrow> distinct q"
  by (auto simp: response_queue_def response_lists_def resp_chain_def dest: chain_distinct)

lemma response_queueI: "response_lists s k xs ys \<Longrightarrow> q = xs @ rev ys \<Longrightarrow> response_queue s k q"
  by (auto simp: response_queue_def)

lemma unlink_response_lists:
  assumes "response_lists s k (as @ p # xs) zs" and "pp = (if as = [] then None else Some (last as))"
  shows "response_lists (unlink_response k pp p s) k (as @ xs) zs"
proof -
  let ?nxt = "\<lambda>r. res_next (heap_response s r)"
  have c: "chain ?nxt EB_NULL (sock_first_response (heap_socket s k)) (as @ p # xs)"
    "chain ?nxt EB_NULL (sock_last_response (heap_socket s k)) zs" "set (as @ p # xs) \<inter> set zs = {}"
    using assms(1) by (simp_all add: response_lists_def resp_chain_def)
  show ?thesis
  proof (cases "as = []")
    case True
    with c assms(2) show ?thesis by (simp add: unlink_response_def set_pp_def response_lists_def resp_chain_def)
  next
    case False
    have n: "(\<lambda>r. res_next (heap_response (unlink_response k pp p s) r)) = ?nxt(last as := ?nxt p)"
      using False assms(2) by (auto simp: unlink_response_def set_pp_def)
    have "chain (?nxt(last as := ?nxt p)) EB_NULL (sock_first_response (heap_socket s k)) (as @ xs)"
      by (rule chain_remove [OF c(1) False])
    moreover have "last as \<notin> set zs" using c(3) False by (auto simp: disjoint_iff)
    then have "chain (?nxt(last as := ?nxt p)) EB_NULL (sock_last_response (heap_socket s k)) zs"
      using c(2) by (subst chain_cong [where g = ?nxt]) auto
    ultimately show ?thesis
      using c(3) False assms(2) n unfolding response_lists_def resp_chain_def
      by (auto simp: unlink_response_def set_pp_def)
  qed
qed

lemma unlink_response_key:
  "res_address (heap_response (unlink_response k pp p s) b) = res_address (heap_response s b)"
  by (cases pp) (auto simp: unlink_response_def set_pp_def)

interpretation socket_queue: keyed_fifo "\<lambda>s. response_queue s k" "\<lambda>s a. res_address (heap_response s a)"
  "\<lambda>key. find_response k key None" "unlink_response k" for k
proof unfold_locales
  fix s :: "'w eb_state" and q key
  assume q: "response_queue s k q"
  show d: "distinct q" by (rule response_queue_distinct [OF q])
  obtain res s' where f: "find_response k key None s = Some (res, s')" "response_queue s' k q" "same_responses s s'"
    "found_in s s' k key q res" using find_response_queue [OF q] by blast
  have "map_option snd res = find (\<lambda>a. res_address (heap_response s a) = key) q"
  proof (cases res)
    case None
    with f(4) show ?thesis by (auto simp: found_in_def find_None_iff2)
  next
    case (Some r)
    with f(4) obtain as xs zs where "q = as @ snd r # xs @ rev zs" "res_address (heap_response s (snd r)) = key"
      "\<forall>a \<in> set as. res_address (heap_response s a) \<noteq> key"
      by (cases r) (auto simp: found_in_def)
    then show ?thesis using Some by (simp add: find_split)
  qed
  with f show "\<exists>res s'. find_response k key None s = Some (res, s') \<and> response_queue s' k q
      \<and> (\<forall>a. res_address (heap_response s' a) = res_address (heap_response s a))
      \<and> map_option snd res = find (\<lambda>a. res_address (heap_response s a) = key) q"
    using same_responses_address by blast
  fix pp p s''
  assume "find_response k key None s = Some (Some (pp, p), s'')"
  with f have f: "found_in s s'' k key q (Some (pp, p))" "same_responses s s''" by simp_all
  then obtain as xs zs where a: "q = as @ p # xs @ rev zs" "pp = (if as = [] then None else Some (last as))"
    "response_lists s'' k (as @ p # xs) zs" by (auto simp: found_in_def)
  from unlink_response_lists [OF a(3,2)] have "response_queue (unlink_response k pp p s'') k (as @ xs @ rev zs)"
    by (rule response_queueI) simp
  moreover have "remove1 p q = as @ xs @ rev zs" using d a(1) by (simp add: remove1_append)
  ultimately show "response_queue (unlink_response k pp p s'') k (remove1 p q)
      \<and> (\<forall>b. res_address (heap_response (unlink_response k pp p s'') b) = res_address (heap_response s b))"
    using same_responses_address [OF f(2)] by (simp add: unlink_response_key)
qed

text \<open>A new response goes to the end.\<close>

lemma queue_response_push:
  assumes q: "response_queue s k q" and r: "r \<notin> set q" "r \<noteq> EB_NULL"
    and run: "queue_response k r c needs_check s = Some s'"
  shows "response_queue s' k (q @ [r])"
    and "res_address (heap_response s' r) = aux_rba (heap_socket_aux s (sock_aux (heap_socket s k)))"
    and "res_deadline (heap_response s' r) = ucast (aux_time_cache (heap_socket_aux s (sock_aux (heap_socket s k))) + 5)"
    and "res_cycle (heap_response s' r) = c" and "\<And>b. b \<noteq> r \<Longrightarrow> heap_response s' b = heap_response s b"
proof -
  let ?nxt = "\<lambda>r. res_next (heap_response s r)"
  obtain xs ys where ls: "response_lists s k xs ys" and qe: "q = xs @ rev ys" using q by (auto simp: response_queue_def)
  then have c: "chain ?nxt EB_NULL (sock_first_response (heap_socket s k)) xs"
    "chain ?nxt EB_NULL (sock_last_response (heap_socket s k)) ys" "set xs \<inter> set ys = {}"
    by (simp_all add: response_lists_def resp_chain_def)
  have p: "res_next (heap_response s' r) = sock_last_response (heap_socket s k)"
    "\<And>b. b \<noteq> r \<Longrightarrow> heap_response s' b = heap_response s b"
    "sock_first_response (heap_socket s' k) = sock_first_response (heap_socket s k)"
    "sock_last_response (heap_socket s' k) = r"
    using run by (auto simp: queue_response_def Let_def split: Option.bind_splits)
  then have n: "(\<lambda>a. res_next (heap_response s' a)) = ?nxt(r := sock_last_response (heap_socket s k))"
    by (auto simp: fun_eq_iff)
  have "r \<notin> set xs" "r \<notin> set ys" using r(1) qe by auto
  with c have "response_lists s' k xs (r # ys)"
    using r(2) unfolding response_lists_def resp_chain_def n p by auto
  then show "response_queue s' k (q @ [r])" by (rule response_queueI) (simp add: qe)
qed (use run in \<open>auto simp: queue_response_def Let_def split: Option.bind_splits\<close>)

text \<open>The look at the next deadline does not change the queue.\<close>

lemma eb_socket_timeout_queue:
  assumes "response_queue s k q"
  shows "\<exists>s'. eb_socket_timeout k s =
      Some (case q of [] \<Rightarrow> 0 | r # _ \<Rightarrow> deadline_of (res_deadline (heap_response s r))
              (aux_time_cache (heap_socket_aux s (sock_aux (heap_socket s k)))), s')
    \<and> response_queue s' k q \<and> same_responses s s'"
proof -
  obtain xs ys where ls: "response_lists s k xs ys" and q: "q = xs @ rev ys"
    using assms by (auto simp: response_queue_def)
  have c: "chain (\<lambda>r. res_next (heap_response s r)) EB_NULL (sock_first_response (heap_socket s k)) xs"
    using ls by (simp add: response_lists_def resp_chain_def)
  show ?thesis
  proof (cases xs)
    case (Cons x xs')
    with c have "sock_first_response (heap_socket s k) = x" "x \<noteq> EB_NULL" by auto
    with Cons q assms show ?thesis by (simp add: eb_socket_timeout_def Let_def)
  next
    case Nil
    with c have first: "sock_first_response (heap_socket s k) = EB_NULL" by simp
    have ls0: "response_lists s k [] ys" using ls Nil by simp
    obtain r h s' where f: "eb_response_flip (sock_last_response (heap_socket s k)) s = Some (r, s\<lparr>heap_response := h\<rparr>)"
      and s': "s' = upd_socket k (\<lambda>q. q\<lparr>sock_last_response := EB_NULL\<rparr>) (set_pp k None r (s\<lparr>heap_response := h\<rparr>))"
      and ls': "response_lists s' k ([] @ rev ys) []" and r: "r = (case rev ys of [] \<Rightarrow> EB_NULL | x # _ \<Rightarrow> x)"
      and same: "same_responses s s'"
      by (rule flip_append [OF ls0, of None]) simp
    have s'2: "upd_socket k (\<lambda>q. q\<lparr>sock_first_response := r, sock_last_response := EB_NULL\<rparr>) (s\<lparr>heap_response := h\<rparr>) = s'"
      by (simp add: s' set_pp_def upd_socket_def)
    have d: "res_deadline (heap_response s' a) = res_deadline (heap_response s a)" for a
      using same unfolding same_responses_def by (metis eb_response.select_convs(2) eb_response.surjective eb_response.update_convs(3))
    have rn: "r = EB_NULL \<longleftrightarrow> rev ys = []"
      using r ls' by (cases "rev ys") (auto simp: response_lists_def resp_chain_def)
    have "eb_socket_timeout k s = Some (if r \<noteq> EB_NULL then deadline_of (res_deadline (heap_response s' r))
        (aux_time_cache (heap_socket_aux s (sock_aux (heap_socket s k)))) else 0, s')"
      unfolding eb_socket_timeout_def Let_def by (simp add: first f s'2) (simp add: s' set_pp_def)
    moreover have "response_queue s' k q" using ls' q Nil by (intro response_queueI) auto
    ultimately show ?thesis using same rn r d q Nil by (auto split: list.splits)
  qed
qed

section \<open>Removing the responses of a device\<close>

abbreviation waits_for :: "'w eb_state \<Rightarrow> eb_ptr \<Rightarrow> eb_ptr \<Rightarrow> bool" where
  "waits_for s d r \<equiv> cyc_link (heap_cycle s (res_cycle (heap_response s r))) = d"

text \<open>What the filter may change: only \<^verbatim>\<open>next\<close> fields of the responses it walks.\<close>

definition relinked :: "'w eb_state \<Rightarrow> 'w eb_state \<Rightarrow> eb_ptr set \<Rightarrow> bool" where
  "relinked s s' A \<longleftrightarrow> same_responses s s' \<and> (\<forall>a. a \<notin> A \<longrightarrow> heap_response s' a = heap_response s a)
     \<and> (\<exists>h. s' = s\<lparr>heap_response := h\<rparr>)"

lemma relinked_refl [simp]: "relinked s s A"
  unfolding relinked_def by (auto intro: exI [of _ "heap_response s"])

lemma relinked_trans: "relinked s s1 A \<Longrightarrow> relinked s1 s2 B \<Longrightarrow> relinked s s2 (A \<union> B)"
  unfolding relinked_def by (auto intro: same_responses_trans)

lemma relinked_upd: "relinked s (upd_response a (\<lambda>r. r\<lparr>res_next := v\<rparr>) s) {a}"
proof -
  have "\<exists>w. heap_response (upd_response a (\<lambda>r. r\<lparr>res_next := v\<rparr>) s) b = (heap_response s b)\<lparr>res_next := w\<rparr>" for b
    by (cases "b = a") (auto intro: exI [of _ "res_next (heap_response s b)"])
  then show ?thesis by (auto simp: relinked_def same_responses_def upd_response_def)
qed

lemma same_responses_cycle: "same_responses s s' \<Longrightarrow> res_cycle (heap_response s' a) = res_cycle (heap_response s a)"
  unfolding same_responses_def by (drule spec [of _ a]) auto

lemma relinked_waits: "relinked s s' A \<Longrightarrow> waits_for s' d r \<longleftrightarrow> waits_for s d r"
  using same_responses_cycle [of s s' r] by (auto simp: relinked_def)

lemma filter_inflight:
  assumes "resp_chain s p zs" and "resp_chain s good gs" and "resp_chain s bad bs"
    and "set zs \<inter> (set gs \<union> set bs) = {}"
  shows "\<exists>good' bad' s'. eb_socket_filter_inflight good bad d p s = Some (good', bad', s') \<and> relinked s s' (set zs)
    \<and> resp_chain s' good' (rev (filter (\<lambda>r. \<not> waits_for s d r) zs) @ gs)
    \<and> resp_chain s' bad' (rev (filter (waits_for s d) zs) @ bs)"
  using assms
proof (induction zs arbitrary: p good bad gs bs s)
  case Nil
  then show ?case
    by (subst eb_socket_filter_inflight.simps) (auto simp: resp_chain_def)
next
  case (Cons z zs)
  have z: "p = z" "z \<noteq> EB_NULL" "resp_chain s (res_next (heap_response s z)) zs" "z \<notin> set zs"
    using Cons.prems(1) chain_distinct [of "\<lambda>r. res_next (heap_response s r)" EB_NULL p "z # zs"] by (auto simp: resp_chain_def)
  define s1 where "s1 v = upd_response z (\<lambda>r. r\<lparr>res_next := v\<rparr>) s" for v
  have keep: "resp_chain (s1 v) q xs \<longleftrightarrow> resp_chain s q xs" if "z \<notin> set xs" for v q xs
    using that by (intro resp_chain_cong) (auto simp: s1_def)
  have push: "resp_chain (s1 v) z (z # xs)" if "resp_chain s v xs" "z \<notin> set xs" for v xs
    using that z(2) keep [OF that(2)] by (simp add: resp_chain_def s1_def)
  have w: "waits_for (s1 v) d r \<longleftrightarrow> waits_for s d r" for v r using relinked_waits [OF relinked_upd] by (simp add: s1_def)
  have rl: "relinked s (s1 v) {z}" for v using relinked_upd by (simp add: s1_def)
  show ?case
  proof (cases "waits_for s d z")
    case True
    have "\<exists>good' bad' s'. eb_socket_filter_inflight good z d (res_next (heap_response s z)) (s1 bad) = Some (good', bad', s')
        \<and> relinked (s1 bad) s' (set zs) \<and> resp_chain s' good' (rev (filter (\<lambda>r. \<not> waits_for (s1 bad) d r) zs) @ gs)
        \<and> resp_chain s' bad' (rev (filter (waits_for (s1 bad) d) zs) @ z # bs)"
      using Cons.prems z keep push by (intro Cons.IH) (auto simp: disjoint_iff)
    with True show ?thesis
      unfolding w using z(1,2) relinked_trans [OF rl [of bad]]
      by (subst eb_socket_filter_inflight.simps) (auto simp: Let_def s1_def)
  next
    case False
    have "\<exists>good' bad' s'. eb_socket_filter_inflight z bad d (res_next (heap_response s z)) (s1 good) = Some (good', bad', s')
        \<and> relinked (s1 good) s' (set zs) \<and> resp_chain s' good' (rev (filter (\<lambda>r. \<not> waits_for (s1 good) d r) zs) @ z # gs)
        \<and> resp_chain s' bad' (rev (filter (waits_for (s1 good) d) zs) @ bs)"
      using Cons.prems z keep push by (intro Cons.IH) (auto simp: disjoint_iff)
    with False show ?thesis
      unfolding w using z(1,2) relinked_trans [OF rl [of good]]
      by (subst eb_socket_filter_inflight.simps) (auto simp: Let_def s1_def)
  qed
qed

lemma flip_relinked:
  assumes "resp_chain s p xs"
  shows "\<exists>r s'. eb_response_flip p s = Some (r, s') \<and> resp_chain s' r (rev xs) \<and> relinked s s' (set xs)"
proof -
  from assms obtain h r where "rev_links res_next (\<lambda>v. res_next_update (\<lambda>_. v)) EB_NULL (heap_response s) EB_NULL p = Some (h, r)"
    "chain (\<lambda>a. res_next (h a)) EB_NULL r (rev xs)" "\<And>a. a \<notin> set xs \<Longrightarrow> h a = heap_response s a"
    "\<And>a. \<exists>v. h a = res_next_update (\<lambda>_. v) (heap_response s a)"
    unfolding resp_chain_def by (rule response_list.rev_links_rev) blast
  then show ?thesis by (auto simp: eb_response_flip_def relinked_def same_responses_def resp_chain_def)
qed

lemma resp_chain_relinked: "relinked s s' A \<Longrightarrow> set xs \<inter> A = {} \<Longrightarrow> resp_chain s' p xs \<longleftrightarrow> resp_chain s p xs"
  by (rule resp_chain_cong) (auto simp: relinked_def disjoint_iff)

lemma relinked_socket: "relinked s s' A \<Longrightarrow> heap_socket s' = heap_socket s"
  by (auto simp: relinked_def)

lemma split_inflight_queue:
  assumes "response_queue s k q"
  shows "\<exists>bad s'. split_inflight k d s = Some (bad, s') \<and> response_queue s' k (filter (\<lambda>r. \<not> waits_for s d r) q)
    \<and> resp_chain s' bad (filter (waits_for s d) q) \<and> same_responses s s'"
proof -
  obtain xs ys where ls: "resp_chain s (sock_first_response (heap_socket s k)) xs"
    "resp_chain s (sock_last_response (heap_socket s k)) ys" "set xs \<inter> set ys = {}" and q: "q = xs @ rev ys"
    using assms by (auto simp: response_queue_def response_lists_def)
  have nil: "resp_chain s EB_NULL []" by (simp add: resp_chain_def)
  obtain g b s1 where f1: "eb_socket_filter_inflight EB_NULL EB_NULL d (sock_last_response (heap_socket s k)) s = Some (g, b, s1)"
    "relinked s s1 (set ys)" "resp_chain s1 g (rev (filter (\<lambda>r. \<not> waits_for s d r) ys))"
    "resp_chain s1 b (rev (filter (waits_for s d) ys))"
    using filter_inflight [OF ls(2) nil nil, of d] by auto
  have "resp_chain s1 (sock_first_response (heap_socket s1 k)) xs"
    using ls(1,3) resp_chain_relinked [OF f1(2)] relinked_socket [OF f1(2)] by simp
  then obtain r s2 where f2: "eb_response_flip (sock_first_response (heap_socket s1 k)) s1 = Some (r, s2)"
    "resp_chain s2 r (rev xs)" "relinked s1 s2 (set xs)" using flip_relinked by blast
  have w: "waits_for s2 d r = waits_for s d r" for r
    using relinked_waits [OF f1(2)] relinked_waits [OF f2(3)] by simp
  have g2: "resp_chain s2 g (rev (filter (\<lambda>r. \<not> waits_for s d r) ys))" "resp_chain s2 b (rev (filter (waits_for s d) ys))"
    using f1(3,4) ls(3) by (subst resp_chain_relinked [OF f2(3)]; auto)+
  obtain good bad s3 where f3: "eb_socket_filter_inflight g b d r s2 = Some (good, bad, s3)" "relinked s2 s3 (set (rev xs))"
    "resp_chain s3 good (rev (filter (\<lambda>r. \<not> waits_for s d r) (rev xs)) @ rev (filter (\<lambda>r. \<not> waits_for s d r) ys))"
    "resp_chain s3 bad (rev (filter (waits_for s d) (rev xs)) @ rev (filter (waits_for s d) ys))"
    using filter_inflight [OF f2(2) g2, of d] ls(3) unfolding w by auto
  let ?s = "upd_socket k (\<lambda>k. k\<lparr>sock_first_response := good, sock_last_response := EB_NULL\<rparr>) s3"
  have "split_inflight k d s = Some (bad, ?s)"
    using f1(1) f2(1) f3(1) by (simp add: split_inflight_def)
  moreover have "response_lists ?s k (filter (\<lambda>r. \<not> waits_for s d r) q) []"
    using f3(3) by (simp add: response_lists_def resp_chain_def q rev_filter)
  moreover have "same_responses s ?s"
  proof -
    have "same_responses s s3" using f1(2) f2(3) f3(2) by (meson relinked_def same_responses_trans)
    then show ?thesis by (simp add: same_responses_def)
  qed
  ultimately show ?thesis
    using f3(4) response_queueI [of ?s k _ "[]"] by (intro exI [of _ bad] exI [of _ ?s]) (simp add: q rev_filter)
qed

section \<open>Properties\<close>

text \<open>C13: The two lists of a socket are one FIFO queue of responses. A flush appends; a search finds the oldest
  response with the address of the answer, whichever list it is in, without changing the queue; taking it out
  leaves the others in order; and the next deadline is that of the oldest response.\<close>

theorem response_queue_refinement:
  assumes "response_queue s k q"
  shows "(r \<notin> set q \<and> r \<noteq> EB_NULL \<and> queue_response k r c needs_check s = Some s1 \<longrightarrow> response_queue s1 k (q @ [r]))
    \<and> (\<exists>res s2. find_response k key None s = Some (res, s2) \<and> response_queue s2 k q
        \<and> map_option snd res = find (\<lambda>a. res_address (heap_response s a) = key) q
        \<and> (\<forall>pp p. res = Some (pp, p) \<longrightarrow> response_queue (set_pp k pp (res_next (heap_response s2 p)) s2) k (remove1 p q)))
    \<and> (\<exists>s3. eb_socket_timeout k s = Some (case q of [] \<Rightarrow> 0 | r # _ \<Rightarrow> deadline_of (res_deadline (heap_response s r))
              (aux_time_cache (heap_socket_aux s (sock_aux (heap_socket s k)))), s3) \<and> response_queue s3 k q)"
  using queue_response_push(1) [OF assms, of r c needs_check s1] eb_socket_timeout_queue [OF assms]
    socket_queue.search_first [OF assms, of key] socket_queue.unlink_found [OF assms, of key]
  unfolding unlink_response_def by blast

text \<open>Socket 5 with the queue 10, 11, 12, the last two in the second list.\<close>

definition example_queue :: "unit eb_state" where
  "example_queue = (eb_state0 ())\<lparr>
     heap_socket := (\<lambda>_. \<lparr>sock_first_device = EB_NULL, sock_first_handler = EB_NULL, sock_first_response = 10,
       sock_last_response = 12, sock_aux = 6, sock_widths = 0xFF\<rparr>),
     heap_response := (\<lambda>r. \<lparr>res_address = 2 * r, res_deadline = 0x1005, res_next = (if r = 12 then 11 else EB_NULL),
       res_cycle = r + 10, res_write_cursor = EB_NULL, res_status_cursor = EB_NULL\<rparr>),
     heap_cycle := (\<lambda>c. \<lparr>cyc_callback = Eb_user_callback 0, cyc_user_data = 0, cyc_ops = EB_NULL,
       cyc_link = (if c = 21 then 31 else 30)\<rparr>),
     heap_socket_aux := (\<lambda>_. \<lparr>aux_sdb_offset = 0, aux_time_cache = 0x51000, aux_rba = 0x8000, aux_first_transport = EB_NULL\<rparr>)\<rparr>"

lemma example_queue: "response_queue example_queue 5 [10, 11, 12]"
proof (rule response_queueI)
  show "response_lists example_queue 5 [10] [12, 11]"
    by (simp add: response_lists_def resp_chain_def) (simp add: example_queue_def)
qed simp

theorem response_queue_refinement_witness:
  "\<exists>pp s2. find_response 5 22 None example_queue = Some (Some (pp, 11), s2) \<and> response_queue s2 5 [10, 11, 12]
     \<and> response_queue (set_pp 5 pp (res_next (heap_response s2 11)) s2) 5 [10, 12]"
proof -
  obtain res s2 where f: "find_response 5 22 None example_queue = Some (res, s2)" "response_queue s2 5 [10, 11, 12]"
    "map_option snd res = find (\<lambda>a. res_address (heap_response example_queue a) = 22) [10, 11, 12]"
    "\<forall>pp p. res = Some (pp, p) \<longrightarrow> response_queue (set_pp 5 pp (res_next (heap_response s2 p)) s2) 5 (remove1 p [10, 11, 12])"
    using response_queue_refinement [OF example_queue, of 0 0 False undefined 22] by blast
  have "map_option snd res = Some 11" unfolding f(3) by (simp add: example_queue_def)
  then obtain pp where "res = Some (pp, 11)" by (cases res) auto
  with f show ?thesis by auto
qed

text \<open>Closing a device takes exactly its responses out of the queue: the ones that wait for other devices stay, in
  their order, and the ones taken out are linked in their order, so that their cycles are answered oldest first.\<close>

theorem split_inflight_partition:
  assumes "response_queue s k q"
  shows "\<exists>bad s'. split_inflight k d s = Some (bad, s')
    \<and> response_queue s' k (filter (\<lambda>r. cyc_link (heap_cycle s (res_cycle (heap_response s r))) \<noteq> d) q)
    \<and> resp_chain s' bad (filter (\<lambda>r. cyc_link (heap_cycle s (res_cycle (heap_response s r))) = d) q)"
  using split_inflight_queue [OF assms] by blast

theorem split_inflight_partition_witness:
  "\<exists>bad s'. split_inflight 5 31 example_queue = Some (bad, s') \<and> response_queue s' 5 [10, 12] \<and> resp_chain s' bad [11]"
proof -
  have "filter (\<lambda>r. cyc_link (heap_cycle example_queue (res_cycle (heap_response example_queue r))) \<noteq> 31) [10, 11, 12] = [10, 12]"
    "filter (\<lambda>r. cyc_link (heap_cycle example_queue (res_cycle (heap_response example_queue r))) = 31) [10, 11, 12] = [11]"
    by (simp_all add: example_queue_def)
  with split_inflight_partition [OF example_queue, of 31] show ?thesis by simp
qed

lemma scast_ucast_16:
  fixes x :: uint32
  assumes "- (2 ^ 15) \<le> sint x" and "sint x < 2 ^ 15"
  shows "scast (ucast x :: uint16) = x"
proof -
  have "sint (ucast x :: uint16) = signed_take_bit 15 (sint x)"
    by transfer (rule bit_eqI, auto simp: bit_simps)
  also have "\<dots> = sint x" using assms by (intro signed_take_bit_int_eq_self) simp_all
  finally show ?thesis by (simp add: scast_eq)
qed

lemma take_bit_16_diff: "take_bit 16 (take_bit 32 a - take_bit 32 b) = take_bit 16 (a - b)"
  for a b :: int
proof -
  have "take_bit 16 (take_bit 16 (take_bit 32 a) - take_bit 16 (take_bit 32 b))
    = take_bit 16 (take_bit 16 a - take_bit 16 b)" by simp
  then show ?thesis by (simp only: take_bit_diff)
qed

lemma ucast_diff_16: "ucast d - ucast t = (ucast (d - t :: uint32) :: uint16)"
  by transfer (simp add: take_bit_16_diff)

text \<open>The 16 bits in which a deadline is stored are enough. If the oldest response was given the deadline \<open>d\<close> and
  the time cache is within \<open>2\<^sup>1\<^sup>5\<close> seconds of it, before or after, then \<^verbatim>\<open>eb_socket_timeout\<close> returns exactly \<open>d\<close>,
  also when the 32-bit clock wraps around in between.\<close>

theorem eb_socket_timeout_exact:
  assumes "response_queue s k (r # q)" and "res_deadline (heap_response s r) = ucast d"
    and "t = aux_time_cache (heap_socket_aux s (sock_aux (heap_socket s k)))"
    and "- (2 ^ 15) \<le> sint (d - t)" and "sint (d - t) < 2 ^ 15"
  shows "\<exists>s'. eb_socket_timeout k s = Some (d, s')"
proof -
  have "deadline_of (ucast d) t = d"
    using scast_ucast_16 [OF assms(4,5)] ucast_diff_16 [of d t] by (simp add: deadline_of_def Let_def)
  with eb_socket_timeout_queue [OF assms(1)] assms(2,3) show ?thesis by auto
qed

theorem eb_socket_timeout_exact_witness:
  "\<exists>s'. eb_socket_timeout 5 example_queue = Some (0x51005, s')"
  by (rule eb_socket_timeout_exact [OF example_queue, of "0x51005" "0x51000"]) (simp_all add: example_queue_def)

end
