(* ===== verification/EB_Answers.thy ===== *)
theory EB_Answers
  imports EB_Select EB_Queue
begin

text \<open>
  What the master does with the answers of the slave (\<^verbatim>\<open>eb_socket_write_config\<close>): the values go to the reads of
  the cycle in the order in which they were requested, and the error register, read back at the end, marks
  exactly the operations that failed on the slave's bus.
\<close>

unbundle bit_operations_syntax

section \<open>The error register\<close>

text \<open>The slave shifts one bit per bus operation into the register, so the last operation is in bit 0.\<close>

lemma bit_shift_error: "bit (shift_error error fail) i \<longleftrightarrow> (if i = 0 then fail else i < 64 \<and> bit error (i - 1))"
  unfolding shift_error_def bit_or_iff bit_push_bit_iff by (auto simp: bit_1_iff)

lemma bit_foldl_shift_error:
  "i < 64 \<Longrightarrow> bit (foldl shift_error error fails) i \<longleftrightarrow>
     (if i < length fails then rev fails ! i else bit error (i - length fails))"
proof (induction fails arbitrary: i rule: rev_induct)
  case Nil
  then show ?case by simp
next
  case (snoc f fails)
  then show ?case by (cases i) (simp_all add: bit_shift_error)
qed

text \<open>The address the master asks for is the low end of the register.\<close>

lemma drop_be_bytes: "m \<le> n \<Longrightarrow> drop (n - m) (be_bytes n v) = be_bytes m v"
proof (induction n)
  case 0
  then show ?case by simp
next
  case (Suc n)
  then show ?case by (cases "m = Suc n") (simp_all add: Suc_diff_le)
qed

lemma read_error_register:
  assumes "is_width data" and "widths AND EB_DATAX = data"
  shows "eb_socket_read_config k widths (8 - ucast data) error s = Some (take_bit (8 * unat data) error)"
proof -
  have "data \<le> 8" using assms(1) by auto
  then have len: "unat data \<le> 8" by (simp add: word_le_nat_alt)
  have addr: "unat (8 - ucast data :: uint64) = 8 - unat data" "\<not> (16 :: uint64) \<le> 8 - ucast data"
    using assms(1) by auto
  have "take (unat data) (drop (8 - unat data) (config_space error sdb)) = be_bytes (unat data) error" for sdb
    using len drop_be_bytes [of "unat data" 8 error] by (simp add: config_space_def)
  then show ?thesis
    using addr len by (simp add: eb_socket_read_config_def Let_def assms(2) of_be_be_bytes)
qed

section \<open>Marking the operations\<close>

abbreviation bus_op :: "'w eb_state \<Rightarrow> eb_ptr \<Rightarrow> bool" where
  "bus_op s p \<equiv> op_flags (heap_operation s p) AND EB_OP_CFG_SPACE = 0"

lemma count_status_gen:
  "ops < maxops \<Longrightarrow> count_status maxops ops ps s = min maxops (ops + length (filter (bus_op s) ps))"
  by (induction ps arbitrary: ops) (auto simp: min_def)

lemma cfg_error_flag:
  "(f OR (if b then EB_OP_ERROR else 0)) AND EB_OP_CFG_SPACE = f AND EB_OP_CFG_SPACE"
  for f :: eb_operation_flags_t
  by (simp add: bit.conj_disj_distrib2)

text \<open>Marking changes the flags of the first \<open>n\<close> bus operations and stops behind the last of them.\<close>

definition marked :: "nat \<Rightarrow> eb_data_t \<Rightarrow> eb_ptr list \<Rightarrow> 'w eb_state \<Rightarrow> 'w eb_state \<Rightarrow> bool" where
  "marked n v bus s s' \<longleftrightarrow> (\<exists>h. s' = s\<lparr>heap_operation := h\<rparr>
     \<and> (\<forall>j < n. h (bus ! j) = (heap_operation s (bus ! j))\<lparr>op_flags :=
           op_flags (heap_operation s (bus ! j)) OR (if bit v (n - Suc j) then EB_OP_ERROR else 0)\<rparr>)
     \<and> (\<forall>p. p \<notin> set (take n bus) \<longrightarrow> h p = heap_operation s p))"

lemma mark_status_marked:
  assumes "distinct ps" and "n \<le> length (filter (bus_op s) ps)"
  shows "\<exists>us rest s'. mark_status n v ps s = (rest, s') \<and> ps = us @ rest \<and> filter (bus_op s) us = take n (filter (bus_op s) ps)
    \<and> marked n v (filter (bus_op s) ps) s s'"
  using assms
proof (induction n v ps s rule: mark_status.induct)
  case (1 v ps s)
  have "marked 0 v (filter (bus_op s) ps) s s" by (auto simp: marked_def intro: exI [of _ "heap_operation s"])
  then show ?case by (intro exI [of _ "[]"] exI [of _ ps] exI [of _ s]) simp
next
  case (2 i v s)
  then show ?case by simp
next
  case (3 i v p ps s)
  show ?case
  proof (cases "bus_op s p")
    case False
    have "\<exists>us rest s'. mark_status (Suc i) v ps s = (rest, s') \<and> ps = us @ rest
        \<and> filter (bus_op s) us = take (Suc i) (filter (bus_op s) ps) \<and> marked (Suc i) v (filter (bus_op s) ps) s s'"
      by (rule 3(1)) (use False 3(3,4) in simp_all)
    then obtain us rest s' where "mark_status (Suc i) v ps s = (rest, s')" "ps = us @ rest"
      "filter (bus_op s) us = take (Suc i) (filter (bus_op s) ps)" "marked (Suc i) v (filter (bus_op s) ps) s s'" by blast
    with False show ?thesis by (intro exI [of _ "p # us"] exI [of _ rest] exI [of _ s']) simp
  next
    case True
    let ?s = "upd_operation p (\<lambda>op. op\<lparr>op_flags := op_flags op OR (if bit v i then EB_OP_ERROR else 0)\<rparr>) s"
    have same: "bus_op ?s q = bus_op s q" for q by (simp add: upd_operation_def cfg_error_flag)
    then have "filter (bus_op ?s) = filter (bus_op s)" by (simp add: fun_eq_iff cong: filter_cong)
    note f = fun_cong [OF this]
    obtain us rest s' where r: "mark_status i v ps ?s = (rest, s')" "ps = us @ rest"
      "filter (bus_op s) us = take i (filter (bus_op s) ps)" "marked i v (filter (bus_op s) ps) ?s s'"
    proof -
      have i: "i \<le> length (filter (bus_op ?s) ps)" unfolding f using 3(4) True by simp
      have "\<exists>us rest s'. mark_status i v ps ?s = (rest, s') \<and> ps = us @ rest
        \<and> filter (bus_op ?s) us = take i (filter (bus_op ?s) ps) \<and> marked i v (filter (bus_op ?s) ps) ?s s'"
        by (rule 3(2) [OF _ _ i]) (use True 3(3) in simp_all)
      with that show thesis unfolding f by blast
    qed
    obtain h where h: "s' = ?s\<lparr>heap_operation := h\<rparr>"
      "\<forall>j < i. h (filter (bus_op s) ps ! j) = (heap_operation ?s (filter (bus_op s) ps ! j))\<lparr>op_flags :=
         op_flags (heap_operation ?s (filter (bus_op s) ps ! j)) OR (if bit v (i - Suc j) then EB_OP_ERROR else 0)\<rparr>"
      "\<forall>q. q \<notin> set (take i (filter (bus_op s) ps)) \<longrightarrow> h q = heap_operation ?s q"
      using r(4) unfolding marked_def by blast
    have p: "p \<notin> set (filter (bus_op s) ps)" using 3(3) by simp
    then have "h p = heap_operation ?s p" using h(3) by (meson in_set_takeD)
    moreover have "filter (bus_op s) ps ! j \<noteq> p" if "j < i" for j
    proof -
      have "filter (bus_op s) ps ! j \<in> set (filter (bus_op s) ps)" using 3(4) that True by (intro nth_mem) simp
      with p show ?thesis by metis
    qed
    ultimately have "marked (Suc i) v (p # filter (bus_op s) ps) s s'"
      unfolding marked_def All_less_Suc2 using h
      by (intro exI [of _ h] conjI) (simp_all add: upd_operation_def)
    with True r show ?thesis by (intro exI [of _ "p # us"] exI [of _ rest] exI [of _ s']) simp
  qed
qed

abbreviation first_of :: "eb_ptr list \<Rightarrow> eb_ptr" where
  "first_of ps \<equiv> (case ps of [] \<Rightarrow> EB_NULL | p # _ \<Rightarrow> p)"

lemma op_chain_suffix:
  assumes "op_chain s i (us @ ds)"
  shows "op_chain s (first_of ds) ds"
  using assms chain_suffix [of _ EB_NULL i us] by (cases ds) (auto simp: op_chain_def)

lemma eb_find_bus_chain: "op_chain s i ps \<Longrightarrow> eb_find_bus i s = Some (first_of (filter (bus_op s) ps))"
proof (induction ps arbitrary: i)
  case Nil
  then show ?case by (simp add: op_chain_def eb_find_bus.simps)
next
  case (Cons p ps)
  then show ?case by (subst eb_find_bus.simps) (simp add: Let_def)
qed

lemma eb_find_read_chain:
  "op_chain s i ps \<Longrightarrow> eb_find_read i s =
     Some (first_of (dropWhile (\<lambda>p. op_flags (heap_operation s p) AND EB_OP_MASK = EB_OP_WRITE) ps))"
proof (induction ps arbitrary: i)
  case Nil
  then show ?case by (simp add: op_chain_def eb_find_read.simps)
next
  case (Cons p ps)
  then show ?case by (subst eb_find_read.simps) (simp add: Let_def)
qed

text \<open>C4: The error flags survive the round trip. The slave shifts the outcome of each bus operation into its error
  register; the master reads the register at the address and width of its device and marks the operations that
  wait for it. If there are no more of them than the register read has bits, exactly the operations that failed
  on the slave have an error afterwards, in the order of the cycle.\<close>

theorem error_flags_roundtrip:
  assumes ops: "op_chain s (res_status_cursor (heap_response s r)) ps" and bus: "bus = filter (bus_op s) ps" "bus \<noteq> []"
    and fits: "is_width data" "widths AND EB_DATAX = data" "length bus \<le> 8 * unat data"
    and clean: "\<forall>p \<in> set bus. \<not> eb_operation_had_error p s" and fails: "length fails = length bus"
    and read: "eb_socket_read_config k widths (8 - ucast data) (foldl shift_error error fails) t = Some v"
  shows "\<exists>s'. response_status r widths v s = Some (False, s')
    \<and> (\<forall>j < length bus. eb_operation_had_error (bus ! j) s' \<longleftrightarrow> fails ! j)
    \<and> (\<forall>p. p \<notin> set bus \<longrightarrow> heap_operation s' p = heap_operation s p)"
proof -
  let ?n = "length bus"
  have d: "distinct ps" using ops unfolding op_chain_def by (rule chain_distinct)
  have "data \<le> 8" using fits(1) by auto
  then have n: "0 < ?n" "?n \<le> 64" using bus(2) fits(3) by (auto simp: word_le_nat_alt)
  have v: "bit v i = rev fails ! i" if "i < ?n" for i
    using read read_error_register [OF fits(1,2), of k "foldl shift_error error fails" t] that n fits(3) fails
    by (auto simp: bit_take_bit_iff bit_foldl_shift_error)
  have count: "count_status (unat (widths AND EB_DATAX) * 8) 0 ps s = ?n"
    using count_status_gen [of 0 "unat data * 8" ps s] n fits(2,3) bus(1) by (simp add: mult.commute)
  obtain us rest s1 where m: "mark_status ?n v ps s = (rest, s1)" "ps = us @ rest" "marked ?n v bus s s1"
    using mark_status_marked [OF d, of ?n s v, folded bus(1)] by blast
  obtain h where h: "s1 = s\<lparr>heap_operation := h\<rparr>"
    "\<forall>j < ?n. h (bus ! j) = (heap_operation s (bus ! j))\<lparr>op_flags := op_flags (heap_operation s (bus ! j))
       OR (if bit v (?n - Suc j) then EB_OP_ERROR else 0)\<rparr>" "\<forall>p. p \<notin> set (take ?n bus) \<longrightarrow> h p = heap_operation s p"
    using m(3) unfolding marked_def by blast
  have "op_next (h p) = op_next (heap_operation s p)" for p
    using h(2,3) by (cases "p \<in> set bus") (auto simp: in_set_conv_nth)
  moreover have "op_chain s (first_of rest) rest" using ops unfolding m(2) by (rule op_chain_suffix)
  ultimately have "op_chain s1 (first_of rest) rest" by (subst op_chain_cong [of _ _ s]) (simp_all add: h(1))
  then obtain c where "eb_find_bus (first_of rest) s1 = Some c" using eb_find_bus_chain by blast
  then have "response_status r widths v s = Some (False, upd_response r (\<lambda>q. q\<lparr>res_status_cursor := c\<rparr>) s1)"
    using ops n(1) unfolding response_status_def op_chain_def
    by (simp add: walk_chain count m(1) Let_def)
  moreover have "bit v (?n - Suc j) \<longleftrightarrow> fails ! j" if "j < ?n" for j
    using v [of "?n - Suc j"] that fails by (simp add: rev_nth)
  ultimately show ?thesis
    using h clean by (intro exI [of _ "upd_response r (\<lambda>q. q\<lparr>res_status_cursor := c\<rparr>) s1"])
      (auto simp: eb_operation_had_error_def bit.conj_disj_distrib2)
qed

text \<open>Two operations of which the second failed.\<close>

definition example_flight :: "unit eb_state" where
  "example_flight = (eb_state0 ())\<lparr>
     heap_socket := (\<lambda>_. \<lparr>sock_first_device = EB_NULL, sock_first_handler = EB_NULL, sock_first_response = 10,
       sock_last_response = EB_NULL, sock_aux = 6, sock_widths = 0xFF\<rparr>),
     heap_response := (\<lambda>_. \<lparr>res_address = 0x8000, res_deadline = 5, res_next = EB_NULL, res_cycle = 15,
       res_write_cursor = 20, res_status_cursor = 20\<rparr>),
     heap_cycle := (\<lambda>_. \<lparr>cyc_callback = Eb_user_callback 0, cyc_user_data = 0, cyc_ops = 20, cyc_link = 30\<rparr>),
     heap_operation := (\<lambda>p. \<lparr>op_address = 0x100, op_value = 0, op_flags = EB_OP_READ_VAL, op_format = 0x24,
       op_next = (if p = 20 then 21 else EB_NULL)\<rparr>)\<rparr>"

lemma example_flight_ops: "op_chain example_flight 20 [20, 21]"
  by (simp add: op_chain_def example_flight_def)

theorem error_flags_roundtrip_witness:
  "\<exists>s'. response_status 10 0x44 1 example_flight = Some (False, s')
     \<and> \<not> eb_operation_had_error 20 s' \<and> eb_operation_had_error 21 s'"
proof -
  have "\<exists>s'. response_status 10 0x44 1 example_flight = Some (False, s')
    \<and> (\<forall>j < length [20, 21 :: eb_ptr]. eb_operation_had_error ([20, 21] ! j) s' \<longleftrightarrow> [False, True] ! j)
    \<and> (\<forall>p. p \<notin> set [20, 21] \<longrightarrow> heap_operation s' p = heap_operation example_flight p)"
  proof (rule error_flags_roundtrip [where data = 4 and error = 0 and k = 5 and t = example_flight])
    show "op_chain example_flight (res_status_cursor (heap_response example_flight 10)) [20, 21]"
      using example_flight_ops by (simp add: example_flight_def)
    show "eb_socket_read_config 5 0x44 (8 - ucast (4 :: uint8)) (foldl shift_error 0 [False, True]) example_flight = Some 1"
      by (subst read_error_register) (simp_all add: shift_error_def)
  qed (simp_all add: example_flight_def eb_operation_had_error_def)
  then show ?thesis by (auto simp: less_Suc_eq)
qed

section \<open>Values\<close>

abbreviation read_op :: "'w eb_state \<Rightarrow> eb_ptr \<Rightarrow> bool" where
  "read_op s p \<equiv> op_flags (heap_operation s p) AND EB_OP_MASK \<noteq> EB_OP_WRITE"

abbreviation ptr_op :: "'w eb_state \<Rightarrow> eb_ptr \<Rightarrow> bool" where
  "ptr_op s p \<equiv> op_flags (heap_operation s p) AND EB_OP_MASK = EB_OP_READ_PTR"

text \<open>The reads the response \<open>r\<close> still waits for.\<close>

definition waiting_reads :: "'w eb_state \<Rightarrow> eb_ptr \<Rightarrow> eb_ptr list \<Rightarrow> bool" where
  "waiting_reads s r ps \<longleftrightarrow> (\<exists>ops. op_chain s (res_write_cursor (heap_response s r)) ops
     \<and> dropWhile (\<lambda>p. \<not> read_op s p) ops = ops \<and> ps = filter (read_op s) ops)"

text \<open>A value arrives for the read \<open>p\<close>.\<close>

definition deliver :: "eb_ptr \<Rightarrow> eb_data_t \<Rightarrow> 'w eb_state \<Rightarrow> 'w eb_state" where
  "deliver p v s =
     (if ptr_op s p then s\<lparr>user_data_mem := (user_data_mem s)(op_value (heap_operation s p) := v)\<rparr>
      else upd_operation p (\<lambda>op. op\<lparr>op_value := v\<rparr>) s)"

lemma deliver_op [simp]:
  "op_next (heap_operation (deliver p v s) a) = op_next (heap_operation s a)"
  "op_flags (heap_operation (deliver p v s) a) = op_flags (heap_operation s a)"
  "a \<noteq> p \<Longrightarrow> heap_operation (deliver p v s) a = heap_operation s a"
  "heap_response (deliver p v s) = heap_response s" "heap_socket (deliver p v s) = heap_socket s"
  "heap_cycle (deliver p v s) = heap_cycle s"
  by (simp_all add: deliver_def)

text \<open>The search for a response only relinks the two lists.\<close>

definition same_but_queue :: "'w eb_state \<Rightarrow> 'w eb_state \<Rightarrow> bool" where
  "same_but_queue s s' \<longleftrightarrow> (\<exists>h f. s' = s\<lparr>heap_response := h, heap_socket := f\<rparr>
     \<and> (\<forall>j. \<exists>a b. f j = (heap_socket s j)\<lparr>sock_first_response := a, sock_last_response := b\<rparr>))"

lemma same_but_queueI:
  assumes "\<And>j. \<exists>a b. f j = (heap_socket s j)\<lparr>sock_first_response := a, sock_last_response := b\<rparr>"
  shows "same_but_queue s (s\<lparr>heap_response := h, heap_socket := f\<rparr>)"
  using assms unfolding same_but_queue_def by blast

lemma same_but_queue_refl [simp]: "same_but_queue s s"
proof -
  have "same_but_queue s (s\<lparr>heap_response := heap_response s, heap_socket := heap_socket s\<rparr>)"
    by (rule same_but_queueI) (metis eb_socket.surjective eb_socket.update_convs(3,4))
  then show ?thesis by simp
qed

lemma same_but_queue_trans:
  assumes "same_but_queue s s1" and "same_but_queue s1 s2"
  shows "same_but_queue s s2"
proof -
  obtain h f h' f' where e: "s1 = s\<lparr>heap_response := h, heap_socket := f\<rparr>" "s2 = s1\<lparr>heap_response := h', heap_socket := f'\<rparr>"
    and f: "\<And>j. \<exists>a b. f j = (heap_socket s j)\<lparr>sock_first_response := a, sock_last_response := b\<rparr>"
    and f': "\<And>j. \<exists>a b. f' j = (heap_socket s1 j)\<lparr>sock_first_response := a, sock_last_response := b\<rparr>"
    using assms unfolding same_but_queue_def by blast
  have "same_but_queue s (s\<lparr>heap_response := h', heap_socket := f'\<rparr>)"
  proof (rule same_but_queueI)
    fix j
    obtain a b where "f j = (heap_socket s j)\<lparr>sock_first_response := a, sock_last_response := b\<rparr>" using f by blast
    moreover obtain c d where "f' j = (heap_socket s1 j)\<lparr>sock_first_response := c, sock_last_response := d\<rparr>" using f' by blast
    ultimately show "\<exists>a b. f' j = (heap_socket s j)\<lparr>sock_first_response := a, sock_last_response := b\<rparr>"
      by (simp add: e(1)) blast
  qed
  then show ?thesis by (simp add: e)
qed

lemma same_but_queue_step:
  "same_but_queue s (s\<lparr>heap_response := h\<rparr>)" "same_but_queue s (set_pp k pp v s)"
  "same_but_queue s (upd_socket k (\<lambda>q. q\<lparr>sock_last_response := v\<rparr>) s)"
proof -
  have same: "\<exists>a b. x = (x :: eb_socket)\<lparr>sock_first_response := a, sock_last_response := b\<rparr>" for x
    by (metis eb_socket.surjective eb_socket.update_convs(3,4))
  have first: "\<exists>b. x\<lparr>sock_first_response := c\<rparr> = (x :: eb_socket)\<lparr>sock_first_response := c, sock_last_response := b\<rparr>" for x c
    by (metis eb_socket.surjective eb_socket.update_convs(3,4))
  have last: "\<exists>a. x\<lparr>sock_last_response := c\<rparr> = (x :: eb_socket)\<lparr>sock_first_response := a, sock_last_response := c\<rparr>" for x c
    by (metis eb_socket.surjective eb_socket.update_convs(3,4))
  have "same_but_queue s (s\<lparr>heap_response := h, heap_socket := heap_socket s\<rparr>)" for h by (rule same_but_queueI [OF same])
  then show 1: "same_but_queue s (s\<lparr>heap_response := h\<rparr>)" for h by simp
  have upd: "same_but_queue s (upd_socket k f s)"
    if "\<exists>a b. f (heap_socket s k) = (heap_socket s k)\<lparr>sock_first_response := a, sock_last_response := b\<rparr>" for f
  proof -
    have "same_but_queue s (s\<lparr>heap_response := heap_response s, heap_socket := (heap_socket s)(k := f (heap_socket s k))\<rparr>)"
      by (rule same_but_queueI) (use that same in \<open>simp add: fun_upd_def\<close>)
    then show ?thesis by (simp add: upd_socket_def)
  qed
  show "same_but_queue s (upd_socket k (\<lambda>q. q\<lparr>sock_last_response := v\<rparr>) s)" by (rule upd) (use last in blast)
  show "same_but_queue s (set_pp k pp v s)"
  proof (cases pp)
    case None
    then show ?thesis by (simp only: set_pp_def option.case) (rule upd, use first in blast)
  next
    case (Some a)
    then show ?thesis by (simp only: set_pp_def option.case upd_response_def) (rule 1)
  qed
qed

lemma find_response_frame:
  "find_response k key pp s = Some r \<Longrightarrow> same_but_queue s (snd r)"
proof (induction rule: find_response.raw_induct [rotated, consumes 1, case_names step])
  case (step f k key pp s r)
  let ?flip = "eb_response_flip (sock_last_response (heap_socket s k)) s"
  show ?case
  proof (cases "get_pp k pp s = EB_NULL")
    case False
    then have "(if res_address (heap_response s (get_pp k pp s)) = key then Some (Some (pp, get_pp k pp s), s)
        else f k key (Some (get_pp k pp s)) s) = Some r" using step(2) by simp
    with step.IH [of k key "Some (get_pp k pp s)" s r] show ?thesis by (auto split: if_splits)
  next
    case True
    with step(2) obtain x s1 where x: "?flip = Some (x, s1)" by (cases ?flip) auto
    define s2 where "s2 = upd_socket k (\<lambda>q. q\<lparr>sock_last_response := EB_NULL\<rparr>) (set_pp k pp x s1)"
    have "same_but_queue s s1"
      using x same_but_queue_step(1) by (auto simp: eb_response_flip_def split: Option.bind_splits)
    then have s2: "same_but_queue s s2" unfolding s2_def
      by (rule same_but_queue_trans [OF same_but_queue_trans [OF _ same_but_queue_step(2)] same_but_queue_step(3)])
    have "(if x = EB_NULL then Some (None, s2)
          else if res_address (heap_response s2 x) = key then Some (Some (pp, x), s2) else f k key (Some x) s2) = Some r"
      using step(2) True x unfolding s2_def by (cases "x = EB_NULL") (simp_all add: Let_def)
    with s2 step.IH [of k key "Some x" s2 r] same_but_queue_trans [OF s2] show ?thesis by (auto split: if_splits)
  qed
qed

text \<open>A value for the next read, up to the test whether the cycle is complete.\<close>

lemma waiting_reads_cong:
  assumes "res_write_cursor (heap_response s' r) = res_write_cursor (heap_response s r)"
    and "heap_operation s' = heap_operation s"
  shows "waiting_reads s' r ps \<longleftrightarrow> waiting_reads s r ps"
  unfolding waiting_reads_def op_chain_def assms ..

lemma dropWhile_fixed: "dropWhile P (x # xs) = x # xs \<longleftrightarrow> \<not> P x"
  using length_dropWhile_le [of P xs] by auto

lemma response_value_next:
  assumes "waiting_reads s r (p # ps)"
  shows "\<exists>c. response_value r v s = Some (False, upd_response r (\<lambda>q. q\<lparr>res_write_cursor := c\<rparr>) (deliver p v s))
    \<and> waiting_reads (upd_response r (\<lambda>q. q\<lparr>res_write_cursor := c\<rparr>) (deliver p v s)) r ps \<and> (c = EB_NULL \<longleftrightarrow> ps = [])"
proof -
  obtain ops where ops: "op_chain s (res_write_cursor (heap_response s r)) ops"
    "dropWhile (\<lambda>p. \<not> read_op s p) ops = ops" "p # ps = filter (read_op s) ops"
    using assms by (auto simp: waiting_reads_def)
  then obtain qs where qs: "ops = p # qs" "read_op s p" "ps = filter (read_op s) qs"
    by (cases ops) (auto simp: dropWhile_fixed simp del: dropWhile.simps)
  let ?c = "first_of (dropWhile (\<lambda>p. \<not> read_op s p) qs)"
  have c: "res_write_cursor (heap_response s r) = p" "p \<noteq> EB_NULL" "op_chain s (op_next (heap_operation s p)) qs"
    using ops(1) qs(1) by auto
  then have "op_chain (deliver p v s) (op_next (heap_operation s p)) qs" by (subst op_chain_cong) auto
  from eb_find_read_chain [OF this]
  have find: "eb_find_read (op_next (heap_operation s p)) (deliver p v s) = Some ?c" by simp
  then have "response_value r v s = Some (False, upd_response r (\<lambda>q. q\<lparr>res_write_cursor := ?c\<rparr>) (deliver p v s))"
    unfolding response_value_def c(1) Let_def deliver_def [symmetric] using c(2) by simp
  moreover have "waiting_reads (upd_response r (\<lambda>q. q\<lparr>res_write_cursor := ?c\<rparr>) (deliver p v s)) r ps \<and> (?c = EB_NULL \<longleftrightarrow> ps = [])"
  proof -
    define us ds where "us = takeWhile (\<lambda>p. \<not> read_op s p) qs" "ds = dropWhile (\<lambda>p. \<not> read_op s p) qs"
    note d = this
    have split: "qs = us @ ds" "filter (read_op s) us = []" unfolding d by (auto simp: filter_empty_conv dest: set_takeWhileD)
    have ds: "op_chain s (first_of ds) ds" using c(3) unfolding split(1) by (rule op_chain_suffix)
    then have "op_chain (upd_response r (\<lambda>q. q\<lparr>res_write_cursor := ?c\<rparr>) (deliver p v s)) (first_of ds) ds"
      by (subst op_chain_cong) simp_all
    moreover have "ps = filter (read_op s) ds" using qs(3) split by simp
    moreover have "dropWhile (\<lambda>p. \<not> read_op s p) ds = ds" by (simp add: d(2))
    ultimately have "waiting_reads (upd_response r (\<lambda>q. q\<lparr>res_write_cursor := ?c\<rparr>) (deliver p v s)) r ps"
      unfolding waiting_reads_def by (intro exI [of _ ds]) (simp add: d(2))
    moreover have "first_of ds = EB_NULL \<longleftrightarrow> ps = []"
      using ds \<open>ps = filter (read_op s) ds\<close> \<open>dropWhile (\<lambda>p. \<not> read_op s p) ds = ds\<close>
      by (cases ds) (auto simp: dropWhile_fixed simp del: dropWhile.simps)
    ultimately show ?thesis by (simp add: d(2))
  qed
  ultimately show ?thesis by blast
qed

text \<open>The answer to the response \<open>r\<close>, up to the completion of its cycle.\<close>

lemma same_responses_cursors:
  assumes "same_responses s s'"
  shows "res_write_cursor (heap_response s' a) = res_write_cursor (heap_response s a)"
    and "res_status_cursor (heap_response s' a) = res_status_cursor (heap_response s a)"
    and "res_cycle (heap_response s' a) = res_cycle (heap_response s a)"
proof -
  obtain v where "heap_response s' a = (heap_response s a)\<lparr>res_next := v\<rparr>" using assms by (auto simp: same_responses_def)
  then show "res_write_cursor (heap_response s' a) = res_write_cursor (heap_response s a)"
    "res_status_cursor (heap_response s' a) = res_status_cursor (heap_response s a)"
    "res_cycle (heap_response s' a) = res_cycle (heap_response s a)" by simp_all
qed

lemma response_queue_cong:
  assumes "\<And>a. res_next (heap_response s' a) = res_next (heap_response s a)" and "heap_socket s' = heap_socket s"
  shows "response_queue s' k q \<longleftrightarrow> response_queue s k q"
  unfolding response_queue_def response_lists_def resp_chain_def by (simp add: assms)

lemma unlink_response_cong:
  assumes "\<And>a. res_next (heap_response s' a) = res_next (heap_response s a)" and "heap_socket s' = heap_socket s"
  shows "response_queue (unlink_response k pp r s') k q \<longleftrightarrow> response_queue (unlink_response k pp r s) k q"
proof (rule response_queue_cong)
  show "res_next (heap_response (unlink_response k pp r s') a) = res_next (heap_response (unlink_response k pp r s) a)" for a
    using assms by (cases pp) (simp_all add: unlink_response_def set_pp_def)
  show "heap_socket (unlink_response k pp r s') = heap_socket (unlink_response k pp r s)"
    using assms by (cases pp) (simp_all add: unlink_response_def set_pp_def)
qed

text \<open>\<open>r\<close> is the oldest response with the return address \<open>rba\<close>; return addresses are even.\<close>

definition answered_by :: "'w eb_state \<Rightarrow> eb_ptr \<Rightarrow> eb_ptr list \<Rightarrow> uint16 \<Rightarrow> eb_ptr \<Rightarrow> bool" where
  "answered_by s k q rba r \<longleftrightarrow> response_queue s k q \<and> rba AND 1 = 0
     \<and> find (\<lambda>a. res_address (heap_response s a) = rba) q = Some r"

lemma rba_key:
  assumes "rba AND 1 = 0"
  shows "ucast (ucast rba AND 0xFFFE :: uint64) = (rba :: uint16)"
proof -
  have "\<not> bit rba 0" using assms by (simp add: and_one_eq bit_0 flip: even_iff_mod_2_eq_zero)
  moreover have "bit (0xFFFE :: uint64) n \<longleftrightarrow> 0 < n \<and> n < 16" for n
  proof -
    have mask: "(0xFFFE :: uint64) = mask 16 XOR 1" by (simp add: mask_eq_exp_minus_1)
    show ?thesis unfolding mask by (auto simp: bit_simps bit_mask_iff bit_1_iff)
  qed
  ultimately show ?thesis by (intro bit_word_eqI) (auto simp: bit_ucast_iff bit_and_iff intro: ccontr gr0I)
qed

lemma rba_even: "rba AND 1 = 0 \<Longrightarrow> (ucast (rba :: uint16) :: uint64) AND 1 = 0"
proof -
  have "(ucast (rba :: uint16) :: uint64) AND 1 = ucast (rba AND 1)" by (simp add: unsigned_and_eq)
  then show "rba AND 1 = 0 \<Longrightarrow> (ucast (rba :: uint16) :: uint64) AND 1 = 0" by simp
qed

lemma answer_found:
  assumes "answered_by s k q rba r"
  obtains pp s1 where "find_response k (ucast (ucast rba AND 0xFFFE :: uint64)) None s = Some (Some (pp, r), s1)"
    "same_but_queue s s1" "same_responses s s1" "answered_by s1 k q rba r"
    "response_queue (unlink_response k pp r s1) k (remove1 r q)"
proof -
  have a: "response_queue s k q" "rba AND 1 = 0" "find (\<lambda>a. res_address (heap_response s a) = rba) q = Some r"
    using assms by (simp_all add: answered_by_def)
  obtain res s1 where f: "find_response k rba None s = Some (res, s1)" "response_queue s1 k q" "same_responses s s1"
    using find_response_queue [OF a(1)] by blast
  have "map_option snd res = Some r" using socket_queue.search_cases(3) [OF a(1) f(1)] a(3) by simp
  then obtain pp where res: "res = Some (pp, r)" by (cases res) auto
  show thesis
  proof (rule that [of pp s1])
    show "find_response k (ucast (ucast rba AND 0xFFFE :: uint64)) None s = Some (Some (pp, r), s1)"
      using f(1) by (simp only: rba_key [OF a(2)] res)
    show "same_but_queue s s1" using find_response_frame [OF f(1)] by simp
    show "same_responses s s1" by (rule f(3))
    show "answered_by s1 k q rba r" using f a same_responses_address [OF f(3)] by (simp add: answered_by_def)
    show "response_queue (unlink_response k pp r s1) k (remove1 r q)"
      using socket_queue.unlink_found [OF a(1) f(1) [unfolded res]] by blast
  qed
qed

text \<open>What the answer to \<open>r\<close> may change besides operations and the memory of the application: the links of
  the response lists and the write cursor of \<open>r\<close>.\<close>

definition reply_frame :: "eb_ptr \<Rightarrow> 'w eb_state \<Rightarrow> 'w eb_state \<Rightarrow> bool" where
  "reply_frame r s s' \<longleftrightarrow>
     same_but_queue s (s'\<lparr>heap_operation := heap_operation s, user_data_mem := user_data_mem s\<rparr>)
     \<and> (\<forall>a. \<exists>n c. heap_response s' a = (heap_response s a)\<lparr>res_next := n, res_write_cursor := c\<rparr>
          \<and> (a \<noteq> r \<longrightarrow> c = res_write_cursor (heap_response s a)))"

lemma same_but_queue_data:
  assumes "same_but_queue s t"
  shows "same_but_queue (s\<lparr>heap_operation := h, user_data_mem := m\<rparr>) (t\<lparr>heap_operation := h, user_data_mem := m\<rparr>)"
proof -
  obtain g f where t: "t = s\<lparr>heap_response := g, heap_socket := f\<rparr>"
    and f: "\<And>j. \<exists>a b. f j = (heap_socket s j)\<lparr>sock_first_response := a, sock_last_response := b\<rparr>"
    using assms unfolding same_but_queue_def by blast
  have "same_but_queue (s\<lparr>heap_operation := h, user_data_mem := m\<rparr>)
      (s\<lparr>heap_operation := h, user_data_mem := m\<rparr>\<lparr>heap_response := g, heap_socket := f\<rparr>)"
    by (rule same_but_queueI) (simp add: f)
  then show ?thesis by (cases s) (simp add: t)
qed

lemma reply_frame_refl [simp]: "reply_frame r s s"
  unfolding reply_frame_def by (simp, metis eb_response.surjective eb_response.update_convs(3,5))

lemma reply_frame_trans:
  assumes "reply_frame r s s1" and "reply_frame r s1 s2"
  shows "reply_frame r s s2"
proof -
  have "same_but_queue s (s1\<lparr>heap_operation := heap_operation s, user_data_mem := user_data_mem s\<rparr>)"
    using assms(1) by (simp add: reply_frame_def)
  moreover have "same_but_queue (s1\<lparr>heap_operation := heap_operation s, user_data_mem := user_data_mem s\<rparr>)
      (s2\<lparr>heap_operation := heap_operation s, user_data_mem := user_data_mem s\<rparr>)"
    using assms(2) same_but_queue_data [where s = s1 and t = "s2\<lparr>heap_operation := heap_operation s1, user_data_mem := user_data_mem s1\<rparr>"
        and h = "heap_operation s" and m = "user_data_mem s"] by (simp add: reply_frame_def)
  moreover have "\<exists>n c. heap_response s2 a = (heap_response s a)\<lparr>res_next := n, res_write_cursor := c\<rparr>
      \<and> (a \<noteq> r \<longrightarrow> c = res_write_cursor (heap_response s a))" for a
  proof -
    obtain n c where "heap_response s1 a = (heap_response s a)\<lparr>res_next := n, res_write_cursor := c\<rparr>"
      "a \<noteq> r \<longrightarrow> c = res_write_cursor (heap_response s a)" using assms(1) unfolding reply_frame_def by blast
    moreover obtain n' c' where "heap_response s2 a = (heap_response s1 a)\<lparr>res_next := n', res_write_cursor := c'\<rparr>"
      "a \<noteq> r \<longrightarrow> c' = res_write_cursor (heap_response s1 a)" using assms(2) unfolding reply_frame_def by blast
    ultimately show ?thesis by (simp, metis)
  qed
  ultimately show ?thesis unfolding reply_frame_def using same_but_queue_trans by blast
qed

lemma reply_frame_deliver:
  assumes "same_but_queue s s1" and "same_responses s s1"
  shows "reply_frame r s (upd_response r (\<lambda>q. q\<lparr>res_write_cursor := c\<rparr>) (deliver p v s1))"
proof -
  let ?t = "upd_response r (\<lambda>q. q\<lparr>res_write_cursor := c\<rparr>) s1"
  have ops: "heap_operation s1 = heap_operation s" "user_data_mem s1 = user_data_mem s"
    using assms(1) by (auto simp: same_but_queue_def)
  have t: "same_but_queue s ?t"
    using same_but_queue_trans [OF assms(1) same_but_queue_step(1)] by (simp add: upd_response_def)
  have "(upd_response r (\<lambda>q. q\<lparr>res_write_cursor := c\<rparr>) (deliver p v s1))
      \<lparr>heap_operation := heap_operation s, user_data_mem := user_data_mem s\<rparr> = ?t"
    by (simp add: deliver_def upd_operation_def upd_response_def flip: ops)
  moreover have "\<exists>n d. heap_response (upd_response r (\<lambda>q. q\<lparr>res_write_cursor := c\<rparr>) (deliver p v s1)) a =
      (heap_response s a)\<lparr>res_next := n, res_write_cursor := d\<rparr> \<and> (a \<noteq> r \<longrightarrow> d = res_write_cursor (heap_response s a))" for a
  proof -
    obtain n where "heap_response s1 a = (heap_response s a)\<lparr>res_next := n\<rparr>"
      using assms(2) by (auto simp: same_responses_def)
    moreover have "x\<lparr>res_next := n\<rparr> = x\<lparr>res_next := n, res_write_cursor := res_write_cursor x\<rparr>" for x :: eb_response
      by simp
    ultimately show ?thesis by (cases "a = r") (simp, metis)+
  qed
  ultimately show ?thesis using t by (simp add: reply_frame_def)
qed

text \<open>One value that does not complete the cycle.\<close>

lemma write_config_value:
  assumes a: "answered_by s k q rba r" and w: "waiting_reads s r (p # ps)"
    and more: "ps \<noteq> [] \<or> res_status_cursor (heap_response s r) \<noteq> EB_NULL"
  shows "\<exists>s'. eb_socket_write_config E k widths (ucast rba) v s = Some (0, s') \<and> answered_by s' k q rba r
    \<and> waiting_reads s' r ps \<and> res_status_cursor (heap_response s' r) = res_status_cursor (heap_response s r)
    \<and> heap_operation s' = heap_operation (deliver p v s) \<and> user_data_mem s' = user_data_mem (deliver p v s)
    \<and> reply_frame r s s'"
proof -
  obtain pp s1 where f: "find_response k (ucast (ucast rba AND 0xFFFE :: uint64)) None s = Some (Some (pp, r), s1)"
    "same_but_queue s s1" "same_responses s s1" "answered_by s1 k q rba r"
    using answer_found [OF a] by metis
  have same: "heap_operation s1 = heap_operation s" "user_data_mem s1 = user_data_mem s"
    using f(2) by (auto simp: same_but_queue_def)
  note cursors = same_responses_cursors [OF f(3), of r]
  have "waiting_reads s1 r (p # ps)" using w by (simp add: waiting_reads_cong [OF cursors(1) same(1)])
  then obtain c where c: "response_value r v s1 = Some (False, upd_response r (\<lambda>q. q\<lparr>res_write_cursor := c\<rparr>) (deliver p v s1))"
    "waiting_reads (upd_response r (\<lambda>q. q\<lparr>res_write_cursor := c\<rparr>) (deliver p v s1)) r ps" "c = EB_NULL \<longleftrightarrow> ps = []"
    using response_value_next by blast
  define s2 where "s2 = upd_response r (\<lambda>q. q\<lparr>res_write_cursor := c\<rparr>) (deliver p v s1)"
  have "rba AND 1 = 0" using a by (simp add: answered_by_def)
  then have "eb_socket_write_config E k widths (ucast rba) v s = Some (0, s2)"
    using more c(3) cursors(2) by (auto simp: eb_socket_write_config_def f(1) rba_even c(1) Let_def s2_def)
  moreover have "answered_by s2 k q rba r"
  proof -
    have "res_next (heap_response s2 b) = res_next (heap_response s1 b)"
      "res_address (heap_response s2 b) = res_address (heap_response s1 b)" for b
      by (simp_all add: s2_def)
    then show ?thesis using f(4) response_queue_cong [of s2 s1 k q] by (simp add: answered_by_def) (simp add: s2_def)
  qed
  moreover have "heap_operation (deliver p v s1) = heap_operation (deliver p v s)"
    "user_data_mem (deliver p v s1) = user_data_mem (deliver p v s)"
    using same by (simp_all add: deliver_def)
  moreover have "reply_frame r s s2" unfolding s2_def using f(2,3) by (rule reply_frame_deliver)
  ultimately show ?thesis using c(2) cursors(2) by (intro exI [of _ s2]) (simp add: s2_def)
qed

lemma waiting_reads_distinct: "waiting_reads s r ps \<Longrightarrow> distinct ps"
  by (auto simp: waiting_reads_def op_chain_def dest: chain_distinct)

text \<open>A read that was answered: an operation that reads into a pointer is as it was, any other holds the value.\<close>

definition answered_op :: "'w eb_state \<Rightarrow> eb_ptr \<Rightarrow> eb_data_t \<Rightarrow> eb_operation" where
  "answered_op s p v = (if ptr_op s p then heap_operation s p else (heap_operation s p)\<lparr>op_value := v\<rparr>)"

lemma deliver_answered: "heap_operation (deliver p v s) = (heap_operation s)(p := answered_op s p v)"
  by (simp add: deliver_def answered_op_def upd_operation_def fun_eq_iff)

text \<open>The memory of the application after the reads \<open>ps\<close> were answered with \<open>vs\<close>.\<close>

definition answered_mem :: "'w eb_state \<Rightarrow> eb_ptr list \<Rightarrow> eb_data_t list \<Rightarrow> (eb_user_data_t \<Rightarrow> eb_data_t) \<Rightarrow> eb_user_data_t \<Rightarrow> eb_data_t" where
  "answered_mem s ps vs = fold (\<lambda>(p, v) m. if ptr_op s p then m(op_value (heap_operation s p) := v) else m) (zip ps vs)"

lemma answered_mem_cong:
  assumes "\<forall>p \<in> set ps. heap_operation s1 p = heap_operation s p"
  shows "answered_mem s1 ps vs m = answered_mem s ps vs m"
  unfolding answered_mem_def
proof (intro fold_cong refl)
  fix x
  assume "x \<in> set (zip ps vs)"
  then have "fst x \<in> set ps" by (metis prod.collapse set_zip_leftD)
  then show "(case x of (p, v) \<Rightarrow> \<lambda>m. if ptr_op s1 p then m(op_value (heap_operation s1 p) := v) else m)
      = (case x of (p, v) \<Rightarrow> \<lambda>m. if ptr_op s p then m(op_value (heap_operation s p) := v) else m)"
    using assms by (cases x) (simp cong: if_cong)
qed

text \<open>C3: The values of a reply reach the reads that asked for them. Let the oldest response with the return address
  of the reply wait for the reads \<open>ps\<close>, and let the values not complete the cycle. Then the values go, in order, to
  the first of these reads: into the operation, or through its pointer into the memory of the application. The
  response waits for the rest and the queue is the same. Nothing else changes: no other operation, and of the rest
  of the state only the write cursor of the response and the links that hold the queue together.\<close>

theorem answers_fill_reads:
  assumes "answered_by s k q rba r" and "waiting_reads s r ps"
    and "length vs < length ps \<or> length vs = length ps \<and> res_status_cursor (heap_response s r) \<noteq> EB_NULL"
  shows "\<exists>s'. config_writes E k widths (ucast rba) vs s = Some (0, s') \<and> answered_by s' k q rba r
    \<and> waiting_reads s' r (drop (length vs) ps)
    \<and> (\<forall>i < length vs. heap_operation s' (ps ! i) = answered_op s (ps ! i) (vs ! i))
    \<and> user_data_mem s' = answered_mem s ps vs (user_data_mem s)
    \<and> (\<forall>p. p \<notin> set (take (length vs) ps) \<longrightarrow> heap_operation s' p = heap_operation s p)
    \<and> reply_frame r s s'"
  using assms
proof (induction vs arbitrary: s ps)
  case Nil
  then show ?case by (simp add: answered_mem_def)
next
  case (Cons v vs)
  then obtain p ps' where ps: "ps = p # ps'" by (cases ps) auto
  have d: "p \<notin> set ps'" using waiting_reads_distinct [OF Cons.prems(2)] ps by simp
  obtain s1 where s1: "eb_socket_write_config E k widths (ucast rba) v s = Some (0, s1)" "answered_by s1 k q rba r"
    "waiting_reads s1 r ps'" "res_status_cursor (heap_response s1 r) = res_status_cursor (heap_response s r)"
    "heap_operation s1 = heap_operation (deliver p v s)" "user_data_mem s1 = user_data_mem (deliver p v s)"
    "reply_frame r s s1"
  proof -
    have "ps' \<noteq> [] \<or> res_status_cursor (heap_response s r) \<noteq> EB_NULL" using Cons.prems(3) ps by auto
    from write_config_value [OF Cons.prems(1) Cons.prems(2) [unfolded ps] this, of E widths v] that show thesis by blast
  qed
  obtain s' where s': "config_writes E k widths (ucast rba) vs s1 = Some (0, s')" "answered_by s' k q rba r"
    "waiting_reads s' r (drop (length vs) ps')"
    "\<forall>i < length vs. heap_operation s' (ps' ! i) = answered_op s1 (ps' ! i) (vs ! i)"
    "user_data_mem s' = answered_mem s1 ps' vs (user_data_mem s1)"
    "\<forall>p. p \<notin> set (take (length vs) ps') \<longrightarrow> heap_operation s' p = heap_operation s1 p" "reply_frame r s1 s'"
    using Cons.IH [OF s1(2,3)] Cons.prems(3) ps s1(4) by auto
  have same: "heap_operation s1 a = heap_operation s a" if "a \<noteq> p" for a using that by (simp add: s1(5))
  then have rest: "\<forall>a \<in> set ps'. heap_operation s1 a = heap_operation s a" using d by metis
  have len: "length vs \<le> length ps'" using Cons.prems(3) ps by auto
  have values': "heap_operation s' (ps' ! i) = answered_op s (ps' ! i) (vs ! i)" if "i < length vs" for i
    using s'(4) rest that len by (simp add: answered_op_def)
  have first: "heap_operation s' p = answered_op s p v"
  proof -
    have "p \<notin> set (take (length vs) ps')" using d by (meson in_set_takeD)
    then show ?thesis using s'(6) s1(5) by (simp add: deliver_answered)
  qed
  have keep: "heap_operation s' a = heap_operation s a" if "a \<noteq> p" "a \<notin> set (take (length vs) ps')" for a
    using s'(6) same that by simp
  have mem: "user_data_mem s' = answered_mem s ps (v # vs) (user_data_mem s)"
    unfolding s'(5) answered_mem_cong [OF rest] s1(6) ps by (simp add: answered_mem_def deliver_def)
  have frame: "reply_frame r s s'" using s1(7) s'(7) by (rule reply_frame_trans)
  show ?case
    using s'(1-3) s1(1) values' first keep frame by (intro exI [of _ s'] conjI mem) (simp_all add: ps All_less_Suc2)
qed

lemma example_answered: "answered_by example_flight 5 [10] 0x8000 10"
proof -
  have "response_lists example_flight 5 [10] []"
    by (simp add: response_lists_def resp_chain_def) (simp add: example_flight_def)
  then have "response_queue example_flight 5 [10]" by (rule response_queueI) simp
  then show ?thesis by (simp add: answered_by_def example_flight_def)
qed

theorem answers_fill_reads_witness:
  "\<exists>s'. config_writes unit_env 5 0x44 (ucast (0x8000 :: uint16)) [7, 9] example_flight = Some (0, s')
     \<and> op_value (heap_operation s' 20) = 7 \<and> op_value (heap_operation s' 21) = 9"
proof -
  note example_answered
  moreover have "waiting_reads example_flight 10 [20, 21]"
    using example_flight_ops unfolding waiting_reads_def
    by (intro exI [of _ "[20, 21]"]) (simp add: example_flight_def)
  moreover have "res_status_cursor (heap_response example_flight 10) \<noteq> EB_NULL" "\<not> ptr_op example_flight p" for p
    by (simp_all add: example_flight_def)
  moreover have "op_value (answered_op example_flight p v) = v" for p v
    by (simp add: answered_op_def) (simp add: example_flight_def)
  ultimately show ?thesis using answers_fill_reads [of example_flight 5 "[10]" "0x8000" 10 "[20, 21]" "[7, 9]" unit_env "0x44"]
    by (auto simp: All_less_Suc2)
qed

section \<open>Completion\<close>

text \<open>The last answer completes the cycle. When the response waits for one read and no error flags, the value is
  delivered, the response leaves the queue, and the callback of the cycle is run with its operations and with
  \<^verbatim>\<open>EB_SEGFAULT\<close> exactly if one of them had an error; then the cycle and the response are freed.\<close>

theorem last_answer_completes:
  assumes a: "answered_by s k q rba r" and w: "waiting_reads s r [p]" and c: "res_status_cursor (heap_response s r) = EB_NULL"
    and cyc: "cyclep = res_cycle (heap_response s r)" "first = cyc_ops (heap_cycle s cyclep)" "op_chain s first ops"
  shows "\<exists>s'. eb_socket_write_config E k widths (ucast rba) v s =
      do { s'' \<leftarrow> finish_cycle E cyclep first (if \<exists>a \<in> set ops. eb_operation_had_error a s then EB_SEGFAULT else EB_OK) s';
           Some (1, eb_free_response r s'') }
    \<and> response_queue s' k (remove1 r q) \<and> heap_operation s' = heap_operation (deliver p v s)
    \<and> user_data_mem s' = user_data_mem (deliver p v s) \<and> heap_cycle s' = heap_cycle s"
proof -
  obtain pp s1 where f: "find_response k (ucast (ucast rba AND 0xFFFE :: uint64)) None s = Some (Some (pp, r), s1)"
    "same_but_queue s s1" "same_responses s s1" "response_queue (unlink_response k pp r s1) k (remove1 r q)"
    using answer_found [OF a] by metis
  have same: "heap_operation s1 = heap_operation s" "user_data_mem s1 = user_data_mem s" "heap_cycle s1 = heap_cycle s"
    using f(2) by (auto simp: same_but_queue_def)
  note cursors = same_responses_cursors [OF f(3), of r]
  have "waiting_reads s1 r [p]" using w by (simp add: waiting_reads_cong [OF cursors(1) same(1)])
  then have v: "response_value r v s1 = Some (False, upd_response r (\<lambda>q. q\<lparr>res_write_cursor := EB_NULL\<rparr>) (deliver p v s1))"
    using response_value_next [of s1 r p "[]" v] by auto
  define s2 where "s2 = upd_response r (\<lambda>q. q\<lparr>res_write_cursor := EB_NULL\<rparr>) (deliver p v s1)"
  define s3 where "s3 = unlink_response k pp r s2"
  have s3: "s3 = set_pp k pp (res_next (heap_response s2 r)) s2" by (simp add: s3_def unlink_response_def)
  have ops: "heap_operation s3 = heap_operation (deliver p v s)" "user_data_mem s3 = user_data_mem (deliver p v s)"
    "heap_cycle s3 = heap_cycle s"
    using same by (auto simp: s3 s2_def set_pp_def deliver_def split: option.splits)
  have "op_chain s3 first ops" using cyc(3) by (subst op_chain_cong [of _ _ s]) (simp_all add: ops(1))
  then have walk: "walk (\<lambda>p. op_next (heap_operation s3 p)) EB_NULL first = Some ops"
    by (simp add: walk_chain op_chain_def)
  have status: "list_ex (\<lambda>p. op_flags (heap_operation s3 p) AND EB_OP_ERROR \<noteq> 0) ops \<longleftrightarrow> (\<exists>a \<in> set ops. eb_operation_had_error a s)"
    by (simp add: ops(1) list_ex_iff eb_operation_had_error_def)
  have even: "(ucast rba :: uint64) AND 1 = 0" using a rba_even by (simp add: answered_by_def)
  have res: "res_cycle (heap_response s2 r) = cyclep" "res_write_cursor (heap_response s2 r) = EB_NULL"
    "res_status_cursor (heap_response s2 r) = EB_NULL" using cursors c cyc(1) by (simp_all add: s2_def)
  have "eb_socket_write_config E k widths (ucast rba) v s =
      do { s'' \<leftarrow> finish_cycle E cyclep first (if \<exists>a \<in> set ops. eb_operation_had_error a s then EB_SEGFAULT else EB_OK) s3;
           Some (1, eb_free_response r s'') }"
    unfolding eb_socket_write_config_def f(1) v [folded s2_def]
    by (simp add: even v [folded s2_def] res Let_def flip: s3) (simp add: ops(3) walk status flip: cyc(2))
  moreover have "response_queue s3 k (remove1 r q)"
    using f(4) unfolding s3_def by (subst unlink_response_cong [of _ s1]) (simp_all add: s2_def)
  ultimately show ?thesis using ops by blast
qed

definition example_last :: "unit eb_state" where
  "example_last = upd_response 10 (\<lambda>r. r\<lparr>res_write_cursor := 21, res_status_cursor := EB_NULL\<rparr>) example_flight"

theorem last_answer_completes_witness:
  "\<exists>s'. eb_socket_write_config unit_env 5 0x44 (ucast (0x8000 :: uint16)) 7 example_last =
      do { s'' \<leftarrow> finish_cycle unit_env 15 20 EB_OK s'; Some (1, eb_free_response 10 s'') } \<and> response_queue s' 5 []"
proof -
  have "answered_by example_last 5 [10] 0x8000 10"
    using example_answered response_queue_cong [of example_last example_flight 5 "[10]"]
    by (simp add: answered_by_def example_last_def) (simp add: example_flight_def)
  moreover have "op_chain example_last 21 [21]" "op_chain example_last 20 [20, 21]"
    by (simp_all add: op_chain_def example_last_def) (simp_all add: example_flight_def)
  then have "waiting_reads example_last 10 [21]" "op_chain example_last 20 [20, 21]"
    unfolding waiting_reads_def by (simp_all add: example_last_def example_flight_def exI [of _ "[21]"])
  moreover have "res_status_cursor (heap_response example_last 10) = EB_NULL" "res_cycle (heap_response example_last 10) = 15"
    "cyc_ops (heap_cycle example_last 15) = 20" "\<not> (\<exists>a \<in> set [20, 21]. eb_operation_had_error a example_last)"
    by (simp_all add: example_last_def example_flight_def eb_operation_had_error_def)
  ultimately show ?thesis
    using last_answer_completes [of example_last 5 "[10]" "0x8000" 10 21 15 20 "[20, 21]" unit_env "0x44" 7] by auto
qed

end
