(* ===== verification/EB_Packet.thy ===== *)
theory EB_Packet
  imports EB_Transport EB_Answers
begin

text \<open>
  A packet from the network is processed completely. The bus of the slave (handlers, SDB table, answers to the
  socket's own requests) answers every operation, whatever its address and select lines are, so that
  \<^verbatim>\<open>eb_device_slave\<close> returns for every packet on a packet transport; and the reply is built in place without overtaking the request.

  The application is a parameter: its handlers and callbacks are assumed to keep the tables of the socket
  (\<open>well_behaved\<close>).
\<close>

unbundle bit_operations_syntax

section \<open>What the bus relies on\<close>

definition finite_ops :: "'w eb_state \<Rightarrow> eb_ptr \<Rightarrow> bool" where
  "finite_ops s i \<longleftrightarrow> (\<exists>ops. op_chain s i ops)"

definition plain_callback :: "eb_callback_t \<Rightarrow> bool" where
  "plain_callback cb \<longleftrightarrow> (case cb of Eb_block_f \<Rightarrow> True | Eb_user_callback _ \<Rightarrow> True | _ \<Rightarrow> False)"

text \<open>A response whose cycle can be completed. The callbacks of an SDB scan start new cycles; they are not
  among the responses considered here.\<close>

definition response_ready :: "'w eb_state \<Rightarrow> eb_ptr \<Rightarrow> bool" where
  "response_ready s r \<longleftrightarrow> (let res = heap_response s r; cyc = heap_cycle s (res_cycle res)
     in finite_ops s (res_write_cursor res) \<and> finite_ops s (res_status_cursor res) \<and> finite_ops s (cyc_ops cyc)
        \<and> plain_callback (cyc_callback cyc))"

definition ready_queue :: "eb_ptr \<Rightarrow> 'w eb_state \<Rightarrow> bool" where
  "ready_queue k s \<longleftrightarrow> (\<exists>q. response_queue s k q \<and> (\<forall>r \<in> set q. response_ready s r))"

definition sdb_base :: "eb_ptr \<Rightarrow> 'w eb_state \<Rightarrow> eb_address_t" where
  "sdb_base k s = aux_sdb_offset (heap_socket_aux s (sock_aux (heap_socket s k)))"

definition local_bus :: "eb_ptr \<Rightarrow> 'w eb_state \<Rightarrow> bool" where
  "local_bus k s \<longleftrightarrow> handler_list k s \<noteq> None \<and> device_list k s \<noteq> None \<and> ready_queue k s
     \<and> 8 dvd unat (sdb_base k s) \<and> (\<forall>a. length (prod_name (product (dev_component (user_sdb_mem s a)))) = 19)"

text \<open>What application code must not destroy: the tables above, and the operations of a cycle that is being
  reported to it.\<close>

definition keeps_bus :: "eb_ptr \<Rightarrow> 'w eb_state \<Rightarrow> 'w eb_state \<Rightarrow> bool" where
  "keeps_bus k s s' \<longleftrightarrow> (local_bus k s \<longrightarrow> local_bus k s')
     \<and> (\<forall>c. finite_ops s (cyc_ops (heap_cycle s c)) \<longrightarrow> finite_ops s' (cyc_ops (heap_cycle s' c)))"

definition well_behaved :: "'w eb_env \<Rightarrow> eb_ptr \<Rightarrow> bool" where
  "well_behaved E k \<longleftrightarrow> (\<forall>n u d p st s. keeps_bus k s (env_callback E n u d p st s))
     \<and> (\<forall>f u a w s. keeps_bus k s (snd (snd (env_read E f u a w s))))
     \<and> (\<forall>f u a w v s. keeps_bus k s (snd (env_write E f u a w v s)))"

section \<open>Frames\<close>

definition bus_frame :: "'w eb_state \<Rightarrow> 'w eb_state \<Rightarrow> bool" where
  "bus_frame s s' \<longleftrightarrow> heap_handler_address s' = heap_handler_address s
     \<and> (\<forall>d. dev_next (heap_device s' d) = dev_next (heap_device s d))
     \<and> heap_socket_aux s' = heap_socket_aux s \<and> user_sdb_mem s' = user_sdb_mem s
     \<and> (\<forall>p. op_next (heap_operation s' p) = op_next (heap_operation s p))
     \<and> (\<forall>j. sock_first_handler (heap_socket s' j) = sock_first_handler (heap_socket s j)
          \<and> sock_first_device (heap_socket s' j) = sock_first_device (heap_socket s j)
          \<and> sock_aux (heap_socket s' j) = sock_aux (heap_socket s j))"

lemma bus_frame_refl [simp]: "bus_frame s s"
  by (simp add: bus_frame_def)

lemma bus_frame_trans: "bus_frame s s' \<Longrightarrow> bus_frame s' s'' \<Longrightarrow> bus_frame s s''"
  by (simp add: bus_frame_def)

lemma finite_ops_frame: "bus_frame s s' \<Longrightarrow> finite_ops s' i \<longleftrightarrow> finite_ops s i"
  by (simp add: finite_ops_def op_chain_def bus_frame_def)

lemma finite_ops_null [simp]: "finite_ops s EB_NULL"
  by (auto simp: finite_ops_def op_chain_def intro: exI [of _ "[]"])

lemma local_bus_frame:
  assumes "bus_frame s s'" and "ready_queue k s'" and "local_bus k s"
  shows "local_bus k s'"
proof -
  have "handler_list k s' = handler_list k s" "device_list k s' = device_list k s" "sdb_base k s' = sdb_base k s"
    using assms(1) by (simp_all add: handler_list_def device_list_def sdb_base_def bus_frame_def)
  with assms show ?thesis by (simp add: local_bus_def bus_frame_def)
qed

text \<open>States that also agree on the responses and cycles.\<close>

lemma ready_queue_frame:
  assumes "bus_frame s s'" and "heap_response s' = heap_response s" and "heap_cycle s' = heap_cycle s"
    and "heap_socket s' = heap_socket s" and "ready_queue k s"
  shows "ready_queue k s'"
proof -
  obtain q where q: "response_queue s k q" "\<forall>r \<in> set q. response_ready s r" using assms(5) by (auto simp: ready_queue_def)
  have "response_queue s' k q" using q(1) response_queue_cong [of s' s k q] assms(2,4) by simp
  moreover have "response_ready s' r = response_ready s r" for r
    using assms(2,3) by (simp add: response_ready_def finite_ops_frame [OF assms(1)] Let_def)
  ultimately show ?thesis using q(2) by (auto simp: ready_queue_def)
qed

lemma local_bus_same:
  assumes "bus_frame s s'" and "heap_response s' = heap_response s" and "heap_cycle s' = heap_cycle s"
    and "heap_socket s' = heap_socket s" and "local_bus k s"
  shows "local_bus k s'"
proof (rule local_bus_frame [OF assms(1) _ assms(5)])
  show "ready_queue k s'" using ready_queue_frame [OF assms(1-4)] assms(5) by (simp add: local_bus_def)
qed

section \<open>Bus operations\<close>

lemma eb_socket_write_returns:
  assumes "well_behaved E k" and "local_bus k s"
  shows "\<exists>error' s'. eb_socket_write E k widths addr_b addr_l v error s = Some (error', s') \<and> local_bus k s'"
proof -
  obtain hs where hs: "handler_list k s = Some hs" using assms(2) by (auto simp: local_bus_def)
  have "local_bus k (snd (env_write E f u a w v s))" for f u a w v
    using assms by (simp add: well_behaved_def keeps_bus_def)
  with assms(2) show ?thesis
    by (simp add: eb_socket_write_def hs Let_def case_prod_beta split: option.split)
qed

text \<open>A read of the SDB table: the address is a multiple of the width of the read, and so is the table's base.\<close>

lemma mod_block:
  fixes w n m :: nat
  assumes "w dvd n" and "w dvd m" and "0 < m"
  shows "n mod m + w \<le> m"
proof -
  obtain j where j: "m = w * j" using assms(2) by auto
  obtain i where i: "n mod m = w * i" using assms(1,2) by (metis dvd_def dvd_mod)
  have "w * i < w * j" using i j assms(3) by (metis mod_less_divisor)
  then have "w * Suc i \<le> w * j" by (intro mult_le_mono2) (simp add: Suc_le_eq)
  then show ?thesis by (metis add.commute i j mult_Suc_right)
qed

lemma unat_diff_dvd:
  fixes a b :: uint64
  assumes "w dvd unat a" and "w dvd unat b" and "b \<le> a"
  shows "w dvd unat (a - b)"
  using assms by (simp add: unat_sub dvd_diff_nat)

lemma eb_sdb_extract_returns:
  assumes "length bytes = 64" and "unat (width AND EB_DATAX) = w" and "unat addr + w \<le> 64"
  shows "\<exists>v. eb_sdb_extract bytes width addr = Some v"
  using assms by (simp add: eb_sdb_extract_def)

lemma length_interconnect: "length (interconnect_bytes E n) = 64"
  by (simp add: interconnect_bytes_def component_bytes_def product_bytes_def software_eb_bus_def)

lemma length_device: "length (prod_name (product (dev_component d))) = 19 \<Longrightarrow> length (device_bytes d) = 64"
  by (simp add: device_bytes_def component_bytes_def product_bytes_def)

lemma eb_sdb_returns:
  assumes "local_bus k s" and "unat (width AND EB_DATAX) = w" and "w dvd unat addr" and "w dvd 8"
  shows "\<exists>v. eb_sdb E k width addr s = Some v"
proof -
  obtain hs where hs: "handler_list k s = Some hs" using assms(1) by (auto simp: local_bus_def)
  have "w dvd 64" using assms(4) dvd_trans [of w 8 64] by simp
  then have m: "unat addr mod 64 + w \<le> 64" using mod_block [OF assms(3), of 64] by simp
  have "addr AND 0x3f = addr mod 64"
    using take_bit_eq_mask [of 6 addr] by (simp add: mask_eq_exp_minus_1 take_bit_eq_mod)
  then have "unat (addr AND 0x3f) = unat addr mod 64" by (simp add: unat_mod)
  moreover have "unat addr < 64" if "addr < 0x40" using that by (simp add: word_less_nat_alt)
  ultimately show ?thesis
    using m assms(1,2) length_interconnect length_device
    by (auto simp: eb_sdb_def hs eb_sdb_interconnect_def eb_sdb_device_def local_bus_def split: option.split
        intro!: eb_sdb_extract_returns)
qed

lemma eb_socket_read_returns:
  assumes "well_behaved E k" and "local_bus k s" and "unat (widths AND EB_DATAX) = w" and "w dvd unat addr_b" and "w dvd 8"
  shows "\<exists>v error' s'. eb_socket_read E k widths addr_b addr_l error s = Some (v, error', s') \<and> local_bus k s'"
proof -
  obtain hs where hs: "handler_list k s = Some hs" using assms(2) by (auto simp: local_bus_def)
  have "local_bus k (snd (snd (env_read E f u a w s)))" for f u a w
    using assms by (simp add: well_behaved_def keeps_bus_def)
  moreover have "\<exists>v. eb_sdb E k widths (addr_b - sdb_base k s) s = Some v" if "sdb_base k s \<le> addr_b"
  proof -
    have "w dvd unat (sdb_base k s)" using assms(2,5) by (auto simp: local_bus_def dest: dvd_trans)
    then show ?thesis by (rule eb_sdb_returns [OF assms(2,3) unat_diff_dvd [OF assms(4) _ that] assms(5)])
  qed
  ultimately show ?thesis
    using assms(2) by (auto simp: eb_socket_read_def hs Let_def case_prod_beta sdb_base_def split: option.split)
qed

section \<open>Answers\<close>

text \<open>From \<open>s\<close> to \<open>s'\<close> the cursors of \<open>r\<close> and the data of operations may have changed.\<close>

definition answer_frame :: "'w eb_state \<Rightarrow> 'w eb_state \<Rightarrow> bool" where
  "answer_frame s s' \<longleftrightarrow> bus_frame s s' \<and> heap_socket s' = heap_socket s \<and> heap_cycle s' = heap_cycle s
     \<and> (\<forall>a. res_next (heap_response s' a) = res_next (heap_response s a)
          \<and> res_cycle (heap_response s' a) = res_cycle (heap_response s a))
     \<and> (\<forall>a. response_ready s a \<longrightarrow> response_ready s' a)"

lemma answer_frame_ready:
  assumes "answer_frame s s'" and "response_queue s k q" and "\<forall>r \<in> set q. response_ready s r"
  shows "response_queue s' k q" and "\<forall>r \<in> set q. response_ready s' r"
  using assms response_queue_cong [of s' s k q] by (auto simp: answer_frame_def)

lemma eb_find_returns:
  assumes "finite_ops s i"
  obtains j where "eb_find_read i s = Some j" and "finite_ops s j"
proof -
  obtain ops where ops: "op_chain s i ops" using assms by (auto simp: finite_ops_def)
  let ?us = "takeWhile (\<lambda>p. \<not> read_op s p) ops" and ?ds = "dropWhile (\<lambda>p. \<not> read_op s p) ops"
  have "op_chain s (first_of ?ds) ?ds" using op_chain_suffix [of s i ?us ?ds] ops by simp
  then show thesis using eb_find_read_chain [OF ops] that [of "first_of ?ds"] by (auto simp: finite_ops_def)
qed

lemma eb_find_bus_returns:
  assumes "finite_ops s i"
  obtains j where "eb_find_bus i s = Some j" and "finite_ops s j"
proof -
  obtain ops where ops: "op_chain s i ops" using assms by (auto simp: finite_ops_def)
  have "op_chain s i ops \<Longrightarrow> finite_ops s (first_of (filter (bus_op s) ops))"
  proof (induction ops arbitrary: i)
    case (Cons p ops)
    then show ?case by (auto simp: finite_ops_def intro: exI [of _ "p # ops"])
  qed simp
  with eb_find_bus_chain [OF ops] ops that show thesis by blast
qed

lemma cursor_frame:
  assumes "bus_frame s s'" and "finite_ops s' c" and "heap_socket s' = heap_socket s" and "heap_cycle s' = heap_cycle s"
    and "heap_response s' = heap_response s"
  shows "answer_frame s (upd_response r (\<lambda>q. q\<lparr>res_write_cursor := c\<rparr>) s')"
    and "answer_frame s (upd_response r (\<lambda>q. q\<lparr>res_status_cursor := c\<rparr>) s')"
proof -
  have b: "bus_frame s (upd_response r f s')" for f using assms(1) by (simp add: bus_frame_def)
  have "finite_ops s c" using assms(1,2) by (simp add: finite_ops_frame)
  then show "answer_frame s (upd_response r (\<lambda>q. q\<lparr>res_write_cursor := c\<rparr>) s')"
    "answer_frame s (upd_response r (\<lambda>q. q\<lparr>res_status_cursor := c\<rparr>) s')"
    using assms(3-) b by (auto simp: answer_frame_def response_ready_def finite_ops_frame [OF b] Let_def)
qed

lemma response_value_returns:
  assumes "response_ready s r"
  obtains fail s' where "response_value r v s = Some (fail, s')" and "answer_frame s s'"
proof (cases "res_write_cursor (heap_response s r) = EB_NULL")
  case True
  then show thesis by (intro that [of True s]) (simp_all add: response_value_def answer_frame_def)
next
  case False
  let ?p = "res_write_cursor (heap_response s r)"
  have b: "bus_frame s (deliver ?p v s)" by (simp add: bus_frame_def) (simp add: deliver_def)
  have "finite_ops s (op_next (heap_operation s ?p))"
    using assms False unfolding response_ready_def finite_ops_def op_chain_def Let_def by (metis chain_neq)
  then obtain c where c: "eb_find_read (op_next (heap_operation s ?p)) (deliver ?p v s) = Some c" "finite_ops (deliver ?p v s) c"
    using eb_find_returns finite_ops_frame [OF b] by blast
  have "response_value r v s = Some (False, upd_response r (\<lambda>q. q\<lparr>res_write_cursor := c\<rparr>) (deliver ?p v s))"
    unfolding response_value_def Let_def deliver_def [symmetric] using False c(1) by simp
  then show thesis by (rule that) (rule cursor_frame(1) [OF b c(2)], simp_all)
qed

lemma mark_status_frame:
  "mark_status n v ps s = (rest, s') \<Longrightarrow> \<exists>h us. s' = s\<lparr>heap_operation := h\<rparr> \<and> (\<forall>a. op_next (h a) = op_next (heap_operation s a))
     \<and> ps = us @ rest"
proof (induction n v ps s arbitrary: s' rule: mark_status.induct)
  case (1 v ps s)
  then show ?case by (auto intro: exI [of _ "heap_operation s"])
next
  case (2 i v s)
  then show ?case by (auto intro: exI [of _ "heap_operation s"])
next
  case (3 i v p ps s)
  show ?case
  proof (cases "bus_op s p")
    case False
    with 3(3) have "mark_status (Suc i) v ps s = (rest, s')" by simp
    with 3(1) False obtain h us where "s' = s\<lparr>heap_operation := h\<rparr>" "\<forall>a. op_next (h a) = op_next (heap_operation s a)" "ps = us @ rest"
      by blast
    then show ?thesis by (intro exI [of _ h] exI [of _ "p # us"]) simp
  next
    case True
    let ?s = "upd_operation p (\<lambda>op. op\<lparr>op_flags := op_flags op OR (if bit v i then EB_OP_ERROR else 0)\<rparr>) s"
    have "mark_status i v ps ?s = (rest, s')" using 3(3) True by simp
    with 3(2) True obtain h us where h: "s' = ?s\<lparr>heap_operation := h\<rparr>" "\<forall>a. op_next (h a) = op_next (heap_operation ?s a)" "ps = us @ rest"
      by blast
    then show ?thesis by (intro exI [of _ h] exI [of _ "p # us"]) (auto simp: upd_operation_def)
  qed
qed

lemma response_status_returns:
  assumes "response_ready s r"
  obtains fail s' where "response_status r widths v s = Some (fail, s')" and "answer_frame s s'"
proof -
  obtain ps where ps: "op_chain s (res_status_cursor (heap_response s r)) ps"
    using assms by (auto simp: response_ready_def finite_ops_def Let_def)
  let ?n = "count_status (unat (widths AND EB_DATAX) * 8) 0 ps s"
  obtain rest s1 where m: "mark_status ?n v ps s = (rest, s1)" by fastforce
  then obtain h us where h: "s1 = s\<lparr>heap_operation := h\<rparr>" "\<forall>a. op_next (h a) = op_next (heap_operation s a)" "ps = us @ rest"
    using mark_status_frame by blast
  have b: "bus_frame s s1" using h(1,2) by (simp add: bus_frame_def)
  have "finite_ops s (first_of rest)" using ps op_chain_suffix unfolding h(3) finite_ops_def by blast
  then obtain c where c: "eb_find_bus (first_of rest) s1 = Some c" "finite_ops s1 c"
    using eb_find_bus_returns finite_ops_frame [OF b] by blast
  have "response_status r widths v s = Some (?n = 0, upd_response r (\<lambda>q. q\<lparr>res_status_cursor := c\<rparr>) s1)"
    using ps unfolding response_status_def op_chain_def by (simp add: walk_chain m c(1) Let_def)
  then show thesis by (rule that) (rule cursor_frame(2) [OF b c(2)], simp_all add: h(1))
qed

text \<open>Reporting and freeing a cycle.\<close>

lemma free_frame:
  "bus_frame s (eb_free_memory_item p s)" "bus_frame s (free_many eb_free_memory_item ps s)"
  by (simp_all add: bus_frame_def)

lemma local_bus_free:
  "local_bus k s \<Longrightarrow> local_bus k (eb_free_memory_item p s)" "local_bus k s \<Longrightarrow> local_bus k (free_many eb_free_memory_item ps s)"
  by (simp_all add: local_bus_same [OF free_frame(1)] local_bus_same [OF free_frame(2)])

lemma local_bus_clear:
  assumes "local_bus k s"
  shows "local_bus k (upd_cycle c (\<lambda>c. c\<lparr>cyc_ops := EB_NULL\<rparr>) s)"
proof -
  let ?s = "upd_cycle c (\<lambda>c. c\<lparr>cyc_ops := EB_NULL\<rparr>) s"
  have b: "bus_frame s ?s" by (simp add: bus_frame_def)
  obtain q where q: "response_queue s k q" "\<forall>r \<in> set q. response_ready s r"
    using assms by (auto simp: local_bus_def ready_queue_def)
  have "response_queue ?s k q" using q(1) response_queue_cong [of ?s s k q] by simp
  moreover have "response_ready s r \<Longrightarrow> response_ready ?s r" for r
    by (auto simp: response_ready_def finite_ops_frame [OF b] Let_def)
  ultimately have "ready_queue k ?s" using q(2) by (auto simp: ready_queue_def)
  then show ?thesis by (rule local_bus_frame [OF b _ assms])
qed

lemma finish_cycle_returns:
  assumes E: "well_behaved E k" and s: "local_bus k s" "finite_ops s (cyc_ops (heap_cycle s c))" "plain_callback (cyc_callback (heap_cycle s c))"
  obtains s' where "finish_cycle E c op status s = Some s'" and "local_bus k s'"
proof -
  obtain s1 where s1: "cycle_callback E c op status s = Some s1" "local_bus k s1" "finite_ops s1 (cyc_ops (heap_cycle s1 c))"
  proof -
    let ?s = "\<lambda>x. s\<lparr>calls := x\<rparr>"
    have b: "bus_frame s (?s x)" for x by (simp add: bus_frame_def)
    have 1: "local_bus k (?s x)" "finite_ops (?s x) (cyc_ops (heap_cycle (?s x) c))" for x
      using s(1,2) local_bus_same [OF b] by (simp_all add: finite_ops_frame [OF b])
    let ?t = "\<lambda>m x. (?s x)\<lparr>user_status_mem := m\<rparr>"
    have b': "bus_frame s (?t m x)" for m x by (simp add: bus_frame_def)
    have 2: "local_bus k (?t m x)" "finite_ops (?t m x) (cyc_ops (heap_cycle (?t m x) c))" for m x
      using s(1,2) local_bus_same [OF b'] by (simp_all add: finite_ops_frame [OF b'])
    show thesis
      using s(3) 1 2 E that
      by (cases "cyc_callback (heap_cycle s c)")
        (auto simp: cycle_callback_def run_callback_def plain_callback_def eb_block_f_def well_behaved_def keeps_bus_def Let_def)
  qed
  obtain ops where ops: "op_chain s1 (cyc_ops (heap_cycle s1 c)) ops" using s1(3) by (auto simp: finite_ops_def)
  let ?f = "if cyc_ops (heap_cycle s1 c) \<noteq> c then free_many eb_free_memory_item ops s1 else s1"
  have "finish_cycle E c op status s = Some (eb_free_memory_item c (upd_cycle c (\<lambda>c. c\<lparr>cyc_ops := EB_NULL\<rparr>) ?f))"
    by (simp add: finish_cycle_def s1(1) eb_cycle_destroy_def free_operations_chain [OF ops] eb_free_cycle_def)
  moreover have "local_bus k ?f" using s1(2) local_bus_free(2) by auto
  ultimately show thesis using that local_bus_clear local_bus_free(1) by blast
qed

lemma same_but_queue_frame: "same_but_queue s s' \<Longrightarrow> bus_frame s s' \<and> heap_cycle s' = heap_cycle s"
proof -
  assume "same_but_queue s s'"
  then obtain h f where s': "s' = s\<lparr>heap_response := h, heap_socket := f\<rparr>"
    and f: "\<And>j. \<exists>a b. f j = (heap_socket s j)\<lparr>sock_first_response := a, sock_last_response := b\<rparr>"
    unfolding same_but_queue_def by blast
  have "sock_first_handler (f j) = sock_first_handler (heap_socket s j) \<and> sock_first_device (f j) = sock_first_device (heap_socket s j)
      \<and> sock_aux (f j) = sock_aux (heap_socket s j)" for j
    using f [of j] by auto
  then show "bus_frame s s' \<and> heap_cycle s' = heap_cycle s" by (simp add: s' bus_frame_def)
qed

lemma set_pp_frame: "bus_frame s (set_pp k pp v s)" "heap_cycle (set_pp k pp v s) = heap_cycle s"
  "res_cycle (heap_response (set_pp k pp v s) a) = res_cycle (heap_response s a)"
  "res_write_cursor (heap_response (set_pp k pp v s) a) = res_write_cursor (heap_response s a)"
  "res_status_cursor (heap_response (set_pp k pp v s) a) = res_status_cursor (heap_response s a)"
  by (cases pp; simp add: set_pp_def bus_frame_def)+

lemma response_ready_frame:
  assumes "bus_frame s s'" and "heap_cycle s' = heap_cycle s"
    and "res_cycle (heap_response s' a) = res_cycle (heap_response s a)"
    and "res_write_cursor (heap_response s' a) = res_write_cursor (heap_response s a)"
    and "res_status_cursor (heap_response s' a) = res_status_cursor (heap_response s a)"
  shows "response_ready s' a \<longleftrightarrow> response_ready s a"
  using assms(2-) by (simp add: response_ready_def finite_ops_frame [OF assms(1)] Let_def)

lemma complete_answer_returns:
  assumes E: "well_behaved E k" and s: "local_bus k s" "\<forall>a \<in> set q. response_ready s a" "r \<in> set q"
    and u: "response_queue (unlink_response k pp r s) k (remove1 r q)" and c: "c = res_cycle (heap_response s r)"
    and s3: "s3 = set_pp k pp (res_next (heap_response s r)) s"
  obtains ps where "walk (\<lambda>p. op_next (heap_operation s3 p)) EB_NULL (cyc_ops (heap_cycle s3 c)) = Some ps"
    and "\<And>status. \<exists>s4. finish_cycle E c (cyc_ops (heap_cycle s3 c)) status s3 = Some s4 \<and> local_bus k s4"
proof -
  have b: "bus_frame s s3" "heap_cycle s3 = heap_cycle s" unfolding s3 by (rule set_pp_frame)+
  have "response_ready s3 a \<longleftrightarrow> response_ready s a" for a unfolding s3 by (rule response_ready_frame) (rule set_pp_frame)+
  then have "ready_queue k s3"
    using u s(2) unfolding ready_queue_def s3 unlink_response_def by (meson notin_set_remove1)
  then have l: "local_bus k s3" by (rule local_bus_frame [OF b(1) _ s(1)])
  have f: "finite_ops s3 (cyc_ops (heap_cycle s3 c))" "plain_callback (cyc_callback (heap_cycle s3 c))"
    using s(2,3) unfolding response_ready_def Let_def c b(2) finite_ops_frame [OF b(1)] by auto
  then obtain ps where "op_chain s3 (cyc_ops (heap_cycle s3 c)) ps" by (auto simp: finite_ops_def)
  moreover have "\<exists>s4. finish_cycle E c (cyc_ops (heap_cycle s3 c)) status s3 = Some s4 \<and> local_bus k s4" for status
    using finish_cycle_returns [OF E l f] by metis
  ultimately show thesis by (intro that) (auto simp: walk_chain op_chain_def)
qed

lemma eb_socket_write_config_returns:
  assumes E: "well_behaved E k" and s: "local_bus k s"
  obtains n s' where "eb_socket_write_config E k widths addr v s = Some (n, s')" and "local_bus k s'"
proof -
  obtain q where q: "response_queue s k q" "\<forall>r \<in> set q. response_ready s r"
    using s by (auto simp: local_bus_def ready_queue_def)
  define key :: uint16 where "key = ucast (addr AND 0xFFFE)"
  obtain res s1 where f: "find_response k key None s = Some (res, s1)" "response_queue s1 k q" "same_responses s s1"
    using find_response_queue [OF q(1)] by blast
  have b1: "bus_frame s s1" "heap_cycle s1 = heap_cycle s"
    using same_but_queue_frame [OF find_response_frame [OF f(1)]] by simp_all
  have q1: "\<forall>r \<in> set q. response_ready s1 r"
    using q(2) response_ready_frame [OF b1] same_responses_cursors [OF f(3)] by blast
  show thesis
  proof (cases res)
    case None
    have "local_bus k s1" using f(2) q1 by (intro local_bus_frame [OF b1(1) _ s]) (auto simp: ready_queue_def)
    with None f(1) show thesis by (intro that [of 0 s1]) (simp_all add: eb_socket_write_config_def key_def)
  next
    case (Some x)
    then obtain pp r where res: "res = Some (pp, r)" by (cases x) auto
    have "r \<in> set q" using socket_queue.search_cases(3) [OF q(1) f(1)] res by (auto simp: find_Some_iff2)
    then obtain fail s2 where s2: "(if addr AND 1 = 0 then response_value r v s1 else response_status r widths v s1) = Some (fail, s2)"
      "answer_frame s1 s2"
      using q1 response_value_returns [of s1 r v] response_status_returns [of s1 r widths v] by (metis (full_types))
    note q2 = answer_frame_ready [OF s2(2) f(2) q1]
    have b2: "bus_frame s s2" using bus_frame_trans [OF b1(1)] s2(2) by (simp add: answer_frame_def)
    let ?res = "heap_response s2 r"
    have l2: "local_bus k s2" using q2 by (intro local_bus_frame [OF b2 _ s]) (auto simp: ready_queue_def)
    show thesis
    proof (cases "fail \<or> (res_write_cursor ?res = EB_NULL \<and> res_status_cursor ?res = EB_NULL)")
      case False
      with l2 f(1) res s2(1) show thesis
        by (intro that [of 0 s2]) (simp_all add: eb_socket_write_config_def key_def Let_def)
    next
      case True
      define s3 where "s3 = set_pp k pp (res_next ?res) s2"
      have "response_queue (unlink_response k pp r s2) k (remove1 r q)"
        using socket_queue.unlink_found [OF q(1) f(1) [unfolded res]] s2(2) unlink_response_cong [of s2 s1 k pp r]
        by (simp add: answer_frame_def)
      from complete_answer_returns [OF E l2 q2(2) \<open>r \<in> set q\<close> this refl s3_def]
      obtain ps where ps: "walk (\<lambda>p. op_next (heap_operation s3 p)) EB_NULL (cyc_ops (heap_cycle s3 (res_cycle ?res))) = Some ps"
        "\<And>status. \<exists>s4. finish_cycle E (res_cycle ?res) (cyc_ops (heap_cycle s3 (res_cycle ?res))) status s3 = Some s4 \<and> local_bus k s4"
        by metis
      from ps(2) [of "if fail then EB_FAIL else if list_ex (\<lambda>p. op_flags (heap_operation s3 p) AND EB_OP_ERROR \<noteq> 0) ps
          then EB_SEGFAULT else EB_OK"]
      obtain s4 where s4: "finish_cycle E (res_cycle ?res) (cyc_ops (heap_cycle s3 (res_cycle ?res)))
          (if fail then EB_FAIL else if list_ex (\<lambda>p. op_flags (heap_operation s3 p) AND EB_OP_ERROR \<noteq> 0) ps
            then EB_SEGFAULT else EB_OK) s3 = Some s4" "local_bus k s4" by blast
      have "eb_socket_write_config E k widths addr v s = Some (1, eb_free_response r s4)"
        using True f(1) s2(1) ps(1) s4(1) unfolding eb_socket_write_config_def key_def [symmetric]
        by (simp add: res Let_def flip: s3_def)
      with s4(2) local_bus_free(1) show thesis
        by (intro that [of 1 "eb_free_response r s4"]) (auto simp: eb_free_response_def)
    qed
  qed
qed

section \<open>Records\<close>

definition progress :: "eb_ptr \<Rightarrow> 'w slave_st \<Rightarrow> 'w slave_st \<Rightarrow> bool" where
  "progress k st st' \<longleftrightarrow> sl_eos st' = sl_eos st \<and> sl_rptr st \<le> sl_rptr st' \<and> local_bus k (sl_state st')"

lemma progress_trans: "progress k st st' \<Longrightarrow> progress k st' st'' \<Longrightarrow> progress k st st''"
  by (simp add: progress_def)

lemma slave_write_returns:
  assumes E: "well_behaved E k" and c: "sc_socketp c = k" and st: "local_bus k (sl_state st)"
  shows "\<exists>st'. slave_write E c sel wconfig bwa bwa_b bwa_l st = Some st' \<and> progress k st st'"
proof -
  have s: "sl_state (advance c st) = sl_state st" "sl_rptr st \<le> sl_rptr (advance c st)" "sl_eos (advance c st) = sl_eos st"
    by (simp_all add: advance_def)
  let ?w = "sel_width sel OR push_bit 4 (sc_addr c)"
  let ?v = "drop_bit (unat (sel_shift sel) * 8) (load_at c st) AND data_mask_of (sel_width sel)"
  obtain n s1 where "eb_socket_write_config E k ?w bwa ?v (sl_state st) = Some (n, s1)" "local_bus k s1"
    by (rule eb_socket_write_config_returns [OF E st])
  moreover obtain e s2 where "eb_socket_write E k ?w bwa_b bwa_l ?v (sl_error (advance c st)) (sl_state st) = Some (e, s2)" "local_bus k s2"
    using eb_socket_write_returns [OF E st] by blast
  ultimately show ?thesis
    using st s by (simp add: slave_write_def Let_def c progress_def)
qed

lemma slave_write_loop_returns:
  assumes "well_behaved E k" and "sc_socketp c = k" and "local_bus k (sl_state st)"
  shows "\<exists>st'. slave_write_loop E c sel wconfig wfifo bwa bwa_b bwa_l n st = Some st' \<and> progress k st st'"
  using assms(3)
proof (induction n arbitrary: bwa bwa_b bwa_l st)
  case 0
  then show ?case by (simp add: progress_def)
next
  case (Suc n)
  obtain st1 where st1: "slave_write E c sel wconfig bwa bwa_b bwa_l st = Some st1" "progress k st st1"
    using slave_write_returns [OF assms(1,2) Suc.prems] by blast
  then have "local_bus k (sl_state st1)" by (simp add: progress_def)
  let ?d = "if wfifo then 0 else ucast (sc_data c)"
  obtain st2 where "slave_write_loop E c sel wconfig wfifo (bwa + ?d) (bwa_b + ?d) (bwa_l + ?d) n st1 = Some st2" "progress k st1 st2"
    using Suc.IH [OF \<open>local_bus k (sl_state st1)\<close>] by blast
  with st1 progress_trans [OF st1(2)] show ?case unfolding slave_write_loop.simps Let_def by simp
qed

lemma slave_writes_returns:
  assumes "well_behaved E k" and "sc_socketp c = k" and "local_bus k (sl_state st)"
  obtains st' where "slave_writes E c sel flags n st = Some st'" and "progress k st st'"
proof -
  have p: "progress k st (advance c st)" using assms(3) by (simp add: progress_def advance_def)
  then have "local_bus k (sl_state (advance c st))" by (simp add: progress_def)
  note loop = slave_write_loop_returns [OF assms(1,2) this]
  have all: "\<exists>st'. slave_write_loop E c sel wc wf a b l n (advance c st) = Some st' \<and> progress k st st'" for wc wf a b l
    using loop [of sel wc wf a b l n] progress_trans [OF p] by blast
  have "\<exists>st'. slave_writes E c sel flags n st = Some st' \<and> progress k st st'"
  proof (cases "n = 0")
    case True
    with assms(3) show ?thesis by (simp add: slave_writes_def progress_def)
  next
    case False
    then show ?thesis by (simp only: slave_writes_def Let_def if_False all)
  qed
  then show thesis using that by blast
qed

text \<open>The address of a bus read is a multiple of its width.\<close>

lemma dvd_take_bit: "2 ^ n dvd unat (x :: uint64) \<longleftrightarrow> take_bit n x = 0"
proof -
  have "unat (take_bit n x) = unat x mod 2 ^ n" unfolding unsigned_take_bit_eq by (simp add: take_bit_eq_mod)
  then show ?thesis by (metis dvd_eq_mod_eq_0 unat_eq_zero)
qed

lemma width_exp:
  assumes "w \<in> {1, 2, 4, 8 :: nat}"
  obtains n where "w = 2 ^ n"
proof -
  have "w = 2 ^ 0 \<or> w = 2 ^ 1 \<or> w = 2 ^ 2 \<or> w = 2 ^ 3" using assms by simp
  then show thesis using that by blast
qed

lemma dvd_or: 
  assumes "w \<in> {1, 2, 4, 8}" "w dvd unat (x :: uint64)" "w dvd unat y"
  shows "w dvd unat (x OR y)"
proof -
  obtain n where n: "w = 2 ^ n" by (rule width_exp [OF assms(1)])
  show ?thesis using assms(2,3) unfolding n dvd_take_bit take_bit_or by simp
qed

lemma and_mask_dvd:
  assumes "is_width data" and "x AND (ucast data - 1) = (0 :: uint64)"
  shows "unat data dvd unat x"
proof -
  have "x AND mask n = 0 \<Longrightarrow> 2 ^ n dvd unat x" for n by (simp add: dvd_take_bit take_bit_eq_mask)
  from this [of 0] this [of 1] this [of 2] this [of 3] show ?thesis
    using assms by (elim disjE) (simp_all add: mask_eq_exp_minus_1)
qed
lemma width_mult:
  assumes "is_width data" and "select_run data select w sh" and "x AND (ucast data - 1) = 0"
  shows "w dvd unat (x OR ucast (sel_low_b (decode_select data select)) :: uint64)" and "w dvd 8"
proof -
  let ?low = "sel_low_b (decode_select data select)"
  have w: "w \<in> {1, 2, 4, 8}" "w dvd sh" "sh + w \<le> unat data" using assms(2) by (auto simp: select_run_def)
  show "w dvd 8" using w(1) by auto
  have wd: "w dvd unat data" using w(1,3) assms(1) by auto
  have "unat ?low = unat data - (sh + w)" using low_b_run [OF assms(1,2)] by simp
  then have "w dvd unat ?low" using wd w(2) by (simp add: dvd_diff_nat)
  moreover have "unat (ucast ?low :: uint64) = unat ?low"
    using unat_less_exp [of ?low] by (simp add: unsigned_ucast_eq take_bit_nat_eq_self_iff)
  moreover have "w dvd unat x" using and_mask_dvd [OF assms(1,3)] wd dvd_trans by blast
  ultimately show "w dvd unat (x OR ucast ?low)" using w(1) by (intro dvd_or) simp_all
qed
lemma slave_bus_read_returns:
  assumes E: "well_behaved E k" and width: "eb_width_refined width" "c = slave_context k t l mtu width" and st: "local_bus k (sl_state st)"
  shows "\<exists>wv st'. slave_read_value E c (decode_select (sc_data c) select) False ra st = Some (wv, st') \<and> progress k st st'"
proof -
  let ?data = "width AND EB_DATAX" and ?a = "drop_bit 4 width"
  let ?sel = "decode_select ?data select" and ?ra = "ra AND sc_filter c"
  let ?w = "sel_width ?sel OR push_bit 4 ?a"
  note w = refined_widths [OF width(1)]
  have c: "sc_socketp c = k" "sc_data c = ?data" "sc_addr c = ?a" "sc_filter c = address_mask_of ?a AND NOT (ucast ?data - 1)"
    using mask_minus [OF w(2,1)] by (simp_all add: width(2) slave_context_def Let_def address_mask_of_def)
  have "\<exists>v e s'. eb_socket_read E k ?w (?ra OR ucast (sel_low_b ?sel)) (?ra OR ucast (sel_low_l ?sel)) (sl_error st) (sl_state st)
      = Some (v, e, s') \<and> local_bus k s'" if ok: "sel_ok ?sel"
  proof (rule eb_socket_read_returns [OF E st])
    have run: "select_run ?data select (unat (sel_width ?sel)) (unat (sel_shift ?sel))" by (rule decode_select_run [OF w(1) ok])
    then have "sel_width ?sel < 16" by (auto simp: select_run_def word_less_nat_alt)
    from join_nibbles [OF high_nibble_less this, of width]
    show "unat (?w AND EB_DATAX) = unat (sel_width ?sel)" by (simp add: or.commute)
    have "?ra AND (ucast ?data - 1) = 0" unfolding c(4) by (auto intro: bit_word_eqI simp: bit_simps)
    from width_mult [OF w(1) run this]
    show "unat (sel_width ?sel) dvd unat (?ra OR ucast (sel_low_b ?sel))" "unat (sel_width ?sel) dvd 8" by simp_all
  qed
  then show ?thesis using st by (auto simp: slave_read_value_def c Let_def progress_def)
qed

lemma slave_read_returns:
  assumes E: "well_behaved E k" and width: "eb_width_refined width" "c = slave_context k t l mtu width" and st: "local_bus k (sl_state st)"
  shows "\<exists>st'. slave_read E c (decode_select (sc_data c) select) rconfig st = Some st' \<and> progress k st st'"
proof -
  let ?sel = "decode_select (sc_data c) select" and ?st = "advance c st"
  have adv: "progress k st ?st" "local_bus k (sl_state ?st)" using st by (simp_all add: progress_def advance_def)
  have "\<exists>wv st1. slave_read_value E c ?sel rconfig (load_at c st) ?st = Some (wv, st1) \<and> progress k ?st st1"
  proof (cases "rconfig")
    case True
    with slave_config_read_returns [OF width, of E select "load_at c st" ?st] adv(2) show ?thesis by (auto simp: progress_def)
  next
    case False
    then show ?thesis
      using slave_bus_read_returns [OF E width adv(2), of select "load_at c st"] by simp
  qed
  then obtain wv st1 where "slave_read_value E c ?sel rconfig (load_at c st) ?st = Some (wv, st1)" "progress k ?st st1" by blast
  with progress_trans [OF adv(1)] show ?thesis by (simp add: slave_read_def Let_def) (simp add: progress_def emit_def)
qed

lemma slave_read_loop_returns:
  assumes "well_behaved E k" and "eb_width_refined width" "c = slave_context k t l mtu width" and "local_bus k (sl_state st)"
  shows "\<exists>st'. slave_read_loop E c (decode_select (sc_data c) select) rconfig n st = Some st' \<and> progress k st st'"
  using assms(4)
proof (induction n arbitrary: st)
  case 0
  then show ?case by (simp add: progress_def)
next
  case (Suc n)
  obtain st1 where st1: "slave_read E c (decode_select (sc_data c) select) rconfig st = Some st1" "progress k st st1"
    using slave_read_returns [OF assms(1-3) Suc.prems] by blast
  then have "local_bus k (sl_state st1)" by (simp add: progress_def)
  from Suc.IH [OF this] st1 progress_trans [OF st1(2)] show ?case by auto
qed

lemma slave_reads_returns:
  assumes "well_behaved E k" and "eb_width_refined width" "c = slave_context k t l mtu width" and "local_bus k (sl_state st)"
  obtains st' where "slave_reads E c (decode_select (sc_data c) select) flags select rcount st = Some st'" and "progress k st st'"
proof (cases "rcount = 0")
  case True
  with assms(4) show thesis by (intro that [of st]) (simp_all add: slave_reads_def progress_def)
next
  case False
  define st1 where "st1 = emit (reply_header c (sl_cycle_end st) flags select rcount) (st\<lparr>sl_reply := True\<rparr>)"
  define st2 where "st2 = st1\<lparr>sl_cycle_open := (sl_cycle_end st1 = 0)\<rparr>"
  define st3 where "st3 = emit (EB_sWRITE (load_at c st2) (sc_alignment c)) (advance c st2)"
  have p: "progress k st st3" using assms(4) by (simp add: progress_def st3_def st2_def st1_def emit_def advance_def)
  then have "local_bus k (sl_state st3)" by (simp add: progress_def)
  from slave_read_loop_returns [OF assms(1-3) this]
  obtain st' where "slave_read_loop E c (decode_select (sc_data c) select) (flags AND EB_RECORD_RCA \<noteq> 0) (unat rcount) st3 = Some st'"
    "progress k st3 st'" by blast
  with False progress_trans [OF p] show thesis
    by (intro that [of st']) (simp_all add: slave_reads_def st3_def st2_def st1_def Let_def)
qed

text \<open>A record of a packet: it is executed, or the packet is too short for it.\<close>

lemma slave_record_returns:
  assumes "well_behaved E k" and "eb_width_refined width" "c = slave_context k t l mtu width" "mtu \<noteq> 0" and st: "local_bus k (sl_state st)"
  obtains r where "slave_record E c st = Some r" "local_bus k (sl_state (case r of Inl x \<Rightarrow> x | Inr x \<Rightarrow> x))"
    "\<forall>st'. r = Inr st' \<longrightarrow> sl_eos st' = sl_eos st \<and> sl_rptr st + sc_record_alignment c \<le> sl_rptr st'"
proof -
  define flags select wcount rcount where "flags = sl_buf st ! sl_rptr st" "select = sl_buf st ! (sl_rptr st + 1)"
    "wcount = sl_buf st ! (sl_rptr st + 2)" "rcount = sl_buf st ! (sl_rptr st + 3)"
  note defs = this
  let ?sel = "decode_select (sc_data c) select"
  let ?st = "st\<lparr>sl_rptr := sl_rptr st + sc_record_alignment c, sl_cycle_end := flags AND EB_RECORD_CYC\<rparr>"
  have c: "sc_socketp c = k" "sc_mtu c \<noteq> 0" using assms(3,4) by (simp_all add: slave_context_def Let_def)
  have run: "slave_record E c st = do { r \<leftarrow> slave_refill E c (record_words wcount rcount) ?st;
      case r of Inl st \<Rightarrow> Some (Inl st) | Inr st \<Rightarrow> do { st \<leftarrow> slave_writes E c ?sel flags (unat wcount) st;
        st \<leftarrow> slave_reads E c ?sel flags select rcount st; Some (Inr (slave_terminate c st)) } }"
    unfolding slave_record_def Let_def defs add_0_right ..
  have refill: "slave_refill E c n ?st = Some (if n * sc_alignment c \<le> sl_eos ?st - sl_rptr ?st then Inr ?st else Inl ?st)" for n
    using c(2) by (subst slave_refill.simps) simp
  have l: "local_bus k (sl_state ?st)" using st by simp
  obtain st1 where st1: "slave_writes E c ?sel flags (unat wcount) ?st = Some st1" "progress k ?st st1"
    by (rule slave_writes_returns [OF assms(1) c(1) l])
  then have "local_bus k (sl_state st1)" by (simp add: progress_def)
  then obtain st2 where st2: "slave_reads E c ?sel flags select rcount st1 = Some st2" "progress k st1 st2"
    by (rule slave_reads_returns [OF assms(1-3)])
  show thesis
  proof (cases "record_words wcount rcount * sc_alignment c \<le> sl_eos ?st - sl_rptr ?st")
    case True
    then have "slave_record E c st = Some (Inr (slave_terminate c st2))" unfolding run refill by (simp add: st1(1) st2(1))
    moreover have "progress k ?st (slave_terminate c st2)"
      using progress_trans [OF st1(2) st2(2)] by (simp add: progress_def slave_terminate_def emit_def)
    ultimately show thesis by (intro that) (auto simp: progress_def)
  next
    case False
    then have "slave_record E c st = Some (Inl ?st)" unfolding run refill by simp
    with l show thesis by (intro that) auto
  qed
qed

section \<open>Packets\<close>

lemma slave_send_bus: "local_bus k s \<Longrightarrow> local_bus k (slave_send E t l buf s)"
proof (rule local_bus_same)
  show "bus_frame s (slave_send E t l buf s)"
    by (simp add: bus_frame_def slave_send_def set_slave_link_def case_prod_beta Let_def split: option.split)
qed (simp_all add: slave_send_def set_slave_link_def case_prod_beta Let_def split: option.split)

lemma slave_reply_bus:
  "local_bus k (sl_state st) \<Longrightarrow> local_bus k (sl_state (slave_reply E c st))"
  by (simp add: slave_reply_def slave_send_bus)

lemma slave_records_returns:
  assumes "well_behaved E k" and "eb_width_refined width" "c = slave_context k t l mtu width" "mtu \<noteq> 0"
    and "local_bus k (sl_state st)"
  shows "\<exists>r. slave_records E c st = Some r \<and> local_bus k (sl_state (case r of Inl x \<Rightarrow> x | Inr x \<Rightarrow> x))"
  using assms(5)
proof (induction "sl_eos st - sl_rptr st" arbitrary: st rule: less_induct)
  case less
  have c: "sc_mtu c \<noteq> 0" "0 < sc_record_alignment c"
    using assms(3,4) by (simp_all add: slave_context_def Let_def eb_record_alignment_def)
  show ?case
  proof (cases "sl_rptr st + sc_record_alignment c \<le> sl_eos st")
    case True
    obtain r where r: "slave_record E c st = Some r" "local_bus k (sl_state (case r of Inl x \<Rightarrow> x | Inr x \<Rightarrow> x))"
      "\<forall>st'. r = Inr st' \<longrightarrow> sl_eos st' = sl_eos st \<and> sl_rptr st + sc_record_alignment c \<le> sl_rptr st'"
      by (rule slave_record_returns [OF assms(1-4) less.prems])
    have unfold: "slave_records E c st = (case r of Inl st \<Rightarrow> Some (Inl st) | Inr st \<Rightarrow> slave_records E c st)"
      using True r(1) by (subst slave_records.simps) simp
    show ?thesis
    proof (cases r)
      case (Inl st')
      with r(2) show ?thesis unfolding unfold by simp
    next
      case (Inr st')
      with r(3) c(2) True have "sl_eos st' - sl_rptr st' < sl_eos st - sl_rptr st" by force
      from less.hyps [OF this] r(2) Inr show ?thesis unfolding unfold by simp
    qed
  next
    case False
    then show ?thesis
      using c(1) less.prems slave_reply_bus by (subst slave_records.simps) (auto simp: Let_def)
  qed
qed

lemma refine_refined:
  assumes "eb_width_possible (eb_width_refine w)"
  shows "eb_width_refined (eb_width_refine w)"
proof -
  have parts: "eb_width_refine w AND 15 = refine_nibble (w AND 15)" "drop_bit 4 (eb_width_refine w) = refine_nibble (drop_bit 4 w)"
    unfolding eb_width_refine_nibbles
    by (intro join_nibbles refine_nibble_less low_nibble_less high_nibble_less)+
  have "refine_nibble x AND (refine_nibble x - 1) = 0" if "x < 16" for x
    using nibble_cases [OF that] by (auto simp: refine_nibble_def)
  then show ?thesis
    using assms low_nibble_less high_nibble_less by (simp add: eb_width_refined_def eb_width_possible_def Let_def parts)
qed

text \<open>A packet is answered, or its connection is closed; only passive connections, which streams have, are freed.\<close>

lemma slave_kill_returns:
  assumes "local_bus k s"
  obtains s' where "slave_kill E t l d False s = Some s'" and "local_bus k s'"
proof (cases "d = EB_NULL")
  case True
  with assms show thesis by (intro that [of s]) (simp_all add: slave_kill_def)
next
  case False
  let ?s = "eb_disconnect E t l s"
  let ?s2 = "eb_free_link (dev_link (heap_device ?s d)) ?s"
  let ?s3 = "upd_device d (\<lambda>d. d\<lparr>dev_link := EB_NULL\<rparr>) ?s2"
  have "local_bus k ?s3"
    by (rule local_bus_same [OF _ _ _ _ assms]) (simp_all add: bus_frame_def eb_disconnect_def eb_free_link_def Let_def)
  then show thesis using False by (intro that [of ?s3]) (simp_all add: slave_kill_def Let_def)
qed

lemma slave_header_returns:
  assumes "local_bus k s"
  obtains h where "slave_header E k t l d active False len buf s = Some h"
    and "case h of Header_kill s' \<Rightarrow> local_bus k s' | Header_return _ s' \<Rightarrow> local_bus k s' | Header_records w _ \<Rightarrow> eb_width_refined w"
proof -
  have upd: "local_bus k (upd_device e f s)" if "\<And>x. dev_next (f x) = dev_next x" for e f
    by (rule local_bus_same [OF _ _ _ _ assms]) (simp_all add: bus_frame_def that)
  obtain ds where "device_list k s = Some ds" using assms by (auto simp: local_bus_def)
  then have "\<exists>h. slave_header E k t l d active False len buf s = Some h \<and>
      (case h of Header_kill s' \<Rightarrow> local_bus k s' | Header_return _ s' \<Rightarrow> local_bus k s' | Header_records w _ \<Rightarrow> eb_width_refined w)"
    using assms upd slave_send_bus refine_refined
    by (auto simp: slave_header_def slave_probe_def slave_probe_response_def Let_def split: option.split)
  then show thesis using that by blast
qed

lemma eb_device_slave_packet:
  assumes "tops = env_transports E (tra_link_type (heap_transport s t))" "tops_mtu tops \<noteq> 0"
    and "d = EB_NULL \<or> dev_ready (heap_device s d) \<noteq> d" and "linkp = (if d \<noteq> EB_NULL then dev_link (heap_device s d) else EB_NULL)"
    and "tops_poll tops (heap_transport s t) (slave_link linkp s) ready BUFFER_SIZE (os s) = (len, bs, l, w)"
    and "s1 = set_slave_link linkp l (s\<lparr>os := w\<rparr>)"
    and "slave_header E k t linkp d (d \<noteq> EB_NULL) False (nat len) (blit 0 bs (stack_bytes E BUFFER_SIZE)) s1 = Some h"
    and "c = slave_context k t linkp (tops_mtu tops)"
  shows "eb_device_slave E k t d ready s =
    (if len = 0 then Some (0, 0, s1)
     else if len < 2 then do { s \<leftarrow> slave_kill E t linkp d False s1; Some (0, 0, s) }
     else case h of
         Header_kill s \<Rightarrow> do { s \<leftarrow> slave_kill E t linkp d False s; Some (0, 0, s) }
       | Header_return n s \<Rightarrow> Some (n, 0, s)
       | Header_records w b \<Rightarrow> do { r \<leftarrow> slave_records E (c w) (slave_start (c w) True (nat len) b s1);
           case r of Inl st \<Rightarrow> do { s \<leftarrow> slave_kill E t linkp d False (sl_state st); Some (0, sl_completed st, s) }
           | Inr st \<Rightarrow> Some (1, sl_completed st, sl_state st) })"
proof -
  have notpassive: "(d \<noteq> EB_NULL \<and> dev_ready (heap_device s d) = d) = False" using assms(3) by auto
  show ?thesis
    using assms(2,5-8)
    unfolding eb_device_slave_def Let_def notpassive assms(1) [symmetric] assms(4) [symmetric] by (cases h) simp_all
qed

text \<open>C5: A packet is processed to its end, whatever bytes it holds. The conditions are: the transport delivers packets
  (its packet size is not 0), the device is not a passive one, the handlers and callbacks of the application keep the
  tables of the socket (\<open>well_behaved\<close>), and these are well formed at the start (\<open>local_bus\<close>), in particular no cycle
  of an SDB scan waits for an answer. Then \<^verbatim>\<open>eb_device_slave\<close> returns and leaves the tables well formed, so that
  the next packet is processed as well.\<close>

theorem eb_device_slave_returns:
  assumes E: "well_behaved E k" and s: "local_bus k s"
    and packets: "tops_mtu (env_transports E (tra_link_type (heap_transport s t))) \<noteq> 0"
    and d: "d = EB_NULL \<or> dev_ready (heap_device s d) \<noteq> d"
  shows "\<exists>n completed s'. eb_device_slave E k t d ready s = Some (n, completed, s') \<and> local_bus k s'"
proof -
  define tops where "tops = env_transports E (tra_link_type (heap_transport s t))"
  define linkp where "linkp = (if d \<noteq> EB_NULL then dev_link (heap_device s d) else EB_NULL)"
  define c where "c = slave_context k t linkp (tops_mtu tops)"
  obtain len bs l w where poll: "tops_poll tops (heap_transport s t) (slave_link linkp s) ready BUFFER_SIZE (os s) = (len, bs, l, w)"
    by (metis prod_cases4)
  define s1 where "s1 = set_slave_link linkp l (s\<lparr>os := w\<rparr>)"
  have s1: "local_bus k s1"
    by (rule local_bus_same [OF _ _ _ _ s]) (simp_all add: s1_def bus_frame_def set_slave_link_def split: option.split)
  obtain h where h: "slave_header E k t linkp d (d \<noteq> EB_NULL) False (nat len) (blit 0 bs (stack_bytes E BUFFER_SIZE)) s1 = Some h"
    "case h of Header_kill s' \<Rightarrow> local_bus k s' | Header_return _ s' \<Rightarrow> local_bus k s' | Header_records w _ \<Rightarrow> eb_width_refined w"
    by (rule slave_header_returns [OF s1])
  note run = eb_device_slave_packet [OF tops_def packets [folded tops_def] d linkp_def poll s1_def h(1) c_def]
  have kill: "\<exists>s''. slave_kill E t linkp d False s' = Some s'' \<and> local_bus k s''" if "local_bus k s'" for s'
    using slave_kill_returns [OF that] by metis
  show ?thesis
  proof (cases h)
    case (Header_records w b)
    then have "\<exists>r. slave_records E (c w) (slave_start (c w) True (nat len) b s1) = Some r
        \<and> local_bus k (sl_state (case r of Inl x \<Rightarrow> x | Inr x \<Rightarrow> x))"
      unfolding c_def using packets s1 h(2)
      by (intro slave_records_returns [OF E _ refl]) (simp_all add: tops_def slave_start_def Let_def)
    then obtain r where r: "slave_records E (c w) (slave_start (c w) True (nat len) b s1) = Some r"
      "local_bus k (sl_state (case r of Inl x \<Rightarrow> x | Inr x \<Rightarrow> x))" by blast
    with s1 kill [OF s1] kill [OF r(2)] show ?thesis unfolding run Header_records by (cases r) auto
  qed (use h(2) s1 kill [OF s1] kill in \<open>auto simp: run\<close>)
qed

text \<open>A UDP packet with one record that writes to no handler and reads beyond all handlers.\<close>

definition example_packet :: bytes where
  "example_packet = [0x4E, 0x6F, 0x10, 0x44, 0xA8, 0x0F, 1, 1, 0, 0, 0, 0, 0, 0, 0, 9, 0, 0, 0x80, 0, 0xFF, 0xFF, 0xFF, 0xF0]"

definition packet_env :: "unit eb_env" where
  "packet_env = unit_env\<lparr>env_transports := (\<lambda>ty. (env_transports unit_env ty)\<lparr>tops_poll :=
     (\<lambda>_ l _ _ w. (int (length example_packet), example_packet, l, w))\<rparr>)\<rparr>"

lemma example_local_bus: "local_bus 5 example_bus"
proof -
  have "response_lists example_bus 5 [] []"
    by (simp add: response_lists_def resp_chain_def) (simp add: example_bus_def)
  then have "response_queue example_bus 5 []" by (rule response_queueI) simp
  then have "ready_queue 5 example_bus" by (auto simp: ready_queue_def)
  moreover have "device_list 5 example_bus = Some []" by (simp add: device_list_def walk.simps) (simp add: example_bus_def)
  ultimately show ?thesis
    using example_handlers by (simp add: local_bus_def sdb_base_def) (simp add: example_bus_def eb_state0_def)
qed

theorem eb_device_slave_returns_witness:
  "\<exists>n completed s'. eb_device_slave packet_env 5 6 EB_NULL (\<lambda>_ _. True) example_bus = Some (n, completed, s') \<and> local_bus 5 s'"
proof (rule eb_device_slave_returns)
  show "well_behaved packet_env 5"
    by (simp add: well_behaved_def keeps_bus_def packet_env_def unit_env_def)
qed (simp_all add: example_local_bus packet_env_def unit_env_def)

section \<open>In place\<close>

lemma slave_context_ok: "slave_ctx_ok (slave_context k t l mtu width)"
proof -
  have "(8 :: uint8) \<le> b \<Longrightarrow> 4 \<le> b" for b by (rule order_trans) simp_all
  then have "eb_alignment b \<le> eb_record_alignment b" for b by (simp add: eb_alignment_def eb_record_alignment_def)
  then show ?thesis
    using is_alignment_eb_alignment
    by (simp add: slave_ctx_ok_def slave_context_def Let_def) (simp add: eb_record_alignment_def)
qed

text \<open>C6: The reply is built in place and never overtakes the request. With the drivers of the POSIX build and the widths
  the two sides negotiated, a record that is processed leaves the write position behind the read position and
  both inside the buffer; in a packet, the bytes behind the record are those that were received.\<close>

theorem slave_in_place:
  assumes "c = slave_context k t l mtu width" and "slave_ok st" and "sl_rptr st + sc_record_alignment c \<le> sl_eos st"
    and "slave_record (posix_env S E) c st = Some (Inr st')"
  shows "slave_ok st' \<and> (mtu \<noteq> 0 \<longrightarrow> sl_rptr st + sc_record_alignment c \<le> sl_rptr st' \<and> sl_eos st' = sl_eos st
    \<and> drop (sl_rptr st') (sl_buf st') = drop (sl_rptr st') (sl_buf st))"
proof -
  have "slave_ctx_ok c" "sc_mtu c = mtu" using slave_context_ok by (simp_all add: assms(1) slave_context_def Let_def)
  with posix.slave_record_ok [OF _ assms(2-4)] show ?thesis by simp
qed

text \<open>A record that writes 9 to the address \<open>0x1000\<close> and reads the address \<open>0x20000\<close>, whose value goes to the return
  address \<open>0x8000\<close> of the master; and a socket whose one handler answers both.\<close>

definition busy_record :: bytes where
  "busy_record = [0xA8, 0x0F, 1, 1, 0, 0, 0x10, 0, 0, 0, 0, 9, 0, 0, 0x80, 0, 0, 2, 0, 0]"

definition busy_state :: "'w \<Rightarrow> 'w eb_state" where
  "busy_state w = (eb_state0 w)\<lparr>
     heap_socket := (\<lambda>_. \<lparr>sock_first_device = EB_NULL, sock_first_handler = 7, sock_first_response = EB_NULL,
       sock_last_response = EB_NULL, sock_aux = 6, sock_widths = 0xFF\<rparr>),
     heap_handler_address := (\<lambda>_. \<lparr>had_device = 1, had_callback = 8, had_next = EB_NULL\<rparr>),
     heap_handler_callback := (\<lambda>_. \<lparr>hcb_data = 0, hcb_read = 1, hcb_write = 1\<rparr>),
     user_sdb_mem := (\<lambda>p. (user_sdb_mem (eb_state0 w) p)\<lparr>dev_component :=
       (dev_component (user_sdb_mem (eb_state0 w) p))\<lparr>addr_first := 0, addr_last := 0x2FFFF\<rparr>\<rparr>)\<rparr>"

definition busy_env :: "'w eb_env \<Rightarrow> 'w eb_env" where
  "busy_env E = E\<lparr>env_read := (\<lambda>_ _ _ _ s. (EB_OK, 42, s)), env_write := (\<lambda>_ _ _ _ _ s. (EB_OK, s))\<rparr>"

abbreviation busy_context :: slave_ctx where
  "busy_context \<equiv> slave_context 5 6 0 1472 0x44"

abbreviation busy_start :: "'w \<Rightarrow> 'w slave_st" where
  "busy_start w \<equiv> slave_start busy_context False 20 (busy_record @ replicate (BUFFER_SIZE - 20) 0) (busy_state w)"

lemma busy_handlers: "handler_list 5 (busy_state w) = Some [7]" "handler_range (busy_state w) 7 = (0, 0x2FFFF)"
  by (simp_all add: handler_list_def walk.simps handler_range_def) (simp_all add: busy_state_def eb_state0_def)

lemma busy_callbacks:
  "hcb_read (heap_handler_callback (busy_state w) p) = 1" "hcb_write (heap_handler_callback (busy_state w) p) = 1"
  "aux_sdb_offset (heap_socket_aux (busy_state w) q) = 0"
  by (simp_all add: busy_state_def eb_state0_def)

lemma busy_bus:
  "eb_socket_write (posix_env S (busy_env E)) 5 0x44 0x1000 l v 0 (busy_state w) = Some (0, busy_state w)"
  "eb_socket_read (posix_env S (busy_env E)) 5 0x44 0x20000 l 0 (busy_state w) = Some (42, 0, busy_state w)"
  unfolding eb_socket_write_def eb_socket_read_def
  by (simp_all add: busy_handlers busy_callbacks Let_def posix_env_def busy_env_def shift_error_def)

lemma busy_constants:
  "sc_record_alignment busy_context = 4" "sc_alignment busy_context = 4" "sc_socketp busy_context = 5"
  "sc_data busy_context = 4" "sc_addr busy_context = 4" "sc_filter busy_context = 0xFFFFFFFC" "sc_mtu busy_context = 1472"
  "decode_select 4 0x0F = \<lparr>sel_ok = True, sel_shift = 0, sel_width = 4, sel_low_b = 0, sel_low_l = 0\<rparr>"
  "data_mask_of 4 = 0xFFFFFFFF"
  by (simp_all add: slave_context_def Let_def eb_record_alignment_def eb_alignment_def) code_simp+

lemma busy_load: "load_at busy_context st = of_be 0 (take 4 (drop (sl_rptr st) (sl_buf st)))"
  by (simp add: load_at_def EB_LOAD_def busy_constants)

lemma busy_words:
  "of_be 0 [0, 0, 0x10, 0] = 0x1000" "of_be 0 [0, 0, 0, 9] = 9" "of_be 0 [0, 0, 0x80, 0] = 0x8000" "of_be 0 [0, 2, 0, 0] = 0x20000"
  "EB_sWRITE 0x8000 4 = [0, 0, 0x80, 0]" "EB_sWRITE 42 4 = [0, 0, 0, 42]"
  by code_simp+

lemma busy_writes:
  assumes "sl_buf st = busy_record @ rest" "sl_rptr st = 4" "sl_error st = 0" "sl_state st = busy_state w"
  shows "slave_writes (posix_env S (busy_env E)) busy_context (decode_select 4 0x0F) 0xA8 1 st = Some (st\<lparr>sl_rptr := 12\<rparr>)"
proof -
  have "slave_write (posix_env S (busy_env E)) busy_context (decode_select 4 0x0F) False 0x1000 0x1000 0x1000
      (st\<lparr>sl_rptr := 8\<rparr>) = Some (st\<lparr>sl_rptr := 12\<rparr>)"
    using assms by (simp add: slave_write_def Let_def busy_constants busy_load busy_words busy_bus advance_def busy_record_def)
  with assms show ?thesis
    by (simp add: slave_writes_def Let_def busy_constants busy_load busy_words advance_def busy_record_def)
qed

lemma busy_reads:
  assumes "sl_buf st = busy_record @ rest" "sl_rptr st = 12" "sl_wptr st = 0" "sl_error st = 0" "sl_state st = busy_state w"
    "sl_cycle_end st = 8"
  shows "slave_reads (posix_env S (busy_env E)) busy_context (decode_select 4 0x0F) 0xA8 0x0F 1 st =
    Some (st\<lparr>sl_buf := [0x0E, 0x0F, 1, 0, 0, 0, 0x80, 0, 0, 0, 0, 42] @ drop 12 (busy_record @ rest), sl_rptr := 20, sl_wptr := 12,
      sl_reply := True, sl_cycle_open := False\<rparr>)"
proof -
  have head: "reply_header busy_context 8 0xA8 0x0F 1 = [0x0E, 0x0F, 1, 0]"
    by (simp add: reply_header_def busy_constants)
  show ?thesis
    using assms
    by (simp add: slave_reads_def Let_def head slave_read_def slave_read_value_def emit_def blit_def busy_constants busy_load
        busy_words busy_bus advance_def busy_record_def)
qed

lemma busy_run: "\<exists>st'. slave_record (posix_env S (busy_env E)) busy_context (busy_start w) = Some (Inr st')
    \<and> sl_wptr st' = 12 \<and> sl_reply st' \<and> take 12 (sl_buf st') = [0x0E, 0x0F, 1, 0, 0, 0, 0x80, 0, 0, 0, 0, 42]"
proof -
  define rest st0 where "rest = replicate (BUFFER_SIZE - 20) (0 :: uint8)" "st0 = busy_start w"
  note defs = this
  have head: "sl_rptr st0 = 0" "sl_buf st0 ! 0 = 0xA8" "sl_buf st0 ! Suc 0 = 0x0F" "sl_buf st0 ! 2 = 1" "sl_buf st0 ! 3 = 1"
    "sl_eos st0 = 20"
    by (simp_all add: defs(2) slave_start_def busy_record_def)
  let ?st = "st0\<lparr>sl_rptr := 4, sl_cycle_end := 8\<rparr>"
  have start: "sl_buf ?st = busy_record @ rest" "sl_rptr ?st = 4" "sl_wptr ?st = 0" "sl_error ?st = 0"
    "sl_state ?st = busy_state w" "sl_cycle_end ?st = 8"
    by (simp_all add: defs slave_start_def)
  have refill: "slave_refill (posix_env S (busy_env E)) busy_context 4 ?st = Some (Inr ?st)"
    by (subst slave_refill.simps) (simp add: busy_constants head)
  have writes: "slave_writes (posix_env S (busy_env E)) busy_context (decode_select 4 0x0F) 0xA8 1 ?st = Some (?st\<lparr>sl_rptr := 12\<rparr>)"
    by (rule busy_writes [OF start(1,2,4,5)])
  have words: "record_words 1 1 = 4" by (simp add: record_words_def)
  let ?st' = "?st\<lparr>sl_buf := [0x0E, 0x0F, 1, 0, 0, 0, 0x80, 0, 0, 0, 0, 42] @ drop 12 (busy_record @ rest),
    sl_rptr := 20, sl_wptr := 12, sl_reply := True, sl_cycle_open := False\<rparr>"
  have reads: "slave_reads (posix_env S (busy_env E)) busy_context (decode_select 4 0x0F) 0xA8 0x0F 1 (?st\<lparr>sl_rptr := 12\<rparr>) = Some ?st'"
    using busy_reads [of "?st\<lparr>sl_rptr := 12\<rparr>"] start by simp
  have "slave_record (posix_env S (busy_env E)) busy_context st0 = Some (Inr ?st')"
    using refill writes reads
    by (simp add: slave_record_def Let_def head words busy_constants(1,4) slave_terminate_def)
  then show ?thesis unfolding defs(2) by auto
qed

theorem slave_in_place_witness:
  "\<forall>(S :: unit posix_sys) E w. \<exists>st'. slave_record (posix_env S (busy_env E)) busy_context (busy_start w) = Some (Inr st')
     \<and> slave_ok st' \<and> sl_reply st' \<and> take (sl_wptr st') (sl_buf st') = [0x0E, 0x0F, 1, 0, 0, 0, 0x80, 0, 0, 0, 0, 42]"
proof (intro allI)
  fix S :: "unit posix_sys" and E :: "unit posix_world eb_env" and w :: "unit posix_world"
  obtain st' where st': "slave_record (posix_env S (busy_env E)) busy_context (busy_start w) = Some (Inr st')"
    "sl_wptr st' = 12" "sl_reply st'" "take 12 (sl_buf st') = [0x0E, 0x0F, 1, 0, 0, 0, 0x80, 0, 0, 0, 0, 42]"
    using busy_run by blast
  have "slave_ok (busy_start w)" by (simp add: slave_start_def slave_ok_def busy_record_def)
  from slave_in_place [OF refl this _ st'(1)] st'
  show "\<exists>st'. slave_record (posix_env S (busy_env E)) busy_context (busy_start w) = Some (Inr st')
     \<and> slave_ok st' \<and> sl_reply st' \<and> take (sl_wptr st') (sl_buf st') = [0x0E, 0x0F, 1, 0, 0, 0, 0x80, 0, 0, 0, 0, 42]"
    by (simp add: busy_constants slave_start_def)
qed

end
