(* ===== verification/EB_Sdb_Table.thy ===== *)
theory EB_Sdb_Table
  imports EB_Packet
begin

text \<open>
  The self-describing bus seen from both ends. The slave has no table in memory: \<^verbatim>\<open>eb_sdb\<close> computes each word
  from the list of handlers. Here its answers are shown to be the words of one byte image, the header followed by
  the records of the handlers, and the decoder of the master is shown to recover the devices from this image.
\<close>

unbundle bit_operations_syntax

section \<open>The image of the table\<close>

definition handler_device :: "'w eb_state \<Rightarrow> eb_ptr \<Rightarrow> sdb_device" where
  "handler_device s p = user_sdb_mem s (had_device (heap_handler_address s p))"

definition sdb_image :: "'w eb_env \<Rightarrow> sdb_device list \<Rightarrow> bytes" where
  "sdb_image E ds = interconnect_bytes E (int (length ds)) @ concat (map device_bytes ds)"

abbreviation named_device :: "sdb_device \<Rightarrow> bool" where
  "named_device d \<equiv> length (prod_name (product (dev_component d))) = 19"

lemma concat_block:
  assumes "\<forall>x \<in> set xs. length (f x) = n" and "i < length xs" and "j + m \<le> n"
  shows "take m (drop (i * n + j) (concat (map f xs) @ rest)) = take m (drop j (f (xs ! i)))"
  using assms
proof (induction xs arbitrary: i)
  case (Cons x xs)
  show ?case
  proof (cases i)
    case 0
    with Cons.prems show ?thesis by simp
  next
    case (Suc i')
    with Cons show ?thesis by (simp add: add.assoc add.commute [of n])
  qed
qed simp

lemma length_concat_blocks: "\<forall>x \<in> set xs. length (f x) = n \<Longrightarrow> length (concat (map f xs)) = length xs * n"
  by (induction xs) simp_all

lemma length_sdb_image: "\<forall>d \<in> set ds. named_device d \<Longrightarrow> length (sdb_image E ds) = 64 * Suc (length ds)"
  using length_concat_blocks [of ds device_bytes 64] by (simp add: sdb_image_def length_interconnect length_device)

lemma eb_sdb_find_nth: "eb_sdb_find (int n + 1) hs = (if n < length hs then Some (hs ! n) else None)"
proof (induction hs arbitrary: n)
  case (Cons p ps)
  show ?case
  proof (cases n)
    case (Suc m)
    with Cons.IH [of m] show ?thesis by (simp add: add.commute)
  qed simp
qed simp

lemma of_be_zeros: "of_be 0 (replicate n 0) = 0"
  by (induction n) simp_all

text \<open>The record number of an address inside the window of the table.\<close>

lemma record_number:
  assumes "addr < 0x10000"
  shows "sint (ucast (drop_bit 6 (addr :: uint64)) :: 32 word) = int (unat addr div 64)"
proof -
  define n where "n = unat addr div 64"
  have "unat addr < 65536" using assms by (simp add: word_less_nat_alt)
  then have n: "n < 1024" by (simp add: n_def)
  have "unat (drop_bit 6 addr) = n" by (simp add: n_def drop_bit_eq_div unat_div)
  then have "ucast (drop_bit 6 addr) = (word_of_nat n :: 32 word)" by (metis of_nat_unat)
  moreover have "unat (word_of_nat n :: 32 word) = n" using n by (intro unat_of_nat_small) simp
  then have "uint (word_of_nat n :: 32 word) = int n" by (metis of_nat_unat)
  ultimately show ?thesis using n unfolding n_def [symmetric] by (simp add: sint_uint signed_take_bit_int_eq_self)
qed

text \<open>C26: The slave presents its handlers as one table. Inside the window of 64 KiB, a read of one, two, four or eight
  bytes at a multiple of its width returns the bytes at that place of the image: the header with the number of
  records, the records of the handlers in the order of the list, and zeros behind them.\<close>

theorem eb_sdb_image:
  assumes hs: "handler_list k s = Some hs" "ds = map (handler_device s) hs" "\<forall>d \<in> set ds. named_device d"
    and w: "unat (width AND EB_DATAX) = w" "w dvd 8" "w dvd unat addr" and addr: "addr < 0x10000"
  shows "eb_sdb E k width addr s = Some (of_be 0 (take w (drop (unat addr) (sdb_image E ds @ replicate 65536 0))))"
proof (cases "addr < 0x40")
  case True
  then have "unat addr < 64" by (simp add: word_less_nat_alt)
  moreover have "w dvd 64" using w(2) dvd_trans [of w 8 64] by simp
  ultimately have room: "unat addr + w \<le> 64" using mod_block [OF w(3), of 64] by simp
  then have "take w (drop (unat addr) (sdb_image E ds @ replicate 65536 0)) = take w (drop (unat addr) (interconnect_bytes E (int (length hs))))"
    using hs(2) by (simp add: sdb_image_def length_interconnect)
  then show ?thesis
    using True room w(1) hs(1)
    by (simp add: eb_sdb_def eb_sdb_interconnect_def eb_sdb_extract_def length_interconnect del: append_assoc)
next
  case False
  let ?j = "unat addr mod 64"
  define n where "n = unat addr div 64 - 1"
  have "unat addr < 65536" "64 \<le> unat addr" using addr False by (simp_all add: word_less_nat_alt)
  then have n: "unat addr = 64 + (n * 64 + ?j)" "unat addr div 64 = Suc n"
    using div_mult_mod_eq [of "unat addr" 64] div_le_mono [of 64 "unat addr" 64] by (simp_all add: n_def algebra_simps)
  have "w dvd 64" using w(2) dvd_trans [of w 8 64] by simp
  then have room: "?j + w \<le> 64" using mod_block [OF w(3), of 64] by simp
  have "addr AND 0x3f = addr mod 64" using take_bit_eq_mask [of 6 addr] by (simp add: mask_eq_exp_minus_1 take_bit_eq_mod)
  then have low: "unat (addr AND 0x3f) = ?j" by (simp add: unat_mod)
  have find: "eb_sdb_find (sint (ucast (drop_bit 6 addr) :: 32 word)) hs = (if n < length hs then Some (hs ! n) else None)"
    using eb_sdb_find_nth [of n hs] by (simp add: record_number [OF addr] n(2) add.commute)
  have lens: "\<forall>d \<in> set ds. length (device_bytes d) = 64" using hs(3) length_device by blast
  have image: "take w (drop (unat addr) (sdb_image E ds @ replicate 65536 0))
      = take w (drop (n * 64 + ?j) (concat (map device_bytes ds) @ replicate 65536 0))"
    by (subst n(1)) (simp add: sdb_image_def length_interconnect)
  show ?thesis
  proof (cases "n < length hs")
    case True
    then have "ds ! n = handler_device s (hs ! n)" "n < length ds" using hs(2) by simp_all
    moreover from this have "eb_sdb E k width addr s = eb_sdb_device (ds ! n) width (addr AND 0x3f)"
      using True False hs(1) find by (simp add: eb_sdb_def handler_device_def)
    moreover have "length (device_bytes (ds ! n)) = 64" using lens \<open>n < length ds\<close> by simp
    then have "eb_sdb_device (ds ! n) width (addr AND 0x3f) = Some (of_be 0 (take w (drop ?j (device_bytes (ds ! n)))))"
      using w(1) low room by (simp add: eb_sdb_device_def eb_sdb_extract_def)
    ultimately show ?thesis unfolding image concat_block [OF lens \<open>n < length ds\<close> room] by simp
  next
    case beyond: False
    let ?m = "n * 64 + ?j - length (concat (map device_bytes ds))"
    have "length (concat (map device_bytes ds)) \<le> n * 64" using beyond hs(2) length_concat_blocks [OF lens] by simp
    then have "take w (drop (n * 64 + ?j) (concat (map device_bytes ds) @ replicate 65536 0)) = take w (replicate (65536 - ?m) 0)"
      by simp
    also have "\<dots> = replicate w 0" using \<open>unat addr < 65536\<close> n(1) room by (simp add: min_def)
    finally have zero: "take w (drop (n * 64 + ?j) (concat (map device_bytes ds) @ replicate 65536 0)) = replicate w 0" .
    show ?thesis unfolding image zero using beyond False hs(1) find by (simp add: eb_sdb_def of_be_zeros)
  qed
qed

section \<open>Decoding the image\<close>

lemma ucast_take_ucast [simp]:
  "ucast (take_bit 32 (ucast x :: uint64)) = (x :: uint32)" "ucast (take_bit 16 (ucast y :: uint64)) = (y :: uint16)"
  "ucast (ucast b :: uint64) = (b :: uint8)"
  by (auto intro!: bit_word_eqI simp: bit_simps)

lemma ucast_count [simp]: "ucast (take_bit 16 (word_of_nat n + 1 :: uint64)) = (1 + word_of_nat n :: uint16)"
proof -
  have "ucast (take_bit 16 (word_of_nat (Suc n) :: uint64)) = (word_of_nat (Suc n) :: uint16)"
    by (rule bit_word_eqI) (simp add: bit_simps del: of_nat_Suc)
  then show ?thesis by (simp add: add.commute)
qed

lemmas decode_simps = field_def of_be_be_bytes take_bit_word_eq_self length_interconnect

lemma product_decode:
  assumes "length (prod_name p) = 19"
  shows "eb_sdb_product_decode (product_bytes p ty @ rest) = p\<lparr>record_type := ty\<rparr>"
  using assms by (simp add: eb_sdb_product_decode_def product_bytes_def decode_simps)

lemma component_decode:
  assumes "length (prod_name (product c)) = 19"
  shows "eb_sdb_component_decode (component_bytes c ty @ rest) base = \<lparr>addr_first = addr_first c + base,
    addr_last = addr_last c + base, product = (product c)\<lparr>record_type := ty\<rparr>\<rparr>"
  using product_decode [OF assms, of ty rest] by (simp add: eb_sdb_component_decode_def component_bytes_def decode_simps)

text \<open>A device seen through a bus that starts at \<open>base\<close>; the type of its record says that it is a device.\<close>

definition seen_device :: "eb_address_t \<Rightarrow> sdb_device \<Rightarrow> sdb_device" where
  "seen_device base d = d\<lparr>dev_component := \<lparr>addr_first = addr_first (dev_component d) + base,
     addr_last = addr_last (dev_component d) + base, product = (product (dev_component d))\<lparr>record_type := 0x01\<rparr>\<rparr>\<rparr>"

lemma record_decode_device:
  assumes "named_device d"
  shows "record_decode (device_bytes d) base = Sdb_device (seen_device base d)"
  using component_decode [OF assms, of "0x01" "[]" base] assms
  by (simp add: record_decode_def device_bytes_def seen_device_def decode_simps Let_def)
    (simp add: component_bytes_def product_bytes_def)

text \<open>C27: What a slave publishes a master finds. Decoding the image of a table gives back its devices in order, moved to
  the bus they are seen through, behind a header that counts the records and names the bus.\<close>

theorem sdb_table_roundtrip:
  assumes "\<forall>d \<in> set ds. named_device d" and "length ds < 65535"
  shows "table_decode (sdb_image E ds) base = (\<lparr>sdb_magic = ucast SDB_MAGIC, sdb_records = of_nat (Suc (length ds)), sdb_version = 1,
      sdb_bus_type = 0, icn_component = \<lparr>addr_first = base, addr_last = base - 1, product = \<lparr>vendor_id = 0x651,
        device_id = 0x02398114, version = env_version E, date = env_date E, prod_name = software_eb_bus, record_type = 0\<rparr>\<rparr>\<rparr>,
    map (\<lambda>d. Sdb_device (seen_device base d)) ds)"
proof -
  let ?icn = "interconnect_decode (sdb_image E ds) base"
  have "length (prod_name (product \<lparr>addr_first = 0, addr_last = - 1, product = \<lparr>vendor_id = 0x651, device_id = 0x02398114,
      version = env_version E, date = env_date E, prod_name = software_eb_bus, record_type = 0\<rparr>\<rparr>)) = 19"
    by (simp add: software_eb_bus_def)
  from component_decode [OF this, of 0 "concat (map device_bytes ds)" base]
  have icn: "?icn = \<lparr>sdb_magic = ucast SDB_MAGIC, sdb_records = of_nat (Suc (length ds)), sdb_version = 1,
      sdb_bus_type = 0, icn_component = \<lparr>addr_first = base, addr_last = base - 1, product = \<lparr>vendor_id = 0x651,
        device_id = 0x02398114, version = env_version E, date = env_date E, prod_name = software_eb_bus, record_type = 0\<rparr>\<rparr>\<rparr>"
    by (simp add: interconnect_decode_def sdb_image_def interconnect_bytes_def decode_simps)
  have records: "unat (sdb_records ?icn) - 1 = length ds"
    using assms(2) unfolding icn by (simp add: unat_of_nat_small del: of_nat_Suc)
  have lens: "\<forall>d \<in> set ds. length (device_bytes d) = 64" using assms(1) length_device by blast
  have "take 64 (drop (64 * Suc i) (sdb_image E ds)) = device_bytes (ds ! i)" if "i < length ds" for i
    using concat_block [OF lens that, of 0 64 "[]"] lens that by (simp add: sdb_image_def length_interconnect mult.commute)
  then have "map (\<lambda>i. record_decode (take 64 (drop (64 * Suc i) (sdb_image E ds))) base) [0 ..< length ds]
      = map (\<lambda>d. Sdb_device (seen_device base d)) ds"
    using assms(1) record_decode_device by (intro nth_equalityI) simp_all
  then show ?thesis unfolding table_decode_def Let_def records unfolding icn by simp
qed

definition example_device :: sdb_device where
  "example_device = \<lparr>abi_class = 0, abi_ver_major = 1, abi_ver_minor = 0, bus_specific = 7,
     dev_component = \<lparr>addr_first = 0x1000, addr_last = 0x1FFF, product = \<lparr>vendor_id = 0x651, device_id = 3, version = 1,
       date = 0x20130401, prod_name = replicate 19 65, record_type = 1\<rparr>\<rparr>\<rparr>"

theorem sdb_table_roundtrip_witness:
  "snd (table_decode (sdb_image unit_env [example_device]) 0) = [Sdb_device example_device]"
proof -
  have "\<forall>d \<in> set [example_device]. named_device d" by (simp add: example_device_def)
  from sdb_table_roundtrip [OF this, of unit_env 0] show ?thesis by (simp add: seen_device_def example_device_def)
qed

theorem eb_sdb_image_witness:
  "eb_sdb unit_env 5 0x44 0x48 example_bus
     = Some (of_be 0 (take 4 (drop 0x48 (sdb_image unit_env [handler_device example_bus 7] @ replicate 65536 0))))"
proof -
  have named: "\<forall>d \<in> set [handler_device example_bus 7]. named_device d"
    by (simp add: handler_device_def example_bus_def eb_state0_def)
  have "eb_sdb unit_env 5 0x44 0x48 example_bus
     = Some (of_be 0 (take 4 (drop (unat (0x48 :: uint64)) (sdb_image unit_env [handler_device example_bus 7] @ replicate 65536 0))))"
    by (rule eb_sdb_image [OF example_handlers(1) _ named]) simp_all
  then show ?thesis by simp
qed

end
