(* ===== verification/EB_Return.thy ===== *)
theory EB_Return
  imports EB_Queue
begin

text \<open>
  Return addresses. \<^verbatim>\<open>eb_device_flush\<close> labels each cycle that waits for an answer with an even 16-bit address from
  \<^verbatim>\<open>0x8000\<close> up and moves on by two; an answer is matched to its cycle by this address alone. Here the sequence of
  addresses is shown to repeat only after 16384 cycles.
\<close>

unbundle bit_operations_syntax

section \<open>The sequence of addresses\<close>

definition rba_of :: "nat \<Rightarrow> uint16" where
  "rba_of n = word_of_nat (0x8000 + 2 * (n mod 0x4000))"

lemma or_top:
  assumes "m < 0x8000"
  shows "0x8000 OR word_of_nat m = (word_of_nat (0x8000 + m) :: uint16)"
proof -
  have "take_bit 15 m = m" using assms by (simp add: take_bit_nat_eq_self_iff)
  then have m: "bit m k \<Longrightarrow> k < 15" for k by (metis bit_take_bit_iff)
  have "bit (2 ^ 15 :: uint16) k \<longleftrightarrow> k = 15" for k unfolding bit_exp_iff by (auto simp: possible_bit_word)
  then have "\<not> bit (2 ^ 15 :: uint16) k \<or> \<not> bit (word_of_nat m :: uint16) k" for k
    using m [of k] unfolding bit_of_nat_iff by auto
  then have "(2 ^ 15 :: uint16) + word_of_nat m = 2 ^ 15 OR word_of_nat m" by (rule disjunctive_add)
  then show ?thesis by simp
qed

lemma rba_of_Suc: "0x8000 OR (rba_of n + 2) = rba_of (Suc n)"
proof (cases "Suc (n mod 0x4000) = 0x4000")
  case True
  then have "n mod 0x4000 = 0x3FFF" "Suc n mod 0x4000 = 0" by (simp_all add: mod_Suc)
  then show ?thesis by (simp add: rba_of_def)
next
  case False
  define m where "m = 2 * (n mod 0x4000) + 2"
  have "n mod 0x4000 < 0x4000" by simp
  then have "m < 0x8000" "Suc n mod 0x4000 = Suc (n mod 0x4000)" using False by (simp_all add: m_def mod_Suc)
  moreover have "rba_of n + 2 = 0x8000 + word_of_nat m" by (simp add: rba_of_def m_def)
  moreover have "0x8000 OR (0x8000 + word_of_nat m) = (0x8000 + word_of_nat m :: uint16)"
    using or_top [OF \<open>m < 0x8000\<close>] by (metis (no_types) of_nat_add of_nat_numeral or.left_idem)
  ultimately show ?thesis by (simp add: rba_of_def m_def)
qed

lemma unat_rba_of: "unat (rba_of n) = 0x8000 + 2 * (n mod 0x4000)"
proof -
  have "n mod 0x4000 < 0x4000" by simp
  then have "0x8000 + 2 * (n mod 0x4000) < 2 ^ LENGTH(16)" by simp
  then show ?thesis unfolding rba_of_def by (rule unat_of_nat_small)
qed

lemma rba_of_inject:
  assumes "i < j" and "j < i + 0x4000"
  shows "rba_of i \<noteq> rba_of j"
proof
  assume "rba_of i = rba_of j"
  then have "unat (rba_of i) = unat (rba_of j)" by simp
  then have "i mod 0x4000 = j mod 0x4000" by (simp add: unat_rba_of)
  then have "0x4000 dvd j - i" using assms(1) by (metis less_imp_le mod_eq_dvd_iff_nat)
  with assms show False by (auto dest: dvd_imp_le)
qed

section \<open>Queueing\<close>

text \<open>The responses \<open>rs\<close>, each for a cycle, queued in a row.\<close>

fun queue_all :: "eb_ptr \<Rightarrow> (eb_ptr \<times> eb_ptr \<times> bool) list \<Rightarrow> 'w eb_state \<Rightarrow> 'w eb_state option" where
  "queue_all k [] s = Some s"
| "queue_all k ((r, c, needs_check) # rs) s = do { s \<leftarrow> queue_response k r c needs_check s; queue_all k rs s }"

abbreviation next_address :: "eb_ptr \<Rightarrow> 'w eb_state \<Rightarrow> uint16" where
  "next_address k s \<equiv> aux_rba (heap_socket_aux s (sock_aux (heap_socket s k)))"

lemma queue_response_next:
  assumes "queue_response k r c needs_check s = Some s'"
  shows "next_address k s' = 0x8000 OR (next_address k s + 2)"
  using assms by (auto simp: queue_response_def Let_def split: Option.bind_splits)

lemma queue_all_addresses:
  assumes "queue_all k rs s = Some s'" and "response_queue s k q" and "distinct (q @ map fst rs)" and "EB_NULL \<notin> set (map fst rs)"
    and "next_address k s = rba_of n"
  shows "response_queue s' k (q @ map fst rs) \<and> map (\<lambda>r. res_address (heap_response s' r)) (map fst rs) = map rba_of [n ..< n + length rs]
    \<and> (\<forall>b. b \<notin> set (map fst rs) \<longrightarrow> heap_response s' b = heap_response s b)"
  using assms
proof (induction rs arbitrary: s q n)
  case Nil
  then show ?case by simp
next
  case (Cons x rs)
  obtain r c b where x: "x = (r, c, b)" by (cases x)
  then obtain s1 where s1: "queue_response k r c b s = Some s1" "queue_all k rs s1 = Some s'"
    using Cons.prems(1) by (auto elim: bind_SomeE)
  have r: "r \<notin> set q" "r \<noteq> EB_NULL" using Cons.prems(3,4) x by auto
  note p = queue_response_push [OF Cons.prems(2) r s1(1)]
  have "next_address k s1 = rba_of (Suc n)"
    using queue_response_next [OF s1(1)] Cons.prems(5) rba_of_Suc by simp
  moreover have "distinct ((q @ [r]) @ map fst rs)" "EB_NULL \<notin> set (map fst rs)" using Cons.prems(3,4) x by auto
  ultimately have ih: "response_queue s' k ((q @ [r]) @ map fst rs)"
    "map (\<lambda>r. res_address (heap_response s' r)) (map fst rs) = map rba_of [Suc n ..< Suc n + length rs]"
    "\<forall>b. b \<notin> set (map fst rs) \<longrightarrow> heap_response s' b = heap_response s1 b"
    using Cons.IH [OF s1(2) p(1)] by blast+
  have "r \<notin> set (map fst rs)" using Cons.prems(3) x by auto
  then have "res_address (heap_response s' r) = rba_of n" using ih(3) p(2) Cons.prems(5) by simp
  moreover have "[n ..< n + length (x # rs)] = n # [Suc n ..< Suc n + length rs]" by (simp add: upt_rec)
  ultimately show ?case using ih p(5) x by auto
qed

text \<open>Answers cannot be confused. If the queue of a socket is empty and \<open>rs\<close> are queued in a row, up to 16384 of them,
  then each has an even return address of its own, so that the response an answer finds is the one it was sent for.\<close>

theorem return_addresses_distinct:
  assumes "queue_all k rs s = Some s'" and "response_queue s k []" and "distinct (map fst rs)" and "EB_NULL \<notin> set (map fst rs)"
    and "next_address k s = rba_of n" and "length rs \<le> 16384"
  shows "response_queue s' k (map fst rs) \<and> distinct (map (\<lambda>r. res_address (heap_response s' r)) (map fst rs))
    \<and> (\<forall>r \<in> set (map fst rs). even (unat (res_address (heap_response s' r)))
         \<and> find (\<lambda>a. res_address (heap_response s' a) = res_address (heap_response s' r)) (map fst rs) = Some r)"
proof -
  let ?a = "\<lambda>r. res_address (heap_response s' r)"
  have q: "response_queue s' k (map fst rs)" and addr: "map ?a (map fst rs) = map rba_of [n ..< n + length rs]"
    using queue_all_addresses [OF assms(1,2)] assms(3-5) by auto
  have "inj_on rba_of (set [n ..< n + length rs])"
  proof (rule inj_onI)
    fix i j
    assume "i \<in> set [n ..< n + length rs]" "j \<in> set [n ..< n + length rs]" "rba_of i = rba_of j"
    with rba_of_inject [of i j] rba_of_inject [of j i] assms(6) show "i = j" by (cases i j rule: linorder_cases) auto
  qed
  then have d: "distinct (map ?a (map fst rs))" unfolding addr by (simp add: distinct_map)
  have "even (unat (?a r))" if "r \<in> set (map fst rs)" for r
  proof -
    have "?a r \<in> set (map rba_of [n ..< n + length rs])" using that unfolding addr [symmetric] by auto
    then show ?thesis by (auto simp: unat_rba_of)
  qed
  moreover have "find (\<lambda>a. ?a a = ?a r) (map fst rs) = Some r" if r: "r \<in> set (map fst rs)" for r
  proof -
    obtain us vs where split: "map fst rs = us @ r # vs" using split_list [OF r] by blast
    have "\<forall>u \<in> set us. ?a u \<noteq> ?a r" using d unfolding split by (auto simp: image_iff)
    then show ?thesis unfolding split by (simp add: find_split)
  qed
  ultimately show ?thesis using q d by blast
qed

definition example_empty :: "unit eb_state" where
  "example_empty = example_queue\<lparr>heap_socket := (\<lambda>_. \<lparr>sock_first_device = EB_NULL, sock_first_handler = EB_NULL,
     sock_first_response = EB_NULL, sock_last_response = EB_NULL, sock_aux = 6, sock_widths = 0xFF\<rparr>)\<rparr>"

theorem return_addresses_distinct_witness:
  "\<exists>s'. queue_all 5 [(40, 20, False), (41, 21, True)] example_empty = Some s' \<and> response_queue s' 5 [40, 41]
     \<and> res_address (heap_response s' 40) \<noteq> res_address (heap_response s' 41)"
proof -
  have "response_lists example_empty 5 [] []"
    by (simp add: response_lists_def resp_chain_def) (simp add: example_empty_def)
  then have q: "response_queue example_empty 5 []" by (rule response_queueI) simp
  have ops: "cyc_ops (heap_cycle example_empty c) = EB_NULL" for c by (simp add: example_empty_def example_queue_def)
  obtain s' where s': "queue_all 5 [(40, 20, False), (41, 21, True)] example_empty = Some s'"
    by (simp add: queue_response_def eb_find_read.simps eb_find_bus.simps ops Let_def)
  have n: "next_address 5 example_empty = rba_of 0" by (simp add: example_empty_def example_queue_def rba_of_def)
  from return_addresses_distinct [OF s' q _ _ n] s' show ?thesis by auto
qed

end
