(* ===== verification/EB_LM32.thy ===== *)
theory EB_LM32
  imports EB_Transport
begin

text \<open>
  \<^verbatim>\<open>transport/lm32.c\<close>: the only transport of the build for the LM32 processor, UDP over raw Ethernet frames. The
  driver parses its own address strings and builds the IP and UDP headers itself. The network interface
  (\<^verbatim>\<open>ptpd_netif\<close>, \<^verbatim>\<open>getIP\<close>) is a parameter. The processor is big-endian, pointers and \<^verbatim>\<open>long\<close> have 32 bits.

  The value \<open>None\<close> stands for an access outside an object: a string read past its end, more data than the
  1500 bytes of the frame buffer, a copy over the parameters of a function.
\<close>

unbundle bit_operations_syntax

section \<open>The network interface\<close>

record lm32_saddr =
  sa_if_name :: string
  sa_ethertype :: uint16
  sa_mac :: bytes

record 'v lm32_world =
  lw_saddr :: lm32_saddr      \<comment> \<open>the global \<^verbatim>\<open>saddr\<close>\<close>
  lw_os :: 'v

record 'v lm32_sys =
  nif_create_socket :: "lm32_saddr \<Rightarrow> 'v \<Rightarrow> uint32 \<times> 'v"
  nif_recvfrom :: "uint32 \<Rightarrow> nat \<Rightarrow> lm32_saddr \<Rightarrow> 'v \<Rightarrow> int \<times> bytes \<times> lm32_saddr \<times> 'v"
  nif_sendto :: "uint32 \<Rightarrow> lm32_saddr \<Rightarrow> bytes \<Rightarrow> 'v \<Rightarrow> 'v"
  nif_getIP :: "'v \<Rightarrow> uint32"
  nif_stack :: bytes          \<comment> \<open>what \<^verbatim>\<open>tx_buf[1500]\<close> holds before it is written\<close>

section \<open>Parsing addresses\<close>

text \<open>\<^verbatim>\<open>strtol\<close> with a given base, on a string without its final NUL.\<close>

definition c_strtol :: "nat \<Rightarrow> string \<Rightarrow> int \<times> string" where
  "c_strtol base str =
     (let s = dropWhile c_isspace str;
          neg = (s \<noteq> [] \<and> hd s = CHR ''-'');
          s = (if s \<noteq> [] \<and> hd s \<in> {CHR ''-'', CHR ''+''} then tl s else s);
          s = (if base = 16 \<and> 2 < length s \<and> hd s = CHR ''0'' \<and> s ! 1 \<in> {CHR ''x'', CHR ''X''} \<and> c_digit (s ! 2) < 16
               then drop 2 s else s)
      in if s = [] \<or> \<not> c_digit (hd s) < base then (0, str)
         else let (n, rest) = c_number base 0 s;
                  v = (if neg then - int n else int n)
              in (max (- (2 ^ 31)) (min (2 ^ 31 - 1) v), rest))"

text \<open>The pointer behind the first delimiter, or to the end of the string.\<close>

fun strsplit :: "string \<Rightarrow> char \<Rightarrow> string" where
  "strsplit [] delimeter = []"
| "strsplit (c # cs) delimeter = (if c = delimeter then cs else strsplit cs delimeter)"

text \<open>\<^verbatim>\<open>bytes\<close> points to offset \<open>off\<close> of the raw link; a value above 255 writes two bytes. The pointer \<^verbatim>\<open>pend+1\<close> is \<open>None\<close>
  when \<^verbatim>\<open>pend\<close> is the end of the string.\<close>

function numStrToBytes :: "string option \<Rightarrow> nat \<Rightarrow> nat \<Rightarrow> nat \<Rightarrow> nat \<Rightarrow> bytes \<Rightarrow> bytes option" where
  "numStrToBytes pch off len base byteCount raw =
     (if byteCount < len
      then case pch of
             None \<Rightarrow> None
           | Some s \<Rightarrow>
               let (tmpconv, pend) = c_strtol base s;
                   (raw, byteCount') = (if tmpconv > 255 then (raw[off + byteCount := word_of_int (tmpconv div 256)], Suc byteCount)
                                        else (raw, byteCount));
                   raw = raw[off + byteCount' := word_of_int tmpconv]
               in numStrToBytes (case pend of [] \<Rightarrow> None | _ # pch \<Rightarrow> Some pch) off len base (Suc byteCount') raw
      else Some raw)"
  by auto
termination
  by (relation "measure (\<lambda>(pch, off, len, base, byteCount, raw). len - byteCount)") (auto split: if_splits)

declare numStrToBytes.simps [simp del]

datatype adress_type = MAC | IP | PORT

definition addressStrToBytes :: "string \<Rightarrow> nat \<Rightarrow> adress_type \<Rightarrow> bytes \<Rightarrow> bytes option" where
  "addressStrToBytes addressStr off addtype raw =
     (case addtype of
        MAC \<Rightarrow> numStrToBytes (Some addressStr) off 6 16 0 raw
      | IP \<Rightarrow> numStrToBytes (Some addressStr) off 4 10 0 raw
      | PORT \<Rightarrow> Some raw)"

text \<open>\<^verbatim>\<open>struct eb_lm32_udp_link\<close> in the raw bytes of the link: \<^verbatim>\<open>mac\<close>, \<^verbatim>\<open>ipv4\<close>, \<^verbatim>\<open>port\<close>.\<close>

definition lm32_mac :: "eb_link \<Rightarrow> bytes" where "lm32_mac l = take 6 (link_raw l)"
definition lm32_ipv4 :: "eb_link \<Rightarrow> bytes" where "lm32_ipv4 l = take 4 (drop 6 (link_raw l))"
definition lm32_port :: "eb_link \<Rightarrow> bytes" where "lm32_port l = take 2 (drop 10 (link_raw l))"

definition lm32_socket4 :: "eb_transport \<Rightarrow> uint32" where "lm32_socket4 t = ucast (of_be 0 (take 4 (tra_raw t)))"

section \<open>Opening and connecting\<close>

definition eb_lm32_udp_open ::
  "'v lm32_sys \<Rightarrow> eb_transport \<Rightarrow> string \<Rightarrow> 'v lm32_world \<Rightarrow> eb_status_t \<times> eb_transport \<times> 'v lm32_world" where
  "eb_lm32_udp_open S t port w =
     (let saddr = \<lparr>sa_if_name = port, sa_ethertype = 0x0800, sa_mac = replicate 6 1\<rparr>;
          (sock4, v) = nif_create_socket S saddr (lw_os w);
          w = w\<lparr>lw_saddr := saddr, lw_os := v\<rparr>
      in if sock4 = 0 then (EB_BUSY, t, w)
         else (EB_OK, t\<lparr>tra_raw := be_bytes 4 (ucast sock4) @ drop 4 (tra_raw t)\<rparr>, w))"

definition eb_lm32_udp_close :: "eb_transport \<Rightarrow> 'v lm32_world \<Rightarrow> 'v lm32_world" where
  "eb_lm32_udp_close t w = w"

definition connect_port :: "string \<Rightarrow> bytes \<Rightarrow> eb_status_t \<times> bytes" where
  "connect_port pch raw =
     (if take 4 pch = ''port''
      then (EB_OK, take 10 raw @ be_bytes 2 (word_of_int (fst (c_strtol 10 (strsplit pch CHR ''/'')))) @ drop 12 raw)
      else (EB_FAIL, raw))"

definition eb_lm32_udp_connect :: "eb_link \<Rightarrow> string option \<Rightarrow> (eb_status_t \<times> eb_link) option" where
  "eb_lm32_udp_connect l address =
     (case address of None \<Rightarrow> Some (EB_FAIL, l)
      | Some pch \<Rightarrow>
          if take 2 pch \<noteq> ''hw'' then Some (EB_FAIL, l)
          else do { let pch = strsplit pch CHR ''/'';
                    raw \<leftarrow> addressStrToBytes pch 0 MAC (link_raw l);
                    let pch = strsplit pch CHR ''/'';
                    if take 3 pch \<noteq> ''udp'' then Some (EB_FAIL, l\<lparr>link_raw := raw\<rparr>)
                    else do { let pch = strsplit pch CHR ''/'';
                              raw \<leftarrow> addressStrToBytes pch 6 IP raw;
                              let (stat, raw) = connect_port (strsplit pch CHR ''/'') raw;
                              Some (stat, l\<lparr>link_raw := raw\<rparr>) } })"

definition eb_lm32_udp_disconnect :: "eb_transport \<Rightarrow> eb_link \<Rightarrow> 'v lm32_world \<Rightarrow> 'v lm32_world" where
  "eb_lm32_udp_disconnect t l w = w"

section \<open>Checksums\<close>

text \<open>The big-endian 16-bit word at index \<open>i\<close>, and the loop that adds \<open>n\<close> of them to a 32-bit sum.\<close>

definition word_at :: "bytes \<Rightarrow> nat \<Rightarrow> uint32" where
  "word_at buf i = push_bit 8 (ucast (buf ! i)) OR ucast (buf ! Suc i)"

fun add_words :: "bytes \<Rightarrow> nat \<Rightarrow> nat \<Rightarrow> uint32 \<Rightarrow> uint32" where
  "add_words buf i 0 acc = acc"
| "add_words buf i (Suc n) acc = add_words buf (i + 2) n (acc + word_at buf i)"

definition fold_carries :: "uint32 \<Rightarrow> uint16" where
  "fold_carries acc =
     (let acc = drop_bit 16 acc + (acc AND 0xffff);
          acc = acc + drop_bit 16 acc
      in ucast (NOT acc AND 0xffff))"

definition myIP_checksum :: "bytes \<Rightarrow> nat \<Rightarrow> uint16" where
  "myIP_checksum buf shorts = fold_carries (add_words buf 0 shorts 0)"

text \<open>For an odd length the loop reads one byte behind the data, and the statement after it one more, at
  \<^verbatim>\<open>databuf[len+2]\<close>.\<close>

definition udp_checksum :: "bytes \<Rightarrow> bytes \<Rightarrow> uint16 \<Rightarrow> uint16 option" where
  "udp_checksum hdrbuf databuf len =
     (if length databuf < (if odd (unat len) then unat len + 3 else unat len) then None
      else let acc = add_words databuf 0 ((unat len + 1) div 2) 0;
               acc = (if odd (unat len) then acc + push_bit 8 (ucast (databuf ! (unat len + 2))) else acc);
               pseudosum = word_at hdrbuf 12 + word_at hdrbuf 14 + word_at hdrbuf 16 + word_at hdrbuf 18
                 + ucast (hdrbuf ! 9) + word_at hdrbuf 20 + word_at hdrbuf 22 + word_at hdrbuf 24 + word_at hdrbuf 26;
               acc = acc + (pseudosum + ucast len + 8)
           in Some (fold_carries acc))"

section \<open>Sending and receiving\<close>

definition two_bytes :: "uint16 \<Rightarrow> bytes" where
  "two_bytes v = [ucast (drop_bit 8 v), ucast v]"

definition ip_header :: "uint32 \<Rightarrow> eb_link \<Rightarrow> uint16 \<Rightarrow> bytes \<Rightarrow> bytes" where
  "ip_header myip l len hdrbuf =
     (let hdrbuf = blit 0 ([0x45, 0x00] @ two_bytes (len + 28) @ [0, 0, 0, 0, 0x10, 0x11, 0, 0]
            @ be_bytes 4 (ucast myip) @ lm32_ipv4 l) hdrbuf
      in blit 10 (two_bytes (myIP_checksum hdrbuf 10)) hdrbuf)"

definition createUdpIpHdr :: "uint32 \<Rightarrow> eb_link \<Rightarrow> bytes \<Rightarrow> bytes \<Rightarrow> uint16 \<Rightarrow> bytes option" where
  "createUdpIpHdr myip l hdrbuf databuf len =
     do { let hdrbuf = blit 20 (two_bytes 0xEBD0 @ lm32_port l @ two_bytes (len + 8) @ [0, 0]) (ip_header myip l len hdrbuf);
          chksum \<leftarrow> udp_checksum hdrbuf databuf len;
          Some (blit 26 (two_bytes chksum) hdrbuf) }"

definition eb_lm32_udp_send ::
  "'v lm32_sys \<Rightarrow> eb_transport \<Rightarrow> eb_link \<Rightarrow> bytes \<Rightarrow> 'v lm32_world \<Rightarrow> 'v lm32_world option" where
  "eb_lm32_udp_send S t l buf w =
     do { let saddr = (lw_saddr w)\<lparr>sa_mac := lm32_mac l\<rparr>;
          tx_buf \<leftarrow> createUdpIpHdr (nif_getIP S (lw_os w)) l (take 1500 (nif_stack S)) buf (word_of_nat (length buf));
          if 28 + length buf > 1500 then None
          else Some (w\<lparr>lw_saddr := saddr,
                 lw_os := nif_sendto S (lm32_socket4 t) saddr (take (28 + length buf) (blit 28 buf tx_buf)) (lw_os w)\<rparr>) }"

text \<open>\<^verbatim>\<open>memcpy(&buf, ...)\<close> overwrites the parameter \<^verbatim>\<open>buf\<close> and what lies behind it, not the buffer of the caller, which
  stays as it is.\<close>

definition eb_lm32_udp_poll ::
  "'v lm32_sys \<Rightarrow> eb_transport \<Rightarrow> nat \<Rightarrow> 'v lm32_world \<Rightarrow> (int \<times> 'v lm32_world) option" where
  "eb_lm32_udp_poll S t len w =
     (let (r, rx_buf, saddr, v) = nif_recvfrom S (lm32_socket4 t) 1500 (lw_saddr w) (lw_os w);
          w = w\<lparr>lw_saddr := saddr, lw_os := v\<rparr>;
          rx_len = (word_of_int r :: uint16)
      in if rx_len = 0 then Some (- 1, w)
         else if uint rx_len < int len then Some (- 1, w)
         else if uint rx_len - 28 \<in> {0 .. 4} then Some (uint rx_len - 28, w)
         else None)"

definition eb_lm32_udp_recv :: "'v lm32_world \<Rightarrow> int \<times> 'v lm32_world" where
  "eb_lm32_udp_recv w = (0, w)"

definition eb_lm32_udp_accept :: "'v lm32_world \<Rightarrow> int \<times> 'v lm32_world" where
  "eb_lm32_udp_accept w = (0, w)"

definition eb_lm32_udp_fdes :: "eb_transport \<Rightarrow> eb_link option \<Rightarrow> (int \<times> uint8) list" where
  "eb_lm32_udp_fdes t l = []"

definition eb_lm32_udp_send_buffer :: "eb_link option \<Rightarrow> bool \<Rightarrow> 'v lm32_world \<Rightarrow> eb_link option \<times> 'v lm32_world" where
  "eb_lm32_udp_send_buffer l on w = (l, w)"

text \<open>This build has no event loop.\<close>

definition lm32_socket_run :: "eb_ptr \<Rightarrow> int \<Rightarrow> 'w eb_state \<Rightarrow> int \<times> 'w eb_state" where
  "lm32_socket_run socketp timeout_us s = (0, s)"

section \<open>The one's complement sum\<close>

text \<open>The reference: big-endian words added as numbers. A block is valid when its sum is a positive multiple
  of \<open>65535\<close>, which is the zero of one's complement arithmetic.\<close>

fun word_sum :: "bytes \<Rightarrow> nat" where
  "word_sum (a # b # bs) = unat a * 256 + unat b + word_sum bs"
| "word_sum [a] = unat a * 256"
| "word_sum [] = 0"

definition checksum_valid :: "nat \<Rightarrow> bool" where
  "checksum_valid n \<longleftrightarrow> 0 < n \<and> 65535 dvd n"

lemma word_at_nat: "unat (word_at buf i) = unat (buf ! i) * 256 + unat (buf ! Suc i)"
proof -
  let ?a = "buf ! i" and ?b = "buf ! Suc i"
  have "bit (push_bit 8 (ucast ?a) :: uint32) k \<Longrightarrow> \<not> bit (ucast ?b :: uint32) k" for k
    using bit_imp_le_length [of ?b k] by (auto simp: bit_push_bit_iff bit_ucast_iff)
  then have "word_at buf i = push_bit 8 (ucast ?a) + ucast ?b"
    unfolding word_at_def by (intro disjunctive_add [symmetric]) blast
  also have "\<dots> = word_of_nat (unat ?a * 256 + unat ?b)" by (simp add: push_bit_eq_mult unsigned_def)
  finally have "word_at buf i = word_of_nat (unat ?a * 256 + unat ?b)" .
  moreover have "unat ?a * 256 + unat ?b < 2 ^ LENGTH(32)" using unat_less_exp [of ?a] unat_less_exp [of ?b] by simp
  ultimately show ?thesis by (simp only: unat_of_nat_small)
qed

lemma word_sum_append: "even (length xs) \<Longrightarrow> word_sum (xs @ ys) = word_sum xs + word_sum ys"
  by (induction xs rule: word_sum.induct) auto

lemma word_sum_bound: "word_sum xs \<le> 65535 * ((length xs + 1) div 2)"
proof (induction xs rule: word_sum.induct)
  case (1 a b bs)
  then show ?case using unat_less_exp [of a] unat_less_exp [of b] by simp
next
  case (2 a)
  then show ?case using unat_less_exp [of a] by simp
qed simp

lemma fold_nat:
  fixes s :: nat
  assumes "s < 2 ^ 32" and "t = s div 65536 + s mod 65536" and "u = t + t div 65536"
  shows "65535 dvd s + (65535 - u mod 65536)" and "u < 2 ^ 32" and "u mod 65536 \<le> 65535"
proof -
  show "u mod 65536 \<le> 65535" by (simp add: less_Suc_eq_le [symmetric])
  have "s div 65536 < 65536" using assms(1) by (simp add: less_mult_imp_div_less)
  moreover have "s mod 65536 < 65536" by simp
  ultimately have t: "t \<le> 131070" using assms(2) by simp
  then show "u < 2 ^ 32" using assms(3) by simp
  define h where "h = s div 65536"
  have s: "s = t + 65535 * h" using assms(2) by (simp add: h_def)
  show "65535 dvd s + (65535 - u mod 65536)"
  proof (cases "t < 65536")
    case True
    then have "s + (65535 - u mod 65536) = 65535 * (h + 1)" using assms(3) s by simp
    then show ?thesis by simp
  next
    case False
    then have "t div 65536 = 1" using t by simp
    then have "u mod 65536 = t - 65535" using assms(3) t False by (simp add: mod_if)
    then have "s + (65535 - u mod 65536) = 65535 * (h + 2)" using s t False by simp
    then show ?thesis by simp
  qed
qed

lemma unat_not_16: "unat (NOT x :: uint16) = 65535 - unat x"
proof -
  have top: "(65535 :: uint16) = - 1" by simp
  have "NOT x = 65535 - x" unfolding top by (simp add: not_eq_complement)
  moreover have "x \<le> 65535" unfolding top by simp
  ultimately show ?thesis using unat_sub [of x 65535] by simp
qed

lemma fold_carries_valid: "65535 dvd unat s + unat (fold_carries s)"
proof -
  define v where "v = drop_bit 16 s + (s AND 0xffff)"
  define u where "u = v + drop_bit 16 v"
  have low: "unat (x AND 0xffff) = unat x mod 65536" for x :: uint32
  proof -
    have "x AND 0xffff = x mod 65536" using take_bit_eq_mask [of 16 x] by (simp add: mask_eq_exp_minus_1 take_bit_eq_mod)
    then show ?thesis by (simp add: unat_mod)
  qed
  have high: "unat (drop_bit 16 x) = unat x div 65536" for x :: uint32 by (simp add: drop_bit_eq_div unat_div)
  have s: "unat s < 2 ^ 32" using unat_less_exp [of s] by simp
  define t where "t = unat s div 65536 + unat s mod 65536"
  have "unat s div 65536 < 65536" "unat s mod 65536 < 65536" using s by (simp_all add: less_mult_imp_div_less)
  then have t: "t < 2 ^ 32" by (simp add: t_def)
  have v: "unat v = t" using t low [of s] high [of s] by (simp add: v_def t_def unat_plus_if_size word_size)
  note f = fold_nat [OF s t_def refl]
  have u: "unat u = t + t div 65536" using f(2) high [of v] v by (simp add: u_def unat_plus_if_size word_size)
  have m: "(0xffff :: uint32) = mask 16" by (simp add: mask_eq_exp_minus_1)
  have "fold_carries s = NOT (ucast u)"
    unfolding fold_carries_def Let_def v_def [symmetric] u_def [symmetric] unfolding m
    by (rule bit_word_eqI) (auto simp: bit_simps)
  then have "unat (fold_carries s) = 65535 - unat u mod 65536"
    by (simp add: unat_not_16 unsigned_ucast_eq take_bit_eq_mod)
  then show ?thesis using f(1) u by simp
qed

lemma unat_add_words:
  "i + 2 * n \<le> length buf \<Longrightarrow> unat acc + word_sum (take (2 * n) (drop i buf)) < 2 ^ 32 \<Longrightarrow>
   unat (add_words buf i n acc) = unat acc + word_sum (take (2 * n) (drop i buf))"
proof (induction n arbitrary: i acc)
  case (Suc n)
  have "drop i buf = buf ! i # buf ! Suc i # drop (i + 2) buf"
    using Suc.prems(1) by (simp add: Cons_nth_drop_Suc)
  then have w: "word_sum (take (2 * Suc n) (drop i buf)) = unat (word_at buf i) + word_sum (take (2 * n) (drop (i + 2) buf))"
    by (simp add: word_at_nat)
  then have "unat (acc + word_at buf i) = unat acc + unat (word_at buf i)"
    using Suc.prems(2) by (simp add: unat_plus_if_size word_size)
  with Suc w show ?case by simp
qed simp

lemma two_bytes_nat: "unat (ucast (drop_bit 8 v) :: uint8) * 256 + unat (ucast v :: uint8) = unat (v :: uint16)"
  using unat_less_exp [of v] by (simp add: unsigned_ucast_eq take_bit_eq_mod drop_bit_eq_div unat_div less_mult_imp_div_less)

lemma word_sum_two_bytes: "word_sum (two_bytes v @ ys) = unat v + word_sum ys"
  using two_bytes_nat [of v] by (simp add: two_bytes_def)

lemma word_at_two_bytes: "unat (word_at (xs @ two_bytes v @ ys) (length xs)) = unat v"
  using two_bytes_nat [of v] by (simp add: word_at_nat two_bytes_def nth_append)

lemma word_sum_replace:
  "even (length xs) \<Longrightarrow> word_sum (xs @ two_bytes v @ ys) = word_sum (xs @ [0, 0] @ ys) + unat v"
  by (simp add: word_sum_append word_sum_two_bytes)

lemma length_two_bytes [simp]: "length (two_bytes v) = 2"
  by (simp add: two_bytes_def)

text \<open>The two headers, written out.\<close>

definition ip_head :: "uint16 \<Rightarrow> bytes" where
  "ip_head len = [0x45, 0x00] @ two_bytes (len + 28) @ [0, 0, 0, 0, 0x10, 0x11]"

definition ip_tail :: "uint32 \<Rightarrow> eb_link \<Rightarrow> bytes" where
  "ip_tail myip l = be_bytes 4 (ucast myip) @ lm32_ipv4 l"

definition udp_head :: "eb_link \<Rightarrow> uint16 \<Rightarrow> bytes" where
  "udp_head l len = two_bytes 0xEBD0 @ lm32_port l @ two_bytes (len + 8)"

lemma header_lengths:
  assumes "length (link_raw l) = 12"
  shows "length (ip_head len) = 10" "length (ip_tail myip l) = 8" "length (udp_head l len) = 6"
  using assms by (simp_all add: ip_head_def ip_tail_def udp_head_def lm32_ipv4_def lm32_port_def)

lemma ip_header_bytes:
  assumes "length (link_raw l) = 12" and "length hdrbuf = 1500"
  shows "\<exists>chk. ip_header myip l len hdrbuf = ip_head len @ two_bytes chk @ ip_tail myip l @ drop 20 hdrbuf
    \<and> checksum_valid (word_sum (ip_head len @ two_bytes chk @ ip_tail myip l))"
proof -
  note lens = header_lengths [OF assms(1)]
  define h0 where "h0 = ip_head len @ [0, 0] @ ip_tail myip l"
  have l0: "length h0 = 20" by (simp add: h0_def lens)
  define chk where "chk = fold_carries (add_words (h0 @ drop 20 hdrbuf) 0 10 0)"
  have "blit 0 ([0x45, 0x00] @ two_bytes (len + 28) @ [0, 0, 0, 0, 0x10, 0x11, 0, 0] @ be_bytes 4 (ucast myip) @ lm32_ipv4 l) hdrbuf
      = h0 @ drop 20 hdrbuf"
    using lens(2) by (simp add: blit_def h0_def ip_head_def ip_tail_def)
  then have "ip_header myip l len hdrbuf = blit 10 (two_bytes chk) (h0 @ drop 20 hdrbuf)"
    by (simp add: ip_header_def Let_def chk_def myIP_checksum_def)
  also have "\<dots> = ip_head len @ two_bytes chk @ ip_tail myip l @ drop 20 hdrbuf"
    by (simp add: blit_def h0_def lens)
  finally have bytes: "ip_header myip l len hdrbuf = ip_head len @ two_bytes chk @ ip_tail myip l @ drop 20 hdrbuf" .
  have "word_sum h0 \<le> 65535 * 10" using word_sum_bound [of h0] l0 by simp
  then have "unat (add_words (h0 @ drop 20 hdrbuf) 0 10 0) = word_sum h0"
    using unat_add_words [of 0 10 "h0 @ drop 20 hdrbuf" 0] l0 assms(2) by simp
  then have "65535 dvd word_sum h0 + unat chk" using fold_carries_valid [of "add_words (h0 @ drop 20 hdrbuf) 0 10 0"] by (simp add: chk_def)
  moreover have "word_sum (ip_head len @ two_bytes chk @ ip_tail myip l) = word_sum h0 + unat chk"
    using lens(1) by (simp add: word_sum_replace h0_def)
  moreover have "0 < word_sum h0" by (simp add: h0_def ip_head_def)
  ultimately show ?thesis using bytes by (auto simp: checksum_valid_def)
qed

lemma pseudo_words:
  "word_at h 12 + word_at h 14 + word_at h 16 + word_at h 18 + p + word_at h 20 + word_at h 22 + word_at h 24 + word_at h 26
     = add_words h 12 4 0 + p + add_words h 20 4 0"
  by (simp add: eval_nat_numeral algebra_simps)

lemma udp_checksum_bytes:
  assumes h: "h = a @ t @ u @ [0, 0] @ rest" "length a = 12" "length t = 8" "length u = 6" "a ! 9 = 0x11"
    and data: "even (length data)" "length data \<le> 1472" "len = word_of_nat (length data)"
  shows "\<exists>chk. udp_checksum h data len = Some chk
    \<and> 65535 dvd word_sum t + 17 + (8 + length data) + word_sum (u @ two_bytes chk @ data)"
proof -
  have len: "unat len = length data" using data(2) unfolding data(3) by (intro unat_of_nat_small) simp
  have b: "word_sum data \<le> 65535 * 736" "word_sum t \<le> 65535 * 4" "word_sum (u @ [0, 0]) \<le> 65535 * 4"
    using word_sum_bound [of data] word_sum_bound [of t] word_sum_bound [of "u @ [0, 0]"] data(1,2) h(3,4) by (auto elim!: order_trans)
  have d: "unat (add_words data 0 (length data div 2) 0) = word_sum data"
    using unat_add_words [of 0 "length data div 2" data 0] data(1) b(1) by simp
  have t: "unat (add_words h 12 4 0) = word_sum t" "unat (add_words h 20 4 0) = word_sum (u @ [0, 0])"
    using unat_add_words [of 12 4 h 0] unat_add_words [of 20 4 h 0] h b(2,3) by simp_all
  have p: "ucast (h ! 9) = (17 :: uint32)" using h by (simp add: nth_append)
  define acc where "acc = add_words data 0 (length data div 2) 0 + (add_words h 12 4 0 + 17 + add_words h 20 4 0 + ucast len + 8)"
  have "unat (ucast len :: uint32) = length data" using len data(2) by (simp add: unsigned_ucast_eq take_bit_nat_eq_self_iff)
  then have acc: "unat acc = word_sum data + (word_sum t + 17 + word_sum (u @ [0, 0]) + length data + 8)"
    using d t b data(2) by (simp add: acc_def unat_word_ariths)
  have "udp_checksum h data len = Some (fold_carries acc)"
    using data(1) by (simp add: udp_checksum_def len pseudo_words p acc_def Let_def)
  moreover have "word_sum (u @ two_bytes (fold_carries acc) @ data) = word_sum (u @ [0, 0]) + word_sum data + unat (fold_carries acc)"
    using h(4) by (simp add: word_sum_append word_sum_two_bytes)
  ultimately show ?thesis using fold_carries_valid [of acc] acc by (intro exI [of _ "fold_carries acc"]) (simp add: algebra_simps)
qed

text \<open>A frame as a receiver checks it: the sum over the IP header, and the sum over the pseudo header (addresses,
  protocol 17, length) and the UDP segment.\<close>

definition valid_udp_frame :: "bytes \<Rightarrow> bool" where
  "valid_udp_frame f \<longleftrightarrow> checksum_valid (word_sum (take 20 f))
     \<and> checksum_valid (word_sum (take 8 (drop 12 f)) + 17 + (length f - 20) + word_sum (drop 20 f))"

lemma frame_fields:
  assumes l: "length (link_raw l) = 12" and len: "unat len = n" "n \<le> 1472" "length buf = n"
    and f: "f = ip_head len @ two_bytes chk @ ip_tail ip l @ udp_head l len @ two_bytes chk' @ buf"
  shows "take 20 f = ip_head len @ two_bytes chk @ ip_tail ip l" "take 8 (drop 12 f) = ip_tail ip l"
    "drop 20 f = udp_head l len @ two_bytes chk' @ buf" "drop 28 f = buf" "length f = n + 28"
    "unat (word_at f 2) = n + 28" "unat (word_at f 24) = n + 8"
    "take 4 (drop 16 f) = lm32_ipv4 l" "take 2 (drop 22 f) = lm32_port l"
proof -
  note lens = header_lengths [OF l]
  have parts: "length (lm32_ipv4 l) = 4" "length (lm32_port l) = 2" using l by (simp_all add: lm32_ipv4_def lm32_port_def)
  show "take 20 f = ip_head len @ two_bytes chk @ ip_tail ip l" "take 8 (drop 12 f) = ip_tail ip l"
    "drop 20 f = udp_head l len @ two_bytes chk' @ buf" "drop 28 f = buf" "length f = n + 28"
    using lens len(3) by (simp_all add: f)
  show "take 4 (drop 16 f) = lm32_ipv4 l" "take 2 (drop 22 f) = lm32_port l"
    using lens(1) parts by (simp_all add: f ip_tail_def udp_head_def)
  have two: "f = [0x45, 0x00] @ two_bytes (len + 28) @ drop 4 f"
    and four: "f = take 24 f @ two_bytes (len + 8) @ drop 26 f"
    using lens parts by (simp_all add: f) (simp_all add: ip_head_def udp_head_def)
  have "length (take 24 f) = 24" using \<open>length f = n + 28\<close> by simp
  moreover have "unat (len + 28) = n + 28" "unat (len + 8) = n + 8" using len by (simp_all add: unat_word_ariths)
  moreover have "length [0x45, 0x00 :: uint8] = 2" by simp
  ultimately show "unat (word_at f 2) = n + 28" "unat (word_at f 24) = n + 8"
    using word_at_two_bytes [of "[0x45, 0x00]" "len + 28" "drop 4 f", folded two]
      word_at_two_bytes [of "take 24 f" "len + 8" "drop 26 f", folded four] by (simp_all only:)
qed

text \<open>C32: What the LM32 sends a receiver accepts. For a message of even length up to the MTU, \<^verbatim>\<open>eb_lm32_udp_send\<close> stays
  inside its frame buffer and hands over a frame of 28 bytes more, with the payload behind the headers, the lengths
  and the addresses of the link in the headers, and both checksums correct.\<close>

theorem eb_lm32_udp_send_valid:
  assumes l: "length (link_raw l) = 12" and stack: "length (nif_stack S) = 1500"
    and buf: "even (length buf)" "length buf \<le> 1472"
  shows "\<exists>f. eb_lm32_udp_send S t l buf w = Some (w\<lparr>lw_saddr := (lw_saddr w)\<lparr>sa_mac := lm32_mac l\<rparr>,
      lw_os := nif_sendto S (lm32_socket4 t) ((lw_saddr w)\<lparr>sa_mac := lm32_mac l\<rparr>) f (lw_os w)\<rparr>)
    \<and> valid_udp_frame f \<and> length f = length buf + 28 \<and> drop 28 f = buf
    \<and> unat (word_at f 2) = length f \<and> unat (word_at f 24) = length f - 20
    \<and> take 4 (drop 16 f) = lm32_ipv4 l \<and> take 2 (drop 22 f) = lm32_port l"
proof -
  define len :: uint16 where "len = word_of_nat (length buf)"
  define ip where "ip = nif_getIP S (lw_os w)"
  note lens = header_lengths [OF l]
  obtain chk where ih: "ip_header ip l len (nif_stack S) = ip_head len @ two_bytes chk @ ip_tail ip l @ drop 20 (nif_stack S)"
    "checksum_valid (word_sum (ip_head len @ two_bytes chk @ ip_tail ip l))"
    using ip_header_bytes [OF l stack] by blast
  define h where "h = (ip_head len @ two_bytes chk) @ ip_tail ip l @ udp_head l len @ [0, 0] @ drop 28 (nif_stack S)"
  have "blit 20 (two_bytes 0xEBD0 @ lm32_port l @ two_bytes (len + 8) @ [0, 0]) (ip_header ip l len (nif_stack S)) = h"
    using lens by (simp add: ih(1) blit_def h_def udp_head_def)
  moreover obtain sum where u: "udp_checksum h buf len = Some sum"
    "65535 dvd word_sum (ip_tail ip l) + 17 + (8 + length buf) + word_sum (udp_head l len @ two_bytes sum @ buf)"
    using udp_checksum_bytes [OF h_def _ _ _ _ buf len_def] lens by (auto simp: nth_append ip_head_def)
  ultimately have create: "createUdpIpHdr ip l (nif_stack S) buf len = Some (blit 26 (two_bytes sum) h)"
    by (simp add: createUdpIpHdr_def)
  define f where "f = ip_head len @ two_bytes chk @ ip_tail ip l @ udp_head l len @ two_bytes sum @ buf"
  have "take (28 + length buf) (blit 28 buf (blit 26 (two_bytes sum) h)) = f"
    using lens by (simp add: blit_def h_def f_def)
  then have run: "eb_lm32_udp_send S t l buf w = Some (w\<lparr>lw_saddr := (lw_saddr w)\<lparr>sa_mac := lm32_mac l\<rparr>,
      lw_os := nif_sendto S (lm32_socket4 t) ((lw_saddr w)\<lparr>sa_mac := lm32_mac l\<rparr>) f (lw_os w)\<rparr>)"
    using create buf(2) stack by (simp add: eb_lm32_udp_send_def Let_def ip_def len_def)
  have len: "unat len = length buf" unfolding len_def using buf(2) by (intro unat_of_nat_small) simp
  note fields = frame_fields [OF l len buf(2) refl f_def]
  have "valid_udp_frame f"
    using ih(2) u(2) by (simp add: valid_udp_frame_def fields(1,2,3,5) checksum_valid_def)
  with run fields show ?thesis by (intro exI [of _ f]) simp
qed

text \<open>The LM32 never receives. With the buffer \<^verbatim>\<open>eb_device_slave\<close> passes, which is larger than any frame, every frame the
  interface delivers is refused, and an error of the interface, which is minus one, overwrites the stack.\<close>

theorem eb_lm32_udp_poll_refuses:
  assumes "nif_recvfrom S (lm32_socket4 t) 1500 (lw_saddr w) (lw_os w) = (r, bs, sa, v)"
  shows "(0 \<le> r \<and> r \<le> 1500 \<longrightarrow> eb_lm32_udp_poll S t BUFFER_SIZE w = Some (- 1, w\<lparr>lw_saddr := sa, lw_os := v\<rparr>))
    \<and> (r = - 1 \<longrightarrow> eb_lm32_udp_poll S t BUFFER_SIZE w = None)"
proof -
  have "uint (word_of_int r :: uint16) = r" if "0 \<le> r" "r \<le> 1500"
    using that by (simp add: uint_word_of_int)
  moreover have "uint (65535 :: uint16) = 65535" "(65535 :: uint16) = - 1" by simp_all
  then have "uint (- 1 :: uint16) = 65535" by metis
  ultimately show ?thesis using assms by (auto simp: eb_lm32_udp_poll_def Let_def)
qed

definition example_lm32 :: "unit lm32_sys" where
  "example_lm32 = \<lparr>nif_create_socket = (\<lambda>_ v. (1, v)), nif_recvfrom = (\<lambda>_ _ sa v. (64, replicate 64 0, sa, v)),
     nif_sendto = (\<lambda>_ _ _ v. v), nif_getIP = (\<lambda>_. 0xC0A80001), nif_stack = replicate 1500 0\<rparr>"

definition example_lm32_link :: eb_link where
  "example_lm32_link = \<lparr>link_raw = [1, 2, 3, 4, 5, 6, 192, 168, 0, 2, 0xEB, 0xD0]\<rparr>"

definition example_lm32_world :: "unit lm32_world" where
  "example_lm32_world = \<lparr>lw_saddr = \<lparr>sa_if_name = ''wru1'', sa_ethertype = 0x0800, sa_mac = replicate 6 1\<rparr>, lw_os = ()\<rparr>"

definition example_lm32_transport :: eb_transport where
  "example_lm32_transport = \<lparr>tra_raw = replicate 9 0, tra_link_type = 0, tra_next = EB_NULL\<rparr>"

theorem eb_lm32_udp_send_valid_witness:
  "\<exists>f w. eb_lm32_udp_send example_lm32 example_lm32_transport example_lm32_link [0x4E, 0x6F, 0x10, 0x44] example_lm32_world = Some w
     \<and> valid_udp_frame f \<and> drop 28 f = [0x4E, 0x6F, 0x10, 0x44]"
  using eb_lm32_udp_send_valid [of example_lm32_link example_lm32 "[0x4E, 0x6F, 0x10, 0x44]" example_lm32_transport example_lm32_world]
  by (auto simp: example_lm32_link_def example_lm32_def)

theorem eb_lm32_udp_poll_refuses_witness:
  "eb_lm32_udp_poll example_lm32 example_lm32_transport BUFFER_SIZE example_lm32_world = Some (- 1, example_lm32_world)"
proof -
  have "nif_recvfrom example_lm32 (lm32_socket4 example_lm32_transport) 1500 (lw_saddr example_lm32_world) (lw_os example_lm32_world)
      = (64, replicate 64 0, lw_saddr example_lm32_world, ())" by (simp add: example_lm32_def example_lm32_world_def)
  from eb_lm32_udp_poll_refuses [OF this] show ?thesis by (simp add: example_lm32_world_def)
qed

section \<open>Addresses\<close>

text \<open>\<open>ds\<close> is a numeral of value \<open>v\<close>.\<close>

definition digits_value :: "nat \<Rightarrow> string \<Rightarrow> nat" where
  "digits_value base ds = foldl (\<lambda>acc c. acc * base + c_digit c) 0 ds"

definition numeral_of :: "nat \<Rightarrow> nat \<Rightarrow> string \<Rightarrow> bool" where
  "numeral_of base v ds \<longleftrightarrow> ds \<noteq> [] \<and> (\<forall>c \<in> set ds. c_digit c < base) \<and> digits_value base ds = v"

lemma c_number_digits:
  assumes "\<forall>c \<in> set ds. c_digit c < base" and "rest = [] \<or> \<not> c_digit (hd rest) < base"
  shows "c_number base acc (ds @ rest) = (foldl (\<lambda>acc c. acc * base + c_digit c) acc ds, rest)"
  using assms
proof (induction ds arbitrary: acc)
  case Nil
  then show ?case by (cases rest) auto
qed simp

text \<open>A digit is no space, no sign and not the letter of a hexadecimal prefix.\<close>

lemma digit_chars:
  assumes "c_digit c < 16"
  shows "\<not> c_isspace c" "c \<noteq> CHR ''-''" "c \<noteq> CHR ''+''" "c \<noteq> CHR ''x''" "c \<noteq> CHR ''X''" "c \<noteq> CHR '':''" "c \<noteq> CHR ''.''" "c \<noteq> CHR ''/''"
proof -
  show "c \<noteq> CHR ''-''" "c \<noteq> CHR ''+''" "c \<noteq> CHR ''x''" "c \<noteq> CHR ''X''" "c \<noteq> CHR '':''" "c \<noteq> CHR ''.''" "c \<noteq> CHR ''/''"
    using assms by (auto simp: c_digit_def Let_def)
  show "\<not> c_isspace c" using assms by (auto simp: c_digit_def c_isspace_def Let_def split: if_splits)
qed

lemma c_strtol_digits:
  assumes "numeral_of base v ds" and "base \<le> 16" and "v < 2 ^ 31" and "rest = [] \<or> hd rest \<in> {CHR '':'', CHR ''.'', CHR ''/''}"
  shows "c_strtol base (ds @ rest) = (int v, rest)"
proof -
  obtain d ds' where ds: "ds = d # ds'" "c_digit d < base" using assms(1) by (cases ds) (auto simp: numeral_of_def)
  have d: "c_digit c < 16" if "c \<in> set ds" for c using assms(1,2) that by (auto simp: numeral_of_def)
  have "c_digit (hd rest) = 36" if "rest \<noteq> []" using assms(4) that by (auto simp: c_digit_def)
  then have r: "rest = [] \<or> \<not> c_digit (hd rest) < base" using assms(2) by auto
  have number: "c_number base 0 (ds @ rest) = (v, rest)"
    using c_number_digits [OF _ r, of ds 0] assms(1) by (simp add: numeral_of_def digits_value_def)
  have "(ds @ rest) ! 1 \<notin> {CHR ''x'', CHR ''X''}" if "2 < length (ds @ rest)"
  proof (cases ds')
    case Nil
    then have "(ds @ rest) ! 1 = hd rest" "rest \<noteq> []" using ds(1) that by (cases rest; simp)+
    then show ?thesis using assms(4) by auto
  next
    case (Cons e es)
    then show ?thesis using ds(1) d [of e] digit_chars(4,5) by auto
  qed
  then have hex: "(base = 16 \<and> 2 < length (ds @ rest) \<and> hd (ds @ rest) = CHR ''0'' \<and> (ds @ rest) ! 1 \<in> {CHR ''x'', CHR ''X''}
      \<and> c_digit ((ds @ rest) ! 2) < 16) = False" by blast
  have "c_digit d < 16" using d ds(1) by simp
  note dc = digit_chars [OF this]
  have start: "dropWhile c_isspace (ds @ rest) = ds @ rest" "hd (ds @ rest) = d" "ds @ rest \<noteq> []" using ds(1) dc(1) by simp_all
  show ?thesis
    unfolding c_strtol_def Let_def start(1)
    using dc(2,3) start(2,3) hex ds(2) number assms(3) by (simp only: insert_iff empty_iff if_False if_True prod.case simp_thms) simp
qed

fun join :: "char \<Rightarrow> string list \<Rightarrow> string" where
  "join del [] = []"
| "join del [ds] = ds"
| "join del (ds # dss) = ds @ del # join del dss"

lemma strsplit_append: "d \<notin> set s \<Longrightarrow> strsplit (s @ d # r) d = r"
  by (induction s) auto

lemma slash_not_join:
  assumes "list_all2 (numeral_of base) vs dss" and "base \<le> 16" and "del \<noteq> CHR ''/''"
  shows "CHR ''/'' \<notin> set (join del dss)"
proof -
  have "CHR ''/'' \<notin> set ds" if ds: "ds \<in> set dss" for ds
  proof -
    obtain v where "numeral_of base v ds" using assms(1) ds by (auto simp: list_all2_conv_all_nth in_set_conv_nth)
    then show ?thesis using assms(2) digit_chars(8) by (force simp: numeral_of_def)
  qed
  then show ?thesis using assms(3) by (induction del dss rule: join.induct) auto
qed

lemma blit_step: "i < length raw \<Longrightarrow> blit (Suc i) bs (raw[i := b]) = blit i (b # bs) raw"
  by (simp add: blit_def take_Suc_conv_app_nth)

lemma numStrToBytes_join:
  assumes "list_all2 (numeral_of base) vs dss" and "\<forall>v \<in> set vs. v < 256" and "base \<le> 16" and "del \<in> {CHR '':'', CHR ''.''}"
    and "off + bc + length vs \<le> length raw"
  shows "numStrToBytes (Some (join del dss @ CHR ''/'' # r)) off (bc + length vs) base bc raw
    = Some (blit (off + bc) (map word_of_nat vs) raw)"
  using assms(1,2,5)
proof (induction vs arbitrary: dss bc raw)
  case Nil
  then show ?case by (simp add: numStrToBytes.simps [of _ _ bc] blit_def)
next
  case (Cons v vs)
  then obtain ds dss' where d: "dss = ds # dss'" "numeral_of base v ds" "list_all2 (numeral_of base) vs dss'"
    by (auto simp: list_all2_Cons1)
  define rest where "rest = (case dss' of [] \<Rightarrow> CHR ''/'' # r | _ \<Rightarrow> del # join del dss' @ CHR ''/'' # r)"
  have s: "join del dss @ CHR ''/'' # r = ds @ rest" by (cases dss') (simp_all add: d(1) rest_def)
  have "hd rest \<in> {CHR '':'', CHR ''.'', CHR ''/''}" using assms(4) by (auto simp: rest_def split: list.split)
  with d(2) assms(3) Cons.prems(2) have num: "c_strtol base (ds @ rest) = (int v, rest)"
    by (intro c_strtol_digits) auto
  let ?raw = "raw[off + bc := word_of_nat v]"
  have step: "numStrToBytes (Some (join del dss @ CHR ''/'' # r)) off (bc + length (v # vs)) base bc raw
      = numStrToBytes (case rest of [] \<Rightarrow> None | _ # pch \<Rightarrow> Some pch) off (Suc bc + length vs) base (Suc bc) ?raw"
    using Cons.prems(2) by (subst numStrToBytes.simps) (simp add: s num of_int_of_nat_eq)
  show ?case
  proof (cases vs)
    case Nil
    then have "numStrToBytes q off (Suc bc + length vs) base (Suc bc) ?raw = Some ?raw" for q
      by (subst numStrToBytes.simps) simp
    then show ?thesis using Cons.prems(3) Nil unfolding step by (simp add: blit_def upd_conv_take_nth_drop)
  next
    case (Cons v' vs')
    then have "dss' \<noteq> []" using d(3) by auto
    then have "(case rest of [] \<Rightarrow> None | _ # pch \<Rightarrow> Some pch) = Some (join del dss' @ CHR ''/'' # r)"
      by (simp add: rest_def split: list.split)
    with Cons.IH [OF d(3), of "Suc bc" ?raw] Cons.prems(2,3) show ?thesis unfolding step by (simp add: blit_step)
  qed
qed

text \<open>The LM32 understands its addresses. A string \<^verbatim>\<open>hw/<mac>/udp/<ip>/port/<port>\<close> with six hexadecimal and four decimal
  numbers below 256 and a port below 65536 is accepted, whatever leading zeros or letter case the numbers have, and
  the link holds exactly these numbers.\<close>

theorem eb_lm32_udp_connect_parses:
  assumes mac: "list_all2 (numeral_of 16) macs ms" "length macs = 6" "\<forall>v \<in> set macs. v < 256"
    and ip: "list_all2 (numeral_of 10) ips is" "length ips = 4" "\<forall>v \<in> set ips. v < 256"
    and port: "numeral_of 10 port ps" "port < 65536" and l: "length (link_raw l) = 12"
  shows "eb_lm32_udp_connect l (Some (''hw/'' @ join CHR '':'' ms @ ''/udp/'' @ join CHR ''.'' is @ ''/port/'' @ ps))
    = Some (EB_OK, l\<lparr>link_raw := map word_of_nat macs @ map word_of_nat ips @ be_bytes 2 (word_of_nat port)\<rparr>)"
proof -
  let ?m = "join CHR '':'' ms" and ?i = "join CHR ''.'' is"
  have sm: "CHR ''/'' \<notin> set ?m" and si: "CHR ''/'' \<notin> set ?i"
    using slash_not_join [OF mac(1)] slash_not_join [OF ip(1)] by simp_all
  define raw1 where "raw1 = blit 0 (map word_of_nat macs) (link_raw l)"
  define raw2 where "raw2 = blit 6 (map word_of_nat ips) raw1"
  have "numStrToBytes (Some (?m @ CHR ''/'' # r)) 0 6 16 0 (link_raw l) = Some raw1" for r
    using numStrToBytes_join [OF mac(1,3), of "CHR '':''" 0 0 "link_raw l" r] mac(2) l by (simp add: raw1_def)
  moreover have "numStrToBytes (Some (?i @ CHR ''/'' # r)) 6 4 10 0 raw1 = Some raw2" for r
    using numStrToBytes_join [OF ip(1,3), of "CHR ''.''" 6 0 raw1 r] ip(2) l mac(2) by (simp add: raw2_def raw1_def blit_def)
  moreover have "c_strtol 10 ps = (int port, [])" using c_strtol_digits [OF port(1), of "[]"] port(2) by simp
  moreover have "take 10 raw2 = map word_of_nat macs @ map word_of_nat ips" "drop 12 raw2 = []"
    using mac(2) ip(2) l by (simp_all add: raw2_def raw1_def blit_def)
  ultimately show ?thesis
    using strsplit_append [OF sm] strsplit_append [OF si]
    by (simp add: eb_lm32_udp_connect_def addressStrToBytes_def connect_port_def of_int_of_nat_eq)
qed

theorem eb_lm32_udp_connect_parses_witness:
  "eb_lm32_udp_connect example_lm32_link (Some ''hw/11:22:33:44:55:66/udp/192.168.0.1/port/60368'')
     = Some (EB_OK, example_lm32_link\<lparr>link_raw := [0x11, 0x22, 0x33, 0x44, 0x55, 0x66, 192, 168, 0, 1, 0xEB, 0xD0]\<rparr>)"
proof -
  have "eb_lm32_udp_connect example_lm32_link (Some (''hw/'' @ join CHR '':'' [''11'', ''22'', ''33'', ''44'', ''55'', ''66''] @ ''/udp/''
        @ join CHR ''.'' [''192'', ''168'', ''0'', ''1''] @ ''/port/'' @ ''60368''))
      = Some (EB_OK, example_lm32_link\<lparr>link_raw := map word_of_nat [17, 34, 51, 68, 85, 102] @ map word_of_nat [192, 168, 0, 1]
          @ be_bytes 2 (word_of_nat 60368)\<rparr>)"
  proof (rule eb_lm32_udp_connect_parses)
    show "list_all2 (numeral_of 16) [17, 34, 51, 68, 85, 102] [''11'', ''22'', ''33'', ''44'', ''55'', ''66'']" by code_simp
    show "list_all2 (numeral_of 10) [192, 168, 0, 1] [''192'', ''168'', ''0'', ''1'']" by code_simp
    show "numeral_of 10 60368 ''60368''" by (simp add: numeral_of_def digits_value_def c_digit_def)
  qed (simp_all add: example_lm32_link_def)
  moreover have "be_bytes (Suc (Suc 0)) (word_of_nat 60368) = [0xEB, 0xD0]" by simp
  then have "be_bytes 2 (word_of_nat 60368) = [0xEB, 0xD0]" by (simp only: numeral_2_eq_2)
  ultimately show ?thesis by simp
qed

end
