(* ===== verification/WR_Prelude.thy ===== *)
theory WR_Prelude
  imports EB_Prelude
begin

text \<open>
  Shared layer of the software of the White Rabbit modules (\<^verbatim>\<open>modules/wr_eca\<close> and
  \<^verbatim>\<open>modules/wr_tlu\<close>, C++): the parts of the C++ standard library it uses, \<^verbatim>\<open>std::map\<close> as
  an association list in the order of its keys and \<^verbatim>\<open>std::sort\<close>, and lemmas on the order of
  machine words and on their bits.
\<close>

section \<open>Order and successor of words\<close>

lemma unat_pred: "x \<noteq> 0 \<Longrightarrow> unat (x - 1) = unat x - 1" for x :: "'a :: len word"
  by (simp add: unat_minus_one)

lemma less_iff_le_pred: "a \<noteq> 0 \<Longrightarrow> x < a \<longleftrightarrow> x \<le> a - 1" for a x :: "'a :: len word"
  using unat_gt_0 [of a] by (auto simp: word_less_nat_alt word_le_nat_alt unat_pred)

lemma unat_pred_gt: "k < x \<Longrightarrow> unat (x - 1) = unat x - 1" for k x :: "'a :: len word"
  by (cases "x = 0") (auto simp: unat_pred)

lemma word_max_ge: "x + 1 = 0 \<Longrightarrow> y \<le> x" for x y :: "'a :: len word"
  by (metis add_diff_cancel diff_0 word_n1_ge)

lemma unat_succ_max: "x + 1 \<noteq> 0 \<Longrightarrow> unat (x + 1) = unat x + 1" for x :: "'a :: len word"
  by (metis Suc_eq_plus1 add.commute unatSuc)

lemma unat_succ: "x < y \<Longrightarrow> unat (x + 1) = unat x + 1" for x y :: "'a :: len word"
  by (metis unat_succ_max word_max_ge not_le)

lemma unat_half_less: "m \<noteq> 0 \<Longrightarrow> unat (drop_bit (Suc 0) m) < unat m" for m :: "'a :: len word"
  unfolding unsigned_drop_bit_eq by (simp add: take_bit_nat_eq_self unat_less_exp drop_bit_Suc unat_gt_0)

lemma unat_diff_step: "b \<le> c \<Longrightarrow> c < e \<Longrightarrow> unat e - unat (c + 1) < unat e - unat b"
  for b c e :: "'a :: len word"
  by (simp add: unat_succ word_less_nat_alt word_le_nat_alt)

lemma unat_pred_less: "b < f \<Longrightarrow> f \<le> e \<Longrightarrow> unat (f - 1) < unat e" for b f e :: "'a :: len word"
  by (cases "f = 0") (auto simp: unat_pred word_less_nat_alt word_le_nat_alt)

section \<open>Lists of indices\<close>

lemma upt_split: "m \<le> n \<Longrightarrow> [0..<n] = [0..<m] @ [m..<n]"
  by (metis le_add_diff_inverse plus_nat.add_0 upt_add_eq_append zero_le)

section \<open>Bits of words\<close>

lemma le_or: "b \<le> b OR m" for b m :: "'a :: len word"
  by (simp add: word_le_def unsigned_or_eq or_greater_eq)

lemma and_not_part: "e AND NOT (m AND e) = e - (m AND e)" for e m :: "'a :: len word"
proof -
  have "(m AND e) + (e AND NOT (m AND e)) = (m AND e) OR (e AND NOT (m AND e))"
    by (rule disjunctive_add) (auto simp: bit_simps)
  also have "\<dots> = e"
    by (rule bit_word_eqI) (auto simp: bit_simps)
  finally show ?thesis
    by (metis add_diff_cancel_left')
qed

lemma and_part_le: "e - (m AND e) \<le> e" for e m :: "'a :: len word"
  by (metis and_not_part word_and_le2)

section \<open>Ordered maps and sorting\<close>

text \<open>\<^verbatim>\<open>m[k] = v\<close>.\<close>

fun map_set :: "'k :: linorder \<Rightarrow> 'v \<Rightarrow> ('k \<times> 'v) list \<Rightarrow> ('k \<times> 'v) list" where
  "map_set k v [] = [(k, v)]"
| "map_set k v ((l, u) # m) =
     (if k < l then (k, v) # (l, u) # m else if k = l then (k, v) # m else (l, u) # map_set k v m)"

text \<open>\<^verbatim>\<open>m[k]\<close> of a map of maps: a missing element is created empty.\<close>

definition map_at :: "'k \<Rightarrow> ('k \<times> 'v list) list \<Rightarrow> 'v list" where
  "map_at k m = (case map_of m k of None \<Rightarrow> [] | Some v \<Rightarrow> v)"

text \<open>\<^verbatim>\<open>m.upper_bound(k)\<close>: the iterator to the first element with a larger key.\<close>

definition upper_bound :: "'k :: linorder \<Rightarrow> ('k \<times> 'v) list \<Rightarrow> ('k \<times> 'v) list \<times> ('k \<times> 'v) list" where
  "upper_bound k m = (rev (takeWhile (\<lambda>(l, v). l \<le> k) m), dropWhile (\<lambda>(l, v). l \<le> k) m)"

definition map_end :: "('k \<times> 'v) list \<Rightarrow> ('k \<times> 'v) list \<times> ('k \<times> 'v) list" where
  "map_end m = (rev m, [])"

text \<open>\<^verbatim>\<open>std::sort\<close> with a comparison. Which of two equivalent elements comes first is left open by
  the C++ standard; the lists sorted here have none.\<close>

fun insert_by :: "('a \<Rightarrow> 'a \<Rightarrow> bool) \<Rightarrow> 'a \<Rightarrow> 'a list \<Rightarrow> 'a list" where
  "insert_by lt x [] = [x]"
| "insert_by lt x (y # ys) = (if lt y x then y # insert_by lt x ys else x # y # ys)"

definition sort_by :: "('a \<Rightarrow> 'a \<Rightarrow> bool) \<Rightarrow> 'a list \<Rightarrow> 'a list" where
  "sort_by lt xs = foldr (insert_by lt) xs []"


definition map_ok :: "('k :: linorder \<times> 'v) list \<Rightarrow> bool" where
  "map_ok m \<longleftrightarrow> sorted_wrt (\<lambda>p q. fst p < fst q) m"

lemma map_ok_Nil [simp]: "map_ok []"
  by (simp add: map_ok_def)

lemma map_ok_Cons: "map_ok (p # m) \<longleftrightarrow> map_ok m \<and> (\<forall>q \<in> set m. fst p < fst q)"
  by (auto simp: map_ok_def)

lemma map_ok_distinct: "map_ok m \<Longrightarrow> distinct (map fst m)"
  by (induction m) (auto simp: map_ok_Cons)

lemma set_map_set_sub: "set (map_set k v m) \<subseteq> insert (k, v) (set m)"
  by (induction k v m rule: map_set.induct) auto

lemma map_ok_map_set: "map_ok m \<Longrightarrow> map_ok (map_set k v m)"
proof (induction k v m rule: map_set.induct)
  case (2 k v l u m)
  then show ?case using set_map_set_sub [of k v m] by (fastforce simp: map_ok_Cons)
qed (simp add: map_ok_Cons)

lemma map_of_map_set: "map_ok m \<Longrightarrow> map_of (map_set k v m) = (map_of m)(k \<mapsto> v)"
proof (induction k v m rule: map_set.induct)
  case (2 k v l u m)
  then show ?case by (auto simp: map_ok_Cons fun_eq_iff)
qed simp

lemma map_at_map_set: "map_ok m \<Longrightarrow> map_at j (map_set k v m) = (if j = k then v else map_at j m)"
  by (simp add: map_at_def map_of_map_set)

lemma map_at_Nil [simp]: "map_at k [] = []"
  by (simp add: map_at_def)

lemma set_insert_by [simp]: "set (insert_by lt x ys) = insert x (set ys)"
  by (induction ys) auto

lemma set_sort_by [simp]: "set (sort_by lt xs) = set xs"
  by (induction xs) (auto simp: sort_by_def)

lemma mset_insert_by_length [simp]: "length (insert_by lt x ys) = length ys + 1"
  by (induction ys) auto

lemma length_sort_by [simp]: "length (sort_by lt xs) = length xs"
  by (induction xs) (auto simp: sort_by_def)

text \<open>With a comparison that is a strict order, no element comes before a smaller one.\<close>

lemma sorted_insert_by:
  assumes trans: "\<And>a b c. \<not> lt b a \<Longrightarrow> \<not> lt c b \<Longrightarrow> \<not> lt c a" and asym: "\<And>a b. lt a b \<Longrightarrow> \<not> lt b a"
  shows "sorted_wrt (\<lambda>a b. \<not> lt b a) ys \<Longrightarrow> sorted_wrt (\<lambda>a b. \<not> lt b a) (insert_by lt x ys)"
proof (induction ys)
  case (Cons y ys)
  then have sorted: "sorted_wrt (\<lambda>a b. \<not> lt b a) (insert_by lt x ys)" and y: "\<forall>z \<in> set ys. \<not> lt z y" by auto
  show ?case
  proof (cases "lt y x")
    case True
    with sorted y asym [OF True] show ?thesis by simp
  next
    case False
    with y trans [OF False] have "\<forall>z \<in> set ys. \<not> lt z x" by blast
    with False Cons.prems show ?thesis by simp
  qed
qed simp

lemma sorted_sort_by:
  assumes "\<And>a b c. \<not> lt b a \<Longrightarrow> \<not> lt c b \<Longrightarrow> \<not> lt c a" "\<And>a b. lt a b \<Longrightarrow> \<not> lt b a"
  shows "sorted_wrt (\<lambda>a b. \<not> lt b a) (sort_by lt xs)"
proof (induction xs)
  case Nil
  then show ?case by (simp add: sort_by_def)
next
  case (Cons x xs)
  then show ?case
    unfolding sort_by_def foldr.simps o_apply
    by (intro sorted_insert_by [where lt = lt]) (use assms in blast)+
qed

lemma distinct_insert_by: "distinct (insert_by lt x ys) \<longleftrightarrow> x \<notin> set ys \<and> distinct ys"
  by (induction ys) auto

lemma distinct_sort_by [simp]: "distinct (sort_by lt xs) = distinct xs"
  by (induction xs) (auto simp: sort_by_def distinct_insert_by set_sort_by [unfolded sort_by_def])

section \<open>Maps that are painted rule by rule\<close>

text \<open>The contract of a table of rules: a rule \<open>r\<close> gives the keys in \<open>region r\<close> the value \<open>val r\<close>.
  Where no key of the region has another value yet, adding the rule reports no conflict and changes
  the table at the region only. \<open>add_all\<close> is the bulk load.\<close>

fun add_all :: "('r \<Rightarrow> 't \<Rightarrow> int \<times> 't) \<Rightarrow> int \<Rightarrow> 'r list \<Rightarrow> 't \<Rightarrow> int \<times> 't" where
  "add_all add n [] t = (n, t)"
| "add_all add n (r # rs) t = (let (m, t') = add r t in add_all add (n + m) rs t')"

locale painted_map =
  fixes region :: "'r \<Rightarrow> 'k set"
    and val :: "'r \<Rightarrow> 'v"
    and look :: "'t \<Rightarrow> 'k \<Rightarrow> 'v option"
    and ok :: "'t \<Rightarrow> bool"
    and add :: "'r \<Rightarrow> 't \<Rightarrow> int \<times> 't"
  assumes add_clean:
    "ok t \<Longrightarrow> \<forall>k \<in> region r. look t k = None \<or> look t k = Some (val r) \<Longrightarrow>
     \<exists>t'. add r t = (0, t') \<and> ok t' \<and>
          (\<forall>k. look t' k = (if k \<in> region r then Some (val r) else look t k))"
begin

lemma add_all_clean:
  assumes "ok t"
    and "\<forall>r \<in> set rs. \<forall>k \<in> region r. look t k = None \<or> look t k = Some (val r)"
    and "\<forall>r \<in> set rs. \<forall>q \<in> set rs. region r \<inter> region q \<noteq> {} \<longrightarrow> val r = val q"
  shows "\<exists>t'. add_all add n rs t = (n, t') \<and> ok t' \<and>
    (\<forall>k v. look t' k = Some v \<longleftrightarrow> (\<exists>r \<in> set rs. k \<in> region r \<and> val r = v) \<or> look t k = Some v)"
  using assms
proof (induction rs arbitrary: t)
  case Nil
  then show ?case by simp
next
  case (Cons r rs)
  obtain t1 where t1: "add r t = (0, t1)" "ok t1"
    "\<And>k. look t1 k = (if k \<in> region r then Some (val r) else look t k)"
    using add_clean [OF Cons.prems(1), of r] Cons.prems(2) by auto
  have "\<forall>q \<in> set rs. \<forall>k \<in> region q. look t1 k = None \<or> look t1 k = Some (val q)"
    using Cons.prems(2,3) by (auto simp: t1(3))
  with Cons.IH [OF t1(2)] Cons.prems(3) obtain t' where t':
    "add_all add n rs t1 = (n, t')" "ok t'"
    "\<And>k v. look t' k = Some v \<longleftrightarrow> (\<exists>q \<in> set rs. k \<in> region q \<and> val q = v) \<or> look t1 k = Some v"
    by auto
  have "look t' k = Some v \<longleftrightarrow> (\<exists>q \<in> set (r # rs). k \<in> region q \<and> val q = v) \<or> look t k = Some v" for k v
    unfolding t'(3) t1(3) using Cons.prems(2) by auto
  with t' t1 show ?case by auto
qed

end

end
