(* ===== verification/WR_Bus.thy ===== *)
theory WR_Bus
  imports WR_Prelude EB_Widths
begin

text \<open>
  The bus as the software of the White Rabbit modules sees it. It is a parameter of that software:
  \<open>b_open\<close> is \<^verbatim>\<open>Cycle::open\<close>, \<open>b_close\<close> runs the operations collected in a cycle and is
  \<^verbatim>\<open>Cycle::close\<close>, \<open>b_write\<close> is \<^verbatim>\<open>Device::write\<close>, \<open>b_read\<close> is \<^verbatim>\<open>Device::read\<close>. All
  block (\<^verbatim>\<open>eb_block\<close>), return a status and may change the state \<open>'w\<close> of the hardware; \<open>b_close\<close>
  also returns the values read, in order. The inline wrappers of \<^verbatim>\<open>etherbone.h\<close> only forward to the
  functions modelled in \<^verbatim>\<open>EB_Cycle\<close> and \<^verbatim>\<open>EB_Device\<close>.
\<close>

section \<open>The bus\<close>

datatype bus_op = Bread eb_address_t eb_format_t | Bwrite eb_address_t eb_format_t eb_data_t

record 'w bus =
  b_open :: "'w \<Rightarrow> eb_status_t \<times> 'w"
  b_close :: "bus_op list \<Rightarrow> 'w \<Rightarrow> eb_status_t \<times> eb_data_t list \<times> 'w"
  b_write :: "eb_address_t \<Rightarrow> eb_format_t \<Rightarrow> eb_data_t \<Rightarrow> 'w \<Rightarrow> eb_status_t \<times> 'w"
  b_read :: "eb_address_t \<Rightarrow> eb_format_t \<Rightarrow> 'w \<Rightarrow> eb_status_t \<times> eb_data_t \<times> 'w"

definition bus_cycle :: "'w bus \<Rightarrow> bus_op list \<Rightarrow> 'w \<Rightarrow> eb_status_t \<times> eb_data_t list \<times> 'w" where
  "bus_cycle bus ops h =
     (case b_open bus h of (st, h1) \<Rightarrow> if st \<noteq> EB_OK then (st, [], h1) else b_close bus ops h1)"

text \<open>Two 32-bit registers as one 64-bit value: \<^verbatim>\<open>x = hi; x <<= 32; x |= lo\<close> and the same with
  \<^verbatim>\<open>+=\<close>.\<close>

definition join_or :: "eb_data_t \<Rightarrow> eb_data_t \<Rightarrow> uint64" where
  "join_or hi lo = push_bit 32 hi OR lo"

definition join_add :: "eb_data_t \<Rightarrow> eb_data_t \<Rightarrow> uint64" where
  "join_add hi lo = push_bit 32 hi + lo"

abbreviation (input) lo32 :: "uint64 \<Rightarrow> uint64" where "lo32 x \<equiv> x AND 0xFFFFFFFF"
abbreviation (input) hi32 :: "uint64 \<Rightarrow> uint64" where "hi32 x \<equiv> drop_bit 32 x"

end
