(* ===== verification/EB_Tools.thy ===== *)
theory EB_Tools
  imports WR_Bus EB_Bytes
begin

text \<open>
  What the command line tools \<^verbatim>\<open>tools/eb-read.c\<close>, \<^verbatim>\<open>eb-write.c\<close>, \<^verbatim>\<open>eb-put.c\<close> and \<^verbatim>\<open>eb-get.c\<close> share: their
  options, the connection to a device, and the choice of the widths of the operations. Messages are
  not modelled. The C library (\<^verbatim>\<open>strtol\<close>, \<^verbatim>\<open>strtoull\<close>, \<^verbatim>\<open>getopt\<close>) and the Etherbone library are
  parameters: the options are the list \<^verbatim>\<open>getopt\<close> delivers, and the functions of the library form the record
  \<open>tool_env\<close>. There \<open>te_bus config silent\<close> is the bus of the device or, with \<open>config\<close>, its configuration space; with
  \<open>silent\<close> cycles are closed by \<^verbatim>\<open>eb_cycle_close_silently\<close>. Closing a cycle includes running the socket until the
  callback of the cycle is called; \<open>te_had_error\<close> then tells whether \<^verbatim>\<open>eb_operation_had_error\<close> holds of one of its operations.
\<close>

section \<open>Options\<close>

datatype tool_end = Exit1 | Crash

record tool_options =
  o_address_width :: eb_width_t
  o_data_width :: eb_width_t
  o_endian :: eb_format_t
  o_attempts :: int
  o_cycles :: int
  o_probe :: bool
  o_fidelity :: bool
  o_silent :: bool
  o_config :: bool
  o_force :: bool
  o_error :: bool

definition default_options :: tool_options where
  "default_options =
     \<lparr>o_address_width = EB_ADDRX, o_data_width = EB_DATAX, o_endian = 0, o_attempts = 3, o_cycles = 0,
      o_probe = True, o_fidelity = False, o_silent = False, o_config = False, o_force = False, o_error = False\<rparr>"

definition parse_count :: "(string \<Rightarrow> int \<times> string) \<Rightarrow> string \<Rightarrow> tool_end + int" where
  "parse_count strtol arg =
     (case strtol arg of (v, rest) \<Rightarrow> if rest \<noteq> [] \<or> v < 0 \<or> v > 100 then Inl Exit1 else Inr v)"

text \<open>The options of \<^verbatim>\<open>eb-read\<close> and \<^verbatim>\<open>eb-write\<close>, which go on after a bad width and end later.\<close>

definition access_option ::
  "(string \<Rightarrow> int \<times> string) \<Rightarrow> char \<times> string \<Rightarrow> tool_options \<Rightarrow> tool_end + tool_options" where
  "access_option strtol opt oo =
     (case opt of (c, arg) \<Rightarrow>
      if c = CHR ''a'' then
        (case eb_width_parse_address arg (o_address_width oo) of
           (st, w) \<Rightarrow> Inr (oo\<lparr>o_address_width := w, o_error := (o_error oo \<or> st \<noteq> EB_OK)\<rparr>))
      else if c = CHR ''d'' then
        (case eb_width_parse_data arg (o_data_width oo) of
           (st, w) \<Rightarrow> Inr (oo\<lparr>o_data_width := w, o_error := (o_error oo \<or> st \<noteq> EB_OK)\<rparr>))
      else if c = CHR ''b'' then Inr (oo\<lparr>o_endian := EB_BIG_ENDIAN\<rparr>)
      else if c = CHR ''l'' then Inr (oo\<lparr>o_endian := EB_LITTLE_ENDIAN\<rparr>)
      else if c = CHR ''r'' then
        (case parse_count strtol arg of Inl e \<Rightarrow> Inl e | Inr v \<Rightarrow> Inr (oo\<lparr>o_attempts := v\<rparr>))
      else if c = CHR ''f'' then Inr (oo\<lparr>o_fidelity := True\<rparr>)
      else if c = CHR ''p'' then Inr (oo\<lparr>o_probe := False\<rparr>)
      else if c = CHR ''c'' then Inr (oo\<lparr>o_config := True\<rparr>)
      else if c = CHR ''s'' then Inr (oo\<lparr>o_silent := True\<rparr>)
      else if c = CHR ''v'' \<or> c = CHR ''q'' then Inr oo
      else if c = CHR '':'' \<or> c = CHR ''?'' then Inr (oo\<lparr>o_error := True\<rparr>)
      else Inl Exit1)"

text \<open>The options of \<^verbatim>\<open>eb-put\<close> and \<^verbatim>\<open>eb-get\<close>.\<close>

definition block_option ::
  "(string \<Rightarrow> int \<times> string) \<Rightarrow> char \<times> string \<Rightarrow> tool_options \<Rightarrow> tool_end + tool_options" where
  "block_option strtol opt oo =
     (case opt of (c, arg) \<Rightarrow>
      if c = CHR ''a'' then
        (case eb_width_parse_address arg (o_address_width oo) of
           (st, w) \<Rightarrow> if st \<noteq> EB_OK then Inl Exit1 else Inr (oo\<lparr>o_address_width := w\<rparr>))
      else if c = CHR ''d'' then
        (case eb_width_parse_data arg (o_data_width oo) of
           (st, w) \<Rightarrow> if st \<noteq> EB_OK then Inl Exit1 else Inr (oo\<lparr>o_data_width := w\<rparr>))
      else if c = CHR ''c'' then
        (case parse_count strtol arg of Inl e \<Rightarrow> Inl e | Inr v \<Rightarrow> Inr (oo\<lparr>o_cycles := v\<rparr>))
      else if c = CHR ''b'' then Inr (oo\<lparr>o_endian := EB_BIG_ENDIAN\<rparr>)
      else if c = CHR ''l'' then Inr (oo\<lparr>o_endian := EB_LITTLE_ENDIAN\<rparr>)
      else if c = CHR ''r'' then
        (case parse_count strtol arg of Inl e \<Rightarrow> Inl e | Inr v \<Rightarrow> Inr (oo\<lparr>o_attempts := v\<rparr>))
      else if c = CHR ''f'' then Inr (oo\<lparr>o_force := True\<rparr>)
      else if c = CHR ''p'' then Inr (oo\<lparr>o_probe := False\<rparr>)
      else if c = CHR ''v'' \<or> c = CHR ''q'' then Inr oo
      else if c = CHR '':'' \<or> c = CHR ''?'' then Inr (oo\<lparr>o_error := True\<rparr>)
      else Inl Exit1)"

fun parse_options ::
  "(char \<times> string \<Rightarrow> tool_options \<Rightarrow> tool_end + tool_options) \<Rightarrow> (char \<times> string) list \<Rightarrow> tool_options \<Rightarrow>
    tool_end + tool_options" where
  "parse_options option [] oo = (if o_error oo then Inl Exit1 else Inr oo)"
| "parse_options option (opt # opts) oo =
     (case option opt oo of Inl e \<Rightarrow> Inl e | Inr oo \<Rightarrow> parse_options option opts oo)"

section \<open>The connection\<close>

record 'w tool_env =
  te_strtol :: "string \<Rightarrow> int \<times> string"
  te_strtoull :: "string \<Rightarrow> uint64 \<times> string"
  te_socket_open :: "eb_width_t \<Rightarrow> 'w \<Rightarrow> eb_status_t \<times> 'w"
  te_device_open :: "string \<Rightarrow> int \<Rightarrow> 'w \<Rightarrow> eb_status_t \<times> 'w"
  te_device_width :: "'w \<Rightarrow> eb_width_t"
  te_find_by_address :: "eb_address_t \<Rightarrow> 'w \<Rightarrow> eb_status_t \<times> sdb_device \<times> 'w"
  te_bus :: "bool \<Rightarrow> bool \<Rightarrow> 'w bus"
  te_had_error :: "'w \<Rightarrow> bool"
  te_device_close :: "'w \<Rightarrow> eb_status_t \<times> 'w"
  te_socket_close :: "'w \<Rightarrow> eb_status_t \<times> 'w"

abbreviation (input) SDB_WISHBONE_LITTLE_ENDIAN :: uint32 where "SDB_WISHBONE_LITTLE_ENDIAN \<equiv> 0x80"

definition device_formats :: "sdb_device \<Rightarrow> eb_format_t" where
  "device_formats d =
     (if bus_specific d AND SDB_WISHBONE_LITTLE_ENDIAN \<noteq> 0 then EB_LITTLE_ENDIAN else EB_BIG_ENDIAN) OR
     (ucast (bus_specific d) AND EB_DATAX)"

text \<open>Opening socket and device, and what the device supports: its widths and endian from its record, or
  everything without probing. The result is the width of the line and the formats.\<close>

definition tool_connect ::
  "'w tool_env \<Rightarrow> tool_options \<Rightarrow> string \<Rightarrow> eb_address_t \<Rightarrow> 'w \<Rightarrow> (tool_end + eb_width_t \<times> eb_format_t) \<times> 'w" where
  "tool_connect E oo netaddress address h =
     (case te_socket_open E (o_address_width oo OR o_data_width oo) h of
        (st, h1) \<Rightarrow>
          if st \<noteq> EB_OK then (Inl Exit1, h1)
          else
            case te_device_open E netaddress (o_attempts oo) h1 of
              (st, h2) \<Rightarrow>
                if st \<noteq> EB_OK then (Inl Exit1, h2)
                else if o_probe oo then
                  (case te_find_by_address E address h2 of
                     (st, info, h3) \<Rightarrow>
                       if st \<noteq> EB_OK then (Inl Exit1, h3)
                       else (Inr (te_device_width E h2, device_formats info), h3))
                else (Inr (te_device_width E h2, o_endian oo OR EB_DATAX), h2))"

text \<open>The endian of the option, or else the one of the device.\<close>

definition chosen_endian :: "tool_options \<Rightarrow> eb_format_t \<Rightarrow> eb_format_t" where
  "chosen_endian oo support = (if o_endian oo = 0 then support AND EB_ENDIAN_MASK else o_endian oo)"

definition tool_disconnect :: "'w tool_env \<Rightarrow> 'a \<Rightarrow> 'w \<Rightarrow> (tool_end + 'a) \<times> 'w" where
  "tool_disconnect E r h =
     (case te_device_close E h of
        (st, h1) \<Rightarrow>
          if st \<noteq> EB_OK then (Inl Exit1, h1)
          else case te_socket_close E h1 of (st, h2) \<Rightarrow> (if st \<noteq> EB_OK then Inl Exit1 else Inr r, h2))"

section \<open>Widths\<close>

definition line_sizes :: "eb_width_t \<Rightarrow> eb_format_t" where
  "line_sizes line_width = push_bit 1 (line_width AND EB_DATAX) - 1"

definition fill_sizes :: "eb_format_t \<Rightarrow> eb_format_t" where
  "fill_sizes w = (let w = w OR drop_bit 1 w in w OR drop_bit 2 w)"

definition largest_size :: "eb_format_t \<Rightarrow> eb_format_t" where
  "largest_size w = (let w = fill_sizes w in w XOR drop_bit 1 w)"

definition smallest_size :: "eb_format_t \<Rightarrow> eb_format_t" where
  "smallest_size w = w AND - w"

text \<open>Addresses of \<open>n\<close> operations with a stride.\<close>

fun strided :: "nat \<Rightarrow> eb_address_t \<Rightarrow> eb_address_t \<Rightarrow> eb_address_t list" where
  "strided 0 a s = []"
| "strided (Suc n) a s = a # strided n (a + s) s"

text \<open>An argument \<^verbatim>\<open>address/size\<close>. The size is stored in eight bits.\<close>

definition parse_access :: "(string \<Rightarrow> uint64 \<times> string) \<Rightarrow> string \<Rightarrow> tool_end + eb_address_t \<times> eb_format_t" where
  "parse_access strtoull arg =
     (case strtoull arg of (address, rest) \<Rightarrow>
      case (if rest \<noteq> [] \<and> hd rest = CHR ''/'' then (case strtoull (tl rest) of (s, rest) \<Rightarrow> (ucast s, rest))
            else (0, rest)) of
        (sz, rest) \<Rightarrow>
          if rest \<noteq> [] \<or> (sz \<noteq> 1 \<and> sz \<noteq> 2 \<and> sz \<noteq> 4 \<and> sz \<noteq> (8 :: eb_format_t)) then Inl Exit1
          else if address AND ucast (sz - 1) \<noteq> 0 then Inl Exit1
          else Inr (address, sz))"

definition size_mask :: "eb_format_t \<Rightarrow> eb_data_t" where
  "size_mask sz = drop_bit ((8 - unat sz) * 8) (- 1)"

section \<open>Memory behind a bus\<close>

text \<open>What an operation means on a memory of bytes: with big endian the first byte is the most significant
  one, with little endian the last.\<close>

type_synonym memory = "eb_address_t \<Rightarrow> uint8"

definition cells :: "memory \<Rightarrow> eb_address_t \<Rightarrow> nat \<Rightarrow> bytes" where
  "cells m a n = map (\<lambda>i. m (a + word_of_nat i)) [0..<n]"

definition put_cells :: "memory \<Rightarrow> eb_address_t \<Rightarrow> bytes \<Rightarrow> memory" where
  "put_cells m a bs x = (if unat (x - a) < length bs then bs ! unat (x - a) else m x)"

definition ordered :: "eb_format_t \<Rightarrow> bytes \<Rightarrow> bytes" where
  "ordered endian bs = (if endian = EB_BIG_ENDIAN then bs else rev bs)"

definition op_size :: "eb_format_t \<Rightarrow> nat" where
  "op_size format = unat (format AND EB_DATAX)"

fun run_op :: "bus_op \<Rightarrow> memory \<Rightarrow> eb_data_t list \<times> memory" where
  "run_op (Bread a f) m = ([of_be 0 (ordered (f AND EB_ENDIAN_MASK) (cells m a (op_size f)))], m)"
| "run_op (Bwrite a f v) m = ([], put_cells m a (ordered (f AND EB_ENDIAN_MASK) (be_bytes (op_size f) v)))"

fun run_ops :: "bus_op list \<Rightarrow> memory \<Rightarrow> eb_data_t list \<times> memory" where
  "run_ops [] m = ([], m)"
| "run_ops (op # ops) m = (case run_op op m of (vs, m1) \<Rightarrow> case run_ops ops m1 of (ws, m2) \<Rightarrow> (vs @ ws, m2))"

fun op_format :: "bus_op \<Rightarrow> eb_format_t" where
  "op_format (Bread a f) = f"
| "op_format (Bwrite a f v) = f"

fun op_address :: "bus_op \<Rightarrow> eb_address_t" where
  "op_address (Bread a f) = a"
| "op_address (Bwrite a f v) = a"

text \<open>The operations a device accepts: one of its sizes, its endian, an aligned address.\<close>

definition op_accepted :: "eb_format_t \<Rightarrow> eb_format_t \<Rightarrow> bus_op \<Rightarrow> bool" where
  "op_accepted sizes endian op \<longleftrightarrow>
     (let sz = op_format op AND EB_DATAX in
      (sz = 1 \<or> sz = 2 \<or> sz = 4 \<or> sz = 8) \<and> sz AND sizes \<noteq> 0 \<and>
      op_format op AND EB_ENDIAN_MASK = endian \<and> op_address op AND ucast (sz - 1) = 0)"

text \<open>Named hypothesis on the hardware: \<open>mem\<close> is the memory of a device, which executes the accepted
  operations of a cycle in order. Nothing is said about other operations.\<close>

definition memory_bus :: "'w bus \<Rightarrow> eb_format_t \<Rightarrow> eb_format_t \<Rightarrow> ('w \<Rightarrow> memory) \<Rightarrow> bool" where
  "memory_bus bus sizes endian mem \<longleftrightarrow>
     (\<forall>h. \<exists>h'. b_open bus h = (EB_OK, h') \<and> mem h' = mem h) \<and>
     (\<forall>ops h. (\<forall>op \<in> set ops. op_accepted sizes endian op) \<longrightarrow>
        (\<exists>h'. b_close bus ops h = (EB_OK, fst (run_ops ops (mem h)), h') \<and> mem h' = snd (run_ops ops (mem h))))"

section \<open>Bytes and values\<close>

lemma of_be_append: "of_be acc (xs @ ys) = of_be (of_be acc xs) ys"
  by (induction xs arbitrary: acc) simp_all

lemma of_be_acc: "of_be acc bs = push_bit (8 * length bs) acc OR of_be 0 bs"
proof (induction bs arbitrary: acc)
  case (Cons b bs)
  show ?case
    by (simp add: Cons [of "push_bit 8 acc OR ucast b"] Cons [of "ucast b"] push_bit_or or.assoc algebra_simps)
qed simp

lemma bit_of_be: "bit (of_be 0 bs) k \<Longrightarrow> k < 8 * length bs"
proof (induction bs)
  case (Cons b bs)
  have "bit (push_bit (8 * length bs) (ucast b :: uint64) OR of_be 0 bs) k"
    using Cons.prems by (simp add: of_be_acc [of "ucast b"])
  then show ?case
    using Cons.IH bit_imp_le_length [of b "k - 8 * length bs"] by (auto simp: bit_simps)
qed simp

lemma of_be_bound: "take_bit (8 * length bs) (of_be 0 bs) = of_be 0 bs"
  by (rule bit_eqI) (auto simp: bit_take_bit_iff dest: bit_of_be)

lemma of_be_take: "take_bit (8 * length ys) (of_be 0 (xs @ ys)) = of_be 0 ys"
  by (simp add: of_be_append of_be_acc [of "of_be 0 xs"] take_bit_or of_be_bound take_bit_push_bit)

lemma of_be_drop:
  assumes "length xs + length ys \<le> 8"
  shows "drop_bit (8 * length ys) (of_be 0 (xs @ ys)) = of_be 0 xs"
proof (rule bit_eqI)
  fix k
  show "bit (drop_bit (8 * length ys) (of_be 0 (xs @ ys))) k = bit (of_be 0 xs) k"
    using assms bit_of_be [of xs k] bit_of_be [of ys "8 * length ys + k"]
    by (auto simp: of_be_append of_be_acc [of "of_be 0 xs"] bit_simps)
qed

lemma be_bytes_take: "n \<le> k \<Longrightarrow> be_bytes n (take_bit (8 * k) v) = be_bytes n v"
proof (induction n)
  case (Suc n)
  have "(ucast (drop_bit (8 * n) (take_bit (8 * k) v)) :: uint8) = ucast (drop_bit (8 * n) v)"
    using Suc.prems by (auto intro!: bit_word_eqI simp: bit_simps)
  with Suc show ?case by simp
qed simp

lemma be_bytes_of_be: "length bs \<le> 8 \<Longrightarrow> be_bytes (length bs) (of_be 0 bs) = bs"
proof (induction bs)
  case (Cons b bs)
  have "drop_bit (8 * length bs) (of_be 0 (b # bs)) = ucast b"
    using of_be_drop [of "[b]" bs] Cons.prems by simp
  moreover have "be_bytes (length bs) (of_be 0 (b # bs)) = bs"
    using Cons of_be_take [of bs "[b]"] be_bytes_take [of "length bs" "length bs" "of_be 0 (b # bs)"] by simp
  moreover have "ucast (ucast b :: uint64) = b" by (auto intro!: bit_word_eqI simp: bit_simps)
  ultimately show ?case by simp
qed simp

lemma be_bytes_append: "be_bytes (m + n) v = be_bytes m (drop_bit (8 * n) v) @ be_bytes n v"
  by (induction m) (simp_all add: algebra_simps)

lemma length_ordered [simp]: "length (ordered endian bs) = length bs"
  by (simp add: ordered_def)

lemma ordered_ordered [simp]: "ordered endian (ordered endian bs) = bs"
  by (simp add: ordered_def)

lemma length_cells [simp]: "length (cells m a n) = n"
  by (simp add: cells_def)

lemma cells_append: "cells m a (j + k) = cells m a j @ cells m (a + word_of_nat j) k"
  by (rule nth_equalityI) (auto simp: cells_def nth_append add.assoc simp flip: of_nat_add)

lemma unat_offset: "i < 2 ^ 64 \<Longrightarrow> unat (a + word_of_nat i - a :: uint64) = i"
  by (simp add: unat_of_nat_small)

lemma cells_put: "length bs \<le> 2 ^ 64 \<Longrightarrow> cells (put_cells m a bs) a (length bs) = bs"
  by (rule nth_equalityI) (auto simp: cells_def put_cells_def unat_of_nat_small)

lemma put_cells_append:
  assumes "length xs + length ys < 2 ^ 64"
  shows "put_cells m a (xs @ ys) = put_cells (put_cells m a xs) (a + word_of_nat (length xs)) ys"
proof
  fix x
  define d where "d = unat (x - a)"
  define e where "e = unat (x - (a + word_of_nat (length xs)))"
  have "unat (word_of_nat (length xs) :: uint64) = length xs" using assms by (intro unat_of_nat_small) simp
  then have e: "e = (if length xs \<le> d then d - length xs else d + 2 ^ 64 - length xs)"
    using unat_sub_if_size [of "x - a" "word_of_nat (length xs)"]
    unfolding d_def e_def by (simp only: diff_diff_add word_size len_num0 len_bit0 len_bit1) simp
  show "put_cells m a (xs @ ys) x = put_cells (put_cells m a xs) (a + word_of_nat (length xs)) ys x"
  proof (cases "d < length xs")
    case True
    then have "e = d + 2 ^ 64 - length xs" using e by simp
    then have "\<not> e < length ys" using assms by linarith
    with True show ?thesis unfolding put_cells_def d_def [symmetric] e_def [symmetric] by (simp add: nth_append)
  next
    case False
    then show ?thesis
      unfolding put_cells_def d_def [symmetric] e_def [symmetric] by (simp add: nth_append e less_diff_conv2)
  qed
qed

lemma memory_bus_open:
  "memory_bus bus sizes endian mem \<Longrightarrow> \<exists>h'. b_open bus h = (EB_OK, h') \<and> mem h' = mem h"
  unfolding memory_bus_def by blast

lemma memory_bus_close:
  "memory_bus bus sizes endian mem \<Longrightarrow> \<forall>op \<in> set ops. op_accepted sizes endian op \<Longrightarrow>
   \<exists>h'. b_close bus ops h = (EB_OK, fst (run_ops ops (mem h)), h') \<and> mem h' = snd (run_ops ops (mem h))"
  unfolding memory_bus_def by blast

section \<open>Sizes\<close>

definition is_size :: "eb_format_t \<Rightarrow> bool" where
  "is_size sz \<longleftrightarrow> sz = 1 \<or> sz = 2 \<or> sz = 4 \<or> sz = 8"

definition is_endian :: "eb_format_t \<Rightarrow> bool" where
  "is_endian e \<longleftrightarrow> e = EB_BIG_ENDIAN \<or> e = EB_LITTLE_ENDIAN"

lemma format_of_size:
  "is_size sz \<Longrightarrow> is_endian e \<Longrightarrow> (e OR sz) AND EB_DATAX = sz"
  "is_size sz \<Longrightarrow> is_endian e \<Longrightarrow> (e OR sz) AND EB_ENDIAN_MASK = e"
  "is_size sz \<Longrightarrow> is_endian e \<Longrightarrow> op_size (e OR sz) = unat sz"
  by (auto simp: is_size_def is_endian_def op_size_def)

lemma size_mask_eq: "is_size sz \<Longrightarrow> x AND size_mask sz = take_bit (8 * unat sz) x"
  by (auto simp: is_size_def size_mask_def take_bit_eq_mask mask_eq_exp_minus_1)

lemma is_size_le: "is_size sz \<Longrightarrow> unat sz \<le> 8"
  by (auto simp: is_size_def)

lemma take_bit_zero_iff: "take_bit k x = 0 \<longleftrightarrow> (\<exists>y. x = y * 2 ^ k)" for x :: uint64
proof
  assume "take_bit k x = 0"
  then have "x = push_bit k (drop_bit k x)" using bits_ident [of k x] by simp
  then show "\<exists>y. x = y * 2 ^ k" unfolding push_bit_eq_mult by blast
next
  assume "\<exists>y. x = y * 2 ^ k"
  then show "take_bit k x = 0" by (auto simp: take_bit_push_bit simp flip: push_bit_eq_mult)
qed

lemma aligned_iff:
  fixes x :: uint64
  assumes "is_size sz"
  shows "x AND ucast (sz - 1) = 0 \<longleftrightarrow> (\<exists>y. x = y * ucast sz)"
proof -
  have "\<exists>k. ucast (sz - 1) = (mask k :: uint64) \<and> ucast sz = (2 ^ k :: uint64)"
    using assms unfolding is_size_def
    by (elim disjE; intro exI [of _ "unat sz div 2 - unat sz div 8"]; simp add: mask_eq_exp_minus_1)
  then obtain k where "ucast (sz - 1) = (mask k :: uint64)" "ucast sz = (2 ^ k :: uint64)" by blast
  then show ?thesis using take_bit_zero_iff [of k x] by (simp add: take_bit_eq_mask)
qed

lemma unat_aligned: "is_size q \<Longrightarrow> unat (x AND ucast (q - 1)) = unat x mod unat q" for x :: uint64
proof -
  have "x AND 1 = x mod 2" "x AND 3 = x mod 4" "x AND 7 = x mod 8"
    using take_bit_eq_mod [of 1 x] take_bit_eq_mod [of 2 x] take_bit_eq_mod [of 3 x]
    by (simp_all add: take_bit_eq_mask mask_eq_exp_minus_1)
  then show "is_size q \<Longrightarrow> unat (x AND ucast (q - 1)) = unat x mod unat q"
    unfolding is_size_def by (auto simp: unat_mod_distrib)
qed

lemma and_plus_and_not: "(x AND m) + (x AND NOT m) = x" for x :: "'a :: len word"
proof -
  have "(x AND m) + (x AND NOT m) = (x AND m) OR (x AND NOT m)"
    by (rule disjunctive_add) (auto simp: bit_simps)
  also have "\<dots> = x" by (rule bit_eqI) (auto simp: bit_simps)
  finally show ?thesis .
qed

lemma unat_floor: "is_size q \<Longrightarrow> unat (x AND NOT (ucast (q - 1))) = unat x - unat x mod unat q" for x :: uint64
proof -
  have "x AND NOT (ucast (q - 1)) = x - (x AND ucast (q - 1))" using and_plus_and_not [of x "ucast (q - 1)"] by (simp add: algebra_simps)
  moreover have "x AND ucast (q - 1) \<le> x" by (simp add: word_and_le2)
  ultimately show "is_size q \<Longrightarrow> unat (x AND NOT (ucast (q - 1))) = unat x - unat x mod unat q"
    using unat_aligned [of q x] by (simp add: unat_sub)
qed

lemma aligned_mod: "is_size q \<Longrightarrow> x AND ucast (q - 1) = 0 \<longleftrightarrow> unat x mod unat q = 0" for x :: uint64
  using unat_aligned [of q x] by (metis unat_eq_zero)

text \<open>For every set of sizes: a size is in it, or there is a smaller one, of which the largest is taken,
  or all are larger, of which the smallest is taken.\<close>

lemma sizes_cases:
  assumes "is_size sz" "sizes < 16" "sizes \<noteq> 0"
  shows "(sz AND sizes \<noteq> 0 \<longrightarrow> sz AND sizes = sz) \<and> fill_sizes sz XOR drop_bit 1 (fill_sizes sz) = sz \<and>
    (sz AND sizes = 0 \<longrightarrow> fill_sizes sz AND sizes \<noteq> 0 \<longrightarrow>
       is_size (largest_size (fill_sizes sz AND sizes)) \<and> largest_size (fill_sizes sz AND sizes) < sz \<and>
       largest_size (fill_sizes sz AND sizes) AND sizes \<noteq> 0) \<and>
    (sz AND sizes = 0 \<longrightarrow> fill_sizes sz AND sizes = 0 \<longrightarrow>
       is_size (smallest_size sizes) \<and> sz < smallest_size sizes \<and> smallest_size sizes AND sizes \<noteq> 0)"
proof -
  have "sz \<in> {1, 2, 4, 8}" using assms(1) by (simp add: is_size_def)
  then show ?thesis
    using nibble_cases [OF assms(2)] assms(3)
    by (elim insertE emptyE) (simp_all add: is_size_def largest_size_def smallest_size_def fill_sizes_def)
qed

lemma largest_smallest:
  assumes "sizes < 16" "sizes \<noteq> 0"
  shows "is_size (largest_size sizes)" "is_size (smallest_size sizes)" "largest_size sizes AND sizes \<noteq> 0"
    "smallest_size sizes AND sizes \<noteq> 0" "unat (smallest_size sizes) dvd unat (largest_size sizes)"
  using nibble_cases [OF assms(1)] assms(2)
  by (auto simp: is_size_def largest_size_def smallest_size_def fill_sizes_def)

end
