(* ===== verification/EB_Access.thy ===== *)
theory EB_Access
  imports EB_Tools
begin

text \<open>
  \<^verbatim>\<open>tools/eb-read.c\<close> and \<^verbatim>\<open>tools/eb-write.c\<close>: reading and writing one value of 1, 2, 4 or 8 bytes. When the
  device or the line does not support that size, the access is split into smaller operations, or a larger
  one is read and, for a write, written back with the bytes replaced.
\<close>

section \<open>Reading\<close>

text \<open>The operations of a read: their addresses and format, and by how many bytes the value has to be
  shifted.\<close>

definition read_plan ::
  "eb_address_t \<Rightarrow> eb_format_t \<Rightarrow> eb_format_t \<Rightarrow> eb_width_t \<Rightarrow> eb_format_t \<Rightarrow> bool \<Rightarrow>
    tool_end + eb_address_t list \<times> eb_format_t \<times> nat" where
  "read_plan address sz endian line_width support fidelity =
     (let read_sizes = line_sizes line_width AND support in
      if sz AND read_sizes = 0 then
        if fidelity then Inl Exit1
        else
          let fragment_sizes = fill_sizes sz in
          if fragment_sizes AND read_sizes \<noteq> 0 then
            let complete_size = fragment_sizes XOR drop_bit 1 fragment_sizes;
                fragment_size = largest_size (fragment_sizes AND read_sizes);
                format = endian OR fragment_size;
                chunk = op_size format;
                count = unat complete_size div chunk
            in if format AND EB_ENDIAN_MASK = EB_BIG_ENDIAN then Inr (strided count address (word_of_nat chunk), format, 0)
               else if format AND EB_ENDIAN_MASK = EB_LITTLE_ENDIAN then
                 Inr (strided count (address + word_of_nat (chunk * (count - 1))) (- word_of_nat chunk), format, 0)
               else Inl Exit1
          else
            let fragment_size = fragment_sizes XOR drop_bit 1 fragment_sizes;
                complete_size = smallest_size read_sizes;
                format = endian OR complete_size;
                aligned_address = address AND NOT (ucast (complete_size - 1))
            in if format AND EB_ENDIAN_MASK = EB_BIG_ENDIAN then
                 Inr ([aligned_address], format,
                      unat complete_size - unat fragment_size - unat (address - aligned_address))
               else if format AND EB_ENDIAN_MASK = EB_LITTLE_ENDIAN then
                 Inr ([aligned_address], format, unat (address - aligned_address))
               else Inl Exit1
      else
        let format = endian OR (sz AND read_sizes) in
        if format AND line_width AND EB_DATAX = 0 \<and> format AND EB_ENDIAN_MASK = 0 then Inl Exit1
        else Inr ([address], format, 0))"

text \<open>The callback: the values of the operations, the first one most significant.\<close>

fun collect :: "nat \<Rightarrow> eb_data_t list \<Rightarrow> eb_data_t \<Rightarrow> eb_data_t" where
  "collect n [] data = data"
| "collect n (v # vs) data = collect n vs (push_bit (n * 8) data OR v)"

definition read_access ::
  "'w bus \<Rightarrow> eb_address_t \<Rightarrow> eb_format_t \<Rightarrow> eb_format_t \<Rightarrow> eb_width_t \<Rightarrow> eb_format_t \<Rightarrow> bool \<Rightarrow> 'w \<Rightarrow>
    (tool_end + eb_data_t) \<times> 'w" where
  "read_access bus address sz endian line_width support fidelity h =
     (if line_sizes line_width AND support = 0 then (Inl Exit1, h)
      else
        case b_open bus h of
          (st, h1) \<Rightarrow>
            if st \<noteq> EB_OK then (Inl Exit1, h1)
            else
              case read_plan address sz endian line_width support fidelity of
                Inl e \<Rightarrow> (Inl e, h1)
              | Inr (as, format, shift) \<Rightarrow>
                  case b_close bus (map (\<lambda>a. Bread a format) as) h1 of
                    (st, vs, h2) \<Rightarrow>
                      if st \<noteq> EB_OK then (Inl Exit1, h2)
                      else (Inr (drop_bit (shift * 8) (collect (op_size format) vs 0) AND size_mask sz), h2))"

text \<open>The program returns the value it prints.\<close>

definition eb_read :: "'w tool_env \<Rightarrow> (char \<times> string) list \<Rightarrow> string list \<Rightarrow> 'w \<Rightarrow> (tool_end + eb_data_t) \<times> 'w" where
  "eb_read E opts args h =
     (case parse_options (access_option (te_strtol E)) opts default_options of
        Inl e \<Rightarrow> (Inl e, h)
      | Inr oo \<Rightarrow>
          (case args of
             [netaddress, access] \<Rightarrow>
               (case parse_access (te_strtoull E) access of
                  Inl e \<Rightarrow> (Inl e, h)
                | Inr (address, sz) \<Rightarrow>
                    case tool_connect E oo netaddress address h of
                      (Inl e, h1) \<Rightarrow> (Inl e, h1)
                    | (Inr (line_width, support), h1) \<Rightarrow>
                        case read_access (te_bus E (o_config oo) (o_silent oo)) address sz (chosen_endian oo support)
                               line_width support (o_fidelity oo) h1 of
                          (Inl e, h2) \<Rightarrow> (Inl e, h2)
                        | (Inr v, h2) \<Rightarrow> tool_disconnect E v h2)
           | _ \<Rightarrow> (Inl Exit1, h)))"

section \<open>Writing\<close>

datatype write_plan =
    Writes "(eb_address_t \<times> eb_data_t) list" eb_format_t
  | Modify eb_address_t eb_format_t nat

fun write_fragments :: "nat \<Rightarrow> eb_format_t \<Rightarrow> int \<Rightarrow> eb_data_t \<Rightarrow> eb_address_t \<Rightarrow> int \<Rightarrow> (eb_address_t \<times> eb_data_t) list" where
  "write_fragments 0 fragment_size shift_step data address shift = []"
| "write_fragments (Suc n) fragment_size shift_step data address shift =
     (address, drop_bit (nat shift) data AND size_mask fragment_size)
     # write_fragments n fragment_size shift_step data (address + ucast fragment_size) (shift + shift_step)"

definition plan_write ::
  "eb_address_t \<Rightarrow> eb_format_t \<Rightarrow> eb_data_t \<Rightarrow> eb_format_t \<Rightarrow> eb_width_t \<Rightarrow> eb_format_t \<Rightarrow> bool \<Rightarrow> tool_end + write_plan" where
  "plan_write address sz data endian line_width support fidelity =
     (let write_sizes = line_sizes line_width AND support in
      if sz AND write_sizes = 0 then
        if fidelity then Inl Exit1
        else
          let fragment_sizes = fill_sizes sz in
          if fragment_sizes AND write_sizes \<noteq> 0 then
            let complete_size = fragment_sizes XOR drop_bit 1 fragment_sizes;
                fragment_size = largest_size (fragment_sizes AND write_sizes);
                format = endian OR fragment_size;
                count = unat complete_size div unat fragment_size
            in if format AND EB_ENDIAN_MASK = EB_BIG_ENDIAN then
                 Inr (Writes (write_fragments count fragment_size (- int (unat fragment_size) * 8) data address
                        ((int (unat complete_size) - int (unat fragment_size)) * 8)) format)
               else if format AND EB_ENDIAN_MASK = EB_LITTLE_ENDIAN then
                 Inr (Writes (write_fragments count fragment_size (int (unat fragment_size) * 8) data address 0) format)
               else Inl Exit1
          else
            let fragment_size = fragment_sizes XOR drop_bit 1 fragment_sizes;
                complete_size = smallest_size write_sizes;
                format = endian OR complete_size;
                aligned_address = address AND NOT (ucast (complete_size - 1))
            in if format AND EB_ENDIAN_MASK = EB_BIG_ENDIAN then
                 Inr (Modify aligned_address format
                        (unat complete_size - unat fragment_size - unat (address - aligned_address)))
               else if format AND EB_ENDIAN_MASK = EB_LITTLE_ENDIAN then
                 Inr (Modify aligned_address format (unat (address - aligned_address)))
               else Inl Exit1
      else
        let format = endian OR (sz AND write_sizes) in
        if format AND line_width AND EB_DATAX = 0 \<and> format AND EB_ENDIAN_MASK = 0 then Inl Exit1
        else Inr (Writes [(address, data)] format))"

text \<open>The status of reopening the cycle after the read is ignored; the cycle is then invalid.\<close>

definition write_access ::
  "'w bus \<Rightarrow> eb_address_t \<Rightarrow> eb_format_t \<Rightarrow> eb_data_t \<Rightarrow> eb_format_t \<Rightarrow> eb_width_t \<Rightarrow> eb_format_t \<Rightarrow> bool \<Rightarrow> 'w \<Rightarrow>
    (tool_end + unit) \<times> 'w" where
  "write_access bus address sz data endian line_width support fidelity h =
     (if line_sizes line_width AND support = 0 then (Inl Exit1, h)
      else
        case b_open bus h of
          (st, h1) \<Rightarrow>
            if st \<noteq> EB_OK then (Inl Exit1, h1)
            else
              case plan_write address sz data endian line_width support fidelity of
                Inl e \<Rightarrow> (Inl e, h1)
              | Inr (Writes ws format) \<Rightarrow>
                  (case b_close bus (map (\<lambda>(a, v). Bwrite a format v) ws) h1 of
                     (st, vs, h2) \<Rightarrow> (if st \<noteq> EB_OK then Inl Exit1 else Inr (), h2))
              | Inr (Modify aligned_address format shift) \<Rightarrow>
                  (case b_close bus [Bread aligned_address format] h1 of
                     (st, vs, h2) \<Rightarrow>
                       if st \<noteq> EB_OK then (Inl Exit1, h2)
                       else
                         case b_open bus h2 of
                           (st, h3) \<Rightarrow>
                             if st \<noteq> EB_OK then (Inl Crash, h3)
                             else
                               let m = push_bit (shift * 8) (size_mask sz);
                                   data = push_bit (shift * 8) data OR (vs ! 0 AND NOT m)
                               in case b_close bus [Bwrite aligned_address format data] h3 of
                                    (st, vs, h4) \<Rightarrow> (if st \<noteq> EB_OK then Inl Exit1 else Inr (), h4)))"

definition eb_write :: "'w tool_env \<Rightarrow> (char \<times> string) list \<Rightarrow> string list \<Rightarrow> 'w \<Rightarrow> (tool_end + unit) \<times> 'w" where
  "eb_write E opts args h =
     (case parse_options (access_option (te_strtol E)) opts default_options of
        Inl e \<Rightarrow> (Inl e, h)
      | Inr oo \<Rightarrow>
          (case args of
             [netaddress, access, value] \<Rightarrow>
               (case parse_access (te_strtoull E) access of
                  Inl e \<Rightarrow> (Inl e, h)
                | Inr (address, sz) \<Rightarrow>
                    case te_strtoull E value of
                      (data, rest) \<Rightarrow>
                        if rest \<noteq> [] then (Inl Exit1, h)
                        else if data AND size_mask sz \<noteq> data then (Inl Exit1, h)
                        else
                          case tool_connect E oo netaddress address h of
                            (Inl e, h1) \<Rightarrow> (Inl e, h1)
                          | (Inr (line_width, support), h1) \<Rightarrow>
                              case write_access (te_bus E (o_config oo) (o_silent oo)) address sz data
                                     (chosen_endian oo support) line_width support (o_fidelity oo) h1 of
                                (Inl e, h2) \<Rightarrow> (Inl e, h2)
                              | (Inr v, h2) \<Rightarrow> tool_disconnect E v h2)
           | _ \<Rightarrow> (Inl Exit1, h)))"

section \<open>A read returns the value in memory\<close>

lemma run_reads:
  "run_ops (map (\<lambda>a. Bread a f) as) m =
     (map (\<lambda>a. of_be 0 (ordered (f AND EB_ENDIAN_MASK) (cells m a (op_size f)))) as, m)"
  by (induction as) simp_all

lemma collect_up:
  "collect f (map (\<lambda>a. of_be 0 (cells m a f)) (strided c a (word_of_nat f))) d = of_be d (cells m a (c * f))"
proof (induction c arbitrary: a d)
  case (Suc c)
  show ?case
    by (simp add: Suc cells_append of_be_append of_be_acc [of d "cells m a f"] mult.commute)
qed (simp add: cells_def)

lemma collect_down:
  "collect f (map (\<lambda>a. of_be 0 (rev (cells m a f))) (strided c (a + word_of_nat (f * (c - 1))) (- word_of_nat f))) d
     = of_be d (rev (cells m a (c * f)))"
proof (induction c arbitrary: d)
  case (Suc c)
  have cells: "cells m a (Suc c * f) = cells m a (c * f) @ cells m (a + word_of_nat (f * c)) f"
    using cells_append [of m a "c * f" f] by (simp add: add.commute mult.commute)
  have nxt: "strided c (a + word_of_nat (f * c) + - word_of_nat f) (- word_of_nat f) =
      strided c (a + word_of_nat (f * (c - 1))) (- word_of_nat f)"
    by (cases c) (simp_all add: algebra_simps)
  show ?case
    unfolding cells using Suc.IH
    by (simp only: diff_Suc_1 strided.simps list.map collect.simps nxt rev_append of_be_append)
      (simp add: of_be_acc [of d "rev (cells m _ f)"] mult.commute)
qed (simp add: cells_def)

lemma strided_multiple:
  "x \<in> set (strided n a s) \<Longrightarrow> \<exists>i. x = a + i * s"
proof (induction n arbitrary: a)
  case (Suc n)
  then consider "x = a" | i where "x = a + s + i * s" by auto
  then show ?case
  proof cases
    case 1
    then show ?thesis by (intro exI [of _ 0]) simp
  next
    case 2
    then show ?thesis by (intro exI [of _ "i + 1"]) (simp add: algebra_simps)
  qed
qed simp

lemma op_accepted_iff:
  assumes "is_size sz" "is_endian endian" "sz AND sizes \<noteq> 0" "op_format op = endian OR sz"
  shows "op_accepted sizes endian op \<longleftrightarrow> (\<exists>y. op_address op = y * ucast sz)"
  using assms format_of_size [OF assms(1,2)] aligned_iff [OF assms(1)]
  by (auto simp: op_accepted_def Let_def is_size_def)

text \<open>A larger aligned block around a value: its bytes are those in front, the value, and those behind.\<close>

lemma around:
  fixes address :: eb_address_t
  assumes "is_size sz" "is_size big" "sz < big" "address AND ucast (sz - 1) = 0"
  defines "al \<equiv> address AND NOT (ucast (big - 1))"
  shows "unat (address - al) + unat sz \<le> unat big" "address = al + word_of_nat (unat (address - al))"
    "al AND ucast (big - 1) = 0"
proof -
  define off where "off = address AND ucast (big - 1)"
  have off: "address - al = off" using and_plus_and_not [of address "ucast (big - 1)"] by (simp add: off_def al_def algebra_simps)
  have "unat off = unat address mod unat big" "unat address mod unat sz = 0"
    using unat_aligned [OF assms(1), of address] unat_aligned [OF assms(2), of address] assms(4) by (simp_all add: off_def)
  moreover have "unat sz dvd unat big" "0 < unat big"
    using assms(1-3) unfolding is_size_def by auto
  ultimately have "unat sz dvd unat off" "unat sz dvd unat big" "unat off < unat big"
    by (auto simp: dvd_mod mod_eq_0_iff_dvd)
  then show "unat (address - al) + unat sz \<le> unat big"
    unfolding off by (metis Suc_leI dvd_def mult.commute mult_Suc mult_le_mono2 mult_less_cancel1 add.commute)
  show "address = al + word_of_nat (unat (address - al))" by simp
  show "al AND ucast (big - 1) = 0" unfolding al_def by (simp add: and.assoc)
qed

lemma cells_around:
  assumes "k + n \<le> c"
  shows "cells m a c = cells m a k @ cells m (a + word_of_nat k) n @ cells m (a + word_of_nat (k + n)) (c - k - n)"
  using cells_append [of m a k "c - k"] cells_append [of m "a + word_of_nat k" n "c - k - n"] assms
  by (simp add: add.assoc)

lemma middle_up:
  assumes "k + n \<le> c" "c \<le> 8"
  shows "take_bit (8 * n) (drop_bit ((c - n - k) * 8) (of_be 0 (cells m a c))) = of_be 0 (cells m (a + word_of_nat k) n)"
proof -
  let ?xs = "cells m a k @ cells m (a + word_of_nat k) n" and ?ys = "cells m (a + word_of_nat (k + n)) (c - k - n)"
  have "drop_bit ((c - n - k) * 8) (of_be 0 (cells m a c)) = of_be 0 ?xs"
    using of_be_drop [of ?xs ?ys] assms by (simp add: cells_around [OF assms(1)] mult.commute add.commute [of n k])
  then show ?thesis using of_be_take [of "cells m (a + word_of_nat k) n"] by simp
qed

lemma middle_down:
  assumes "k + n \<le> c" "c \<le> 8"
  shows "take_bit (8 * n) (drop_bit (k * 8) (of_be 0 (rev (cells m a c)))) = of_be 0 (rev (cells m (a + word_of_nat k) n))"
proof -
  let ?xs = "rev (cells m (a + word_of_nat (k + n)) (c - k - n)) @ rev (cells m (a + word_of_nat k) n)"
  have "drop_bit (k * 8) (of_be 0 (rev (cells m a c))) = of_be 0 ?xs"
    using of_be_drop [of ?xs "rev (cells m a k)"] assms by (simp add: cells_around [OF assms(1)] mult.commute)
  then show ?thesis using of_be_take [of "rev (cells m (a + word_of_nat k) n)"] by simp
qed

text \<open>The three ways a read is done, each with accepted operations and the value in memory as its result.\<close>

definition reads_value :: "eb_format_t \<Rightarrow> eb_format_t \<Rightarrow> memory \<Rightarrow> eb_address_t \<Rightarrow> eb_format_t \<Rightarrow>
    eb_address_t list \<times> eb_format_t \<times> nat \<Rightarrow> bool" where
  "reads_value sizes endian m address sz = (\<lambda>(as, format, shift).
     (\<forall>a \<in> set as. op_accepted sizes endian (Bread a format)) \<and>
     drop_bit (shift * 8) (collect (op_size format) (fst (run_ops (map (\<lambda>a. Bread a format) as) m)) 0) AND size_mask sz
       = of_be 0 (ordered endian (cells m address (unat sz))))"

lemma reads_direct:
  assumes "is_size sz" "is_endian endian" "sz AND sizes \<noteq> 0" "address AND ucast (sz - 1) = 0"
  shows "reads_value sizes endian m address sz ([address], endian OR sz, 0)"
  using assms format_of_size [OF assms(1,2)] of_be_bound [of "ordered endian (cells m address (unat sz))"]
  by (simp add: reads_value_def op_accepted_iff aligned_iff run_reads size_mask_eq)

lemma reads_fragments:
  assumes "is_size sz" "is_endian endian" "is_size f" "f < sz" "f AND sizes \<noteq> 0" "address AND ucast (sz - 1) = 0"
  defines "n \<equiv> unat sz div unat f"
  shows "reads_value sizes endian m address sz
    (if endian = EB_BIG_ENDIAN then (strided n address (word_of_nat (unat f)), endian OR f, 0)
     else (strided n (address + word_of_nat (unat f * (n - 1))) (- word_of_nat (unat f)), endian OR f, 0))"
proof -
  have n: "n * unat f = unat sz" using assms(1,3,4) unfolding n_def is_size_def by auto
  obtain y where y: "address = y * ucast sz" using assms(1,6) aligned_iff by blast
  have sz: "(ucast sz :: uint64) = word_of_nat n * ucast f"
    using n by (metis of_nat_mult of_nat_unat)
  have base: "\<exists>z. address + i * ucast f = z * ucast f" for i
    by (intro exI [of _ "y * word_of_nat n + i"]) (simp add: y sz algebra_simps)
  have up: "\<exists>z. a = z * ucast f" if a: "a \<in> set (strided n address (word_of_nat (unat f)))" for a
    using strided_multiple [OF a] base by auto
  have down: "\<exists>z. a = z * ucast f"
    if a: "a \<in> set (strided n (address + word_of_nat (unat f * (n - 1))) (- word_of_nat (unat f)))" for a
  proof -
    obtain i where "a = address + word_of_nat (unat f * (n - 1)) + i * - word_of_nat (unat f)"
      using strided_multiple [OF a] by blast
    then have "a = address + (word_of_nat (n - 1) - i) * ucast f"
      by (simp only: of_nat_mult of_nat_unat) (simp add: algebra_simps)
    then show ?thesis using base by blast
  qed
  have bound: "of_be 0 (ordered endian (cells m address (unat sz))) AND size_mask sz = of_be 0 (ordered endian (cells m address (unat sz)))"
    using of_be_bound [of "ordered endian (cells m address (unat sz))"] assms(1) by (simp add: size_mask_eq)
  show ?thesis
    using up down bound assms(2) format_of_size [OF assms(3,2)] collect_up [of "unat f" m n address 0]
      collect_down [of "unat f" m n address 0] assms(3,5)
    by (auto simp: reads_value_def op_accepted_iff run_reads ordered_def n is_endian_def)
qed

lemma reads_around:
  assumes "is_size sz" "is_endian endian" "is_size big" "sz < big" "big AND sizes \<noteq> 0" "address AND ucast (sz - 1) = 0"
  defines "al \<equiv> address AND NOT (ucast (big - 1))"
  shows "reads_value sizes endian m address sz ([al], endian OR big,
    if endian = EB_BIG_ENDIAN then unat big - unat sz - unat (address - al) else unat (address - al))"
proof -
  note around = around [OF assms(1,3,4,6), folded al_def]
  have "cells m (al + word_of_nat (unat (address - al))) = cells m address" using around(2) by simp
  then show ?thesis
    using around(3) assms(2,3,5) format_of_size [OF assms(3,2)] is_size_le [OF assms(3)]
      middle_up [OF around(1), of m al] middle_down [OF around(1), of m al]
    by (auto simp: reads_value_def op_accepted_iff aligned_iff run_reads ordered_def size_mask_eq [OF assms(1)] is_endian_def)
qed

lemma read_plan_value:
  assumes "is_size sz" "is_endian endian" "address AND ucast (sz - 1) = 0"
    and "line_sizes line_width AND support < 16" "line_sizes line_width AND support \<noteq> 0"
  shows "\<exists>p. read_plan address sz endian line_width support False = Inr p \<and>
    reads_value (line_sizes line_width AND support) endian m address sz p"
proof -
  define sizes where "sizes = line_sizes line_width AND support"
  note cases = sizes_cases [OF assms(1), of sizes]
  have e: "endian \<noteq> 0" "endian = EB_BIG_ENDIAN \<or> endian = EB_LITTLE_ENDIAN" using assms(2) by (auto simp: is_endian_def)
  consider "sz AND sizes \<noteq> 0" | "sz AND sizes = 0" "fill_sizes sz AND sizes \<noteq> 0"
    | "sz AND sizes = 0" "fill_sizes sz AND sizes = 0" by blast
  then show ?thesis
  proof cases
    case 1
    then have "sz AND sizes = sz" using cases assms(4,5) by (simp add: sizes_def)
    then show ?thesis
      using 1 reads_direct [OF assms(1,2) 1 assms(3), of m] format_of_size [OF assms(1,2)] e
      by (simp add: read_plan_def sizes_def [symmetric])
  next
    case 2
    let ?f = "largest_size (fill_sizes sz AND sizes)"
    have f: "is_size ?f" "?f < sz" "?f AND sizes \<noteq> 0" and c: "fill_sizes sz XOR drop_bit 1 (fill_sizes sz) = sz"
      using 2 cases assms(4,5) by (simp_all add: sizes_def)
    show ?thesis
      using 2 c e reads_fragments [OF assms(1,2) f assms(3), of m] format_of_size [OF f(1) assms(2)]
      by (auto simp: read_plan_def sizes_def [symmetric] Let_def)
  next
    case 3
    let ?b = "smallest_size sizes"
    have b: "is_size ?b" "sz < ?b" "?b AND sizes \<noteq> 0" and c: "fill_sizes sz XOR drop_bit 1 (fill_sizes sz) = sz"
      using 3 cases assms(4,5) by (simp_all add: sizes_def)
    show ?thesis
      using 3 c e reads_around [OF assms(1,2) b assms(3), of m] format_of_size [OF b(1) assms(2)]
      by (auto simp: read_plan_def sizes_def [symmetric] Let_def)
  qed
qed

lemma read_access_value:
  assumes "is_size sz" "is_endian endian" "address AND ucast (sz - 1) = 0"
    and "line_sizes line_width AND support < 16" "line_sizes line_width AND support \<noteq> 0"
    and bus: "memory_bus bus (line_sizes line_width AND support) endian mem"
  shows "\<exists>h'. read_access bus address sz endian line_width support False h =
    (Inr (of_be 0 (ordered endian (cells (mem h) address (unat sz)))), h') \<and> mem h' = mem h"
proof -
  obtain h1 where h1: "b_open bus h = (EB_OK, h1)" "mem h1 = mem h" using memory_bus_open [OF bus] by blast
  obtain as format shift where p: "read_plan address sz endian line_width support False = Inr (as, format, shift)"
    "reads_value (line_sizes line_width AND support) endian (mem h1) address sz (as, format, shift)"
    using read_plan_value [OF assms(1-5), of "mem h1"] by (metis prod_cases3)
  then have "\<forall>op \<in> set (map (\<lambda>a. Bread a format) as). op_accepted (line_sizes line_width AND support) endian op"
    by (simp add: reads_value_def)
  then obtain h2 where h2: "b_close bus (map (\<lambda>a. Bread a format) as) h1 =
      (EB_OK, fst (run_ops (map (\<lambda>a. Bread a format) as) (mem h1)), h2)"
    "mem h2 = snd (run_ops (map (\<lambda>a. Bread a format) as) (mem h1))"
    using memory_bus_close [OF bus] by blast
  show ?thesis
    using p(2) h1(2) h2(2) assms(5) by (simp add: read_access_def h1(1) p(1) h2(1) reads_value_def run_reads)
qed

lemma parse_access_valid:
  "parse_access strtoull arg = Inr (address, sz) \<Longrightarrow> is_size sz \<and> address AND ucast (sz - 1) = 0"
  by (auto simp: parse_access_def is_size_def split: prod.splits if_splits)

lemma line_sizes_less:
  assumes "eb_width_refined line_width"
  shows "line_sizes line_width AND support < 16"
proof -
  define d where "d = line_width AND EB_DATAX"
  have "d < 16" unfolding d_def by (rule le_less_trans [OF word_and_le1]) simp
  moreover have "d \<noteq> 0" "d AND (d - 1) = 0"
    using assms by (simp_all add: d_def eb_width_refined_def Let_def)
  ultimately have "push_bit 1 d - 1 \<le> 15" using nibble_cases [of d] by auto
  then have "line_sizes line_width \<le> 15" by (simp only: line_sizes_def d_def)
  moreover have "line_sizes line_width AND support \<le> line_sizes line_width" by (simp add: word_and_le2)
  ultimately have "line_sizes line_width AND support \<le> 15" by (rule order_trans [rotated])
  then show ?thesis by (rule le_less_trans) simp
qed

text \<open>C17: \<^verbatim>\<open>eb-read\<close> prints the value in memory. Whatever operation sizes the device and the line have in
  common, and for both endians, once the arguments are parsed and the connection is made the program
  issues only operations the device accepts, changes nothing, and returns the value of the bytes from the
  address on, also where it has to split the access or to read more than was asked for.\<close>

theorem eb_read_exact:
  assumes "parse_options (access_option (te_strtol E)) opts default_options = Inr oo" "\<not> o_fidelity oo"
    and "parse_access (te_strtoull E) access = Inr (address, sz)"
    and "tool_connect E oo netaddress address h = (Inr (line_width, support), h1)"
    and "eb_width_refined line_width" "line_sizes line_width AND support \<noteq> 0" "is_endian (chosen_endian oo support)"
    and "memory_bus (te_bus E (o_config oo) (o_silent oo)) (line_sizes line_width AND support) (chosen_endian oo support) mem"
  shows "\<exists>h2. mem h2 = mem h1 \<and> eb_read E opts [netaddress, access] h =
    tool_disconnect E (of_be 0 (ordered (chosen_endian oo support) (cells (mem h1) address (unat sz)))) h2"
  using read_access_value [OF _ _ _ line_sizes_less, of sz "chosen_endian oo support" address line_width support
      "te_bus E (o_config oo) (o_silent oo)" mem h1] parse_access_valid [OF assms(3)] assms
  by (auto simp: eb_read_def)

section \<open>A write changes exactly the bytes\<close>

lemma put_cells_same: "put_cells m a (cells m a n) = m"
  by (rule ext) (simp add: put_cells_def cells_def)

lemma cells_put_behind:
  assumes "length bs + n < 2 ^ 64"
  shows "cells (put_cells m a bs) (a + word_of_nat (length bs)) n = cells m (a + word_of_nat (length bs)) n"
proof -
  have "put_cells m a bs (a + word_of_nat (length bs) + word_of_nat i) = m (a + word_of_nat (length bs) + word_of_nat i)"
    if "i < n" for i
  proof -
    have "unat (a + word_of_nat (length bs) + word_of_nat i - a) = length bs + i"
      using unat_offset [of "length bs + i" a] that assms by (simp add: add.assoc)
    then show ?thesis by (simp add: put_cells_def)
  qed
  then show ?thesis by (simp add: cells_def)
qed

lemma put_middle:
  assumes "k + length bs + j < 2 ^ 64"
  shows "put_cells m a (cells m a k @ bs @ cells m (a + word_of_nat (k + length bs)) j) = put_cells m (a + word_of_nat k) bs"
proof -
  let ?m = "put_cells m (a + word_of_nat k) bs"
  have 1: "put_cells m a (cells m a k @ bs @ cells m (a + word_of_nat (k + length bs)) j) =
      put_cells ?m (a + word_of_nat (k + length bs)) (cells m (a + word_of_nat (k + length bs)) j)"
    using put_cells_append [of "cells m a k" "bs @ cells m (a + word_of_nat (k + length bs)) j" m a]
      put_cells_append [of bs "cells m (a + word_of_nat (k + length bs)) j" m "a + word_of_nat k"] assms
    by (simp add: put_cells_same add.assoc)
  have 2: "cells m (a + word_of_nat (k + length bs)) j = cells ?m (a + word_of_nat (k + length bs)) j"
    using cells_put_behind [of bs j m "a + word_of_nat k"] assms by (simp add: add.assoc)
  show ?thesis by (subst 1, subst 2, rule put_cells_same)
qed

lemma replace_middle:
  assumes "length xs + length ms + length ys \<le> 8" "take_bit (8 * length ms) data = data"
  shows "push_bit (8 * length ys) data OR (of_be 0 (xs @ ms @ ys) AND NOT (push_bit (8 * length ys) (mask (8 * length ms)))) =
    of_be 0 (xs @ be_bytes (length ms) data @ ys)"
proof -
  have split: "of_be 0 (xs @ bs @ ys) = push_bit (8 * (length bs + length ys)) (of_be 0 xs) OR
      push_bit (8 * length ys) (of_be 0 bs) OR of_be 0 ys" for bs
    by (simp add: of_be_append of_be_acc [of "of_be 0 xs"] of_be_acc [of "_ OR _"] push_bit_or or.assoc algebra_simps)
  have data: "of_be 0 (be_bytes (length ms) data) = data" using assms by (simp add: of_be_be_bytes)
  show ?thesis
  proof (rule bit_eqI)
    fix i
    assume i: "possible_bit TYPE(64 word) i"
    have "bit data (i - 8 * length ys) \<Longrightarrow> i - 8 * length ys < 8 * length ms"
      using assms(2) by (metis bit_take_bit_iff)
    then show "bit (push_bit (8 * length ys) data OR (of_be 0 (xs @ ms @ ys) AND NOT (push_bit (8 * length ys) (mask (8 * length ms))))) i
      = bit (of_be 0 (xs @ be_bytes (length ms) data @ ys)) i"
      using i bit_of_be [of ms "i - 8 * length ys"] bit_of_be [of ys i]
      unfolding split data by (auto simp: bit_simps)
  qed
qed

text \<open>The effect of a plan on memory.\<close>

definition writes_value :: "eb_format_t \<Rightarrow> eb_format_t \<Rightarrow> memory \<Rightarrow> eb_address_t \<Rightarrow> eb_format_t \<Rightarrow> eb_data_t \<Rightarrow>
    write_plan \<Rightarrow> bool" where
  "writes_value sizes endian m address sz data p =
     (case p of
        Writes ws format \<Rightarrow>
          (\<forall>(a, v) \<in> set ws. op_accepted sizes endian (Bwrite a format v)) \<and>
          snd (run_ops (map (\<lambda>(a, v). Bwrite a format v) ws) m) = put_cells m address (ordered endian (be_bytes (unat sz) data))
      | Modify al format shift \<Rightarrow>
          op_accepted sizes endian (Bread al format) \<and>
          put_cells m al (ordered endian (be_bytes (op_size format)
            (push_bit (shift * 8) data OR
             (of_be 0 (ordered endian (cells m al (op_size format))) AND NOT (push_bit (shift * 8) (size_mask sz))))))
          = put_cells m address (ordered endian (be_bytes (unat sz) data)) \<and> format AND EB_ENDIAN_MASK = endian)"

lemma be_bytes_masked:
  "is_size f \<Longrightarrow> be_bytes (unat f) (v AND size_mask f) = be_bytes (unat f) v"
  by (simp add: size_mask_eq be_bytes_take)

lemma write_fragments_up:
  assumes f: "is_size f" "n * unat f \<le> 8"
  shows "snd (run_ops (map (\<lambda>(a, v). Bwrite a (EB_BIG_ENDIAN OR f) v)
      (write_fragments n f (- int (unat f) * 8) data a ((int (n * unat f) - int (unat f)) * 8))) m)
    = put_cells m a (be_bytes (n * unat f) data)"
  using f(2)
proof (induction n arbitrary: a m)
  case (Suc n)
  have fm: "op_size (EB_BIG_ENDIAN OR f) = unat f" "(EB_BIG_ENDIAN OR f) AND EB_ENDIAN_MASK = EB_BIG_ENDIAN"
    using format_of_size [OF f(1), of EB_BIG_ENDIAN] by (simp_all add: is_endian_def)
  have sh: "(int (Suc n * unat f) - int (unat f)) * 8 = int (8 * (n * unat f))"
    "int (8 * (n * unat f)) + - int (unat f) * 8 = (int (n * unat f) - int (unat f)) * 8" by (simp_all add: algebra_simps)
  have "snd (run_ops (map (\<lambda>(a, v). Bwrite a (EB_BIG_ENDIAN OR f) v)
      (write_fragments (Suc n) f (- int (unat f) * 8) data a ((int (Suc n * unat f) - int (unat f)) * 8))) m) =
    put_cells (put_cells m a (be_bytes (unat f) (drop_bit (8 * (n * unat f)) data))) (a + word_of_nat (unat f))
      (be_bytes (n * unat f) data)"
    unfolding sh(1) write_fragments.simps sh(2) nat_int
    using Suc.IH [of "a + ucast f"] Suc.prems
    by (simp add: fm ordered_def be_bytes_masked [OF f(1)] split_def)
  then show ?case
    using put_cells_append [of "be_bytes (unat f) (drop_bit (8 * (n * unat f)) data)" "be_bytes (n * unat f) data" m a] Suc.prems
    by (simp add: be_bytes_append)
qed (simp add: put_cells_def fun_eq_iff)

lemma write_fragments_down:
  assumes f: "is_size f" "n * unat f \<le> 8"
  shows "snd (run_ops (map (\<lambda>(a, v). Bwrite a (EB_LITTLE_ENDIAN OR f) v)
      (write_fragments n f (int (unat f) * 8) data a (int (8 * k)))) m)
    = put_cells m a (rev (be_bytes (n * unat f) (drop_bit (8 * k) data)))"
  using f(2)
proof (induction n arbitrary: a m k)
  case (Suc n)
  have fm: "op_size (EB_LITTLE_ENDIAN OR f) = unat f" "(EB_LITTLE_ENDIAN OR f) AND EB_ENDIAN_MASK = EB_LITTLE_ENDIAN"
    using format_of_size [OF f(1), of EB_LITTLE_ENDIAN] by (simp_all add: is_endian_def)
  have sh: "int (8 * k) + int (unat f) * 8 = int (8 * (k + unat f))" by (simp add: algebra_simps)
  have "snd (run_ops (map (\<lambda>(a, v). Bwrite a (EB_LITTLE_ENDIAN OR f) v)
      (write_fragments (Suc n) f (int (unat f) * 8) data a (int (8 * k)))) m) =
    put_cells (put_cells m a (rev (be_bytes (unat f) (drop_bit (8 * k) data)))) (a + word_of_nat (unat f))
      (rev (be_bytes (n * unat f) (drop_bit (8 * (k + unat f)) data)))"
    unfolding write_fragments.simps sh nat_int
    using Suc.IH [of "a + ucast f" "k + unat f"] Suc.prems
    by (simp add: fm ordered_def be_bytes_masked [OF f(1)] split_def)
  moreover have "be_bytes (Suc n * unat f) (drop_bit (8 * k) data) =
      be_bytes (n * unat f) (drop_bit (8 * (k + unat f)) data) @ be_bytes (unat f) (drop_bit (8 * k) data)"
    using be_bytes_append [of "n * unat f" "unat f" "drop_bit (8 * k) data"] by (simp add: algebra_simps)
  ultimately show ?case
    using put_cells_append [of "rev (be_bytes (unat f) (drop_bit (8 * k) data))"
        "rev (be_bytes (n * unat f) (drop_bit (8 * (k + unat f)) data))" m a] Suc.prems
    by simp
qed (simp add: put_cells_def fun_eq_iff)

lemma write_fragments_addresses:
  "(x, v) \<in> set (write_fragments n f st data a sh) \<Longrightarrow> \<exists>i. x = a + i * ucast f"
proof (induction n arbitrary: a sh)
  case (Suc n)
  then consider "x = a" | i where "x = a + ucast f + i * ucast f" by auto
  then show ?case
  proof cases
    case 1
    then show ?thesis by (intro exI [of _ 0]) simp
  next
    case 2
    then show ?thesis by (intro exI [of _ "i + 1"]) (simp add: algebra_simps)
  qed
qed simp

lemma writes_direct:
  assumes "is_size sz" "is_endian endian" "sz AND sizes \<noteq> 0" "address AND ucast (sz - 1) = 0"
  shows "writes_value sizes endian m address sz data (Writes [(address, data)] (endian OR sz))"
  using assms format_of_size [OF assms(1,2)]
  by (simp add: writes_value_def op_accepted_iff aligned_iff)

lemma writes_fragments:
  assumes "is_size sz" "is_endian endian" "is_size f" "f < sz" "f AND sizes \<noteq> 0" "address AND ucast (sz - 1) = 0"
  defines "n \<equiv> unat sz div unat f"
  shows "writes_value sizes endian m address sz data
    (if endian = EB_BIG_ENDIAN
     then Writes (write_fragments n f (- int (unat f) * 8) data address ((int (unat sz) - int (unat f)) * 8)) (endian OR f)
     else Writes (write_fragments n f (int (unat f) * 8) data address 0) (endian OR f))"
proof -
  have n: "n * unat f = unat sz" using assms(1,3,4) unfolding n_def is_size_def by auto
  obtain y where y: "address = y * ucast sz" using assms(1,6) aligned_iff by blast
  have sz: "(ucast sz :: uint64) = word_of_nat n * ucast f" using n by (metis of_nat_mult of_nat_unat)
  have "\<exists>z. a = z * ucast f" if a: "(a, v) \<in> set (write_fragments n f st data address sh)" for a v st sh
  proof -
    obtain i where "a = address + i * ucast f" using write_fragments_addresses [OF a] by blast
    then show ?thesis by (intro exI [of _ "y * word_of_nat n + i"]) (simp add: y sz algebra_simps)
  qed
  then have acc: "op_accepted sizes endian (Bwrite a (endian OR f) v)"
    if "(a, v) \<in> set (write_fragments n f st data address sh)" for a v st sh
    using that assms(2,3,5) by (subst op_accepted_iff) auto
  have le: "n * unat f \<le> 8" using n is_size_le [OF assms(1)] by simp
  show ?thesis
    using write_fragments_up [OF assms(3) le, of data address m] write_fragments_down [OF assms(3) le, of data address 0 m]
      acc assms(2)
    by (auto simp: writes_value_def n ordered_def is_endian_def split_def)
qed

lemma writes_around:
  assumes "is_size sz" "is_endian endian" "is_size big" "sz < big" "big AND sizes \<noteq> 0" "address AND ucast (sz - 1) = 0"
    and data: "data AND size_mask sz = data"
  defines "al \<equiv> address AND NOT (ucast (big - 1))"
  shows "writes_value sizes endian m address sz data (Modify al (endian OR big)
    (if endian = EB_BIG_ENDIAN then unat big - unat sz - unat (address - al) else unat (address - al)))"
proof -
  note around = around [OF assms(1,3,4,6), folded al_def]
  define k where "k = unat (address - al)"
  define j where "j = unat big - k - unat sz"
  let ?xs = "cells m al k" and ?ms = "cells m (al + word_of_nat k) (unat sz)" and ?ys = "cells m (al + word_of_nat (k + unat sz)) j"
  have adr: "address = al + word_of_nat k" using around(2) by (simp add: k_def)
  have lens: "k + unat sz + j = unat big" "unat big \<le> 8"
    using around(1) is_size_le [OF assms(3)] by (simp_all add: k_def j_def)
  have blk: "cells m al (unat big) = ?xs @ ?ms @ ?ys"
    using cells_around [of k "unat sz" "unat big" m al] around(1) by (simp add: k_def j_def)
  have masked: "take_bit (8 * unat sz) data = data" using data size_mask_eq [OF assms(1)] by simp
  have sm: "size_mask sz = mask (8 * unat sz)"
    using size_mask_eq [OF assms(1), of "- 1"] by (simp add: take_bit_minus_one_eq_mask)
  have up: "push_bit (j * 8) data OR (of_be 0 (?xs @ ?ms @ ?ys) AND NOT (push_bit (j * 8) (size_mask sz))) =
      of_be 0 (?xs @ be_bytes (unat sz) data @ ?ys)"
    using replace_middle [of ?xs ?ms ?ys data] lens masked by (simp add: sm mult.commute)
  have down: "push_bit (k * 8) data OR (of_be 0 (rev ?ys @ rev ?ms @ rev ?xs) AND NOT (push_bit (k * 8) (size_mask sz))) =
      of_be 0 (rev ?ys @ be_bytes (unat sz) data @ rev ?xs)"
    using replace_middle [of "rev ?ys" "rev ?ms" "rev ?xs" data] lens masked by (simp add: sm mult.commute)
  have put: "put_cells m al (?xs @ bs @ ?ys) = put_cells m address bs" if "length bs = unat sz" for bs
    using put_middle [of k bs j m al] that lens by (simp add: adr)
  have bytes: "be_bytes (unat big) (of_be 0 bs) = bs" if "length bs = unat big" for bs
    using be_bytes_of_be [of bs] that lens by simp
  have j: "unat big - (unat sz + unat (address - al)) = j" by (simp add: j_def k_def)
  have acc: "op_accepted sizes endian (Bread al (endian OR big))"
    using around(3) assms(2,3,5) aligned_iff by (subst op_accepted_iff) auto
  show ?thesis
  proof (cases "endian = EB_BIG_ENDIAN")
    case True
    then show ?thesis
      using acc up format_of_size [OF assms(3,2)] lens put [of "be_bytes (unat sz) data"]
      by (simp add: writes_value_def j ordered_def blk bytes)
  next
    case False
    then have "rev (rev ?ys @ be_bytes (unat sz) data @ rev ?xs) = ?xs @ rev (be_bytes (unat sz) data) @ ?ys" by simp
    then show ?thesis
      using False acc down format_of_size [OF assms(3,2)] lens put [of "rev (be_bytes (unat sz) data)"]
      by (simp add: writes_value_def k_def [symmetric] ordered_def blk bytes)
  qed
qed

lemma plan_write_value:
  assumes "is_size sz" "is_endian endian" "address AND ucast (sz - 1) = 0" "data AND size_mask sz = data"
    and "line_sizes line_width AND support < 16" "line_sizes line_width AND support \<noteq> 0"
  shows "\<exists>p. plan_write address sz data endian line_width support False = Inr p \<and>
    writes_value (line_sizes line_width AND support) endian m address sz data p"
proof -
  define sizes where "sizes = line_sizes line_width AND support"
  note cases = sizes_cases [OF assms(1), of sizes]
  have e: "endian \<noteq> 0" "endian = EB_BIG_ENDIAN \<or> endian = EB_LITTLE_ENDIAN" using assms(2) by (auto simp: is_endian_def)
  consider "sz AND sizes \<noteq> 0" | "sz AND sizes = 0" "fill_sizes sz AND sizes \<noteq> 0"
    | "sz AND sizes = 0" "fill_sizes sz AND sizes = 0" by blast
  then show ?thesis
  proof cases
    case 1
    then have "sz AND sizes = sz" using cases assms(5,6) by (simp add: sizes_def)
    then show ?thesis
      using 1 writes_direct [OF assms(1,2) 1 assms(3), of m] format_of_size [OF assms(1,2)] e
      by (simp add: plan_write_def sizes_def [symmetric])
  next
    case 2
    let ?f = "largest_size (fill_sizes sz AND sizes)"
    have f: "is_size ?f" "?f < sz" "?f AND sizes \<noteq> 0" and c: "fill_sizes sz XOR drop_bit 1 (fill_sizes sz) = sz"
      using 2 cases assms(5,6) by (simp_all add: sizes_def)
    show ?thesis
      using 2 c e writes_fragments [OF assms(1,2) f assms(3), of m data] format_of_size [OF f(1) assms(2)]
      by (auto simp: plan_write_def sizes_def [symmetric] Let_def)
  next
    case 3
    let ?b = "smallest_size sizes"
    have b: "is_size ?b" "sz < ?b" "?b AND sizes \<noteq> 0" and c: "fill_sizes sz XOR drop_bit 1 (fill_sizes sz) = sz"
      using 3 cases assms(5,6) by (simp_all add: sizes_def)
    show ?thesis
      using 3 c e writes_around [OF assms(1,2) b assms(3,4), of m] format_of_size [OF b(1) assms(2)]
      by (auto simp: plan_write_def sizes_def [symmetric] Let_def)
  qed
qed

lemma write_access_value:
  assumes "is_size sz" "is_endian endian" "address AND ucast (sz - 1) = 0" "data AND size_mask sz = data"
    and "line_sizes line_width AND support < 16" "line_sizes line_width AND support \<noteq> 0"
    and bus: "memory_bus bus (line_sizes line_width AND support) endian mem"
  shows "\<exists>h'. write_access bus address sz data endian line_width support False h = (Inr (), h') \<and>
    mem h' = put_cells (mem h) address (ordered endian (be_bytes (unat sz) data))"
proof -
  let ?sizes = "line_sizes line_width AND support"
  obtain h1 where h1: "b_open bus h = (EB_OK, h1)" "mem h1 = mem h" using memory_bus_open [OF bus] by blast
  obtain p where p: "plan_write address sz data endian line_width support False = Inr p"
    "writes_value ?sizes endian (mem h) address sz data p"
    using plan_write_value [OF assms(1-6), of "mem h"] by blast
  show ?thesis
  proof (cases p)
    case (Writes ws format)
    let ?ops = "map (\<lambda>(a, v). Bwrite a format v) ws"
    have "\<forall>op \<in> set ?ops. op_accepted ?sizes endian op" using p(2) by (auto simp: writes_value_def Writes)
    then obtain h2 where "b_close bus ?ops h1 = (EB_OK, fst (run_ops ?ops (mem h1)), h2)" "mem h2 = snd (run_ops ?ops (mem h1))"
      using memory_bus_close [OF bus] by blast
    then show ?thesis
      using p(2) h1 assms(6) by (auto simp: write_access_def p(1) Writes writes_value_def)
  next
    case (Modify al format shift)
    have acc: "op_accepted ?sizes endian (Bread al format)" "format AND EB_ENDIAN_MASK = endian"
      using p(2) by (simp_all add: writes_value_def Modify)
    then obtain h2 where h2: "b_close bus [Bread al format] h1 = (EB_OK, fst (run_ops [Bread al format] (mem h1)), h2)"
      "mem h2 = mem h1"
      using memory_bus_close [OF bus, of "[Bread al format]" h1] by auto
    obtain h3 where h3: "b_open bus h2 = (EB_OK, h3)" "mem h3 = mem h2" using memory_bus_open [OF bus] by blast
    let ?v = "push_bit (shift * 8) data OR
      (of_be 0 (ordered endian (cells (mem h) al (op_size format))) AND NOT (push_bit (shift * 8) (size_mask sz)))"
    have "op_accepted ?sizes endian (Bwrite al format ?v)" using acc(1) by (simp add: op_accepted_def)
    then obtain h4 where "b_close bus [Bwrite al format ?v] h3 = (EB_OK, [], h4)"
      "mem h4 = put_cells (mem h) al (ordered endian (be_bytes (op_size format) ?v))"
      using memory_bus_close [OF bus, of "[Bwrite al format ?v]" h3] h1(2) h2(2) h3(2) acc(2) by auto
    then show ?thesis
      using p(2) h1 h2 h3 assms(6) acc(2) by (simp add: write_access_def p(1) Modify writes_value_def)
  qed
qed

text \<open>C16: \<^verbatim>\<open>eb-write\<close> changes exactly the bytes it was asked to. Whatever operation sizes the device and the
  line have in common, and for both endians, once the arguments are parsed and the connection is made the
  program issues only operations the device accepts and leaves the memory with the value at the address and
  every other byte as it was, also where it has to split the access or to write back more bytes.\<close>

theorem eb_write_exact:
  assumes "parse_options (access_option (te_strtol E)) opts default_options = Inr oo" "\<not> o_fidelity oo"
    and "parse_access (te_strtoull E) access = Inr (address, sz)"
    and "te_strtoull E val = (data, [])" "data AND size_mask sz = data"
    and "tool_connect E oo netaddress address h = (Inr (line_width, support), h1)"
    and "eb_width_refined line_width" "line_sizes line_width AND support \<noteq> 0" "is_endian (chosen_endian oo support)"
    and "memory_bus (te_bus E (o_config oo) (o_silent oo)) (line_sizes line_width AND support) (chosen_endian oo support) mem"
  shows "\<exists>h2. mem h2 = put_cells (mem h1) address (ordered (chosen_endian oo support) (be_bytes (unat sz) data)) \<and>
    eb_write E opts [netaddress, access, val] h = tool_disconnect E () h2"
  using write_access_value [OF _ _ _ _ line_sizes_less, of sz "chosen_endian oo support" address data line_width support
      "te_bus E (o_config oo) (o_silent oo)" mem h1] parse_access_valid [OF assms(3)] assms
  by (auto simp: eb_write_def)

section \<open>A device of 32-bit words\<close>

text \<open>A little-endian memory that accepts only 32-bit operations, whose bytes are the state, and numbers in
  decimal.\<close>

fun decimal :: "uint64 \<Rightarrow> string \<Rightarrow> uint64 \<times> string" where
  "decimal n [] = (n, [])"
| "decimal n (c # cs) =
     (let d = of_char c :: nat in
      if 48 \<le> d \<and> d \<le> 57 then decimal (10 * n + word_of_nat (d - 48)) cs else (n, c # cs))"

definition plain_memory :: "memory bus" where
  "plain_memory = \<lparr>b_open = (\<lambda>m. (EB_OK, m)), b_close = (\<lambda>ops m. case run_ops ops m of (vs, m') \<Rightarrow> (EB_OK, vs, m')),
     b_write = (\<lambda>a f v m. (EB_OK, snd (run_op (Bwrite a f v) m))), b_read = (\<lambda>a f m. (EB_OK, hd (fst (run_op (Bread a f) m)), m))\<rparr>"

lemma plain_memory_bus: "memory_bus plain_memory sizes endian (\<lambda>m. m)"
  by (simp add: memory_bus_def plain_memory_def split: prod.splits)

definition word_device :: sdb_device where
  "word_device = \<lparr>abi_class = 0, abi_ver_major = 1, abi_ver_minor = 0, bus_specific = 0x84,
     dev_component = \<lparr>addr_first = 0, addr_last = 0xFFFF,
       product = \<lparr>vendor_id = 0x651, device_id = 1, version = 1, date = 0, prod_name = [], record_type = 1\<rparr>\<rparr>\<rparr>"

definition memory_env :: "memory tool_env" where
  "memory_env = \<lparr>te_strtol = (\<lambda>cs. (0, cs)), te_strtoull = decimal 0, te_socket_open = (\<lambda>w m. (EB_OK, m)),
     te_device_open = (\<lambda>a n m. (EB_OK, m)), te_device_width = (\<lambda>m. 0x44),
     te_find_by_address = (\<lambda>a m. (EB_OK, word_device, m)), te_bus = (\<lambda>c q. plain_memory), te_had_error = (\<lambda>m. False),
     te_device_close = (\<lambda>m. (EB_OK, m)), te_socket_close = (\<lambda>m. (EB_OK, m))\<rparr>"

lemma memory_env_arguments:
  "parse_options (access_option (te_strtol memory_env)) [] default_options = Inr default_options"
  "parse_access (te_strtoull memory_env) ''18/2'' = Inr (18, 2)"
  "te_strtoull memory_env ''258'' = (258, [])"
  "tool_connect memory_env default_options ''udp/host'' 18 m = (Inr (0x44, 0x24), m)"
  "chosen_endian default_options 0x24 = EB_LITTLE_ENDIAN" "line_sizes 0x44 AND 0x24 = 4" "eb_width_refined 0x44"
  "\<not> o_fidelity default_options" "te_bus memory_env c q = plain_memory"
  by (simp_all add: default_options_def memory_env_def parse_access_def tool_connect_def device_formats_def word_device_def
      chosen_endian_def line_sizes_def eb_width_refined_def)

lemma memory_env_closes: "tool_disconnect memory_env r m = (Inr r, m)"
  by (simp add: tool_disconnect_def memory_env_def)

theorem eb_read_exact_witness:
  "fst (eb_read memory_env [] [''udp/host'', ''18/2''] (\<lambda>a. ucast a)) = Inr 0x1312"
proof -
  let ?m = "(\<lambda>a. ucast a) :: memory"
  have "\<exists>h2. h2 = ?m \<and> eb_read memory_env [] [''udp/host'', ''18/2''] ?m =
      tool_disconnect memory_env (of_be 0 (ordered (chosen_endian default_options 0x24) (cells ?m 18 (unat (2 :: uint8))))) h2"
    by (rule eb_read_exact [where mem = "\<lambda>m. m", OF memory_env_arguments(1) _ memory_env_arguments(2,4,7)])
      (simp_all add: memory_env_arguments is_endian_def plain_memory_bus)
  moreover have "of_be 0 (ordered EB_LITTLE_ENDIAN (cells ?m 18 2)) = 0x1312" by code_simp
  ultimately show ?thesis by (auto simp: memory_env_arguments memory_env_closes)
qed

theorem eb_write_exact_witness:
  "\<exists>m. eb_write memory_env [] [''udp/host'', ''18/2'', ''258''] (\<lambda>a. ucast a) = (Inr (), m) \<and>
     m 18 = 2 \<and> m 19 = 1 \<and> m 20 = 20"
proof -
  let ?m = "(\<lambda>a. ucast a) :: memory"
  have "\<exists>h2. h2 = put_cells ?m 18 (ordered (chosen_endian default_options 0x24) (be_bytes (unat (2 :: uint8)) 258)) \<and>
      eb_write memory_env [] [''udp/host'', ''18/2'', ''258''] ?m = tool_disconnect memory_env () h2"
    by (rule eb_write_exact [where mem = "\<lambda>m. m", OF memory_env_arguments(1) _ memory_env_arguments(2,3) _ memory_env_arguments(4,7)])
      (simp_all add: memory_env_arguments is_endian_def plain_memory_bus size_mask_def mask_eq_exp_minus_1)
  moreover have "map (put_cells ?m 18 (ordered EB_LITTLE_ENDIAN (be_bytes 2 258))) [18, 19, 20] = [2, 1, 20]"
    by code_simp
  ultimately show ?thesis by (auto simp: memory_env_arguments memory_env_closes)
qed

end
