(* ===== verification/EB_Blocks.thy ===== *)
theory EB_Blocks
  imports EB_Access
begin

text \<open>
  \<^verbatim>\<open>tools/eb-put.c\<close> and \<^verbatim>\<open>tools/eb-get.c\<close>: copying a file into the memory of a device and a range of that memory
  into a file. The range is covered by operations of the smallest supported size up to the first boundary of
  the largest size, by batches of the largest size, and again by the smallest size for the rest.

  Cycles are closed without waiting: \<^verbatim>\<open>todo\<close> counts the cycles whose callback has not been called yet. Here
  those cycles are a list, and waiting until \<^verbatim>\<open>todo\<close> is zero executes them in order.
\<close>

section \<open>The loops\<close>

abbreviation (input) OPERATIONS_PER_CYCLE :: nat where "OPERATIONS_PER_CYCLE \<equiv> 32"

text \<open>How many cycles fit a packet.\<close>

definition packed_cycles :: "eb_width_t \<Rightarrow> eb_format_t \<Rightarrow> int \<Rightarrow> int" where
  "packed_cycles line_width bulk cycles =
     (if cycles \<noteq> 0 then cycles
      else
        let data = line_width AND EB_DATAX;
            status = int OPERATIONS_PER_CYCLE div (uint data * 8);
            status = (if status = 0 then 1 else status);
            line_alignment = uint (largest_size (drop_bit 4 line_width OR data));
            cost = (if bulk \<noteq> data
                    then int OPERATIONS_PER_CYCLE * (3 * line_alignment) + status * 3 * line_alignment
                    else int OPERATIONS_PER_CYCLE * line_alignment + status * 6 * line_alignment);
            cycles = 1450 div cost
        in if cycles = 0 then 1 else cycles)"

text \<open>The three loops of both programs, over what a transfer and a wait do with their state. A loop that
  does not end is \<open>None\<close>.\<close>

type_synonym 's transfer = "eb_address_t \<Rightarrow> eb_format_t \<Rightarrow> nat \<Rightarrow> 's \<Rightarrow> tool_end + 's"

partial_function (option) head_loop ::
  "'s transfer \<Rightarrow> eb_format_t \<Rightarrow> eb_format_t \<Rightarrow> eb_format_t \<Rightarrow> eb_address_t \<Rightarrow> 's \<Rightarrow> (tool_end + eb_address_t \<times> 's) option" where
  "head_loop transfer endian bulk edge pos s =
     (if pos AND ucast (bulk - 1) \<noteq> 0 then
        (case transfer pos (endian OR edge) 1 s of
           Inl e \<Rightarrow> Some (Inl e)
         | Inr s1 \<Rightarrow> head_loop transfer endian bulk edge (pos + ucast edge) s1)
      else Some (Inr (pos, s)))"

partial_function (option) bulk_loop ::
  "'s transfer \<Rightarrow> ('s \<Rightarrow> tool_end + 's) \<Rightarrow> eb_format_t \<Rightarrow> eb_format_t \<Rightarrow> int \<Rightarrow> eb_address_t \<Rightarrow> int \<Rightarrow> eb_address_t \<Rightarrow> 's \<Rightarrow>
    (tool_end + eb_address_t \<times> 's) option" where
  "bulk_loop transfer wait endian bulk cycles end_bulk cycle pos s =
     (if pos < end_bulk then
        (let step = (end_bulk - pos) div ucast bulk;
             step = (if step > 32 then 32 else step)
         in case transfer pos (endian OR bulk) (unat step) s of
              Inl e \<Rightarrow> Some (Inl e)
            | Inr s1 \<Rightarrow>
                if cycle + 1 = cycles then
                  (case wait s1 of
                     Inl e \<Rightarrow> Some (Inl e)
                   | Inr s2 \<Rightarrow> bulk_loop transfer wait endian bulk cycles end_bulk 0 (pos + step * ucast bulk) s2)
                else bulk_loop transfer wait endian bulk cycles end_bulk (cycle + 1) (pos + step * ucast bulk) s1)
      else Some (Inr (pos, s)))"

partial_function (option) tail_loop ::
  "'s transfer \<Rightarrow> eb_format_t \<Rightarrow> eb_format_t \<Rightarrow> eb_address_t \<Rightarrow> eb_address_t \<Rightarrow> 's \<Rightarrow> (tool_end + 's) option" where
  "tail_loop transfer endian edge end_address pos s =
     (if pos < end_address then
        (case transfer pos (endian OR edge) 1 s of
           Inl e \<Rightarrow> Some (Inl e)
         | Inr s1 \<Rightarrow> tail_loop transfer endian edge end_address (pos + ucast edge) s1)
      else Some (Inr s))"

declare head_loop.simps [code] bulk_loop.simps [code] tail_loop.simps [code]

definition block_transfer ::
  "'s transfer \<Rightarrow> ('s \<Rightarrow> tool_end + 's) \<Rightarrow> eb_format_t \<Rightarrow> eb_format_t \<Rightarrow> int \<Rightarrow> eb_address_t \<Rightarrow> eb_address_t \<Rightarrow> 's \<Rightarrow>
    (tool_end + 's) option" where
  "block_transfer transfer wait endian sizes cycles address len s =
     (let bulk = largest_size sizes;
          edge = smallest_size sizes;
          end_address = address + len
      in case head_loop transfer endian bulk edge address s of
           None \<Rightarrow> None
         | Some (Inl e) \<Rightarrow> Some (Inl e)
         | Some (Inr (pos, s1)) \<Rightarrow>
             case wait s1 of
               Inl e \<Rightarrow> Some (Inl e)
             | Inr s2 \<Rightarrow>
                 case bulk_loop transfer wait endian bulk cycles (end_address AND NOT (ucast (bulk - 1))) 0 pos s2 of
                   None \<Rightarrow> None
                 | Some (Inl e) \<Rightarrow> Some (Inl e)
                 | Some (Inr (pos, s3)) \<Rightarrow>
                     case tail_loop transfer endian edge end_address pos s3 of
                       None \<Rightarrow> None
                     | Some (Inl e) \<Rightarrow> Some (Inl e)
                     | Some (Inr s4) \<Rightarrow> Some (wait s4))"

section \<open>Writing a file to a device\<close>

record 'w put_state =
  ps_file :: bytes
  ps_todo :: "bus_op list list"
  ps_hw :: 'w

text \<open>The operations of a transfer, from the bytes of the file.\<close>

fun put_ops :: "nat \<Rightarrow> eb_address_t \<Rightarrow> eb_format_t \<Rightarrow> bytes \<Rightarrow> (bus_op list \<times> bytes) option" where
  "put_ops 0 address format file = Some ([], file)"
| "put_ops (Suc n) address format file =
     (if length file < op_size format then None
      else
        let buffer = take (op_size format) file;
            data = of_be 0 (if format AND EB_ENDIAN_MASK = EB_BIG_ENDIAN then buffer else rev buffer)
        in map_option (\<lambda>(ops, rest). (Bwrite address format data # ops, rest))
             (put_ops n (address + word_of_nat (op_size format)) format (drop (op_size format) file)))"

definition put_transfer :: "'w bus \<Rightarrow> 'w put_state transfer" where
  "put_transfer bus address format count s =
     (case b_open bus (ps_hw s) of
        (st, h1) \<Rightarrow>
          if st \<noteq> EB_OK then Inl Exit1
          else
            case put_ops count address format (ps_file s) of
              None \<Rightarrow> Inl Exit1
            | Some (ops, rest) \<Rightarrow> Inr \<lparr>ps_file = rest, ps_todo = ps_todo s @ [ops], ps_hw = h1\<rparr>)"

fun run_puts :: "'w bus \<Rightarrow> ('w \<Rightarrow> bool) \<Rightarrow> bus_op list list \<Rightarrow> 'w \<Rightarrow> tool_end + 'w" where
  "run_puts bus had_error [] h = Inr h"
| "run_puts bus had_error (ops # todo) h =
     (case b_close bus ops h of
        (st, vs, h1) \<Rightarrow> if st \<noteq> EB_OK then Inl Exit1 else if had_error h1 then Inl Exit1 else run_puts bus had_error todo h1)"

definition put_wait :: "'w bus \<Rightarrow> ('w \<Rightarrow> bool) \<Rightarrow> 'w put_state \<Rightarrow> tool_end + 'w put_state" where
  "put_wait bus had_error s =
     (case run_puts bus had_error (ps_todo s) (ps_hw s) of Inl e \<Rightarrow> Inl e | Inr h1 \<Rightarrow> Inr (s\<lparr>ps_todo := [], ps_hw := h1\<rparr>))"

text \<open>The program: \<open>files\<close> gives the contents of a file that can be opened. The checks of the length and
  the address only print a message.\<close>

definition eb_put :: "'w tool_env \<Rightarrow> (string \<Rightarrow> bytes option) \<Rightarrow> (char \<times> string) list \<Rightarrow> string list \<Rightarrow> 'w \<Rightarrow>
    (tool_end + 'w) option" where
  "eb_put E files opts args h =
     (case parse_options (block_option (te_strtol E)) opts default_options of
        Inl e \<Rightarrow> Some (Inl e)
      | Inr oo \<Rightarrow>
          (case args of
             [netaddress, adr, firmware] \<Rightarrow>
               (case te_strtoull E adr of
                  (address, rest) \<Rightarrow>
                    if rest \<noteq> [] then Some (Inl Exit1)
                    else
                      case files firmware of
                        None \<Rightarrow> Some (Inl Exit1)
                      | Some file \<Rightarrow>
                          case tool_connect E oo netaddress address h of
                            (Inl e, h1) \<Rightarrow> Some (Inl e)
                          | (Inr (line_width, support), h1) \<Rightarrow>
                              let endian = chosen_endian oo support;
                                  sizes = line_sizes line_width AND support;
                                  bus = te_bus E False (o_force oo)
                              in if endian = 0 \<or> sizes = 0 then Some (Inl Exit1)
                                 else
                                   case block_transfer (put_transfer bus) (put_wait bus (te_had_error E)) endian sizes
                                          (packed_cycles line_width (largest_size sizes) (o_cycles oo)) address
                                          (word_of_nat (length file)) \<lparr>ps_file = file, ps_todo = [], ps_hw = h1\<rparr> of
                                     None \<Rightarrow> None
                                   | Some (Inl e) \<Rightarrow> Some (Inl e)
                                   | Some (Inr s) \<Rightarrow>
                                       (case tool_disconnect E () (ps_hw s) of
                                          (Inl e, h2) \<Rightarrow> Some (Inl e)
                                        | (Inr u, h2) \<Rightarrow> Some (Inr h2)))
           | _ \<Rightarrow> Some (Inl Exit1)))"

section \<open>Reading a range into a file\<close>

record 'w get_state =
  gs_file :: bytes
  gs_lastoff :: eb_address_t
  gs_position :: nat
  gs_todo :: "bus_op list list"
  gs_hw :: 'w

definition file_write :: "nat \<Rightarrow> bytes \<Rightarrow> bytes \<Rightarrow> bytes" where
  "file_write position bs file =
     take position (file @ replicate (position - length file) 0) @ bs @ drop (position + length bs) file"

text \<open>The callback, for one operation: the bytes go to their offset in the file, with a seek where that is
  not the position already.\<close>

definition got_value :: "eb_address_t \<Rightarrow> eb_format_t \<Rightarrow> eb_address_t \<Rightarrow> eb_format_t \<Rightarrow> eb_data_t \<Rightarrow> 'w get_state \<Rightarrow> 'w get_state" where
  "got_value address endian a format data s =
     (let off = a - address;
          sz = op_size format;
          e = (if format AND EB_ENDIAN_MASK = 0 then endian else format AND EB_ENDIAN_MASK);
          buffer = (if e = EB_BIG_ENDIAN then be_bytes sz data else rev (be_bytes sz data));
          position = (if off \<noteq> gs_lastoff s then unat off else gs_position s);
          lastoff = (if off \<noteq> gs_lastoff s then off else gs_lastoff s)
      in s\<lparr>gs_file := file_write position buffer (gs_file s), gs_position := position + sz,
           gs_lastoff := lastoff + word_of_nat sz\<rparr>)"

fun got_values :: "eb_address_t \<Rightarrow> eb_format_t \<Rightarrow> bus_op list \<Rightarrow> eb_data_t list \<Rightarrow> 'w get_state \<Rightarrow> 'w get_state" where
  "got_values address endian [] vs s = s"
| "got_values address endian (op # ops) vs s =
     got_values address endian ops (tl vs) (got_value address endian (op_address op) (op_format op) (hd vs) s)"

definition get_transfer :: "'w bus \<Rightarrow> 'w get_state transfer" where
  "get_transfer bus address format count s =
     (case b_open bus (gs_hw s) of
        (st, h1) \<Rightarrow>
          if st \<noteq> EB_OK then Inl Exit1
          else
            Inr (s\<lparr>gs_todo := gs_todo s @ [map (\<lambda>a. Bread a format) (strided count address (word_of_nat (op_size format)))],
                   gs_hw := h1\<rparr>))"

fun run_gets :: "'w bus \<Rightarrow> ('w \<Rightarrow> bool) \<Rightarrow> eb_address_t \<Rightarrow> eb_format_t \<Rightarrow> bus_op list list \<Rightarrow> 'w get_state \<Rightarrow> tool_end + 'w get_state" where
  "run_gets bus had_error address endian [] s = Inr s"
| "run_gets bus had_error address endian (ops # todo) s =
     (case b_close bus ops (gs_hw s) of
        (st, vs, h1) \<Rightarrow>
          if st \<noteq> EB_OK then Inl Exit1
          else if had_error h1 then Inl Exit1
          else run_gets bus had_error address endian todo (got_values address endian ops vs (s\<lparr>gs_hw := h1\<rparr>)))"

definition get_wait :: "'w bus \<Rightarrow> ('w \<Rightarrow> bool) \<Rightarrow> eb_address_t \<Rightarrow> eb_format_t \<Rightarrow> 'w get_state \<Rightarrow> tool_end + 'w get_state" where
  "get_wait bus had_error address endian s = run_gets bus had_error address endian (gs_todo s) (s\<lparr>gs_todo := []\<rparr>)"

text \<open>An argument \<^verbatim>\<open>address/length\<close>.\<close>

definition parse_range :: "(string \<Rightarrow> uint64 \<times> string) \<Rightarrow> string \<Rightarrow> tool_end + eb_address_t \<times> eb_address_t" where
  "parse_range strtoull arg =
     (case strtoull arg of (address, rest) \<Rightarrow>
        if rest = [] \<or> hd rest \<noteq> CHR ''/'' then Inl Exit1
        else case strtoull (tl rest) of (len, rest) \<Rightarrow> if rest \<noteq> [] then Inl Exit1 else Inr (address, len))"

text \<open>The program returns the contents of the file; \<open>writable\<close> tells whether it can be opened.\<close>

definition eb_get :: "'w tool_env \<Rightarrow> (string \<Rightarrow> bool) \<Rightarrow> (char \<times> string) list \<Rightarrow> string list \<Rightarrow> 'w \<Rightarrow>
    (tool_end + bytes \<times> 'w) option" where
  "eb_get E writable opts args h =
     (case parse_options (block_option (te_strtol E)) opts default_options of
        Inl e \<Rightarrow> Some (Inl e)
      | Inr oo \<Rightarrow>
          (case args of
             [netaddress, region, firmware] \<Rightarrow>
               (case parse_range (te_strtoull E) region of
                  Inl e \<Rightarrow> Some (Inl e)
                | Inr (address, len) \<Rightarrow>
                    if \<not> writable firmware then Some (Inl Exit1)
                    else
                      case tool_connect E oo netaddress address h of
                        (Inl e, h1) \<Rightarrow> Some (Inl e)
                      | (Inr (line_width, support), h1) \<Rightarrow>
                          let endian = chosen_endian oo support;
                              sizes = line_sizes line_width AND support;
                              bus = te_bus E False (o_force oo)
                          in if endian = 0 \<or> sizes = 0 then Some (Inl Exit1)
                             else
                               case block_transfer (get_transfer bus) (get_wait bus (te_had_error E) address endian) endian sizes
                                      (packed_cycles line_width (largest_size sizes) (o_cycles oo)) address len
                                      \<lparr>gs_file = [], gs_lastoff = 0, gs_position = 0, gs_todo = [], gs_hw = h1\<rparr> of
                                 None \<Rightarrow> None
                               | Some (Inl e) \<Rightarrow> Some (Inl e)
                               | Some (Inr s) \<Rightarrow>
                                   (case tool_disconnect E () (gs_hw s) of
                                      (Inl e, h2) \<Rightarrow> Some (Inl e)
                                    | (Inr u, h2) \<Rightarrow> Some (Inr (gs_file s, h2))))
           | _ \<Rightarrow> Some (Inl Exit1)))"

section \<open>What the loops promise\<close>

text \<open>The ranges the programs can transfer: inside the address space, aligned to the smallest size, and
  reaching a boundary of the largest size.\<close>

definition block_range :: "eb_format_t \<Rightarrow> eb_address_t \<Rightarrow> eb_address_t \<Rightarrow> bool" where
  "block_range sizes address len \<longleftrightarrow>
     sizes < 16 \<and> sizes \<noteq> 0 \<and> unat address + unat len < 2 ^ 64 \<and>
     unat address mod unat (smallest_size sizes) = 0 \<and> unat len mod unat (smallest_size sizes) = 0 \<and>
     (\<exists>k \<in> {..unat len}. (unat address + k) mod unat (largest_size sizes) = 0)"

lemma block_rangeD:
  assumes "block_range sizes address len"
  shows "sizes < 16" "sizes \<noteq> 0" "unat address + unat len < 2 ^ 64"
    "unat address mod unat (smallest_size sizes) = 0" "unat len mod unat (smallest_size sizes) = 0"
    "\<exists>k. k \<le> unat len \<and> (unat address + k) mod unat (largest_size sizes) = 0"
  using assms unfolding block_range_def by auto

text \<open>The contract between the loops and the transfers: a transfer of aligned operations inside the range
  succeeds and moves the invariant forward, a wait succeeds, keeps it and makes the state ready.\<close>

locale block_client =
  fixes transfer :: "'s transfer" and wait :: "'s \<Rightarrow> tool_end + 's"
    and endian sizes :: eb_format_t and address len :: eb_address_t
    and inv ready :: "nat \<Rightarrow> 's \<Rightarrow> bool"
  assumes transfers: "\<lbrakk>inv k s; is_size f; f AND sizes \<noteq> 0; n > 0; k + n * unat f \<le> unat len;
        unat (address + word_of_nat k) mod unat f = 0\<rbrakk> \<Longrightarrow>
      \<exists>s'. transfer (address + word_of_nat k) (endian OR f) n s = Inr s' \<and> inv (k + n * unat f) s'"
    and waits: "inv k s \<Longrightarrow> \<exists>s'. wait s = Inr s' \<and> inv k s' \<and> ready k s'"
begin

lemma unat_position: "k \<le> unat len \<Longrightarrow> block_range sizes address len \<Longrightarrow> unat (address + word_of_nat k) = unat address + k"
  using block_rangeD(3) [of sizes address len] by (simp add: unat_word_ariths unat_of_nat_small)

lemma position_aligned:
  "k \<le> unat len \<Longrightarrow> is_size q \<Longrightarrow> block_range sizes address len \<Longrightarrow>
   (address + word_of_nat k) AND ucast (q - 1) = 0 \<longleftrightarrow> (unat address + k) mod unat q = 0"
  by (simp add: aligned_mod unat_position)

lemma next_position: "address + word_of_nat k + ucast f = address + word_of_nat (k + unat f)"
  by (simp add: add.assoc)

lemma edge_transfers:
  assumes "inv k s" "k < m" "m \<le> unat len" "(unat address + k) mod unat (smallest_size sizes) = 0"
    "(unat address + m) mod unat (smallest_size sizes) = 0"
    and r: "block_range sizes address len"
  shows "k + unat (smallest_size sizes) \<le> m"
    "\<exists>s'. transfer (address + word_of_nat k) (endian OR smallest_size sizes) 1 s = Inr s' \<and> inv (k + unat (smallest_size sizes)) s'"
proof -
  note sizes = block_rangeD(1,2) [OF r]
  have "unat (smallest_size sizes) dvd (unat address + m) - (unat address + k)"
    using assms(4,5) by (intro dvd_diff_nat) (simp_all add: mod_eq_0_iff_dvd)
  then have "unat (smallest_size sizes) dvd m - k" by simp
  then have "unat (smallest_size sizes) \<le> m - k" using assms(2) by (intro dvd_imp_le) simp_all
  then show le: "k + unat (smallest_size sizes) \<le> m" using assms(2) by simp
  show "\<exists>s'. transfer (address + word_of_nat k) (endian OR smallest_size sizes) 1 s = Inr s' \<and> inv (k + unat (smallest_size sizes)) s'"
    using transfers [OF assms(1) largest_smallest(2,4) [OF sizes], of 1] le assms(2,3,4) unat_position [OF _ r, of k] by simp
qed

lemma next_edge:
  "(unat address + k) mod unat (smallest_size sizes) = 0 \<Longrightarrow>
   (unat address + (k + unat (smallest_size sizes))) mod unat (smallest_size sizes) = 0"
  by (simp add: add.assoc [symmetric])

lemma head_loop_done:
  assumes "inv k s" "k \<le> m" "m \<le> unat len" "(unat address + k) mod unat (smallest_size sizes) = 0"
    and m: "(unat address + m) mod unat (largest_size sizes) = 0"
      "\<And>j. j < m \<Longrightarrow> (unat address + j) mod unat (largest_size sizes) \<noteq> 0"
    and r: "block_range sizes address len"
  shows "\<exists>s'. head_loop transfer endian (largest_size sizes) (smallest_size sizes) (address + word_of_nat k) s
    = Some (Inr (address + word_of_nat m, s')) \<and> inv m s'"
  using assms(1,2,4)
proof (induction "m - k" arbitrary: k s rule: less_induct)
  case less
  note sizes = block_rangeD(1,2) [OF r]
  have al: "(address + word_of_nat k) AND ucast (largest_size sizes - 1) = 0 \<longleftrightarrow> (unat address + k) mod unat (largest_size sizes) = 0"
    using position_aligned [OF _ largest_smallest(1) [OF sizes] r, of k] less.prems(2) assms(3) by simp
  show ?case
  proof (cases "k = m")
    case True
    then show ?thesis using less.prems(1) al m(1) by (subst head_loop.simps) simp
  next
    case False
    then have k: "k < m" using less.prems(2) by simp
    have edge: "(unat address + m) mod unat (smallest_size sizes) = 0"
      using m(1) largest_smallest(5) [OF sizes] by (meson dvd_trans mod_eq_0_iff_dvd)
    obtain s1 where s1: "transfer (address + word_of_nat k) (endian OR smallest_size sizes) 1 s = Inr s1"
      "inv (k + unat (smallest_size sizes)) s1" and le: "k + unat (smallest_size sizes) \<le> m"
      using edge_transfers [OF less.prems(1) k assms(3) less.prems(3) edge r] by blast
    have "m - (k + unat (smallest_size sizes)) < m - k"
      using k le largest_smallest(2) [OF sizes] by (auto simp: is_size_def)
    from less.hyps [OF this s1(2) le next_edge [OF less.prems(3)]] show ?thesis
      using al m(2) [OF k] s1(1) by (subst head_loop.simps) (simp only: next_position, simp)
  qed
qed

lemma tail_loop_done:
  assumes "inv k s" "k \<le> unat len" "(unat address + k) mod unat (smallest_size sizes) = 0"
    and r: "block_range sizes address len"
  shows "\<exists>s'. tail_loop transfer endian (smallest_size sizes) (address + len) (address + word_of_nat k) s = Some (Inr s') \<and> inv (unat len) s'"
  using assms(1-3)
proof (induction "unat len - k" arbitrary: k s rule: less_induct)
  case less
  note sizes = block_rangeD(1,2) [OF r]
  note edges = block_rangeD(4,5) [OF r]
  have less_iff: "address + word_of_nat k < address + len \<longleftrightarrow> k < unat len"
    using unat_position [OF _ r, of k] unat_position [OF _ r, of "unat len"] less.prems(2) by (simp add: word_less_nat_alt)
  show ?case
  proof (cases "k < unat len")
    case False
    then show ?thesis using less.prems less_iff by (subst tail_loop.simps) simp
  next
    case True
    have edge: "(unat address + unat len) mod unat (smallest_size sizes) = 0"
      using edges by (simp add: mod_eq_0_iff_dvd)
    obtain s1 where s1: "transfer (address + word_of_nat k) (endian OR smallest_size sizes) 1 s = Inr s1"
      "inv (k + unat (smallest_size sizes)) s1" and le: "k + unat (smallest_size sizes) \<le> unat len"
      using edge_transfers [OF less.prems(1) True order_refl less.prems(3) edge r] by blast
    have "unat len - (k + unat (smallest_size sizes)) < unat len - k"
      using True le largest_smallest(2) [OF sizes] by (auto simp: is_size_def)
    from less.hyps [OF this s1(2) le next_edge [OF less.prems(3)]] show ?thesis
      using True less_iff s1(1) by (subst tail_loop.simps) (simp only: next_position, simp)
  qed
qed

lemma bulk_loop_done:
  assumes "inv k s" "k \<le> m" "m \<le> unat len" "(unat address + k) mod unat (largest_size sizes) = 0"
    and m: "(unat address + m) mod unat (largest_size sizes) = 0"
    and r: "block_range sizes address len"
  shows "\<exists>s'. bulk_loop transfer wait endian (largest_size sizes) cycles (address + word_of_nat m) cycle (address + word_of_nat k) s
    = Some (Inr (address + word_of_nat m, s')) \<and> inv m s'"
  using assms(1,2,4)
proof (induction "m - k" arbitrary: k s cycle rule: less_induct)
  case less
  note sizes = block_rangeD(1,2) [OF r]
  let ?B = "unat (largest_size sizes)"
  have pos: "unat (address + word_of_nat k) = unat address + k" "unat (address + word_of_nat m) = unat address + m"
    using unat_position [OF _ r] less.prems(2) assms(3) by simp_all
  then have less_iff: "address + word_of_nat k < address + word_of_nat m \<longleftrightarrow> k < m" by (simp add: word_less_nat_alt)
  show ?case
  proof (cases "k < m")
    case False
    then show ?thesis using less.prems less_iff by (subst bulk_loop.simps) simp
  next
    case True
    let ?w = "(address + word_of_nat m - (address + word_of_nat k)) div ucast (largest_size sizes) :: eb_address_t"
    define step where "step = (if ?w > 32 then 32 else ?w)"
    have B: "?B > 0" using largest_smallest(1) [OF sizes] by (auto simp: is_size_def)
    have "unat (address + word_of_nat m - (address + word_of_nat k)) = m - k"
      using pos True by (subst unat_sub) (simp_all add: word_le_nat_alt)
    moreover have "unat (ucast (largest_size sizes) :: uint64) = ?B"
      using largest_smallest(1) [OF sizes] by (auto simp: is_size_def)
    ultimately have w: "unat ?w = (m - k) div ?B" by (simp only: unat_div_distrib)
    have dvd: "?B dvd m - k"
      using dvd_diff_nat [of ?B "unat address + m" "unat address + k"] less.prems(3) m by (simp add: mod_eq_0_iff_dvd)
    have "0 < (m - k) div ?B" using dvd_imp_le [OF dvd] True B by (simp add: div_greater_zero_iff)
    then have step: "unat step = min 32 ((m - k) div ?B)" "unat step > 0"
      using w by (auto simp: step_def word_less_nat_alt)
    have le: "k + unat step * ?B \<le> m"
    proof -
      have "unat step * ?B \<le> (m - k) div ?B * ?B" using step(1) by (intro mult_right_mono) simp_all
      then show ?thesis using dvd True by simp
    qed
    obtain s1 where s1: "transfer (address + word_of_nat k) (endian OR largest_size sizes) (unat step) s = Inr s1"
      "inv (k + unat step * ?B) s1"
      using transfers [OF less.prems(1) largest_smallest(1,3) [OF sizes] step(2)] le assms(3) less.prems(3) pos(1) by auto
    obtain s2 where s2: "wait s1 = Inr s2" "inv (k + unat step * ?B) s2" using waits [OF s1(2)] by blast
    have nxt: "address + word_of_nat k + step * ucast (largest_size sizes) = address + word_of_nat (k + unat step * ?B)"
      by (simp add: add.assoc)
    have decr: "m - (k + unat step * ?B) < m - k" proof -
      have "0 < unat step * ?B" using step(2) B by simp
      then show ?thesis using True le by linarith
    qed
    have al: "(unat address + (k + unat step * ?B)) mod ?B = 0" using less.prems(3) by (simp add: add.assoc [symmetric])
    have unf: "bulk_loop transfer wait endian (largest_size sizes) cycles (address + word_of_nat m) cycle (address + word_of_nat k) s =
      (case transfer (address + word_of_nat k) (endian OR largest_size sizes) (unat step) s of
         Inl e \<Rightarrow> Some (Inl e)
       | Inr s1 \<Rightarrow>
           if cycle + 1 = cycles then
             (case wait s1 of
                Inl e \<Rightarrow> Some (Inl e)
              | Inr s2 \<Rightarrow> bulk_loop transfer wait endian (largest_size sizes) cycles (address + word_of_nat m) 0
                  (address + word_of_nat k + step * ucast (largest_size sizes)) s2)
           else bulk_loop transfer wait endian (largest_size sizes) cycles (address + word_of_nat m) (cycle + 1)
                  (address + word_of_nat k + step * ucast (largest_size sizes)) s1)"
      by (subst bulk_loop.simps) (simp only: less_iff True if_True Let_def step_def)
    show ?thesis
      using less.hyps [OF decr s1(2) le al, of "cycle + 1"] less.hyps [OF decr s2(2) le al, of 0]
      unfolding unf s1(1) nxt by (cases "cycle + 1 = cycles") (simp_all add: s2(1))
  qed
qed

text \<open>The whole range is transferred, once and in order, and the last wait is done.\<close>

lemma block_transfer_done:
  assumes "inv 0 s"
    and r: "block_range sizes address len"
  shows "\<exists>s'. block_transfer transfer wait endian sizes cycles address len s = Some (Inr s') \<and>
    inv (unat len) s' \<and> ready (unat len) s'"
proof -
  note sizes = block_rangeD(1,2) [OF r]
  note edges = block_rangeD(4,5) [OF r] and reach = block_rangeD(6) [OF r]
  let ?B = "unat (largest_size sizes)"
  define m where "m = (LEAST k. (unat address + k) mod ?B = 0)"
  obtain k0 where k0: "k0 \<le> unat len" "(unat address + k0) mod ?B = 0" using reach by (elim exE conjE) (rule that)
  have m: "(unat address + m) mod ?B = 0" unfolding m_def by (rule LeastI) (rule k0(2))
  have "m \<le> k0" unfolding m_def by (rule Least_le) (rule k0(2))
  then have m_le: "m \<le> unat len" using k0(1) by (rule order_trans)
  have m_least: "(unat address + j) mod ?B \<noteq> 0" if "j < m" for j
    using that unfolding m_def by (rule not_less_Least)
  define n where "n = unat len - (unat address + unat len) mod ?B"
  have "unat address + m = ?B * ((unat address + m) div ?B)" using m by (metis add.right_neutral mult_div_mod_eq)
  also have "\<dots> \<le> ?B * ((unat address + unat len) div ?B)" using m_le by (intro mult_le_mono2 div_le_mono) simp
  finally have "unat address + m \<le> unat address + unat len - (unat address + unat len) mod ?B"
    by (simp only: minus_mod_eq_mult_div)
  then have n: "m \<le> n" "n \<le> unat len" "unat address + n = unat address + unat len - (unat address + unat len) mod ?B"
    unfolding n_def by linarith+
  then have n0: "(unat address + n) mod ?B = 0" by (metis mod_mult_self1_is_0 minus_mod_eq_mult_div)
  have "unat ((address + len) AND NOT (ucast (largest_size sizes - 1))) = unat address + n"
    using unat_floor [OF largest_smallest(1) [OF sizes], of "address + len"] unat_position [OF _ r, of "unat len"] n(3) by simp
  then have end_bulk: "(address + len) AND NOT (ucast (largest_size sizes - 1)) = address + word_of_nat n"
    using unat_position [OF n(2) r] by (simp only: word_unat_eq_iff)
  have edge: "(unat address + n) mod unat (smallest_size sizes) = 0"
    using n0 largest_smallest(5) [OF sizes] by (meson dvd_trans mod_eq_0_iff_dvd)
  obtain s1 where s1: "head_loop transfer endian (largest_size sizes) (smallest_size sizes) address s
      = Some (Inr (address + word_of_nat m, s1))" "inv m s1"
    using head_loop_done [OF assms(1) _ m_le _ m m_least r] edges(1) by auto
  obtain s2 where s2: "wait s1 = Inr s2" "inv m s2" using waits [OF s1(2)] by blast
  obtain s3 where s3: "bulk_loop transfer wait endian (largest_size sizes) cycles (address + word_of_nat n) 0 (address + word_of_nat m) s2
      = Some (Inr (address + word_of_nat n, s3))" "inv n s3"
    using bulk_loop_done [OF s2(2) n(1,2) m n0 r] by blast
  obtain s4 where s4: "tail_loop transfer endian (smallest_size sizes) (address + len) (address + word_of_nat n) s3 = Some (Inr s4)"
    "inv (unat len) s4"
    using tail_loop_done [OF s3(2) n(2) edge r] by blast
  obtain s5 where s5: "wait s4 = Inr s5" "inv (unat len) s5" "ready (unat len) s5" using waits [OF s4(2)] by blast
  show ?thesis
    using s5 by (simp add: block_transfer_def Let_def end_bulk s1(1) s2(1) s3(1) s4(1))
qed

end

section \<open>What is pending\<close>

text \<open>Named hypothesis on the hardware: no operation that the device accepts is answered with an error.\<close>

definition clean_bus :: "'w bus \<Rightarrow> ('w \<Rightarrow> bool) \<Rightarrow> eb_format_t \<Rightarrow> eb_format_t \<Rightarrow> bool" where
  "clean_bus bus had_error sizes endian \<longleftrightarrow>
     (\<forall>ops h. (\<forall>op \<in> set ops. op_accepted sizes endian op) \<longrightarrow> \<not> had_error (snd (snd (b_close bus ops h))))"

lemma clean_bus_close:
  "clean_bus bus had_error sizes endian \<Longrightarrow> \<forall>op \<in> set ops. op_accepted sizes endian op \<Longrightarrow>
   b_close bus ops h = (st, vs, h1) \<Longrightarrow> \<not> had_error h1"
  unfolding clean_bus_def by (metis snd_conv)

lemma run_ops_append:
  "run_ops (xs @ ys) m = (case run_ops xs m of (vs, m1) \<Rightarrow> case run_ops ys m1 of (ws, m2) \<Rightarrow> (vs @ ws, m2))"
  by (induction xs arbitrary: m) (simp_all split: prod.splits)

lemma op_accepted_format:
  "is_size f \<Longrightarrow> is_endian endian \<Longrightarrow> f AND sizes \<noteq> 0 \<Longrightarrow> unat a mod unat f = 0 \<Longrightarrow>
   op_accepted sizes endian (Bread a (endian OR f)) \<and> op_accepted sizes endian (Bwrite a (endian OR f) v)"
  unfolding is_size_def [symmetric]
  using format_of_size [of f endian] aligned_mod [of f a]
  by (simp add: op_accepted_def Let_def is_size_def [symmetric])

lemma next_aligned: "is_size f \<Longrightarrow> unat a mod unat f = 0 \<Longrightarrow> unat (a + word_of_nat (unat f)) mod unat f = 0" for a :: uint64
proof -
  assume f: "is_size f" and a: "unat a mod unat f = 0"
  obtain y where "a = y * ucast f" using iffD1 [OF aligned_iff [OF f] iffD2 [OF aligned_mod [OF f] a]] by (rule exE)
  then have "a + word_of_nat (unat f) = (y + 1) * ucast f" by (simp add: algebra_simps)
  then show ?thesis by (intro iffD1 [OF aligned_mod [OF f]] iffD2 [OF aligned_iff [OF f]] exI)
qed

subsection \<open>Writes\<close>

text \<open>The operations of a transfer are accepted and write the bytes taken from the file.\<close>

lemma put_ops_run:
  assumes "is_size f" "is_endian endian" "f AND sizes \<noteq> 0" "unat a mod unat f = 0" "n * unat f \<le> length bs" "length bs < 2 ^ 64"
  shows "\<exists>ops. put_ops n a (endian OR f) bs = Some (ops, drop (n * unat f) bs) \<and>
    (\<forall>op \<in> set ops. op_accepted sizes endian op) \<and>
    (\<forall>m. snd (run_ops ops m) = put_cells m a (take (n * unat f) bs))"
  using assms(4-6)
proof (induction n arbitrary: a bs)
  case 0
  then show ?case by (simp add: put_cells_def fun_eq_iff)
next
  case (Suc n)
  let ?sz = "unat f"
  let ?data = "of_be 0 (ordered endian (take ?sz bs))"
  note fm = format_of_size [OF assms(1,2)]
  have len: "length (take ?sz bs) = ?sz" "?sz \<le> 8" using Suc.prems(2) is_size_le [OF assms(1)] by simp_all
  have "n * ?sz \<le> length (drop ?sz bs)" "length (drop ?sz bs) < 2 ^ 64" using Suc.prems(2,3) by simp_all
  from Suc.IH [OF next_aligned [OF assms(1) Suc.prems(1)] this]
  obtain ops where ops: "put_ops n (a + word_of_nat ?sz) (endian OR f) (drop ?sz bs) = Some (ops, drop (n * ?sz) (drop ?sz bs))"
    "\<forall>op \<in> set ops. op_accepted sizes endian op"
    "\<forall>m. snd (run_ops ops m) = put_cells m (a + word_of_nat ?sz) (take (n * ?sz) (drop ?sz bs))"
    by blast
  have "be_bytes ?sz ?data = ordered endian (take ?sz bs)"
    using be_bytes_of_be [of "ordered endian (take ?sz bs)"] len by simp
  then have "run_op (Bwrite a (endian OR f) ?data) m = ([], put_cells m a (take ?sz bs))" for m
    using fm by simp
  moreover have "put_cells m a (take (Suc n * ?sz) bs) =
      put_cells (put_cells m a (take ?sz bs)) (a + word_of_nat ?sz) (take (n * ?sz) (drop ?sz bs))" for m
    using put_cells_append [of "take ?sz bs" "take (n * ?sz) (drop ?sz bs)" m a] len Suc.prems(2,3) by (simp add: take_add)
  ultimately have "snd (run_ops (Bwrite a (endian OR f) ?data # ops) m) = put_cells m a (take (Suc n * ?sz) bs)" for m
    using ops(3) by (simp add: split_def)
  moreover have "put_ops (Suc n) a (endian OR f) bs = Some (Bwrite a (endian OR f) ?data # ops, drop (Suc n * ?sz) bs)"
    using ops(1) fm Suc.prems(2) by (simp add: ordered_def Let_def add.commute)
  ultimately show ?case
    using ops(2) op_accepted_format [OF assms(1,2,3) Suc.prems(1)] by auto
qed

lemma run_puts_run:
  assumes "memory_bus bus sizes endian mem" "clean_bus bus had_error sizes endian" "\<forall>op \<in> set (concat todo). op_accepted sizes endian op"
  shows "\<exists>h'. run_puts bus had_error todo h = Inr h' \<and> mem h' = snd (run_ops (concat todo) (mem h))"
  using assms(3)
proof (induction todo arbitrary: h)
  case (Cons ops todo)
  have acc: "\<forall>op \<in> set ops. op_accepted sizes endian op" using Cons.prems by auto
  then obtain h1 where h1: "b_close bus ops h = (EB_OK, fst (run_ops ops (mem h)), h1)" "mem h1 = snd (run_ops ops (mem h))"
    using memory_bus_close [OF assms(1)] by blast
  obtain h2 where "run_puts bus had_error todo h1 = Inr h2" "mem h2 = snd (run_ops (concat todo) (mem h1))"
    using Cons.IH [of h1] Cons.prems by auto
  then show ?case using h1 clean_bus_close [OF assms(2) acc h1(1)] by (simp add: run_ops_append split_def)
qed simp

text \<open>What has been read from the file is in the memory or pending.\<close>

definition put_inv ::
  "'w bus \<Rightarrow> ('w \<Rightarrow> bool) \<Rightarrow> eb_format_t \<Rightarrow> eb_format_t \<Rightarrow> ('w \<Rightarrow> memory) \<Rightarrow> memory \<Rightarrow> eb_address_t \<Rightarrow> bytes \<Rightarrow> nat \<Rightarrow> 'w put_state \<Rightarrow> bool" where
  "put_inv bus had_error sizes endian mem start address bs k s \<longleftrightarrow>
     memory_bus bus sizes endian mem \<and> clean_bus bus had_error sizes endian \<and> is_endian endian \<and> length bs < 2 ^ 64 \<and>
     ps_file s = drop k bs \<and> k \<le> length bs \<and>
     (\<forall>op \<in> set (concat (ps_todo s)). op_accepted sizes endian op) \<and>
     snd (run_ops (concat (ps_todo s)) (mem (ps_hw s))) = put_cells start address (take k bs)"

definition put_ready :: "('w \<Rightarrow> memory) \<Rightarrow> memory \<Rightarrow> eb_address_t \<Rightarrow> bytes \<Rightarrow> nat \<Rightarrow> 'w put_state \<Rightarrow> bool" where
  "put_ready mem start address bs k s \<longleftrightarrow> mem (ps_hw s) = put_cells start address (take k bs)"

lemma put_transfers:
  assumes "put_inv bus had_error sizes endian mem start address bs k s" "is_size f" "f AND sizes \<noteq> 0"
    "k + n * unat f \<le> length bs" "unat (address + word_of_nat k) mod unat f = 0"
  shows "\<exists>s'. put_transfer bus (address + word_of_nat k) (endian OR f) n s = Inr s' \<and>
    put_inv bus had_error sizes endian mem start address bs (k + n * unat f) s'"
proof -
  have c: "clean_bus bus had_error sizes endian" and I: "memory_bus bus sizes endian mem" "is_endian endian" "length bs < 2 ^ 64" "ps_file s = drop k bs" "k \<le> length bs"
    "\<forall>op \<in> set (concat (ps_todo s)). op_accepted sizes endian op"
    "snd (run_ops (concat (ps_todo s)) (mem (ps_hw s))) = put_cells start address (take k bs)"
    using assms(1) by (simp_all add: put_inv_def)
  obtain h1 where h1: "b_open bus (ps_hw s) = (EB_OK, h1)" "mem h1 = mem (ps_hw s)" using memory_bus_open [OF I(1)] by blast
  obtain ops where ops: "put_ops n (address + word_of_nat k) (endian OR f) (drop k bs) = Some (ops, drop (n * unat f) (drop k bs))"
    "\<forall>op \<in> set ops. op_accepted sizes endian op"
    "\<forall>m. snd (run_ops ops m) = put_cells m (address + word_of_nat k) (take (n * unat f) (drop k bs))"
    using put_ops_run [OF assms(2) I(2) assms(3,5), of n "drop k bs"] assms(4) I(3) by force
  have "put_cells start address (take (k + n * unat f) bs) =
      put_cells (put_cells start address (take k bs)) (address + word_of_nat k) (take (n * unat f) (drop k bs))"
    using put_cells_append [of "take k bs" "take (n * unat f) (drop k bs)" start address] I(3,5) assms(4)
    by (simp add: take_add)
  then show ?thesis
    using c I ops h1 assms(4)
    by (auto simp: put_transfer_def put_inv_def run_ops_append split_def add.commute)
qed

lemma put_waits:
  assumes "put_inv bus had_error sizes endian mem start address bs k s"
  shows "\<exists>s'. put_wait bus had_error s = Inr s' \<and> put_inv bus had_error sizes endian mem start address bs k s' \<and>
    put_ready mem start address bs k s'"
proof -
  obtain h' where "run_puts bus had_error (ps_todo s) (ps_hw s) = Inr h'" "mem h' = snd (run_ops (concat (ps_todo s)) (mem (ps_hw s)))"
    using run_puts_run [of bus sizes endian mem had_error "ps_todo s" "ps_hw s"] assms by (auto simp: put_inv_def)
  then show ?thesis using assms by (simp add: put_wait_def put_inv_def put_ready_def)
qed

interpretation puts: block_client "put_transfer bus" "put_wait bus had_error" endian sizes address "word_of_nat (length bs)"
  "put_inv bus had_error sizes endian mem start address bs" "put_ready mem start address bs"
  for bus had_error endian sizes address bs mem start
proof unfold_locales
  fix k s f n
  assume a: "put_inv bus had_error sizes endian mem start address bs k s" "is_size f" "f AND sizes \<noteq> 0" "0 < n"
    "k + n * unat f \<le> unat (word_of_nat (length bs) :: eb_address_t)" "unat (address + word_of_nat k) mod unat f = 0"
  have "unat (word_of_nat (length bs) :: eb_address_t) = length bs"
    using a(1) by (simp add: put_inv_def unat_of_nat_small)
  then show "\<exists>s'. put_transfer bus (address + word_of_nat k) (endian OR f) n s = Inr s' \<and>
      put_inv bus had_error sizes endian mem start address bs (k + n * unat f) s'"
    using put_transfers [OF a(1-3)] a(5,6) by simp
qed (rule put_waits)

subsection \<open>Reads\<close>

text \<open>A list of reads that covers the range from offset \<open>j\<close> to the offset returned.\<close>

fun reads_from :: "eb_address_t \<Rightarrow> nat \<Rightarrow> bus_op list \<Rightarrow> nat option" where
  "reads_from address j [] = Some j"
| "reads_from address j (Bread a f # ops) = (if a = address + word_of_nat j then reads_from address (j + op_size f) ops else None)"
| "reads_from address j (Bwrite a f v # ops) = None"

lemma reads_from_append:
  "reads_from address j (xs @ ys) = Option.bind (reads_from address j xs) (\<lambda>k. reads_from address k ys)"
  by (induction address j xs rule: reads_from.induct) simp_all

lemma reads_from_memory: "reads_from address j ops = Some k \<Longrightarrow> snd (run_ops ops m) = m"
  by (induction address j ops rule: reads_from.induct) (simp_all add: split_def split: if_splits)

lemma strided_reads:
  assumes "is_size f" "is_endian endian" "f AND sizes \<noteq> 0" "unat (address + word_of_nat j) mod unat f = 0"
  defines "ops \<equiv> \<lambda>n j. map (\<lambda>a. Bread a (endian OR f)) (strided n (address + word_of_nat j) (word_of_nat (unat f)))"
  shows "reads_from address j (ops n j) = Some (j + n * unat f) \<and> (\<forall>op \<in> set (ops n j). op_accepted sizes endian op)"
  using assms(4)
proof (induction n arbitrary: j)
  case 0
  then show ?case by (simp add: ops_def)
next
  case (Suc n)
  have eq: "address + word_of_nat j + word_of_nat (unat f) = address + word_of_nat (j + unat f)" by (simp add: add.assoc)
  then have ops: "ops (Suc n) j = Bread (address + word_of_nat j) (endian OR f) # ops n (j + unat f)"
    unfolding ops_def strided.simps eq by simp
  have "unat (address + word_of_nat (j + unat f)) mod unat f = 0" using next_aligned [OF assms(1) Suc.prems] unfolding eq .
  from Suc.IH [OF this] show ?case
    unfolding ops using format_of_size(3) [OF assms(1,2)] op_accepted_format [OF assms(1-3) Suc.prems] by (simp add: add.assoc)
qed

text \<open>The file holds the first \<open>j\<close> bytes of the range.\<close>

definition got :: "memory \<Rightarrow> eb_address_t \<Rightarrow> nat \<Rightarrow> 'w get_state \<Rightarrow> bool" where
  "got start address j s \<longleftrightarrow> gs_file s = cells start address j \<and> gs_position s = j \<and> gs_lastoff s = word_of_nat j"

lemma got_value_next:
  assumes "got start address j s" "op_accepted sizes endian (Bread a f)" "a = address + word_of_nat j" "is_endian endian"
  shows "got start address (j + op_size f)
    (got_value address endian a f (of_be 0 (ordered (f AND EB_ENDIAN_MASK) (cells start a (op_size f)))) s)"
proof -
  have e: "f AND EB_ENDIAN_MASK = endian" "op_size f \<le> 8" "endian \<noteq> 0"
    using assms(2,4) by (auto simp: op_accepted_def op_size_def is_endian_def Let_def)
  let ?bs = "ordered endian (cells start a (op_size f))"
  have "be_bytes (op_size f) (of_be 0 ?bs) = ?bs" using be_bytes_of_be [of ?bs] e(2) by simp
  then have "(if endian = EB_BIG_ENDIAN then be_bytes (op_size f) (of_be 0 ?bs) else rev (be_bytes (op_size f) (of_be 0 ?bs))) =
      cells start a (op_size f)"
    by (cases "endian = EB_BIG_ENDIAN") (simp_all add: ordered_def)
  then show ?thesis
    using assms(1,3) e
    by (cases "endian = EB_BIG_ENDIAN") (simp_all add: got_def got_value_def file_write_def cells_append Let_def)
qed

lemma got_values_run:
  assumes "got start address j s" "reads_from address j ops = Some k" "\<forall>op \<in> set ops. op_accepted sizes endian op" "is_endian endian"
  shows "got start address k (got_values address endian ops (fst (run_ops ops start)) s)"
  using assms(1-3)
proof (induction address j ops arbitrary: s rule: reads_from.induct)
  case (2 address j a f ops)
  then have a: "a = address + word_of_nat j" "reads_from address (j + op_size f) ops = Some k" by (simp_all split: if_splits)
  have "op_accepted sizes endian (Bread a f)" using 2(4) by simp
  from 2(1) [OF a(1) got_value_next [OF 2(2) this a(1) assms(4)] a(2)] 2(4) show ?case
    by (simp add: split_def)
qed simp_all

lemma got_values_rest [simp]:
  "gs_todo (got_values address endian ops vs s) = gs_todo s" "gs_hw (got_values address endian ops vs s) = gs_hw s"
  by (induction address endian ops vs s rule: got_values.induct) (simp_all add: got_value_def Let_def)

lemma run_gets_run:
  assumes "memory_bus bus sizes endian mem" "clean_bus bus had_error sizes endian" "is_endian endian"
    and "got start address j s" "mem (gs_hw s) = start" "reads_from address j (concat todo) = Some k"
    "\<forall>op \<in> set (concat todo). op_accepted sizes endian op"
  shows "\<exists>s'. run_gets bus had_error address endian todo s = Inr s' \<and> got start address k s' \<and> mem (gs_hw s') = start \<and> gs_todo s' = gs_todo s"
  using assms(4-7)
proof (induction todo arbitrary: j s)
  case (Cons ops todo)
  obtain i where i: "reads_from address j ops = Some i" "reads_from address i (concat todo) = Some k"
    using Cons.prems(3) by (auto simp: reads_from_append bind_eq_Some_conv)
  have acc: "\<forall>op \<in> set ops. op_accepted sizes endian op" "\<forall>op \<in> set (concat todo). op_accepted sizes endian op"
    using Cons.prems(4) by auto
  obtain h1 where h1: "b_close bus ops (gs_hw s) = (EB_OK, fst (run_ops ops start), h1)" "mem h1 = start"
    using memory_bus_close [OF assms(1) acc(1)] Cons.prems(2) reads_from_memory [OF i(1)] by metis
  have "got start address j (s\<lparr>gs_hw := h1\<rparr>)" using Cons.prems(1) by (simp add: got_def)
  from Cons.IH [OF got_values_run [OF this i(1) acc(1) assms(3)] _ i(2) acc(2)] h1 clean_bus_close [OF assms(2) acc(1) h1(1)] show ?case by simp
qed simp

definition get_inv ::
  "'w bus \<Rightarrow> ('w \<Rightarrow> bool) \<Rightarrow> eb_format_t \<Rightarrow> eb_format_t \<Rightarrow> ('w \<Rightarrow> memory) \<Rightarrow> memory \<Rightarrow> eb_address_t \<Rightarrow> nat \<Rightarrow> 'w get_state \<Rightarrow> bool" where
  "get_inv bus had_error sizes endian mem start address k s \<longleftrightarrow>
     memory_bus bus sizes endian mem \<and> clean_bus bus had_error sizes endian \<and> is_endian endian \<and> mem (gs_hw s) = start \<and>
     (\<forall>op \<in> set (concat (gs_todo s)). op_accepted sizes endian op) \<and>
     (\<exists>j. got start address j s \<and> reads_from address j (concat (gs_todo s)) = Some k)"

definition get_ready :: "('w \<Rightarrow> memory) \<Rightarrow> memory \<Rightarrow> eb_address_t \<Rightarrow> nat \<Rightarrow> 'w get_state \<Rightarrow> bool" where
  "get_ready mem start address k s \<longleftrightarrow> gs_file s = cells start address k \<and> mem (gs_hw s) = start"

lemma get_transfers:
  assumes "get_inv bus had_error sizes endian mem start address k s" "is_size f" "f AND sizes \<noteq> 0" "unat (address + word_of_nat k) mod unat f = 0"
  shows "\<exists>s'. get_transfer bus (address + word_of_nat k) (endian OR f) n s = Inr s' \<and>
    get_inv bus had_error sizes endian mem start address (k + n * unat f) s'"
proof -
  have c: "clean_bus bus had_error sizes endian" and I: "memory_bus bus sizes endian mem" "is_endian endian" "mem (gs_hw s) = start"
    "\<forall>op \<in> set (concat (gs_todo s)). op_accepted sizes endian op"
    using assms(1) by (simp_all add: get_inv_def)
  obtain j where j: "got start address j s" "reads_from address j (concat (gs_todo s)) = Some k"
    using assms(1) unfolding get_inv_def by blast
  obtain h1 where h1: "b_open bus (gs_hw s) = (EB_OK, h1)" "mem h1 = start" using memory_bus_open [OF I(1)] I(3) by metis
  note reads = strided_reads [OF assms(2) I(2) assms(3,4), of n, THEN conjunct1] strided_reads [OF assms(2) I(2) assms(3,4), of n, THEN conjunct2]
  define ops where "ops = map (\<lambda>a. Bread a (endian OR f)) (strided n (address + word_of_nat k) (word_of_nat (unat f)))"
  define s' where "s' = s\<lparr>gs_todo := gs_todo s @ [ops], gs_hw := h1\<rparr>"
  have "get_transfer bus (address + word_of_nat k) (endian OR f) n s = Inr s'"
    unfolding get_transfer_def s'_def ops_def h1(1) format_of_size(3) [OF assms(2) I(2)] by simp
  moreover have "reads_from address j (concat (gs_todo s')) = Some (k + n * unat f)"
    using j(2) reads(1) unfolding s'_def ops_def [symmetric] by (simp add: reads_from_append)
  moreover have "\<forall>op \<in> set (concat (gs_todo s')). op_accepted sizes endian op"
    using I(4) reads(2) unfolding s'_def ops_def [symmetric] by auto
  moreover have "got start address j s'" "mem (gs_hw s') = start" using j(1) h1(2) by (simp_all add: got_def s'_def)
  ultimately show ?thesis using c I(1,2) unfolding get_inv_def by blast
qed

lemma get_waits:
  assumes "get_inv bus had_error sizes endian mem start address k s"
  shows "\<exists>s'. get_wait bus had_error address endian s = Inr s' \<and> get_inv bus had_error sizes endian mem start address k s' \<and>
    get_ready mem start address k s'"
proof -
  have c: "clean_bus bus had_error sizes endian" and I: "memory_bus bus sizes endian mem" "is_endian endian" "mem (gs_hw s) = start"
    "\<forall>op \<in> set (concat (gs_todo s)). op_accepted sizes endian op"
    using assms by (simp_all add: get_inv_def)
  obtain j where j: "got start address j (s\<lparr>gs_todo := []\<rparr>)" "reads_from address j (concat (gs_todo s)) = Some k"
    using assms by (auto simp: get_inv_def got_def)
  obtain s' where s': "run_gets bus had_error address endian (gs_todo s) (s\<lparr>gs_todo := []\<rparr>) = Inr s'" "got start address k s'"
    "mem (gs_hw s') = start" "gs_todo s' = []"
    using run_gets_run [OF I(1) c I(2) j(1) _ j(2) I(4)] I(3) by auto
  then show ?thesis using c I(1,2) by (auto simp: get_wait_def get_inv_def get_ready_def got_def)
qed

interpretation gets: block_client "get_transfer bus" "get_wait bus had_error address endian" endian sizes address len
  "get_inv bus had_error sizes endian mem start address" "get_ready mem start address"
  for bus had_error endian sizes address len mem start
  by unfold_locales (rule get_transfers get_waits; assumption)+

section \<open>What the programs do\<close>

text \<open>How a program ends after its transfers.\<close>

definition closed :: "(tool_end + 'a) \<times> 'w \<Rightarrow> tool_end + 'a \<times> 'w" where
  "closed r = (case r of (Inl e, h) \<Rightarrow> Inl e | (Inr x, h) \<Rightarrow> Inr (x, h))"

text \<open>C18: \<^verbatim>\<open>eb-put\<close> writes a file to a device exactly. Once the arguments are parsed and the connection is made, for
  every file whose range the operation sizes can cover (\<open>block_range\<close>: inside the address space, address and length
  multiples of the smallest size, and a boundary of the largest size in the range or at its end), whatever the sizes and the endian of the device and
  the number of cycles per packet, the loops end, every operation is one the device accepts, and when the
  program closes the device the memory holds the file at the address and is unchanged everywhere else.\<close>

theorem eb_put_exact:
  assumes "parse_options (block_option (te_strtol E)) opts default_options = Inr oo"
    and "te_strtoull E adr = (address, [])" "files firmware = Some contents" "length contents < 2 ^ 64"
    and "tool_connect E oo netaddress address h = (Inr (line_width, support), h1)" "is_endian (chosen_endian oo support)"
    and "block_range (line_sizes line_width AND support) address (word_of_nat (length contents))"
    and "memory_bus (te_bus E False (o_force oo)) (line_sizes line_width AND support) (chosen_endian oo support) mem"
    and "clean_bus (te_bus E False (o_force oo)) (te_had_error E) (line_sizes line_width AND support) (chosen_endian oo support)"
  shows "\<exists>h2. mem h2 = put_cells (mem h1) address contents \<and>
    eb_put E files opts [netaddress, adr, firmware] h = Some (map_sum id snd (closed (tool_disconnect E () h2)))"
proof -
  let ?sizes = "line_sizes line_width AND support" and ?endian = "chosen_endian oo support"
  let ?s = "\<lparr>ps_file = contents, ps_todo = [], ps_hw = h1\<rparr>"
  have "put_inv (te_bus E False (o_force oo)) (te_had_error E) ?sizes ?endian mem (mem h1) address contents 0 ?s"
    using assms(4,6,8,9) by (simp add: put_inv_def put_cells_def fun_eq_iff)
  from puts.block_transfer_done [OF this assms(7)]
  obtain s' where s': "block_transfer (put_transfer (te_bus E False (o_force oo))) (put_wait (te_bus E False (o_force oo)) (te_had_error E)) ?endian ?sizes
      (packed_cycles line_width (largest_size ?sizes) (o_cycles oo)) address (word_of_nat (length contents)) ?s = Some (Inr s')"
    "put_ready mem (mem h1) address contents (unat (word_of_nat (length contents) :: eb_address_t)) s'"
    by blast
  have "mem (ps_hw s') = put_cells (mem h1) address contents"
    using s'(2) assms(4) by (simp add: put_ready_def unat_of_nat_small)
  moreover have "?endian \<noteq> 0" "?sizes \<noteq> 0" using assms(6) block_rangeD(2) [OF assms(7)] by (auto simp: is_endian_def)
  ultimately show ?thesis
    using assms(1,2,3,5) s'(1)
    by (intro exI [of _ "ps_hw s'"]) (simp add: eb_put_def closed_def Let_def split: prod.split sum.split)
qed

text \<open>C19: \<^verbatim>\<open>eb-get\<close> reads a range of a device exactly, if the operation sizes can cover the range (\<open>block_range\<close>:
  inside the address space, address and length multiples of the smallest size, and a boundary of the largest size in the
  range or at its end) and the device is a memory whose operations report no error. The loops end, the memory of the
  device is unchanged, and the file written holds the bytes of the range in order and nothing else.\<close>

theorem eb_get_exact:
  assumes "parse_options (block_option (te_strtol E)) opts default_options = Inr oo"
    and "parse_range (te_strtoull E) region = Inr (address, len)" "writable firmware"
    and "tool_connect E oo netaddress address h = (Inr (line_width, support), h1)" "is_endian (chosen_endian oo support)"
    and "block_range (line_sizes line_width AND support) address len"
    and "memory_bus (te_bus E False (o_force oo)) (line_sizes line_width AND support) (chosen_endian oo support) mem"
    and "clean_bus (te_bus E False (o_force oo)) (te_had_error E) (line_sizes line_width AND support) (chosen_endian oo support)"
  shows "\<exists>h2. mem h2 = mem h1 \<and>
    eb_get E writable opts [netaddress, region, firmware] h =
      Some (map_sum id (\<lambda>(u, h3). (cells (mem h1) address (unat len), h3)) (closed (tool_disconnect E () h2)))"
proof -
  let ?sizes = "line_sizes line_width AND support" and ?endian = "chosen_endian oo support"
  let ?s = "\<lparr>gs_file = [], gs_lastoff = 0, gs_position = 0, gs_todo = [], gs_hw = h1\<rparr>"
  have "get_inv (te_bus E False (o_force oo)) (te_had_error E) ?sizes ?endian mem (mem h1) address 0 ?s"
    using assms(5,7,8) by (simp add: get_inv_def got_def cells_def)
  from gets.block_transfer_done [OF this assms(6)]
  obtain s' where s': "block_transfer (get_transfer (te_bus E False (o_force oo))) (get_wait (te_bus E False (o_force oo)) (te_had_error E) address ?endian) ?endian ?sizes
      (packed_cycles line_width (largest_size ?sizes) (o_cycles oo)) address len ?s = Some (Inr s')"
    "get_ready mem (mem h1) address (unat len) s'"
    by blast
  have "mem (gs_hw s') = mem h1" "gs_file s' = cells (mem h1) address (unat len)" using s'(2) by (simp_all add: get_ready_def)
  moreover have "?endian \<noteq> 0" "?sizes \<noteq> 0" using assms(5) block_rangeD(2) [OF assms(6)] by (auto simp: is_endian_def)
  ultimately show ?thesis
    using assms(1-4) s'(1)
    by (intro exI [of _ "gs_hw s'"]) (simp add: eb_get_def closed_def Let_def split: prod.split sum.split)
qed

section \<open>On the device of 32-bit words\<close>

lemma memory_env_block:
  "parse_options (block_option (te_strtol memory_env)) [] default_options = Inr default_options"
  "te_strtoull memory_env ''16'' = (16, [])"
  "parse_range (te_strtoull memory_env) ''16/8'' = Inr (16, 8)"
  "tool_connect memory_env default_options ''udp/host'' 16 m = (Inr (0x44, 0x24), m)"
  "o_force default_options = False"
  by (simp_all add: default_options_def memory_env_def parse_range_def tool_connect_def device_formats_def word_device_def)

lemma memory_env_clean: "clean_bus bus (te_had_error memory_env) sizes endian"
  by (simp add: clean_bus_def memory_env_def)

lemma word_range: "block_range 4 16 8"
proof -
  have "\<exists>k \<in> {..8}. (16 + k) mod 4 = (0 :: nat)" by (rule bexI [of _ 0]) simp_all
  then show ?thesis by (simp add: block_range_def largest_size_def smallest_size_def fill_sizes_def)
qed

theorem eb_put_exact_witness:
  "\<exists>m. eb_put memory_env (\<lambda>f. Some [1, 2, 3, 4, 5, 6, 7, 8]) [] [''udp/host'', ''16'', ''code.bin''] (\<lambda>a. 0) = Some (Inr m) \<and>
     map m [15, 16, 17, 23, 24] = [0, 1, 2, 8, 0]"
proof -
  let ?bs = "[1, 2, 3, 4, 5, 6, 7, 8] :: bytes"
  have "\<exists>h2. h2 = put_cells (\<lambda>a. 0) 16 ?bs \<and> eb_put memory_env (\<lambda>f. Some ?bs) [] [''udp/host'', ''16'', ''code.bin''] (\<lambda>a. 0) =
      Some (map_sum id snd (closed (tool_disconnect memory_env () h2)))"
    by (rule eb_put_exact [where mem = "\<lambda>m. m", OF memory_env_block(1,2) _ _ memory_env_block(4)])
      (simp_all add: memory_env_arguments is_endian_def plain_memory_bus word_range memory_env_clean)
  moreover have "map (put_cells (\<lambda>a. 0) 16 ?bs) [15, 16, 17, 23, 24] = [0, 1, 2, 8, 0]" by (simp add: put_cells_def unsigned_minus_1_eq_mask mask_eq_exp_minus_1)
  ultimately show ?thesis by (auto simp: memory_env_closes closed_def)
qed

theorem eb_get_exact_witness:
  "eb_get memory_env (\<lambda>f. True) [] [''udp/host'', ''16/8'', ''code.bin''] (\<lambda>a. ucast a) =
     Some (Inr ([16, 17, 18, 19, 20, 21, 22, 23], \<lambda>a. ucast a))"
proof -
  let ?m = "(\<lambda>a. ucast a) :: memory"
  have "\<exists>h2. h2 = ?m \<and> eb_get memory_env (\<lambda>f. True) [] [''udp/host'', ''16/8'', ''code.bin''] ?m =
      Some (map_sum id (\<lambda>(u, h3). (cells ?m 16 (unat (8 :: eb_address_t)), h3)) (closed (tool_disconnect memory_env () h2)))"
    by (rule eb_get_exact [where mem = "\<lambda>m. m", OF memory_env_block(1,3) _ memory_env_block(4)])
      (simp_all add: memory_env_arguments is_endian_def plain_memory_bus word_range memory_env_clean)
  moreover have "cells ?m 16 8 = [16, 17, 18, 19, 20, 21, 22, 23]" by code_simp
  ultimately show ?thesis by (auto simp: memory_env_closes closed_def)
qed

text \<open>A range that does not reach a boundary of the largest size is overshot: the first loop does not look at the
  end of the range. One byte asked for at address 1 of a device with 8-bit and 32-bit operations gives three.\<close>

lemma eb_get_overshoots:
  "map_option (map_sum id gs_file)
     (block_transfer (get_transfer plain_memory) (get_wait plain_memory (\<lambda>m. False) 1 EB_BIG_ENDIAN) EB_BIG_ENDIAN 5 1 1 1
        \<lparr>gs_file = [], gs_lastoff = 0, gs_position = 0, gs_todo = [], gs_hw = (\<lambda>a. ucast a)\<rparr>) = Some (Inr [1, 2, 3])"
  by code_simp

text \<open>A base address that is not a multiple of the smallest size is only reported: the first loop then never comes to a
  normal end, whatever the transfers do.\<close>

lemma previous_aligned: "is_size f \<Longrightarrow> unat (a + ucast f) mod unat f = 0 \<Longrightarrow> unat a mod unat f = 0" for a :: uint64
proof -
  assume f: "is_size f" and a: "unat (a + ucast f) mod unat f = 0"
  obtain y where "a + ucast f = y * ucast f" using iffD1 [OF aligned_iff [OF f] iffD2 [OF aligned_mod [OF f] a]] by (rule exE)
  then have "a = (y - 1) * ucast f" by (simp add: algebra_simps)
  then show ?thesis by (intro iffD1 [OF aligned_mod [OF f]] iffD2 [OF aligned_iff [OF f]] exI)
qed

lemma head_loop_ends_aligned:
  assumes "head_loop transfer endian bulk edge pos s = Some y" "is_size bulk" "is_size edge" "unat edge dvd unat bulk" "y = Inr r"
  shows "unat pos mod unat edge = 0"
proof -
  have "is_size bulk \<longrightarrow> is_size edge \<longrightarrow> unat edge dvd unat bulk \<longrightarrow> y = Inr r \<longrightarrow> unat pos mod unat edge = 0"
  proof (rule head_loop.raw_induct [where P = "\<lambda>transfer endian bulk edge pos s y.
      is_size bulk \<longrightarrow> is_size edge \<longrightarrow> unat edge dvd unat bulk \<longrightarrow> y = Inr r \<longrightarrow> unat pos mod unat edge = 0", OF _ assms(1)], intro impI)
    fix loop :: "'a transfer \<Rightarrow> eb_format_t \<Rightarrow> eb_format_t \<Rightarrow> eb_format_t \<Rightarrow> eb_address_t \<Rightarrow> 'a \<Rightarrow> (tool_end + eb_address_t \<times> 'a) option"
      and transfer :: "'a transfer" and endian bulk edge pos s y
    assume IH: "\<And>transfer endian bulk edge pos s y. loop transfer endian bulk edge pos s = Some y \<Longrightarrow>
        is_size bulk \<longrightarrow> is_size edge \<longrightarrow> unat edge dvd unat bulk \<longrightarrow> y = Inr r \<longrightarrow> unat pos mod unat edge = 0"
      and body: "(if pos AND ucast (bulk - 1) \<noteq> 0 then
          (case transfer pos (endian OR edge) 1 s of Inl e \<Rightarrow> Some (Inl e) | Inr s1 \<Rightarrow> loop transfer endian bulk edge (pos + ucast edge) s1)
        else Some (Inr (pos, s))) = Some y"
      and sz: "is_size bulk" "is_size edge" "unat edge dvd unat bulk" "y = Inr r"
    show "unat pos mod unat edge = 0"
    proof (cases "pos AND ucast (bulk - 1) = 0")
      case True
      then show ?thesis using aligned_mod [OF sz(1)] sz(3) by (meson dvd_trans mod_eq_0_iff_dvd)
    next
      case False
      then obtain s1 where "loop transfer endian bulk edge (pos + ucast edge) s1 = Some y"
        using body sz(4) by (auto split: sum.splits)
      from mp [OF mp [OF mp [OF mp [OF IH [OF this] sz(1)] sz(2)] sz(3)] sz(4)] show ?thesis
        by (rule previous_aligned [OF sz(2)])
    qed
  qed
  then show ?thesis using assms(2-5) by simp
qed

lemma eb_get_misaligned_stuck:
  assumes "sizes < 16" "sizes \<noteq> 0" "unat address mod unat (smallest_size sizes) \<noteq> 0"
  shows "block_transfer transfer wait endian sizes cycles address len s \<noteq> Some (Inr r)"
proof -
  have "head_loop transfer endian (largest_size sizes) (smallest_size sizes) address s \<noteq> Some (Inr q)" for q
    using head_loop_ends_aligned [OF _ largest_smallest(1,2,5) [OF assms(1,2)] refl] assms(3) by metis
  then show ?thesis
    by (auto simp: block_transfer_def Let_def split: option.splits sum.splits)
qed

end
