(* ===== verification/RR_State.thy ===== *)
theory RR_State
  imports EB_Prelude "HOL-Library.Signed_Division"
begin

text \<open>
  The data of the kernel driver \<^verbatim>\<open>rawrabbit\<close> (\<^verbatim>\<open>src/ip_cores/gn4124-core/sw/gnurabbit/kernel\<close>): the constants, macros
  and structs of \<^verbatim>\<open>rawrabbit.h\<close>, the state of the module and what it calls in the kernel.

  The build is the one for x86-64: \<^verbatim>\<open>unsigned long\<close>, \<^verbatim>\<open>size_t\<close> and \<^verbatim>\<open>resource_size_t\<close> have 64 bits, the union of
  \<^verbatim>\<open>struct rr_iocmd\<close> is little-endian. A C \<^verbatim>\<open>int\<close> is an \<open>int\<close> in range; conversions to it are written \<open>c_int\<close>.

  The kernel is a parameter, the record \<open>rr_env\<close>: results of its functions as functions of the world \<open>'w\<close> (device
  registers, user memory, clock). Calls whose effect only matters to the kernel (interrupt lines, registrations) are
  recorded in the trace \<open>rr_calls\<close>, newest first. An access outside of what the driver owns, and the use of a null
  pointer, is the result \<open>None\<close>.
\<close>

unbundle bit_operations_syntax

section \<open>Constants\<close>

abbreviation (input) EIO :: int where "EIO \<equiv> 5"
abbreviation (input) EAGAIN :: int where "EAGAIN \<equiv> 11"
abbreviation (input) ENOMEM :: int where "ENOMEM \<equiv> 12"
abbreviation (input) EFAULT :: int where "EFAULT \<equiv> 14"
abbreviation (input) EBUSY :: int where "EBUSY \<equiv> 16"
abbreviation (input) ENODEV :: int where "ENODEV \<equiv> 19"
abbreviation (input) EINVAL :: int where "EINVAL \<equiv> 22"
abbreviation (input) ENOSPC :: int where "ENOSPC \<equiv> 28"
abbreviation (input) EOPNOTSUPP :: int where "EOPNOTSUPP \<equiv> 95"
abbreviation (input) ENOMEDIUM :: int where "ENOMEDIUM \<equiv> 123"
abbreviation (input) ERESTARTSYS :: int where "ERESTARTSYS \<equiv> 512"
abbreviation (input) ENOIOCTLCMD :: int where "ENOIOCTLCMD \<equiv> 515"
abbreviation (input) NSEC_PER_SEC :: int where "NSEC_PER_SEC \<equiv> 1000000000"

abbreviation (input) IORESOURCE_IO :: uint64 where "IORESOURCE_IO \<equiv> 0x100"
abbreviation (input) IORESOURCE_MEM :: uint64 where "IORESOURCE_MEM \<equiv> 0x200"
abbreviation (input) PCI_ANY_ID :: uint32 where "PCI_ANY_ID \<equiv> 0xffffffff"

abbreviation (input) RR_FLAG_REGISTERED :: uint64 where "RR_FLAG_REGISTERED \<equiv> 1"
abbreviation (input) RR_FLAG_IRQDISABLE :: uint64 where "RR_FLAG_IRQDISABLE \<equiv> 2"
abbreviation (input) RR_FLAG_IRQREQUEST :: uint64 where "RR_FLAG_IRQREQUEST \<equiv> 2"

definition RR_DEFAULT_VENDOR :: int where "RR_DEFAULT_VENDOR = 0x1a39"
definition RR_DEFAULT_DEVICE :: int where "RR_DEFAULT_DEVICE = 0x0004"
definition RR_DEFAULT_BUFSIZE :: int where "RR_DEFAULT_BUFSIZE = push_bit 20 1"
definition RR_PLIST_SIZE :: uint64 where "RR_PLIST_SIZE = 4096"
definition RR_PLIST_LEN :: uint64 where "RR_PLIST_LEN = RR_PLIST_SIZE div 8"
definition RR_MAX_BUFSIZE :: uint64 where "RR_MAX_BUFSIZE = RR_PLIST_SIZE * RR_PLIST_LEN"

abbreviation (input) RR_DEVSEL_UNUSED :: uint16 where "RR_DEVSEL_UNUSED \<equiv> 0xffff"

definition c_int :: "int \<Rightarrow> int" where
  "c_int i = signed_take_bit 31 i"

section \<open>Positions\<close>

text \<open>A file position, or the address of an \<^verbatim>\<open>rr_iocmd\<close>, holds the number of a BAR above a 28-bit offset.\<close>

definition RR_IS_DMABUF :: "int \<Rightarrow> bool" where
  "RR_IS_DMABUF addr \<longleftrightarrow> addr \<ge> 0xc0000000"

definition RR_GET_BAR :: "int \<Rightarrow> int" where
  "RR_GET_BAR x = drop_bit 28 x"

definition RR_GET_OFF :: "int \<Rightarrow> int" where
  "RR_GET_OFF x = x AND 0x0fffffff"

definition rr_is_valid_bar :: "uint64 \<Rightarrow> bool" where
  "rr_is_valid_bar address =
     (let bar = c_int (RR_GET_BAR (uint address)) in bar = 0 \<or> bar = 2 \<or> bar = 4 \<or> bar = 0x0c)"

definition rr_is_dmabuf_bar :: "uint64 \<Rightarrow> bool" where
  "rr_is_dmabuf_bar address = (let bar = c_int (RR_GET_BAR (uint address)) in bar = 0x0c)"

section \<open>Structs\<close>

record rr_devsel =
  ds_vendor :: uint16
  ds_device :: uint16
  ds_subvendor :: uint16
  ds_subdevice :: uint16
  ds_bus :: uint16
  ds_devfn :: uint16

record rr_iocmd =
  io_address :: uint32
  io_datasize :: uint32
  io_data :: uint64   \<comment> \<open>the union of \<^verbatim>\<open>data8\<close>, \<^verbatim>\<open>data16\<close>, \<^verbatim>\<open>data32\<close> and \<^verbatim>\<open>data64\<close>\<close>

text \<open>Reading and assigning the member of the union that is \<open>n\<close> bytes wide.\<close>

definition get_data :: "nat \<Rightarrow> rr_iocmd \<Rightarrow> uint64" where
  "get_data n io = take_bit (8 * n) (io_data io)"

definition set_data :: "nat \<Rightarrow> uint64 \<Rightarrow> rr_iocmd \<Rightarrow> rr_iocmd" where
  "set_data n v io =
     io\<lparr>io_data := take_bit (8 * n) v OR (io_data io AND NOT (Bit_Operations.mask (8 * n)))\<rparr>"

text \<open>Data of the kernel that the driver looks into.\<close>

record pci_device_id =
  id_vendor :: uint32
  id_device :: uint32
  id_subvendor :: uint32
  id_subdevice :: uint32

record resource =
  r_start :: uint64
  r_end :: uint64
  r_flags :: uint64

record pci_dev =
  pci_vendor :: uint16
  pci_device :: uint16
  pci_subsystem_vendor :: uint16
  pci_subsystem_device :: uint16
  pci_bus_number :: uint8
  pci_devfn :: uint32
  pci_irq :: uint32
  pci_resource :: "resource list"

section \<open>Kernel\<close>

datatype kernel_call =
    Request_irq uint32
  | Free_irq uint32
  | Disable_irq uint32
  | Enable_irq uint32
  | Wake_up
  | Pci_register pci_device_id
  | Pci_unregister
  | Misc_register
  | Misc_deregister
  | Iounmap uint64
  | Vfree

record 'w rr_env =
  k_read :: "nat \<Rightarrow> uint64 \<Rightarrow> 'w \<Rightarrow> uint64 \<times> 'w"   \<comment> \<open>\<^verbatim>\<open>readb\<close>, \<^verbatim>\<open>readw\<close>, \<^verbatim>\<open>readl\<close>, \<^verbatim>\<open>readq\<close> by width in bytes\<close>
  k_write :: "nat \<Rightarrow> uint64 \<Rightarrow> uint64 \<Rightarrow> 'w \<Rightarrow> 'w"   \<comment> \<open>\<^verbatim>\<open>writeb\<close> and so on: width, value, address\<close>
  k_in :: "nat \<Rightarrow> uint64 \<Rightarrow> 'w \<Rightarrow> uint64 \<times> 'w"   \<comment> \<open>\<^verbatim>\<open>inb\<close>, \<^verbatim>\<open>inw\<close>, \<^verbatim>\<open>inl\<close>\<close>
  k_out :: "nat \<Rightarrow> uint64 \<Rightarrow> uint64 \<Rightarrow> 'w \<Rightarrow> 'w"   \<comment> \<open>\<^verbatim>\<open>outb\<close>, \<^verbatim>\<open>outw\<close>, \<^verbatim>\<open>outl\<close>\<close>
  k_access_ok :: "bool \<Rightarrow> uint64 \<Rightarrow> uint64 \<Rightarrow> 'w \<Rightarrow> bool"   \<comment> \<open>for writing, address, size\<close>
  k_from_user :: "uint64 \<Rightarrow> nat \<Rightarrow> 'w \<Rightarrow> bytes \<times> nat"
    \<comment> \<open>\<^verbatim>\<open>copy_from_user\<close>, \<^verbatim>\<open>get_user\<close>: the bytes stored in kernel memory and how many were not copied\<close>
  k_to_user :: "uint64 \<Rightarrow> bytes \<Rightarrow> 'w \<Rightarrow> nat \<times> 'w"   \<comment> \<open>\<^verbatim>\<open>copy_to_user\<close>, \<^verbatim>\<open>put_user\<close>: how many bytes were not copied\<close>
  k_io_to_user :: "uint64 \<Rightarrow> uint64 \<Rightarrow> nat \<Rightarrow> 'w \<Rightarrow> nat \<times> 'w"   \<comment> \<open>\<^verbatim>\<open>copy_to_user\<close> from I/O memory\<close>
  k_user_to_io :: "uint64 \<Rightarrow> uint64 \<Rightarrow> nat \<Rightarrow> 'w \<Rightarrow> nat \<times> 'w"   \<comment> \<open>\<^verbatim>\<open>copy_from_user\<close> into I/O memory\<close>
  k_pci_enable_device :: "pci_dev \<Rightarrow> 'w \<Rightarrow> int"
  k_request_irq :: "uint32 \<Rightarrow> 'w \<Rightarrow> int"
  k_ioremap :: "uint64 \<Rightarrow> uint64 \<Rightarrow> 'w \<Rightarrow> uint64"
  k_pci_register :: "pci_device_id \<Rightarrow> 'w \<Rightarrow> int \<times> pci_dev list"
    \<comment> \<open>\<^verbatim>\<open>pci_register_driver\<close>: the result and the matching devices, which are probed in this order\<close>
  k_jiffies_left :: "'w \<Rightarrow> int"   \<comment> \<open>\<^verbatim>\<open>wait_for_completion_timeout\<close> on a completion that is done\<close>
  k_misc_register :: "'w \<Rightarrow> int"
  k_vmalloc :: "uint64 \<Rightarrow> 'w \<Rightarrow> bytes option"
  k_now :: "'w \<Rightarrow> int \<times> int"   \<comment> \<open>\<^verbatim>\<open>getnstimeofday\<close>: seconds and nanoseconds\<close>
  k_pfn :: "nat \<Rightarrow> 'w \<Rightarrow> uint64"   \<comment> \<open>\<^verbatim>\<open>page_to_pfn(vmalloc_to_page(addr))\<close> by offset in the DMA buffer\<close>
  k_signal_pending :: "'w \<Rightarrow> bool"

section \<open>State of the module\<close>

text \<open>\<^verbatim>\<open>struct rr_dev\<close> (one static object, with its \<^verbatim>\<open>rr_devsel\<close> and \<^verbatim>\<open>rr_idtable\<close>) and the module parameters.
  \<open>rr_bound\<close> is the PCI core's list of devices whose probe succeeded, which \<^verbatim>\<open>pci_unregister_driver\<close> removes.\<close>

record 'w rr_dev =
  rr_devsel :: rr_devsel
  rr_id_table :: pci_device_id
  rr_pdev :: "pci_dev option"
  rr_dmabuf :: "bytes option"
  rr_irqtime :: "int \<times> int"
  rr_irqcount :: uint64
  rr_complete :: nat
  rr_area :: "resource option list"
  rr_remap :: "uint64 list"
  rr_flags :: uint64
  rr_usecount :: int
  rr_vendor :: int
  rr_device :: int
  rr_bufsize :: int
  rr_bound :: "pci_dev list"
  rr_calls :: "kernel_call list"
  rr_world :: 'w

text \<open>An array access with a C index.\<close>

definition at_index :: "'a list \<Rightarrow> int \<Rightarrow> 'a option" where
  "at_index xs i = (if 0 \<le> i \<and> i < int (length xs) then Some (xs ! nat i) else None)"

abbreviation on_world :: "('w \<Rightarrow> 'w) \<Rightarrow> 'w rr_dev \<Rightarrow> 'w rr_dev" where
  "on_world f s \<equiv> s\<lparr>rr_world := f (rr_world s)\<rparr>"

definition kcall :: "kernel_call \<Rightarrow> 'w rr_dev \<Rightarrow> 'w rr_dev" where
  "kcall c s = s\<lparr>rr_calls := c # rr_calls s\<rparr>"

end
