(* ===== verification/RR_Driver.thy ===== *)
theory RR_Driver
  imports RR_State
begin

text \<open>
  The operations of \<^verbatim>\<open>rawrabbit.c\<close>, in the order of the file. Spin locks are not modelled: each operation is one step,
  except for the wait of \<^verbatim>\<open>RR_IRQWAIT\<close>, during which interrupts happen (outcome \<open>Sleep\<close>).
\<close>

unbundle bit_operations_syntax

section \<open>Interrupt handler\<close>

definition rr_interrupt :: "'w rr_env \<Rightarrow> uint32 \<Rightarrow> 'w rr_dev \<Rightarrow> 'w rr_dev" where
  "rr_interrupt K irq s =
     (let s = s\<lparr>rr_irqtime := k_now K (rr_world s), rr_irqcount := rr_irqcount s + 1,
                rr_flags := rr_flags s OR RR_FLAG_IRQDISABLE\<rparr>;
          s = kcall (Disable_irq irq) s
      in kcall Wake_up s)"

section \<open>PCI driver\<close>

definition rr_fill_table :: "'w rr_dev \<Rightarrow> 'w rr_dev" where
  "rr_fill_table s =
     (let sel = rr_devsel s;
          t = (if ds_subvendor sel = RR_DEVSEL_UNUSED
               then (rr_id_table s)\<lparr>id_subvendor := PCI_ANY_ID, id_subdevice := PCI_ANY_ID\<rparr>
               else (rr_id_table s)\<lparr>id_subvendor := ucast (ds_subvendor sel),
                                    id_subdevice := ucast (ds_subdevice sel)\<rparr>)
      in s\<lparr>rr_id_table := t\<lparr>id_vendor := ucast (ds_vendor sel), id_device := ucast (ds_device sel)\<rparr>\<rparr>)"

text \<open>The loop over the BARs: index \<open>i\<close> of the driver is resource \<open>2 * i\<close> of the device.\<close>

definition probe_bar :: "'w rr_env \<Rightarrow> pci_dev \<Rightarrow> nat \<Rightarrow> 'w rr_dev \<Rightarrow> 'w rr_dev" where
  "probe_bar K pdev i s =
     (let r = pci_resource pdev ! (2 * i)
      in if r_start r = 0 then s
         else let s = s\<lparr>rr_area := (rr_area s)[i := Some r]\<rparr>
              in if r_flags r AND IORESOURCE_MEM \<noteq> 0
                 then s\<lparr>rr_remap := (rr_remap s)[i := k_ioremap K (r_start r) (r_end r + 1 - r_start r) (rr_world s)]\<rparr>
                 else s)"

text \<open>The device is identified by its address on the bus; its interrupt line is requested.\<close>

definition probe_selected :: "rr_devsel \<Rightarrow> pci_dev \<Rightarrow> bool" where
  "probe_selected sel pdev =
     (if ds_bus sel \<noteq> RR_DEVSEL_UNUSED
      then (if ds_bus sel \<noteq> ucast (pci_bus_number pdev) then False
            else if ucast (ds_devfn sel) \<noteq> pci_devfn pdev then False else True)
      else True)"

definition probe_irq :: "'w rr_env \<Rightarrow> pci_dev \<Rightarrow> 'w rr_dev \<Rightarrow> 'w rr_dev" where
  "probe_irq K pdev s =
     (if pci_irq pdev > 0
      then if k_request_irq K (pci_irq pdev) (rr_world s) < 0 then s
           else kcall (Request_irq (pci_irq pdev)) (s\<lparr>rr_flags := rr_flags s OR RR_FLAG_IRQREQUEST\<rparr>)
      else s)"

definition rr_pciprobe :: "'w rr_env \<Rightarrow> pci_dev \<Rightarrow> 'w rr_dev \<Rightarrow> int \<times> 'w rr_dev" where
  "rr_pciprobe K pdev s =
     (if rr_pdev s \<noteq> None then (- EBUSY, s)
      else if \<not> probe_selected (rr_devsel s) pdev then (- ENODEV, s)
      else let i = k_pci_enable_device K pdev (rr_world s)
           in if i < 0 then (i, s)
              else let s = probe_irq K pdev (s\<lparr>rr_pdev := Some pdev\<rparr>);
                       s = s\<lparr>rr_complete := rr_complete s + 1\<rparr>
                   in (0, probe_bar K pdev 2 (probe_bar K pdev 1 (probe_bar K pdev 0 s))))"

definition remove_irq :: "pci_dev \<Rightarrow> 'w rr_dev \<Rightarrow> 'w rr_dev option" where
  "remove_irq pdev s =
     (if rr_flags s AND RR_FLAG_IRQREQUEST \<noteq> 0
      then let s = kcall (Free_irq (pci_irq pdev)) s;
               s = s\<lparr>rr_flags := rr_flags s AND NOT RR_FLAG_IRQREQUEST\<rparr>
           in if rr_flags s AND RR_FLAG_IRQDISABLE \<noteq> 0
              then do { p \<leftarrow> rr_pdev s;
                        Some (kcall (Enable_irq (pci_irq p)) (s\<lparr>rr_flags := rr_flags s AND NOT RR_FLAG_IRQDISABLE\<rparr>)) }
              else Some s
      else Some s)"

definition remove_bar :: "nat \<Rightarrow> 'w rr_dev \<Rightarrow> 'w rr_dev" where
  "remove_bar i s =
     (let s = kcall (Iounmap (rr_remap s ! i)) s
      in s\<lparr>rr_remap := (rr_remap s)[i := 0], rr_area := (rr_area s)[i := None]\<rparr>)"

definition rr_pciremove :: "pci_dev \<Rightarrow> 'w rr_dev \<Rightarrow> 'w rr_dev option" where
  "rr_pciremove pdev s =
     do { s \<leftarrow> remove_irq pdev s;
          Some ((remove_bar 2 (remove_bar 1 (remove_bar 0 s)))\<lparr>rr_pdev := None\<rparr>) }"

text \<open>The PCI core: registering the driver probes the matching devices and binds those whose probe returns 0;
  unregistering it removes the bound ones.\<close>

fun pci_probe_all :: "'w rr_env \<Rightarrow> pci_dev list \<Rightarrow> 'w rr_dev \<Rightarrow> 'w rr_dev" where
  "pci_probe_all K [] s = s"
| "pci_probe_all K (p # ps) s =
     (let (r, s) = rr_pciprobe K p s
      in pci_probe_all K ps (if r = 0 then s\<lparr>rr_bound := p # rr_bound s\<rparr> else s))"

definition pci_register_driver :: "'w rr_env \<Rightarrow> 'w rr_dev \<Rightarrow> int \<times> 'w rr_dev" where
  "pci_register_driver K s =
     (let (r, ps) = k_pci_register K (rr_id_table s) (rr_world s)
      in (r, pci_probe_all K ps (kcall (Pci_register (rr_id_table s)) s)))"

fun pci_remove_all :: "pci_dev list \<Rightarrow> 'w rr_dev \<Rightarrow> 'w rr_dev option" where
  "pci_remove_all [] s = Some s"
| "pci_remove_all (p # ps) s = do { s \<leftarrow> rr_pciremove p s; pci_remove_all ps s }"

definition pci_unregister_driver :: "'w rr_dev \<Rightarrow> 'w rr_dev option" where
  "pci_unregister_driver s =
     do { s' \<leftarrow> pci_remove_all (rr_bound s) s; Some (kcall Pci_unregister (s'\<lparr>rr_bound := []\<rparr>)) }"

definition rr_fill_table_and_probe :: "'w rr_env \<Rightarrow> 'w rr_dev \<Rightarrow> (int \<times> 'w rr_dev) option" where
  "rr_fill_table_and_probe K s =
     do { s \<leftarrow> (if rr_flags s AND RR_FLAG_REGISTERED \<noteq> 0
                then do { s \<leftarrow> pci_unregister_driver s;
                          Some (s\<lparr>rr_flags := rr_flags s AND NOT RR_FLAG_REGISTERED\<rparr>) }
                else Some s);
          let s = rr_fill_table s;
          let s = s\<lparr>rr_complete := 0\<rparr>;
          let (ret, s) = pci_register_driver K s;
          let s = (if ret = 0 then s\<lparr>rr_flags := rr_flags s OR RR_FLAG_REGISTERED\<rparr> else s);
          if ret < 0 then Some (ret, s)
          else if rr_complete s > 0
          then Some (k_jiffies_left K (rr_world s), s\<lparr>rr_complete := rr_complete s - 1\<rparr>)
          else Some (0, s) }"

section \<open>Helpers of the ioctl method\<close>

text \<open>The switch over the size of the access, which all helpers have: the alignment test and the action for \<open>n\<close>
  bytes.\<close>

definition switch_datasize :: "uint32 \<Rightarrow> int \<Rightarrow> (int \<Rightarrow> 'a) \<Rightarrow> (nat \<Rightarrow> 'a) \<Rightarrow> 'a" where
  "switch_datasize datasize off fail act =
     (if datasize = 1 then act 1
      else if datasize = 2 then (if off AND 1 \<noteq> 0 then fail (- EIO) else act 2)
      else if datasize = 4 then (if off AND 3 \<noteq> 0 then fail (- EIO) else act 4)
      else if datasize = 8 then (if off AND 7 \<noteq> 0 then fail (- EIO) else act 8)
      else fail (- EINVAL))"

text \<open>\<open>n\<close> bytes at an offset of an area are owned by the driver when they are inside of it; in memory, the area must be
  mapped.\<close>

definition io_inside :: "resource \<Rightarrow> int \<Rightarrow> nat \<Rightarrow> bool" where
  "io_inside r off n \<longleftrightarrow> 0 \<le> off \<and> off + int n \<le> uint (r_end r - r_start r + 1)"

definition mem_inside :: "uint64 \<Rightarrow> resource \<Rightarrow> int \<Rightarrow> nat \<Rightarrow> bool" where
  "mem_inside base r off n \<longleftrightarrow> base \<noteq> 0 \<and> io_inside r off n"

type_synonym 'w rr_result = "(int \<times> rr_iocmd \<times> 'w rr_dev) option"

definition rr_do_read_mem :: "'w rr_env \<Rightarrow> rr_iocmd \<Rightarrow> 'w rr_dev \<Rightarrow> 'w rr_result" where
  "rr_do_read_mem K io s =
     (let bar = c_int (RR_GET_BAR (uint (io_address io)) div 2); off = c_int (RR_GET_OFF (uint (io_address io)))
      in do { ra \<leftarrow> at_index (rr_area s) bar; r \<leftarrow> ra;
              if (word_of_int off :: uint64) \<ge> r_end r - r_start r + 1 then Some (- ENOMEDIUM, io, s)
              else switch_datasize (io_datasize io) off (\<lambda>e. Some (e, io, s))
                (\<lambda>n. do { base \<leftarrow> at_index (rr_remap s) bar;
                         if mem_inside base r off n
                         then let (v, w) = k_read K n (base + word_of_int off) (rr_world s)
                              in Some (0, set_data n v io, s\<lparr>rr_world := w\<rparr>)
                         else None }) })"

definition rr_do_write_mem :: "'w rr_env \<Rightarrow> rr_iocmd \<Rightarrow> 'w rr_dev \<Rightarrow> 'w rr_result" where
  "rr_do_write_mem K io s =
     (let bar = c_int (RR_GET_BAR (uint (io_address io)) div 2); off = c_int (RR_GET_OFF (uint (io_address io)))
      in do { ra \<leftarrow> at_index (rr_area s) bar; r \<leftarrow> ra;
              if (word_of_int off :: uint64) \<ge> r_end r - r_start r + 1 then Some (- ENOMEDIUM, io, s)
              else switch_datasize (io_datasize io) off (\<lambda>e. Some (e, io, s))
                (\<lambda>n. do { base \<leftarrow> at_index (rr_remap s) bar;
                         if mem_inside base r off n
                         then Some (0, io, on_world (k_write K n (get_data n io) (base + word_of_int off)) s)
                         else None }) })"

text \<open>Ports have no 8-byte access: it is two accesses, the lower half first.\<close>

definition port_in :: "'w rr_env \<Rightarrow> nat \<Rightarrow> uint64 \<Rightarrow> 'w \<Rightarrow> uint64 \<times> 'w" where
  "port_in K n port w =
     (if n = 8
      then let (lo, w) = k_in K 4 port w; (hi, w) = k_in K 4 (port + 4) w
           in (take_bit 32 lo OR push_bit 32 (take_bit 32 hi), w)
      else k_in K n port w)"

definition rr_do_read_io :: "'w rr_env \<Rightarrow> rr_iocmd \<Rightarrow> 'w rr_dev \<Rightarrow> 'w rr_result" where
  "rr_do_read_io K io s =
     (let bar = c_int (RR_GET_BAR (uint (io_address io)) div 2); off = c_int (RR_GET_OFF (uint (io_address io)))
      in do { ra \<leftarrow> at_index (rr_area s) bar; r \<leftarrow> ra;
              if (word_of_int off :: uint64) \<ge> r_end r - r_start r + 1 then Some (- ENOMEDIUM, io, s)
              else switch_datasize (io_datasize io) off (\<lambda>e. Some (e, io, s))
                (\<lambda>n. if io_inside r off n
                     then let (v, w) = port_in K n (r_start r + word_of_int off) (rr_world s)
                          in Some (0, set_data n v io, s\<lparr>rr_world := w\<rparr>)
                     else None) })"

definition port_out :: "'w rr_env \<Rightarrow> nat \<Rightarrow> uint64 \<Rightarrow> uint64 \<Rightarrow> 'w \<Rightarrow> 'w" where
  "port_out K n v port w =
     (if n = 8 then k_out K 4 (drop_bit 32 v) (port + 4) (k_out K 4 (take_bit 32 v) port w)
      else k_out K n v port w)"

definition rr_do_write_io :: "'w rr_env \<Rightarrow> rr_iocmd \<Rightarrow> 'w rr_dev \<Rightarrow> 'w rr_result" where
  "rr_do_write_io K io s =
     (let bar = c_int (RR_GET_BAR (uint (io_address io)) div 2); off = c_int (RR_GET_OFF (uint (io_address io)))
      in do { ra \<leftarrow> at_index (rr_area s) bar; r \<leftarrow> ra;
              if (word_of_int off :: uint64) \<ge> r_end r - r_start r + 1 then Some (- ENOMEDIUM, io, s)
              else switch_datasize (io_datasize io) off (\<lambda>e. Some (e, io, s))
                (\<lambda>n. if io_inside r off n
                     then Some (0, io, on_world (port_out K n (get_data n io) (r_start r + word_of_int off)) s)
                     else None) })"

text \<open>The DMA buffer is ordinary memory.\<close>

definition dma_load :: "int \<Rightarrow> nat \<Rightarrow> 'w rr_dev \<Rightarrow> bytes option" where
  "dma_load off n s =
     do { b \<leftarrow> rr_dmabuf s;
          if 0 \<le> off \<and> nat off + n \<le> length b then Some (take n (drop (nat off) b)) else None }"

definition dma_store :: "int \<Rightarrow> bytes \<Rightarrow> 'w rr_dev \<Rightarrow> 'w rr_dev option" where
  "dma_store off bs s =
     do { b \<leftarrow> rr_dmabuf s;
          if 0 \<le> off \<and> nat off + length bs \<le> length b
          then Some (s\<lparr>rr_dmabuf := Some (take (nat off) b @ bs @ drop (nat off + length bs) b)\<rparr>) else None }"

abbreviation (input) ioc :: "uint32 \<Rightarrow> uint32 \<Rightarrow> uint32 \<Rightarrow> uint32" where
  "ioc dir nr sz \<equiv> push_bit 30 dir OR push_bit 16 sz OR push_bit 8 0x34 OR nr"

definition RR_DEVSEL :: uint32 where "RR_DEVSEL = ioc 1 0 12"
definition RR_DEVGET :: uint32 where "RR_DEVGET = ioc 2 1 12"
definition RR_READ :: uint32 where "RR_READ = ioc 3 2 16"
definition RR_WRITE :: uint32 where "RR_WRITE = ioc 1 3 16"
definition RR_IRQWAIT :: uint32 where "RR_IRQWAIT = ioc 0 4 0"
definition RR_IRQENA :: uint32 where "RR_IRQENA = ioc 0 5 0"
definition RR_GETDMASIZE :: uint32 where "RR_GETDMASIZE = ioc 0 6 0"
definition RR_GETPLIST :: uint32 where "RR_GETPLIST = ioc 0 8 0"

definition rr_do_iocmd_dmabuf :: "uint32 \<Rightarrow> rr_iocmd \<Rightarrow> 'w rr_dev \<Rightarrow> 'w rr_result" where
  "rr_do_iocmd_dmabuf cmd io s =
     (let off = c_int (RR_GET_OFF (uint (io_address io)))
      in if off \<ge> rr_bufsize s then Some (- ENOMEDIUM, io, s)
         else switch_datasize (io_datasize io) off (\<lambda>e. Some (e, io, s))
           (\<lambda>n. if cmd = RR_WRITE
                then do { s \<leftarrow> dma_store off (le_bytes n (get_data n io)) s; Some (0, io, s) }
                else do { bs \<leftarrow> dma_load off n s; Some (0, set_data n (of_le bs) io, s) }))"

definition rr_do_iocmd :: "'w rr_env \<Rightarrow> uint32 \<Rightarrow> rr_iocmd \<Rightarrow> 'w rr_dev \<Rightarrow> 'w rr_result" where
  "rr_do_iocmd K cmd io s =
     (let bar = c_int (RR_GET_BAR (uint (io_address io)))
      in if \<not> rr_is_valid_bar (ucast (io_address io)) then Some (- EINVAL, io, s)
         else if rr_is_dmabuf_bar (ucast (io_address io)) then rr_do_iocmd_dmabuf cmd io s
         else do { ra \<leftarrow> at_index (rr_area s) (bar div 2);
                   case ra of
                     None \<Rightarrow> Some (- ENODEV, io, s)
                   | Some r \<Rightarrow>
                       if r_flags r AND IORESOURCE_MEM \<noteq> 0
                       then (if cmd = RR_READ then rr_do_read_mem K io s else rr_do_write_mem K io s)
                       else if r_flags r AND IORESOURCE_IO \<noteq> 0
                       then (if cmd = RR_READ then rr_do_read_io K io s else rr_do_write_io K io s)
                       else Some (- EIO, io, s) })"

end
