(* ===== verification/RR_Files.thy ===== *)
theory RR_Files
  imports RR_Driver
begin

text \<open>
  The file operations of \<^verbatim>\<open>rawrabbit.c\<close>: \<^verbatim>\<open>rr_ioctl\<close> split over its commands, \<^verbatim>\<open>rr_open\<close>, \<^verbatim>\<open>rr_release\<close>, \<^verbatim>\<open>rr_mmap\<close>,
  \<^verbatim>\<open>rr_read\<close> and \<^verbatim>\<open>rr_write\<close>, and the start and the end of the module.
\<close>

unbundle bit_operations_syntax

section \<open>ioctl\<close>

text \<open>An ioctl returns a value, or sleeps until the interrupt count differs from the one it has read.\<close>

datatype 'w rr_outcome = Return int "'w rr_dev" | Sleep uint64 "'w rr_dev"

text \<open>The union \<^verbatim>\<open>karg\<close> of 16 bytes, seen as one of its members.\<close>

definition devsel_of :: "bytes \<Rightarrow> rr_devsel" where
  "devsel_of b = \<lparr>ds_vendor = ucast (get_raw 0 2 b), ds_device = ucast (get_raw 2 2 b),
                 ds_subvendor = ucast (get_raw 4 2 b), ds_subdevice = ucast (get_raw 6 2 b),
                 ds_bus = ucast (get_raw 8 2 b), ds_devfn = ucast (get_raw 10 2 b)\<rparr>"

definition devsel_bytes :: "rr_devsel \<Rightarrow> bytes" where
  "devsel_bytes d = concat (map (\<lambda>f. le_bytes 2 (ucast (f d)))
     [ds_vendor, ds_device, ds_subvendor, ds_subdevice, ds_bus, ds_devfn])"

definition iocmd_of :: "bytes \<Rightarrow> rr_iocmd" where
  "iocmd_of b = \<lparr>io_address = ucast (get_raw 0 4 b), io_datasize = ucast (get_raw 4 4 b), io_data = get_raw 8 8 b\<rparr>"

definition iocmd_bytes :: "rr_iocmd \<Rightarrow> bytes" where
  "iocmd_bytes io = le_bytes 4 (ucast (io_address io)) @ le_bytes 4 (ucast (io_datasize io)) @ le_bytes 8 (io_data io)"

definition IOC_SIZE :: "uint32 \<Rightarrow> nat" where "IOC_SIZE cmd = unat (drop_bit 16 cmd AND 0x3fff)"
definition IOC_DIR :: "uint32 \<Rightarrow> uint32" where "IOC_DIR cmd = drop_bit 30 cmd AND 3"
definition IOC_TYPE :: "uint32 \<Rightarrow> uint32" where "IOC_TYPE cmd = drop_bit 8 cmd AND 0xff"

definition ioctl_devsel :: "'w rr_env \<Rightarrow> bytes \<Rightarrow> 'w rr_dev \<Rightarrow> (int \<times> 'w rr_dev) option" where
  "ioctl_devsel K karg s =
     (if rr_usecount s > 1 then Some (- EBUSY, s)
      else do { (ret, s) \<leftarrow> rr_fill_table_and_probe K (s\<lparr>rr_devsel := devsel_of karg\<rparr>);
                Some (if ret = 0 then - ENODEV else if ret > 0 then 0 else ret, s) })"

definition ioctl_devget :: "'w rr_dev \<Rightarrow> rr_devsel option" where
  "ioctl_devget s =
     do { p \<leftarrow> rr_pdev s;
          Some \<lparr>ds_vendor = pci_vendor p, ds_device = pci_device p, ds_subvendor = pci_subsystem_vendor p,
                ds_subdevice = pci_subsystem_device p, ds_bus = ucast (pci_bus_number p), ds_devfn = ucast (pci_devfn p)\<rparr> }"

definition ioctl_irqwait :: "'w rr_dev \<Rightarrow> 'w rr_outcome" where
  "ioctl_irqwait s =
     (if rr_flags s AND RR_FLAG_IRQDISABLE \<noteq> 0 then Return (- EAGAIN) s else Sleep (rr_irqcount s) s)"

text \<open>\<^verbatim>\<open>wait_event_interruptible\<close>, evaluated when the sleeping thread is woken up, and the end of the command.\<close>

definition irqwait_resume :: "'w rr_env \<Rightarrow> uint64 \<Rightarrow> 'w rr_dev \<Rightarrow> 'w rr_outcome" where
  "irqwait_resume K count s =
     (if count = rr_irqcount s \<and> \<not> k_signal_pending K (rr_world s) then Sleep count s
      else if k_signal_pending K (rr_world s) then Return (- ERESTARTSYS) s
      else Return 0 s)"

definition irqena_delay :: "int \<times> int \<Rightarrow> int \<times> int \<Rightarrow> int" where
  "irqena_delay tv tvirq =
     (if fst tv - fst tvirq > 1 then NSEC_PER_SEC
      else let ret = c_int ((fst tv - fst tvirq) * NSEC_PER_SEC + snd tv - snd tvirq)
           in if ret > NSEC_PER_SEC then NSEC_PER_SEC else ret)"

definition ioctl_irqena :: "'w rr_env \<Rightarrow> 'w rr_dev \<Rightarrow> (int \<times> 'w rr_dev) option" where
  "ioctl_irqena K s =
     (let tv = k_now K (rr_world s); tvirq = rr_irqtime s
      in if rr_flags s AND RR_FLAG_IRQDISABLE = 0 then Some (- EAGAIN, s)
         else do { p \<leftarrow> rr_pdev s;
                   Some (irqena_delay tv tvirq,
                         kcall (Enable_irq (pci_irq p)) (s\<lparr>rr_flags := rr_flags s AND NOT RR_FLAG_IRQDISABLE\<rparr>)) })"

function plist_loop :: "'w rr_env \<Rightarrow> uint64 \<Rightarrow> int \<Rightarrow> int \<Rightarrow> 'w \<Rightarrow> 'w" where
  "plist_loop K uptr addr bufsize w =
     (if addr < bufsize
      then plist_loop K (uptr + 4) (addr + 4096) bufsize (snd (k_to_user K uptr (le_bytes 4 (k_pfn K (nat addr) w)) w))
      else w)"
  by auto
termination
  by (relation "measure (\<lambda>(K, uptr, addr, bufsize, w). nat (bufsize - addr))") auto

declare plist_loop.simps [simp del]

definition ioctl_getplist :: "'w rr_env \<Rightarrow> uint64 \<Rightarrow> 'w rr_dev \<Rightarrow> (int \<times> 'w rr_dev) option" where
  "ioctl_getplist K arg s =
     (if \<not> k_access_ok K True arg RR_PLIST_SIZE (rr_world s) then Some (- EFAULT, s)
      else do { b \<leftarrow> rr_dmabuf s; Some (0, on_world (plist_loop K arg 0 (rr_bufsize s)) s) })"

text \<open>The end of \<^verbatim>\<open>rr_ioctl\<close>: the argument is copied back if the command reads.\<close>

definition ioctl_finish :: "'w rr_env \<Rightarrow> uint32 \<Rightarrow> uint64 \<Rightarrow> int \<Rightarrow> bytes \<Rightarrow> 'w rr_dev \<Rightarrow> 'w rr_outcome" where
  "ioctl_finish K cmd arg ret karg s =
     (if ret < 0 then Return ret s
      else if IOC_DIR cmd AND 2 \<noteq> 0 \<and> IOC_SIZE cmd \<le> 16
      then let (left, w) = k_to_user K arg (take (IOC_SIZE cmd) karg) (rr_world s)
           in if left \<noteq> 0 then Return (- EFAULT) (s\<lparr>rr_world := w\<rparr>) else Return ret (s\<lparr>rr_world := w\<rparr>)
      else Return ret s)"

definition ioctl_switch :: "'w rr_env \<Rightarrow> uint32 \<Rightarrow> uint64 \<Rightarrow> bytes \<Rightarrow> 'w rr_dev \<Rightarrow> 'w rr_outcome option" where
  "ioctl_switch K cmd arg karg s =
     (if cmd = RR_DEVSEL
      then do { (ret, s) \<leftarrow> ioctl_devsel K karg s; Some (ioctl_finish K cmd arg ret karg s) }
      else if cmd = RR_DEVGET
      then (case ioctl_devget s of
              None \<Rightarrow> Some (Return (- ENODEV) s)
            | Some d \<Rightarrow> Some (ioctl_finish K cmd arg 0 (devsel_bytes d @ drop 12 karg) s))
      else if cmd = RR_READ \<or> cmd = RR_WRITE
      then do { (ret, io, s) \<leftarrow> rr_do_iocmd K cmd (iocmd_of karg) s;
                Some (ioctl_finish K cmd arg ret (iocmd_bytes io) s) }
      else if cmd = RR_IRQWAIT then Some (ioctl_irqwait s)
      else if cmd = RR_IRQENA then do { (ret, s) \<leftarrow> ioctl_irqena K s; Some (Return ret s) }
      else if cmd = RR_GETDMASIZE then Some (Return (rr_bufsize s) s)
      else if cmd = RR_GETPLIST then do { (ret, s) \<leftarrow> ioctl_getplist K arg s; Some (Return ret s) }
      else Some (Return (- ENOIOCTLCMD) s))"

text \<open>The argument is fetched from user space if the command writes. Otherwise \<^verbatim>\<open>karg\<close> is not initialised, and no
  command looks at it before it is assigned; the model has zeros there.\<close>

definition ioctl_fetch :: "'w rr_env \<Rightarrow> uint32 \<Rightarrow> uint64 \<Rightarrow> 'w \<Rightarrow> bytes option" where
  "ioctl_fetch K cmd arg w =
     (if IOC_DIR cmd AND 1 \<noteq> 0 \<and> IOC_SIZE cmd \<le> 16
      then let (bs, left) = k_from_user K arg (IOC_SIZE cmd) w
           in if left \<noteq> 0 then None else Some (bs @ replicate (16 - IOC_SIZE cmd) 0)
      else Some (replicate 16 0))"

definition rr_ioctl :: "'w rr_env \<Rightarrow> uint32 \<Rightarrow> uint64 \<Rightarrow> 'w rr_dev \<Rightarrow> 'w rr_outcome option" where
  "rr_ioctl K cmd arg s =
     (if IOC_TYPE cmd \<noteq> 0x34 then Some (Return (- ENOIOCTLCMD) s)
      else if (if IOC_DIR cmd AND 2 \<noteq> 0
               then \<not> k_access_ok K True arg (word_of_nat (IOC_SIZE cmd)) (rr_world s)
               else if IOC_DIR cmd AND 1 \<noteq> 0
               then \<not> k_access_ok K False arg (word_of_nat (IOC_SIZE cmd)) (rr_world s)
               else False)
      then Some (Return (- EFAULT) s)
      else case ioctl_fetch K cmd arg (rr_world s) of
             None \<Rightarrow> Some (Return (- EFAULT) s)
           | Some karg \<Rightarrow> ioctl_switch K cmd arg karg s)"

section \<open>Other file operations\<close>

definition rr_open :: "'w rr_dev \<Rightarrow> int \<times> 'w rr_dev" where
  "rr_open s = (0, s\<lparr>rr_usecount := c_int (rr_usecount s + 1)\<rparr>)"

definition rr_release :: "'w rr_dev \<Rightarrow> int \<times> 'w rr_dev" where
  "rr_release s = (0, s\<lparr>rr_usecount := c_int (rr_usecount s - 1)\<rparr>)"

definition rr_mmap :: "'w rr_dev \<Rightarrow> int \<times> 'w rr_dev" where
  "rr_mmap s = (- EOPNOTSUPP, s)"

text \<open>\<open>buf\<close> is the user's buffer, \<open>pos\<close> the file position. The result has the value returned and the new position.\<close>

definition rr_read :: "'w rr_env \<Rightarrow> uint64 \<Rightarrow> uint64 \<Rightarrow> int \<Rightarrow> 'w rr_dev \<Rightarrow> (int \<times> int \<times> 'w rr_dev) option" where
  "rr_read K buf count pos s =
     (let bar = c_int (RR_GET_BAR pos sdiv 2); off = c_int (RR_GET_OFF pos)
      in if \<not> rr_is_valid_bar (word_of_int pos) then Some (- EINVAL, pos, s)
         else if RR_IS_DMABUF pos
         then if off \<ge> rr_bufsize s then Some (0, pos, s)
              else let count = (if word_of_int off + count > word_of_int (rr_bufsize s)
                                then word_of_int (rr_bufsize s - off) else count)
                   in do { bs \<leftarrow> dma_load off (unat count) s;
                           let (left, w) = k_to_user K buf bs (rr_world s);
                           if left \<noteq> 0 then Some (- EFAULT, pos, s\<lparr>rr_world := w\<rparr>)
                           else Some (sint count, pos + sint count, s\<lparr>rr_world := w\<rparr>) }
         else do { base \<leftarrow> at_index (rr_remap s) bar;
                   if base = 0 then Some (- EINVAL, pos, s)
                   else do { ra \<leftarrow> at_index (rr_area s) bar; r \<leftarrow> ra;
                     let size = c_int (uint (r_end r + 1 - r_start r));
                     if off \<ge> size then Some (- EIO, pos, s)
                     else let count = (if count + word_of_int off > word_of_int size
                                       then word_of_int (size - off) else count)
                          in if \<not> mem_inside base r off (unat count) then None
                             else let (left, w) =
                                    (if count \<in> {1, 2, 4, 8}
                                     then let (v, w) = k_read K (unat count) (base + word_of_int off) (rr_world s)
                                          in k_to_user K buf (le_bytes (unat count) v) w
                                     else k_io_to_user K buf (base + word_of_int off) (unat count) (rr_world s))
                                  in if left \<noteq> 0 then Some (- EFAULT, pos, s\<lparr>rr_world := w\<rparr>)
                                     else Some (sint count, pos + sint count, s\<lparr>rr_world := w\<rparr>) } })"

definition rr_write :: "'w rr_env \<Rightarrow> uint64 \<Rightarrow> uint64 \<Rightarrow> int \<Rightarrow> 'w rr_dev \<Rightarrow> (int \<times> int \<times> 'w rr_dev) option" where
  "rr_write K buf count pos s =
     (let bar = c_int (RR_GET_BAR pos sdiv 2); off = c_int (RR_GET_OFF pos)
      in if \<not> rr_is_valid_bar (word_of_int pos) then Some (- EINVAL, pos, s)
         else if RR_IS_DMABUF pos
         then if off \<ge> rr_bufsize s then Some (- ENOSPC, pos, s)
              else let count = (if word_of_int off + count > word_of_int (rr_bufsize s)
                                then word_of_int (rr_bufsize s - off) else count);
                       (bs, left) = k_from_user K buf (unat count) (rr_world s)
                   in do { s \<leftarrow> dma_store off bs s;
                           if left \<noteq> 0 then Some (- EFAULT, pos, s)
                           else Some (sint count, pos + sint count, s) }
         else do { base \<leftarrow> at_index (rr_remap s) bar;
                   if base = 0 then Some (- EINVAL, pos, s)
                   else do { ra \<leftarrow> at_index (rr_area s) bar; r \<leftarrow> ra;
                     let size = c_int (uint (r_end r + 1 - r_start r));
                     if off \<ge> size then Some (- EIO, pos, s)
                     else let count = (if count + word_of_int off > word_of_int size
                                       then word_of_int (size - off) else count)
                          in if \<not> mem_inside base r off (unat count) then None
                             else let (left, w) =
                                    (if count \<in> {1, 2, 4, 8}
                                     then let (bs, left) = k_from_user K buf (unat count) (rr_world s)
                                          in (left, if left \<noteq> 0 then rr_world s
                                                    else k_write K (unat count) (of_le bs) (base + word_of_int off) (rr_world s))
                                     else k_user_to_io K buf (base + word_of_int off) (unat count) (rr_world s))
                                  in if left \<noteq> 0 then Some (- EFAULT, pos, s\<lparr>rr_world := w\<rparr>)
                                     else Some (sint count, pos + sint count, s\<lparr>rr_world := w\<rparr>) } })"

section \<open>Start and end of the module\<close>

text \<open>The static \<^verbatim>\<open>rr_dev\<close> with the module parameters.\<close>

definition rr_dev_static :: "int \<Rightarrow> int \<Rightarrow> int \<Rightarrow> 'w \<Rightarrow> 'w rr_dev" where
  "rr_dev_static vendor device bufsize w =
     \<lparr>rr_devsel = \<lparr>ds_vendor = 0, ds_device = 0, ds_subvendor = 0, ds_subdevice = 0, ds_bus = 0, ds_devfn = 0\<rparr>,
      rr_id_table = \<lparr>id_vendor = 0, id_device = 0, id_subvendor = 0, id_subdevice = 0\<rparr>,
      rr_pdev = None, rr_dmabuf = None, rr_irqtime = (0, 0), rr_irqcount = 0, rr_complete = 0,
      rr_area = [None, None, None], rr_remap = [0, 0, 0], rr_flags = 0, rr_usecount = 0,
      rr_vendor = vendor, rr_device = device, rr_bufsize = bufsize, rr_bound = [], rr_calls = [], rr_world = w\<rparr>"

definition rr_init :: "'w rr_env \<Rightarrow> 'w rr_dev \<Rightarrow> (int \<times> 'w rr_dev) option" where
  "rr_init K s =
     (let s = (if (word_of_int (rr_bufsize s) :: uint64) > RR_MAX_BUFSIZE
               then s\<lparr>rr_bufsize := c_int (uint RR_MAX_BUFSIZE)\<rparr> else s);
          s = s\<lparr>rr_dmabuf := k_vmalloc K (word_of_int (rr_bufsize s)) (rr_world s)\<rparr>
      in if rr_dmabuf s = None then Some (- ENOMEM, s)
         else let ret = k_misc_register K (rr_world s)
              in if ret < 0 then Some (ret, s)
                 else do {
                   let s = kcall Misc_register s;
                   let s = s\<lparr>rr_devsel := (rr_devsel s)\<lparr>ds_vendor := word_of_int (rr_vendor s),
                                ds_device := word_of_int (rr_device s),
                                ds_subvendor := RR_DEVSEL_UNUSED, ds_bus := RR_DEVSEL_UNUSED\<rparr>\<rparr>;
                   (ret, s) \<leftarrow> rr_fill_table_and_probe K s;
                   if ret < 0 then Some (ret, kcall Misc_deregister s) else Some (0, s) })"

definition rr_exit :: "'w rr_dev \<Rightarrow> 'w rr_dev option" where
  "rr_exit s =
     do { s \<leftarrow> pci_unregister_driver s;
          let s = kcall Misc_deregister s;
          Some (kcall Vfree (s\<lparr>rr_dmabuf := None\<rparr>)) }"

end
