(* ===== verification/RR_Safe.thy ===== *)
theory RR_Safe
  imports RR_Files
begin

text \<open>
  Safety of the driver \<^verbatim>\<open>rawrabbit\<close>. The runs of the module are an inductive relation: file operations of any process,
  interrupts, sleeping and waking threads, and the device writing to the DMA buffer, in any order. The invariant of
  the runs makes every access of \<^verbatim>\<open>read\<close>, \<^verbatim>\<open>write\<close> and \<^verbatim>\<open>ioctl\<close> stay inside the area it is meant for.
\<close>

unbundle bit_operations_syntax

section \<open>Kernel contract\<close>

text \<open>What the kernel documents: \<^verbatim>\<open>vmalloc\<close> returns whole pages and nothing for size 0, \<^verbatim>\<open>copy_from_user\<close> fills the
  destination. \<^verbatim>\<open>ioremap\<close> may fail and return a null pointer.\<close>

definition page_round :: "int \<Rightarrow> int" where
  "page_round n = (n + 4095) div 4096 * 4096"

definition rr_kernel_ok :: "'w rr_env \<Rightarrow> bool" where
  "rr_kernel_ok K \<longleftrightarrow>
     (\<forall>n w b. k_vmalloc K n w = Some b \<longrightarrow> n \<noteq> 0 \<and> int (length b) = page_round (uint n)) \<and>
     (\<forall>a n w. length (fst (k_from_user K a n w)) = n)"

text \<open>What the PCI specification says of the BARs that a device has: the size is a power of two, at least 16 bytes in
  memory and at least 4 bytes in the space of ports. A BAR that is absent has the address 0.\<close>

definition known_device :: "'w rr_env \<Rightarrow> pci_dev \<Rightarrow> bool" where
  "known_device K p \<longleftrightarrow> (\<exists>t w. p \<in> set (snd (k_pci_register K t w)))"

definition bar_size_ok :: "resource \<Rightarrow> bool" where
  "bar_size_ok r \<longleftrightarrow>
     (r_flags r AND IORESOURCE_MEM \<noteq> 0 \<longrightarrow> (\<exists>k \<ge> 4. uint (r_end r - r_start r + 1) = 2 ^ k)) \<and>
     (r_flags r AND IORESOURCE_IO \<noteq> 0 \<longrightarrow> (\<exists>k \<ge> 2. uint (r_end r - r_start r + 1) = 2 ^ k))"

definition pci_bars_ok :: "'w rr_env \<Rightarrow> bool" where
  "pci_bars_ok K \<longleftrightarrow> (\<forall>p. known_device K p \<longrightarrow>
     (\<forall>i < 3. r_start (pci_resource p ! (2 * i)) \<noteq> 0 \<longrightarrow> bar_size_ok (pci_resource p ! (2 * i))))"

section \<open>Invariant\<close>

text \<open>An area is the BAR of the device unless that is absent; a BAR in memory has the mapping that \<^verbatim>\<open>ioremap\<close> returned.\<close>

definition area_ok :: "'w rr_env \<Rightarrow> resource \<Rightarrow> resource option \<Rightarrow> uint64 \<Rightarrow> bool" where
  "area_ok K r a base \<longleftrightarrow>
     (if r_start r = 0 then a = None \<and> base = 0
      else a = Some r \<and>
        (if r_flags r AND IORESOURCE_MEM \<noteq> 0 then \<exists>w. base = k_ioremap K (r_start r) (r_end r + 1 - r_start r) w else base = 0))"

definition areas_ok :: "'w rr_env \<Rightarrow> 'w rr_dev \<Rightarrow> bool" where
  "areas_ok K s \<longleftrightarrow> length (rr_area s) = 3 \<and> length (rr_remap s) = 3 \<and>
     (case rr_pdev s of
        None \<Rightarrow> rr_area s = [None, None, None] \<and> rr_remap s = [0, 0, 0]
      | Some p \<Rightarrow> known_device K p \<and> (\<forall>i < 3. area_ok K (pci_resource p ! (2 * i)) (rr_area s ! i) (rr_remap s ! i)))"

definition bound_ok :: "'w rr_dev \<Rightarrow> bool" where
  "bound_ok s \<longleftrightarrow> rr_bound s = (case rr_pdev s of None \<Rightarrow> [] | Some p \<Rightarrow> [p])"

definition buffer_ok :: "'w rr_dev \<Rightarrow> bool" where
  "buffer_ok s \<longleftrightarrow> 0 < rr_bufsize s \<and> rr_bufsize s \<le> 2 ^ 21 \<and>
     rr_dmabuf s \<noteq> None \<and> int (length (the (rr_dmabuf s))) = page_round (rr_bufsize s)"

definition rr_inv :: "'w rr_env \<Rightarrow> 'w rr_dev \<Rightarrow> bool" where
  "rr_inv K s \<longleftrightarrow> areas_ok K s \<and> bound_ok s \<and> buffer_ok s"

section \<open>Runs\<close>

text \<open>Whether the handler is registered on an interrupt line, and how often the line is disabled, by the calls made.\<close>

fun handler_on :: "uint32 \<Rightarrow> kernel_call list \<Rightarrow> bool" where
  "handler_on i [] = False"
| "handler_on i (Request_irq j # cs) = (i = j \<or> handler_on i cs)"
| "handler_on i (Free_irq j # cs) = (i \<noteq> j \<and> handler_on i cs)"
| "handler_on i (_ # cs) = handler_on i cs"

fun irq_depth :: "uint32 \<Rightarrow> kernel_call list \<Rightarrow> nat" where
  "irq_depth i [] = 0"
| "irq_depth i (Disable_irq j # cs) = (if i = j then irq_depth i cs + 1 else irq_depth i cs)"
| "irq_depth i (Enable_irq j # cs) = (if i = j then irq_depth i cs - 1 else irq_depth i cs)"
| "irq_depth i (_ # cs) = irq_depth i cs"

text \<open>The second component of a configuration holds the counts that sleeping threads wait to change. The virtual file
  system passes positions and counts that are not negative as 64-bit integers.\<close>

definition file_args :: "int \<Rightarrow> uint64 \<Rightarrow> bool" where
  "file_args pos count \<longleftrightarrow> 0 \<le> pos \<and> pos < 2 ^ 63 \<and> uint count < 2 ^ 63"

inductive rr_step :: "'w rr_env \<Rightarrow> 'w rr_dev \<times> uint64 list \<Rightarrow> 'w rr_dev \<times> uint64 list \<Rightarrow> bool" for K where
  step_open: "rr_step K (s, q) (snd (rr_open s), q)"
| step_release: "rr_step K (s, q) (snd (rr_release s), q)"
| step_read: "file_args pos count \<Longrightarrow> rr_read K buf count pos s = Some (r, pos', s') \<Longrightarrow> rr_step K (s, q) (s', q)"
| step_write: "file_args pos count \<Longrightarrow> rr_write K buf count pos s = Some (r, pos', s') \<Longrightarrow> rr_step K (s, q) (s', q)"
| step_ioctl: "rr_ioctl K cmd arg s = Some (Return r s') \<Longrightarrow> rr_step K (s, q) (s', q)"
| step_sleep: "rr_ioctl K cmd arg s = Some (Sleep c s') \<Longrightarrow> rr_step K (s, q) (s', c # q)"
| step_wake: "c \<in> set q \<Longrightarrow> irqwait_resume K c s = Return r s' \<Longrightarrow> rr_step K (s, q) (s', remove1 c q)"
| step_interrupt: "handler_on irq (rr_calls s) \<Longrightarrow> irq_depth irq (rr_calls s) = 0 \<Longrightarrow>
    rr_step K (s, q) (rr_interrupt K irq s, q)"
| step_world: "rr_step K (s, q) (s\<lparr>rr_world := w\<rparr>, q)"
| step_dma: "rr_dmabuf s = Some b \<Longrightarrow> length b' = length b \<Longrightarrow> rr_step K (s, q) (s\<lparr>rr_dmabuf := Some b'\<rparr>, q)"

inductive rr_run :: "'w rr_env \<Rightarrow> 'w rr_dev \<times> uint64 list \<Rightarrow> bool" for K where
  run_init: "- (2 ^ 31) \<le> bufsize \<Longrightarrow> bufsize < 2 ^ 31 \<Longrightarrow>
    rr_init K (rr_dev_static vendor device bufsize w) = Some (0, s) \<Longrightarrow> rr_run K (s, [])"
| run_step: "rr_run K c \<Longrightarrow> rr_step K c c' \<Longrightarrow> rr_run K c'"

inductive_cases rr_stepE: "rr_step K (s, q) c"

section \<open>Positions\<close>

lemma c_int_small [simp]: "- (2 ^ 31) \<le> i \<Longrightarrow> i < 2 ^ 31 \<Longrightarrow> c_int i = i"
  by (simp add: c_int_def signed_take_bit_int_eq_self)

lemma RR_GET_OFF_mod: "RR_GET_OFF x = x mod 2 ^ 28"
proof -
  have "RR_GET_OFF x = take_bit 28 x"
    by (simp add: RR_GET_OFF_def take_bit_eq_mask mask_numeral)
  then show ?thesis by (simp add: take_bit_eq_mod)
qed

lemma RR_GET_OFF_range: "0 \<le> RR_GET_OFF x" "RR_GET_OFF x < 2 ^ 28"
  by (simp_all add: RR_GET_OFF_mod)

lemma c_int_off [simp]: "c_int (RR_GET_OFF x) = RR_GET_OFF x"
  using RR_GET_OFF_range [of x] by simp

lemma RR_GET_BAR_div: "RR_GET_BAR x = x div 2 ^ 28"
  by (simp add: RR_GET_BAR_def drop_bit_eq_div)

text \<open>A position that is not in the DMA buffer and passes the test of the BAR gives an index of the arrays.\<close>

lemma valid_index:
  assumes "rr_is_valid_bar (word_of_int pos)" "0 \<le> pos" "pos < 0xc0000000"
  shows "c_int (RR_GET_BAR pos sdiv 2) \<in> {0, 1, 2}"
proof -
  have u: "uint (word_of_int pos :: uint64) = pos"
    using assms by (simp add: uint_word_of_int take_bit_int_eq_self)
  have b: "0 \<le> RR_GET_BAR pos" "RR_GET_BAR pos < 12"
    using assms by (auto simp: RR_GET_BAR_div)
  have "RR_GET_BAR pos \<in> {0, 2, 4}"
    using assms(1) b unfolding rr_is_valid_bar_def u Let_def by auto
  then show ?thesis by (auto simp: signed_divide_int_def)
qed

lemma valid_index_u32:
  assumes "rr_is_valid_bar (ucast (a :: uint32))" "\<not> rr_is_dmabuf_bar (ucast a)"
  shows "RR_GET_BAR (uint a) div 2 \<in> {0, 1, 2}" "c_int (RR_GET_BAR (uint a) div 2) = RR_GET_BAR (uint a) div 2"
    "c_int (RR_GET_BAR (uint a)) = RR_GET_BAR (uint a)"
proof -
  have u: "uint (ucast a :: uint64) = uint a" by (simp add: uint_up_ucast is_up)
  have "uint a < 2 ^ 32" using uint_lt2p [of a] by simp
  then have "0 \<le> RR_GET_BAR (uint a)" "RR_GET_BAR (uint a) < 16" by (auto simp: RR_GET_BAR_div pos_imp_zdiv_nonneg_iff)
  then show "RR_GET_BAR (uint a) div 2 \<in> {0, 1, 2}" "c_int (RR_GET_BAR (uint a) div 2) = RR_GET_BAR (uint a) div 2"
    "c_int (RR_GET_BAR (uint a)) = RR_GET_BAR (uint a)"
    using assms unfolding rr_is_valid_bar_def rr_is_dmabuf_bar_def u Let_def by auto
qed

section \<open>Probing and removing keep the invariant\<close>

lemma probe_bar_frame [simp]:
  "rr_pdev (probe_bar K p i s) = rr_pdev s" "rr_bound (probe_bar K p i s) = rr_bound s"
  "rr_bufsize (probe_bar K p i s) = rr_bufsize s" "rr_dmabuf (probe_bar K p i s) = rr_dmabuf s"
  "length (rr_area (probe_bar K p i s)) = length (rr_area s)" "rr_calls (probe_bar K p i s) = rr_calls s"
  "rr_flags (probe_bar K p i s) = rr_flags s" "rr_irqcount (probe_bar K p i s) = rr_irqcount s"
  by (simp_all add: probe_bar_def Let_def)

lemma kcall_frame [simp]:
  "rr_pdev (kcall c s) = rr_pdev s" "rr_bound (kcall c s) = rr_bound s" "rr_bufsize (kcall c s) = rr_bufsize s"
  "rr_dmabuf (kcall c s) = rr_dmabuf s" "rr_area (kcall c s) = rr_area s" "rr_remap (kcall c s) = rr_remap s"
  "rr_calls (kcall c s) = c # rr_calls s" "rr_flags (kcall c s) = rr_flags s" "rr_world (kcall c s) = rr_world s"
  "rr_complete (kcall c s) = rr_complete s" "rr_irqcount (kcall c s) = rr_irqcount s"
  by (simp_all add: kcall_def)

lemma probe_irq_frame [simp]:
  "rr_pdev (probe_irq K p s) = rr_pdev s" "rr_bound (probe_irq K p s) = rr_bound s"
  "rr_bufsize (probe_irq K p s) = rr_bufsize s" "rr_dmabuf (probe_irq K p s) = rr_dmabuf s"
  "rr_area (probe_irq K p s) = rr_area s" "rr_remap (probe_irq K p s) = rr_remap s"
  by (simp_all add: probe_irq_def)

lemma below_3: "(\<forall>i < 3. P i) \<longleftrightarrow> P 0 \<and> P 1 \<and> P (2 :: nat)"
  by (auto simp: less_Suc_eq numeral_3_eq_3 numeral_2_eq_2)

lemma probe_bar_step:
  assumes "i < length (rr_area s)" "length (rr_remap s) = length (rr_area s)" "rr_area s ! i = None" "rr_remap s ! i = 0"
  shows "\<exists>a b. rr_area (probe_bar K p i s) = (rr_area s)[i := a] \<and> rr_remap (probe_bar K p i s) = (rr_remap s)[i := b] \<and>
    area_ok K (pci_resource p ! (2 * i)) a b"
proof -
  have "(rr_area s)[i := None] = rr_area s" "(rr_remap s)[i := 0] = rr_remap s" using assms by (metis list_update_id)+
  then show ?thesis
    by (cases "r_start (pci_resource p ! (2 * i)) = 0")
      (auto simp: probe_bar_def area_ok_def Let_def intro: exI [of _ None] exI [of _ 0])
qed

lemma probe_bars_areas:
  assumes "rr_area s = [None, None, None]" "rr_remap s = [0, 0, 0]"
    and s': "s' = probe_bar K p 2 (probe_bar K p 1 (probe_bar K p 0 s))"
  shows "length (rr_remap s') = 3 \<and> (\<forall>i < 3. area_ok K (pci_resource p ! (2 * i)) (rr_area s' ! i) (rr_remap s' ! i))"
proof -
  let ?s1 = "probe_bar K p 0 s" and ?s2 = "probe_bar K p 1 (probe_bar K p 0 s)"
  obtain a x where 1: "rr_area ?s1 = [a, None, None]" "rr_remap ?s1 = [x, 0, 0]" "area_ok K (pci_resource p ! (2 * 0)) a x"
    using probe_bar_step [of 0 s K p] assms(1,2) by auto
  obtain b y where 2: "rr_area ?s2 = [a, b, None]" "rr_remap ?s2 = [x, y, 0]" "area_ok K (pci_resource p ! (2 * 1)) b y"
    using probe_bar_step [of 1 ?s1 K p] 1 by auto
  obtain c z where 3: "rr_area s' = [a, b, c]" "rr_remap s' = [x, y, z]" "area_ok K (pci_resource p ! (2 * 2)) c z"
    using probe_bar_step [of 2 ?s2 K p] 2 assms(1) unfolding s' by (auto simp: numeral_2_eq_2)
  show ?thesis using 1(3) 2(3) 3 unfolding below_3 by simp
qed

lemma rr_pciprobe_inv:
  assumes "rr_pciprobe K p s = (r, s')" "rr_inv K s" "known_device K p"
  shows "rr_inv K (if r = 0 then s'\<lparr>rr_bound := p # rr_bound s'\<rparr> else s')"
proof (cases "r = 0")
  case True
  define t where "t = (let s = probe_irq K p (s\<lparr>rr_pdev := Some p\<rparr>) in s\<lparr>rr_complete := rr_complete s + 1\<rparr>)"
  have none: "rr_pdev s = None" and s': "s' = probe_bar K p 2 (probe_bar K p 1 (probe_bar K p 0 t))"
    using assms(1) True by (auto simp: rr_pciprobe_def Let_def t_def split: if_splits)
  have t: "rr_area t = rr_area s" "rr_remap t = rr_remap s" "rr_bound t = rr_bound s" "rr_pdev t = Some p"
    "rr_bufsize t = rr_bufsize s" "rr_dmabuf t = rr_dmabuf s"
    by (simp_all add: t_def Let_def)
  have s: "rr_area s = [None, None, None]" "rr_remap s = [0, 0, 0]" "rr_bound s = []" "buffer_ok s"
    using assms(2) none by (auto simp: rr_inv_def areas_ok_def bound_ok_def)
  have "length (rr_remap s') = 3 \<and> (\<forall>i < 3. area_ok K (pci_resource p ! (2 * i)) (rr_area s' ! i) (rr_remap s' ! i))"
    by (rule probe_bars_areas [OF _ _ s']) (use s t in simp_all)
  moreover have "rr_pdev s' = Some p" "rr_bound s' = []" "length (rr_area s') = 3" "buffer_ok s'"
    using s t by (simp_all add: s' buffer_ok_def)
  ultimately show ?thesis
    using True assms(3) by (simp add: rr_inv_def areas_ok_def bound_ok_def buffer_ok_def)
next
  case False
  then have "s' = s" using assms(1) by (auto simp: rr_pciprobe_def Let_def split: if_splits)
  then show ?thesis using assms(2) False by simp
qed

lemma pci_probe_all_inv: "rr_inv K s \<Longrightarrow> (\<And>p. p \<in> set ps \<Longrightarrow> known_device K p) \<Longrightarrow> rr_inv K (pci_probe_all K ps s)"
proof (induction ps arbitrary: s)
  case Nil
  then show ?case by simp
next
  case (Cons p ps)
  obtain r s' where "rr_pciprobe K p s = (r, s')" by fastforce
  with Cons rr_pciprobe_inv [OF this Cons.prems(1)] show ?case by simp
qed

lemma rr_inv_cong:
  "rr_area t = rr_area s \<Longrightarrow> rr_remap t = rr_remap s \<Longrightarrow> rr_bound t = rr_bound s \<Longrightarrow> rr_pdev t = rr_pdev s \<Longrightarrow>
   rr_bufsize t = rr_bufsize s \<Longrightarrow> rr_dmabuf t = rr_dmabuf s \<Longrightarrow> rr_inv K t = rr_inv K s"
  by (simp add: rr_inv_def areas_ok_def bound_ok_def buffer_ok_def split: option.split)

lemma rr_inv_kcall [simp]: "rr_inv K (kcall c s) = rr_inv K s"
  by (rule rr_inv_cong) simp_all

lemma rr_inv_irrelevant [simp]:
  "rr_inv K (s\<lparr>rr_world := w\<rparr>) = rr_inv K s" "rr_inv K (s\<lparr>rr_flags := f\<rparr>) = rr_inv K s"
  "rr_inv K (s\<lparr>rr_complete := c\<rparr>) = rr_inv K s" "rr_inv K (s\<lparr>rr_id_table := i\<rparr>) = rr_inv K s"
  "rr_inv K (s\<lparr>rr_devsel := d\<rparr>) = rr_inv K s" "rr_inv K (s\<lparr>rr_usecount := n\<rparr>) = rr_inv K s"
  "rr_inv K (s\<lparr>rr_irqtime := t\<rparr>) = rr_inv K s" "rr_inv K (s\<lparr>rr_irqcount := c'\<rparr>) = rr_inv K s"
  by (rule rr_inv_cong; simp)+

lemma rr_inv_dmabuf:
  "rr_inv K s \<Longrightarrow> rr_dmabuf s = Some b \<Longrightarrow> length b' = length b \<Longrightarrow> rr_inv K (s\<lparr>rr_dmabuf := Some b'\<rparr>)"
  by (simp add: rr_inv_def areas_ok_def bound_ok_def buffer_ok_def split: option.splits)

lemma pci_register_inv:
  assumes "pci_register_driver K s = (r, s')" "rr_inv K s"
  shows "rr_inv K s'"
proof -
  obtain r' ps where ps: "k_pci_register K (rr_id_table s) (rr_world s) = (r', ps)" by fastforce
  have "known_device K p" if "p \<in> set ps" for p using ps that unfolding known_device_def by (metis snd_conv)
  with assms ps show ?thesis by (auto simp: pci_register_driver_def intro!: pci_probe_all_inv)
qed

text \<open>The two interrupt flags are the same bit, so that the test for a disabled interrupt never succeeds here.\<close>

lemma remove_irq_returns:
  "remove_irq p s = Some (if rr_flags s AND 2 \<noteq> 0
     then kcall (Free_irq (pci_irq p)) s\<lparr>rr_flags := rr_flags s AND NOT 2\<rparr> else s)"
  by (simp add: remove_irq_def Let_def and.assoc)

lemma rr_pciremove_returns:
  assumes "rr_inv K s" "rr_bound s = [p]"
  shows "\<exists>s'. rr_pciremove p s = Some s' \<and> rr_inv K (s'\<lparr>rr_bound := []\<rparr>)"
proof -
  have "length (rr_area s) = 3" "length (rr_remap s) = 3"
    using assms(1) by (simp_all add: rr_inv_def areas_ok_def)
  then obtain a b c x y z where "rr_area s = [a, b, c]" "rr_remap s = [x, y, z]"
    by (auto simp: length_Suc_conv numeral_3_eq_3)
  with assms(1) show ?thesis
    by (simp add: rr_pciremove_def remove_irq_returns remove_bar_def Let_def rr_inv_def areas_ok_def bound_ok_def
        buffer_ok_def numeral_2_eq_2)
qed

lemma pci_unregister_returns: "rr_inv K s \<Longrightarrow> \<exists>s'. pci_unregister_driver s = Some s' \<and> rr_inv K s'"
proof -
  assume inv: "rr_inv K s"
  show ?thesis
  proof (cases "rr_pdev s")
    case None
    with inv have "rr_bound s = []" by (simp add: rr_inv_def bound_ok_def)
    moreover from this have "rr_inv K (s\<lparr>rr_bound := []\<rparr>)"
      using inv rr_inv_cong [of "s\<lparr>rr_bound := []\<rparr>" s] by simp
    ultimately show ?thesis using inv by (simp add: pci_unregister_driver_def)
  next
    case (Some p)
    with inv have b: "rr_bound s = [p]" by (simp add: rr_inv_def bound_ok_def)
    from rr_pciremove_returns [OF inv b] b show ?thesis by (auto simp: pci_unregister_driver_def)
  qed
qed

lemma fill_and_probe_returns:
  assumes "rr_inv K s"
  shows "\<exists>r s'. rr_fill_table_and_probe K s = Some (r, s') \<and> rr_inv K s'"
proof -
  obtain t where t: "(if rr_flags s AND RR_FLAG_REGISTERED \<noteq> 0
                then do { s \<leftarrow> pci_unregister_driver s;
                          Some (s\<lparr>rr_flags := rr_flags s AND NOT RR_FLAG_REGISTERED\<rparr>) }
                else Some s) = Some t" and inv: "rr_inv K t"
    using pci_unregister_returns [OF assms] assms by (cases "rr_flags s AND RR_FLAG_REGISTERED = 0") auto
  have "rr_inv K ((rr_fill_table t)\<lparr>rr_complete := 0\<rparr>)" using inv by (simp add: rr_fill_table_def Let_def)
  then obtain r s' where "pci_register_driver K ((rr_fill_table t)\<lparr>rr_complete := 0\<rparr>) = (r, s')" "rr_inv K s'"
    using pci_register_inv by (metis surj_pair)
  then show ?thesis using t by (simp add: rr_fill_table_and_probe_def Let_def)
qed

section \<open>Accesses stay inside\<close>

lemma page_round_ge: "n \<le> page_round n"
  by (simp add: page_round_def)

lemma page_round_dvd: "n \<in> {1, 2, 4, 8} \<Longrightarrow> int n dvd page_round m"
  unfolding page_round_def by (intro dvd_mult) auto

lemma uint_off: "uint (word_of_int (RR_GET_OFF x) :: uint64) = RR_GET_OFF x"
  using RR_GET_OFF_range [of x] by (simp add: uint_word_of_int take_bit_int_eq_self)

text \<open>An aligned access that starts inside an area, of a multiple of its size, ends inside of it.\<close>

lemma aligned_fits:
  assumes "(off :: int) < sz" "int n dvd sz" "off mod int n = 0"
  shows "off + int n \<le> sz"
proof -
  have "int n dvd sz - off" using assms(2,3) by (simp add: dvd_diff mod_eq_0_iff_dvd)
  then show ?thesis using assms(1) zdvd_imp_le [of "int n" "sz - off"] by simp
qed

lemma and_low_bits: "(off :: int) AND 1 = off mod 2" "off AND 3 = off mod 4" "off AND 7 = off mod 8"
  using take_bit_eq_mask [of 1 off] take_bit_eq_mask [of 2 off] take_bit_eq_mask [of 3 off]
  by (simp_all add: take_bit_eq_mod mask_numeral mask_Suc_0)

lemma switch_datasizeI:
  assumes "\<And>e. P (fail e)" "\<And>n. n \<in> {1, 2, 4, 8} \<Longrightarrow> d = word_of_nat n \<Longrightarrow> off mod int n = 0 \<Longrightarrow> P (act n)"
  shows "P (switch_datasize d off fail act)"
  using assms(1) assms(2) [of 1] assms(2) [of 2] assms(2) [of 4] assms(2) [of 8]
  by (simp add: switch_datasize_def and_low_bits)

text \<open>The commands that access something the driver does not own: one for a BAR in memory that \<^verbatim>\<open>ioremap\<close> could not map,
  and one for 8 bytes of 4 ports.\<close>

definition iocmd_faults :: "rr_iocmd \<Rightarrow> 'w rr_dev \<Rightarrow> bool" where
  "iocmd_faults io s \<longleftrightarrow> (\<exists>r.
     at_index (rr_area s) (RR_GET_BAR (uint (io_address io)) div 2) = Some (Some r) \<and>
     (if r_flags r AND IORESOURCE_MEM \<noteq> 0 then at_index (rr_remap s) (RR_GET_BAR (uint (io_address io)) div 2) = Some 0
      else uint (r_end r - r_start r + 1) = 4 \<and> io_datasize io = 8))"

text \<open>The result of a command that keeps the invariant, and faults only under a condition.\<close>

definition returns_ok :: "'w rr_env \<Rightarrow> bool \<Rightarrow> 'w rr_result \<Rightarrow> bool" where
  "returns_ok K fault res \<longleftrightarrow> (case res of None \<Rightarrow> fault | Some (r, io, s') \<Rightarrow> rr_inv K s')"

lemma returns_okI [intro]: "rr_inv K s \<Longrightarrow> returns_ok K fault (Some (r, io, s))" "fault \<Longrightarrow> returns_ok K fault None"
  by (simp_all add: returns_ok_def)

lemma area_at:
  assumes "rr_inv K s" "bar \<in> {0, 1, 2}"
  shows "\<exists>a base. at_index (rr_area s) bar = Some a \<and> at_index (rr_remap s) bar = Some base \<and>
    (case a of None \<Rightarrow> base = 0 | Some r \<Rightarrow> pci_bars_ok K \<longrightarrow> bar_size_ok r)"
proof -
  have len: "length (rr_area s) = 3" "length (rr_remap s) = 3" and idx: "nat bar < 3" "0 \<le> bar" "bar < 3"
    using assms by (auto simp: rr_inv_def areas_ok_def)
  have "case rr_area s ! nat bar of None \<Rightarrow> rr_remap s ! nat bar = 0 | Some r \<Rightarrow> pci_bars_ok K \<longrightarrow> bar_size_ok r"
  proof (cases "rr_pdev s")
    case None
    then show ?thesis using assms by (auto simp: rr_inv_def areas_ok_def)
  next
    case (Some p)
    then have "known_device K p" "area_ok K (pci_resource p ! (2 * nat bar)) (rr_area s ! nat bar) (rr_remap s ! nat bar)"
      using assms(1) idx(1) by (auto simp: rr_inv_def areas_ok_def)
    then show ?thesis using idx(1) by (auto simp: area_ok_def pci_bars_ok_def split: if_splits)
  qed
  then show ?thesis using len idx by (simp add: at_index_def)
qed

text \<open>With sizes as in the specification, an access that passes the checks is inside, up to 8 bytes of 4 ports.\<close>

lemma bar_inside:
  assumes "bar_size_ok r" "0 \<le> off" "off < uint (r_end r - r_start r + 1)" "n \<in> {1, 2, 4, 8}" "off mod int n = 0"
  shows "r_flags r AND IORESOURCE_MEM \<noteq> 0 \<Longrightarrow> io_inside r off n"
    and "r_flags r AND IORESOURCE_IO \<noteq> 0 \<Longrightarrow> io_inside r off n \<or> n = 8 \<and> uint (r_end r - r_start r + 1) = 4"
proof -
  have inside: "io_inside r off n" if "int n dvd uint (r_end r - r_start r + 1)"
    using aligned_fits [OF assms(3) that assms(5)] assms(2) by (simp add: io_inside_def)
  have pow: "int n dvd 2 ^ k" if "3 \<le> k \<or> n \<noteq> 8 \<and> 2 \<le> k" for k
  proof -
    have "\<exists>j \<le> k. int n = 2 ^ j"
      using that assms(4) by (auto intro: exI [of _ 0] exI [of _ 1] exI [of _ 2] exI [of _ 3])
    then show ?thesis by (auto intro: le_imp_power_dvd)
  qed
  show "io_inside r off n" if "r_flags r AND IORESOURCE_MEM \<noteq> 0"
    using assms(1) that pow by (auto simp: bar_size_ok_def intro!: inside)
  assume "r_flags r AND IORESOURCE_IO \<noteq> 0"
  then obtain k where k: "2 \<le> k" "uint (r_end r - r_start r + 1) = 2 ^ k" using assms(1) by (auto simp: bar_size_ok_def)
  show "io_inside r off n \<or> n = 8 \<and> uint (r_end r - r_start r + 1) = 4"
  proof (cases "k = 2 \<and> n = 8")
    case False
    then have "int n dvd 2 ^ k" using k(1) by (intro pow) auto
    then show ?thesis using inside k(2) by simp
  qed (use k in simp)
qed

text \<open>The frame that the four helpers share: they fetch the area, check the offset and switch over the size.\<close>

lemma area_access_ok:
  assumes "rr_inv K s" "at_index (rr_area s) bar = Some (Some r)" and off: "off = RR_GET_OFF a"
    and act: "\<And>n. n \<in> {1, 2, 4, 8} \<Longrightarrow> d = word_of_nat n \<Longrightarrow> off mod int n = 0 \<Longrightarrow> 0 \<le> off \<Longrightarrow>
      off < uint (r_end r - r_start r + 1) \<Longrightarrow> returns_ok K fault (act r n)"
  shows "returns_ok K fault (do { ra \<leftarrow> at_index (rr_area s) bar; r \<leftarrow> ra;
           if (word_of_int off :: uint64) \<ge> r_end r - r_start r + 1 then Some (e, io, s)
           else switch_datasize d off (\<lambda>e. Some (e, io, s)) (act r) })"
proof (cases "(word_of_int off :: uint64) \<ge> r_end r - r_start r + 1")
  case True
  then show ?thesis using assms(1,2) by auto
next
  case False
  then have "off < uint (r_end r - r_start r + 1)" by (simp add: off word_le_def uint_off)
  then have "returns_ok K fault (switch_datasize d off (\<lambda>e. Some (e, io, s)) (act r))"
    using assms(1) act RR_GET_OFF_range(1) [of a] unfolding off
    by (intro switch_datasizeI [where P = "returns_ok K fault"]) auto
  then show ?thesis using False assms(2) by simp
qed

lemma area_helpers_ok:
  assumes inv: "rr_inv K s" and idx: "c_int (RR_GET_BAR (uint (io_address io)) div 2) = RR_GET_BAR (uint (io_address io)) div 2"
    and r: "at_index (rr_area s) (RR_GET_BAR (uint (io_address io)) div 2) = Some (Some r)" "pci_bars_ok K \<longrightarrow> bar_size_ok r"
    and base: "at_index (rr_remap s) (RR_GET_BAR (uint (io_address io)) div 2) = Some base"
  defines "fault \<equiv> \<not> pci_bars_ok K \<or> iocmd_faults io s"
  shows "r_flags r AND IORESOURCE_MEM \<noteq> 0 \<Longrightarrow>
      returns_ok K fault (rr_do_read_mem K io s) \<and> returns_ok K fault (rr_do_write_mem K io s)"
    and "r_flags r AND IORESOURCE_MEM = 0 \<Longrightarrow> r_flags r AND IORESOURCE_IO \<noteq> 0 \<Longrightarrow>
      returns_ok K fault (rr_do_read_io K io s) \<and> returns_ok K fault (rr_do_write_io K io s)"
proof -
  note access = area_access_ok [OF inv r(1) refl]
  let ?off = "RR_GET_OFF (uint (io_address io))"
  show "returns_ok K fault (rr_do_read_mem K io s) \<and> returns_ok K fault (rr_do_write_mem K io s)"
    if mem: "r_flags r AND IORESOURCE_MEM \<noteq> 0"
  proof -
    have ok: "mem_inside base r ?off n \<or> fault"
      if "n \<in> {1, 2, 4, 8}" "?off mod int n = 0" "0 \<le> ?off" "?off < uint (r_end r - r_start r + 1)" for n
      using bar_inside(1) [OF _ that(3,4,1,2) mem] r base mem by (auto simp: mem_inside_def fault_def iocmd_faults_def)
    have act: "returns_ok K fault (do { base \<leftarrow> at_index (rr_remap s) (RR_GET_BAR (uint (io_address io)) div 2);
        if mem_inside base r ?off n then f base else None })"
      if "n \<in> {1, 2, 4, 8}" "?off mod int n = 0" "0 \<le> ?off" "?off < uint (r_end r - r_start r + 1)"
        "returns_ok K fault (f base)" for n f
      using ok [OF that(1-4)] that(5) base by (auto simp: returns_okI(2))
    show ?thesis
      unfolding rr_do_read_mem_def rr_do_write_mem_def Let_def idx c_int_off
      by (intro conjI access act; (assumption | simp add: inv returns_okI(1) split: prod.split))
  qed
  show "returns_ok K fault (rr_do_read_io K io s) \<and> returns_ok K fault (rr_do_write_io K io s)"
    if io: "r_flags r AND IORESOURCE_MEM = 0" "r_flags r AND IORESOURCE_IO \<noteq> 0"
  proof -
    have ok: "io_inside r ?off n \<or> fault"
      if "n \<in> {1, 2, 4, 8}" "io_datasize io = word_of_nat n" "?off mod int n = 0" "0 \<le> ?off"
        "?off < uint (r_end r - r_start r + 1)" for n
      using bar_inside(2) [OF _ that(4,5,1,3) io(2)] r io(1) that(2) by (auto simp: fault_def iocmd_faults_def)
    have act: "returns_ok K fault (if io_inside r ?off n then v else None)"
      if "n \<in> {1, 2, 4, 8}" "io_datasize io = word_of_nat n" "?off mod int n = 0" "0 \<le> ?off"
        "?off < uint (r_end r - r_start r + 1)" "returns_ok K fault v" for n v
      using ok [OF that(1-5)] that(6) by (auto simp: returns_okI(2))
    show ?thesis
      unfolding rr_do_read_io_def rr_do_write_io_def Let_def idx c_int_off
      by (intro conjI access act; (assumption | simp add: inv returns_okI(1) split: prod.split))
  qed
qed

text \<open>The DMA buffer.\<close>

lemma dma_load_inside:
  "rr_dmabuf s = Some b \<Longrightarrow> 0 \<le> off \<Longrightarrow> nat off + n \<le> length b \<Longrightarrow> dma_load off n s = Some (take n (drop (nat off) b))"
  by (simp add: dma_load_def)

lemma dma_store_inside:
  assumes "rr_inv K s" "0 \<le> off" "off + int (length bs) \<le> page_round (rr_bufsize s)"
  shows "\<exists>s'. dma_store off bs s = Some s' \<and> rr_inv K s'"
proof -
  obtain b where b: "rr_dmabuf s = Some b" "int (length b) = page_round (rr_bufsize s)"
    using assms(1) by (auto simp: rr_inv_def buffer_ok_def)
  with assms have len: "nat off + length bs \<le> length b" by linarith
  moreover have "rr_inv K (s\<lparr>rr_dmabuf := Some (take (nat off) b @ bs @ drop (nat off + length bs) b)\<rparr>)"
    using len by (intro rr_inv_dmabuf [OF assms(1) b(1)]) simp
  ultimately show ?thesis using b assms(2) by (simp add: dma_store_def)
qed

lemma dma_load_ok:
  assumes "rr_inv K s" "0 \<le> off" "off + int n \<le> page_round (rr_bufsize s)"
  shows "\<exists>bs. dma_load off n s = Some bs \<and> length bs = n"
proof -
  obtain b where b: "rr_dmabuf s = Some b" "int (length b) = page_round (rr_bufsize s)"
    using assms(1) by (auto simp: rr_inv_def buffer_ok_def)
  with assms have "nat off + n \<le> length b" by linarith
  with b assms(2) show ?thesis by (simp add: dma_load_def)
qed

lemma iocmd_dmabuf_ok: "rr_inv K s \<Longrightarrow> returns_ok K fault (rr_do_iocmd_dmabuf cmd io s)"
proof -
  assume inv: "rr_inv K s"
  let ?off = "RR_GET_OFF (uint (io_address io))"
  show ?thesis
  proof (cases "?off \<ge> rr_bufsize s")
    case True
    then show ?thesis using inv by (auto simp: rr_do_iocmd_dmabuf_def)
  next
    case False
    with page_round_ge [of "rr_bufsize s"] have "?off < page_round (rr_bufsize s)" by simp
    then have fits: "?off + int n \<le> page_round (rr_bufsize s)"
      if "n \<in> {1, 2, 4, 8}" "?off mod int n = 0" for n using page_round_dvd that by (intro aligned_fits)
    have "returns_ok K fault (if cmd = RR_WRITE
        then do { s \<leftarrow> dma_store ?off (le_bytes n (get_data n io)) s; Some (0, io, s) }
        else do { bs \<leftarrow> dma_load ?off n s; Some (0, set_data n (of_le bs) io, s) })"
      if n: "n \<in> {1, 2, 4, 8}" "?off mod int n = 0" for n
    proof -
      obtain s' where "dma_store ?off (le_bytes n (get_data n io)) s = Some s'" "rr_inv K s'"
        using dma_store_inside [OF inv RR_GET_OFF_range(1), where bs = "le_bytes n (get_data n io)"] fits [OF n] by auto
      moreover obtain bs where "dma_load ?off n s = Some bs"
        using dma_load_ok [OF inv RR_GET_OFF_range(1) fits [OF n]] by auto
      ultimately show ?thesis using inv by (simp add: returns_okI)
    qed
    then have "returns_ok K fault (switch_datasize (io_datasize io) ?off (\<lambda>e. Some (e, io, s))
        (\<lambda>n. if cmd = RR_WRITE
             then do { s \<leftarrow> dma_store ?off (le_bytes n (get_data n io)) s; Some (0, io, s) }
             else do { bs \<leftarrow> dma_load ?off n s; Some (0, set_data n (of_le bs) io, s) }))"
      by (intro switch_datasizeI [where P = "returns_ok K fault"] returns_okI(1) inv)
    then show ?thesis
      unfolding rr_do_iocmd_dmabuf_def Let_def c_int_off using False by simp
  qed
qed

lemma rr_do_iocmd_ok: "rr_inv K s \<Longrightarrow> returns_ok K (\<not> pci_bars_ok K \<or> iocmd_faults io s) (rr_do_iocmd K cmd io s)"
proof -
  assume inv: "rr_inv K s"
  let ?bar = "RR_GET_BAR (uint (io_address io))"
  show ?thesis
  proof (cases "rr_is_valid_bar (ucast (io_address io)) \<and> \<not> rr_is_dmabuf_bar (ucast (io_address io))")
    case True
    then have idx: "?bar div 2 \<in> {0, 1, 2}" "c_int (?bar div 2) = ?bar div 2" "c_int ?bar = ?bar"
      using valid_index_u32 [of "io_address io"] by blast+
    from idx(1) area_at [OF inv] obtain a base where
      a: "at_index (rr_area s) (?bar div 2) = Some a" "at_index (rr_remap s) (?bar div 2) = Some base"
        "case a of None \<Rightarrow> base = 0 | Some r \<Rightarrow> pci_bars_ok K \<longrightarrow> bar_size_ok r" by blast
    show ?thesis
    proof (cases a)
      case None
      then show ?thesis using True a idx(3) inv by (auto simp: rr_do_iocmd_def)
    next
      case (Some r)
      with a area_helpers_ok [OF inv idx(2), of r base] True idx(3) inv show ?thesis
        by (auto simp: rr_do_iocmd_def)
    qed
  next
    case False
    then show ?thesis using inv iocmd_dmabuf_ok by (auto simp: rr_do_iocmd_def Let_def)
  qed
qed

section \<open>read and write\<close>

text \<open>The count is cut off at the end of the area; without overflow, this is a minimum.\<close>

lemma cut_count:
  assumes "0 \<le> off" "off < sz" "sz < 2 ^ 31" "uint count < 2 ^ 63"
  shows "uint (if count + word_of_int off > (word_of_int sz :: uint64) then word_of_int (sz - off) else count)
         = min (uint count) (sz - off)"
proof -
  have u: "uint (word_of_int x :: uint64) = x" if "0 \<le> x" "x < 2 ^ 63" for x
    using that by (simp add: uint_word_of_int take_bit_int_eq_self)
  have "uint (count + word_of_int off) = uint count + off"
    using assms u [of off] by (simp add: uint_word_ariths(1))
  then show ?thesis
    using assms u [of sz] u [of "sz - off"] by (simp add: word_less_def min_def)
qed

definition file_ok :: "'w rr_env \<Rightarrow> (int \<times> int \<times> 'w rr_dev) option \<Rightarrow> bool" where
  "file_ok K res \<longleftrightarrow> (\<exists>r pos s'. res = Some (r, pos, s') \<and> rr_inv K s')"

lemma file_okI [intro]: "rr_inv K s \<Longrightarrow> file_ok K (Some (r, pos, s))"
  by (simp add: file_ok_def)

text \<open>Accesses of at most the size computed for an area are inside of it.\<close>

lemma mem_inside_cut:
  assumes "0 \<le> off" "off < c_int (uint (r_end r + 1 - r_start r))" "base \<noteq> 0"
    and "int n \<le> c_int (uint (r_end r + 1 - r_start r)) - off"
  shows "mem_inside base r off n"
proof -
  let ?u = "uint (r_end r + 1 - r_start r)"
  have "- (2 ^ 31) \<le> (0 :: int)" by simp
  also have "0 \<le> ?u" by simp
  finally have "- (2 ^ 31) \<le> ?u" .
  then have "c_int ?u \<le> ?u" by (simp add: c_int_def signed_take_bit_int_less_eq_self_iff)
  moreover have eq: "r_end r - r_start r + 1 = r_end r + 1 - r_start r" by simp
  ultimately show ?thesis using assms unfolding mem_inside_def io_inside_def eq by linarith
qed

text \<open>The two branches of \<^verbatim>\<open>rr_read\<close> and \<^verbatim>\<open>rr_write\<close>: for the DMA buffer the count that is left fits, for a BAR the
  access is inside of a mapped area.\<close>

lemma dma_count:
  assumes "rr_inv K s" "RR_GET_OFF pos < rr_bufsize s" "file_args pos count"
    and "n = unat (if word_of_int (RR_GET_OFF pos) + count > (word_of_int (rr_bufsize s) :: uint64)
                   then word_of_int (rr_bufsize s - RR_GET_OFF pos) else count)"
  shows "int n = min (uint count) (rr_bufsize s - RR_GET_OFF pos)" "RR_GET_OFF pos + int n \<le> page_round (rr_bufsize s)"
proof -
  have "rr_bufsize s < 2 ^ 31" using assms(1) by (simp add: rr_inv_def buffer_ok_def)
  with cut_count [OF RR_GET_OFF_range(1) assms(2), of count] assms(3,4)
  show eq: "int n = min (uint count) (rr_bufsize s - RR_GET_OFF pos)"
    by (simp add: file_args_def add.commute)
  show "RR_GET_OFF pos + int n \<le> page_round (rr_bufsize s)"
    unfolding eq using page_round_ge [of "rr_bufsize s"] by linarith
qed

lemma bar_count:
  assumes "RR_GET_OFF pos < c_int (uint (r_end r + 1 - r_start r))" "base \<noteq> 0" "file_args pos count"
  shows "mem_inside base r (RR_GET_OFF pos)
    (unat (if count + word_of_int (RR_GET_OFF pos) > (word_of_int (c_int (uint (r_end r + 1 - r_start r))) :: uint64)
           then word_of_int (c_int (uint (r_end r + 1 - r_start r)) - RR_GET_OFF pos) else count))"
proof -
  have "c_int (uint (r_end r + 1 - r_start r)) < 2 ^ 31" unfolding c_int_def by (rule signed_take_bit_int_less_exp)
  from cut_count [OF RR_GET_OFF_range(1) assms(1) this, of count] assms(3) show ?thesis
    by (intro mem_inside_cut RR_GET_OFF_range(1) assms(1,2)) (simp add: file_args_def)
qed

lemma bar_at:
  assumes "rr_inv K s" "rr_is_valid_bar (word_of_int pos)" "\<not> RR_IS_DMABUF pos" "file_args pos count"
  shows "\<exists>base. at_index (rr_remap s) (c_int (RR_GET_BAR pos sdiv 2)) = Some base \<and>
    (base \<noteq> 0 \<longrightarrow> (\<exists>r. at_index (rr_area s) (c_int (RR_GET_BAR pos sdiv 2)) = Some (Some r)))"
proof -
  have "c_int (RR_GET_BAR pos sdiv 2) \<in> {0, 1, 2}"
    using assms by (intro valid_index) (auto simp: RR_IS_DMABUF_def file_args_def)
  from area_at [OF assms(1) this] obtain a base where
    "at_index (rr_area s) (c_int (RR_GET_BAR pos sdiv 2)) = Some a"
    "at_index (rr_remap s) (c_int (RR_GET_BAR pos sdiv 2)) = Some base"
    "case a of None \<Rightarrow> base = 0 | Some r \<Rightarrow> pci_bars_ok K \<longrightarrow> bar_size_ok r" by blast
  then show ?thesis by (cases a) auto
qed

text \<open>The case distinction that both functions make.\<close>

lemma file_cases [consumes 2, case_names invalid eof dma unmapped beyond bar]:
  assumes inv: "rr_inv K s" and args: "file_args pos count"
  obtains "\<not> rr_is_valid_bar (word_of_int pos)"
  | "rr_is_valid_bar (word_of_int pos)" "RR_IS_DMABUF pos" "rr_bufsize s \<le> RR_GET_OFF pos"
  | "rr_is_valid_bar (word_of_int pos)" "RR_IS_DMABUF pos" "RR_GET_OFF pos < rr_bufsize s"
  | "rr_is_valid_bar (word_of_int pos)" "\<not> RR_IS_DMABUF pos"
      "at_index (rr_remap s) (c_int (RR_GET_BAR pos sdiv 2)) = Some 0"
  | base r where "rr_is_valid_bar (word_of_int pos)" "\<not> RR_IS_DMABUF pos" "base \<noteq> 0"
      "at_index (rr_remap s) (c_int (RR_GET_BAR pos sdiv 2)) = Some base"
      "at_index (rr_area s) (c_int (RR_GET_BAR pos sdiv 2)) = Some (Some r)"
      "c_int (uint (r_end r + 1 - r_start r)) \<le> RR_GET_OFF pos"
  | base r where "rr_is_valid_bar (word_of_int pos)" "\<not> RR_IS_DMABUF pos" "base \<noteq> 0"
      "at_index (rr_remap s) (c_int (RR_GET_BAR pos sdiv 2)) = Some base"
      "at_index (rr_area s) (c_int (RR_GET_BAR pos sdiv 2)) = Some (Some r)"
      "RR_GET_OFF pos < c_int (uint (r_end r + 1 - r_start r))"
  using bar_at [OF inv _ _ args] by (metis linorder_not_le)

lemma rr_read_ok:
  assumes inv: "rr_inv K s" and args: "file_args pos count"
  shows "file_ok K (rr_read K buf count pos s)"
  using inv args
proof (cases rule: file_cases)
  case dma
  from dma_load_ok [OF inv RR_GET_OFF_range(1) dma_count(2) [OF inv dma(3) args refl]]
  show ?thesis using dma inv by (auto simp: rr_read_def Let_def file_okI split: prod.split)
next
  case (bar base r)
  note inside = bar_count [OF bar(6) bar(3) args]
  show ?thesis using bar inside inv by (simp add: rr_read_def Let_def file_okI split: prod.split)
qed (use inv in \<open>simp_all add: rr_read_def Let_def file_okI\<close>)

lemma rr_write_ok:
  assumes inv: "rr_inv K s" and args: "file_args pos count" and K: "rr_kernel_ok K"
  shows "file_ok K (rr_write K buf count pos s)"
  using inv args
proof (cases rule: file_cases)
  case dma
  define n where "n = unat (if word_of_int (RR_GET_OFF pos) + count > (word_of_int (rr_bufsize s) :: uint64)
                   then word_of_int (rr_bufsize s - RR_GET_OFF pos) else count)"
  obtain bs left where bs: "k_from_user K buf n (rr_world s) = (bs, left)" by fastforce
  moreover have "length (fst (k_from_user K buf n (rr_world s))) = n" using K by (simp add: rr_kernel_ok_def)
  ultimately have "RR_GET_OFF pos + int (length bs) \<le> page_round (rr_bufsize s)"
    using dma_count(2) [OF inv dma(3) args n_def] by simp
  from dma_store_inside [OF inv RR_GET_OFF_range(1) this] bs show ?thesis
    using dma unfolding n_def by (auto simp: rr_write_def Let_def)
next
  case (bar base r)
  note inside = bar_count [OF bar(6) bar(3) args]
  show ?thesis using bar inside inv by (simp add: rr_write_def Let_def file_okI split: prod.split)
qed (use inv in \<open>simp_all add: rr_write_def Let_def file_okI\<close>)

section \<open>ioctl\<close>

definition outcome_state :: "'w rr_outcome \<Rightarrow> 'w rr_dev" where
  "outcome_state out = (case out of Return r s \<Rightarrow> s | Sleep c s \<Rightarrow> s)"

lemma outcome_state_simps [simp]: "outcome_state (Return r s) = s" "outcome_state (Sleep c s) = s"
  by (simp_all add: outcome_state_def)

lemma ioctl_finish_inv [simp]: "rr_inv K (outcome_state (ioctl_finish K cmd arg ret karg s)) = rr_inv K s"
  by (simp add: ioctl_finish_def split: prod.split)

lemma ioctl_devsel_returns:
  assumes "rr_inv K s"
  shows "\<exists>r s'. ioctl_devsel K karg s = Some (r, s') \<and> rr_inv K s'"
proof -
  obtain r s' where "rr_fill_table_and_probe K (s\<lparr>rr_devsel := devsel_of karg\<rparr>) = Some (r, s')" "rr_inv K s'"
    using fill_and_probe_returns [of K "s\<lparr>rr_devsel := devsel_of karg\<rparr>"] assms by auto
  with assms show ?thesis by (simp add: ioctl_devsel_def)
qed

lemma ioctl_irqena_inv: "ioctl_irqena K s = Some (r, s') \<Longrightarrow> rr_inv K s' = rr_inv K s"
  by (auto simp: ioctl_irqena_def Let_def split: if_splits)

lemma ioctl_irqena_returns: "rr_pdev s \<noteq> None \<Longrightarrow> ioctl_irqena K s \<noteq> None"
  by (auto simp: ioctl_irqena_def Let_def)

text \<open>The commands that can fault: \<^verbatim>\<open>RR_IRQENA\<close> when no device is bound, and the accesses above.\<close>

definition ioctl_faults :: "'w rr_env \<Rightarrow> uint32 \<Rightarrow> bytes \<Rightarrow> 'w rr_dev \<Rightarrow> bool" where
  "ioctl_faults K cmd karg s \<longleftrightarrow> cmd = RR_IRQENA \<and> rr_pdev s = None \<or>
     (cmd = RR_READ \<or> cmd = RR_WRITE) \<and> (\<not> pci_bars_ok K \<or> iocmd_faults (iocmd_of karg) s)"

lemma ioctl_switch_ok:
  assumes inv: "rr_inv K s"
  shows "case ioctl_switch K cmd arg karg s of None \<Rightarrow> ioctl_faults K cmd karg s | Some out \<Rightarrow> rr_inv K (outcome_state out)"
proof -
  obtain r s' where devsel: "ioctl_devsel K karg s = Some (r, s')" "rr_inv K s'"
    using ioctl_devsel_returns [OF inv] by blast
  obtain b where b: "rr_dmabuf s = Some b" using inv by (auto simp: rr_inv_def buffer_ok_def)
  consider "cmd = RR_DEVSEL" | "cmd = RR_DEVGET" | "cmd = RR_READ \<or> cmd = RR_WRITE" | "cmd = RR_IRQENA"
    | "cmd \<notin> {RR_DEVSEL, RR_DEVGET, RR_READ, RR_WRITE, RR_IRQENA}" by blast
  then show ?thesis
  proof cases
    case 1
    then show ?thesis using devsel by (simp add: ioctl_switch_def)
  next
    case 2
    then show ?thesis using inv
      by (simp add: ioctl_switch_def RR_DEVSEL_def RR_DEVGET_def split: option.split)
  next
    case 3
    then have "ioctl_switch K cmd arg karg s =
        do { (ret, io, s) \<leftarrow> rr_do_iocmd K cmd (iocmd_of karg) s; Some (ioctl_finish K cmd arg ret (iocmd_bytes io) s) }"
      by (auto simp: ioctl_switch_def RR_DEVSEL_def RR_DEVGET_def RR_READ_def RR_WRITE_def)
    then show ?thesis
      using 3 rr_do_iocmd_ok [OF inv, of "iocmd_of karg" cmd]
      by (cases "rr_do_iocmd K cmd (iocmd_of karg) s") (auto simp: returns_ok_def ioctl_faults_def)
  next
    case 4
    then have "ioctl_switch K cmd arg karg s = do { (ret, s) \<leftarrow> ioctl_irqena K s; Some (Return ret s) }"
      by (simp add: ioctl_switch_def RR_DEVSEL_def RR_DEVGET_def RR_READ_def RR_WRITE_def RR_IRQENA_def RR_IRQWAIT_def)
    then show ?thesis
      using 4 inv ioctl_irqena_inv [of K s] ioctl_irqena_returns [of s K]
      by (cases "ioctl_irqena K s") (auto simp: ioctl_faults_def)
  next
    case 5
    then show ?thesis using inv b
      by (auto simp: ioctl_switch_def ioctl_irqwait_def ioctl_getplist_def)
  qed
qed

lemma rr_ioctl_ok:
  assumes "rr_inv K s"
  shows "case rr_ioctl K cmd arg s of
      None \<Rightarrow> \<exists>karg. ioctl_fetch K cmd arg (rr_world s) = Some karg \<and> ioctl_faults K cmd karg s
    | Some out \<Rightarrow> rr_inv K (outcome_state out)"
proof (cases "ioctl_fetch K cmd arg (rr_world s)")
  case None
  then show ?thesis using assms by (simp add: rr_ioctl_def)
next
  case (Some karg)
  then show ?thesis
    using ioctl_switch_ok [where cmd = cmd and arg = arg and karg = karg, OF assms] assms
    by (simp add: rr_ioctl_def split: option.splits)
qed

lemma rr_ioctl_inv:
  assumes "rr_ioctl K cmd arg s = Some out" "rr_inv K s"
  shows "rr_inv K (outcome_state out)"
  using rr_ioctl_ok [OF assms(2), of cmd arg] assms(1) by simp

section \<open>All runs\<close>

text \<open>The size of the DMA buffer that \<^verbatim>\<open>rr_init\<close> uses; a negative parameter is too big.\<close>

lemma init_bufsize:
  assumes "- (2 ^ 31) \<le> bufsize" "bufsize < 2 ^ 31"
    and n: "n = (if (word_of_int bufsize :: uint64) > RR_MAX_BUFSIZE then c_int (uint RR_MAX_BUFSIZE) else bufsize)"
    and nz: "word_of_int n \<noteq> (0 :: uint64)"
  shows "0 < n" "n \<le> 2 ^ 21" "uint (word_of_int n :: uint64) = n"
proof -
  have max: "uint RR_MAX_BUFSIZE = 2 ^ 21" by (simp add: RR_MAX_BUFSIZE_def RR_PLIST_SIZE_def RR_PLIST_LEN_def)
  have "0 \<le> bufsize \<and> bufsize \<le> 2 ^ 21" if le: "\<not> (word_of_int bufsize :: uint64) > RR_MAX_BUFSIZE"
  proof -
    have "bufsize mod 2 ^ 64 \<le> 2 ^ 21" using le max by (simp add: word_less_def uint_word_of_int take_bit_eq_mod)
    moreover have "bufsize mod 2 ^ 64 = bufsize + 2 ^ 64" if "bufsize < 0"
      using that assms(1) by (intro mod_pos_pos_trivial [of "bufsize + 2 ^ 64" "2 ^ 64", simplified mod_add_self2]) simp_all
    ultimately show ?thesis using assms by (cases "bufsize < 0") auto
  qed
  then have range: "0 \<le> n" "n \<le> 2 ^ 21" using n max by (auto split: if_splits)
  then show "n \<le> 2 ^ 21" "uint (word_of_int n :: uint64) = n" by (simp_all add: uint_word_of_int take_bit_int_eq_self)
  show "0 < n" using range nz by (cases "n = 0") auto
qed

lemma rr_init_inv:
  assumes "rr_init K (rr_dev_static vendor device bufsize w) = Some (0, s)" and K: "rr_kernel_ok K"
    and "- (2 ^ 31) \<le> bufsize" "bufsize < 2 ^ 31"
  shows "rr_inv K s"
proof -
  define t where "t = rr_dev_static vendor device bufsize w"
  define n where "n = (if (word_of_int bufsize :: uint64) > RR_MAX_BUFSIZE then c_int (uint RR_MAX_BUFSIZE) else bufsize)"
  define u where "u = (rr_devsel t)\<lparr>ds_vendor := word_of_int vendor, ds_device := word_of_int device,
                                ds_subvendor := RR_DEVSEL_UNUSED, ds_bus := RR_DEVSEL_UNUSED\<rparr>"
  obtain b r where b: "k_vmalloc K (word_of_int n) w = Some b"
    and probe: "rr_fill_table_and_probe K
      (kcall Misc_register (t\<lparr>rr_bufsize := n, rr_dmabuf := Some b\<rparr>)\<lparr>rr_devsel := u\<rparr>) = Some (r, s)"
    using assms(1) by (auto simp: rr_init_def rr_dev_static_def t_def n_def u_def Let_def kcall_def split: if_splits)
  have vm: "word_of_int n \<noteq> (0 :: uint64)" "int (length b) = page_round (uint (word_of_int n :: uint64))"
    using b K by (auto simp: rr_kernel_ok_def)
  note size = init_bufsize [OF assms(3,4) n_def vm(1)]
  have "rr_inv K (kcall Misc_register (t\<lparr>rr_bufsize := n, rr_dmabuf := Some b\<rparr>)\<lparr>rr_devsel := u\<rparr>)"
    using size vm(2) by (simp add: rr_inv_def areas_ok_def bound_ok_def buffer_ok_def t_def rr_dev_static_def)
  from fill_and_probe_returns [OF this] probe show ?thesis by auto
qed

lemma rr_step_inv:
  assumes "rr_step K (s, q) (s', q')" "rr_inv K s" "rr_kernel_ok K"
  shows "rr_inv K s'"
  using assms(1)
proof (cases rule: rr_step.cases)
  case (step_read pos count buf r pos')
  then show ?thesis using rr_read_ok [OF assms(2), of pos count buf] by (auto simp: file_ok_def)
next
  case (step_write pos count buf r pos')
  then show ?thesis using rr_write_ok [OF assms(2) _ assms(3), of pos count buf] by (auto simp: file_ok_def)
next
  case (step_ioctl cmd arg r)
  then show ?thesis using rr_ioctl_inv [OF _ assms(2)] by fastforce
next
  case (step_sleep cmd arg c)
  then show ?thesis using rr_ioctl_inv [OF _ assms(2)] by fastforce
next
  case (step_dma b b')
  then show ?thesis using rr_inv_dmabuf [OF assms(2)] by simp
qed (use assms(2) in \<open>auto simp: rr_open_def rr_release_def irqwait_resume_def rr_interrupt_def Let_def split: if_splits\<close>)

lemma rr_run_inv: "rr_run K c \<Longrightarrow> rr_kernel_ok K \<Longrightarrow> rr_inv K (fst c)"
proof (induction rule: rr_run.induct)
  case (run_init bufsize vendor device w s)
  then show ?case by (auto intro: rr_init_inv)
next
  case (run_step c c')
  then show ?case by (metis prod.collapse rr_step_inv)
qed

section \<open>A concrete kernel\<close>

text \<open>A machine with one card, whose BAR 0 has 4 KiB of memory and whose BAR 2 has 16 ports. The world is user memory.\<close>

definition demo_card :: pci_dev where
  "demo_card = \<lparr>pci_vendor = 0x1a39, pci_device = 4, pci_subsystem_vendor = 0, pci_subsystem_device = 0,
     pci_bus_number = 1, pci_devfn = 0, pci_irq = 17,
     pci_resource = [\<lparr>r_start = 0x80000000, r_end = 0x80000fff, r_flags = 0x200\<rparr>, \<lparr>r_start = 0, r_end = 0, r_flags = 0\<rparr>,
       \<lparr>r_start = 0xd000, r_end = 0xd00f, r_flags = 0x100\<rparr>, \<lparr>r_start = 0, r_end = 0, r_flags = 0\<rparr>,
       \<lparr>r_start = 0, r_end = 0, r_flags = 0\<rparr>, \<lparr>r_start = 0, r_end = 0, r_flags = 0\<rparr>]\<rparr>"

definition demo_kernel :: "bytes rr_env" where
  "demo_kernel =
     \<lparr>k_read = \<lambda>n a w. (a, w), k_write = \<lambda>n v a w. w, k_in = \<lambda>n a w. (a, w), k_out = \<lambda>n v a w. w,
      k_access_ok = \<lambda>wr a n w. True,
      k_from_user = \<lambda>a n w. (take n (drop (unat a) w @ replicate n 0), 0),
      k_to_user = \<lambda>a bs w. (0, take (unat a) w @ bs @ drop (unat a + length bs) w),
      k_io_to_user = \<lambda>a b n w. (0, w), k_user_to_io = \<lambda>a b n w. (0, w),
      k_pci_enable_device = \<lambda>p w. 0, k_request_irq = \<lambda>i w. 0, k_ioremap = \<lambda>a n w. 0x1000,
      k_pci_register = \<lambda>t w. (0, if id_vendor t = 0x1a39 then [demo_card] else []),
      k_jiffies_left = \<lambda>w. 10, k_misc_register = \<lambda>w. 0,
      k_vmalloc = \<lambda>n w. if n = 0 then None else Some (replicate (nat (page_round (uint n))) 0),
      k_now = \<lambda>w. (100, 5), k_pfn = \<lambda>a w. word_of_nat (a div 4096), k_signal_pending = \<lambda>w. False\<rparr>"

lemma page_round_nonneg: "0 \<le> n \<Longrightarrow> 0 \<le> page_round n"
  by (simp add: page_round_def)

lemma demo_kernel_ok: "rr_kernel_ok demo_kernel"
  by (auto simp: rr_kernel_ok_def demo_kernel_def page_round_nonneg split: if_splits)

lemma demo_bars_ok: "pci_bars_ok demo_kernel"
proof -
  have "bar_size_ok \<lparr>r_start = 0x80000000, r_end = 0x80000fff, r_flags = 0x200\<rparr>"
    unfolding bar_size_ok_def by (auto intro: exI [of _ 12])
  moreover have "bar_size_ok \<lparr>r_start = 0xd000, r_end = 0xd00f, r_flags = 0x100\<rparr>"
    unfolding bar_size_ok_def by (auto intro: exI [of _ 4])
  ultimately show ?thesis
    by (auto simp: pci_bars_ok_def known_device_def demo_kernel_def demo_card_def below_3 split: if_splits)
qed

definition demo_state :: "bytes \<Rightarrow> bytes rr_dev" where
  "demo_state w = snd (the (rr_init demo_kernel (rr_dev_static RR_DEFAULT_VENDOR RR_DEFAULT_DEVICE 4096 w)))"

lemmas demo_defs = rr_init_def rr_dev_static_def RR_MAX_BUFSIZE_def RR_PLIST_SIZE_def RR_PLIST_LEN_def
  RR_DEFAULT_VENDOR_def RR_DEFAULT_DEVICE_def Let_def rr_fill_table_and_probe_def rr_fill_table_def kcall_def
  pci_register_driver_def demo_kernel_def rr_pciprobe_def probe_selected_def probe_irq_def probe_bar_def
  demo_card_def page_round_def

lemma demo_init: "rr_init demo_kernel (rr_dev_static RR_DEFAULT_VENDOR RR_DEFAULT_DEVICE 4096 w) = Some (0, demo_state w)"
  by (simp add: demo_state_def demo_defs)

lemma demo_state_simps [simp]:
  "rr_bufsize (demo_state w) = 4096" "rr_world (demo_state w) = w" "rr_pdev (demo_state w) = Some demo_card"
  by (simp_all add: demo_state_def demo_defs)

lemma demo_run: "rr_run demo_kernel (demo_state w, [])"
  by (rule run_init [OF _ _ demo_init]) simp_all

section \<open>Properties\<close>

text \<open>C34: The state of the module is well-formed in every run. Whatever processes do with the file, in whatever order
  interrupts, wake-ups, changes of the device and transfers into the DMA buffer happen: the PCI core has bound exactly
  the device that the driver manages; its areas are the BARs 0, 2 and 4 of that device, and of no other, without the
  absent ones; a BAR in memory has the mapping that \<^verbatim>\<open>ioremap\<close> returned for it, which may be a null pointer, and nothing
  else is mapped. The DMA buffer has the whole pages of a size from 1 byte to 2 MiB, also if the module parameter was
  negative or too large.\<close>

theorem rr_run_well_formed:
  assumes "rr_kernel_ok K" "rr_run K (s, q)"
  shows "rr_inv K s"
  using rr_run_inv [OF assms(2,1)] by simp

theorem rr_run_well_formed_witness:
  "rr_run demo_kernel (demo_state [1, 2, 3], []) \<and> rr_inv demo_kernel (demo_state [1, 2, 3]) \<and>
   rr_pdev (demo_state [1, 2, 3]) = Some demo_card"
  using rr_run_well_formed [OF demo_kernel_ok demo_run] demo_run by simp

text \<open>C33: Nothing that user space passes to \<^verbatim>\<open>read\<close> and \<^verbatim>\<open>write\<close>, with any position and count of the virtual file system,
  makes the driver access memory outside of the BAR or the DMA buffer it names, or use a null pointer, in any state that
  a run reaches, also if \<^verbatim>\<open>ioremap\<close> failed. For \<^verbatim>\<open>ioctl\<close> with any command and argument, on devices whose BARs have the sizes
  that the PCI specification allows, there are three exceptions and no other: \<^verbatim>\<open>RR_IRQENA\<close> without a device, and
  \<^verbatim>\<open>RR_READ\<close> or \<^verbatim>\<open>RR_WRITE\<close> of a BAR in memory that \<^verbatim>\<open>ioremap\<close> could not map, or of 8 bytes of a BAR with 4 ports.\<close>

theorem rr_no_wild_access:
  assumes "rr_kernel_ok K" "pci_bars_ok K" "rr_run K (s, q)" "file_args pos count"
  shows "rr_read K buf count pos s \<noteq> None \<and> rr_write K buf count pos s \<noteq> None \<and>
    (rr_ioctl K cmd arg s = None \<longrightarrow> cmd = RR_IRQENA \<and> rr_pdev s = None \<or>
       (cmd = RR_READ \<or> cmd = RR_WRITE) \<and>
       (\<exists>karg. ioctl_fetch K cmd arg (rr_world s) = Some karg \<and> iocmd_faults (iocmd_of karg) s))"
proof -
  have inv: "rr_inv K s" using rr_run_inv [OF assms(3,1)] by simp
  from rr_read_ok [OF this assms(4), of buf] rr_write_ok [OF this assms(4,1), of buf]
    rr_ioctl_ok [OF this, of cmd arg]
  show ?thesis using assms(2) by (auto simp: file_ok_def ioctl_faults_def split: option.splits)
qed

text \<open>A read of 8 bytes of BAR 0; the user's argument is at address 0.\<close>

definition demo_iocmd :: bytes where
  "demo_iocmd = [8, 0, 0, 0, 8, 0, 0, 0, 0, 0, 0, 0, 0, 0, 0, 0]"

lemma demo_fetch: "ioctl_fetch demo_kernel RR_READ 0 demo_iocmd = Some demo_iocmd"
  "iocmd_of demo_iocmd = \<lparr>io_address = 8, io_datasize = 8, io_data = 0\<rparr>"
  by (simp_all add: ioctl_fetch_def RR_READ_def IOC_DIR_def IOC_SIZE_def demo_kernel_def demo_iocmd_def iocmd_of_def get_raw_def)

theorem rr_no_wild_access_witness:
  "file_args 0xc0000ffe 100 \<and> rr_read demo_kernel 0 100 0xc0000ffe (demo_state demo_iocmd) \<noteq> None \<and>
   rr_write demo_kernel 0 100 0xc0000ffe (demo_state demo_iocmd) \<noteq> None \<and>
   rr_ioctl demo_kernel RR_READ 0 (demo_state demo_iocmd) \<noteq> None"
proof -
  have args: "file_args 0xc0000ffe 100" by (simp add: file_args_def)
  have "RR_READ \<noteq> RR_IRQENA" by (simp add: RR_READ_def RR_IRQENA_def)
  moreover have "\<not> iocmd_faults \<lparr>io_address = 8, io_datasize = 8, io_data = 0\<rparr> (demo_state demo_iocmd)"
    by (simp add: iocmd_faults_def at_index_def RR_GET_BAR_def demo_state_def demo_defs)
  ultimately show ?thesis
    using rr_no_wild_access [OF demo_kernel_ok demo_bars_ok demo_run args, of 0 demo_iocmd RR_READ 0] args demo_fetch by auto
qed

section \<open>The exceptions\<close>

text \<open>On a machine where \<^verbatim>\<open>ioremap\<close> fails, the same read uses the null pointer, unlike \<^verbatim>\<open>read\<close>, which returns an error.\<close>

definition unmapped_kernel :: "bytes rr_env" where
  "unmapped_kernel = demo_kernel\<lparr>k_ioremap := \<lambda>a n w. 0\<rparr>"

lemma rr_unmapped_faults:
  "\<exists>s. rr_kernel_ok unmapped_kernel \<and> pci_bars_ok unmapped_kernel \<and> rr_run unmapped_kernel (s, []) \<and>
     rr_ioctl unmapped_kernel RR_READ 0 s = None \<and> rr_read unmapped_kernel 100 8 8 s = Some (- EINVAL, 8, s)"
proof -
  let ?init = "rr_init unmapped_kernel (rr_dev_static RR_DEFAULT_VENDOR RR_DEFAULT_DEVICE 4096 demo_iocmd)"
  obtain s where s: "?init = Some (0, s)" "rr_world s = demo_iocmd" "rr_remap s = [0, 0, 0]"
    "rr_area s = [Some \<lparr>r_start = 0x80000000, r_end = 0x80000fff, r_flags = 0x200\<rparr>,
                  Some \<lparr>r_start = 0xd000, r_end = 0xd00f, r_flags = 0x100\<rparr>, None]"
    by (simp add: unmapped_kernel_def demo_defs)
  have "rr_kernel_ok unmapped_kernel" "pci_bars_ok unmapped_kernel"
    using demo_kernel_ok demo_bars_ok
    by (simp_all add: rr_kernel_ok_def pci_bars_ok_def known_device_def unmapped_kernel_def)
  moreover have "rr_run unmapped_kernel (s, [])" by (rule run_init [OF _ _ s(1)]) simp_all
  moreover have "ioctl_fetch unmapped_kernel RR_READ 0 demo_iocmd = Some demo_iocmd"
    by (simp add: ioctl_fetch_def RR_READ_def IOC_DIR_def IOC_SIZE_def unmapped_kernel_def demo_kernel_def demo_iocmd_def)
  then have "rr_ioctl unmapped_kernel RR_READ 0 s = None"
    by (simp add: rr_ioctl_def s ioctl_switch_def demo_fetch(2) rr_do_iocmd_def rr_do_read_mem_def at_index_def mem_inside_def
        switch_datasize_def rr_is_valid_bar_def rr_is_dmabuf_bar_def RR_GET_BAR_def RR_GET_OFF_def unmapped_kernel_def
        demo_kernel_def IOC_TYPE_def IOC_DIR_def RR_READ_def RR_DEVSEL_def RR_DEVGET_def c_int_def)
  moreover have "rr_read unmapped_kernel 100 8 8 s = Some (- EINVAL, 8, s)"
    by (simp add: rr_read_def s at_index_def rr_is_valid_bar_def RR_IS_DMABUF_def RR_GET_BAR_def c_int_def)
  ultimately show ?thesis by blast
qed

text \<open>On a card whose BAR 0 has four ports, a read of eight bytes accesses four ports behind them.\<close>

definition ports_card :: pci_dev where
  "ports_card = demo_card\<lparr>pci_resource := (pci_resource demo_card)[0 := \<lparr>r_start = 0xd000, r_end = 0xd003, r_flags = 0x100\<rparr>]\<rparr>"

definition ports_kernel :: "bytes rr_env" where
  "ports_kernel = demo_kernel\<lparr>k_pci_register := \<lambda>t w. (0, [ports_card])\<rparr>"

lemma rr_short_ports_fault:
  "\<exists>s. rr_kernel_ok ports_kernel \<and> pci_bars_ok ports_kernel \<and> rr_run ports_kernel (s, []) \<and>
     rr_do_iocmd ports_kernel RR_READ \<lparr>io_address = 0, io_datasize = 8, io_data = 0\<rparr> s = None"
proof -
  let ?init = "rr_init ports_kernel (rr_dev_static RR_DEFAULT_VENDOR RR_DEFAULT_DEVICE 4096 [])"
  obtain s where s: "?init = Some (0, s)"
    "rr_area s = [Some \<lparr>r_start = 0xd000, r_end = 0xd003, r_flags = 0x100\<rparr>,
                  Some \<lparr>r_start = 0xd000, r_end = 0xd00f, r_flags = 0x100\<rparr>, None]"
    by (simp add: ports_kernel_def ports_card_def demo_defs)
  have "bar_size_ok \<lparr>r_start = 0xd000, r_end = 0xd003, r_flags = 0x100\<rparr>" "bar_size_ok \<lparr>r_start = 0xd000, r_end = 0xd00f, r_flags = 0x100\<rparr>"
    unfolding bar_size_ok_def by (auto intro: exI [of _ 2] exI [of _ 4])
  then have "pci_bars_ok ports_kernel"
    by (simp add: pci_bars_ok_def known_device_def ports_kernel_def ports_card_def demo_card_def below_3)
  moreover have "rr_kernel_ok ports_kernel" using demo_kernel_ok by (simp add: rr_kernel_ok_def ports_kernel_def)
  moreover have "rr_run ports_kernel (s, [])" by (rule run_init [OF _ _ s(1)]) simp_all
  moreover have "rr_do_iocmd ports_kernel RR_READ \<lparr>io_address = 0, io_datasize = 8, io_data = 0\<rparr> s = None"
    by (simp add: s rr_do_iocmd_def rr_do_read_io_def at_index_def io_inside_def switch_datasize_def rr_is_valid_bar_def
        rr_is_dmabuf_bar_def RR_GET_BAR_def RR_GET_OFF_def c_int_def)
  ultimately show ?thesis by blast
qed

end
