(* ===== verification/RR_Memory.thy ===== *)
theory RR_Memory
  imports RR_Safe
begin

text \<open>
  What the driver \<^verbatim>\<open>rawrabbit\<close> does with the data: the DMA buffer as a memory (contract \<open>byte_memory\<close>), written and read
  back through the file and through \<^verbatim>\<open>ioctl\<close>; the delay reported by \<^verbatim>\<open>RR_IRQENA\<close>; and the two interrupt flags that
  share a bit.
\<close>

unbundle bit_operations_syntax

section \<open>Contract of a byte memory\<close>

locale byte_memory =
  fixes load :: "int \<Rightarrow> nat \<Rightarrow> 's \<Rightarrow> bytes option" and store :: "int \<Rightarrow> bytes \<Rightarrow> 's \<Rightarrow> 's option"
  assumes load_length: "load a n s = Some bs \<Longrightarrow> length bs = n"
    and store_iff_load: "store a bs s \<noteq> None \<longleftrightarrow> load a (length bs) s \<noteq> None"
    and load_store: "store a bs s = Some s' \<Longrightarrow> load a (length bs) s' = Some bs"
    and load_frame: "store a bs s = Some s' \<Longrightarrow> b + int n \<le> a \<or> a + int (length bs) \<le> b \<Longrightarrow> load b n s' = load b n s"
begin

lemma store_ok:
  assumes "load a (length bs) s \<noteq> None"
  shows "\<exists>s'. store a bs s = Some s' \<and> load a (length bs) s' = Some bs \<and>
    (\<forall>b n. b + int n \<le> a \<or> a + int (length bs) \<le> b \<longrightarrow> load b n s' = load b n s)"
proof -
  obtain s' where "store a bs s = Some s'" using store_iff_load [of a bs s] assms by auto
  with load_store [OF this] load_frame [OF this] show ?thesis by auto
qed

end

lemma take_drop_patch:
  assumes "i + n \<le> j \<or> j + length bs \<le> i" "j + length bs \<le> length b"
  shows "take n (drop i (take j b @ bs @ drop (j + length bs) b)) = take n (drop i b)"
proof -
  have "(take j b @ bs @ drop (j + length bs) b) ! k = b ! k" if "k < j \<or> j + length bs \<le> k" "k < length b" for k
    using that assms(2) by (auto simp: nth_append)
  then show ?thesis using assms by (intro nth_equalityI) auto
qed

interpretation dma: byte_memory dma_load dma_store
proof (unfold_locales, goal_cases)
  case (1 a n s bs)
  then show ?case by (auto simp: dma_load_def split: if_splits)
next
  case (2 a bs s)
  then show ?case by (auto simp: dma_load_def dma_store_def)
next
  case (3 a bs s s')
  then show ?case by (auto simp: dma_load_def dma_store_def split: if_splits)
next
  case (4 a bs s s' b n)
  then obtain m where m: "rr_dmabuf s = Some m" "0 \<le> a" "nat a + length bs \<le> length m"
      "s' = s\<lparr>rr_dmabuf := Some (take (nat a) m @ bs @ drop (nat a + length bs) m)\<rparr>"
    by (auto simp: dma_store_def split: if_splits)
  have "take n (drop (nat b) (take (nat a) m @ bs @ drop (nat a + length bs) m)) = take n (drop (nat b) m)" if "0 \<le> b"
    using 4(2) m that by (intro take_drop_patch) auto
  with m show ?case by (auto simp: dma_load_def)
qed

lemma dma_store_frame:
  "dma_store off bs s = Some s' \<Longrightarrow> rr_world s' = rr_world s \<and> rr_bufsize s' = rr_bufsize s"
  by (auto simp: dma_store_def split: if_splits)

section \<open>Writing and reading the DMA buffer\<close>

lemma count_small:
  assumes "file_args pos count" "n = nat (min (uint count) k)"
  shows "n < 2 ^ 63"
proof -
  have "n \<le> nat (uint count)" unfolding assms(2) by (rule nat_mono) simp
  also have "nat (uint count) < 2 ^ 63" using assms(1) unfolding file_args_def by (subst nat_less_iff) auto
  finally show ?thesis .
qed

text \<open>The cut count as a word, for the value returned.\<close>

lemma cut_count_eq:
  assumes "rr_inv K s" "RR_GET_OFF pos < rr_bufsize s" "file_args pos count"
    and n: "n = nat (min (uint count) (rr_bufsize s - RR_GET_OFF pos))"
  shows "(if word_of_int (RR_GET_OFF pos) + count > (word_of_int (rr_bufsize s) :: uint64)
          then word_of_int (rr_bufsize s - RR_GET_OFF pos) else count) = word_of_nat n"
    and "unat (word_of_nat n :: uint64) = n" "sint (word_of_nat n :: uint64) = int n"
proof -
  define c where "c = (if word_of_int (RR_GET_OFF pos) + count > (word_of_int (rr_bufsize s) :: uint64)
          then word_of_int (rr_bufsize s - RR_GET_OFF pos) else count)"
  have "int (unat c) = int n" using dma_count(1) [OF assms(1-3) refl] n assms(2) by (simp add: c_def)
  then have "unat c = n" by linarith
  moreover have "word_of_nat (unat c) = c" by simp
  ultimately have "c = word_of_nat n" by simp
  then show "(if word_of_int (RR_GET_OFF pos) + count > (word_of_int (rr_bufsize s) :: uint64)
          then word_of_int (rr_bufsize s - RR_GET_OFF pos) else count) = word_of_nat n" by (simp only: c_def)
  note small = count_small [OF assms(3) n]
  then show "unat (word_of_nat n :: uint64) = n" by (simp add: unat_of_nat_small)
  show "sint (word_of_nat n :: uint64) = int n"
    using small by (simp add: signed_of_nat signed_take_bit_int_eq_self)
qed

lemma rr_write_dma:
  assumes "rr_inv K s" "file_args pos count" "rr_is_valid_bar (word_of_int pos)" "RR_IS_DMABUF pos"
    "RR_GET_OFF pos < rr_bufsize s" "n = nat (min (uint count) (rr_bufsize s - RR_GET_OFF pos))"
    and "k_from_user K buf n (rr_world s) = (bs, 0)" "dma_store (RR_GET_OFF pos) bs s = Some s'"
  shows "rr_write K buf count pos s = Some (int n, pos + int n, s')"
  using assms(3-5,7,8) cut_count_eq [OF assms(1,5,2,6)] unfolding rr_write_def Let_def c_int_off by simp

lemma rr_read_dma:
  assumes "rr_inv K s" "file_args pos count" "rr_is_valid_bar (word_of_int pos)" "RR_IS_DMABUF pos"
    "RR_GET_OFF pos < rr_bufsize s" "n = nat (min (uint count) (rr_bufsize s - RR_GET_OFF pos))"
    and "dma_load (RR_GET_OFF pos) n s = Some bs" "k_to_user K buf bs (rr_world s) = (0, w)"
  shows "rr_read K buf count pos s = Some (int n, pos + int n, s\<lparr>rr_world := w\<rparr>)"
  using assms(3-5,7,8) cut_count_eq [OF assms(1,5,2,6)] unfolding rr_read_def Let_def c_int_off by simp

lemma iocmd_read_dma:
  assumes "rr_is_valid_bar (word_of_int pos)" "RR_IS_DMABUF pos" "RR_GET_OFF pos < rr_bufsize s"
    and io: "uint (io_address io) = pos" "io_datasize io = word_of_nat n"
    and n: "n \<in> {1, 2, 4, 8}" "pos mod int n = 0"
    and "dma_load (RR_GET_OFF pos) n s = Some bs"
  shows "rr_do_iocmd K RR_READ io s = Some (0, set_data n (of_le bs) io, s)"
proof -
  have addr: "(ucast (io_address io) :: uint64) = word_of_int pos" using io(1) by (metis word_of_int_uint ucast_eq)
  have "pos < 2 ^ 32" "0 \<le> pos" using uint_lt2p [of "io_address io"] io(1) by auto
  then have "RR_GET_BAR pos < 16" "12 \<le> RR_GET_BAR pos" "uint (word_of_int pos :: uint64) = pos"
    using assms(2) by (auto simp: RR_GET_BAR_div RR_IS_DMABUF_def uint_word_of_int take_bit_int_eq_self)
  then have dma: "rr_is_dmabuf_bar (word_of_int pos)"
    using assms(1) by (auto simp: rr_is_dmabuf_bar_def rr_is_valid_bar_def Let_def)
  have "RR_GET_OFF pos mod int n = 0"
    using n by (elim insertE) (simp_all add: RR_GET_OFF_mod mod_mod_cancel)
  then have sw: "switch_datasize (io_datasize io) (RR_GET_OFF pos) fail act = act n" for fail and act :: "nat \<Rightarrow> 'x"
    using n(1) io(2) by (elim insertE) (simp_all add: switch_datasize_def and_low_bits)
  show ?thesis
    using assms(1,3,8) dma
    by (simp add: rr_do_iocmd_def rr_do_iocmd_dmabuf_def addr io(1) Let_def sw RR_READ_def RR_WRITE_def)
qed

text \<open>C35: Data written to the DMA buffer are read back. A \<^verbatim>\<open>write\<close> at a position inside the buffer takes the bytes of the
  user up to the end of the buffer, returns their number and advances the position by it; nothing else of the buffer
  changes. A \<^verbatim>\<open>read\<close> of as many bytes from the same position gives exactly these bytes to the user, and so does the
  command \<^verbatim>\<open>RR_READ\<close> for an aligned word.\<close>

theorem rr_dma_write_read:
  assumes inv: "rr_run K (s, q)" "rr_kernel_ok K" and args: "file_args pos count"
    and pos: "rr_is_valid_bar (word_of_int pos)" "RR_IS_DMABUF pos" "RR_GET_OFF pos < rr_bufsize s"
    and n: "n = nat (min (uint count) (rr_bufsize s - RR_GET_OFF pos))"
    and user: "k_from_user K buf n (rr_world s) = (bs, 0)"
  shows "\<exists>s'. rr_write K buf count pos s = Some (int n, pos + int n, s') \<and>
    (\<forall>b m. b + int m \<le> RR_GET_OFF pos \<or> RR_GET_OFF pos + int n \<le> b \<longrightarrow> dma_load b m s' = dma_load b m s) \<and>
    (\<forall>buf' w. k_to_user K buf' bs (rr_world s') = (0, w) \<longrightarrow>
       rr_read K buf' (word_of_nat n) pos s' = Some (int n, pos + int n, s'\<lparr>rr_world := w\<rparr>)) \<and>
    (\<forall>io. uint (io_address io) = pos \<and> io_datasize io = word_of_nat n \<and> n \<in> {1, 2, 4, 8} \<and> pos mod int n = 0 \<longrightarrow>
       rr_do_iocmd K RR_READ io s' = Some (0, set_data n (of_le bs) io, s'))"
proof -
  have inv: "rr_inv K s" using rr_run_inv [OF assms(1,2)] by simp
  have "length (fst (k_from_user K buf n (rr_world s))) = n" using assms(2) by (simp add: rr_kernel_ok_def)
  with user have len: "length bs = n" by simp
  have fits: "RR_GET_OFF pos + int n \<le> rr_bufsize s" using n pos(3) by simp
  then have "dma_load (RR_GET_OFF pos) (length bs) s \<noteq> None"
    using dma_load_ok [OF inv RR_GET_OFF_range(1), of pos n] page_round_ge [of "rr_bufsize s"] len by auto
  from dma.store_ok [OF this] obtain s' where s': "dma_store (RR_GET_OFF pos) bs s = Some s'"
    "dma_load (RR_GET_OFF pos) n s' = Some bs"
    "\<forall>b m. b + int m \<le> RR_GET_OFF pos \<or> RR_GET_OFF pos + int n \<le> b \<longrightarrow> dma_load b m s' = dma_load b m s"
    unfolding len by blast
  have "RR_GET_OFF pos + int (length bs) \<le> page_round (rr_bufsize s)"
    using fits page_round_ge [of "rr_bufsize s"] len by linarith
  from dma_store_inside [OF inv RR_GET_OFF_range(1) this] s'(1) have inv': "rr_inv K s'" by simp
  have size: "rr_bufsize s' = rr_bufsize s" using dma_store_frame [OF s'(1)] by simp
  note small = count_small [OF args n]
  then have u: "uint (word_of_nat n :: uint64) = int n" by (simp add: unsigned_of_nat take_bit_nat_eq_self)
  then have args': "file_args pos (word_of_nat n)" using args small by (simp add: file_args_def)
  have n': "n = nat (min (uint (word_of_nat n :: uint64)) (rr_bufsize s' - RR_GET_OFF pos))"
    unfolding u size using fits by simp
  note read = rr_read_dma [OF inv' args' pos(1,2) pos(3) [folded size] n' s'(2)]
  note cmd = iocmd_read_dma [OF pos(1,2) pos(3) [folded size] _ _ _ _ s'(2)]
  show ?thesis
    using rr_write_dma [OF inv args pos n user s'(1)] s'(3) read cmd by blast
qed

theorem rr_dma_write_read_witness:
  "\<exists>s'. rr_write demo_kernel 0 100 0xc0000ffe (demo_state [7, 8, 9]) = Some (2, 0xc0001000, s') \<and>
    rr_do_iocmd demo_kernel RR_READ \<lparr>io_address = 0xc0000ffe, io_datasize = 2, io_data = 0\<rparr> s'
      = Some (0, \<lparr>io_address = 0xc0000ffe, io_datasize = 2, io_data = 0x0807\<rparr>, s')"
proof -
  have *: "file_args 0xc0000ffe 100" "rr_is_valid_bar (word_of_int 0xc0000ffe)" "RR_IS_DMABUF 0xc0000ffe"
    "RR_GET_OFF 0xc0000ffe < rr_bufsize (demo_state [7, 8, 9])"
    "2 = nat (min (uint (100 :: uint64)) (rr_bufsize (demo_state [7, 8, 9]) - RR_GET_OFF 0xc0000ffe))"
    "k_from_user demo_kernel 0 2 (rr_world (demo_state [7, 8, 9])) = ([7, 8], 0)"
    by (simp_all add: file_args_def rr_is_valid_bar_def RR_GET_BAR_def RR_IS_DMABUF_def RR_GET_OFF_def
        demo_kernel_def c_int_def)
  from rr_dma_write_read [OF demo_run demo_kernel_ok *] obtain s' where
    "rr_write demo_kernel 0 100 0xc0000ffe (demo_state [7, 8, 9]) = Some (2, 0xc0001000, s')"
    "\<And>io. uint (io_address io) = 0xc0000ffe \<Longrightarrow> io_datasize io = 2 \<Longrightarrow>
       rr_do_iocmd demo_kernel RR_READ io s' = Some (0, set_data 2 (of_le [7, 8]) io, s')" by auto
  moreover have "set_data 2 (of_le [7, 8]) \<lparr>io_address = 0xc0000ffe, io_datasize = 2, io_data = 0\<rparr>
      = \<lparr>io_address = 0xc0000ffe, io_datasize = 2, io_data = 0x0807\<rparr>" by (simp add: set_data_def mask_numeral)
  ultimately show ?thesis by auto
qed

section \<open>Interrupts\<close>

text \<open>The delay that \<^verbatim>\<open>RR_IRQENA\<close> returns is the time since the interrupt in nanoseconds, and one second if more
  time has passed, provided that the clock was not set back; it fits a C \<^verbatim>\<open>int\<close>, so that it is never mistaken for an
  error. The line of the device is enabled and the interrupt marked as handled.\<close>

theorem rr_irqena_delay:
  assumes "rr_flags s AND 2 \<noteq> 0" "rr_pdev s = Some p" "rr_irqtime s = (sec0, ns0)" "k_now K (rr_world s) = (sec1, ns1)"
    and "0 \<le> ns0" "ns0 < 1000000000" "0 \<le> ns1" "ns1 < 1000000000"
    and "sec0 * 1000000000 + ns0 \<le> sec1 * 1000000000 + ns1"
  shows "\<exists>s' d. ioctl_irqena K s = Some (d, s') \<and>
    d = min ((sec1 * 1000000000 + ns1) - (sec0 * 1000000000 + ns0)) 1000000000 \<and> 0 \<le> d \<and> d < 2 ^ 31 \<and>
    rr_flags s' AND 2 = 0 \<and> rr_calls s' = Enable_irq (pci_irq p) # rr_calls s"
proof -
  let ?e = "(sec1 * 1000000000 + ns1) - (sec0 * 1000000000 + ns0)"
  have e: "(sec1 - sec0) * 1000000000 + ns1 - ns0 = ?e" by (simp add: algebra_simps)
  have "irqena_delay (sec1, ns1) (sec0, ns0) = min ?e 1000000000"
  proof (cases "sec1 - sec0 > 1")
    case True
    then have "1000000000 \<le> ?e" using assms(5-8) by linarith
    then show ?thesis using True by (simp add: irqena_delay_def)
  next
    case False
    then have "?e < 2 ^ 31" "- (2 ^ 31) \<le> ?e" using assms(5-9) by simp_all
    then show ?thesis using False by (simp add: irqena_delay_def e Let_def)
  qed
  then show ?thesis using assms by (simp add: ioctl_irqena_def and.assoc)
qed

theorem rr_irqena_delay_witness:
  "\<exists>s'. ioctl_irqena demo_kernel (demo_state []\<lparr>rr_flags := 3, rr_irqtime := (99, 999999999)\<rparr>) = Some (6, s')"
proof -
  let ?s = "demo_state []\<lparr>rr_flags := 3, rr_irqtime := (99, 999999999)\<rparr>"
  have "rr_flags ?s AND 2 \<noteq> 0" "rr_pdev ?s = Some demo_card" "rr_irqtime ?s = (99, 999999999)"
    "k_now demo_kernel (rr_world ?s) = (100, 5)" by (simp_all add: demo_kernel_def)
  from rr_irqena_delay [OF this] show ?thesis by auto
qed

text \<open>C39: \<^verbatim>\<open>RR_FLAG_IRQREQUEST\<close> and \<^verbatim>\<open>RR_FLAG_IRQDISABLE\<close> are the same bit. After a device with an interrupt line is
  probed, \<^verbatim>\<open>RR_IRQWAIT\<close> therefore reports an interrupt that never happened, and \<^verbatim>\<open>RR_IRQENA\<close> enables a line that was never
  disabled; this also clears the request flag, so that removing the device leaves the handler registered. When the
  shared line then fires for another device, the handler runs without a device and the next \<^verbatim>\<open>RR_IRQENA\<close> uses a null
  pointer.\<close>

theorem rr_irq_flags_clash:
  assumes "rr_pdev s = None" "rr_flags s AND 2 = 0" "probe_selected (rr_devsel s) p"
    and "k_pci_enable_device K p (rr_world s) \<ge> 0" "pci_irq p > 0" "k_request_irq K (pci_irq p) (rr_world s) \<ge> 0"
  shows "\<exists>s1 d s2 s3. rr_pciprobe K p s = (0, s1) \<and> rr_irqcount s1 = rr_irqcount s \<and>
    ioctl_irqwait s1 = Return (- EAGAIN) s1 \<and>
    ioctl_irqena K s1 = Some (d, s2) \<and> rr_calls s2 = Enable_irq (pci_irq p) # Request_irq (pci_irq p) # rr_calls s \<and>
    rr_pciremove p s2 = Some s3 \<and> handler_on (pci_irq p) (rr_calls s3) \<and> rr_pdev s3 = None \<and>
    ioctl_irqena K (rr_interrupt K (pci_irq p) s3) = None"
proof -
  obtain s1 where s1: "rr_pciprobe K p s = (0, s1)" "rr_flags s1 = rr_flags s OR 2" "rr_pdev s1 = Some p"
    "rr_calls s1 = Request_irq (pci_irq p) # rr_calls s" "rr_irqcount s1 = rr_irqcount s"
    using assms by (simp add: rr_pciprobe_def probe_irq_def Let_def)
  have set: "(rr_flags s OR 2) AND 2 = 2" "(rr_flags s OR 2) AND NOT 2 AND 2 = 0" by (rule bit_word_eqI; auto simp: bit_simps)+
  obtain d s2 where s2: "ioctl_irqena K s1 = Some (d, s2)" "rr_flags s2 AND 2 = 0"
    "rr_calls s2 = Enable_irq (pci_irq p) # Request_irq (pci_irq p) # rr_calls s"
    using s1 set by (simp add: ioctl_irqena_def Let_def and.assoc)
  obtain s3 where s3: "rr_pciremove p s2 = Some s3" "rr_pdev s3 = None"
    "rr_calls s3 = Iounmap (rr_remap s2 ! 2) # Iounmap (rr_remap s2 ! 1) # Iounmap (rr_remap s2 ! 0) # rr_calls s2"
    using s2(2) by (simp add: rr_pciremove_def remove_irq_returns remove_bar_def Let_def)
  have "handler_on (pci_irq p) (rr_calls s3)" by (simp add: s3(3) s2(3))
  moreover have "ioctl_irqena K (rr_interrupt K (pci_irq p) s3) = None"
  proof -
    have "(rr_flags s3 OR 2) AND 2 \<noteq> 0" by (simp add: bit.conj_disj_distrib2)
    then show ?thesis using s3(2) by (simp add: ioctl_irqena_def rr_interrupt_def Let_def)
  qed
  moreover have "ioctl_irqwait s1 = Return (- EAGAIN) s1" using s1(2) set by (simp add: ioctl_irqwait_def)
  ultimately show ?thesis using s1 s2 s3 by blast
qed

definition demo_idle :: "bytes rr_dev" where
  "demo_idle = (rr_dev_static 0x1a39 4 4096 [])\<lparr>rr_devsel := \<lparr>ds_vendor = 0x1a39, ds_device = 4,
     ds_subvendor = 0xffff, ds_subdevice = 0, ds_bus = 0xffff, ds_devfn = 0\<rparr>\<rparr>"

theorem rr_irq_flags_clash_witness:
  "\<exists>s1 d s2 s3. rr_pciprobe demo_kernel demo_card demo_idle = (0, s1) \<and>
    ioctl_irqena demo_kernel s1 = Some (d, s2) \<and> rr_pciremove demo_card s2 = Some s3 \<and>
    handler_on 17 (rr_calls s3) \<and> ioctl_irqena demo_kernel (rr_interrupt demo_kernel 17 s3) = None"
proof -
  have "rr_pdev demo_idle = None" "rr_flags demo_idle AND 2 = 0" "probe_selected (rr_devsel demo_idle) demo_card"
    "k_pci_enable_device demo_kernel demo_card (rr_world demo_idle) \<ge> 0" "pci_irq demo_card > 0"
    "k_request_irq demo_kernel (pci_irq demo_card) (rr_world demo_idle) \<ge> 0"
    by (simp_all add: demo_idle_def demo_defs)
  from rr_irq_flags_clash [OF this] have "\<exists>s1 d s2 s3. rr_pciprobe demo_kernel demo_card demo_idle = (0, s1) \<and>
    ioctl_irqena demo_kernel s1 = Some (d, s2) \<and> rr_pciremove demo_card s2 = Some s3 \<and>
    handler_on (pci_irq demo_card) (rr_calls s3) \<and>
    ioctl_irqena demo_kernel (rr_interrupt demo_kernel (pci_irq demo_card) s3) = None" by blast
  moreover have "pci_irq demo_card = 17" by (simp add: demo_card_def)
  ultimately show ?thesis by simp
qed

end
