(* ===== verification/USB_Firmware.thy ===== *)
theory USB_Firmware
  imports EB_Prelude
begin

text \<open>
  The firmware of the USB bridge (\<^verbatim>\<open>src/ip_cores/etherbone-core/hdl/eb_usb_core/cdc_acm.c\<close>): an FX2 microcontroller that
  presents a serial port and an Etherbone bridge to the host. It answers control requests on endpoint 0
  (\<^verbatim>\<open>SetupCommand\<close>), programs the baud rate of the console into the FPGA bit by bit (\<^verbatim>\<open>BangBaudRate\<close>) and closes the
  cycle line when the link to the host is lost (\<^verbatim>\<open>timer_isr\<close>).

  Registers are cells of the external memory (\<open>usb_xdata\<close>) or special function registers (\<open>usb_sfr\<close>) at the addresses of
  \<^verbatim>\<open>fx2regs.h\<close>; values written to special function registers are also kept in order (\<open>usb_sfr_log\<close>, newest first), since
  the FPGA watches the pins of port A. The variables of the program are the other fields. \<^verbatim>\<open>int\<close> has 16 bits and
  \<^verbatim>\<open>unsigned long\<close> 32 bits. \<^verbatim>\<open>syncdelay\<close>, a pause, has no effect on this state. An access outside of an array of the
  program, and a loop that does not end, is the result \<open>None\<close>.
\<close>

unbundle bit_operations_syntax

section \<open>Registers\<close>

abbreviation (input) USBIE :: uint16 where "USBIE \<equiv> 0xE65C"
abbreviation (input) USBIRQ :: uint16 where "USBIRQ \<equiv> 0xE65D"
abbreviation (input) EPIE :: uint16 where "EPIE \<equiv> 0xE65E"
abbreviation (input) EPIRQ :: uint16 where "EPIRQ \<equiv> 0xE65F"
abbreviation (input) INT2IVEC :: uint16 where "INT2IVEC \<equiv> 0xE666"
abbreviation (input) USBCS :: uint16 where "USBCS \<equiv> 0xE680"
abbreviation (input) TOGCTL :: uint16 where "TOGCTL \<equiv> 0xE683"
abbreviation (input) EP0BCH :: uint16 where "EP0BCH \<equiv> 0xE68A"
abbreviation (input) EP0BCL :: uint16 where "EP0BCL \<equiv> 0xE68B"
abbreviation (input) EP0CS :: uint16 where "EP0CS \<equiv> 0xE6A0"
abbreviation (input) SUDPTRH :: uint16 where "SUDPTRH \<equiv> 0xE6B3"
abbreviation (input) SUDPTRL :: uint16 where "SUDPTRL \<equiv> 0xE6B4"
abbreviation (input) SETUPDAT :: uint16 where "SETUPDAT \<equiv> 0xE6B8"
abbreviation (input) EP0BUF :: uint16 where "EP0BUF \<equiv> 0xE740"
abbreviation (input) IOA :: uint8 where "IOA \<equiv> 0x80"
abbreviation (input) CKCO :: uint8 where "CKCO \<equiv> 0x8E"
abbreviation (input) EXIF :: uint8 where "EXIF \<equiv> 0x91"
abbreviation (input) IE :: uint8 where "IE \<equiv> 0xA8"
abbreviation (input) OEA :: uint8 where "OEA \<equiv> 0xB2"
abbreviation (input) T2CON :: uint8 where "T2CON \<equiv> 0xC8"
abbreviation (input) RCAP2L :: uint8 where "RCAP2L \<equiv> 0xCA"
abbreviation (input) RCAP2H :: uint8 where "RCAP2H \<equiv> 0xCB"
abbreviation (input) EIE :: uint8 where "EIE \<equiv> 0xE8"

abbreviation (input) bmEPSTALL :: uint8 where "bmEPSTALL \<equiv> 1"
abbreviation (input) bmHSNAK :: uint8 where "bmHSNAK \<equiv> 0x80"
abbreviation (input) bmHSM :: uint8 where "bmHSM \<equiv> 0x80"
abbreviation (input) bmRESETTOGGLE :: uint8 where "bmRESETTOGGLE \<equiv> 0x20"
abbreviation (input) CONFIG_DSCR :: uint8 where "CONFIG_DSCR \<equiv> 2"
abbreviation (input) STRING_DSCR :: uint8 where "STRING_DSCR \<equiv> 3"
abbreviation (input) ENDPNT_DSCR :: uint8 where "ENDPNT_DSCR \<equiv> 5"
abbreviation (input) OTHERSPEED_DSCR :: uint8 where "OTHERSPEED_DSCR \<equiv> 7"
abbreviation (input) EP_BULK :: uint8 where "EP_BULK \<equiv> 2"
abbreviation (input) NUM_INTERFACES :: nat where "NUM_INTERFACES \<equiv> 3"

definition MSB :: "uint16 \<Rightarrow> uint8" where "MSB w = ucast (drop_bit 8 w AND 0xff)"
definition LSB :: "uint16 \<Rightarrow> uint8" where "LSB w = ucast (w AND 0xff)"

text \<open>Accesses to the arrays of the program.\<close>

definition array_get :: "'a list \<Rightarrow> nat \<Rightarrow> 'a option" where
  "array_get xs i = (if i < length xs then Some (xs ! i) else None)"

definition array_set :: "'a list \<Rightarrow> nat \<Rightarrow> 'a \<Rightarrow> 'a list option" where
  "array_set xs i v = (if i < length xs then Some (xs[i := v]) else None)"

section \<open>Descriptors\<close>

definition USB_strings :: "string list" where
  "USB_strings = [''EN'', ''GSI Helmholtzzentrum'', ''USB-{Serial,Wishbone} adapter'',
     ''White Rabbit Console (Comm)'', ''White Rabbit Console (Data)'', ''USB-Wishbone Bridge'']"

text \<open>The addresses at which the linker places the descriptors that are sent as they are.\<close>

definition addr_myDeviceDscr :: uint16 where "addr_myDeviceDscr = 0x3c80"
definition addr_myDeviceQualDscr :: uint16 where "addr_myDeviceQualDscr = 0x3cc0"
definition addr_myConfigDscr :: uint16 where "addr_myConfigDscr = 0x3d00"

definition myDeviceDscr :: bytes where
  "myDeviceDscr = [18, 1, 0, 2, 2, 0, 0, 64, 0x50, 0x1d, 0x62, 0x60, 0, 1, 1, 2, 0, 1]"

definition myDeviceQualDscr :: bytes where
  "myDeviceQualDscr = [10, 6, 0, 2, 2, 0, 0, 64, 1, 0]"

definition interface_dscr :: "uint8 \<Rightarrow> uint8 \<Rightarrow> uint8 \<Rightarrow> uint8 \<Rightarrow> uint8 \<Rightarrow> uint8 \<Rightarrow> bytes" where
  "interface_dscr index endpoints class sub protocol str = [9, 4, index, 0, endpoints, class, sub, protocol, str]"

definition endpoint_dscr :: "uint8 \<Rightarrow> uint8 \<Rightarrow> uint8 \<Rightarrow> uint8 \<Rightarrow> uint8 \<Rightarrow> bytes" where
  "endpoint_dscr address type lo hi interval = [7, ENDPNT_DSCR, address, type, lo, hi, interval]"

text \<open>The configuration descriptor and what follows it. Its total length is filled in by \<^verbatim>\<open>sizeof\<close>.\<close>

definition config_parts :: "bytes list" where
  "config_parts =
     [interface_dscr 0 1 0x02 0x02 0x00 3,
      [5, 0x24, 0, 0x10, 0x01],
      [5, 0x24, 1, 0x0, 0x1],
      [4, 0x24, 2, 0x2],
      [5, 0x24, 6, 0, 1],
      endpoint_dscr 0x81 3 64 0 0x02,
      interface_dscr 1 2 0x0A 0 0 4,
      endpoint_dscr 0x88 EP_BULK 0 2 0,
      endpoint_dscr 0x04 EP_BULK 0 2 0,
      interface_dscr 2 2 0xFF 0xFF 0xFF 5,
      endpoint_dscr 0x86 EP_BULK 0 2 0,
      endpoint_dscr 0x02 EP_BULK 0 2 0]"

definition myConfigDscr :: bytes where
  "myConfigDscr =
     (let total_length = word_of_nat (9 + length (concat config_parts))
      in [9, CONFIG_DSCR, LSB total_length, MSB total_length, 3, 1, 0, 0x80 OR 0x20, 0x1E] @ concat config_parts)"

section \<open>State\<close>

record usb_state =
  usb_xdata :: "uint16 \<Rightarrow> uint8"
  usb_sfr :: "uint8 \<Rightarrow> uint8"
  usb_sfr_log :: "(uint8 \<times> uint8) list"
  usb_Rwuen_allowed :: bool
  usb_Rwuen :: bool
  usb_Selfpwr :: bool
  usb_BulkReason :: uint8
  usb_Configuration :: uint8
  usb_InterfaceSetting :: bytes
  usb_LineCode :: bytes
  usb_LinkLoss :: uint8
  usb_ConfigDscr :: bytes
  usb_epcs_noop :: uint8

definition setx :: "uint16 \<Rightarrow> uint8 \<Rightarrow> usb_state \<Rightarrow> usb_state" where
  "setx a v s = s\<lparr>usb_xdata := (usb_xdata s)(a := v)\<rparr>"

definition set_sfr :: "uint8 \<Rightarrow> uint8 \<Rightarrow> usb_state \<Rightarrow> usb_state" where
  "set_sfr a v s = s\<lparr>usb_sfr := (usb_sfr s)(a := v), usb_sfr_log := (a, v) # usb_sfr_log s\<rparr>"

definition setupdat :: "usb_state \<Rightarrow> uint16 \<Rightarrow> uint8" where
  "setupdat s i = usb_xdata s (SETUPDAT + i)"

definition EZUSB_STALL_EP0 :: "usb_state \<Rightarrow> usb_state" where
  "EZUSB_STALL_EP0 s = setx EP0CS (usb_xdata s EP0CS OR bmEPSTALL) s"

definition EZUSB_RESET_DATA_TOGGLE :: "uint8 \<Rightarrow> usb_state \<Rightarrow> usb_state" where
  "EZUSB_RESET_DATA_TOGGLE ep s =
     (let s = setx TOGCTL (drop_bit 3 (ep AND 0x80) + (ep AND 0x0F)) s
      in setx TOGCTL (usb_xdata s TOGCTL OR bmRESETTOGGLE) s)"

text \<open>Sending the first \<open>n\<close> bytes of \<^verbatim>\<open>EP0BUF\<close>.\<close>

definition send_ep0 :: "uint8 \<Rightarrow> usb_state \<Rightarrow> usb_state" where
  "send_ep0 n s = setx EP0BCL n (setx EP0BCH 0 s)"

definition ep0_put :: "nat \<Rightarrow> uint8 \<Rightarrow> usb_state \<Rightarrow> usb_state" where
  "ep0_put i v s = setx (EP0BUF + word_of_nat i) v s"

section \<open>Endpoint registers\<close>

text \<open>The offset from \<^verbatim>\<open>EP1OUTCS\<close> of the register of an endpoint; other endpoints get a variable that reads as stalled.\<close>

definition epcs_offset :: "uint8 \<Rightarrow> uint16 option" where
  "epcs_offset ep =
     (if ep = 0x01 then Some 0 else if ep = 0x81 then Some 1
      else if ep = 0x02 \<or> ep = 0x82 then Some 2 else if ep = 0x04 \<or> ep = 0x84 then Some 3
      else if ep = 0x06 \<or> ep = 0x86 then Some 4 else if ep = 0x08 \<or> ep = 0x88 then Some 5 else None)"

definition epcs_read :: "uint8 \<Rightarrow> usb_state \<Rightarrow> uint8 \<times> usb_state" where
  "epcs_read ep s =
     (case epcs_offset ep of
        Some off \<Rightarrow> (usb_xdata s (0xE6A1 + off), s)
      | None \<Rightarrow> (bmEPSTALL, s\<lparr>usb_epcs_noop := bmEPSTALL\<rparr>))"

definition epcs_modify :: "uint8 \<Rightarrow> (uint8 \<Rightarrow> uint8) \<Rightarrow> usb_state \<Rightarrow> usb_state" where
  "epcs_modify ep f s =
     (case epcs_offset ep of
        Some off \<Rightarrow> setx (0xE6A1 + off) (f (usb_xdata s (0xE6A1 + off))) s
      | None \<Rightarrow> s\<lparr>usb_epcs_noop := f bmEPSTALL\<rparr>)"

section \<open>Baud rate\<close>

definition baud_divisor :: "uint32 \<Rightarrow> uint32" where
  "baud_divisor speed =
     (let divisor = 1953125;
          div_hi = speed div divisor;
          div_lo = speed mod divisor;
          div_hi = push_bit 7 div_hi;
          div_lo = push_bit 7 div_lo;
          div_hi = div_hi + div_lo div divisor;
          div_lo = div_lo mod divisor;
          div_hi = push_bit 7 div_hi;
          div_lo = push_bit 7 div_lo;
          div_lo = div_lo + divisor div 2
      in div_hi + div_lo div divisor)"

definition line_speed :: "bytes \<Rightarrow> uint32" where
  "line_speed lc =
     (let speed = ucast (lc ! 3); speed = push_bit 8 speed;
          speed = speed OR ucast (lc ! 2); speed = push_bit 8 speed;
          speed = speed OR ucast (lc ! 1); speed = push_bit 8 speed
      in speed OR ucast (lc ! 0))"

text \<open>The bits are put on pin 0 of port A and clocked by pin 1, least significant bit first.\<close>

definition bang_bit :: "uint32 \<Rightarrow> usb_state \<Rightarrow> usb_state" where
  "bang_bit shift s =
     (let s = set_sfr IOA ((usb_sfr s IOA AND 0xFE) OR ucast (shift AND 1)) s;
          s = set_sfr IOA (usb_sfr s IOA OR 2) s
      in set_sfr IOA (usb_sfr s IOA AND NOT 2) s)"

fun bang_bits :: "nat \<Rightarrow> uint32 \<Rightarrow> usb_state \<Rightarrow> usb_state" where
  "bang_bits 0 shift s = s"
| "bang_bits (Suc n) shift s = bang_bits n (drop_bit 1 shift) (bang_bit shift s)"

definition BangBaudRate :: "usb_state \<Rightarrow> usb_state" where
  "BangBaudRate s = bang_bits 17 (baud_divisor (line_speed (usb_LineCode s))) s"

section \<open>Control requests\<close>

text \<open>The walk over the descriptors of the configuration: it would not end at a descriptor of length 0, and leave the
  array at one that is too long.\<close>

partial_function (option) modify_loop :: "nat \<Rightarrow> uint16 \<Rightarrow> bytes \<Rightarrow> bytes option" where
  "modify_loop p speed d =
     (if p = length d then Some d
      else do { kind \<leftarrow> array_get d (p + 1);
                d \<leftarrow> (if kind = ENDPNT_DSCR
                      then do { type \<leftarrow> array_get d (p + 3);
                                if type = EP_BULK
                                then do { d \<leftarrow> array_set d (p + 4) (LSB speed); array_set d (p + 5) (MSB speed) }
                                else Some d }
                      else Some d);
                n \<leftarrow> array_get d p;
                modify_loop (p + unat n) speed d })"

definition ModifyDscr :: "uint8 \<Rightarrow> uint16 \<Rightarrow> bytes \<Rightarrow> bytes option" where
  "ModifyDscr cfg speed d = do { d \<leftarrow> array_set d 1 cfg; modify_loop 0 speed d }"

definition send_config :: "uint8 \<Rightarrow> uint16 \<Rightarrow> usb_state \<Rightarrow> usb_state option" where
  "send_config cfg speed s =
     do { d \<leftarrow> ModifyDscr cfg speed (usb_ConfigDscr s);
          Some (setx SUDPTRL (LSB addr_myConfigDscr) (setx SUDPTRH (MSB addr_myConfigDscr) (s\<lparr>usb_ConfigDscr := d\<rparr>))) }"

text \<open>A string as 16-bit characters, at most 31 of them.\<close>

function string_loop :: "nat \<Rightarrow> string \<Rightarrow> usb_state \<Rightarrow> nat \<times> usb_state" where
  "string_loop i str s =
     (if i < 31 \<and> i < length str
      then string_loop (i + 1) str (ep0_put (2 * i + 3) 0 (ep0_put (2 * i + 2) (of_char (str ! i)) s))
      else (i, s))"
  by auto
termination
  by (relation "measure (\<lambda>(i, str, s). length str - i)") auto

declare string_loop.simps [simp del]

definition get_string :: "usb_state \<Rightarrow> usb_state option" where
  "get_string s =
     (if unat (setupdat s 2) \<ge> length USB_strings then Some (EZUSB_STALL_EP0 s)
      else do { str \<leftarrow> array_get USB_strings (unat (setupdat s 2));
                let (i, s) = string_loop 0 str s;
                let s = ep0_put 0 (word_of_nat (2 * i + 2)) s;
                let s = ep0_put 1 STRING_DSCR s;
                Some (send_ep0 (word_of_nat (2 * i + 2)) s) })"

definition get_descriptor :: "usb_state \<Rightarrow> usb_state option" where
  "get_descriptor s =
     (let kind = setupdat s 3
      in if kind = 0x01 then Some (setx SUDPTRL (LSB addr_myDeviceDscr) (setx SUDPTRH (MSB addr_myDeviceDscr) s))
         else if kind = 0x06 then Some (setx SUDPTRL (LSB addr_myDeviceQualDscr) (setx SUDPTRH (MSB addr_myDeviceQualDscr) s))
         else if kind = 0x02 then
           (if usb_xdata s USBCS AND bmHSM \<noteq> 0 then send_config CONFIG_DSCR 512 s else send_config CONFIG_DSCR 64 s)
         else if kind = 0x07 then
           (if usb_xdata s USBCS AND bmHSM \<noteq> 0 then send_config OTHERSPEED_DSCR 64 s else send_config OTHERSPEED_DSCR 512 s)
         else if kind = 0x03 then get_string s
         else Some (EZUSB_STALL_EP0 s))"

definition get_interface :: "usb_state \<Rightarrow> usb_state option" where
  "get_interface s =
     (let interface = unat (setupdat s 4)
      in if interface < NUM_INTERFACES
         then do { v \<leftarrow> array_get (usb_InterfaceSetting s) interface; Some (send_ep0 1 (ep0_put 0 v s)) }
         else Some (EZUSB_STALL_EP0 s))"

definition set_interface :: "usb_state \<Rightarrow> usb_state option" where
  "set_interface s =
     (let interface = unat (setupdat s 4)
      in if interface < NUM_INTERFACES
         then do { a \<leftarrow> array_set (usb_InterfaceSetting s) interface (setupdat s 2); Some (s\<lparr>usb_InterfaceSetting := a\<rparr>) }
         else Some (EZUSB_STALL_EP0 s))"

definition get_status :: "usb_state \<Rightarrow> usb_state" where
  "get_status s =
     (let kind = setupdat s 0
      in if kind = 0x80
         then send_ep0 2 (ep0_put 1 0 (ep0_put 0 (push_bit 1 (of_bool (usb_Rwuen s)) OR of_bool (usb_Selfpwr s)) s))
         else if kind = 0x81 then send_ep0 2 (ep0_put 1 0 (ep0_put 0 0 s))
         else if kind = 0x82
         then let (cs, s) = epcs_read (setupdat s 4) s in send_ep0 2 (ep0_put 1 0 (ep0_put 0 (cs AND bmEPSTALL) s))
         else EZUSB_STALL_EP0 s)"

definition clear_feature :: "usb_state \<Rightarrow> usb_state" where
  "clear_feature s =
     (if setupdat s 0 = 0x00 then (if setupdat s 2 = 1 then s\<lparr>usb_Rwuen := False\<rparr> else EZUSB_STALL_EP0 s)
      else if setupdat s 0 = 0x02
      then (if setupdat s 2 = 0
            then EZUSB_RESET_DATA_TOGGLE (setupdat s 4) (epcs_modify (setupdat s 4) (\<lambda>v. v AND NOT bmEPSTALL) s)
            else EZUSB_STALL_EP0 s)
      else s)"

definition set_feature :: "usb_state \<Rightarrow> usb_state" where
  "set_feature s =
     (if setupdat s 0 = 0x00
      then (if setupdat s 2 = 1 \<and> usb_Rwuen_allowed s then s\<lparr>usb_Rwuen := True\<rparr> else EZUSB_STALL_EP0 s)
      else if setupdat s 0 = 0x02 then epcs_modify (setupdat s 4) (\<lambda>v. v OR bmEPSTALL) s
      else EZUSB_STALL_EP0 s)"

definition standard_request :: "usb_state \<Rightarrow> usb_state option" where
  "standard_request s =
     (let req = setupdat s 1
      in if req = 0x06 then get_descriptor s
         else if req = 0x0a then get_interface s
         else if req = 0x0b then set_interface s
         else Some (if req = 0x09 then s\<lparr>usb_Configuration := setupdat s 2\<rparr>
               else if req = 0x08 then send_ep0 1 (ep0_put 0 (usb_Configuration s) s)
               else if req = 0x00 then get_status s
               else if req = 0x01 then clear_feature s
               else if req = 0x03 then set_feature s
               else EZUSB_STALL_EP0 s))"

text \<open>\<open>n\<close> bytes of the line coding, from byte \<open>i\<close> on, are copied into the buffer of the endpoint, or back.\<close>

fun put_line_code :: "nat \<Rightarrow> nat \<Rightarrow> usb_state \<Rightarrow> usb_state option" where
  "put_line_code 0 i s = Some s"
| "put_line_code (Suc n) i s = do { v \<leftarrow> array_get (usb_LineCode s) i; put_line_code n (i + 1) (ep0_put i v s) }"

fun take_line_code :: "nat \<Rightarrow> nat \<Rightarrow> usb_state \<Rightarrow> usb_state option" where
  "take_line_code 0 i s = Some s"
| "take_line_code (Suc n) i s =
     do { lc \<leftarrow> array_set (usb_LineCode s) i (usb_xdata s (EP0BUF + word_of_nat i));
          take_line_code n (i + 1) (s\<lparr>usb_LineCode := lc\<rparr>) }"

definition class_request :: "usb_state \<Rightarrow> usb_state option" where
  "class_request s =
     (let req = setupdat s 1
      in if req = 0x00 \<or> req = 0x01 then Some s
         else if req = 0x20 then Some ((setx EP0BCL 0 s)\<lparr>usb_BulkReason := 1\<rparr>)
         else if req = 0x21 then do { s \<leftarrow> put_line_code 7 0 s; Some (send_ep0 7 s) }
         else if req = 0x22 then Some s
         else Some (EZUSB_STALL_EP0 s))"

definition vendor_request :: "usb_state \<Rightarrow> usb_state" where
  "vendor_request s =
     (if setupdat s 1 = 0xB0
      then set_sfr IOA ((usb_sfr s IOA AND 0xF7) OR push_bit 3 (setupdat s 2 AND 1)) s
      else EZUSB_STALL_EP0 s)"

definition SetupCommand :: "usb_state \<Rightarrow> usb_state option" where
  "SetupCommand s =
     (let kind = setupdat s 0 AND 0x60
      in do { s \<leftarrow> (if kind = 0 then standard_request s
                    else if kind = 0x20 then class_request s
                    else if kind = 0x40 then Some (vendor_request s)
                    else Some (EZUSB_STALL_EP0 s));
              Some (setx EP0CS (usb_xdata s EP0CS OR bmHSNAK) s) })"

definition BulkCommand :: "usb_state \<Rightarrow> usb_state option" where
  "BulkCommand s =
     do { s \<leftarrow> (if usb_BulkReason s = 1 then map_option BangBaudRate (take_line_code 7 0 s) else Some s);
          Some (s\<lparr>usb_BulkReason := 0\<rparr>) }"

section \<open>Interrupts\<close>

definition USB_isr :: "usb_state \<Rightarrow> usb_state option" where
  "USB_isr s =
     (let s = set_sfr EXIF (usb_sfr s EXIF AND NOT 0x10) s; vec = usb_xdata s INT2IVEC
      in if vec = 0x0 then SetupCommand (setx USBIRQ 0x01 s)
         else if vec = 0x4 then Some ((setx USBIRQ 0x02 s)\<lparr>usb_LinkLoss := 0\<rparr>)
         else if vec = 0x24 then BulkCommand (setx EPIRQ 0x2 s)
         else Some s)"

definition timer_isr :: "usb_state \<Rightarrow> usb_state" where
  "timer_isr s =
     (let s = set_sfr T2CON (usb_sfr s T2CON AND NOT 0xC0) s
      in if usb_LinkLoss s < 20 then s\<lparr>usb_LinkLoss := usb_LinkLoss s + 1\<rparr>
         else set_sfr IOA (usb_sfr s IOA AND 0xF7) s)"

section \<open>Start\<close>

definition init_xdata :: "(uint16 \<times> uint8) list" where
  "init_xdata =
     [(0xE612, 0x00), (0xE613, 0x00), (0xE614, 0x00), (0xE615, 0x00), (0xE618, 0x00), (0xE619, 0x00), (0xE61A, 0x00), (0xE61B, 0x00),
      (0xE610, 0xa0), (0xE611, 0xb0), (0xE612, 0xa2), (0xE613, 0xa0), (0xE614, 0xe2), (0xE615, 0xe0),
      (0xE604, 0x80), (0xE604, 0x82), (0xE604, 0x84), (0xE604, 0x86), (0xE604, 0x88), (0xE604, 0x80), (0xE604, 0x00),
      (0xE649, 0x82), (0xE649, 0x82), (0xE649, 0x82), (0xE649, 0x82), (0xE649, 0x84), (0xE649, 0x84), (0xE649, 0x84), (0xE649, 0x84),
      (0xE618, 0x10), (0xE619, 0x10), (0xE61A, 0x0C), (0xE61B, 0x0C),
      (0xE620, 0x02), (0xE621, 0x00), (0xE622, 0x02), (0xE623, 0x00), (0xE624, 0x02), (0xE625, 0x00), (0xE626, 0x02), (0xE627, 0x00),
      (0xE6B5, 1)]"

definition write_all :: "(uint16 \<times> uint8) list \<Rightarrow> usb_state \<Rightarrow> usb_state" where
  "write_all ws s = fold (\<lambda>(a, v). setx a v) ws s"

definition Initialize :: "usb_state \<Rightarrow> usb_state" where
  "Initialize s =
     (let s = write_all [(0xE600, 0x10), (0xE601, 0xCB), (0xE60B, 0x03), (0xE602, 0x00), (0xE603, 0x00), (0xE609, 0x00), (0xE670, 0x00)] s;
          s = set_sfr IE (usb_sfr s IE AND NOT 3) s;
          s = set_sfr OEA 0x8b (set_sfr IOA 0x80 s);
          s = write_all init_xdata s;
          s = BangBaudRate s;
          s = set_sfr IOA (usb_sfr s IOA AND 0x7F) s;
          s = setx USBCS (usb_xdata s USBCS OR 0x04) s;
          s = set_sfr CKCO (usb_sfr s CKCO OR 0x38) s;
          s = set_sfr RCAP2H (NOT (word_of_nat ((12000 - 1) div 256))) s;
          s = set_sfr RCAP2L (NOT (word_of_nat ((12000 - 1) mod 256))) s;
          s = set_sfr T2CON 0x04 s;
          s = set_sfr EIE 0x01 (set_sfr IE 0xA0 s);
          s = setx EPIE 0x2 (setx USBIE 0x03 s)
      in setx USBCS (usb_xdata s USBCS OR 0x02) s)"

text \<open>\<^verbatim>\<open>main\<close> up to its endless loop, in which only interrupts happen.\<close>

definition usb_main :: "usb_state \<Rightarrow> usb_state" where
  "usb_main s =
     (let s = Initialize (setx USBCS (usb_xdata s USBCS OR 0x08) s)
      in setx USBCS (usb_xdata s USBCS AND NOT 0x08) s)"

definition usb_static :: "(uint16 \<Rightarrow> uint8) \<Rightarrow> (uint8 \<Rightarrow> uint8) \<Rightarrow> usb_state" where
  "usb_static x f =
     \<lparr>usb_xdata = x, usb_sfr = f, usb_sfr_log = [], usb_Rwuen_allowed = False, usb_Rwuen = False, usb_Selfpwr = False,
      usb_BulkReason = 0, usb_Configuration = 0, usb_InterfaceSetting = [0, 0, 0],
      usb_LineCode = [0, 194, 1, 0, 0, 0, 0x8], usb_LinkLoss = 0, usb_ConfigDscr = myConfigDscr, usb_epcs_noop = 0\<rparr>"

end
