(* ===== verification/USB_Safe.thy ===== *)
theory USB_Safe
  imports USB_Firmware
begin

text \<open>
  Properties of the firmware of the USB bridge: the bits shifted into the FPGA are those of the correctly rounded
  divisor of the baud rate; every interrupt is handled in every run, whatever the host requests, and answers stay
  inside the buffer of endpoint 0; the cycle line is closed exactly when 21 milliseconds pass without a frame.
\<close>

unbundle bit_operations_syntax

section \<open>Baud rate\<close>

text \<open>The integer nearest to \<open>n / d\<close>.\<close>

definition nearest :: "nat \<Rightarrow> nat \<Rightarrow> nat" where
  "nearest n d = (2 * n + d) div (2 * d)"

lemma nearest_odd: "0 < d \<Longrightarrow> odd d \<Longrightarrow> nearest n d = (n + d div 2) div d"
proof -
  assume d: "0 < d" "odd d"
  define y where "y = n + d div 2"
  have "2 * n + d = 2 * y + 1" using d(2) unfolding y_def by presburger
  then have "nearest n d = (2 * y + 1) div (2 * d)" by (simp add: nearest_def)
  also have "\<dots> = (2 * y + 1) div 2 div d" by (simp add: div_mult2_eq)
  also have "\<dots> = y div d" by simp
  finally show ?thesis by (simp add: y_def)
qed

text \<open>Long division in two steps of seven bits.\<close>

lemma two_step_division:
  fixes v d :: nat
  assumes "0 < d"
  shows "(v div d * 128 + (v mod d * 128) div d) * 128 + ((v mod d * 128) mod d * 128 + r) div d = (v * 2 ^ 14 + r) div d"
proof -
  define h where "h = v div d * 128 + (v mod d * 128) div d"
  define l where "l = (v mod d * 128) mod d"
  have "v * 128 = (v div d * d + v mod d) * 128" by simp
  also have "\<dots> = v div d * 128 * d + v mod d * 128" by (simp only: distrib_right ac_simps)
  also have "\<dots> = h * d + l"
    using div_mult_mod_eq [of "v mod d * 128" d] unfolding h_def l_def by (simp add: algebra_simps)
  finally have eq: "v * 2 ^ 14 + r = h * 128 * d + (l * 128 + r)" by simp
  have "(v * 2 ^ 14 + r) div d = h * 128 + (l * 128 + r) div d"
    unfolding eq by (rule div_mult_self3) (use assms in simp)
  then show ?thesis by (simp add: h_def l_def)
qed

lemma unat_add_small: "unat a + unat b < 2 ^ LENGTH('a) \<Longrightarrow> unat (a + b :: 'a :: len word) = unat a + unat b"
  by (simp add: unat_word_ariths(1))

lemma unat_push_bit_7: "unat (a :: uint32) * 128 < 2 ^ 32 \<Longrightarrow> unat (push_bit 7 a) = unat a * 128"
  by (simp add: push_bit_eq_mult unat_word_ariths(2))

text \<open>No step of the computation overflows 32 bits.\<close>

lemma unat_baud_divisor: "unat (baud_divisor v) = nearest (unat v * 2 ^ 14) 1953125"
proof -
  let ?d = "1953125 :: nat"
  have v: "unat v < 2 ^ 32" using unat_less_exp [of v] by simp
  define h where "h = push_bit 7 (v div 1953125) + push_bit 7 (v mod 1953125) div 1953125"
  define l where "l = push_bit 7 (v mod 1953125) mod 1953125"
  have "unat v div ?d < 2200" using v by (intro less_mult_imp_div_less) simp
  then have vd: "unat v div ?d \<le> 2199" by simp
  have vm: "unat v mod ?d < ?d" by simp
  have lo: "unat (push_bit 7 (v mod 1953125)) = unat v mod ?d * 128"
    using vm by (subst unat_push_bit_7) (simp_all add: unat_mod)
  have hi: "unat (push_bit 7 (v div 1953125)) = unat v div ?d * 128"
    using vd by (subst unat_push_bit_7) (simp_all add: unat_div)
  have c: "unat v mod ?d * 128 div ?d < 128" by (simp add: less_mult_imp_div_less)
  have h: "unat h = unat v div ?d * 128 + unat v mod ?d * 128 div ?d"
    unfolding h_def using vd c by (subst unat_add_small) (simp_all add: hi lo unat_div)
  have l: "unat l = unat v mod ?d * 128 mod ?d" unfolding l_def by (simp add: lo unat_mod)
  have l': "unat l < ?d" by (simp add: l)
  have lr: "unat (push_bit 7 l + 976562) = unat l * 128 + 976562"
    using l' by (subst unat_add_small) (simp_all add: unat_push_bit_7)
  have "baud_divisor v = push_bit 7 h + (push_bit 7 l + 976562) div 1953125"
    by (simp add: baud_divisor_def Let_def h_def l_def)
  then have "unat (baud_divisor v) = unat h * 128 + (unat l * 128 + 976562) div ?d"
  proof -
    have "unat ((push_bit 7 l + 976562) div 1953125) = (unat l * 128 + 976562) div ?d"
      by (simp add: unat_div lr)
    moreover have "(unat l * 128 + 976562) div ?d \<le> 128" using l' by (simp add: less_mult_imp_div_less less_Suc_eq_le [symmetric])
    moreover have "unat (push_bit 7 h) = unat h * 128" using vd c h by (intro unat_push_bit_7) simp
    moreover have "unat h \<le> 281599" using vd c h by simp
    ultimately show ?thesis using \<open>baud_divisor v = _\<close> by (simp add: unat_add_small)
  qed
  then show ?thesis
    using two_step_division [of ?d "unat v" 976562] by (simp add: nearest_odd h l)
qed

text \<open>What the FPGA sees: the values written to port A, and the data bit at each rising edge of the clock.\<close>

definition port_a :: "usb_state \<Rightarrow> uint8 list" where
  "port_a s = rev (map snd (filter (\<lambda>(a, v). a = IOA) (usb_sfr_log s)))"

fun clocked_bits :: "uint8 \<Rightarrow> uint8 list \<Rightarrow> bool list" where
  "clocked_bits prev [] = []"
| "clocked_bits prev (v # vs) = (if bit v 1 \<and> \<not> bit prev 1 then bit v 0 # clocked_bits v vs else clocked_bits v vs)"

lemma clocked_bits_append: "clocked_bits p (us @ vs) = clocked_bits p us @ clocked_bits (last (p # us)) vs"
  by (induction us arbitrary: p) auto

definition bang_value :: "uint8 \<Rightarrow> uint32 \<Rightarrow> uint8" where
  "bang_value v shift = (v AND 0xFE) OR ucast (shift AND 1)"

lemma bang_value_odd: "bang_value v shift = (v AND 0xFE) OR of_bool (odd shift)"
  by (cases "odd shift") (simp_all add: bang_value_def and_one_eq odd_iff_mod_2_eq_one even_iff_mod_2_eq_zero)

lemma bang_value_bits:
  "bit (bang_value v shift) 1 = bit v 1" "bit (bang_value v shift) 0 = odd shift"
  "bang_value v shift AND 0xFC = v AND 0xFC"
proof -
  show "bit (bang_value v shift) 1 = bit v 1" by (simp add: bang_value_def bit_simps)
  show "bit (bang_value v shift) 0 = odd shift" by (simp add: bang_value_odd bit_0 even_or_iff even_and_iff)
  have "of_bool (odd shift) AND (0xFC :: uint8) = 0" by (cases "odd shift") simp_all
  moreover have "v AND 0xFE AND 0xFC = v AND 0xFC" by (simp add: and.assoc)
  ultimately show "bang_value v shift AND 0xFC = v AND 0xFC"
    by (simp add: bang_value_odd bit.conj_disj_distrib2 and.assoc)
qed

lemma bang_bit_port:
  assumes "\<not> bit (usb_sfr s IOA) 1"
  shows "port_a (bang_bit shift s) = port_a s @
      [bang_value (usb_sfr s IOA) shift, bang_value (usb_sfr s IOA) shift OR 2, bang_value (usb_sfr s IOA) shift]"
    and "usb_sfr (bang_bit shift s) IOA = bang_value (usb_sfr s IOA) shift"
proof -
  let ?a = "bang_value (usb_sfr s IOA) shift"
  have two: "bit (2 :: uint8) k \<longleftrightarrow> k = 1" for k using bit_exp_iff [of 1 k, where 'a = uint8] by auto
  have "(?a OR 2) AND NOT 2 = ?a"
    using assms bang_value_bits(1) [of "usb_sfr s IOA" shift] by (intro bit_word_eqI) (auto simp: bit_simps two)
  then show "port_a (bang_bit shift s) = port_a s @ [?a, ?a OR 2, ?a]" "usb_sfr (bang_bit shift s) IOA = ?a"
    by (simp_all add: bang_bit_def set_sfr_def port_a_def Let_def bang_value_def)
qed

lemma bang_bits_port:
  assumes "\<not> bit (usb_sfr s IOA) 1"
  shows "\<exists>vs. port_a (bang_bits n shift s) = port_a s @ vs \<and>
    clocked_bits (usb_sfr s IOA) vs = map (bit shift) [0..<n] \<and>
    (\<forall>v \<in> set vs. v AND 0xFC = usb_sfr s IOA AND 0xFC)"
  using assms
proof (induction n arbitrary: shift s)
  case 0
  then show ?case by simp
next
  case (Suc n)
  let ?a = "bang_value (usb_sfr s IOA) shift"
  note bang = bang_bit_port [OF Suc.prems, of shift] and bits = bang_value_bits [of "usb_sfr s IOA" shift]
  have low: "\<not> bit ?a 1" using bits(1) Suc.prems by simp
  then have "\<not> bit (usb_sfr (bang_bit shift s) IOA) 1" using bang(2) by simp
  from Suc.IH [OF this, of "drop_bit 1 shift"] obtain vs where
    vs: "port_a (bang_bits n (drop_bit 1 shift) (bang_bit shift s)) = port_a (bang_bit shift s) @ vs"
      "clocked_bits ?a vs = map (bit (drop_bit 1 shift)) [0..<n]" "\<forall>v \<in> set vs. v AND 0xFC = ?a AND 0xFC"
    unfolding bang(2) by blast
  have "bit (?a OR 2) 1" "bit (?a OR 2) 0 = odd shift" using bits(2) by (simp_all add: bit_simps)
  then have "clocked_bits (usb_sfr s IOA) ([?a, ?a OR 2, ?a] @ vs) = odd shift # map (bit (drop_bit 1 shift)) [0..<n]"
    using low vs(2) by (simp add: clocked_bits_append)
  also have "\<dots> = map (bit shift) [0..<Suc n]"
    by (simp add: upt_conv_Cons map_Suc_upt [symmetric] bit_drop_bit_eq bit_0 del: upt_Suc)
  finally have "clocked_bits (usb_sfr s IOA) ([?a, ?a OR 2, ?a] @ vs) = map (bit shift) [0..<Suc n]" .
  moreover have "(?a OR 2) AND 0xFC = ?a AND 0xFC" by (simp add: bit.conj_disj_distrib2)
  ultimately show ?case
    using vs(1,3) bang(1) bits(3) by (intro exI [of _ "[?a, ?a OR 2, ?a] @ vs"]) auto
qed

lemma bit_nat_unat: "bit (unat (w :: uint32)) i = bit w i"
  using bit_imp_le_length [of w i] by (auto simp: bit_unsigned_iff)

lemma line_speed_little_endian: "4 \<le> length lc \<Longrightarrow> line_speed lc = ucast (get_raw 0 4 lc)"
proof -
  assume "4 \<le> length lc"
  then obtain a b c d cs where "lc = a # b # c # d # cs"
    by (auto simp: numeral_eq_Suc Suc_le_length_iff)
  then show ?thesis
    by (simp add: line_speed_def get_raw_def Let_def) (rule bit_word_eqI, auto simp: bit_simps)
qed

section \<open>Configuration descriptor\<close>

text \<open>A part of the configuration starts with its length; endpoints are long enough to hold a packet size.\<close>

definition dscr_ok :: "bytes \<Rightarrow> bool" where
  "dscr_ok p \<longleftrightarrow> 4 \<le> length p \<and> unat (p ! 0) = length p \<and> (p ! 1 = ENDPNT_DSCR \<longrightarrow> 6 \<le> length p)"

definition with_speed :: "uint16 \<Rightarrow> bytes \<Rightarrow> bytes" where
  "with_speed speed p = (if p ! 1 = ENDPNT_DSCR \<and> p ! 3 = EP_BULK then p[4 := LSB speed, 5 := MSB speed] else p)"

lemma length_with_speed [simp]: "length (with_speed speed p) = length p"
  by (simp add: with_speed_def)

lemma with_speed_head: "with_speed speed p ! 0 = p ! 0"
  by (simp add: with_speed_def)

text \<open>The walk visits the parts one after the other and changes each as a whole.\<close>

lemma array_get_part: "i < length p \<Longrightarrow> array_get (pre @ p @ post) (length pre + i) = Some (p ! i)"
  by (simp add: array_get_def nth_append)

lemma array_set_part:
  "i < length p \<Longrightarrow> array_set (pre @ p @ post) (length pre + i) v = Some (pre @ p[i := v] @ post)"
  by (simp add: array_set_def list_update_append)

lemma modify_loop_parts:
  "\<forall>p \<in> set ps. dscr_ok p \<Longrightarrow>
   modify_loop (length pre) speed (pre @ concat ps) = Some (pre @ concat (map (with_speed speed) ps))"
proof (induction ps arbitrary: pre)
  case Nil
  then show ?case by (subst modify_loop.simps) simp
next
  case (Cons p ps)
  then have ok: "4 \<le> length p" "unat (p ! 0) = length p" "p ! 1 = ENDPNT_DSCR \<Longrightarrow> 6 \<le> length p" by (auto simp: dscr_ok_def)
  let ?d = "pre @ p @ concat ps"
  have kind: "array_get ?d (length pre + 1) = Some (p ! 1)" "array_get ?d (length pre + 3) = Some (p ! 3)"
    using ok(1) by (simp_all only: array_get_part)
  have "do { d \<leftarrow> array_set ?d (length pre + 4) (LSB speed); array_set d (length pre + 5) (MSB speed) }
      = Some (pre @ p[4 := LSB speed, 5 := MSB speed] @ concat ps)" if "p ! 1 = ENDPNT_DSCR"
    using ok(3) [OF that] by (simp add: array_set_part)
  then have step: "(if p ! 1 = ENDPNT_DSCR
      then do { type \<leftarrow> array_get ?d (length pre + 3);
                if type = EP_BULK then do { d \<leftarrow> array_set ?d (length pre + 4) (LSB speed); array_set d (length pre + 5) (MSB speed) }
                else Some ?d }
      else Some ?d) = Some (pre @ with_speed speed p @ concat ps)"
    unfolding kind(2) by (simp add: with_speed_def)
  have next_pos: "array_get (pre @ with_speed speed p @ concat ps) (length pre) = Some (p ! 0)"
    using array_get_part [of 0 "with_speed speed p" pre] ok(1) by (cases p) (simp_all add: with_speed_head)
  have ne: "(length pre = length pre + (length p + length (concat ps))) = False" using ok(1) by auto
  have "modify_loop (length pre) speed ?d
      = modify_loop (length (pre @ with_speed speed p)) speed ((pre @ with_speed speed p) @ concat ps)"
    by (subst modify_loop.simps)
      (simp only: ne if_False kind(1) step next_pos ok(2) bind.bind_lunit length_append length_with_speed append_assoc)
  also have "\<dots> = Some ((pre @ with_speed speed p) @ concat (map (with_speed speed) ps))"
    using Cons.prems by (intro Cons.IH) simp
  finally show ?case by simp
qed

text \<open>The descriptor with a type and a packet size of the bulk endpoints.\<close>

definition config_header :: "uint8 \<Rightarrow> bytes" where
  "config_header cfg = [9, cfg, 90, 0, 3, 1, 0, 0xA0, 0x1E]"

definition config_with :: "uint8 \<Rightarrow> uint16 \<Rightarrow> bytes" where
  "config_with cfg speed = config_header cfg @ concat (map (with_speed speed) config_parts)"

lemma myConfigDscr_with: "myConfigDscr = config_with CONFIG_DSCR 512"
  by (simp add: myConfigDscr_def config_with_def config_header_def config_parts_def interface_dscr_def endpoint_dscr_def
      with_speed_def LSB_def MSB_def)

lemma config_parts_ok: "\<forall>p \<in> set (map (with_speed speed) config_parts). dscr_ok p"
  by (simp add: config_parts_def interface_dscr_def endpoint_dscr_def with_speed_def dscr_ok_def)

lemma with_speed_again: "with_speed v (with_speed u p) = with_speed v p"
  by (auto simp: with_speed_def list_update_swap)

lemma ModifyDscr_config: "cfg \<noteq> ENDPNT_DSCR \<Longrightarrow> ModifyDscr cfg v (config_with c u) = Some (config_with cfg v)"
proof -
  assume cfg: "cfg \<noteq> ENDPNT_DSCR"
  let ?ps = "config_header cfg # map (with_speed u) config_parts"
  have "\<forall>p \<in> set ?ps. dscr_ok p" using cfg config_parts_ok [of u] by (auto simp: config_header_def dscr_ok_def)
  from modify_loop_parts [OF this, of "[]"] have "modify_loop 0 v (concat ?ps) = Some (concat (map (with_speed v) ?ps))" by simp
  moreover have "with_speed v (config_header cfg) = config_header cfg" using cfg by (simp add: with_speed_def config_header_def)
  ultimately show ?thesis
    by (simp add: ModifyDscr_def array_set_def config_with_def config_header_def comp_def with_speed_again)
qed

section \<open>Runs\<close>

text \<open>The program starts with the values of its variables, whatever the registers hold; then interrupts happen, and
  between them the hardware changes registers, but not what the program has put on its output pins.\<close>

inductive usb_run :: "usb_state \<Rightarrow> bool" where
  usb_start: "usb_run (usb_main (usb_static x f))"
| usb_interrupt: "usb_run s \<Longrightarrow> USB_isr s = Some s' \<Longrightarrow> usb_run s'"
| usb_timer: "usb_run s \<Longrightarrow> usb_run (timer_isr s)"
| usb_hardware: "usb_run s \<Longrightarrow> f IOA = usb_sfr s IOA \<Longrightarrow> usb_run (s\<lparr>usb_xdata := x, usb_sfr := f\<rparr>)"

definition usb_ok :: "usb_state \<Rightarrow> bool" where
  "usb_ok s \<longleftrightarrow> length (usb_InterfaceSetting s) = NUM_INTERFACES \<and> length (usb_LineCode s) = 7 \<and>
     usb_LinkLoss s \<le> 20 \<and> \<not> bit (usb_sfr s IOA) 1 \<and> (\<exists>cfg speed. usb_ConfigDscr s = config_with cfg speed)"

text \<open>Most operations only write registers of the external memory.\<close>

lemma setx_frame [simp]:
  "usb_InterfaceSetting (setx a v s) = usb_InterfaceSetting s" "usb_LineCode (setx a v s) = usb_LineCode s"
  "usb_LinkLoss (setx a v s) = usb_LinkLoss s" "usb_sfr (setx a v s) = usb_sfr s"
  "usb_ConfigDscr (setx a v s) = usb_ConfigDscr s" "usb_xdata (setx a v s) = (usb_xdata s)(a := v)"
  by (simp_all add: setx_def)

lemma usb_ok_setx [simp]: "usb_ok (setx a v s) = usb_ok s"
  by (simp add: usb_ok_def)

lemma usb_ok_xdata_ops [simp]:
  "usb_ok (ep0_put i v s) = usb_ok s" "usb_ok (send_ep0 n s) = usb_ok s" "usb_ok (EZUSB_STALL_EP0 s) = usb_ok s"
  "usb_ok (EZUSB_RESET_DATA_TOGGLE ep s) = usb_ok s"
  by (simp_all add: ep0_put_def send_ep0_def EZUSB_STALL_EP0_def EZUSB_RESET_DATA_TOGGLE_def Let_def)

lemma usb_ok_vars [simp]:
  "usb_ok (s\<lparr>usb_Rwuen := b\<rparr>) = usb_ok s" "usb_ok (s\<lparr>usb_Configuration := c\<rparr>) = usb_ok s"
  "usb_ok (s\<lparr>usb_BulkReason := c\<rparr>) = usb_ok s" "usb_ok (s\<lparr>usb_epcs_noop := c\<rparr>) = usb_ok s"
  by (simp_all add: usb_ok_def)

lemma usb_ok_interface:
  "usb_ok s \<Longrightarrow> length is = NUM_INTERFACES \<Longrightarrow> usb_ok (s\<lparr>usb_InterfaceSetting := is\<rparr>)"
  "usb_ok s \<Longrightarrow> length (usb_InterfaceSetting s) = NUM_INTERFACES"
  by (simp_all add: usb_ok_def)

lemma usb_ok_epcs [simp]: "usb_ok (epcs_modify ep f s) = usb_ok s" "usb_ok (snd (epcs_read ep s)) = usb_ok s"
  by (simp_all add: epcs_modify_def epcs_read_def split: option.split)

section \<open>Registers that a request changes\<close>

definition ep0_regs :: "uint16 set" where
  "ep0_regs = {EP0BUF..EP0BUF + 63} \<union> {0xE6A0..0xE6A6} \<union> {EP0BCH, EP0BCL, SUDPTRH, SUDPTRL, TOGCTL, USBIRQ, EPIRQ}"

definition ep0_only :: "usb_state \<Rightarrow> usb_state \<Rightarrow> bool" where
  "ep0_only s s' \<longleftrightarrow> (\<forall>a. a \<notin> ep0_regs \<longrightarrow> usb_xdata s' a = usb_xdata s a) \<and>
     (usb_xdata s' EP0BCL = usb_xdata s EP0BCL \<or> usb_xdata s' EP0BCL \<le> 64) \<and>
     (\<forall>a. a \<notin> {IOA, EXIF} \<longrightarrow> usb_sfr s' a = usb_sfr s a) \<and> usb_sfr s' IOA AND 0xF4 = usb_sfr s IOA AND 0xF4"

lemma ep0_only_refl [simp]: "ep0_only s s"
  by (simp add: ep0_only_def)

lemma ep0_only_setx:
  "ep0_only s t \<Longrightarrow> a \<in> ep0_regs \<Longrightarrow> (a = EP0BCL \<Longrightarrow> v \<le> 64) \<Longrightarrow> ep0_only s (setx a v t)"
  by (auto simp: ep0_only_def)

lemma ep0_only_put: "ep0_only s t \<Longrightarrow> i < 64 \<Longrightarrow> ep0_only s (ep0_put i v t)"
proof -
  assume *: "ep0_only s t" "i < 64"
  then have "unat (word_of_nat i :: uint16) = i" by (simp add: unat_of_nat_small)
  with *(2) have "EP0BUF + word_of_nat i \<in> {EP0BUF..EP0BUF + 63}"
    by (auto simp: word_le_nat_alt unat_word_ariths)
  with * show ?thesis
    unfolding ep0_put_def by (intro ep0_only_setx) (auto simp: ep0_regs_def word_le_nat_alt)
qed

lemma ep0_only_send: "ep0_only s t \<Longrightarrow> n \<le> 64 \<Longrightarrow> ep0_only s (send_ep0 n t)"
  unfolding send_ep0_def by (intro ep0_only_setx) (auto simp: ep0_regs_def)

lemma ep0_only_stall: "ep0_only s t \<Longrightarrow> ep0_only s (EZUSB_STALL_EP0 t)"
  unfolding EZUSB_STALL_EP0_def by (intro ep0_only_setx) (auto simp: ep0_regs_def)

lemma ep0_only_toggle: "ep0_only s t \<Longrightarrow> ep0_only s (EZUSB_RESET_DATA_TOGGLE ep t)"
  unfolding EZUSB_RESET_DATA_TOGGLE_def Let_def by (intro ep0_only_setx) (auto simp: ep0_regs_def)

lemma ep0_only_vars [simp]:
  "ep0_only s (t\<lparr>usb_Rwuen := b\<rparr>) = ep0_only s t" "ep0_only s (t\<lparr>usb_Configuration := c\<rparr>) = ep0_only s t"
  "ep0_only s (t\<lparr>usb_BulkReason := c\<rparr>) = ep0_only s t" "ep0_only s (t\<lparr>usb_epcs_noop := c\<rparr>) = ep0_only s t"
  "ep0_only s (t\<lparr>usb_InterfaceSetting := i\<rparr>) = ep0_only s t" "ep0_only s (t\<lparr>usb_LinkLoss := c\<rparr>) = ep0_only s t"
  "ep0_only s (t\<lparr>usb_LineCode := i\<rparr>) = ep0_only s t" "ep0_only s (t\<lparr>usb_ConfigDscr := i\<rparr>) = ep0_only s t"
  by (simp_all add: ep0_only_def)

lemma ep0_only_sfr:
  "ep0_only s t \<Longrightarrow> ep0_only s (set_sfr EXIF v t)"
  "ep0_only s t \<Longrightarrow> v AND 0xF4 = usb_sfr t IOA AND 0xF4 \<Longrightarrow> ep0_only s (set_sfr IOA v t)"
  by (simp_all add: ep0_only_def set_sfr_def)

lemma epcs_offset_range: "epcs_offset ep = Some off \<Longrightarrow> off \<le> 5"
  by (auto simp: epcs_offset_def split: if_splits)

lemma epcs_register: "off \<le> (5 :: uint16) \<Longrightarrow> 0xE6A1 + off \<in> {0xE6A0..0xE6A6}"
  by (auto simp: word_le_nat_alt unat_word_ariths)

lemma ep0_only_epcs: "ep0_only s t \<Longrightarrow> ep0_only s (epcs_modify ep f t)" "ep0_only s t \<Longrightarrow> ep0_only s (snd (epcs_read ep t))"
proof -
  assume t: "ep0_only s t"
  show "ep0_only s (epcs_modify ep f t)"
  proof (cases "epcs_offset ep")
    case None
    then show ?thesis using t by (simp add: epcs_modify_def)
  next
    case (Some off)
    define a where "a = 0xE6A1 + off"
    have "a \<in> {0xE6A0..0xE6A6}" unfolding a_def by (rule epcs_register [OF epcs_offset_range [OF Some]])
    then have "a \<in> ep0_regs" "a \<noteq> EP0BCL" by (auto simp: ep0_regs_def word_le_nat_alt)
    then show ?thesis using Some t by (auto simp: epcs_modify_def a_def [symmetric] intro: ep0_only_setx)
  qed
  show "ep0_only s (snd (epcs_read ep t))" using t by (simp add: epcs_read_def split: option.split)
qed

lemmas ep0_intros = ep0_only_put ep0_only_send ep0_only_stall ep0_only_toggle ep0_only_epcs ep0_only_sfr

section \<open>Requests\<close>

text \<open>A request that is handled: the variables stay well-formed, only registers of the endpoints and pins 0, 1 and 3
  of port A change.\<close>

definition handled :: "usb_state \<Rightarrow> usb_state \<Rightarrow> bool" where
  "handled s s' \<longleftrightarrow> usb_ok s' \<and> ep0_only s s'"

lemma string_loop_ok:
  "i \<le> 31 \<Longrightarrow> handled t s \<Longrightarrow> fst (string_loop i str s) \<le> 31 \<and> handled t (snd (string_loop i str s))"
proof (induction i str s rule: string_loop.induct)
  case (1 i str s)
  show ?case
  proof (cases "i < 31 \<and> i < length str")
    case True
    then have "handled t (ep0_put (2 * i + 3) 0 (ep0_put (2 * i + 2) (of_char (str ! i)) s))"
      using "1.prems"(2) unfolding handled_def by (auto intro!: ep0_intros)
    with 1 True show ?thesis by (subst (1 2) string_loop.simps) simp
  next
    case False
    with "1.prems" show ?thesis by (subst (1 2) string_loop.simps) auto
  qed
qed

lemma get_string_handled: "usb_ok s \<Longrightarrow> \<exists>s'. get_string s = Some s' \<and> handled s s'"
proof -
  assume ok: "usb_ok s"
  let ?str = "USB_strings ! unat (setupdat s 2)"
  obtain i t where t: "string_loop 0 ?str s = (i, t)" by fastforce
  from string_loop_ok [of 0 s s ?str] ok t have it: "i \<le> 31" "ep0_only s t" "usb_ok t" by (auto simp: handled_def)
  have n: "unat (word_of_nat (2 * i + 2) :: uint8) = 2 * i + 2" using it(1) by (intro unat_of_nat_small) simp
  have "(word_of_nat (2 * i + 2) :: uint8) \<le> 64" unfolding word_le_nat_alt n using it(1) by simp
  then show ?thesis
    using ok t it unfolding handled_def get_string_def array_get_def Let_def by (auto intro!: ep0_intros)
qed

lemma send_config_handled:
  assumes "usb_ok s" "cfg \<noteq> ENDPNT_DSCR"
  shows "\<exists>s'. send_config cfg speed s = Some s' \<and> handled s s'"
proof -
  obtain c u where "usb_ConfigDscr s = config_with c u" using assms(1) by (auto simp: usb_ok_def)
  with assms show ?thesis
    by (auto simp: send_config_def ModifyDscr_config handled_def ep0_regs_def usb_ok_def intro!: ep0_only_setx)
qed

lemma get_descriptor_handled: "usb_ok s \<Longrightarrow> \<exists>s'. get_descriptor s = Some s' \<and> handled s s'"
  using send_config_handled [of s] get_string_handled [of s]
  by (auto simp: get_descriptor_def Let_def handled_def ep0_regs_def intro!: ep0_intros ep0_only_setx)

lemma interface_handled:
  assumes "usb_ok s"
  shows "\<exists>s'. get_interface s = Some s' \<and> handled s s'" "\<exists>s'. set_interface s = Some s' \<and> handled s s'"
  using assms usb_ok_interface [OF assms]
  by (auto simp: handled_def get_interface_def set_interface_def array_get_def array_set_def Let_def intro!: ep0_intros)

lemma standard_request_handled: "usb_ok s \<Longrightarrow> \<exists>s'. standard_request s = Some s' \<and> handled s s'"
proof -
  assume ok: "usb_ok s"
  have "handled s (get_status s)" "handled s (clear_feature s)"
    "handled s (set_feature s)" "handled s (EZUSB_STALL_EP0 s)" "handled s (send_ep0 1 (ep0_put 0 (usb_Configuration s) s))"
    "handled s (s\<lparr>usb_Configuration := setupdat s 2\<rparr>)"
    using ok
    by (auto simp: handled_def get_status_def clear_feature_def set_feature_def Let_def split_beta intro!: ep0_intros)
  then show ?thesis
    using get_descriptor_handled [OF ok] interface_handled [OF ok] by (simp add: standard_request_def Let_def)
qed

lemma handled_put: "handled t s \<Longrightarrow> i < 64 \<Longrightarrow> handled t (ep0_put i v s)"
  by (simp add: handled_def ep0_only_put)

lemma put_line_code_handled:
  "i + n \<le> 7 \<Longrightarrow> handled t s \<Longrightarrow> \<exists>s'. put_line_code n i s = Some s' \<and> handled t s'"
proof (induction n arbitrary: i s)
  case (Suc n)
  then have "i < length (usb_LineCode s)" by (simp add: handled_def usb_ok_def)
  with Suc show ?case by (simp add: array_get_def handled_put)
qed simp

lemma take_line_code_handled:
  "i + n \<le> 7 \<Longrightarrow> handled t s \<Longrightarrow> \<exists>s'. take_line_code n i s = Some s' \<and> handled t s'"
proof (induction n arbitrary: i s)
  case (Suc n)
  then have "i < length (usb_LineCode s)" by (simp add: handled_def usb_ok_def)
  moreover from Suc have "handled t (s\<lparr>usb_LineCode := (usb_LineCode s)[i := v]\<rparr>)" for v
    by (simp add: handled_def usb_ok_def)
  ultimately show ?case using Suc by (simp add: array_set_def)
qed simp

lemma class_request_handled: "usb_ok s \<Longrightarrow> \<exists>s'. class_request s = Some s' \<and> handled s s'"
  using put_line_code_handled [of 0 7 s s]
  by (auto simp: class_request_def Let_def handled_def ep0_regs_def intro!: ep0_intros ep0_only_setx)

lemma usb_ok_port: "usb_ok s \<Longrightarrow> \<not> bit v 1 \<Longrightarrow> usb_ok (set_sfr IOA v s)"
  by (simp add: usb_ok_def set_sfr_def)

lemma usb_ok_sfr: "a \<noteq> IOA \<Longrightarrow> usb_ok (set_sfr a v s) = usb_ok s"
  by (simp add: usb_ok_def set_sfr_def)

lemma vendor_request_handled: "usb_ok s \<Longrightarrow> handled s (vendor_request s)"
proof -
  assume ok: "usb_ok s"
  then have "\<not> bit (usb_sfr s IOA) 1" by (simp add: usb_ok_def)
  then have "\<not> bit ((usb_sfr s IOA AND 0xF7) OR push_bit 3 (setupdat s 2 AND 1)) 1" by (simp add: bit_simps)
  moreover have "((usb_sfr s IOA AND 0xF7) OR push_bit 3 (setupdat s 2 AND 1)) AND 0xF4 = usb_sfr s IOA AND 0xF4"
  proof -
    have "push_bit 3 (setupdat s 2 AND 1) AND 0xF4 = 0" by (cases "odd (setupdat s 2)") (simp_all add: and_one_eq odd_iff_mod_2_eq_one even_iff_mod_2_eq_zero)
    then show ?thesis by (simp add: bit.conj_disj_distrib2 and.assoc)
  qed
  ultimately show ?thesis using ok by (auto simp: vendor_request_def handled_def intro!: ep0_intros usb_ok_port)
qed

lemma handled_step: "handled s t \<Longrightarrow> a \<in> ep0_regs \<Longrightarrow> a \<noteq> EP0BCL \<Longrightarrow> handled s (setx a v t)"
  by (auto simp: handled_def intro: ep0_only_setx)

lemma handled_trans:
  "handled s t \<Longrightarrow> handled t u \<Longrightarrow> handled s u"
  by (auto simp: handled_def ep0_only_def)

lemma SetupCommand_handled: "usb_ok s \<Longrightarrow> \<exists>s'. SetupCommand s = Some s' \<and> handled s s'"
proof -
  assume ok: "usb_ok s"
  obtain t where t: "standard_request s = Some t" "handled s t" using standard_request_handled [OF ok] by blast
  have "handled s (EZUSB_STALL_EP0 s)" using ok by (simp add: handled_def ep0_only_stall)
  then have "\<exists>u. (if setupdat s 0 AND 0x60 = 0 then standard_request s
      else if setupdat s 0 AND 0x60 = 0x20 then class_request s
      else if setupdat s 0 AND 0x60 = 0x40 then Some (vendor_request s)
      else Some (EZUSB_STALL_EP0 s)) = Some u \<and> handled s u"
    using t class_request_handled [OF ok] vendor_request_handled [OF ok] by simp
  then show ?thesis
    by (auto simp: SetupCommand_def Let_def ep0_regs_def intro!: handled_step)
qed

lemma bang_bits_ok: "usb_ok s \<Longrightarrow> handled t s \<Longrightarrow> handled t (bang_bits n shift s)"
proof (induction n arbitrary: shift s)
  case 0
  then show ?case by simp
next
  case (Suc n)
  have "\<not> bit (usb_sfr s IOA) 1" using Suc.prems by (simp add: usb_ok_def)
  then have "\<not> bit (usb_sfr (bang_bit shift s) IOA) 1" using bang_bit_port(2) bang_value_bits(1) by simp
  then have "usb_ok (bang_bit shift s)" using Suc.prems(1)
    by (simp add: usb_ok_def bang_bit_def set_sfr_def Let_def)
  moreover have "ep0_only t (bang_bit shift s)"
  proof -
    have two: "(v OR 2) AND 0xF4 = v AND 0xF4" "(v AND - 3) AND 0xF4 = v AND (0xF4 :: uint8)" for v
      by (simp_all add: bit.conj_disj_distrib2 and.assoc)
    have narrow: "(v AND 0xFC) AND 0xF4 = v AND (0xF4 :: uint8)" for v by (simp add: and.assoc)
    have low: "bang_value v shift AND 0xF4 = v AND 0xF4" for v
      using arg_cong [OF bang_value_bits(3) [of v shift], of "\<lambda>x. x AND 0xF4"] unfolding narrow .
    show ?thesis
      using Suc.prems(2) unfolding bang_bit_def handled_def Let_def bang_value_def [symmetric]
      by (intro ep0_only_sfr(2)) (simp_all add: set_sfr_def two low)
  qed
  ultimately show ?case using Suc.IH by (simp add: handled_def)
qed

lemma BulkCommand_handled: "handled t s \<Longrightarrow> \<exists>s'. BulkCommand s = Some s' \<and> handled t s'"
proof -
  assume ok: "handled t s"
  obtain u where u: "take_line_code 7 0 s = Some u" "handled t u" using take_line_code_handled [OF _ ok, of 0 7] by auto
  then have "handled t (BangBaudRate u)" unfolding BangBaudRate_def by (intro bang_bits_ok) (simp_all add: handled_def)
  with ok u(1) show ?thesis by (simp add: BulkCommand_def handled_def)
qed

lemma USB_isr_handled: "usb_ok s \<Longrightarrow> \<exists>s'. USB_isr s = Some s' \<and> handled s s'"
proof -
  assume ok: "usb_ok s"
  let ?s = "set_sfr EXIF (usb_sfr s EXIF AND NOT 0x10) s"
  have h: "handled s ?s" using ok by (simp add: handled_def usb_ok_sfr ep0_only_sfr)
  have irq: "handled s (setx USBIRQ v ?s)" "handled s (setx EPIRQ v ?s)" for v
    using h by (auto simp: ep0_regs_def intro!: handled_step)
  have "usb_ok (setx USBIRQ 0x01 ?s)" using irq(1) [of "0x01"] by (simp only: handled_def)
  from SetupCommand_handled [OF this] obtain u where
    "SetupCommand (setx USBIRQ 0x01 ?s) = Some u" "handled (setx USBIRQ 0x01 ?s) u" by blast
  then have u: "SetupCommand (setx USBIRQ 0x01 ?s) = Some u" "handled s u"
    using handled_trans [OF irq(1) [of "0x01"]] by simp_all
  have "handled s ((setx USBIRQ 0x02 ?s)\<lparr>usb_LinkLoss := 0\<rparr>)"
    using irq(1) [of "0x02"] by (simp add: handled_def usb_ok_def)
  then show ?thesis
    using u h BulkCommand_handled [OF irq(2) [of "0x2"]] unfolding USB_isr_def Let_def by simp
qed

lemma timer_isr_ok: "usb_ok s \<Longrightarrow> usb_ok (timer_isr s)"
proof -
  assume ok: "usb_ok s"
  let ?s = "set_sfr T2CON (usb_sfr s T2CON AND NOT 0xC0) s"
  have "usb_ok ?s" using ok by (simp add: usb_ok_sfr)
  moreover from this have "\<not> bit (usb_sfr ?s IOA AND 0xF7) 1" by (simp add: usb_ok_def bit_simps)
  moreover have "usb_LinkLoss s + 1 \<le> 20" if "usb_LinkLoss s < 20"
    using that by (simp add: inc_le)
  ultimately show ?thesis
    by (auto simp: timer_isr_def Let_def intro: usb_ok_port) (simp add: usb_ok_def set_sfr_def)
qed

lemma write_all_frame [simp]:
  "usb_ok (write_all ws s) = usb_ok s" "usb_InterfaceSetting (write_all ws s) = usb_InterfaceSetting s"
  "usb_LineCode (write_all ws s) = usb_LineCode s" "usb_LinkLoss (write_all ws s) = usb_LinkLoss s"
  "usb_ConfigDscr (write_all ws s) = usb_ConfigDscr s" "usb_sfr (write_all ws s) = usb_sfr s"
  unfolding write_all_def by (induction ws arbitrary: s) auto

lemma BangBaudRate_ok: "usb_ok s \<Longrightarrow> usb_ok (BangBaudRate s)"
  using bang_bits_ok [of s s] by (simp add: BangBaudRate_def handled_def)

lemma usb_ok_port_and: "usb_ok s \<Longrightarrow> usb_ok (set_sfr IOA (usb_sfr s IOA AND v) s)"
  by (rule usb_ok_port) (simp_all add: usb_ok_def bit_simps)

lemma usb_main_ok: "usb_ok (usb_main (usb_static x f))"
proof -
  have "usb_ok (set_sfr IOA 0x80 (set_sfr IE v (write_all ws (setx a w (usb_static x f)))))" for v ws a w
    by (auto simp: usb_ok_def set_sfr_def usb_static_def myConfigDscr_with)
  then show ?thesis
    unfolding usb_main_def Initialize_def Let_def
    by (simp add: usb_ok_sfr) (intro usb_ok_port_and BangBaudRate_ok, simp add: usb_ok_sfr)
qed

lemma usb_run_ok: "usb_run s \<Longrightarrow> usb_ok s"
proof (induction rule: usb_run.induct)
  case (usb_start x f)
  show ?case by (rule usb_main_ok)
next
  case (usb_interrupt s s')
  then show ?case using USB_isr_handled [of s] by (auto simp: handled_def)
next
  case (usb_timer s)
  then show ?case by (intro timer_isr_ok)
next
  case (usb_hardware s f x)
  then show ?case by (simp add: usb_ok_def)
qed

section \<open>Loss of the link\<close>

lemma timer_isr_effect:
  "usb_LinkLoss (timer_isr s) = (if usb_LinkLoss s < 20 then usb_LinkLoss s + 1 else usb_LinkLoss s)"
  "usb_sfr (timer_isr s) IOA = (if usb_LinkLoss s < 20 then usb_sfr s IOA else usb_sfr s IOA AND 0xF7)"
  by (simp_all add: timer_isr_def Let_def set_sfr_def)

lemma timer_ticks:
  assumes "usb_LinkLoss s = 0"
  shows "usb_LinkLoss ((timer_isr ^^ n) s) = word_of_nat (min n 20) \<and>
   usb_sfr ((timer_isr ^^ n) s) IOA = (if n \<le> 20 then usb_sfr s IOA else usb_sfr s IOA AND 0xF7)"
proof (induction n)
  case 0
  then show ?case using assms by simp
next
  case (Suc n)
  have "unat (word_of_nat (min n 20) :: uint8) = min n 20" by (rule unat_of_nat_small) simp
  then have lt: "(word_of_nat (min n 20) :: uint8) < 20 \<longleftrightarrow> n < 20" unfolding word_less_nat_alt by (simp add: min_def)
  have port: "(usb_sfr s IOA AND 0xF7) AND 0xF7 = usb_sfr s IOA AND 0xF7" by (simp add: and.assoc)
  show ?case
    using Suc lt port by (auto simp: timer_isr_effect min_def split: if_splits)
qed

section \<open>Properties\<close>

text \<open>C37: The firmware programs the correctly rounded baud rate. The FPGA, which samples pin 0 of port A at every rising
  edge of pin 1, receives the 17 low bits, least significant first, of the integer nearest to
  \<open>speed * 2 ^ 14 / 1953125\<close> (that is \<open>speed * 2 ^ 16 * 8 / 62.5 MHz\<close>), where \<open>speed\<close> is the 32-bit little-endian number in
  the first four bytes of the line coding; none of the 32-bit operations overflows for any speed. The other pins of the
  port do not change meanwhile.\<close>

theorem baud_rate_exact:
  assumes "\<not> bit (usb_sfr s IOA) 1" "length (usb_LineCode s) = 7"
  shows "\<exists>vs. port_a (BangBaudRate s) = port_a s @ vs \<and>
    clocked_bits (usb_sfr s IOA) vs =
      map (bit (nearest (unat (ucast (get_raw 0 4 (usb_LineCode s)) :: uint32) * 2 ^ 14) 1953125)) [0..<17] \<and>
    (\<forall>v \<in> set vs. v AND 0xFC = usb_sfr s IOA AND 0xFC)"
proof -
  let ?w = "line_speed (usb_LineCode s)"
  have "bit (baud_divisor ?w) = bit (nearest (unat ?w * 2 ^ 14) 1953125)"
    unfolding unat_baud_divisor [symmetric] by (rule ext) (simp add: bit_nat_unat)
  with bang_bits_port [OF assms(1), of 17 "baud_divisor ?w"] line_speed_little_endian [of "usb_LineCode s"] assms(2)
  show ?thesis by (simp add: BangBaudRate_def)
qed

theorem baud_rate_exact_witness:
  "\<exists>vs. port_a (BangBaudRate (usb_static (\<lambda>_. 0) (\<lambda>_. 0x80))) = vs \<and>
    clocked_bits 0x80 vs = map (bit (966 :: nat)) [0..<17] \<and> (\<forall>v \<in> set vs. v AND 0xFC = 0x80)"
proof -
  let ?s = "usb_static (\<lambda>_. 0) (\<lambda>_. 0x80)"
  have "\<not> bit (usb_sfr ?s IOA) 1" "length (usb_LineCode ?s) = 7" by (simp_all add: usb_static_def)
  from baud_rate_exact [OF this] show ?thesis
    by (simp add: usb_static_def port_a_def get_raw_def nearest_def)
qed

text \<open>C36: Every interrupt is handled, whatever the host sends. In every state that a run of the firmware reaches, with any
  contents of the registers, the service routine returns: the walk over the descriptors ends, and no index that the
  host sends leads outside of the arrays of the program. Of the memory-mapped registers it changes only those of the
  endpoints and the 64 bytes of the buffer of endpoint 0, and a byte count that it announces is at most 64; of the
  special function registers it changes only the interrupt flag and pins 0, 1 and 3 of port A. The variables of the
  program stay well-formed, in particular the configuration descriptor sent to the host.\<close>

theorem usb_interrupts_handled:
  assumes "usb_run s"
  shows "\<exists>s'. USB_isr s = Some s' \<and> usb_ok s' \<and>
    (\<forall>a. usb_xdata s' a \<noteq> usb_xdata s a \<longrightarrow> a \<in> ep0_regs) \<and>
    (usb_xdata s' EP0BCL \<noteq> usb_xdata s EP0BCL \<longrightarrow> usb_xdata s' EP0BCL \<le> 64) \<and>
    (\<forall>a. usb_sfr s' a \<noteq> usb_sfr s a \<longrightarrow> a = IOA \<or> a = EXIF) \<and> usb_sfr s' IOA AND 0xF4 = usb_sfr s IOA AND 0xF4"
  using USB_isr_handled [OF usb_run_ok [OF assms]] by (auto simp: handled_def ep0_only_def)

text \<open>A request of the host for an interface that does not exist, in the state after the start.\<close>

definition setup_packet :: "uint8 \<Rightarrow> uint8 \<Rightarrow> uint8 \<Rightarrow> uint16 \<Rightarrow> uint8" where
  "setup_packet request value index = (\<lambda>a. 0)(SETUPDAT + 1 := request, SETUPDAT + 2 := value, SETUPDAT + 4 := index)"

theorem usb_interrupts_handled_witness:
  "\<exists>s s'. usb_run s \<and> usb_xdata s = setup_packet 0x0b 1 200 \<and> USB_isr s = Some s' \<and> usb_ok s' \<and>
     usb_InterfaceSetting s' = [0, 0, 0] \<and> bit (usb_xdata s' EP0CS) 0"
proof -
  let ?t = "usb_main (usb_static (\<lambda>_. 0) (\<lambda>_. 0))"
  let ?s = "?t\<lparr>usb_xdata := setup_packet 0x0b 1 200, usb_sfr := usb_sfr ?t\<rparr>"
  have run: "usb_run ?s" by (intro usb_hardware usb_start refl)
  have set: "usb_InterfaceSetting (bang_bits n sh u) = usb_InterfaceSetting u" for n sh u
    by (induction n arbitrary: sh u) (simp_all add: bang_bit_def set_sfr_def Let_def)
  have init: "usb_InterfaceSetting ?s = [0, 0, 0]"
    by (simp add: usb_main_def Initialize_def Let_def set_sfr_def BangBaudRate_def set usb_static_def)
  obtain s' where s': "USB_isr ?s = Some s'" "usb_ok s'" using usb_interrupts_handled [OF run] by blast
  have "usb_InterfaceSetting s' = [0, 0, 0] \<and> bit (usb_xdata s' EP0CS) 0"
    using s'(1) init
    by (auto simp: USB_isr_def SetupCommand_def standard_request_def set_interface_def EZUSB_STALL_EP0_def setupdat_def
        setup_packet_def set_sfr_def setx_def bit_simps)
  with run s' show ?thesis by (intro exI [of _ ?s] exI [of _ s']) simp
qed

text \<open>The loss of the link closes the cycle line, and nothing else does. After a start of frame, which resets the
  count, up to 20 ticks of the timer (20 ms) leave port A alone; from the 21st tick on, pin 3 is low and the other pins
  are as before.\<close>

theorem link_loss_closes_cycle:
  assumes "usb_LinkLoss s = 0"
  shows "usb_sfr ((timer_isr ^^ n) s) IOA = (if n \<le> 20 then usb_sfr s IOA else usb_sfr s IOA AND 0xF7)"
  using timer_ticks [OF assms] by simp

theorem link_loss_closes_cycle_witness:
  "usb_sfr ((timer_isr ^^ 21) (usb_static (\<lambda>_. 0) (\<lambda>_. 0x08))) IOA = 0"
proof -
  have "usb_LinkLoss (usb_static (\<lambda>_. 0) (\<lambda>_. 0x08)) = 0" by (simp add: usb_static_def)
  from link_loss_closes_cycle [OF this, of 21] show ?thesis by (simp add: usb_static_def)
qed

end
