(* ===== verification/ECA_Table.thy ===== *)
theory ECA_Table
  imports WR_Prelude
begin

text \<open>
  The condition table of the event-condition-action unit,
  \<^verbatim>\<open>modules/wr_eca/lib/table.cpp\<close>: which rules (channel, time offset, tag) fire for
  which 64-bit event. The software form \<^verbatim>\<open>Table::Impl\<close> holds, per channel and offset, a
  \<^verbatim>\<open>std::map\<close> of event ranges; \<^verbatim>\<open>get\<close> turns it into prefix rules for the user,
  \<^verbatim>\<open>compile\<close> into the search and walk tables of the hardware and \<^verbatim>\<open>decompile\<close> back.

  A \<^verbatim>\<open>std::map\<close> is an association list in the order of its keys, an iterator into it a split
  of that list: the elements before it, last one first, and the elements from it on. This theory
  holds the definitions; \<^verbatim>\<open>ECA_Filter\<close>, \<^verbatim>\<open>ECA_Get\<close>, \<^verbatim>\<open>ECA_Compile\<close> and
  \<^verbatim>\<open>ECA_Decompile\<close> hold the lemmas on the range map, the prefix form and the two hardware
  directions.
\<close>

section \<open>Data\<close>

type_synonym channel = uint8
type_synonym event = uint64
type_synonym index = "16 word"
type_synonym param = uint64
type_synonym tag = uint32
type_synonym tef = uint32
type_synonym time = uint64

record table_entry =
  te_event :: event
  te_offset :: time
  te_tag :: tag
  te_channel :: channel
  te_event_bits :: uint8

record event_range =
  er_end :: event
  er_tag :: tag

type_synonym event_filter = "(event \<times> event_range) list"
type_synonym table_actions = "(time \<times> event_filter) list"
type_synonym channel_map = "table_actions list"

record search_entry =
  se_event :: event
  se_first :: index

record walk_entry =
  we_offset :: time
  we_tag :: tag
  we_next :: index
  we_channel :: channel

section \<open>Adding a rule\<close>

text \<open>The loop over the ranges that touch the new one, from the last one down. The result is the
  number of conflicts, the merged range and the map without the ranges merged into it.\<close>

fun add_loop :: "tag \<Rightarrow> int \<Rightarrow> event \<Rightarrow> event \<Rightarrow> event_filter \<Rightarrow> event_filter \<Rightarrow>
    int \<times> event \<times> event \<times> event_filter" where
  "add_loop tg n b e [] rs = (n, b, e, rs)"
| "add_loop tg n b e ((k, r) # ls) rs =
     (if b - 1 \<le> er_end r \<or> b = 0 then
        if er_tag r \<noteq> tg \<and> k = e + 1 then add_loop tg n b e ls ((k, r) # rs)
        else if er_tag r \<noteq> tg \<and> er_end r + 1 = b then (n, b, e, rev ls @ (k, r) # rs)
        else add_loop tg (if er_tag r \<noteq> tg then n + 1 else n)
               (if k < b then k else b) (if e < er_end r then er_end r else e) ls rs
      else (n, b, e, rev ls @ (k, r) # rs))"

definition filter_add :: "event \<Rightarrow> event \<Rightarrow> tag \<Rightarrow> event_filter \<Rightarrow> int \<times> event_filter" where
  "filter_add b e tg ef =
     (let (ls, rs) = (if e + 1 = 0 then map_end ef else upper_bound (e + 1) ef);
          (n, b', e', ef') = add_loop tg 0 b e ls rs
      in (n, map_set b' \<lparr>er_end = e', er_tag = tg\<rparr> ef'))"

definition resize :: "nat \<Rightarrow> channel_map \<Rightarrow> channel_map" where
  "resize n d = d @ replicate (n - length d) []"

definition table_add_range :: "event \<Rightarrow> event \<Rightarrow> time \<Rightarrow> channel \<Rightarrow> tag \<Rightarrow> channel_map \<Rightarrow>
    int \<times> channel_map" where
  "table_add_range b e ofs ch tg d =
     (if e < b then (0, d)
      else
        let d1 = (if unat ch \<ge> length d then resize (unat ch + 1) d else d);
            ta = d1 ! unat ch;
            (n, ef) = filter_add b e tg (map_at ofs ta)
        in (n, d1[unat ch := map_set ofs ef ta]))"

section \<open>Removing a rule\<close>

fun remove_loop :: "int \<Rightarrow> event \<Rightarrow> event \<Rightarrow> event_filter \<Rightarrow> event_filter \<Rightarrow> int \<times> event_filter" where
  "remove_loop n b e [] rs = (n, rs)"
| "remove_loop n b e ((k, r) # ls) rs =
     (if b \<le> er_end r then
        if k < b then
          if e < er_end r then
            remove_loop (n + 1) b e ls ((k, r\<lparr>er_end := b - 1\<rparr>) # map_set (e + 1) r rs)
          else remove_loop (n + 1) b e ls ((k, r\<lparr>er_end := b - 1\<rparr>) # rs)
        else
          if e < er_end r then remove_loop (n + 1) b e ls (map_set (e + 1) r rs)
          else remove_loop (n + 1) b e ls rs
      else (n, rev ls @ (k, r) # rs))"

definition filter_remove :: "event \<Rightarrow> event \<Rightarrow> event_filter \<Rightarrow> int \<times> event_filter" where
  "filter_remove b e ef = (let (ls, rs) = upper_bound e ef in remove_loop 0 b e ls rs)"

definition table_remove_range :: "event \<Rightarrow> event \<Rightarrow> time \<Rightarrow> channel \<Rightarrow> channel_map \<Rightarrow>
    int \<times> channel_map" where
  "table_remove_range b e ofs ch d =
     (if e < b then (0, d)
      else if unat ch \<ge> length d then (0, d)
      else
        let ta = d ! unat ch in
        case map_of ta ofs of
          None \<Rightarrow> (0, d)
        | Some ef \<Rightarrow> (let (n, ef') = filter_remove b e ef in (n, d[unat ch := map_set ofs ef' ta])))"

text \<open>In the loop the iterator has to survive \<^verbatim>\<open>ef[end+1] = i->second\<close>: \<^verbatim>\<open>end+1\<close> is larger
  than the key the iterator stands at, so the element lands behind it.\<close>

section \<open>Rules on event prefixes\<close>

definition eca_encode_mask :: "uint8 \<Rightarrow> event" where
  "eca_encode_mask bits =
     (if bits > 64 then 0 else if bits = 64 then 0 else drop_bit (unat bits) (- 1))"

definition te_begin :: "table_entry \<Rightarrow> event" where
  "te_begin te = te_event te AND NOT (eca_encode_mask (te_event_bits te))"

definition te_end :: "table_entry \<Rightarrow> event" where
  "te_end te = te_begin te OR eca_encode_mask (te_event_bits te)"

definition table_add :: "table_entry \<Rightarrow> channel_map \<Rightarrow> int \<times> channel_map" where
  "table_add te d = table_add_range (te_begin te) (te_end te) (te_offset te) (te_channel te) (te_tag te) d"

definition table_remove :: "table_entry \<Rightarrow> channel_map \<Rightarrow> int \<times> channel_map" where
  "table_remove te d = table_remove_range (te_begin te) (te_end te) (te_offset te) (te_channel te) d"

fun table_set_loop :: "int \<Rightarrow> table_entry list \<Rightarrow> channel_map \<Rightarrow> int \<times> channel_map" where
  "table_set_loop n [] d = (n, d)"
| "table_set_loop n (te # tes) d = (let (m, d') = table_add te d in table_set_loop (n + m) tes d')"

definition table_set :: "table_entry list \<Rightarrow> channel_map \<Rightarrow> int \<times> channel_map" where
  "table_set tes d = table_set_loop 0 tes d"

section \<open>The table as a list of prefix rules\<close>

definition sort_event_bits_offset_channel :: "table_entry \<Rightarrow> table_entry \<Rightarrow> bool" where
  "sort_event_bits_offset_channel a b =
     (if te_event a < te_event b then True
      else if te_event a > te_event b then False
      else if te_event_bits a < te_event_bits b then True
      else if te_event_bits a > te_event_bits b then False
      else if te_offset a < te_offset b then True
      else if te_offset a > te_offset b then False
      else te_channel a < te_channel b)"

function decode_mask_loop :: "uint32 \<Rightarrow> event \<Rightarrow> uint32" where
  "decode_mask_loop c m = (if m = 0 then c else decode_mask_loop (c - 1) (drop_bit 1 m))"
  by auto
termination
proof (relation "measure (\<lambda>(c, m). unat m)")
  fix c :: uint32 and m :: event
  assume "m \<noteq> 0"
  then show "((c - 1, drop_bit 1 m), (c, m)) \<in> measure (\<lambda>(c, m). unat m)"
    by (simp add: unat_half_less)
qed simp

declare decode_mask_loop.simps [simp del]

definition eca_decode_mask :: "event \<Rightarrow> uint32" where
  "eca_decode_mask m = decode_mask_loop 64 m"

text \<open>Ones in the places of the trailing zeros of \<^verbatim>\<open>begin\<close>, and in the places of the trailing ones
  of \<^verbatim>\<open>end\<close>.\<close>

definition low_mask :: "event \<Rightarrow> event" where
  "low_mask b = (b XOR (b - 1)) AND NOT b"

definition high_mask :: "event \<Rightarrow> event" where
  "high_mask e = ((e + 1) XOR e) AND e"

lemma high_mask_part: "e AND NOT (high_mask e) = e - high_mask e"
  unfolding high_mask_def by (rule and_not_part)

lemma high_mask_le: "e - high_mask e \<le> e"
  unfolding high_mask_def by (rule and_part_le)

text \<open>The two loops of \<^verbatim>\<open>get\<close> over one range: the first splits the largest aligned block off its
  beginning as long as more than that block is left, the second splits off its end. Each result is
  the blocks (first event, mask) in the order they are pushed, and the bound that is left.\<close>

function split_low :: "event \<Rightarrow> event \<Rightarrow> (event \<times> event) list \<times> event" where
  "split_low b e =
     (let m = low_mask b in
      if b OR m \<ge> e then ([], b)
      else let (bs, b') = split_low ((b OR m) + 1) e in ((b, m) # bs, b'))"
  by auto
termination
  by (relation "measure (\<lambda>(b, e). unat e - unat b)") (auto simp: not_le intro!: unat_diff_step [OF le_or])

function split_high :: "event \<Rightarrow> event \<Rightarrow> (event \<times> event) list \<times> event" where
  "split_high b e =
     (let m = high_mask e in
      if b \<ge> e - m then ([], e)
      else let e1 = e AND NOT m; (bs, e') = split_high b (e1 - 1) in ((e1, m) # bs, e'))"
  by auto
termination
  by (relation "measure (\<lambda>(b, e). unat e)")
    (auto simp: not_le high_mask_part intro: unat_pred_less high_mask_le)

declare split_low.simps [simp del]
declare split_high.simps [simp del]

text \<open>The entries of one range: the blocks of both loops, then what is left.\<close>

definition get_range :: "channel \<Rightarrow> time \<Rightarrow> event \<Rightarrow> event_range \<Rightarrow> table_entry list" where
  "get_range ch ofs b r =
     (let te = (\<lambda>(ev, m). \<lparr>te_event = ev, te_offset = ofs, te_tag = er_tag r, te_channel = ch,
                          te_event_bits = ucast (eca_decode_mask m)\<rparr>);
          (low, b') = split_low b (er_end r);
          (high, e') = split_high b' (er_end r)
      in map te low @ map te high @ [te (b', e' - b')])"

fun get_filter :: "channel \<Rightarrow> time \<Rightarrow> event_filter \<Rightarrow> table_entry list" where
  "get_filter ch ofs [] = []"
| "get_filter ch ofs ((b, r) # ef) = get_range ch ofs b r @ get_filter ch ofs ef"

fun get_actions :: "channel \<Rightarrow> table_actions \<Rightarrow> table_entry list" where
  "get_actions ch [] = []"
| "get_actions ch ((ofs, ef) # ta) = get_filter ch ofs ef @ get_actions ch ta"

fun get_channels :: "nat \<Rightarrow> channel_map \<Rightarrow> table_entry list" where
  "get_channels c [] = []"
| "get_channels c (ta # d) = get_actions (word_of_nat c) ta @ get_channels (c + 1) d"

definition table_get :: "channel_map \<Rightarrow> table_entry list" where
  "table_get d = sort_by sort_event_bits_offset_channel (get_channels 0 d)"

section \<open>Compiling to the hardware tables\<close>

text \<open>The vectors \<^verbatim>\<open>ends\<close> and \<^verbatim>\<open>next\<close> are stacks, here with the top first; the entries of
  \<^verbatim>\<open>t\<close> from \<^verbatim>\<open>ti\<close> on are the list that is left.\<close>

fun compile_push :: "event \<Rightarrow> table_entry list \<Rightarrow> event list \<Rightarrow> index list \<Rightarrow> walk_entry list \<Rightarrow>
    table_entry list \<times> event list \<times> index list \<times> walk_entry list" where
  "compile_push ix [] ends nxt w = ([], ends, nxt, w)"
| "compile_push ix (te # ts) ends nxt w =
     (if te_event te = ix then
        compile_push ix ts
          ((te_event te OR eca_encode_mask (te_event_bits te)) # ends)
          (word_of_nat (length w) # nxt)
          (w @ [\<lparr>we_offset = te_offset te, we_tag = te_tag te,
                 we_next = (if nxt = [] then - 1 else hd nxt), we_channel = te_channel te\<rparr>])
      else (te # ts, ends, nxt, w))"

fun compile_pop :: "event \<Rightarrow> event list \<Rightarrow> index list \<Rightarrow> event list \<times> index list" where
  "compile_pop ix [] nxt = ([], nxt)"
| "compile_pop ix (e # ends) nxt = (if e = ix then compile_pop ix ends (tl nxt) else (e # ends, nxt))"

lemma compile_push_length:
  "compile_push ix ts ends nxt w = (ts', ends', nxt', w') \<Longrightarrow>
   length ts' + length ends' = length ts + length ends \<and> length ts' \<le> length ts \<and>
   (ts \<noteq> [] \<longrightarrow> te_event (hd ts) = ix \<longrightarrow> length ts' < length ts) \<and>
   (ts' \<noteq> [] \<longrightarrow> te_event (hd ts') \<noteq> ix)"
  by (induction ix ts ends nxt w rule: compile_push.induct) (force split: if_splits)+

lemma compile_pop_length:
  "compile_pop ix ends nxt = (ends', nxt') \<Longrightarrow>
   length ends' \<le> length ends \<and> (ends \<noteq> [] \<longrightarrow> hd ends = ix \<longrightarrow> length ends' < length ends)"
  by (induction ix ends nxt rule: compile_pop.induct) (auto split: if_splits)

text \<open>An iteration that pushes nothing and pops nothing moves to the event of the next entry, which
  the following iteration pushes.\<close>

definition compile_measure :: "event \<Rightarrow> table_entry list \<Rightarrow> event list \<Rightarrow> nat" where
  "compile_measure ix ts ends =
     2 * length ts + length ends + (if ts \<noteq> [] \<and> te_event (hd ts) = ix then 0 else 1)"

lemma compile_measure_pop:
  assumes "compile_push ix ts ends nxt w = (ts1, ends1, nxt1, w1)" "ends1 \<noteq> []"
    "compile_pop (hd ends1) ends1 nxt1 = (ends2, nxt2)"
  shows "compile_measure ix' ts1 ends2 < compile_measure ix ts ends"
  using compile_push_length [OF assms(1)] compile_pop_length [OF assms(3)] assms(2)
  by (cases ts) (auto simp: compile_measure_def)

lemma compile_measure_next:
  assumes "compile_push ix ts ends nxt w = (ts1, ends1, nxt1, w1)" "ts1 \<noteq> []"
  shows "compile_measure (te_event (hd ts1)) ts1 ends1 < compile_measure ix ts ends"
  using compile_push_length [OF assms(1)] assms(2)
  by (cases ts) (auto simp: compile_measure_def)

function compile_loop :: "event \<Rightarrow> table_entry list \<Rightarrow> event list \<Rightarrow> index list \<Rightarrow>
    search_entry list \<Rightarrow> walk_entry list \<Rightarrow> search_entry list \<times> walk_entry list" where
  "compile_loop ix ts ends nxt s w =
     (case compile_push ix ts ends nxt w of (ts1, ends1, nxt1, w1) \<Rightarrow>
        let s1 = s @ [\<lparr>se_event = ix, se_first = (if nxt1 = [] then - 1 else hd nxt1)\<rparr>] in
        if ends1 \<noteq> [] \<and> (ts1 = [] \<or> hd ends1 < te_event (hd ts1)) then
          (case compile_pop (hd ends1) ends1 nxt1 of (ends2, nxt2) \<Rightarrow>
             if hd ends1 + 1 = 0 then (s1, w1)
             else compile_loop (hd ends1 + 1) ts1 ends2 nxt2 s1 w1)
        else if ts1 \<noteq> [] then compile_loop (te_event (hd ts1)) ts1 ends1 nxt1 s1 w1
        else (s1, w1))"
  by auto
termination
  by (relation "measure (\<lambda>(ix, ts, ends, nxt, s, w). compile_measure ix ts ends)")
    (auto intro: compile_measure_pop [OF sym _ sym] compile_measure_next [OF sym])

declare compile_loop.simps [simp del]

definition table_compile :: "channel_map \<Rightarrow> search_entry list \<times> walk_entry list" where
  "table_compile d = compile_loop 0 (table_get d) [] [] [] []"

section \<open>Decompiling the hardware tables\<close>

text \<open>An index below \<^verbatim>\<open>-1\<close> passes the range check of the loop and reads outside the vector.\<close>

datatype eca_fault = Wild_index

partial_function (option) decompile_walk :: "walk_entry list \<Rightarrow> event \<Rightarrow> event \<Rightarrow> index \<Rightarrow> int \<Rightarrow>
    channel_map \<Rightarrow> (eca_fault + int \<times> channel_map) option" where
  "decompile_walk w b e wi n d =
     (if wi = - 1 then Some (Inr (n, d))
      else if sint wi \<ge> int (length w) then Some (Inr (n + 1, d))
      else if sint wi < 0 then Some (Inl Wild_index)
      else
        let we = w ! nat (sint wi);
            (m, d') = table_add_range b e (we_offset we) (we_channel we) (we_tag we) d
        in decompile_walk w b e (we_next we) (n + m) d')"

text \<open>The outer loop runs over the search entries from the last one down.\<close>

fun decompile_loop :: "walk_entry list \<Rightarrow> event \<Rightarrow> search_entry list \<Rightarrow> int \<Rightarrow> channel_map \<Rightarrow>
    (eca_fault + int \<times> channel_map) option" where
  "decompile_loop w lst [] n d = Some (Inr (n, d))"
| "decompile_loop w lst (se # s) n d =
     (case decompile_walk w (se_event se) lst (se_first se) n d of
        None \<Rightarrow> None
      | Some (Inl f) \<Rightarrow> Some (Inl f)
      | Some (Inr (n', d')) \<Rightarrow> decompile_loop w (se_event se - 1) s n' d')"

definition table_decompile :: "search_entry list \<Rightarrow> walk_entry list \<Rightarrow> channel_map \<Rightarrow>
    (eca_fault + int \<times> channel_map) option" where
  "table_decompile s w d = decompile_loop w (- 1) (rev s) 0 d"

end
