(* ===== verification/ECA_Filter.thy ===== *)
theory ECA_Filter
  imports ECA_Table
begin

text \<open>
  The range map of one channel and offset. \<open>ef_lookup\<close> reads it as a function from events to tags;
  the invariant \<open>ef_ok\<close> says its ranges are non-empty, in order and disjoint. Adding a rule paints
  its range, and every stored range it overlaps, with the tag of the rule; removing a range clears
  exactly that range.
\<close>

section \<open>The map as a function\<close>

definition in_range :: "event \<Rightarrow> event \<times> event_range \<Rightarrow> bool" where
  "in_range x p \<longleftrightarrow> fst p \<le> x \<and> x \<le> er_end (snd p)"

definition meets :: "event \<Rightarrow> event \<Rightarrow> event \<times> event_range \<Rightarrow> bool" where
  "meets b e p \<longleftrightarrow> fst p \<le> e \<and> b \<le> er_end (snd p)"

definition before :: "event \<times> event_range \<Rightarrow> event \<times> event_range \<Rightarrow> bool" where
  "before p q \<longleftrightarrow> er_end (snd p) < fst q"

definition ef_ok :: "event_filter \<Rightarrow> bool" where
  "ef_ok ef \<longleftrightarrow> sorted_wrt before ef \<and> (\<forall>p \<in> set ef. fst p \<le> er_end (snd p))"

definition ef_lookup :: "event_filter \<Rightarrow> event \<Rightarrow> tag option" where
  "ef_lookup ef x = map_option (er_tag \<circ> snd) (find (in_range x) ef)"

lemma ef_ok_Nil [simp]: "ef_ok []"
  by (simp add: ef_ok_def)

lemma ef_lookup_Nil [simp]: "ef_lookup [] x = None"
  by (simp add: ef_lookup_def)

lemma ef_ok_append:
  "ef_ok (xs @ ys) \<longleftrightarrow> ef_ok xs \<and> ef_ok ys \<and> (\<forall>p \<in> set xs. \<forall>q \<in> set ys. before p q)"
  by (auto simp: ef_ok_def sorted_wrt_append)

lemma ef_ok_Cons:
  "ef_ok (p # ys) \<longleftrightarrow> fst p \<le> er_end (snd p) \<and> ef_ok ys \<and> (\<forall>q \<in> set ys. before p q)"
  by (auto simp: ef_ok_def)

lemma ef_ok_nonempty: "ef_ok ef \<Longrightarrow> p \<in> set ef \<Longrightarrow> fst p \<le> er_end (snd p)"
  by (simp add: ef_ok_def)

lemma ef_ok_unique:
  assumes "ef_ok ef" "p \<in> set ef" "q \<in> set ef" "in_range x p" "in_range x q"
  shows "p = q"
  using assms
proof (induction ef)
  case Nil
  then show ?case by simp
next
  case (Cons a ef)
  then show ?case by (auto simp: ef_ok_Cons before_def in_range_def)
qed

lemma ef_lookup_Some_iff:
  assumes "ef_ok ef"
  shows "ef_lookup ef x = Some t \<longleftrightarrow> (\<exists>p \<in> set ef. in_range x p \<and> er_tag (snd p) = t)"
  using assms
proof (induction ef)
  case Nil
  then show ?case by simp
next
  case (Cons a ef)
  have "\<not> in_range x q" if "in_range x a" "q \<in> set ef" for q
    using Cons.prems that by (auto simp: ef_ok_Cons before_def in_range_def)
  with Cons show ?case by (cases a) (auto simp: ef_lookup_def ef_ok_Cons)
qed

lemma ef_lookup_None_iff: "ef_lookup ef x = None \<longleftrightarrow> (\<forall>p \<in> set ef. \<not> in_range x p)"
  by (induction ef) (auto simp: ef_lookup_def)

lemma ef_lookup_eqI:
  assumes "ef_ok ef" "ef_ok ef'"
    and "\<And>p. in_range x p \<Longrightarrow> p \<in> set ef \<longleftrightarrow> p \<in> set ef'"
  shows "ef_lookup ef x = ef_lookup ef' x"
proof (cases "ef_lookup ef' x")
  case None
  then have "ef_lookup ef x = None" using assms(3) by (auto simp: ef_lookup_None_iff)
  with None show ?thesis by simp
next
  case (Some t)
  then have "ef_lookup ef x = Some t" using assms by (auto simp: ef_lookup_Some_iff)
  with Some show ?thesis by simp
qed

lemma set_map_set:
  "ef_ok m \<Longrightarrow> \<forall>p \<in> set m. fst p \<noteq> k \<Longrightarrow> set (map_set k v m) = insert (k, v) (set m)"
  by (induction k v m rule: map_set.induct) (auto simp: ef_ok_Cons)

lemma ef_ok_map_set:
  assumes "ef_ok m" "k \<le> er_end v" "\<forall>p \<in> set m. er_end (snd p) < k \<or> er_end v < fst p"
  shows "ef_ok (map_set k v m)"
  using assms
proof (induction k v m rule: map_set.induct)
  case (1 k v)
  then show ?case by (simp add: ef_ok_def)
next
  case (2 k v l u m)
  have "fst p \<noteq> k" if "p \<in> set m" for p
    using 2(2-4) that ef_ok_nonempty [of m p] by (fastforce simp: ef_ok_Cons)
  then have set: "set (map_set k v m) = insert (k, v) (set m)"
    using 2(2) by (intro set_map_set) (auto simp: ef_ok_Cons)
  show ?case
  proof (cases "k < l")
    case True
    with 2(2-4) have "er_end v < l" by (auto simp: ef_ok_Cons)
    with 2(2-4) True show ?thesis by (auto simp: ef_ok_Cons before_def)
  next
    case False
    with 2 have "l < k" "er_end u < k" by (auto simp: ef_ok_Cons)
    with 2 False set show ?thesis by (auto simp: ef_ok_Cons before_def)
  qed
qed

section \<open>Adding\<close>

text \<open>What the loop of \<^verbatim>\<open>add\<close> leaves of the map \<open>old\<close> when the new range grows from \<open>[b, e]\<close> to
  \<open>[b', e']\<close>: the ranges away from \<open>[b', e']\<close>. The others lie inside it, and meet \<open>[b, e]\<close> or have
  the tag of the new rule.\<close>

definition add_result :: "tag \<Rightarrow> event \<Rightarrow> event \<Rightarrow> event_filter \<Rightarrow> event \<Rightarrow> event \<Rightarrow> event_filter \<Rightarrow> bool" where
  "add_result tg b e old b' e' m \<longleftrightarrow>
     b' \<le> b \<and> e \<le> e' \<and> ef_ok m \<and> set m \<subseteq> set old \<and>
     (\<forall>p \<in> set m. er_end (snd p) < b' \<or> e' < fst p) \<and>
     (\<forall>p \<in> set old - set m. b' \<le> fst p \<and> er_end (snd p) \<le> e' \<and> (meets b e p \<or> er_tag (snd p) = tg)) \<and>
     (\<forall>x. b' \<le> x \<longrightarrow> x \<le> e' \<longrightarrow> b \<le> x \<and> x \<le> e \<or> (\<exists>p \<in> set old - set m. in_range x p))"

lemma add_result_same:
  "b \<le> e \<Longrightarrow> ef_ok old \<Longrightarrow> \<forall>p \<in> set old. \<not> meets b e p \<Longrightarrow> add_result tg b e old b e old"
  by (auto simp: add_result_def meets_def not_le)

lemma add_result_merge:
  assumes res: "add_result tg (min k b) (max (er_end r) e) (xs @ ys) b' e' m"
    and ok: "ef_ok (xs @ (k, r) # ys)"
    and hit: "meets b e (k, r) \<or> er_tag r = tg"
    and touch: "unat b \<le> unat (er_end r) + 1" "unat k \<le> unat e + 1" and ne: "b \<le> e"
  shows "add_result tg b e (xs @ (k, r) # ys) b' e' m"
proof -
  have kr: "k \<le> er_end r" using ok by (auto simp: ef_ok_append ef_ok_Cons)
  have apart: "er_end (snd p) < k \<or> er_end r < fst p" if "p \<in> set (xs @ ys)" for p
    using ok that by (auto simp: ef_ok_append ef_ok_Cons before_def)
  have notin: "(k, r) \<notin> set m"
    using res apart [of "(k, r)"] kr by (auto simp: add_result_def)
  have meets: "meets b e p" if "p \<in> set (xs @ ys)" "meets (min k b) (max (er_end r) e) p" for p
  proof -
    have "fst p \<le> er_end (snd p)" using ok that(1) ef_ok_nonempty by fastforce
    with that(2) apart [OF that(1)] touch show ?thesis
      by (auto simp: meets_def min_def max_def word_le_nat_alt word_less_nat_alt split: if_splits)
  qed
  have inside: "b \<le> x \<and> x \<le> e \<or> k \<le> x \<and> x \<le> er_end r"
    if "min k b \<le> x" "x \<le> max (er_end r) e" for x
    using that touch kr ne by (auto simp: min_def max_def word_le_nat_alt word_less_nat_alt split: if_splits)
  have old: "set (xs @ (k, r) # ys) - set m = insert (k, r) (set (xs @ ys) - set m)"
    using notin by auto
  note R = res [unfolded add_result_def]
  have cover: "b \<le> x \<and> x \<le> e \<or> (\<exists>p \<in> insert (k, r) (set (xs @ ys) - set m). in_range x p)"
    if "b' \<le> x" "x \<le> e'" for x
    using R that inside [of x] by (auto simp: in_range_def)
  have gone: "b' \<le> fst p \<and> er_end (snd p) \<le> e' \<and> (meets b e p \<or> er_tag (snd p) = tg)"
    if "p \<in> insert (k, r) (set (xs @ ys) - set m)" for p
    using R that hit meets [of p] by (auto simp del: set_append)
  have sub: "set m \<subseteq> set (xs @ (k, r) # ys)" using R by auto
  show ?thesis
    unfolding add_result_def old using R cover gone sub by (auto simp del: set_append)
qed

text \<open>Before each iteration the ranges behind the iterator lie beyond the new one, the ranges before
  it begin at most one event after it. The two tests for ranges that only touch the new one wrap in
  two cases, which \<open>no_wrap\<close> excludes for an overlapped range \<open>p\<close> of another tag. The test
  \<open>second.end + 1 == begin\<close> holds although they overlap when \<open>p\<close> ends at the last event and the new
  range begins at event 0. The test \<open>first == end + 1\<close> does when \<open>p\<close> begins at event 0 and the new
  range reaches the last event, by itself or because a range merged into it earlier does.\<close>

definition merged :: "tag \<Rightarrow> event \<Rightarrow> event \<Rightarrow> event \<times> event_range \<Rightarrow> bool" where
  "merged tg b e q \<longleftrightarrow> meets b e q \<or> er_tag (snd q) = tg \<and> fst q = e + 1"

definition no_wrap :: "tag \<Rightarrow> event \<Rightarrow> event \<Rightarrow> event_filter \<Rightarrow> bool" where
  "no_wrap tg b e ef \<longleftrightarrow>
     (\<forall>p \<in> set ef. er_tag (snd p) \<noteq> tg \<longrightarrow> meets b e p \<longrightarrow>
        \<not> (b = 0 \<and> er_end (snd p) = - 1) \<and>
        \<not> (fst p = 0 \<and>
           (e = - 1 \<or> (\<exists>q \<in> set ef. q \<noteq> p \<and> er_end (snd q) = - 1 \<and> merged tg b e q))))"

lemma no_wrap_subset: "no_wrap tg b e ef \<Longrightarrow> set ef' \<subseteq> set ef \<Longrightarrow> no_wrap tg b e ef'"
  unfolding no_wrap_def by (meson subsetD)

definition conflicts :: "tag \<Rightarrow> event \<Rightarrow> event \<Rightarrow> event_filter \<Rightarrow> int" where
  "conflicts tg b e ef = int (length (filter (\<lambda>p. meets b e p \<and> er_tag (snd p) \<noteq> tg) ef))"

lemma conflicts_rev [simp]: "conflicts tg b e (rev ef) = conflicts tg b e ef"
  by (simp add: conflicts_def rev_filter [symmetric])

lemma conflicts_none: "\<forall>p \<in> set ef. \<not> meets b e p \<Longrightarrow> conflicts tg b e ef = 0"
  by (simp add: conflicts_def)

lemma word_minus_one_iff: "e + 1 = 0 \<longleftrightarrow> e = - 1" for e :: "'a :: len word"
  by (simp add: eq_neg_iff_add_eq_0)

lemma pred_le_iff: "b - 1 \<le> x \<or> b = 0 \<longleftrightarrow> unat b \<le> unat x + 1" for b x :: "'a :: len word"
  by (cases "b = 0") (auto simp: word_le_nat_alt unat_pred)

definition add_pre :: "tag \<Rightarrow> event \<Rightarrow> event \<Rightarrow> event_filter \<Rightarrow> event_filter \<Rightarrow> bool" where
  "add_pre tg b e ls rs \<longleftrightarrow>
     b \<le> e \<and> ef_ok (rev ls @ rs) \<and> no_wrap tg b e ls \<and>
     (\<forall>p \<in> set rs. e < fst p \<or> ls = [] \<and> er_end (snd p) < b) \<and>
     (\<forall>p \<in> set ls. unat (fst p) \<le> unat e + 1)"

lemma add_pre_last:
  "add_pre tg b e ((k, r) # ls) rs \<Longrightarrow> p \<in> set ls \<Longrightarrow> er_end (snd p) < k"
  by (auto simp: add_pre_def ef_ok_append before_def)

lemma add_pre_skip:
  assumes pre: "add_pre tg b e ((k, r) # ls) rs" and tag: "er_tag r \<noteq> tg" and k: "k = e + 1"
  shows "add_pre tg b e ls ((k, r) # rs)" "\<not> meets b e (k, r)"
proof -
  show far: "\<not> meets b e (k, r)"
  proof (cases "e + 1 = 0")
    case True
    then show ?thesis using pre tag k by (auto simp: add_pre_def no_wrap_def word_minus_one_iff)
  next
    case False
    then have "unat (e + 1) = unat e + 1" by (rule unat_succ_max)
    with k show ?thesis by (simp add: meets_def word_le_nat_alt)
  qed
  have "e < k \<or> ls = [] \<and> er_end r < b"
  proof (cases "e + 1 = 0")
    case True
    with add_pre_last [OF pre] k have "ls = []" by (cases ls) auto
    moreover from True k far have "er_end r < b" by (simp add: meets_def not_le)
    ultimately show ?thesis by simp
  next
    case False
    then have "unat (e + 1) = unat e + 1" by (rule unat_succ_max)
    with k show ?thesis by (simp add: word_less_nat_alt)
  qed
  with pre no_wrap_subset [of tg b e "(k, r) # ls" ls] show "add_pre tg b e ls ((k, r) # rs)"
    by (auto simp: add_pre_def)
qed

lemma add_pre_stop:
  assumes pre: "add_pre tg b e ((k, r) # ls) rs" and below: "er_end r < b"
  shows "\<forall>p \<in> set (rev ls @ (k, r) # rs). \<not> meets b e p"
proof -
  have "er_end (snd p) < b" if "p \<in> set ls" for p
    using add_pre_last [OF pre that] below pre
    by (auto simp: add_pre_def ef_ok_append ef_ok_Cons)
  with below pre show ?thesis by (force simp: meets_def add_pre_def)
qed

lemma add_pre_below:
  assumes pre: "add_pre tg b e ((k, r) # ls) rs" and "k \<noteq> e + 1" "\<not> meets b e (k, r)"
  shows "er_end r < b"
proof -
  have "k \<le> e"
  proof (cases "e + 1 = 0")
    case True
    then show ?thesis by (rule word_max_ge)
  next
    case False
    then have "unat (e + 1) = unat e + 1" by (rule unat_succ_max)
    with assms(2) have "unat k \<noteq> unat e + 1" by (metis word_unat_eq_iff)
    with pre show ?thesis by (auto simp: add_pre_def word_le_nat_alt)
  qed
  with assms(3) show ?thesis by (simp add: meets_def not_le)
qed

text \<open>After a merge the ranges still to be visited end before \<open>k\<close>, so none of them reaches the last
  event; one that begins at event 0 meets a new range that does not reach it either.\<close>

lemma add_pre_no_wrap:
  assumes pre: "add_pre tg b e ((k, r) # ls) rs" and hit: "meets b e (k, r) \<or> er_tag r = tg"
    and p: "p \<in> set ls"
  shows "er_end (snd p) \<noteq> - 1"
    and "er_tag (snd p) \<noteq> tg \<Longrightarrow> meets b e p \<Longrightarrow> fst p = 0 \<Longrightarrow> max (er_end r) e \<noteq> - 1"
proof -
  show low: "er_end (snd p) \<noteq> - 1" using add_pre_last [OF pre p] by auto
  show "max (er_end r) e \<noteq> - 1" if other: "er_tag (snd p) \<noteq> tg" "meets b e p" "fst p = 0"
  proof
    assume top: "max (er_end r) e = - 1"
    from pre p other have "e \<noteq> - 1" by (auto simp: add_pre_def no_wrap_def)
    with top have r: "er_end r = - 1" by (auto simp: max_def split: if_splits)
    have "merged tg b e (k, r)"
      using hit add_pre_below [OF pre] r by (auto simp: merged_def)
    moreover have "(k, r) \<noteq> p" using low r by auto
    ultimately show False using pre p other r by (auto simp: add_pre_def no_wrap_def)
  qed
qed

lemma add_pre_merge:
  assumes pre: "add_pre tg b e ((k, r) # ls) rs" and touch: "unat b \<le> unat (er_end r) + 1"
    and hit: "meets b e (k, r) \<or> er_tag r = tg"
  shows "add_pre tg (min k b) (max (er_end r) e) ls rs"
    and "conflicts tg (min k b) (max (er_end r) e) ls = conflicts tg b e ls"
proof -
  have ok: "ef_ok (rev ls @ (k, r) # rs)" using pre by (simp add: add_pre_def)
  have meets: "meets (min k b) (max (er_end r) e) p \<longleftrightarrow> meets b e p" if p: "p \<in> set ls" for p
  proof -
    have "fst p \<le> er_end (snd p)" using ok p by (auto simp: ef_ok_append ef_ok_Cons ef_ok_nonempty)
    with add_pre_last [OF pre p] pre show ?thesis
      by (auto simp: meets_def min_def max_def add_pre_def word_le_nat_alt word_less_nat_alt)
  qed
  have "unat (fst p) \<le> unat (max (er_end r) e) + 1" if "p \<in> set ls" for p
    using pre that by (auto simp: add_pre_def max_def word_le_nat_alt)
  moreover have "max (er_end r) e < fst p" if "p \<in> set rs" for p
    using pre ok that by (auto simp: add_pre_def ef_ok_append ef_ok_Cons before_def max_def)
  moreover have "no_wrap tg (min k b) (max (er_end r) e) ls"
    using add_pre_no_wrap [OF pre hit] meets by (auto simp: no_wrap_def)
  ultimately show "add_pre tg (min k b) (max (er_end r) e) ls rs"
    using pre ok by (auto simp: add_pre_def ef_ok_append ef_ok_Cons min_def max_def)
  show "conflicts tg (min k b) (max (er_end r) e) ls = conflicts tg b e ls"
    unfolding conflicts_def using meets by (auto cong: filter_cong)
qed

lemma add_loop_result:
  assumes "add_pre tg b e ls rs" "add_loop tg n b e ls rs = (n', b', e', m)"
  shows "add_result tg b e (rev ls @ rs) b' e' m \<and> n' = n + conflicts tg b e ls"
  using assms
proof (induction tg n b e ls rs rule: add_loop.induct)
  case (1 tg n b e rs)
  then have "\<forall>p \<in> set rs. \<not> meets b e p" by (force simp: add_pre_def meets_def)
  with 1 show ?case by (auto intro!: add_result_same simp: add_pre_def conflicts_def)
next
  case (2 tg n b e k r ls rs)
  note pre = 2(3)
  have ok: "ef_ok (rev ls @ (k, r) # rs)" and be: "b \<le> e" and k: "unat k \<le> unat e + 1"
    using pre by (auto simp: add_pre_def)
  have stop: ?case if "er_end r < b" "(n', b', e', m) = (n, b, e, rev ls @ (k, r) # rs)"
    using that add_pre_stop [OF pre that(1)] add_result_same [OF be ok]
    by (auto simp: conflicts_none)
  show ?case
  proof (cases "unat b \<le> unat (er_end r) + 1")
    case False
    with 2(4) stop show ?thesis by (auto simp: pred_le_iff word_less_nat_alt)
  next
    case touch: True
    consider (skip) "er_tag r \<noteq> tg" "k = e + 1"
      | (adjacent) "er_tag r \<noteq> tg" "k \<noteq> e + 1" "er_end r + 1 = b"
      | (merge) "er_tag r = tg \<or> k \<noteq> e + 1 \<and> er_end r + 1 \<noteq> b"
      by blast
    then show ?thesis
    proof cases
      case skip
      with 2(1) [OF _ conjI [OF skip]] 2(4) touch add_pre_skip [OF pre skip] show ?thesis
        by (simp add: pred_le_iff conflicts_def)
    next
      case adjacent
      have "\<not> meets b e (k, r)"
      proof (cases "b = 0")
        case True
        then show ?thesis using adjacent pre by (auto simp: add_pre_def no_wrap_def word_minus_one_iff)
      next
        case False
        with adjacent(3) unat_succ_max [of "er_end r"] show ?thesis by (simp add: meets_def word_le_nat_alt)
      qed
      with add_pre_below [OF pre adjacent(2)] have "er_end r < b" .
      with 2(4) stop touch adjacent show ?thesis by (simp add: pred_le_iff)
    next
      case merge
      have hit: "meets b e (k, r) \<or> er_tag r = tg"
      proof (rule ccontr)
        assume no: "\<not> ?thesis"
        with merge add_pre_below [OF pre] have "er_end r < b" by blast
        with touch have "unat b = unat (er_end r) + 1" "er_end r < b" by (auto simp: word_less_nat_alt)
        then have "er_end r + 1 = b" by (metis unat_succ word_unat_eq_iff)
        with no merge show False by simp
      qed
      have new: "(if k < b then k else b) = min k b" "(if e < er_end r then er_end r else e) = max (er_end r) e"
        by (auto simp: min_def max_def)
      have step: "add_loop tg (if er_tag r \<noteq> tg then n + 1 else n) (min k b) (max (er_end r) e) ls rs
          = (n', b', e', m)"
        using 2(4) touch merge by (auto simp: pred_le_iff new split: if_splits)
      have "add_result tg (min k b) (max (er_end r) e) (rev ls @ rs) b' e' m \<and>
          n' = (if er_tag r \<noteq> tg then n + 1 else n) + conflicts tg (min k b) (max (er_end r) e) ls"
        using 2(2) [unfolded new, OF _ _ _ add_pre_merge(1) [OF pre touch hit] step] touch merge
        by (auto simp: pred_le_iff)
      with add_result_merge [OF _ ok hit touch k be] add_pre_merge(2) [OF pre touch hit] hit show ?thesis
        by (auto simp: conflicts_def)
    qed
  qed
qed

lemma upper_bound_parts:
  assumes "upper_bound k m = (ls, rs)"
  shows "rev ls @ rs = m" "\<forall>p \<in> set ls. fst p \<le> k"
    "sorted_wrt (\<lambda>p q. fst p < fst q) m \<Longrightarrow> \<forall>p \<in> set rs. k < fst p"
proof -
  have ls: "rev ls = takeWhile (\<lambda>(l, v). l \<le> k) m" and rs: "rs = dropWhile (\<lambda>(l, v). l \<le> k) m"
    using assms by (auto simp: upper_bound_def)
  show "rev ls @ rs = m" by (simp add: ls rs)
  have "\<forall>p \<in> set (takeWhile (\<lambda>(l, v). l \<le> k) m). fst p \<le> k"
    by (auto dest: set_takeWhileD)
  then show "\<forall>p \<in> set ls. fst p \<le> k"
    unfolding ls [symmetric] by simp
  show "\<forall>p \<in> set rs. k < fst p" if "sorted_wrt (\<lambda>p q. fst p < fst q) m"
    unfolding rs using that by (induction m) (auto simp: not_le split: prod.splits)
qed

lemma ef_ok_keys: "ef_ok ef \<Longrightarrow> sorted_wrt (\<lambda>p q. fst p < fst q) ef"
proof (induction ef)
  case (Cons p ef)
  then show ?case by (force simp: ef_ok_Cons before_def)
qed simp

lemma filter_add_pre:
  assumes ok: "ef_ok ef" and be: "b \<le> e" and nw: "no_wrap tg b e ef"
    and it: "(if e + 1 = 0 then map_end ef else upper_bound (e + 1) ef) = (ls, rs)"
  shows "add_pre tg b e ls rs" "rev ls @ rs = ef"
proof -
  show split: "rev ls @ rs = ef"
    using it upper_bound_parts(1) by (auto simp: map_end_def split: if_splits)
  have "(\<forall>p \<in> set rs. e < fst p) \<and> (\<forall>p \<in> set ls. unat (fst p) \<le> unat e + 1)"
  proof (cases "e + 1 = 0")
    case True
    have "unat x \<le> unat e + 1" for x :: event
      using word_max_ge [OF True, of x] by (simp add: word_le_nat_alt)
    with True it show ?thesis by (auto simp: map_end_def)
  next
    case False
    with it have "upper_bound (e + 1) ef = (ls, rs)" by simp
    note ub = upper_bound_parts [OF this]
    from ub(2) ub(3) [OF ef_ok_keys [OF ok]] show ?thesis
      by (force simp: word_le_nat_alt word_less_nat_alt unat_succ_max [OF False])
  qed
  then show "add_pre tg b e ls rs"
    using ok be split [symmetric] no_wrap_subset [OF nw, of ls] by (auto simp: add_pre_def)
qed

lemma add_result_lookup:
  assumes ok: "ef_ok ef" and res: "add_result tg b e ef b' e' m"
    and set: "set ef' = insert (b', \<lparr>er_end = e', er_tag = tg\<rparr>) (set m)" and ok': "ef_ok ef'"
  shows "ef_lookup ef' x =
           (if b \<le> x \<and> x \<le> e \<or> (\<exists>p \<in> set ef. meets b e p \<and> in_range x p) then Some tg else ef_lookup ef x)"
proof (cases "b' \<le> x \<and> x \<le> e'")
  case True
  then have "ef_lookup ef' x = Some tg"
    using ok' set by (auto simp: ef_lookup_Some_iff in_range_def)
  moreover have "ef_lookup ef x = Some tg" if "\<not> (b \<le> x \<and> x \<le> e)" "\<not> (\<exists>p \<in> set ef. meets b e p \<and> in_range x p)"
    using True res that ok unfolding add_result_def by (metis DiffD1 ef_lookup_Some_iff)
  ultimately show ?thesis by auto
next
  case False
  have kept: "p \<in> set ef \<longleftrightarrow> p \<in> set ef'" if p: "in_range x p" for p
  proof
    assume "p \<in> set ef"
    with False p res have "p \<in> set m"
      unfolding add_result_def in_range_def by (meson DiffI order_trans)
    then show "p \<in> set ef'" by (simp add: set)
  next
    assume "p \<in> set ef'"
    with False p res set show "p \<in> set ef"
      by (auto simp: add_result_def in_range_def)
  qed
  have "\<not> (b \<le> x \<and> x \<le> e)" using False res by (auto simp: add_result_def)
  moreover have "\<not> meets b e p" if "p \<in> set ef" "in_range x p" for p
  proof -
    have "p \<in> set m" using kept that False set by (auto simp: in_range_def)
    with res show ?thesis by (force simp: add_result_def meets_def)
  qed
  ultimately show ?thesis
    using ef_lookup_eqI [OF ok' ok, of x] kept by auto
qed

lemma filter_add_spec:
  assumes ok: "ef_ok ef" and be: "b \<le> e" and nw: "no_wrap tg b e ef"
    and add: "filter_add b e tg ef = (n, ef')"
  shows "ef_ok ef'" and "n = conflicts tg b e ef"
    and "ef_lookup ef' x =
           (if b \<le> x \<and> x \<le> e \<or> (\<exists>p \<in> set ef. meets b e p \<and> in_range x p) then Some tg else ef_lookup ef x)"
proof -
  obtain ls rs where it: "(if e + 1 = 0 then map_end ef else upper_bound (e + 1) ef) = (ls, rs)"
    by fastforce
  obtain n0 b' e' m where loop: "add_loop tg 0 b e ls rs = (n0, b', e', m)"
    by (cases "add_loop tg 0 b e ls rs") auto
  from add it loop have new: "n = n0" "ef' = map_set b' \<lparr>er_end = e', er_tag = tg\<rparr> m"
    by (auto simp: filter_add_def)
  note pre = filter_add_pre [OF ok be nw it]
  from add_loop_result [OF pre(1) loop] pre(2)
  have res: "add_result tg b e ef b' e' m" and n0: "n0 = conflicts tg b e ls"
    by auto
  have b'e': "b' \<le> e'" and disj: "\<forall>p \<in> set m. er_end (snd p) < b' \<or> e' < fst p" and okm: "ef_ok m"
    using res be by (auto simp: add_result_def)
  show ok': "ef_ok ef'"
    unfolding new using okm b'e' disj by (intro ef_ok_map_set) auto
  have "\<forall>p \<in> set rs. \<not> meets b e p" using pre(1) by (force simp: add_pre_def meets_def)
  then show "n = conflicts tg b e ef"
    unfolding new n0 pre(2) [symmetric] by (simp add: conflicts_def rev_filter [symmetric])
  have "fst p \<noteq> b'" if "p \<in> set m" for p
    using disj that b'e' ef_ok_nonempty [OF okm that] by auto
  then have "set ef' = insert (b', \<lparr>er_end = e', er_tag = tg\<rparr>) (set m)"
    unfolding new using okm by (intro set_map_set) auto
  then show "ef_lookup ef' x = (if b \<le> x \<and> x \<le> e \<or> (\<exists>p \<in> set ef. meets b e p \<and> in_range x p)
      then Some tg else ef_lookup ef x)"
    by (rule add_result_lookup [OF ok res _ ok'])
qed

section \<open>Removing\<close>

lemma ef_lookup_Cons [simp]:
  "ef_lookup (p # ef) x = (if in_range x p then Some (er_tag (snd p)) else ef_lookup ef x)"
  by (simp add: ef_lookup_def)

lemma ef_lookup_append:
  "ef_lookup (xs @ ys) x = (if ef_lookup xs x = None then ef_lookup ys x else ef_lookup xs x)"
  by (induction xs) auto

lemma map_set_front: "\<forall>p \<in> set m. k < fst p \<Longrightarrow> map_set k v m = (k, v) # m"
  by (cases m) auto

definition removals :: "event \<Rightarrow> event \<Rightarrow> event_filter \<Rightarrow> int" where
  "removals b e ef = int (length (filter (meets b e) ef))"

definition remove_pre :: "event \<Rightarrow> event \<Rightarrow> event_filter \<Rightarrow> event_filter \<Rightarrow> bool" where
  "remove_pre b e ls rs \<longleftrightarrow>
     b \<le> e \<and> ef_ok (rev ls @ rs) \<and> (\<forall>p \<in> set rs. \<not> meets b e p) \<and> (\<forall>p \<in> set ls. fst p \<le> e)"

text \<open>What is left of a range when \<open>[b, e]\<close> is cut out of it.\<close>

definition pieces :: "event \<Rightarrow> event \<Rightarrow> event \<times> event_range \<Rightarrow> event_filter" where
  "pieces b e p =
     (if fst p < b then [(fst p, (snd p)\<lparr>er_end := b - 1\<rparr>)] else []) @
     (if e < er_end (snd p) then [(e + 1, snd p)] else [])"

lemma pieces_pre:
  assumes pre: "remove_pre b e ((k, r) # ls) rs" and "b \<le> er_end r"
  shows "remove_pre b e ls (pieces b e (k, r) @ rs)"
    and "\<not> (b \<le> x \<and> x \<le> e) \<Longrightarrow>
         ef_lookup (rev ls @ pieces b e (k, r) @ rs) x = ef_lookup (rev ls @ (k, r) # rs) x"
proof -
  have ub: "k < b \<Longrightarrow> unat (b - 1) = unat b - 1" "e < er_end r \<Longrightarrow> unat (e + 1) = unat e + 1"
    using unat_pred_gt [of k b] unat_succ [of e "er_end r"] by auto
  have le: "k \<le> e" "b \<le> e" using pre by (auto simp: remove_pre_def)
  show "remove_pre b e ls (pieces b e (k, r) @ rs)"
    using pre assms(2) ub
    by (auto simp: remove_pre_def pieces_def ef_ok_append ef_ok_Cons before_def meets_def
        word_less_nat_alt word_le_nat_alt)
  assume "\<not> (b \<le> x \<and> x \<le> e)"
  then show "ef_lookup (rev ls @ pieces b e (k, r) @ rs) x = ef_lookup (rev ls @ (k, r) # rs) x"
    using ub assms(2) le
    by (auto simp: ef_lookup_append pieces_def in_range_def word_less_nat_alt word_le_nat_alt)
qed

lemma remove_loop_step:
  assumes "remove_pre b e ((k, r) # ls) rs" "b \<le> er_end r"
  shows "remove_loop n b e ((k, r) # ls) rs = remove_loop (n + 1) b e ls (pieces b e (k, r) @ rs)"
proof -
  have "map_set (e + 1) r rs = (e + 1, r) # rs" if "e < er_end r"
    using assms(1) that unat_succ [OF that]
    by (intro map_set_front)
      (fastforce simp: remove_pre_def ef_ok_append ef_ok_Cons before_def word_less_nat_alt)
  with assms(2) show ?thesis by (simp add: pieces_def)
qed

lemma remove_loop_result:
  assumes "remove_pre b e ls rs" "remove_loop n b e ls rs = (n', m)"
  shows "ef_ok m \<and> n' = n + removals b e ls \<and>
         ef_lookup m x = (if b \<le> x \<and> x \<le> e then None else ef_lookup (rev ls @ rs) x)"
  using assms
proof (induction ls arbitrary: n rs)
  case Nil
  then show ?case
    by (force simp: remove_pre_def removals_def ef_lookup_None_iff meets_def in_range_def)
next
  case (Cons p ls)
  obtain k r where p: "p = (k, r)" by fastforce
  note pre = Cons.prems(1) [unfolded p]
  show ?case
  proof (cases "b \<le> er_end r")
    case True
    have "k \<le> e" using pre by (simp add: remove_pre_def)
    with True have "removals b e (p # ls) = 1 + removals b e ls"
      by (simp add: removals_def p meets_def)
    moreover have "remove_loop (n + 1) b e ls (pieces b e (k, r) @ rs) = (n', m)"
      using Cons.prems(2) remove_loop_step [OF pre True] by (simp only: p)
    ultimately show ?thesis
      using Cons.IH [OF pieces_pre(1) [OF pre True], of "n + 1"] pieces_pre(2) [OF pre True, of x] by (auto simp: p)
  next
    case False
    then have far: "\<forall>q \<in> set (rev (p # ls) @ rs). \<not> meets b e q"
      using pre by (force simp: p remove_pre_def meets_def ef_ok_append ef_ok_Cons before_def)
    then have "removals b e (p # ls) = 0" by (simp add: removals_def)
    moreover have "ef_lookup (rev (p # ls) @ rs) x = None" if "b \<le> x" "x \<le> e"
      unfolding ef_lookup_None_iff using far that by (force simp: meets_def in_range_def)
    ultimately show ?thesis
      using False Cons.prems pre by (auto simp: p remove_pre_def)
  qed
qed

lemma filter_remove_spec:
  assumes ok: "ef_ok ef" and be: "b \<le> e" and rem: "filter_remove b e ef = (n, ef')"
  shows "ef_ok ef'" and "n = removals b e ef"
    and "ef_lookup ef' x = (if b \<le> x \<and> x \<le> e then None else ef_lookup ef x)"
proof -
  obtain ls rs where it: "upper_bound e ef = (ls, rs)" by fastforce
  note ub = upper_bound_parts [OF it]
  have far: "\<forall>p \<in> set rs. \<not> meets b e p"
    using ub(3) [OF ef_ok_keys [OF ok]] by (force simp: meets_def)
  have pre: "remove_pre b e ls rs"
    using ok be ub(1,2) far by (simp add: remove_pre_def)
  have "removals b e ef = removals b e ls"
    using far unfolding ub(1) [symmetric] by (simp add: removals_def rev_filter [symmetric])
  with remove_loop_result [OF pre, of 0 n ef'] rem it ub(1)
  show "ef_ok ef'" "n = removals b e ef"
    "ef_lookup ef' x = (if b \<le> x \<and> x \<le> e then None else ef_lookup ef x)"
    by (auto simp: filter_remove_def)
qed

end
