(* ===== verification/ECA_Rules.thy ===== *)
theory ECA_Rules
  imports ECA_Filter
begin

text \<open>
  The condition table as a function: \<open>rules d (channel, offset, event)\<close> is the tag the table gives
  the event on that channel with that time offset. \<^verbatim>\<open>add\<close>, \<^verbatim>\<open>del\<close> and \<^verbatim>\<open>set\<close> of
  \<^verbatim>\<open>Table\<close> are shown to be updates of that function, and the table is an instance of the
  contract \<open>painted_map\<close>, once with event ranges and once with prefix entries as its rules.
\<close>

section \<open>The table as a function\<close>

definition filter_at :: "channel_map \<Rightarrow> channel \<Rightarrow> time \<Rightarrow> event_filter" where
  "filter_at d ch ofs = (if unat ch < length d then map_at ofs (d ! unat ch) else [])"

definition rules :: "channel_map \<Rightarrow> channel \<times> time \<times> event \<Rightarrow> tag option" where
  "rules d = (\<lambda>(ch, ofs, x). ef_lookup (filter_at d ch ofs) x)"

definition tbl_ok :: "channel_map \<Rightarrow> bool" where
  "tbl_ok d \<longleftrightarrow> length d \<le> 256 \<and> (\<forall>ta \<in> set d. map_ok ta \<and> (\<forall>p \<in> set ta. ef_ok (snd p)))"

lemma tbl_ok_Nil [simp]: "tbl_ok []"
  by (simp add: tbl_ok_def)

lemma rules_Nil [simp]: "rules [] k = None"
  by (cases k) (simp add: rules_def filter_at_def)

lemma map_at_ok: "\<forall>p \<in> set ta. ef_ok (snd p) \<Longrightarrow> ef_ok (map_at ofs ta)"
  by (force simp: map_at_def split: option.splits dest: map_of_SomeD)

lemma filter_at_ok: "tbl_ok d \<Longrightarrow> ef_ok (filter_at d ch ofs)"
  by (auto simp: filter_at_def tbl_ok_def intro!: map_at_ok)

lemma unat_channel: "unat (ch :: channel) < 256"
  using unat_less_exp [of ch] by simp

text \<open>Storing a filter at a channel and an offset.\<close>

definition put_filter :: "channel \<Rightarrow> time \<Rightarrow> event_filter \<Rightarrow> channel_map \<Rightarrow> channel_map" where
  "put_filter ch ofs ef d = d[unat ch := map_set ofs ef (d ! unat ch)]"

lemma put_filter:
  assumes "tbl_ok d" "unat ch < length d"
  shows "ef_ok ef \<Longrightarrow> tbl_ok (put_filter ch ofs ef d)"
    and "filter_at (put_filter ch ofs ef d) c q = (if c = ch \<and> q = ofs then ef else filter_at d c q)"
proof -
  have ok: "map_ok (d ! unat ch)" "\<forall>p \<in> set (d ! unat ch). ef_ok (snd p)"
    using assms by (auto simp: tbl_ok_def)
  show "tbl_ok (put_filter ch ofs ef d)" if "ef_ok ef"
    using assms ok that map_ok_map_set [OF ok(1), of ofs ef] set_map_set_sub [of ofs ef "d ! unat ch"]
      set_update_subset_insert [of d "unat ch" "map_set ofs ef (d ! unat ch)"]
    by (fastforce simp: tbl_ok_def put_filter_def)
  have "unat c = unat ch \<longleftrightarrow> c = ch" by (simp add: word_unat_eq_iff)
  then show "filter_at (put_filter ch ofs ef d) c q = (if c = ch \<and> q = ofs then ef else filter_at d c q)"
    using assms(2) by (auto simp: filter_at_def put_filter_def map_at_map_set [OF ok(1)] nth_list_update)
qed

lemma resize_table:
  assumes "tbl_ok d" "n \<le> 256"
  shows "tbl_ok (resize n d)" "filter_at (resize n d) c q = filter_at d c q"
    "n \<le> length (resize n d)"
  using assms by (auto simp: tbl_ok_def resize_def filter_at_def nth_append)

section \<open>Adding and removing\<close>

definition grow :: "channel \<Rightarrow> channel_map \<Rightarrow> channel_map" where
  "grow ch d = (if unat ch \<ge> length d then resize (unat ch + 1) d else d)"

lemma grow:
  assumes "tbl_ok d"
  shows "tbl_ok (grow ch d)" "filter_at (grow ch d) c q = filter_at d c q" "unat ch < length (grow ch d)"
  using resize_table [OF assms, of "unat ch + 1"] unat_channel [of ch] assms
  by (auto simp: grow_def)

lemma table_add_range_put:
  assumes "tbl_ok d" "b \<le> e" "filter_add b e tg (filter_at d ch ofs) = (n, ef)"
  shows "table_add_range b e ofs ch tg d = (n, put_filter ch ofs ef (grow ch d))"
proof -
  have "filter_at d ch ofs = map_at ofs (grow ch d ! unat ch)"
    using grow(2) [OF assms(1), of ch ch ofs] grow(3) [OF assms(1), of ch] by (simp add: filter_at_def)
  with assms(2,3) show ?thesis
    by (simp add: table_add_range_def grow_def [symmetric] put_filter_def leD Let_def)
qed

lemma table_add_range_spec:
  assumes ok: "tbl_ok d" and be: "b \<le> e" and nw: "no_wrap tg b e (filter_at d ch ofs)"
    and add: "table_add_range b e ofs ch tg d = (n, d')"
  shows "tbl_ok d'" "n = conflicts tg b e (filter_at d ch ofs)"
    and "rules d' (c, q, x) =
      (if c = ch \<and> q = ofs \<and>
          (b \<le> x \<and> x \<le> e \<or> (\<exists>p \<in> set (filter_at d ch ofs). meets b e p \<and> in_range x p))
       then Some tg else rules d (c, q, x))"
proof -
  obtain m ef where f: "filter_add b e tg (filter_at d ch ofs) = (m, ef)" by fastforce
  note spec = filter_add_spec [OF filter_at_ok [OF ok] be nw f]
  from table_add_range_put [OF ok be f] add
  have d': "m = n" "d' = put_filter ch ofs ef (grow ch d)" by auto
  note put = put_filter [OF grow(1,3) [OF ok, of ch]]
  show "tbl_ok d'" unfolding d' by (rule put(1)) (rule spec(1))
  show "n = conflicts tg b e (filter_at d ch ofs)" using spec(2) d' by simp
  show "rules d' (c, q, x) =
      (if c = ch \<and> q = ofs \<and>
          (b \<le> x \<and> x \<le> e \<or> (\<exists>p \<in> set (filter_at d ch ofs). meets b e p \<and> in_range x p))
       then Some tg else rules d (c, q, x))"
    unfolding d' rules_def prod.case put(2) grow(2) [OF ok] using spec(3) [of x] by auto
qed

lemma table_remove_range_spec:
  assumes ok: "tbl_ok d" and rem: "table_remove_range b e ofs ch d = (n, d')"
  shows "tbl_ok d'" "n = (if b \<le> e then removals b e (filter_at d ch ofs) else 0)"
    and "rules d' (c, q, x) =
      (if c = ch \<and> q = ofs \<and> b \<le> x \<and> x \<le> e then None else rules d (c, q, x))"
proof -
  have "tbl_ok d' \<and> n = (if b \<le> e then removals b e (filter_at d ch ofs) else 0) \<and>
    rules d' (c, q, x) =
      (if c = ch \<and> q = ofs \<and> b \<le> x \<and> x \<le> e then None else rules d (c, q, x))"
  proof (cases "b \<le> e \<and> unat ch < length d \<and> map_of (d ! unat ch) ofs \<noteq> None")
    case False
    then have "b \<le> e \<Longrightarrow> filter_at d ch ofs = []"
      by (auto simp: filter_at_def map_at_def)
    moreover from False rem have "n = 0" "d' = d"
      by (auto simp: table_remove_range_def Let_def not_le not_less split: if_splits)
    ultimately show ?thesis
      using ok by (auto simp: removals_def rules_def)
  next
    case True
    then obtain ef where ef: "map_of (d ! unat ch) ofs = Some ef" by auto
    with True have at: "filter_at d ch ofs = ef" by (simp add: filter_at_def map_at_def)
    obtain m ef' where f: "filter_remove b e ef = (m, ef')" by fastforce
    with True rem ef have d': "m = n" "d' = put_filter ch ofs ef' d"
      by (auto simp: table_remove_range_def put_filter_def leD)
    note spec = filter_remove_spec [OF filter_at_ok [OF ok, of ch ofs, unfolded at] conjunct1 [OF True] f]
    note put = put_filter [OF ok, of ch]
    from True spec put show ?thesis
      unfolding d' by (auto simp: rules_def at)
  qed
  then show "tbl_ok d'" "n = (if b \<le> e then removals b e (filter_at d ch ofs) else 0)"
    "rules d' (c, q, x) =
      (if c = ch \<and> q = ofs \<and> b \<le> x \<and> x \<le> e then None else rules d (c, q, x))"
    by auto
qed

section \<open>The table keeps the contract of a painted map\<close>

text \<open>A rule over an event range: first and last event, offset, channel, tag.\<close>

type_synonym range_rule = "event \<times> event \<times> time \<times> channel \<times> tag"

definition range_region :: "range_rule \<Rightarrow> (channel \<times> time \<times> event) set" where
  "range_region = (\<lambda>(b, e, ofs, ch, tg). {(ch, ofs, x) | x. b \<le> x \<and> x \<le> e})"

definition range_tag :: "range_rule \<Rightarrow> tag" where
  "range_tag = (\<lambda>(b, e, ofs, ch, tg). tg)"

definition range_add :: "range_rule \<Rightarrow> channel_map \<Rightarrow> int \<times> channel_map" where
  "range_add = (\<lambda>(b, e, ofs, ch, tg). table_add_range b e ofs ch tg)"

lemma clean_meets:
  assumes ok: "tbl_ok d" and be: "b \<le> e"
    and clean: "\<forall>x. b \<le> x \<longrightarrow> x \<le> e \<longrightarrow> rules d (ch, ofs, x) = None \<or> rules d (ch, ofs, x) = Some tg"
    and p: "p \<in> set (filter_at d ch ofs)" "meets b e p"
  shows "er_tag (snd p) = tg"
proof -
  let ?x = "max b (fst p)"
  have "fst p \<le> er_end (snd p)" using ef_ok_nonempty [OF filter_at_ok [OF ok] p(1)] .
  with p(2) be have "in_range ?x p" "b \<le> ?x" "?x \<le> e" by (auto simp: in_range_def meets_def)
  then have "rules d (ch, ofs, ?x) = Some (er_tag (snd p))"
    using p(1) ef_lookup_Some_iff [OF filter_at_ok [OF ok], of ch ofs ?x "er_tag (snd p)"]
    by (auto simp: rules_def)
  with clean \<open>b \<le> ?x\<close> \<open>?x \<le> e\<close> show ?thesis by fastforce
qed

lemma range_add_clean:
  assumes ok: "tbl_ok d"
    and clean: "\<forall>k \<in> range_region r. rules d k = None \<or> rules d k = Some (range_tag r)"
  shows "\<exists>d'. range_add r d = (0, d') \<and> tbl_ok d' \<and>
    (\<forall>k. rules d' k = (if k \<in> range_region r then Some (range_tag r) else rules d k))"
proof -
  obtain b e ofs ch tg where r: "r = (b, e, ofs, ch, tg)" by (cases r) auto
  show ?thesis
  proof (cases "b \<le> e")
    case False
    then have "range_region r = {}" by (force simp: range_region_def r)
    with False ok show ?thesis by (auto simp: r range_add_def table_add_range_def)
  next
    case True
    obtain n d' where add: "table_add_range b e ofs ch tg d = (n, d')" by fastforce
    have same: "er_tag (snd p) = tg" if "p \<in> set (filter_at d ch ofs)" "meets b e p" for p
      using clean_meets [OF ok True _ that] clean by (auto simp: r range_region_def range_tag_def)
    then have "no_wrap tg b e (filter_at d ch ofs)" by (auto simp: no_wrap_def)
    note spec = table_add_range_spec [OF ok True this add]
    have "n = 0" using spec(2) same by (auto simp: conflicts_def filter_empty_conv)
    moreover have "rules d' k = (if k \<in> range_region r then Some (range_tag r) else rules d k)" for k
    proof -
      obtain c q x where k: "k = (c, q, x)" by (cases k) auto
      have "rules d k = Some tg"
        if "c = ch" "q = ofs" "p \<in> set (filter_at d ch ofs)" "meets b e p" "in_range x p" for p
        using that same [OF that(3,4)] ef_lookup_Some_iff [OF filter_at_ok [OF ok], of ch ofs x tg]
        by (auto simp: k rules_def)
      then show ?thesis
        unfolding k spec(3) by (auto simp: r range_region_def range_tag_def k)
    qed
    ultimately show ?thesis using add spec(1) by (auto simp: r range_add_def)
  qed
qed

interpretation ranges: painted_map range_region range_tag rules tbl_ok range_add
  by unfold_locales (rule range_add_clean)

definition entry_region :: "table_entry \<Rightarrow> (channel \<times> time \<times> event) set" where
  "entry_region te = {(te_channel te, te_offset te, x) | x. te_begin te \<le> x \<and> x \<le> te_end te}"

definition entry_range :: "table_entry \<Rightarrow> range_rule" where
  "entry_range te = (te_begin te, te_end te, te_offset te, te_channel te, te_tag te)"

lemma entry_range_simps [simp]:
  "range_region (entry_range te) = entry_region te" "range_tag (entry_range te) = te_tag te"
  "range_add (entry_range te) = table_add te"
  by (auto simp: entry_range_def range_region_def range_tag_def range_add_def entry_region_def table_add_def
      fun_eq_iff)

interpretation entries: painted_map entry_region te_tag rules tbl_ok table_add
proof
  fix d te
  assume "tbl_ok d" "\<forall>k \<in> entry_region te. rules d k = None \<or> rules d k = Some (te_tag te)"
  then show "\<exists>d'. table_add te d = (0, d') \<and> tbl_ok d' \<and>
    (\<forall>k. rules d' k = (if k \<in> entry_region te then Some (te_tag te) else rules d k))"
    using range_add_clean [of d "entry_range te", unfolded entry_range_simps] by blast
qed

lemma table_set_all: "table_set_loop n tes d = add_all table_add n tes d"
  by (induction n tes d rule: table_set_loop.induct) (auto split: prod.splits)

section \<open>Properties\<close>

text \<open>C8: \<^verbatim>\<open>Table::add\<close> paints the table. Adding a rule for the events \<open>[b, e]\<close> to a well-formed
  table keeps it well formed, gives the tag of the rule to exactly those events and to the events of
  every stored range of that channel and offset that overlaps \<open>[b, e]\<close>, changes no other event,
  channel or offset, and returns the number of overlapped ranges of another tag. The condition
  \<open>no_wrap\<close> excludes the two cases in which the code takes such a range for one that only touches the
  new one: it ends at the last event and \<open>b = 0\<close>, or it begins at event 0 and the new range, alone or
  after the merge of a range it overlaps or of one of its own tag that begins at \<open>e + 1\<close>, reaches the
  last event.\<close>

theorem table_add_paints:
  assumes "tbl_ok d" "b \<le> e" "no_wrap tg b e (filter_at d ch ofs)"
    "table_add_range b e ofs ch tg d = (n, d')"
  shows "tbl_ok d' \<and> n = conflicts tg b e (filter_at d ch ofs) \<and>
    (\<forall>c q x. rules d' (c, q, x) =
      (if c = ch \<and> q = ofs \<and>
          (b \<le> x \<and> x \<le> e \<or> (\<exists>p \<in> set (filter_at d ch ofs). meets b e p \<and> in_range x p))
       then Some tg else rules d (c, q, x)))"
  using table_add_range_spec [OF assms] by simp

definition sample_table :: channel_map where
  "sample_table = [[], [(7, [(16, \<lparr>er_end = 31, er_tag = 5\<rparr>), (64, \<lparr>er_end = 95, er_tag = 9\<rparr>)])]]"

lemma sample_table_ok: "tbl_ok sample_table"
  by (simp add: tbl_ok_def sample_table_def map_ok_def ef_ok_def before_def)

lemma sample_table_filter:
  "filter_at sample_table 1 7 = [(16, \<lparr>er_end = 31, er_tag = 5\<rparr>), (64, \<lparr>er_end = 95, er_tag = 9\<rparr>)]"
  by (simp add: filter_at_def sample_table_def map_at_def)

lemma sample_table_rules: "rules sample_table (1, 7, 41) = None" "rules sample_table (1, 7, 28) = Some 5"
  by (simp_all add: rules_def sample_table_filter in_range_def)

theorem table_add_paints_witness:
  "\<exists>d'. table_add_range 24 40 7 1 9 sample_table = (1, d') \<and> tbl_ok d' \<and>
     rules d' (1, 7, 16) = Some 9 \<and> rules d' (1, 7, 41) = None"
proof -
  obtain n d' where add: "table_add_range 24 40 7 1 9 sample_table = (n, d')" by fastforce
  have "no_wrap 9 24 40 (filter_at sample_table 1 7)"
    by (simp add: no_wrap_def sample_table_filter meets_def)
  with table_add_paints [OF sample_table_ok _ _ add] add show ?thesis
    by (auto simp: sample_table_filter sample_table_rules meets_def in_range_def conflicts_def)
qed

text \<open>C9: \<^verbatim>\<open>Table::del\<close> clears the table. Removing a prefix rule from a well-formed table keeps it
  well formed, takes the tag from exactly the events of the prefix on that channel and offset,
  whatever the tag, and returns the number of stored ranges it touched. This holds for every rule,
  at both ends of the event space too.\<close>

theorem table_remove_clears:
  assumes "tbl_ok d" "table_remove te d = (n, d')"
  shows "tbl_ok d' \<and> n = removals (te_begin te) (te_end te) (filter_at d (te_channel te) (te_offset te)) \<and>
    rules d' k = (if k \<in> entry_region te then None else rules d k)"
proof -
  have "te_begin te \<le> te_end te" by (simp add: te_end_def le_or)
  with table_remove_range_spec [OF assms(1) assms(2) [unfolded table_remove_def]] show ?thesis
    by (cases k) (auto simp: entry_region_def)
qed

theorem table_remove_clears_witness:
  "\<exists>d'. table_remove \<lparr>te_event = 24, te_offset = 7, te_tag = 0, te_channel = 1, te_event_bits = 62\<rparr> sample_table
      = (1, d') \<and> tbl_ok d' \<and> rules d' (1, 7, 27) = None \<and> rules d' (1, 7, 28) = Some 5"
proof -
  let ?te = "\<lparr>te_event = 24, te_offset = 7, te_tag = 0, te_channel = 1, te_event_bits = 62\<rparr>"
  obtain n d' where rem: "table_remove ?te sample_table = (n, d')" by fastforce
  have range: "te_begin ?te = 24" "te_end ?te = 27" by code_simp+
  from table_remove_clears [OF sample_table_ok rem, of "(1, 7, 27)"]
    table_remove_clears [OF sample_table_ok rem, of "(1, 7, 28)"] rem show ?thesis
    by (auto simp: range entry_region_def removals_def sample_table_filter sample_table_rules meets_def)
qed

text \<open>C40: the range check of \<^verbatim>\<open>Table::add\<close> wraps. With a rule for the events from \<open>k\<close> to the end of
  the event space stored, adding a rule of another tag for the events from \<open>0\<close> to an \<open>e\<close> beyond
  \<open>k\<close> reports no conflict and leaves two overlapping ranges, so that the table is not well formed.\<close>

theorem table_add_wraps:
  assumes "k \<noteq> 0" "k \<le> e" "e + 1 \<noteq> 0" "tg \<noteq> er_tag r" "er_end r = - 1"
  shows "filter_add 0 e tg [(k, r)] = (0, [(0, \<lparr>er_end = e, er_tag = tg\<rparr>), (k, r)]) \<and>
    ef_ok [(k, r)] \<and> \<not> ef_ok [(0, \<lparr>er_end = e, er_tag = tg\<rparr>), (k, r)]"
proof -
  have "k \<le> e + 1" "k \<noteq> e + 1"
    using unat_succ_max [OF assms(3)] assms(2) by (auto simp: word_le_nat_alt)
  with assms show ?thesis
    by (auto simp: filter_add_def upper_bound_def ef_ok_Cons before_def word_gt_0)
qed

theorem table_add_wraps_witness:
  "filter_add 0 10 2 [(5, \<lparr>er_end = - 1, er_tag = 1\<rparr>)] =
     (0, [(0, \<lparr>er_end = 10, er_tag = 2\<rparr>), (5, \<lparr>er_end = - 1, er_tag = 1\<rparr>)])"
  using table_add_wraps [of 5 10 2 "\<lparr>er_end = - 1, er_tag = 1\<rparr>"] by simp

end
