(* ===== verification/ECA_Get.thy ===== *)
theory ECA_Get
  imports ECA_Rules
begin

text \<open>
  \<^verbatim>\<open>Table::Impl::get\<close> turns the ranges of the table into prefix entries. The lemmas show that the
  masks computed with \<^verbatim>\<open>XOR\<close> are runs of ones, that the two loops split a range into aligned
  blocks that cover it exactly and do not overlap, that the last block is aligned too, and that the
  entries of the whole table say the same as the table.
\<close>

section \<open>Masks\<close>

definition clear_below :: "nat \<Rightarrow> 'a :: len word \<Rightarrow> bool" where
  "clear_below k b \<longleftrightarrow> (\<forall>i < k. \<not> bit b i)"

lemma pred_bits:
  fixes b :: "'a :: len word"
  assumes "clear_below k b" "bit b k"
  shows "b - 1 = (b AND NOT (2 ^ k)) OR mask k"
proof -
  have k: "k < LENGTH('a)" using assms(2) by (rule bit_imp_le_length)
  have "(b AND NOT (2 ^ k)) + 2 ^ k = (b AND NOT (2 ^ k)) OR 2 ^ k"
    by (rule disjunctive_add) (auto simp: bit_simps)
  also have "\<dots> = b"
    using assms(2) k by (intro bit_word_eqI) (auto simp: bit_simps)
  finally have "b - 1 = (b AND NOT (2 ^ k)) + mask k"
    by (simp add: mask_eq_exp_minus_1 algebra_simps)
  also have "\<dots> = (b AND NOT (2 ^ k)) OR mask k"
    using assms(1) by (intro disjunctive_add) (auto simp: bit_simps clear_below_def)
  finally show ?thesis .
qed

lemma full_mask: "(- 1 :: event) = mask 64"
  by (intro bit_word_eqI) (simp add: bit_simps)

lemma low_mask_zero [simp]: "low_mask 0 = mask 64"
  by (simp add: low_mask_def full_mask)

lemma low_mask_bits:
  assumes "clear_below k b" "bit b k"
  shows "low_mask b = mask k"
  unfolding low_mask_def pred_bits [OF assms] using assms
  by (intro bit_word_eqI) (auto simp: bit_simps clear_below_def not_less nat_less_le)

lemma low_maskE:
  obtains k where "k \<le> 64" "low_mask b = mask k" "clear_below k b"
proof (cases "b = 0")
  case True
  then show ?thesis by (intro that [of 64]) (auto simp: clear_below_def)
next
  case False
  then obtain i where "bit b i" by (auto simp: bit_eq_iff)
  define k where "k = (LEAST i. bit b i)"
  have "bit b k" "clear_below k b"
    unfolding k_def clear_below_def using \<open>bit b i\<close> by (auto intro: LeastI dest: not_less_Least)
  moreover from \<open>bit b k\<close> have "k < 64" using bit_imp_le_length by fastforce
  ultimately show ?thesis using low_mask_bits by (intro that [of k]) auto
qed

lemma high_mask_low: "high_mask e = low_mask (NOT e)"
proof -
  have "NOT e - 1 = NOT (e + 1)" by (simp add: not_eq_complement)
  then show ?thesis
    unfolding high_mask_def low_mask_def
    by (intro bit_word_eqI) (auto simp: bit_simps)
qed

section \<open>Aligned blocks\<close>

definition aligned :: "event \<times> event \<Rightarrow> bool" where
  "aligned p \<longleftrightarrow> (\<exists>k \<le> 64. snd p = mask k \<and> clear_below k (fst p))"

definition span :: "event \<times> event \<Rightarrow> event set" where
  "span p = {x. fst p \<le> x \<and> x \<le> fst p OR snd p}"

lemma clear_or: "clear_below k b \<Longrightarrow> b OR mask k = b + mask k" for b :: "'a :: len word"
  by (rule disjunctive_add [symmetric]) (auto simp: bit_simps clear_below_def)

lemma clear_and_not: "clear_below k b \<Longrightarrow> b AND NOT (mask k) = b" for b :: "'a :: len word"
  by (intro bit_word_eqI) (auto simp: bit_simps clear_below_def not_less)

lemma decode_mask_loop: "k \<le> 64 \<Longrightarrow> decode_mask_loop c (mask k) = c - word_of_nat k"
proof (induction k arbitrary: c)
  case 0
  then show ?case by (simp add: decode_mask_loop.simps)
next
  case (Suc k)
  have "bit (mask (Suc k) :: event) 0" by (simp add: bit_simps)
  then have "mask (Suc k) \<noteq> (0 :: event)" by (metis bit_0_eq bot_apply bot_bool_def)
  moreover have "drop_bit 1 (mask (Suc k)) = (mask k :: event)"
    using Suc.prems by (intro bit_word_eqI) (auto simp: bit_simps)
  ultimately show ?case
    using Suc by (subst decode_mask_loop.simps) (simp add: algebra_simps)
qed

lemma encode_decode_mask:
  assumes "k \<le> 64"
  shows "eca_encode_mask (ucast (eca_decode_mask (mask k))) = mask k"
proof -
  have "eca_decode_mask (mask k) = word_of_nat (64 - k)"
    using assms by (simp add: eca_decode_mask_def decode_mask_loop of_nat_diff)
  moreover have "unat (ucast (word_of_nat j :: uint32) :: uint8) = j" if "j \<le> 64" for j
    using that by (simp add: unsigned_ucast_eq unsigned_of_nat take_bit_nat_eq_self)
  ultimately have bits: "unat (ucast (eca_decode_mask (mask k)) :: uint8) = 64 - k"
    by simp
  then have cases: "\<not> ucast (eca_decode_mask (mask k)) > (64 :: uint8)"
    "ucast (eca_decode_mask (mask k)) = (64 :: uint8) \<longleftrightarrow> k = 0"
    using assms by (auto simp: word_less_nat_alt word_unat_eq_iff)
  have "drop_bit (64 - k) (mask 64) = (mask k :: event)"
    using assms by (intro bit_word_eqI) (auto simp: bit_simps)
  with cases bits show ?thesis
    unfolding eca_encode_mask_def full_mask by auto
qed

lemma split_low_result:
  assumes "split_low b e = (bs, b')" "b \<le> e"
  shows "b \<le> b' \<and> b' \<le> e \<and> e \<le> b' OR low_mask b' \<and> (\<forall>p \<in> set bs. aligned p) \<and>
    (\<Union>p \<in> set bs. span p) = {x. b \<le> x \<and> x < b'} \<and> sorted_wrt (\<lambda>p q. span p \<inter> span q = {}) bs"
  using assms
proof (induction b e arbitrary: bs b' rule: split_low.induct)
  case (1 b e)
  let ?m = "low_mask b"
  show ?case
  proof (cases "e \<le> b OR ?m")
    case True
    with 1(2,3) show ?thesis by (subst (asm) split_low.simps) (auto simp: Let_def)
  next
    case False
    then have lt: "b OR ?m < e" by simp
    obtain cs c where rec: "split_low ((b OR ?m) + 1) e = (cs, c)" by fastforce
    with 1(2) False have bs: "bs = (b, ?m) # cs" "b' = c"
      by (subst (asm) (2) split_low.simps, auto simp: Let_def)+
    have succ: "unat ((b OR ?m) + 1) = unat (b OR ?m) + 1" using lt by (rule unat_succ)
    have IH: "(b OR ?m) + 1 \<le> c \<and> c \<le> e \<and> e \<le> c OR low_mask c \<and> (\<forall>p \<in> set cs. aligned p) \<and>
      (\<Union>p \<in> set cs. span p) = {x. (b OR ?m) + 1 \<le> x \<and> x < c} \<and>
      sorted_wrt (\<lambda>p q. span p \<inter> span q = {}) cs"
      using 1(1) [OF refl False rec] lt succ by (simp add: word_le_nat_alt word_less_nat_alt)
    have "aligned (b, ?m)" by (rule low_maskE [of b]) (auto simp: aligned_def)
    moreover have "span (b, ?m) \<union> {x. (b OR ?m) + 1 \<le> x \<and> x < c} = {x. b \<le> x \<and> x < c}"
      "span (b, ?m) \<inter> {x. (b OR ?m) + 1 \<le> x \<and> x < c} = {}"
      using le_or [of b ?m] succ conjunct1 [OF IH]
      by (auto simp: span_def word_le_nat_alt word_less_nat_alt)
    moreover have "b \<le> (b OR ?m) + 1"
      using le_or [of b ?m] succ by (simp add: word_le_nat_alt)
    ultimately show ?thesis
      using IH unfolding bs by auto
  qed
qed

lemma span_high: "e AND NOT (high_mask e) OR high_mask e = e"
  unfolding high_mask_def by (intro bit_word_eqI) (auto simp: bit_simps)

lemma aligned_high: "aligned (e AND NOT (high_mask e), high_mask e)"
proof (rule low_maskE [of "NOT e"])
  fix k
  assume "k \<le> 64" "low_mask (NOT e) = mask k" "clear_below k (NOT e)"
  then show ?thesis
    by (auto simp: aligned_def high_mask_low clear_below_def bit_simps)
qed

lemma split_high_result:
  assumes "split_high b e = (bs, e')" "b \<le> e"
  shows "b \<le> e' \<and> e' \<le> e \<and> e' - high_mask e' \<le> b \<and> (\<forall>p \<in> set bs. aligned p) \<and>
    (\<Union>p \<in> set bs. span p) = {x. e' < x \<and> x \<le> e} \<and> sorted_wrt (\<lambda>p q. span p \<inter> span q = {}) bs"
  using assms
proof (induction b e arbitrary: bs e' rule: split_high.induct)
  case (1 b e)
  let ?m = "high_mask e"
  let ?f = "e AND NOT ?m"
  show ?case
  proof (cases "e - ?m \<le> b")
    case True
    with 1(2,3) show ?thesis by (subst (asm) split_high.simps) (auto simp: Let_def)
  next
    case False
    then have lt: "b < ?f" by (simp add: high_mask_part)
    obtain cs c where rec: "split_high b (?f - 1) = (cs, c)" by fastforce
    with 1(2) False have bs: "bs = (?f, ?m) # cs" "e' = c"
      by (subst (asm) (2) split_high.simps, auto simp: Let_def)+
    have pred: "unat (?f - 1) = unat ?f - 1" using lt by (rule unat_pred_gt)
    have IH: "b \<le> c \<and> c \<le> ?f - 1 \<and> c - high_mask c \<le> b \<and> (\<forall>p \<in> set cs. aligned p) \<and>
      (\<Union>p \<in> set cs. span p) = {x. c < x \<and> x \<le> ?f - 1} \<and>
      sorted_wrt (\<lambda>p q. span p \<inter> span q = {}) cs"
      using 1(1) [OF refl False refl rec] lt pred by (simp add: word_le_nat_alt word_less_nat_alt)
    have le: "?f \<le> e" by (simp add: high_mask_part high_mask_le)
    have "span (?f, ?m) \<union> {x. c < x \<and> x \<le> ?f - 1} = {x. c < x \<and> x \<le> e}"
      "span (?f, ?m) \<inter> {x. c < x \<and> x \<le> ?f - 1} = {}"
      using le pred conjunct1 [OF conjunct2 [OF IH]] lt
      by (auto simp: span_def span_high word_le_nat_alt word_less_nat_alt)
    moreover have "?f - 1 \<le> e"
      using le pred by (simp add: word_le_nat_alt)
    ultimately show ?thesis
      using IH aligned_high [of e] unfolding bs by auto
  qed
qed

text \<open>What the two loops leave: \<open>e\<close> lies within the aligned block at \<open>b\<close>, \<open>b\<close> within the block that
  ends at \<open>e\<close>. Then \<open>[b, e]\<close> is one of them.\<close>

lemma mask_bound:
  assumes "d \<le> (mask n :: event)" "bit d i"
  shows "i < n"
proof (rule ccontr)
  assume "\<not> i < n"
  have "unat (take_bit n (- 1) :: event) < 2 ^ n"
    unfolding unsigned_take_bit_eq by (rule take_bit_nat_less_exp)
  then have "unat d < 2 ^ n"
    using assms(1) by (simp add: take_bit_minus_one_eq_mask word_le_nat_alt)
  then have "take_bit n (unat d) = unat d" by (rule take_bit_nat_eq_self)
  moreover have "bit (unat d) i" using assms(2) by (simp add: bit_unsigned_iff bit_imp_le_length)
  ultimately show False using \<open>\<not> i < n\<close> by (metis bit_take_bit_iff)
qed

lemma rest_aligned:
  assumes "b \<le> e" "e \<le> b OR low_mask b" "e - high_mask e \<le> b"
  shows "aligned (b, e - b)" "b OR (e - b) = e"
proof -
  obtain t where t: "t \<le> 64" "low_mask b = mask t" "clear_below t b" by (rule low_maskE)
  obtain s where s: "s \<le> 64" "high_mask e = mask s" "clear_below s (NOT e)"
    by (metis high_mask_low low_maskE)
  define d where "d = e - b"
  have d: "unat e = unat b + unat d"
    using assms(1) by (simp add: d_def unat_sub word_le_nat_alt)
  have "b \<le> b + mask t" using le_or [of b "mask t"] clear_or [OF t(3)] by simp
  then have "unat (b + mask t) = unat b + unat (mask t :: event)" by (simp add: unat_plus_simple)
  then have dt: "d \<le> mask t"
    using assms(2) d by (simp add: t(2) clear_or [OF t(3)] word_le_nat_alt)
  have "high_mask e \<le> e" by (simp add: high_mask_def word_and_le1)
  then have ds: "d \<le> mask s"
    using assms(3) d by (simp add: s(2) word_le_nat_alt unat_sub)
  have "b + d = b OR d"
    using t(3) mask_bound [OF dt] by (intro disjunctive_add) (auto simp: clear_below_def)
  then show e: "b OR (e - b) = e" by (simp add: d_def)
  have "bit d i \<longleftrightarrow> i < min s t" if "i < 64" for i
  proof
    assume "i < min s t"
    then have "bit e i" "\<not> bit b i" using s(3) t(3) that by (auto simp: clear_below_def bit_simps)
    with e show "bit d i" by (metis bit_or_iff d_def)
  qed (use mask_bound [OF dt] mask_bound [OF ds] in auto)
  then have "d = mask (min s t)" by (intro bit_word_eqI) (auto simp: bit_simps)
  with t(3) s(1) show "aligned (b, e - b)"
    unfolding aligned_def d_def by (intro exI [of _ "min s t"]) (auto simp: clear_below_def)
qed

section \<open>What a list of entries says\<close>

definition proper :: "table_entry \<Rightarrow> bool" where
  "proper te \<longleftrightarrow> aligned (te_event te, eca_encode_mask (te_event_bits te))"

text \<open>The list says \<open>S\<close>: its entries are prefixes, no two of them share a key, and together they give
  each key what \<open>S\<close> gives it.\<close>

definition says :: "table_entry list \<Rightarrow> (channel \<times> time \<times> event \<Rightarrow> tag option) \<Rightarrow> bool" where
  "says L S \<longleftrightarrow> (\<forall>te \<in> set L. proper te) \<and> distinct L \<and>
     (\<forall>te \<in> set L. \<forall>te' \<in> set L. te \<noteq> te' \<longrightarrow> entry_region te \<inter> entry_region te' = {}) \<and>
     (\<forall>k v. S k = Some v \<longleftrightarrow> (\<exists>te \<in> set L. k \<in> entry_region te \<and> te_tag te = v))"

lemma says_Nil: "says [] (\<lambda>k. None)"
  by (simp add: says_def)

lemma proper_begin: "proper te \<Longrightarrow> te_begin te = te_event te"
  by (auto simp: proper_def aligned_def te_begin_def clear_and_not)

lemma proper_end: "proper te \<Longrightarrow> te_end te = te_event te OR eca_encode_mask (te_event_bits te)"
  by (simp add: te_end_def proper_begin)

lemma entry_region_nonempty: "entry_region te \<noteq> {}"
  using le_or [of "te_begin te" "eca_encode_mask (te_event_bits te)"]
  by (auto simp: entry_region_def te_end_def)

lemma says_region: "says L S \<Longrightarrow> te \<in> set L \<Longrightarrow> k \<in> entry_region te \<Longrightarrow> S k = Some (te_tag te)"
  unfolding says_def by blast

lemma says_iff: "says L S \<Longrightarrow> S k = Some v \<longleftrightarrow> (\<exists>te \<in> set L. k \<in> entry_region te \<and> te_tag te = v)"
  unfolding says_def by blast

lemma says_append:
  assumes L: "says L S" and M: "says M T" and apart: "\<And>k. S k = None \<or> T k = None"
  shows "says (L @ M) (\<lambda>k. if S k = None then T k else S k)"
proof -
  have disj: "entry_region te \<inter> entry_region te' = {}" if "te \<in> set L" "te' \<in> set M" for te te'
  proof (intro equals0I)
    fix k
    assume "k \<in> entry_region te \<inter> entry_region te'"
    then show False
      using says_region [OF L that(1), of k] says_region [OF M that(2), of k] apart [of k] by auto
  qed
  have "set L \<inter> set M = {}"
    using disj entry_region_nonempty by fastforce
  then have dist: "distinct (L @ M)" using L M by (simp add: says_def)
  have iff: "(if S k = None then T k else S k) = Some v \<longleftrightarrow>
      (\<exists>te \<in> set (L @ M). k \<in> entry_region te \<and> te_tag te = v)" for k v
    using says_iff [OF L, of k v] says_iff [OF M, of k v] apart [of k] by (cases "S k") auto
  have pair: "entry_region te \<inter> entry_region te' = {}"
    if "te \<in> set (L @ M)" "te' \<in> set (L @ M)" "te \<noteq> te'" for te te'
  proof (cases "te \<in> set L"; cases "te' \<in> set L")
    assume "te \<notin> set L" "te' \<in> set L"
    with that disj [of te' te] show ?thesis by (simp add: Int_commute)
  qed (use that disj L M in \<open>auto simp: says_def\<close>)
  have "\<forall>te \<in> set (L @ M). proper te" using L M by (auto simp: says_def)
  with dist iff pair show ?thesis unfolding says_def by blast
qed

lemma says_cong: "says L S \<Longrightarrow> (\<And>k. S k = T k) \<Longrightarrow> says L T"
  by (simp add: says_def)

lemma says_sort: "says (sort_by lt L) S = says L S"
  by (simp add: says_def)

section \<open>The entries of a range\<close>

definition block_entry :: "channel \<Rightarrow> time \<Rightarrow> tag \<Rightarrow> event \<times> event \<Rightarrow> table_entry" where
  "block_entry ch ofs tg = (\<lambda>(ev, m). \<lparr>te_event = ev, te_offset = ofs, te_tag = tg, te_channel = ch,
     te_event_bits = ucast (eca_decode_mask m)\<rparr>)"

lemma block_entry:
  assumes "aligned p"
  shows "proper (block_entry ch ofs tg p)"
    "entry_region (block_entry ch ofs tg p) = {(ch, ofs, x) | x. x \<in> span p}"
    "te_tag (block_entry ch ofs tg p) = tg"
proof -
  have enc: "eca_encode_mask (ucast (eca_decode_mask (snd p))) = snd p"
    using assms encode_decode_mask by (auto simp: aligned_def)
  then show p: "proper (block_entry ch ofs tg p)"
    using assms by (auto simp: proper_def block_entry_def split: prod.splits)
  show "te_tag (block_entry ch ofs tg p) = tg"
    by (auto simp: block_entry_def split: prod.splits)
  show "entry_region (block_entry ch ofs tg p) = {(ch, ofs, x) | x. x \<in> span p}"
    unfolding entry_region_def proper_begin [OF p] proper_end [OF p] span_def
    using enc by (auto simp: block_entry_def split: prod.splits)
qed

lemma span_nonempty: "span p \<noteq> {}"
  using le_or [of "fst p" "snd p"] by (auto simp: span_def)

lemma says_blocks:
  assumes "\<forall>p \<in> set bs. aligned p" "sorted_wrt (\<lambda>p q. span p \<inter> span q = {}) bs"
  shows "says (map (block_entry ch ofs tg) bs)
    (\<lambda>(c, q, x). if c = ch \<and> q = ofs \<and> x \<in> (\<Union>p \<in> set bs. span p) then Some tg else None)"
  using assms
proof (induction bs)
  case Nil
  then show ?case by (simp add: says_def)
next
  case (Cons p bs)
  have one: "says [block_entry ch ofs tg p]
      (\<lambda>(c, q, x). if c = ch \<and> q = ofs \<and> x \<in> span p then Some tg else None)"
    using block_entry [of p ch ofs tg] Cons.prems(1) by (auto simp: says_def)
  have "says ([block_entry ch ofs tg p] @ map (block_entry ch ofs tg) bs)
      (\<lambda>k. if (\<lambda>(c, q, x). if c = ch \<and> q = ofs \<and> x \<in> span p then Some tg else None) k = None
        then (\<lambda>(c, q, x). if c = ch \<and> q = ofs \<and> x \<in> (\<Union>p \<in> set bs. span p) then Some tg else None) k
        else (\<lambda>(c, q, x). if c = ch \<and> q = ofs \<and> x \<in> span p then Some tg else None) k)"
    using Cons by (intro says_append [OF one]) (auto simp: disjoint_iff split: if_splits)
  from says_cong [OF this] show ?case by (auto split: prod.splits)
qed

lemma get_range_says:
  assumes "b \<le> er_end r"
  shows "says (get_range ch ofs b r)
    (\<lambda>(c, q, x). if c = ch \<and> q = ofs \<and> b \<le> x \<and> x \<le> er_end r then Some (er_tag r) else None)"
proof -
  obtain low b' where low: "split_low b (er_end r) = (low, b')" by fastforce
  note L = split_low_result [OF low assms]
  then have "b' \<le> er_end r" by simp
  obtain high e' where high: "split_high b' (er_end r) = (high, e')" by fastforce
  note H = split_high_result [OF high \<open>b' \<le> er_end r\<close>]
  have "e' \<le> b' OR low_mask b'" using L H by (meson order_trans)
  with H have rest: "aligned (b', e' - b')" "b' OR (e' - b') = e'"
    using rest_aligned [of b' e'] by auto
  let ?bs = "low @ high @ [(b', e' - b')]"
  have span: "span (b', e' - b') = {x. b' \<le> x \<and> x \<le> e'}" by (simp add: span_def rest)
  have "(\<Union>p \<in> set ?bs. span p) = {x. b \<le> x \<and> x < b'} \<union> {x. e' < x \<and> x \<le> er_end r} \<union> {x. b' \<le> x \<and> x \<le> e'}"
    using L H span by auto
  also have "\<dots> = {x. b \<le> x \<and> x \<le> er_end r}" using L H by auto
  finally have union: "(\<Union>p \<in> set ?bs. span p) = {x. b \<le> x \<and> x \<le> er_end r}" .
  have within: "span p \<subseteq> {x. b \<le> x \<and> x < b'}" if "p \<in> set low" for p using L that by blast
  have within': "span p \<subseteq> {x. e' < x \<and> x \<le> er_end r}" if "p \<in> set high" for p using H that by blast
  have "span p \<inter> span q = {}" if "p \<in> set low" "q \<in> set high \<or> q = (b', e' - b')" for p q
    using within [OF that(1)] within' [of q] that(2) span H by fastforce
  moreover have "span p \<inter> span (b', e' - b') = {}" if "p \<in> set high" for p
    using within' [OF that] span by fastforce
  ultimately have "sorted_wrt (\<lambda>p q. span p \<inter> span q = {}) ?bs"
    using L H by (auto simp: sorted_wrt_append)
  moreover have "\<forall>p \<in> set ?bs. aligned p" using L H rest by auto
  ultimately have "says (map (block_entry ch ofs (er_tag r)) ?bs)
      (\<lambda>(c, q, x). if c = ch \<and> q = ofs \<and> x \<in> (\<Union>p \<in> set ?bs. span p) then Some (er_tag r) else None)"
    by (intro says_blocks)
  moreover have "get_range ch ofs b r = map (block_entry ch ofs (er_tag r)) ?bs"
    by (simp add: get_range_def low high block_entry_def [symmetric] Let_def)
  ultimately show ?thesis unfolding union by simp
qed

section \<open>The entries of the table\<close>

lemma get_filter_says:
  assumes "ef_ok ef"
  shows "says (get_filter ch ofs ef) (\<lambda>(c, q, x). if c = ch \<and> q = ofs then ef_lookup ef x else None)"
  using assms
proof (induction ch ofs ef rule: get_filter.induct)
  case (1 ch ofs)
  then show ?case by (simp add: says_def)
next
  case (2 ch ofs b r ef)
  have one: "says (get_range ch ofs b r)
      (\<lambda>(c, q, x). if c = ch \<and> q = ofs \<and> b \<le> x \<and> x \<le> er_end r then Some (er_tag r) else None)"
    using 2(2) by (intro get_range_says) (simp add: ef_ok_Cons)
  have "ef_lookup ef x = None" if "b \<le> x" "x \<le> er_end r" for x
    using 2(2) that unfolding ef_lookup_None_iff by (force simp: ef_ok_Cons before_def in_range_def)
  with 2 have "says (get_range ch ofs b r @ get_filter ch ofs ef)
      (\<lambda>k. if (\<lambda>(c, q, x). if c = ch \<and> q = ofs \<and> b \<le> x \<and> x \<le> er_end r then Some (er_tag r) else None) k = None
        then (\<lambda>(c, q, x). if c = ch \<and> q = ofs then ef_lookup ef x else None) k
        else (\<lambda>(c, q, x). if c = ch \<and> q = ofs \<and> b \<le> x \<and> x \<le> er_end r then Some (er_tag r) else None) k)"
    by (intro says_append [OF one]) (auto simp: ef_ok_Cons split: prod.splits)
  from says_cong [OF this] show ?case by (auto simp: in_range_def split: prod.splits)
qed

lemma get_actions_says:
  assumes "map_ok ta" "\<forall>p \<in> set ta. ef_ok (snd p)"
  shows "says (get_actions ch ta) (\<lambda>(c, q, x). if c = ch then ef_lookup (map_at q ta) x else None)"
  using assms
proof (induction ch ta rule: get_actions.induct)
  case (1 ch)
  then show ?case by (simp add: says_def)
next
  case (2 ch ofs ef ta)
  have one: "says (get_filter ch ofs ef) (\<lambda>(c, q, x). if c = ch \<and> q = ofs then ef_lookup ef x else None)"
    using 2(3) by (intro get_filter_says) simp
  have "ofs \<notin> fst ` set ta" using 2(2) by (auto simp: map_ok_Cons)
  then have "map_at ofs ta = []" by (simp add: map_at_def map_of_eq_None_iff [THEN iffD2])
  with 2 have "says (get_filter ch ofs ef @ get_actions ch ta)
      (\<lambda>k. if (\<lambda>(c, q, x). if c = ch \<and> q = ofs then ef_lookup ef x else None) k = None
        then (\<lambda>(c, q, x). if c = ch then ef_lookup (map_at q ta) x else None) k
        else (\<lambda>(c, q, x). if c = ch \<and> q = ofs then ef_lookup ef x else None) k)"
    by (intro says_append [OF one]) (auto simp: map_ok_Cons split: prod.splits)
  from says_cong [OF this] \<open>map_at ofs ta = []\<close> show ?case
    by (auto simp: map_at_def split: prod.splits)
qed

lemma get_channels_says:
  assumes "n + length d \<le> 256" "\<forall>ta \<in> set d. map_ok ta \<and> (\<forall>p \<in> set ta. ef_ok (snd p))"
  shows "says (get_channels n d) (\<lambda>(c, q, x). if n \<le> unat c \<and> unat c < n + length d
    then ef_lookup (map_at q (d ! (unat c - n))) x else None)"
  using assms
proof (induction n d rule: get_channels.induct)
  case (1 n)
  then show ?case by (auto simp: says_def)
next
  case (2 n ta d)
  have n: "c = word_of_nat n \<longleftrightarrow> unat c = n" for c :: channel
    using 2(2) by (auto simp: word_unat_eq_iff unat_of_nat_small)
  have one: "says (get_actions (word_of_nat n) ta)
      (\<lambda>(c, q, x). if unat c = n then ef_lookup (map_at q ta) x else None)"
    using get_actions_says [of ta "word_of_nat n"] 2(3) by (simp add: n)
  from 2 have "says (get_actions (word_of_nat n) ta @ get_channels (n + 1) d)
      (\<lambda>k. if (\<lambda>(c :: channel, q, x). if unat c = n then ef_lookup (map_at q ta) x else None) k = None
        then (\<lambda>(c, q, x). if n + 1 \<le> unat c \<and> unat c < n + 1 + length d
          then ef_lookup (map_at q (d ! (unat c - (n + 1)))) x else None) k
        else (\<lambda>(c, q, x). if unat c = n then ef_lookup (map_at q ta) x else None) k)"
    by (intro says_append [OF one]) (auto split: prod.splits)
  from says_cong [OF this] show ?case
    by (auto simp: nth_Cons' split: prod.splits)
qed

lemma table_get_says: "tbl_ok d \<Longrightarrow> says (table_get d) (rules d)"
  unfolding table_get_def says_sort rules_def filter_at_def
  using get_channels_says [of 0 d] by (auto simp: tbl_ok_def if_distrib cong: if_cong elim!: says_cong)

section \<open>Properties\<close>

text \<open>C20: \<^verbatim>\<open>Table::get\<close> lists the table exactly. Every entry it returns for a well-formed table is a
  prefix (the bits of its event below the prefix are zero), no two entries of the same channel and
  offset share an event, and an event has a tag in the table if and only if an entry with that tag
  covers it.\<close>

theorem table_get_exact:
  assumes "tbl_ok d"
  shows "(\<forall>te \<in> set (table_get d). te_begin te = te_event te) \<and> distinct (table_get d) \<and>
    (\<forall>te \<in> set (table_get d). \<forall>te' \<in> set (table_get d).
       te \<noteq> te' \<longrightarrow> entry_region te \<inter> entry_region te' = {}) \<and>
    (\<forall>k v. rules d k = Some v \<longleftrightarrow> (\<exists>te \<in> set (table_get d). k \<in> entry_region te \<and> te_tag te = v))"
  using table_get_says [OF assms] proper_begin unfolding says_def by blast

theorem table_get_exact_witness:
  "\<exists>te \<in> set (table_get sample_table). (1, 7, 28) \<in> entry_region te \<and> te_tag te = 5"
  using table_get_exact [OF sample_table_ok] sample_table_rules(2) by blast

text \<open>bulk export and import are inverse. Loading the entries \<^verbatim>\<open>get\<close> returns into an empty table
  with \<^verbatim>\<open>set\<close> reports no conflict and gives a well-formed table with the same rules.\<close>

theorem table_get_set:
  assumes "tbl_ok d"
  shows "\<exists>d'. table_set (table_get d) [] = (0, d') \<and> tbl_ok d' \<and> (\<forall>k. rules d' k = rules d k)"
proof -
  note get = table_get_says [OF assms]
  have "\<forall>te \<in> set (table_get d). \<forall>te' \<in> set (table_get d).
      entry_region te \<inter> entry_region te' \<noteq> {} \<longrightarrow> te_tag te = te_tag te'"
    using get unfolding says_def by metis
  from entries.add_all_clean [OF tbl_ok_Nil _ this, of 0] obtain d' where
    d': "add_all table_add 0 (table_get d) [] = (0, d')" "tbl_ok d'"
      "\<forall>k v. rules d' k = Some v \<longleftrightarrow> (\<exists>te \<in> set (table_get d). k \<in> entry_region te \<and> te_tag te = v)"
    by auto
  have "rules d' k = Some v \<longleftrightarrow> rules d k = Some v" for k v
    using d'(3) says_iff [OF get] by blast
  then have "rules d' k = rules d k" for k by (metis option.exhaust)
  with d' show ?thesis by (auto simp: table_set_def table_set_all)
qed

theorem table_get_set_witness:
  "\<exists>d'. table_set (table_get sample_table) [] = (0, d') \<and> rules d' (1, 7, 28) = Some 5"
  using table_get_set [OF sample_table_ok] sample_table_rules(2) by auto

end
