(* ===== verification/ECA_Compile.thy ===== *)
theory ECA_Compile
  imports ECA_Get
begin

text \<open>
  \<^verbatim>\<open>Table::Impl::compile\<close>: the hardware form of the table. The search table says from which event
  on which list of the walk table applies; the walk table holds the lists, which share tails. The
  lemmas follow the stack of the loop: it holds the entries that cover the current event, the
  innermost on top, because prefixes are nested or disjoint.
\<close>

section \<open>The hardware tables\<close>

text \<open>What the hardware does with an event: it finds the last search entry whose event is not larger
  and walks the list from there.\<close>

definition hw_search :: "search_entry list \<Rightarrow> event \<Rightarrow> search_entry" where
  "hw_search s x = last (filter (\<lambda>se. se_event se \<le> x) s)"

definition walk_next :: "walk_entry list \<Rightarrow> index \<Rightarrow> index" where
  "walk_next w i = we_next (w ! unat i)"

definition hw_walk :: "search_entry list \<Rightarrow> walk_entry list \<Rightarrow> event \<Rightarrow> index list option" where
  "hw_walk s w x = walk (walk_next w) (- 1) (se_first (hw_search s x))"

definition walk_rule :: "walk_entry list \<Rightarrow> index \<Rightarrow> channel \<times> time \<times> tag" where
  "walk_rule w i = (we_channel (w ! unat i), we_offset (w ! unat i), we_tag (w ! unat i))"

section \<open>Nested prefixes\<close>

definition tend :: "table_entry \<Rightarrow> event" where
  "tend te = te_event te OR eca_encode_mask (te_event_bits te)"

lemma clear_below_dvd: "clear_below k b \<Longrightarrow> 2 ^ k dvd unat b" for b :: "'a :: len word"
proof -
  assume "clear_below k b"
  then have "take_bit k b = 0" by (intro bit_word_eqI) (auto simp: bit_simps clear_below_def)
  then have "take_bit k (unat b) = 0" by (metis unsigned_0 unsigned_take_bit_eq)
  then show ?thesis by (simp add: take_bit_eq_0_iff)
qed

lemma unat_mask: "k \<le> 64 \<Longrightarrow> unat (mask k :: event) = 2 ^ k - 1"
  unfolding take_bit_minus_one_eq_mask [symmetric] unsigned_take_bit_eq unsigned_minus_1_eq_mask
    take_bit_of_mask by (simp add: mask_eq_exp_minus_1)

lemma unat_or_mask: 
  assumes "clear_below k b" "k \<le> 64"
  shows "unat (b OR mask k :: event) = unat b + (2 ^ k - 1)"
proof -
  have "b \<le> b + mask k" using le_or [of b "mask k"] clear_or [OF assms(1)] by simp
  then show ?thesis
    using unat_mask [OF assms(2)] by (simp add: clear_or [OF assms(1)] unat_plus_simple)
qed

lemma nested_blocks:
  assumes p: "clear_below k a" "k \<le> 64" and q: "clear_below l c" "l \<le> 64"
    and lt: "a < c" and within: "c \<le> a OR mask k"
  shows "c OR mask l \<le> (a OR mask k :: event)"
proof -
  obtain m where m: "unat a = 2 ^ k * m" using clear_below_dvd [OF p(1)] by blast
  obtain n where n: "unat c = 2 ^ l * n" using clear_below_dvd [OF q(1)] by blast
  have bounds: "2 ^ k * m < 2 ^ l * n" "2 ^ l * n < 2 ^ k * m + 2 ^ k"
    using lt within unat_or_mask [OF p] by (auto simp: word_less_nat_alt word_le_nat_alt m n)
  have "l < k"
  proof (rule ccontr)
    assume "\<not> l < k"
    then have "2 ^ l = 2 ^ k * (2 ^ (l - k) :: nat)" by (simp add: power_add [symmetric])
    with bounds have "2 ^ k * m < 2 ^ k * (2 ^ (l - k) * n)" "2 ^ k * (2 ^ (l - k) * n) < 2 ^ k * (m + 1)"
      by (auto simp: algebra_simps)
    then have "m < 2 ^ (l - k) * n" "2 ^ (l - k) * n < m + 1" by (simp_all only: mult_less_cancel1)
    then show False by simp
  qed
  then have pow: "2 ^ k = 2 ^ l * (2 ^ (k - l) :: nat)" by (simp add: power_add [symmetric])
  with bounds have "2 ^ l * n < 2 ^ l * (2 ^ (k - l) * (m + 1))" by (simp add: algebra_simps)
  then have "n + 1 \<le> 2 ^ (k - l) * (m + 1)" by simp
  then have "2 ^ l * (n + 1) \<le> 2 ^ l * (2 ^ (k - l) * (m + 1))" by (rule mult_le_mono2)
  then have "2 ^ l * n + 2 ^ l \<le> 2 ^ k * m + 2 ^ k" by (simp add: pow algebra_simps)
  then show ?thesis
    using unat_or_mask [OF p] unat_or_mask [OF q] by (simp add: word_le_nat_alt m n)
qed

lemma encode_mask_antimono: "a \<le> b \<Longrightarrow> eca_encode_mask b \<le> eca_encode_mask a"
proof -
  assume "a \<le> b"
  then have "unat a \<le> unat b" by (simp add: word_le_nat_alt)
  then have "unat (drop_bit (unat b) (- 1 :: event)) \<le> unat (drop_bit (unat a) (- 1 :: event))"
    unfolding unsigned_drop_bit_eq
    unfolding drop_bit_eq_div by (intro div_le_mono2) (auto simp: power_increasing)
  with \<open>a \<le> b\<close> show ?thesis
    by (auto simp: eca_encode_mask_def word_le_nat_alt word_less_nat_alt)
qed

text \<open>The order of \<^verbatim>\<open>get\<close>: by event, the wider prefix first.\<close>

definition sorted_entries :: "table_entry list \<Rightarrow> bool" where
  "sorted_entries T \<longleftrightarrow> (\<forall>te \<in> set T. proper te) \<and>
     sorted_wrt (\<lambda>a b. te_event a < te_event b \<or> te_event a = te_event b \<and> te_event_bits a \<le> te_event_bits b) T"

lemma sorted_table_get: "tbl_ok d \<Longrightarrow> sorted_entries (table_get d)"
proof -
  assume "tbl_ok d"
  then have "\<forall>te \<in> set (table_get d). proper te" using table_get_says by (simp add: says_def)
  moreover have "sorted_wrt (\<lambda>a b. \<not> sort_event_bits_offset_channel b a) (table_get d)"
    unfolding table_get_def
    by (rule sorted_sort_by) (auto simp: sort_event_bits_offset_channel_def split: if_splits)
  then have "sorted_wrt (\<lambda>a b. te_event a < te_event b \<or>
      te_event a = te_event b \<and> te_event_bits a \<le> te_event_bits b) (table_get d)"
    by (rule sorted_wrt_mono_rel [rotated]) (auto simp: sort_event_bits_offset_channel_def split: if_splits)
  ultimately show ?thesis by (simp add: sorted_entries_def)
qed

lemma sorted_entries_mono:
  assumes "sorted_entries T" "i \<le> j" "j < length T"
  shows "te_event (T ! i) \<le> te_event (T ! j)"
proof (cases "i = j")
  case False
  with assms show ?thesis
    unfolding sorted_entries_def sorted_wrt_iff_nth_less by (metis le_neq_implies_less less_imp_le order_refl)
qed simp

lemma nested_entries:
  assumes T: "sorted_entries T" and ij: "i < j" "j < length T" and x: "te_event (T ! j) \<le> x" "x \<le> tend (T ! i)"
  shows "tend (T ! j) \<le> tend (T ! i)"
proof -
  have i: "proper (T ! i)" and j: "proper (T ! j)" using T ij by (auto simp: sorted_entries_def)
  obtain k where k: "k \<le> 64" "eca_encode_mask (te_event_bits (T ! i)) = mask k" "clear_below k (te_event (T ! i))"
    using i by (auto simp: proper_def aligned_def)
  obtain l where l: "l \<le> 64" "eca_encode_mask (te_event_bits (T ! j)) = mask l" "clear_below l (te_event (T ! j))"
    using j by (auto simp: proper_def aligned_def)
  consider "te_event (T ! i) < te_event (T ! j)"
    | "te_event (T ! i) = te_event (T ! j)" "te_event_bits (T ! i) \<le> te_event_bits (T ! j)"
    using T ij unfolding sorted_entries_def sorted_wrt_iff_nth_less by fastforce
  then show ?thesis
  proof cases
    case 1
    from x have "te_event (T ! j) \<le> te_event (T ! i) OR mask k" by (simp add: tend_def k)
    with nested_blocks [OF k(3,1) l(3,1) 1] show ?thesis by (simp add: tend_def k l)
  next
    case 2
    from encode_mask_antimono [OF 2(2)] have "(mask l :: event) \<le> mask k" by (simp add: k l)
    then have "(2 :: nat) ^ l - 1 \<le> 2 ^ k - 1"
      using unat_mask [OF k(1)] unat_mask [OF l(1)] by (simp add: word_le_nat_alt)
    then have "(2 :: nat) ^ l \<le> 2 ^ k"
      using zero_less_power [of "2 :: nat" k] by linarith
    then have "unat (te_event (T ! j)) + (2 ^ l - 1) \<le> unat (te_event (T ! j)) + (2 ^ k - 1)"
      by (intro add_left_mono diff_le_mono)
    then show ?thesis
      unfolding tend_def k l 2(1) word_le_nat_alt unat_or_mask [OF l(3,1)] unat_or_mask [OF k(3) [unfolded 2(1)] k(1)] .
  qed
qed

section \<open>The stack\<close>

text \<open>The indices of the entries among the first \<open>n\<close> that end at or after \<open>ix\<close>, the last one first,
  and of all entries that cover the event \<open>x\<close>.\<close>

definition open_at :: "table_entry list \<Rightarrow> nat \<Rightarrow> event \<Rightarrow> nat list" where
  "open_at T n ix = rev (filter (\<lambda>i. ix \<le> tend (T ! i)) [0..<n])"

definition covering :: "table_entry list \<Rightarrow> event \<Rightarrow> nat list" where
  "covering T x = rev (filter (\<lambda>i. te_event (T ! i) \<le> x \<and> x \<le> tend (T ! i)) [0..<length T])"

definition first_of :: "index list \<Rightarrow> index" where
  "first_of nxt = (if nxt = [] then - 1 else hd nxt)"

text \<open>The rows of the walk table hold the rules of the entries, and point to earlier rows.\<close>

definition same_rules :: "table_entry list \<Rightarrow> walk_entry list \<Rightarrow> bool" where
  "same_rules T w \<longleftrightarrow> length w \<le> length T \<and>
     (\<forall>i < length w. we_offset (w ! i) = te_offset (T ! i) \<and> we_tag (w ! i) = te_tag (T ! i) \<and>
        we_channel (w ! i) = te_channel (T ! i) \<and> (we_next (w ! i) = - 1 \<or> unat (we_next (w ! i)) < i))"

definition lists_from :: "walk_entry list \<Rightarrow> index \<Rightarrow> nat list \<Rightarrow> bool" where
  "lists_from w p st \<longleftrightarrow> chain (walk_next w) (- 1) p (map word_of_nat st) \<and> (\<forall>i \<in> set st. i < length w)"

definition stack_inv :: "table_entry list \<Rightarrow> event \<Rightarrow> table_entry list \<Rightarrow> event list \<Rightarrow> index list \<Rightarrow>
    walk_entry list \<Rightarrow> bool" where
  "stack_inv T ix ts ends nxt w \<longleftrightarrow>
     ts = drop (length w) T \<and> same_rules T w \<and>
     ends = map (\<lambda>i. tend (T ! i)) (open_at T (length w) ix) \<and>
     nxt = map word_of_nat (open_at T (length w) ix) \<and>
     lists_from w (first_of nxt) (open_at T (length w) ix)"

lemma index_small: "i < 32768 \<Longrightarrow> unat (word_of_nat i :: index) = i" "i < 32768 \<Longrightarrow> word_of_nat i \<noteq> (- 1 :: index)"
proof -
  assume i: "i < 32768"
  then show u: "unat (word_of_nat i :: index) = i" by (simp add: unat_of_nat_small)
  show "word_of_nat i \<noteq> (- 1 :: index)"
  proof
    assume "word_of_nat i = (- 1 :: index)"
    then have "unat (word_of_nat i :: index) = unat (- 1 :: index)" by simp
    with u i show False by (simp add: unsigned_minus_1_eq_mask mask_eq_exp_minus_1)
  qed
qed

lemma lists_from_append:
  assumes "lists_from w p st" "length (w @ v) \<le> 32767"
  shows "lists_from (w @ v) p st"
proof -
  have "walk_next w (word_of_nat i) = walk_next (w @ v) (word_of_nat i)" if "i \<in> set st" for i
    using assms that index_small(1) [of i] by (auto simp: lists_from_def walk_next_def nth_append)
  then have "chain (walk_next w) (- 1) p (map word_of_nat st) = chain (walk_next (w @ v)) (- 1) p (map word_of_nat st)"
    by (intro chain_cong) auto
  with assms show ?thesis by (auto simp: lists_from_def)
qed

lemma open_at_Suc:
  "ix \<le> tend (T ! n) \<Longrightarrow> open_at T (Suc n) ix = n # open_at T n ix"
  by (simp add: open_at_def)

lemma stack_push:
  assumes inv: "stack_inv T ix (te # ts) ends nxt w" and len: "length T \<le> 32767" and te: "te_event te = ix"
  shows "stack_inv T ix ts (tend te # ends) (word_of_nat (length w) # nxt)
    (w @ [\<lparr>we_offset = te_offset te, we_tag = te_tag te, we_next = first_of nxt, we_channel = te_channel te\<rparr>])"
    and "T ! length w = te"
proof -
  have n: "length w < length T" and at: "T ! length w = te" and rest: "drop (Suc (length w)) T = ts"
    using inv unfolding stack_inv_def
    by (metis drop_all list.distinct(1) not_le) (metis inv stack_inv_def nth_via_drop, metis inv stack_inv_def drop_Suc list.sel(3) tl_drop)
  show "T ! length w = te" by (rule at)
  let ?we = "\<lparr>we_offset = te_offset te, we_tag = te_tag te, we_next = first_of nxt, we_channel = te_channel te\<rparr>"
  have "ix \<le> tend te" using te le_or by (auto simp: tend_def)
  then have opn: "open_at T (length (w @ [?we])) ix = length w # open_at T (length w) ix"
    using at by (simp add: open_at_Suc)
  have small: "length w < 32768" using n len by simp
  have "lists_from (w @ [?we]) (first_of nxt) (open_at T (length w) ix)"
    using inv n len by (intro lists_from_append) (auto simp: stack_inv_def)
  then have "lists_from (w @ [?we]) (word_of_nat (length w)) (length w # open_at T (length w) ix)"
    using index_small [OF small] by (auto simp: lists_from_def walk_next_def)
  moreover have "first_of nxt = - 1 \<or> unat (first_of nxt) < length w"
  proof (cases "open_at T (length w) ix")
    case Nil
    with inv show ?thesis by (simp add: stack_inv_def first_of_def)
  next
    case (Cons i st)
    with inv have "i < length w" "first_of nxt = word_of_nat i"
      by (auto simp: stack_inv_def first_of_def lists_from_def)
    with small index_small(1) [of i] show ?thesis by simp
  qed
  then have "same_rules T (w @ [?we])"
    using inv n at by (auto simp: stack_inv_def same_rules_def nth_append less_Suc_eq)
  ultimately show "stack_inv T ix ts (tend te # ends) (word_of_nat (length w) # nxt) (w @ [?we])"
    using inv rest at unfolding stack_inv_def opn by (simp add: first_of_def)
qed

lemma compile_push_inv:
  assumes "stack_inv T ix ts ends nxt w" "length T \<le> 32767"
    "compile_push ix ts ends nxt w = (ts1, ends1, nxt1, w1)"
  shows "stack_inv T ix ts1 ends1 nxt1 w1 \<and> (\<exists>v. w1 = w @ v) \<and>
    (\<forall>i. length w \<le> i \<longrightarrow> i < length w1 \<longrightarrow> te_event (T ! i) = ix) \<and>
    (ts1 \<noteq> [] \<longrightarrow> te_event (hd ts1) \<noteq> ix)"
  using assms
proof (induction ix ts ends nxt w rule: compile_push.induct)
  case (1 ix ends nxt w)
  then show ?case by auto
next
  case (2 ix te ts ends nxt w)
  show ?case
  proof (cases "te_event te = ix")
    case False
    with 2(4) 2(2) show ?thesis by auto
  next
    case True
    note push = stack_push [OF 2(2,3) True]
    have "compile_push ix ts (tend te # ends) (word_of_nat (length w) # nxt)
      (w @ [\<lparr>we_offset = te_offset te, we_tag = te_tag te, we_next = first_of nxt, we_channel = te_channel te\<rparr>])
      = (ts1, ends1, nxt1, w1)"
      using 2(4) True by (simp add: tend_def first_of_def)
    note IH = 2(1) [OF True, folded tend_def first_of_def, OF push(1) 2(3) this]
    have "te_event (T ! i) = ix" if "length w \<le> i" "i < length w1" for i
      using IH that push(2) True by (cases "i = length w") auto
    with IH show ?thesis by auto
  qed
qed

text \<open>On the stack an entry lies inside those below it.\<close>

lemma open_at_sorted:
  assumes T: "sorted_entries T" and n: "n \<le> length T" and ev: "\<forall>i < n. te_event (T ! i) \<le> ix"
  shows "sorted_wrt (\<lambda>i j. tend (T ! i) \<le> tend (T ! j)) (open_at T n ix)"
  using n ev
proof (induction n)
  case 0
  then show ?case by (simp add: open_at_def)
next
  case (Suc n)
  have "tend (T ! n) \<le> tend (T ! i)" if "i < n" "ix \<le> tend (T ! i)" for i
    using nested_entries [OF T that(1)] Suc.prems that by auto
  with Suc show ?case
    by (auto simp: open_at_def)
qed

lemma compile_pop_eq:
  assumes "length ends = length nxt"
  shows "compile_pop m ends nxt =
    (dropWhile (\<lambda>e. e = m) ends, drop (length (takeWhile (\<lambda>e. e = m) ends)) nxt)"
  using assms
  by (induction m ends nxt rule: compile_pop.induct) (auto simp: drop_Suc neq_Nil_conv)

lemma dropWhile_least:
  "sorted_wrt (\<lambda>i j. f i \<le> f j) xs \<Longrightarrow> \<forall>j \<in> set xs. m \<le> f j \<Longrightarrow>
   dropWhile (\<lambda>j. f j = m) xs = filter (\<lambda>j. m < f j) xs" for f :: "'b \<Rightarrow> 'c :: linorder"
proof (induction xs)
  case (Cons x xs)
  show ?case
  proof (cases "f x = m")
    case False
    with Cons.prems have "m < f x" "\<forall>j \<in> set xs. m < f j" by force+
    with False show ?thesis by (simp add: filter_id_conv [THEN iffD2])
  qed (use Cons in auto)
qed simp

lemma open_least:
  assumes T: "sorted_entries T" and n: "n \<le> length T" and ev: "\<forall>i < n. te_event (T ! i) \<le> ix"
    and top: "open_at T n ix = i # st"
  shows "\<forall>j \<in> set (open_at T n ix). tend (T ! i) \<le> tend (T ! j)" "ix \<le> tend (T ! i)"
proof -
  show "\<forall>j \<in> set (open_at T n ix). tend (T ! i) \<le> tend (T ! j)"
    using open_at_sorted [OF T n ev] unfolding top by auto
  have "i \<in> set (open_at T n ix)" by (simp add: top)
  then show "ix \<le> tend (T ! i)" unfolding open_at_def by auto
qed

lemma pop_open:
  assumes T: "sorted_entries T" and n: "n \<le> length T" and ev: "\<forall>i < n. te_event (T ! i) \<le> ix"
    and top: "open_at T n ix = i # st" and m: "m = tend (T ! i)" "m + 1 \<noteq> 0"
  shows "dropWhile (\<lambda>j. tend (T ! j) = m) (open_at T n ix) = open_at T n (m + 1)"
proof -
  note sorted = open_at_sorted [OF T n ev]
  note least = open_least(1) [OF T n ev top, folded m(1)] and ixm = open_least(2) [OF T n ev top, folded m(1)]
  have "m < tend (T ! j) \<longleftrightarrow> m + 1 \<le> tend (T ! j)" for j
    using unat_succ_max [OF m(2)] by (auto simp: word_less_nat_alt word_le_nat_alt)
  then have "filter (\<lambda>j. m < tend (T ! j)) (open_at T n ix) = open_at T n (m + 1)"
    using ixm m(2) unat_succ_max [OF m(2)]
    by (auto simp: open_at_def rev_filter [symmetric] word_le_nat_alt intro!: filter_cong)
  with dropWhile_least [OF sorted least] show "dropWhile (\<lambda>j. tend (T ! j) = m) (open_at T n ix) = open_at T n (m + 1)"
    by simp
qed

section \<open>The loop\<close>

definition found :: "table_entry list \<Rightarrow> search_entry list \<Rightarrow> walk_entry list \<Rightarrow> event \<Rightarrow> bool" where
  "found T s w x \<longleftrightarrow> lists_from w (se_first (hw_search s x)) (covering T x)"

definition loop_inv :: "table_entry list \<Rightarrow> event \<Rightarrow> table_entry list \<Rightarrow> event list \<Rightarrow> index list \<Rightarrow>
    search_entry list \<Rightarrow> walk_entry list \<Rightarrow> bool" where
  "loop_inv T ix ts ends nxt s w \<longleftrightarrow>
     stack_inv T ix ts ends nxt w \<and>
     (\<forall>i < length w. te_event (T ! i) < ix) \<and>
     (\<forall>i. length w \<le> i \<longrightarrow> i < length T \<longrightarrow> ix \<le> te_event (T ! i)) \<and>
     sorted_wrt (\<lambda>a b. se_event a < se_event b) s \<and> (\<forall>se \<in> set s. se_event se < ix) \<and>
     (if s = [] then ix = 0 else se_event (hd s) = 0) \<and>
     (\<forall>x < ix. found T s w x)"

definition compiled :: "table_entry list \<Rightarrow> search_entry list \<Rightarrow> walk_entry list \<Rightarrow> bool" where
  "compiled T s w \<longleftrightarrow> length w = length T \<and> same_rules T w \<and> s \<noteq> [] \<and> se_event (hd s) = 0 \<and>
     sorted_wrt (\<lambda>a b. se_event a < se_event b) s \<and> (\<forall>x. found T s w x)"

lemma hw_search_append:
  "hw_search (s @ [se]) x = (if se_event se \<le> x then se else hw_search s x)"
  by (simp add: hw_search_def)

lemma covering_open:
  assumes "n \<le> length T" "\<forall>i < n. te_event (T ! i) \<le> ix" "\<forall>i. n \<le> i \<longrightarrow> i < length T \<longrightarrow> x < te_event (T ! i)"
    and "ix \<le> x" "\<forall>i \<in> set (open_at T n ix). x \<le> tend (T ! i)"
  shows "covering T x = open_at T n ix"
proof -
  have "[0..<length T] = [0..<n] @ [n..<length T]"
    using assms(1) by (rule upt_split)
  moreover have "filter (\<lambda>i. te_event (T ! i) \<le> x \<and> x \<le> tend (T ! i)) [n..<length T] = []"
    using assms(3) by (auto simp: filter_empty_conv)
  moreover have "filter (\<lambda>i. te_event (T ! i) \<le> x \<and> x \<le> tend (T ! i)) [0..<n]
      = filter (\<lambda>i. ix \<le> tend (T ! i)) [0..<n]"
    using assms(2,4,5) by (intro filter_cong) (fastforce simp: open_at_def)+
  ultimately show ?thesis by (simp add: covering_def open_at_def)
qed

lemma loop_step:
  assumes inv: "loop_inv T ix ts ends nxt s w" and T: "sorted_entries T" and len: "length T \<le> 32767"
    and push: "compile_push ix ts ends nxt w = (ts1, ends1, nxt1, w1)"
    and s1: "s1 = s @ [\<lparr>se_event = ix, se_first = first_of nxt1\<rparr>]"
  shows "stack_inv T ix ts1 ends1 nxt1 w1" "length w1 \<le> length T"
    and "\<forall>i < length w1. te_event (T ! i) \<le> ix"
    and "\<forall>i. length w1 \<le> i \<longrightarrow> i < length T \<longrightarrow> ix < te_event (T ! i)"
    and "sorted_wrt (\<lambda>a b. se_event a < se_event b) s1" "s1 \<noteq> []" "se_event (hd s1) = 0"
    and "\<forall>se \<in> set s1. se_event se \<le> ix"
    and "x < ix \<or> ix \<le> x \<and> covering T x = open_at T (length w1) ix \<Longrightarrow> found T s1 w1 x"
proof -
  have stack: "stack_inv T ix ts ends nxt w" using inv by (simp add: loop_inv_def)
  from compile_push_inv [OF stack len push] obtain v where
    stack1: "stack_inv T ix ts1 ends1 nxt1 w1" and w1: "w1 = w @ v"
    and ev: "\<forall>i. length w \<le> i \<longrightarrow> i < length w1 \<longrightarrow> te_event (T ! i) = ix"
    and hd: "ts1 \<noteq> [] \<longrightarrow> te_event (hd ts1) \<noteq> ix" by auto
  show "stack_inv T ix ts1 ends1 nxt1 w1" by (rule stack1)
  show n: "length w1 \<le> length T" using stack1 by (simp add: stack_inv_def same_rules_def)
  show "\<forall>i < length w1. te_event (T ! i) \<le> ix"
  proof (intro allI impI)
    fix i
    assume "i < length w1"
    with inv ev show "te_event (T ! i) \<le> ix"
      by (cases "i < length w") (auto simp: loop_inv_def intro: less_imp_le)
  qed
  show "\<forall>i. length w1 \<le> i \<longrightarrow> i < length T \<longrightarrow> ix < te_event (T ! i)"
  proof (intro allI impI)
    fix i
    assume i: "length w1 \<le> i" "i < length T"
    have lo: "ix \<le> te_event (T ! j)" if "length w1 \<le> j" "j < length T" for j
      using inv that by (auto simp: loop_inv_def w1)
    have "ts1 \<noteq> []" "hd ts1 = T ! length w1"
      using stack1 i by (auto simp: stack_inv_def hd_drop_conv_nth)
    with hd lo [of "length w1"] i have "ix < te_event (T ! length w1)" by auto
    moreover have "te_event (T ! length w1) \<le> te_event (T ! i)"
      by (rule sorted_entries_mono [OF T i])
    ultimately show "ix < te_event (T ! i)" by simp
  qed
  show "sorted_wrt (\<lambda>a b. se_event a < se_event b) s1" "s1 \<noteq> []" "se_event (hd s1) = 0"
    "\<forall>se \<in> set s1. se_event se \<le> ix"
    using inv by (auto simp: loop_inv_def s1 sorted_wrt_append hd_append split: if_splits)
  assume x: "x < ix \<or> ix \<le> x \<and> covering T x = open_at T (length w1) ix"
  show "found T s1 w1 x"
  proof (cases "x < ix")
    case True
    then have "found T s w x" using inv by (simp add: loop_inv_def)
    then have "lists_from w1 (se_first (hw_search s x)) (covering T x)"
      unfolding w1 found_def using n len by (intro lists_from_append) (auto simp: w1)
    with True show ?thesis by (auto simp: found_def s1 hw_search_append)
  next
    case False
    with x stack1 show ?thesis by (auto simp: found_def s1 hw_search_append stack_inv_def)
  qed
qed

definition step_inv :: "table_entry list \<Rightarrow> event \<Rightarrow> table_entry list \<Rightarrow> event list \<Rightarrow> index list \<Rightarrow>
    search_entry list \<Rightarrow> walk_entry list \<Rightarrow> bool" where
  "step_inv T ix ts ends nxt s w \<longleftrightarrow>
     stack_inv T ix ts ends nxt w \<and> length w \<le> length T \<and>
     (\<forall>i < length w. te_event (T ! i) \<le> ix) \<and>
     (\<forall>i. length w \<le> i \<longrightarrow> i < length T \<longrightarrow> ix < te_event (T ! i)) \<and>
     sorted_wrt (\<lambda>a b. se_event a < se_event b) s \<and> s \<noteq> [] \<and> se_event (hd s) = 0 \<and>
     (\<forall>se \<in> set s. se_event se \<le> ix) \<and>
     (\<forall>x. x < ix \<or> ix \<le> x \<and> covering T x = open_at T (length w) ix \<longrightarrow> found T s w x)"

lemma loop_step_inv:
  assumes "loop_inv T ix ts ends nxt s w" "sorted_entries T" "length T \<le> 32767"
    "compile_push ix ts ends nxt w = (ts1, ends1, nxt1, w1)"
  shows "step_inv T ix ts1 ends1 nxt1 (s @ [\<lparr>se_event = ix, se_first = first_of nxt1\<rparr>]) w1"
  unfolding step_inv_def using loop_step [OF assms refl] by blast

lemma step_tail:
  assumes "step_inv T ix ts ends nxt s w" "sorted_entries T" "length w \<le> i" "i < length T"
  shows "ts \<noteq> []" "te_event (hd ts) \<le> te_event (T ! i)"
  using sorted_entries_mono [OF assms(2,3,4)] assms(1,3,4)
  by (auto simp: step_inv_def stack_inv_def hd_drop_conv_nth)

lemma step_found:
  assumes inv: "step_inv T ix ts ends nxt s w" and T: "sorted_entries T" and x: "ix \<le> x"
    and next_event: "ts = [] \<or> x < te_event (hd ts)"
    and next_end: "\<forall>i \<in> set (open_at T (length w) ix). x \<le> tend (T ! i)"
  shows "found T s w x"
proof -
  have "x < te_event (T ! i)" if "length w \<le> i" "i < length T" for i
    using step_tail [OF inv T that] next_event by auto
  then have "covering T x = open_at T (length w) ix"
    using inv x next_end by (intro covering_open) (auto simp: step_inv_def)
  with inv x show ?thesis by (auto simp: step_inv_def)
qed

lemma step_compiled:
  assumes "step_inv T ix ts ends nxt s w" "ts = []" "\<And>x. ix \<le> x \<Longrightarrow> found T s w x"
  shows "compiled T s w"
proof -
  have "found T s w x" for x using assms(1,3) by (cases "x < ix") (auto simp: step_inv_def)
  with assms(1,2) show ?thesis
    by (auto simp: step_inv_def compiled_def stack_inv_def)
qed

lemma step_loop_inv:
  assumes inv: "step_inv T ix ts ends nxt s w" and ix: "ix < ix'"
    and stack: "stack_inv T ix' ts ends' nxt' w"
    and events: "\<And>i. length w \<le> i \<Longrightarrow> i < length T \<Longrightarrow> ix' \<le> te_event (T ! i)"
    and found: "\<And>x. ix \<le> x \<Longrightarrow> x < ix' \<Longrightarrow> found T s w x"
  shows "loop_inv T ix' ts ends' nxt' s w"
proof -
  have "found T s w x" if "x < ix'" for x
    using inv found that by (cases "x < ix") (auto simp: step_inv_def)
  with inv ix stack events show ?thesis
    by (auto simp: loop_inv_def step_inv_def)
qed

lemma stack_inv_later:
  assumes "stack_inv T ix ts ends nxt w" "ix \<le> ix'" "length T \<le> 32767"
    "open_at T (length w) ix = us @ open_at T (length w) ix'"
    "ends' = map (\<lambda>i. tend (T ! i)) (open_at T (length w) ix')"
    "nxt' = map word_of_nat (open_at T (length w) ix')"
  shows "stack_inv T ix' ts ends' nxt' w"
proof -
  have "lists_from w (first_of nxt) (us @ open_at T (length w) ix')"
    using assms(1,4) by (metis stack_inv_def)
  then have "lists_from w (first_of nxt') (open_at T (length w) ix')"
    unfolding assms(6) lists_from_def first_of_def
    by (cases "open_at T (length w) ix'") (auto dest: chain_suffix)
  with assms show ?thesis by (auto simp: stack_inv_def)
qed

lemma compile_pop_stack:
  assumes "stack_inv T ix ts ends nxt w" "compile_pop m ends nxt = (ends2, nxt2)"
    "dropWhile (\<lambda>j. tend (T ! j) = m) (open_at T (length w) ix) = st"
  shows "ends2 = map (\<lambda>i. tend (T ! i)) st" "nxt2 = map word_of_nat st"
proof -
  let ?os = "open_at T (length w) ix"
  have ends: "ends = map (\<lambda>i. tend (T ! i)) ?os" and nxt: "nxt = map word_of_nat ?os"
    using assms(1) by (auto simp: stack_inv_def)
  note pop = assms(2) [unfolded compile_pop_eq [of ends nxt m, unfolded ends nxt, simplified] ends nxt]
  then show "ends2 = map (\<lambda>i. tend (T ! i)) st"
    by (simp add: dropWhile_map o_def assms(3))
  show "nxt2 = map word_of_nat st"
    using pop by (simp add: takeWhile_map o_def drop_map dropWhile_eq_drop assms(3) [symmetric])
qed

lemma step_pop:
  assumes inv: "step_inv T ix ts ends nxt s w" and T: "sorted_entries T" and len: "length T \<le> 32767"
    and cond: "ends \<noteq> []" "ts = [] \<or> hd ends < te_event (hd ts)"
    and pop: "compile_pop (hd ends) ends nxt = (ends2, nxt2)"
  shows "if hd ends + 1 = 0 then compiled T s w else loop_inv T (hd ends + 1) ts ends2 nxt2 s w"
proof -
  let ?os = "open_at T (length w) ix"
  have stack: "stack_inv T ix ts ends nxt w" and n: "length w \<le> length T"
    and ev: "\<forall>i < length w. te_event (T ! i) \<le> ix" using inv by (auto simp: step_inv_def)
  then have ends: "ends = map (\<lambda>i. tend (T ! i)) ?os" by (simp add: stack_inv_def)
  with cond(1) obtain i st where top: "?os = i # st" by (cases ?os) auto
  have m: "hd ends = tend (T ! i)" by (simp add: ends top)
  note least = open_least [OF T n ev top, folded m]
  have found: "found T s w x" if "ix \<le> x" "x \<le> hd ends" for x
    using cond(2) that least(1) by (intro step_found [OF inv T that(1)]) auto
  show ?thesis
  proof (cases "hd ends + 1 = 0")
    case True
    have "ts = []" using cond(2) word_max_ge [OF True] by (auto simp: not_less [symmetric])
    with True step_compiled [OF inv] found word_max_ge [OF True] show ?thesis by simp
  next
    case False
    note succ = unat_succ_max [OF False]
    have dw: "dropWhile (\<lambda>j. tend (T ! j) = hd ends) ?os = open_at T (length w) (hd ends + 1)"
      by (rule pop_open [OF T n ev top m False])
    note popped = compile_pop_stack [OF stack pop dw]
    have "?os = takeWhile (\<lambda>j. tend (T ! j) = hd ends) ?os @ open_at T (length w) (hd ends + 1)"
      unfolding dw [symmetric] by simp
    then have "stack_inv T (hd ends + 1) ts ends2 nxt2 w"
      using stack least(2) len popped succ by (intro stack_inv_later [OF stack]) (auto simp: word_le_nat_alt)
    moreover have "hd ends + 1 \<le> te_event (T ! i)" if "length w \<le> i" "i < length T" for i
      using step_tail [OF inv T that] cond(2) succ by (auto simp: word_le_nat_alt word_less_nat_alt)
    ultimately have "loop_inv T (hd ends + 1) ts ends2 nxt2 s w"
      using found least(2) succ
      by (intro step_loop_inv [OF inv]) (auto simp: word_le_nat_alt word_less_nat_alt)
    with False show ?thesis by simp
  qed
qed

lemma step_next:
  assumes inv: "step_inv T ix ts ends nxt s w" and T: "sorted_entries T" and len: "length T \<le> 32767"
    and cond: "\<not> (ends \<noteq> [] \<and> (ts = [] \<or> hd ends < te_event (hd ts)))"
  shows "if ts = [] then compiled T s w else loop_inv T (te_event (hd ts)) ts ends nxt s w"
proof -
  let ?os = "open_at T (length w) ix"
  have stack: "stack_inv T ix ts ends nxt w" and n: "length w \<le> length T"
    and ev: "\<forall>i < length w. te_event (T ! i) \<le> ix" using inv by (auto simp: step_inv_def)
  then have ends: "ends = map (\<lambda>i. tend (T ! i)) ?os" and nxt: "nxt = map word_of_nat ?os"
    by (auto simp: stack_inv_def)
  show ?thesis
  proof (cases "ts = []")
    case True
    with cond have "?os = []" by (simp add: ends)
    with True step_compiled [OF inv True] step_found [OF inv T] show ?thesis by simp
  next
    case False
    let ?e = "te_event (hd ts)"
    have open_end: "?e \<le> tend (T ! j)" if j: "j \<in> set ?os" for j
    proof -
      obtain i st where top: "?os = i # st" using j by (cases ?os) auto
      have "?e \<le> tend (T ! i)" using cond False by (simp add: ends top)
      with open_least(1) [OF T n ev top] j show ?thesis by (meson order_trans)
    qed
    have later: "ix < ?e"
      using inv False by (auto simp: step_inv_def stack_inv_def hd_drop_conv_nth)
    then have same: "open_at T (length w) ?e = ?os"
      using open_end by (auto simp: open_at_def intro!: filter_cong)
    have "stack_inv T ?e ts ends nxt w"
      using later same ends nxt len by (intro stack_inv_later [OF stack, of _ "[]"]) auto
    moreover have "found T s w x" if "ix \<le> x" "x < ?e" for x
      using that open_end by (intro step_found [OF inv T that(1)]) (auto intro: less_imp_le less_le_trans)
    ultimately have "loop_inv T ?e ts ends nxt s w"
      using step_tail(2) [OF inv T] by (intro step_loop_inv [OF inv later]) auto
    with False show ?thesis by simp
  qed
qed

lemma compile_loop_inv:
  assumes "loop_inv T ix ts ends nxt s w" "sorted_entries T" "length T \<le> 32767"
    "compile_loop ix ts ends nxt s w = (s', w')"
  shows "compiled T s' w'"
  using assms
proof (induction ix ts ends nxt s w rule: compile_loop.induct)
  case (1 ix ts ends nxt s w)
  obtain ts1 ends1 nxt1 w1 where push: "compile_push ix ts ends nxt w = (ts1, ends1, nxt1, w1)"
    by (cases "compile_push ix ts ends nxt w") auto
  obtain ends2 nxt2 where pop: "compile_pop (hd ends1) ends1 nxt1 = (ends2, nxt2)" by fastforce
  define s1 where "s1 = s @ [\<lparr>se_event = ix, se_first = first_of nxt1\<rparr>]"
  note step = loop_step_inv [OF 1(3,4,5) push, folded s1_def]
  have run: "compile_loop ix ts ends nxt s w =
       (if ends1 \<noteq> [] \<and> (ts1 = [] \<or> hd ends1 < te_event (hd ts1)) then
          if hd ends1 + 1 = 0 then (s1, w1) else compile_loop (hd ends1 + 1) ts1 ends2 nxt2 s1 w1
        else if ts1 \<noteq> [] then compile_loop (te_event (hd ts1)) ts1 ends1 nxt1 s1 w1
        else (s1, w1))"
    unfolding s1_def first_of_def compile_loop.simps [of ix ts ends nxt s w] push prod.case Let_def pop
    by (rule refl)
  note IH = 1(1,2) [OF push [symmetric] refl refl s1_def [unfolded first_of_def]]
  show ?case
  proof (cases "ends1 \<noteq> [] \<and> (ts1 = [] \<or> hd ends1 < te_event (hd ts1))")
    case True
    note pops = step_pop [OF step 1(4,5) conjunct1 [OF True] conjunct2 [OF True] pop]
    show ?thesis
    proof (cases "hd ends1 + 1 = 0")
      case False
      with pops 1(6) True run IH(1) [OF True pop [symmetric] False _ 1(4,5)] show ?thesis by simp
    qed (use pops 1(6) True run in simp)
  next
    case False
    note nexts = step_next [OF step 1(4,5) False]
    show ?thesis
    proof (cases "ts1 = []")
      case ne: False
      have "compile_loop (te_event (hd ts1)) ts1 ends1 nxt1 s1 w1 = (s', w')"
        using 1(6) unfolding run if_not_P [OF False] if_P [OF ne] .
      with nexts ne IH(2) [OF False ne _ 1(4,5)] show ?thesis by simp
    next
      case True
      then have "(s', w') = (s1, w1)" using 1(6) unfolding run if_not_P [OF False] by simp
      with nexts True show ?thesis by simp
    qed
  qed
qed

lemma table_compiled:
  assumes "tbl_ok d" "length (table_get d) \<le> 32767" "table_compile d = (s, w)"
  shows "compiled (table_get d) s w"
proof -
  have "loop_inv (table_get d) 0 (table_get d) [] [] [] []"
    by (simp add: loop_inv_def stack_inv_def same_rules_def open_at_def lists_from_def first_of_def)
  with compile_loop_inv [OF _ sorted_table_get [OF assms(1)] assms(2)] assms(3) show ?thesis
    by (simp add: table_compile_def)
qed

section \<open>What the hardware does\<close>

lemma covering_region:
  assumes "says T S"
  shows "i \<in> set (covering T x) \<longleftrightarrow> i < length T \<and> (te_channel (T ! i), te_offset (T ! i), x) \<in> entry_region (T ! i)"
proof (cases "i < length T")
  case True
  then have "proper (T ! i)" using assms by (simp add: says_def)
  with True show ?thesis
    by (auto simp: covering_def entry_region_def proper_begin proper_end tend_def)
qed (auto simp: covering_def)

definition te_rule :: "table_entry \<Rightarrow> channel \<times> time \<times> tag" where
  "te_rule te = (te_channel te, te_offset te, te_tag te)"

lemma covering_rules:
  assumes S: "says T S"
  shows "(c, q, v) \<in> (\<lambda>i. te_rule (T ! i)) ` set (covering T x) \<longleftrightarrow> S (c, q, x) = Some v"
    and "distinct (map (\<lambda>i. (te_channel (T ! i), te_offset (T ! i))) (covering T x))"
proof -
  show "(c, q, v) \<in> (\<lambda>i. te_rule (T ! i)) ` set (covering T x) \<longleftrightarrow> S (c, q, x) = Some v"
    unfolding says_iff [OF S] image_iff covering_region [OF S] Bex_def
    by (auto simp: te_rule_def in_set_conv_nth entry_region_def)
  have "i = j" if "i \<in> set (covering T x)" "j \<in> set (covering T x)"
    and eq: "te_channel (T ! i) = te_channel (T ! j)" "te_offset (T ! i) = te_offset (T ! j)" for i j
  proof -
    have ij: "i < length T" "j < length T"
      and k: "(te_channel (T ! i), te_offset (T ! i), x) \<in> entry_region (T ! i) \<inter> entry_region (T ! j)"
      using that covering_region [OF S] by auto
    then have "T ! i = T ! j" using S unfolding says_def by (metis empty_iff nth_mem)
    with ij S show ?thesis by (simp add: says_def nth_eq_iff_index_eq)
  qed
  moreover have "distinct (covering T x)" by (simp add: covering_def)
  ultimately show "distinct (map (\<lambda>i. (te_channel (T ! i), te_offset (T ! i))) (covering T x))"
    by (auto simp: distinct_map inj_on_def)
qed

lemma compiled_walk:
  assumes C: "compiled T s w" and len: "length T \<le> 32767"
  shows "hw_walk s w x = Some (map word_of_nat (covering T x))"
    and "map (walk_rule w) (map word_of_nat (covering T x)) = map (\<lambda>i. te_rule (T ! i)) (covering T x)"
proof -
  show "hw_walk s w x = Some (map word_of_nat (covering T x))"
    using C by (simp add: compiled_def found_def lists_from_def hw_walk_def walk_chain)
  have "walk_rule w (word_of_nat i) = te_rule (T ! i)" if "i \<in> set (covering T x)" for i
  proof -
    have "i < length w" using C that by (auto simp: compiled_def covering_def)
    moreover from this have "unat (word_of_nat i :: index) = i"
      using C len by (intro index_small) (auto simp: compiled_def)
    ultimately show ?thesis
      using C by (simp add: compiled_def same_rules_def walk_rule_def te_rule_def)
  qed
  then show "map (walk_rule w) (map word_of_nat (covering T x)) = map (\<lambda>i. te_rule (T ! i)) (covering T x)"
    by simp
qed

text \<open>C7: the compiled tables do in hardware what the table says. For every 64-bit event, walking the
  list from the last search entry at or below it ends, visits exactly the rules (channel, offset,
  tag) the table has for the event, and visits no channel and offset twice. The search table starts
  at event 0 and its events increase strictly, and the walk table has one row per entry of
  \<^verbatim>\<open>get\<close>. An index is a signed 16-bit number, so up to 32767 entries are covered.\<close>

theorem table_compile_hardware:
  assumes "tbl_ok d" "length (table_get d) \<le> 32767" "table_compile d = (s, w)"
  shows "s \<noteq> [] \<and> se_event (hd s) = 0 \<and> sorted_wrt (\<lambda>a b. se_event a < se_event b) s \<and>
    length w = length (table_get d) \<and>
    (\<exists>xs. hw_walk s w x = Some xs \<and>
       distinct (map (\<lambda>r. (fst r, fst (snd r))) (map (walk_rule w) xs)) \<and>
       (\<forall>c q v. (c, q, v) \<in> set (map (walk_rule w) xs) \<longleftrightarrow> rules d (c, q, x) = Some v))"
proof -
  note C = table_compiled [OF assms] and S = table_get_says [OF assms(1)]
  note W = compiled_walk [OF C assms(2), of x]
  have "distinct (map (\<lambda>r. (fst r, fst (snd r))) (map (walk_rule w) (map word_of_nat (covering (table_get d) x))))"
    using covering_rules(2) [OF S, of x] unfolding W(2) by (simp add: te_rule_def o_def)
  moreover have "(c, q, v) \<in> set (map (walk_rule w) (map word_of_nat (covering (table_get d) x))) \<longleftrightarrow>
      rules d (c, q, x) = Some v" for c q v
    using covering_rules(1) [OF S, of c q v x] unfolding W(2) by simp
  ultimately show ?thesis
    using C W(1) unfolding compiled_def by blast
qed

lemma sample_table_get_small: "length (table_get sample_table) \<le> 32767"
  by code_simp

theorem table_compile_hardware_witness:
  "\<exists>s w xs. table_compile sample_table = (s, w) \<and> hw_walk s w 28 = Some xs \<and>
     (1, 7, 5) \<in> set (map (walk_rule w) xs)"
proof -
  obtain s w where sw: "table_compile sample_table = (s, w)" by fastforce
  from table_compile_hardware [OF sample_table_ok sample_table_get_small sw, of 28] sample_table_rules(2) sw
  show ?thesis by blast
qed

end
