(* ===== verification/ECA_Decompile.thy ===== *)
theory ECA_Decompile
  imports ECA_Compile
begin

text \<open>
  \<^verbatim>\<open>Table::Impl::decompile\<close> reads the hardware tables back: each search entry stands for the events
  up to the next one, each row of its list for a rule over them. On compiled tables, also with the
  last search entry repeated and further rows behind the walk table (the state of the hardware after
  \<^verbatim>\<open>store\<close>), it ends, reports no conflict and gives the rules that were compiled.
\<close>

section \<open>The loops as a bulk load\<close>

lemma sint_index: "i < 32768 \<Longrightarrow> sint (word_of_nat i :: index) = int i"
  by (simp add: signed_of_nat signed_take_bit_int_eq_self)

definition row_rule :: "walk_entry list \<Rightarrow> event \<Rightarrow> event \<Rightarrow> nat \<Rightarrow> range_rule" where
  "row_rule w b e i = (b, e, we_offset (w ! i), we_channel (w ! i), we_tag (w ! i))"

lemma add_row:
  "table_add_range b e (we_offset (w ! i)) (we_channel (w ! i)) (we_tag (w ! i)) d = range_add (row_rule w b e i) d"
  by (simp add: range_add_def row_rule_def)

lemma decompile_walk_list:
  assumes "lists_from w p st" "length w \<le> 32767"
  shows "decompile_walk w b e p n d = Some (Inr (add_all range_add n (map (row_rule w b e) st) d))"
  using assms
proof (induction st arbitrary: p n d)
  case Nil
  then show ?case by (simp add: lists_from_def decompile_walk.simps)
next
  case (Cons i st)
  have p: "p = word_of_nat i" "i < length w" and rest: "lists_from w (we_next (w ! i)) st"
    using Cons.prems index_small [of i] by (auto simp: lists_from_def walk_next_def)
  have i: "sint p = int i" "p \<noteq> - 1"
    using p Cons.prems(2) sint_index [of i] index_small(2) [of i] by auto
  show ?case
    using Cons.IH [OF rest Cons.prems(2)] p(2) i
    by (subst decompile_walk.simps)
      (auto simp: add_row Let_def split: prod.splits)
qed

lemma add_all_append:
  "add_all add n (xs @ ys) t = (case add_all add n xs t of (m, t') \<Rightarrow> add_all add m ys t')"
  by (induction add n xs t rule: add_all.induct) (auto split: prod.splits)

fun spans :: "event \<Rightarrow> search_entry list \<Rightarrow> (search_entry \<times> event) list" where
  "spans lst [] = []"
| "spans lst (se # s) = (se, lst) # spans (se_event se - 1) s"

definition span_rules :: "walk_entry list \<Rightarrow> (search_entry \<Rightarrow> nat list) \<Rightarrow> search_entry \<times> event \<Rightarrow> range_rule list" where
  "span_rules w f = (\<lambda>(se, lst). map (row_rule w (se_event se) lst) (f se))"

lemma decompile_loop_list:
  assumes "\<forall>se \<in> set s. lists_from w (se_first se) (f se)" "length w \<le> 32767"
  shows "decompile_loop w lst s n d =
    Some (Inr (add_all range_add n (concat (map (span_rules w f) (spans lst s))) d))"
  using assms
proof (induction s arbitrary: lst n d)
  case (Cons se s)
  then have "lists_from w (se_first se) (f se)" by simp
  from decompile_walk_list [OF this assms(2)] Cons show ?case
    by (auto simp: span_rules_def add_all_append split: prod.splits)
qed simp

section \<open>Which search entry an event belongs to\<close>

lemma spans_cover:
  assumes "sorted_wrt (\<lambda>a b. se_event a < se_event b) s" "s \<noteq> []" "se_event (hd s) = 0"
    "\<forall>se \<in> set s. se_event se \<le> lst"
  shows "(\<forall>p \<in> set (spans lst (rev s)). fst p \<in> set s \<and>
      (\<forall>x. se_event (fst p) \<le> x \<longrightarrow> x \<le> snd p \<longrightarrow> x \<le> lst \<and> hw_search s x = fst p)) \<and>
    (\<forall>x \<le> lst. \<exists>p \<in> set (spans lst (rev s)). se_event (fst p) \<le> x \<and> x \<le> snd p)"
  using assms
proof (induction s arbitrary: lst rule: rev_induct)
  case Nil
  then show ?case by simp
next
  case (snoc a s)
  show ?case
  proof (cases "s = []")
    case True
    with snoc.prems show ?thesis by (auto simp: hw_search_def)
  next
    case False
    have below: "\<forall>se \<in> set s. se_event se < se_event a" using snoc.prems(1) by (auto simp: sorted_wrt_append)
    with False have "se_event a \<noteq> 0" by (cases s) auto
    then have pred: "x < se_event a \<longleftrightarrow> x \<le> se_event a - 1" for x
      by (rule less_iff_le_pred)
    have "\<forall>se \<in> set s. se_event se \<le> se_event a - 1" using below pred by blast
    with snoc.prems False have IH: "(\<forall>p \<in> set (spans (se_event a - 1) (rev s)). fst p \<in> set s \<and>
      (\<forall>x. se_event (fst p) \<le> x \<longrightarrow> x \<le> snd p \<longrightarrow> x \<le> se_event a - 1 \<and> hw_search s x = fst p)) \<and>
    (\<forall>x \<le> se_event a - 1. \<exists>p \<in> set (spans (se_event a - 1) (rev s)). se_event (fst p) \<le> x \<and> x \<le> snd p)"
      by (intro snoc.IH) (auto simp: sorted_wrt_append)
    have a: "se_event a \<le> lst" using snoc.prems(4) by simp
    have low: "x \<le> lst" "hw_search (s @ [a]) x = hw_search s x" if "x \<le> se_event a - 1" for x
      using that a pred [of x] by (auto simp: hw_search_append)
    have old: "fst p \<in> set (s @ [a]) \<and>
        (\<forall>x. se_event (fst p) \<le> x \<longrightarrow> x \<le> snd p \<longrightarrow> x \<le> lst \<and> hw_search (s @ [a]) x = fst p)"
      if "p \<in> set (spans (se_event a - 1) (rev s))" for p
      using IH that low by auto
    have new: "x \<le> lst \<and> hw_search (s @ [a]) x = a" if "se_event a \<le> x" "x \<le> lst" for x
      using that by (simp add: hw_search_append)
    have "\<exists>p \<in> set (spans lst (rev (s @ [a]))). se_event (fst p) \<le> x \<and> x \<le> snd p" if "x \<le> lst" for x
      using IH that pred [of x] by (cases "se_event a \<le> x") auto
    with old new show ?thesis by auto
  qed
qed

text \<open>The padding: the last search entry again, whose range is empty then, or all events if it is the
  only one.\<close>

lemma spans_padding:
  "spans lst (replicate k a @ s) = (if k = 0 then spans lst s
     else (a, lst) # replicate (k - 1) (a, se_event a - 1) @ spans (se_event a - 1) s)"
proof (induction k arbitrary: lst)
  case (Suc k)
  then show ?case by (cases k) auto
qed simp

definition padded :: "nat \<Rightarrow> search_entry list \<Rightarrow> search_entry list" where
  "padded k s = s @ replicate k (last s)"

lemma spans_padded:
  assumes "s \<noteq> []"
  shows "set (spans (- 1) (rev (padded k s))) =
    set (spans (- 1) (rev s)) \<union> (if k = 0 then {} else {(last s, se_event (last s) - 1)})"
proof -
  obtain u a where s: "s = u @ [a]" using assms by (metis append_butlast_last_id)
  show ?thesis by (auto simp: padded_def s spans_padding)
qed

lemma padded_cover:
  assumes s: "sorted_wrt (\<lambda>a b. se_event a < se_event b) s" "s \<noteq> []" "se_event (hd s) = 0"
  shows "\<forall>p \<in> set (spans (- 1) (rev (padded k s))). fst p \<in> set s \<and>
      (\<forall>x. se_event (fst p) \<le> x \<longrightarrow> x \<le> snd p \<longrightarrow> hw_search s x = fst p)"
    and "\<exists>p \<in> set (spans (- 1) (rev (padded k s))). se_event (fst p) \<le> x \<and> x \<le> snd p"
proof -
  note cover = spans_cover [OF s, of "- 1"]
  then have part: "\<forall>p \<in> set (spans (- 1) (rev s)). fst p \<in> set s \<and>
      (\<forall>x. se_event (fst p) \<le> x \<longrightarrow> x \<le> snd p \<longrightarrow> hw_search s x = fst p)" by simp
  from cover show "\<exists>p \<in> set (spans (- 1) (rev (padded k s))). se_event (fst p) \<le> x \<and> x \<le> snd p"
    by (auto simp: spans_padded [OF s(2)])
  have "(last s, - 1) \<in> set (spans (- 1) (rev s))"
    using s(2) by (cases s rule: rev_cases) auto
  with part have "hw_search s x = last s" if "se_event (last s) \<le> x" for x using that by fastforce
  with part s(2) show "\<forall>p \<in> set (spans (- 1) (rev (padded k s))). fst p \<in> set s \<and>
      (\<forall>x. se_event (fst p) \<le> x \<longrightarrow> x \<le> snd p \<longrightarrow> hw_search s x = fst p)"
    by (auto simp: spans_padded [OF s(2)] split: if_splits)
qed

lemma hw_search_self:
  assumes "sorted_wrt (\<lambda>a b. se_event a < se_event b) s" "se \<in> set s"
  shows "hw_search s (se_event se) = se"
proof -
  obtain u v where s: "s = u @ se # v" using assms(2) by (meson split_list)
  then have "filter (\<lambda>q. se_event q \<le> se_event se) v = []"
    using assms(1) by (force simp: sorted_wrt_append filter_empty_conv)
  then show ?thesis by (simp add: s hw_search_def)
qed

section \<open>Reading compiled tables back\<close>

lemma lists_from_unique:
  assumes "lists_from w p st" "lists_from w p st'" "length w \<le> 32767"
  shows "st = st'"
proof -
  have "map word_of_nat st = (map word_of_nat st' :: index list)"
    using assms chain_unique by (auto simp: lists_from_def)
  moreover have "inj_on (word_of_nat :: nat \<Rightarrow> index) (set st \<union> set st')"
  proof (rule inj_on_inverseI)
    fix i
    assume "i \<in> set st \<union> set st'"
    with assms have "i < 32768" by (auto simp: lists_from_def)
    then show "unat (word_of_nat i :: index) = i" by (rule index_small)
  qed
  ultimately show ?thesis by (metis map_inj_on)
qed

lemma read_back_rules:
  fixes k :: nat
  assumes C: "compiled T s w" and len: "length (w @ v) \<le> 32767" and S: "says T S"
  defines "R \<equiv> concat (map (span_rules (w @ v) (\<lambda>se. covering T (se_event se))) (spans (- 1) (rev (padded k s))))"
  shows "r \<in> set R \<Longrightarrow> (c, q, x) \<in> range_region r \<Longrightarrow> S (c, q, x) = Some (range_tag r)"
    and "S (c, q, x) = Some tg \<Longrightarrow> \<exists>r \<in> set R. (c, q, x) \<in> range_region r \<and> range_tag r = tg"
proof -
  have s: "sorted_wrt (\<lambda>a b. se_event a < se_event b) s" "s \<noteq> []" "se_event (hd s) = 0"
    and fnd: "\<And>x. found T s w x" using C by (auto simp: compiled_def)
  have same: "covering T (se_event (fst p)) = covering T x"
    if "p \<in> set (spans (- 1) (rev (padded k s)))" "se_event (fst p) \<le> x" "x \<le> snd p" for p x
  proof -
    have p: "fst p \<in> set s" "hw_search s x = fst p" using padded_cover(1) [OF s] that by auto
    with fnd [of x] fnd [of "se_event (fst p)"] hw_search_self [OF s(1) p(1)] len show ?thesis
      by (intro lists_from_unique [of w "se_first (fst p)"]) (auto simp: found_def)
  qed
  have row: "range_tag (row_rule (w @ v) b e i) = te_tag (T ! i)"
      "range_region (row_rule (w @ v) b e i) = {(te_channel (T ! i), te_offset (T ! i), x) | x. b \<le> x \<and> x \<le> e}"
    if "i \<in> set (covering T y)" for i b e y
  proof -
    have "i < length w" using C that by (auto simp: compiled_def covering_def)
    with C show "range_tag (row_rule (w @ v) b e i) = te_tag (T ! i)"
      "range_region (row_rule (w @ v) b e i) = {(te_channel (T ! i), te_offset (T ! i), x) | x. b \<le> x \<and> x \<le> e}"
      by (auto simp: row_rule_def range_tag_def range_region_def compiled_def same_rules_def nth_append)
  qed
  show "S (c, q, x) = Some (range_tag r)" if r: "r \<in> set R" "(c, q, x) \<in> range_region r"
  proof -
    from r(1) obtain p i where p: "p \<in> set (spans (- 1) (rev (padded k s)))"
      and i: "i \<in> set (covering T (se_event (fst p)))" "r = row_rule (w @ v) (se_event (fst p)) (snd p) i"
      by (auto simp: R_def span_rules_def)
    with r(2) row [OF i(1)] have x: "se_event (fst p) \<le> x" "x \<le> snd p"
      and k: "c = te_channel (T ! i)" "q = te_offset (T ! i)" by auto
    have "(c, q, te_tag (T ! i)) \<in> (\<lambda>i. te_rule (T ! i)) ` set (covering T x)"
      using i(1) same [OF p x] k by (auto simp: te_rule_def)
    with covering_rules(1) [OF S] row(1) [OF i(1)] i(2) show ?thesis by simp
  qed
  show "\<exists>r \<in> set R. (c, q, x) \<in> range_region r \<and> range_tag r = tg" if "S (c, q, x) = Some tg"
  proof -
    obtain p where p: "p \<in> set (spans (- 1) (rev (padded k s)))" "se_event (fst p) \<le> x" "x \<le> snd p"
      using padded_cover(2) [OF s] by blast
    from that obtain i where i: "i \<in> set (covering T (se_event (fst p)))" "(c, q, tg) = te_rule (T ! i)"
      using covering_rules(1) [OF S, of c q tg x] same [OF p] by (auto simp: image_iff)
    let ?r = "row_rule (w @ v) (se_event (fst p)) (snd p) i"
    have "?r \<in> set R" using p(1) i(1) by (force simp: R_def span_rules_def)
    with row [OF i(1)] p(2,3) i(2) show ?thesis by (intro bexI [of _ ?r]) (auto simp: te_rule_def)
  qed
qed

lemma decompile_compiled:
  assumes ok: "tbl_ok d" and sw: "table_compile d = (s, w)" and len: "length (table_get d) + length v \<le> 32767"
  shows "\<exists>d'. table_decompile (padded k s) (w @ v) [] = Some (Inr (0, d')) \<and> tbl_ok d' \<and>
    (\<forall>key. rules d' key = rules d key)"
proof -
  let ?T = "table_get d"
  define R where "R = concat (map (span_rules (w @ v) (\<lambda>se. covering ?T (se_event se))) (spans (- 1) (rev (padded k s))))"
  have C: "compiled ?T s w" using table_compiled [OF ok _ sw] len by simp
  then have fits: "length (w @ v) \<le> 32767" using len by (simp add: compiled_def)
  note reread = read_back_rules [OF C fits table_get_says [OF ok], where k = k, folded R_def]
  have "\<forall>r \<in> set R. \<forall>r' \<in> set R. range_region r \<inter> range_region r' \<noteq> {} \<longrightarrow> range_tag r = range_tag r'"
  proof (intro ballI impI)
    fix r r'
    assume r: "r \<in> set R" "r' \<in> set R" and "range_region r \<inter> range_region r' \<noteq> {}"
    then obtain c q x where "(c, q, x) \<in> range_region r" "(c, q, x) \<in> range_region r'" by force
    with reread(1) [OF r(1), of c q x] reread(1) [OF r(2), of c q x] show "range_tag r = range_tag r'" by simp
  qed
  from ranges.add_all_clean [OF tbl_ok_Nil _ this, of 0] obtain d' where
    d': "add_all range_add 0 R [] = (0, d')" "tbl_ok d'"
      "\<forall>key tg. rules d' key = Some tg \<longleftrightarrow> (\<exists>r \<in> set R. key \<in> range_region r \<and> range_tag r = tg)"
    by auto
  have "rules d' (c, q, x) = Some tg \<longleftrightarrow> rules d (c, q, x) = Some tg" for c q x tg
    using d'(3) reread(1) [of _ c q x] reread(2) [of c q x tg] by auto
  then have "rules d' key = rules d key" for key by (metis option.exhaust prod.exhaust)
  moreover have "table_decompile (padded k s) (w @ v) [] = Some (Inr (add_all range_add 0 R []))"
    unfolding table_decompile_def R_def
  proof (rule decompile_loop_list [OF _ fits])
    show "\<forall>se \<in> set (rev (padded k s)). lists_from (w @ v) (se_first se) (covering ?T (se_event se))"
    proof
      fix se
      assume "se \<in> set (rev (padded k s))"
      then have "se \<in> set s" using C by (auto simp: padded_def compiled_def split: if_splits)
      with C hw_search_self [of s se] have "lists_from w (se_first se) (covering ?T (se_event se))"
        unfolding compiled_def found_def by metis
      then show "lists_from (w @ v) (se_first se) (covering ?T (se_event se))"
        using fits by (rule lists_from_append)
    qed
  qed
  ultimately show ?thesis using d' by simp
qed

text \<open>C21: compiling and decompiling a table is a round trip through the hardware. Reading back the
  compiled search table, padded with any number of copies of its last entry as \<^verbatim>\<open>store\<close> writes
  it, and the compiled walk table, followed by any other rows, ends, reports no conflict and gives a
  well-formed table with the rules of the table that was compiled.\<close>

theorem table_decompile_compile:
  assumes "tbl_ok d" "table_compile d = (s, w)" "length (table_get d) + length v \<le> 32767"
  shows "\<exists>d'. table_decompile (padded k s) (w @ v) [] = Some (Inr (0, d')) \<and> tbl_ok d' \<and>
    (\<forall>key. rules d' key = rules d key)"
  using assms by (rule decompile_compiled)

theorem table_decompile_compile_witness:
  "\<exists>s w d'. table_compile sample_table = (s, w) \<and>
     table_decompile (padded 3 s) w [] = Some (Inr (0, d')) \<and> rules d' (1, 7, 28) = Some 5"
proof -
  obtain s w where sw: "table_compile sample_table = (s, w)" by fastforce
  from table_decompile_compile [OF sample_table_ok sw, of "[]" 3] sample_table_get_small sample_table_rules(2) sw
  show ?thesis by auto
qed

end
