(* ===== verification/WR_Scan.thy ===== *)
theory WR_Scan
  imports WR_Bus EB_State
begin

text \<open>
  The search for units in the self-describing bus, as both \<^verbatim>\<open>modules/wr_eca/lib/probe-eca.cpp\<close> and
  \<^verbatim>\<open>modules/wr_tlu/lib/tlu.cpp\<close> have it: the callback of a scan looks at every record of a bus,
  collects the devices it knows and scans the buses behind bridges.
\<close>

section \<open>The search\<close>

text \<open>A scan is a parameter: \<open>scan None\<close> is \<^verbatim>\<open>sdb_scan_root\<close> followed by the loop that runs the socket
  until the callback was called, \<open>scan (Some b)\<close> the same for \<^verbatim>\<open>sdb_scan_bus\<close>. The result is what the
  callback was called with, the table being \<open>None\<close> for a null pointer, or \<open>None\<close> if the scan was
  refused: its status is ignored and the loop waits for a callback that never comes.\<close>

type_synonym 'w scan = "sdb_bridge option \<Rightarrow> 'w \<Rightarrow> (eb_status_t \<times> sdb_table option) option \<times> 'w"

text \<open>What is described of a unit in its record.\<close>

record sdb_info =
  sdb_ver_major :: uint8
  sdb_ver_minor :: uint8
  si_version :: uint32
  si_date :: uint32
  si_name :: bytes

definition trim :: "bytes \<Rightarrow> bytes" where
  "trim s = rev (dropWhile (\<lambda>c. c = 32) (rev s))"

definition device_info :: "sdb_device \<Rightarrow> sdb_info" where
  "device_info d =
     \<lparr>sdb_ver_major = abi_ver_major d, sdb_ver_minor = abi_ver_minor d,
      si_version = version (product (dev_component d)), si_date = date (product (dev_component d)),
      si_name = trim (prod_name (product (dev_component d)))\<rparr>"

abbreviation (input) GSI_VENDOR_ID :: uint64 where "GSI_VENDOR_ID \<equiv> 0x651"

text \<open>The search record is the status and what has been found. A table without records makes the
  number of devices wrap around; this and a null pointer are failures. \<open>visit\<close> is what the search does
  with a device.\<close>

datatype search_fault = Null_table | Wild_records

partial_function (option) search_records ::
  "(sdb_device \<Rightarrow> 'r \<Rightarrow> 'r) \<Rightarrow> 'w scan \<Rightarrow> sdb_record list \<Rightarrow> eb_status_t \<times> 'r \<Rightarrow> 'w \<Rightarrow>
    (search_fault + (eb_status_t \<times> 'r) \<times> 'w) option" where
  "search_records visit scan recs r h =
     (case recs of
        [] \<Rightarrow> Some (Inr (r, h))
      | des # rest \<Rightarrow>
          (case des of
             Sdb_device d \<Rightarrow> search_records visit scan rest (fst r, visit d (snd r)) h
           | Sdb_bridge b \<Rightarrow>
               (case scan (Some b) h of
                  (None, h1) \<Rightarrow> None
                | (Some (st, tbl), h1) \<Rightarrow>
                    if st \<noteq> EB_OK then search_records visit scan rest (st, snd r) h1
                    else
                      case tbl of
                        None \<Rightarrow> Some (Inl Null_table)
                      | Some (icn, recs1) \<Rightarrow>
                          if sdb_records icn = 0 then Some (Inl Wild_records)
                          else Option.bind (search_records visit scan recs1 r h1)
                                 (\<lambda>x. case x of
                                    Inl f \<Rightarrow> Some (Inl f)
                                  | Inr (r1, h2) \<Rightarrow> search_records visit scan rest r1 h2))
           | _ \<Rightarrow> search_records visit scan rest r h))"

declare search_records.simps [code]

text \<open>The search of a probe, from the root bus on.\<close>

definition search_root :: "(sdb_device \<Rightarrow> 'r \<Rightarrow> 'r) \<Rightarrow> 'w scan \<Rightarrow> 'r \<Rightarrow> 'w \<Rightarrow>
    (search_fault + (eb_status_t \<times> 'r) \<times> 'w) option" where
  "search_root visit scan r h =
     (case scan None h of
        (None, h1) \<Rightarrow> None
      | (Some (st, tbl), h1) \<Rightarrow>
          if st \<noteq> EB_OK then Some (Inr ((st, r), h1))
          else
            case tbl of
              None \<Rightarrow> Some (Inl Null_table)
            | Some (icn, recs) \<Rightarrow>
                if sdb_records icn = 0 then Some (Inl Wild_records)
                else search_records visit scan recs (EB_OK, r) h1)"

section \<open>What the search finds\<close>

text \<open>The devices of a bus, those behind its bridges in their place.\<close>

inductive bus_devices :: "'w scan \<Rightarrow> sdb_record list \<Rightarrow> sdb_device list \<Rightarrow> bool" for scan where
  none: "bus_devices scan [] []"
| device: "bus_devices scan rest ds \<Longrightarrow> bus_devices scan (Sdb_device d # rest) (d # ds)"
| bridge: "\<lbrakk>\<forall>h. \<exists>h1. scan (Some b) h = (Some (EB_OK, Some (icn, recs1)), h1); sdb_records icn \<noteq> 0;
     bus_devices scan recs1 ds1; bus_devices scan rest ds2\<rbrakk> \<Longrightarrow>
   bus_devices scan (Sdb_bridge b # rest) (ds1 @ ds2)"
| integration: "bus_devices scan rest ds \<Longrightarrow> bus_devices scan (Sdb_integration x p # rest) ds"
| other: "bus_devices scan rest ds \<Longrightarrow> bus_devices scan (Sdb_other x # rest) ds"

definition root_devices :: "'w scan \<Rightarrow> sdb_device list \<Rightarrow> bool" where
  "root_devices scan ds \<longleftrightarrow>
     (\<exists>icn recs. (\<forall>h. \<exists>h1. scan None h = (Some (EB_OK, Some (icn, recs)), h1)) \<and> sdb_records icn \<noteq> 0 \<and>
        bus_devices scan recs ds)"

lemma search_records_visits:
  "bus_devices scan recs ds \<Longrightarrow>
   \<exists>h'. search_records visit scan recs (st, r) h = Some (Inr ((st, fold visit ds r), h'))"
proof (induction arbitrary: r h rule: bus_devices.induct)
  case (bridge b icn recs1 ds1 rest ds2)
  obtain h1 where h1: "scan (Some b) h = (Some (EB_OK, Some (icn, recs1)), h1)"
    using bridge.hyps(1) by blast
  obtain h2 where h2: "search_records visit scan recs1 (st, r) h1 = Some (Inr ((st, fold visit ds1 r), h2))"
    using bridge.IH(1) by blast
  show ?case
    using bridge.IH(2) [of "fold visit ds1 r" h2] bridge.hyps(2)
    by (subst search_records.simps) (simp add: h1 h2)
qed (subst search_records.simps; simp)+

lemma search_root_visits:
  assumes "root_devices scan ds"
  shows "\<exists>h'. search_root visit scan r h = Some (Inr ((EB_OK, fold visit ds r), h'))"
proof -
  obtain icn recs h1 where h1: "scan None h = (Some (EB_OK, Some (icn, recs)), h1)"
    "sdb_records icn \<noteq> 0" "bus_devices scan recs ds"
    using assms unfolding root_devices_def by blast
  show ?thesis
    using search_records_visits [OF h1(3), of visit EB_OK r h1] h1(2)
    unfolding search_root_def h1(1) by simp
qed

lemma fold_visit_filter:
  "(\<And>d r. visit d r = (if P d then r @ [f d] else r)) \<Longrightarrow> fold visit ds r = r @ map f (filter P ds)"
  by (induction ds arbitrary: r) auto

end
