(* ===== verification/ECA_Hardware.thy ===== *)
theory ECA_Hardware
  imports ECA_Decompile WR_Scan
begin

text \<open>
  Access to the event-condition-action unit over the bus: \<^verbatim>\<open>modules/wr_eca/lib/hw-eca.cpp\<close>,
  \<^verbatim>\<open>hw-channel.cpp\<close>, \<^verbatim>\<open>hw-queue.cpp\<close>, \<^verbatim>\<open>hw-stream.cpp\<close>,
  \<^verbatim>\<open>load-table.cpp\<close> and \<^verbatim>\<open>store-table.cpp\<close>.

  Every operation is a function of the object it is called on and of the state of the hardware,
  with the bus of \<^verbatim>\<open>WR_Bus\<close> as a parameter, and returns the status, the object and the state
  of the hardware afterwards. The \<^verbatim>\<open>device\<close> of an object is that parameter.
\<close>

section \<open>State\<close>

datatype action_status = VALID | CONFLICT | LATE

record event_entry =
  ee_event :: event
  ee_param :: param
  ee_tef :: tef
  ee_time :: time

record action_entry =
  ae_event :: event
  ae_param :: param
  ae_tag :: tag
  ae_tef :: tef
  ae_time :: time
  ae_status :: action_status

record action_queue =
  aq_sdb :: sdb_info
  aq_queue_size :: uint16
  aq_arrival_enable :: bool
  aq_arrival_dest :: uint32
  aq_overflow_enable :: bool
  aq_overflow_dest :: uint32
  aq_queued_actions :: uint32
  aq_dropped_actions :: uint32
  aq_address :: eb_address_t

record action_channel =
  ac_name :: bytes
  ac_queue_size :: uint32
  ac_queue :: "action_queue list"
  ac_draining :: bool
  ac_frozen :: bool
  ac_int_enable :: bool
  ac_int_dest :: uint32
  ac_fill :: uint16
  ac_max_fill :: uint16
  ac_valid :: uint32
  ac_conflict :: uint32
  ac_late :: uint32
  ac_address :: eb_address_t
  ac_index :: channel

record event_stream =
  es_sdb :: sdb_info
  es_address :: eb_address_t

record eca =
  eca_name :: bytes
  eca_sdb :: sdb_info
  eca_inspect_table :: bool
  eca_inspect_queue :: bool
  eca_table_size :: uint32
  eca_queue_size :: uint32
  eca_freq_mul :: uint32
  eca_freq_5s :: uint8
  eca_freq_2s :: uint8
  eca_freq_div :: uint16
  eca_channels :: "action_channel list"
  eca_streams :: "event_stream list"
  eca_time :: time
  eca_disabled :: bool
  eca_interrupts :: bool
  eca_address :: eb_address_t
  eca_index :: uint32

section \<open>Registers\<close>

abbreviation (input) ECA_CTL :: eb_address_t where "ECA_CTL \<equiv> 0x04"
abbreviation (input) ECA_TIME1 :: eb_address_t where "ECA_TIME1 \<equiv> 0x08"
abbreviation (input) ECA_TIME0 :: eb_address_t where "ECA_TIME0 \<equiv> 0x0C"
abbreviation (input) ECA_SEARCH :: eb_address_t where "ECA_SEARCH \<equiv> 0x10"
abbreviation (input) ECA_FIRST :: eb_address_t where "ECA_FIRST \<equiv> 0x14"
abbreviation (input) ECA_EVENT1 :: eb_address_t where "ECA_EVENT1 \<equiv> 0x18"
abbreviation (input) ECA_EVENT0 :: eb_address_t where "ECA_EVENT0 \<equiv> 0x1C"
abbreviation (input) ECA_WALK :: eb_address_t where "ECA_WALK \<equiv> 0x20"
abbreviation (input) ECA_NEXT :: eb_address_t where "ECA_NEXT \<equiv> 0x24"
abbreviation (input) ECA_DELAY1 :: eb_address_t where "ECA_DELAY1 \<equiv> 0x28"
abbreviation (input) ECA_DELAY0 :: eb_address_t where "ECA_DELAY0 \<equiv> 0x2C"
abbreviation (input) ECA_TAG :: eb_address_t where "ECA_TAG \<equiv> 0x30"
abbreviation (input) ECA_CHANNEL :: eb_address_t where "ECA_CHANNEL \<equiv> 0x34"

abbreviation (input) ECA_CTL_DISABLE :: eb_data_t where "ECA_CTL_DISABLE \<equiv> 0x01"
abbreviation (input) ECA_CTL_INT_ENABLE :: eb_data_t where "ECA_CTL_INT_ENABLE \<equiv> 0x02"
abbreviation (input) ECA_CTL_FLIP :: eb_data_t where "ECA_CTL_FLIP \<equiv> 0x04"

abbreviation (input) ECAC_STATUS_VALID :: eb_data_t where "ECAC_STATUS_VALID \<equiv> 0x01"
abbreviation (input) ECAC_STATUS_LATE :: eb_data_t where "ECAC_STATUS_LATE \<equiv> 0x02"
abbreviation (input) ECAC_CTL_DRAIN :: eb_data_t where "ECAC_CTL_DRAIN \<equiv> 0x01"
abbreviation (input) ECAC_CTL_FREEZE :: eb_data_t where "ECAC_CTL_FREEZE \<equiv> 0x02"
abbreviation (input) ECAC_CTL_INT_MASK :: eb_data_t where "ECAC_CTL_INT_MASK \<equiv> 0x04"
abbreviation (input) ECAC_SELECT :: eb_address_t where "ECAC_SELECT \<equiv> 0x40"
abbreviation (input) ECAC_CTL :: eb_address_t where "ECAC_CTL \<equiv> 0x44"
abbreviation (input) ECAC_INT_DEST :: eb_address_t where "ECAC_INT_DEST \<equiv> 0x48"
abbreviation (input) ECAC_FILL :: eb_address_t where "ECAC_FILL \<equiv> 0x50"
abbreviation (input) ECAC_VALID :: eb_address_t where "ECAC_VALID \<equiv> 0x54"
abbreviation (input) ECAC_CONFLICT :: eb_address_t where "ECAC_CONFLICT \<equiv> 0x58"
abbreviation (input) ECAC_LATE :: eb_address_t where "ECAC_LATE \<equiv> 0x5C"
abbreviation (input) ECAC_EVENT1 :: eb_address_t where "ECAC_EVENT1 \<equiv> 0x60"
abbreviation (input) ECAC_EVENT0 :: eb_address_t where "ECAC_EVENT0 \<equiv> 0x64"
abbreviation (input) ECAC_PARAM1 :: eb_address_t where "ECAC_PARAM1 \<equiv> 0x68"
abbreviation (input) ECAC_PARAM0 :: eb_address_t where "ECAC_PARAM0 \<equiv> 0x6C"
abbreviation (input) ECAC_TAG :: eb_address_t where "ECAC_TAG \<equiv> 0x70"
abbreviation (input) ECAC_TEF :: eb_address_t where "ECAC_TEF \<equiv> 0x74"
abbreviation (input) ECAC_TIME1 :: eb_address_t where "ECAC_TIME1 \<equiv> 0x78"
abbreviation (input) ECAC_TIME0 :: eb_address_t where "ECAC_TIME0 \<equiv> 0x7C"

abbreviation (input) ECAQ_CTL :: eb_address_t where "ECAQ_CTL \<equiv> 0x0"
abbreviation (input) ECAQ_INT_MASK :: eb_address_t where "ECAQ_INT_MASK \<equiv> 0x4"
abbreviation (input) ECAQ_ARRIVAL :: eb_address_t where "ECAQ_ARRIVAL \<equiv> 0x8"
abbreviation (input) ECAQ_OVERFLOW :: eb_address_t where "ECAQ_OVERFLOW \<equiv> 0xC"
abbreviation (input) ECAQ_QUEUED :: eb_address_t where "ECAQ_QUEUED \<equiv> 0x10"
abbreviation (input) ECAQ_DROPPED :: eb_address_t where "ECAQ_DROPPED \<equiv> 0x14"
abbreviation (input) ECAQ_FLAGS :: eb_address_t where "ECAQ_FLAGS \<equiv> 0x1C"
abbreviation (input) ECAQ_EVENT1 :: eb_address_t where "ECAQ_EVENT1 \<equiv> 0x20"
abbreviation (input) ECAQ_EVENT0 :: eb_address_t where "ECAQ_EVENT0 \<equiv> 0x24"
abbreviation (input) ECAQ_PARAM1 :: eb_address_t where "ECAQ_PARAM1 \<equiv> 0x28"
abbreviation (input) ECAQ_PARAM0 :: eb_address_t where "ECAQ_PARAM0 \<equiv> 0x2C"
abbreviation (input) ECAQ_TAG :: eb_address_t where "ECAQ_TAG \<equiv> 0x30"
abbreviation (input) ECAQ_TEF :: eb_address_t where "ECAQ_TEF \<equiv> 0x34"
abbreviation (input) ECAQ_TIME1 :: eb_address_t where "ECAQ_TIME1 \<equiv> 0x38"
abbreviation (input) ECAQ_TIME0 :: eb_address_t where "ECAQ_TIME0 \<equiv> 0x3C"

abbreviation (input) BE32 :: eb_format_t where "BE32 \<equiv> EB_DATA32 OR EB_BIG_ENDIAN"

section \<open>The unit\<close>

text \<open>Integer part of \<^verbatim>\<open>seconds\<close>; the fraction is computed in floating point and left out. The
  assertion and the division by a zero \<^verbatim>\<open>freq_mul\<close> are failures.\<close>

datatype seconds_fault = Assert_high | Zero_freq_mul

fun divide_loop :: "nat \<Rightarrow> uint64 \<Rightarrow> uint64 \<times> uint64 \<Rightarrow> uint64 \<times> uint64" where
  "divide_loop 0 k (high, low) = (high, low)"
| "divide_loop (Suc n) k (high, low) =
     divide_loop n k (high div k, (low + push_bit 32 (high mod k)) div k)"

definition eca_seconds :: "eca \<Rightarrow> uint64 \<Rightarrow> seconds_fault + uint64" where
  "eca_seconds ec t0 =
     (let t = (if t0 = - 1 then eca_time ec else t0);
          high = hi32 t * ucast (eca_freq_div ec);
          low = lo32 t * ucast (eca_freq_div ec);
          high = high + hi32 low;
          low = lo32 low;
          (high, low) = divide_loop (unat (eca_freq_2s ec)) 2 (high, low);
          (high, low) = divide_loop (unat (eca_freq_5s ec)) 5 (high, low)
      in if eca_freq_mul ec = 0 then Inl Zero_freq_mul
         else
           let (high, low) = divide_loop 1 (ucast (eca_freq_mul ec)) (high, low);
               low = low + push_bit 32 high;
               high = hi32 high
           in if high \<noteq> 0 then Inl Assert_high else Inr low)"

definition eca_refresh :: "'w bus \<Rightarrow> eca \<Rightarrow> 'w \<Rightarrow> eb_status_t \<times> eca \<times> 'w" where
  "eca_refresh bus ec h =
     (case bus_cycle bus
        [Bread (eca_address ec + ECA_CTL) EB_DATA32, Bread (eca_address ec + ECA_TIME1) EB_DATA32,
         Bread (eca_address ec + ECA_TIME0) EB_DATA32] h of
      (st, vs, h1) \<Rightarrow>
        if st \<noteq> EB_OK then (st, ec, h1)
        else (EB_OK, ec\<lparr>eca_time := join_add (vs ! 1) (vs ! 2),
                        eca_disabled := (vs ! 0 AND ECA_CTL_DISABLE \<noteq> 0),
                        eca_interrupts := (vs ! 0 AND ECA_CTL_INT_ENABLE \<noteq> 0)\<rparr>, h1))"

definition eca_disable :: "'w bus \<Rightarrow> bool \<Rightarrow> eca \<Rightarrow> 'w \<Rightarrow> eb_status_t \<times> eca \<times> 'w" where
  "eca_disable bus d ec h =
     (case b_write bus (eca_address ec + ECA_CTL) BE32
        (if d then ECA_CTL_DISABLE else push_bit 8 ECA_CTL_DISABLE) h of
      (st, h1) \<Rightarrow> if st \<noteq> EB_OK then (st, ec, h1) else (EB_OK, ec\<lparr>eca_disabled := d\<rparr>, h1))"

definition eca_interrupt :: "'w bus \<Rightarrow> bool \<Rightarrow> eca \<Rightarrow> 'w \<Rightarrow> eb_status_t \<times> eca \<times> 'w" where
  "eca_interrupt bus i ec h =
     (case b_write bus (eca_address ec + ECA_CTL) BE32
        (if i then ECA_CTL_INT_ENABLE else push_bit 8 ECA_CTL_INT_ENABLE) h of
      (st, h1) \<Rightarrow> if st \<noteq> EB_OK then (st, ec, h1) else (EB_OK, ec\<lparr>eca_interrupts := i\<rparr>, h1))"

definition eca_flipTables :: "'w bus \<Rightarrow> eca \<Rightarrow> 'w \<Rightarrow> eb_status_t \<times> 'w" where
  "eca_flipTables bus ec h = b_write bus (eca_address ec + ECA_CTL) BE32 ECA_CTL_FLIP h"

section \<open>Storing the table\<close>

datatype store_fault = Unsorted_search | Forward_next

definition search_ops :: "eb_address_t \<Rightarrow> nat \<Rightarrow> search_entry \<Rightarrow> bus_op list" where
  "search_ops adr i se =
     (let first = (if se_first se = - 1 then 0 else ucast ((0x80000000 :: uint32) OR scast (se_first se))) in
      [Bwrite (adr + ECA_SEARCH) EB_DATA32 (word_of_nat i), Bwrite (adr + ECA_FIRST) EB_DATA32 first,
       Bwrite (adr + ECA_EVENT1) EB_DATA32 (hi32 (se_event se)),
       Bwrite (adr + ECA_EVENT0) EB_DATA32 (lo32 (se_event se))])"

text \<open>The loop over the rows from \<open>i\<close> on, the list being what is left of the padded table. A failed
  assertion is \<open>Inl\<close>.\<close>

fun storeSearch_loop :: "'w bus \<Rightarrow> eb_address_t \<Rightarrow> nat \<Rightarrow> event \<Rightarrow> search_entry list \<Rightarrow> 'w \<Rightarrow>
    store_fault + eb_status_t \<times> 'w" where
  "storeSearch_loop bus adr i last_event [] h = Inr (EB_OK, h)"
| "storeSearch_loop bus adr i last_event (se # ses) h =
     (if \<not> last_event \<le> se_event se then Inl Unsorted_search
      else
        case bus_cycle bus (search_ops adr i se) h of
          (st, vs, h1) \<Rightarrow>
            if st \<noteq> EB_OK then Inr (st, h1)
            else storeSearch_loop bus adr (i + 1) (se_event se) ses h1)"

definition storeSearch :: "'w bus \<Rightarrow> eca \<Rightarrow> search_entry list \<Rightarrow> 'w \<Rightarrow> store_fault + eb_status_t \<times> 'w" where
  "storeSearch bus ec table h =
     (let n = 2 * eca_table_size ec in
      if length table > unat n then Inr (EB_OOM, h)
      else if table = [] \<or> se_event (hd table) \<noteq> 0 then Inr (EB_FAIL, h)
      else storeSearch_loop bus (eca_address ec) 0 0 (padded (unat n - length table) table) h)"

definition walk_ops :: "eb_address_t \<Rightarrow> nat \<Rightarrow> walk_entry \<Rightarrow> bus_op list" where
  "walk_ops adr i we =
     (let nxt = (if we_next we = - 1 then 0 else ucast ((0x80000000 :: uint32) OR scast (we_next we))) in
      [Bwrite (adr + ECA_WALK) EB_DATA32 (word_of_nat i), Bwrite (adr + ECA_NEXT) EB_DATA32 nxt,
       Bwrite (adr + ECA_DELAY1) EB_DATA32 (hi32 (we_offset we)),
       Bwrite (adr + ECA_DELAY0) EB_DATA32 (lo32 (we_offset we)),
       Bwrite (adr + ECA_TAG) EB_DATA32 (ucast (we_tag we)),
       Bwrite (adr + ECA_CHANNEL) EB_DATA32 (ucast (we_channel we))])"

fun storeWalk_loop :: "'w bus \<Rightarrow> eb_address_t \<Rightarrow> nat \<Rightarrow> nat \<Rightarrow> walk_entry list \<Rightarrow> 'w \<Rightarrow>
    store_fault + eb_status_t \<times> 'w" where
  "storeWalk_loop bus adr channels i [] h = Inr (EB_OK, h)"
| "storeWalk_loop bus adr channels i (we # wes) h =
     (if unat (we_channel we) \<ge> channels then Inr (EB_FAIL, h)
      else if \<not> sint (we_next we) < int i then Inl Forward_next
      else
        case bus_cycle bus (walk_ops adr i we) h of
          (st, vs, h1) \<Rightarrow>
            if st \<noteq> EB_OK then Inr (st, h1)
            else storeWalk_loop bus adr channels (i + 1) wes h1)"

definition storeWalk :: "'w bus \<Rightarrow> eca \<Rightarrow> walk_entry list \<Rightarrow> 'w \<Rightarrow> store_fault + eb_status_t \<times> 'w" where
  "storeWalk bus ec table h =
     (if length table > unat (eca_table_size ec) then Inr (EB_OOM, h)
      else storeWalk_loop bus (eca_address ec) (length (eca_channels ec)) 0 table h)"

definition eca_store :: "'w bus \<Rightarrow> eca \<Rightarrow> channel_map \<Rightarrow> 'w \<Rightarrow> store_fault + eb_status_t \<times> 'w" where
  "eca_store bus ec d h =
     (case table_compile d of (se, we) \<Rightarrow>
        case storeSearch bus ec se h of
          Inl f \<Rightarrow> Inl f
        | Inr (st, h1) \<Rightarrow> if st \<noteq> EB_OK then Inr (st, h1) else storeWalk bus ec we h1)"

section \<open>Loading the table\<close>

definition row_index :: "bool \<Rightarrow> nat \<Rightarrow> eb_data_t" where
  "row_index active i = (if active then 0x80000000 else 0) + word_of_nat i"

definition load_search_ops :: "eb_address_t \<Rightarrow> bool \<Rightarrow> nat \<Rightarrow> bus_op list" where
  "load_search_ops adr active i =
     [Bwrite (adr + ECA_SEARCH) EB_DATA32 (row_index active i), Bread (adr + ECA_FIRST) EB_DATA32,
      Bread (adr + ECA_EVENT1) EB_DATA32, Bread (adr + ECA_EVENT0) EB_DATA32]"

definition read_index :: "eb_data_t \<Rightarrow> index" where
  "read_index v = (if drop_bit 31 v \<noteq> 0 then ucast (v AND 0x7FFF) else - 1)"

definition read_search :: "eb_data_t list \<Rightarrow> search_entry" where
  "read_search vs = \<lparr>se_event = join_or (vs ! 1) (vs ! 2), se_first = read_index (vs ! 0)\<rparr>"

fun loadSearch_loop :: "'w bus \<Rightarrow> eb_address_t \<Rightarrow> bool \<Rightarrow> nat list \<Rightarrow> 'w \<Rightarrow>
    eb_status_t \<times> search_entry list \<times> 'w" where
  "loadSearch_loop bus adr active [] h = (EB_OK, [], h)"
| "loadSearch_loop bus adr active (i # is) h =
     (case bus_cycle bus (load_search_ops adr active i) h of
        (st, vs, h1) \<Rightarrow>
          if st \<noteq> EB_OK then (st, [], h1)
          else (case loadSearch_loop bus adr active is h1 of
                  (st', ses, h2) \<Rightarrow> (st', read_search vs # ses, h2)))"

definition loadSearch :: "'w bus \<Rightarrow> eca \<Rightarrow> bool \<Rightarrow> 'w \<Rightarrow> eb_status_t \<times> search_entry list \<times> 'w" where
  "loadSearch bus ec active h =
     (if \<not> eca_inspect_table ec then (EB_OK, [], h)
      else loadSearch_loop bus (eca_address ec) active [0..<unat (eca_table_size ec * 2)] h)"

definition load_walk_ops :: "eb_address_t \<Rightarrow> bool \<Rightarrow> nat \<Rightarrow> bus_op list" where
  "load_walk_ops adr active i =
     [Bwrite (adr + ECA_WALK) EB_DATA32 (row_index active i), Bread (adr + ECA_NEXT) EB_DATA32,
      Bread (adr + ECA_DELAY1) EB_DATA32, Bread (adr + ECA_DELAY0) EB_DATA32,
      Bread (adr + ECA_TAG) EB_DATA32, Bread (adr + ECA_CHANNEL) EB_DATA32]"

definition read_walk :: "eb_data_t list \<Rightarrow> walk_entry" where
  "read_walk vs = \<lparr>we_offset = join_or (vs ! 1) (vs ! 2), we_tag = ucast (vs ! 3),
     we_next = read_index (vs ! 0), we_channel = ucast (vs ! 4)\<rparr>"

fun loadWalk_loop :: "'w bus \<Rightarrow> eb_address_t \<Rightarrow> bool \<Rightarrow> nat list \<Rightarrow> 'w \<Rightarrow>
    eb_status_t \<times> walk_entry list \<times> 'w" where
  "loadWalk_loop bus adr active [] h = (EB_OK, [], h)"
| "loadWalk_loop bus adr active (i # is) h =
     (case bus_cycle bus (load_walk_ops adr active i) h of
        (st, vs, h1) \<Rightarrow>
          if st \<noteq> EB_OK then (st, [], h1)
          else (case loadWalk_loop bus adr active is h1 of
                  (st', wes, h2) \<Rightarrow> (st', read_walk vs # wes, h2)))"

definition loadWalk :: "'w bus \<Rightarrow> eca \<Rightarrow> bool \<Rightarrow> 'w \<Rightarrow> eb_status_t \<times> walk_entry list \<times> 'w" where
  "loadWalk bus ec active h =
     (if \<not> eca_inspect_table ec then (EB_OK, [], h)
      else loadWalk_loop bus (eca_address ec) active [0..<unat (eca_table_size ec)] h)"

text \<open>\<^verbatim>\<open>ECA::load\<close>: \<open>None\<close> if the walk does not end, \<open>Inl\<close> if it leaves the table. The loaded
  rules are added to the table passed in.\<close>

definition eca_load :: "'w bus \<Rightarrow> eca \<Rightarrow> bool \<Rightarrow> channel_map \<Rightarrow> 'w \<Rightarrow>
    (eca_fault + eb_status_t \<times> channel_map \<times> 'w) option" where
  "eca_load bus ec active d h =
     (case loadSearch bus ec active h of (st, se, h1) \<Rightarrow>
        if st \<noteq> EB_OK then Some (Inr (st, d, h1))
        else
          case loadWalk bus ec active h1 of (st, we, h2) \<Rightarrow>
            if st \<noteq> EB_OK then Some (Inr (st, d, h2))
            else
              case table_decompile se we d of
                None \<Rightarrow> None
              | Some (Inl f) \<Rightarrow> Some (Inl f)
              | Some (Inr (n, d')) \<Rightarrow> Some (Inr (if n > 0 then EB_FAIL else EB_OK, d', h2)))"

section \<open>Action channels\<close>

definition channel_select :: "action_channel \<Rightarrow> eb_data_t" where
  "channel_select ac = push_bit 16 (ucast (ac_index ac))"

definition channel_refresh :: "'w bus \<Rightarrow> action_channel \<Rightarrow> 'w \<Rightarrow> eb_status_t \<times> action_channel \<times> 'w" where
  "channel_refresh bus ac h =
     (let adr = ac_address ac in
      case bus_cycle bus
        [Bwrite (adr + ECAC_SELECT) EB_DATA32 (channel_select ac),
         Bread (adr + ECAC_CTL) EB_DATA32, Bread (adr + ECAC_INT_DEST) EB_DATA32,
         Bread (adr + ECAC_FILL) EB_DATA32, Bread (adr + ECAC_VALID) EB_DATA32,
         Bread (adr + ECAC_CONFLICT) EB_DATA32, Bread (adr + ECAC_LATE) EB_DATA32] h of
      (st, vs, h1) \<Rightarrow>
        if st \<noteq> EB_OK then (st, ac, h1)
        else (EB_OK, ac\<lparr>ac_draining := (vs ! 0 AND ECAC_CTL_DRAIN \<noteq> 0),
                        ac_frozen := (vs ! 0 AND ECAC_CTL_FREEZE \<noteq> 0),
                        ac_int_enable := (vs ! 0 AND ECAC_CTL_INT_MASK \<noteq> 0),
                        ac_int_dest := ucast (vs ! 1),
                        ac_fill := ucast (drop_bit 16 (vs ! 2) AND 0xFFFF),
                        ac_max_fill := ucast (vs ! 2 AND 0xFFFF),
                        ac_valid := ucast (lo32 (vs ! 3)),
                        ac_conflict := ucast (lo32 (vs ! 4)),
                        ac_late := ucast (lo32 (vs ! 5))\<rparr>, h1))"

definition channel_reset :: "'w bus \<Rightarrow> action_channel \<Rightarrow> 'w \<Rightarrow> eb_status_t \<times> action_channel \<times> 'w" where
  "channel_reset bus ac h =
     (let adr = ac_address ac in
      case bus_cycle bus
        [Bwrite (adr + ECAC_SELECT) BE32 (channel_select ac), Bwrite (adr + ECAC_FILL) BE32 0,
         Bwrite (adr + ECAC_VALID) BE32 0, Bwrite (adr + ECAC_CONFLICT) BE32 0,
         Bwrite (adr + ECAC_LATE) BE32 0] h of
      (st, vs, h1) \<Rightarrow>
        if st \<noteq> EB_OK then (st, ac, h1)
        else (EB_OK, ac\<lparr>ac_max_fill := 0, ac_valid := 0, ac_conflict := 0, ac_late := 0\<rparr>, h1))"

definition channel_freeze :: "'w bus \<Rightarrow> bool \<Rightarrow> action_channel \<Rightarrow> 'w \<Rightarrow> eb_status_t \<times> action_channel \<times> 'w" where
  "channel_freeze bus freeze ac h =
     (let adr = ac_address ac;
          ctl = (if freeze then ECAC_CTL_FREEZE else push_bit 8 ECAC_CTL_FREEZE) in
      case bus_cycle bus
        [Bwrite (adr + ECAC_SELECT) BE32 (channel_select ac), Bwrite (adr + ECAC_CTL) BE32 ctl] h of
      (st, vs, h1) \<Rightarrow> if st \<noteq> EB_OK then (st, ac, h1) else (EB_OK, ac\<lparr>ac_frozen := freeze\<rparr>, h1))"

definition channel_drain :: "'w bus \<Rightarrow> bool \<Rightarrow> action_channel \<Rightarrow> 'w \<Rightarrow> eb_status_t \<times> action_channel \<times> 'w" where
  "channel_drain bus drain ac h =
     (let adr = ac_address ac;
          ctl = (if drain then ECAC_CTL_DRAIN else push_bit 8 ECAC_CTL_DRAIN) in
      case bus_cycle bus
        [Bwrite (adr + ECAC_SELECT) BE32 (channel_select ac), Bwrite (adr + ECAC_CTL) BE32 ctl] h of
      (st, vs, h1) \<Rightarrow> if st \<noteq> EB_OK then (st, ac, h1) else (EB_OK, ac\<lparr>ac_draining := drain\<rparr>, h1))"

definition channel_hook :: "'w bus \<Rightarrow> bool \<Rightarrow> uint32 \<Rightarrow> action_channel \<Rightarrow> 'w \<Rightarrow>
    eb_status_t \<times> action_channel \<times> 'w" where
  "channel_hook bus enable dest ac h =
     (let adr = ac_address ac in
      case bus_cycle bus
        ([Bwrite (adr + ECAC_SELECT) BE32 (channel_select ac),
          Bwrite (adr + ECAC_CTL) BE32 (push_bit 8 ECAC_CTL_INT_MASK),
          Bwrite (adr + ECAC_INT_DEST) BE32 (ucast dest)] @
         (if enable then [Bwrite (adr + ECAC_CTL) BE32 ECAC_CTL_INT_MASK] else [])) h of
      (st, vs, h1) \<Rightarrow>
        if st \<noteq> EB_OK then (st, ac, h1)
        else (EB_OK, ac\<lparr>ac_int_enable := enable, ac_int_dest := dest\<rparr>, h1))"

definition sort_time :: "action_entry \<Rightarrow> action_entry \<Rightarrow> bool" where
  "sort_time a b = (ae_time a < ae_time b)"

definition load_action_ops :: "action_channel \<Rightarrow> nat \<Rightarrow> bus_op list" where
  "load_action_ops ac i =
     (let adr = ac_address ac in
      [Bwrite (adr + ECAC_SELECT) BE32 (channel_select ac OR word_of_nat i), Bread (adr + ECAC_CTL) EB_DATA32,
       Bread (adr + ECAC_EVENT1) EB_DATA32, Bread (adr + ECAC_EVENT0) EB_DATA32,
       Bread (adr + ECAC_PARAM1) EB_DATA32, Bread (adr + ECAC_PARAM0) EB_DATA32,
       Bread (adr + ECAC_TAG) EB_DATA32, Bread (adr + ECAC_TEF) EB_DATA32,
       Bread (adr + ECAC_TIME1) EB_DATA32, Bread (adr + ECAC_TIME0) EB_DATA32])"

definition read_action :: "eb_data_t list \<Rightarrow> action_entry" where
  "read_action vs =
     \<lparr>ae_event = join_add (vs ! 1) (vs ! 2), ae_param = join_add (vs ! 3) (vs ! 4),
      ae_tag = ucast (vs ! 5), ae_tef = ucast (vs ! 6), ae_time = join_add (vs ! 7) (vs ! 8),
      ae_status = (if drop_bit 24 (vs ! 0) AND ECAC_STATUS_LATE = 1 then LATE else VALID)\<rparr>"

fun channel_load_loop :: "'w bus \<Rightarrow> action_channel \<Rightarrow> nat list \<Rightarrow> action_entry list \<Rightarrow> 'w \<Rightarrow>
    eb_status_t \<times> action_entry list \<times> 'w" where
  "channel_load_loop bus ac [] tbl h = (EB_OK, sort_by sort_time tbl, h)"
| "channel_load_loop bus ac (i # is) tbl h =
     (case bus_cycle bus (load_action_ops ac i) h of
        (st, vs, h1) \<Rightarrow>
          if st \<noteq> EB_OK then (st, tbl, h1)
          else if drop_bit 24 (vs ! 0) AND ECAC_STATUS_VALID = 0 then channel_load_loop bus ac is tbl h1
          else channel_load_loop bus ac is (tbl @ [read_action vs]) h1)"

definition channel_load :: "'w bus \<Rightarrow> action_channel \<Rightarrow> 'w \<Rightarrow> eb_status_t \<times> action_entry list \<times> 'w" where
  "channel_load bus ac h =
     (if \<not> ac_frozen ac then (EB_FAIL, [], h)
      else channel_load_loop bus ac [0..<unat (ac_queue_size ac)] [] h)"

section \<open>Action queues\<close>

definition queue_refresh :: "'w bus \<Rightarrow> action_queue \<Rightarrow> 'w \<Rightarrow> eb_status_t \<times> action_queue \<times> 'w" where
  "queue_refresh bus aq h =
     (let adr = aq_address aq in
      case bus_cycle bus
        [Bread (adr + ECAQ_INT_MASK) EB_DATA32, Bread (adr + ECAQ_ARRIVAL) EB_DATA32,
         Bread (adr + ECAQ_OVERFLOW) EB_DATA32, Bread (adr + ECAQ_QUEUED) EB_DATA32,
         Bread (adr + ECAQ_DROPPED) EB_DATA32] h of
      (st, vs, h1) \<Rightarrow>
        if st \<noteq> EB_OK then (st, aq, h1)
        else (EB_OK, aq\<lparr>aq_arrival_enable := (vs ! 0 AND 1 \<noteq> 0), aq_overflow_enable := (vs ! 0 AND 2 \<noteq> 0),
                        aq_arrival_dest := ucast (lo32 (vs ! 1)), aq_overflow_dest := ucast (lo32 (vs ! 2)),
                        aq_queued_actions := ucast (lo32 (vs ! 3)),
                        aq_dropped_actions := ucast (lo32 (vs ! 4))\<rparr>, h1))"

definition queue_reset :: "'w bus \<Rightarrow> action_queue \<Rightarrow> 'w \<Rightarrow> eb_status_t \<times> action_queue \<times> 'w" where
  "queue_reset bus aq h =
     (case b_write bus (aq_address aq + ECAQ_DROPPED) BE32 0 h of
      (st, h1) \<Rightarrow> if st \<noteq> EB_OK then (st, aq, h1) else (EB_OK, aq\<lparr>aq_dropped_actions := 0\<rparr>, h1))"

definition queue_hook_arrival :: "'w bus \<Rightarrow> bool \<Rightarrow> uint32 \<Rightarrow> action_queue \<Rightarrow> 'w \<Rightarrow>
    eb_status_t \<times> action_queue \<times> 'w" where
  "queue_hook_arrival bus enable dest aq h =
     (let adr = aq_address aq in
      case bus_cycle bus
        ([Bwrite (adr + ECAQ_INT_MASK) BE32 (if aq_overflow_enable aq then 2 else 0),
          Bwrite (adr + ECAQ_ARRIVAL) BE32 (ucast dest)] @
         (if enable then [Bwrite (adr + ECAQ_INT_MASK) BE32 (if aq_overflow_enable aq then 3 else 1)] else [])) h of
      (st, vs, h1) \<Rightarrow>
        if st \<noteq> EB_OK then (st, aq, h1)
        else (EB_OK, aq\<lparr>aq_arrival_enable := enable, aq_arrival_dest := dest\<rparr>, h1))"

definition queue_hook_overflow :: "'w bus \<Rightarrow> bool \<Rightarrow> uint32 \<Rightarrow> action_queue \<Rightarrow> 'w \<Rightarrow>
    eb_status_t \<times> action_queue \<times> 'w" where
  "queue_hook_overflow bus enable dest aq h =
     (let adr = aq_address aq in
      case bus_cycle bus
        ([Bwrite (adr + ECAQ_INT_MASK) BE32 (if aq_arrival_enable aq then 1 else 0),
          Bwrite (adr + ECAQ_OVERFLOW) BE32 (ucast dest)] @
         (if enable then [Bwrite (adr + ECAQ_INT_MASK) BE32 (if aq_arrival_enable aq then 3 else 2)] else [])) h of
      (st, vs, h1) \<Rightarrow>
        if st \<noteq> EB_OK then (st, aq, h1)
        else (EB_OK, aq\<lparr>aq_overflow_enable := enable, aq_overflow_dest := dest\<rparr>, h1))"

text \<open>\<^verbatim>\<open>pop\<close> fills the entry passed in only when it succeeds.\<close>

definition queue_pop :: "'w bus \<Rightarrow> action_queue \<Rightarrow> 'w \<Rightarrow>
    eb_status_t \<times> action_entry option \<times> action_queue \<times> 'w" where
  "queue_pop bus aq h =
     (let adr = aq_address aq in
      if aq_queued_actions aq = 0 then (EB_FAIL, None, aq, h)
      else
        case bus_cycle bus
          [Bread (adr + ECAQ_FLAGS) EB_DATA32, Bread (adr + ECAQ_EVENT1) EB_DATA32,
           Bread (adr + ECAQ_EVENT0) EB_DATA32, Bread (adr + ECAQ_PARAM1) EB_DATA32,
           Bread (adr + ECAQ_PARAM0) EB_DATA32, Bread (adr + ECAQ_TAG) EB_DATA32,
           Bread (adr + ECAQ_TEF) EB_DATA32, Bread (adr + ECAQ_TIME1) EB_DATA32,
           Bread (adr + ECAQ_TIME0) EB_DATA32, Bwrite (adr + ECAQ_CTL) EB_DATA32 1,
           Bread (adr + ECAQ_QUEUED) EB_DATA32] h of
        (st, vs, h1) \<Rightarrow>
          if st \<noteq> EB_OK then (st, None, aq, h1)
          else (EB_OK, Some
                 \<lparr>ae_event = join_add (vs ! 1) (vs ! 2), ae_param = join_add (vs ! 3) (vs ! 4),
                  ae_tag = ucast (vs ! 5), ae_tef = ucast (vs ! 6), ae_time = join_add (vs ! 7) (vs ! 8),
                  ae_status = (if vs ! 0 AND 2 \<noteq> 0 then CONFLICT else if vs ! 0 AND 1 \<noteq> 0 then LATE else VALID)\<rparr>,
                aq\<lparr>aq_queued_actions := ucast (vs ! 9)\<rparr>, h1))"

section \<open>Event streams\<close>

definition stream_send :: "'w bus \<Rightarrow> event_stream \<Rightarrow> event_entry \<Rightarrow> 'w \<Rightarrow> eb_status_t \<times> 'w" where
  "stream_send bus es e h =
     (let adr = es_address es in case bus_cycle bus
        [Bwrite adr EB_DATA32 (hi32 (ee_event e)), Bwrite adr EB_DATA32 (lo32 (ee_event e)),
         Bwrite adr EB_DATA32 (hi32 (ee_param e)), Bwrite adr EB_DATA32 (lo32 (ee_param e)),
         Bwrite adr EB_DATA32 0, Bwrite adr EB_DATA32 (ucast (ee_tef e AND 0xFFFFFFFF)),
         Bwrite adr EB_DATA32 (hi32 (ee_time e)), Bwrite adr EB_DATA32 (lo32 (ee_time e))] h of
      (st, vs, h1) \<Rightarrow> (st, h1))"

end
