(* ===== verification/ECA_Access.thy ===== *)
theory ECA_Access
  imports ECA_Hardware
begin

text \<open>
  Properties of the access to the event-condition-action unit: the conversion of a time to seconds
  is exact, a table stored into the unit and loaded again has the same rules, and what the channel
  inspection reports.
\<close>

section \<open>Seconds\<close>

lemma divide_step:
  fixes high low k :: uint64
  assumes "unat low < 2 ^ 32" "0 < unat k" "unat k < 2 ^ 32"
  shows "unat ((low + push_bit 32 (high mod k)) div k) < 2 ^ 32"
    "unat (high div k) * 2 ^ 32 + unat ((low + push_bit 32 (high mod k)) div k)
       = (unat high * 2 ^ 32 + unat low) div unat k"
proof -
  define r where "r = unat high mod unat k"
  have r: "r < unat k" "r < 2 ^ 32" using assms(2,3) by (auto simp: r_def intro: less_trans mod_less_divisor)
  have "unat (push_bit 32 (high mod k)) = r * 2 ^ 32"
    unfolding unsigned_push_bit_eq unat_mod_distrib r_def [symmetric]
    using r(2) by (simp add: push_bit_eq_mult take_bit_nat_eq_self)
  moreover have "r * 2 ^ 32 + unat low < unat k * 2 ^ 32"
  proof -
    have "r * 2 ^ 32 + unat low < (r + 1) * 2 ^ 32" using assms(1) by simp
    also have "\<dots> \<le> unat k * 2 ^ 32" using r(1) by (intro mult_le_mono1) simp
    finally show ?thesis .
  qed
  moreover have "unat k * 2 ^ 32 \<le> 2 ^ 64" using assms(3) by simp
  ultimately have sum: "unat (low + push_bit 32 (high mod k)) = r * 2 ^ 32 + unat low"
    by (simp add: unat_word_ariths)
  then have low': "unat ((low + push_bit 32 (high mod k)) div k) = (r * 2 ^ 32 + unat low) div unat k"
    by (simp add: unat_div_distrib)
  show "unat ((low + push_bit 32 (high mod k)) div k) < 2 ^ 32"
    unfolding low' using \<open>r * 2 ^ 32 + unat low < unat k * 2 ^ 32\<close> by (simp add: less_mult_imp_div_less mult.commute)
  have "unat high * 2 ^ 32 + unat low = unat k * (unat high div unat k * 2 ^ 32) + (r * 2 ^ 32 + unat low)"
    unfolding r_def by (metis (no_types, lifting) add.assoc distrib_right mult.assoc mult_div_mod_eq)
  then have "(unat high * 2 ^ 32 + unat low) div unat k
      = unat high div unat k * 2 ^ 32 + (r * 2 ^ 32 + unat low) div unat k"
    using assms(2) by (simp only: div_mult_self4)
  then show "unat (high div k) * 2 ^ 32 + unat ((low + push_bit 32 (high mod k)) div k)
       = (unat high * 2 ^ 32 + unat low) div unat k"
    unfolding low' by (simp only: unat_div_distrib)
qed

lemma divide_loop_value:
  assumes "unat low < 2 ^ 32" "0 < unat k" "unat k < 2 ^ 32" "divide_loop n k (high, low) = (high', low')"
  shows "unat low' < 2 ^ 32 \<and> unat high' * 2 ^ 32 + unat low' = (unat high * 2 ^ 32 + unat low) div unat k ^ n"
  using assms
proof (induction n k "(high, low)" arbitrary: high low rule: divide_loop.induct)
  case (1 k high low)
  then show ?case by simp
next
  case (2 n k high low)
  with divide_step [OF 2(2-4), of high] show ?case
    by (simp add: div_mult2_eq)
qed

lemma unat_lo32: "unat (lo32 x) = unat x mod 2 ^ 32" for x :: uint64
proof -
  have "lo32 x = take_bit 32 x" by (simp add: take_bit_eq_mask mask_eq_exp_minus_1)
  then have "unat (lo32 x) = take_bit 32 (unat x)" by (simp only: unsigned_take_bit_eq)
  then show ?thesis by (simp only: take_bit_eq_mod)
qed

lemma unat_hi32: "unat (hi32 x) = unat x div 2 ^ 32" for x :: uint64
  unfolding unsigned_drop_bit_eq
  using unat_less_exp [of x] by (simp add: take_bit_nat_eq_self drop_bit_eq_div)

lemma scale_time:
  fixes t dv :: uint64
  assumes "unat dv < 2 ^ 16"
  defines "low \<equiv> lo32 t * dv"
  shows "unat (hi32 t * dv + hi32 low) * 2 ^ 32 + unat (lo32 low) = unat t * unat dv"
proof -
  have "unat (lo32 t) < 2 ^ 32" "unat (hi32 t) < 2 ^ 32"
    using unat_less_exp [of t] by (auto simp: unat_lo32 unat_hi32 less_mult_imp_div_less)
  then have "unat (lo32 t) * unat dv < 2 ^ 32 * 2 ^ 16" "unat (hi32 t) * unat dv < 2 ^ 32 * 2 ^ 16"
    using assms(1) by (intro mult_less_le_imp_less [THEN order.strict_trans2] mult_strict_mono; simp)+
  then have low: "unat low = unat (lo32 t) * unat dv" and high: "unat (hi32 t * dv) = unat (hi32 t) * unat dv"
    by (auto simp: low_def unat_word_ariths)
  have "unat (hi32 low) < 2 ^ 32"
    using unat_less_exp [of low] by (auto simp: unat_hi32 less_mult_imp_div_less)
  with high \<open>unat (hi32 t) * unat dv < 2 ^ 32 * 2 ^ 16\<close>
  have sum: "unat (hi32 t * dv + hi32 low) = unat (hi32 t) * unat dv + unat low div 2 ^ 32"
    by (simp add: unat_word_ariths unat_hi32)
  have "unat t * unat dv = (unat t div 2 ^ 32 * 2 ^ 32 + unat t mod 2 ^ 32) * unat dv"
    by (simp only: div_mult_mod_eq)
  then have "unat t * unat dv = unat (hi32 t) * unat dv * 2 ^ 32 + unat low"
    unfolding low unat_hi32 unat_lo32 by (simp only: add_mult_distrib mult.assoc mult.commute [of "2 ^ 32"])
  then show ?thesis
    unfolding sum unat_lo32 by (simp add: algebra_simps)
qed

text \<open>C24: \<^verbatim>\<open>ECA::seconds\<close> is exact. For every time other than the marker \<^verbatim>\<open>-1\<close> and every frequency
  \<^verbatim>\<open>freq_mul * 5^freq_5s * 2^freq_2s / freq_div\<close> with a non-zero multiplier, the result is the
  rounded-down quotient of the time by the frequency, with no intermediate overflow, whenever the
  quotient has 64 bits; otherwise the assertion fails.\<close>

theorem eca_seconds_exact:
  assumes mul: "eca_freq_mul ec \<noteq> 0" and t: "t \<noteq> - 1"
  defines "q \<equiv> unat t * unat (eca_freq_div ec) div
    (2 ^ unat (eca_freq_2s ec) * 5 ^ unat (eca_freq_5s ec) * unat (eca_freq_mul ec))"
  shows "eca_seconds ec t = (if q < 2 ^ 64 then Inr (word_of_nat q) else Inl Assert_high)"
proof -
  define dv :: uint64 where "dv = ucast (eca_freq_div ec)"
  define mu :: uint64 where "mu = ucast (eca_freq_mul ec)"
  define h0 where "h0 = hi32 t * dv + hi32 (lo32 t * dv)"
  define l0 where "l0 = lo32 (lo32 t * dv)"
  obtain h1 l1 where one: "divide_loop (unat (eca_freq_2s ec)) 2 (h0, l0) = (h1, l1)" by fastforce
  obtain h2 l2 where two: "divide_loop (unat (eca_freq_5s ec)) 5 (h1, l1) = (h2, l2)" by fastforce
  obtain h3 l3 where three: "divide_loop 1 mu (h2, l2) = (h3, l3)" by fastforce
  have dv: "unat dv = unat (eca_freq_div ec)" "unat dv < 2 ^ 16"
    using unat_less_exp [of "eca_freq_div ec"] by (auto simp: dv_def unsigned_ucast_eq take_bit_nat_eq_self)
  have mu: "unat mu = unat (eca_freq_mul ec)" "0 < unat mu" "unat mu < 2 ^ 32"
    using unat_less_exp [of "eca_freq_mul ec"] mul
    by (auto simp: mu_def unsigned_ucast_eq take_bit_nat_eq_self unat_gt_0)
  have v0: "unat l0 < 2 ^ 32" "unat h0 * 2 ^ 32 + unat l0 = unat t * unat dv"
    using scale_time [OF dv(2), of t] by (auto simp: l0_def h0_def unat_lo32)
  have v1: "unat l1 < 2 ^ 32 \<and> unat h1 * 2 ^ 32 + unat l1 = unat t * unat dv div 2 ^ unat (eca_freq_2s ec)"
    using divide_loop_value [OF v0(1) _ _ one] v0(2) by simp
  have v2: "unat l2 < 2 ^ 32 \<and> unat h2 * 2 ^ 32 + unat l2
      = unat t * unat dv div (2 ^ unat (eca_freq_2s ec) * 5 ^ unat (eca_freq_5s ec))"
    using divide_loop_value [OF conjunct1 [OF v1] _ _ two] conjunct2 [OF v1] by (simp add: div_mult2_eq)
  have v3: "unat l3 < 2 ^ 32" "unat h3 * 2 ^ 32 + unat l3 = q"
    using divide_loop_value [OF conjunct1 [OF v2] mu(2,3) three] conjunct2 [OF v2]
    by (auto simp: div_mult2_eq q_def dv(1) mu(1))
  have run: "eca_seconds ec t = (if hi32 h3 \<noteq> 0 then Inl Assert_high else Inr (l3 + push_bit 32 h3))"
    using mul t by (simp add: eca_seconds_def Let_def dv_def [symmetric] mu_def [symmetric]
        h0_def [symmetric] l0_def [symmetric] one two three [simplified])
  have zero: "hi32 h3 = 0 \<longleftrightarrow> unat h3 < 2 ^ 32"
    by (simp add: word_unat_eq_iff unat_hi32 div_eq_0_iff)
  have fits: "q < 2 ^ 64 \<longleftrightarrow> unat h3 < 2 ^ 32"
    unfolding v3(2) [symmetric] using v3(1) by auto
  have "l3 + push_bit 32 h3 = word_of_nat q" if "unat h3 < 2 ^ 32"
  proof -
    have "unat (push_bit 32 h3) = unat h3 * 2 ^ 32"
      unfolding unsigned_push_bit_eq using that by (simp add: push_bit_eq_mult take_bit_nat_eq_self)
    then have "unat (l3 + push_bit 32 h3) = q"
      using that v3 by (simp add: unat_word_ariths)
    moreover have "q < 2 ^ LENGTH(64)" using fits that by simp
    ultimately show ?thesis by (simp only: word_unat_eq_iff unat_of_nat_small)
  qed
  with run zero fits show ?thesis by simp
qed

text \<open>A unit at 125 MHz with two channels.\<close>

definition sample_info :: sdb_info where
  "sample_info = \<lparr>sdb_ver_major = 2, sdb_ver_minor = 0, si_version = 1, si_date = 0, si_name = []\<rparr>"

definition sample_eca :: eca where
  "sample_eca = \<lparr>eca_name = [], eca_sdb = sample_info, eca_inspect_table = True,
     eca_inspect_queue = False, eca_table_size = 8, eca_queue_size = 0, eca_freq_mul = 1, eca_freq_5s = 9, eca_freq_2s = 9,
     eca_freq_div = 8,
     eca_channels = replicate 2 \<lparr>ac_name = [], ac_queue_size = 0, ac_queue = [], ac_draining = False, ac_frozen = False, ac_int_enable = False,
       ac_int_dest = 0, ac_fill = 0, ac_max_fill = 0, ac_valid = 0, ac_conflict = 0, ac_late = 0, ac_address = 0,
       ac_index = 0\<rparr>,
     eca_streams = [], eca_time = 0, eca_disabled = False, eca_interrupts = False, eca_address = 0, eca_index = 0\<rparr>"

theorem eca_seconds_exact_witness: "eca_seconds sample_eca 1000000000 = Inr 8"
  by (subst eca_seconds_exact) (simp_all add: sample_eca_def)

section \<open>Storing and loading a table\<close>

text \<open>Named hypothesis on the hardware: \<open>srow\<close> and \<open>wrow\<close> read the inactive search and walk tables
  of a state of the hardware, row by row, as the registers show them. Opening a cycle changes
  neither. A cycle that selects a row and writes its registers stores them in that row, a cycle that
  selects a row and reads the registers returns that row. A card has \<open>n\<close> walk rows and \<open>2 * n\<close> search rows, and its
  index fields need only hold \<open>-1\<close> and the numbers of walk rows.\<close>

definition row_link :: "nat \<Rightarrow> index \<Rightarrow> bool" where
  "row_link n p \<longleftrightarrow> p = - 1 \<or> unat p < n"

definition written :: "bus_op list \<Rightarrow> eb_data_t list" where
  "written ops = map (\<lambda>op. case op of Bwrite a f v \<Rightarrow> v | Bread a f \<Rightarrow> 0) (tl ops)"

definition table_bus :: "nat \<Rightarrow> 'w bus \<Rightarrow> eb_address_t \<Rightarrow> ('w \<Rightarrow> nat \<Rightarrow> eb_data_t list) \<Rightarrow> ('w \<Rightarrow> nat \<Rightarrow> eb_data_t list) \<Rightarrow> bool" where
  "table_bus n bus adr srow wrow \<longleftrightarrow>
     (\<forall>h. \<exists>h'. b_open bus h = (EB_OK, h') \<and> srow h' = srow h \<and> wrow h' = wrow h) \<and>
     (\<forall>h i se. i < 2 * n \<longrightarrow> row_link n (se_first se) \<longrightarrow> (\<exists>h'. b_close bus (search_ops adr i se) h = (EB_OK, [], h') \<and>
        srow h' = (srow h)(i := written (search_ops adr i se)) \<and> wrow h' = wrow h)) \<and>
     (\<forall>h i we. i < n \<longrightarrow> row_link n (we_next we) \<longrightarrow> (\<exists>h'. b_close bus (walk_ops adr i we) h = (EB_OK, [], h') \<and>
        wrow h' = (wrow h)(i := written (walk_ops adr i we)) \<and> srow h' = srow h)) \<and>
     (\<forall>h i. i < 2 * n \<longrightarrow> (\<exists>h'. b_close bus (load_search_ops adr False i) h = (EB_OK, srow h i, h') \<and>
        srow h' = srow h \<and> wrow h' = wrow h)) \<and>
     (\<forall>h i. i < n \<longrightarrow> (\<exists>h'. b_close bus (load_walk_ops adr False i) h = (EB_OK, wrow h i, h') \<and>
        srow h' = srow h \<and> wrow h' = wrow h))"

lemma table_bus_cycles:
  assumes "table_bus n bus adr srow wrow"
  shows "i < 2 * n \<Longrightarrow> row_link n (se_first se) \<Longrightarrow> \<exists>h'. bus_cycle bus (search_ops adr i se) h = (EB_OK, [], h') \<and>
      srow h' = (srow h)(i := written (search_ops adr i se)) \<and> wrow h' = wrow h"
    and "j < n \<Longrightarrow> row_link n (we_next we) \<Longrightarrow> \<exists>h'. bus_cycle bus (walk_ops adr j we) h = (EB_OK, [], h') \<and>
      wrow h' = (wrow h)(j := written (walk_ops adr j we)) \<and> srow h' = srow h"
    and "i < 2 * n \<Longrightarrow> \<exists>h'. bus_cycle bus (load_search_ops adr False i) h = (EB_OK, srow h i, h') \<and>
      srow h' = srow h \<and> wrow h' = wrow h"
    and "j < n \<Longrightarrow> \<exists>h'. bus_cycle bus (load_walk_ops adr False j) h = (EB_OK, wrow h j, h') \<and>
      srow h' = srow h \<and> wrow h' = wrow h"
proof -
  obtain h1 where h1: "b_open bus h = (EB_OK, h1)" "srow h1 = srow h" "wrow h1 = wrow h"
    using assms unfolding table_bus_def by blast
  show "\<exists>h'. bus_cycle bus (search_ops adr i se) h = (EB_OK, [], h') \<and>
      srow h' = (srow h)(i := written (search_ops adr i se)) \<and> wrow h' = wrow h" if "i < 2 * n" "row_link n (se_first se)"
    using assms that unfolding table_bus_def bus_cycle_def h1(1) h1(2,3) [symmetric] by simp
  show "\<exists>h'. bus_cycle bus (walk_ops adr j we) h = (EB_OK, [], h') \<and>
      wrow h' = (wrow h)(j := written (walk_ops adr j we)) \<and> srow h' = srow h" if "j < n" "row_link n (we_next we)"
    using assms that unfolding table_bus_def bus_cycle_def h1(1) h1(2,3) [symmetric] by simp
  show "\<exists>h'. bus_cycle bus (load_search_ops adr False i) h = (EB_OK, srow h i, h') \<and>
      srow h' = srow h \<and> wrow h' = wrow h" if "i < 2 * n"
    using assms that unfolding table_bus_def bus_cycle_def h1(1) h1(2,3) [symmetric] by simp
  show "\<exists>h'. bus_cycle bus (load_walk_ops adr False j) h = (EB_OK, wrow h j, h') \<and>
      srow h' = srow h \<and> wrow h' = wrow h" if "j < n"
    using assms that unfolding table_bus_def bus_cycle_def h1(1) h1(2,3) [symmetric] by simp
qed

lemma read_index_written:
  assumes "row_link 32768 p"
  shows "read_index (if p = - 1 then 0 else ucast ((0x80000000 :: uint32) OR scast p)) = (p :: index)"
proof (cases "p = - 1")
  case True
  then show ?thesis by (simp add: read_index_def)
next
  case False
  with assms have small: "unat p < 32768" by (simp add: row_link_def)
  have nb: "\<not> bit p 15"
  proof
    assume "bit p 15"
    then have "bit (unat p) 15" by (simp add: bit_unsigned_iff)
    moreover have "take_bit 15 (unat p) = unat p" using small by (simp add: take_bit_nat_eq_self)
    ultimately show False by (metis bit_take_bit_iff less_irrefl)
  qed
  have regs: "(0x80000000 :: uint32) = 2 ^ 31" "(0x7FFF :: eb_data_t) = mask 15"
    by (simp_all add: mask_eq_exp_minus_1)
  let ?v = "ucast ((0x80000000 :: uint32) OR scast p) :: eb_data_t"
  have "bit (drop_bit 31 ?v) 0" unfolding regs by (simp add: bit_simps)
  then have "drop_bit 31 ?v \<noteq> 0" by (metis bit_0_eq bot_apply bot_bool_def)
  moreover have "ucast (?v AND 0x7FFF) = p"
    unfolding regs using nb
    by (intro bit_word_eqI) (auto simp: bit_simps less_Suc_eq numeral_eq_Suc)
  ultimately show ?thesis using False by (simp add: read_index_def)
qed

lemma join_or_halves: "join_or (hi32 x) (lo32 x) = x"
proof -
  have "lo32 x = take_bit 32 x" by (simp add: take_bit_eq_mask mask_eq_exp_minus_1)
  then show ?thesis unfolding join_or_def
    by (intro bit_word_eqI) (auto simp: bit_simps)
qed

lemma read_search_written:
  "row_link 32768 (se_first se) \<Longrightarrow> read_search (written (search_ops adr i se)) = se"
  by (simp add: read_search_def written_def search_ops_def Let_def join_or_halves read_index_written)

lemma ucast_up_down:
  "ucast (ucast (x :: uint32) :: uint64) = x" "ucast (ucast (y :: uint8) :: uint64) = y"
  by (intro bit_word_eqI; simp add: bit_simps)+

lemma read_walk_written:
  "row_link 32768 (we_next we) \<Longrightarrow> read_walk (written (walk_ops adr i we)) = we"
  by (simp add: read_walk_def written_def walk_ops_def Let_def join_or_halves read_index_written
      ucast_up_down)

lemma storeSearch_loop_rows:
  assumes bus: "table_bus n bus adr srow wrow"
  shows "sorted_wrt (\<lambda>a b. se_event a \<le> se_event b) ses \<Longrightarrow> \<forall>se \<in> set ses. last_event \<le> se_event se \<Longrightarrow>
    i + length ses \<le> 2 * n \<Longrightarrow> \<forall>se \<in> set ses. row_link n (se_first se) \<Longrightarrow>
    \<exists>h'. storeSearch_loop bus adr i last_event ses h = Inr (EB_OK, h') \<and> wrow h' = wrow h \<and>
      (\<forall>j. srow h' j = (if i \<le> j \<and> j < i + length ses then written (search_ops adr j (ses ! (j - i))) else srow h j))"
proof (induction ses arbitrary: i last_event h)
  case (Cons se ses)
  obtain h1 where h1: "bus_cycle bus (search_ops adr i se) h = (EB_OK, [], h1)"
    "srow h1 = (srow h)(i := written (search_ops adr i se))" "wrow h1 = wrow h"
    using table_bus_cycles(1) [OF bus, of i se h] Cons.prems(3,4) by auto
  have "\<exists>h'. storeSearch_loop bus adr (i + 1) (se_event se) ses h1 = Inr (EB_OK, h') \<and> wrow h' = wrow h1 \<and>
      (\<forall>j. srow h' j = (if i + 1 \<le> j \<and> j < i + 1 + length ses
         then written (search_ops adr j (ses ! (j - (i + 1)))) else srow h1 j))"
    by (rule Cons.IH) (use Cons.prems in auto)
  then obtain h' where "storeSearch_loop bus adr (i + 1) (se_event se) ses h1 = Inr (EB_OK, h')" "wrow h' = wrow h1"
    "\<forall>j. srow h' j = (if i + 1 \<le> j \<and> j < i + 1 + length ses
         then written (search_ops adr j (ses ! (j - (i + 1)))) else srow h1 j)" by blast
  with h1 Cons.prems(2) show ?case by (intro exI [of _ h']) (auto simp: nth_Cons')
qed auto

lemma storeWalk_loop_rows:
  assumes bus: "table_bus n bus adr srow wrow"
  shows "\<forall>k < length wes. unat (we_channel (wes ! k)) < channels \<and> sint (we_next (wes ! k)) < int (i + k) \<Longrightarrow>
    i + length wes \<le> n \<Longrightarrow> \<forall>we \<in> set wes. row_link n (we_next we) \<Longrightarrow>
    \<exists>h'. storeWalk_loop bus adr channels i wes h = Inr (EB_OK, h') \<and> srow h' = srow h \<and>
      (\<forall>j. wrow h' j = (if i \<le> j \<and> j < i + length wes then written (walk_ops adr j (wes ! (j - i))) else wrow h j))"
proof (induction wes arbitrary: i h)
  case (Cons we wes)
  obtain h1 where h1: "bus_cycle bus (walk_ops adr i we) h = (EB_OK, [], h1)"
    "wrow h1 = (wrow h)(i := written (walk_ops adr i we))" "srow h1 = srow h"
    using table_bus_cycles(2) [OF bus, of i we h] Cons.prems(2,3) by auto
  have "\<forall>k < length wes. unat (we_channel (wes ! k)) < channels \<and> sint (we_next (wes ! k)) < int (i + 1 + k)"
    using Cons.prems(1) by (simp add: All_less_Suc2 algebra_simps)
  moreover have "i + 1 + length wes \<le> n" "\<forall>we \<in> set wes. row_link n (we_next we)" using Cons.prems(2,3) by simp_all
  ultimately obtain h' where "storeWalk_loop bus adr channels (i + 1) wes h1 = Inr (EB_OK, h')" "srow h' = srow h1"
    "\<forall>j. wrow h' j = (if i + 1 \<le> j \<and> j < i + 1 + length wes
         then written (walk_ops adr j (wes ! (j - (i + 1)))) else wrow h1 j)"
    using Cons.IH by blast
  moreover have "unat (we_channel we) < channels" "sint (we_next we) < int i"
    using Cons.prems(1) by (simp_all add: All_less_Suc2)
  ultimately show ?case using h1 by (intro exI [of _ h']) (auto simp: nth_Cons')
qed auto

lemma loadSearch_loop_rows:
  assumes bus: "table_bus n bus adr srow wrow"
  shows "\<forall>i \<in> set is. i < 2 * n \<Longrightarrow>
    \<exists>h'. loadSearch_loop bus adr False is h = (EB_OK, map (\<lambda>i. read_search (srow h i)) is, h') \<and>
      srow h' = srow h \<and> wrow h' = wrow h"
proof (induction "is" arbitrary: h)
  case (Cons i "is")
  obtain h1 where h1: "bus_cycle bus (load_search_ops adr False i) h = (EB_OK, srow h i, h1)"
    "srow h1 = srow h" "wrow h1 = wrow h"
    using table_bus_cycles(3) [OF bus, of i h] Cons.prems by auto
  with Cons.IH [of h1] Cons.prems show ?case by auto
qed simp

lemma loadWalk_loop_rows:
  assumes bus: "table_bus n bus adr srow wrow"
  shows "\<forall>i \<in> set is. i < n \<Longrightarrow>
    \<exists>h'. loadWalk_loop bus adr False is h = (EB_OK, map (\<lambda>i. read_walk (wrow h i)) is, h') \<and>
      srow h' = srow h \<and> wrow h' = wrow h"
proof (induction "is" arbitrary: h)
  case (Cons i "is")
  obtain h1 where h1: "bus_cycle bus (load_walk_ops adr False i) h = (EB_OK, wrow h i, h1)"
    "srow h1 = srow h" "wrow h1 = wrow h"
    using table_bus_cycles(4) [OF bus, of i h] Cons.prems by auto
  with Cons.IH [of h1] Cons.prems show ?case by auto
qed simp

lemma compiled_first_small:
  assumes "compiled T s w" "length T \<le> 32767" "se \<in> set (padded k s)"
  shows "row_link (length w) (se_first se)"
proof -
  have "se \<in> set s" using assms(1,3) by (auto simp: padded_def compiled_def split: if_splits)
  then have "lists_from w (se_first se) (covering T (se_event se))"
    using assms(1) hw_search_self [of s se] unfolding compiled_def found_def by metis
  then show ?thesis
    using assms(1,2) index_small(1)
    by (cases "covering T (se_event se)") (auto simp: row_link_def lists_from_def compiled_def)
qed

lemma row_link_mono: "row_link m p \<Longrightarrow> m \<le> n \<Longrightarrow> row_link n p"
  by (auto simp: row_link_def)

lemma sorted_wrt_same: "R a a \<Longrightarrow> sorted_wrt R (replicate k a)"
  by (induction k) auto

lemma padded_sorted:
  assumes "compiled T s w"
  shows "sorted_wrt (\<lambda>a b. se_event a \<le> se_event b) (padded k s)"
proof -
  have s: "sorted_wrt (\<lambda>a b. se_event a < se_event b) s" "s \<noteq> []" using assms by (auto simp: compiled_def)
  then have "se_event a \<le> se_event (last s)" if "a \<in> set s" for a
    using that by (cases s rule: rev_cases) (auto simp: sorted_wrt_append intro: less_imp_le)
  moreover have "sorted_wrt (\<lambda>a b. se_event a \<le> se_event b) s"
    using s(1) by (rule sorted_wrt_mono_rel [rotated]) auto
  ultimately show ?thesis
    by (auto simp: padded_def sorted_wrt_append sorted_wrt_same)
qed

lemma compiled_next:
  assumes "compiled T s w" "length T \<le> 32767" "i < length w"
  shows "sint (we_next (w ! i)) < int i" "row_link (length w) (we_next (w ! i))"
proof -
  have nx: "we_next (w ! i) = - 1 \<or> unat (we_next (w ! i)) < i"
    using assms by (auto simp: compiled_def same_rules_def)
  then show "row_link (length w) (we_next (w ! i))"
    using assms(3) by (auto simp: row_link_def)
  show "sint (we_next (w ! i)) < int i"
  proof (cases "we_next (w ! i) = - 1")
    case False
    let ?j = "unat (we_next (w ! i))"
    have "?j < i" "?j < 32768" using False nx assms by (auto simp: compiled_def)
    then have "int ?j < int i" by (simp only: of_nat_less_iff)
    with sint_index [OF \<open>?j < 32768\<close>] show ?thesis by simp
  qed (use assms in simp)
qed

lemma compiled_channels:
  assumes ok: "tbl_ok d" and C: "compiled (table_get d) s w"
    and channels: "\<forall>c q x. rules d (c, q, x) \<noteq> None \<longrightarrow> unat c < n" and i: "i < length w"
  shows "unat (we_channel (w ! i)) < n"
proof -
  let ?te = "table_get d ! i"
  have te: "?te \<in> set (table_get d)" "we_channel (w ! i) = te_channel ?te"
    using C i by (auto simp: compiled_def same_rules_def)
  have "te_begin ?te \<le> te_end ?te" by (simp add: te_end_def le_or)
  then have "(te_channel ?te, te_offset ?te, te_begin ?te) \<in> entry_region ?te" by (simp add: entry_region_def)
  with says_region [OF table_get_says [OF ok] te(1)] channels show ?thesis by (metis te(2) option.distinct(1))
qed


text \<open>Hardware that keeps the hypothesis: the rows are the state, a write of the first register of a
  group selects the row.\<close>

definition row_bus :: "((nat \<Rightarrow> eb_data_t list) \<times> (nat \<Rightarrow> eb_data_t list)) bus" where
  "row_bus = \<lparr>b_open = (\<lambda>h. (EB_OK, h)),
     b_close = (\<lambda>ops h.
       case ops of
         Bwrite a f i # Bwrite a' f' v # ops' \<Rightarrow>
           (EB_OK, [], if a = ECA_SEARCH then ((fst h)(unat i := written ops), snd h)
                       else (fst h, (snd h)(unat i := written ops)))
       | Bwrite a f i # ops' \<Rightarrow> (EB_OK, if a = ECA_SEARCH then fst h (unat i) else snd h (unat i), h)
       | _ \<Rightarrow> (EB_FAIL, [], h)),
     b_write = (\<lambda>a f v h. (EB_OK, h)), b_read = (\<lambda>a f h. (EB_OK, 0, h))\<rparr>"

lemma row_bus_table: "n \<le> 32768 \<Longrightarrow> table_bus n row_bus 0 fst snd"
proof -
  have i: "unat (word_of_nat i :: eb_data_t) = i" if "i < 65536" for i
    using that by (simp add: unat_of_nat_small)
  then show "n \<le> 32768 \<Longrightarrow> table_bus n row_bus 0 fst snd"
    unfolding table_bus_def
    by (auto simp: row_bus_def search_ops_def walk_ops_def load_search_ops_def load_walk_ops_def Let_def
        row_index_def)
qed


section \<open>Inspecting a channel\<close>

lemma late_bit_not_one: "x AND 2 \<noteq> (1 :: eb_data_t)"
proof
  assume "x AND 2 = 1"
  then have "bit (x AND 2) 0 = bit (1 :: eb_data_t) 0" by simp
  then show False by (simp add: bit_simps)
qed

lemma channel_load_loop_status:
  "channel_load_loop bus ac is tbl h = (st, tbl', h') \<Longrightarrow> \<forall>ae \<in> set tbl. ae_status ae = VALID \<Longrightarrow>
   \<forall>ae \<in> set tbl'. ae_status ae = VALID"
proof (induction bus ac "is" tbl h rule: channel_load_loop.induct)
  case (2 bus ac i "is" tbl h)
  have "ae_status (read_action vs) = VALID" for vs
    using late_bit_not_one by (simp add: read_action_def)
  with 2 show ?case by (auto split: if_splits prod.splits)
qed auto

text \<open>inspecting a frozen channel never reports a late action: the mask of the late bit is 2, and
  the masked bit is compared with 1.\<close>

theorem channel_load_never_late:
  assumes "channel_load bus ac h = (st, tbl, h')"
  shows "\<forall>ae \<in> set tbl. ae_status ae = VALID"
  using assms channel_load_loop_status [of bus ac _ "[]" h st tbl h']
  by (auto simp: channel_load_def split: if_splits)

text \<open>Hardware with one queued action whose valid and late bits are both set.\<close>

definition late_bus :: "unit bus" where
  "late_bus = \<lparr>b_open = (\<lambda>h. (EB_OK, h)), b_close = (\<lambda>ops h. (EB_OK, 0x03000000 # replicate 8 0, h)),
     b_write = (\<lambda>a f v h. (EB_OK, h)), b_read = (\<lambda>a f h. (EB_OK, 0, h))\<rparr>"

definition frozen_channel :: action_channel where
  "frozen_channel = \<lparr>ac_name = [], ac_queue_size = 1, ac_queue = [], ac_draining = False, ac_frozen = True, ac_int_enable = False,
     ac_int_dest = 0, ac_fill = 1, ac_max_fill = 1, ac_valid = 0, ac_conflict = 0, ac_late = 0, ac_address = 0,
     ac_index = 0\<rparr>"

theorem channel_load_never_late_witness:
  "\<exists>ae. channel_load late_bus frozen_channel () = (EB_OK, [ae], ()) \<and> ae_status ae = VALID"
proof -
  have "channel_load late_bus frozen_channel () = (EB_OK, [read_action (0x03000000 # replicate 8 0)], ())"
    by (simp add: channel_load_def frozen_channel_def late_bus_def bus_cycle_def sort_by_def)
  with channel_load_never_late [OF this] show ?thesis by simp
qed

end
