(* ===== verification/ECA_Probe.thy ===== *)
theory ECA_Probe
  imports ECA_Hardware
begin

text \<open>
  Finding the event-condition-action units of a device: \<^verbatim>\<open>modules/wr_eca/lib/probe-eca.cpp\<close>. The units,
  event streams and action queues are collected from the self-describing bus (\<^verbatim>\<open>WR_Scan\<close>), the
  parameters of every unit and its channels are read, and the streams and queues are attached to the
  units they belong to.
\<close>

section \<open>Search\<close>

abbreviation (input) ECA_DEVICE_ID :: uint32 where "ECA_DEVICE_ID \<equiv> 0x8752bf44"
abbreviation (input) ECAE_DEVICE_ID :: uint32 where "ECAE_DEVICE_ID \<equiv> 0x8752bf45"
abbreviation (input) ECAQ_DEVICE_ID :: uint32 where "ECAQ_DEVICE_ID \<equiv> 0x9bfa4560"
abbreviation (input) ECA_FEATURE_INSPECT_TABLE :: eb_data_t where "ECA_FEATURE_INSPECT_TABLE \<equiv> 0x1"
abbreviation (input) ECA_FEATURE_INSPECT_QUEUE :: eb_data_t where "ECA_FEATURE_INSPECT_QUEUE \<equiv> 0x2"
abbreviation (input) ECA_INFO :: eb_address_t where "ECA_INFO \<equiv> 0x00"
abbreviation (input) ECA_INDEX :: eb_address_t where "ECA_INDEX \<equiv> 0x03"
abbreviation (input) ECA_FREQ_MUL :: eb_address_t where "ECA_FREQ_MUL \<equiv> 0x38"
abbreviation (input) ECA_FREQ_5S :: eb_address_t where "ECA_FREQ_5S \<equiv> 0x3C"
abbreviation (input) ECAQ_META :: eb_address_t where "ECAQ_META \<equiv> 0x18"

record eca_search_record =
  sr_ecas :: "eca list"
  sr_streams :: "event_stream list"
  sr_queues :: "action_queue list"

text \<open>The members that the search leaves uninitialised are zero here; the later phases set them.\<close>

definition found_eca :: "sdb_device \<Rightarrow> eca" where
  "found_eca d =
     \<lparr>eca_name = [], eca_sdb = device_info d, eca_inspect_table = False, eca_inspect_queue = False,
      eca_table_size = 0, eca_queue_size = 0, eca_freq_mul = 0, eca_freq_5s = 0, eca_freq_2s = 0,
      eca_freq_div = 0, eca_channels = [], eca_streams = [], eca_time = 0, eca_disabled = False,
      eca_interrupts = False, eca_address = addr_first (dev_component d), eca_index = 0\<rparr>"

definition found_stream :: "sdb_device \<Rightarrow> event_stream" where
  "found_stream d = \<lparr>es_sdb = device_info d, es_address = addr_first (dev_component d)\<rparr>"

definition found_queue :: "sdb_device \<Rightarrow> action_queue" where
  "found_queue d =
     \<lparr>aq_sdb = device_info d, aq_queue_size = 0, aq_arrival_enable = False, aq_arrival_dest = 0,
      aq_overflow_enable = False, aq_overflow_dest = 0, aq_queued_actions = 0, aq_dropped_actions = 0,
      aq_address = addr_first (dev_component d)\<rparr>"

definition eca_visit :: "sdb_device \<Rightarrow> eca_search_record \<Rightarrow> eca_search_record" where
  "eca_visit d r =
     (let p = product (dev_component d) in
      if vendor_id p \<noteq> GSI_VENDOR_ID then r
      else if device_id p = ECAQ_DEVICE_ID then
        (if abi_ver_major d \<noteq> 2 then r else r\<lparr>sr_queues := sr_queues r @ [found_queue d]\<rparr>)
      else if device_id p = ECAE_DEVICE_ID then
        (if abi_ver_major d \<noteq> 2 then r else r\<lparr>sr_streams := sr_streams r @ [found_stream d]\<rparr>)
      else if device_id p = ECA_DEVICE_ID then
        (if abi_ver_major d \<noteq> 2 then r else r\<lparr>sr_ecas := sr_ecas r @ [found_eca d]\<rparr>)
      else r)"

section \<open>Names\<close>

text \<open>A read of the control register returns one character of the name, and the next read the next one,
  around a ring of 64 bytes that may be read from any position on.\<close>

definition name_byte :: "eb_data_t \<Rightarrow> uint8" where
  "name_byte d = ucast (drop_bit 16 d AND 0xFF)"

fun name_scan :: "nat \<Rightarrow> uint8 list \<Rightarrow> int \<Rightarrow> int \<Rightarrow> int \<times> int" where
  "name_scan j [] zero nonzero = (zero, nonzero)"
| "name_scan j (c # cs) zero nonzero =
     (let zero = (if zero = - 1 \<and> nonzero = - 1 \<and> c = 0 then int j else zero);
          nonzero = (if zero \<noteq> - 1 \<and> nonzero = - 1 \<and> c \<noteq> 0 then int j else nonzero)
      in name_scan (j + 1) cs zero nonzero)"

definition eca_extract_name :: "eb_data_t list \<Rightarrow> bytes" where
  "eca_extract_name data =
     (let name8 = map name_byte data;
          (zero, nonzero) = name_scan 0 name8 (- 1) (- 1)
      in if zero = - 1 then take 63 name8
         else
           let nonzero = (if nonzero = - 1 then 0 else nonzero);
               name8 = map (\<lambda>j. name_byte (data ! ((j + nat nonzero) mod 64))) [0..<64]
           in takeWhile (\<lambda>c. c \<noteq> 0) name8)"

section \<open>Units and channels\<close>

datatype probe_fault = Search search_fault | Shift_range

definition unit_ops :: "eb_address_t \<Rightarrow> nat \<Rightarrow> bus_op list" where
  "unit_ops adr i =
     replicate 64 (Bread (adr + ECA_CTL) EB_DATA32) @
     [Bread (adr + ECA_INFO) EB_DATA32, Bread (adr + ECA_TIME1) EB_DATA32, Bread (adr + ECA_TIME0) EB_DATA32,
      Bread (adr + ECA_FREQ_MUL) EB_DATA32, Bread (adr + ECA_FREQ_5S) EB_DATA32,
      Bwrite (adr + ECA_INDEX) (EB_BIG_ENDIAN OR EB_DATA8) (word_of_nat i)]"

text \<open>The fields of a unit from the values of that cycle. The sizes are \<^verbatim>\<open>1 << n\<close> in \<^verbatim>\<open>int\<close>, which is
  undefined for \<open>n\<close> beyond the width.\<close>

definition table_shift :: "eb_data_t list \<Rightarrow> nat" where
  "table_shift vs = unat (drop_bit 24 (vs ! 64) AND 0xFF)"

definition queue_shift :: "eb_data_t list \<Rightarrow> nat" where
  "queue_shift vs = unat (drop_bit 16 (vs ! 64) AND 0xFF)"

definition num_channels :: "eb_data_t list \<Rightarrow> nat" where
  "num_channels vs = unat (drop_bit 8 (vs ! 64) AND 0xFF)"

definition read_unit :: "eb_data_t list \<Rightarrow> eca \<Rightarrow> eca" where
  "read_unit vs ec =
     ec\<lparr>eca_name := eca_extract_name (take 64 vs),
        eca_inspect_table := (drop_bit 24 (vs ! 0) AND ECA_FEATURE_INSPECT_TABLE \<noteq> 0),
        eca_inspect_queue := (drop_bit 24 (vs ! 0) AND ECA_FEATURE_INSPECT_QUEUE \<noteq> 0),
        eca_disabled := (vs ! 0 AND ECA_CTL_DISABLE \<noteq> 0),
        eca_interrupts := (vs ! 0 AND ECA_CTL_INT_ENABLE \<noteq> 0),
        eca_table_size := push_bit (table_shift vs) 1,
        eca_queue_size := push_bit (queue_shift vs) 1,
        eca_time := join_or (vs ! 65) (vs ! 66),
        eca_freq_mul := ucast (vs ! 67),
        eca_freq_5s := ucast (drop_bit 24 (vs ! 68) AND 0xFF),
        eca_freq_2s := ucast (drop_bit 16 (vs ! 68) AND 0xFF),
        eca_freq_div := ucast (vs ! 68 AND 0xFFFF)\<rparr>"

definition channel_ops :: "eb_address_t \<Rightarrow> nat \<Rightarrow> bus_op list" where
  "channel_ops adr c =
     Bwrite (adr + ECAC_SELECT) EB_DATA32 (push_bit 16 (word_of_nat c)) #
     replicate 64 (Bread (adr + ECAC_CTL) EB_DATA32) @
     [Bread (adr + ECAC_INT_DEST) EB_DATA32, Bread (adr + ECAC_FILL) EB_DATA32, Bread (adr + ECAC_VALID) EB_DATA32,
      Bread (adr + ECAC_CONFLICT) EB_DATA32, Bread (adr + ECAC_LATE) EB_DATA32]"

definition read_channel :: "eb_data_t list \<Rightarrow> eca \<Rightarrow> nat \<Rightarrow> action_channel" where
  "read_channel vs ec c =
     \<lparr>ac_name = eca_extract_name (take 64 vs),
      ac_queue_size = (if eca_inspect_queue ec then eca_queue_size ec else 0), ac_queue = [],
      ac_draining = (vs ! 0 AND ECAC_CTL_DRAIN \<noteq> 0), ac_frozen = (vs ! 0 AND ECAC_CTL_FREEZE \<noteq> 0),
      ac_int_enable = (vs ! 0 AND ECAC_CTL_INT_MASK \<noteq> 0), ac_int_dest = ucast (vs ! 64),
      ac_fill = ucast (drop_bit 16 (vs ! 65) AND 0xFFFF), ac_max_fill = ucast (vs ! 65 AND 0xFFFF),
      ac_valid = ucast (lo32 (vs ! 66)), ac_conflict = ucast (lo32 (vs ! 67)), ac_late = ucast (lo32 (vs ! 68)),
      ac_address = eca_address ec, ac_index = word_of_nat c\<rparr>"

fun probe_channels :: "'w bus \<Rightarrow> nat list \<Rightarrow> eca \<Rightarrow> 'w \<Rightarrow> eb_status_t \<times> eca \<times> 'w" where
  "probe_channels bus [] ec h = (EB_OK, ec, h)"
| "probe_channels bus (c # cs) ec h =
     (case bus_cycle bus (channel_ops (eca_address ec) c) h of
        (st, vs, h1) \<Rightarrow>
          if st \<noteq> EB_OK then (st, ec, h1)
          else probe_channels bus cs (ec\<lparr>eca_channels := eca_channels ec @ [read_channel vs ec c]\<rparr>) h1)"

fun probe_units :: "'w bus \<Rightarrow> nat \<Rightarrow> eca list \<Rightarrow> 'w \<Rightarrow> probe_fault + eb_status_t \<times> eca list \<times> 'w" where
  "probe_units bus i [] h = Inr (EB_OK, [], h)"
| "probe_units bus i (ec # ecs) h =
     (let ec = ec\<lparr>eca_index := word_of_nat i\<rparr> in
      case bus_cycle bus (unit_ops (eca_address ec) i) h of
        (st, vs, h1) \<Rightarrow>
          if st \<noteq> EB_OK then Inr (st, ec # ecs, h1)
          else if table_shift vs \<ge> 32 \<or> queue_shift vs \<ge> 32 then Inl Shift_range
          else
            case probe_channels bus [0..<num_channels vs] (read_unit vs ec) h1 of
              (st, ec, h2) \<Rightarrow>
                if st \<noteq> EB_OK then Inr (st, ec # ecs, h2)
                else
                  case probe_units bus (i + 1) ecs h2 of
                    Inl f \<Rightarrow> Inl f
                  | Inr (st, ecs', h3) \<Rightarrow> Inr (st, ec # ecs', h3))"

section \<open>Streams and queues\<close>

fun probe_streams :: "'w bus \<Rightarrow> event_stream list \<Rightarrow> eca list \<Rightarrow> 'w \<Rightarrow> eb_status_t \<times> eca list \<times> 'w" where
  "probe_streams bus [] ecs h = (EB_OK, ecs, h)"
| "probe_streams bus (es # ess) ecs h =
     (case b_read bus (es_address es) EB_DATA32 h of
        (st, v, h1) \<Rightarrow>
          if st \<noteq> EB_OK then (st, ecs, h1)
          else
            let mid = unat (ucast v :: uint8) in
            if mid \<ge> length ecs then probe_streams bus ess ecs h1
            else probe_streams bus ess
                   (ecs[mid := (ecs ! mid)\<lparr>eca_streams := eca_streams (ecs ! mid) @ [es]\<rparr>]) h1)"

definition queue_ops :: "eb_address_t \<Rightarrow> bus_op list" where
  "queue_ops adr =
     [Bread (adr + ECAQ_CTL) EB_DATA32, Bread (adr + ECAQ_INT_MASK) EB_DATA32, Bread (adr + ECAQ_ARRIVAL) EB_DATA32,
      Bread (adr + ECAQ_OVERFLOW) EB_DATA32, Bread (adr + ECAQ_QUEUED) EB_DATA32,
      Bread (adr + ECAQ_DROPPED) EB_DATA32, Bread (adr + ECAQ_META) EB_DATA32]"

definition read_queue :: "eb_data_t list \<Rightarrow> action_queue \<Rightarrow> action_queue" where
  "read_queue vs aq =
     aq\<lparr>aq_queue_size := ucast (drop_bit 16 (vs ! 0) AND 0xFFFF),
        aq_arrival_enable := (vs ! 1 AND 1 \<noteq> 0), aq_overflow_enable := (vs ! 1 AND 2 \<noteq> 0),
        aq_arrival_dest := ucast (lo32 (vs ! 2)), aq_overflow_dest := ucast (lo32 (vs ! 3)),
        aq_queued_actions := ucast (lo32 (vs ! 4)), aq_dropped_actions := ucast (lo32 (vs ! 5))\<rparr>"

text \<open>The queue goes to channel \<open>cid\<close> of unit \<open>mid\<close>, unless there is none or it has a queue.\<close>

definition attach_queue :: "nat \<Rightarrow> nat \<Rightarrow> action_queue \<Rightarrow> eca list \<Rightarrow> eca list" where
  "attach_queue mid cid aq ecs =
     (if mid \<ge> length ecs \<or> cid \<ge> length (eca_channels (ecs ! mid)) then ecs
      else
        let ac = eca_channels (ecs ! mid) ! cid in
        if ac_queue ac \<noteq> [] then ecs
        else ecs[mid := (ecs ! mid)\<lparr>eca_channels := (eca_channels (ecs ! mid))[cid := ac\<lparr>ac_queue := [aq]\<rparr>]\<rparr>])"

fun probe_queues :: "'w bus \<Rightarrow> action_queue list \<Rightarrow> eca list \<Rightarrow> 'w \<Rightarrow> eb_status_t \<times> eca list \<times> 'w" where
  "probe_queues bus [] ecs h = (EB_OK, ecs, h)"
| "probe_queues bus (aq # aqs) ecs h =
     (case bus_cycle bus (queue_ops (aq_address aq)) h of
        (st, vs, h1) \<Rightarrow>
          if st \<noteq> EB_OK then (st, ecs, h1)
          else probe_queues bus aqs
                 (attach_queue (unat (drop_bit 24 (vs ! 6) AND 0xFF)) (unat (drop_bit 16 (vs ! 6) AND 0xFF))
                    (read_queue vs aq) ecs) h1)"

section \<open>Probing\<close>

text \<open>\<^verbatim>\<open>ECA::probe\<close> does not clear the vector passed in: \<open>ecs\<close> are the units it holds already.\<close>

definition eca_probe :: "'w bus \<Rightarrow> 'w scan \<Rightarrow> eca list \<Rightarrow> 'w \<Rightarrow>
    (probe_fault + eb_status_t \<times> eca list \<times> 'w) option" where
  "eca_probe bus scan ecs h =
     (case search_root eca_visit scan \<lparr>sr_ecas = ecs, sr_streams = [], sr_queues = []\<rparr> h of
        None \<Rightarrow> None
      | Some (Inl f) \<Rightarrow> Some (Inl (Search f))
      | Some (Inr ((st, r), h1)) \<Rightarrow>
          if st \<noteq> EB_OK then Some (Inr (st, sr_ecas r, h1))
          else
            case probe_units bus 0 (sr_ecas r) h1 of
              Inl f \<Rightarrow> Some (Inl f)
            | Inr (st, ecs, h2) \<Rightarrow>
                if st \<noteq> EB_OK then Some (Inr (st, ecs, h2))
                else
                  case probe_streams bus (sr_streams r) ecs h2 of
                    (st, ecs, h3) \<Rightarrow>
                      if st \<noteq> EB_OK then Some (Inr (st, ecs, h3))
                      else Some (Inr (probe_queues bus (sr_queues r) ecs h3)))"

section \<open>Names are recovered\<close>

lemma name_scan_nonzeros:
  "0 \<notin> set cs \<Longrightarrow> name_scan j (cs @ ds) (- 1) (- 1) = name_scan (j + length cs) ds (- 1) (- 1)"
  by (induction cs arbitrary: j) (auto simp: Let_def)

lemma name_scan_zeros:
  "zero \<noteq> - 1 \<Longrightarrow> name_scan j (replicate n 0 @ ds) zero (- 1) = name_scan (j + n) ds zero (- 1)"
  by (induction n arbitrary: j) (auto simp: Let_def)

lemma name_scan_done:
  "zero \<noteq> - 1 \<Longrightarrow> nonzero \<noteq> - 1 \<Longrightarrow> name_scan j cs zero nonzero = (zero, nonzero)"
  by (induction cs arbitrary: j) (auto simp: Let_def)

text \<open>A run of other characters, a run of zeros, and what follows: the scan finds both borders.\<close>

lemma name_scan_borders:
  assumes "0 \<notin> set cs" "n > 0"
  shows "name_scan j (cs @ replicate n 0) (- 1) (- 1) = (int (j + length cs), - 1)"
    and "d \<noteq> 0 \<Longrightarrow> name_scan j (cs @ replicate n 0 @ d # ds) (- 1) (- 1) = (int (j + length cs), int (j + length cs + n))"
proof -
  obtain m where n: "n = Suc m" using assms(2) by (cases n) auto
  show "name_scan j (cs @ replicate n 0) (- 1) (- 1) = (int (j + length cs), - 1)"
    using name_scan_zeros [of "int (j + length cs)" "Suc (j + length cs)" m "[]"]
    by (simp add: n name_scan_nonzeros [OF assms(1)] Let_def)
  show "name_scan j (cs @ replicate n 0 @ d # ds) (- 1) (- 1) = (int (j + length cs), int (j + length cs + n))" if "d \<noteq> 0"
    using that name_scan_zeros [of "int (j + length cs)" "Suc (j + length cs)" m "d # ds"]
    by (simp add: n name_scan_nonzeros [OF assms(1)] name_scan_done Let_def)
qed

text \<open>The shift the scan finds in a ring read from position \<open>k\<close> on turns it back.\<close>

lemma name_scan_ring:
  assumes "0 \<notin> set cs" "length cs < 64" "cs \<noteq> []" "k < 64"
  shows "\<exists>zero nonzero. name_scan 0 (rotate k (cs @ replicate (64 - length cs) 0)) (- 1) (- 1) = (zero, nonzero) \<and>
    zero \<noteq> - 1 \<and> (if nonzero = - 1 then k = 0 else k > 0 \<and> nonzero = 64 - int k)"
proof -
  let ?m = "64 - length cs"
  have ring: "rotate k (cs @ replicate ?m 0) = drop k (cs @ replicate ?m 0) @ take k (cs @ replicate ?m 0)"
    using assms(2,4) by (simp add: rotate_drop_take)
  consider "k = 0" | "0 < k" "k \<le> length cs" | "length cs < k" by linarith
  then show ?thesis
  proof cases
    case 1
    then show ?thesis using assms name_scan_borders(1) [of cs ?m 0] by simp
  next
    case 2
    then obtain d ds where d: "take k cs = d # ds" "d \<noteq> 0"
      using assms(1,3) by (cases cs) (auto simp: take_Cons')
    have "0 \<notin> set (drop k cs)" using assms(1) by (meson in_set_dropD)
    from name_scan_borders(2) [OF this _ d(2), of ?m 0 ds] show ?thesis
      using 2 assms(2) unfolding ring by (simp add: d(1))
  next
    case 3
    then obtain d ds where d: "cs = d # ds" "d \<noteq> 0"
      using assms(1,3) by (cases cs) auto
    have split: "drop k (cs @ replicate ?m 0) = replicate (64 - k) 0"
      "take k (cs @ replicate ?m 0) = cs @ replicate (k - length cs) 0"
      using 3 assms(2,4) by (simp_all add: min_def)
    from name_scan_borders(2) [of "[]" "64 - k" d 0 "ds @ replicate (k - length cs) 0"] show ?thesis
      using 3 assms(4) d unfolding ring split by simp
  qed
qed

lemma nth_ring:
  assumes "length xs = n" "n > 0"
  shows "map (\<lambda>j. xs ! ((j + s) mod n)) [0..<n] = rotate s xs"
  by (rule nth_equalityI) (simp_all add: assms nth_rotate add.commute)

text \<open>C23: the name of a unit or channel is recovered from any position of its ring. If the 64 reads of the
  control register deliver, in their bits 16 to 23, a name of at most 63 characters followed by zeros,
  from an arbitrary position of the ring on, \<^verbatim>\<open>eca_extract_name\<close> returns the name.\<close>

theorem eca_extract_name_ring:
  assumes name: "0 \<notin> set name" "length name \<le> 63" and k: "k < 64"
    and data: "map name_byte data = rotate k (name @ replicate (64 - length name) 0)"
  shows "eca_extract_name data = name"
proof -
  have len: "length data = 64" using arg_cong [OF data, of length] name(2) by simp
  have shifted: "map (\<lambda>j. name_byte (data ! ((j + s) mod 64))) [0..<64] = rotate (s + k) (name @ replicate (64 - length name) 0)" for s
  proof -
    have "map (\<lambda>j. name_byte (data ! ((j + s) mod 64))) [0..<64] = map (\<lambda>j. map name_byte data ! ((j + s) mod 64)) [0..<64]"
      using len by (intro map_cong) simp_all
    also have "\<dots> = rotate s (map name_byte data)"
      by (rule nth_ring) (simp_all add: len)
    finally show ?thesis by (simp only: data rotate_rotate)
  qed
  have unrotated: "takeWhile (\<lambda>c. c \<noteq> 0) (rotate (s + k) (name @ replicate (64 - length name) 0)) = name" if "(s + k) mod 64 = 0" for s
  proof -
    have "rotate (s + k) (name @ replicate (64 - length name) 0) = name @ replicate (64 - length name) 0"
      using that name(2) by (subst rotate_conv_mod) simp
    then show ?thesis
      using name by (simp add: takeWhile_append takeWhile_replicate)
  qed
  show ?thesis
  proof (cases "name = []")
    case True
    have "rotate s (replicate 64 (0 :: uint8)) = replicate 64 0" for s
      by (simp add: rotate_drop_take min_def flip: replicate_add)
    then show ?thesis
      using name_scan_borders(1) [of "[]" 64 0] True shifted
      by (simp add: eca_extract_name_def data)
  next
    case False
    obtain zero nonzero where z: "name_scan 0 (rotate k (name @ replicate (64 - length name) 0)) (- 1) (- 1) = (zero, nonzero)"
      "zero \<noteq> - 1" "if nonzero = - 1 then k = 0 else k > 0 \<and> nonzero = 64 - int k"
      using name_scan_ring [OF name(1) _ False k] name(2) by auto
    let ?s = "nat (if nonzero = - 1 then 0 else nonzero)"
    have "nat (64 - int k) + k = 64" using k by arith
    then have "(?s + k) mod 64 = 0" using z(3) by (auto split: if_splits)
    from unrotated [OF this] show ?thesis
      using z(1,2) by (simp add: eca_extract_name_def data shifted)
  qed
qed

theorem eca_extract_name_ring_witness:
  "eca_extract_name (replicate 10 0 @ [0x450000, 0x43FFFF, 0x7F410000] @ replicate 51 0) = [0x45, 0x43, 0x41]"
  by (rule eca_extract_name_ring [where k = 54]) (code_simp | simp)+

section \<open>The units that are found\<close>

definition unit_device :: "uint32 \<Rightarrow> sdb_device \<Rightarrow> bool" where
  "unit_device dev d \<longleftrightarrow>
     vendor_id (product (dev_component d)) = GSI_VENDOR_ID \<and> device_id (product (dev_component d)) = dev \<and> abi_ver_major d = 2"

lemma eca_visits:
  "fold eca_visit ds \<lparr>sr_ecas = ecs, sr_streams = ess, sr_queues = aqs\<rparr> =
     \<lparr>sr_ecas = ecs @ map found_eca (filter (unit_device ECA_DEVICE_ID) ds),
      sr_streams = ess @ map found_stream (filter (unit_device ECAE_DEVICE_ID) ds),
      sr_queues = aqs @ map found_queue (filter (unit_device ECAQ_DEVICE_ID) ds)\<rparr>"
  by (induction ds arbitrary: ecs ess aqs) (auto simp: eca_visit_def unit_device_def Let_def)

text \<open>A channel as probing leaves it, and a unit with such channels. Queues and streams come from the
  given lists, by their addresses.\<close>

definition channel_ok :: "eb_address_t set \<Rightarrow> eca \<Rightarrow> nat \<Rightarrow> action_channel \<Rightarrow> bool" where
  "channel_ok qs ec c ac \<longleftrightarrow>
     ac_index ac = word_of_nat c \<and> ac_address ac = eca_address ec \<and>
     ac_queue_size ac = (if eca_inspect_queue ec then eca_queue_size ec else 0) \<and>
     length (ac_queue ac) \<le> 1 \<and> aq_address ` set (ac_queue ac) \<subseteq> qs"

definition unit_ok :: "event_stream set \<Rightarrow> eb_address_t set \<Rightarrow> nat \<Rightarrow> eca \<Rightarrow> bool" where
  "unit_ok ss qs i ec \<longleftrightarrow>
     eca_index ec = word_of_nat i \<and> set (eca_streams ec) \<subseteq> ss \<and> length (eca_channels ec) < 256 \<and>
     (\<exists>n < 32. eca_table_size ec = push_bit n 1) \<and>
     (\<forall>c < length (eca_channels ec). channel_ok qs ec c (eca_channels ec ! c))"

definition units_ok :: "event_stream set \<Rightarrow> eb_address_t set \<Rightarrow> nat \<Rightarrow> eca list \<Rightarrow> bool" where
  "units_ok ss qs i ecs \<longleftrightarrow> (\<forall>j < length ecs. unit_ok ss qs (i + j) (ecs ! j))"

lemma channel_ok_update: "channel_ok qs (ec\<lparr>eca_channels := acs\<rparr>) c ac = channel_ok qs ec c ac"
  by (simp add: channel_ok_def)

lemma units_ok_Cons: "units_ok ss qs i (ec # ecs) \<longleftrightarrow> unit_ok ss qs i ec \<and> units_ok ss qs (i + 1) ecs"
  by (simp add: units_ok_def All_less_Suc2)

lemma units_ok_update:
  "units_ok ss qs 0 ecs \<Longrightarrow> unit_ok ss qs i ec \<Longrightarrow> units_ok ss qs 0 (ecs[i := ec])"
  unfolding units_ok_def by (metis add_0 length_list_update nth_list_update_eq nth_list_update_neq)

lemma map_update_same: "(i < length xs \<Longrightarrow> f y = f (xs ! i)) \<Longrightarrow> map f (xs[i := y]) = map f xs"
  by (cases "i < length xs") (simp_all add: map_update list_update_same_conv list_update_beyond)

lemma probe_channels_ok:
  "probe_channels bus cs ec h = (EB_OK, ec', h') \<Longrightarrow>
   \<exists>acs. ec' = ec\<lparr>eca_channels := eca_channels ec @ acs\<rparr> \<and> length acs = length cs \<and>
     (\<forall>i < length cs. channel_ok {} ec (cs ! i) (acs ! i))"
proof (induction cs arbitrary: ec h)
  case (Cons c cs)
  obtain st vs h1 where cyc: "bus_cycle bus (channel_ops (eca_address ec) c) h = (st, vs, h1)"
    by (metis prod_cases3)
  let ?ac = "read_channel vs ec c"
  have st: "st = EB_OK" using Cons.prems cyc by (auto split: if_splits)
  obtain acs where acs: "ec' = ec\<lparr>eca_channels := eca_channels ec @ ?ac # acs\<rparr>" "length acs = length cs"
    "\<forall>i < length cs. channel_ok {} (ec\<lparr>eca_channels := eca_channels ec @ [?ac]\<rparr>) (cs ! i) (acs ! i)"
    using Cons.IH [of "ec\<lparr>eca_channels := eca_channels ec @ [?ac]\<rparr>" h1] Cons.prems cyc st by auto
  have "channel_ok {} ec c ?ac" by (simp add: channel_ok_def read_channel_def)
  with acs show ?case
    by (intro exI [of _ "?ac # acs"]) (auto simp: channel_ok_def nth_Cons' less_Suc_eq_0_disj)
qed auto

lemma num_channels_less: "num_channels vs < 256"
proof -
  have "drop_bit 8 (vs ! 64) AND 0xFF < (256 :: eb_data_t)"
    using word_and_le1 [of "drop_bit 8 (vs ! 64)" "0xFF"] by (rule le_less_trans) simp
  then show ?thesis unfolding num_channels_def by (simp add: word_less_nat_alt)
qed

lemma probe_units_ok:
  "probe_units bus i ecs h = Inr (EB_OK, ecs', h') \<Longrightarrow> \<forall>ec \<in> set ecs. eca_channels ec = [] \<and> eca_streams ec = [] \<Longrightarrow>
   map eca_address ecs' = map eca_address ecs \<and> units_ok {} {} i ecs'"
proof (induction ecs arbitrary: i h ecs')
  case (Cons ec ecs)
  let ?ec = "ec\<lparr>eca_index := word_of_nat i\<rparr>"
  obtain st vs h1 where cyc: "bus_cycle bus (unit_ops (eca_address ec) i) h = (st, vs, h1)"
    by (metis prod_cases3)
  have st: "st = EB_OK" "table_shift vs < 32"
    using Cons.prems(1) cyc by (auto simp: Let_def split: if_splits)
  obtain ec1 h2 ecs1 where run: "probe_channels bus [0..<num_channels vs] (read_unit vs ?ec) h1 = (EB_OK, ec1, h2)"
    "probe_units bus (i + 1) ecs h2 = Inr (EB_OK, ecs1, h')" "ecs' = ec1 # ecs1"
    using Cons.prems(1) cyc st by (auto simp: Let_def split: if_splits prod.splits sum.splits)
  from probe_channels_ok [OF run(1)] obtain acs where
    "ec1 = (read_unit vs ?ec)\<lparr>eca_channels := acs\<rparr>" "length acs = num_channels vs"
    "\<forall>c < num_channels vs. channel_ok {} (read_unit vs ?ec) c (acs ! c)"
    using Cons.prems(2) by (auto simp: read_unit_def)
  then have "unit_ok {} {} i ec1" "eca_address ec1 = eca_address ec"
    using Cons.prems(2) st(2) num_channels_less [of vs]
    by (auto simp: unit_ok_def read_unit_def channel_ok_def)
  then show ?case
    using Cons.IH [OF run(2)] Cons.prems(2) by (simp add: run(3) units_ok_Cons)
qed (simp add: units_ok_def)

lemma unit_ok_mono: "unit_ok ss qs i ec \<Longrightarrow> ss \<subseteq> ss' \<Longrightarrow> qs \<subseteq> qs' \<Longrightarrow> unit_ok ss' qs' i ec"
  unfolding unit_ok_def channel_ok_def by blast

lemma probe_streams_ok:
  "probe_streams bus ess ecs h = (st, ecs', h') \<Longrightarrow> units_ok ss qs 0 ecs \<Longrightarrow> set ess \<subseteq> ss \<Longrightarrow>
   map eca_address ecs' = map eca_address ecs \<and> units_ok ss qs 0 ecs'"
proof (induction ess arbitrary: ecs h)
  case (Cons es ess)
  obtain st1 v h1 where rd: "b_read bus (es_address es) EB_DATA32 h = (st1, v, h1)" by (metis prod_cases3)
  let ?m = "unat (ucast v :: uint8)"
  let ?ecs = "ecs[?m := (ecs ! ?m)\<lparr>eca_streams := eca_streams (ecs ! ?m) @ [es]\<rparr>]"
  have "units_ok ss qs 0 ?ecs" if "?m < length ecs"
    using Cons.prems(2,3) that
    by (intro units_ok_update) (auto simp: units_ok_def unit_ok_def channel_ok_def)
  moreover have "map eca_address ?ecs = map eca_address ecs"
    by (rule map_update_same) simp
  ultimately show ?case
    using Cons.IH [of ecs h1] Cons.IH [of ?ecs h1] Cons.prems rd
    by (auto simp: Let_def split: if_splits)
qed auto

lemma attach_queue_ok:
  assumes "units_ok ss qs 0 ecs" "aq_address aq \<in> qs"
  shows "units_ok ss qs 0 (attach_queue mid cid aq ecs) \<and> map eca_address (attach_queue mid cid aq ecs) = map eca_address ecs"
proof (cases "mid < length ecs \<and> cid < length (eca_channels (ecs ! mid)) \<and> ac_queue (eca_channels (ecs ! mid) ! cid) = []")
  case True
  let ?ec = "ecs ! mid"
  let ?ec' = "?ec\<lparr>eca_channels := (eca_channels ?ec)[cid := (eca_channels ?ec ! cid)\<lparr>ac_queue := [aq]\<rparr>]\<rparr>"
  have att: "attach_queue mid cid aq ecs = ecs[mid := ?ec']" using True by (simp add: attach_queue_def)
  have ok: "unit_ok ss qs mid ?ec" using assms(1) True by (simp add: units_ok_def)
  then have "channel_ok qs ?ec cid ((eca_channels ?ec ! cid)\<lparr>ac_queue := [aq]\<rparr>)"
    using True assms(2) by (simp add: unit_ok_def channel_ok_def)
  then have "unit_ok ss qs mid ?ec'"
    using ok True by (simp add: unit_ok_def nth_list_update channel_ok_update)
  then show ?thesis
    unfolding att using assms(1) by (simp add: units_ok_update map_update_same)
qed (use assms in \<open>auto simp: attach_queue_def\<close>)

lemma probe_queues_ok:
  "probe_queues bus aqs ecs h = (st, ecs', h') \<Longrightarrow> units_ok ss qs 0 ecs \<Longrightarrow> aq_address ` set aqs \<subseteq> qs \<Longrightarrow>
   map eca_address ecs' = map eca_address ecs \<and> units_ok ss qs 0 ecs'"
proof (induction aqs arbitrary: ecs h)
  case (Cons aq aqs)
  obtain st1 vs h1 where cyc: "bus_cycle bus (queue_ops (aq_address aq)) h = (st1, vs, h1)" by (metis prod_cases3)
  have "aq_address (read_queue vs aq) \<in> qs" using Cons.prems(3) by (simp add: read_queue_def)
  note ok = attach_queue_ok [OF Cons.prems(2) this]
  show ?case
    using Cons.IH [OF _ conjunct1 [OF ok]] Cons.prems ok cyc by (auto split: if_splits)
qed auto


text \<open>A device with one unit, a stream and a queue behind a bridge.\<close>

definition demo_device :: "uint32 \<Rightarrow> uint64 \<Rightarrow> sdb_device" where
  "demo_device dev adr =
     \<lparr>abi_class = 0, abi_ver_major = 2, abi_ver_minor = 0, bus_specific = 0,
      dev_component = \<lparr>addr_first = adr, addr_last = adr + 0x7F,
        product = \<lparr>vendor_id = GSI_VENDOR_ID, device_id = dev, version = 1, date = 0x20130625,
          prod_name = [0x45, 0x43, 0x41, 0x20, 0x20], record_type = 1\<rparr>\<rparr>\<rparr>"

definition demo_bridge :: sdb_bridge where
  "demo_bridge = \<lparr>sdb_child = 0x8000, bridge_component = dev_component (demo_device 0 0)\<rparr>"

definition demo_icn :: sdb_interconnect where
  "demo_icn = \<lparr>sdb_magic = 0, sdb_records = 4, sdb_version = 1, sdb_bus_type = 0,
     icn_component = dev_component (demo_device 0 0)\<rparr>"

definition demo_scan :: "unit scan" where
  "demo_scan b h =
     (Some (EB_OK, Some (demo_icn,
        case b of
          None \<Rightarrow> [Sdb_bridge demo_bridge, Sdb_device (demo_device 7 0x4000)]
        | Some _ \<Rightarrow> [Sdb_device (demo_device ECAQ_DEVICE_ID 0x1000), Sdb_device (demo_device ECA_DEVICE_ID 0x2000),
                     Sdb_device (demo_device ECAE_DEVICE_ID 0x3000)])), h)"

definition demo_bus :: "unit bus" where
  "demo_bus = \<lparr>b_open = (\<lambda>h. (EB_OK, h)),
     b_close = (\<lambda>ops h. (EB_OK, replicate 64 0 @ [0x03020100, 0, 0, 0, 0], h)),
     b_write = (\<lambda>a f v h. (EB_OK, h)), b_read = (\<lambda>a f h. (EB_OK, 0, h))\<rparr>"

lemma demo_devices:
  "root_devices demo_scan [demo_device ECAQ_DEVICE_ID 0x1000, demo_device ECA_DEVICE_ID 0x2000,
     demo_device ECAE_DEVICE_ID 0x3000, demo_device 7 0x4000]"
proof -
  have "bus_devices demo_scan [Sdb_device (demo_device ECAQ_DEVICE_ID 0x1000), Sdb_device (demo_device ECA_DEVICE_ID 0x2000),
      Sdb_device (demo_device ECAE_DEVICE_ID 0x3000)]
    [demo_device ECAQ_DEVICE_ID 0x1000, demo_device ECA_DEVICE_ID 0x2000, demo_device ECAE_DEVICE_ID 0x3000]"
    by (intro bus_devices.intros)
  from bus_devices.bridge [OF _ _ this bus_devices.device [OF bus_devices.none, of _ "demo_device 7 0x4000"],
      of demo_bridge demo_icn]
  show ?thesis
    unfolding root_devices_def
    by (intro exI [of _ demo_icn] exI [of _ "[Sdb_bridge demo_bridge, Sdb_device (demo_device 7 0x4000)]"])
      (simp add: demo_scan_def demo_icn_def)
qed

lemma demo_probe_succeeds:
  "case eca_probe demo_bus demo_scan [] () of Some (Inr (st, ecs, h)) \<Rightarrow> st = EB_OK \<and> length ecs = 1 | _ \<Rightarrow> False"
  by code_simp


end
