(* ===== verification/TLU_Driver.thy ===== *)
theory TLU_Driver
  imports WR_Scan
begin

text \<open>
  The driver of the timestamp latch unit, \<^verbatim>\<open>modules/wr_tlu/lib/tlu.cpp\<close>: channels that latch the
  time of an edge into a queue, read out over the bus. The bus is the parameter of \<^verbatim>\<open>WR_Bus\<close>. A
  channel argument is a C \<^verbatim>\<open>int\<close>, \<^verbatim>\<open>-1\<close> for all channels where the code allows it.
\<close>

section \<open>State and registers\<close>

record tlu_channel =
  tc_active :: bool
  tc_pos_edge :: bool
  tc_int_enable :: bool
  tc_queued :: uint32
  tc_stable :: uint32
  tc_int_dest :: uint32
  tc_int_msg :: uint32

record tlu =
  tlu_sdb :: sdb_info
  tlu_num_channels :: uint32
  tlu_queue_size :: uint32
  tlu_int_enable :: bool
  tlu_current_time :: uint64
  tlu_channels :: "tlu_channel list"
  tlu_address :: eb_address_t

abbreviation (input) UDP_MAX_POPS :: nat where "UDP_MAX_POPS \<equiv> 46"
abbreviation (input) TLU_CLEAR :: eb_address_t where "TLU_CLEAR \<equiv> 0x04"
abbreviation (input) TLU_TEST :: eb_address_t where "TLU_TEST \<equiv> 0x08"
abbreviation (input) TLU_ACTIVE_STATUS :: eb_address_t where "TLU_ACTIVE_STATUS \<equiv> 0x0C"
abbreviation (input) TLU_ACTIVE_SET :: eb_address_t where "TLU_ACTIVE_SET \<equiv> 0x10"
abbreviation (input) TLU_ACTIVE_CLR :: eb_address_t where "TLU_ACTIVE_CLR \<equiv> 0x14"
abbreviation (input) TLU_EDGE_STATUS :: eb_address_t where "TLU_EDGE_STATUS \<equiv> 0x18"
abbreviation (input) TLU_EDGE_SET :: eb_address_t where "TLU_EDGE_SET \<equiv> 0x1C"
abbreviation (input) TLU_EDGE_CLR :: eb_address_t where "TLU_EDGE_CLR \<equiv> 0x20"
abbreviation (input) TLU_INT_GLOBAL :: eb_address_t where "TLU_INT_GLOBAL \<equiv> 0x24"
abbreviation (input) TLU_INT_STATUS :: eb_address_t where "TLU_INT_STATUS \<equiv> 0x28"
abbreviation (input) TLU_INT_SET :: eb_address_t where "TLU_INT_SET \<equiv> 0x2C"
abbreviation (input) TLU_INT_CLR :: eb_address_t where "TLU_INT_CLR \<equiv> 0x30"
abbreviation (input) TLU_TIME1 :: eb_address_t where "TLU_TIME1 \<equiv> 0x50"
abbreviation (input) TLU_TIME0 :: eb_address_t where "TLU_TIME0 \<equiv> 0x54"
abbreviation (input) TLU_CH_SELECT :: eb_address_t where "TLU_CH_SELECT \<equiv> 0x58"
abbreviation (input) TLU_CH_POP :: eb_address_t where "TLU_CH_POP \<equiv> 0x5C"
abbreviation (input) TLU_CH_TEST :: eb_address_t where "TLU_CH_TEST \<equiv> 0x60"
abbreviation (input) TLU_CH_FILL_COUNT :: eb_address_t where "TLU_CH_FILL_COUNT \<equiv> 0x64"
abbreviation (input) TLU_CH_TIME1 :: eb_address_t where "TLU_CH_TIME1 \<equiv> 0x68"
abbreviation (input) TLU_CH_TIME0 :: eb_address_t where "TLU_CH_TIME0 \<equiv> 0x6C"
abbreviation (input) TLU_CH_SUB :: eb_address_t where "TLU_CH_SUB \<equiv> 0x70"
abbreviation (input) TLU_CH_STABLE :: eb_address_t where "TLU_CH_STABLE \<equiv> 0x74"
abbreviation (input) TLU_CH_INT_DEST :: eb_address_t where "TLU_CH_INT_DEST \<equiv> 0x78"
abbreviation (input) TLU_CH_INT_MSG :: eb_address_t where "TLU_CH_INT_MSG \<equiv> 0x7C"

section \<open>Refresh\<close>

text \<open>One cycle reads the registers and, per channel, fill count, stable time, destination and message;
  the fields of \<^verbatim>\<open>Shadow\<close> are four consecutive values.\<close>

definition refresh_ops :: "tlu \<Rightarrow> bus_op list" where
  "refresh_ops t =
     (let adr = tlu_address t in
      [Bread (adr + TLU_ACTIVE_STATUS) EB_DATA32, Bread (adr + TLU_EDGE_STATUS) EB_DATA32,
       Bread (adr + TLU_INT_GLOBAL) EB_DATA32, Bread (adr + TLU_INT_STATUS) EB_DATA32,
       Bread (adr + TLU_TIME1) EB_DATA32, Bread (adr + TLU_TIME0) EB_DATA32,
       Bread (adr + TLU_TIME1) EB_DATA32] @
      concat (map (\<lambda>i. [Bwrite (adr + TLU_CH_SELECT) EB_DATA32 (word_of_nat i),
                        Bread (adr + TLU_CH_FILL_COUNT) EB_DATA32, Bread (adr + TLU_CH_STABLE) EB_DATA32,
                        Bread (adr + TLU_CH_INT_DEST) EB_DATA32, Bread (adr + TLU_CH_INT_MSG) EB_DATA32])
                  [0..<length (tlu_channels t)]))"

definition stamp :: "eb_data_t \<Rightarrow> eb_data_t \<Rightarrow> eb_data_t \<Rightarrow> uint64" where
  "stamp time1 time0 sub = push_bit 3 (join_or time1 time0) OR sub"

fun refresh_channels :: "eb_data_t list \<Rightarrow> eb_data_t \<Rightarrow> eb_data_t list \<Rightarrow> tlu_channel list \<Rightarrow> tlu_channel list" where
  "refresh_channels vs mk sh [] = []"
| "refresh_channels vs mk sh (ch # chs) =
     ch\<lparr>tc_int_enable := (vs ! 3 AND mk \<noteq> 0), tc_active := (vs ! 0 AND mk \<noteq> 0),
        tc_pos_edge := (vs ! 1 AND mk \<noteq> 0), tc_queued := ucast (sh ! 0), tc_stable := ucast (sh ! 1),
        tc_int_dest := ucast (sh ! 2), tc_int_msg := ucast (sh ! 3)\<rparr>
     # refresh_channels vs (push_bit 1 mk) (drop 4 sh) chs"

partial_function (option) tlu_refresh :: "'w bus \<Rightarrow> tlu \<Rightarrow> 'w \<Rightarrow> (eb_status_t \<times> tlu \<times> 'w) option" where
  "tlu_refresh bus t h =
     (case bus_cycle bus (refresh_ops t) h of
        (st, vs, h1) \<Rightarrow>
          if st \<noteq> EB_OK then Some (st, t, h1)
          else if vs ! 4 \<noteq> vs ! 6 then tlu_refresh bus t h1
          else Some (EB_OK, t\<lparr>tlu_int_enable := (vs ! 2 \<noteq> 0), tlu_current_time := stamp (vs ! 4) (vs ! 5) 0,
                 tlu_channels := refresh_channels vs 1 (drop 7 vs) (tlu_channels t)\<rparr>, h1))"

section \<open>Configuration\<close>

definition tlu_set_enable :: "'w bus \<Rightarrow> bool \<Rightarrow> tlu \<Rightarrow> 'w \<Rightarrow> eb_status_t \<times> tlu \<times> 'w" where
  "tlu_set_enable bus enable t h =
     (case b_write bus (tlu_address t + TLU_INT_GLOBAL) EB_DATA32 (if enable then 1 else 0) h of
      (st, h1) \<Rightarrow> if st \<noteq> EB_OK then (st, t, h1) else (EB_OK, t\<lparr>tlu_int_enable := enable\<rparr>, h1))"

text \<open>First and last channel and the register mask of a channel argument.\<close>

definition channel_range :: "int \<Rightarrow> tlu \<Rightarrow> int \<times> int \<times> eb_data_t" where
  "channel_range c t =
     (if c = - 1 then (0, int (length (tlu_channels t)), 0xFFFFFFFF) else (c, c + 1, push_bit (nat c) 1))"

definition update_channels :: "int \<Rightarrow> int \<Rightarrow> (tlu_channel \<Rightarrow> tlu_channel) \<Rightarrow> tlu \<Rightarrow> tlu" where
  "update_channels first lst f t =
     t\<lparr>tlu_channels := map (\<lambda>(i, ch). if first \<le> int i \<and> int i < lst then f ch else ch)
                          (enumerate 0 (tlu_channels t))\<rparr>"

definition tlu_hook :: "'w bus \<Rightarrow> int \<Rightarrow> bool \<Rightarrow> uint32 \<Rightarrow> uint32 \<Rightarrow> tlu \<Rightarrow> 'w \<Rightarrow> eb_status_t \<times> tlu \<times> 'w" where
  "tlu_hook bus c enable dest msg t h =
     (let adr = tlu_address t; (first, lst, mk) = channel_range c t in
      if first < 0 \<or> lst > int (length (tlu_channels t)) then (EB_FAIL, t, h)
      else
        case bus_cycle bus
          ((if enable then Bwrite (adr + TLU_INT_SET) EB_DATA32 mk else Bwrite (adr + TLU_INT_CLR) EB_DATA32 mk) #
           concat (map (\<lambda>i. [Bwrite (adr + TLU_CH_SELECT) EB_DATA32 (word_of_int i),
                             Bwrite (adr + TLU_CH_INT_DEST) EB_DATA32 (ucast dest),
                             Bwrite (adr + TLU_CH_INT_MSG) EB_DATA32 (ucast msg)]) [first..lst - 1])) h of
        (st, vs, h1) \<Rightarrow>
          if st \<noteq> EB_OK then (st, t, h1)
          else (EB_OK, update_channels first lst
                 (\<lambda>ch. ch\<lparr>tc_int_enable := enable, tc_int_dest := dest, tc_int_msg := msg\<rparr>) t, h1))"

definition tlu_listen :: "'w bus \<Rightarrow> int \<Rightarrow> bool \<Rightarrow> bool \<Rightarrow> uint32 \<Rightarrow> tlu \<Rightarrow> 'w \<Rightarrow> eb_status_t \<times> tlu \<times> 'w" where
  "tlu_listen bus c enable pos_edge stbl t h =
     (let adr = tlu_address t; (first, lst, mk) = channel_range c t in
      if first < 0 \<or> lst > int (length (tlu_channels t)) then (EB_FAIL, t, h)
      else
        case bus_cycle bus
          ([if enable then Bwrite (adr + TLU_ACTIVE_SET) EB_DATA32 mk else Bwrite (adr + TLU_ACTIVE_CLR) EB_DATA32 mk,
            if pos_edge then Bwrite (adr + TLU_EDGE_SET) EB_DATA32 mk else Bwrite (adr + TLU_EDGE_CLR) EB_DATA32 mk] @
           concat (map (\<lambda>i. [Bwrite (adr + TLU_CH_SELECT) EB_DATA32 (word_of_int i),
                             Bwrite (adr + TLU_CH_STABLE) EB_DATA32 (ucast stbl)]) [first..lst - 1])) h of
        (st, vs, h1) \<Rightarrow>
          if st \<noteq> EB_OK then (st, t, h1)
          else (EB_OK, update_channels first lst (\<lambda>ch. ch\<lparr>tc_active := enable, tc_pos_edge := pos_edge\<rparr>) t, h1))"

definition tlu_clear :: "'w bus \<Rightarrow> int \<Rightarrow> tlu \<Rightarrow> 'w \<Rightarrow> eb_status_t \<times> tlu \<times> 'w" where
  "tlu_clear bus c t h =
     (let (first, lst, mk) = channel_range c t in
      if first < 0 \<or> lst > int (length (tlu_channels t)) then (EB_FAIL, t, h)
      else
        case bus_cycle bus [Bwrite (tlu_address t + TLU_CLEAR) EB_DATA32 mk] h of
        (st, vs, h1) \<Rightarrow>
          if st \<noteq> EB_OK then (st, t, h1)
          else (EB_OK, update_channels first lst (\<lambda>ch. ch\<lparr>tc_queued := 0\<rparr>) t, h1))"

definition tlu_test :: "'w bus \<Rightarrow> int \<Rightarrow> uint8 \<Rightarrow> tlu \<Rightarrow> 'w \<Rightarrow> eb_status_t \<times> 'w" where
  "tlu_test bus c edge t h =
     (let adr = tlu_address t in
      if c = - 1 then b_write bus (adr + TLU_TEST) EB_DATA32 (ucast edge) h
      else if c < 0 \<or> c \<ge> int (length (tlu_channels t)) then (EB_FAIL, h)
      else
        case bus_cycle bus [Bwrite (adr + TLU_CH_SELECT) EB_DATA32 (word_of_int c),
                            Bwrite (adr + TLU_CH_TEST) EB_DATA32 (ucast edge)] h of
        (st, vs, h1) \<Rightarrow> (st, h1))"

section \<open>Reading timestamps\<close>

text \<open>The timestamp is written to the caller's variable only when a pop succeeds.\<close>

definition set_queued :: "nat \<Rightarrow> uint32 \<Rightarrow> tlu \<Rightarrow> tlu" where
  "set_queued c q t = t\<lparr>tlu_channels := (tlu_channels t)[c := (tlu_channels t ! c)\<lparr>tc_queued := q\<rparr>]\<rparr>"

definition pop_one :: "'w bus \<Rightarrow> nat \<Rightarrow> tlu \<Rightarrow> 'w \<Rightarrow> eb_status_t \<times> uint64 option \<times> tlu \<times> 'w" where
  "pop_one bus c t h =
     (let adr = tlu_address t in
      case bus_cycle bus
        [Bwrite (adr + TLU_CH_SELECT) EB_DATA32 (word_of_nat c), Bread (adr + TLU_CH_TIME1) EB_DATA32,
         Bread (adr + TLU_CH_TIME0) EB_DATA32, Bread (adr + TLU_CH_SUB) EB_DATA32,
         Bwrite (adr + TLU_CH_POP) EB_DATA32 1] h of
      (st, vs, h1) \<Rightarrow>
        if st \<noteq> EB_OK then (st, None, t, h1)
        else (EB_OK, Some (stamp (vs ! 0) (vs ! 1) (vs ! 2)), set_queued c (tc_queued (tlu_channels t ! c) - 1) t, h1))"

definition tlu_pop :: "'w bus \<Rightarrow> int \<Rightarrow> tlu \<Rightarrow> 'w \<Rightarrow> (eb_status_t \<times> uint64 option \<times> tlu \<times> 'w) option" where
  "tlu_pop bus c t h =
     (if c < 0 \<or> c \<ge> int (length (tlu_channels t)) then Some (EB_FAIL, None, t, h)
      else if tc_queued (tlu_channels t ! nat c) = 0 then
        case tlu_refresh bus t h of
          None \<Rightarrow> None
        | Some (st, t1, h1) \<Rightarrow>
            if tc_queued (tlu_channels t1 ! nat c) = 0 then Some (EB_FAIL, None, t1, h1)
            else Some (pop_one bus (nat c) t1 h1)
      else Some (pop_one bus (nat c) t h))"

type_synonym element = "eb_data_t \<times> eb_data_t \<times> eb_data_t"

definition fill_ops :: "eb_address_t \<Rightarrow> nat \<Rightarrow> bus_op list" where
  "fill_ops adr c = [Bwrite (adr + TLU_CH_SELECT) EB_DATA32 (word_of_nat c), Bread (adr + TLU_CH_FILL_COUNT) EB_DATA32]"

definition chunk_ops :: "eb_address_t \<Rightarrow> nat \<Rightarrow> nat \<Rightarrow> bus_op list" where
  "chunk_ops adr c n =
     Bwrite (adr + TLU_CH_SELECT) EB_DATA32 (word_of_nat c) #
     concat (replicate n [Bread (adr + TLU_CH_TIME1) EB_DATA32, Bread (adr + TLU_CH_TIME0) EB_DATA32,
                          Bread (adr + TLU_CH_SUB) EB_DATA32, Bwrite (adr + TLU_CH_POP) EB_DATA32 1])"

definition chunks_of :: "eb_data_t \<Rightarrow> uint16" where
  "chunks_of fill = ucast (fill div 46 + (if fill mod 46 \<noteq> 0 then 1 else 0))"

fun put_elements :: "nat \<Rightarrow> nat \<Rightarrow> eb_data_t list \<Rightarrow> element list \<Rightarrow> element list" where
  "put_elements i 0 vs es = es"
| "put_elements i (Suc n) vs es = put_elements (i + 1) n (drop 3 vs) (es[i := (vs ! 0, vs ! 1, vs ! 2)])"

text \<open>The loop over the chunks: \<^verbatim>\<open>i\<close> runs from \<open>j * 46\<close> to the smaller of the 32-bit fill count and
  \<open>(j + 1) * 46\<close>.\<close>

fun pop_chunks :: "'w bus \<Rightarrow> eb_address_t \<Rightarrow> nat \<Rightarrow> eb_data_t \<Rightarrow> nat list \<Rightarrow> element list \<Rightarrow> 'w \<Rightarrow>
    eb_status_t \<times> element list \<times> 'w" where
  "pop_chunks bus adr c fill [] es h = (EB_OK, es, h)"
| "pop_chunks bus adr c fill (j # js) es h =
     (let first = j * UDP_MAX_POPS;
          n = min (unat (ucast fill :: uint32)) ((j + 1) * UDP_MAX_POPS) - first in
      case bus_cycle bus (chunk_ops adr c n) h of
        (st, vs, h1) \<Rightarrow>
          if st \<noteq> EB_OK then (st, es, h1)
          else pop_chunks bus adr c fill js (put_elements first n vs es) h1)"

definition element_stamp :: "element \<Rightarrow> uint64" where
  "element_stamp = (\<lambda>(time1, time0, sub). stamp time1 time0 sub)"

definition tlu_pop_all_channel :: "'w bus \<Rightarrow> int \<Rightarrow> uint64 list \<Rightarrow> tlu \<Rightarrow> 'w \<Rightarrow>
    eb_status_t \<times> uint64 list \<times> tlu \<times> 'w" where
  "tlu_pop_all_channel bus c queue t h =
     (let adr = tlu_address t in
      if c < 0 \<or> c \<ge> int (length (tlu_channels t)) then (EB_FAIL, queue, t, h)
      else
        case bus_cycle bus (fill_ops adr (nat c)) h of
        (st, vs, h1) \<Rightarrow>
          if st \<noteq> EB_OK then (st, queue, t, h1)
          else
            let fill = vs ! 0 in
            if fill = 0 then (EB_OK, queue, t, h1)
            else
              case pop_chunks bus adr (nat c) fill [0..<unat (chunks_of fill)]
                     (replicate (unat fill) (0, 0, 0)) h1 of
              (st, es, h2) \<Rightarrow>
                if st \<noteq> EB_OK then (st, queue, t, h2)
                else (EB_OK, queue @ map element_stamp es, set_queued (nat c) 0 t, h2))"

fun pop_channels :: "'w bus \<Rightarrow> eb_address_t \<Rightarrow> (nat \<times> eb_data_t) list \<Rightarrow> 'w \<Rightarrow>
    eb_status_t \<times> element list list \<times> 'w" where
  "pop_channels bus adr [] h = (EB_OK, [], h)"
| "pop_channels bus adr ((c, fill) # cs) h =
     (case pop_chunks bus adr c fill [0..<unat (chunks_of fill)] (replicate (unat fill) (0, 0, 0)) h of
        (st, es, h1) \<Rightarrow>
          if st \<noteq> EB_OK then (st, [], h1)
          else (case pop_channels bus adr cs h1 of (st', ess, h2) \<Rightarrow> (st', es # ess, h2)))"

definition tlu_pop_all :: "'w bus \<Rightarrow> uint64 list list \<Rightarrow> tlu \<Rightarrow> 'w \<Rightarrow>
    eb_status_t \<times> uint64 list list \<times> tlu \<times> 'w" where
  "tlu_pop_all bus queues t h =
     (let adr = tlu_address t; n = length (tlu_channels t);
          queues = take n queues @ replicate (n - length queues) [] in
      case bus_cycle bus (concat (map (fill_ops adr) [0..<n])) h of
      (st, fills, h1) \<Rightarrow>
        if st \<noteq> EB_OK then (st, queues, t, h1)
        else
          case pop_channels bus adr (zip [0..<n] fills) h1 of
          (st, ess, h2) \<Rightarrow>
            if st \<noteq> EB_OK then (st, queues, t, h2)
            else (EB_OK, map2 (\<lambda>q es. q @ map element_stamp es) queues ess,
                  t\<lparr>tlu_channels := map (\<lambda>ch. ch\<lparr>tc_queued := 0\<rparr>) (tlu_channels t)\<rparr>, h2))"

section \<open>Draining a channel\<close>

text \<open>Named hypothesis on the hardware: the queue \<open>fifo\<close> of a channel. Opening a cycle does not change
  it. Reading the fill count gives its length. A cycle of at most 46 pops, which is what fits into a
  UDP packet, reads the oldest elements in order and removes them.\<close>

definition fifo_bus :: "'w bus \<Rightarrow> eb_address_t \<Rightarrow> nat \<Rightarrow> ('w \<Rightarrow> element list) \<Rightarrow> bool" where
  "fifo_bus bus adr c fifo \<longleftrightarrow>
     (\<forall>h. \<exists>h'. b_open bus h = (EB_OK, h') \<and> fifo h' = fifo h) \<and>
     (\<forall>h. \<exists>h'. b_close bus (fill_ops adr c) h = (EB_OK, [word_of_nat (length (fifo h))], h') \<and> fifo h' = fifo h) \<and>
     (\<forall>h n. n \<le> UDP_MAX_POPS \<longrightarrow> n \<le> length (fifo h) \<longrightarrow>
        (\<exists>h'. b_close bus (chunk_ops adr c n) h
            = (EB_OK, concat (map (\<lambda>(a, b, s). [a, b, s]) (take n (fifo h))), h') \<and> fifo h' = drop n (fifo h)))"

lemma fifo_bus_cycles:
  assumes "fifo_bus bus adr c fifo"
  shows "\<exists>h'. bus_cycle bus (fill_ops adr c) h = (EB_OK, [word_of_nat (length (fifo h))], h') \<and> fifo h' = fifo h"
    and "n \<le> UDP_MAX_POPS \<Longrightarrow> n \<le> length (fifo h) \<Longrightarrow> \<exists>h'. bus_cycle bus (chunk_ops adr c n) h
      = (EB_OK, concat (map (\<lambda>(a, b, s). [a, b, s]) (take n (fifo h))), h') \<and> fifo h' = drop n (fifo h)"
proof -
  obtain h1 where h1: "b_open bus h = (EB_OK, h1)" "fifo h1 = fifo h"
    using assms unfolding fifo_bus_def by blast
  show "\<exists>h'. bus_cycle bus (fill_ops adr c) h = (EB_OK, [word_of_nat (length (fifo h))], h') \<and> fifo h' = fifo h"
    using assms unfolding fifo_bus_def bus_cycle_def h1(1) h1(2) [symmetric] by simp
  show "\<exists>h'. bus_cycle bus (chunk_ops adr c n) h
      = (EB_OK, concat (map (\<lambda>(a, b, s). [a, b, s]) (take n (fifo h))), h') \<and> fifo h' = drop n (fifo h)"
    if "n \<le> UDP_MAX_POPS" "n \<le> length (fifo h)"
    using assms that unfolding fifo_bus_def bus_cycle_def h1(1) h1(2) [symmetric] by simp
qed

lemma put_elements_triples:
  "i + length xs \<le> length es \<Longrightarrow>
   put_elements i (length xs) (concat (map (\<lambda>(a, b, s). [a, b, s]) xs)) es = take i es @ xs @ drop (i + length xs) es"
proof (induction xs arbitrary: i es)
  case (Cons x xs)
  obtain a b s where x: "x = (a, b, s)" by (cases x) auto
  have "take (i + 1) (es[i := x]) = take i es @ [x]" "drop (i + 1 + length xs) (es[i := x]) = drop (i + 1 + length xs) es"
    using Cons.prems by (auto simp: take_Suc_conv_app_nth)
  with Cons.IH [of "i + 1" "es[i := x]"] Cons.prems show ?case
    by (simp add: x)
qed simp

lemma pop_chunks_drain:
  assumes bus: "fifo_bus bus adr c fifo" and N: "unat (ucast fill :: uint32) = length xs" and m: "m * 46 < length xs + 46"
  shows "j \<le> m \<Longrightarrow> fifo h = drop (j * 46) xs \<Longrightarrow> length es = length xs \<Longrightarrow> take (j * 46) es = take (j * 46) xs \<Longrightarrow>
    \<exists>h' es'. pop_chunks bus adr c fill [j..<m] es h = (EB_OK, es', h') \<and> fifo h' = drop (m * 46) xs \<and>
      length es' = length xs \<and> take (m * 46) es' = take (m * 46) xs"
proof (induction "m - j" arbitrary: j es h)
  case 0
  then show ?case by (intro exI [of _ h] exI [of _ es]) auto
next
  case (Suc d)
  then have jm: "j < m" by simp
  define n where "n = min (length xs) ((j + 1) * 46) - j * 46"
  have j: "j * 46 \<le> length xs" using jm m by simp
  have n: "n \<le> 46" "j * 46 + n \<le> length xs" "n = 46 \<or> j * 46 + n = length xs" "n \<le> length (fifo h)"
    using j Suc.prems(2) by (auto simp: n_def min_def algebra_simps)
  obtain h1 where h1: "bus_cycle bus (chunk_ops adr c n) h =
      (EB_OK, concat (map (\<lambda>(a, b, s). [a, b, s]) (take n (fifo h))), h1)" "fifo h1 = drop n (fifo h)"
    using fifo_bus_cycles(2) [OF bus n(1,4)] by blast
  let ?es = "put_elements (j * 46) n (concat (map (\<lambda>(a, b, s). [a, b, s]) (take n (fifo h)))) es"
  have "?es = take (j * 46) es @ take n (fifo h) @ drop (j * 46 + n) es"
    using put_elements_triples [of "j * 46" "take n (fifo h)" es] n Suc.prems(3) by (simp add: min.absorb2)
  also have "\<dots> = take (j * 46 + n) xs @ drop (j * 46 + n) es"
    using Suc.prems(2,4) by (simp add: take_add)
  finally have es: "?es = take (j * 46 + n) xs @ drop (j * 46 + n) es" .
  have nx: "fifo h1 = drop ((j + 1) * 46) xs" "take ((j + 1) * 46) ?es = take ((j + 1) * 46) xs" "length ?es = length xs"
    using n(1,2,3) h1(2) Suc.prems(2,3) unfolding es by (auto simp: algebra_simps min_def)
  from Suc.hyps(1) [OF _ _ nx(1,3,2)] Suc.hyps(2) jm obtain h' es' where
    "pop_chunks bus adr c fill [j + 1..<m] ?es h1 = (EB_OK, es', h')" "fifo h' = drop (m * 46) xs"
    "length es' = length xs" "take (m * 46) es' = take (m * 46) xs"
    by (metis (no_types, lifting) Suc_eq_plus1 Suc_leI diff_Suc_1 Suc_diff_Suc)
  moreover have "[j..<m] = j # [j + 1..<m]" using jm by (simp add: upt_rec)
  moreover have "min (length xs) (46 + j * 46) - j * 46 = n" by (simp add: n_def)
  ultimately show ?case
    using h1(1) by (auto simp: N Let_def)
qed

lemma chunks_of_count:
  assumes "N \<le> 46 * 65535"
  shows "unat (chunks_of (word_of_nat N)) = N div 46 + (if N mod 46 \<noteq> 0 then 1 else 0)"
proof -
  let ?w = "word_of_nat N :: eb_data_t"
  have w: "unat ?w = N" using assms by (intro unat_of_nat_small) simp
  have q: "unat (?w div 46) = N div 46" "unat (?w mod 46) = N mod 46"
    by (simp_all add: unat_div_distrib unat_mod_distrib w)
  have small: "N div 46 + (if N mod 46 \<noteq> 0 then 1 else 0) < 65536"
    using assms by (auto simp: div_less_iff_less_mult) presburger+
  have "unat (?w div 46 + (if ?w mod 46 \<noteq> 0 then 1 else 0)) = N div 46 + (if N mod 46 \<noteq> 0 then 1 else 0)"
  proof -
    have "?w mod 46 = 0 \<longleftrightarrow> N mod 46 = 0" using q(2) by (metis unat_eq_zero)
    with q(1) small show ?thesis by (simp add: unat_word_ariths(1) del: unat_div_distrib)
  qed
  with small show ?thesis
    unfolding chunks_of_def unsigned_ucast_eq by (simp add: take_bit_nat_eq_self)
qed


text \<open>Hardware that keeps the hypothesis: the queue is the state, reading the fill count has one
  read, and a cycle of pops has three reads per pop.\<close>

definition queue_bus :: "element list bus" where
  "queue_bus = \<lparr>b_open = (\<lambda>h. (EB_OK, h)),
     b_close = (\<lambda>ops h.
       if length ops = 2 then (EB_OK, [word_of_nat (length h)], h)
       else let n = length ops div 4 in
         (EB_OK, concat (map (\<lambda>(a, b, s). [a, b, s]) (take n h)), drop n h)),
     b_write = (\<lambda>a f v h. (EB_OK, h)), b_read = (\<lambda>a f h. (EB_OK, 0, h))\<rparr>"

lemma length_chunk_ops: "length (chunk_ops adr c n) = 4 * n + 1"
  by (induction n) (auto simp: chunk_ops_def)

lemma queue_bus_fifo: "fifo_bus queue_bus adr c (\<lambda>h. h)"
proof -
  have "Suc (4 * n) div 4 = n" "Suc (4 * n) \<noteq> 2" for n :: nat by presburger+
  then show ?thesis
    by (simp add: fifo_bus_def queue_bus_def length_chunk_ops fill_ops_def Let_def)
qed

definition sample_tlu :: tlu where
  "sample_tlu = \<lparr>tlu_sdb = \<lparr>sdb_ver_major = 1, sdb_ver_minor = 0, si_version = 1, si_date = 0, si_name = []\<rparr>,
     tlu_num_channels = 1, tlu_queue_size = 16, tlu_int_enable = False, tlu_current_time = 0,
     tlu_channels = [\<lparr>tc_active = True, tc_pos_edge = True, tc_int_enable = False, tc_queued = 2, tc_stable = 8,
       tc_int_dest = 0, tc_int_msg = 0\<rparr>], tlu_address = 0\<rparr>"


end
