(* ===== verification/TLU_Probe.thy ===== *)
theory TLU_Probe
  imports TLU_Driver
begin

text \<open>
  Finding the timestamp latch units of a device, \<^verbatim>\<open>TLU::probe\<close> of \<^verbatim>\<open>modules/wr_tlu/lib/tlu.cpp\<close>, and what
  a refresh makes of the registers.
\<close>

section \<open>Probing\<close>

abbreviation (input) TLU_DEVICE_ID :: uint32 where "TLU_DEVICE_ID \<equiv> 0x10051981"
abbreviation (input) TLU_NUM_CHANNELS :: eb_address_t where "TLU_NUM_CHANNELS \<equiv> 0x34"
abbreviation (input) TLU_QUEUE_SIZE :: eb_address_t where "TLU_QUEUE_SIZE \<equiv> 0x38"

text \<open>The members that the search leaves uninitialised are zero here; probing sets them.\<close>

definition found_tlu :: "sdb_device \<Rightarrow> tlu" where
  "found_tlu d =
     \<lparr>tlu_sdb = device_info d, tlu_num_channels = 0, tlu_queue_size = 0, tlu_int_enable = False,
      tlu_current_time = 0, tlu_channels = [], tlu_address = addr_first (dev_component d)\<rparr>"

definition tlu_device :: "sdb_device \<Rightarrow> bool" where
  "tlu_device d \<longleftrightarrow>
     vendor_id (product (dev_component d)) = GSI_VENDOR_ID \<and>
     device_id (product (dev_component d)) = TLU_DEVICE_ID \<and> abi_ver_major d = 1"

definition tlu_visit :: "sdb_device \<Rightarrow> tlu list \<Rightarrow> tlu list" where
  "tlu_visit d ts = (if tlu_device d then ts @ [found_tlu d] else ts)"

definition blank_channel :: tlu_channel where
  "blank_channel =
     \<lparr>tc_active = False, tc_pos_edge = False, tc_int_enable = False, tc_queued = 0, tc_stable = 0,
      tc_int_dest = 0, tc_int_msg = 0\<rparr>"

definition resize_channels :: "nat \<Rightarrow> tlu_channel list \<Rightarrow> tlu_channel list" where
  "resize_channels n chs = take n chs @ replicate (n - length chs) blank_channel"

fun probe_tlus :: "'w bus \<Rightarrow> tlu list \<Rightarrow> 'w \<Rightarrow> (eb_status_t \<times> tlu list \<times> 'w) option" where
  "probe_tlus bus [] h = Some (EB_OK, [], h)"
| "probe_tlus bus (t # ts) h =
     (case bus_cycle bus
        [Bread (tlu_address t + TLU_NUM_CHANNELS) EB_DATA32, Bread (tlu_address t + TLU_QUEUE_SIZE) EB_DATA32] h of
      (st, vs, h1) \<Rightarrow>
        if st \<noteq> EB_OK then Some (st, t # ts, h1)
        else
          case tlu_refresh bus
            (t\<lparr>tlu_num_channels := ucast (vs ! 0), tlu_queue_size := ucast (vs ! 1),
               tlu_channels := resize_channels (unat (vs ! 0)) (tlu_channels t)\<rparr>) h1 of
            None \<Rightarrow> None
          | Some (st, t, h2) \<Rightarrow>
              if st \<noteq> EB_OK then Some (st, t # ts, h2)
              else
                case probe_tlus bus ts h2 of
                  None \<Rightarrow> None
                | Some (st, ts', h3) \<Rightarrow> Some (st, t # ts', h3))"

text \<open>\<open>None\<close> if a scan is refused, or while a refresh reads a different upper half of the time before and
  after the lower half.\<close>

definition tlu_probe :: "'w bus \<Rightarrow> 'w scan \<Rightarrow> 'w \<Rightarrow> (search_fault + eb_status_t \<times> tlu list \<times> 'w) option" where
  "tlu_probe bus scan h =
     (case search_root tlu_visit scan [] h of
        None \<Rightarrow> None
      | Some (Inl f) \<Rightarrow> Some (Inl f)
      | Some (Inr ((st, ts), h1)) \<Rightarrow>
          if st \<noteq> EB_OK then Some (Inr (st, ts, h1)) else map_option Inr (probe_tlus bus ts h1))"

section \<open>Refresh\<close>

lemma length_refresh_channels [simp]: "length (refresh_channels vs mk sh chs) = length chs"
  by (induction vs mk sh chs rule: refresh_channels.induct) auto

lemma and_power_bit: "v AND 2 ^ n \<noteq> 0 \<longleftrightarrow> bit v n" for v :: eb_data_t
  using bit_iff_and_push_bit_not_eq_0 [of v n] by simp

lemma refresh_channels_nth:
  "i < length chs \<Longrightarrow> 4 * length chs \<le> length sh \<Longrightarrow> refresh_channels vs (2 ^ n) sh chs ! i =
     (chs ! i)\<lparr>tc_int_enable := bit (vs ! 3) (n + i), tc_active := bit (vs ! 0) (n + i), tc_pos_edge := bit (vs ! 1) (n + i),
       tc_queued := ucast (sh ! (4 * i)), tc_stable := ucast (sh ! (4 * i + 1)),
       tc_int_dest := ucast (sh ! (4 * i + 2)), tc_int_msg := ucast (sh ! (4 * i + 3))\<rparr>"
proof (induction chs arbitrary: i n sh)
  case (Cons ch chs)
  have two: "push_bit 1 (2 ^ n) = (2 ^ Suc n :: eb_data_t)" by (simp add: push_bit_eq_mult)
  show ?case
  proof (cases i)
    case (Suc k)
    then show ?thesis
      using Cons.IH [of k "drop 4 sh" "Suc n"] Cons.prems
      by (simp only: refresh_channels.simps nth_Cons_Suc two) (simp add: algebra_simps eval_nat_numeral)
  qed (simp add: and_power_bit eval_nat_numeral)
qed simp

text \<open>A refresh that reads the same upper half of the time twice ends, and takes over the registers: the
  flags of channel \<open>i\<close> are bit \<open>i\<close> of the registers.\<close>

theorem tlu_refresh_exact:
  assumes "bus_cycle bus (refresh_ops t) h = (EB_OK, vs, h1)" "vs ! 4 = vs ! 6" "length vs = 7 + 4 * length (tlu_channels t)"
  shows "\<exists>t'. tlu_refresh bus t h = Some (EB_OK, t', h1) \<and> length (tlu_channels t') = length (tlu_channels t) \<and>
    (\<forall>i < length (tlu_channels t).
       tc_active (tlu_channels t' ! i) = bit (vs ! 0) i \<and> tc_pos_edge (tlu_channels t' ! i) = bit (vs ! 1) i \<and>
       tc_int_enable (tlu_channels t' ! i) = bit (vs ! 3) i \<and> tc_queued (tlu_channels t' ! i) = ucast (vs ! (7 + 4 * i)))"
  using assms refresh_channels_nth [of _ "tlu_channels t" "drop 7 vs" vs 0]
  by (subst tlu_refresh.simps) simp

lemma tlu_refresh_keeps:
  "tlu_refresh bus t h = Some r \<Longrightarrow>
   tlu_address (fst (snd r)) = tlu_address t \<and> tlu_num_channels (fst (snd r)) = tlu_num_channels t \<and>
   length (tlu_channels (fst (snd r))) = length (tlu_channels t)"
proof (induction rule: tlu_refresh.raw_induct [rotated, consumes 1, case_names step])
  case (step refresh bus t h r)
  show ?case
    using step by (auto split: prod.splits if_splits)
qed

section \<open>The units that are found\<close>

lemma probe_tlus_units:
  "probe_tlus bus ts h = Some (EB_OK, ts', h') \<Longrightarrow> \<forall>t \<in> set ts. tlu_channels t = [] \<Longrightarrow>
   map tlu_address ts' = map tlu_address ts \<and>
   (\<forall>t \<in> set ts'. tlu_num_channels t = word_of_nat (length (tlu_channels t)))"
proof (induction ts arbitrary: h ts')
  case (Cons t ts)
  let ?ops = "[Bread (tlu_address t + TLU_NUM_CHANNELS) EB_DATA32, Bread (tlu_address t + TLU_QUEUE_SIZE) EB_DATA32]"
  obtain st vs h1 where cyc: "bus_cycle bus ?ops h = (st, vs, h1)" by (metis prod_cases3)
  let ?t = "t\<lparr>tlu_num_channels := ucast (vs ! 0), tlu_queue_size := ucast (vs ! 1),
    tlu_channels := resize_channels (unat (vs ! 0)) (tlu_channels t)\<rparr>"
  obtain t1 h2 ts1 where run: "tlu_refresh bus ?t h1 = Some (EB_OK, t1, h2)"
    "probe_tlus bus ts h2 = Some (EB_OK, ts1, h')" "ts' = t1 # ts1"
    using Cons.prems(1) cyc by (auto split: if_splits option.splits)
  have "length (resize_channels (unat (vs ! 0)) (tlu_channels t)) = unat (vs ! 0)"
    by (simp add: resize_channels_def)
  then have "tlu_address t1 = tlu_address t" "tlu_num_channels t1 = word_of_nat (length (tlu_channels t1))"
    using tlu_refresh_keeps [OF run(1)] by (simp_all add: unsigned_def)
  then show ?case
    using Cons.IH [OF run(2)] Cons.prems(2) by (simp add: run(3))
qed simp

text \<open>Probing finds exactly the timestamp latch units of version 1, in the order of the bus, and gives each
  as many channels as its register says.\<close>

theorem tlu_probe_units:
  assumes ds: "root_devices scan ds" and probe: "tlu_probe bus scan h = Some (Inr (EB_OK, ts, h'))"
  shows "map tlu_address ts = map (\<lambda>d. addr_first (dev_component d)) (filter tlu_device ds) \<and>
    (\<forall>t \<in> set ts. tlu_num_channels t = word_of_nat (length (tlu_channels t)))"
proof -
  obtain h1 where "search_root tlu_visit scan [] h = Some (Inr ((EB_OK, map found_tlu (filter tlu_device ds)), h1))"
    using search_root_visits [OF ds, of tlu_visit "[]" h] fold_visit_filter [of tlu_visit tlu_device found_tlu ds "[]"]
    by (auto simp: tlu_visit_def)
  with probe have "probe_tlus bus (map found_tlu (filter tlu_device ds)) h1 = Some (EB_OK, ts, h')"
    by (simp add: tlu_probe_def)
  from probe_tlus_units [OF this] show ?thesis by (simp add: found_tlu_def)
qed

end
